(* ===== verification/Prelude.thy ===== *)
theory Prelude
  imports Complex_Main "HOL-Library.Multiset"
begin

text \<open>
  Shared vocabulary of the development: the names of the primitive types the Go code uses
  (identifiers, instants, durations), the relational-table operations that the SQL statements
  of the stores are written with (\<open>UPDATE .. WHERE\<close>, \<open>ORDER BY .. LIMIT\<close>,
  \<open>COUNT(*)\<close>), the ordering interface those operations rely on as a locale, and the Go string
  search used by the error classifier.

  A table is the list of its rows in scan order. SQL promises no scan order, and every lemma
  below holds for all lists, hence for all scan orders.
\<close>

section \<open>Primitive types\<close>

type_synonym uuid = nat       \<comment> \<open>identifiers, only ever compared for equality\<close>
type_synonym time = int       \<comment> \<open>an instant in nanoseconds\<close>
type_synonym duration = int   \<comment> \<open>Go's \<open>time.Duration\<close>, nanoseconds\<close>

definition Second :: duration where "Second = 1000000000"
definition Minute :: duration where "Minute = 60 * Second"
definition Hour :: duration where "Hour = 60 * Minute"

text \<open>\<open>Duration.Milliseconds\<close>: truncated toward zero.\<close>

definition milliseconds :: "duration \<Rightarrow> int" where
  "milliseconds d = sgn d * (\<bar>d\<bar> div 1000000)"

lemmas duration_defs = Second_def Minute_def Hour_def

named_theorems row_simps \<open>how a statement acts on the columns of one row\<close>
named_theorems inv_intros \<open>preservation of an invariant by one operation\<close>

text \<open>PostgreSQL's \<open>INT\<close> column type: a value outside the range is an error.\<close>

definition int4 :: "int \<Rightarrow> bool" where
  "int4 n \<longleftrightarrow> - (2 ^ 31) \<le> n \<and> n < 2 ^ 31"

text \<open>Go's \<open>int\<close> is 64 bits wide and wraps.\<close>

definition wrap64 :: "int \<Rightarrow> int" where
  "wrap64 n = (n + 2 ^ 63) mod 2 ^ 64 - 2 ^ 63"

lemma wrap64_id: "- (2 ^ 63) \<le> n \<Longrightarrow> n < 2 ^ 63 \<Longrightarrow> wrap64 n = n"
  by (simp add: wrap64_def)

lemma wrap64_range: "- (2 ^ 63) \<le> wrap64 n" "wrap64 n < 2 ^ 63"
  by (simp_all add: wrap64_def)

section \<open>Tables\<close>

definition sql_update :: "('r \<Rightarrow> bool) \<Rightarrow> ('r \<Rightarrow> 'r) \<Rightarrow> 'r list \<Rightarrow> 'r list" where
  "sql_update P f t = map (\<lambda>r. if P r then f r else r) t"

definition sql_count :: "('r \<Rightarrow> bool) \<Rightarrow> 'r list \<Rightarrow> nat" where
  "sql_count P t = length (filter P t)"

lemma sql_update_Nil [simp]: "sql_update P f [] = []"
  by (simp add: sql_update_def)

lemma sql_update_Cons [simp]:
  "sql_update P f (r # t) = (if P r then f r else r) # sql_update P f t"
  by (simp add: sql_update_def)

lemma length_sql_update [simp]: "length (sql_update P f t) = length t"
  by (simp add: sql_update_def)

lemma set_sql_update: "set (sql_update P f t) = (\<lambda>r. if P r then f r else r) ` set t"
  by (simp add: sql_update_def)

lemma sql_update_none: "(\<And>r. r \<in> set t \<Longrightarrow> \<not> P r) \<Longrightarrow> sql_update P f t = t"
  by (simp add: sql_update_def map_idI)

lemma sql_count_0_iff: "sql_count P t = 0 \<longleftrightarrow> (\<forall>r \<in> set t. \<not> P r)"
  by (simp add: sql_count_def filter_empty_conv)

lemma sql_update_no_rows: "sql_count P t = 0 \<Longrightarrow> sql_update P f t = t"
  by (simp add: sql_count_0_iff sql_update_none)

text \<open>A column that the statement does not write keeps its values, row by row.\<close>

lemma map_sql_update:
  assumes "\<And>r. r \<in> set t \<Longrightarrow> P r \<Longrightarrow> g (f r) = g r"
  shows "map g (sql_update P f t) = map g t"
  using assms by (simp add: sql_update_def)

lemma sql_update_all:
  assumes "\<forall>r \<in> set t. Q r" and "\<And>r. r \<in> set t \<Longrightarrow> P r \<Longrightarrow> Q r \<Longrightarrow> Q (f r)"
  shows "\<forall>r \<in> set (sql_update P f t). Q r"
  using assms by (auto simp: set_sql_update)

lemma sql_update_preimage:
  assumes "r' \<in> set (sql_update P f t)"
  obtains r where "r \<in> set t" and "r' = (if P r then f r else r)"
  using assms by (auto simp: set_sql_update)

subsection \<open>Keys\<close>

text \<open>
  Rows with a primary key: looking a row up by its key, and the update of a single row.
\<close>

definition row_of :: "('r \<Rightarrow> 'k) \<Rightarrow> 'r list \<Rightarrow> 'k \<Rightarrow> 'r option" where
  "row_of key t k = find (\<lambda>r. key r = k) t"

definition keyed :: "('r \<Rightarrow> 'k) \<Rightarrow> 'r list \<Rightarrow> bool" where
  "keyed key t \<longleftrightarrow> distinct (map key t)"

lemma row_of_Nil [simp]: "row_of key [] k = None"
  by (simp add: row_of_def)

lemma row_of_Cons [simp]: "row_of key (r # t) k = (if key r = k then Some r else row_of key t k)"
  by (simp add: row_of_def)

lemma row_of_SomeD: "row_of key t k = Some r \<Longrightarrow> r \<in> set t \<and> key r = k"
  by (induction t) (auto split: if_splits)

lemma row_of_None_iff: "row_of key t k = None \<longleftrightarrow> k \<notin> key ` set t"
  by (induction t) auto

lemma row_of_append:
  "row_of key (t @ u) k = (case row_of key t k of None \<Rightarrow> row_of key u k | Some r \<Rightarrow> Some r)"
  by (induction t) auto

lemma keyed_Nil [simp]: "keyed key []"
  by (simp add: keyed_def)

lemma keyed_Cons [simp]: "keyed key (r # t) \<longleftrightarrow> key r \<notin> key ` set t \<and> keyed key t"
  by (simp add: keyed_def)

lemma keyed_row_of: "keyed key t \<Longrightarrow> r \<in> set t \<Longrightarrow> row_of key t (key r) = Some r"
  by (induction t) (auto simp: image_iff)

lemma keyed_unique: "keyed key t \<Longrightarrow> r \<in> set t \<Longrightarrow> r' \<in> set t \<Longrightarrow> key r = key r' \<Longrightarrow> r = r'"
  by (metis keyed_row_of option.inject)

lemma keyed_append: "keyed key t \<Longrightarrow> key r \<notin> key ` set t \<Longrightarrow> keyed key (t @ [r])"
  by (simp add: keyed_def)

lemma keyed_sql_update:
  assumes "keyed key t" and "\<And>r. P r \<Longrightarrow> key (f r) = key r"
  shows "keyed key (sql_update P f t)"
  using assms by (simp add: keyed_def map_sql_update)

lemma row_of_sql_update:
  assumes "\<And>r. P r \<Longrightarrow> key (f r) = key r"
  shows "row_of key (sql_update P f t) k =
           map_option (\<lambda>r. if P r then f r else r) (row_of key t k)"
  using assms by (induction t) auto

lemma row_of_update_key:
  assumes "\<And>r. key r = k \<Longrightarrow> key (f r) = k"
  shows "row_of key (sql_update (\<lambda>r. key r = k) f t) = (row_of key t)(k := map_option f (row_of key t k))"
proof
  fix i
  show "row_of key (sql_update (\<lambda>r. key r = k) f t) i = ((row_of key t)(k := map_option f (row_of key t k))) i"
    using assms by (induction t) auto
qed

lemma row_of_snoc: "row_of key t (key r) = None \<Longrightarrow> row_of key (t @ [r]) = (row_of key t)(key r \<mapsto> r)"
  by (auto simp: row_of_append fun_eq_iff split: option.splits)

section \<open>Ordering rows\<close>

text \<open>
  \<open>ORDER BY\<close> sorts by a strict weak order: rows that agree on every sort key are
  incomparable. \<open>sql_sort\<close> is a stable insertion sort, \<open>sql_first\<close> the row that
  \<open>ORDER BY .. LIMIT 1\<close> returns.
\<close>

fun sql_insert :: "('r \<Rightarrow> 'r \<Rightarrow> bool) \<Rightarrow> 'r \<Rightarrow> 'r list \<Rightarrow> 'r list" where
  "sql_insert lt x [] = [x]"
| "sql_insert lt x (y # ys) = (if lt y x then y # sql_insert lt x ys else x # y # ys)"

fun sql_sort :: "('r \<Rightarrow> 'r \<Rightarrow> bool) \<Rightarrow> 'r list \<Rightarrow> 'r list" where
  "sql_sort lt [] = []"
| "sql_sort lt (x # xs) = sql_insert lt x (sql_sort lt xs)"

fun sql_first :: "('r \<Rightarrow> 'r \<Rightarrow> bool) \<Rightarrow> 'r list \<Rightarrow> 'r option" where
  "sql_first lt [] = None"
| "sql_first lt (x # xs) =
     (case sql_first lt xs of None \<Rightarrow> Some x | Some y \<Rightarrow> if lt y x then Some y else Some x)"

definition ordered_by :: "('r \<Rightarrow> 'r \<Rightarrow> bool) \<Rightarrow> 'r list \<Rightarrow> bool" where
  "ordered_by lt xs \<longleftrightarrow> sorted_wrt (\<lambda>x y. \<not> lt y x) xs"

lemma ordered_by_Nil [simp]: "ordered_by lt []"
  by (simp add: ordered_by_def)

lemma ordered_by_Cons [simp]:
  "ordered_by lt (x # xs) \<longleftrightarrow> (\<forall>y \<in> set xs. \<not> lt y x) \<and> ordered_by lt xs"
  by (simp add: ordered_by_def)

lemma mset_sql_insert [simp]: "mset (sql_insert lt x xs) = {#x#} + mset xs"
  by (induction xs) auto

lemma set_sql_insert [simp]: "set (sql_insert lt x xs) = insert x (set xs)"
  by (induction xs) auto

lemma mset_sql_sort [simp]: "mset (sql_sort lt xs) = mset xs"
  by (induction xs) auto

lemma set_sql_sort [simp]: "set (sql_sort lt xs) = set xs"
  by (induction xs) auto

lemma length_sql_sort [simp]: "length (sql_sort lt xs) = length xs"
  by (metis mset_sql_sort size_mset)

lemma distinct_sql_sort: "distinct (map g (sql_sort lt xs)) = distinct (map g xs)"
  by (rule mset_eq_imp_distinct_iff) simp

lemma sql_first_in: "sql_first lt xs = Some x \<Longrightarrow> x \<in> set xs"
  by (induction xs arbitrary: x) (auto split: option.splits if_splits)

lemma sql_first_None_iff: "sql_first lt xs = None \<longleftrightarrow> xs = []"
  by (cases xs) (auto split: option.splits)

locale row_order =
  fixes lt :: "'r \<Rightarrow> 'r \<Rightarrow> bool"
  assumes lt_asym: "lt x y \<Longrightarrow> \<not> lt y x"
    and lt_negtrans: "\<not> lt x y \<Longrightarrow> \<not> lt y z \<Longrightarrow> \<not> lt x z"
begin

lemma lt_irrefl: "\<not> lt x x"
  using lt_asym by blast

lemma lt_trans: "lt x y \<Longrightarrow> lt y z \<Longrightarrow> lt x z"
  using lt_asym lt_negtrans by blast

lemma ordered_insert: "ordered_by lt xs \<Longrightarrow> ordered_by lt (sql_insert lt x xs)"
proof (induction xs)
  case Nil
  then show ?case by simp
next
  case (Cons y ys)
  show ?case
  proof (cases "lt y x")
    case True
    with Cons show ?thesis using lt_asym by auto
  next
    case False
    with Cons.prems show ?thesis using lt_negtrans by auto
  qed
qed

lemma ordered_sort: "ordered_by lt (sql_sort lt xs)"
  by (induction xs) (auto intro: ordered_insert)

lemma first_least: "sql_first lt xs = Some x \<Longrightarrow> y \<in> set xs \<Longrightarrow> \<not> lt y x"
proof (induction xs arbitrary: x)
  case Nil
  then show ?case by simp
next
  case (Cons z zs)
  show ?case
  proof (cases "sql_first lt zs")
    case None
    with Cons.prems show ?thesis
      by (auto simp: sql_first_None_iff lt_irrefl)
  next
    case (Some w)
    with Cons.prems Cons.IH [OF Some] show ?thesis
      by (auto split: if_splits intro: lt_irrefl dest: lt_asym lt_negtrans)
  qed
qed

lemma first_is_head: "sql_first lt xs = Some x \<Longrightarrow> \<exists>ys. sql_sort lt xs = x # ys"
proof (induction xs arbitrary: x)
  case Nil
  then show ?case by simp
next
  case (Cons z zs)
  show ?case
  proof (cases "sql_first lt zs")
    case None
    with Cons.prems show ?thesis by (auto simp: sql_first_None_iff)
  next
    case (Some w)
    then obtain ys where "sql_sort lt zs = w # ys" using Cons.IH by blast
    with Some Cons.prems show ?thesis by (auto split: if_splits)
  qed
qed

end

section \<open>Strings\<close>

text \<open>Go's \<open>strings.Contains\<close>, on byte strings.\<close>

fun has_prefix :: "string \<Rightarrow> string \<Rightarrow> bool" where
  "has_prefix s [] = True"
| "has_prefix [] (c # p) = False"
| "has_prefix (x # s) (c # p) = (x = c \<and> has_prefix s p)"

fun contains :: "string \<Rightarrow> string \<Rightarrow> bool" where
  "contains [] p = (p = [])"
| "contains (x # s) p = (has_prefix (x # s) p \<or> contains s p)"

lemma has_prefix_iff: "has_prefix s p \<longleftrightarrow> (\<exists>t. s = p @ t)"
  by (induction s p rule: has_prefix.induct) auto

lemma contains_iff: "contains s p \<longleftrightarrow> (\<exists>a b. s = a @ p @ b)"
proof (induction s)
  case Nil
  then show ?case by simp
next
  case (Cons x s)
  have "(\<exists>a b. x # s = a @ p @ b) \<longleftrightarrow> (\<exists>b. x # s = p @ b) \<or> (\<exists>a b. s = a @ p @ b)"
    by (metis append_Cons append_Nil list.inject neq_Nil_conv)
  with Cons show ?case by (auto simp: has_prefix_iff)
qed

lemma contains_append: "contains s p \<Longrightarrow> contains (a @ s @ b) p"
  unfolding contains_iff by (metis append_assoc)

end
