(* ===== verification/Jobs.thy ===== *)
theory Jobs
  imports Prelude
begin

text \<open>
  The job queue: \<open>src/internal/jobs/queue.go\<close> over the table \<open>processing_jobs\<close>, with the
  data of \<open>src/internal/db/models/models.go\<close> and the transition table of
  \<open>src/internal/orchestrator/lifecycle.go\<close>.

  The state is the table and the audit log. Each exported method is one function from the
  environment of the call (the instant \<open>time.Now()\<close> returns, whether the database executes
  the statement, which audit writes are accepted), the arguments and the state to the result and
  the new state. A method issues one SQL statement, which is atomic, so a method is one step of
  the system and an interleaving of workers is a sequence of steps.
\<close>

section \<open>Data\<close>

datatype job_status =
  JobStatusQueued | JobStatusLeased | JobStatusSucceeded
  | JobStatusFailed | JobStatusRetryScheduled | JobStatusDeadLetter

fun status_str :: "job_status \<Rightarrow> string" where
  "status_str JobStatusQueued = ''queued''"
| "status_str JobStatusLeased = ''leased''"
| "status_str JobStatusSucceeded = ''succeeded''"
| "status_str JobStatusFailed = ''failed''"
| "status_str JobStatusRetryScheduled = ''retry_scheduled''"
| "status_str JobStatusDeadLetter = ''dead_letter''"

definition KnownJobTypes :: "string list" where
  "KnownJobTypes = [''llm_rewrite'', ''llm_routing'', ''rules_classify'', ''composite'']"

definition IsKnownJobType :: "string \<Rightarrow> bool" where
  "IsKnownJobType jobType \<longleftrightarrow> jobType \<in> set KnownJobTypes"

record processing_job =
  job_ID :: uuid
  job_SourceTaskID :: uuid
  job_JobType :: string
  job_Status :: job_status
  job_Priority :: int
  job_DedupeKey :: "string option"
  job_AttemptCount :: int
  job_MaxAttempts :: int
  job_Payload :: string
  job_ErrorCode :: "string option"
  job_ErrorMessage :: "string option"
  job_LeasedAt :: "time option"
  job_LeaseExpiry :: "time option"
  job_LeasedByWorkerID :: "string option"
  job_ScheduledAt :: "time option"
  job_CreatedAt :: time
  job_UpdatedAt :: time

record audit_event =
  ae_EntityID :: uuid
  ae_EventType :: string
  ae_ActorType :: string
  ae_ActorID :: string

record queue_db =
  processing_jobs :: "processing_job list"
  audit_events :: "audit_event list"

record job_env =
  env_now :: time
  env_db_ok :: bool
  env_audit_ok :: "string \<Rightarrow> bool"

record enqueue_params =
  ep_SourceTaskID :: uuid
  ep_JobType :: string
  ep_Priority :: int
  ep_DedupeKey :: "string option"
  ep_MaxAttempts :: int

record fail_result =
  fr_NewStatus :: job_status
  fr_AttemptCount :: int
  fr_MaxAttempts :: int
  fr_ScheduledAt :: "time option"

datatype queue_error = ErrUnknownJobType string | DbError | UniqueViolation | ErrNoRows

definition leaseDuration :: duration where "leaseDuration = 5 * Minute"

section \<open>Operations\<close>

text \<open>\<open>record\<close>: the audit write is attempted and its failure is swallowed.\<close>

definition queue_record :: "job_env \<Rightarrow> uuid \<Rightarrow> string \<Rightarrow> string \<Rightarrow> string \<Rightarrow> queue_db \<Rightarrow> queue_db" where
  "queue_record env entityID eventType actorType actorID q =
     (if env_audit_ok env eventType
      then q\<lparr>audit_events := audit_events q @
             [\<lparr>ae_EntityID = entityID, ae_EventType = eventType,
               ae_ActorType = actorType, ae_ActorID = actorID\<rparr>]\<rparr>
      else q)"

text \<open>The partial unique index \<open>uq_processing_jobs_dedupe\<close> covers the live rows with a key.\<close>

definition live :: "processing_job \<Rightarrow> bool" where
  "live j \<longleftrightarrow> job_DedupeKey j \<noteq> None \<and>
     job_Status j \<noteq> JobStatusSucceeded \<and> job_Status j \<noteq> JobStatusDeadLetter"

definition dedupe_conflict :: "string option \<Rightarrow> processing_job list \<Rightarrow> bool" where
  "dedupe_conflict k t \<longleftrightarrow> k \<noteq> None \<and> (\<exists>j \<in> set t. live j \<and> job_DedupeKey j = k)"

definition new_job :: "time \<Rightarrow> uuid \<Rightarrow> enqueue_params \<Rightarrow> processing_job" where
  "new_job now new_id params =
     \<lparr>job_ID = new_id, job_SourceTaskID = ep_SourceTaskID params,
      job_JobType = ep_JobType params, job_Status = JobStatusQueued,
      job_Priority = ep_Priority params, job_DedupeKey = ep_DedupeKey params,
      job_AttemptCount = 0,
      job_MaxAttempts = (if ep_MaxAttempts params \<le> 0 then 3 else ep_MaxAttempts params),
      job_Payload = ''{}'', job_ErrorCode = None, job_ErrorMessage = None,
      job_LeasedAt = None, job_LeaseExpiry = None, job_LeasedByWorkerID = None,
      job_ScheduledAt = None, job_CreatedAt = now, job_UpdatedAt = now\<rparr>"

definition Enqueue ::
  "job_env \<Rightarrow> uuid \<Rightarrow> enqueue_params \<Rightarrow> queue_db \<Rightarrow> (queue_error + processing_job option) \<times> queue_db"
where
  "Enqueue env new_id params q =
     (if \<not> IsKnownJobType (ep_JobType params)
      then (Inl (ErrUnknownJobType (ep_JobType params)), q)
      else
        (let job = new_job (env_now env) new_id params in
         if \<not> env_db_ok env \<or> \<not> int4 (job_Priority job) \<or> \<not> int4 (job_MaxAttempts job)
         then (Inl DbError, q)
         else if dedupe_conflict (job_DedupeKey job) (processing_jobs q)
         then (Inr None, q)
         else if new_id \<in> job_ID ` set (processing_jobs q)
         then (Inl UniqueViolation, q)
         else (Inr (Some job),
               queue_record env new_id ''job.created'' ''system'' ''queue''
                 (q\<lparr>processing_jobs := processing_jobs q @ [job]\<rparr>))))"

text \<open>
  \<open>Lease\<close>: the subselect takes the first queued row, due and of a requested type, that no
  concurrent transaction has locked (\<open>SKIP LOCKED\<close>), by priority and then by age.
\<close>

definition lease_before :: "processing_job \<Rightarrow> processing_job \<Rightarrow> bool" where
  "lease_before a b \<longleftrightarrow> job_Priority b < job_Priority a \<or>
     (job_Priority a = job_Priority b \<and> job_CreatedAt a < job_CreatedAt b)"

definition leasable :: "time \<Rightarrow> string list \<Rightarrow> uuid set \<Rightarrow> processing_job \<Rightarrow> bool" where
  "leasable now jobTypes locked j \<longleftrightarrow>
     job_Status j = JobStatusQueued \<and>
     (case job_ScheduledAt j of None \<Rightarrow> True | Some s \<Rightarrow> s \<le> now) \<and>
     job_JobType j \<in> set jobTypes \<and> job_ID j \<notin> locked"

definition set_leased :: "time \<Rightarrow> string \<Rightarrow> processing_job \<Rightarrow> processing_job" where
  "set_leased now workerID j =
     j\<lparr>job_Status := JobStatusLeased, job_LeasedAt := Some now,
       job_LeaseExpiry := Some (now + leaseDuration),
       job_LeasedByWorkerID := Some workerID, job_UpdatedAt := now\<rparr>"

definition Lease ::
  "job_env \<Rightarrow> uuid set \<Rightarrow> string \<Rightarrow> string list \<Rightarrow> queue_db \<Rightarrow>
     (queue_error + processing_job option) \<times> queue_db"
where
  "Lease env locked workerID jobTypes q =
     (if \<not> env_db_ok env then (Inl DbError, q)
      else case sql_first lease_before
                  (filter (leasable (env_now env) jobTypes locked) (processing_jobs q)) of
        None \<Rightarrow> (Inr None, q)
      | Some j \<Rightarrow>
          (Inr (Some ((set_leased (env_now env) workerID j)
                        \<lparr>job_ErrorCode := None, job_ErrorMessage := None\<rparr>)),
           queue_record env (job_ID j) ''job.leased'' ''worker'' workerID
             (q\<lparr>processing_jobs :=
                  sql_update (\<lambda>r. job_ID r = job_ID j) (set_leased (env_now env) workerID)
                    (processing_jobs q)\<rparr>)))"

text \<open>The ownership guard of \<open>Complete\<close>, \<open>Fail\<close> and \<open>RenewLease\<close>.\<close>

definition owned :: "uuid \<Rightarrow> string \<Rightarrow> processing_job \<Rightarrow> bool" where
  "owned jobID workerID j \<longleftrightarrow> job_ID j = jobID \<and> job_Status j = JobStatusLeased \<and>
     job_LeasedByWorkerID j = Some workerID"

definition set_completed :: "time \<Rightarrow> processing_job \<Rightarrow> processing_job" where
  "set_completed now j =
     j\<lparr>job_Status := JobStatusSucceeded, job_LeasedByWorkerID := None, job_UpdatedAt := now\<rparr>"

definition Complete ::
  "job_env \<Rightarrow> uuid \<Rightarrow> string \<Rightarrow> queue_db \<Rightarrow> (queue_error + unit) \<times> queue_db"
where
  "Complete env jobID workerID q =
     (if \<not> env_db_ok env then (Inl DbError, q)
      else if sql_count (owned jobID workerID) (processing_jobs q) = 0 then (Inr (), q)
      else (Inr (),
            queue_record env jobID ''job.completed'' ''worker'' workerID
              (q\<lparr>processing_jobs :=
                   sql_update (owned jobID workerID) (set_completed (env_now env))
                     (processing_jobs q)\<rparr>)))"

definition set_failed :: "time \<Rightarrow> string \<Rightarrow> string \<Rightarrow> processing_job \<Rightarrow> processing_job" where
  "set_failed now errCode errMsg j =
     (let n = job_AttemptCount j + 1; exhausted = (job_MaxAttempts j \<le> n) in
      j\<lparr>job_Status := (if exhausted then JobStatusDeadLetter else JobStatusRetryScheduled),
        job_AttemptCount := n,
        job_LeasedByWorkerID := None,
        job_ScheduledAt := (if exhausted then None else Some (now + n * n * 30 * Second)),
        job_UpdatedAt := now,
        job_ErrorCode := Some errCode,
        job_ErrorMessage := Some errMsg\<rparr>)"

definition Fail ::
  "job_env \<Rightarrow> uuid \<Rightarrow> string \<Rightarrow> string \<Rightarrow> string \<Rightarrow> queue_db \<Rightarrow>
     (queue_error + fail_result option) \<times> queue_db"
where
  "Fail env jobID workerID errCode errMsg q =
     (if \<not> env_db_ok env then (Inl DbError, q)
      else case find (owned jobID workerID) (processing_jobs q) of
        None \<Rightarrow> (Inr None, q)
      | Some j \<Rightarrow>
          if \<not> int4 (job_AttemptCount j + 1) then (Inl DbError, q)
          else
            (let j' = set_failed (env_now env) errCode errMsg j;
                 disposition = (if job_Status j' = JobStatusDeadLetter
                                then ''job.dead_letter'' else ''job.retry_scheduled'')
             in (Inr (Some \<lparr>fr_NewStatus = job_Status j', fr_AttemptCount = job_AttemptCount j',
                            fr_MaxAttempts = job_MaxAttempts j',
                            fr_ScheduledAt = job_ScheduledAt j'\<rparr>),
                 queue_record env jobID disposition ''worker'' workerID
                   (queue_record env jobID ''job.failed'' ''worker'' workerID
                     (q\<lparr>processing_jobs :=
                          sql_update (owned jobID workerID)
                            (set_failed (env_now env) errCode errMsg)
                            (processing_jobs q)\<rparr>)))))"

definition set_renewed :: "time \<Rightarrow> processing_job \<Rightarrow> processing_job" where
  "set_renewed now j = j\<lparr>job_LeaseExpiry := Some (now + leaseDuration), job_UpdatedAt := now\<rparr>"

definition RenewLease ::
  "job_env \<Rightarrow> uuid \<Rightarrow> string \<Rightarrow> queue_db \<Rightarrow> (queue_error + bool) \<times> queue_db"
where
  "RenewLease env jobID workerID q =
     (if \<not> env_db_ok env then (Inl DbError, q)
      else if sql_count (owned jobID workerID) (processing_jobs q) = 0 then (Inr False, q)
      else (Inr True,
            queue_record env jobID ''job.lease_renewed'' ''worker'' workerID
              (q\<lparr>processing_jobs :=
                   sql_update (owned jobID workerID) (set_renewed (env_now env))
                     (processing_jobs q)\<rparr>)))"

definition lease_expired :: "time \<Rightarrow> processing_job \<Rightarrow> bool" where
  "lease_expired now j \<longleftrightarrow> job_Status j = JobStatusLeased \<and>
     (case job_LeaseExpiry j of None \<Rightarrow> False | Some e \<Rightarrow> e < now)"

definition set_reclaimed :: "time \<Rightarrow> processing_job \<Rightarrow> processing_job" where
  "set_reclaimed now j =
     j\<lparr>job_Status := JobStatusQueued, job_LeasedAt := None, job_LeaseExpiry := None,
       job_LeasedByWorkerID := None, job_UpdatedAt := now\<rparr>"

definition ReclaimExpiredLeases :: "job_env \<Rightarrow> queue_db \<Rightarrow> (queue_error + nat) \<times> queue_db" where
  "ReclaimExpiredLeases env q =
     (if \<not> env_db_ok env then (Inl DbError, q)
      else
        (let expired = filter (lease_expired (env_now env)) (processing_jobs q) in
         (Inr (length expired),
          fold (\<lambda>j. queue_record env (job_ID j) ''job.reclaimed'' ''system'' ''maintenance'')
            expired
            (q\<lparr>processing_jobs :=
                 sql_update (lease_expired (env_now env)) (set_reclaimed (env_now env))
                   (processing_jobs q)\<rparr>))))"

definition retry_due :: "time \<Rightarrow> processing_job \<Rightarrow> bool" where
  "retry_due now j \<longleftrightarrow> job_Status j = JobStatusRetryScheduled \<and>
     (case job_ScheduledAt j of None \<Rightarrow> False | Some s \<Rightarrow> s \<le> now)"

definition set_requeued :: "time \<Rightarrow> processing_job \<Rightarrow> processing_job" where
  "set_requeued now j = j\<lparr>job_Status := JobStatusQueued, job_UpdatedAt := now\<rparr>"

definition RequeueScheduledRetries :: "job_env \<Rightarrow> queue_db \<Rightarrow> (queue_error + nat) \<times> queue_db" where
  "RequeueScheduledRetries env q =
     (if \<not> env_db_ok env then (Inl DbError, q)
      else (Inr (sql_count (retry_due (env_now env)) (processing_jobs q)),
            q\<lparr>processing_jobs :=
                sql_update (retry_due (env_now env)) (set_requeued (env_now env))
                  (processing_jobs q)\<rparr>))"

text \<open>\<open>GetJob\<close> does not select the owner and the error columns: they come back nil.\<close>

definition GetJob :: "job_env \<Rightarrow> uuid \<Rightarrow> queue_db \<Rightarrow> queue_error + processing_job" where
  "GetJob env jobID q =
     (if \<not> env_db_ok env then Inl DbError
      else case row_of job_ID (processing_jobs q) jobID of
        None \<Rightarrow> Inl ErrNoRows
      | Some j \<Rightarrow> Inr (j\<lparr>job_LeasedByWorkerID := None, job_ErrorCode := None,
                          job_ErrorMessage := None\<rparr>))"

definition retryable :: "uuid \<Rightarrow> processing_job \<Rightarrow> bool" where
  "retryable jobID j \<longleftrightarrow> job_ID j = jobID \<and>
     (job_Status j = JobStatusFailed \<or> job_Status j = JobStatusDeadLetter)"

definition set_retried :: "time \<Rightarrow> processing_job \<Rightarrow> processing_job" where
  "set_retried now j =
     j\<lparr>job_Status := JobStatusQueued, job_ScheduledAt := None, job_UpdatedAt := now\<rparr>"

text \<open>
  \<open>Retry\<close> makes a dead-lettered row live again, so the unique index can refuse the update.
\<close>

definition Retry :: "job_env \<Rightarrow> uuid \<Rightarrow> queue_db \<Rightarrow> (queue_error + unit) \<times> queue_db" where
  "Retry env jobID q =
     (if \<not> env_db_ok env then (Inl DbError, q)
      else case find (retryable jobID) (processing_jobs q) of
        None \<Rightarrow> (Inl ErrNoRows, q)
      | Some j \<Rightarrow>
          if \<not> live j \<and> dedupe_conflict (job_DedupeKey j) (processing_jobs q)
          then (Inl UniqueViolation, q)
          else (Inr (),
                queue_record env jobID ''job.retried'' ''system'' ''queue''
                  (q\<lparr>processing_jobs :=
                       sql_update (retryable jobID) (set_retried (env_now env))
                         (processing_jobs q)\<rparr>)))"

definition stat_statuses :: "job_status list" where
  "stat_statuses = [JobStatusQueued, JobStatusLeased, JobStatusRetryScheduled,
                    JobStatusFailed, JobStatusDeadLetter]"

definition has_status :: "job_status \<Rightarrow> processing_job \<Rightarrow> bool" where
  "has_status s j \<longleftrightarrow> job_Status j = s"

text \<open>\<open>QueueStats\<close>: \<open>GROUP BY\<close> returns no row for an absent status; the zero stays.\<close>

definition QueueStats :: "job_env \<Rightarrow> queue_db \<Rightarrow> queue_error + (string \<rightharpoonup> nat)" where
  "QueueStats env q =
     (if \<not> env_db_ok env then Inl DbError
      else Inr (map_of (map (\<lambda>s. (status_str s, 0)) stat_statuses) ++
                map_of (map (\<lambda>s. (status_str s, sql_count (has_status s) (processing_jobs q)))
                  (filter (\<lambda>s. 0 < sql_count (has_status s) (processing_jobs q))
                    stat_statuses))))"

definition unknown_type :: "string list \<Rightarrow> processing_job \<Rightarrow> bool" where
  "unknown_type knownTypes j \<longleftrightarrow>
     job_Status j = JobStatusQueued \<and> job_JobType j \<notin> set knownTypes"

definition set_unknown :: "time \<Rightarrow> processing_job \<Rightarrow> processing_job" where
  "set_unknown now j =
     j\<lparr>job_Status := JobStatusDeadLetter, job_ErrorCode := Some ''UNKNOWN_JOB_TYPE'',
       job_ErrorMessage := Some ''job type is not recognised by any processor'',
       job_UpdatedAt := now\<rparr>"

definition FailUnknownJobTypes ::
  "job_env \<Rightarrow> string list \<Rightarrow> queue_db \<Rightarrow> (queue_error + nat) \<times> queue_db"
where
  "FailUnknownJobTypes env knownTypes q =
     (if \<not> env_db_ok env then (Inl DbError, q)
      else
        (let bad = filter (unknown_type knownTypes) (processing_jobs q) in
         (Inr (length bad),
          fold (\<lambda>j. queue_record env (job_ID j) ''job.dead_letter'' ''system'' ''control_loop'')
            bad
            (q\<lparr>processing_jobs :=
                 sql_update (unknown_type knownTypes) (set_unknown (env_now env))
                   (processing_jobs q)\<rparr>))))"

text \<open>The transition table of \<open>lifecycle.go\<close>.\<close>

definition ValidTransitions :: "string \<rightharpoonup> string list" where
  "ValidTransitions = map_of
     [(''queued'', [''leased'', ''dead_letter'']),
      (''leased'', [''running'', ''failed'', ''dead_letter'']),
      (''running'', [''succeeded'', ''failed'', ''retry_scheduled'', ''dead_letter'']),
      (''retry_scheduled'', [''queued'']),
      (''failed'', [''retry_scheduled'', ''dead_letter'']),
      (''succeeded'', []),
      (''dead_letter'', [])]"

definition CanTransition :: "string \<Rightarrow> string \<Rightarrow> bool" where
  "CanTransition from to =
     (case ValidTransitions from of None \<Rightarrow> False | Some allowed \<Rightarrow> list_ex (\<lambda>s. s = to) allowed)"

section \<open>How the statements act on a row\<close>

lemmas set_defs = set_leased_def set_completed_def set_failed_def set_renewed_def
  set_reclaimed_def set_requeued_def set_retried_def set_unknown_def

lemma set_keeps_ID [row_simps, simp]:
  "job_ID (set_leased now w j) = job_ID j"
  "job_ID (set_completed now j) = job_ID j"
  "job_ID (set_failed now c m j) = job_ID j"
  "job_ID (set_renewed now j) = job_ID j"
  "job_ID (set_reclaimed now j) = job_ID j"
  "job_ID (set_requeued now j) = job_ID j"
  "job_ID (set_retried now j) = job_ID j"
  "job_ID (set_unknown now j) = job_ID j"
  by (simp_all add: set_defs Let_def)

lemma set_keeps_DedupeKey [row_simps, simp]:
  "job_DedupeKey (set_leased now w j) = job_DedupeKey j"
  "job_DedupeKey (set_completed now j) = job_DedupeKey j"
  "job_DedupeKey (set_failed now c m j) = job_DedupeKey j"
  "job_DedupeKey (set_renewed now j) = job_DedupeKey j"
  "job_DedupeKey (set_reclaimed now j) = job_DedupeKey j"
  "job_DedupeKey (set_requeued now j) = job_DedupeKey j"
  "job_DedupeKey (set_retried now j) = job_DedupeKey j"
  "job_DedupeKey (set_unknown now j) = job_DedupeKey j"
  by (simp_all add: set_defs Let_def)

lemma set_status [row_simps]:
  "job_Status (set_leased now w j) = JobStatusLeased"
  "job_Status (set_completed now j) = JobStatusSucceeded"
  "job_Status (set_failed now c m j) =
     (if job_MaxAttempts j \<le> job_AttemptCount j + 1 then JobStatusDeadLetter
      else JobStatusRetryScheduled)"
  "job_Status (set_renewed now j) = job_Status j"
  "job_Status (set_reclaimed now j) = JobStatusQueued"
  "job_Status (set_requeued now j) = JobStatusQueued"
  "job_Status (set_retried now j) = JobStatusQueued"
  "job_Status (set_unknown now j) = JobStatusDeadLetter"
  by (simp_all add: set_defs Let_def)

lemma set_owner [row_simps]:
  "job_LeasedByWorkerID (set_leased now w j) = Some w"
  "job_LeasedByWorkerID (set_completed now j) = None"
  "job_LeasedByWorkerID (set_failed now c m j) = None"
  "job_LeasedByWorkerID (set_renewed now j) = job_LeasedByWorkerID j"
  "job_LeasedByWorkerID (set_reclaimed now j) = None"
  "job_LeasedByWorkerID (set_requeued now j) = job_LeasedByWorkerID j"
  "job_LeasedByWorkerID (set_retried now j) = job_LeasedByWorkerID j"
  "job_LeasedByWorkerID (set_unknown now j) = job_LeasedByWorkerID j"
  by (simp_all add: set_defs Let_def)

lemma processing_jobs_record [simp]:
  "processing_jobs (queue_record env i e aty ac q) = processing_jobs q"
  by (simp add: queue_record_def)

lemma processing_jobs_fold_record [simp]:
  "processing_jobs (fold (\<lambda>j. queue_record env (f j) e aty ac) js q) = processing_jobs q"
  by (induction js arbitrary: q) simp_all

interpretation lease_order: row_order lease_before
  by unfold_locales (auto simp: lease_before_def)

section \<open>The table after each operation\<close>

text \<open>
  Every operation either leaves the table alone, appends one row, or is one \<open>UPDATE\<close>. The
  invariant proofs go through these equations only.
\<close>

lemma Enqueue_table:
  "processing_jobs (snd (Enqueue env i p q)) = processing_jobs q \<or>
   (processing_jobs (snd (Enqueue env i p q)) = processing_jobs q @ [new_job (env_now env) i p] \<and>
    i \<notin> job_ID ` set (processing_jobs q) \<and>
    \<not> dedupe_conflict (ep_DedupeKey p) (processing_jobs q) \<and> IsKnownJobType (ep_JobType p))"
  by (simp add: Enqueue_def Let_def new_job_def)

lemma Lease_cases:
  assumes "Lease env locked w types q = (r, q')"
  obtains (failed) "r = Inl DbError" "q' = q"
  | (none) "r = Inr None" "q' = q"
      "\<forall>j \<in> set (processing_jobs q). \<not> leasable (env_now env) types locked j"
  | (some) j where "j \<in> set (processing_jobs q)" "leasable (env_now env) types locked j"
      "\<forall>k \<in> set (processing_jobs q). leasable (env_now env) types locked k \<longrightarrow> \<not> lease_before k j"
      "r = Inr (Some ((set_leased (env_now env) w j)\<lparr>job_ErrorCode := None, job_ErrorMessage := None\<rparr>))"
      "processing_jobs q' = sql_update (\<lambda>r. job_ID r = job_ID j) (set_leased (env_now env) w)
         (processing_jobs q)"
proof -
  let ?cand = "filter (leasable (env_now env) types locked) (processing_jobs q)"
  consider "\<not> env_db_ok env" | "env_db_ok env" "sql_first lease_before ?cand = None"
    | j where "env_db_ok env" "sql_first lease_before ?cand = Some j"
    by (cases "sql_first lease_before ?cand") auto
  then show thesis
  proof cases
    case 1
    with assms failed show thesis by (simp add: Lease_def)
  next
    case 2
    with assms none show thesis
      by (auto simp: Lease_def sql_first_None_iff filter_empty_conv)
  next
    case (3 j)
    have "j \<in> set ?cand" using sql_first_in [OF 3(2)] .
    moreover have "\<forall>k \<in> set ?cand. \<not> lease_before k j"
      using lease_order.first_least [OF 3(2)] by blast
    moreover have "processing_jobs q' = sql_update (\<lambda>r. job_ID r = job_ID j)
        (set_leased (env_now env) w) (processing_jobs q)"
      "r = Inr (Some ((set_leased (env_now env) w j)\<lparr>job_ErrorCode := None, job_ErrorMessage := None\<rparr>))"
      using assms 3 by (auto simp: Lease_def)
    ultimately show thesis using some by auto
  qed
qed

lemma Complete_table:
  "processing_jobs (snd (Complete env i w q)) =
     (if env_db_ok env then sql_update (owned i w) (set_completed (env_now env)) (processing_jobs q)
      else processing_jobs q)"
  by (simp add: Complete_def sql_update_no_rows)

lemma RenewLease_table:
  "processing_jobs (snd (RenewLease env i w q)) =
     (if env_db_ok env then sql_update (owned i w) (set_renewed (env_now env)) (processing_jobs q)
      else processing_jobs q)"
  by (simp add: RenewLease_def sql_update_no_rows)

lemma Fail_table:
  "processing_jobs (snd (Fail env i w c m q)) = processing_jobs q \<or>
   processing_jobs (snd (Fail env i w c m q)) =
     sql_update (owned i w) (set_failed (env_now env) c m) (processing_jobs q)"
  by (auto simp: Fail_def Let_def split: option.splits)

lemma Reclaim_table:
  "processing_jobs (snd (ReclaimExpiredLeases env q)) =
     (if env_db_ok env then sql_update (lease_expired (env_now env)) (set_reclaimed (env_now env))
        (processing_jobs q) else processing_jobs q)"
  by (simp add: ReclaimExpiredLeases_def Let_def)

lemma Requeue_table:
  "processing_jobs (snd (RequeueScheduledRetries env q)) =
     (if env_db_ok env then sql_update (retry_due (env_now env)) (set_requeued (env_now env))
        (processing_jobs q) else processing_jobs q)"
  by (simp add: RequeueScheduledRetries_def)

lemma FailUnknown_table:
  "processing_jobs (snd (FailUnknownJobTypes env ks q)) =
     (if env_db_ok env then sql_update (unknown_type ks) (set_unknown (env_now env))
        (processing_jobs q) else processing_jobs q)"
  by (simp add: FailUnknownJobTypes_def Let_def)

lemma Retry_table:
  "processing_jobs (snd (Retry env i q)) = processing_jobs q \<or>
   (processing_jobs (snd (Retry env i q)) =
      sql_update (retryable i) (set_retried (env_now env)) (processing_jobs q) \<and>
    (\<exists>j \<in> set (processing_jobs q). retryable i j \<and>
       (live j \<or> \<not> dedupe_conflict (job_DedupeKey j) (processing_jobs q))))"
  by (auto simp: Retry_def find_Some_iff split: option.splits)

section \<open>Steps of the queue\<close>

text \<open>
  One rule per exported method that writes the table. The environment of every call is
  arbitrary, so a sequence of steps is any interleaving of workers, operators and the control
  loop, with any clock readings and any database failures.
\<close>

datatype queue_act =
  AEnqueue job_env uuid enqueue_params
  | ALease job_env "uuid set" string "string list"
  | AComplete job_env uuid string
  | AFail job_env uuid string string string
  | ARenew job_env uuid string
  | AReclaim job_env
  | ARequeue job_env
  | ARetry job_env uuid
  | AFailUnknown job_env "string list"

inductive queue_step :: "queue_db \<Rightarrow> queue_act \<Rightarrow> queue_db \<Rightarrow> bool" where
  enqueue: "queue_step q (AEnqueue env i p) (snd (Enqueue env i p q))"
| lease: "queue_step q (ALease env locked w types) (snd (Lease env locked w types q))"
| complete: "queue_step q (AComplete env i w) (snd (Complete env i w q))"
| fail: "queue_step q (AFail env i w c m) (snd (Fail env i w c m q))"
| renew: "queue_step q (ARenew env i w) (snd (RenewLease env i w q))"
| reclaim: "queue_step q (AReclaim env) (snd (ReclaimExpiredLeases env q))"
| requeue: "queue_step q (ARequeue env) (snd (RequeueScheduledRetries env q))"
| retry: "queue_step q (ARetry env i) (snd (Retry env i q))"
| fail_unknown: "queue_step q (AFailUnknown env ks) (snd (FailUnknownJobTypes env ks q))"

inductive queue_reach :: "queue_db \<Rightarrow> bool" where
  start: "queue_reach \<lparr>processing_jobs = [], audit_events = []\<rparr>"
| step: "queue_reach q \<Longrightarrow> queue_step q a q' \<Longrightarrow> queue_reach q'"

inductive_simps queue_step_simps:
  "queue_step q (AEnqueue env i p) q'"
  "queue_step q (ALease env locked w types) q'"
  "queue_step q (AComplete env i w) q'"
  "queue_step q (AFail env i w c m) q'"
  "queue_step q (ARenew env i w) q'"
  "queue_step q (AReclaim env) q'"
  "queue_step q (ARequeue env) q'"
  "queue_step q (ARetry env i) q'"
  "queue_step q (AFailUnknown env ks) q'"

text \<open>
  The shape of a step: nothing, one appended row, or one update whose guard and whose effect on
  a row are named. All step-wise proofs are case analyses on this datatype.
\<close>

definition step_update ::
  "queue_act \<Rightarrow> processing_job list \<Rightarrow>
     (processing_job \<Rightarrow> bool) \<Rightarrow> (processing_job \<Rightarrow> processing_job) \<Rightarrow> bool" where
  "step_update a t P f \<longleftrightarrow>
     (case a of
        AEnqueue _ _ _ \<Rightarrow> False
      | ALease env locked w types \<Rightarrow>
          \<exists>j \<in> set t. leasable (env_now env) types locked j \<and>
             P = (\<lambda>r. job_ID r = job_ID j) \<and> f = set_leased (env_now env) w
      | AComplete env i w \<Rightarrow> P = owned i w \<and> f = set_completed (env_now env)
      | AFail env i w c m \<Rightarrow> P = owned i w \<and> f = set_failed (env_now env) c m
      | ARenew env i w \<Rightarrow> P = owned i w \<and> f = set_renewed (env_now env)
      | AReclaim env \<Rightarrow> P = lease_expired (env_now env) \<and> f = set_reclaimed (env_now env)
      | ARequeue env \<Rightarrow> P = retry_due (env_now env) \<and> f = set_requeued (env_now env)
      | ARetry env i \<Rightarrow> P = retryable i \<and> f = set_retried (env_now env) \<and>
          (\<exists>j \<in> set t. retryable i j \<and> (live j \<or> \<not> dedupe_conflict (job_DedupeKey j) t))
      | AFailUnknown env ks \<Rightarrow> P = unknown_type ks \<and> f = set_unknown (env_now env))"

lemma queue_step_shape:
  assumes "queue_step q a q'"
  obtains (same) "processing_jobs q' = processing_jobs q"
  | (append) env i p where "a = AEnqueue env i p" "IsKnownJobType (ep_JobType p)"
      "processing_jobs q' = processing_jobs q @ [new_job (env_now env) i p]"
      "i \<notin> job_ID ` set (processing_jobs q)"
      "\<not> dedupe_conflict (ep_DedupeKey p) (processing_jobs q)"
  | (update) P f where "step_update a (processing_jobs q) P f"
      "processing_jobs q' = sql_update P f (processing_jobs q)"
  using assms
proof (cases rule: queue_step.cases)
  case (enqueue env i p)
  then show thesis using Enqueue_table [of env i p q] same append by blast
next
  case (lease env locked w types)
  obtain r q1 where L: "Lease env locked w types q = (r, q1)" by fastforce
  with lease have "q' = q1" by simp
  from L show thesis
  proof (cases rule: Lease_cases)
    case (some j)
    then have "step_update a (processing_jobs q) (\<lambda>r. job_ID r = job_ID j) (set_leased (env_now env) w)"
      using lease by (auto simp: step_update_def)
    then show thesis using update some \<open>q' = q1\<close> by blast
  qed (use same \<open>q' = q1\<close> in auto)
next
  case (fail env i w c m)
  then show thesis using Fail_table [of env i w c m q] same update
    by (auto simp: step_update_def)
next
  case (retry env i)
  show thesis
  proof (cases "processing_jobs q' = processing_jobs q")
    case False
    with retry Retry_table [of env i q] have
      "step_update a (processing_jobs q) (retryable i) (set_retried (env_now env))"
      "processing_jobs q' = sql_update (retryable i) (set_retried (env_now env)) (processing_jobs q)"
      by (auto simp: step_update_def)
    then show thesis using update by blast
  qed (use same in simp)
next
  case (complete env i w)
  then show thesis using same update [of "owned i w" "set_completed (env_now env)"]
    by (cases "env_db_ok env") (simp_all add: step_update_def Complete_table)
next
  case (renew env i w)
  then show thesis using same update [of "owned i w" "set_renewed (env_now env)"]
    by (cases "env_db_ok env") (simp_all add: step_update_def RenewLease_table)
next
  case (reclaim env)
  then show thesis using same update [of "lease_expired (env_now env)" "set_reclaimed (env_now env)"]
    by (cases "env_db_ok env") (simp_all add: step_update_def Reclaim_table)
next
  case (requeue env)
  then show thesis using same update [of "retry_due (env_now env)" "set_requeued (env_now env)"]
    by (cases "env_db_ok env") (simp_all add: step_update_def Requeue_table)
next
  case (fail_unknown env ks)
  then show thesis using same update [of "unknown_type ks" "set_unknown (env_now env)"]
    by (cases "env_db_ok env") (simp_all add: step_update_def FailUnknown_table)
qed

lemma step_update_keeps:
  assumes "step_update a t P f"
  shows "job_ID (f r) = job_ID r" and "job_DedupeKey (f r) = job_DedupeKey r"
  using assms by (auto simp: step_update_def split: queue_act.splits)

section \<open>The invariant of the table\<close>

definition job_ok :: "processing_job \<Rightarrow> bool" where
  "job_ok j \<longleftrightarrow>
     (job_Status j = JobStatusLeased \<longleftrightarrow> job_LeasedByWorkerID j \<noteq> None) \<and>
     (job_Status j = JobStatusLeased \<longrightarrow> job_LeasedAt j \<noteq> None \<and> job_LeaseExpiry j \<noteq> None) \<and>
     (job_Status j = JobStatusRetryScheduled \<longrightarrow>
        job_ScheduledAt j \<noteq> None \<and> job_AttemptCount j < job_MaxAttempts j) \<and>
     0 \<le> job_AttemptCount j \<and> 1 \<le> job_MaxAttempts j \<and>
     job_Status j \<noteq> JobStatusFailed"

definition dedupe_unique :: "processing_job list \<Rightarrow> bool" where
  "dedupe_unique t \<longleftrightarrow>
     (\<forall>r \<in> set t. \<forall>r' \<in> set t. live r \<and> live r' \<and> job_DedupeKey r = job_DedupeKey r'
        \<longrightarrow> job_ID r = job_ID r')"

definition queue_inv :: "queue_db \<Rightarrow> bool" where
  "queue_inv q \<longleftrightarrow> keyed job_ID (processing_jobs q) \<and> dedupe_unique (processing_jobs q) \<and>
     (\<forall>j \<in> set (processing_jobs q). job_ok j)"

lemma dedupe_unique_update:
  assumes "dedupe_unique t"
    and "\<And>r. r \<in> set t \<Longrightarrow> P r \<Longrightarrow> live (f r) \<Longrightarrow> live r"
    and "\<And>r. job_ID (f r) = job_ID r" "\<And>r. job_DedupeKey (f r) = job_DedupeKey r"
  shows "dedupe_unique (sql_update P f t)"
  unfolding dedupe_unique_def
proof (intro ballI impI)
  fix a b
  assume a: "a \<in> set (sql_update P f t)" and b: "b \<in> set (sql_update P f t)"
    and ab: "live a \<and> live b \<and> job_DedupeKey a = job_DedupeKey b"
  obtain r where r: "r \<in> set t" "a = (if P r then f r else r)" by (rule sql_update_preimage [OF a])
  obtain s where s: "s \<in> set t" "b = (if P s then f s else s)" by (rule sql_update_preimage [OF b])
  have "live r" using ab r assms(2) by (cases "P r") auto
  moreover have "live s" using ab s assms(2) by (cases "P s") auto
  moreover have "job_DedupeKey r = job_DedupeKey s" using ab r(2) s(2) assms(4) by metis
  ultimately have "job_ID r = job_ID s"
    using assms(1) r(1) s(1) unfolding dedupe_unique_def by blast
  then show "job_ID a = job_ID b" using r(2) s(2) assms(3) by metis
qed

lemma dedupe_unique_append:
  assumes "dedupe_unique t" and "\<not> dedupe_conflict (job_DedupeKey j) t"
  shows "dedupe_unique (t @ [j])"
proof -
  have "job_DedupeKey r \<noteq> job_DedupeKey j" if "r \<in> set t" "live r" for r
    using assms(2) that by (auto simp: dedupe_conflict_def live_def)
  note new = this
  show ?thesis unfolding dedupe_unique_def
  proof (intro ballI impI)
    fix a b
    assume "a \<in> set (t @ [j])" "b \<in> set (t @ [j])"
      and ab: "live a \<and> live b \<and> job_DedupeKey a = job_DedupeKey b"
    then consider "a = j" "b = j" | "a = j" "b \<in> set t" | "a \<in> set t" "b = j"
      | "a \<in> set t" "b \<in> set t" by auto
    then show "job_ID a = job_ID b"
      using ab new assms(1) unfolding dedupe_unique_def by cases (metis | blast)+
  qed
qed

text \<open>Each statement keeps the row well-formed where its guard holds.\<close>

lemma set_job_ok [row_simps]:
  "job_ok j \<Longrightarrow> job_ok (set_leased now w j)"
  "job_ok j \<Longrightarrow> job_ok (set_completed now j)"
  "job_ok j \<Longrightarrow> job_ok (set_failed now c m j)"
  "job_ok j \<Longrightarrow> job_Status j = JobStatusLeased \<Longrightarrow> job_ok (set_renewed now j)"
  "job_ok j \<Longrightarrow> job_ok (set_reclaimed now j)"
  "job_ok j \<Longrightarrow> job_Status j \<noteq> JobStatusLeased \<Longrightarrow> job_ok (set_requeued now j)"
  "job_ok j \<Longrightarrow> job_Status j \<noteq> JobStatusLeased \<Longrightarrow> job_ok (set_retried now j)"
  "job_ok j \<Longrightarrow> job_Status j \<noteq> JobStatusLeased \<Longrightarrow> job_ok (set_unknown now j)"
  by (simp_all add: job_ok_def set_defs Let_def)

lemma step_update_job_ok:
  assumes "step_update a t P f" and "\<forall>j \<in> set t. job_ok j" and "r \<in> set t" and "P r"
  shows "job_ok (f r)"
proof -
  have "job_ok r" using assms by blast
  with assms(1,4) show ?thesis
    by (cases a) (auto simp: step_update_def row_simps owned_def retry_due_def retryable_def
        unknown_type_def)
qed

text \<open>Only \<open>Retry\<close> can make a row live that was not.\<close>

lemma set_live:
  "live (set_leased now w j) \<Longrightarrow> job_Status j = JobStatusQueued \<Longrightarrow> live j"
  "live (set_completed now j) \<Longrightarrow> live j"
  "live (set_failed now c m j) \<Longrightarrow> job_Status j = JobStatusLeased \<Longrightarrow> live j"
  "live (set_renewed now j) \<Longrightarrow> live j"
  "live (set_reclaimed now j) \<Longrightarrow> job_Status j = JobStatusLeased \<Longrightarrow> live j"
  "live (set_requeued now j) \<Longrightarrow> job_Status j = JobStatusRetryScheduled \<Longrightarrow> live j"
  "live (set_unknown now j) \<Longrightarrow> live j"
  by (simp_all add: live_def set_status)

lemma step_update_live:
  assumes "step_update a t P f" and "keyed job_ID t" and "r \<in> set t" and "P r" and "live (f r)"
    and "\<And>env i. a \<noteq> ARetry env i"
  shows "live r"
proof (cases a)
  case (ALease env locked w types)
  then obtain j where j: "j \<in> set t" "leasable (env_now env) types locked j" "job_ID r = job_ID j"
      and f: "f = set_leased (env_now env) w"
    using assms(1,4) by (auto simp: step_update_def)
  have "r = j" using keyed_unique [OF assms(2,3) j(1,3)] .
  with j f assms(5) show ?thesis using set_live(1) by (auto simp: leasable_def)
qed (use assms in \<open>auto simp: step_update_def owned_def lease_expired_def retry_due_def
      dest: set_live\<close>)

lemma retry_dedupe_unique:
  assumes "dedupe_unique t" and "keyed job_ID t" and j: "j \<in> set t" "retryable i j"
    and nc: "\<not> dedupe_conflict (job_DedupeKey j) t"
  shows "dedupe_unique (sql_update (retryable i) (set_retried now) t)"
  unfolding dedupe_unique_def
proof (intro ballI impI)
  let ?t = "sql_update (retryable i) (set_retried now) t"
  have only: "r = j" if "r \<in> set t" "retryable i r" for r
    using keyed_unique [OF assms(2) that(1) j(1)] that(2) j(2) by (simp add: retryable_def)
  have other: "job_DedupeKey s \<noteq> job_DedupeKey j" if "s \<in> set t" "live s" for s
    using nc that by (auto simp: dedupe_conflict_def live_def)
  fix a b
  assume a: "a \<in> set ?t" and b: "b \<in> set ?t"
    and ab: "live a \<and> live b \<and> job_DedupeKey a = job_DedupeKey b"
  have mem: "x = set_retried now j \<or> (x \<in> set t \<and> \<not> retryable i x)" if "x \<in> set ?t" for x
    using that only by (auto elim!: sql_update_preimage split: if_splits)
  show "job_ID a = job_ID b"
    using mem [OF a] mem [OF b] ab other assms(1) unfolding dedupe_unique_def
    by (metis set_keeps_DedupeKey(7) set_keeps_ID(7))
qed

lemma step_update_dedupe_unique:
  assumes "step_update a t P f" and "keyed job_ID t" and "dedupe_unique t"
  shows "dedupe_unique (sql_update P f t)"
proof -
  note keeps = step_update_keeps [OF assms(1)]
  consider "\<And>env i. a \<noteq> ARetry env i" | env i where "a = ARetry env i" by blast
  then show ?thesis
  proof cases
    case 1
    then show ?thesis
      using dedupe_unique_update [OF assms(3) _ keeps] step_update_live [OF assms(1,2)] by blast
  next
    case (2 env i)
    then obtain j where j: "j \<in> set t" "retryable i j"
        "live j \<or> \<not> dedupe_conflict (job_DedupeKey j) t"
        and Pf: "P = retryable i" "f = set_retried (env_now env)"
      using assms(1) by (auto simp: step_update_def)
    have "r = j" if "r \<in> set t" "P r" for r
      using keyed_unique [OF assms(2) that(1) j(1)] that(2) j(2) Pf by (simp add: retryable_def)
    then show ?thesis
      using dedupe_unique_update [OF assms(3) _ keeps] retry_dedupe_unique [OF assms(3,2) j(1,2)] j(3) Pf
      by blast
  qed
qed

lemma queue_step_inv [inv_intros]:
  assumes "queue_step q a q'" and "queue_inv q"
  shows "queue_inv q'"
  using assms(1)
proof (cases rule: queue_step_shape)
  case same
  with assms show ?thesis by (simp add: queue_inv_def)
next
  case (append env i p)
  with assms(2) show ?thesis
    by (auto simp: queue_inv_def keyed_append job_ok_def new_job_def intro!: dedupe_unique_append)
next
  case (update P f)
  note keeps = step_update_keeps [OF update(1)]
  have "keyed job_ID (processing_jobs q')"
    using assms(2) keeps update(2) by (simp add: queue_inv_def keyed_sql_update)
  moreover have "dedupe_unique (processing_jobs q')"
    using assms(2) step_update_dedupe_unique [OF update(1)] update(2) by (simp add: queue_inv_def)
  moreover have "\<forall>j \<in> set (processing_jobs q'). job_ok j"
    using assms(2) step_update_job_ok [OF update(1)] update(2)
    by (auto simp: queue_inv_def set_sql_update)
  ultimately show ?thesis by (simp add: queue_inv_def)
qed

lemma queue_reach_inv: "queue_reach q \<Longrightarrow> queue_inv q"
proof (induction rule: queue_reach.induct)
  case start
  show ?case by (simp add: queue_inv_def dedupe_unique_def)
next
  case (step q a q')
  then show ?case by (blast intro: queue_step_inv)
qed

section \<open>Leases\<close>

definition held :: "uuid \<Rightarrow> string \<Rightarrow> queue_db \<Rightarrow> bool" where
  "held i w q \<longleftrightarrow> list_ex (owned i w) (processing_jobs q)"

lemma held_iff: "held i w q \<longleftrightarrow> (\<exists>j \<in> set (processing_jobs q). owned i w j)"
  by (simp add: held_def list_ex_iff)

lemma not_held_count: "\<not> held i w q \<Longrightarrow> sql_count (owned i w) (processing_jobs q) = 0"
  by (auto simp: held_iff sql_count_0_iff)

lemma not_held_guard:
  assumes "\<not> held i w q"
  shows "snd (Complete env i w q) = q" "snd (RenewLease env i w q) = q" "snd (Fail env i w c m q) = q"
    "fst (RenewLease env i w q) = (if env_db_ok env then Inr False else Inl DbError)"
    "fst (Fail env i w c m q) = (if env_db_ok env then Inr None else Inl DbError)"
proof -
  have "find (owned i w) (processing_jobs q) = None"
    using assms by (auto simp: held_iff find_None_iff)
  then show "snd (Complete env i w q) = q" "snd (RenewLease env i w q) = q"
    "snd (Fail env i w c m q) = q"
    "fst (RenewLease env i w q) = (if env_db_ok env then Inr False else Inl DbError)"
    "fst (Fail env i w c m q) = (if env_db_ok env then Inr None else Inl DbError)"
    using not_held_count [OF assms] by (simp_all add: Complete_def RenewLease_def Fail_def)
qed

lemma held_unique:
  assumes "queue_inv q" and "held i w q" and "held i w' q"
  shows "w = w'"
proof -
  obtain j j' where "j \<in> set (processing_jobs q)" "owned i w j"
      "j' \<in> set (processing_jobs q)" "owned i w' j'"
    using assms(2,3) by (auto simp: held_iff)
  moreover from this have "j = j'"
    using assms(1) keyed_unique by (fastforce simp: queue_inv_def owned_def)
  ultimately show ?thesis by (simp add: owned_def)
qed

lemma Lease_held:
  assumes "Lease env locked w types q = (Inr (Some j), q')"
  shows "held (job_ID j) w q'"
  using assms
proof (cases rule: Lease_cases)
  case (some k)
  then have "set_leased (env_now env) w k \<in> set (processing_jobs q')"
    by (auto simp: set_sql_update)
  with some show ?thesis
    by (auto simp: held_iff owned_def row_simps intro!: bexI [of _ "set_leased (env_now env) w k"])
qed auto

text \<open>
  C1: Lease fencing. As soon as a job is leased to a worker, \<open>Complete\<close>, \<open>Fail\<close> and
  \<open>RenewLease\<close> called for that job by any other worker (a stale goroutine whose lease was
  reclaimed) change nothing, the renewal reports the loss, and the new worker holds the lease.
\<close>

theorem lease_fencing:
  assumes "queue_reach q" and "Lease env locked w types q = (Inr (Some j), q')" and "w' \<noteq> w"
  shows "held (job_ID j) w q' \<and>
    snd (Complete env' (job_ID j) w' q') = q' \<and>
    snd (Fail env' (job_ID j) w' c m q') = q' \<and>
    snd (RenewLease env' (job_ID j) w' q') = q' \<and>
    fst (RenewLease env' (job_ID j) w' q') = (if env_db_ok env' then Inr False else Inl DbError)"
proof -
  have "queue_step q (ALease env locked w types) q'"
    using assms(2) by (simp add: queue_step_simps)
  then have "queue_inv q'" using assms(1) queue_reach_inv queue_step_inv by blast
  moreover have "held (job_ID j) w q'" using Lease_held [OF assms(2)] .
  ultimately have "\<not> held (job_ID j) w' q'" using held_unique assms(3) by blast
  with \<open>held (job_ID j) w q'\<close> show ?thesis by (simp add: not_held_guard)
qed

text \<open>
  C2: A lease is only lost through its holder or through expiry: if a step of the system ends a
  worker's lease, it is that worker's own \<open>Complete\<close> or \<open>Fail\<close> for the job, or a
  reclaim that ran after the lease had expired.
\<close>

theorem lease_held_until:
  assumes "queue_reach q" and "queue_step q a q'" and "held i w q" and "\<not> held i w q'"
  shows "(\<exists>env. a = AComplete env i w) \<or> (\<exists>env c m. a = AFail env i w c m) \<or>
    (\<exists>env e. a = AReclaim env \<and> e < env_now env \<and>
       (\<exists>j \<in> set (processing_jobs q). owned i w j \<and> job_LeaseExpiry j = Some e))"
proof -
  obtain j where j: "j \<in> set (processing_jobs q)" "owned i w j"
    using assms(3) by (auto simp: held_iff)
  have inv: "queue_inv q" using assms(1) by (rule queue_reach_inv)
  from assms(2) show ?thesis
  proof (cases rule: queue_step_shape)
    case (update P f)
    have lost: "P j" "\<not> owned i w (f j)"
      using assms(4) j update(2) by (auto simp: held_iff set_sql_update split: if_splits)
    show ?thesis
    proof (cases a)
      case (ALease env locked v types)
      then obtain k where "k \<in> set (processing_jobs q)" "job_Status k = JobStatusQueued" "job_ID j = job_ID k"
        using update(1) lost(1) by (auto simp: step_update_def leasable_def)
      then show ?thesis
        using keyed_unique [of job_ID "processing_jobs q" j k] j inv by (simp add: queue_inv_def owned_def)
    next
      case (AReclaim env)
      then show ?thesis
        using update(1) lost(1) j by (auto simp: step_update_def lease_expired_def split: option.splits)
    qed (use update(1) lost j in \<open>simp_all add: step_update_def owned_def row_simps retry_due_def
          retryable_def unknown_type_def\<close>)
  qed (use assms(4) j in \<open>auto simp: held_iff\<close>)
qed

text \<open>
  C5: \<open>Lease\<close> picks the best available job: the returned job was leasable (queued, due, of a
  requested type, not locked), no leasable job has a higher priority, none of equal priority is
  older, and when \<open>Lease\<close> reports that there is nothing to do then no job is leasable.
\<close>

theorem lease_picks_best:
  assumes "Lease env locked w types q = (Inr r, q')"
  shows "case r of
      None \<Rightarrow> q' = q \<and> (\<forall>k \<in> set (processing_jobs q). \<not> leasable (env_now env) types locked k)
    | Some j \<Rightarrow>
        (\<exists>j0 \<in> set (processing_jobs q). job_ID j0 = job_ID j \<and>
           leasable (env_now env) types locked j0 \<and>
           (\<forall>k \<in> set (processing_jobs q). leasable (env_now env) types locked k \<longrightarrow>
              job_Priority k \<le> job_Priority j0 \<and>
              (job_Priority k = job_Priority j0 \<longrightarrow> job_CreatedAt j0 \<le> job_CreatedAt k))) \<and>
        job_Status j = JobStatusLeased \<and> job_LeasedByWorkerID j = Some w \<and>
        job_LeaseExpiry j = Some (env_now env + 5 * Minute)"
  using assms
proof (cases rule: Lease_cases)
  case (some j0)
  have best: "\<forall>k \<in> set (processing_jobs q). leasable (env_now env) types locked k \<longrightarrow>
      job_Priority k \<le> job_Priority j0 \<and>
      (job_Priority k = job_Priority j0 \<longrightarrow> job_CreatedAt j0 \<le> job_CreatedAt k)"
    using some(3) unfolding lease_before_def by (meson linorder_not_less)
  have r: "r = Some ((set_leased (env_now env) w j0)\<lparr>job_ErrorCode := None, job_ErrorMessage := None\<rparr>)"
    using some(4) by simp
  show ?thesis unfolding r option.case
    using some(1,2) best
    by (intro conjI bexI [of _ j0]) (simp_all add: set_leased_def leaseDuration_def)
qed simp_all

section \<open>Invariants of reachable tables\<close>

text \<open>
  C4: In every reachable state job identifiers are unique, at most one live job carries a given
  dedupe key, and every row is well-formed: a row is leased exactly when it names a worker, a
  leased row has an expiry, a row awaiting a retry has a retry time and attempts left, and no row
  is ever in the status \<open>failed\<close>.
\<close>

theorem reachable_table_invariant:
  assumes "queue_reach q"
  shows "distinct (map job_ID (processing_jobs q)) \<and> dedupe_unique (processing_jobs q) \<and>
    (\<forall>j \<in> set (processing_jobs q). job_ok j)"
  using queue_reach_inv [OF assms] by (simp add: queue_inv_def keyed_def)

text \<open>
  Deduplication. While a live job carries the key, \<open>Enqueue\<close> of a known job type with that
  key returns no job and no error and leaves the table as it is; otherwise a new row is appended,
  and a second identical call is then deduplicated.
\<close>

theorem enqueue_dedup:
  assumes "IsKnownJobType (ep_JobType p)" and "ep_DedupeKey p = Some k"
    and "env_db_ok env" and "env_db_ok env'" and "int4 (ep_Priority p)" and "int4 (ep_MaxAttempts p)"
    and "i \<notin> job_ID ` set (processing_jobs q)"
  shows "if dedupe_conflict (Some k) (processing_jobs q)
    then Enqueue env i p q = (Inr None, q)
    else fst (Enqueue env i p q) = Inr (Some (new_job (env_now env) i p)) \<and>
         processing_jobs (snd (Enqueue env i p q)) =
           processing_jobs q @ [new_job (env_now env) i p] \<and>
         Enqueue env' i' p (snd (Enqueue env i p q)) = (Inr None, snd (Enqueue env i p q))"
proof -
  have m: "int4 (job_MaxAttempts (new_job now n p))" for now n
    using assms(6) by (simp add: new_job_def int4_def)
  have fields: "job_Priority (new_job now n p) = ep_Priority p"
      "job_DedupeKey (new_job now n p) = Some k" for now n
    using assms(2) by (simp_all add: new_job_def)
  have "live (new_job (env_now env) i p)"
    using assms(2) by (simp add: live_def new_job_def)
  then have "dedupe_conflict (Some k) (processing_jobs q @ [new_job (env_now env) i p])"
    by (auto simp: dedupe_conflict_def fields)
  with assms m fields show ?thesis by (simp add: Enqueue_def Let_def)
qed

text \<open>C0: No job is ever lost: a step appends at most one row and removes none.\<close>

theorem no_job_lost:
  assumes "queue_step q a q'"
  shows "\<exists>new. map job_ID (processing_jobs q') = map job_ID (processing_jobs q) @ new \<and> length new \<le> 1"
  using assms
proof (cases rule: queue_step_shape)
  case (update P f)
  then show ?thesis using step_update_keeps(1) by (simp add: map_sql_update)
qed simp_all

section \<open>Retries\<close>

text \<open>
  C6: What \<open>Fail\<close> does with the holder's job: the attempt counter grows by one; when it
  reaches the maximum the job is dead-lettered with no retry time, otherwise its retry is scheduled
  \<open>30 * n * n\<close> seconds after the call for the \<open>n\<close>-th failure. The caller is told
  exactly what was stored, and the lease is released in both cases.
\<close>

theorem fail_schedules_retry_or_dead_letters:
  assumes "queue_reach q" and "j \<in> set (processing_jobs q)" and "owned i w j"
    and "env_db_ok env" and "int4 (job_AttemptCount j + 1)"
  shows "\<exists>j' \<in> set (processing_jobs (snd (Fail env i w c m q))).
    job_ID j' = i \<and> job_LeasedByWorkerID j' = None \<and>
    job_AttemptCount j' = job_AttemptCount j + 1 \<and> job_ErrorCode j' = Some c \<and>
    (if job_MaxAttempts j \<le> job_AttemptCount j + 1
     then job_Status j' = JobStatusDeadLetter \<and> job_ScheduledAt j' = None
     else job_Status j' = JobStatusRetryScheduled \<and>
          job_ScheduledAt j' = Some (env_now env + 30 * (job_AttemptCount j + 1)\<^sup>2 * Second)) \<and>
    fst (Fail env i w c m q) =
      Inr (Some \<lparr>fr_NewStatus = job_Status j', fr_AttemptCount = job_AttemptCount j',
                  fr_MaxAttempts = job_MaxAttempts j', fr_ScheduledAt = job_ScheduledAt j'\<rparr>) \<and>
    \<not> held i w (snd (Fail env i w c m q))"
proof -
  have inv: "queue_inv q" using assms(1) by (rule queue_reach_inv)
  have only: "r = j" if "r \<in> set (processing_jobs q)" "owned i w r" for r
    using that assms(2,3) inv keyed_unique [of job_ID "processing_jobs q" r j]
    by (simp add: queue_inv_def owned_def)
  obtain k where k: "find (owned i w) (processing_jobs q) = Some k"
    using assms(2,3) by (cases "find (owned i w) (processing_jobs q)") (auto simp: find_None_iff)
  then have "k = j" using only by (auto simp: find_Some_iff)
  let ?j' = "set_failed (env_now env) c m j"
  let ?t = "sql_update (owned i w) (set_failed (env_now env) c m) (processing_jobs q)"
  have table: "processing_jobs (snd (Fail env i w c m q)) = ?t"
    and res: "fst (Fail env i w c m q) = Inr (Some \<lparr>fr_NewStatus = job_Status ?j',
      fr_AttemptCount = job_AttemptCount ?j', fr_MaxAttempts = job_MaxAttempts ?j',
      fr_ScheduledAt = job_ScheduledAt ?j'\<rparr>)"
    using k \<open>k = j\<close> assms(4,5) by (simp_all add: Fail_def Let_def)
  have "?j' \<in> set ?t" using assms(2,3) by (auto simp: set_sql_update)
  have "\<not> owned i w x" if x: "x \<in> set ?t" for x
  proof -
    obtain r where "x = (if owned i w r then set_failed (env_now env) c m r else r)"
      using x by (elim sql_update_preimage)
    then show ?thesis by (cases "owned i w r") (simp_all add: owned_def set_owner)
  qed
  then have free: "\<not> held i w (snd (Fail env i w c m q))" using table by (simp add: held_iff)
  have "job_ID ?j' = i" using assms(3) by (simp add: owned_def)
  moreover have "job_LeasedByWorkerID ?j' = None" by (simp add: set_owner)
  moreover have "job_AttemptCount ?j' = job_AttemptCount j + 1" "job_ErrorCode ?j' = Some c"
    by (simp_all add: set_failed_def Let_def)
  moreover have "if job_MaxAttempts j \<le> job_AttemptCount j + 1
      then job_Status ?j' = JobStatusDeadLetter \<and> job_ScheduledAt ?j' = None
      else job_Status ?j' = JobStatusRetryScheduled \<and>
           job_ScheduledAt ?j' = Some (env_now env + 30 * (job_AttemptCount j + 1)\<^sup>2 * Second)"
    by (simp add: set_failed_def Let_def power2_eq_square mult.commute)
  ultimately show ?thesis
    unfolding table using res free \<open>?j' \<in> set ?t\<close> by (intro bexI [of _ ?j'] conjI)
qed

text \<open>Runs in which no operator calls \<open>Retry\<close>.\<close>

inductive queue_auto :: "queue_db \<Rightarrow> bool" where
  auto_start: "queue_auto \<lparr>processing_jobs = [], audit_events = []\<rparr>"
| auto_step: "queue_auto q \<Longrightarrow> queue_step q a q' \<Longrightarrow> (\<And>env i. a \<noteq> ARetry env i) \<Longrightarrow> queue_auto q'"

lemma queue_auto_reach: "queue_auto q \<Longrightarrow> queue_reach q"
  by (induction rule: queue_auto.induct) (auto intro: queue_reach.intros)

definition attempts_left :: "processing_job \<Rightarrow> bool" where
  "attempts_left j \<longleftrightarrow> job_AttemptCount j \<le> job_MaxAttempts j \<and>
     (job_Status j \<in> {JobStatusQueued, JobStatusLeased, JobStatusRetryScheduled} \<longrightarrow>
        job_AttemptCount j < job_MaxAttempts j)"

lemma set_attempts_left:
  "attempts_left j \<Longrightarrow> job_Status j = JobStatusQueued \<Longrightarrow> attempts_left (set_leased now w j)"
  "attempts_left j \<Longrightarrow> attempts_left (set_completed now j)"
  "attempts_left j \<Longrightarrow> job_Status j = JobStatusLeased \<Longrightarrow> attempts_left (set_failed now c m j)"
  "attempts_left j \<Longrightarrow> attempts_left (set_renewed now j)"
  "attempts_left j \<Longrightarrow> job_Status j = JobStatusLeased \<Longrightarrow> attempts_left (set_reclaimed now j)"
  "attempts_left j \<Longrightarrow> job_Status j = JobStatusRetryScheduled \<Longrightarrow> attempts_left (set_requeued now j)"
  "attempts_left j \<Longrightarrow> attempts_left (set_unknown now j)"
  by (simp_all add: attempts_left_def set_defs Let_def)

lemma step_update_attempts_left:
  assumes "step_update a t P f" and "keyed job_ID t" and "r \<in> set t" and "P r" and "attempts_left r"
    and "\<And>env i. a \<noteq> ARetry env i"
  shows "attempts_left (f r)"
proof (cases a)
  case (ALease env locked w types)
  then obtain j where j: "j \<in> set t" "leasable (env_now env) types locked j" "job_ID r = job_ID j"
      and f: "f = set_leased (env_now env) w"
    using assms(1,4) by (auto simp: step_update_def)
  have "r = j" using keyed_unique [OF assms(2,3) j(1,3)] .
  with j f assms(5) show ?thesis by (simp add: leasable_def set_attempts_left)
qed (use assms in \<open>auto simp: step_update_def owned_def lease_expired_def retry_due_def
      set_attempts_left\<close>)

text \<open>
  Bounded attempts. In every run without operator retries a job's attempt counter never
  exceeds its maximum, and a job that is queued, leased or awaiting a retry has an attempt left: no
  worker is ever handed a job whose attempts are used up.
\<close>

theorem attempts_bounded_without_retry:
  assumes "queue_auto q" and "j \<in> set (processing_jobs q)"
  shows "attempts_left j"
  using assms
proof (induction arbitrary: j rule: queue_auto.induct)
  case auto_start
  then show ?case by simp
next
  case (auto_step q a q')
  have key: "keyed job_ID (processing_jobs q)"
    using auto_step.hyps(1) queue_auto_reach queue_reach_inv by (auto simp: queue_inv_def)
  from auto_step.hyps(2) show ?case
  proof (cases rule: queue_step_shape)
    case (append env i p)
    then show ?thesis
      using auto_step.IH auto_step.prems by (auto simp: attempts_left_def new_job_def)
  next
    case (update P f)
    obtain r where r: "r \<in> set (processing_jobs q)" "j = (if P r then f r else r)"
      using auto_step.prems update(2) by (metis sql_update_preimage)
    then show ?thesis
      using auto_step.IH [OF r(1)] step_update_attempts_left [OF update(1) key r(1)]
        auto_step.hyps(3) by auto
  qed (use auto_step in auto)
qed

text \<open>
  An operator \<open>Retry\<close> of a dead-lettered job re-queues it at once, but keeps the attempt
  counter: whoever leases it next and fails it dead-letters it again immediately, so the job gets a
  single extra attempt and no scheduled retry.
\<close>

theorem operator_retry_is_single_shot:
  assumes "job_Status j = JobStatusDeadLetter" and "job_MaxAttempts j \<le> job_AttemptCount j"
  shows "leasable now' [job_JobType j] {} (set_retried now j) \<and>
    job_Status (set_failed now'' c m (set_leased now' w (set_retried now j))) = JobStatusDeadLetter"
  using assms by (simp add: set_defs leasable_def Let_def)

section \<open>Status transitions\<close>

definition queue_transitions :: "(job_status \<times> job_status) list" where
  "queue_transitions =
     [(JobStatusQueued, JobStatusLeased), (JobStatusQueued, JobStatusDeadLetter),
      (JobStatusLeased, JobStatusSucceeded), (JobStatusLeased, JobStatusRetryScheduled),
      (JobStatusLeased, JobStatusDeadLetter), (JobStatusLeased, JobStatusQueued),
      (JobStatusRetryScheduled, JobStatusQueued), (JobStatusDeadLetter, JobStatusQueued)]"

lemma step_update_transition:
  assumes "step_update a t P f" and "keyed job_ID t" and "r \<in> set t" and "job_ok r" and "P r"
  shows "job_Status (f r) = job_Status r \<or> (job_Status r, job_Status (f r)) \<in> set queue_transitions"
proof (cases a)
  case (ALease env locked w types)
  then obtain j where j: "j \<in> set t" "leasable (env_now env) types locked j" "job_ID r = job_ID j"
      and f: "f = set_leased (env_now env) w"
    using assms(1,5) by (auto simp: step_update_def)
  have "r = j" using keyed_unique [OF assms(2,3) j(1,3)] .
  with j f show ?thesis by (simp add: leasable_def set_status queue_transitions_def)
qed (use assms in \<open>auto simp: step_update_def owned_def lease_expired_def retry_due_def set_status
      retryable_def unknown_type_def queue_transitions_def job_ok_def\<close>)

text \<open>
  The job state machine. A step changes a job's status only along one of the eight edges of
  \<open>queue_transitions\<close>; in particular a succeeded job never changes its status again.
\<close>

theorem step_follows_transitions:
  assumes "queue_reach q" and "queue_step q a q'"
    and "j \<in> set (processing_jobs q)" and "j' \<in> set (processing_jobs q')" and "job_ID j' = job_ID j"
  shows "job_Status j' = job_Status j \<or> (job_Status j, job_Status j') \<in> set queue_transitions"
proof -
  have inv: "queue_inv q" "queue_inv q'"
    using assms(1,2) queue_reach_inv queue_step_inv by blast+
  have only: "j' = k" if "k \<in> set (processing_jobs q')" "job_ID k = job_ID j" for k
    using keyed_unique that assms(4,5) inv(2) unfolding queue_inv_def by metis
  from assms(2) show ?thesis
  proof (cases rule: queue_step_shape)
    case (update P f)
    have "(if P j then f j else j) \<in> set (processing_jobs q')"
      using update(2) assms(3) by (auto simp: set_sql_update)
    then have "j' = (if P j then f j else j)"
      using only step_update_keeps(1) [OF update(1)] by auto
    then show ?thesis
      using step_update_transition [OF update(1) _ assms(3)] inv(1) assms(3)
      by (auto simp: queue_inv_def)
  qed (use only assms(3) in auto)
qed

text \<open>
  The transition table \<open>ValidTransitions\<close> of the orchestrator does not describe the queue:
  of the eight edges the queue takes, it rejects exactly completing a leased job, scheduling its
  retry, reclaiming it, and re-queueing a dead-lettered job.
\<close>

theorem lifecycle_table_rejects_queue_edges:
  "filter (\<lambda>(s, s'). \<not> CanTransition (status_str s) (status_str s')) queue_transitions =
    [(JobStatusLeased, JobStatusSucceeded), (JobStatusLeased, JobStatusRetryScheduled),
     (JobStatusLeased, JobStatusQueued), (JobStatusDeadLetter, JobStatusQueued)]"
  by code_simp

section \<open>Statistics\<close>

lemma status_str_inj: "status_str s = status_str s' \<longleftrightarrow> s = s'"
  by (cases s; cases s') simp_all

lemma queue_stats_spec:
  assumes "QueueStats env q = Inr stats"
  shows "(\<forall>s \<in> set stat_statuses. stats (status_str s) = Some (sql_count (has_status s) (processing_jobs q))) \<and>
    dom stats = status_str ` set stat_statuses"
proof -
  let ?n = "\<lambda>s. sql_count (has_status s) (processing_jobs q)"
  let ?pos = "filter (\<lambda>s. 0 < ?n s) stat_statuses"
  have stats: "stats = map_of (map (\<lambda>s. (status_str s, 0)) stat_statuses) ++
      map_of (map (\<lambda>s. (status_str s, ?n s)) ?pos)"
    using assms by (simp add: QueueStats_def split: if_splits)
  have look: "map_of (map (\<lambda>s. (status_str s, g s)) ss) (status_str s) =
      (if s \<in> set ss then Some (g s) else None)" for g :: "job_status \<Rightarrow> nat" and ss s
    by (induction ss) (auto simp: status_str_inj)
  have "dom stats = status_str ` set stat_statuses"
    unfolding stats by (auto simp: dom_map_of_conv_image_fst image_image)
  moreover have "\<forall>s \<in> set stat_statuses. stats (status_str s) = Some (?n s)"
    unfolding stats by (auto simp: map_add_def look)
  ultimately show ?thesis by blast
qed

text \<open>
  \<open>QueueStats\<close> reports, for each of the five statuses it promises, the number of jobs in
  it, zero included, and has no other key.
\<close>

theorem queue_stats_counts:
  assumes "QueueStats env q = Inr stats"
  shows "(\<forall>s \<in> set stat_statuses. stats (status_str s) = Some (sql_count (has_status s) (processing_jobs q))) \<and>
    dom stats = status_str ` set stat_statuses"
  by (rule queue_stats_spec [OF assms])

section \<open>Concrete runs\<close>

text \<open>A run used by the witnesses: one job is enqueued, leased by \<open>w1\<close> and failed.\<close>

definition wit_env :: "time \<Rightarrow> job_env" where
  "wit_env t = \<lparr>env_now = t, env_db_ok = True, env_audit_ok = (\<lambda>_. True)\<rparr>"

definition wit_params :: enqueue_params where
  "wit_params = \<lparr>ep_SourceTaskID = 7, ep_JobType = ''llm_rewrite'', ep_Priority = 0,
     ep_DedupeKey = Some ''k'', ep_MaxAttempts = 0\<rparr>"

definition wit_q0 :: queue_db where "wit_q0 = \<lparr>processing_jobs = [], audit_events = []\<rparr>"
definition wit_q1 :: queue_db where "wit_q1 = snd (Enqueue (wit_env 0) 1 wit_params wit_q0)"
definition wit_q2 :: queue_db where
  "wit_q2 = snd (Lease (wit_env 5) {} ''w1'' KnownJobTypes wit_q1)"
definition wit_q3 :: queue_db where "wit_q3 = snd (Fail (wit_env 9) 1 ''w1'' ''E'' ''m'' wit_q2)"

definition wit_j2 :: processing_job where "wit_j2 = hd (processing_jobs wit_q2)"

lemma wit_reach: "queue_reach wit_q0" "queue_reach wit_q1" "queue_reach wit_q2" "queue_reach wit_q3"
proof -
  show 0: "queue_reach wit_q0" by (simp add: wit_q0_def queue_reach.start)
  show 1: "queue_reach wit_q1" unfolding wit_q1_def by (rule queue_reach.step [OF 0 queue_step.enqueue])
  show 2: "queue_reach wit_q2" unfolding wit_q2_def by (rule queue_reach.step [OF 1 queue_step.lease])
  show "queue_reach wit_q3" unfolding wit_q3_def by (rule queue_reach.step [OF 2 queue_step.fail])
qed

lemma wit_lease: "Lease (wit_env 5) {} ''w1'' KnownJobTypes wit_q1 = (Inr (Some wit_j2), wit_q2)"
proof (rule prod_eqI)
  show "fst (Lease (wit_env 5) {} ''w1'' KnownJobTypes wit_q1) = fst (Inr (Some wit_j2), wit_q2)"
    by code_simp
qed (simp add: wit_q2_def)

lemma wit_j2_facts: "wit_j2 \<in> set (processing_jobs wit_q2)" "owned 1 ''w1'' wit_j2" "job_ID wit_j2 = 1"
  by code_simp+

theorem lease_fencing_witness:
  "held 1 ''w1'' wit_q2 \<and> snd (Complete (wit_env 6) 1 ''w2'' wit_q2) = wit_q2 \<and>
   fst (RenewLease (wit_env 6) 1 ''w2'' wit_q2) = Inr False"
  using lease_fencing [OF wit_reach(2) wit_lease, of "''w2''" "wit_env 6"] wit_j2_facts
  by (simp add: wit_env_def)

theorem lease_held_until_witness:
  "held 1 ''w1'' wit_q2 \<and> \<not> held 1 ''w1'' wit_q3 \<and>
   (\<exists>env c m. AFail (wit_env 9) 1 ''w1'' ''E'' ''m'' = AFail env 1 ''w1'' c m)"
proof -
  have s: "queue_step wit_q2 (AFail (wit_env 9) 1 ''w1'' ''E'' ''m'') wit_q3"
    unfolding wit_q3_def by (rule queue_step.fail)
  have h: "held 1 ''w1'' wit_q2" "\<not> held 1 ''w1'' wit_q3" by code_simp+
  show ?thesis using lease_held_until [OF wit_reach(3) s h] h by simp
qed

theorem lease_picks_best_witness:
  "job_Status wit_j2 = JobStatusLeased \<and> job_LeaseExpiry wit_j2 = Some (5 + 5 * Minute)"
  using lease_picks_best [OF wit_lease] by (simp add: wit_env_def)

theorem reachable_table_invariant_witness:
  "processing_jobs wit_q3 \<noteq> [] \<and> list_all job_ok (processing_jobs wit_q3)"
proof
  show "processing_jobs wit_q3 \<noteq> []" by code_simp
  show "list_all job_ok (processing_jobs wit_q3)"
    using reachable_table_invariant [OF wit_reach(4)] by (simp add: list_all_iff)
qed

theorem enqueue_dedup_witness:
  "Enqueue (wit_env 3) 2 wit_params wit_q1 = (Inr None, wit_q1)"
proof -
  have "dedupe_conflict (Some ''k'') (processing_jobs wit_q1)" by code_simp
  moreover have "(2::nat) \<notin> job_ID ` set (processing_jobs wit_q1)" by code_simp
  ultimately show ?thesis
    using enqueue_dedup [of wit_params "''k''" "wit_env 3" "wit_env 3" 2 wit_q1]
    by (simp add: wit_params_def wit_env_def IsKnownJobType_def KnownJobTypes_def int4_def)
qed

theorem no_job_lost_witness:
  "\<exists>new. map job_ID (processing_jobs wit_q1) = map job_ID (processing_jobs wit_q0) @ new \<and> length new \<le> 1"
proof -
  have "queue_step wit_q0 (AEnqueue (wit_env 0) 1 wit_params) wit_q1"
    unfolding wit_q1_def by (rule queue_step.enqueue)
  then show ?thesis by (rule no_job_lost)
qed

theorem fail_schedules_retry_or_dead_letters_witness:
  "\<exists>j' \<in> set (processing_jobs wit_q3). job_ID j' = 1 \<and> job_AttemptCount j' = 1 \<and>
     job_Status j' = JobStatusRetryScheduled \<and> job_ScheduledAt j' = Some (9 + 30 * Second)"
proof -
  have a: "env_db_ok (wit_env 9)" "env_now (wit_env 9) = 9" by (simp_all add: wit_env_def)
  have b: "int4 (job_AttemptCount wit_j2 + 1)" "job_AttemptCount wit_j2 = 0" "job_MaxAttempts wit_j2 = 3"
    by code_simp+
  from fail_schedules_retry_or_dead_letters
    [OF wit_reach(3) wit_j2_facts(1,2) a(1) b(1), of "''E''" "''m''"]
  show ?thesis unfolding wit_q3_def using a(2) b(2,3) by force
qed

theorem attempts_bounded_without_retry_witness: "attempts_left wit_j2"
proof -
  have 0: "queue_auto wit_q0" by (simp add: wit_q0_def queue_auto.auto_start)
  have 1: "queue_auto wit_q1"
    unfolding wit_q1_def by (rule queue_auto.auto_step [OF 0 queue_step.enqueue]) simp
  have 2: "queue_auto wit_q2"
    unfolding wit_q2_def by (rule queue_auto.auto_step [OF 1 queue_step.lease]) simp
  show ?thesis by (rule attempts_bounded_without_retry [OF 2 wit_j2_facts(1)])
qed

theorem operator_retry_is_single_shot_witness:
  "job_Status (set_failed 30 ''E'' ''m'' (set_leased 20 ''w'' (set_retried 10
     (wit_j2\<lparr>job_Status := JobStatusDeadLetter, job_AttemptCount := 3\<rparr>)))) = JobStatusDeadLetter"
proof -
  have "job_MaxAttempts wit_j2 = 3" by code_simp
  then show ?thesis
    using operator_retry_is_single_shot
      [of "wit_j2\<lparr>job_Status := JobStatusDeadLetter, job_AttemptCount := 3\<rparr>" 20 10 30 "''E''" "''m''" "''w''"]
    by simp
qed

theorem step_follows_transitions_witness:
  "(job_Status wit_j2, job_Status (hd (processing_jobs wit_q3))) \<in> set queue_transitions"
proof -
  have s: "queue_step wit_q2 (AFail (wit_env 9) 1 ''w1'' ''E'' ''m'') wit_q3"
    unfolding wit_q3_def by (rule queue_step.fail)
  have h: "hd (processing_jobs wit_q3) \<in> set (processing_jobs wit_q3)"
      "job_ID (hd (processing_jobs wit_q3)) = job_ID wit_j2"
      "job_Status (hd (processing_jobs wit_q3)) \<noteq> job_Status wit_j2" by code_simp+
  show ?thesis using step_follows_transitions [OF wit_reach(3) s wit_j2_facts(1) h(1,2)] h(3) by simp
qed

theorem queue_stats_counts_witness:
  "\<exists>stats. QueueStats (wit_env 9) wit_q2 = Inr stats \<and> stats ''leased'' = Some 1 \<and> stats ''queued'' = Some 0"
proof -
  have ok: "env_db_ok (wit_env 9)" by (simp add: wit_env_def)
  then obtain stats where st: "QueueStats (wit_env 9) wit_q2 = Inr stats"
    by (simp add: QueueStats_def)
  have "sql_count (has_status JobStatusLeased) (processing_jobs wit_q2) = 1"
    "sql_count (has_status JobStatusQueued) (processing_jobs wit_q2) = 0" by code_simp+
  then show ?thesis using queue_stats_counts [OF st] st by (simp add: stat_statuses_def)
qed

end
