(* ===== verification/Bus.thy ===== *)
theory Bus
  imports Jobs
begin

text \<open>
  The message bus: the events of \<open>src/internal/contracts/events/events.go\<close>, the subjects of
  \<open>src/internal/contracts/subjects/subjects.go\<close> and \<open>Publish\<close> of
  \<open>src/internal/messaging/publisher.go\<close>. An event is its struct's fields in order; the field
  \<open>Version\<close> is the constant \<open>v1\<close> in all of them and is left out. The bus is the log of
  what was accepted, oldest first. A publisher that is nil or that fails accepts nothing.

  Identifiers travel as strings. Rendering and parsing them (\<open>uuid.String\<close>,
  \<open>uuid.Parse\<close>) belong to a package outside the repository and are arguments of the
  definitions that use them.
\<close>

datatype bus_event =
  SourceTaskDetectedEvent string string string string time
  | SourceTaskChangedEvent string string string time
  | JobCreatedEvent string string string int string
  | JobRetryEvent string string string int int string string time
  | JobDeadEvent string string string int int string string time
  | ProposalCreatedEvent string string string bool
  | LeaseExpiredAlertEvent nat time
  | RetryOverdueAlertEvent nat time
  | QueueBacklogAlertEvent nat nat time
  | LeaseLostAlertEvent string string time
  | ReclaimCompletedEvent nat
  | RetryRequeueCompletedEvent nat

definition SubjectSourceTaskDetected :: string where
  "SubjectSourceTaskDetected = ''runeforge.source.task.detected''"
definition SubjectSourceTaskChanged :: string where
  "SubjectSourceTaskChanged = ''runeforge.source.task.changed''"
definition SubjectJobCreated :: string where "SubjectJobCreated = ''runeforge.job.created''"
definition SubjectJobRetry :: string where "SubjectJobRetry = ''runeforge.job.retry''"
definition SubjectJobDead :: string where "SubjectJobDead = ''runeforge.job.dead''"
definition SubjectProposalCreated :: string where
  "SubjectProposalCreated = ''runeforge.proposal.created''"
definition SubjectControlAlertLeaseExpired :: string where
  "SubjectControlAlertLeaseExpired = ''runeforge.control.alert.lease_expired''"
definition SubjectControlAlertRetryOverdue :: string where
  "SubjectControlAlertRetryOverdue = ''runeforge.control.alert.retry_overdue''"
definition SubjectControlAlertQueueBacklog :: string where
  "SubjectControlAlertQueueBacklog = ''runeforge.control.alert.queue_backlog''"
definition SubjectControlAlertLeaseLost :: string where
  "SubjectControlAlertLeaseLost = ''runeforge.control.alert.lease_lost''"
definition SubjectControlResultReclaimCompleted :: string where
  "SubjectControlResultReclaimCompleted = ''runeforge.control.result.reclaim_completed''"
definition SubjectControlResultRetryRequeueCompleted :: string where
  "SubjectControlResultRetryRequeueCompleted = ''runeforge.control.result.retry_requeue_completed''"

record sys =
  sys_queue :: queue_db
  sys_bus :: "(string \<times> bus_event) list"

text \<open>\<open>Publish\<close>: \<open>pub\<close> says on which subjects the publisher accepts a message.\<close>

definition Publish :: "(string \<Rightarrow> bool) \<Rightarrow> string \<Rightarrow> bus_event \<Rightarrow> 'a sys_scheme \<Rightarrow> 'a sys_scheme" where
  "Publish pub subject ev s =
     (if pub subject then s\<lparr>sys_bus := sys_bus s @ [(subject, ev)]\<rparr> else s)"

lemma Publish_queue [simp]: "sys_queue (Publish pub subject ev s) = sys_queue s"
  by (simp add: Publish_def)

lemma Publish_bus:
  "sys_bus (Publish pub subject ev s) = (if pub subject then sys_bus s @ [(subject, ev)] else sys_bus s)"
  by (simp add: Publish_def)

definition sys_audit :: "job_env \<Rightarrow> uuid \<Rightarrow> string \<Rightarrow> string \<Rightarrow> string \<Rightarrow> 'a sys_scheme \<Rightarrow> 'a sys_scheme" where
  "sys_audit env entityID eventType actorType actorID s =
     s\<lparr>sys_queue := queue_record env entityID eventType actorType actorID (sys_queue s)\<rparr>"

lemma sys_audit_jobs [simp]:
  "processing_jobs (sys_queue (sys_audit env i e aty ac s)) = processing_jobs (sys_queue s)"
  by (simp add: sys_audit_def)

lemma sys_audit_bus [simp]: "sys_bus (sys_audit env i e aty ac s) = sys_bus s"
  by (simp add: sys_audit_def)

end
