(* ===== verification/Control.thy ===== *)
theory Control
  imports Bus
begin

text \<open>
  The control loop: \<open>src/internal/control/loop.go\<close>. One \<open>scan\<close> reclaims expired
  leases, re-queues overdue retries, dead-letters queued jobs of unknown type and checks the
  queue depth, each through the queue's interface, publishing what it did. Prometheus counters,
  which the code only writes, are not part of the state.
\<close>

definition backlogThreshold :: nat where "backlogThreshold = 50"

record scan_env =
  se_reclaim :: job_env
  se_requeue :: job_env
  se_unknown :: job_env
  se_stats :: job_env
  se_pub :: "string \<Rightarrow> bool"

definition control_reclaimExpiredLeases :: "job_env \<Rightarrow> (string \<Rightarrow> bool) \<Rightarrow> sys \<Rightarrow> sys" where
  "control_reclaimExpiredLeases env pub s =
     (case ReclaimExpiredLeases env (sys_queue s) of
        (Inl e, q) \<Rightarrow> s\<lparr>sys_queue := q\<rparr>
      | (Inr cnt, q) \<Rightarrow>
          if cnt = 0 then s\<lparr>sys_queue := q\<rparr>
          else sys_audit env 0 ''control.reclaim_completed'' ''control_loop'' ''scheduler''
                 (Publish pub SubjectControlResultReclaimCompleted (ReclaimCompletedEvent cnt)
                   (Publish pub SubjectControlAlertLeaseExpired
                     (LeaseExpiredAlertEvent cnt (env_now env)) (s\<lparr>sys_queue := q\<rparr>))))"

definition control_requeueOverdueRetries :: "job_env \<Rightarrow> (string \<Rightarrow> bool) \<Rightarrow> sys \<Rightarrow> sys" where
  "control_requeueOverdueRetries env pub s =
     (case RequeueScheduledRetries env (sys_queue s) of
        (Inl e, q) \<Rightarrow> s\<lparr>sys_queue := q\<rparr>
      | (Inr cnt, q) \<Rightarrow>
          if cnt = 0 then s\<lparr>sys_queue := q\<rparr>
          else sys_audit env 0 ''control.retry_requeue_completed'' ''control_loop'' ''scheduler''
                 (Publish pub SubjectControlResultRetryRequeueCompleted
                   (RetryRequeueCompletedEvent cnt)
                   (Publish pub SubjectControlAlertRetryOverdue
                     (RetryOverdueAlertEvent cnt (env_now env)) (s\<lparr>sys_queue := q\<rparr>))))"

definition control_failUnknownJobTypes :: "job_env \<Rightarrow> sys \<Rightarrow> sys" where
  "control_failUnknownJobTypes env s =
     (case FailUnknownJobTypes env KnownJobTypes (sys_queue s) of
        (Inl e, q) \<Rightarrow> s\<lparr>sys_queue := q\<rparr>
      | (Inr cnt, q) \<Rightarrow>
          if cnt = 0 then s\<lparr>sys_queue := q\<rparr>
          else sys_audit env 0 ''control.unknown_job_types_failed'' ''control_loop'' ''scheduler''
                 (s\<lparr>sys_queue := q\<rparr>))"

text \<open>A key that is absent from a Go map reads as zero.\<close>

definition map_get :: "(string \<rightharpoonup> nat) \<Rightarrow> string \<Rightarrow> nat" where
  "map_get m k = (case m k of None \<Rightarrow> 0 | Some n \<Rightarrow> n)"

definition control_checkQueueState :: "job_env \<Rightarrow> (string \<Rightarrow> bool) \<Rightarrow> sys \<Rightarrow> sys" where
  "control_checkQueueState env pub s =
     (case QueueStats env (sys_queue s) of
        Inl e \<Rightarrow> s
      | Inr stats \<Rightarrow>
          if map_get stats ''queued'' > backlogThreshold
          then Publish pub SubjectControlAlertQueueBacklog
                 (QueueBacklogAlertEvent (map_get stats ''queued'') backlogThreshold (env_now env)) s
          else s)"

definition control_scan :: "scan_env \<Rightarrow> sys \<Rightarrow> sys" where
  "control_scan e s =
     control_checkQueueState (se_stats e) (se_pub e)
       (control_failUnknownJobTypes (se_unknown e)
         (control_requeueOverdueRetries (se_requeue e) (se_pub e)
           (control_reclaimExpiredLeases (se_reclaim e) (se_pub e) s)))"

section \<open>What one scan does to the table\<close>

text \<open>
  Alerts and audit records do not touch the table: the scan is the composition of the queue's
  three maintenance statements.
\<close>

lemma control_reclaim_queue:
  "processing_jobs (sys_queue (control_reclaimExpiredLeases env pub s)) =
     processing_jobs (snd (ReclaimExpiredLeases env (sys_queue s)))"
  by (auto simp: control_reclaimExpiredLeases_def split: sum.splits prod.splits)

lemma control_requeue_queue:
  "processing_jobs (sys_queue (control_requeueOverdueRetries env pub s)) =
     processing_jobs (snd (RequeueScheduledRetries env (sys_queue s)))"
  by (auto simp: control_requeueOverdueRetries_def split: sum.splits prod.splits)

lemma control_unknown_queue:
  "processing_jobs (sys_queue (control_failUnknownJobTypes env s)) =
     processing_jobs (snd (FailUnknownJobTypes env KnownJobTypes (sys_queue s)))"
  by (auto simp: control_failUnknownJobTypes_def split: sum.splits prod.splits)

lemma control_check_queue: "sys_queue (control_checkQueueState env pub s) = sys_queue s"
  by (auto simp: control_checkQueueState_def split: sum.splits)

definition scan_row :: "time \<Rightarrow> time \<Rightarrow> time \<Rightarrow> processing_job \<Rightarrow> processing_job" where
  "scan_row t1 t2 t3 j =
     (let j1 = (if lease_expired t1 j then set_reclaimed t1 j else j);
          j2 = (if retry_due t2 j1 then set_requeued t2 j1 else j1)
      in if unknown_type KnownJobTypes j2 then set_unknown t3 j2 else j2)"

lemma scan_table:
  assumes "env_db_ok (se_reclaim e)" "env_db_ok (se_requeue e)" "env_db_ok (se_unknown e)"
  shows "processing_jobs (sys_queue (control_scan e s)) =
    map (scan_row (env_now (se_reclaim e)) (env_now (se_requeue e)) (env_now (se_unknown e)))
      (processing_jobs (sys_queue s))"
  using assms
  by (simp add: control_scan_def control_check_queue control_unknown_queue control_requeue_queue
      control_reclaim_queue FailUnknown_table Requeue_table Reclaim_table sql_update_def
      scan_row_def Let_def)

lemma scan_row_clean:
  "\<not> lease_expired t1 (scan_row t1 t2 t3 j)" "\<not> retry_due t2 (scan_row t1 t2 t3 j)"
  "\<not> unknown_type KnownJobTypes (scan_row t1 t2 t3 j)"
  by (simp_all add: scan_row_def Let_def lease_expired_def retry_due_def unknown_type_def set_status
      split: option.splits)

lemma scan_row_ID [simp]: "job_ID (scan_row t1 t2 t3 j) = job_ID j"
  by (simp add: scan_row_def Let_def)

lemma scan_row_JobType [simp]: "job_JobType (scan_row t1 t2 t3 j) = job_JobType j"
  by (simp add: scan_row_def Let_def set_defs)

lemma scan_row_requeues:
  assumes "lease_expired t1 j \<or> retry_due t2 j" and "IsKnownJobType (job_JobType j)"
  shows "job_Status (scan_row t1 t2 t3 j) = JobStatusQueued \<and>
    job_ScheduledAt (scan_row t1 t2 t3 j) = job_ScheduledAt j"
  using assms
  by (auto simp: scan_row_def Let_def lease_expired_def retry_due_def unknown_type_def set_defs
      IsKnownJobType_def)

text \<open>
  C7: Recovery. After one scan on a working database nothing recoverable is left behind: no lease
  that had expired, no retry that was due, no queued job of unknown type. Every job whose worker
  died (its lease expired) or whose retry was due, and whose type is known, is queued again and
  can be leased as soon as its scheduled time has come.
\<close>

theorem scan_recovers:
  assumes "env_db_ok (se_reclaim e)" "env_db_ok (se_requeue e)" "env_db_ok (se_unknown e)"
  shows "(\<forall>j \<in> set (processing_jobs (sys_queue (control_scan e s))).
      \<not> lease_expired (env_now (se_reclaim e)) j \<and> \<not> retry_due (env_now (se_requeue e)) j \<and>
      \<not> unknown_type KnownJobTypes j) \<and>
    (\<forall>j \<in> set (processing_jobs (sys_queue s)).
      (lease_expired (env_now (se_reclaim e)) j \<or> retry_due (env_now (se_requeue e)) j) \<and>
      IsKnownJobType (job_JobType j) \<longrightarrow>
      (\<exists>j' \<in> set (processing_jobs (sys_queue (control_scan e s))). job_ID j' = job_ID j \<and>
         (\<forall>now. (case job_ScheduledAt j of None \<Rightarrow> True | Some t \<Rightarrow> t \<le> now) \<longrightarrow>
            leasable now KnownJobTypes {} j')))"
proof (intro conjI ballI impI)
  let ?row = "scan_row (env_now (se_reclaim e)) (env_now (se_requeue e)) (env_now (se_unknown e))"
  note table = scan_table [OF assms, of s]
  fix j assume "j \<in> set (processing_jobs (sys_queue (control_scan e s)))"
  then show "\<not> lease_expired (env_now (se_reclaim e)) j" "\<not> retry_due (env_now (se_requeue e)) j"
    "\<not> unknown_type KnownJobTypes j"
    unfolding table by (auto simp: scan_row_clean)
next
  let ?row = "scan_row (env_now (se_reclaim e)) (env_now (se_requeue e)) (env_now (se_unknown e))"
  note table = scan_table [OF assms, of s]
  fix j assume j: "j \<in> set (processing_jobs (sys_queue s))"
    and h: "(lease_expired (env_now (se_reclaim e)) j \<or> retry_due (env_now (se_requeue e)) j) \<and>
      IsKnownJobType (job_JobType j)"
  have row: "job_Status (?row j) = JobStatusQueued" "job_ScheduledAt (?row j) = job_ScheduledAt j"
    using scan_row_requeues h by blast+
  have "leasable now KnownJobTypes {} (?row j)"
    if "case job_ScheduledAt j of None \<Rightarrow> True | Some t \<Rightarrow> t \<le> now" for now
    using h row that by (simp add: leasable_def IsKnownJobType_def)
  then show "\<exists>j' \<in> set (processing_jobs (sys_queue (control_scan e s))). job_ID j' = job_ID j \<and>
      (\<forall>now. (case job_ScheduledAt j of None \<Rightarrow> True | Some t \<Rightarrow> t \<le> now) \<longrightarrow>
        leasable now KnownJobTypes {} j')"
    unfolding table using j by (intro bexI [of _ "?row j"]) auto
qed

text \<open>
  The backlog alert is published exactly when more than 50 jobs are queued after the
  maintenance statements of the scan ran (given that statistics can be read and the bus accepts
  the subject), and it carries that number.
\<close>

theorem backlog_alert_iff:
  assumes "env_db_ok env" and "pub SubjectControlAlertQueueBacklog"
  shows "sys_bus (control_checkQueueState env pub s) =
    sys_bus s @ (let n = sql_count (has_status JobStatusQueued) (processing_jobs (sys_queue s)) in
      if 50 < n then [(SubjectControlAlertQueueBacklog, QueueBacklogAlertEvent n 50 (env_now env))]
      else [])"
proof -
  obtain stats where st: "QueueStats env (sys_queue s) = Inr stats"
    using assms(1) by (simp add: QueueStats_def)
  have look: "stats ''queued'' = Some (sql_count (has_status JobStatusQueued) (processing_jobs (sys_queue s)))"
    using queue_stats_spec [OF st] by (simp add: stat_statuses_def)
  show ?thesis using st look assms(2)
    by (simp add: control_checkQueueState_def map_get_def backlogThreshold_def Publish_bus Let_def)
qed

theorem scan_recovers_witness:
  "let e = \<lparr>se_reclaim = wit_env (10 * Minute), se_requeue = wit_env (10 * Minute),
            se_unknown = wit_env (10 * Minute), se_stats = wit_env (10 * Minute), se_pub = (\<lambda>_. True)\<rparr>;
       s = \<lparr>sys_queue = wit_q2, sys_bus = []\<rparr>
   in lease_expired (10 * Minute) wit_j2 \<and>
      (\<exists>j' \<in> set (processing_jobs (sys_queue (control_scan e s))). job_ID j' = 1 \<and>
         leasable (10 * Minute) KnownJobTypes {} j')"
proof -
  let ?w = "wit_env (10 * Minute)"
  let ?e = "\<lparr>se_reclaim = ?w, se_requeue = ?w, se_unknown = ?w, se_stats = ?w, se_pub = (\<lambda>_. True)\<rparr>"
  let ?s = "\<lparr>sys_queue = wit_q2, sys_bus = []\<rparr>"
  have j: "lease_expired (10 * Minute) wit_j2" "IsKnownJobType (job_JobType wit_j2)"
    "job_ScheduledAt wit_j2 = None" "job_ID wit_j2 = 1" by code_simp+
  have "env_db_ok (se_reclaim ?e)" "env_db_ok (se_requeue ?e)" "env_db_ok (se_unknown ?e)"
    by (simp_all add: wit_env_def)
  from scan_recovers [OF this, of ?s] j wit_j2_facts(1)
  show ?thesis by (force simp: wit_env_def Let_def)
qed

theorem backlog_alert_iff_witness:
  "sys_bus (control_checkQueueState (wit_env 0) (\<lambda>_. True) \<lparr>sys_queue = wit_q1, sys_bus = []\<rparr>) = []"
proof -
  have "sql_count (has_status JobStatusQueued) (processing_jobs wit_q1) = 1" by code_simp
  then show ?thesis
    using backlog_alert_iff [of "wit_env 0" "\<lambda>_. True" "\<lparr>sys_queue = wit_q1, sys_bus = []\<rparr>"]
    by (simp add: wit_env_def)
qed

end
