(* ===== verification/Source.thy ===== *)
theory Source
  imports Bus "HOL-Library.List_Lexorder" "HOL-Library.Char_ord"
begin

text \<open>
  Source synchronisation: the content hash (\<open>src/internal/source/hasher.go\<close>), the change
  detector (\<open>detector.go\<close>) over the tables \<open>source_tasks\<close> and
  \<open>source_task_snapshots\<close>, the syncer (\<open>syncer.go\<close>) that turns detected changes into
  jobs, and the worker's snapshot lookup (\<open>src/internal/worker/runner.go\<close>).

  A connector (\<open>FetchTasks\<close>, \<open>NormalizeTask\<close>) is an interface: its results are arguments.
  \<open>digest\<close>, the hexadecimal SHA-256 of the JSON text, is an argument too; nothing is assumed
  about it unless a theorem says so. The detector's statements are not in one transaction, so each
  has its own success flag.
\<close>

section \<open>Content hash\<close>

record raw_task =
  raw_ExternalID :: string
  raw_EntityType :: string
  raw_SourcePayload :: string

record normalized_task =
  nt_ExternalID :: string
  nt_Title :: string
  nt_Description :: string
  nt_Status :: string
  nt_Priority :: string
  nt_DueDate :: "time option"
  nt_Labels :: "string list"
  nt_Metadata :: "string \<rightharpoonup> string"
  nt_Hash :: string

text \<open>
  The due date is formatted to the second; the text stands for the number of the second, and the
  empty string for a missing date.
\<close>

record hashable_task =
  ht_ExternalID :: string
  ht_Title :: string
  ht_Description :: string
  ht_Status :: string
  ht_Priority :: string
  ht_DueDate :: "int option"
  ht_Labels :: "string list"
  ht_Metadata :: "string \<rightharpoonup> string"

definition hashable :: "normalized_task \<Rightarrow> hashable_task" where
  "hashable t =
     \<lparr>ht_ExternalID = nt_ExternalID t, ht_Title = nt_Title t, ht_Description = nt_Description t,
      ht_Status = nt_Status t, ht_Priority = nt_Priority t,
      ht_DueDate = map_option (\<lambda>d. d div Second) (nt_DueDate t),
      ht_Labels = sort (nt_Labels t), ht_Metadata = nt_Metadata t\<rparr>"

definition ComputeHash :: "(hashable_task \<Rightarrow> string) \<Rightarrow> normalized_task \<Rightarrow> string" where
  "ComputeHash digest t = digest (hashable t)"

text \<open>
  The content hash does not depend on the order in which the source lists the labels, on the
  sub-second part of the due date, or on the hash field itself.
\<close>

theorem compute_hash_stable:
  assumes "mset ls = mset (nt_Labels t)" and "map_option (\<lambda>d. d div Second) due = map_option (\<lambda>d. d div Second) (nt_DueDate t)"
  shows "ComputeHash digest (t\<lparr>nt_Labels := ls, nt_DueDate := due, nt_Hash := h\<rparr>) = ComputeHash digest t"
proof -
  have "sort ls = sort (nt_Labels t)"
    using assms(1) by (metis mset_sort properties_for_sort sorted_sort)
  with assms(2) show ?thesis by (simp add: ComputeHash_def hashable_def)
qed

theorem compute_hash_stable_witness:
  "let t = \<lparr>nt_ExternalID = ''x'', nt_Title = ''t'', nt_Description = '''', nt_Status = ''open'',
            nt_Priority = '''', nt_DueDate = Some 5, nt_Labels = [''a'', ''b''],
            nt_Metadata = Map.empty, nt_Hash = ''''\<rparr>
   in \<forall>digest. ComputeHash digest (t\<lparr>nt_Labels := [''b'', ''a''], nt_DueDate := Some 9, nt_Hash := ''h''\<rparr>)
        = ComputeHash digest t"
  unfolding Let_def
  by (rule allI, rule compute_hash_stable) (simp_all add: add_mset_commute duration_defs)

section \<open>Change detection\<close>

record source_task =
  st_ID :: uuid
  st_ConnectionID :: uuid
  st_ExternalID :: string
  st_Title :: string
  st_Description :: "string option"
  st_RawPayload :: normalized_task
  st_ContentHash :: string
  st_Status :: string
  st_CreatedAt :: time
  st_UpdatedAt :: time

record snapshot =
  sn_ID :: uuid
  sn_SourceTaskID :: uuid
  sn_Version :: int
  sn_ContentHash :: string
  sn_RawPayload :: normalized_task
  sn_TakenAt :: time

record src_sys = sys +
  source_tasks :: "source_task list"
  snapshots :: "snapshot list"

datatype change_type = ChangeNew | ChangeChanged | ChangeUnchanged

record detection =
  dt_ChangeType :: change_type
  dt_PreviousHash :: string
  dt_NewHash :: string
  dt_SourceTaskID :: uuid
  dt_SnapshotID :: uuid

record detect_env =
  de_now :: time
  de_newID :: uuid
  de_snapshotID :: uuid
  de_marshal_ok :: bool
  de_upsert_ok :: bool
  de_version_ok :: bool
  de_snapshot_ok :: bool
  de_hash_ok :: bool

datatype detect_error = MarshalError | UpsertError | VersionError | SnapshotError | HashError

definition same_task :: "uuid \<Rightarrow> string \<Rightarrow> source_task \<Rightarrow> bool" where
  "same_task conn ext r \<longleftrightarrow> st_ConnectionID r = conn \<and> st_ExternalID r = ext"

definition desc_ptr :: "normalized_task \<Rightarrow> string option" where
  "desc_ptr t = (if nt_Description t = [] then None else Some (nt_Description t))"

definition new_source_task :: "detect_env \<Rightarrow> uuid \<Rightarrow> normalized_task \<Rightarrow> source_task" where
  "new_source_task env conn t =
     \<lparr>st_ID = de_newID env, st_ConnectionID = conn, st_ExternalID = nt_ExternalID t,
      st_Title = nt_Title t, st_Description = desc_ptr t, st_RawPayload = t,
      st_ContentHash = nt_Hash t, st_Status = nt_Status t,
      st_CreatedAt = de_now env, st_UpdatedAt = de_now env\<rparr>"

definition refresh_source_task :: "detect_env \<Rightarrow> normalized_task \<Rightarrow> source_task \<Rightarrow> source_task" where
  "refresh_source_task env t r =
     r\<lparr>st_Title := nt_Title t, st_Description := desc_ptr t, st_RawPayload := t,
       st_Status := nt_Status t, st_UpdatedAt := de_now env\<rparr>"

text \<open>The upsert: its \<open>RETURNING id, content_hash\<close> and the new table.\<close>

definition upsert_task ::
  "detect_env \<Rightarrow> uuid \<Rightarrow> normalized_task \<Rightarrow> source_task list \<Rightarrow>
     ((uuid \<times> string) \<times> source_task list) option"
where
  "upsert_task env conn t rows =
     (if \<not> de_upsert_ok env then None
      else case find (same_task conn (nt_ExternalID t)) rows of
        Some r \<Rightarrow> Some ((st_ID r, st_ContentHash r),
                       sql_update (same_task conn (nt_ExternalID t)) (refresh_source_task env t) rows)
      | None \<Rightarrow>
          if de_newID env \<in> st_ID ` set rows then None
          else Some ((de_newID env, nt_Hash t), rows @ [new_source_task env conn t]))"

text \<open>\<open>COALESCE(MAX(snapshot_version), 0)\<close>\<close>

fun max_version :: "snapshot list \<Rightarrow> uuid \<Rightarrow> int option" where
  "max_version [] i = None"
| "max_version (s # ss) i =
     (if sn_SourceTaskID s = i
      then (case max_version ss i of None \<Rightarrow> Some (sn_Version s) | Some v \<Rightarrow> Some (max (sn_Version s) v))
      else max_version ss i)"

definition last_version :: "snapshot list \<Rightarrow> uuid \<Rightarrow> int" where
  "last_version ss i = (case max_version ss i of None \<Rightarrow> 0 | Some v \<Rightarrow> v)"

definition record_change ::
  "detect_env \<Rightarrow> normalized_task \<Rightarrow> uuid \<Rightarrow> detection \<Rightarrow> 'a src_sys_scheme \<Rightarrow>
     (detect_error + detection) \<times> 'a src_sys_scheme"
where
  "record_change env t taskID result s =
     (if \<not> de_version_ok env then (Inl VersionError, s)
      else
        (let version = last_version (snapshots s) taskID + 1 in
         if \<not> de_snapshot_ok env \<or> \<not> int4 version \<or> de_snapshotID env \<in> sn_ID ` set (snapshots s)
         then (Inl SnapshotError, s)
         else
           (let s1 = s\<lparr>snapshots := snapshots s @
                        [\<lparr>sn_ID = de_snapshotID env, sn_SourceTaskID = taskID, sn_Version = version,
                          sn_ContentHash = nt_Hash t, sn_RawPayload = t, sn_TakenAt = de_now env\<rparr>]\<rparr> in
            if \<not> de_hash_ok env then (Inl HashError, s1)
            else (Inr (result\<lparr>dt_SnapshotID := de_snapshotID env\<rparr>),
                  s1\<lparr>source_tasks :=
                       sql_update (\<lambda>r. st_ID r = taskID)
                         (\<lambda>r. r\<lparr>st_ContentHash := nt_Hash t, st_UpdatedAt := de_now env\<rparr>)
                         (source_tasks s1)\<rparr>))))"

definition Detect ::
  "detect_env \<Rightarrow> uuid \<Rightarrow> normalized_task \<Rightarrow> 'a src_sys_scheme \<Rightarrow>
     (detect_error + detection) \<times> 'a src_sys_scheme"
where
  "Detect env conn t s =
     (if \<not> de_marshal_ok env then (Inl MarshalError, s)
      else case upsert_task env conn t (source_tasks s) of
        None \<Rightarrow> (Inl UpsertError, s)
      | Some ((taskID, storedHash), rows) \<Rightarrow>
          (let s1 = s\<lparr>source_tasks := rows\<rparr>;
               result = \<lparr>dt_ChangeType = ChangeChanged, dt_PreviousHash = storedHash,
                         dt_NewHash = nt_Hash t, dt_SourceTaskID = taskID, dt_SnapshotID = 0\<rparr>
           in if taskID = de_newID env
              then record_change env t taskID
                     (result\<lparr>dt_ChangeType := ChangeNew, dt_PreviousHash := ''''\<rparr>) s1
              else if storedHash = nt_Hash t
              then (Inr (result\<lparr>dt_ChangeType := ChangeUnchanged\<rparr>), s1)
              else record_change env t taskID result s1))"

text \<open>The worker's \<open>loadSnapshotPayload\<close>: the newest snapshot of the task.\<close>

definition newer_snapshot :: "snapshot \<Rightarrow> snapshot \<Rightarrow> bool" where
  "newer_snapshot a b \<longleftrightarrow> sn_Version b < sn_Version a"

definition loadSnapshotPayload :: "bool \<Rightarrow> uuid \<Rightarrow> 'a src_sys_scheme \<Rightarrow> normalized_task option" where
  "loadSnapshotPayload db_ok taskID s =
     (if \<not> db_ok then None
      else map_option sn_RawPayload
             (sql_first newer_snapshot (filter (\<lambda>x. sn_SourceTaskID x = taskID) (snapshots s))))"

section \<open>Synchronising a connection\<close>

record sync_env =
  sy_detect :: detect_env
  sy_enqueue :: job_env
  sy_jobID :: uuid
  sy_now :: time
  sy_pub :: "string \<Rightarrow> bool"

definition dedupe_key :: "(uuid \<Rightarrow> string) \<Rightarrow> uuid \<Rightarrow> string \<Rightarrow> string \<Rightarrow> string" where
  "dedupe_key uuid_str conn ext hash = uuid_str conn @ '':'' @ ext @ '':'' @ hash"

text \<open>One iteration of the loop body; every \<open>continue\<close> is a branch that returns the state.\<close>

definition sync_task ::
  "(uuid \<Rightarrow> string) \<Rightarrow> (hashable_task \<Rightarrow> string) \<Rightarrow> (raw_task \<Rightarrow> normalized_task option) \<Rightarrow>
     uuid \<Rightarrow> sync_env \<Rightarrow> raw_task \<Rightarrow> 'a src_sys_scheme \<Rightarrow> 'a src_sys_scheme"
where
  "sync_task uuid_str digest norm_task conn env raw s =
     (case norm_task raw of
        None \<Rightarrow> s
      | Some n \<Rightarrow>
          (let t = n\<lparr>nt_Hash := ComputeHash digest n\<rparr> in
           case Detect (sy_detect env) conn t s of
             (Inl e, s1) \<Rightarrow> s1
           | (Inr d, s1) \<Rightarrow>
               if dt_ChangeType d = ChangeUnchanged then s1
               else
                 (let key = dedupe_key uuid_str conn (raw_ExternalID raw) (dt_NewHash d) in
                  case Enqueue (sy_enqueue env) (sy_jobID env)
                         \<lparr>ep_SourceTaskID = dt_SourceTaskID d, ep_JobType = ''llm_rewrite'',
                          ep_Priority = 0, ep_DedupeKey = Some key, ep_MaxAttempts = 3\<rparr>
                         (sys_queue s1) of
                    (Inl e, q) \<Rightarrow> s1\<lparr>sys_queue := q\<rparr>
                  | (Inr None, q) \<Rightarrow> s1\<lparr>sys_queue := q\<rparr>
                  | (Inr (Some job), q) \<Rightarrow>
                      (let s2 = s1\<lparr>sys_queue := q\<rparr>;
                           s3 = (if dt_ChangeType d = ChangeNew
                                 then Publish (sy_pub env) SubjectSourceTaskDetected
                                   (SourceTaskDetectedEvent (uuid_str (dt_SourceTaskID d))
                                     (uuid_str conn) (raw_ExternalID raw) ''new'' (sy_now env)) s2
                                 else Publish (sy_pub env) SubjectSourceTaskChanged
                                   (SourceTaskChangedEvent (uuid_str (dt_SourceTaskID d))
                                     (dt_PreviousHash d) (dt_NewHash d) (sy_now env)) s2)
                       in Publish (sy_pub env) SubjectJobCreated
                            (JobCreatedEvent (uuid_str (job_ID job)) (uuid_str (dt_SourceTaskID d))
                              (job_JobType job) (job_Priority job) key) s3))))"

fun sync_loop ::
  "(uuid \<Rightarrow> string) \<Rightarrow> (hashable_task \<Rightarrow> string) \<Rightarrow> (raw_task \<Rightarrow> normalized_task option) \<Rightarrow>
     uuid \<Rightarrow> (sync_env \<times> raw_task) list \<Rightarrow> 'a src_sys_scheme \<Rightarrow> 'a src_sys_scheme"
where
  "sync_loop uuid_str digest norm_task conn [] s = s"
| "sync_loop uuid_str digest norm_task conn ((env, raw) # rs) s =
     sync_loop uuid_str digest norm_task conn rs (sync_task uuid_str digest norm_task conn env raw s)"

text \<open>\<open>fetched\<close> is what \<open>FetchTasks\<close> returned, with the environment of each iteration.\<close>

definition SyncConnection ::
  "(uuid \<Rightarrow> string) \<Rightarrow> (hashable_task \<Rightarrow> string) \<Rightarrow> (raw_task \<Rightarrow> normalized_task option) \<Rightarrow>
     uuid \<Rightarrow> (sync_env \<times> raw_task) list option \<Rightarrow> 'a src_sys_scheme \<Rightarrow> bool \<times> 'a src_sys_scheme"
where
  "SyncConnection uuid_str digest norm_task conn fetched s =
     (case fetched of
        None \<Rightarrow> (False, s)
      | Some raws \<Rightarrow> (True, sync_loop uuid_str digest norm_task conn raws s))"

section \<open>Properties of the detector\<close>

text \<open>The uniqueness constraints of the table \<open>source_tasks\<close>.\<close>

definition src_inv :: "'a src_sys_scheme \<Rightarrow> bool" where
  "src_inv s \<longleftrightarrow> keyed st_ID (source_tasks s) \<and>
     keyed (\<lambda>r. (st_ConnectionID r, st_ExternalID r)) (source_tasks s)"

definition stored_task :: "uuid \<Rightarrow> string \<Rightarrow> 'a src_sys_scheme \<Rightarrow> source_task option" where
  "stored_task conn ext s = find (same_task conn ext) (source_tasks s)"

lemma find_sql_update_same:
  assumes "\<And>r. P r = P (f r)"
  shows "find P (sql_update Q f t) = map_option (\<lambda>r. if Q r then f r else r) (find P t)"
  using assms by (induction t) auto

lemma refresh_keeps [simp]:
  "st_ID (refresh_source_task env t r) = st_ID r"
  "st_ConnectionID (refresh_source_task env t r) = st_ConnectionID r"
  "st_ExternalID (refresh_source_task env t r) = st_ExternalID r"
  "st_ContentHash (refresh_source_task env t r) = st_ContentHash r"
  by (simp_all add: refresh_source_task_def)

lemma new_source_task_sel [simp]:
  "st_ID (new_source_task env conn t) = de_newID env"
  "same_task conn (nt_ExternalID t) (new_source_task env conn t)"
  "st_ContentHash (new_source_task env conn t) = nt_Hash t"
  by (simp_all add: new_source_task_def same_task_def)

lemma find_append_None: "find P t = None \<Longrightarrow> find P (t @ [x]) = (if P x then Some x else None)"
  by (induction t) (auto split: if_splits)

lemma find_SomeD: "find P t = Some r \<Longrightarrow> r \<in> set t \<and> P r"
  by (auto simp: find_Some_iff)

lemma find_key_neq: "find P t = Some r \<Longrightarrow> x \<notin> f ` set t \<Longrightarrow> f r \<noteq> x"
  by (blast dest: find_SomeD)

lemma upsert_stored:
  assumes "upsert_task env conn t rows = Some ((taskID, storedHash), rows')"
  shows "\<exists>r. find (same_task conn (nt_ExternalID t)) rows' = Some r \<and> st_ID r = taskID \<and> st_ContentHash r = storedHash"
proof (cases "find (same_task conn (nt_ExternalID t)) rows")
  case None
  with assms find_append_None [OF None] show ?thesis
    by (auto simp: upsert_task_def split: if_splits)
next
  case (Some r)
  have "find (same_task conn (nt_ExternalID t))
      (sql_update (same_task conn (nt_ExternalID t)) (refresh_source_task env t) rows) =
      Some (refresh_source_task env t r)"
    using Some find_SomeD [OF Some] by (subst find_sql_update_same) (simp_all add: same_task_def)
  with Some assms show ?thesis by (auto simp: upsert_task_def split: if_splits)
qed

lemma upsert_keyed_ID:
  assumes "upsert_task env conn t rows = Some (ret, rows')" and "keyed st_ID rows"
  shows "keyed st_ID rows'"
  using assms
  by (auto simp: upsert_task_def keyed_append keyed_sql_update split: if_splits option.splits)

lemma stored_task_row:
  assumes "find P rows = Some r" and "\<And>x. P x = P (f x)"
  shows "find P (sql_update (\<lambda>x. st_ID x = st_ID r) f rows) = Some (f r)"
  using assms by (subst find_sql_update_same) simp_all

text \<open>What is stored once the upsert went through.\<close>

lemma record_change_ok:
  assumes "de_version_ok env" "de_snapshot_ok env" "de_hash_ok env"
    and "int4 (last_version (snapshots s) taskID + 1)" "de_snapshotID env \<notin> sn_ID ` set (snapshots s)"
    and "find (same_task conn ext) (source_tasks s) = Some r" "st_ID r = taskID"
  obtains s' where "record_change env t taskID d s = (Inr (d\<lparr>dt_SnapshotID := de_snapshotID env\<rparr>), s')"
    "snapshots s' = snapshots s @ [\<lparr>sn_ID = de_snapshotID env, sn_SourceTaskID = taskID,
       sn_Version = last_version (snapshots s) taskID + 1, sn_ContentHash = nt_Hash t,
       sn_RawPayload = t, sn_TakenAt = de_now env\<rparr>]"
    "\<exists>r'. stored_task conn ext s' = Some r' \<and> st_ID r' = taskID \<and> st_ContentHash r' = nt_Hash t"
proof -
  have "find (same_task conn ext) (sql_update (\<lambda>x. st_ID x = st_ID r)
      (\<lambda>r. r\<lparr>st_ContentHash := nt_Hash t, st_UpdatedAt := de_now env\<rparr>) (source_tasks s)) =
      Some (r\<lparr>st_ContentHash := nt_Hash t, st_UpdatedAt := de_now env\<rparr>)"
    by (rule stored_task_row [OF assms(6)]) (simp add: same_task_def)
  with assms show thesis
    by (intro that) (auto simp: record_change_def Let_def stored_task_def)
qed

definition detect_env_ok :: "detect_env \<Rightarrow> 'a src_sys_scheme \<Rightarrow> bool" where
  "detect_env_ok env s \<longleftrightarrow>
     de_marshal_ok env \<and> de_upsert_ok env \<and> de_version_ok env \<and> de_snapshot_ok env \<and> de_hash_ok env \<and>
     de_newID env \<notin> st_ID ` set (source_tasks s) \<and> de_snapshotID env \<notin> sn_ID ` set (snapshots s)"

lemma Detect_classifies:
  assumes env: "detect_env_ok env s" and v4: "\<And>i. int4 (last_version (snapshots s) i + 1)"
  obtains d s' where "Detect env conn t s = (Inr d, s')"
    "dt_ChangeType d = (case stored_task conn (nt_ExternalID t) s of None \<Rightarrow> ChangeNew
      | Some r \<Rightarrow> if st_ContentHash r = nt_Hash t then ChangeUnchanged else ChangeChanged)"
    "dt_NewHash d = nt_Hash t"
    "\<exists>r. stored_task conn (nt_ExternalID t) s' = Some r \<and> st_ID r = dt_SourceTaskID d \<and>
       st_ContentHash r = nt_Hash t"
    "snapshots s' = snapshots s @ (if dt_ChangeType d = ChangeUnchanged then []
      else [\<lparr>sn_ID = de_snapshotID env, sn_SourceTaskID = dt_SourceTaskID d,
             sn_Version = last_version (snapshots s) (dt_SourceTaskID d) + 1,
             sn_ContentHash = nt_Hash t, sn_RawPayload = t, sn_TakenAt = de_now env\<rparr>])"
proof -
  have fresh: "de_newID env \<notin> st_ID ` set (source_tasks s)"
      "de_snapshotID env \<notin> sn_ID ` set (snapshots s)"
    and ok: "de_marshal_ok env" "de_upsert_ok env" "de_version_ok env" "de_snapshot_ok env" "de_hash_ok env"
    using env by (simp_all add: detect_env_ok_def)
  obtain taskID h rows where up: "upsert_task env conn t (source_tasks s) = Some ((taskID, h), rows)"
    using fresh(1) ok(2) that
    by (cases "find (same_task conn (nt_ExternalID t)) (source_tasks s)") (auto simp: upsert_task_def)
  let ?s1 = "s\<lparr>source_tasks := rows\<rparr>"
  obtain r1 where r1: "find (same_task conn (nt_ExternalID t)) (source_tasks ?s1) = Some r1"
      "st_ID r1 = taskID" "st_ContentHash r1 = h"
    using upsert_stored [OF up] by auto
  have cls: "(taskID = de_newID env) = (stored_task conn (nt_ExternalID t) s = None)"
      "stored_task conn (nt_ExternalID t) s = Some r \<Longrightarrow> h = st_ContentHash r" for r
    using up fresh(1)
    by (auto simp: upsert_task_def stored_task_def dest: find_key_neq split: option.splits if_splits)
  show thesis
  proof (cases "taskID \<noteq> de_newID env \<and> h = nt_Hash t")
    case True
    with up ok(1) r1 cls show thesis
      by (intro that) (auto simp: Detect_def Let_def stored_task_def split: option.splits)
  next
    case False
    let ?d = "\<lparr>dt_ChangeType = (if taskID = de_newID env then ChangeNew else ChangeChanged),
      dt_PreviousHash = (if taskID = de_newID env then [] else h),
      dt_NewHash = nt_Hash t, dt_SourceTaskID = taskID, dt_SnapshotID = 0\<rparr>"
    have D: "Detect env conn t s = record_change env t taskID ?d ?s1"
      using up ok(1) False by (auto simp: Detect_def Let_def)
    have v: "int4 (last_version (snapshots ?s1) taskID + 1)"
        "de_snapshotID env \<notin> sn_ID ` set (snapshots ?s1)"
      using fresh(2) v4 by simp_all
    obtain s' where s': "record_change env t taskID ?d ?s1 = (Inr (?d\<lparr>dt_SnapshotID := de_snapshotID env\<rparr>), s')"
        "snapshots s' = snapshots ?s1 @ [\<lparr>sn_ID = de_snapshotID env, sn_SourceTaskID = taskID,
           sn_Version = last_version (snapshots ?s1) taskID + 1, sn_ContentHash = nt_Hash t,
           sn_RawPayload = t, sn_TakenAt = de_now env\<rparr>]"
        "\<exists>r'. stored_task conn (nt_ExternalID t) s' = Some r' \<and> st_ID r' = taskID \<and> st_ContentHash r' = nt_Hash t"
      by (rule record_change_ok [OF ok(3,4,5) v r1(1,2)])
    show thesis
      by (rule that [OF trans [OF D s'(1)]]) (use s' cls False in \<open>auto split: option.splits\<close>)
  qed
qed

lemma Detect_unchanged:
  assumes "stored_task conn (nt_ExternalID t) s = Some r" and "st_ContentHash r = nt_Hash t"
    and "de_newID env \<notin> st_ID ` set (source_tasks s)" "de_marshal_ok env" "de_upsert_ok env"
  shows "\<exists>d s'. Detect env conn t s = (Inr d, s') \<and> dt_ChangeType d = ChangeUnchanged \<and>
    snapshots s' = snapshots s \<and> sys_queue s' = sys_queue s \<and> sys_bus s' = sys_bus s"
proof -
  have "st_ID r \<noteq> de_newID env"
    using assms(1,3) by (auto simp: stored_task_def dest: find_key_neq)
  with assms show ?thesis
    by (auto simp: Detect_def upsert_task_def stored_task_def Let_def)
qed

text \<open>
  Change detection. When all four statements succeed and the generated identifiers are fresh,
  \<open>Detect\<close> answers ``new'' exactly for a task it has not stored, ``unchanged'' exactly when the
  stored content hash equals the new one, and ``changed'' otherwise; afterwards the stored hash is
  the new hash, and a snapshot one version above the task's last was added unless nothing changed.
\<close>

theorem detect_classifies:
  assumes "detect_env_ok env s" and "\<And>i. int4 (last_version (snapshots s) i + 1)"
  shows "\<exists>d s'. Detect env conn t s = (Inr d, s') \<and>
    dt_ChangeType d = (case stored_task conn (nt_ExternalID t) s of None \<Rightarrow> ChangeNew
      | Some r \<Rightarrow> if st_ContentHash r = nt_Hash t then ChangeUnchanged else ChangeChanged) \<and>
    map_option st_ContentHash (stored_task conn (nt_ExternalID t) s') = Some (nt_Hash t) \<and>
    map_option st_ID (stored_task conn (nt_ExternalID t) s') = Some (dt_SourceTaskID d) \<and>
    map sn_Version (snapshots s') = map sn_Version (snapshots s) @
      (if dt_ChangeType d = ChangeUnchanged then []
       else [last_version (snapshots s) (dt_SourceTaskID d) + 1])"
proof -
  obtain d s' where "Detect env conn t s = (Inr d, s')"
    "dt_ChangeType d = (case stored_task conn (nt_ExternalID t) s of None \<Rightarrow> ChangeNew
      | Some r \<Rightarrow> if st_ContentHash r = nt_Hash t then ChangeUnchanged else ChangeChanged)"
    "\<exists>r. stored_task conn (nt_ExternalID t) s' = Some r \<and> st_ID r = dt_SourceTaskID d \<and>
       st_ContentHash r = nt_Hash t"
    "snapshots s' = snapshots s @ (if dt_ChangeType d = ChangeUnchanged then []
      else [\<lparr>sn_ID = de_snapshotID env, sn_SourceTaskID = dt_SourceTaskID d,
             sn_Version = last_version (snapshots s) (dt_SourceTaskID d) + 1,
             sn_ContentHash = nt_Hash t, sn_RawPayload = t, sn_TakenAt = de_now env\<rparr>])"
    by (rule Detect_classifies [OF assms])
  then show ?thesis by (intro exI [of _ d] exI [of _ s']) auto
qed

text \<open>
  Detection is idempotent: when a task was detected successfully and is seen again with the
  same content, the second detection answers ``unchanged'', adds no snapshot, and touches neither
  the queue nor the bus.
\<close>

theorem detect_idempotent:
  assumes "detect_env_ok env s" and "\<And>i. int4 (last_version (snapshots s) i + 1)"
    and "Detect env conn t s = (Inr d, s')"
    and "de_newID env' \<notin> st_ID ` set (source_tasks s')" "de_marshal_ok env'" "de_upsert_ok env'"
  shows "\<exists>d' s''. Detect env' conn t s' = (Inr d', s'') \<and> dt_ChangeType d' = ChangeUnchanged \<and>
    snapshots s'' = snapshots s' \<and> sys_queue s'' = sys_queue s' \<and> sys_bus s'' = sys_bus s'"
proof -
  obtain r where "stored_task conn (nt_ExternalID t) s' = Some r" "st_ContentHash r = nt_Hash t"
    by (rule Detect_classifies [OF assms(1,2), of conn t]) (use assms(3) in auto)
  then show ?thesis using Detect_unchanged assms(4-6) by blast
qed

text \<open>
  A failed first detection is forgotten. If the upsert of a new task goes through and a later
  statement of the same \<open>Detect\<close> fails, the call reports an error, yet every later detection of
  the same content answers ``unchanged'': the row was inserted with the final content hash already,
  so the syncer never creates a job for this content.
\<close>

theorem failed_first_detection_is_forgotten:
  assumes "stored_task conn (nt_ExternalID t) s = None" and "de_newID env \<notin> st_ID ` set (source_tasks s)"
    and "de_marshal_ok env" "de_upsert_ok env" and "\<not> de_version_ok env"
    and "de_newID env' \<noteq> de_newID env" "de_newID env' \<notin> st_ID ` set (source_tasks s)"
    and "de_marshal_ok env'" "de_upsert_ok env'"
  shows "fst (Detect env conn t s) = Inl VersionError \<and>
    (\<exists>d s''. Detect env' conn t (snd (Detect env conn t s)) = (Inr d, s'') \<and>
       dt_ChangeType d = ChangeUnchanged)"
proof -
  let ?s' = "s\<lparr>source_tasks := source_tasks s @ [new_source_task env conn t]\<rparr>"
  have D: "Detect env conn t s = (Inl VersionError, ?s')"
    using assms(1-5) by (simp add: Detect_def upsert_task_def stored_task_def Let_def record_change_def)
  have "stored_task conn (nt_ExternalID t) ?s' = Some (new_source_task env conn t)"
    using assms(1) by (simp add: stored_task_def find_append_None)
  moreover have "de_newID env' \<notin> st_ID ` set (source_tasks ?s')"
    using assms(6,7) by simp
  ultimately have "\<exists>d s''. Detect env' conn t ?s' = (Inr d, s'') \<and> dt_ChangeType d = ChangeUnchanged \<and>
      snapshots s'' = snapshots ?s' \<and> sys_queue s'' = sys_queue ?s' \<and> sys_bus s'' = sys_bus ?s'"
    using assms(8,9) Detect_unchanged [of conn t ?s' "new_source_task env conn t" env'] by simp
  with D show ?thesis by auto
qed

section \<open>Properties of the syncer\<close>

definition job_params :: "(uuid \<Rightarrow> string) \<Rightarrow> uuid \<Rightarrow> raw_task \<Rightarrow> detection \<Rightarrow> enqueue_params" where
  "job_params uuid_str conn raw d =
     \<lparr>ep_SourceTaskID = dt_SourceTaskID d, ep_JobType = ''llm_rewrite'', ep_Priority = 0,
      ep_DedupeKey = Some (dedupe_key uuid_str conn (raw_ExternalID raw) (dt_NewHash d)),
      ep_MaxAttempts = 3\<rparr>"

lemma Detect_queue_bus:
  assumes "Detect env conn t s = (r, s')"
  shows "sys_queue s' = sys_queue s" "sys_bus s' = sys_bus s"
  using assms
  by (auto simp: Detect_def record_change_def Let_def split: if_splits option.splits prod.splits)

text \<open>
  What one iteration of the syncer does to the queue and the bus. An unchanged task touches
  neither. A new or changed task whose key no live job carries gets exactly one queued
  \<open>llm_rewrite\<close> job, and its change event and job-created event are published in this order.
\<close>

theorem sync_task_creates_job:
  assumes "norm_task raw = Some n"
    and "Detect (sy_detect env) conn (n\<lparr>nt_Hash := ComputeHash digest n\<rparr>) s = (Inr d, s1)"
    and "env_db_ok (sy_enqueue env)" and "sy_jobID env \<notin> job_ID ` set (processing_jobs (sys_queue s))"
    and "\<not> dedupe_conflict (ep_DedupeKey (job_params uuid_str conn raw d)) (processing_jobs (sys_queue s))"
    and "sy_pub env SubjectSourceTaskDetected" "sy_pub env SubjectSourceTaskChanged" "sy_pub env SubjectJobCreated"
  shows "let s' = sync_task uuid_str digest norm_task conn env raw s;
             job = new_job (env_now (sy_enqueue env)) (sy_jobID env) (job_params uuid_str conn raw d) in
    if dt_ChangeType d = ChangeUnchanged then sys_queue s' = sys_queue s \<and> sys_bus s' = sys_bus s
    else processing_jobs (sys_queue s') = processing_jobs (sys_queue s) @ [job] \<and>
         job_Status job = JobStatusQueued \<and> job_JobType job = ''llm_rewrite'' \<and>
         map fst (sys_bus s') = map fst (sys_bus s) @
           [if dt_ChangeType d = ChangeNew then SubjectSourceTaskDetected else SubjectSourceTaskChanged,
            SubjectJobCreated]"
proof -
  note qb = Detect_queue_bus [OF assms(2)]
  let ?p = "job_params uuid_str conn raw d"
  let ?job = "new_job (env_now (sy_enqueue env)) (sy_jobID env) ?p"
  have E: "Enqueue (sy_enqueue env) (sy_jobID env) ?p (sys_queue s1) =
      (Inr (Some ?job), queue_record (sy_enqueue env) (sy_jobID env) ''job.created'' ''system'' ''queue''
        ((sys_queue s)\<lparr>processing_jobs := processing_jobs (sys_queue s) @ [?job]\<rparr>))"
    using assms(3-5) qb
    by (simp add: Enqueue_def Let_def new_job_def job_params_def IsKnownJobType_def KnownJobTypes_def int4_def)
  then show ?thesis
    using assms(1,2,6-8) qb unfolding job_params_def
    by (simp add: sync_task_def Let_def Publish_bus) (simp add: new_job_def)
qed

text \<open>
  A failed \<open>Enqueue\<close> is forgotten. If the change of a task was detected and the job could not
  be enqueued (here: the database refused the statement), the next synchronisation of the same
  content changes neither the queue nor the bus, even on a working database: the content hash was
  already stored.
\<close>

theorem failed_enqueue_is_forgotten:
  assumes "norm_task raw = Some n" and "detect_env_ok (sy_detect env) s"
    and "\<And>i. int4 (last_version (snapshots s) i + 1)"
    and "\<not> env_db_ok (sy_enqueue env)"
    and "s' = sync_task uuid_str digest norm_task conn env raw s"
    and "de_newID (sy_detect env') \<notin> st_ID ` set (source_tasks s')"
    and "de_marshal_ok (sy_detect env')" "de_upsert_ok (sy_detect env')"
  shows "processing_jobs (sys_queue s') = processing_jobs (sys_queue s) \<and>
    sys_queue (sync_task uuid_str digest norm_task conn env' raw s') = sys_queue s' \<and>
    sys_bus (sync_task uuid_str digest norm_task conn env' raw s') = sys_bus s'"
proof -
  let ?t = "n\<lparr>nt_Hash := ComputeHash digest n\<rparr>"
  obtain d s1 r where D: "Detect (sy_detect env) conn ?t s = (Inr d, s1)"
      and r: "stored_task conn (nt_ExternalID ?t) s1 = Some r" "st_ContentHash r = nt_Hash ?t"
    by (rule Detect_classifies [OF assms(2,3), of conn ?t]) auto
  have E: "Enqueue (sy_enqueue env) i p q = (Inl DbError, q) \<or> (\<exists>e. Enqueue (sy_enqueue env) i p q = (Inl e, q))" for i p q
    using assms(4) by (simp add: Enqueue_def Let_def)
  have s': "sys_queue s' = sys_queue s1" "sys_bus s' = sys_bus s1" "source_tasks s' = source_tasks s1"
    unfolding assms(5) sync_task_def using assms(1) D E
    by (auto simp: Let_def split: sum.splits prod.splits option.splits)
      (metis Inl_Inr_False prod.inject)+
  have "stored_task conn (nt_ExternalID ?t) s' = Some r"
    using r(1) s'(3) by (simp add: stored_task_def)
  then obtain d' s2 where "Detect (sy_detect env') conn ?t s' = (Inr d', s2)"
      "dt_ChangeType d' = ChangeUnchanged" "sys_queue s2 = sys_queue s'" "sys_bus s2 = sys_bus s'"
    using Detect_unchanged [OF _ r(2) assms(6-8)] by blast
  then show ?thesis
    using assms(1) s' Detect_queue_bus [OF D] by (simp add: sync_task_def Let_def)
qed

section \<open>Uniqueness is kept\<close>

lemma upsert_src_keys:
  assumes "upsert_task env conn t rows = Some (ret, rows')"
    and "keyed (\<lambda>r. (st_ConnectionID r, st_ExternalID r)) rows"
  shows "keyed (\<lambda>r. (st_ConnectionID r, st_ExternalID r)) rows'"
proof (cases "find (same_task conn (nt_ExternalID t)) rows")
  case None
  then have "(conn, nt_ExternalID t) \<notin> (\<lambda>r. (st_ConnectionID r, st_ExternalID r)) ` set rows"
    by (auto simp: find_None_iff same_task_def)
  with None assms show ?thesis
    by (auto simp: upsert_task_def keyed_append new_source_task_def split: if_splits)
next
  case (Some r)
  with assms show ?thesis by (auto simp: upsert_task_def keyed_sql_update split: if_splits)
qed

lemma max_version_bound: "x \<in> set ss \<Longrightarrow> sn_SourceTaskID x = i \<Longrightarrow> \<exists>v. max_version ss i = Some v \<and> sn_Version x \<le> v"
  by (induction ss) (auto split: option.splits simp: max_def)

lemma last_version_bound: "x \<in> set ss \<Longrightarrow> sn_SourceTaskID x = i \<Longrightarrow> sn_Version x \<le> last_version ss i"
  using max_version_bound [of x ss i] by (auto simp: last_version_def)

text \<open>
  The detector keeps the uniqueness constraints of its tables, whichever of its statements
  fail: task identifiers, the pair of connection and external identifier, snapshot identifiers,
  and the pair of task and snapshot version stay unique.
\<close>

theorem detect_keeps_uniqueness:
  assumes "src_inv s" and "keyed sn_ID (snapshots s)" "keyed (\<lambda>x. (sn_SourceTaskID x, sn_Version x)) (snapshots s)"
  shows "let s' = snd (Detect env conn t s) in src_inv s' \<and> keyed sn_ID (snapshots s') \<and>
    keyed (\<lambda>x. (sn_SourceTaskID x, sn_Version x)) (snapshots s')"
proof -
  have new: "(i, last_version (snapshots s) i + 1) \<notin> (\<lambda>x. (sn_SourceTaskID x, sn_Version x)) ` set (snapshots s)" for i
    using last_version_bound [of _ "snapshots s" i] by fastforce
  have rc: "src_inv (snd (record_change env t i d s1)) \<and> keyed sn_ID (snapshots (snd (record_change env t i d s1))) \<and>
      keyed (\<lambda>x. (sn_SourceTaskID x, sn_Version x)) (snapshots (snd (record_change env t i d s1)))"
    if "src_inv s1" "snapshots s1 = snapshots s" for i d s1
    using that assms(2,3) new
    by (auto simp: record_change_def Let_def src_inv_def keyed_append keyed_sql_update)
  show ?thesis
  proof (cases "upsert_task env conn t (source_tasks s)")
    case None
    with assms show ?thesis by (simp add: Detect_def Let_def)
  next
    case (Some u)
    obtain i h rows where u: "u = ((i, h), rows)" by (metis prod.exhaust)
    have "src_inv (s\<lparr>source_tasks := rows\<rparr>)"
      using upsert_keyed_ID [OF Some [unfolded u]] upsert_src_keys [OF Some [unfolded u]] assms(1)
      by (simp add: src_inv_def)
    with Some u rc [of "s\<lparr>source_tasks := rows\<rparr>"] assms show ?thesis
      by (auto simp: Detect_def Let_def)
  qed
qed

section \<open>Concrete synchronisations\<close>

definition wit_task :: "string \<Rightarrow> normalized_task" where
  "wit_task title = \<lparr>nt_ExternalID = ''x1'', nt_Title = title, nt_Description = [], nt_Status = ''open'',
     nt_Priority = [], nt_DueDate = None, nt_Labels = [], nt_Metadata = Map.empty, nt_Hash = title\<rparr>"

definition wit_raw :: raw_task where
  "wit_raw = \<lparr>raw_ExternalID = ''x1'', raw_EntityType = ''task'', raw_SourcePayload = []\<rparr>"

definition wit_denv :: "uuid \<Rightarrow> bool \<Rightarrow> detect_env" where
  "wit_denv i v = \<lparr>de_now = 0, de_newID = i, de_snapshotID = i, de_marshal_ok = True, de_upsert_ok = True,
     de_version_ok = v, de_snapshot_ok = True, de_hash_ok = True\<rparr>"

definition wit_senv :: "uuid \<Rightarrow> bool \<Rightarrow> sync_env" where
  "wit_senv i ok = \<lparr>sy_detect = wit_denv i True,
     sy_enqueue = \<lparr>env_now = 0, env_db_ok = ok, env_audit_ok = (\<lambda>_. True)\<rparr>,
     sy_jobID = i, sy_now = 0, sy_pub = (\<lambda>_. True)\<rparr>"

definition wit_src :: src_sys where
  "wit_src = \<lparr>sys_queue = wit_q0, sys_bus = [], source_tasks = [], snapshots = []\<rparr>"

lemma wit_src_ok: "detect_env_ok (wit_denv i True) wit_src" "int4 (last_version (snapshots wit_src) k + 1)"
  by (simp_all add: detect_env_ok_def wit_denv_def wit_src_def last_version_def int4_def)

theorem detect_classifies_witness:
  "\<exists>d s'. Detect (wit_denv 1 True) 9 (wit_task ''a'') wit_src = (Inr d, s') \<and> dt_ChangeType d = ChangeNew"
  using detect_classifies [OF wit_src_ok, of 1 9 "wit_task ''a''"]
  by (auto simp: stored_task_def wit_src_def)

theorem detect_idempotent_witness:
  "\<exists>d s'. Detect (wit_denv 2 True) 9 (wit_task ''a'')
      (snd (Detect (wit_denv 1 True) 9 (wit_task ''a'') wit_src)) = (Inr d, s') \<and>
    dt_ChangeType d = ChangeUnchanged"
proof -
  obtain d s' where D: "Detect (wit_denv 1 True) 9 (wit_task ''a'') wit_src = (Inr d, s')"
    using detect_classifies [OF wit_src_ok, of 1 9 "wit_task ''a''"] by blast
  have "s' = snd (Detect (wit_denv 1 True) 9 (wit_task ''a'') wit_src)" using D by simp
  then have "st_ID ` set (source_tasks s') = {1}"
    by (simp add: Detect_def upsert_task_def record_change_def wit_denv_def wit_src_def Let_def
        last_version_def int4_def new_source_task_def)
  then show ?thesis
    using detect_idempotent [OF wit_src_ok D, of "wit_denv 2 True"] D
    by (simp add: wit_denv_def) blast
qed

theorem failed_first_detection_is_forgotten_witness:
  "fst (Detect (wit_denv 1 False) 9 (wit_task ''a'') wit_src) = Inl VersionError \<and>
   (\<exists>d s''. Detect (wit_denv 2 True) 9 (wit_task ''a'')
      (snd (Detect (wit_denv 1 False) 9 (wit_task ''a'') wit_src)) = (Inr d, s'') \<and>
      dt_ChangeType d = ChangeUnchanged)"
  by (rule failed_first_detection_is_forgotten)
    (simp_all add: wit_denv_def wit_src_def stored_task_def)

theorem sync_task_creates_job_witness:
  "map job_JobType (processing_jobs (sys_queue
     (sync_task (\<lambda>_. ''u'') (\<lambda>h. ht_Title h) (\<lambda>_. Some (wit_task ''a'')) 9 (wit_senv 1 True) wit_raw wit_src)))
   = [''llm_rewrite'']"
proof -
  have t: "(wit_task ''a'')\<lparr>nt_Hash := ComputeHash (\<lambda>h. ht_Title h) (wit_task ''a'')\<rparr> = wit_task ''a''"
    by (simp add: ComputeHash_def hashable_def wit_task_def)
  have ok: "detect_env_ok (sy_detect (wit_senv 1 True)) wit_src" using wit_src_ok(1) by (simp add: wit_senv_def)
  obtain d s1 where D: "Detect (sy_detect (wit_senv 1 True)) 9 (wit_task ''a'') wit_src = (Inr d, s1)"
      "dt_ChangeType d = ChangeNew"
    using detect_classifies [OF ok wit_src_ok(2), of 9 "wit_task ''a''"]
    by (auto simp: stored_task_def wit_src_def)
  have "env_db_ok (sy_enqueue (wit_senv 1 True))" by (simp add: wit_senv_def)
  from sync_task_creates_job [of "\<lambda>_. Some (wit_task ''a'')" wit_raw "wit_task ''a''" "wit_senv 1 True" 9
      "\<lambda>h. ht_Title h" wit_src d s1 "\<lambda>_. ''u''", unfolded t, OF refl D(1) this] D(2)
  show ?thesis
    by (simp add: wit_src_def wit_q0_def wit_senv_def dedupe_conflict_def Let_def new_job_def job_params_def)
qed

theorem failed_enqueue_is_forgotten_witness:
  "let s' = sync_task (\<lambda>_. ''u'') (\<lambda>h. ht_Title h) (\<lambda>_. Some (wit_task ''a'')) 9 (wit_senv 1 False) wit_raw wit_src
   in processing_jobs (sys_queue (sync_task (\<lambda>_. ''u'') (\<lambda>h. ht_Title h) (\<lambda>_. Some (wit_task ''a'')) 9
        (wit_senv 2 True) wit_raw s')) = []"
proof -
  let ?f = "sync_task (\<lambda>_. ''u'') (\<lambda>h. ht_Title h) (\<lambda>_. Some (wit_task ''a'')) 9"
  let ?s' = "?f (wit_senv 1 False) wit_raw wit_src"
  have ok: "detect_env_ok (sy_detect (wit_senv 1 False)) wit_src" using wit_src_ok(1) by (simp add: wit_senv_def)
  have db: "\<not> env_db_ok (sy_enqueue (wit_senv 1 False))" by (simp add: wit_senv_def)
  have "st_ID ` set (source_tasks ?s') = {1}"
    by (simp add: sync_task_def wit_senv_def wit_denv_def wit_src_def wit_q0_def Detect_def upsert_task_def
        record_change_def last_version_def int4_def Let_def new_source_task_def Enqueue_def
        IsKnownJobType_def KnownJobTypes_def)
  then have fresh: "de_newID (sy_detect (wit_senv 2 True)) \<notin> st_ID ` set (source_tasks ?s')"
    by (simp add: wit_senv_def wit_denv_def)
  show ?thesis
    using failed_enqueue_is_forgotten [OF _ ok wit_src_ok(2) db refl fresh]
    by (simp add: wit_senv_def wit_denv_def wit_src_def wit_q0_def Let_def)
qed

theorem detect_keeps_uniqueness_witness:
  "src_inv (snd (Detect (wit_denv 1 False) 9 (wit_task ''a'') wit_src))"
  using detect_keeps_uniqueness [of wit_src "wit_denv 1 False" 9 "wit_task ''a''"]
  by (simp add: src_inv_def wit_src_def Let_def)

end
