(* ===== verification/Go_Text.thy ===== *)
theory Go_Text
  imports Prelude
begin

text \<open>
  The text functions of Go's standard library that the program uses, on byte strings: decimal
  printing, the verb \<open>%q\<close>, \<open>strings.TrimSpace\<close>, \<open>strings.ToLower\<close> and
  \<open>json.Valid\<close>. The last one is the byte-driven scanner of \<open>encoding/json\<close> with its
  explicit stack, so it is structurally recursive and needs no fuel.
\<close>

section \<open>Printing\<close>

fun nat_str :: "nat \<Rightarrow> string" where
  "nat_str n = (if n < 10 then [char_of (48 + n)] else nat_str (n div 10) @ [char_of (48 + n mod 10)])"

declare nat_str.simps [simp del]

definition int_str :: "int \<Rightarrow> string" where
  "int_str i = (if i < 0 then ''-'' @ nat_str (nat (- i)) else nat_str (nat i))"

text \<open>\<open>%q\<close>, on the characters below 128.\<close>

definition hex_digit :: "nat \<Rightarrow> char" where
  "hex_digit n = ''0123456789abcdef'' ! n"

definition quote_char :: "char \<Rightarrow> string" where
  "quote_char c =
     (let n = of_char c :: nat; bs = CHR 0x5C in
      if n = 34 \<or> n = 92 then [bs, c]
      else if 7 \<le> n \<and> n \<le> 13 then [bs, ''abtnvfr'' ! (n - 7)]
      else if n < 32 \<or> n = 127 then [bs, CHR ''x'', hex_digit (n div 16), hex_digit (n mod 16)]
      else [c])"

definition go_quote :: "string \<Rightarrow> string" where
  "go_quote s = CHR 0x22 # concat (map quote_char s) @ [CHR 0x22]"

text \<open>The arrow of messages is the three bytes of U+2192.\<close>

definition arrow :: string where
  "arrow = map char_of [226, 134, 146 :: nat]"

section \<open>Trimming and case\<close>

text \<open>The UTF-8 encodings of the runes that \<open>unicode.IsSpace\<close> accepts.\<close>

definition space_codes :: "nat list list" where
  "space_codes =
     [[9], [10], [11], [12], [13], [32], [194, 133], [194, 160], [225, 154, 128]] @
     map (\<lambda>n. [226, 128, n]) ([128..<139] @ [168, 169, 175]) @ [[226, 129, 159], [227, 128, 128]]"

definition space_runes :: "string list" where
  "space_runes = map (map char_of) space_codes"

function trim_with :: "string list \<Rightarrow> string \<Rightarrow> string" where
  "trim_with ps s =
     (case find (\<lambda>p. p \<noteq> [] \<and> has_prefix s p) ps of
        None \<Rightarrow> s
      | Some p \<Rightarrow> trim_with ps (drop (length p) s))"
  by pat_completeness auto

termination
  by (relation "measure (\<lambda>(ps, s). length s)") (auto simp: find_Some_iff has_prefix_iff)

declare trim_with.simps [simp del]

definition TrimSpace :: "string \<Rightarrow> string" where
  "TrimSpace s = rev (trim_with (map rev space_runes) (rev (trim_with space_runes s)))"

text \<open>
  \<open>ToLower\<close> on the letters A to Z. The other letters with an ASCII lower-case form are those
  that map to \<open>i\<close> and to \<open>k\<close>; the program compares the result with names that contain
  neither.
\<close>

definition lower_char :: "char \<Rightarrow> char" where
  "lower_char c = (let n = of_char c :: nat in if 65 \<le> n \<and> n \<le> 90 then char_of (n + 32) else c)"

definition ToLower :: "string \<Rightarrow> string" where
  "ToLower s = map lower_char s"

lemma trim_with_suffix: "\<exists>p. s = p @ trim_with ps s"
proof (induction ps s rule: trim_with.induct)
  case (1 ps s)
  show ?case
  proof (cases "find (\<lambda>p. p \<noteq> [] \<and> has_prefix s p) ps")
    case None
    then show ?thesis by (simp add: trim_with.simps [of ps s])
  next
    case (Some p)
    then have "s = p @ drop (length p) s" by (auto simp: find_Some_iff has_prefix_iff)
    moreover have "trim_with ps s = trim_with ps (drop (length p) s)"
      using Some by (simp add: trim_with.simps [of ps s])
    ultimately show ?thesis using 1 [OF Some] by (metis append_assoc)
  qed
qed

lemma TrimSpace_infix: "\<exists>a b. s = a @ TrimSpace s @ b"
proof -
  obtain a where a: "s = a @ trim_with space_runes s" using trim_with_suffix by blast
  obtain b where "rev (trim_with space_runes s) = b @ trim_with (map rev space_runes) (rev (trim_with space_runes s))"
    using trim_with_suffix by blast
  then have "trim_with space_runes s = TrimSpace s @ rev b"
    unfolding TrimSpace_def by (metis rev_append rev_rev_ident)
  then show ?thesis using a by metis
qed

section \<open>JSON validity\<close>

datatype json_state =
  BeginValueOrEmpty | BeginValue | BeginStringOrEmpty | BeginString | EndValue | EndTop
  | InString | InStringEsc | InStringEscU nat
  | Neg | Digits1 | Digit0 | Dot | Dot0 | E | ESign | E0 | Lit string

datatype json_parse = ParseObjectKey | ParseObjectValue | ParseArrayValue

type_synonym json_scan = "json_state \<times> json_parse list"

definition json_space :: "char \<Rightarrow> bool" where
  "json_space c \<longleftrightarrow> (of_char c :: nat) \<in> {32, 9, 13, 10}"

definition json_digit :: "char \<Rightarrow> bool" where
  "json_digit c \<longleftrightarrow> 48 \<le> (of_char c :: nat) \<and> (of_char c :: nat) \<le> 57"

definition json_hex :: "char \<Rightarrow> bool" where
  "json_hex c \<longleftrightarrow> json_digit c \<or> (let n = of_char c :: nat in (97 \<le> n \<and> n \<le> 102) \<or> (65 \<le> n \<and> n \<le> 70))"

definition maxNestingDepth :: nat where "maxNestingDepth = 10000"

definition json_pop :: "json_parse list \<Rightarrow> json_scan" where
  "json_pop rest = (if rest = [] then EndTop else EndValue, rest)"

definition json_push :: "json_state \<Rightarrow> json_parse \<Rightarrow> json_parse list \<Rightarrow> json_scan option" where
  "json_push st p stack = (if Suc (length stack) \<le> maxNestingDepth then Some (st, p # stack) else None)"

fun json_end_value :: "char \<Rightarrow> json_parse list \<Rightarrow> json_scan option" where
  "json_end_value c [] = (if json_space c then Some (EndTop, []) else None)"
| "json_end_value c (p # rest) =
     (if json_space c then Some (EndValue, p # rest)
      else case p of
        ParseObjectKey \<Rightarrow> if c = CHR '':'' then Some (BeginValue, ParseObjectValue # rest) else None
      | ParseObjectValue \<Rightarrow>
          if c = CHR '','' then Some (BeginString, ParseObjectKey # rest)
          else if c = CHR ''}'' then Some (json_pop rest) else None
      | ParseArrayValue \<Rightarrow>
          if c = CHR '','' then Some (BeginValue, ParseArrayValue # rest)
          else if c = CHR '']'' then Some (json_pop rest) else None)"

definition json_begin_value :: "char \<Rightarrow> json_parse list \<Rightarrow> json_scan option" where
  "json_begin_value c stack =
     (if json_space c then Some (BeginValue, stack)
      else if c = CHR ''{'' then json_push BeginStringOrEmpty ParseObjectKey stack
      else if c = CHR ''['' then json_push BeginValueOrEmpty ParseArrayValue stack
      else if c = CHR 0x22 then Some (InString, stack)
      else if c = CHR ''-'' then Some (Neg, stack)
      else if c = CHR ''0'' then Some (Digit0, stack)
      else if c = CHR ''t'' then Some (Lit ''rue'', stack)
      else if c = CHR ''f'' then Some (Lit ''alse'', stack)
      else if c = CHR ''n'' then Some (Lit ''ull'', stack)
      else if json_digit c then Some (Digits1, stack)
      else None)"

definition json_begin_string :: "char \<Rightarrow> json_parse list \<Rightarrow> json_scan option" where
  "json_begin_string c stack =
     (if json_space c then Some (BeginString, stack)
      else if c = CHR 0x22 then Some (InString, stack) else None)"

definition json_exp_or_end :: "char \<Rightarrow> json_parse list \<Rightarrow> json_scan option" where
  "json_exp_or_end c stack =
     (if c = CHR ''e'' \<or> c = CHR ''E'' then Some (E, stack) else json_end_value c stack)"

fun json_step :: "json_scan \<Rightarrow> char \<Rightarrow> json_scan option" where
  "json_step (BeginValueOrEmpty, stack) c =
     (if json_space c then Some (BeginValueOrEmpty, stack)
      else if c = CHR '']'' then json_end_value c stack else json_begin_value c stack)"
| "json_step (BeginValue, stack) c = json_begin_value c stack"
| "json_step (BeginStringOrEmpty, stack) c =
     (if json_space c then Some (BeginStringOrEmpty, stack)
      else if c = CHR ''}'' then json_end_value c (ParseObjectValue # tl stack)
      else json_begin_string c stack)"
| "json_step (BeginString, stack) c = json_begin_string c stack"
| "json_step (EndValue, stack) c = json_end_value c stack"
| "json_step (EndTop, stack) c = (if json_space c then Some (EndTop, stack) else None)"
| "json_step (InString, stack) c =
     (if c = CHR 0x22 then Some (EndValue, stack)
      else if c = CHR 0x5C then Some (InStringEsc, stack)
      else if (of_char c :: nat) < 32 then None else Some (InString, stack))"
| "json_step (InStringEsc, stack) c =
     (if c \<in> set ''bfnrt/'' \<or> c = CHR 0x5C \<or> c = CHR 0x22 then Some (InString, stack)
      else if c = CHR ''u'' then Some (InStringEscU 0, stack) else None)"
| "json_step (InStringEscU n, stack) c =
     (if json_hex c then Some (if n = 3 then InString else InStringEscU (Suc n), stack) else None)"
| "json_step (Neg, stack) c =
     (if c = CHR ''0'' then Some (Digit0, stack)
      else if json_digit c then Some (Digits1, stack) else None)"
| "json_step (Digits1, stack) c =
     (if json_digit c then Some (Digits1, stack)
      else if c = CHR ''.'' then Some (Dot, stack) else json_exp_or_end c stack)"
| "json_step (Digit0, stack) c =
     (if c = CHR ''.'' then Some (Dot, stack) else json_exp_or_end c stack)"
| "json_step (Dot, stack) c = (if json_digit c then Some (Dot0, stack) else None)"
| "json_step (Dot0, stack) c =
     (if json_digit c then Some (Dot0, stack) else json_exp_or_end c stack)"
| "json_step (E, stack) c =
     (if c = CHR ''+'' \<or> c = CHR ''-'' then Some (ESign, stack)
      else if json_digit c then Some (E0, stack) else None)"
| "json_step (ESign, stack) c = (if json_digit c then Some (E0, stack) else None)"
| "json_step (E0, stack) c = (if json_digit c then Some (E0, stack) else json_end_value c stack)"
| "json_step (Lit w, stack) c =
     (case w of [] \<Rightarrow> json_end_value c stack
      | x # xs \<Rightarrow> if c = x then Some (if xs = [] then EndValue else Lit xs, stack) else None)"

fun json_scan :: "string \<Rightarrow> json_scan \<Rightarrow> json_scan option" where
  "json_scan [] st = Some st"
| "json_scan (c # s) st = (case json_step st c of None \<Rightarrow> None | Some st' \<Rightarrow> json_scan s st')"

text \<open>At the end of the text the scanner is fed one space.\<close>

definition json_valid :: "string \<Rightarrow> bool" where
  "json_valid s =
     (case json_scan s (BeginValue, []) of
        None \<Rightarrow> False
      | Some st \<Rightarrow> fst st = EndTop \<or>
          (case json_step st (CHR '' '') of None \<Rightarrow> False | Some st' \<Rightarrow> fst st' = EndTop))"

section \<open>The order of strings\<close>

text \<open>Go compares strings byte by byte.\<close>

fun str_less :: "string \<Rightarrow> string \<Rightarrow> bool" where
  "str_less xs [] = False"
| "str_less [] (y # ys) = True"
| "str_less (x # xs) (y # ys) = ((of_char x :: nat) < of_char y \<or> x = y \<and> str_less xs ys)"

lemma str_less_irrefl [simp]: "\<not> str_less a a"
  by (induction a) auto

lemma str_less_asym: "str_less a b \<Longrightarrow> \<not> str_less b a"
  by (induction a b rule: str_less.induct) auto

lemma str_less_negtrans: "\<not> str_less a b \<Longrightarrow> \<not> str_less b c \<Longrightarrow> \<not> str_less a c"
proof (induction a c arbitrary: b rule: str_less.induct)
  case (2 y ys)
  then show ?case by (cases b) auto
next
  case (3 x xs y ys)
  show ?case
  proof (cases b)
    case (Cons z zs)
    have inj: "(of_char u :: nat) = of_char v \<longleftrightarrow> u = v" for u v by (simp add: of_char_eq_iff)
    show ?thesis using 3 Cons inj [of x y] inj [of y z] inj [of x z] by auto
  qed (use 3 in auto)
qed simp

end
