(* ===== verification/Float64.thy ===== *)
theory Float64
  imports Prelude "HOL-Library.Log_Nat"
begin

text \<open>
  Go's \<open>float64\<close>: IEEE 754 binary64 with round-to-nearest-even. A finite value is the rational
  number it denotes; \<open>rnd\<close> rounds an exact result to the nearest representable one and
  overflows to an infinity. Every operation is the exact operation followed by \<open>rnd\<close>, so a
  program is computed bit for bit, without the two things the code never observes: the sign of a
  zero and the payload of a NaN. Multiplication and addition are rounded separately, as compiled
  for amd64 (a fused multiply-add would round once).
\<close>

section \<open>Rounding\<close>

text \<open>The exponent of a positive number: the \<open>e\<close> with \<open>2\<^sup>e \<le> x < 2\<^sup>e\<^sup>+\<^sup>1\<close>.\<close>

definition ilog2 :: "rat \<Rightarrow> int" where
  "ilog2 x = (let (n, d) = quotient_of x; k = bitlen n - bitlen d in if 2 powi k \<le> x then k else k - 1)"

definition round_even :: "rat \<Rightarrow> int" where
  "round_even x = (let f = \<lfloor>x\<rfloor>; d = x - of_int f in
     if d < 1 / 2 then f else if d > 1 / 2 then f + 1 else if even f then f else f + 1)"

text \<open>The exponent of the unit in the last place: 53 bits of precision, no finer than \<open>-1074\<close>.\<close>

definition ulp_exp :: "rat \<Rightarrow> int" where
  "ulp_exp x = max (ilog2 \<bar>x\<bar> - 52) (- 1074)"

definition rv :: "rat \<Rightarrow> rat" where
  "rv x = (if x = 0 then 0 else of_int (round_even (x / 2 powi ulp_exp x)) * 2 powi ulp_exp x)"

datatype f64 = Fin rat | PInf | NInf | NaN

definition rnd :: "rat \<Rightarrow> f64" where
  "rnd x = (let r = rv x in if 2 ^ 1024 \<le> r then PInf else if r \<le> - (2 ^ 1024) then NInf else Fin r)"

section \<open>Operations\<close>

fun fneg :: "f64 \<Rightarrow> f64" where
  "fneg (Fin a) = Fin (- a)"
| "fneg PInf = NInf"
| "fneg NInf = PInf"
| "fneg NaN = NaN"

fun fadd :: "f64 \<Rightarrow> f64 \<Rightarrow> f64" where
  "fadd (Fin a) (Fin b) = rnd (a + b)"
| "fadd NaN b = NaN"
| "fadd a NaN = NaN"
| "fadd PInf NInf = NaN"
| "fadd NInf PInf = NaN"
| "fadd PInf b = PInf"
| "fadd NInf b = NInf"
| "fadd a PInf = PInf"
| "fadd a NInf = NInf"

definition fsub :: "f64 \<Rightarrow> f64 \<Rightarrow> f64" where "fsub a b = fadd a (fneg b)"

text \<open>An infinity with the sign of a product or quotient.\<close>

definition finf :: "bool \<Rightarrow> f64" where "finf neg = (if neg then NInf else PInf)"

fun fneg_sign :: "f64 \<Rightarrow> bool" where
  "fneg_sign (Fin a) = (a < 0)"
| "fneg_sign PInf = False"
| "fneg_sign NInf = True"
| "fneg_sign NaN = False"

definition fmul :: "f64 \<Rightarrow> f64 \<Rightarrow> f64" where
  "fmul a b =
     (case (a, b) of
        (NaN, _) \<Rightarrow> NaN
      | (_, NaN) \<Rightarrow> NaN
      | (Fin x, Fin y) \<Rightarrow> rnd (x * y)
      | (Fin x, _) \<Rightarrow> if x = 0 then NaN else finf (fneg_sign a \<noteq> fneg_sign b)
      | (_, Fin y) \<Rightarrow> if y = 0 then NaN else finf (fneg_sign a \<noteq> fneg_sign b)
      | _ \<Rightarrow> finf (fneg_sign a \<noteq> fneg_sign b))"

definition fdiv :: "f64 \<Rightarrow> f64 \<Rightarrow> f64" where
  "fdiv a b =
     (case (a, b) of
        (NaN, _) \<Rightarrow> NaN
      | (_, NaN) \<Rightarrow> NaN
      | (Fin x, Fin y) \<Rightarrow> if y = 0 then (if x = 0 then NaN else finf (fneg_sign a)) else rnd (x / y)
      | (Fin x, _) \<Rightarrow> Fin 0
      | (_, Fin y) \<Rightarrow> finf (fneg_sign a \<noteq> fneg_sign b)
      | _ \<Rightarrow> NaN)"

fun flt :: "f64 \<Rightarrow> f64 \<Rightarrow> bool" where
  "flt (Fin a) (Fin b) = (a < b)"
| "flt NaN b = False"
| "flt a NaN = False"
| "flt PInf b = False"
| "flt a NInf = False"
| "flt NInf b = True"
| "flt a PInf = True"

definition feq :: "f64 \<Rightarrow> f64 \<Rightarrow> bool" where "feq a b \<longleftrightarrow> a = b \<and> a \<noteq> NaN"
definition fle :: "f64 \<Rightarrow> f64 \<Rightarrow> bool" where "fle a b \<longleftrightarrow> flt a b \<or> feq a b"

text \<open>The value of an integer or of a decimal constant.\<close>

abbreviation f64 :: "rat \<Rightarrow> f64" where "f64 \<equiv> rnd"

definition representable :: "f64 \<Rightarrow> bool" where
  "representable a \<longleftrightarrow> (case a of Fin x \<Rightarrow> rv x = x \<and> \<bar>x\<bar> < 2 ^ 1024 | _ \<Rightarrow> True)"

section \<open>Facts about rounding\<close>

lemma powi_add2: "(2::rat) powi (a + b) = 2 powi a * 2 powi b"
  by (rule power_int_add) simp

lemma powi_pos [simp]: "0 < (2::rat) powi k"
  by simp

lemma powi_of_nat: "0 \<le> k \<Longrightarrow> (2::rat) powi k = of_int (2 ^ nat k)"
  by (simp add: power_int_def)

lemma powi_mono: "a \<le> b \<Longrightarrow> (2::rat) powi a \<le> 2 powi b"
  by (simp add: power_int_increasing)

lemma powi_less_iff: "(2::rat) powi a < 2 powi b \<longleftrightarrow> a < b"
  using power_int_strict_increasing [of a b "2::rat"] powi_mono [of b a] by (metis linorder_not_le one_less_numeral_iff semiring_norm(76))

lemma powi_le_iff: "(2::rat) powi a \<le> 2 powi b \<longleftrightarrow> a \<le> b"
  by (meson linorder_not_le powi_less_iff)

lemma powi_ratio: "b \<le> a \<Longrightarrow> (2::rat) powi a = of_int (2 ^ nat (a - b)) * 2 powi b"
  using powi_add2 [of "a - b" b] powi_of_nat [of "a - b"] by simp

lemma bitlen_powi: assumes "0 < n" shows "(2::rat) powi (bitlen n - 1) \<le> of_int n" "of_int n < (2::rat) powi bitlen n"
proof -
  have b: "2 ^ nat (bitlen n - 1) \<le> n \<and> n < 2 ^ nat (bitlen n)" using bitlen_bounds [OF assms] .
  have p: "0 \<le> bitlen n - 1" using assms bitlen_le_iff_power [of n 0] by (simp add: not_le [symmetric])
  have "(of_int (2 ^ nat (bitlen n - 1)) :: rat) \<le> of_int n" using b by (intro of_int_le_iff [THEN iffD2]) simp
  then show "(2::rat) powi (bitlen n - 1) \<le> of_int n" using powi_of_nat [OF p] by simp
  have "(of_int n :: rat) < of_int (2 ^ nat (bitlen n))" using b by (intro of_int_less_iff [THEN iffD2]) simp
  then show "of_int n < (2::rat) powi bitlen n" using powi_of_nat [of "bitlen n"] p by simp
qed

lemma ilog2_bounds:
  assumes "0 < x"
  shows "2 powi ilog2 x \<le> x" and "x < 2 powi (ilog2 x + 1)"
proof -
  obtain n d where q: "quotient_of x = (n, d)" by fastforce
  have d: "0 < d" and x: "x = of_int n / of_int d"
    using quotient_of_denom_pos [OF q] quotient_of_div [OF q] by simp_all
  have n: "0 < n" using assms x d by (simp add: zero_less_divide_iff)
  let ?k = "bitlen n - bitlen d"
  have up: "x < 2 powi (?k + 1)"
  proof -
    have "of_int n < (2::rat) powi (?k + 1) * 2 powi (bitlen d - 1)"
      using bitlen_powi(2) [OF n] powi_add2 [of "?k + 1" "bitlen d - 1"] by simp
    also have "\<dots> \<le> 2 powi (?k + 1) * of_int d" using bitlen_powi(1) [OF d] by simp
    finally show ?thesis using d x by (simp add: divide_less_eq)
  qed
  have low: "2 powi (?k - 1) \<le> x"
  proof -
    have "(2::rat) powi (?k - 1) * of_int d \<le> 2 powi (?k - 1) * 2 powi bitlen d"
      using bitlen_powi(2) [OF d] by (simp add: less_imp_le)
    also have "\<dots> = 2 powi (bitlen n - 1)" using powi_add2 [of "?k - 1" "bitlen d"] by (simp add: algebra_simps)
    also have "\<dots> \<le> of_int n" using bitlen_powi(1) [OF n] .
    finally show ?thesis using d x by (simp add: le_divide_eq)
  qed
  have def: "ilog2 x = (if 2 powi ?k \<le> x then ?k else ?k - 1)" using q by (simp add: ilog2_def)
  show "2 powi ilog2 x \<le> x" using def low by simp
  show "x < 2 powi (ilog2 x + 1)" using def up by (auto simp: not_le)
qed

lemma ilog2_mono: assumes "0 < x" and "x \<le> y" shows "ilog2 x \<le> ilog2 y"
proof -
  have "(2::rat) powi ilog2 x < 2 powi (ilog2 y + 1)"
    using ilog2_bounds [of x] ilog2_bounds [of y] assms by linarith
  then show ?thesis by (simp add: powi_less_iff)
qed

lemma round_even_int [simp]: "round_even (of_int k) = k"
  by (simp add: round_even_def)

lemma round_even_floor: "\<lfloor>x\<rfloor> \<le> round_even x" "round_even x \<le> \<lfloor>x\<rfloor> + 1"
  by (simp_all add: round_even_def Let_def)

lemma round_even_mono: "x \<le> y \<Longrightarrow> round_even x \<le> round_even y"
proof -
  assume xy: "x \<le> y"
  then have "\<lfloor>x\<rfloor> \<le> \<lfloor>y\<rfloor>" by (rule floor_mono)
  then consider "\<lfloor>x\<rfloor> = \<lfloor>y\<rfloor>" | "\<lfloor>x\<rfloor> + 1 \<le> \<lfloor>y\<rfloor>" by linarith
  then show ?thesis
  proof cases
    case 1
    then show ?thesis using xy by (auto simp: round_even_def Let_def)
  next
    case 2
    then show ?thesis using round_even_floor(2) [of x] round_even_floor(1) [of y] by linarith
  qed
qed

lemma round_even_minus: "round_even (- x) = - round_even x"
proof (cases "x = of_int \<lfloor>x\<rfloor>")
  case True
  then have "- x = of_int (- \<lfloor>x\<rfloor>)" by simp
  then show ?thesis using True round_even_int by metis
next
  case False
  have f: "\<lfloor>- x\<rfloor> = - \<lfloor>x\<rfloor> - 1"
    using False by (intro floor_unique) (simp_all, linarith+)
  have "- x - of_int (- \<lfloor>x\<rfloor> - 1) = 1 - (x - of_int \<lfloor>x\<rfloor>)" by simp
  then show ?thesis unfolding round_even_def Let_def f by auto
qed

lemma rv_0 [simp]: "rv 0 = 0"
  by (simp add: rv_def)

lemma rv_minus: "rv (- x) = - rv x"
  by (simp add: rv_def ulp_exp_def round_even_minus)

lemma rv_grid: "rv x = of_int (round_even (x / 2 powi ulp_exp x)) * 2 powi ulp_exp x"
  by (auto simp: rv_def round_even_int [of 0, simplified])

lemma rv_upper: "x \<le> of_int k * 2 powi ulp_exp x \<Longrightarrow> rv x \<le> of_int k * 2 powi ulp_exp x"
proof -
  assume "x \<le> of_int k * 2 powi ulp_exp x"
  then have "x / 2 powi ulp_exp x \<le> of_int k" by (simp add: divide_le_eq)
  then have "round_even (x / 2 powi ulp_exp x) \<le> k" using round_even_mono round_even_int by metis
  then show ?thesis by (simp add: rv_grid)
qed

lemma rv_lower: "of_int k * 2 powi ulp_exp x \<le> x \<Longrightarrow> of_int k * 2 powi ulp_exp x \<le> rv x"
proof -
  assume "of_int k * 2 powi ulp_exp x \<le> x"
  then have "of_int k \<le> x / 2 powi ulp_exp x" by (simp add: le_divide_eq)
  then have "k \<le> round_even (x / 2 powi ulp_exp x)" using round_even_mono round_even_int by metis
  then show ?thesis by (simp add: rv_grid)
qed

lemma rv_nonneg: "0 \<le> x \<Longrightarrow> 0 \<le> rv x"
  using rv_lower [of 0 x] by simp

lemma rv_le_powi: assumes "x \<le> 2 powi k" and "ulp_exp x \<le> k" shows "rv x \<le> 2 powi k"
  using rv_upper [of x "2 ^ nat (k - ulp_exp x)"] powi_ratio [OF assms(2)] assms(1) by simp

lemma rv_ge_powi: assumes "2 powi k \<le> x" and "ulp_exp x \<le> k" shows "2 powi k \<le> rv x"
  using rv_lower [of "2 ^ nat (k - ulp_exp x)" x] powi_ratio [OF assms(2)] assms(1) by simp

lemma rv_mono_pos: assumes "0 < x" and "x \<le> y" shows "rv x \<le> rv y"
proof (cases "ulp_exp x = ulp_exp y")
  case True
  have "x / 2 powi ulp_exp x \<le> y / 2 powi ulp_exp x" using assms(2) by (simp add: divide_right_mono)
  then have "round_even (x / 2 powi ulp_exp x) \<le> round_even (y / 2 powi ulp_exp x)" by (rule round_even_mono)
  then show ?thesis using True by (simp add: rv_grid)
next
  case False
  let ?k = "ilog2 y"
  have le: "ilog2 x \<le> ?k" using ilog2_mono [OF assms] .
  have exps: "ulp_exp x = max (ilog2 x - 52) (- 1074)" "ulp_exp y = max (?k - 52) (- 1074)"
    using assms by (simp_all add: ulp_exp_def)
  then have k: "ilog2 x + 1 \<le> ?k" "ulp_exp x \<le> ?k" "ulp_exp y \<le> ?k" using False le by linarith+
  have "x \<le> 2 powi ?k"
    using ilog2_bounds(2) [OF assms(1)] powi_mono [OF k(1)] by linarith
  then have "rv x \<le> 2 powi ?k" using rv_le_powi k(2) by blast
  also have "2 powi ?k \<le> rv y" using rv_ge_powi ilog2_bounds(1) [of y] assms k(3) by simp
  finally show ?thesis .
qed

lemma rv_mono: assumes "x \<le> y" shows "rv x \<le> rv y"
proof -
  consider "0 < x" | "x \<le> 0" "0 \<le> y" | "y < 0" using assms by linarith
  then show ?thesis
  proof cases
    case 1
    then show ?thesis using rv_mono_pos assms by blast
  next
    case 2
    then show ?thesis using rv_nonneg [of y] rv_nonneg [of "- x"] rv_minus [of x] by linarith
  next
    case 3
    then show ?thesis using rv_mono_pos [of "- y" "- x"] assms rv_minus by auto
  qed
qed

lemma rv_fixed: assumes "x / 2 powi ulp_exp x = of_int k" shows "rv x = x"
proof -
  have "rv x = of_int k * 2 powi ulp_exp x" by (simp add: rv_grid assms)
  also have "\<dots> = x" using assms by (simp add: divide_eq_eq)
  finally show ?thesis .
qed

lemma rv_powi: assumes "- 1074 \<le> k" shows "rv (2 powi k) = 2 powi k"
proof -
  let ?x = "(2::rat) powi k"
  have "2 powi ilog2 ?x \<le> ?x" "?x < 2 powi (ilog2 ?x + 1)" using ilog2_bounds [of ?x] by simp_all
  then have "ilog2 ?x = k" by (simp add: powi_less_iff powi_le_iff)
  then have "ulp_exp ?x \<le> k" using assms by (simp add: ulp_exp_def)
  then show ?thesis using rv_le_powi [of ?x k] rv_ge_powi [of k ?x] by force
qed

lemma rv_rv_pos: assumes "0 < x" shows "rv (rv x) = rv x"
proof (cases "rv x = 0")
  case False
  define p where "p = ulp_exp x"
  define r where "r = rv x"
  define K where "K = round_even (x / 2 powi p)"
  have r: "r = of_int K * 2 powi p" using rv_grid [of x] by (simp add: r_def K_def p_def)
  have pos: "0 < r" using False rv_nonneg [of x] assms by (simp add: r_def)
  have p2: "ulp_exp r = max (ilog2 r - 52) (- 1074)" using pos by (simp add: ulp_exp_def)
  have p1: "p = max (ilog2 x - 52) (- 1074)" using assms by (simp add: ulp_exp_def p_def)
  show ?thesis
  proof (cases "ulp_exp r \<le> p")
    case True
    have "r = of_int (K * 2 ^ nat (p - ulp_exp r)) * 2 powi ulp_exp r"
      using powi_ratio [OF True] r by (metis mult.assoc of_int_mult)
    then have "r / 2 powi ulp_exp r = of_int (K * 2 ^ nat (p - ulp_exp r))"
      by (metis nonzero_mult_div_cancel_right powi_pos less_irrefl)
    then show ?thesis using rv_fixed r_def by blast
  next
    case False
    then have e: "ilog2 x + 1 \<le> ilog2 r" "p \<le> ilog2 r" "- 1074 \<le> ilog2 r" using p1 p2 by linarith+
    have "x \<le> 2 powi ilog2 r" using ilog2_bounds(2) [OF assms] powi_mono [OF e(1)] by linarith
    then have "r \<le> 2 powi ilog2 r" using rv_le_powi e(2) by (simp add: r_def p_def)
    then have "r = 2 powi ilog2 r" using ilog2_bounds(1) [OF pos] by linarith
    then show ?thesis using rv_powi [OF e(3)] r_def by metis
  qed
qed simp

lemma rv_rv [simp]: "rv (rv x) = rv x"
proof -
  consider "0 < x" | "x = 0" | "0 < - x" by linarith
  then show ?thesis
  proof cases
    case 3
    then show ?thesis using rv_rv_pos [OF 3] by (simp add: rv_minus)
  qed (simp_all add: rv_rv_pos)
qed

lemma representable_rnd [simp, intro]: "representable (rnd x)"
  by (auto simp: representable_def rnd_def Let_def)

lemma rnd_fixed: "representable (Fin x) \<Longrightarrow> rnd x = Fin x"
  by (auto simp: representable_def rnd_def)

lemma rv_one [simp]: "rv 1 = 1"
  using rv_powi [of 0] by simp

lemma rnd_0 [simp]: "rnd 0 = Fin 0" and rnd_1 [simp]: "rnd 1 = Fin 1"
  by (simp_all add: rnd_def)

lemma rnd_not_NaN [simp]: "rnd x \<noteq> NaN"
  by (simp add: rnd_def Let_def)

text \<open>Rounding is monotone, also into the infinities.\<close>

lemma rnd_mono: assumes "x \<le> y" shows "fle (rnd x) (rnd y)"
  using rv_mono [OF assms] by (auto simp: rnd_def Let_def fle_def feq_def)

lemma rnd_minus: "rnd (- x) = fneg (rnd x)"
  by (auto simp: rnd_def Let_def rv_minus)

text \<open>Integers of at most 53 bits are exact.\<close>

lemma rv_int: assumes "\<bar>n\<bar> < 2 ^ 53" shows "rv (of_int n) = of_int n"
proof (cases "n = 0")
  case False
  let ?x = "rat_of_int n"
  have "2 powi ilog2 \<bar>?x\<bar> \<le> \<bar>?x\<bar>" using ilog2_bounds(1) [of "\<bar>?x\<bar>"] False by simp
  also have "\<bar>?x\<bar> < of_int (2 ^ 53)" using assms by (metis of_int_abs of_int_less_iff)
  also have "rat_of_int (2 ^ 53) = 2 powi 53" using powi_of_nat [of 53] by simp
  finally have "ilog2 \<bar>?x\<bar> < 53" by (simp only: powi_less_iff)
  then have u: "ulp_exp ?x \<le> 0" by (simp add: ulp_exp_def)
  have "?x / 2 powi ulp_exp ?x = ?x * 2 powi (- ulp_exp ?x)"
    by (simp add: power_int_minus divide_inverse)
  also have "\<dots> = of_int (n * 2 ^ nat (- ulp_exp ?x))" using powi_of_nat [of "- ulp_exp ?x"] u by simp
  finally show ?thesis by (rule rv_fixed)
qed simp

lemma rnd_int: assumes "\<bar>n\<bar> < 2 ^ 53" shows "rnd (of_int n) = Fin (of_int n)"
proof (rule rnd_fixed)
  have "\<bar>rat_of_int n\<bar> < of_int (2 ^ 53)" using assms by (metis of_int_abs of_int_less_iff)
  also have "\<dots> < 2 ^ 1024" by simp
  finally show "representable (Fin (rat_of_int n))" using rv_int [OF assms] by (simp add: representable_def)
qed

lemma rv_three_quarters: "rv (3 / 4) = 3 / 4"
proof -
  have "2 powi ilog2 (3 / 4) \<le> (3::rat) / 4" "(3::rat) / 4 < 2 powi (ilog2 (3 / 4) + 1)"
    by (rule ilog2_bounds; simp)+
  moreover have "(3::rat) / 4 < 2 powi 0" "2 powi (- 1) \<le> (3::rat) / 4" by (simp_all add: power_int_def)
  ultimately have "(2::rat) powi ilog2 (3 / 4) < 2 powi 0" "(2::rat) powi (- 1) < 2 powi (ilog2 (3 / 4) + 1)"
    by linarith+
  then have "ilog2 (3 / 4) = - 1" by (simp only: powi_less_iff)
  then have "ulp_exp (3 / 4) = - 53" by (simp add: ulp_exp_def)
  then show ?thesis by (intro rv_fixed [of _ "3 * 2 ^ 51"]) (simp add: power_int_def power_divide)
qed

lemma rnd_three_quarters: "rnd (3 / 4) = Fin (3 / 4)"
  by (rule rnd_fixed) (simp add: representable_def rv_three_quarters)

section \<open>Order\<close>

lemma flt_irrefl [simp]: "\<not> flt a a"
  by (cases a) simp_all

lemma flt_asym: "flt a b \<Longrightarrow> \<not> flt b a"
  by (cases a; cases b) auto

lemma flt_negtrans: "b \<noteq> NaN \<Longrightarrow> \<not> flt a b \<Longrightarrow> \<not> flt b c \<Longrightarrow> \<not> flt a c"
  by (cases a; cases b; cases c) auto

lemma flt_or_eq: "a \<noteq> NaN \<Longrightarrow> b \<noteq> NaN \<Longrightarrow> flt a b \<or> a = b \<or> flt b a"
  by (cases a; cases b) auto

lemma fle_refl [simp]: "fle a a \<longleftrightarrow> a \<noteq> NaN"
  by (simp add: fle_def feq_def)

lemma fle_trans: "fle a b \<Longrightarrow> fle b c \<Longrightarrow> fle a c"
  by (cases a; cases b; cases c) (auto simp: fle_def feq_def)

lemma not_flt_fle: "a \<noteq> NaN \<Longrightarrow> b \<noteq> NaN \<Longrightarrow> \<not> flt a b \<longleftrightarrow> fle b a"
  by (cases a; cases b) (auto simp: fle_def feq_def)

lemma fle_Fin [simp]: "fle (Fin a) (Fin b) \<longleftrightarrow> a \<le> b"
  by (auto simp: fle_def feq_def)

section \<open>Finite operations\<close>

lemma fadd_not_NaN: "a \<noteq> NaN \<Longrightarrow> b = Fin x \<Longrightarrow> fadd a b \<noteq> NaN"
  by (cases a) simp_all

lemma fmul_Fin [simp]: "fmul (Fin a) (Fin b) = rnd (a * b)"
  by (simp add: fmul_def)

lemma fdiv_Fin [simp]: "b \<noteq> 0 \<Longrightarrow> fdiv (Fin a) (Fin b) = rnd (a / b)"
  by (simp add: fdiv_def)

lemma fsub_Fin [simp]: "fsub (Fin a) (Fin b) = rnd (a - b)"
  by (simp add: fsub_def)

end

