(* ===== verification/Providers.thy ===== *)
theory Providers
  imports Jobs Go_Text Float64
begin

text \<open>
  The LLM provider layer: the data and interfaces of \<open>src/internal/providers/provider.go\<close> and
  \<open>role.go\<close>, the wrapper of \<open>audited.go\<close>, the back ends \<open>ollama.go\<close> and
  \<open>openai.go\<close>, candidate chains (\<open>profile/candidate.go\<close>, \<open>profile/profile.go\<close>,
  \<open>profile/parser.go\<close>) and the role resolution of \<open>src/internal/config/config.go\<close>.

  An error is a finite chain of wrapped values. A provider is a stateful service: its reply to a
  request may depend on how many calls came before, so a provider is a function of the number of
  the call and of the request. The HTTP exchange of a back end is an argument of the same kind; the
  reply carries the result of decoding the body.
\<close>

section \<open>Errors\<close>

datatype go_error =
  DeadlineExceeded
  | Canceled
  | PlainErr string              \<comment> \<open>no \<open>Unwrap\<close>\<close>
  | ValidationErr string         \<comment> \<open>\<open>*ValidationError\<close> with its reason\<close>
  | NetErr bool string           \<comment> \<open>a \<open>net.Error\<close>: \<open>Timeout()\<close> and text\<close>
  | NetWrapErr bool string go_error  \<comment> \<open>a \<open>net.Error\<close> that also unwraps\<close>
  | WrapErr string go_error      \<comment> \<open>\<open>fmt.Errorf\<close> with \<open>%w\<close>: the whole text, the cause\<close>

fun err_text :: "go_error \<Rightarrow> string" where
  "err_text DeadlineExceeded = ''context deadline exceeded''"
| "err_text Canceled = ''context canceled''"
| "err_text (PlainErr m) = m"
| "err_text (ValidationErr reason) = ''validation failed: '' @ reason"
| "err_text (NetErr t m) = m"
| "err_text (NetWrapErr t m e) = m"
| "err_text (WrapErr m e) = m"

definition wrapf :: "string \<Rightarrow> go_error \<Rightarrow> go_error" where
  "wrapf prefix e = WrapErr (prefix @ '': '' @ err_text e) e"

section \<open>Roles\<close>

definition RoleDefault :: string where "RoleDefault = ''default''"
definition RoleFast :: string where "RoleFast = ''fast''"
definition RolePlanner :: string where "RolePlanner = ''planner''"
definition RoleReview :: string where "RoleReview = ''review''"

definition ValidModelRoles :: "string list" where
  "ValidModelRoles = [RoleDefault, RoleFast, RolePlanner, RoleReview]"

definition role_IsValid :: "string \<Rightarrow> bool" where
  "role_IsValid r \<longleftrightarrow> r = RoleDefault \<or> r = RoleFast \<or> r = RolePlanner \<or> r = RoleReview"

section \<open>Candidates\<close>

definition ThinkDefault :: string where "ThinkDefault = ''''"
definition ThinkEnabled :: string where "ThinkEnabled = ''thinking''"
definition ThinkDisabled :: string where "ThinkDisabled = ''nothinking''"

definition ValidThinkModes :: "string list" where
  "ValidThinkModes = [ThinkEnabled, ThinkDisabled]"

definition think_IsValid :: "string \<Rightarrow> bool" where
  "think_IsValid m \<longleftrightarrow> m = ThinkDefault \<or> m = ThinkEnabled \<or> m = ThinkDisabled"

definition think_String :: "string \<Rightarrow> string" where
  "think_String m = (if m = ThinkDefault then ''default'' else m)"

definition ParseThinkMode :: "string \<Rightarrow> string \<times> go_error option" where
  "ParseThinkMode s =
     (if s = '''' \<or> s = ''default'' then (ThinkDefault, None)
      else if s = ''thinking'' \<or> s = ''think'' \<or> s = ''on'' then (ThinkEnabled, None)
      else if s = ''nothinking'' \<or> s = ''nothink'' \<or> s = ''off'' then (ThinkDisabled, None)
      else (ThinkDefault, Some (PlainErr (''invalid think mode '' @ go_quote s @
              '': must be one of thinking, nothinking, on, off, default''))))"

record model_candidate =
  mc_ModelName :: string
  mc_ProviderName :: string
  mc_ThinkMode :: string
  mc_Timeout :: duration
  mc_JSONMode :: bool

datatype candidate_error = NameRequired | InvalidThinkMode | NegativeTimeout

definition candidate_Validate :: "model_candidate \<Rightarrow> candidate_error option" where
  "candidate_Validate c =
     (if mc_ModelName c = [] then Some NameRequired
      else if \<not> think_IsValid (mc_ThinkMode c) then Some InvalidThinkMode
      else if mc_Timeout c < 0 then Some NegativeTimeout
      else None)"

type_synonym role_profiles = "string \<rightharpoonup> model_candidate list"

definition CandidatesForRole :: "role_profiles \<Rightarrow> string \<Rightarrow> model_candidate list" where
  "CandidatesForRole rp role =
     (let fallback = (case rp RoleDefault of None \<Rightarrow> [] | Some cs \<Rightarrow> cs) in
      case rp role of
        None \<Rightarrow> fallback
      | Some cs \<Rightarrow> if cs \<noteq> [] then cs else fallback)"

text \<open>The profile language has been removed: its entry points only report that.\<close>

definition em_dash :: string where "em_dash = [CHR 0xE2, CHR 0x80, CHR 0x94]"

definition disabled_text :: string where
  "disabled_text = ''DSL profile parsing is disabled''"

definition ParseProfile :: "string \<Rightarrow> go_error + model_candidate list" where
  "ParseProfile s = Inl (PlainErr (disabled_text @ '': define execution settings in '' @
     ''providers/<name>.yaml under models[].execution and reference models '' @
     ''via execution_profiles[role][N].ref '' @ em_dash @ '' see RUNBOOK.md for migration guide''))"

definition ParseProfileOrSingle :: "string \<Rightarrow> go_error + model_candidate list" where
  "ParseProfileOrSingle s = Inl (PlainErr (disabled_text @ '' (attempted to parse '' @ go_quote s @
     ''): define execution settings in providers/<name>.yaml under models[].execution '' @ em_dash @
     '' see RUNBOOK.md for migration guide''))"

section \<open>Attempts and traces\<close>

datatype failure_class =
  FailureTimeout | FailureRateLimit | FailureServerError | FailureConnectionRefused
  | FailureInvalidResponse | FailureValidation | FailureContextOverflow | FailureUnknown

datatype fallback_action = ActionUnset | ActionNextCandidate | ActionRetry | ActionAbort

datatype execution_outcome =
  OutcomeUnset | OutcomeSuccess | OutcomeFallback | OutcomeExhausted | OutcomeAborted

record candidate_attempt =
  ca_CandidateIndex :: nat
  ca_ModelName :: string
  ca_ProviderName :: string
  ca_ThinkMode :: string
  ca_StartedAt :: time
  ca_FinishedAt :: "time option"
  ca_DurationMS :: int
  ca_Outcome :: string
  ca_FailureClass :: "failure_class option"
  ca_FallbackAction :: fallback_action
  ca_ErrorMessage :: string
  ca_TokensPrompt :: int
  ca_TokensCompletion :: int
  ca_TokensTotal :: int

record execution_trace =
  tr_TraceID :: string
  tr_Role :: string
  tr_Outcome :: execution_outcome
  tr_Attempts :: "candidate_attempt list"
  tr_WinnerIndex :: int
  tr_TotalDurationMS :: int
  tr_StartedAt :: time
  tr_FinishedAt :: "time option"
  tr_TotalTokensPrompt :: int
  tr_TotalTokensCompletion :: int
  tr_TotalTokensTotal :: int

section \<open>Requests, responses, providers\<close>

record generate_request =
  rq_Model :: string
  rq_ModelRole :: string
  rq_SystemPrompt :: string
  rq_UserPrompt :: string
  rq_Temperature :: f64
  rq_MaxTokens :: int
  rq_TopP :: f64
  rq_JSONMode :: bool
  rq_Timeout :: duration
  rq_PromptTemplateID :: string
  rq_PromptTemplateVersion :: string
  rq_InputVariables :: "string \<rightharpoonup> string"
  rq_ThinkMode :: string

text \<open>The serialized trace of a response stands as the trace itself.\<close>

record generate_response =
  rs_Content :: string
  rs_Model :: string
  rs_ModelRole :: string
  rs_Provider :: string
  rs_TokensPrompt :: int
  rs_TokensCompletion :: int
  rs_TokensTotal :: int
  rs_DurationMS :: int
  rs_TimeoutUsed :: duration
  rs_ThinkingContent :: string
  rs_ExecutionTrace :: "execution_trace option"
  rs_UsedFallback :: bool
  rs_ErrorClass :: "failure_class option"

definition empty_response :: generate_response where
  "empty_response = \<lparr>rs_Content = [], rs_Model = [], rs_ModelRole = [], rs_Provider = [],
     rs_TokensPrompt = 0, rs_TokensCompletion = 0, rs_TokensTotal = 0, rs_DurationMS = 0,
     rs_TimeoutUsed = 0, rs_ThinkingContent = [], rs_ExecutionTrace = None,
     rs_UsedFallback = False, rs_ErrorClass = None\<rparr>"

type_synonym generate_result = "generate_response \<times> go_error option"

record provider =
  pv_Name :: string
  pv_Generate :: "nat \<Rightarrow> generate_request \<Rightarrow> generate_result"

type_synonym provider_registry = "string \<rightharpoonup> provider"

definition NewProviderRegistry :: provider_registry where "NewProviderRegistry = Map.empty"

definition registry_Register :: "string \<Rightarrow> provider \<Rightarrow> provider_registry \<Rightarrow> provider_registry" where
  "registry_Register name p r = r(name \<mapsto> p)"

definition registry_Get :: "provider_registry \<Rightarrow> string \<Rightarrow> go_error + provider" where
  "registry_Get r name =
     (case r name of
        None \<Rightarrow> Inl (PlainErr (''provider '' @ go_quote name @ '' not registered''))
      | Some p \<Rightarrow> Inr p)"

section \<open>Audited provider\<close>

record llm_finished =
  lf_provider :: string
  lf_model :: string
  lf_role :: string
  lf_duration_ms :: int
  lf_tokens_prompt :: int
  lf_tokens_completion :: int
  lf_tokens_total :: int
  lf_outcome :: string
  lf_error :: "string option"
  lf_error_class :: "failure_class option"

datatype llm_event = LLMStarted uuid string string | LLMFinished uuid llm_finished

text \<open>
  The job identifier is read from the context; the nil identifier counts as absent. An audit
  write that fails is dropped.
\<close>

definition Audited_Generate ::
  "provider \<Rightarrow> (llm_event \<Rightarrow> bool) \<Rightarrow> uuid \<Rightarrow> uuid option \<Rightarrow> nat \<Rightarrow> generate_request \<Rightarrow>
     llm_event list \<Rightarrow> generate_result \<times> llm_event list"
where
  "Audited_Generate inner audit_ok uuid_Nil job n req evs =
     (if job = None \<or> job = Some uuid_Nil then (pv_Generate inner n req, evs)
      else
        (let jobID = the job;
             role = (if rq_ModelRole req = [] then ''default'' else rq_ModelRole req);
             started = LLMStarted jobID (pv_Name inner) role;
             evs1 = (if audit_ok started then evs @ [started] else evs);
             (resp, err) = pv_Generate inner n req;
             finished = LLMFinished jobID
               \<lparr>lf_provider = pv_Name inner, lf_model = rs_Model resp, lf_role = role,
                lf_duration_ms = rs_DurationMS resp, lf_tokens_prompt = rs_TokensPrompt resp,
                lf_tokens_completion = rs_TokensCompletion resp, lf_tokens_total = rs_TokensTotal resp,
                lf_outcome = (if err = None then ''success'' else ''failure''),
                lf_error = map_option err_text err,
                lf_error_class = (if err = None then None else rs_ErrorClass resp)\<rparr>;
             evs2 = (if audit_ok finished then evs1 @ [finished] else evs1)
         in ((resp, err), evs2)))"

section \<open>Back ends\<close>

record ollama_config =
  oc_BaseURL :: string
  oc_DefaultModel :: string
  oc_FastModel :: string
  oc_PlannerModel :: string
  oc_ReviewModel :: string
  oc_TimeoutSeconds :: int
  oc_FastTimeoutSeconds :: int
  oc_PlannerTimeoutSeconds :: int
  oc_Timeout :: duration
  oc_FastTimeout :: duration
  oc_PlannerTimeout :: duration

definition ResolveModel :: "ollama_config \<Rightarrow> string \<Rightarrow> string" where
  "ResolveModel c role =
     (if role = ''fast'' \<and> oc_FastModel c \<noteq> [] then oc_FastModel c
      else if role = ''planner'' \<and> oc_PlannerModel c \<noteq> [] then oc_PlannerModel c
      else if role = ''review'' \<and> oc_ReviewModel c \<noteq> [] then oc_ReviewModel c
      else oc_DefaultModel c)"

definition ResolveTimeout :: "ollama_config \<Rightarrow> string \<Rightarrow> duration" where
  "ResolveTimeout c role =
     (if role = ''fast'' \<and> oc_FastTimeoutSeconds c > 0 then oc_FastTimeout c
      else if role = ''planner'' \<and> oc_PlannerTimeoutSeconds c > 0 then oc_PlannerTimeout c
      else oc_Timeout c)"

text \<open>
  One HTTP exchange: it fails before a response, while the body is read, or yields a status, the
  raw body and the result of decoding it.
\<close>

datatype 'r http_reply =
  HMarshalFailed go_error
  | HCreateFailed go_error
  | HTransportFailed go_error
  | HReadFailed int go_error
  | HReply int string "go_error + 'r"

definition chat_messages :: "generate_request \<Rightarrow> (string \<times> string) list" where
  "chat_messages req =
     (if rq_SystemPrompt req \<noteq> [] then [(''system'', rq_SystemPrompt req)] else []) @
     [(''user'', rq_UserPrompt req)]"

record ollama_chat_request =
  oq_Model :: string
  oq_Messages :: "(string \<times> string) list"
  oq_Stream :: bool
  oq_Think :: "bool option"

record ollama_chat_response =
  or_Model :: string
  or_Content :: string
  or_Done :: bool
  or_PromptEvalCount :: int
  or_EvalCount :: int

text \<open>\<open>http n timeout body\<close> is the exchange of call \<open>n\<close> with the time it took.\<close>

definition Ollama_Generate ::
  "string \<Rightarrow> ollama_config \<Rightarrow>
     (nat \<Rightarrow> duration \<Rightarrow> ollama_chat_request \<Rightarrow> ollama_chat_response http_reply \<times> duration) \<Rightarrow>
     nat \<Rightarrow> generate_request \<Rightarrow> generate_result"
where
  "Ollama_Generate name cfg http n req =
     (let role = (if rq_ModelRole req = [] then RoleDefault else rq_ModelRole req);
          model = (if rq_Model req = [] then ResolveModel cfg role else rq_Model req);
          usedFallback = (rq_Model req = [] \<and> role \<noteq> RoleDefault \<and> model = oc_DefaultModel cfg);
          timeout = (if rq_Timeout req > 0 then rq_Timeout req else ResolveTimeout cfg role);
          body = \<lparr>oq_Model = model, oq_Messages = chat_messages req, oq_Stream = False,
                  oq_Think = (if rq_ThinkMode req = ''thinking'' \<or> rq_ThinkMode req = ''think'' then Some True
                              else if rq_ThinkMode req = ''nothinking'' \<or> rq_ThinkMode req = ''nothink''
                              then Some False else None)\<rparr>;
          failed = (\<lambda>what e. (empty_response, Some (wrapf (name @ what) e)))
      in case http n timeout body of
           (HMarshalFailed e, d) \<Rightarrow> failed '': marshal request'' e
         | (HCreateFailed e, d) \<Rightarrow> failed '': create request'' e
         | (HTransportFailed e, d) \<Rightarrow> failed '': execute request'' e
         | (HReadFailed st e, d) \<Rightarrow> failed '': read response'' e
         | (HReply st raw decoded, d) \<Rightarrow>
             if st \<noteq> 200
             then (empty_response,
                   Some (PlainErr (name @ '': unexpected status '' @ int_str st @ '': '' @ raw)))
             else (case decoded of
                     Inl e \<Rightarrow> failed '': decode response'' e
                   | Inr resp \<Rightarrow>
                       (empty_response
                          \<lparr>rs_Content := or_Content resp, rs_Model := or_Model resp, rs_ModelRole := role,
                           rs_Provider := name, rs_TokensPrompt := or_PromptEvalCount resp,
                           rs_TokensCompletion := or_EvalCount resp,
                           rs_TokensTotal := or_PromptEvalCount resp + or_EvalCount resp,
                           rs_DurationMS := milliseconds d, rs_TimeoutUsed := timeout,
                           rs_UsedFallback := usedFallback\<rparr>, None)))"

record openai_request =
  aq_Model :: string
  aq_Messages :: "(string \<times> string) list"
  aq_Temperature :: f64
  aq_MaxTokens :: int
  aq_TopP :: f64
  aq_ResponseFormat :: "string option"

record openai_response =
  ar_Model :: string
  ar_Choices :: "string list"
  ar_PromptTokens :: int
  ar_CompletionTokens :: int
  ar_TotalTokens :: int
  ar_Error :: "string option"

definition doRequest :: "openai_response http_reply \<Rightarrow> (go_error + openai_response) \<times> int" where
  "doRequest reply =
     (case reply of
        HMarshalFailed e \<Rightarrow> (Inl (wrapf ''marshal request'' e), 0)
      | HCreateFailed e \<Rightarrow> (Inl (wrapf ''create request'' e), 0)
      | HTransportFailed e \<Rightarrow> (Inl (wrapf ''execute request'' e), 0)
      | HReadFailed st e \<Rightarrow> (Inl (wrapf ''read response'' e), st)
      | HReply st raw decoded \<Rightarrow>
          if st \<noteq> 200
          then (Inl (PlainErr (''unexpected status '' @ int_str st @ '': '' @ raw)), st)
          else (case decoded of
                  Inl e \<Rightarrow> (Inl (wrapf ''decode response'' e), st)
                | Inr resp \<Rightarrow>
                    (case ar_Error resp of
                       Some m \<Rightarrow> (Inl (PlainErr (''api error: '' @ m)), st)
                     | None \<Rightarrow> (Inr resp, st))))"

definition openai_maxRetries :: nat where "openai_maxRetries = 3"

definition retryable_status :: "int \<Rightarrow> bool" where
  "retryable_status st \<longleftrightarrow> st = 429 \<or> (500 \<le> st \<and> st < 600)"

text \<open>
  The retry loop with \<open>left\<close> attempts to go. \<open>done attempt\<close> is the error of the context when
  it ends during the wait before that attempt.
\<close>

fun openai_loop ::
  "string \<Rightarrow> (nat \<Rightarrow> openai_response http_reply \<times> duration) \<Rightarrow> (nat \<Rightarrow> go_error option) \<Rightarrow>
     generate_request \<Rightarrow> nat \<Rightarrow> go_error option \<Rightarrow> generate_result"
where
  "openai_loop name http ctx req 0 lastErr =
     (empty_response,
      Some (case lastErr of None \<Rightarrow> PlainErr (name @ '': max retries exceeded: %!w(<nil>)'')
            | Some e \<Rightarrow> wrapf (name @ '': max retries exceeded'') e))"
| "openai_loop name http ctx req (Suc left) lastErr =
     (let attempt = openai_maxRetries - Suc left in
      case (if attempt > 0 then ctx attempt else None) of
        Some e \<Rightarrow> (empty_response, Some e)
      | None \<Rightarrow>
          (case doRequest (fst (http attempt)) of
             (Inl e, st) \<Rightarrow>
               if retryable_status st then openai_loop name http ctx req left (Some e)
               else (empty_response, Some (wrapf name e))
           | (Inr resp, st) \<Rightarrow>
               (empty_response
                  \<lparr>rs_Content := (case ar_Choices resp of [] \<Rightarrow> [] | c # cs \<Rightarrow> c),
                   rs_Model := ar_Model resp, rs_ModelRole := rq_ModelRole req, rs_Provider := name,
                   rs_TokensPrompt := ar_PromptTokens resp,
                   rs_TokensCompletion := ar_CompletionTokens resp,
                   rs_TokensTotal := ar_TotalTokens resp,
                   rs_DurationMS := milliseconds (snd (http attempt))\<rparr>, None)))"

definition openai_body :: "generate_request \<Rightarrow> openai_request" where
  "openai_body req =
     \<lparr>aq_Model = rq_Model req, aq_Messages = chat_messages req, aq_Temperature = rq_Temperature req,
      aq_MaxTokens = rq_MaxTokens req, aq_TopP = rq_TopP req,
      aq_ResponseFormat = (if rq_JSONMode req then Some ''json_object'' else None)\<rparr>"

definition OpenAI_Generate ::
  "string \<Rightarrow> (nat \<Rightarrow> nat \<Rightarrow> openai_request \<Rightarrow> openai_response http_reply \<times> duration) \<Rightarrow>
     (nat \<Rightarrow> nat \<Rightarrow> go_error option) \<Rightarrow> nat \<Rightarrow> generate_request \<Rightarrow> generate_result"
where
  "OpenAI_Generate name http ctx n req =
     openai_loop name (\<lambda>attempt. http n attempt (openai_body req)) (ctx n) req openai_maxRetries None"

end
