(* ===== verification/Worker.thy ===== *)
theory Worker
  imports Source Providers
begin

text \<open>
  The worker (\<open>src/internal/worker/worker.go\<close>, \<open>runner.go\<close>) and the processor
  registry (\<open>src/internal/processors/processor.go\<close>).

  A worker depends on the queue through the interface \<open>Queuer\<close>; its contract is the locale
  \<open>queuer\<close>, interpreted on the queue's own operations. \<open>RunJob\<close> is split where other
  goroutines run: the state when the processor returns is \<open>during s\<close>, for an arbitrary
  function \<open>during\<close>, so the heartbeat, other workers and the control loop may have done
  anything in between. Processors are an interface: what one can handle and what it returns are
  arguments.
\<close>

section \<open>The interface of the queue\<close>

locale queuer =
  fixes lease :: "job_env \<Rightarrow> uuid set \<Rightarrow> string \<Rightarrow> string list \<Rightarrow> 'q \<Rightarrow>
      (queue_error + processing_job option) \<times> 'q"
    and complete :: "job_env \<Rightarrow> uuid \<Rightarrow> string \<Rightarrow> 'q \<Rightarrow> (queue_error + unit) \<times> 'q"
    and fail :: "job_env \<Rightarrow> uuid \<Rightarrow> string \<Rightarrow> string \<Rightarrow> string \<Rightarrow> 'q \<Rightarrow>
      (queue_error + fail_result option) \<times> 'q"
    and renew :: "job_env \<Rightarrow> uuid \<Rightarrow> string \<Rightarrow> 'q \<Rightarrow> (queue_error + bool) \<times> 'q"
    and holds :: "uuid \<Rightarrow> string \<Rightarrow> 'q \<Rightarrow> bool"
  assumes lease_holds: "lease env locked w types q = (Inr (Some j), q') \<Longrightarrow> holds (job_ID j) w q'"
    and complete_guard: "\<not> holds i w q \<Longrightarrow> snd (complete env i w q) = q"
    and fail_guard: "\<not> holds i w q \<Longrightarrow> snd (fail env i w c m q) = q"
    and fail_reports: "\<not> holds i w q \<Longrightarrow> fst (fail env i w c m q) \<in> {Inr None, Inl DbError}"
    and renew_guard: "\<not> holds i w q \<Longrightarrow> snd (renew env i w q) = q"
    and renew_reports: "renew env i w q = (Inr b, q') \<Longrightarrow> b = holds i w q"
    and renew_keeps: "holds i w (snd (renew env i w q)) = holds i w q"
    and complete_releases: "complete env i w q = (Inr (), q') \<Longrightarrow> \<not> holds i w q'"
    and fail_releases: "fail env i w c m q = (Inr r, q') \<Longrightarrow> \<not> holds i w q'"
    and error_unchanged: "complete env i w q = (Inl e, q') \<Longrightarrow> q' = q"
      "fail env i w c m q = (Inl e, q') \<Longrightarrow> q' = q" "renew env i w q = (Inl e, q') \<Longrightarrow> q' = q"
begin

lemma complete_done: "fst (complete env i w q) = Inr () \<Longrightarrow> \<not> holds i w (snd (complete env i w q))"
  by (rule complete_releases [OF prod_eqI]) simp_all

lemma fail_done: "fst (fail env i w c m q) = Inr r \<Longrightarrow> \<not> holds i w (snd (fail env i w c m q))"
  by (rule fail_releases [OF prod_eqI]) simp_all

text \<open>A worker's terminal report for a job takes effect at most once.\<close>

lemma complete_once:
  assumes "complete env i w q = (Inr (), q')"
  shows "snd (complete env' i w q') = q'" "snd (fail env' i w c m q') = q'" "snd (renew env' i w q') = q'"
  using complete_releases [OF assms] complete_guard fail_guard renew_guard by simp_all

lemma fail_once:
  assumes "fail env i w c m q = (Inr r, q')"
  shows "snd (complete env' i w q') = q'" "snd (fail env' i w c' m' q') = q'"
  using fail_releases [OF assms] complete_guard fail_guard by simp_all

end

lemma not_held_update:
  assumes "processing_jobs q' = sql_update (owned i w) f (processing_jobs q)"
    and "\<And>j. job_LeasedByWorkerID (f j) = None"
  shows "\<not> held i w q'"
proof
  assume "held i w q'"
  then obtain j' where j': "j' \<in> set (sql_update (owned i w) f (processing_jobs q))" "owned i w j'"
    using assms(1) by (auto simp: held_iff)
  from j'(1) obtain r where "j' = (if owned i w r then f r else r)" by (rule sql_update_preimage)
  with j'(2) assms(2) show False by (cases "owned i w r") (auto simp: owned_def)
qed

lemma Complete_releases:
  assumes "Complete env i w q = (Inr (), q')"
  shows "\<not> held i w q'"
proof -
  have "processing_jobs q' = sql_update (owned i w) (set_completed (env_now env)) (processing_jobs q)"
    using Complete_table [of env i w q] assms by (auto simp: Complete_def split: if_splits)
  then show ?thesis by (rule not_held_update) (simp add: set_owner)
qed

lemma Fail_releases:
  assumes "Fail env i w c m q = (Inr r, q')"
  shows "\<not> held i w q'"
proof (cases "held i w q")
  case False
  then have "q' = q" using not_held_guard(3) [of i w q env c m] assms by simp
  with False show ?thesis by simp
next
  case True
  then have "find (owned i w) (processing_jobs q) \<noteq> None" by (auto simp: held_iff find_None_iff)
  then have "processing_jobs q' =
      sql_update (owned i w) (set_failed (env_now env) c m) (processing_jobs q)"
    using assms by (auto simp: Fail_def Let_def split: if_splits)
  then show ?thesis by (rule not_held_update) (simp add: set_owner)
qed

lemma owned_renewed [simp]: "owned i w (set_renewed now j) = owned i w j"
  by (simp add: owned_def set_status set_owner)

lemma RenewLease_keeps: "held i w (snd (RenewLease env i w q)) = held i w q"
proof (cases "env_db_ok env")
  case True
  have "(\<exists>j \<in> set (sql_update (owned i w) (set_renewed now) t). owned i w j) = (\<exists>j \<in> set t. owned i w j)"
    for now t
    by (induction t) auto
  with True show ?thesis by (simp add: held_iff RenewLease_table)
qed (simp add: RenewLease_def)

interpretation jobs: queuer Lease Complete Fail RenewLease held
proof
  show "held (job_ID j) w q'" if "Lease env locked w types q = (Inr (Some j), q')" for env locked w types q j q'
    using that by (rule Lease_held)
  show "b = held i w q" if "RenewLease env i w q = (Inr b, q')" for env i w q b q'
    using that by (auto simp: RenewLease_def held_iff sql_count_0_iff split: if_splits)
qed (auto simp: not_held_guard RenewLease_keeps Complete_releases dest: Fail_releases,
     auto simp: Complete_def Fail_def RenewLease_def Let_def split: if_splits option.splits)

section \<open>Processors\<close>

record process_result =
  pr_ProposalType :: string
  pr_OutputPayload :: "string option"
  pr_HumanReviewRequired :: bool
  pr_Outcome :: string
  pr_ErrorMessage :: string
  pr_PromptTemplateID :: string
  pr_PromptTemplateVersion :: string
  pr_ModelProvider :: string
  pr_ModelRole :: string
  pr_ModelName :: string
  pr_TokensPrompt :: int
  pr_TokensCompletion :: int
  pr_TokensUsed :: int
  pr_DurationMS :: int
  pr_TimeoutUsed :: duration
  pr_ExecutionTrace :: "string option"
  pr_UsedFallback :: bool

record job_context =
  jc_JobID :: uuid
  jc_SourceTaskID :: uuid
  jc_JobType :: string
  jc_SnapshotPayload :: "normalized_task option"

record processor =
  proc_CanHandle :: "string \<Rightarrow> bool"
  proc_Process :: "job_context \<Rightarrow> process_result \<times> string option"

definition FindFor :: "processor list \<Rightarrow> string \<Rightarrow> processor option" where
  "FindFor processors jobType = find (\<lambda>p. proc_CanHandle p jobType) processors"

definition no_processor_error :: "string \<Rightarrow> string" where
  "no_processor_error jobType = ''no processor found for job type '' @ go_quote jobType"

section \<open>Running a job\<close>

record run_meta =
  rm_provider :: string
  rm_model_role :: string
  rm_model_name :: string
  rm_tokens_prompt :: int
  rm_tokens_completion :: int
  rm_tokens_total :: int
  rm_timeout_used :: duration
  rm_used_fallback :: bool
  rm_attempt_number :: int
  rm_output :: "string option"
  rm_execution_trace :: "string option"

datatype run_payload = RawPayload "string option" | EnrichedPayload run_meta

record processing_run =
  run_ID :: uuid
  run_JobID :: uuid
  run_AttemptNumber :: int
  run_Outcome :: string
  run_StartedAt :: time
  run_FinishedAt :: time
  run_DurationMs :: int
  run_ErrorMessage :: "string option"
  run_ResultPayload :: run_payload
  run_WorkerID :: string

record suggestion_proposal =
  sp_ID :: uuid
  sp_SourceTaskID :: uuid
  sp_JobID :: uuid
  sp_ProposalType :: string
  sp_ApprovalStatus :: string
  sp_HumanReviewRequired :: bool
  sp_ProposalPayload :: string
  sp_AutoApproved :: bool
  sp_CreatedAt :: time

record wsys = src_sys +
  processing_runs :: "processing_run list"
  suggestion_proposals :: "suggestion_proposal list"

record run_env =
  re_queue :: job_env
  re_snapshot_ok :: bool
  re_startedAt :: time
  re_finishedAt :: time
  re_runID :: uuid
  re_proposalID :: uuid
  re_marshal_ok :: bool
  re_run_ok :: bool
  re_proposal_ok :: bool
  re_now :: time
  re_pub :: "string \<Rightarrow> bool"

text \<open>\<open>failJob\<close>: the event is published only when the queue accepted the failure.\<close>

definition failJob ::
  "(uuid \<Rightarrow> string) \<Rightarrow> string \<Rightarrow> run_env \<Rightarrow> processing_job \<Rightarrow> string \<Rightarrow> string \<Rightarrow> 'a sys_scheme \<Rightarrow>
     (queue_error + unit) \<times> 'a sys_scheme"
where
  "failJob uuid_str workerID env job code msg s =
     (case Fail (re_queue env) (job_ID job) workerID code msg (sys_queue s) of
        (Inl e, q) \<Rightarrow> (Inl e, s\<lparr>sys_queue := q\<rparr>)
      | (Inr None, q) \<Rightarrow> (Inr (), s\<lparr>sys_queue := q\<rparr>)
      | (Inr (Some r), q) \<Rightarrow>
          (let s1 = s\<lparr>sys_queue := q\<rparr> in
           if fr_NewStatus r = JobStatusRetryScheduled then
             (Inr (), Publish (re_pub env) SubjectJobRetry
               (JobRetryEvent (uuid_str (job_ID job)) (uuid_str (job_SourceTaskID job)) (job_JobType job)
                 (fr_AttemptCount r) (fr_MaxAttempts r) code msg
                 (case fr_ScheduledAt r of None \<Rightarrow> re_now env | Some t \<Rightarrow> t)) s1)
           else if fr_NewStatus r = JobStatusDeadLetter then
             (Inr (), Publish (re_pub env) SubjectJobDead
               (JobDeadEvent (uuid_str (job_ID job)) (uuid_str (job_SourceTaskID job)) (job_JobType job)
                 (fr_AttemptCount r) (fr_MaxAttempts r) code msg (re_now env)) s1)
           else (Inr (), s1)))"

definition run_result_payload :: "run_env \<Rightarrow> processing_job \<Rightarrow> process_result \<Rightarrow> run_payload" where
  "run_result_payload env job result =
     (if (pr_ModelProvider result \<noteq> [] \<or> pr_ModelRole result \<noteq> []) \<and> re_marshal_ok env
      then EnrichedPayload
        \<lparr>rm_provider = pr_ModelProvider result, rm_model_role = pr_ModelRole result,
         rm_model_name = pr_ModelName result, rm_tokens_prompt = pr_TokensPrompt result,
         rm_tokens_completion = pr_TokensCompletion result, rm_tokens_total = pr_TokensUsed result,
         rm_timeout_used = pr_TimeoutUsed result, rm_used_fallback = pr_UsedFallback result,
         rm_attempt_number = job_AttemptCount job + 1, rm_output = pr_OutputPayload result,
         rm_execution_trace = pr_ExecutionTrace result\<rparr>
      else RawPayload (pr_OutputPayload result))"

text \<open>
  The part of \<open>RunJob\<close> after the processor returned the result \<open>fst res\<close> and the
  error \<open>snd res\<close>.
\<close>

definition run_outcome :: "process_result \<times> string option \<Rightarrow> string" where
  "run_outcome res = (if snd res \<noteq> None then ''error'' else pr_Outcome (fst res))"

definition run_error_message :: "process_result \<times> string option \<Rightarrow> string" where
  "run_error_message res =
     (case snd res of None \<Rightarrow> pr_ErrorMessage (fst res)
      | Some e \<Rightarrow> if pr_ErrorMessage (fst res) = [] then e else pr_ErrorMessage (fst res))"

definition record_run ::
  "string \<Rightarrow> run_env \<Rightarrow> processing_job \<Rightarrow> process_result \<times> string option \<Rightarrow> wsys \<Rightarrow> wsys"
where
  "record_run workerID env job res s =
     (let errMsg = run_error_message res in
      if \<not> re_run_ok env then s
      else s\<lparr>processing_runs := processing_runs s @
        [\<lparr>run_ID = re_runID env, run_JobID = job_ID job,
          run_AttemptNumber = job_AttemptCount job + 1, run_Outcome = run_outcome res,
          run_StartedAt = re_startedAt env, run_FinishedAt = re_finishedAt env,
          run_DurationMs = milliseconds (re_finishedAt env - re_startedAt env),
          run_ErrorMessage = (if errMsg = [] then None else Some errMsg),
          run_ResultPayload = run_result_payload env job (fst res), run_WorkerID = workerID\<rparr>]\<rparr>)"

definition has_proposal :: "process_result \<Rightarrow> bool" where
  "has_proposal result \<longleftrightarrow>
     (case pr_OutputPayload result of None \<Rightarrow> False | Some payload \<Rightarrow> payload \<noteq> []) \<and>
     pr_ProposalType result \<noteq> []"

definition new_proposal :: "run_env \<Rightarrow> processing_job \<Rightarrow> process_result \<Rightarrow> suggestion_proposal" where
  "new_proposal env job result =
     \<lparr>sp_ID = re_proposalID env, sp_SourceTaskID = job_SourceTaskID job, sp_JobID = job_ID job,
      sp_ProposalType = pr_ProposalType result, sp_ApprovalStatus = ''pending'',
      sp_HumanReviewRequired = pr_HumanReviewRequired result,
      sp_ProposalPayload = (case pr_OutputPayload result of None \<Rightarrow> [] | Some payload \<Rightarrow> payload),
      sp_AutoApproved = False, sp_CreatedAt = re_now env\<rparr>"

definition create_proposal ::
  "(uuid \<Rightarrow> string) \<Rightarrow> string \<Rightarrow> run_env \<Rightarrow> processing_job \<Rightarrow> process_result \<Rightarrow> wsys \<Rightarrow> wsys"
where
  "create_proposal uuid_str workerID env job result s =
     (if \<not> has_proposal result \<or> \<not> re_proposal_ok env then s
      else
        (let s1 = s\<lparr>suggestion_proposals := suggestion_proposals s @ [new_proposal env job result]\<rparr>;
             s2 = Publish (re_pub env) SubjectProposalCreated
                    (ProposalCreatedEvent (uuid_str (re_proposalID env)) (uuid_str (job_SourceTaskID job))
                      (pr_ProposalType result) (pr_HumanReviewRequired result)) s1
         in sys_audit (re_queue env) (re_proposalID env) ''proposal.created'' ''worker'' workerID s2))"

definition finish_job ::
  "(uuid \<Rightarrow> string) \<Rightarrow> string \<Rightarrow> run_env \<Rightarrow> processing_job \<Rightarrow> process_result \<times> string option \<Rightarrow>
     wsys \<Rightarrow> (queue_error + unit) \<times> wsys"
where
  "finish_job uuid_str workerID env job res s =
     (let s1 = record_run workerID env job res s in
      if run_outcome res \<noteq> ''success''
      then failJob uuid_str workerID env job ''PROCESSING_FAILED'' (run_error_message res) s1
      else
        (let s2 = create_proposal uuid_str workerID env job (fst res) s1;
             c = Complete (re_queue env) (job_ID job) workerID (sys_queue s2)
         in (fst c, s2\<lparr>sys_queue := snd c\<rparr>)))"

definition RunJob ::
  "(uuid \<Rightarrow> string) \<Rightarrow> processor list \<Rightarrow> string \<Rightarrow> run_env \<Rightarrow> processing_job \<Rightarrow> (wsys \<Rightarrow> wsys) \<Rightarrow>
     wsys \<Rightarrow> (queue_error + unit) \<times> wsys"
where
  "RunJob uuid_str processors workerID env job during s =
     (case FindFor processors (job_JobType job) of
        None \<Rightarrow> failJob uuid_str workerID env job ''NO_PROCESSOR''
          (no_processor_error (job_JobType job)) s
      | Some p \<Rightarrow>
          finish_job uuid_str workerID env job
            (proc_Process p
              \<lparr>jc_JobID = job_ID job, jc_SourceTaskID = job_SourceTaskID job,
               jc_JobType = job_JobType job,
               jc_SnapshotPayload = loadSnapshotPayload (re_snapshot_ok env) (job_SourceTaskID job) s\<rparr>)
            (during s))"

section \<open>The lease heartbeat\<close>

text \<open>
  The goroutine \<open>RunJob\<close> starts: one element of the list is one tick of the ticker, with the
  environment of its renewal. It ends when the processor is done (the list ends), when the lease
  was lost (it then cancels the processor), or at a renewal error.
\<close>

datatype hb_result = HbActive | HbCancelled | HbStopped

fun heartbeat ::
  "(uuid \<Rightarrow> string) \<Rightarrow> (string \<Rightarrow> bool) \<Rightarrow> uuid \<Rightarrow> string \<Rightarrow> job_env list \<Rightarrow> 'a sys_scheme \<Rightarrow>
     hb_result \<times> 'a sys_scheme"
where
  "heartbeat uuid_str pub jobID workerID [] s = (HbActive, s)"
| "heartbeat uuid_str pub jobID workerID (env # ticks) s =
     (case RenewLease env jobID workerID (sys_queue s) of
        (Inl e, q) \<Rightarrow> (HbStopped, s\<lparr>sys_queue := q\<rparr>)
      | (Inr renewed, q) \<Rightarrow>
          if \<not> renewed
          then (HbCancelled,
                Publish pub SubjectControlAlertLeaseLost
                  (LeaseLostAlertEvent (uuid_str jobID) workerID (env_now env))
                  (sys_audit env jobID ''job.lease_lost'' ''worker'' workerID (s\<lparr>sys_queue := q\<rparr>)))
          else heartbeat uuid_str pub jobID workerID ticks (s\<lparr>sys_queue := q\<rparr>))"

section \<open>Polling\<close>

definition maxConcurrentJobs :: nat where "maxConcurrentJobs = 4"

record pool =
  pl_queue :: queue_db
  pl_running :: "processing_job list"

text \<open>
  \<open>poll\<close>: a slot of the semaphore is taken before the lease is attempted and given back when no
  job came of it. \<open>job_done\<close> is the deferred release at the end of the job's goroutine.
\<close>

definition poll :: "job_env \<Rightarrow> uuid set \<Rightarrow> string \<Rightarrow> pool \<Rightarrow> pool" where
  "poll env locked workerID p =
     (if length (pl_running p) \<ge> maxConcurrentJobs then p
      else case Lease env locked workerID KnownJobTypes (pl_queue p) of
        (Inl e, q) \<Rightarrow> p\<lparr>pl_queue := q\<rparr>
      | (Inr None, q) \<Rightarrow> p\<lparr>pl_queue := q\<rparr>
      | (Inr (Some job), q) \<Rightarrow> p\<lparr>pl_queue := q, pl_running := job # pl_running p\<rparr>)"

definition job_done :: "processing_job \<Rightarrow> queue_db \<Rightarrow> pool \<Rightarrow> pool" where
  "job_done job q p = p\<lparr>pl_queue := q, pl_running := remove1 job (pl_running p)\<rparr>"

inductive pool_step :: "string \<Rightarrow> pool \<Rightarrow> pool \<Rightarrow> bool" for workerID where
  poll: "pool_step workerID p (poll env locked workerID p)"
| finished: "j \<in> set (pl_running p) \<Longrightarrow> pool_step workerID p (job_done j q p)"
| others: "pool_step workerID p (p\<lparr>pl_queue := q\<rparr>)"

inductive pool_reach :: "string \<Rightarrow> pool \<Rightarrow> bool" for workerID where
  init: "pool_reach workerID \<lparr>pl_queue = q, pl_running = []\<rparr>"
| next_step: "pool_reach workerID p \<Longrightarrow> pool_step workerID p p' \<Longrightarrow> pool_reach workerID p'"

section \<open>Properties of a run\<close>

lemma held_cong: "processing_jobs q = processing_jobs q' \<Longrightarrow> held i w q = held i w q'"
  by (simp add: held_iff)

lemma failJob_queue:
  "sys_queue (snd (failJob u w env job c m s)) = snd (Fail (re_queue env) (job_ID job) w c m (sys_queue s))"
  "(fst (failJob u w env job c m s) = Inr ()) =
     (\<exists>r. fst (Fail (re_queue env) (job_ID job) w c m (sys_queue s)) = Inr r)"
  by (simp_all add: failJob_def Let_def split: prod.split sum.split option.split)

lemma record_run_queue [simp]: "sys_queue (record_run w env job res s) = sys_queue s"
  by (simp add: record_run_def Let_def)

lemma create_proposal_jobs [simp]:
  "processing_jobs (sys_queue (create_proposal u w env job result s)) = processing_jobs (sys_queue s)"
  by (simp add: create_proposal_def Let_def)

lemma held_create_proposal [simp]:
  "held i w' (sys_queue (create_proposal u w env job result s)) = held i w' (sys_queue s)"
  by (rule held_cong) simp

lemma finish_job_released:
  assumes "fst (finish_job u w env job res s) = Inr ()"
  shows "\<not> held (job_ID job) w (sys_queue (snd (finish_job u w env job res s)))"
  using assms by (cases "run_outcome res = ''success''")
    (auto simp: finish_job_def Let_def failJob_queue dest: jobs.complete_done jobs.fail_done)

lemma finish_job_unheld:
  assumes "\<not> held (job_ID job) w (sys_queue s)"
  shows "processing_jobs (sys_queue (snd (finish_job u w env job res s))) = processing_jobs (sys_queue s)"
  using assms by (simp add: finish_job_def Let_def failJob_queue jobs.complete_guard jobs.fail_guard)

text \<open>
  A finished run gives the lease back: whenever \<open>RunJob\<close> reports no error, its worker no
  longer holds the job, whatever the processor returned and whatever ran meanwhile. Together with
  the fencing of the queue, the worker's terminal report for a lease happens at most once.
\<close>

theorem run_job_releases_lease:
  assumes "RunJob u ps w env job during s = (Inr (), s')"
  shows "\<not> held (job_ID job) w (sys_queue s') \<and>
    snd (Complete env' (job_ID job) w (sys_queue s')) = sys_queue s' \<and>
    snd (Fail env' (job_ID job) w c m (sys_queue s')) = sys_queue s'"
proof -
  have "\<not> held (job_ID job) w (sys_queue s')"
  proof (cases "FindFor ps (job_JobType job)")
    case None
    then have "failJob u w env job ''NO_PROCESSOR'' (no_processor_error (job_JobType job)) s = (Inr (), s')"
      using assms by (simp add: RunJob_def)
    then show ?thesis
      using failJob_queue [of u w env job "''NO_PROCESSOR''" "no_processor_error (job_JobType job)" s]
      by (auto dest: jobs.fail_done)
  next
    case (Some p)
    then show ?thesis
      using assms finish_job_released unfolding RunJob_def by (metis fst_conv option.simps(5) snd_conv)
  qed
  then show ?thesis by (simp add: jobs.complete_guard jobs.fail_guard)
qed

text \<open>
  A worker that lost the lease while the processor ran cannot touch the queue: if it does not
  hold the job when the processor returns, the rest of \<open>RunJob\<close> leaves the table of jobs exactly
  as it found it.
\<close>

theorem stale_run_leaves_queue:
  assumes "FindFor ps (job_JobType job) = Some p" and "\<not> held (job_ID job) w (sys_queue (during s))"
  shows "processing_jobs (sys_queue (snd (RunJob u ps w env job during s))) =
    processing_jobs (sys_queue (during s))"
  using assms by (simp add: RunJob_def finish_job_unheld)

text \<open>
  The same stale worker still writes its proposal: a successful result with a payload is
  inserted as a pending proposal and announced before ownership is checked, so one job can get a
  proposal from each worker that ran it.
\<close>

theorem stale_run_still_proposes:
  assumes "\<not> held (job_ID job) w (sys_queue s)" and "run_outcome res = ''success''"
    and "has_proposal (fst res)" and "re_proposal_ok env"
  shows "suggestion_proposals (snd (finish_job u w env job res s)) =
      suggestion_proposals s @ [new_proposal env job (fst res)] \<and>
    (env_db_ok (re_queue env) \<longrightarrow> fst (finish_job u w env job res s) = Inr ())"
proof -
  have "\<not> held (job_ID job) w (sys_queue (create_proposal u w env job (fst res) (record_run w env job res s)))"
    using assms(1) by simp
  from not_held_count [OF this] show ?thesis
    using assms by (simp add: finish_job_def Let_def create_proposal_def record_run_def
        sys_audit_def Publish_def Complete_def)
qed

lemma owned_find:
  assumes "queue_inv q" and "j \<in> set (processing_jobs q)" and "owned i w j"
  shows "find (owned i w) (processing_jobs q) = Some j"
    and "row_of job_ID (processing_jobs q) i = Some j"
proof -
  have key: "keyed job_ID (processing_jobs q)" using assms(1) by (simp add: queue_inv_def)
  show "row_of job_ID (processing_jobs q) i = Some j"
    using keyed_row_of [OF key assms(2)] assms(3) by (simp add: owned_def)
  obtain k where k: "find (owned i w) (processing_jobs q) = Some k"
    using assms(2,3) by (cases "find (owned i w) (processing_jobs q)") (auto simp: find_None_iff)
  then have "k \<in> set (processing_jobs q)" "owned i w k" by (auto simp: find_Some_iff)
  then show "find (owned i w) (processing_jobs q) = Some j"
    using k keyed_unique [OF key _ assms(2)] assms(3) by (simp add: owned_def)
qed

lemma Fail_owned:
  assumes "queue_inv q" and "j \<in> set (processing_jobs q)" and "owned i w j"
    and "env_db_ok env" and "int4 (job_AttemptCount j + 1)"
    and "j' = set_failed (env_now env) c m j"
  shows "fst (Fail env i w c m q) =
      Inr (Some \<lparr>fr_NewStatus = job_Status j', fr_AttemptCount = job_AttemptCount j',
                  fr_MaxAttempts = job_MaxAttempts j', fr_ScheduledAt = job_ScheduledAt j'\<rparr>)"
    and "row_of job_ID (processing_jobs (snd (Fail env i w c m q))) i = Some j'"
  using assms owned_find [OF assms(1-3)] by (simp_all add: Fail_def Let_def row_of_sql_update)

lemma Complete_owned:
  assumes "queue_inv q" and "j \<in> set (processing_jobs q)" and "owned i w j" and "env_db_ok env"
  shows "row_of job_ID (processing_jobs (snd (Complete env i w q))) i = Some (set_completed (env_now env) j)"
  using assms owned_find [OF assms(1-3)] by (simp add: Complete_table row_of_sql_update)

text \<open>
  C8: A worker that still holds the lease when the processor returns settles the job: its row
  becomes succeeded exactly when the processor reported success without an error; otherwise it is
  failed with the code \<open>PROCESSING_FAILED\<close> and the processor's message, that is, scheduled for a
  retry or dead-lettered.
\<close>

theorem run_job_settles:
  assumes "queue_reach (sys_queue (during s))" and "FindFor ps (job_JobType job) = Some p"
    and "j \<in> set (processing_jobs (sys_queue (during s)))" and "owned (job_ID job) w j"
    and "env_db_ok (re_queue env)" and "int4 (job_AttemptCount j + 1)"
    and "res = proc_Process p \<lparr>jc_JobID = job_ID job, jc_SourceTaskID = job_SourceTaskID job,
      jc_JobType = job_JobType job,
      jc_SnapshotPayload = loadSnapshotPayload (re_snapshot_ok env) (job_SourceTaskID job) s\<rparr>"
  shows "row_of job_ID (processing_jobs (sys_queue (snd (RunJob u ps w env job during s)))) (job_ID job) =
    Some (if snd res = None \<and> pr_Outcome (fst res) = ''success''
          then set_completed (env_now (re_queue env)) j
          else set_failed (env_now (re_queue env)) ''PROCESSING_FAILED'' (run_error_message res) j)"
proof -
  have inv: "queue_inv (sys_queue (during s))" using assms(1) by (rule queue_reach_inv)
  define s2 where "s2 = create_proposal u w env job (fst res) (record_run w env job res (during s))"
  have s2: "processing_jobs (sys_queue s2) = processing_jobs (sys_queue (during s))"
    by (simp add: s2_def)
  then have "queue_inv (sys_queue s2)" using inv by (simp add: queue_inv_def)
  note comp = Complete_owned [OF this _ assms(4,5), unfolded s2, OF assms(3)]
  show ?thesis
    using comp Fail_owned(2) [OF inv assms(3-6) refl] assms(2)
    by (auto simp: run_outcome_def RunJob_def finish_job_def Let_def failJob_queue s2_def assms(7) [symmetric]
        split: if_splits)
qed

text \<open>
  The event a failing worker publishes agrees with the row it stored: a dead-lettered job is
  announced on the dead-letter subject, any other on the retry subject with the stored retry time,
  both with the stored attempt count; a worker that does not hold the lease announces nothing.
\<close>

theorem fail_job_announces:
  assumes "queue_reach (sys_queue s)" and "env_db_ok (re_queue env)" and "\<And>sub. re_pub env sub"
    and "\<And>j. j \<in> set (processing_jobs (sys_queue s)) \<Longrightarrow> int4 (job_AttemptCount j + 1)"
    and "failJob u w env job c m s = (r, s')"
  shows "if held (job_ID job) w (sys_queue s)
    then \<exists>j' \<in> set (processing_jobs (sys_queue s')). job_ID j' = job_ID job \<and>
      sys_bus s' = sys_bus s @
        [if job_Status j' = JobStatusDeadLetter
         then (SubjectJobDead, JobDeadEvent (u (job_ID job)) (u (job_SourceTaskID job)) (job_JobType job)
           (job_AttemptCount j') (job_MaxAttempts j') c m (re_now env))
         else (SubjectJobRetry, JobRetryEvent (u (job_ID job)) (u (job_SourceTaskID job)) (job_JobType job)
           (job_AttemptCount j') (job_MaxAttempts j') c m (the (job_ScheduledAt j')))]
    else sys_bus s' = sys_bus s"
proof (cases "held (job_ID job) w (sys_queue s)")
  case True
  then obtain j where j: "j \<in> set (processing_jobs (sys_queue s))" "owned (job_ID job) w j"
    by (auto simp: held_iff)
  let ?j' = "set_failed (env_now (re_queue env)) c m j"
  note fail = Fail_owned [OF queue_reach_inv [OF assms(1)] j assms(2) assms(4) [OF j(1)] refl, of c m]
  have tab: "sys_queue s' = snd (Fail (re_queue env) (job_ID job) w c m (sys_queue s))"
    using failJob_queue(1) [of u w env job c m s] assms(5) by simp
  have "?j' \<in> set (processing_jobs (sys_queue s'))" "job_ID ?j' = job_ID job"
    using row_of_SomeD [OF fail(2)] tab by auto
  moreover have "job_Status ?j' = JobStatusDeadLetter \<or>
      job_Status ?j' = JobStatusRetryScheduled \<and> (\<exists>t. job_ScheduledAt ?j' = Some t)"
    by (auto simp: set_failed_def Let_def)
  then have "sys_bus s' = sys_bus s @
        [if job_Status ?j' = JobStatusDeadLetter
         then (SubjectJobDead, JobDeadEvent (u (job_ID job)) (u (job_SourceTaskID job)) (job_JobType job)
           (job_AttemptCount ?j') (job_MaxAttempts ?j') c m (re_now env))
         else (SubjectJobRetry, JobRetryEvent (u (job_ID job)) (u (job_SourceTaskID job)) (job_JobType job)
           (job_AttemptCount ?j') (job_MaxAttempts ?j') c m (the (job_ScheduledAt ?j')))]"
    using assms(5) fail(1) assms(3)
    by (auto simp: failJob_def Let_def Publish_bus split: prod.splits)
  ultimately show ?thesis using True by (simp only: if_True) blast
next
  case False
  then show ?thesis
    using assms(2,5) not_held_guard(5) [OF False, of "re_queue env" c m]
    by (auto simp: failJob_def split: prod.splits)
qed

section \<open>Keeping a lease\<close>

text \<open>
  A lease of a worker on a job until an instant, how one step moves that instant, and the
  schedules that renew it in time: no reclaim runs after the current expiry, and the holder does
  not report the job.
\<close>

definition lease_until :: "uuid \<Rightarrow> string \<Rightarrow> time \<Rightarrow> queue_db \<Rightarrow> bool" where
  "lease_until i w e q \<longleftrightarrow> (\<exists>j \<in> set (processing_jobs q). owned i w j \<and> job_LeaseExpiry j = Some e)"

definition next_expiry :: "uuid \<Rightarrow> string \<Rightarrow> time \<Rightarrow> queue_act \<Rightarrow> time" where
  "next_expiry i w e a =
     (case a of
        ARenew env i' w' \<Rightarrow> if i' = i \<and> w' = w \<and> env_db_ok env then env_now env + leaseDuration else e
      | _ \<Rightarrow> e)"

definition spares_lease :: "uuid \<Rightarrow> string \<Rightarrow> time \<Rightarrow> queue_act \<Rightarrow> bool" where
  "spares_lease i w e a \<longleftrightarrow>
     (case a of
        AComplete env i' w' \<Rightarrow> \<not> (i' = i \<and> w' = w)
      | AFail env i' w' c m \<Rightarrow> \<not> (i' = i \<and> w' = w)
      | AReclaim env \<Rightarrow> env_now env \<le> e
      | _ \<Rightarrow> True)"

fun renewed_in_time :: "uuid \<Rightarrow> string \<Rightarrow> time \<Rightarrow> queue_act list \<Rightarrow> bool" where
  "renewed_in_time i w e [] = True"
| "renewed_in_time i w e (a # as) =
     (spares_lease i w e a \<and> renewed_in_time i w (next_expiry i w e a) as)"

inductive queue_run :: "queue_db \<Rightarrow> queue_act list \<Rightarrow> queue_db \<Rightarrow> bool" where
  run_nil: "queue_run q [] q"
| run_cons: "queue_step q a q1 \<Longrightarrow> queue_run q1 as q' \<Longrightarrow> queue_run q (a # as) q'"

lemma renewal_extends:
  assumes "lease_until i w e q" and "env_db_ok env"
  shows "lease_until i w (env_now env + leaseDuration) (snd (RenewLease env i w q))"
proof -
  obtain j where "j \<in> set (processing_jobs q)" "owned i w j"
    using assms(1) by (auto simp: lease_until_def)
  then show ?thesis
    using assms(2) by (auto simp: lease_until_def RenewLease_table set_sql_update set_renewed_def
        intro!: bexI [of _ "set_renewed (env_now env) j"] owned_renewed [THEN iffD2, unfolded set_renewed_def])
qed

lemma step_update_spares:
  assumes "step_update a t P f" and "keyed job_ID t" and "j \<in> set t" and "owned i w j"
    and "job_LeaseExpiry j = Some e" and "spares_lease i w e a" and "\<And>env. a \<noteq> ARenew env i w"
  shows "\<not> P j"
proof (cases a)
  case (ALease env locked v types)
  then obtain k where "k \<in> set t" "job_Status k = JobStatusQueued" "P = (\<lambda>r. job_ID r = job_ID k)"
    using assms(1) by (auto simp: step_update_def leasable_def)
  then show ?thesis using keyed_unique [OF assms(2,3)] assms(4) by (auto simp: owned_def)
next
  case (ARenew env i' w')
  then show ?thesis using assms(1,4,7) by (auto simp: step_update_def owned_def)
qed (use assms in \<open>auto simp: step_update_def owned_def spares_lease_def lease_expired_def retry_due_def
      retryable_def unknown_type_def\<close>)

lemma lease_until_step:
  assumes "queue_inv q" and "queue_step q a q'" and "lease_until i w e q" and "spares_lease i w e a"
  shows "lease_until i w (next_expiry i w e a) q'"
proof (cases "\<exists>env. a = ARenew env i w")
  case True
  then obtain env where "a = ARenew env i w" ..
  moreover have "snd (RenewLease env i w q) = q" if "\<not> env_db_ok env"
    using that by (simp add: RenewLease_def)
  ultimately show ?thesis
    using assms(2,3) by (cases "env_db_ok env") (simp_all add: queue_step_simps next_expiry_def renewal_extends)
next
  case False
  then have e: "next_expiry i w e a = e" by (auto simp: next_expiry_def split: queue_act.splits)
  obtain j where j: "j \<in> set (processing_jobs q)" "owned i w j" "job_LeaseExpiry j = Some e"
    using assms(3) by (auto simp: lease_until_def)
  have "j \<in> set (processing_jobs q')"
    using assms(2)
  proof (cases rule: queue_step_shape)
    case (update P f)
    have "\<not> P j"
      using step_update_spares [OF update(1) _ j assms(4)] assms(1) False by (auto simp: queue_inv_def)
    then show ?thesis
      using j(1) unfolding update(2) set_sql_update by (intro image_eqI [of _ _ j]) simp_all
  qed (use j in auto)
  with j e show ?thesis by (auto simp: lease_until_def)
qed

text \<open>
  C3: Renewing in time keeps the lease under every interleaving: from a state where a worker's
  lease runs until \<open>e\<close>, any sequence of queue operations by anybody (other workers, operators,
  the control loop) in which no reclaim runs later than five minutes after the holder's last
  successful renewal leaves the job leased to that worker.
\<close>

theorem timely_renewal_keeps_lease:
  assumes "queue_reach q" and "lease_until i w e q" and "queue_run q as q'" and "renewed_in_time i w e as"
  shows "held i w q'"
  using assms(3,1,2,4)
proof (induction arbitrary: e rule: queue_run.induct)
  case (run_nil q)
  then show ?case by (auto simp: lease_until_def held_iff)
next
  case (run_cons q a q1 as q')
  have "lease_until i w (next_expiry i w e a) q1"
    using lease_until_step [OF queue_reach_inv [OF run_cons.prems(1)] run_cons.hyps(1) run_cons.prems(2)]
      run_cons.prems(3) by simp
  then show ?case
    using run_cons.IH [OF queue_reach.step [OF run_cons.prems(1) run_cons.hyps(1)]] run_cons.prems(3)
    by simp
qed

text \<open>
  The heartbeat gives up at the first renewal error: the remaining ticks are never run, so a
  single transient database error leaves the lease at its last expiry although the processor is
  still at work.
\<close>

theorem heartbeat_stops_at_first_error:
  assumes "held i w (sys_queue s)" and "\<forall>env \<in> set before. env_db_ok env" and "\<not> env_db_ok env"
  shows "heartbeat u pub i w (before @ env # after) s =
    (HbStopped, snd (heartbeat u pub i w before s)) \<and>
    held i w (sys_queue (snd (heartbeat u pub i w before s)))"
  using assms(1,2)
proof (induction "before" arbitrary: s)
  case Nil
  then show ?case using assms(3) by (simp add: RenewLease_def)
next
  case (Cons e es)
  obtain q where q: "RenewLease e i w (sys_queue s) = (Inr True, q)"
    using Cons.prems not_held_count by (auto simp: RenewLease_def held_iff sql_count_0_iff)
  have "held i w q" using RenewLease_keeps [of i w e "sys_queue s"] q Cons.prems(1) by simp
  then show ?case using Cons.IH [of "s\<lparr>sys_queue := q\<rparr>"] Cons.prems q by simp
qed

section \<open>The semaphore\<close>

text \<open>
  Bounded concurrency: in every run of a worker at most four jobs are being processed, and a
  job is only leased when a slot is free for it.
\<close>

theorem pool_bounded:
  assumes "pool_reach w p"
  shows "length (pl_running p) \<le> maxConcurrentJobs \<and>
    (length (pl_running p) = maxConcurrentJobs \<longrightarrow> pl_queue (poll env locked w p) = pl_queue p)"
proof -
  have "length (pl_running p) \<le> maxConcurrentJobs"
    using assms
  proof (induction rule: pool_reach.induct)
    case (next_step p p')
    from next_step(2,3) show ?case
      by (cases rule: pool_step.cases)
        (auto simp: poll_def job_done_def length_remove1 split: prod.splits sum.splits option.splits)
  qed simp
  then show ?thesis by (simp add: poll_def)
qed

section \<open>Concrete runs\<close>

definition wit_result :: process_result where
  "wit_result = \<lparr>pr_ProposalType = ''rewrite'', pr_OutputPayload = Some ''out'',
     pr_HumanReviewRequired = True, pr_Outcome = ''success'', pr_ErrorMessage = [],
     pr_PromptTemplateID = [], pr_PromptTemplateVersion = [], pr_ModelProvider = [],
     pr_ModelRole = [], pr_ModelName = [], pr_TokensPrompt = 0, pr_TokensCompletion = 0,
     pr_TokensUsed = 0, pr_DurationMS = 0, pr_TimeoutUsed = 0, pr_ExecutionTrace = None,
     pr_UsedFallback = False\<rparr>"

definition wit_proc :: processor where
  "wit_proc = \<lparr>proc_CanHandle = (\<lambda>t. t = ''llm_rewrite''), proc_Process = (\<lambda>jc. (wit_result, None))\<rparr>"

definition wit_renv :: run_env where
  "wit_renv = \<lparr>re_queue = wit_env 9, re_snapshot_ok = True, re_startedAt = 6, re_finishedAt = 8,
     re_runID = 50, re_proposalID = 60, re_marshal_ok = True, re_run_ok = True, re_proposal_ok = True,
     re_now = 9, re_pub = (\<lambda>_. True)\<rparr>"

definition wit_wsys :: wsys where
  "wit_wsys = \<lparr>sys_queue = wit_q2, sys_bus = [], source_tasks = [], snapshots = [],
     processing_runs = [], suggestion_proposals = []\<rparr>"

lemma wit_find: "FindFor [wit_proc] (job_JobType wit_j2) = Some wit_proc"
proof -
  have "job_JobType wit_j2 = ''llm_rewrite''" by code_simp
  then show ?thesis by (simp add: FindFor_def wit_proc_def)
qed

lemma wit_wsys_facts [simp]: "sys_queue wit_wsys = wit_q2" "re_queue wit_renv = wit_env 9"
  "env_db_ok (wit_env t)" "env_now (wit_env t) = t"
  by (simp_all add: wit_wsys_def wit_renv_def wit_env_def)

lemma wit_held: "held 1 ''w1'' wit_q2" "\<not> held 1 ''w9'' wit_q2" "int4 (job_AttemptCount wit_j2 + 1)"
  by code_simp+

theorem run_job_releases_lease_witness:
  "held 1 ''w1'' wit_q2 \<and>
   \<not> held 1 ''w1'' (sys_queue (snd (RunJob (\<lambda>_. []) [wit_proc] ''w1'' wit_renv wit_j2 (\<lambda>s. s) wit_wsys)))"
proof -
  have "fst (RunJob (\<lambda>_. []) [wit_proc] ''w1'' wit_renv wit_j2 (\<lambda>s. s) wit_wsys) = Inr ()" by code_simp
  then have "RunJob (\<lambda>_. []) [wit_proc] ''w1'' wit_renv wit_j2 (\<lambda>s. s) wit_wsys =
      (Inr (), snd (RunJob (\<lambda>_. []) [wit_proc] ''w1'' wit_renv wit_j2 (\<lambda>s. s) wit_wsys))"
    by (simp add: prod_eq_iff)
  from run_job_releases_lease [OF this] wit_held(1) wit_j2_facts(3) show ?thesis by simp
qed

theorem stale_run_leaves_queue_witness:
  "processing_jobs (sys_queue (snd (RunJob (\<lambda>_. []) [wit_proc] ''w9'' wit_renv wit_j2 (\<lambda>s. s) wit_wsys))) =
   processing_jobs wit_q2"
  using stale_run_leaves_queue [OF wit_find, of "''w9''" "\<lambda>s. s" wit_wsys] wit_held(2) wit_j2_facts(3) by simp

theorem stale_run_still_proposes_witness:
  "\<not> held 1 ''w9'' wit_q2 \<and>
   length (suggestion_proposals (snd (finish_job (\<lambda>_. []) ''w9'' wit_renv wit_j2 (wit_result, None) wit_wsys))) = 1"
proof -
  have a: "run_outcome (wit_result, None) = ''success''" "has_proposal (fst (wit_result, None :: string option))"
    "re_proposal_ok wit_renv" "suggestion_proposals wit_wsys = []" by code_simp+
  show ?thesis
    using stale_run_still_proposes [of wit_j2 "''w9''" wit_wsys "(wit_result, None)" wit_renv "\<lambda>_. []"]
      a wit_held(2) wit_j2_facts(3) by simp
qed

theorem run_job_settles_witness:
  "\<exists>j'. row_of job_ID (processing_jobs (sys_queue (snd
     (RunJob (\<lambda>_. []) [wit_proc] ''w1'' wit_renv wit_j2 (\<lambda>s. s) wit_wsys)))) 1 = Some j' \<and>
     job_Status j' = JobStatusSucceeded"
  using run_job_settles [OF _ wit_find, of "\<lambda>s. s" wit_wsys wit_j2 "''w1''" wit_renv, OF _ _ _ _ _ refl, of "\<lambda>_. []"]
    wit_reach(3) wit_j2_facts wit_held(3)
  by (simp add: wit_proc_def wit_result_def run_outcome_def set_status)

theorem fail_job_announces_witness:
  "\<exists>j' \<in> set (processing_jobs wit_q3). sys_bus (snd (failJob (\<lambda>_. []) ''w1'' wit_renv wit_j2 ''E'' ''m'' wit_wsys)) =
     [(SubjectJobRetry, JobRetryEvent [] [] ''llm_rewrite'' 1 3 ''E'' ''m'' (the (job_ScheduledAt j')))]"
proof -
  have a: "queue_reach (sys_queue wit_wsys)" "env_db_ok (re_queue wit_renv)" using wit_reach(3) by simp_all
  have b: "re_pub wit_renv sub" for sub by (simp add: wit_renv_def)
  have t: "processing_jobs wit_q2 = [wit_j2]" by code_simp
  have d: "sys_queue (snd (failJob (\<lambda>_. []) ''w1'' wit_renv wit_j2 ''E'' ''m'' wit_wsys)) = wit_q3"
    using wit_j2_facts(3) by (simp add: failJob_queue wit_q3_def)
  have e: "list_all (\<lambda>j'. job_Status j' \<noteq> JobStatusDeadLetter \<and> job_AttemptCount j' = 1 \<and> job_MaxAttempts j' = 3)
      (processing_jobs wit_q3)" "job_JobType wit_j2 = ''llm_rewrite''" "sys_bus wit_wsys = []" by code_simp+
  show ?thesis
    using fail_job_announces [OF a b _ surjective_pairing,
        where w = "''w1''" and job = wit_j2 and c = "''E''" and m = "''m''" and u = "\<lambda>_. []"]
      wit_held t d e wit_j2_facts(3) by (simp add: list_all_iff) blast
qed

theorem timely_renewal_keeps_lease_witness:
  "held 1 ''w1'' (snd (ReclaimExpiredLeases (wit_env (6 * Minute)) (snd (RenewLease (wit_env (2 * Minute)) 1 ''w1'' wit_q2))))"
proof -
  have u: "lease_until 1 ''w1'' (5 + 5 * Minute) wit_q2" by code_simp
  have r: "queue_run wit_q2 [ARenew (wit_env (2 * Minute)) 1 ''w1'', AReclaim (wit_env (6 * Minute))]
      (snd (ReclaimExpiredLeases (wit_env (6 * Minute)) (snd (RenewLease (wit_env (2 * Minute)) 1 ''w1'' wit_q2))))"
    by (rule run_cons [OF queue_step.renew run_cons [OF queue_step.reclaim run_nil]])
  show ?thesis
    by (rule timely_renewal_keeps_lease [OF wit_reach(3) u r])
      (simp add: spares_lease_def next_expiry_def leaseDuration_def duration_defs)
qed

theorem heartbeat_stops_at_first_error_witness:
  "fst (heartbeat (\<lambda>_. []) (\<lambda>_. True) 1 ''w1'' [wit_env 60, (wit_env 120)\<lparr>env_db_ok := False\<rparr>, wit_env 180] wit_wsys) = HbStopped"
  using heartbeat_stops_at_first_error
    [of 1 "''w1''" wit_wsys "[wit_env 60]" "(wit_env 120)\<lparr>env_db_ok := False\<rparr>" "\<lambda>_. []" "\<lambda>_. True" "[wit_env 180]"]
    wit_held(1) by simp

theorem pool_bounded_witness:
  "length (pl_running (poll (wit_env 5) {} ''w1'' \<lparr>pl_queue = wit_q1, pl_running = []\<rparr>)) = 1 \<and>
   length (pl_running (poll (wit_env 5) {} ''w1'' \<lparr>pl_queue = wit_q1, pl_running = []\<rparr>)) \<le> maxConcurrentJobs"
proof -
  have "pool_reach ''w1'' (poll (wit_env 5) {} ''w1'' \<lparr>pl_queue = wit_q1, pl_running = []\<rparr>)"
    by (rule pool_reach.next_step [OF pool_reach.init pool_step.poll])
  moreover have "length (pl_running (poll (wit_env 5) {} ''w1'' \<lparr>pl_queue = wit_q1, pl_running = []\<rparr>)) = 1"
    using wit_lease by (simp add: poll_def maxConcurrentJobs_def)
  ultimately show ?thesis using pool_bounded by blast
qed

end
