(* ===== verification/Orchestrator.thy ===== *)
theory Orchestrator
  imports Worker
begin

text \<open>
  The orchestrator (\<open>src/internal/orchestrator/orchestrator.go\<close>): the handlers of the three
  subjects it subscribes to. A message whose body does not unmarshal is \<open>None\<close>; the text form of
  an identifier is read with the argument \<open>parse\<close> and written with \<open>uuid_str\<close>
  (\<open>uuid.Parse\<close> and \<open>uuid.String\<close> of a package outside the repository). Every handler
  acknowledges its message on every path, so a handler runs at most once per delivery. It runs in
  a goroutine and calls the queue twice at most; \<open>between\<close> is what other parties do to the
  state between the two calls.
\<close>

section \<open>Handlers\<close>

text \<open>The handler of \<open>SubjectJobCreated\<close> changes nothing; its outcome is a log line.\<close>

datatype route_outcome = RouteBadMessage | RouteNoJob queue_error | RouteNotLeasable | RouteNoProcessor | RouteOk

definition handle_job_created ::
  "(string \<Rightarrow> uuid option) \<Rightarrow> processor list \<Rightarrow> job_env \<Rightarrow> string option \<Rightarrow> 'a sys_scheme \<Rightarrow> route_outcome"
where
  "handle_job_created parse registry env body s =
     (case Option.bind body parse of
        None \<Rightarrow> RouteBadMessage
      | Some jobID \<Rightarrow>
          (case GetJob env jobID (sys_queue s) of
             Inl e \<Rightarrow> RouteNoJob e
           | Inr job \<Rightarrow>
               if \<not> CanTransition (status_str (job_Status job)) ''leased'' then RouteNotLeasable
               else (case FindFor registry (job_JobType job) of
                       None \<Rightarrow> RouteNoProcessor
                     | Some p \<Rightarrow> RouteOk)))"

record resync_command =
  rc_SourceTaskID :: string
  rc_JobType :: string
  rc_Priority :: int

definition resync_params :: "uuid \<Rightarrow> resync_command \<Rightarrow> enqueue_params" where
  "resync_params sourceTaskID cmd =
     \<lparr>ep_SourceTaskID = sourceTaskID, ep_JobType = rc_JobType cmd, ep_Priority = rc_Priority cmd,
      ep_DedupeKey = Some (rc_SourceTaskID cmd @ '':'' @ rc_JobType cmd), ep_MaxAttempts = 3\<rparr>"

definition handle_task_resync ::
  "(uuid \<Rightarrow> string) \<Rightarrow> (string \<Rightarrow> uuid option) \<Rightarrow> job_env \<Rightarrow> (string \<Rightarrow> bool) \<Rightarrow> uuid \<Rightarrow>
     resync_command option \<Rightarrow> 'a sys_scheme \<Rightarrow> 'a sys_scheme"
where
  "handle_task_resync uuid_str parse env pub new_id body s =
     (case body of None \<Rightarrow> s
      | Some cmd \<Rightarrow>
          (case parse (rc_SourceTaskID cmd) of None \<Rightarrow> s
           | Some sourceTaskID \<Rightarrow>
               (case Enqueue env new_id (resync_params sourceTaskID cmd) (sys_queue s) of
                  (Inl e, q) \<Rightarrow> s\<lparr>sys_queue := q\<rparr>
                | (Inr None, q) \<Rightarrow> s\<lparr>sys_queue := q\<rparr>
                | (Inr (Some job), q) \<Rightarrow>
                    Publish pub SubjectJobCreated
                      (JobCreatedEvent (uuid_str (job_ID job)) (rc_SourceTaskID cmd) (rc_JobType cmd)
                        (rc_Priority cmd) [])
                      (s\<lparr>sys_queue := q\<rparr>))))"

definition handle_job_retry ::
  "(uuid \<Rightarrow> string) \<Rightarrow> (string \<Rightarrow> uuid option) \<Rightarrow> job_env \<Rightarrow> job_env \<Rightarrow> (string \<Rightarrow> bool) \<Rightarrow>
     ('a sys_scheme \<Rightarrow> 'a sys_scheme) \<Rightarrow> string option \<Rightarrow> 'a sys_scheme \<Rightarrow> 'a sys_scheme"
where
  "handle_job_retry uuid_str parse env env' pub between body s =
     (case Option.bind body parse of
        None \<Rightarrow> s
      | Some jobID \<Rightarrow>
          (case Retry env jobID (sys_queue s) of
             (Inl e, q) \<Rightarrow> s\<lparr>sys_queue := q\<rparr>
           | (Inr u, q) \<Rightarrow>
               (let s1 = between (s\<lparr>sys_queue := q\<rparr>) in
                case GetJob env' jobID (sys_queue s1) of
                  Inl e \<Rightarrow> s1
                | Inr job \<Rightarrow>
                    Publish pub SubjectJobCreated
                      (JobCreatedEvent (uuid_str (job_ID job)) (uuid_str (job_SourceTaskID job))
                        (job_JobType job) (job_Priority job)
                        (case job_DedupeKey job of None \<Rightarrow> [] | Some k \<Rightarrow> k)) s1)))"

section \<open>Properties\<close>

lemma Enqueue_new:
  assumes "IsKnownJobType (ep_JobType p)" and "env_db_ok env" and "int4 (ep_Priority p)"
    and "0 < ep_MaxAttempts p" and "int4 (ep_MaxAttempts p)"
    and "\<not> dedupe_conflict (ep_DedupeKey p) (processing_jobs q)" and "i \<notin> job_ID ` set (processing_jobs q)"
  shows "fst (Enqueue env i p q) = Inr (Some (new_job (env_now env) i p))"
    and "processing_jobs (snd (Enqueue env i p q)) = processing_jobs q @ [new_job (env_now env) i p]"
  using assms by (simp_all add: Enqueue_def Let_def new_job_def)

lemma Enqueue_again:
  assumes "ep_DedupeKey p = Some k" and "dedupe_conflict (Some k) (processing_jobs q)"
  shows "snd (Enqueue env i p q) = q" and "fst (Enqueue env i p q) \<noteq> Inr (Some j)"
  using assms by (simp_all add: Enqueue_def Let_def new_job_def)

lemma new_job_conflict:
  "ep_DedupeKey p = Some k \<Longrightarrow> dedupe_conflict (Some k) (t @ [new_job now i p])"
  by (simp add: dedupe_conflict_def live_def new_job_def)

lemma resync_params_simps [simp]:
  "ep_JobType (resync_params t cmd) = rc_JobType cmd" "ep_Priority (resync_params t cmd) = rc_Priority cmd"
  "ep_DedupeKey (resync_params t cmd) = Some (rc_SourceTaskID cmd @ '':'' @ rc_JobType cmd)"
  "ep_MaxAttempts (resync_params t cmd) = 3"
  by (simp_all add: resync_params_def)

lemma resync_deduplicated:
  assumes "dedupe_conflict (Some (rc_SourceTaskID cmd @ '':'' @ rc_JobType cmd)) (processing_jobs (sys_queue s))"
  shows "handle_task_resync u parse env pub i (Some cmd) s = s"
proof (cases "parse (rc_SourceTaskID cmd)")
  case (Some t)
  let ?E = "Enqueue env i (resync_params t cmd) (sys_queue s)"
  have "snd ?E = sys_queue s" "\<And>j. fst ?E \<noteq> Inr (Some j)"
    using Enqueue_again [of "resync_params t cmd", OF _ assms] by simp_all
  with Some show ?thesis
    by (cases ?E) (auto simp: handle_task_resync_def split: sum.split option.split)
qed (simp add: handle_task_resync_def)

text \<open>
  Repeating a resync command is harmless: the first one creates one queued job for the task and
  announces it once; while that job is not finished, handling the command again, any number of
  times, changes neither the table nor the bus.
\<close>

theorem resync_command_idempotent:
  assumes "parse (rc_SourceTaskID cmd) = Some t" and "IsKnownJobType (rc_JobType cmd)"
    and "int4 (rc_Priority cmd)" and "env_db_ok env" and "pub SubjectJobCreated"
    and "\<not> dedupe_conflict (Some (rc_SourceTaskID cmd @ '':'' @ rc_JobType cmd)) (processing_jobs (sys_queue s))"
    and "i \<notin> job_ID ` set (processing_jobs (sys_queue s))"
    and "s1 = handle_task_resync u parse env pub i (Some cmd) s"
  shows "processing_jobs (sys_queue s1) =
      processing_jobs (sys_queue s) @ [new_job (env_now env) i (resync_params t cmd)] \<and>
    sys_bus s1 = sys_bus s @ [(SubjectJobCreated,
      JobCreatedEvent (u i) (rc_SourceTaskID cmd) (rc_JobType cmd) (rc_Priority cmd) [])] \<and>
    fold (\<lambda>(env', i'). handle_task_resync u parse env' pub i' (Some cmd)) again s1 = s1"
proof -
  let ?p = "resync_params t cmd" and ?q = "sys_queue s"
  have i3: "int4 3" by (simp add: int4_def)
  note new = Enqueue_new [of ?p env ?q i]
  obtain q1 where q1: "Enqueue env i ?p ?q = (Inr (Some (new_job (env_now env) i ?p)), q1)"
      "processing_jobs q1 = processing_jobs ?q @ [new_job (env_now env) i ?p]"
    using new assms i3 by (cases "Enqueue env i ?p ?q") simp
  have s1: "processing_jobs (sys_queue s1) = processing_jobs ?q @ [new_job (env_now env) i ?p]"
    "sys_bus s1 = sys_bus s @ [(SubjectJobCreated,
      JobCreatedEvent (u i) (rc_SourceTaskID cmd) (rc_JobType cmd) (rc_Priority cmd) [])]"
    using assms(1,5,8) q1 by (simp_all add: handle_task_resync_def Publish_bus new_job_def)
  then have "dedupe_conflict (Some (rc_SourceTaskID cmd @ '':'' @ rc_JobType cmd)) (processing_jobs (sys_queue s1))"
    by (simp add: new_job_conflict)
  then have "fold (\<lambda>(env', i'). handle_task_resync u parse env' pub i' (Some cmd)) again s1 = s1"
    by (induction again) (auto simp: resync_deduplicated)
  with s1 show ?thesis by simp
qed

text \<open>
  An operator's retry command for a dead-lettered job puts the job back in the queue and
  announces it with the fields of the stored row; the handler of that announcement then finds the
  job leasable and routes it whenever a processor for its type is registered.
\<close>

theorem retry_command_reroutes:
  assumes "queue_reach (sys_queue s)" and "parse (u i) = Some i" and "env_db_ok env" and "env_db_ok env'"
    and "pub SubjectJobCreated" and "j \<in> set (processing_jobs (sys_queue s))" and "job_ID j = i"
    and "job_Status j = JobStatusDeadLetter"
    and "\<not> dedupe_conflict (job_DedupeKey j) (processing_jobs (sys_queue s))"
    and "s' = handle_job_retry u parse env env' pub (\<lambda>s. s) (Some (u i)) s"
  shows "row_of job_ID (processing_jobs (sys_queue s')) i = Some (set_retried (env_now env) j) \<and>
    sys_bus s' = sys_bus s @ [(SubjectJobCreated,
      JobCreatedEvent (u i) (u (job_SourceTaskID j)) (job_JobType j) (job_Priority j)
        (case job_DedupeKey j of None \<Rightarrow> [] | Some k \<Rightarrow> k))] \<and>
    handle_job_created parse registry env' (Some (u i)) s' =
      (if FindFor registry (job_JobType j) = None then RouteNoProcessor else RouteOk)"
proof -
  let ?t = "processing_jobs (sys_queue s)" and ?j = "set_retried (env_now env) j"
  have key: "keyed job_ID ?t" using queue_reach_inv [OF assms(1)] by (simp add: queue_inv_def)
  have row: "row_of job_ID ?t i = Some j" using keyed_row_of [OF key assms(6)] assms(7) by simp
  have r: "retryable i j" using assms(7,8) by (simp add: retryable_def)
  then obtain k where k: "find (retryable i) ?t = Some k"
    using assms(6) by (cases "find (retryable i) ?t") (auto simp: find_None_iff)
  then have "k \<in> set ?t" "retryable i k" by (auto simp: find_Some_iff)
  then have "k = j" using keyed_unique [OF key _ assms(6)] assms(7) by (simp add: retryable_def)
  with k assms(3,9) obtain q1 where q1: "Retry env i (sys_queue s) = (Inr (), q1)"
      "processing_jobs q1 = sql_update (retryable i) (set_retried (env_now env)) ?t"
    by (simp add: Retry_def)
  have row1: "row_of job_ID (processing_jobs q1) i = Some ?j"
    using row r q1(2) by (simp add: row_of_sql_update)
  then have s': "processing_jobs (sys_queue s') = processing_jobs q1"
    "sys_bus s' = sys_bus s @ [(SubjectJobCreated,
      JobCreatedEvent (u i) (u (job_SourceTaskID j)) (job_JobType j) (job_Priority j)
        (case job_DedupeKey j of None \<Rightarrow> [] | Some k \<Rightarrow> k))]"
    using assms(2,4,5,7,10) q1
    by (simp_all add: handle_job_retry_def GetJob_def Publish_bus set_retried_def)
  moreover have "CanTransition (status_str JobStatusQueued) ''leased''"
    by (simp add: CanTransition_def ValidTransitions_def)
  then have "handle_job_created parse registry env' (Some (u i)) s' =
      (if FindFor registry (job_JobType j) = None then RouteNoProcessor else RouteOk)"
    using assms(2,4) s'(1) row1
    by (auto simp: handle_job_created_def GetJob_def set_retried_def split: option.split)
  ultimately show ?thesis using row1 by simp
qed

section \<open>Concrete commands\<close>

definition wit_cmd :: resync_command where
  "wit_cmd = \<lparr>rc_SourceTaskID = ''7'', rc_JobType = ''llm_rewrite'', rc_Priority = 0\<rparr>"

theorem resync_command_idempotent_witness:
  "\<exists>s1 :: wsys. length (processing_jobs (sys_queue s1)) = 2 \<and>
     handle_task_resync (\<lambda>_. ''9'') (\<lambda>s. if s = ''7'' then Some 7 else None) (wit_env 20) (\<lambda>_. True) 10 (Some wit_cmd) s1 = s1"
proof -
  have a: "IsKnownJobType (rc_JobType wit_cmd)" "int4 (rc_Priority wit_cmd)" "rc_SourceTaskID wit_cmd = ''7''"
    "\<not> dedupe_conflict (Some (rc_SourceTaskID wit_cmd @ '':'' @ rc_JobType wit_cmd)) (processing_jobs wit_q2)"
    "(9::nat) \<notin> job_ID ` set (processing_jobs wit_q2)" "length (processing_jobs wit_q2) = 1" by code_simp+
  show ?thesis
    using resync_command_idempotent [of "\<lambda>s. if s = ''7'' then Some 7 else None" wit_cmd 7 "wit_env 10"
      "\<lambda>_. True" wit_wsys 9 _ "\<lambda>_. ''9''" "[(wit_env 20, 10)]", OF _ _ _ _ _ _ _ refl] a
    by (intro exI [of _ "handle_task_resync (\<lambda>_. ''9'') (\<lambda>s. if s = ''7'' then Some 7 else None) (wit_env 10)
      (\<lambda>_. True) 9 (Some wit_cmd) wit_wsys"]) simp
qed

definition wit_dead :: wsys where
  "wit_dead = wit_wsys\<lparr>sys_queue :=
     snd (FailUnknownJobTypes (wit_env 2) [] (wit_q1))\<rparr>"

theorem retry_command_reroutes_witness:
  "handle_job_created (\<lambda>s. Some 1) [wit_proc] (wit_env 9) (Some ''1'')
     (handle_job_retry (\<lambda>_. ''1'') (\<lambda>s. Some 1) (wit_env 8) (wit_env 9) (\<lambda>_. True) (\<lambda>s. s) (Some ''1'') wit_dead) = RouteOk"
proof -
  let ?j = "hd (processing_jobs (sys_queue wit_dead))"
  have a: "?j \<in> set (processing_jobs (sys_queue wit_dead))" "job_ID ?j = 1" "job_Status ?j = JobStatusDeadLetter"
    "\<not> dedupe_conflict (job_DedupeKey ?j) (processing_jobs (sys_queue wit_dead))"
    "FindFor [wit_proc] (job_JobType ?j) \<noteq> None" by code_simp+
  have r: "queue_reach (sys_queue wit_dead)"
    using queue_reach.step [OF wit_reach(2) queue_step.fail_unknown] by (simp add: wit_dead_def)
  show ?thesis
    using retry_command_reroutes [OF r, of "\<lambda>s. Some 1" "\<lambda>_. ''1''" 1 "wit_env 8" "wit_env 9" "\<lambda>_. True" ?j,
        OF _ _ _ _ a(1-4) refl, of "[wit_proc]"] a(5) by simp
qed

end
