(* ===== verification/Routing.thy ===== *)
theory Routing
  imports Providers
begin

text \<open>
  Static routing of model roles to candidate chains: \<open>src/internal/providers/routing/policy.go\<close>
  and \<open>resolver.go\<close>. The resolver runs at startup; its result is the profile that the execution
  engine walks through at run time.
\<close>

section \<open>Policy\<close>

datatype escalation_level =
  EscalationUnset | EscalationLocalOnly | EscalationLocalCloud
  | EscalationLocalCloudOpenRouter | EscalationLocalOpenRouter

fun escalation_str :: "escalation_level \<Rightarrow> string" where
  "escalation_str EscalationUnset = ''''"
| "escalation_str EscalationLocalOnly = ''local_only''"
| "escalation_str EscalationLocalCloud = ''local_cloud''"
| "escalation_str EscalationLocalCloudOpenRouter = ''local_cloud_openrouter''"
| "escalation_str EscalationLocalOpenRouter = ''local_openrouter''"

definition allowsCloud :: "escalation_level \<Rightarrow> bool" where
  "allowsCloud e \<longleftrightarrow> e = EscalationLocalCloud \<or> e = EscalationLocalCloudOpenRouter"

definition allowsOpenRouter :: "escalation_level \<Rightarrow> bool" where
  "allowsOpenRouter e \<longleftrightarrow> e = EscalationLocalCloudOpenRouter \<or> e = EscalationLocalOpenRouter"

definition ParseEscalationLevel :: "string \<Rightarrow> escalation_level \<times> go_error option" where
  "ParseEscalationLevel s =
     (let t = ToLower (TrimSpace s) in
      if t = ''local_only'' \<or> t = ''local'' then (EscalationLocalOnly, None)
      else if t = ''local_cloud'' then (EscalationLocalCloud, None)
      else if t = ''local_cloud_openrouter'' \<or> t = ''full'' then (EscalationLocalCloudOpenRouter, None)
      else if t = ''local_openrouter'' then (EscalationLocalOpenRouter, None)
      else (EscalationLocalOnly,
            Some (PlainErr (''unknown escalation level '' @ go_quote s @
              '': must be one of local_only, local_cloud, local_cloud_openrouter, local_openrouter''))))"

record routing_policy =
  rp_Fast :: escalation_level
  rp_Default :: escalation_level
  rp_Planner :: escalation_level
  rp_Review :: escalation_level

definition NewRoutingPolicy :: "string \<Rightarrow> string \<Rightarrow> string \<Rightarrow> string \<Rightarrow> go_error + routing_policy" where
  "NewRoutingPolicy fast defaultLevel planner review =
     (case ParseEscalationLevel fast of
        (_, Some e) \<Rightarrow> Inl (wrapf ''fast escalation'' e)
      | (f, None) \<Rightarrow>
     (case ParseEscalationLevel defaultLevel of
        (_, Some e) \<Rightarrow> Inl (wrapf ''default escalation'' e)
      | (d, None) \<Rightarrow>
     (case ParseEscalationLevel planner of
        (_, Some e) \<Rightarrow> Inl (wrapf ''planner escalation'' e)
      | (p, None) \<Rightarrow>
     (case ParseEscalationLevel review of
        (_, Some e) \<Rightarrow> Inl (wrapf ''review escalation'' e)
      | (r, None) \<Rightarrow> Inr \<lparr>rp_Fast = f, rp_Default = d, rp_Planner = p, rp_Review = r\<rparr>))))"

section \<open>Resolver\<close>

record routing_input =
  ri_Policy :: routing_policy
  ri_LocalDefaultModel :: string
  ri_LocalFastModel :: string
  ri_LocalPlannerModel :: string
  ri_LocalReviewModel :: string
  ri_CloudEnabled :: bool
  ri_CloudModel :: string
  ri_OpenRouterEnabled :: bool
  ri_OpenRouterModel :: string
  ri_CatalogLocalCandidates :: "string \<rightharpoonup> model_candidate list"

record route_decision =
  rd_Role :: string
  rd_EscalationLevel :: escalation_level
  rd_Candidates :: "model_candidate list"
  rd_AvailableProviders :: "string list"
  rd_SkippedProviders :: "string list"
  rd_ProfileSource :: string
  rd_Justification :: string

definition policyForRole :: "routing_policy \<Rightarrow> string \<Rightarrow> escalation_level" where
  "policyForRole p role =
     (if role = RoleFast then rp_Fast p else if role = RolePlanner then rp_Planner p
      else if role = RoleReview then rp_Review p else rp_Default p)"

definition localModelForRole :: "routing_input \<Rightarrow> string \<Rightarrow> string" where
  "localModelForRole inp role =
     (let model = (if role = RoleFast then ri_LocalFastModel inp
                   else if role = RolePlanner then ri_LocalPlannerModel inp
                   else if role = RoleReview then ri_LocalReviewModel inp else [])
      in if model = [] then ri_LocalDefaultModel inp else model)"

definition plain_candidate :: "string \<Rightarrow> string \<Rightarrow> model_candidate" where
  "plain_candidate model prov = \<lparr>mc_ModelName = model, mc_ProviderName = prov,
     mc_ThinkMode = ThinkDefault, mc_Timeout = 0, mc_JSONMode = False\<rparr>"

definition openrouter_missing :: "string \<Rightarrow> go_error" where
  "openrouter_missing role = PlainErr (''role '' @ go_quote role @
     '' allows OpenRouter escalation but no model is configured'' @
     '' (set ROUTING_OPENROUTER_MODEL or OPENROUTER_DEFAULT_MODEL)'')"

text \<open>
  The cloud and OpenRouter tiers are appended the same way in both branches of
  \<open>resolveRole\<close>: \<open>local\<close> is the model the cloud tier falls back to.
\<close>

definition escalate ::
  "routing_input \<Rightarrow> string \<Rightarrow> string \<Rightarrow> model_candidate list \<Rightarrow>
     go_error + model_candidate list \<times> string list \<times> string list"
where
  "escalate inp role local candidates =
     (let e = policyForRole (ri_Policy inp) role;
          cloud = (allowsCloud e \<and> ri_CloudEnabled inp);
          cloudModel = (if ri_CloudModel inp = [] then local else ri_CloudModel inp);
          c1 = candidates @ (if cloud then [plain_candidate cloudModel ''ollama-cloud''] else []);
          a1 = [''ollama''] @ (if cloud then [''ollama-cloud''] else []);
          s1 = (if allowsCloud e \<and> \<not> ri_CloudEnabled inp then [''ollama-cloud (disabled)''] else [])
      in if \<not> allowsOpenRouter e then Inr (c1, a1, s1)
         else if \<not> ri_OpenRouterEnabled inp then Inr (c1, a1, s1 @ [''openrouter (disabled)''])
         else if ri_OpenRouterModel inp = [] then Inl (openrouter_missing role)
         else Inr (c1 @ [plain_candidate (ri_OpenRouterModel inp) ''openrouter''],
                   a1 @ [''openrouter''], s1))"

definition resolveRole :: "routing_input \<Rightarrow> string \<Rightarrow> go_error + route_decision" where
  "resolveRole inp role =
     (let e = policyForRole (ri_Policy inp) role;
          catalog = (case ri_CatalogLocalCandidates inp role of None \<Rightarrow> [] | Some cs \<Rightarrow> cs)
      in if catalog \<noteq> [] then
           (case escalate inp role (mc_ModelName (hd catalog)) catalog of
              Inl err \<Rightarrow> Inl err
            | Inr (cs, av, sk) \<Rightarrow>
                Inr \<lparr>rd_Role = role, rd_EscalationLevel = e, rd_Candidates = cs,
                     rd_AvailableProviders = av, rd_SkippedProviders = sk,
                     rd_ProfileSource = ''catalog'',
                     rd_Justification = ''catalog profile applied: '' @ nat_str (length catalog) @
                       '' local candidates, escalation='' @ escalation_str e\<rparr>)
         else
           (let localModel = localModelForRole inp role in
            case escalate inp role localModel [plain_candidate localModel ''ollama''] of
              Inl err \<Rightarrow> Inl err
            | Inr (cs, av, sk) \<Rightarrow>
                Inr \<lparr>rd_Role = role, rd_EscalationLevel = e, rd_Candidates = cs,
                     rd_AvailableProviders = av, rd_SkippedProviders = sk,
                     rd_ProfileSource = ''policy'',
                     rd_Justification = ''policy applied: escalation='' @ escalation_str e @
                       '', local_model='' @ localModel @ '', candidates='' @ nat_str (length cs)\<rparr>))"

fun resolve_roles ::
  "routing_input \<Rightarrow> string list \<Rightarrow> role_profiles \<Rightarrow> route_decision list \<Rightarrow>
     go_error + role_profiles \<times> route_decision list"
where
  "resolve_roles inp [] rp decisions = Inr (rp, decisions)"
| "resolve_roles inp (role # roles) rp decisions =
     (case resolveRole inp role of
        Inl e \<Rightarrow> Inl (wrapf (''routing policy for role '' @ go_quote role) e)
      | Inr d \<Rightarrow> resolve_roles inp roles (rp(role \<mapsto> rd_Candidates d)) (decisions @ [d]))"

definition ResolveProfiles :: "routing_input \<Rightarrow> go_error + role_profiles \<times> route_decision list" where
  "ResolveProfiles inp =
     (if ri_LocalDefaultModel inp = []
      then Inl (PlainErr ''routing: LocalDefaultModel must not be empty'')
      else resolve_roles inp [RoleDefault, RoleFast, RolePlanner, RoleReview] Map.empty [])"

section \<open>Properties\<close>

text \<open>The chain a policy promises: the local tier, then the tiers it allows and that are enabled.\<close>

definition local_tier :: "routing_input \<Rightarrow> string \<Rightarrow> model_candidate list" where
  "local_tier inp role =
     (case ri_CatalogLocalCandidates inp role of
        Some (c # cs) \<Rightarrow> c # cs
      | _ \<Rightarrow> [plain_candidate (localModelForRole inp role) ''ollama''])"

definition cloud_tier :: "routing_input \<Rightarrow> string \<Rightarrow> model_candidate list" where
  "cloud_tier inp role =
     (if allowsCloud (policyForRole (ri_Policy inp) role) \<and> ri_CloudEnabled inp
      then [plain_candidate
              (if ri_CloudModel inp = [] then mc_ModelName (hd (local_tier inp role)) else ri_CloudModel inp)
              ''ollama-cloud'']
      else [])"

definition openrouter_tier :: "routing_input \<Rightarrow> string \<Rightarrow> model_candidate list" where
  "openrouter_tier inp role =
     (if allowsOpenRouter (policyForRole (ri_Policy inp) role) \<and> ri_OpenRouterEnabled inp
      then [plain_candidate (ri_OpenRouterModel inp) ''openrouter''] else [])"

definition openrouter_unconfigured :: "routing_input \<Rightarrow> string \<Rightarrow> bool" where
  "openrouter_unconfigured inp role \<longleftrightarrow>
     allowsOpenRouter (policyForRole (ri_Policy inp) role) \<and> ri_OpenRouterEnabled inp \<and>
     ri_OpenRouterModel inp = []"

lemma plain_candidate_simps [simp]:
  "mc_ModelName (plain_candidate m p) = m" "mc_ProviderName (plain_candidate m p) = p"
  by (simp_all add: plain_candidate_def)

lemma resolveRole_spec:
  "(case resolveRole inp role of
      Inl e \<Rightarrow> openrouter_unconfigured inp role \<and> e = openrouter_missing role
    | Inr d \<Rightarrow> \<not> openrouter_unconfigured inp role \<and>
        rd_Candidates d = local_tier inp role @ cloud_tier inp role @ openrouter_tier inp role)"
  by (cases "allowsOpenRouter (policyForRole (ri_Policy inp) role)"; cases "ri_OpenRouterEnabled inp")
    (auto simp: resolveRole_def escalate_def Let_def local_tier_def cloud_tier_def openrouter_tier_def
      openrouter_unconfigured_def split: option.split list.split)

lemma local_tier_nonempty: "local_tier inp role \<noteq> []"
  by (simp add: local_tier_def split: option.split list.split)

lemma plain_valid: "m \<noteq> [] \<Longrightarrow> candidate_Validate (plain_candidate m p) = None"
  by (simp add: candidate_Validate_def plain_candidate_def think_IsValid_def)

lemma local_tier_valid:
  assumes "ri_LocalDefaultModel inp \<noteq> []"
    and "\<And>cs c. ri_CatalogLocalCandidates inp role = Some cs \<Longrightarrow> c \<in> set cs \<Longrightarrow> candidate_Validate c = None"
  shows "\<forall>c \<in> set (local_tier inp role). candidate_Validate c = None"
  using assms by (auto simp: local_tier_def localModelForRole_def Let_def plain_valid
      split: option.split list.split)

lemma tiers_valid:
  assumes "ri_LocalDefaultModel inp \<noteq> []" and "\<not> openrouter_unconfigured inp role"
    and "\<And>cs c. ri_CatalogLocalCandidates inp role = Some cs \<Longrightarrow> c \<in> set cs \<Longrightarrow> candidate_Validate c = None"
    and "c \<in> set (local_tier inp role @ cloud_tier inp role @ openrouter_tier inp role)"
  shows "candidate_Validate c = None"
proof -
  note local = local_tier_valid [OF assms(1,3)]
  have "candidate_Validate (hd (local_tier inp role)) = None"
    using local local_tier_nonempty by (meson hd_in_set)
  then have "mc_ModelName (hd (local_tier inp role)) \<noteq> []"
    by (auto simp: candidate_Validate_def split: if_splits)
  then show ?thesis
    using assms(2,4) local
    by (auto simp: cloud_tier_def openrouter_tier_def openrouter_unconfigured_def plain_valid split: if_splits)
qed

lemma resolve_roles_Inr:
  assumes "resolve_roles inp roles rp ds = Inr (rp', ds')" and "distinct roles"
  shows "map rd_Role ds' = map rd_Role ds @ roles \<and>
    (\<forall>role. rp' role = (if role \<in> set roles
       then Some (local_tier inp role @ cloud_tier inp role @ openrouter_tier inp role) else rp role)) \<and>
    (\<forall>role \<in> set roles. \<not> openrouter_unconfigured inp role)"
  using assms
proof (induction inp roles rp ds rule: resolve_roles.induct)
  case (2 inp role roles rp ds)
  from "2.prems" obtain d where d: "resolveRole inp role = Inr d" by (cases "resolveRole inp role") auto
  then have "rd_Role d = role" by (auto simp: resolveRole_def Let_def split: sum.splits prod.splits if_splits)
  moreover have "resolve_roles inp roles (rp(role \<mapsto> rd_Candidates d)) (ds @ [d]) = Inr (rp', ds')"
    "distinct roles" using "2.prems" d by simp_all
  note "2.IH" [OF d this]
  moreover have "\<not> openrouter_unconfigured inp role"
    "rd_Candidates d = local_tier inp role @ cloud_tier inp role @ openrouter_tier inp role"
    using resolveRole_spec [of inp role] d by simp_all
  ultimately show ?case using "2.prems"(2) by simp
qed simp

lemma resolve_roles_Inl:
  "resolve_roles inp roles rp ds = Inl e \<Longrightarrow> \<exists>role \<in> set roles. openrouter_unconfigured inp role"
proof (induction inp roles rp ds rule: resolve_roles.induct)
  case (2 inp role roles rp ds)
  show ?case
  proof (cases "resolveRole inp role")
    case (Inl err)
    then show ?thesis using resolveRole_spec [of inp role] by simp
  next
    case (Inr d)
    then have "resolve_roles inp roles (rp(role \<mapsto> rd_Candidates d)) (ds @ [d]) = Inl e"
      using "2.prems" by simp
    from "2.IH" [OF Inr this] show ?thesis by auto
  qed
qed simp

text \<open>
  C11: Startup routing is complete and respects the policy. It fails only when the default local
  model is missing or when some role may escalate to an enabled OpenRouter with no model. Otherwise
  each of the four roles gets exactly its local tier, followed by Ollama Cloud and then OpenRouter,
  each present if and only if the role's escalation level allows it and it is enabled; the chain is
  not empty, and all its candidates are valid if the catalog's are.
\<close>

theorem resolve_profiles_follow_policy:
  "case ResolveProfiles inp of
     Inl e \<Rightarrow> ri_LocalDefaultModel inp = [] \<or> (\<exists>role \<in> set ValidModelRoles. openrouter_unconfigured inp role)
   | Inr (rp, ds) \<Rightarrow> map rd_Role ds = ValidModelRoles \<and>
       (\<forall>role \<in> set ValidModelRoles.
          CandidatesForRole rp role = local_tier inp role @ cloud_tier inp role @ openrouter_tier inp role \<and>
          CandidatesForRole rp role \<noteq> [] \<and>
          ((\<forall>cs. ri_CatalogLocalCandidates inp role = Some cs \<longrightarrow> (\<forall>c \<in> set cs. candidate_Validate c = None)) \<longrightarrow>
           (\<forall>c \<in> set (CandidatesForRole rp role). candidate_Validate c = None)))"
proof (cases "ResolveProfiles inp")
  case (Inl e)
  show ?thesis
  proof (cases "ri_LocalDefaultModel inp = []")
    case False
    then have "resolve_roles inp ValidModelRoles Map.empty [] = Inl e"
      using Inl by (simp add: ResolveProfiles_def ValidModelRoles_def)
    from resolve_roles_Inl [OF this] show ?thesis by (simp add: Inl)
  qed (simp add: Inl)
next
  case (Inr res)
  obtain rp ds where res: "res = (rp, ds)" by fastforce
  have def: "ri_LocalDefaultModel inp \<noteq> []" using Inr by (auto simp: ResolveProfiles_def split: if_splits)
  have dist: "distinct ValidModelRoles"
    by (simp add: ValidModelRoles_def RoleDefault_def RoleFast_def RolePlanner_def RoleReview_def)
  have "resolve_roles inp ValidModelRoles Map.empty [] = Inr (rp, ds)"
    using Inr res def by (simp add: ResolveProfiles_def ValidModelRoles_def)
  note spec = resolve_roles_Inr [OF this dist]
  have chain: "CandidatesForRole rp role = local_tier inp role @ cloud_tier inp role @ openrouter_tier inp role \<and>
      CandidatesForRole rp role \<noteq> []" if "role \<in> set ValidModelRoles" for role
    using spec that local_tier_nonempty by (simp add: CandidatesForRole_def Let_def)
  have valid: "\<forall>c \<in> set (CandidatesForRole rp role). candidate_Validate c = None"
    if role: "role \<in> set ValidModelRoles"
      and cat: "\<forall>cs. ri_CatalogLocalCandidates inp role = Some cs \<longrightarrow> (\<forall>c \<in> set cs. candidate_Validate c = None)"
    for role
  proof
    fix c assume "c \<in> set (CandidatesForRole rp role)"
    then show "candidate_Validate c = None"
      using tiers_valid [OF def, of role c] spec chain [OF role] role cat by metis
  qed
  show ?thesis unfolding Inr res sum.case prod.case
    using spec by (intro conjI ballI impI) (simp_all add: chain [THEN conjunct1] valid local_tier_nonempty del: set_append)
qed

definition wit_input :: routing_input where
  "wit_input = \<lparr>ri_Policy = \<lparr>rp_Fast = EscalationLocalOnly, rp_Default = EscalationLocalCloud,
       rp_Planner = EscalationLocalCloudOpenRouter, rp_Review = EscalationLocalOpenRouter\<rparr>,
     ri_LocalDefaultModel = ''llama'', ri_LocalFastModel = ''tiny'', ri_LocalPlannerModel = [],
     ri_LocalReviewModel = [], ri_CloudEnabled = True, ri_CloudModel = [], ri_OpenRouterEnabled = True,
     ri_OpenRouterModel = ''gpt'', ri_CatalogLocalCandidates = Map.empty\<rparr>"

theorem resolve_profiles_follow_policy_witness:
  "\<exists>rp ds. ResolveProfiles wit_input = Inr (rp, ds) \<and>
     CandidatesForRole rp RoleFast = [plain_candidate ''tiny'' ''ollama''] \<and>
     CandidatesForRole rp RolePlanner = [plain_candidate ''llama'' ''ollama'',
       plain_candidate ''llama'' ''ollama-cloud'', plain_candidate ''gpt'' ''openrouter'']"
proof -
  have "\<not> openrouter_unconfigured wit_input role" "ri_LocalDefaultModel wit_input \<noteq> []" for role
    by (simp_all add: openrouter_unconfigured_def wit_input_def)
  then obtain rp ds where r: "ResolveProfiles wit_input = Inr (rp, ds)"
    using resolve_profiles_follow_policy [of wit_input]
    by (cases "ResolveProfiles wit_input") (auto split: prod.splits)
  then have "\<forall>role \<in> set ValidModelRoles. CandidatesForRole rp role =
      local_tier wit_input role @ cloud_tier wit_input role @ openrouter_tier wit_input role"
    using resolve_profiles_follow_policy [of wit_input] by simp
  moreover have "RoleFast \<in> set ValidModelRoles" "RolePlanner \<in> set ValidModelRoles"
    by (simp_all add: ValidModelRoles_def)
  ultimately show ?thesis
    using r by (auto simp: local_tier_def cloud_tier_def openrouter_tier_def wit_input_def policyForRole_def
        localModelForRole_def Let_def allowsCloud_def allowsOpenRouter_def RoleFast_def RolePlanner_def RoleReview_def)
qed

end
