(* ===== verification/Execution.thy ===== *)
theory Execution
  imports Routing
begin

text \<open>
  The execution engine for candidate chains, \<open>src/internal/providers/execution\<close>: failure
  classification (\<open>failure.go\<close>), output validation (\<open>validation.go\<close>), outcomes
  (\<open>outcome.go\<close>), traces (\<open>trace.go\<close>), the engine (\<open>engine.go\<close>) and the
  provider that wraps it (\<open>provider.go\<close>).

  The engine calls a provider once per attempt and records every attempt, so the number of the
  next provider call is the number of attempts recorded. The loop over the retries of one candidate
  is recursion on the retries that are left, the loop over the candidates recursion on the list.
\<close>

section \<open>Failures\<close>

definition ValidFailureClasses :: "failure_class list" where
  "ValidFailureClasses =
     [FailureTimeout, FailureRateLimit, FailureServerError, FailureConnectionRefused,
      FailureInvalidResponse, FailureValidation, FailureContextOverflow, FailureUnknown]"

fun DefaultFallbackAction :: "failure_class \<Rightarrow> fallback_action" where
  "DefaultFallbackAction FailureTimeout = ActionNextCandidate"
| "DefaultFallbackAction FailureRateLimit = ActionRetry"
| "DefaultFallbackAction FailureServerError = ActionNextCandidate"
| "DefaultFallbackAction FailureConnectionRefused = ActionRetry"
| "DefaultFallbackAction FailureInvalidResponse = ActionNextCandidate"
| "DefaultFallbackAction FailureValidation = ActionNextCandidate"
| "DefaultFallbackAction FailureContextOverflow = ActionNextCandidate"
| "DefaultFallbackAction FailureUnknown = ActionNextCandidate"

text \<open>The first \<open>net.Error\<close> of the chain, as its \<open>Timeout()\<close>.\<close>

fun isNetError :: "go_error \<Rightarrow> bool option" where
  "isNetError DeadlineExceeded = Some True"
| "isNetError (NetErr t m) = Some t"
| "isNetError (NetWrapErr t m e) = Some t"
| "isNetError (WrapErr m e) = isNetError e"
| "isNetError _ = None"

fun asValidationError :: "go_error \<Rightarrow> bool" where
  "asValidationError (ValidationErr r) = True"
| "asValidationError (NetWrapErr t m e) = asValidationError e"
| "asValidationError (WrapErr m e) = asValidationError e"
| "asValidationError _ = False"

definition contains_any :: "string \<Rightarrow> string list \<Rightarrow> bool" where
  "contains_any msg pats \<longleftrightarrow> list_ex (contains msg) pats"

definition ClassifyError :: "go_error option \<Rightarrow> failure_class" where
  "ClassifyError err =
     (case err of
        None \<Rightarrow> FailureUnknown
      | Some e \<Rightarrow>
          if asValidationError e then FailureValidation
          else
            (let msg = err_text e in
             if e = DeadlineExceeded \<or> contains msg ''context deadline exceeded'' then FailureTimeout
             else if e = Canceled \<or> contains msg ''context canceled'' then FailureTimeout
             else
               (case isNetError e of
                  Some timeout \<Rightarrow> if timeout then FailureTimeout else FailureConnectionRefused
                | None \<Rightarrow>
                    if contains_any msg [''connection refused'', ''no such host'']
                    then FailureConnectionRefused
                    else if contains_any msg [''429'', ''rate limit'', ''too many requests'']
                    then FailureRateLimit
                    else if contains_any msg [''context length'', ''context window'', ''too long'']
                    then FailureContextOverflow
                    else if contains_any msg [''decode response'', ''unmarshal'', ''invalid response'']
                    then FailureInvalidResponse
                    else if contains_any msg [''500'', ''502'', ''503'', ''unexpected status 5'', ''404''] \<or>
                      (contains msg ''model'' \<and> contains msg ''not found'')
                    then FailureServerError
                    else FailureUnknown)))"

section \<open>Validation\<close>

record validator =
  vd_Name :: string
  vd_Validate :: "string \<Rightarrow> string option"   \<comment> \<open>the text of the error, if any\<close>

record validation_policy =
  vp_Validators :: "validator list"
  vp_FailAction :: fallback_action

definition DefaultValidationPolicy :: validation_policy where
  "DefaultValidationPolicy = \<lparr>vp_Validators = [], vp_FailAction = ActionNextCandidate\<rparr>"

fun run_validators :: "validator list \<Rightarrow> string \<Rightarrow> go_error option" where
  "run_validators [] content = None"
| "run_validators (v # vs) content =
     (case vd_Validate v content of
        Some e \<Rightarrow> Some (ValidationErr (''validator '' @ go_quote (vd_Name v) @ '': '' @ e))
      | None \<Rightarrow> run_validators vs content)"

definition policy_Run :: "validation_policy \<Rightarrow> string \<Rightarrow> go_error option" where
  "policy_Run p content = run_validators (vp_Validators p) content"

definition JSONValidator :: validator where
  "JSONValidator = \<lparr>vd_Name = ''json'',
     vd_Validate = (\<lambda>content. if \<not> json_valid (TrimSpace content)
       then Some ''response is not valid JSON'' else None)\<rparr>"

definition NonEmptyValidator :: validator where
  "NonEmptyValidator = \<lparr>vd_Name = ''non_empty'',
     vd_Validate = (\<lambda>content. if TrimSpace content = [] then Some ''response is empty'' else None)\<rparr>"

definition MinLengthValidator :: "int \<Rightarrow> validator" where
  "MinLengthValidator mn = \<lparr>vd_Name = ''min_length'',
     vd_Validate = (\<lambda>content.
       let n = int (length (TrimSpace content)) in
       if n < mn then Some (''response length '' @ int_str n @ '' is below minimum '' @ int_str mn)
       else None)\<rparr>"

section \<open>Outcomes and traces\<close>

definition outcome_IsTerminal :: "execution_outcome \<Rightarrow> bool" where
  "outcome_IsTerminal o' \<longleftrightarrow>
     o' \<in> {OutcomeSuccess, OutcomeFallback, OutcomeExhausted, OutcomeAborted}"

definition outcome_IsSuccess :: "execution_outcome \<Rightarrow> bool" where
  "outcome_IsSuccess o' \<longleftrightarrow> o' = OutcomeSuccess \<or> o' = OutcomeFallback"

definition NewExecutionTrace :: "string \<Rightarrow> string \<Rightarrow> time \<Rightarrow> execution_trace" where
  "NewExecutionTrace traceID role now =
     \<lparr>tr_TraceID = traceID, tr_Role = role, tr_Outcome = OutcomeUnset, tr_Attempts = [],
      tr_WinnerIndex = -1, tr_TotalDurationMS = 0, tr_StartedAt = now, tr_FinishedAt = None,
      tr_TotalTokensPrompt = 0, tr_TotalTokensCompletion = 0, tr_TotalTokensTotal = 0\<rparr>"

definition RecordAttempt :: "candidate_attempt \<Rightarrow> execution_trace \<Rightarrow> execution_trace" where
  "RecordAttempt a t =
     t\<lparr>tr_Attempts := tr_Attempts t @ [a],
       tr_TotalTokensPrompt := tr_TotalTokensPrompt t + ca_TokensPrompt a,
       tr_TotalTokensCompletion := tr_TotalTokensCompletion t + ca_TokensCompletion a,
       tr_TotalTokensTotal := tr_TotalTokensTotal t + ca_TokensTotal a\<rparr>"

definition Finalize :: "execution_outcome \<Rightarrow> int \<Rightarrow> time \<Rightarrow> execution_trace \<Rightarrow> execution_trace" where
  "Finalize outcome winnerIndex now t =
     t\<lparr>tr_Outcome := outcome, tr_WinnerIndex := winnerIndex, tr_FinishedAt := Some now,
       tr_TotalDurationMS := milliseconds (now - tr_StartedAt t)\<rparr>"

definition NewCandidateAttempt :: "nat \<Rightarrow> model_candidate \<Rightarrow> time \<Rightarrow> candidate_attempt" where
  "NewCandidateAttempt index c startedAt =
     \<lparr>ca_CandidateIndex = index, ca_ModelName = mc_ModelName c, ca_ProviderName = mc_ProviderName c,
      ca_ThinkMode = think_String (mc_ThinkMode c), ca_StartedAt = startedAt, ca_FinishedAt = None,
      ca_DurationMS = 0, ca_Outcome = [], ca_FailureClass = None, ca_FallbackAction = ActionUnset,
      ca_ErrorMessage = [], ca_TokensPrompt = 0, ca_TokensCompletion = 0, ca_TokensTotal = 0\<rparr>"

definition attempt_Complete :: "string \<Rightarrow> time \<Rightarrow> candidate_attempt \<Rightarrow> candidate_attempt" where
  "attempt_Complete outcome finishedAt a =
     a\<lparr>ca_FinishedAt := Some finishedAt, ca_DurationMS := milliseconds (finishedAt - ca_StartedAt a),
       ca_Outcome := outcome\<rparr>"

definition attempt_CompleteWithError ::
  "go_error \<Rightarrow> failure_class \<Rightarrow> fallback_action \<Rightarrow> time \<Rightarrow> candidate_attempt \<Rightarrow> candidate_attempt"
where
  "attempt_CompleteWithError err fc action finishedAt a =
     a\<lparr>ca_FinishedAt := Some finishedAt, ca_DurationMS := milliseconds (finishedAt - ca_StartedAt a),
       ca_Outcome := ''failed'', ca_FailureClass := Some fc, ca_FallbackAction := action,
       ca_ErrorMessage := err_text err\<rparr>"

definition attempt_tokens :: "generate_response \<Rightarrow> candidate_attempt \<Rightarrow> candidate_attempt" where
  "attempt_tokens resp a =
     a\<lparr>ca_TokensPrompt := rs_TokensPrompt resp, ca_TokensCompletion := rs_TokensCompletion resp,
       ca_TokensTotal := rs_TokensTotal resp\<rparr>"

section \<open>The engine\<close>

record execution_engine =
  en_primary :: provider
  en_registry :: "provider_registry option"
  en_maxRetries :: nat

definition defaultMaxRetries :: nat where "defaultMaxRetries = 1"

definition NewExecutionEngine :: "provider \<Rightarrow> execution_engine" where
  "NewExecutionEngine primary =
     \<lparr>en_primary = primary, en_registry = None, en_maxRetries = defaultMaxRetries\<rparr>"

definition WithRegistry :: "provider_registry \<Rightarrow> execution_engine \<Rightarrow> execution_engine" where
  "WithRegistry reg e = e\<lparr>en_registry := Some reg\<rparr>"

definition SetMaxRetries :: "int \<Rightarrow> execution_engine \<Rightarrow> execution_engine" where
  "SetMaxRetries n e = e\<lparr>en_maxRetries := (if n < 0 then 0 else nat n)\<rparr>"

definition resolveProvider :: "execution_engine \<Rightarrow> string \<Rightarrow> provider" where
  "resolveProvider e name =
     (case en_registry e of
        None \<Rightarrow> en_primary e
      | Some reg \<Rightarrow>
          if name = [] then en_primary e
          else (case registry_Get reg name of Inr p \<Rightarrow> p | Inl err \<Rightarrow> en_primary e))"

text \<open>The clock of one execution: the instants around each provider call, and the end.\<close>

record exec_env =
  xe_traceID :: string
  xe_begin :: time
  xe_started :: "nat \<Rightarrow> time"
  xe_finished :: "nat \<Rightarrow> time"
  xe_end :: time

definition candidate_request :: "generate_request \<Rightarrow> model_candidate \<Rightarrow> generate_request" where
  "candidate_request req c =
     req\<lparr>rq_Model := mc_ModelName c, rq_ThinkMode := mc_ThinkMode c,
         rq_Timeout := (if mc_Timeout c > 0 then mc_Timeout c else rq_Timeout req),
         rq_JSONMode := (mc_JSONMode c \<or> rq_JSONMode req)\<rparr>"

definition tryCandidate ::
  "execution_engine \<Rightarrow> exec_env \<Rightarrow> generate_request \<Rightarrow> model_candidate \<Rightarrow> nat \<Rightarrow> validation_policy \<Rightarrow>
     execution_trace \<Rightarrow> (go_error + generate_response) \<times> execution_trace"
where
  "tryCandidate e env req c index validation trace =
     (let n = length (tr_Attempts trace);
          attempt = NewCandidateAttempt index c (xe_started env n);
          (resp, err) = pv_Generate (resolveProvider e (mc_ProviderName c)) n (candidate_request req c);
          finishedAt = xe_finished env n
      in case err of
           Some er \<Rightarrow>
             (let fc = ClassifyError (Some er);
                  a = attempt_CompleteWithError er fc (DefaultFallbackAction fc) finishedAt attempt
              in (Inl er, RecordAttempt a trace))
         | None \<Rightarrow>
             (case policy_Run validation (rs_Content resp) of
                Some valErr \<Rightarrow>
                  (let a = attempt_tokens resp
                         (attempt_CompleteWithError valErr FailureValidation (vp_FailAction validation)
                           finishedAt attempt)
                   in (Inl valErr, RecordAttempt a trace))
              | None \<Rightarrow>
                  (Inr resp,
                   RecordAttempt (attempt_tokens resp (attempt_Complete ''success'' finishedAt attempt)) trace)))"

definition fallback_for :: "validation_policy \<Rightarrow> go_error \<Rightarrow> fallback_action" where
  "fallback_for validation err =
     (let fc = ClassifyError (Some err) in
      if fc = FailureValidation then vp_FailAction validation else DefaultFallbackAction fc)"

text \<open>What the attempts at one candidate end with; \<open>left\<close> counts the retries still allowed.\<close>

datatype candidate_result = Won generate_response | Aborted go_error | Lost go_error

fun try_loop ::
  "execution_engine \<Rightarrow> exec_env \<Rightarrow> generate_request \<Rightarrow> model_candidate \<Rightarrow> nat \<Rightarrow> validation_policy \<Rightarrow>
     nat \<Rightarrow> execution_trace \<Rightarrow> candidate_result \<times> execution_trace"
where
  "try_loop e env req c index validation left trace =
     (case tryCandidate e env req c index validation trace of
        (Inr resp, trace') \<Rightarrow> (Won resp, trace')
      | (Inl err, trace') \<Rightarrow>
          (let action = fallback_for validation err in
           if action = ActionAbort then (Aborted err, trace')
           else if action = ActionRetry
           then (case left of
                   0 \<Rightarrow> (Lost err, trace')
                 | Suc left' \<Rightarrow> try_loop e env req c index validation left' trace')
           else (Lost err, trace')))"

declare try_loop.simps [simp del]

record execute_result =
  ex_Response :: generate_response
  ex_Trace :: "execution_trace option"
  ex_Outcome :: execution_outcome

definition failed_result :: "execution_outcome \<Rightarrow> execution_trace \<Rightarrow> execute_result" where
  "failed_result outcome trace =
     \<lparr>ex_Response = empty_response, ex_Trace = Some trace, ex_Outcome = outcome\<rparr>"

fun execute_loop ::
  "execution_engine \<Rightarrow> exec_env \<Rightarrow> generate_request \<Rightarrow> validation_policy \<Rightarrow> nat \<Rightarrow>
     model_candidate list \<Rightarrow> nat \<Rightarrow> go_error option \<Rightarrow> execution_trace \<Rightarrow> execute_result \<times> go_error option"
where
  "execute_loop e env req validation n_all [] i lastErr trace =
     (failed_result OutcomeExhausted (Finalize OutcomeExhausted (-1) (xe_end env) trace),
      Some (case lastErr of
              None \<Rightarrow> PlainErr (''execution exhausted all '' @ nat_str n_all @ '' candidates: last error: %!w(<nil>)'')
            | Some err \<Rightarrow> wrapf (''execution exhausted all '' @ nat_str n_all @ '' candidates: last error'') err))"
| "execute_loop e env req validation n_all (c # cs) i lastErr trace =
     (case try_loop e env req c i validation (en_maxRetries e) trace of
        (Won resp, trace') \<Rightarrow>
          (let outcome = (if i > 0 then OutcomeFallback else OutcomeSuccess) in
           (\<lparr>ex_Response = resp, ex_Trace = Some (Finalize outcome (int i) (xe_end env) trace'),
             ex_Outcome = outcome\<rparr>, None))
      | (Aborted err, trace') \<Rightarrow>
          (failed_result OutcomeAborted (Finalize OutcomeAborted (-1) (xe_end env) trace'),
           Some (wrapf (''execution aborted at candidate '' @ nat_str i @ '' ('' @ mc_ModelName c @ '')'') err))
      | (Lost err, trace') \<Rightarrow> execute_loop e env req validation n_all cs (Suc i) (Some err) trace')"

definition Execute ::
  "execution_engine \<Rightarrow> exec_env \<Rightarrow> generate_request \<Rightarrow> model_candidate list \<Rightarrow> validation_policy \<Rightarrow>
     execute_result \<times> go_error option"
where
  "Execute e env req candidates validation =
     (if candidates = []
      then (\<lparr>ex_Response = empty_response, ex_Trace = None, ex_Outcome = OutcomeUnset\<rparr>,
            Some (PlainErr ''execution engine: no candidates provided''))
      else execute_loop e env req validation (length candidates) candidates 0 None
             (NewExecutionTrace (xe_traceID env) (rq_ModelRole req) (xe_begin env)))"

section \<open>The executing provider\<close>

record executing_provider =
  ep_inner :: provider
  ep_profiles :: role_profiles
  ep_engine :: execution_engine
  ep_lastTrace :: "execution_trace option"

definition is_passthrough :: "generate_request \<Rightarrow> model_candidate list \<Rightarrow> bool" where
  "is_passthrough req candidates \<longleftrightarrow>
     (case candidates of
        [c] \<Rightarrow> mc_ThinkMode c = ThinkDefault \<and> \<not> mc_JSONMode c \<and> \<not> rq_JSONMode req \<and> mc_Timeout c = 0
      | _ \<Rightarrow> False)"

definition chain_validation :: "generate_request \<Rightarrow> model_candidate list \<Rightarrow> validation_policy" where
  "chain_validation req candidates =
     (if mc_JSONMode (hd candidates) \<or> rq_JSONMode req
      then \<lparr>vp_Validators = [JSONValidator], vp_FailAction = ActionNextCandidate\<rparr>
      else \<lparr>vp_Validators = [], vp_FailAction = ActionUnset\<rparr>)"

definition EP_Generate ::
  "exec_env \<Rightarrow> (execution_trace \<Rightarrow> bool) \<Rightarrow> nat \<Rightarrow> generate_request \<Rightarrow> executing_provider \<Rightarrow>
     generate_result \<times> executing_provider"
where
  "EP_Generate env json_ok n req p =
     (let candidates = CandidatesForRole (ep_profiles p) (rq_ModelRole req) in
      if candidates = []
      then ((empty_response, Some (PlainErr (''no candidates for role '' @ go_quote (rq_ModelRole req)))), p)
      else if is_passthrough req candidates
      then (pv_Generate (ep_inner p) n req, p)
      else
        (let (result, err) = Execute (ep_engine p) env req candidates (chain_validation req candidates);
             p' = p\<lparr>ep_lastTrace := ex_Trace result\<rparr>;
             traceJSON = (case ex_Trace result of None \<Rightarrow> None
                          | Some t \<Rightarrow> if json_ok t then Some t else None)
         in if err \<noteq> None
            then ((empty_response
                     \<lparr>rs_ErrorClass := (case ex_Trace result of None \<Rightarrow> None
                        | Some t \<Rightarrow> if tr_Attempts t = [] then None else ca_FailureClass (last (tr_Attempts t))),
                      rs_ExecutionTrace := traceJSON\<rparr>, err), p')
            else (((ex_Response result)
                     \<lparr>rs_ExecutionTrace := (case traceJSON of None \<Rightarrow> rs_ExecutionTrace (ex_Response result)
                        | Some t \<Rightarrow> Some t)\<rparr>, None), p')))"

definition LastTrace :: "executing_provider \<Rightarrow> execution_trace option" where
  "LastTrace p = ep_lastTrace p"

section \<open>Walking the chain\<close>

text \<open>
  The attempts at one candidate: how many, whose, and which of them failed; and the reply that
  made a candidate win.
\<close>

definition attempts_at :: "nat \<Rightarrow> nat \<Rightarrow> model_candidate \<Rightarrow> candidate_attempt list \<Rightarrow> bool" where
  "attempts_at limit index c as \<longleftrightarrow>
     as \<noteq> [] \<and> length as \<le> limit \<and>
     (\<forall>a \<in> set as. ca_CandidateIndex a = index \<and> ca_ModelName a = mc_ModelName c)"

definition all_failed :: "candidate_attempt list \<Rightarrow> bool" where
  "all_failed as \<longleftrightarrow> (\<forall>a \<in> set as. ca_Outcome a = ''failed'')"

definition only_last_succeeded :: "candidate_attempt list \<Rightarrow> bool" where
  "only_last_succeeded as \<longleftrightarrow> as \<noteq> [] \<and> all_failed (butlast as) \<and> ca_Outcome (last as) = ''success''"

definition valid_reply ::
  "execution_engine \<Rightarrow> generate_request \<Rightarrow> validation_policy \<Rightarrow> model_candidate \<Rightarrow> nat \<Rightarrow> generate_response \<Rightarrow> bool"
where
  "valid_reply e req validation c n resp \<longleftrightarrow>
     pv_Generate (resolveProvider e (mc_ProviderName c)) n (candidate_request req c) = (resp, None) \<and>
     policy_Run validation (rs_Content resp) = None"

lemma all_failed_simps [simp]:
  "all_failed []" "all_failed (a # as) \<longleftrightarrow> ca_Outcome a = ''failed'' \<and> all_failed as"
  "all_failed (as @ bs) \<longleftrightarrow> all_failed as \<and> all_failed bs"
  by (auto simp: all_failed_def)

lemma only_last_append:
  "all_failed as \<Longrightarrow> only_last_succeeded bs \<Longrightarrow> only_last_succeeded (as @ bs)"
  by (auto simp: only_last_succeeded_def butlast_append)

lemma attempts_RecordAttempt [simp]: "tr_Attempts (RecordAttempt a t) = tr_Attempts t @ [a]"
  by (simp add: RecordAttempt_def)

lemma attempts_Finalize [simp]: "tr_Attempts (Finalize o' w now t) = tr_Attempts t"
  by (simp add: Finalize_def)

lemma tryCandidate_shape:
  assumes "tryCandidate e env req c i v tr = (r, tr')"
  shows "\<exists>a. tr' = RecordAttempt a tr \<and> ca_CandidateIndex a = i \<and> ca_ModelName a = mc_ModelName c \<and>
    (case r of Inl err \<Rightarrow> ca_Outcome a = ''failed''
     | Inr resp \<Rightarrow> ca_Outcome a = ''success'' \<and> valid_reply e req v c (length (tr_Attempts tr)) resp)"
  using assms
  by (auto simp: tryCandidate_def Let_def valid_reply_def NewCandidateAttempt_def attempt_CompleteWithError_def
      attempt_Complete_def attempt_tokens_def split: prod.splits option.splits)

lemma try_loop_shape:
  assumes "try_loop e env req c i v left tr = (r, tr')"
  shows "\<exists>as. tr_Attempts tr' = tr_Attempts tr @ as \<and> attempts_at (Suc left) i c as \<and>
    (case r of Won resp \<Rightarrow> only_last_succeeded as \<and>
         valid_reply e req v c (length (tr_Attempts tr') - 1) resp
     | _ \<Rightarrow> all_failed as)"
  using assms
proof (induction left arbitrary: tr)
  case 0
  then show ?case
    using tryCandidate_shape [of e env req c i v tr]
    by (fastforce simp: try_loop.simps [of _ _ _ _ _ _ 0] Let_def attempts_at_def only_last_succeeded_def
        split: prod.splits sum.splits if_splits)
next
  case (Suc left)
  obtain r1 tr1 where 1: "tryCandidate e env req c i v tr = (r1, tr1)" by fastforce
  obtain a where a: "tr_Attempts tr1 = tr_Attempts tr @ [a]" "ca_CandidateIndex a = i"
      "ca_ModelName a = mc_ModelName c"
      "case r1 of Inl err \<Rightarrow> ca_Outcome a = ''failed''
       | Inr resp \<Rightarrow> ca_Outcome a = ''success'' \<and> valid_reply e req v c (length (tr_Attempts tr)) resp"
    using tryCandidate_shape [OF 1] by auto
  show ?case
  proof (cases "\<exists>err. r1 = Inl err \<and> fallback_for v err = ActionRetry")
    case True
    then obtain err where err: "r1 = Inl err" "fallback_for v err = ActionRetry" by blast
    then have "try_loop e env req c i v left tr1 = (r, tr')"
      using Suc.prems 1 by (simp add: try_loop.simps [of _ _ _ _ _ _ "Suc left"])
    from Suc.IH [OF this] obtain as where "tr_Attempts tr' = tr_Attempts tr1 @ as"
      "attempts_at (Suc left) i c as"
      "case r of Won resp \<Rightarrow> only_last_succeeded as \<and> valid_reply e req v c (length (tr_Attempts tr') - 1) resp
       | _ \<Rightarrow> all_failed as" by blast
    then show ?thesis using a err only_last_append [of "[a]" as]
      by (intro exI [of _ "a # as"]) (auto simp: attempts_at_def split: candidate_result.splits)
  next
    case False
    then show ?thesis
      using Suc.prems 1 a
      by (intro exI [of _ "[a]"])
        (auto simp: try_loop.simps [of _ _ _ _ _ _ "Suc left"] Let_def attempts_at_def only_last_succeeded_def
          split: sum.splits if_splits)
  qed
qed

definition chain_blocks :: "nat \<Rightarrow> nat \<Rightarrow> model_candidate list \<Rightarrow> candidate_attempt list list \<Rightarrow> bool" where
  "chain_blocks limit i cs blocks \<longleftrightarrow>
     length blocks \<le> length cs \<and> (\<forall>k < length blocks. attempts_at limit (i + k) (cs ! k) (blocks ! k))"

lemma chain_blocks_Nil [simp]: "chain_blocks limit i cs []"
  by (simp add: chain_blocks_def)

lemma chain_blocks_Cons [simp]:
  "chain_blocks limit i (c # cs) (b # bs) \<longleftrightarrow> attempts_at limit i c b \<and> chain_blocks limit (Suc i) cs bs"
  by (auto simp: chain_blocks_def less_Suc_eq_0_disj)

definition chain_result ::
  "execution_engine \<Rightarrow> generate_request \<Rightarrow> validation_policy \<Rightarrow> nat \<Rightarrow> model_candidate list \<Rightarrow>
     candidate_attempt list list \<Rightarrow> execute_result \<times> go_error option \<Rightarrow> bool"
where
  "chain_result e req v i cs blocks r \<longleftrightarrow>
     (\<exists>t. ex_Trace (fst r) = Some t \<and> tr_Outcome t = ex_Outcome (fst r) \<and>
       (if snd r = None
        then blocks \<noteq> [] \<and> only_last_succeeded (concat blocks) \<and>
          tr_WinnerIndex t = int (i + length blocks - 1) \<and>
          ex_Outcome (fst r) = (if i + length blocks = 1 then OutcomeSuccess else OutcomeFallback) \<and>
          valid_reply e req v (cs ! (length blocks - 1)) (length (tr_Attempts t) - 1) (ex_Response (fst r))
        else all_failed (concat blocks) \<and> tr_WinnerIndex t = -1 \<and> ex_Response (fst r) = empty_response \<and>
          (ex_Outcome (fst r) = OutcomeExhausted \<and> length blocks = length cs \<or>
           ex_Outcome (fst r) = OutcomeAborted \<and> blocks \<noteq> [])))"

lemma chain_result_next:
  assumes "all_failed b" and "chain_result e req v (Suc i) cs blocks r"
  shows "chain_result e req v i (c # cs) (b # blocks) r"
  using assms only_last_append [OF assms(1), of "concat blocks"]
  by (auto simp: chain_result_def nth_Cons' split: if_splits)

lemma execute_loop_spec:
  "\<exists>blocks t. chain_blocks (Suc (en_maxRetries e)) i cs blocks \<and>
     ex_Trace (fst (execute_loop e env req v n_all cs i lastErr tr)) = Some t \<and>
     tr_Attempts t = tr_Attempts tr @ concat blocks \<and>
     chain_result e req v i cs blocks (execute_loop e env req v n_all cs i lastErr tr)"
proof (induction cs arbitrary: i lastErr tr)
  case Nil
  show ?case
    by (rule exI [of _ "[]"]) (simp add: chain_result_def failed_result_def Finalize_def)
next
  case (Cons c cs)
  obtain r tr1 where 1: "try_loop e env req c i v (en_maxRetries e) tr = (r, tr1)" by fastforce
  obtain as where as: "tr_Attempts tr1 = tr_Attempts tr @ as" "attempts_at (Suc (en_maxRetries e)) i c as"
      "case r of Won resp \<Rightarrow> only_last_succeeded as \<and> valid_reply e req v c (length (tr_Attempts tr1) - 1) resp
       | _ \<Rightarrow> all_failed as"
    using try_loop_shape [OF 1] by blast
  show ?case
  proof (cases r)
    case (Lost err)
    from Cons.IH [of "Suc i" "Some err" tr1] obtain blocks t where
      "chain_blocks (Suc (en_maxRetries e)) (Suc i) cs blocks"
      "ex_Trace (fst (execute_loop e env req v n_all cs (Suc i) (Some err) tr1)) = Some t"
      "tr_Attempts t = tr_Attempts tr1 @ concat blocks"
      "chain_result e req v (Suc i) cs blocks (execute_loop e env req v n_all cs (Suc i) (Some err) tr1)" by blast
    then show ?thesis using 1 as Lost chain_result_next
      by (intro exI [of _ "as # blocks"] exI [of _ t]) simp
  next
    case (Won resp)
    then show ?thesis using 1 as
      by (intro exI [of _ "[as]"]) (simp add: Let_def chain_result_def Finalize_def)
  next
    case (Aborted err)
    then show ?thesis using 1 as
      by (intro exI [of _ "[as]"]) (simp add: chain_result_def failed_result_def Finalize_def)
  qed
qed

text \<open>
  C9: The engine walks the chain in order. The attempts recorded in the trace are, for some prefix
  of the candidates, a non-empty group of attempts at each of them in turn, each group with at most
  one attempt more than the retry limit; so no candidate is skipped, none is returned to later, and
  the number of provider calls is bounded by the length of the chain times that limit.
\<close>

theorem execute_walks_chain_in_order:
  assumes "candidates \<noteq> []"
  shows "\<exists>blocks t. ex_Trace (fst (Execute e env req candidates v)) = Some t \<and>
    tr_Attempts t = concat blocks \<and> chain_blocks (Suc (en_maxRetries e)) 0 candidates blocks \<and>
    length (tr_Attempts t) \<le> length candidates * Suc (en_maxRetries e)"
proof -
  let ?tr = "NewExecutionTrace (xe_traceID env) (rq_ModelRole req) (xe_begin env)"
  obtain blocks t where b: "chain_blocks (Suc (en_maxRetries e)) 0 candidates blocks"
    "ex_Trace (fst (Execute e env req candidates v)) = Some t" "tr_Attempts t = tr_Attempts ?tr @ concat blocks"
    using execute_loop_spec [of e 0 candidates env req v "length candidates" None ?tr] assms
    by (auto simp: Execute_def)
  have "sum_list (map length blocks) \<le> length blocks * Suc (en_maxRetries e)"
    if "\<forall>b \<in> set blocks. length b \<le> Suc (en_maxRetries e)" for blocks :: "candidate_attempt list list"
    using that by (induction blocks) auto
  moreover have "\<forall>b \<in> set blocks. length b \<le> Suc (en_maxRetries e)"
    using b(1) by (auto simp: chain_blocks_def attempts_at_def in_set_conv_nth)
  moreover have "length blocks * Suc (en_maxRetries e) \<le> length candidates * Suc (en_maxRetries e)"
    using b(1) by (intro mult_le_mono1) (simp add: chain_blocks_def)
  ultimately have "length (concat blocks) \<le> length candidates * Suc (en_maxRetries e)"
    unfolding length_concat by (meson order_trans)
  then show ?thesis
    using b by (intro exI [of _ blocks] exI [of _ t]) (simp add: NewExecutionTrace_def)
qed

text \<open>
  C10: The result of an execution is the truth about its trace. Without an error, exactly the last
  attempt succeeded, the response is the reply of the winner's provider to the winner's request and
  passed validation, the winner is the last candidate tried, and the outcome is a success if it is
  the first candidate and a fallback otherwise. With an error, every attempt failed, there is no
  winner, and the outcome is exhausted only if every candidate was tried, aborted otherwise.
\<close>

theorem execute_result_correct:
  assumes "candidates \<noteq> []" and "Execute e env req candidates v = (res, err)"
  shows "\<exists>t tried. ex_Trace res = Some t \<and> tr_Outcome t = ex_Outcome res \<and> tried \<le> length candidates \<and>
    (if err = None
     then 0 < tried \<and> only_last_succeeded (tr_Attempts t) \<and>
       ca_CandidateIndex (last (tr_Attempts t)) = tried - 1 \<and> tr_WinnerIndex t = int (tried - 1) \<and>
       ex_Outcome res = (if tried = 1 then OutcomeSuccess else OutcomeFallback) \<and>
       valid_reply e req v (candidates ! (tried - 1)) (length (tr_Attempts t) - 1) (ex_Response res)
     else all_failed (tr_Attempts t) \<and> tr_WinnerIndex t = -1 \<and>
       (ex_Outcome res = OutcomeExhausted \<and> tried = length candidates \<or> ex_Outcome res = OutcomeAborted) \<and>
       (\<forall>k < tried. \<exists>a \<in> set (tr_Attempts t). ca_CandidateIndex a = k))"
proof -
  let ?tr = "NewExecutionTrace (xe_traceID env) (rq_ModelRole req) (xe_begin env)"
  obtain blocks t where b: "chain_blocks (Suc (en_maxRetries e)) 0 candidates blocks"
    "ex_Trace res = Some t" "tr_Attempts t = concat blocks" "chain_result e req v 0 candidates blocks (res, err)"
    using execute_loop_spec [of e 0 candidates env req v "length candidates" None ?tr] assms
    by (auto simp: Execute_def NewExecutionTrace_def)
  have block: "blocks ! k \<noteq> [] \<and> (\<forall>a \<in> set (blocks ! k). ca_CandidateIndex a = k)" if "k < length blocks" for k
    using b(1) that by (auto simp: chain_blocks_def attempts_at_def)
  have each: "\<exists>a \<in> set (tr_Attempts t). ca_CandidateIndex a = k" if k: "k < length blocks" for k
  proof (intro bexI [of _ "hd (blocks ! k)"])
    show "ca_CandidateIndex (hd (blocks ! k)) = k" using block [OF k] by simp
    show "hd (blocks ! k) \<in> set (tr_Attempts t)"
      using block [OF k] k unfolding b(3) set_concat by (metis UN_I hd_in_set nth_mem)
  qed
  have "ca_CandidateIndex (last (tr_Attempts t)) = length blocks - 1" if ne: "blocks \<noteq> []"
  proof -
    have l: "last blocks = blocks ! (length blocks - 1)" using ne by (rule last_conv_nth)
    have "last blocks \<noteq> []" using block [of "length blocks - 1"] ne by (simp add: l)
    then have "last (concat blocks) = last (last blocks)"
      using ne by (metis append_butlast_last_id concat.simps concat_append append_Nil2 last_appendR)
    then show ?thesis
      using block [of "length blocks - 1"] ne l \<open>last blocks \<noteq> []\<close> unfolding b(3)
      by (metis diff_less last_in_set length_greater_0_conv zero_less_one)
  qed
  then show ?thesis
    using b each by (intro exI [of _ t] exI [of _ "length blocks"])
      (auto simp: chain_result_def chain_blocks_def split: if_splits)
qed

section \<open>Token accounting\<close>

definition totals_ok :: "execution_trace \<Rightarrow> bool" where
  "totals_ok t \<longleftrightarrow>
     tr_TotalTokensPrompt t = sum_list (map ca_TokensPrompt (tr_Attempts t)) \<and>
     tr_TotalTokensCompletion t = sum_list (map ca_TokensCompletion (tr_Attempts t)) \<and>
     tr_TotalTokensTotal t = sum_list (map ca_TokensTotal (tr_Attempts t))"

lemma totals_ok_intros [inv_intros]:
  "totals_ok (NewExecutionTrace i role now)"
  "totals_ok t \<Longrightarrow> totals_ok (RecordAttempt a t)"
  "totals_ok t \<Longrightarrow> totals_ok (Finalize o' w now t)"
  by (simp_all add: totals_ok_def NewExecutionTrace_def RecordAttempt_def Finalize_def)

lemma totals_ok_try_loop [inv_intros]:
  "try_loop e env req c i v left tr = (r, tr') \<Longrightarrow> totals_ok tr \<Longrightarrow> totals_ok tr'"
proof (induction left arbitrary: tr)
  case 0
  then show ?case
    using tryCandidate_shape [of e env req c i v tr]
    by (fastforce simp: try_loop.simps [of _ _ _ _ _ _ 0] Let_def intro: totals_ok_intros
        split: prod.splits sum.splits if_splits)
next
  case (Suc left)
  obtain r1 tr1 where 1: "tryCandidate e env req c i v tr = (r1, tr1)" by fastforce
  then have "totals_ok tr1" using tryCandidate_shape [OF 1] Suc.prems(2) totals_ok_intros by blast
  then show ?case
    using Suc.prems Suc.IH [of tr1] 1
    by (auto simp: try_loop.simps [of _ _ _ _ _ _ "Suc left"] Let_def split: sum.splits if_splits)
qed

lemma totals_ok_execute_loop [inv_intros]:
  "totals_ok tr \<Longrightarrow> \<exists>t. ex_Trace (fst (execute_loop e env req v n_all cs i lastErr tr)) = Some t \<and> totals_ok t"
proof (induction cs arbitrary: i lastErr tr)
  case Nil
  then show ?case by (simp add: failed_result_def totals_ok_intros)
next
  case (Cons c cs)
  obtain r tr1 where 1: "try_loop e env req c i v (en_maxRetries e) tr = (r, tr1)" by fastforce
  have "totals_ok tr1" using totals_ok_try_loop [OF 1 Cons.prems] .
  then show ?case using 1 Cons.IH
    by (cases r) (auto simp: Let_def failed_result_def intro: totals_ok_intros)
qed

text \<open>
  Token accounting: the three totals of a trace are the sums over all its attempts, those that
  failed validation and those of every fallback included.
\<close>

theorem execute_counts_all_tokens:
  assumes "candidates \<noteq> []"
  shows "\<exists>t. ex_Trace (fst (Execute e env req candidates v)) = Some t \<and>
    tr_TotalTokensPrompt t = sum_list (map ca_TokensPrompt (tr_Attempts t)) \<and>
    tr_TotalTokensCompletion t = sum_list (map ca_TokensCompletion (tr_Attempts t)) \<and>
    tr_TotalTokensTotal t = sum_list (map ca_TokensTotal (tr_Attempts t))"
  using totals_ok_execute_loop [OF totals_ok_intros(1), of e env req v "length candidates" candidates 0 None] assms
  by (simp add: Execute_def totals_ok_def)

section \<open>The executing provider\<close>

lemma fallback_for_abort:
  "fallback_for v err = ActionAbort \<Longrightarrow> vp_FailAction v = ActionAbort"
  by (cases "ClassifyError (Some err)") (auto simp: fallback_for_def Let_def split: if_splits)

lemma try_loop_no_abort:
  assumes "vp_FailAction v \<noteq> ActionAbort"
  shows "fst (try_loop e env req c i v left tr) \<noteq> Aborted err"
proof (induction left arbitrary: tr)
  case 0
  then show ?case using fallback_for_abort assms
    by (auto simp: try_loop.simps [of _ _ _ _ _ _ 0] Let_def split: prod.splits sum.splits)
next
  case (Suc left)
  then show ?case using fallback_for_abort assms
    by (auto simp: try_loop.simps [of _ _ _ _ _ _ "Suc left"] Let_def split: prod.splits sum.splits)
qed

lemma execute_loop_no_abort:
  assumes "vp_FailAction v \<noteq> ActionAbort"
  shows "ex_Outcome (fst (execute_loop e env req v n_all cs i lastErr tr)) \<noteq> OutcomeAborted"
proof (induction cs arbitrary: i lastErr tr)
  case Nil
  then show ?case by (simp add: failed_result_def)
next
  case (Cons c cs)
  show ?case
    using Cons.IH try_loop_no_abort [OF assms, of e env req c i "en_maxRetries e" tr]
    by (cases "try_loop e env req c i v (en_maxRetries e) tr"; cases "fst (try_loop e env req c i v (en_maxRetries e) tr)")
      (auto simp: Let_def)
qed

lemma chain_validation_no_abort: "vp_FailAction (chain_validation req cs) \<noteq> ActionAbort"
  by (simp add: chain_validation_def)

text \<open>
  A processor that calls the executing provider gets an answer unless the whole chain failed:
  when the call is not a passthrough and reports an error, every candidate of the role's chain was
  tried (the chain is never aborted early), every attempt failed, and the reported error class is
  that of the last attempt.
\<close>

theorem generate_fails_only_when_exhausted:
  assumes "EP_Generate env json_ok n req p = ((resp, Some err), p')"
    and "candidates = CandidatesForRole (ep_profiles p) (rq_ModelRole req)" and "candidates \<noteq> []"
    and "\<not> is_passthrough req candidates"
  shows "\<exists>t. LastTrace p' = Some t \<and> tr_Outcome t = OutcomeExhausted \<and> all_failed (tr_Attempts t) \<and>
    (\<forall>k < length candidates. \<exists>a \<in> set (tr_Attempts t). ca_CandidateIndex a = k) \<and>
    rs_ErrorClass resp = ca_FailureClass (last (tr_Attempts t))"
proof -
  let ?v = "chain_validation req candidates"
  let ?tr = "NewExecutionTrace (xe_traceID env) (rq_ModelRole req) (xe_begin env)"
  obtain res err' where ex: "Execute (ep_engine p) env req candidates ?v = (res, err')" by fastforce
  obtain blocks t where b: "chain_blocks (Suc (en_maxRetries (ep_engine p))) 0 candidates blocks"
    "ex_Trace res = Some t" "tr_Attempts t = concat blocks" "chain_result (ep_engine p) req ?v 0 candidates blocks (res, err')"
    using execute_loop_spec [of "ep_engine p" 0 candidates env req ?v "length candidates" None ?tr] ex assms(3)
    by (auto simp: Execute_def NewExecutionTrace_def)
  have err: "err' \<noteq> None" "LastTrace p' = Some t"
    "rs_ErrorClass resp = (if tr_Attempts t = [] then None else ca_FailureClass (last (tr_Attempts t)))"
    using assms(1,3,4) ex b(2) unfolding EP_Generate_def Let_def assms(2) [symmetric]
    by (auto simp: LastTrace_def split: if_splits)
  have "ex_Outcome res \<noteq> OutcomeAborted"
    using execute_loop_no_abort [OF chain_validation_no_abort] ex assms(3)
    by (metis Execute_def fst_conv)
  then have out: "tr_Outcome t = OutcomeExhausted" "all_failed (concat blocks)" "length blocks = length candidates"
    using b(2,4) err(1) by (auto simp: chain_result_def)
  have "blocks ! k \<noteq> [] \<and> (\<forall>a \<in> set (blocks ! k). ca_CandidateIndex a = k)" if "k < length candidates" for k
    using b(1) out(3) that by (auto simp: chain_blocks_def attempts_at_def)
  then have each: "\<exists>a \<in> set (tr_Attempts t). ca_CandidateIndex a = k" if "k < length candidates" for k
    using that out(3) unfolding b(3) set_concat by (metis UN_I hd_in_set nth_mem)
  then have "tr_Attempts t \<noteq> []" using assms(3) by force
  moreover have "all_failed (tr_Attempts t)" using out(2) b(3) by simp
  ultimately show ?thesis using err out(1) each by simp
qed

text \<open>
  The passthrough of a single plain candidate forwards the caller's request unchanged to the
  inner provider: the candidate's model and provider names play no part in it, and the trace that
  \<open>LastTrace\<close> returns stays the one of an earlier call.
\<close>

theorem passthrough_ignores_candidate:
  assumes "CandidatesForRole (ep_profiles p) (rq_ModelRole req) = [c]" and "mc_ThinkMode c = ThinkDefault"
    and "\<not> mc_JSONMode c" and "\<not> rq_JSONMode req" and "mc_Timeout c = 0"
  shows "EP_Generate env json_ok n req p = (pv_Generate (ep_inner p) n req, p) \<and>
    LastTrace (snd (EP_Generate env json_ok n req p)) = LastTrace p"
  using assms by (simp add: EP_Generate_def Let_def is_passthrough_def)

section \<open>Classification of errors\<close>

lemma classify_timeout:
  assumes "\<not> asValidationError e"
    and "contains (err_text e) ''context deadline exceeded'' \<or> contains (err_text e) ''context canceled''"
  shows "ClassifyError (Some e) = FailureTimeout"
  using assms unfolding ClassifyError_def Let_def option.case by metis

text \<open>
  Wrapping an error with a prefix never loses a validation failure or a timeout that its text
  shows: \<open>fmt.Errorf("...: %w", err)\<close> keeps both classes. In particular the error by which the
  engine reports an exhausted chain is classified like the last failure in these cases.
\<close>

theorem wrapping_keeps_validation_and_timeout:
  assumes "ClassifyError (Some e) = FailureValidation \<or>
    \<not> asValidationError e \<and>
      (contains (err_text e) ''context deadline exceeded'' \<or> contains (err_text e) ''context canceled'')"
  shows "ClassifyError (Some (wrapf prefix e)) = ClassifyError (Some e)"
proof (cases "asValidationError e")
  case True
  then show ?thesis by (simp add: ClassifyError_def wrapf_def)
next
  case False
  then have "ClassifyError (Some e) \<noteq> FailureValidation"
    by (auto simp: ClassifyError_def Let_def split: option.splits)
  with assms have t: "contains (err_text e) ''context deadline exceeded'' \<or> contains (err_text e) ''context canceled''"
    by blast
  have keep: "contains (err_text (wrapf prefix e)) pat" if "contains (err_text e) pat" for pat
    using contains_append [OF that, of "prefix @ '': ''" "[]"] by (simp add: wrapf_def)
  have "\<not> asValidationError (wrapf prefix e)" using False by (simp add: wrapf_def)
  then have "ClassifyError (Some (wrapf prefix e)) = FailureTimeout"
    using t keep by (intro classify_timeout) blast+
  then show ?thesis using classify_timeout [OF False t] by simp
qed

section \<open>Concrete executions\<close>

definition wit_req :: generate_request where
  "wit_req = \<lparr>rq_Model = [], rq_ModelRole = ''fast'', rq_SystemPrompt = [], rq_UserPrompt = ''hi'',
     rq_Temperature = Fin 0, rq_MaxTokens = 10, rq_TopP = Fin 1, rq_JSONMode = False, rq_Timeout = 0,
     rq_PromptTemplateID = [], rq_PromptTemplateVersion = [], rq_InputVariables = Map.empty, rq_ThinkMode = []\<rparr>"

definition wit_llm :: provider where
  "wit_llm = \<lparr>pv_Name = ''ollama'', pv_Generate = (\<lambda>n req.
     if rq_Model req = ''b'' then (empty_response\<lparr>rs_Content := ''ok'', rs_TokensTotal := 5\<rparr>, None)
     else (empty_response, Some (PlainErr ''status 429'')))\<rparr>"

definition wit_xenv :: exec_env where
  "wit_xenv = \<lparr>xe_traceID = ''t'', xe_begin = 0, xe_started = int, xe_finished = int, xe_end = 9\<rparr>"

definition wit_chain :: "string list \<Rightarrow> model_candidate list" where
  "wit_chain names = map (\<lambda>m. plain_candidate m ''ollama'') names"

definition wit_exec :: "string list \<Rightarrow> execute_result \<times> go_error option" where
  "wit_exec names = Execute (NewExecutionEngine wit_llm) wit_xenv wit_req (wit_chain names) DefaultValidationPolicy"

theorem execute_walks_chain_in_order_witness:
  "\<exists>t. ex_Trace (fst (wit_exec [''a'', ''b''])) = Some t \<and> length (tr_Attempts t) = 3 \<and>
     length (tr_Attempts t) \<le> 2 * Suc defaultMaxRetries"
proof -
  have "map_option (\<lambda>t. length (tr_Attempts t)) (ex_Trace (fst (wit_exec [''a'', ''b'']))) = Some 3"
    by code_simp
  then show ?thesis
    using execute_walks_chain_in_order [of "wit_chain [''a'', ''b'']" "NewExecutionEngine wit_llm" wit_xenv
        wit_req DefaultValidationPolicy]
    by (auto simp: wit_exec_def wit_chain_def NewExecutionEngine_def)
qed

theorem execute_result_correct_witness:
  "\<exists>t. ex_Trace (fst (wit_exec [''a'', ''b''])) = Some t \<and> only_last_succeeded (tr_Attempts t)"
proof -
  have "snd (wit_exec [''a'', ''b'']) = None" by code_simp
  then show ?thesis
    using execute_result_correct [of "wit_chain [''a'', ''b'']", OF _ surjective_pairing, of "NewExecutionEngine wit_llm"
      wit_xenv wit_req DefaultValidationPolicy]
    by (auto simp: wit_exec_def wit_chain_def)
qed

theorem execute_counts_all_tokens_witness:
  "\<exists>t. ex_Trace (fst (wit_exec [''a'', ''b''])) = Some t \<and>
     sum_list (map ca_TokensTotal (tr_Attempts t)) = 5 \<and> tr_TotalTokensTotal t = 5"
proof -
  have "map_option tr_TotalTokensTotal (ex_Trace (fst (wit_exec [''a'', ''b'']))) = Some 5" by code_simp
  then show ?thesis
    using execute_counts_all_tokens [of "wit_chain [''a'', ''b'']" "NewExecutionEngine wit_llm" wit_xenv
        wit_req DefaultValidationPolicy]
    by (auto simp: wit_exec_def wit_chain_def)
qed

definition wit_ep :: "string list \<Rightarrow> executing_provider" where
  "wit_ep names = \<lparr>ep_inner = wit_llm, ep_profiles = [''fast'' \<mapsto> wit_chain names],
     ep_engine = NewExecutionEngine wit_llm, ep_lastTrace = None\<rparr>"

theorem generate_fails_only_when_exhausted_witness:
  "\<exists>t. LastTrace (snd (EP_Generate wit_xenv (\<lambda>_. True) 0 wit_req (wit_ep [''a'', ''c'']))) = Some t \<and>
     tr_Outcome t = OutcomeExhausted \<and> all_failed (tr_Attempts t)"
proof -
  let ?r = "EP_Generate wit_xenv (\<lambda>_. True) 0 wit_req (wit_ep [''a'', ''c''])"
  have "snd (fst ?r) \<noteq> None" by code_simp
  then obtain err where "snd (fst ?r) = Some err" by blast
  then have "?r = ((fst (fst ?r), Some err), snd ?r)" by (simp add: prod_eq_iff)
  moreover have "CandidatesForRole (ep_profiles (wit_ep [''a'', ''c''])) (rq_ModelRole wit_req) = wit_chain [''a'', ''c'']"
    by code_simp
  ultimately show ?thesis
    using generate_fails_only_when_exhausted [of wit_xenv "\<lambda>_. True" 0 wit_req "wit_ep [''a'', ''c'']"
        "fst (fst ?r)" err "snd ?r" "wit_chain [''a'', ''c'']"]
    by (auto simp: wit_chain_def is_passthrough_def)
qed

theorem passthrough_ignores_candidate_witness:
  "EP_Generate wit_xenv (\<lambda>_. True) 0 wit_req (wit_ep [''b'']) =
     ((empty_response, Some (PlainErr ''status 429'')), wit_ep [''b''])"
proof -
  have "CandidatesForRole (ep_profiles (wit_ep [''b''])) (rq_ModelRole wit_req) = [plain_candidate ''b'' ''ollama'']"
    by code_simp
  from passthrough_ignores_candidate [OF this, of wit_xenv "\<lambda>_. True" 0] show ?thesis
    by (simp add: plain_candidate_def wit_req_def wit_ep_def wit_llm_def)
qed

theorem wrapping_keeps_validation_and_timeout_witness:
  "ClassifyError (Some (wrapf ''ollama: 500'' Canceled)) = FailureTimeout"
proof -
  have a: "contains (err_text Canceled) ''context canceled''" "ClassifyError (Some Canceled) = FailureTimeout"
    by code_simp+
  then show ?thesis using wrapping_keeps_validation_and_timeout [of Canceled "''ollama: 500''"] by simp
qed

end
