(* ===== verification/Governance.thy ===== *)
theory Governance
  imports Providers
begin

text \<open>
  Operator governance: \<open>src/internal/agent/governance\<close> (\<open>types.go\<close>, \<open>store.go\<close>,
  \<open>controller.go\<close>, \<open>adapter.go\<close>). The state is a single row; the other components of the
  agent ask the adapter, on every decision, what the row forbids.

  Every operation reads the row, computes a new one and writes it in a separate statement;
  \<open>between\<close> is what other operators do in the meantime.
\<close>

section \<open>State\<close>

definition ModeNormal :: string where "ModeNormal = ''normal''"
definition ModeFrozen :: string where "ModeFrozen = ''frozen''"
definition ModeSafeHold :: string where "ModeSafeHold = ''safe_hold''"
definition ModeRollbackOnly :: string where "ModeRollbackOnly = ''rollback_only''"

definition validModes :: "string list" where
  "validModes = [ModeNormal, ModeFrozen, ModeSafeHold, ModeRollbackOnly]"

definition validReasoningModes :: "string list" where
  "validReasoningModes = ['''', ''graph'', ''direct'', ''conservative'', ''exploratory'']"

lemmas mode_defs = ModeNormal_def ModeFrozen_def ModeSafeHold_def ModeRollbackOnly_def

record governance_state =
  gs_Mode :: string
  gs_FreezeLearning :: bool
  gs_FreezePolicyUpdates :: bool
  gs_FreezeExploration :: bool
  gs_ForceReasoningMode :: string
  gs_ForceSafeMode :: bool
  gs_RequireHumanReview :: bool
  gs_LastUpdated :: time
  gs_Reason :: string

definition DefaultState :: "time \<Rightarrow> governance_state" where
  "DefaultState now =
     \<lparr>gs_Mode = ModeNormal, gs_FreezeLearning = False, gs_FreezePolicyUpdates = False,
      gs_FreezeExploration = False, gs_ForceReasoningMode = [], gs_ForceSafeMode = False,
      gs_RequireHumanReview = False, gs_LastUpdated = now, gs_Reason = ''default''\<rparr>"

definition IsFrozen :: "governance_state \<Rightarrow> bool" where
  "IsFrozen s \<longleftrightarrow> gs_Mode s = ModeFrozen \<or> gs_Mode s = ModeRollbackOnly"

definition IsLearningBlocked :: "governance_state \<Rightarrow> bool" where
  "IsLearningBlocked s \<longleftrightarrow> gs_FreezeLearning s \<or> gs_Mode s = ModeFrozen \<or> gs_Mode s = ModeRollbackOnly"

definition IsPolicyBlocked :: "governance_state \<Rightarrow> bool" where
  "IsPolicyBlocked s \<longleftrightarrow> gs_FreezePolicyUpdates s \<or> gs_Mode s = ModeFrozen \<or> gs_Mode s = ModeRollbackOnly"

definition IsExplorationBlocked :: "governance_state \<Rightarrow> bool" where
  "IsExplorationBlocked s \<longleftrightarrow>
     gs_FreezeExploration s \<or> gs_Mode s = ModeFrozen \<or> gs_Mode s = ModeSafeHold \<or>
     gs_Mode s = ModeRollbackOnly"

definition EffectiveReasoningMode :: "governance_state \<Rightarrow> string" where
  "EffectiveReasoningMode s =
     (if gs_ForceSafeMode s \<or> gs_Mode s = ModeSafeHold then ''conservative''
      else if gs_ForceReasoningMode s \<noteq> [] then gs_ForceReasoningMode s
      else [])"

section \<open>Stores\<close>

datatype governance_op = OpFreeze | OpUnfreeze | OpSafeHold | OpRollback | OpForceMode | OpClearOverride

fun action_type :: "governance_op \<Rightarrow> string" where
  "action_type OpFreeze = ''freeze''"
| "action_type OpUnfreeze = ''unfreeze''"
| "action_type OpSafeHold = ''safe_hold''"
| "action_type OpRollback = ''rollback''"
| "action_type OpForceMode = ''force_mode''"
| "action_type OpClearOverride = ''clear_override''"

text \<open>The payload of an action holds the mode before and the values that were set.\<close>

record governance_action =
  ga_ActionType :: string
  ga_RequestedBy :: string
  ga_Reason :: string
  ga_PreviousMode :: string
  ga_NewState :: governance_state
  ga_CreatedAt :: time

record governance_audit =
  gu_EventType :: string
  gu_RequestedBy :: string
  gu_Previous :: governance_state
  gu_New :: governance_state

record governance_db =
  gov_row :: "governance_state option"
  gov_actions :: "governance_action list"
  gov_audit :: "governance_audit list"

record gov_env =
  ge_now :: time
  ge_read_ok :: bool
  ge_save_ok :: bool
  ge_action_ok :: bool
  ge_audit_ok :: bool

datatype gov_error = RequestedByRequired | InvalidReasoningMode string | SaveFailed

definition store_GetState :: "gov_env \<Rightarrow> governance_db \<Rightarrow> governance_state option" where
  "store_GetState env g = (if ge_read_ok env then gov_row g else None)"

definition SaveState :: "gov_env \<Rightarrow> governance_state \<Rightarrow> governance_db \<Rightarrow> bool \<times> governance_db" where
  "SaveState env st g = (if ge_save_ok env then (True, g\<lparr>gov_row := Some st\<rparr>) else (False, g))"

definition RecordAction :: "gov_env \<Rightarrow> governance_action \<Rightarrow> governance_db \<Rightarrow> governance_db" where
  "RecordAction env a g = (if ge_action_ok env then g\<lparr>gov_actions := gov_actions g @ [a]\<rparr> else g)"

definition newer_action :: "governance_action \<Rightarrow> governance_action \<Rightarrow> bool" where
  "newer_action a b \<longleftrightarrow> ga_CreatedAt b < ga_CreatedAt a"

definition ListActions :: "nat \<Rightarrow> nat \<Rightarrow> governance_db \<Rightarrow> governance_action list" where
  "ListActions limit offset g = take limit (drop offset (sql_sort newer_action (gov_actions g)))"

section \<open>Controller\<close>

definition fail_safe_state :: "time \<Rightarrow> governance_state" where
  "fail_safe_state now =
     \<lparr>gs_Mode = ModeSafeHold, gs_FreezeLearning = True, gs_FreezePolicyUpdates = True,
      gs_FreezeExploration = True, gs_ForceReasoningMode = [], gs_ForceSafeMode = True,
      gs_RequireHumanReview = False, gs_LastUpdated = now,
      gs_Reason = ''fail-safe: governance state unreadable''\<rparr>"

definition GetState :: "gov_env \<Rightarrow> governance_db \<Rightarrow> governance_state" where
  "GetState env g =
     (case store_GetState env g of None \<Rightarrow> fail_safe_state (ge_now env) | Some st \<Rightarrow> st)"

definition emit_type :: "governance_op \<Rightarrow> string" where
  "emit_type op =
     (case op of OpForceMode \<Rightarrow> ''governance.override_applied''
      | OpRollback \<Rightarrow> ''governance.rollback_applied'' | _ \<Rightarrow> ''governance.state_changed'')"

definition gov_emit ::
  "gov_env \<Rightarrow> governance_op \<Rightarrow> string \<Rightarrow> governance_state \<Rightarrow> governance_state \<Rightarrow> governance_db \<Rightarrow> governance_db"
where
  "gov_emit env op requestedBy prev st g =
     (if ge_audit_ok env
      then g\<lparr>gov_audit := gov_audit g @ [\<lparr>gu_EventType = emit_type op, gu_RequestedBy = requestedBy,
               gu_Previous = prev, gu_New = st\<rparr>]\<rparr>
      else g)"

text \<open>What every operation does with its new state: save, record the action, audit.\<close>

definition gov_commit ::
  "gov_env \<Rightarrow> governance_op \<Rightarrow> string \<Rightarrow> governance_state \<Rightarrow> governance_state \<Rightarrow> governance_db \<Rightarrow>
     (gov_error + governance_state) \<times> governance_db"
where
  "gov_commit env op requestedBy prev st g =
     (case SaveState env st g of
        (False, g1) \<Rightarrow> (Inl SaveFailed, g1)
      | (True, g1) \<Rightarrow>
          (Inr st,
           gov_emit env op requestedBy prev st
             (RecordAction env
               \<lparr>ga_ActionType = action_type op, ga_RequestedBy = requestedBy, ga_Reason = gs_Reason st,
                ga_PreviousMode = gs_Mode prev, ga_NewState = st, ga_CreatedAt = ge_now env\<rparr> g1)))"

record freeze_request =
  fz_RequestedBy :: string
  fz_Reason :: string
  fz_FreezeLearning :: "bool option"
  fz_FreezePolicy :: "bool option"
  fz_FreezeExploration :: "bool option"

record force_mode_request =
  fm_RequestedBy :: string
  fm_Reason :: string
  fm_ReasoningMode :: string
  fm_ForceSafeMode :: "bool option"

definition opt_or :: "'v option \<Rightarrow> 'v \<Rightarrow> 'v" where
  "opt_or v d = (case v of None \<Rightarrow> d | Some x \<Rightarrow> x)"

definition frozen_state :: "time \<Rightarrow> freeze_request \<Rightarrow> governance_state \<Rightarrow> governance_state" where
  "frozen_state now req prev =
     prev\<lparr>gs_Mode := ModeFrozen, gs_LastUpdated := now, gs_Reason := fz_Reason req,
          gs_FreezeLearning := opt_or (fz_FreezeLearning req) True,
          gs_FreezePolicyUpdates := opt_or (fz_FreezePolicy req) True,
          gs_FreezeExploration := opt_or (fz_FreezeExploration req) True\<rparr>"

definition Freeze ::
  "gov_env \<Rightarrow> (governance_db \<Rightarrow> governance_db) \<Rightarrow> freeze_request \<Rightarrow> governance_db \<Rightarrow>
     (gov_error + governance_state) \<times> governance_db"
where
  "Freeze env between req g =
     (if fz_RequestedBy req = [] then (Inl RequestedByRequired, g)
      else (let prev = GetState env g
            in gov_commit env OpFreeze (fz_RequestedBy req) prev (frozen_state (ge_now env) req prev) (between g)))"

definition cleared_state :: "time \<Rightarrow> string \<Rightarrow> governance_state" where
  "cleared_state now reason = (DefaultState now)\<lparr>gs_Reason := reason\<rparr>"

definition Unfreeze ::
  "gov_env \<Rightarrow> (governance_db \<Rightarrow> governance_db) \<Rightarrow> string \<Rightarrow> string \<Rightarrow> governance_db \<Rightarrow>
     (gov_error + governance_state) \<times> governance_db"
where
  "Unfreeze env between requestedBy reason g =
     (if requestedBy = [] then (Inl RequestedByRequired, g)
      else gov_commit env OpUnfreeze requestedBy (GetState env g) (cleared_state (ge_now env) reason) (between g))"

definition forced_state :: "time \<Rightarrow> force_mode_request \<Rightarrow> governance_state \<Rightarrow> governance_state" where
  "forced_state now req prev =
     prev\<lparr>gs_ForceReasoningMode := fm_ReasoningMode req,
          gs_ForceSafeMode := opt_or (fm_ForceSafeMode req) (gs_ForceSafeMode prev),
          gs_LastUpdated := now, gs_Reason := fm_Reason req\<rparr>"

definition ForceMode ::
  "gov_env \<Rightarrow> (governance_db \<Rightarrow> governance_db) \<Rightarrow> force_mode_request \<Rightarrow> governance_db \<Rightarrow>
     (gov_error + governance_state) \<times> governance_db"
where
  "ForceMode env between req g =
     (if fm_RequestedBy req = [] then (Inl RequestedByRequired, g)
      else if fm_ReasoningMode req \<noteq> [] \<and> fm_ReasoningMode req \<notin> set validReasoningModes
      then (Inl (InvalidReasoningMode (fm_ReasoningMode req)), g)
      else (let prev = GetState env g
            in gov_commit env OpForceMode (fm_RequestedBy req) prev (forced_state (ge_now env) req prev) (between g)))"

definition held_state :: "time \<Rightarrow> string \<Rightarrow> governance_state \<Rightarrow> governance_state" where
  "held_state now reason prev =
     prev\<lparr>gs_Mode := ModeSafeHold, gs_ForceSafeMode := True, gs_FreezeExploration := True,
          gs_LastUpdated := now, gs_Reason := reason\<rparr>"

definition SafeHold ::
  "gov_env \<Rightarrow> (governance_db \<Rightarrow> governance_db) \<Rightarrow> string \<Rightarrow> string \<Rightarrow> governance_db \<Rightarrow>
     (gov_error + governance_state) \<times> governance_db"
where
  "SafeHold env between requestedBy reason g =
     (if requestedBy = [] then (Inl RequestedByRequired, g)
      else (let prev = GetState env g
            in gov_commit env OpSafeHold requestedBy prev (held_state (ge_now env) reason prev) (between g)))"

definition rollback_state :: "time \<Rightarrow> string \<Rightarrow> governance_state" where
  "rollback_state now reason =
     \<lparr>gs_Mode = ModeRollbackOnly, gs_FreezeLearning = True, gs_FreezePolicyUpdates = True,
      gs_FreezeExploration = True, gs_ForceReasoningMode = [], gs_ForceSafeMode = True,
      gs_RequireHumanReview = False, gs_LastUpdated = now, gs_Reason = reason\<rparr>"

definition Rollback ::
  "gov_env \<Rightarrow> (governance_db \<Rightarrow> governance_db) \<Rightarrow> string \<Rightarrow> string \<Rightarrow> governance_db \<Rightarrow>
     (gov_error + governance_state) \<times> governance_db"
where
  "Rollback env between requestedBy reason g =
     (if requestedBy = [] then (Inl RequestedByRequired, g)
      else gov_commit env OpRollback requestedBy (GetState env g) (rollback_state (ge_now env) reason) (between g))"

definition ClearOverride ::
  "gov_env \<Rightarrow> (governance_db \<Rightarrow> governance_db) \<Rightarrow> string \<Rightarrow> string \<Rightarrow> governance_db \<Rightarrow>
     (gov_error + governance_state) \<times> governance_db"
where
  "ClearOverride env between requestedBy reason g =
     (if requestedBy = [] then (Inl RequestedByRequired, g)
      else gov_commit env OpClearOverride requestedBy (GetState env g) (cleared_state (ge_now env) reason) (between g))"

section \<open>Adapter\<close>

definition gov_IsLearningBlocked :: "gov_env \<Rightarrow> governance_db \<Rightarrow> bool" where
  "gov_IsLearningBlocked env g = IsLearningBlocked (GetState env g)"

definition gov_IsPolicyBlocked :: "gov_env \<Rightarrow> governance_db \<Rightarrow> bool" where
  "gov_IsPolicyBlocked env g = IsPolicyBlocked (GetState env g)"

definition gov_IsExplorationBlocked :: "gov_env \<Rightarrow> governance_db \<Rightarrow> bool" where
  "gov_IsExplorationBlocked env g = IsExplorationBlocked (GetState env g)"

definition gov_EffectiveReasoningMode :: "gov_env \<Rightarrow> governance_db \<Rightarrow> string" where
  "gov_EffectiveReasoningMode env g = EffectiveReasoningMode (GetState env g)"

definition gov_RequiresHumanReview :: "gov_env \<Rightarrow> governance_db \<Rightarrow> bool" where
  "gov_RequiresHumanReview env g = gs_RequireHumanReview (GetState env g)"

definition gov_GetMode :: "gov_env \<Rightarrow> governance_db \<Rightarrow> string" where
  "gov_GetMode env g = gs_Mode (GetState env g)"

lemmas adapter_defs = gov_IsLearningBlocked_def gov_IsPolicyBlocked_def gov_IsExplorationBlocked_def
  gov_EffectiveReasoningMode_def gov_RequiresHumanReview_def gov_GetMode_def

section \<open>Steps\<close>

text \<open>One operator action run to completion; a reader sees the states in between.\<close>

datatype gov_request =
  RqFreeze freeze_request | RqUnfreeze string string | RqForceMode force_mode_request
  | RqSafeHold string string | RqRollback string string | RqClearOverride string string

fun gov_run ::
  "gov_env \<Rightarrow> (governance_db \<Rightarrow> governance_db) \<Rightarrow> gov_request \<Rightarrow> governance_db \<Rightarrow>
     (gov_error + governance_state) \<times> governance_db"
where
  "gov_run env between (RqFreeze r) g = Freeze env between r g"
| "gov_run env between (RqUnfreeze by reason) g = Unfreeze env between by reason g"
| "gov_run env between (RqForceMode r) g = ForceMode env between r g"
| "gov_run env between (RqSafeHold by reason) g = SafeHold env between by reason g"
| "gov_run env between (RqRollback by reason) g = Rollback env between by reason g"
| "gov_run env between (RqClearOverride by reason) g = ClearOverride env between by reason g"

fun gov_by :: "gov_request \<Rightarrow> string" where
  "gov_by (RqFreeze r) = fz_RequestedBy r"
| "gov_by (RqUnfreeze by reason) = by"
| "gov_by (RqForceMode r) = fm_RequestedBy r"
| "gov_by (RqSafeHold by reason) = by"
| "gov_by (RqRollback by reason) = by"
| "gov_by (RqClearOverride by reason) = by"

fun gov_new :: "time \<Rightarrow> gov_request \<Rightarrow> governance_state \<Rightarrow> governance_state" where
  "gov_new now (RqFreeze r) prev = frozen_state now r prev"
| "gov_new now (RqUnfreeze by reason) prev = cleared_state now reason"
| "gov_new now (RqForceMode r) prev = forced_state now r prev"
| "gov_new now (RqSafeHold by reason) prev = held_state now reason prev"
| "gov_new now (RqRollback by reason) prev = rollback_state now reason"
| "gov_new now (RqClearOverride by reason) prev = cleared_state now reason"

fun lifts :: "gov_request \<Rightarrow> bool" where
  "lifts (RqUnfreeze by reason) = True"
| "lifts (RqClearOverride by reason) = True"
| "lifts _ = False"

text \<open>
  The row starts as the migration seeds it. Between the read and the write of a request any
  number of other requests may run.
\<close>

inductive gov_reach :: "governance_db \<Rightarrow> bool" where
  seed: "gov_reach \<lparr>gov_row = Some ((DefaultState now)\<lparr>gs_Reason := []\<rparr>), gov_actions = [], gov_audit = []\<rparr>"
| run: "gov_reach g \<Longrightarrow> gov_reach (between g) \<Longrightarrow> gov_reach (snd (gov_run env between r g))"

section \<open>Properties\<close>

lemma commit_row:
  "gov_commit env op by prev st g = (Inl e, g') \<Longrightarrow> g' = g"
  "gov_commit env op by prev st g = (Inr st', g') \<Longrightarrow> st' = st \<and> gov_row g' = Some st"
  by (auto simp: gov_commit_def SaveState_def gov_emit_def RecordAction_def split: if_splits)

lemma gov_run_Inl: "gov_run env between r g = (Inl e, g') \<Longrightarrow> g' = g \<or> g' = between g"
  by (cases r) (auto simp: Freeze_def Unfreeze_def ForceMode_def SafeHold_def Rollback_def ClearOverride_def
      Let_def dest!: commit_row(1) split: if_splits)

lemma gov_run_Inr:
  "gov_run env between r g = (Inr st, g') \<Longrightarrow>
     st = gov_new (ge_now env) r (GetState env g) \<and> gov_row g' = Some st \<and> gov_by r \<noteq> [] \<and>
     (\<forall>q. r = RqForceMode q \<longrightarrow> fm_ReasoningMode q \<in> set validReasoningModes)"
  by (cases r) (auto simp: Freeze_def Unfreeze_def ForceMode_def SafeHold_def Rollback_def ClearOverride_def
      Let_def validReasoningModes_def dest!: commit_row(2) split: if_splits)

lemma GetState_readable: "ge_read_ok env \<Longrightarrow> gov_row g = Some st \<Longrightarrow> GetState env g = st"
  by (simp add: GetState_def store_GetState_def)

lemma GetState_cases: "GetState env g = fail_safe_state (ge_now env) \<or> gov_row g = Some (GetState env g)"
  by (simp add: GetState_def store_GetState_def split: option.split)

text \<open>
  Fail-safe reads: whenever the governance row cannot be read or does not exist, learning,
  policy updates and exploration are all blocked and reasoning is forced to be conservative.
\<close>

theorem unreadable_governance_fails_safe:
  assumes "\<not> ge_read_ok env \<or> gov_row g = None"
  shows "gov_IsLearningBlocked env g \<and> gov_IsPolicyBlocked env g \<and> gov_IsExplorationBlocked env g \<and>
    gov_EffectiveReasoningMode env g = ''conservative''"
proof -
  have "GetState env g = fail_safe_state (ge_now env)"
    using assms by (auto simp: GetState_def store_GetState_def)
  then show ?thesis
    by (simp add: adapter_defs fail_safe_state_def IsLearningBlocked_def IsPolicyBlocked_def
        IsExplorationBlocked_def EffectiveReasoningMode_def)
qed

definition gov_ok :: "governance_state \<Rightarrow> bool" where
  "gov_ok st \<longleftrightarrow> gs_Mode st \<in> set validModes \<and> gs_ForceReasoningMode st \<in> set validReasoningModes \<and>
     \<not> gs_RequireHumanReview st"

lemma gov_new_ok [inv_intros]:
  assumes "gov_ok prev" and "\<forall>q. r = RqForceMode q \<longrightarrow> fm_ReasoningMode q \<in> set validReasoningModes"
  shows "gov_ok (gov_new now r prev)"
  using assms by (cases r) (auto simp: gov_ok_def frozen_state_def cleared_state_def DefaultState_def forced_state_def
      held_state_def rollback_state_def validModes_def validReasoningModes_def)

lemma fail_safe_ok [inv_intros]: "gov_ok (fail_safe_state now)"
  by (simp add: gov_ok_def fail_safe_state_def validModes_def validReasoningModes_def)

lemma gov_reach_ok: "gov_reach g \<Longrightarrow> \<exists>st. gov_row g = Some st \<and> gov_ok st"
proof (induction rule: gov_reach.induct)
  case (seed now)
  then show ?case by (simp add: gov_ok_def DefaultState_def validModes_def validReasoningModes_def)
next
  case (run g between env r)
  obtain res g' where r: "gov_run env between r g = (res, g')" by fastforce
  show ?case
  proof (cases res)
    case (Inl e)
    then show ?thesis using r run.IH gov_run_Inl by fastforce
  next
    case (Inr st)
    have "gov_ok (GetState env g)" using GetState_cases run.IH(1) fail_safe_ok by (metis option.inject)
    then show ?thesis using r Inr gov_run_Inr [of env between r g st g'] gov_new_ok by auto
  qed
qed

text \<open>
  C18: The stored governance state is always meaningful: through every sequence and interleaving of
  operator requests the row exists, its mode is one of the four modes, and a forced reasoning mode
  is one of the known ones. The flag that asks for human review, however, is never set: no
  operation can turn it on.
\<close>

theorem governance_state_well_formed:
  assumes "gov_reach g"
  shows "\<exists>st. gov_row g = Some st \<and> gs_Mode st \<in> set validModes \<and>
    gs_ForceReasoningMode st \<in> set validReasoningModes \<and> (\<forall>env. \<not> gov_RequiresHumanReview env g)"
proof -
  obtain st where st: "gov_row g = Some st" "gov_ok st" using gov_reach_ok [OF assms] by blast
  have "\<not> gov_RequiresHumanReview env g" for env
    using GetState_cases [of env g] st fail_safe_ok [of "ge_now env"]
    by (auto simp: gov_RequiresHumanReview_def gov_ok_def)
  with st show ?thesis by (auto simp: gov_ok_def)
qed

fun gov_runs :: "(gov_env \<times> gov_request) list \<Rightarrow> governance_db \<Rightarrow> governance_db" where
  "gov_runs [] g = g"
| "gov_runs ((env, r) # rs) g = gov_runs rs (snd (gov_run env (\<lambda>g. g) r g))"

text \<open>Restrictions that survive every request that does not lift them.\<close>

definition restricted :: "governance_state \<Rightarrow> bool" where
  "restricted st \<longleftrightarrow> gs_Mode st \<in> {ModeFrozen, ModeSafeHold, ModeRollbackOnly}"

definition learning_flags :: "governance_state \<Rightarrow> bool" where
  "learning_flags st \<longleftrightarrow> gs_FreezeLearning st \<and> gs_FreezePolicyUpdates st"

fun unfreezes_learning :: "gov_request \<Rightarrow> bool" where
  "unfreezes_learning (RqFreeze r) \<longleftrightarrow> fz_FreezeLearning r = Some False \<or> fz_FreezePolicy r = Some False"
| "unfreezes_learning r \<longleftrightarrow> lifts r"

lemma gov_run_keeps:
  assumes "\<exists>st. gov_row g = Some st \<and> Q st" and "\<And>now. Q (fail_safe_state now)"
    and "\<And>now prev. Q prev \<Longrightarrow> Q (gov_new now r prev)"
  shows "\<exists>st. gov_row (snd (gov_run env (\<lambda>g. g) r g)) = Some st \<and> Q st"
proof -
  obtain res g' where r: "gov_run env (\<lambda>g. g) r g = (res, g')" by fastforce
  have "Q (GetState env g)" using assms(1,2) GetState_cases by (metis option.inject)
  then show ?thesis
    using assms r gov_run_Inl [of env "\<lambda>g. g" r g _ g'] gov_run_Inr [of env "\<lambda>g. g" r g _ g']
    by (cases res) auto
qed

lemma gov_runs_keep:
  assumes "\<exists>st. gov_row g = Some st \<and> Q st" and "\<And>now. Q (fail_safe_state now)"
    and "\<forall>(env, r) \<in> set rs. \<forall>now prev. Q prev \<longrightarrow> Q (gov_new now r prev)"
  shows "\<exists>st. gov_row (gov_runs rs g) = Some st \<and> Q st"
  using assms(1,3)
proof (induction rs g rule: gov_runs.induct)
  case (2 env r rs g)
  have "Q prev \<Longrightarrow> Q (gov_new now r prev)" for now prev using "2.prems"(2) by simp
  note gov_run_keeps [OF "2.prems"(1) assms(2) this, of env]
  then show ?case using "2.IH" "2.prems"(2) by simp
qed simp

lemma restricted_new: "restricted prev \<Longrightarrow> \<not> lifts r \<Longrightarrow> restricted (gov_new now r prev)"
  by (cases r) (auto simp: restricted_def frozen_state_def forced_state_def held_state_def rollback_state_def)

lemma learning_new:
  "learning_flags prev \<Longrightarrow> \<not> unfreezes_learning r \<Longrightarrow> learning_flags (gov_new now r prev)"
proof (cases r)
  case (RqFreeze q)
  assume "learning_flags prev" "\<not> unfreezes_learning r"
  with RqFreeze show ?thesis
    by (cases "fz_FreezeLearning q"; cases "fz_FreezePolicy q")
      (auto simp: learning_flags_def frozen_state_def opt_or_def)
qed (auto simp: learning_flags_def forced_state_def held_state_def rollback_state_def)

text \<open>
  A rollback holds until it is lifted: after a successful \<open>Rollback\<close>, and after any sequence
  of later requests that contains neither \<open>Unfreeze\<close> nor \<open>ClearOverride\<close>, exploration stays
  blocked for every reader; learning and policy updates stay blocked too unless some later
  \<open>Freeze\<close> explicitly asked not to freeze them.
\<close>

theorem rollback_holds_until_lifted:
  assumes "Rollback env (\<lambda>g. g) by reason g = (Inr st, g1)" and "\<forall>(env', r) \<in> set rs. \<not> lifts r"
  shows "gov_IsExplorationBlocked env2 (gov_runs rs g1) \<and>
    ((\<forall>(env', r) \<in> set rs. \<not> unfreezes_learning r) \<longrightarrow>
     gov_IsLearningBlocked env2 (gov_runs rs g1) \<and> gov_IsPolicyBlocked env2 (gov_runs rs g1))"
proof -
  have st: "gov_row g1 = Some (rollback_state (ge_now env) reason)"
    using assms(1) gov_run_Inr [of env "\<lambda>g. g" "RqRollback by reason" g st g1] by simp
  have safe: "restricted (fail_safe_state now)" "learning_flags (fail_safe_state now)" for now
    by (simp_all add: restricted_def learning_flags_def fail_safe_state_def)
  have "\<exists>st. gov_row g1 = Some st \<and> restricted st"
    using st by (simp add: restricted_def rollback_state_def)
  then have "\<exists>st. gov_row (gov_runs rs g1) = Some st \<and> restricted st"
    by (rule gov_runs_keep) (use safe assms(2) restricted_new in auto)
  then have "restricted (GetState env2 (gov_runs rs g1))"
    using GetState_cases safe(1) by (metis option.inject)
  then have "gov_IsExplorationBlocked env2 (gov_runs rs g1)"
    by (auto simp: gov_IsExplorationBlocked_def IsExplorationBlocked_def restricted_def)
  moreover have "gov_IsLearningBlocked env2 (gov_runs rs g1) \<and> gov_IsPolicyBlocked env2 (gov_runs rs g1)"
    if rs: "\<forall>(env', r) \<in> set rs. \<not> unfreezes_learning r"
  proof -
    have "\<exists>st. gov_row g1 = Some st \<and> learning_flags st"
      using st by (simp add: learning_flags_def rollback_state_def)
    then have "\<exists>st. gov_row (gov_runs rs g1) = Some st \<and> learning_flags st"
      by (rule gov_runs_keep) (use safe rs learning_new in auto)
    then have "learning_flags (GetState env2 (gov_runs rs g1))"
      using GetState_cases safe(2) by (metis option.inject)
    then show ?thesis by (simp add: adapter_defs IsLearningBlocked_def IsPolicyBlocked_def learning_flags_def)
  qed
  ultimately show ?thesis by blast
qed

text \<open>
  \<open>SafeHold\<close> can weaken a freeze: after a \<open>Freeze\<close> that leaves the learning flag off,
  learning is blocked by the mode alone, and a following \<open>SafeHold\<close> replaces that mode, so
  learning is allowed again although nobody lifted the freeze.
\<close>

theorem safe_hold_unblocks_learning:
  assumes "Freeze env (\<lambda>g. g) req g = (Inr st1, g1)" and "fz_FreezeLearning req = Some False"
    and "ge_read_ok env'" and "SafeHold env' (\<lambda>g. g) by reason g1 = (Inr st2, g2)"
  shows "IsLearningBlocked st1 \<and> gov_row g2 = Some st2 \<and> \<not> IsLearningBlocked st2"
proof -
  have 1: "st1 = frozen_state (ge_now env) req (GetState env g)" "gov_row g1 = Some st1"
    using assms(1) gov_run_Inr [of env "\<lambda>g. g" "RqFreeze req" g st1 g1] by simp_all
  have 2: "st2 = held_state (ge_now env') reason st1" "gov_row g2 = Some st2"
    using assms(3,4) gov_run_Inr [of env' "\<lambda>g. g" "RqSafeHold by reason" g1 st2 g2] GetState_readable 1(2)
    by simp_all
  show ?thesis using 1 2 assms(2)
    by (simp add: IsLearningBlocked_def frozen_state_def held_state_def opt_or_def mode_defs)
qed

text \<open>
  Lost updates: because every operation writes back the row it read earlier, a \<open>ForceMode\<close>
  that overlaps a successful \<open>Freeze\<close> undoes it: after both have reported success the mode is the
  one from before the freeze.
\<close>

theorem concurrent_force_mode_undoes_freeze:
  assumes "gov_row g = Some st" and "ge_read_ok env"
    and "Freeze env' (\<lambda>g. g) req g = (Inr frozen, g1)" and "IsFrozen frozen"
    and "ForceMode env (\<lambda>g. snd (Freeze env' (\<lambda>g. g) req g)) freq g = (Inr st2, g2)"
  shows "gov_row g2 = Some st2 \<and> gs_Mode st2 = gs_Mode st \<and> gs_FreezeLearning st2 = gs_FreezeLearning st"
proof -
  have "st2 = forced_state (ge_now env) freq (GetState env g)" "gov_row g2 = Some st2"
    using assms(5) gov_run_Inr [of env _ "RqForceMode freq" g st2 g2] by simp_all
  then show ?thesis using GetState_readable [OF assms(2,1)] by (simp add: forced_state_def)
qed

text \<open>
  Nothing changes unrecorded: with working stores a request that succeeds appends exactly one
  action and one audit event, which name the requester and carry the state before and after; a
  request that fails changes nothing, and an anonymous request always fails.
\<close>

theorem governance_changes_are_recorded:
  assumes "ge_action_ok env" and "ge_audit_ok env" and "gov_run env (\<lambda>g. g) r g = (res, g')"
  shows "case res of
      Inl e \<Rightarrow> g' = g
    | Inr st \<Rightarrow> gov_by r \<noteq> [] \<and> gov_row g' = Some st \<and>
        (\<exists>a u. gov_actions g' = gov_actions g @ [a] \<and> gov_audit g' = gov_audit g @ [u] \<and>
          ga_RequestedBy a = gov_by r \<and> gu_RequestedBy u = gov_by r \<and>
          ga_PreviousMode a = gs_Mode (GetState env g) \<and> gu_Previous u = GetState env g \<and>
          ga_NewState a = st \<and> gu_New u = st)"
proof (cases res)
  case (Inl e)
  then show ?thesis using assms(3) gov_run_Inl by fastforce
next
  case (Inr st)
  have "\<exists>a u. gov_actions g' = gov_actions g @ [a] \<and> gov_audit g' = gov_audit g @ [u] \<and>
      ga_RequestedBy a = gov_by r \<and> gu_RequestedBy u = gov_by r \<and>
      ga_PreviousMode a = gs_Mode (GetState env g) \<and> gu_Previous u = GetState env g \<and>
      ga_NewState a = st \<and> gu_New u = st"
    using assms Inr
    by (cases r) (auto simp: Freeze_def Unfreeze_def ForceMode_def SafeHold_def Rollback_def ClearOverride_def
        Let_def gov_commit_def SaveState_def gov_emit_def RecordAction_def split: if_splits)
  then show ?thesis using Inr assms(3) gov_run_Inr [of env "\<lambda>g. g" r g st g'] by simp
qed

section \<open>Concrete requests\<close>

definition wit_genv :: "time \<Rightarrow> gov_env" where
  "wit_genv t = \<lparr>ge_now = t, ge_read_ok = True, ge_save_ok = True, ge_action_ok = True, ge_audit_ok = True\<rparr>"

definition wit_gdb :: governance_db where
  "wit_gdb = \<lparr>gov_row = Some ((DefaultState 0)\<lparr>gs_Reason := []\<rparr>), gov_actions = [], gov_audit = []\<rparr>"

definition wit_freeze :: freeze_request where
  "wit_freeze = \<lparr>fz_RequestedBy = ''op'', fz_Reason = ''r'', fz_FreezeLearning = Some False,
     fz_FreezePolicy = None, fz_FreezeExploration = None\<rparr>"

definition wit_force :: force_mode_request where
  "wit_force = \<lparr>fm_RequestedBy = ''op2'', fm_Reason = ''r'', fm_ReasoningMode = ''graph'', fm_ForceSafeMode = None\<rparr>"

definition wit_hold :: "gov_env \<times> gov_request" where
  "wit_hold = (wit_genv 5, RqSafeHold ''op'' ''h'')"

lemma split_result: "fst p = Inr (projr (fst p)) \<Longrightarrow> p = (Inr (projr (fst p)), snd p)"
  by (cases p) simp

theorem unreadable_governance_fails_safe_witness:
  "gov_EffectiveReasoningMode ((wit_genv 1)\<lparr>ge_read_ok := False\<rparr>) wit_gdb = ''conservative'' \<and>
   gov_EffectiveReasoningMode (wit_genv 1) wit_gdb = []"
proof -
  have "gov_EffectiveReasoningMode (wit_genv 1) wit_gdb = []" by code_simp
  then show ?thesis using unreadable_governance_fails_safe [of "(wit_genv 1)\<lparr>ge_read_ok := False\<rparr>" wit_gdb] by simp
qed

theorem governance_state_well_formed_witness:
  "\<exists>st. gov_row (snd (gov_run (wit_genv 1) (\<lambda>g. g) (RqFreeze wit_freeze) wit_gdb)) = Some st \<and>
     gs_Mode st \<in> set validModes"
proof -
  have "gov_reach wit_gdb" unfolding wit_gdb_def by (rule gov_reach.seed)
  then have "gov_reach (snd (gov_run (wit_genv 1) (\<lambda>g. g) (RqFreeze wit_freeze) wit_gdb))"
    by (rule gov_reach.run) (use \<open>gov_reach wit_gdb\<close> in simp)
  from governance_state_well_formed [OF this] show ?thesis by blast
qed

theorem rollback_holds_until_lifted_witness:
  "gov_IsExplorationBlocked (wit_genv 9) (gov_runs [wit_hold] (snd (Rollback (wit_genv 1) (\<lambda>g. g) ''op'' ''bad'' wit_gdb))) \<and>
   gov_IsLearningBlocked (wit_genv 9) (gov_runs [wit_hold] (snd (Rollback (wit_genv 1) (\<lambda>g. g) ''op'' ''bad'' wit_gdb)))"
proof -
  have "fst (Rollback (wit_genv 1) (\<lambda>g. g) ''op'' ''bad'' wit_gdb) =
      Inr (projr (fst (Rollback (wit_genv 1) (\<lambda>g. g) ''op'' ''bad'' wit_gdb)))" by code_simp
  from rollback_holds_until_lifted [OF split_result [OF this], of "[wit_hold]" "wit_genv 9"] show ?thesis
    by (simp add: wit_hold_def)
qed

theorem safe_hold_unblocks_learning_witness:
  "\<exists>st1 st2. fst (Freeze (wit_genv 1) (\<lambda>g. g) wit_freeze wit_gdb) = Inr st1 \<and> IsLearningBlocked st1 \<and>
     gov_row (gov_runs [wit_hold] (snd (Freeze (wit_genv 1) (\<lambda>g. g) wit_freeze wit_gdb))) = Some st2 \<and>
     \<not> IsLearningBlocked st2"
proof -
  let ?f = "Freeze (wit_genv 1) (\<lambda>g. g) wit_freeze wit_gdb"
  let ?h = "SafeHold (wit_genv 5) (\<lambda>g. g) ''op'' ''h'' (snd ?f)"
  have a: "fst ?f = Inr (projr (fst ?f))" "fst ?h = Inr (projr (fst ?h))" "fz_FreezeLearning wit_freeze = Some False"
    "ge_read_ok (wit_genv 5)" by code_simp+
  from safe_hold_unblocks_learning [OF split_result [OF a(1)] a(3,4) split_result [OF a(2)]] a(1)
  show ?thesis by (auto simp: wit_hold_def)
qed

theorem concurrent_force_mode_undoes_freeze_witness:
  "\<exists>st2. gov_row (snd (ForceMode (wit_genv 3) (\<lambda>g. snd (Freeze (wit_genv 1) (\<lambda>g. g) wit_freeze g)) wit_force wit_gdb)) = Some st2 \<and>
     gs_Mode st2 = ModeNormal"
proof -
  let ?f = "Freeze (wit_genv 1) (\<lambda>g. g) wit_freeze wit_gdb"
  let ?m = "ForceMode (wit_genv 3) (\<lambda>g. snd (Freeze (wit_genv 1) (\<lambda>g. g) wit_freeze g)) wit_force wit_gdb"
  have a: "fst ?f = Inr (projr (fst ?f))" "IsFrozen (projr (fst ?f))" "fst ?m = Inr (projr (fst ?m))"
    "ge_read_ok (wit_genv 3)" by code_simp+
  have "gov_row wit_gdb = Some ((DefaultState 0)\<lparr>gs_Reason := []\<rparr>)" by (simp add: wit_gdb_def)
  from concurrent_force_mode_undoes_freeze [OF this a(4) split_result [OF a(1)] a(2) split_result [OF a(3)]]
  show ?thesis by (auto simp: DefaultState_def)
qed

theorem governance_changes_are_recorded_witness:
  "length (gov_audit (snd (Freeze (wit_genv 1) (\<lambda>g. g) wit_freeze wit_gdb))) = 1"
proof -
  let ?f = "Freeze (wit_genv 1) (\<lambda>g. g) wit_freeze wit_gdb"
  have a: "fst ?f = Inr (projr (fst ?f))" "ge_action_ok (wit_genv 1)" "ge_audit_ok (wit_genv 1)" "gov_audit wit_gdb = []"
    by code_simp+
  have "gov_run (wit_genv 1) (\<lambda>g. g) (RqFreeze wit_freeze) wit_gdb = (Inr (projr (fst ?f)), snd ?f)"
    using split_result [OF a(1)] by simp
  from governance_changes_are_recorded [OF a(2,3) this] a(4) show ?thesis by auto
qed

end
