(* ===== verification/Scorer.thy ===== *)
theory Scorer
  imports Float64
begin

text \<open>
  Data and priority scoring of the task orchestrator:
  \<open>src/internal/agent/task_orchestrator/types.go\<close> and \<open>scorer.go\<close>, in binary64 arithmetic
  with the operations in the order in which the Go expressions evaluate.
\<close>

section \<open>Tasks\<close>

datatype task_status =
  TaskStatusPending | TaskStatusQueued | TaskStatusRunning
  | TaskStatusCompleted | TaskStatusFailed | TaskStatusPaused

fun validTaskTransitions :: "task_status \<Rightarrow> task_status list" where
  "validTaskTransitions TaskStatusPending = [TaskStatusQueued, TaskStatusPaused]"
| "validTaskTransitions TaskStatusQueued = [TaskStatusRunning, TaskStatusPaused]"
| "validTaskTransitions TaskStatusRunning = [TaskStatusCompleted, TaskStatusFailed, TaskStatusPaused]"
| "validTaskTransitions TaskStatusCompleted = []"
| "validTaskTransitions TaskStatusFailed = []"
| "validTaskTransitions TaskStatusPaused = [TaskStatusQueued]"

definition ValidateTransition :: "task_status \<Rightarrow> task_status \<Rightarrow> bool" where
  "ValidateTransition from to \<longleftrightarrow> list_ex (\<lambda>a. a = to) (validTaskTransitions from)"

definition task_IsTerminal :: "task_status \<Rightarrow> bool" where
  "task_IsTerminal s \<longleftrightarrow> s = TaskStatusCompleted \<or> s = TaskStatusFailed"

record orch_task =
  ot_ID :: string
  ot_Source :: string
  ot_Goal :: string
  ot_PriorityScore :: f64
  ot_Status :: task_status
  ot_Urgency :: f64
  ot_ExpectedValue :: f64
  ot_RiskLevel :: f64
  ot_StrategyType :: string
  ot_ActuationDecisionID :: string
  ot_ExecutionTaskID :: string
  ot_OutcomeType :: string
  ot_LastError :: string
  ot_AttemptCount :: int
  ot_CompletedAt :: "time option"
  ot_CreatedAt :: time
  ot_UpdatedAt :: time

record queue_entry =
  qe_TaskID :: string
  qe_PriorityScore :: f64
  qe_InsertedAt :: time
  qe_LastUpdatedAt :: time

record scoring_input =
  si_ObjectiveSignalType :: string
  si_ObjectiveSignalStrength :: f64
  si_CapacityLoad :: f64

record vector_params =
  vp_RiskTolerance :: f64
  vp_IncomePriority :: f64

section \<open>Constants\<close>

definition WeightObjective :: f64 where "WeightObjective = f64 (30 / 100)"
definition WeightValue :: f64 where "WeightValue = f64 (25 / 100)"
definition WeightUrgency :: f64 where "WeightUrgency = f64 (20 / 100)"
definition WeightRecency :: f64 where "WeightRecency = f64 (10 / 100)"
definition WeightRisk :: f64 where "WeightRisk = f64 (15 / 100)"

definition MaxTasksInQueue :: nat where "MaxTasksInQueue = 50"
definition MaxTasksPerCycle :: int where "MaxTasksPerCycle = 3"
definition MaxRunningTasks :: int where "MaxRunningTasks = 2"
definition TaskTTLHours :: f64 where "TaskTTLHours = f64 24"
definition StarvationHours :: f64 where "StarvationHours = f64 6"
definition HighRiskThreshold :: f64 where "HighRiskThreshold = f64 (70 / 100)"
definition BlockedRisk :: f64 where "BlockedRisk = f64 (90 / 100)"
definition HighRiskMaxPrio :: f64 where "HighRiskMaxPrio = f64 (50 / 100)"
definition CooldownMinutes :: f64 where "CooldownMinutes = f64 5"
definition OverloadThreshold :: f64 where "OverloadThreshold = f64 (75 / 100)"
definition VectorBaselineRiskTolerance :: f64 where "VectorBaselineRiskTolerance = f64 (30 / 100)"
definition VectorBaselineIncomePriority :: f64 where "VectorBaselineIncomePriority = f64 (70 / 100)"

section \<open>Scoring\<close>

definition clamp :: "f64 \<Rightarrow> f64 \<Rightarrow> f64 \<Rightarrow> f64" where
  "clamp v mn mx = (if flt v mn then mn else if flt mx v then mx else v)"

definition clamp01 :: "f64 \<Rightarrow> f64" where
  "clamp01 v = (if flt v (Fin 0) then Fin 0 else if flt (Fin 1) v then Fin 1 else v)"

text \<open>
  \<open>Time.Sub\<close> saturates at the range of \<open>Duration\<close>; \<open>Duration.Hours\<close> and
  \<open>Duration.Minutes\<close> add the whole units and the rest.
\<close>

definition time_Sub :: "time \<Rightarrow> time \<Rightarrow> duration" where
  "time_Sub a b = max (- (2 ^ 63)) (min (2 ^ 63 - 1) (a - b))"

definition dur_in :: "duration \<Rightarrow> duration \<Rightarrow> f64" where
  "dur_in d u =
     (let whole = sgn d * (\<bar>d\<bar> div u); rest = d - whole * u
      in fadd (f64 (of_int whole)) (fdiv (f64 (of_int rest)) (f64 (of_int u))))"

definition dur_Hours :: "duration \<Rightarrow> f64" where "dur_Hours d = dur_in d Hour"
definition dur_Minutes :: "duration \<Rightarrow> f64" where "dur_Minutes d = dur_in d Minute"

definition ComputeRecencyBoost :: "time \<Rightarrow> time \<Rightarrow> f64" where
  "ComputeRecencyBoost createdAt now =
     (let waitHours = dur_Hours (time_Sub now createdAt) in
      if flt waitHours StarvationHours then Fin 0
      else clamp01 (fdiv (fsub waitHours StarvationHours) StarvationHours))"

definition IsExpired :: "orch_task \<Rightarrow> time \<Rightarrow> bool" where
  "IsExpired task now \<longleftrightarrow> flt TaskTTLHours (dur_Hours (time_Sub now (ot_CreatedAt task)))"

definition IsInCooldown :: "orch_task \<Rightarrow> time \<Rightarrow> bool" where
  "IsInCooldown task now \<longleftrightarrow> flt (dur_Minutes (time_Sub now (ot_UpdatedAt task))) CooldownMinutes"

definition objective_score :: "scoring_input \<Rightarrow> f64" where
  "objective_score inp =
     (if si_ObjectiveSignalType inp = ''penalty'' \<and> flt (Fin 0) (si_ObjectiveSignalStrength inp)
      then clamp01 (fsub (Fin 1) (si_ObjectiveSignalStrength inp)) else Fin 1)"

text \<open>The six-term sum both scoring functions start with.\<close>

definition base_sum :: "orch_task \<Rightarrow> scoring_input \<Rightarrow> f64 \<Rightarrow> time \<Rightarrow> f64" where
  "base_sum task inp portfolioBoost now =
     fadd (fsub (fadd (fadd (fadd
       (fmul (objective_score inp) WeightObjective)
       (fmul (clamp01 (fdiv (ot_ExpectedValue task) (f64 1000))) WeightValue))
       (fmul (clamp01 (ot_Urgency task)) WeightUrgency))
       (fmul (ComputeRecencyBoost (ot_CreatedAt task) now) WeightRecency))
       (fmul (clamp01 (ot_RiskLevel task)) WeightRisk))
       (clamp portfolioBoost (f64 (- 10 / 100)) (f64 (12 / 100)))"

definition ComputePriority :: "orch_task \<Rightarrow> scoring_input \<Rightarrow> f64 \<Rightarrow> time \<Rightarrow> f64" where
  "ComputePriority task inp portfolioBoost now =
     (let priority = clamp01 (base_sum task inp portfolioBoost now) in
      if flt HighRiskThreshold (ot_RiskLevel task) \<and> flt HighRiskMaxPrio priority
      then HighRiskMaxPrio else priority)"

definition ComputePriorityWithVector ::
  "orch_task \<Rightarrow> scoring_input \<Rightarrow> f64 \<Rightarrow> time \<Rightarrow> vector_params \<Rightarrow> f64"
where
  "ComputePriorityWithVector task inp portfolioBoost now v =
     (let incomeBoost = clamp01 (fmul (fsub (vp_IncomePriority v) VectorBaselineIncomePriority) (f64 (15 / 100)));
          priority = clamp01 (fadd (base_sum task inp portfolioBoost now) incomeBoost);
          ratio = fdiv (vp_RiskTolerance v) VectorBaselineRiskTolerance;
          adjHighRisk = clamp (fmul HighRiskThreshold ratio) (f64 (40 / 100)) (f64 (95 / 100));
          adjCap = clamp (fmul HighRiskMaxPrio ratio) (f64 (30 / 100)) (f64 (80 / 100))
      in if flt adjHighRisk (ot_RiskLevel task) \<and> flt adjCap priority then adjCap else priority)"

definition ShouldReduceDispatch :: "f64 \<Rightarrow> bool" where
  "ShouldReduceDispatch load \<longleftrightarrow> flt OverloadThreshold load"

section \<open>Properties\<close>

text \<open>A finite value between two rationals.\<close>

definition fin_in :: "rat \<Rightarrow> rat \<Rightarrow> f64 \<Rightarrow> bool" where
  "fin_in l u a \<longleftrightarrow> (\<exists>x. a = Fin x \<and> l \<le> x \<and> x \<le> u)"

lemma fin_in_not_NaN: "fin_in l u a \<Longrightarrow> a \<noteq> NaN"
  by (auto simp: fin_in_def)

lemma clamp01_in: "v \<noteq> NaN \<Longrightarrow> fin_in 0 1 (clamp01 v)"
  by (cases v) (auto simp: clamp01_def fin_in_def)

lemma clamp_in: "v \<noteq> NaN \<Longrightarrow> l \<le> u \<Longrightarrow> fin_in l u (clamp v (Fin l) (Fin u))"
  by (cases v) (auto simp: clamp_def fin_in_def)

lemma rnd_small: assumes "\<bar>x\<bar> \<le> 2 ^ 1000" shows "\<exists>y. rnd x = Fin y \<and> \<bar>y\<bar> \<le> 2 ^ 1000"
proof -
  have p: "rv (2 ^ 1000) = 2 ^ 1000" using rv_powi [of 1000] by (simp add: power_int_def)
  have "rv x \<le> 2 ^ 1000" using rv_mono [of x "2 ^ 1000"] assms p by simp
  moreover have "- (2 ^ 1000) \<le> rv x"
    using rv_mono [of "- (2 ^ 1000)" x] rv_minus [of "2 ^ 1000"] assms p by simp
  moreover have "(2::rat) ^ 1000 < 2 ^ 1024" by simp
  ultimately show ?thesis by (auto simp: rnd_def Let_def)
qed

lemma rnd_unit: assumes "0 \<le> x" "x \<le> 1" shows "\<exists>w. rnd x = Fin w \<and> 0 \<le> w \<and> w \<le> 1"
proof -
  have "0 \<le> rv x" "rv x \<le> 1" using rv_nonneg [OF assms(1)] rv_mono [OF assms(2)] by simp_all
  moreover have "(1::rat) < 2 ^ 1024" by simp
  ultimately have "rnd x = Fin (rv x)" unfolding rnd_def Let_def by (simp add: not_le)
  then show ?thesis using \<open>0 \<le> rv x\<close> \<open>rv x \<le> 1\<close> by blast
qed

lemma weights_finite:
  "\<exists>w. WeightObjective = Fin w \<and> 0 \<le> w \<and> w \<le> 1" "\<exists>w. WeightValue = Fin w \<and> 0 \<le> w \<and> w \<le> 1"
  "\<exists>w. WeightUrgency = Fin w \<and> 0 \<le> w \<and> w \<le> 1" "\<exists>w. WeightRecency = Fin w \<and> 0 \<le> w \<and> w \<le> 1"
  "\<exists>w. WeightRisk = Fin w \<and> 0 \<le> w \<and> w \<le> 1"
  unfolding WeightObjective_def WeightValue_def WeightUrgency_def WeightRecency_def WeightRisk_def
  by (rule rnd_unit; simp)+

lemma weighted_finite:
  assumes "fin_in 0 1 a" and "\<exists>w. b = Fin w \<and> 0 \<le> w \<and> w \<le> 1"
  shows "\<exists>x. fmul a b = Fin x"
proof -
  obtain x w where x: "a = Fin x" "0 \<le> x" "x \<le> 1" "b = Fin w" "0 \<le> w" "w \<le> 1"
    using assms by (auto simp: fin_in_def)
  then have "\<bar>x * w\<bar> \<le> 1" by (simp add: mult_le_one)
  moreover have "(1::rat) \<le> 2 ^ 1000" by simp
  ultimately have "\<bar>x * w\<bar> \<le> 2 ^ 1000" by (rule order_trans)
  then show ?thesis using rnd_small x by (metis fmul_Fin)
qed

lemma fdiv_const_not_NaN: "a \<noteq> NaN \<Longrightarrow> y \<noteq> 0 \<Longrightarrow> fdiv a (Fin y) \<noteq> NaN"
  by (cases a) (simp_all add: fdiv_def finf_def)

lemma fsub_not_NaN: "a \<noteq> NaN \<Longrightarrow> fsub a (Fin x) \<noteq> NaN"
  by (simp add: fsub_def fadd_not_NaN)

lemma fadd_Fin_not_NaN: "b \<noteq> NaN \<Longrightarrow> fadd (Fin x) b \<noteq> NaN"
  by (cases b) simp_all

lemma const_exact:
  "rnd 6 = Fin 6" "rnd 1000 = Fin 1000" "rnd 24 = Fin 24" "rnd 5 = Fin 5"
  using rnd_int [of 6] rnd_int [of 1000] rnd_int [of 24] rnd_int [of 5] by simp_all

lemma half_exact: "rnd (50 / 100) = Fin (1 / 2)"
proof -
  have "rv (1 / 2) = 1 / 2" using rv_powi [of "- 1"] by (simp add: power_int_def)
  then show ?thesis by (simp add: rnd_def)
qed

lemmas half_exact' = half_exact [simplified]

lemma dur_in_not_NaN:
  assumes "\<bar>d\<bar> \<le> 2 ^ 63" and "1 \<le> u" and "rnd (of_int u) = Fin (of_int u)"
  shows "dur_in d u \<noteq> NaN"
proof -
  have "\<bar>sgn d * (\<bar>d\<bar> div u)\<bar> \<le> 2 ^ 63"
  proof -
    have "\<bar>d\<bar> div u \<le> \<bar>d\<bar>" "0 \<le> \<bar>d\<bar> div u"
      using assms(2) zdiv_mono2 [of "\<bar>d\<bar>" 1 u] by (simp_all add: pos_imp_zdiv_nonneg_iff)
    then show ?thesis using assms(1) by (simp add: abs_mult)
  qed
  then have "\<bar>rat_of_int (sgn d * (\<bar>d\<bar> div u))\<bar> \<le> rat_of_int (2 ^ 63)"
    by (metis of_int_abs of_int_le_iff)
  also have "rat_of_int (2 ^ 63) \<le> 2 ^ 1000" by simp
  finally obtain y where y: "rnd (of_int (sgn d * (\<bar>d\<bar> div u))) = Fin y" using rnd_small by blast
  have "fdiv (rnd (of_int (d - sgn d * (\<bar>d\<bar> div u) * u))) (Fin (of_int u)) \<noteq> NaN"
    using assms(2) by (intro fdiv_const_not_NaN) simp_all
  then show ?thesis unfolding dur_in_def Let_def y assms(3) by (rule fadd_Fin_not_NaN)
qed

lemma dur_Hours_not_NaN: "dur_Hours (time_Sub a b) \<noteq> NaN"
  unfolding dur_Hours_def
proof (rule dur_in_not_NaN)
  show "\<bar>time_Sub a b\<bar> \<le> 2 ^ 63" by (simp add: time_Sub_def)
  show "rnd (of_int Hour) = Fin (of_int Hour)" by (rule rnd_int) (simp add: duration_defs)
qed (simp add: duration_defs)

lemma recency_in: "fin_in 0 1 (ComputeRecencyBoost c now)"
proof -
  have "fdiv (fsub (dur_Hours (time_Sub now c)) (Fin 6)) (Fin 6) \<noteq> NaN"
    using fdiv_const_not_NaN fsub_not_NaN [OF dur_Hours_not_NaN] by simp
  then show ?thesis
    using clamp01_in by (simp add: ComputeRecencyBoost_def Let_def StarvationHours_def const_exact fin_in_def [of _ _ "Fin 0"])
qed

lemma objective_in: "si_ObjectiveSignalStrength inp \<noteq> NaN \<Longrightarrow> fin_in 0 1 (objective_score inp)"
  by (auto simp: objective_score_def fin_in_def [of _ _ "Fin 1"] fsub_def fadd_Fin_not_NaN
      intro!: clamp01_in) (cases "si_ObjectiveSignalStrength inp"; simp)

definition task_numeric :: "orch_task \<Rightarrow> bool" where
  "task_numeric t \<longleftrightarrow> ot_Urgency t \<noteq> NaN \<and> ot_ExpectedValue t \<noteq> NaN \<and> ot_RiskLevel t \<noteq> NaN"

lemma base_sum_terms:
  assumes "task_numeric t" and "si_ObjectiveSignalStrength inp \<noteq> NaN" and "pb \<noteq> NaN"
  shows "\<exists>v e c. v \<noteq> NaN \<and> (\<forall>now. base_sum t inp pb now
     = fadd (fsub (fadd v (fmul (ComputeRecencyBoost (ot_CreatedAt t) now) WeightRecency)) (Fin e)) (Fin c))"
proof -
  have "fin_in 0 1 (clamp01 (fdiv (ot_ExpectedValue t) (f64 1000)))" "fin_in 0 1 (clamp01 (ot_Urgency t))"
    "fin_in 0 1 (clamp01 (ot_RiskLevel t))"
    using assms(1) clamp01_in fdiv_const_not_NaN [of "ot_ExpectedValue t" 1000]
    by (simp_all add: task_numeric_def const_exact)
  then obtain a b c e where
    "fmul (objective_score inp) WeightObjective = Fin a"
    "fmul (clamp01 (fdiv (ot_ExpectedValue t) (f64 1000))) WeightValue = Fin b"
    "fmul (clamp01 (ot_Urgency t)) WeightUrgency = Fin c"
    "fmul (clamp01 (ot_RiskLevel t)) WeightRisk = Fin e"
    using weighted_finite weights_finite objective_in [OF assms(2)] by metis
  moreover obtain s where "clamp pb (f64 (- 10 / 100)) (f64 (12 / 100)) = Fin s"
  proof -
    obtain l u where "rnd (- 10 / 100) = Fin l" "rnd (12 / 100) = Fin u" "l \<le> u"
      using rnd_unit [of "12 / 100"] rnd_unit [of "10 / 100"] rnd_minus [of "10 / 100"] by fastforce
    then show ?thesis using clamp_in [OF assms(3)] that by (metis fin_in_def)
  qed
  ultimately show ?thesis unfolding base_sum_def
    by (intro exI [of _ "fadd (fadd (Fin a) (Fin b)) (Fin c)"] exI [of _ e] exI [of _ s])
      (simp add: fadd_not_NaN del: fadd.simps)
qed

lemma recency_weighted: "\<exists>x. fmul (ComputeRecencyBoost c now) WeightRecency = Fin x"
  using weighted_finite recency_in weights_finite(4) by blast




lemma rnd_nonzero: assumes "2 powi k \<le> x" "- 1074 \<le> k" "x \<le> 1" shows "\<exists>w. rnd x = Fin w \<and> 0 < w"
proof -
  have "(0::rat) < 2 powi k" by simp
  then have "0 < x" "0 < rv x" using rv_mono [OF assms(1)] rv_powi [OF assms(2)] assms(1) by linarith+
  then show ?thesis using rnd_unit [of x] assms(3) by (auto simp: rnd_def Let_def split: if_splits)
qed





definition sample_task :: "f64 \<Rightarrow> f64 \<Rightarrow> f64 \<Rightarrow> orch_task" where
  "sample_task val urgency risk =
     \<lparr>ot_ID = ''t1'', ot_Source = ''manual'', ot_Goal = ''write invoice'', ot_PriorityScore = Fin 0,
      ot_Status = TaskStatusPending, ot_Urgency = urgency, ot_ExpectedValue = val, ot_RiskLevel = risk,
      ot_StrategyType = '''', ot_ActuationDecisionID = '''', ot_ExecutionTaskID = '''', ot_OutcomeType = '''',
      ot_LastError = '''', ot_AttemptCount = 0, ot_CompletedAt = None, ot_CreatedAt = 0, ot_UpdatedAt = 0\<rparr>"

definition neutral_input :: scoring_input where
  "neutral_input = \<lparr>si_ObjectiveSignalType = '''', si_ObjectiveSignalStrength = Fin 0, si_CapacityLoad = Fin 0\<rparr>"



lemma representable_fadd: "representable (fadd a b)"
  by (cases a; cases b) (auto simp: representable_def [of PInf] representable_def [of NInf] representable_def [of NaN])

lemma fadd_0: "representable a \<Longrightarrow> fadd a (Fin 0) = a"
  by (cases a) (simp_all add: rnd_fixed)

lemma fmul_1: "representable a \<Longrightarrow> fmul a (Fin 1) = a"
  by (cases a) (simp_all add: rnd_fixed fmul_def finf_def)

lemma clamp_id: "x \<le> y \<Longrightarrow> y \<le> z \<Longrightarrow> clamp (rnd y) (rnd x) (rnd z) = rnd y"
  using rnd_mono [of x y] rnd_mono [of y z]
  by (auto simp: clamp_def not_flt_fle [symmetric])

text \<open>
  At the baseline control vector the vector-aware score is exactly, to the last bit, the
  score without a vector, for every task and every input.
\<close>

theorem baseline_vector_is_neutral:
  "ComputePriorityWithVector t inp pb now
     \<lparr>vp_RiskTolerance = VectorBaselineRiskTolerance, vp_IncomePriority = VectorBaselineIncomePriority\<rparr>
   = ComputePriority t inp pb now"
proof -
  obtain i where i: "VectorBaselineIncomePriority = Fin i"
    using rnd_unit [of "70 / 100"] by (auto simp: VectorBaselineIncomePriority_def)
  obtain r where r: "VectorBaselineRiskTolerance = Fin r" "0 < r"
    using rnd_nonzero [of "- 2" "30 / 100"] by (auto simp: VectorBaselineRiskTolerance_def power_int_def power2_eq_square)
  obtain k where k: "rnd (15 / 100) = Fin k" using rnd_unit [of "15 / 100"] by auto
  have "clamp01 (fmul (fsub VectorBaselineIncomePriority VectorBaselineIncomePriority) (f64 (15 / 100))) = Fin 0"
    by (simp only: i k fsub_Fin fmul_Fin) (simp add: clamp01_def)
  moreover have "fdiv VectorBaselineRiskTolerance VectorBaselineRiskTolerance = Fin 1"
    using r(2) by (simp add: r(1))
  moreover have "clamp (fmul HighRiskThreshold (Fin 1)) (f64 (40 / 100)) (f64 (95 / 100)) = HighRiskThreshold"
    unfolding HighRiskThreshold_def fmul_1 [OF representable_rnd] by (rule clamp_id) simp_all
  moreover have "clamp (fmul HighRiskMaxPrio (Fin 1)) (f64 (30 / 100)) (f64 (80 / 100)) = HighRiskMaxPrio"
    unfolding HighRiskMaxPrio_def fmul_1 [OF representable_rnd] by (rule clamp_id) simp_all
  moreover have "fadd (base_sum t inp pb now) (Fin 0) = base_sum t inp pb now"
    by (simp add: base_sum_def fadd_0 representable_fadd)
  ultimately show ?thesis by (simp add: ComputePriorityWithVector_def ComputePriority_def)
qed

section \<open>Ageing\<close>

lemma fadd_mono: assumes "fle a b" shows "fle (fadd a (Fin x)) (fadd b (Fin x))"
proof (cases a; cases b)
  fix u v assume "a = Fin u" "b = Fin v"
  then show ?thesis using assms rnd_mono [of "u + x" "v + x"] by simp
qed (use assms in \<open>auto simp: fle_def feq_def rnd_def Let_def\<close>)

lemma fsub_mono: "fle a b \<Longrightarrow> fle (fsub a (Fin x)) (fsub b (Fin x))"
  by (simp add: fsub_def fadd_mono)

lemma fmul_mono: "u \<le> v \<Longrightarrow> 0 \<le> w \<Longrightarrow> fle (fmul (Fin u) (Fin w)) (fmul (Fin v) (Fin w))"
  by (simp add: rnd_mono mult_right_mono)

lemma fdiv_mono: assumes "fle a b" and "0 < y" shows "fle (fdiv a (Fin y)) (fdiv b (Fin y))"
proof (cases a; cases b)
  fix u v assume "a = Fin u" "b = Fin v"
  then show ?thesis using assms rnd_mono [of "u / y" "v / y"] by (simp add: divide_right_mono)
qed (use assms in \<open>auto simp: fle_def feq_def fdiv_def finf_def rnd_def Let_def\<close>)

lemma fadd_mono2: "u \<le> v \<Longrightarrow> fle (fadd a (Fin u)) (fadd a (Fin v))" if "a \<noteq> NaN"
  using that by (cases a) (simp_all add: rnd_mono)

lemma clamp01_mono: "fle a b \<Longrightarrow> fle (clamp01 a) (clamp01 b)"
  by (cases a; cases b) (auto simp: clamp01_def fle_def feq_def)

lemma dur_in_split:
  assumes "0 \<le> d" "d div u < 2 ^ 53" "0 < u" "rnd (of_int u) = Fin (of_int u)" "u < 2 ^ 53"
  shows "dur_in d u = rnd (of_int (d div u) + rv (of_int (d mod u) / of_int u))"
proof -
  have q: "0 \<le> d div u" using assms by (simp add: pos_imp_zdiv_nonneg_iff)
  have m: "0 \<le> d mod u" "d mod u < u" using assms by simp_all
  have w: "sgn d * (\<bar>d\<bar> div u) = d div u" using assms(1) by (cases "d = 0") (simp_all add: sgn_if)
  have "rat_of_int (d mod u) / of_int u \<le> 1" "0 \<le> rat_of_int (d mod u) / of_int u"
    using m by (simp_all add: divide_le_eq)
  then have "rnd (of_int (d mod u) / of_int u) = Fin (rv (of_int (d mod u) / of_int u))"
    using rnd_unit by (fastforce simp: rnd_def Let_def split: if_splits)
  moreover have "rnd (of_int (d div u)) = Fin (of_int (d div u))"
    "rnd (of_int (d mod u)) = Fin (of_int (d mod u))" using rnd_int assms q m by simp_all
  moreover have "d - d div u * u = d mod u" by (simp add: minus_div_mult_eq_mod)
  ultimately show ?thesis using assms(3,4) unfolding dur_in_def Let_def w by simp
qed

lemma hours_split:
  assumes "0 \<le> d" "d < 2 ^ 63"
  shows "dur_Hours d = rnd (of_int (d div Hour) + rv (of_int (d mod Hour) / of_int Hour))"
  unfolding dur_Hours_def
proof (rule dur_in_split)
  show "d div Hour < 2 ^ 53" using assms(2) by (simp add: duration_defs)
  show "rnd (of_int Hour) = Fin (of_int Hour)" by (rule rnd_int) (simp add: duration_defs)
qed (use assms in \<open>simp_all add: duration_defs\<close>)

lemma frac_unit: "0 \<le> rv (of_int (d mod Hour) / of_int Hour)" "rv (of_int (d mod Hour) / of_int Hour) \<le> 1"
proof -
  have "0 \<le> d mod Hour" "d mod Hour \<le> Hour" by (simp_all add: duration_defs less_imp_le)
  then have "0 \<le> rat_of_int (d mod Hour) / of_int Hour" "rat_of_int (d mod Hour) / of_int Hour \<le> 1"
    by (simp_all add: duration_defs divide_le_eq)
  then show "0 \<le> rv (of_int (d mod Hour) / of_int Hour)" "rv (of_int (d mod Hour) / of_int Hour) \<le> 1"
    using rv_nonneg rv_mono [of _ 1] by simp_all
qed

lemma hours_mono: assumes "0 \<le> d" "d \<le> e" "e < 2 ^ 63" shows "fle (dur_Hours d) (dur_Hours e)"
proof -
  have dd: "d < 2 ^ 63" "0 \<le> e" using assms by simp_all
  have "d div Hour \<le> e div Hour" using assms(2) by (simp add: zdiv_mono1 duration_defs)
  then consider "d div Hour = e div Hour" | "d div Hour + 1 \<le> e div Hour" by linarith
  then have "of_int (d div Hour) + rv (of_int (d mod Hour) / of_int Hour)
     \<le> of_int (e div Hour) + rv (of_int (e mod Hour) / of_int Hour)"
  proof cases
    case 1
    then have "d mod Hour \<le> e mod Hour" using assms(2) by (metis add_le_cancel_left div_mult_mod_eq)
    then have "rat_of_int (d mod Hour) / of_int Hour \<le> of_int (e mod Hour) / of_int Hour"
      by (simp add: divide_right_mono duration_defs)
    then show ?thesis using 1 rv_mono by simp
  next
    case 2
    then have "rat_of_int (d div Hour) + 1 \<le> of_int (e div Hour)" by (metis of_int_1 of_int_add of_int_le_iff)
    then show ?thesis using frac_unit(2) [of d] frac_unit(1) [of e] by linarith
  qed
  then show ?thesis using hours_split [OF assms(1) dd(1)] hours_split [OF dd(2) assms(3)] rnd_mono by simp
qed

lemma hours_nonpos: assumes "\<bar>d\<bar> \<le> 2 ^ 63" "d \<le> 0" shows "fle (dur_Hours d) (Fin 0)"
proof -
  let ?q = "\<bar>d\<bar> div Hour"
  have q: "0 \<le> ?q" "?q * Hour \<le> \<bar>d\<bar>" "?q < 2 ^ 53"
    using assms(1) by (simp_all add: duration_defs)
  have w: "sgn d * ?q = - ?q" using assms(2) by (cases "d = 0") simp_all
  have rest: "rat_of_int (d - - ?q * Hour) \<le> 0" using q(2) assms(2) by (simp only: of_int_le_0_iff)
  have "fle (fdiv (rnd (of_int (d - - ?q * Hour))) (Fin (of_int Hour))) (Fin 0)"
    using fdiv_mono [OF rnd_mono [OF rest], of "of_int Hour"] by (simp add: duration_defs del: of_int_diff)
  moreover have "rnd (of_int (- ?q)) = Fin (of_int (- ?q))" using rnd_int [of "- ?q"] q by simp
  moreover have "rnd (of_int Hour) = Fin (of_int Hour)" by (rule rnd_int) (simp add: duration_defs)
  moreover have "fle (fadd (Fin (of_int (- ?q))) r) (Fin 0)" if "fle r (Fin 0)" for r
  proof (cases r)
    case (Fin x)
    then show ?thesis using that q(1) rnd_mono [of "of_int (- ?q) + x" 0] by simp
  qed (use that in \<open>auto simp: fle_def feq_def\<close>)
  ultimately show ?thesis unfolding dur_Hours_def dur_in_def Let_def w by simp
qed

lemma recency_mono: assumes "now \<le> later" shows "fle (ComputeRecencyBoost c now) (ComputeRecencyBoost c later)"
proof (cases "time_Sub now c \<le> 0")
  case True
  then have "fle (dur_Hours (time_Sub now c)) (Fin 0)" by (rule hours_nonpos [rotated]) (simp add: time_Sub_def)
  then have "ComputeRecencyBoost c now = Fin 0"
    by (cases "dur_Hours (time_Sub now c)")
      (auto simp: ComputeRecencyBoost_def StarvationHours_def const_exact fle_def feq_def)
  then show ?thesis using recency_in [of c later] by (auto simp: fin_in_def)
next
  case False
  have "time_Sub now c \<le> time_Sub later c" "time_Sub later c < 2 ^ 63" using assms by (simp_all add: time_Sub_def)
  then have h: "fle (dur_Hours (time_Sub now c)) (dur_Hours (time_Sub later c))"
    using hours_mono False by simp
  show ?thesis
  proof (cases "flt (dur_Hours (time_Sub now c)) (Fin 6)")
    case True
    then show ?thesis using recency_in [of c later]
      by (auto simp: fin_in_def ComputeRecencyBoost_def [of c now] StarvationHours_def const_exact)
  next
    case False
    then have "\<not> flt (dur_Hours (time_Sub later c)) (Fin 6)"
      using h flt_negtrans [of "dur_Hours (time_Sub now c)" "dur_Hours (time_Sub later c)" "Fin 6"]
      by (simp add: dur_Hours_not_NaN not_flt_fle)
    then show ?thesis using False clamp01_mono [OF fdiv_mono [OF fsub_mono [OF h]], of 6 6]
      by (simp add: ComputeRecencyBoost_def StarvationHours_def const_exact)
  qed
qed

text \<open>
  A task never loses priority by waiting: with the other inputs unchanged, its score at a
  later time is at least its score at an earlier one, through every rounding step.
\<close>

theorem waiting_never_lowers_priority:
  assumes "task_numeric t" and "si_ObjectiveSignalStrength inp \<noteq> NaN" and "pb \<noteq> NaN"
    and "now \<le> later"
  shows "fle (ComputePriority t inp pb now) (ComputePriority t inp pb later)"
proof -
  obtain v e c where v: "v \<noteq> NaN" and sum: "\<And>n. base_sum t inp pb n
     = fadd (fsub (fadd v (fmul (ComputeRecencyBoost (ot_CreatedAt t) n) WeightRecency)) (Fin e)) (Fin c)"
    using base_sum_terms [OF assms(1-3)] by blast
  obtain x y w where r: "ComputeRecencyBoost (ot_CreatedAt t) now = Fin x"
      "ComputeRecencyBoost (ot_CreatedAt t) later = Fin y" "x \<le> y" and w: "WeightRecency = Fin w" "0 \<le> w"
    using recency_in [of "ot_CreatedAt t"] recency_mono [OF assms(4), of "ot_CreatedAt t"] weights_finite(4)
    unfolding fin_in_def by (metis fle_Fin)
  obtain p q where "fmul (Fin x) (Fin w) = Fin p" "fmul (Fin y) (Fin w) = Fin q" "p \<le> q"
    using recency_weighted [of "ot_CreatedAt t"] r w fmul_mono [OF r(3) w(2)] by (metis fle_Fin)
  then have "fle (base_sum t inp pb now) (base_sum t inp pb later)"
    unfolding sum r w(1) by (simp add: fadd_mono fsub_mono fadd_mono2 [OF v] del: fmul_Fin fadd.simps)
  then have "fle (clamp01 (base_sum t inp pb now)) (clamp01 (base_sum t inp pb later))" by (rule clamp01_mono)
  then show ?thesis
    using half_exact' by (cases "clamp01 (base_sum t inp pb now)"; cases "clamp01 (base_sum t inp pb later)")
      (auto simp: ComputePriority_def HighRiskMaxPrio_def fle_def feq_def)
qed

theorem waiting_never_lowers_priority_witness:
  "fle (ComputePriority (sample_task (Fin 300) (Fin (1 / 2)) (Fin 0)) neutral_input (Fin 0) (Hour * 7))
       (ComputePriority (sample_task (Fin 300) (Fin (1 / 2)) (Fin 0)) neutral_input (Fin 0) (Hour * 11))"
  by (rule waiting_never_lowers_priority)
    (simp_all add: task_numeric_def sample_task_def neutral_input_def duration_defs)

end
