(* ===== verification/Go_Sort.thy ===== *)
theory Go_Sort
  imports Prelude
begin

text \<open>
  The insertion sorts of the program: two nested loops that swap neighbours of a slice, once without
  and once with an early exit of the inner loop. They are written for any comparison, and the locale
  states what they need of it: on the elements that occur, it is asymmetric and its negation is
  transitive. The sorts of the queue entries and of the task emissions interpret it.
\<close>

fun swap_down :: "('r \<Rightarrow> 'r \<Rightarrow> bool) \<Rightarrow> nat \<Rightarrow> 'r list \<Rightarrow> 'r list" where
  "swap_down before 0 es = es"
| "swap_down before (Suc j) es =
     swap_down before j (if before (es ! Suc j) (es ! j) then es[Suc j := es ! j, j := es ! Suc j] else es)"

fun sift_down :: "('r \<Rightarrow> 'r \<Rightarrow> bool) \<Rightarrow> nat \<Rightarrow> 'r list \<Rightarrow> 'r list" where
  "sift_down before 0 es = es"
| "sift_down before (Suc j) es =
     (if before (es ! Suc j) (es ! j) then sift_down before j (es[Suc j := es ! j, j := es ! Suc j]) else es)"

lemma length_swap_down [simp]: "length (swap_down before j es) = length es"
  by (induction before j es rule: swap_down.induct) simp_all

lemma mset_swap_down: "j < length es \<Longrightarrow> mset (swap_down before j es) = mset es"
  by (induction before j es rule: swap_down.induct) (auto simp: mset_swap)

lemma mset_sift_down: "j < length es \<Longrightarrow> mset (sift_down before j es) = mset es"
  by (induction before j es rule: sift_down.induct) (auto simp: mset_swap)

lemma mset_outer:
  assumes "\<And>j es. j < length es \<Longrightarrow> mset (inner j es) = mset es"
  shows "mset (fold inner [1..<length es] es) = mset es"
proof -
  have "mset (fold inner is es) = mset es" if "\<forall>i \<in> set is. i < length es" for "is"
    using that
  proof (induction "is" arbitrary: es)
    case (Cons i "is")
    then have "mset (inner i es) = mset es" using assms by simp
    moreover from this have "length (inner i es) = length es" by (rule mset_eq_length)
    ultimately show ?case using Cons by simp
  qed simp
  then show ?thesis by simp
qed

lemma drop_swap_down: "j < n \<Longrightarrow> drop n (swap_down before j es) = drop n es"
  by (induction before j es rule: swap_down.induct) auto

lemma nth_swap_down: "j < n \<Longrightarrow> n < length es \<Longrightarrow> swap_down before j es ! n = es ! n"
  using arg_cong [OF drop_swap_down [of j n before es], of hd] by (simp add: hd_drop_conv_nth)

lemma set_take_swap_down:
  assumes "j < length es"
  shows "set (take (Suc j) (swap_down before j es)) = set (take (Suc j) es)"
proof -
  have "mset (take (Suc j) (swap_down before j es)) + mset (drop (Suc j) es) = mset (take (Suc j) es) + mset (drop (Suc j) es)"
    using mset_swap_down [OF assms] drop_swap_down [of j "Suc j" before es]
    by (metis append_take_drop_id lessI mset_append)
  then show ?thesis by (metis add_right_cancel set_mset_mset)
qed

lemma ordered_snoc: "ordered_by lt (xs @ [x]) \<longleftrightarrow> ordered_by lt xs \<and> (\<forall>y \<in> set xs. \<not> lt x y)"
  by (auto simp: ordered_by_def sorted_wrt_append)

lemma ordered_nth: "ordered_by lt xs \<Longrightarrow> i < j \<Longrightarrow> j < length xs \<Longrightarrow> \<not> lt (xs ! j) (xs ! i)"
  by (simp add: ordered_by_def sorted_wrt_iff_nth_less)

lemma swap_down_ordered: "j < length es \<Longrightarrow> ordered_by before (take (Suc j) es) \<Longrightarrow> swap_down before j es = es"
proof (induction j)
  case (Suc j)
  have "\<not> before (es ! Suc j) (es ! j)" using ordered_nth [OF Suc.prems(2), of j "Suc j"] Suc.prems(1) by simp
  moreover have "ordered_by before (take (Suc j) es)"
    using Suc.prems by (simp add: take_Suc_conv_app_nth [of "Suc j"] ordered_snoc)
  ultimately show ?case using Suc by simp
qed simp

text \<open>On an ordered prefix the early exit changes nothing.\<close>

lemma sift_is_swap: "j < length es \<Longrightarrow> ordered_by before (take j es) \<Longrightarrow> sift_down before j es = swap_down before j es"
proof (induction before j es rule: sift_down.induct)
  case (2 before j es)
  have "ordered_by before (take j es)" using 2(2,3) by (simp add: take_Suc_conv_app_nth [of j] ordered_snoc)
  then show ?case using 2 swap_down_ordered [of j es before] by simp
qed simp

locale sort_order =
  fixes before :: "'r \<Rightarrow> 'r \<Rightarrow> bool" and sound :: "'r \<Rightarrow> bool"
  assumes before_asym: "before a b \<Longrightarrow> \<not> before b a"
    and before_negtrans: "sound a \<Longrightarrow> sound b \<Longrightarrow> sound c \<Longrightarrow> \<not> before a b \<Longrightarrow> \<not> before b c \<Longrightarrow> \<not> before a c"
begin

lemma swap_down_step:
  assumes "j < length es" and "list_all sound es" and "ordered_by before (take j es)"
  shows "ordered_by before (take (Suc j) (swap_down before j es))"
  using assms
proof (induction j arbitrary: es)
  case 0
  then show ?case by (cases es) simp_all
next
  case (Suc j)
  let ?es = "if before (es ! Suc j) (es ! j) then es[Suc j := es ! j, j := es ! Suc j] else es"
  have sc: "\<And>i. i < length es \<Longrightarrow> sound (es ! i)" using Suc(3) by (simp add: list_all_length)
  have pre: "ordered_by before (take j es)" and lst: "\<forall>y \<in> set (take j es). \<not> before (es ! j) y"
    using Suc(2,4) by (simp_all add: take_Suc_conv_app_nth ordered_snoc)
  have all: "list_all sound ?es" using Suc(2) sc Suc(3) by (auto simp: list_all_length nth_list_update)
  have IH: "ordered_by before (take (Suc j) (swap_down before j ?es))" using Suc(1) [OF _ all] Suc(2) pre by simp
  have nth: "swap_down before j ?es ! Suc j = ?es ! Suc j" by (rule nth_swap_down) (use Suc(2) in simp_all)
  have pres: "set (take (Suc j) (swap_down before j ?es)) = set (take (Suc j) ?es)"
    using set_take_swap_down [of j ?es] Suc(2) by simp
  have "\<not> before (?es ! Suc j) y" if "y \<in> set (take (Suc j) ?es)" for y
  proof (cases "before (es ! Suc j) (es ! j)")
    case True
    then have "y = es ! Suc j \<or> y \<in> set (take j es)" using that Suc(2) by (auto simp: take_Suc_conv_app_nth)
    then show ?thesis using True lst Suc(2) before_asym by auto
  next
    case False
    then have "y = es ! j \<or> y \<in> set (take j es)" using that Suc(2) by (auto simp: take_Suc_conv_app_nth)
    moreover have "sound y" using calculation sc Suc(2,3) by (auto simp: list_all_iff dest: in_set_takeD)
    ultimately show ?thesis using False lst before_negtrans [of "es ! Suc j" "es ! j" y] sc Suc(2) by auto
  qed
  then show ?case using IH nth pres Suc(2) by (simp add: take_Suc_conv_app_nth [of "Suc j"] ordered_snoc)
qed

text \<open>The outer loop, for an inner loop that agrees with \<open>swap_down\<close> on ordered prefixes.\<close>

lemma outer_loop:
  assumes "\<And>j es. j < length es \<Longrightarrow> ordered_by before (take j es) \<Longrightarrow> inner j es = swap_down before j es"
    and "list_all sound es" and "n \<le> length es"
  shows "mset (fold inner [1..<n] es) = mset es \<and> ordered_by before (take n (fold inner [1..<n] es))"
  using assms(3)
proof (induction n)
  case (Suc n)
  let ?r = "fold inner [1..<n] es"
  have IH: "mset ?r = mset es" "ordered_by before (take n ?r)" using Suc by simp_all
  have len: "n < length ?r" using Suc.prems IH(1) by (metis Suc_le_eq size_mset)
  have sc: "list_all sound ?r" using IH(1) assms(2) by (metis list.pred_set set_mset_mset)
  show ?case
  proof (cases n)
    case 0
    then show ?thesis using Suc.prems by (cases es) simp_all
  next
    case (Suc m)
    then have "fold inner [1..<Suc n] es = swap_down before n ?r" using assms(1) [OF len IH(2)] by simp
    then show ?thesis using mset_swap_down [OF len] swap_down_step [OF len sc IH(2)] IH(1) by simp
  qed
qed simp

lemma swap_sort_sorts:
  assumes "list_all sound es" and "r = fold (swap_down before) [1..<length es] es"
  shows "mset r = mset es \<and> ordered_by before r"
  using outer_loop [of "swap_down before" es "length es"] assms by (metis order_refl size_mset take_all)

lemma sift_sort_sorts:
  assumes "list_all sound es" and "r = fold (sift_down before) [1..<length es] es"
  shows "mset r = mset es \<and> ordered_by before r"
  using outer_loop [of "sift_down before" es "length es", OF sift_is_swap] assms by (metis order_refl size_mset take_all)

end

end
