(* ===== verification/Task_Store.thy ===== *)
theory Task_Store
  imports Scorer Go_Sort "HOL-Library.AList"
begin

text \<open>
  Persistence of the task orchestrator: \<open>src/internal/agent/task_orchestrator/store.go\<close>. The two
  Go interfaces are one record of operations over a store type; the PostgreSQL stores and the
  in-memory stores are its two values. What the engine relies on is the locale \<open>task_store\<close>,
  interpreted on both. A PostgreSQL call may fail before or after its statement took effect, and a
  row iteration may break off: which calls do is a list in the state, so the lemmas cover every
  pattern of failures.
\<close>

section \<open>Interfaces\<close>

datatype orch_error =
  ErrTaskNotFound | ErrInvalidTransition | ErrGovernanceFrozen | ErrMaxRunning
  | ErrDB | ErrWrap string orch_error

record 's store_ops =
  t_Insert :: "orch_task \<Rightarrow> 's \<Rightarrow> orch_error option \<times> 's"
  t_Get :: "string \<Rightarrow> 's \<Rightarrow> (orch_error + orch_task) \<times> 's"
  t_Update :: "orch_task \<Rightarrow> 's \<Rightarrow> orch_error option \<times> 's"
  t_List :: "int \<Rightarrow> 's \<Rightarrow> (orch_error + orch_task list) \<times> 's"
  t_ListByStatus :: "task_status \<Rightarrow> int \<Rightarrow> 's \<Rightarrow> (orch_error + orch_task list) \<times> 's"
  t_CountByStatus :: "task_status \<Rightarrow> 's \<Rightarrow> (orch_error + nat) \<times> 's"
  t_FindByActuationDecision :: "string \<Rightarrow> 's \<Rightarrow> (orch_error + string) \<times> 's"
  t_SetActuationDecisionID :: "time \<Rightarrow> string \<Rightarrow> string \<Rightarrow> 's \<Rightarrow> orch_error option \<times> 's"
  t_SetExecutionTaskID :: "time \<Rightarrow> string \<Rightarrow> string \<Rightarrow> 's \<Rightarrow> orch_error option \<times> 's"
  t_SetOutcome :: "time \<Rightarrow> string \<Rightarrow> string \<Rightarrow> string \<Rightarrow> int \<Rightarrow> 's \<Rightarrow> orch_error option \<times> 's"
  q_Upsert :: "queue_entry \<Rightarrow> 's \<Rightarrow> orch_error option \<times> 's"
  q_Remove :: "string \<Rightarrow> 's \<Rightarrow> orch_error option \<times> 's"
  q_List :: "int \<Rightarrow> 's \<Rightarrow> (orch_error + queue_entry list) \<times> 's"
  q_Count :: "'s \<Rightarrow> (orch_error + nat) \<times> 's"

section \<open>PostgreSQL\<close>

text \<open>The two nullable text columns; the other columns hold the field as it is.\<close>

record task_row =
  tr_Task :: orch_task
  tr_actuation_decision_id :: "string option"
  tr_execution_task_id :: "string option"

definition nilIfEmpty :: "string \<Rightarrow> string option" where
  "nilIfEmpty s = (if s = '''' then None else Some s)"

definition coalesce :: "string option \<Rightarrow> string" where
  "coalesce c = (case c of None \<Rightarrow> '''' | Some s \<Rightarrow> s)"

definition to_row :: "orch_task \<Rightarrow> task_row" where
  "to_row t = \<lparr>tr_Task = t\<lparr>ot_ActuationDecisionID := '''', ot_ExecutionTaskID := ''''\<rparr>,
     tr_actuation_decision_id = nilIfEmpty (ot_ActuationDecisionID t),
     tr_execution_task_id = nilIfEmpty (ot_ExecutionTaskID t)\<rparr>"

definition from_row :: "task_row \<Rightarrow> orch_task" where
  "from_row r = (tr_Task r)\<lparr>ot_ActuationDecisionID := coalesce (tr_actuation_decision_id r),
     ot_ExecutionTaskID := coalesce (tr_execution_task_id r)\<rparr>"

abbreviation row_id :: "task_row \<Rightarrow> string" where "row_id r \<equiv> ot_ID (tr_Task r)"

datatype fault = NoFault | FaultBefore | FaultAfter | FaultAfterRows nat

record pg =
  pg_tasks :: "task_row list"
  pg_queue :: "queue_entry list"
  pg_faults :: "fault list"

definition pg_next :: "pg \<Rightarrow> fault \<times> pg" where
  "pg_next s = (case pg_faults s of [] \<Rightarrow> (NoFault, s) | f # fs \<Rightarrow> (f, s\<lparr>pg_faults := fs\<rparr>))"

text \<open>A statement is None where it violates a constraint of the table.\<close>

definition pg_exec :: "string \<Rightarrow> (pg \<Rightarrow> pg option) \<Rightarrow> pg \<Rightarrow> orch_error option \<times> pg" where
  "pg_exec msg stmt s =
     (let (f, s) = pg_next s; err = Some (ErrWrap msg ErrDB) in
      case (f, stmt s) of
        (NoFault, Some s') \<Rightarrow> (None, s')
      | (FaultAfter, Some s') \<Rightarrow> (err, s')
      | _ \<Rightarrow> (err, s))"

definition pg_row :: "string \<Rightarrow> (pg \<Rightarrow> 'v) \<Rightarrow> pg \<Rightarrow> (orch_error + 'v) \<times> pg" where
  "pg_row msg q s =
     (let (f, s) = pg_next s in if f = NoFault then (Inr (q s), s) else (Inl (ErrWrap msg ErrDB), s))"

text \<open>The row loops end at the first row that cannot be fetched and do not ask why.\<close>

definition pg_rows :: "string \<Rightarrow> (pg \<Rightarrow> 'v list) \<Rightarrow> pg \<Rightarrow> (orch_error + 'v list) \<times> pg" where
  "pg_rows msg q s =
     (let (f, s) = pg_next s in
      case f of
        NoFault \<Rightarrow> (Inr (q s), s)
      | FaultAfterRows n \<Rightarrow> (Inr (take n (q s)), s)
      | _ \<Rightarrow> (Inl (ErrWrap msg ErrDB), s))"

definition list_limit :: "int \<Rightarrow> nat" where
  "list_limit limit = (if limit \<le> 0 \<or> 200 < limit then 50 else nat limit)"

definition created_desc :: "task_row \<Rightarrow> task_row \<Rightarrow> bool" where
  "created_desc a b \<longleftrightarrow> ot_CreatedAt (tr_Task b) < ot_CreatedAt (tr_Task a)"

text \<open>PostgreSQL orders NaN above every other value.\<close>

definition pg_flt :: "f64 \<Rightarrow> f64 \<Rightarrow> bool" where
  "pg_flt a b \<longleftrightarrow> (if b = NaN then a \<noteq> NaN else flt a b)"

definition pg_before :: "queue_entry \<Rightarrow> queue_entry \<Rightarrow> bool" where
  "pg_before a b \<longleftrightarrow> pg_flt (qe_PriorityScore b) (qe_PriorityScore a) \<or>
     qe_PriorityScore a = qe_PriorityScore b \<and> qe_InsertedAt a < qe_InsertedAt b"

definition pg_Insert :: "orch_task \<Rightarrow> pg \<Rightarrow> orch_error option \<times> pg" where
  "pg_Insert t = pg_exec ''insert orchestrated task'' (\<lambda>s.
     if row_of row_id (pg_tasks s) (ot_ID t) = None \<and> int4 (ot_AttemptCount t)
     then Some (s\<lparr>pg_tasks := pg_tasks s @ [to_row t]\<rparr>) else None)"

definition pg_Get :: "string \<Rightarrow> pg \<Rightarrow> (orch_error + orch_task) \<times> pg" where
  "pg_Get tid s =
     (case pg_row ''get orchestrated task'' (\<lambda>s. row_of row_id (pg_tasks s) tid) s of
        (Inl e, s) \<Rightarrow> (Inl e, s)
      | (Inr None, s) \<Rightarrow> (Inl ErrTaskNotFound, s)
      | (Inr (Some r), s) \<Rightarrow> (Inr (from_row r), s))"

definition update_row :: "orch_task \<Rightarrow> task_row \<Rightarrow> task_row" where
  "update_row t r = to_row (t\<lparr>ot_Source := ot_Source (tr_Task r), ot_Goal := ot_Goal (tr_Task r),
     ot_CreatedAt := ot_CreatedAt (tr_Task r)\<rparr>)"

definition pg_Update :: "orch_task \<Rightarrow> pg \<Rightarrow> orch_error option \<times> pg" where
  "pg_Update t = pg_exec ''update orchestrated task'' (\<lambda>s.
     if int4 (ot_AttemptCount t)
     then Some (s\<lparr>pg_tasks := sql_update (\<lambda>r. row_id r = ot_ID t) (update_row t) (pg_tasks s)\<rparr>) else None)"

definition pg_List :: "int \<Rightarrow> pg \<Rightarrow> (orch_error + orch_task list) \<times> pg" where
  "pg_List limit = pg_rows ''list orchestrated tasks'' (\<lambda>s.
     map from_row (take (list_limit limit) (sql_sort created_desc (pg_tasks s))))"

definition pg_ListByStatus :: "task_status \<Rightarrow> int \<Rightarrow> pg \<Rightarrow> (orch_error + orch_task list) \<times> pg" where
  "pg_ListByStatus st limit = pg_rows ''list orchestrated tasks by status'' (\<lambda>s.
     map from_row (take (list_limit limit)
       (sql_sort created_desc (filter (\<lambda>r. ot_Status (tr_Task r) = st) (pg_tasks s)))))"

definition pg_CountByStatus :: "task_status \<Rightarrow> pg \<Rightarrow> (orch_error + nat) \<times> pg" where
  "pg_CountByStatus st = pg_row ''count orchestrated tasks'' (\<lambda>s.
     sql_count (\<lambda>r. ot_Status (tr_Task r) = st) (pg_tasks s))"

definition pg_FindByActuationDecision :: "string \<Rightarrow> pg \<Rightarrow> (orch_error + string) \<times> pg" where
  "pg_FindByActuationDecision d = pg_row ''find by actuation decision'' (\<lambda>s.
     case find (\<lambda>r. tr_actuation_decision_id r = Some d) (pg_tasks s) of None \<Rightarrow> '''' | Some r \<Rightarrow> row_id r)"

text \<open>The single-column statements; \<open>NOW()\<close> is the instant argument.\<close>

definition pg_set :: "string \<Rightarrow> string \<Rightarrow> (task_row \<Rightarrow> task_row) \<Rightarrow> pg \<Rightarrow> orch_error option \<times> pg" where
  "pg_set msg tid f = pg_exec msg (\<lambda>s. Some (s\<lparr>pg_tasks := sql_update (\<lambda>r. row_id r = tid) f (pg_tasks s)\<rparr>))"

definition pg_SetActuationDecisionID :: "time \<Rightarrow> string \<Rightarrow> string \<Rightarrow> pg \<Rightarrow> orch_error option \<times> pg" where
  "pg_SetActuationDecisionID now tid d = pg_set ''set actuation decision id'' tid
     (\<lambda>r. r\<lparr>tr_actuation_decision_id := Some d, tr_Task := (tr_Task r)\<lparr>ot_UpdatedAt := now\<rparr>\<rparr>)"

definition pg_SetExecutionTaskID :: "time \<Rightarrow> string \<Rightarrow> string \<Rightarrow> pg \<Rightarrow> orch_error option \<times> pg" where
  "pg_SetExecutionTaskID now tid x = pg_set ''set execution task id'' tid
     (\<lambda>r. r\<lparr>tr_execution_task_id := Some x, tr_Task := (tr_Task r)\<lparr>ot_UpdatedAt := now\<rparr>\<rparr>)"

definition pg_SetOutcome :: "time \<Rightarrow> string \<Rightarrow> string \<Rightarrow> string \<Rightarrow> int \<Rightarrow> pg \<Rightarrow> orch_error option \<times> pg" where
  "pg_SetOutcome now tid outcome err n = pg_exec ''set outcome'' (\<lambda>s.
     if int4 n
     then Some (s\<lparr>pg_tasks := sql_update (\<lambda>r. row_id r = tid)
       (\<lambda>r. r\<lparr>tr_Task := (tr_Task r)\<lparr>ot_OutcomeType := outcome, ot_LastError := err, ot_AttemptCount := n,
          ot_CompletedAt := Some now, ot_UpdatedAt := now\<rparr>\<rparr>) (pg_tasks s)\<rparr>)
     else None)"

text \<open>\<open>INSERT .. ON CONFLICT (task_id) DO UPDATE\<close>: the entry keeps its insertion time.\<close>

definition queue_upsert :: "queue_entry \<Rightarrow> queue_entry list \<Rightarrow> queue_entry list" where
  "queue_upsert e qs =
     (if row_of qe_TaskID qs (qe_TaskID e) = None then qs @ [e]
      else sql_update (\<lambda>q. qe_TaskID q = qe_TaskID e)
        (\<lambda>q. q\<lparr>qe_PriorityScore := qe_PriorityScore e, qe_LastUpdatedAt := qe_LastUpdatedAt e\<rparr>) qs)"

definition pg_Upsert :: "queue_entry \<Rightarrow> pg \<Rightarrow> orch_error option \<times> pg" where
  "pg_Upsert e = pg_exec ''upsert queue entry'' (\<lambda>s.
     if row_of row_id (pg_tasks s) (qe_TaskID e) = None then None
     else Some (s\<lparr>pg_queue := queue_upsert e (pg_queue s)\<rparr>))"

definition pg_Remove :: "string \<Rightarrow> pg \<Rightarrow> orch_error option \<times> pg" where
  "pg_Remove tid = pg_exec ''remove queue entry'' (\<lambda>s.
     Some (s\<lparr>pg_queue := filter (\<lambda>q. qe_TaskID q \<noteq> tid) (pg_queue s)\<rparr>))"

definition queue_limit :: "int \<Rightarrow> nat" where
  "queue_limit limit = (if limit \<le> 0 \<or> 200 < limit then MaxTasksInQueue else nat limit)"

definition pg_QueueList :: "int \<Rightarrow> pg \<Rightarrow> (orch_error + queue_entry list) \<times> pg" where
  "pg_QueueList limit = pg_rows ''list queue entries'' (\<lambda>s.
     take (queue_limit limit) (sql_sort pg_before (pg_queue s)))"

definition pg_QueueCount :: "pg \<Rightarrow> (orch_error + nat) \<times> pg" where
  "pg_QueueCount = pg_row ''count queue entries'' (\<lambda>s. length (pg_queue s))"

definition pg_ops :: "pg store_ops" where
  "pg_ops = \<lparr>t_Insert = pg_Insert, t_Get = pg_Get, t_Update = pg_Update, t_List = pg_List,
     t_ListByStatus = pg_ListByStatus, t_CountByStatus = pg_CountByStatus,
     t_FindByActuationDecision = pg_FindByActuationDecision,
     t_SetActuationDecisionID = pg_SetActuationDecisionID, t_SetExecutionTaskID = pg_SetExecutionTaskID,
     t_SetOutcome = pg_SetOutcome, q_Upsert = pg_Upsert, q_Remove = pg_Remove, q_List = pg_QueueList,
     q_Count = pg_QueueCount\<rparr>"

section \<open>In memory\<close>

text \<open>
  Go maps are association lists with distinct keys; their order stands for the iteration order,
  which Go leaves open.
\<close>

record mem =
  mem_tasks :: "(string \<times> orch_task) list"
  mem_order :: "string list"
  mem_entries :: "(string \<times> queue_entry) list"

definition mem_Insert :: "orch_task \<Rightarrow> mem \<Rightarrow> orch_error option \<times> mem" where
  "mem_Insert t s = (None, s\<lparr>mem_tasks := AList.update (ot_ID t) t (mem_tasks s), mem_order := mem_order s @ [ot_ID t]\<rparr>)"

definition mem_Get :: "string \<Rightarrow> mem \<Rightarrow> (orch_error + orch_task) \<times> mem" where
  "mem_Get tid s = (case map_of (mem_tasks s) tid of None \<Rightarrow> (Inl ErrTaskNotFound, s) | Some t \<Rightarrow> (Inr t, s))"

text \<open>An assignment guarded by the presence of the key.\<close>

definition mem_modify :: "string \<Rightarrow> (orch_task \<Rightarrow> orch_task) \<Rightarrow> mem \<Rightarrow> orch_error option \<times> mem" where
  "mem_modify tid f s =
     (case map_of (mem_tasks s) tid of
        None \<Rightarrow> (Some ErrTaskNotFound, s)
      | Some t \<Rightarrow> (None, s\<lparr>mem_tasks := AList.update tid (f t) (mem_tasks s)\<rparr>))"

definition mem_Update :: "orch_task \<Rightarrow> mem \<Rightarrow> orch_error option \<times> mem" where
  "mem_Update t = mem_modify (ot_ID t) (\<lambda>_. t)"

text \<open>The backward scan over \<open>order\<close> until enough tasks are found.\<close>

fun mem_scan :: "(string \<Rightarrow> orch_task option) \<Rightarrow> (orch_task \<Rightarrow> bool) \<Rightarrow> nat \<Rightarrow> string list \<Rightarrow> orch_task list" where
  "mem_scan m P n [] = []"
| "mem_scan m P n (k # ks) =
     (if n = 0 then []
      else case m k of
             None \<Rightarrow> mem_scan m P n ks
           | Some t \<Rightarrow> if P t then t # mem_scan m P (n - 1) ks else mem_scan m P n ks)"

definition mem_List :: "int \<Rightarrow> mem \<Rightarrow> (orch_error + orch_task list) \<times> mem" where
  "mem_List limit s =
     (let n = length (mem_order s); lim = (if limit \<le> 0 \<or> int n < limit then n else nat limit)
      in (Inr (mem_scan (map_of (mem_tasks s)) (\<lambda>_. True) lim (rev (mem_order s))), s))"

definition mem_ListByStatus :: "task_status \<Rightarrow> int \<Rightarrow> mem \<Rightarrow> (orch_error + orch_task list) \<times> mem" where
  "mem_ListByStatus st limit s =
     (Inr (mem_scan (map_of (mem_tasks s)) (\<lambda>t. ot_Status t = st) (nat limit) (rev (mem_order s))), s)"

definition mem_CountByStatus :: "task_status \<Rightarrow> mem \<Rightarrow> (orch_error + nat) \<times> mem" where
  "mem_CountByStatus st s = (Inr (length (filter (\<lambda>(k, t). ot_Status t = st) (mem_tasks s))), s)"

definition mem_FindByActuationDecision :: "string \<Rightarrow> mem \<Rightarrow> (orch_error + string) \<times> mem" where
  "mem_FindByActuationDecision d s =
     (case find (\<lambda>(k, t). ot_ActuationDecisionID t = d) (mem_tasks s) of
        None \<Rightarrow> (Inr '''', s) | Some (k, t) \<Rightarrow> (Inr (ot_ID t), s))"

definition mem_SetActuationDecisionID :: "time \<Rightarrow> string \<Rightarrow> string \<Rightarrow> mem \<Rightarrow> orch_error option \<times> mem" where
  "mem_SetActuationDecisionID now tid d = mem_modify tid (\<lambda>t. t\<lparr>ot_ActuationDecisionID := d\<rparr>)"

definition mem_SetExecutionTaskID :: "time \<Rightarrow> string \<Rightarrow> string \<Rightarrow> mem \<Rightarrow> orch_error option \<times> mem" where
  "mem_SetExecutionTaskID now tid x = mem_modify tid (\<lambda>t. t\<lparr>ot_ExecutionTaskID := x\<rparr>)"

definition mem_SetOutcome :: "time \<Rightarrow> string \<Rightarrow> string \<Rightarrow> string \<Rightarrow> int \<Rightarrow> mem \<Rightarrow> orch_error option \<times> mem" where
  "mem_SetOutcome now tid outcome err n = mem_modify tid (\<lambda>t. t\<lparr>ot_OutcomeType := outcome, ot_LastError := err,
     ot_AttemptCount := n, ot_CompletedAt := Some now\<rparr>)"

definition mem_Upsert :: "queue_entry \<Rightarrow> mem \<Rightarrow> orch_error option \<times> mem" where
  "mem_Upsert e s = (None, s\<lparr>mem_entries := AList.update (qe_TaskID e) e (mem_entries s)\<rparr>)"

definition mem_Remove :: "string \<Rightarrow> mem \<Rightarrow> orch_error option \<times> mem" where
  "mem_Remove tid s = (None, s\<lparr>mem_entries := AList.delete tid (mem_entries s)\<rparr>)"

definition entry_before :: "queue_entry \<Rightarrow> queue_entry \<Rightarrow> bool" where
  "entry_before a b \<longleftrightarrow> flt (qe_PriorityScore b) (qe_PriorityScore a) \<or>
     feq (qe_PriorityScore a) (qe_PriorityScore b) \<and> qe_InsertedAt a < qe_InsertedAt b"

text \<open>The inner loop runs \<open>j\<close> down to 1 and swaps neighbours; it has no early exit.\<close>

definition sort_inner :: "nat \<Rightarrow> queue_entry list \<Rightarrow> queue_entry list" where
  "sort_inner = swap_down entry_before"

definition sortQueueEntries :: "queue_entry list \<Rightarrow> queue_entry list" where
  "sortQueueEntries es = fold sort_inner [1..<length es] es"

definition mem_QueueList :: "int \<Rightarrow> mem \<Rightarrow> (orch_error + queue_entry list) \<times> mem" where
  "mem_QueueList limit s =
     (let es = sortQueueEntries (map snd (mem_entries s))
      in (Inr (if 0 < limit \<and> limit < int (length es) then take (nat limit) es else es), s))"

definition mem_QueueCount :: "mem \<Rightarrow> (orch_error + nat) \<times> mem" where
  "mem_QueueCount s = (Inr (length (mem_entries s)), s)"

definition mem_ops :: "mem store_ops" where
  "mem_ops = \<lparr>t_Insert = mem_Insert, t_Get = mem_Get, t_Update = mem_Update, t_List = mem_List,
     t_ListByStatus = mem_ListByStatus, t_CountByStatus = mem_CountByStatus,
     t_FindByActuationDecision = mem_FindByActuationDecision,
     t_SetActuationDecisionID = mem_SetActuationDecisionID, t_SetExecutionTaskID = mem_SetExecutionTaskID,
     t_SetOutcome = mem_SetOutcome, q_Upsert = mem_Upsert, q_Remove = mem_Remove, q_List = mem_QueueList,
     q_Count = mem_QueueCount\<rparr>"

section \<open>The in-memory sort\<close>

definition scored :: "queue_entry \<Rightarrow> bool" where "scored e \<longleftrightarrow> qe_PriorityScore e \<noteq> NaN"

lemma entry_before_asym: "entry_before a b \<Longrightarrow> \<not> entry_before b a"
  by (auto simp: entry_before_def feq_def dest: flt_asym)

lemma entry_before_negtrans:
  assumes "scored a" "scored b" "scored c" "\<not> entry_before a b" "\<not> entry_before b c"
  shows "\<not> entry_before a c"
  using assms flt_or_eq [of "qe_PriorityScore a" "qe_PriorityScore b"]
    flt_or_eq [of "qe_PriorityScore b" "qe_PriorityScore c"]
    flt_negtrans [of "qe_PriorityScore b" "qe_PriorityScore c" "qe_PriorityScore a"]
  by (auto simp: entry_before_def feq_def scored_def dest: flt_asym)

interpretation queue_sort: sort_order entry_before scored
  by unfold_locales (fact entry_before_asym, fact entry_before_negtrans)

lemma sortQueueEntries_sorted:
  assumes "list_all scored es"
  shows "mset (sortQueueEntries es) = mset es \<and> ordered_by entry_before (sortQueueEntries es)"
  using queue_sort.swap_sort_sorts [OF assms refl] by (simp add: sortQueueEntries_def sort_inner_def)

text \<open>
  The in-memory queue listing sorts correctly: \<open>sortQueueEntries\<close> returns the same entries,
  highest priority first and oldest first among equal priorities.
\<close>

theorem sortQueueEntries_sorts:
  assumes "list_all scored es"
  shows "mset (sortQueueEntries es) = mset es \<and> ordered_by entry_before (sortQueueEntries es)"
  using assms by (rule sortQueueEntries_sorted)

theorem sortQueueEntries_sorts_witness:
  "ordered_by entry_before (sortQueueEntries
     (map (\<lambda>(p, i). \<lparr>qe_TaskID = ''t'', qe_PriorityScore = Fin p, qe_InsertedAt = i, qe_LastUpdatedAt = 0\<rparr>)
        [(1 / 4, 5), (3 / 4, 9), (1 / 4, 2), (1, 1)]))"
  by (rule sortQueueEntries_sorts [THEN conjunct2]) (simp add: scored_def)

section \<open>The contract of a store\<close>

text \<open>
  What the engine sees of a store: the tasks and the queue entries by task identifier. A write
  whose result is an error may or may not have taken effect; a healthy store has no failures.
\<close>

record store_abs =
  ab_tasks :: "string \<rightharpoonup> orch_task"
  ab_queue :: "string \<rightharpoonup> queue_entry"

definition same_origin :: "orch_task \<Rightarrow> orch_task \<Rightarrow> bool" where
  "same_origin t u \<longleftrightarrow> ot_Source t = ot_Source u \<and> ot_Goal t = ot_Goal u \<and> ot_CreatedAt t = ot_CreatedAt u"

definition with_status :: "task_status \<Rightarrow> store_abs \<Rightarrow> string set" where
  "with_status st a = {i. \<exists>t. ab_tasks a i = Some t \<and> ot_Status t = st}"

definition status_of :: "store_abs \<Rightarrow> string \<Rightarrow> task_status option" where
  "status_of a i = map_option ot_Status (ab_tasks a i)"

text \<open>How a write with error result \<open>e\<close> may leave the store.\<close>

definition wrote :: "orch_error option \<Rightarrow> store_abs \<Rightarrow> store_abs \<Rightarrow> store_abs \<Rightarrow> bool" where
  "wrote e old new a \<longleftrightarrow> a = new \<or> a = old \<and> e \<noteq> None"

locale task_store =
  fixes ops :: "'s store_ops" and good :: "'s \<Rightarrow> bool" and healthy :: "'s \<Rightarrow> bool"
    and view :: "'s \<Rightarrow> store_abs"
  assumes good_finite: "good s \<Longrightarrow> finite (dom (ab_tasks (view s)))"
    and good_id: "good s \<Longrightarrow> ab_tasks (view s) i = Some t \<Longrightarrow> ot_ID t = i"
    and good_qid: "good s \<Longrightarrow> ab_queue (view s) i = Some q \<Longrightarrow> qe_TaskID q = i"
    and get_law: "good s \<Longrightarrow> t_Get ops i s = (rg, s') \<Longrightarrow>
      good s' \<and> (healthy s \<longrightarrow> healthy s') \<and> view s' = view s \<and> (\<forall>t. rg = Inr t \<longrightarrow> ab_tasks (view s) i = Some t)
      \<and> (healthy s \<longrightarrow> rg = (case ab_tasks (view s) i of None \<Rightarrow> Inl ErrTaskNotFound | Some t \<Rightarrow> Inr t))"
    and insert_law: "good s \<Longrightarrow> ab_tasks (view s) (ot_ID t) = None \<Longrightarrow> t_Insert ops t s = (e, s') \<Longrightarrow>
      good s' \<and> (healthy s \<longrightarrow> healthy s') \<and>
      wrote e (view s) ((view s)\<lparr>ab_tasks := (ab_tasks (view s))(ot_ID t \<mapsto> t)\<rparr>) (view s')
      \<and> (healthy s \<longrightarrow> int4 (ot_AttemptCount t) \<longrightarrow> e = None) \<and> (healthy s \<longrightarrow> e \<noteq> None \<longrightarrow> view s' = view s)"
    and update_law: "good s \<Longrightarrow> ab_tasks (view s) (ot_ID t) = Some u \<Longrightarrow> same_origin t u \<Longrightarrow>
      t_Update ops t s = (e, s') \<Longrightarrow>
      good s' \<and> (healthy s \<longrightarrow> healthy s') \<and>
      wrote e (view s) ((view s)\<lparr>ab_tasks := (ab_tasks (view s))(ot_ID t \<mapsto> t)\<rparr>) (view s')
      \<and> (healthy s \<longrightarrow> int4 (ot_AttemptCount t) \<longrightarrow> e = None) \<and> (healthy s \<longrightarrow> e \<noteq> None \<longrightarrow> view s' = view s)"
    and list_law: "good s \<Longrightarrow> t_ListByStatus ops st n s = (rl, s') \<Longrightarrow>
      good s' \<and> (healthy s \<longrightarrow> healthy s') \<and> view s' = view s \<and>
      (\<forall>ts. rl = Inr ts \<longrightarrow> distinct (map ot_ID ts) \<and>
        (\<forall>t \<in> set ts. ab_tasks (view s) (ot_ID t) = Some t \<and> ot_Status t = st))"
    and count_law: "good s \<Longrightarrow> t_CountByStatus ops st s = (rn, s') \<Longrightarrow>
      good s' \<and> (healthy s \<longrightarrow> healthy s') \<and> view s' = view s \<and> (\<forall>n. rn = Inr n \<longrightarrow> n = card (with_status st (view s)))"
    and upsert_law: "good s \<Longrightarrow> ab_tasks (view s) (qe_TaskID q) \<noteq> None \<Longrightarrow> q_Upsert ops q s = (e, s') \<Longrightarrow>
      good s' \<and> (healthy s \<longrightarrow> healthy s') \<and>
      (\<exists>q'. qe_TaskID q' = qe_TaskID q \<and> qe_PriorityScore q' = qe_PriorityScore q \<and>
        wrote e (view s) ((view s)\<lparr>ab_queue := (ab_queue (view s))(qe_TaskID q \<mapsto> q')\<rparr>) (view s')) \<and>
      (healthy s \<longrightarrow> e = None)"
    and remove_law: "good s \<Longrightarrow> q_Remove ops i s = (e, s') \<Longrightarrow>
      good s' \<and> (healthy s \<longrightarrow> healthy s') \<and>
      wrote e (view s) ((view s)\<lparr>ab_queue := (ab_queue (view s))(i := None)\<rparr>) (view s') \<and> (healthy s \<longrightarrow> e = None)"
    and queue_law: "good s \<Longrightarrow> 0 < n \<Longrightarrow> n \<le> 200 \<Longrightarrow> q_List ops n s = (rq, s') \<Longrightarrow>
      good s' \<and> (healthy s \<longrightarrow> healthy s') \<and> view s' = view s \<and>
      (\<forall>es. rq = Inr es \<longrightarrow> distinct (map qe_TaskID es) \<and> length es \<le> nat n \<and>
        (\<forall>q \<in> set es. ab_queue (view s) (qe_TaskID q) = Some q))"
    and queue_order_law: "good s \<Longrightarrow> 0 < n \<Longrightarrow> n \<le> 200 \<Longrightarrow> q_List ops n s = (Inr es, s') \<Longrightarrow>
      (\<forall>i q. ab_queue (view s) i = Some q \<longrightarrow> scored q) \<Longrightarrow>
      ordered_by entry_before es \<and>
      (\<forall>q \<in> set es. \<forall>i q'. ab_queue (view s) i = Some q' \<longrightarrow> q' \<in> set es \<or> \<not> entry_before q' q)"
    and qcount_law: "good s \<Longrightarrow> q_Count ops s = (rc, s') \<Longrightarrow>
      good s' \<and> (healthy s \<longrightarrow> healthy s') \<and> view s' = view s"
    and set_laws: "good s \<Longrightarrow>
      s' \<in> {snd (t_SetActuationDecisionID ops now i x s), snd (t_SetExecutionTaskID ops now i x s),
             snd (t_SetOutcome ops now i x y k s)} \<Longrightarrow>
      good s' \<and> (healthy s \<longrightarrow> healthy s') \<and> ab_queue (view s') = ab_queue (view s) \<and>
      status_of (view s') = status_of (view s)"

section \<open>The PostgreSQL stores meet it\<close>

definition pg_good :: "pg \<Rightarrow> bool" where
  "pg_good s \<longleftrightarrow> keyed row_id (pg_tasks s) \<and> keyed qe_TaskID (pg_queue s)"

definition pg_healthy :: "pg \<Rightarrow> bool" where "pg_healthy s \<longleftrightarrow> pg_faults s = []"

definition pg_abs :: "pg \<Rightarrow> store_abs" where
  "pg_abs s = \<lparr>ab_tasks = (\<lambda>i. map_option from_row (row_of row_id (pg_tasks s) i)), ab_queue = row_of qe_TaskID (pg_queue s)\<rparr>"

lemma from_to_row [simp]: "from_row (to_row t) = t"
  by (cases t) (simp add: from_row_def to_row_def nilIfEmpty_def coalesce_def)

lemma row_id_to_row [simp]: "row_id (to_row t) = ot_ID t"
  by (simp add: to_row_def)

lemma row_id_update_row [simp]: "row_id (update_row t r) = ot_ID t"
  by (simp add: update_row_def)

lemma from_row_fields [simp]:
  "ot_ID (from_row r) = row_id r" "ot_Status (from_row r) = ot_Status (tr_Task r)"
  "ot_Source (from_row r) = ot_Source (tr_Task r)" "ot_Goal (from_row r) = ot_Goal (tr_Task r)"
  "ot_CreatedAt (from_row r) = ot_CreatedAt (tr_Task r)"
  by (simp_all add: from_row_def)

text \<open>The effect of a failing or succeeding statement.\<close>

lemma pg_next_cases: "pg_next s = (f, s') \<Longrightarrow> pg_tasks s' = pg_tasks s \<and> pg_queue s' = pg_queue s \<and>
    pg_good s' = pg_good s \<and> pg_abs s' = pg_abs s \<and> (pg_healthy s \<longrightarrow> f = NoFault \<and> s' = s)"
  by (auto simp: pg_next_def pg_good_def pg_abs_def pg_healthy_def split: list.splits)

lemma pg_exec_rule:
  assumes "pg_exec msg stmt s = (e, s')" and "pg_good s"
    and "\<And>s0 s1. pg_tasks s0 = pg_tasks s \<Longrightarrow> pg_queue s0 = pg_queue s \<Longrightarrow> stmt s0 = Some s1 \<Longrightarrow>
      pg_good s1 \<and> pg_abs s1 = new \<and> pg_faults s1 = pg_faults s0"
  shows "pg_good s' \<and> (pg_healthy s \<longrightarrow> pg_healthy s') \<and> wrote e (pg_abs s) new (pg_abs s') \<and>
    (pg_healthy s \<longrightarrow> stmt s \<noteq> None \<longrightarrow> e = None) \<and> (pg_healthy s \<longrightarrow> e \<noteq> None \<longrightarrow> pg_abs s' = pg_abs s)"
proof -
  obtain f s0 where n: "pg_next s = (f, s0)" by fastforce
  note c = pg_next_cases [OF n]
  have same: "pg_good s0" "pg_abs s0 = pg_abs s" "pg_tasks s0 = pg_tasks s" "pg_queue s0 = pg_queue s"
    "pg_healthy s \<longrightarrow> f = NoFault \<and> s0 = s" using c assms(2) by simp_all
  show ?thesis
  proof (cases "stmt s0")
    case None
    then have "s' = s0" "e \<noteq> None" using assms(1) by (auto simp: pg_exec_def n Let_def split: fault.splits)
    then show ?thesis using None same by (auto simp: wrote_def)
  next
    case (Some s1)
    then have "pg_good s1" "pg_abs s1 = new" "pg_faults s1 = pg_faults s0" using assms(3) same by blast+
    moreover have "e = None \<and> f = NoFault \<and> s' = s1 \<or> e \<noteq> None \<and> f \<noteq> NoFault \<and> (s' = s0 \<or> s' = s1)"
      using Some assms(1) by (auto simp: pg_exec_def n Let_def split: fault.splits)
    ultimately show ?thesis using same by (auto simp: wrote_def pg_healthy_def)
  qed
qed

lemma pg_row_rule:
  assumes "pg_row msg q s = (r, s')" and "\<And>s0. pg_tasks s0 = pg_tasks s \<Longrightarrow> pg_queue s0 = pg_queue s \<Longrightarrow> q s0 = q s"
  shows "pg_good s' = pg_good s \<and> (pg_healthy s \<longrightarrow> pg_healthy s') \<and> pg_abs s' = pg_abs s \<and>
    (\<forall>v. r = Inr v \<longrightarrow> v = q s) \<and> (pg_healthy s \<longrightarrow> r = Inr (q s))"
proof -
  obtain f s0 where n: "pg_next s = (f, s0)" by fastforce
  note c = pg_next_cases [OF n]
  have "q s0 = q s" using c assms(2) by blast
  then show ?thesis using assms(1) c unfolding pg_row_def n by (auto split: if_splits)
qed

lemma pg_rows_rule:
  assumes "pg_rows msg q s = (r, s')" and "\<And>s0. pg_tasks s0 = pg_tasks s \<Longrightarrow> pg_queue s0 = pg_queue s \<Longrightarrow> q s0 = q s"
  shows "pg_good s' = pg_good s \<and> (pg_healthy s \<longrightarrow> pg_healthy s') \<and> pg_abs s' = pg_abs s \<and>
    (\<forall>vs. r = Inr vs \<longrightarrow> (\<exists>n. vs = take n (q s)))"
proof -
  obtain f s0 where n: "pg_next s = (f, s0)" by fastforce
  note c = pg_next_cases [OF n]
  have "q s0 = q s" using c assms(2) by blast
  then show ?thesis using assms(1) c unfolding pg_rows_def n
    by (cases f) (auto intro: exI [of _ "length (q s)"])
qed

lemma keyed_task_update:
  "keyed row_id ts \<Longrightarrow> (\<And>r. row_id r = i \<Longrightarrow> row_id (f r) = i) \<Longrightarrow> keyed row_id (sql_update (\<lambda>r. row_id r = i) f ts)"
  by (rule keyed_sql_update) simp_all

lemma row_of_task_update:
  "(\<And>r. row_id r = i \<Longrightarrow> row_id (f r) = i) \<Longrightarrow>
   row_of row_id (sql_update (\<lambda>r. row_id r = i) f ts) k = map_option (\<lambda>r. if row_id r = i then f r else r) (row_of row_id ts k)"
  by (rule row_of_sql_update) simp

lemma pg_update_abs:
  assumes "pg_good s" and "ab_tasks (pg_abs s) (ot_ID t) = Some u" and "same_origin t u"
  defines "s1 \<equiv> s\<lparr>pg_tasks := sql_update (\<lambda>r. row_id r = ot_ID t) (update_row t) (pg_tasks s)\<rparr>"
  shows "pg_good s1 \<and> pg_abs s1 = (pg_abs s)\<lparr>ab_tasks := (ab_tasks (pg_abs s))(ot_ID t \<mapsto> t)\<rparr>"
proof -
  obtain r where r: "row_of row_id (pg_tasks s) (ot_ID t) = Some r" "u = from_row r"
    using assms(2) by (auto simp: pg_abs_def)
  have "update_row t r = to_row t" using assms(3) r by (cases t) (simp add: update_row_def same_origin_def)
  moreover have "row_of row_id (pg_tasks s1) i
     = map_option (\<lambda>r. if row_id r = ot_ID t then update_row t r else r) (row_of row_id (pg_tasks s) i)" for i
    by (simp add: s1_def row_of_task_update)
  ultimately have "map_option from_row (row_of row_id (pg_tasks s1) i) = ((ab_tasks (pg_abs s))(ot_ID t \<mapsto> t)) i" for i
    using r by (cases "row_of row_id (pg_tasks s) i"; cases "i = ot_ID t") (auto simp: pg_abs_def dest: row_of_SomeD)
  moreover have "pg_good s1" using assms(1) by (simp add: s1_def pg_good_def keyed_task_update)
  ultimately show ?thesis by (auto simp: pg_abs_def s1_def fun_eq_iff)
qed

lemma pg_count_abs:
  assumes "keyed row_id ts"
  shows "sql_count (\<lambda>r. ot_Status (tr_Task r) = st) ts
    = card {i. \<exists>t. map_option from_row (row_of row_id ts i) = Some t \<and> ot_Status t = st}"
proof -
  have "{i. \<exists>t. map_option from_row (row_of row_id ts i) = Some t \<and> ot_Status t = st}
      = row_id ` set (filter (\<lambda>r. ot_Status (tr_Task r) = st) ts)" (is "?L = ?R")
  proof
    show "?L \<subseteq> ?R" using row_of_SomeD [of row_id ts] by fastforce
    show "?R \<subseteq> ?L" using keyed_row_of [OF assms] by auto
  qed
  moreover have "distinct (map row_id (filter (\<lambda>r. ot_Status (tr_Task r) = st) ts))"
    using assms by (simp add: keyed_def distinct_map_filter)
  then have "card ?R = sql_count (\<lambda>r. ot_Status (tr_Task r) = st) ts"
    using distinct_card by (fastforce simp: sql_count_def)
  ultimately show ?thesis by simp
qed

lemma distinct_take_sort: "keyed key ts \<Longrightarrow> distinct (map key (take n (sql_sort lt (filter P ts))))"
  by (metis distinct_map_filter distinct_sql_sort distinct_take keyed_def take_map)

lemma pg_list_abs:
  assumes "pg_good s" and "pg_ListByStatus st n s = (r, s')"
  shows "pg_good s' \<and> (pg_healthy s \<longrightarrow> pg_healthy s') \<and> pg_abs s' = pg_abs s \<and>
      (\<forall>ts. r = Inr ts \<longrightarrow> distinct (map ot_ID ts) \<and>
        (\<forall>t \<in> set ts. ab_tasks (pg_abs s) (ot_ID t) = Some t \<and> ot_Status t = st))"
proof -
  let ?q = "\<lambda>s. map from_row (take (list_limit n) (sql_sort created_desc (filter (\<lambda>r. ot_Status (tr_Task r) = st) (pg_tasks s))))"
  have k: "keyed row_id (pg_tasks s)" using assms(1) by (simp add: pg_good_def)
  have R: "pg_good s' = pg_good s \<and> (pg_healthy s \<longrightarrow> pg_healthy s') \<and> pg_abs s' = pg_abs s \<and>
    (\<forall>vs. r = Inr vs \<longrightarrow> (\<exists>m. vs = take m (?q s)))"
    using assms(2) unfolding pg_ListByStatus_def by (rule pg_rows_rule) simp
  have "distinct (map ot_ID (take m (?q s)))" for m
    using distinct_take_sort [OF k] by (simp add: take_map comp_def)
  moreover have "ab_tasks (pg_abs s) (ot_ID t) = Some t \<and> ot_Status t = st" if "t \<in> set (take m (?q s))" for m t
    using that keyed_row_of [OF k] by (auto simp: pg_abs_def dest!: in_set_takeD)
  ultimately show ?thesis using R assms(1) by blast
qed

lemma pg_queue_abs:
  assumes "pg_good s" and "0 < n" "n \<le> 200" and "pg_QueueList n s = (r, s')"
  shows "pg_good s' \<and> (pg_healthy s \<longrightarrow> pg_healthy s') \<and> pg_abs s' = pg_abs s \<and>
      (\<forall>es. r = Inr es \<longrightarrow> distinct (map qe_TaskID es) \<and> length es \<le> nat n \<and>
        (\<forall>q \<in> set es. ab_queue (pg_abs s) (qe_TaskID q) = Some q))"
proof -
  let ?q = "\<lambda>s. take (queue_limit n) (sql_sort pg_before (pg_queue s))"
  have k: "keyed qe_TaskID (pg_queue s)" using assms(1) by (simp add: pg_good_def)
  have R: "pg_good s' = pg_good s \<and> (pg_healthy s \<longrightarrow> pg_healthy s') \<and> pg_abs s' = pg_abs s \<and>
    (\<forall>vs. r = Inr vs \<longrightarrow> (\<exists>m. vs = take m (?q s)))"
    using assms(4) unfolding pg_QueueList_def by (rule pg_rows_rule) simp
  have "distinct (map qe_TaskID (take m (?q s)))" "length (take m (?q s)) \<le> nat n" for m
    using distinct_take_sort [OF k, of _ pg_before "\<lambda>_. True"] assms(2,3) by (simp_all add: queue_limit_def)
  moreover have "ab_queue (pg_abs s) (qe_TaskID q) = Some q" if "q \<in> set (take m (?q s))" for m q
    using that keyed_row_of [OF k] by (auto simp: pg_abs_def dest!: in_set_takeD)
  ultimately show ?thesis using R assms(1) by blast
qed

text \<open>What a limit cuts off an ordered listing does not come before what it keeps.\<close>

lemma ordered_take:
  assumes "ordered_by lt xs"
  shows "ordered_by lt (take m xs) \<and> (\<forall>x \<in> set (take m xs). \<forall>y \<in> set xs. y \<in> set (take m xs) \<or> \<not> lt y x)"
proof -
  have "sorted_wrt (\<lambda>x y. \<not> lt y x) (take m xs @ drop m xs)" using assms by (simp add: ordered_by_def)
  then have s: "sorted_wrt (\<lambda>x y. \<not> lt y x) (take m xs)" "\<forall>x \<in> set (take m xs). \<forall>y \<in> set (drop m xs). \<not> lt y x"
    unfolding sorted_wrt_append by blast+
  moreover have "set xs = set (take m xs) \<union> set (drop m xs)" by (metis append_take_drop_id set_append)
  ultimately show ?thesis unfolding ordered_by_def by blast
qed

lemma ordered_by_cong: "(\<And>x y. x \<in> set xs \<Longrightarrow> y \<in> set xs \<Longrightarrow> lt x y = lt' x y) \<Longrightarrow> ordered_by lt xs = ordered_by lt' xs"
  by (induction xs) auto

lemma pg_before_eq: "scored a \<Longrightarrow> scored b \<Longrightarrow> pg_before a b = entry_before a b"
  by (auto simp: pg_before_def entry_before_def pg_flt_def scored_def feq_def)

lemma pg_flt_trans: "pg_flt x y \<Longrightarrow> pg_flt y z \<Longrightarrow> pg_flt x z"
  by (cases x; cases y; cases z) (auto simp: pg_flt_def)

lemma pg_flt_total: "x = y \<or> pg_flt x y \<or> pg_flt y x"
  by (cases x; cases y) (auto simp: pg_flt_def)

lemma pg_flt_irrefl [simp]: "\<not> pg_flt x x"
  by (simp add: pg_flt_def)

lemma pg_flt_asym: "pg_flt x y \<Longrightarrow> \<not> pg_flt y x"
  by (cases x; cases y) (auto simp: pg_flt_def)

interpretation queue_order: row_order pg_before
proof
  show "\<not> pg_before y x" if "pg_before x y" for x y
    using that by (auto simp: pg_before_def dest: pg_flt_asym)
  show "\<not> pg_before x z" if n: "\<not> pg_before x y" "\<not> pg_before y z" for x y z
  proof -
    have xy: "qe_PriorityScore x = qe_PriorityScore y \<and> qe_InsertedAt y \<le> qe_InsertedAt x \<or> pg_flt (qe_PriorityScore x) (qe_PriorityScore y)"
      using n(1) pg_flt_total [of "qe_PriorityScore x" "qe_PriorityScore y"] unfolding pg_before_def by fastforce
    have yz: "qe_PriorityScore y = qe_PriorityScore z \<and> qe_InsertedAt z \<le> qe_InsertedAt y \<or> pg_flt (qe_PriorityScore y) (qe_PriorityScore z)"
      using n(2) pg_flt_total [of "qe_PriorityScore y" "qe_PriorityScore z"] unfolding pg_before_def by fastforce
    have "qe_PriorityScore x = qe_PriorityScore z \<and> qe_InsertedAt z \<le> qe_InsertedAt x \<or> pg_flt (qe_PriorityScore x) (qe_PriorityScore z)"
      using xy yz pg_flt_trans by (metis order_trans)
    then show ?thesis unfolding pg_before_def using pg_flt_asym pg_flt_irrefl by (metis linorder_not_le)
  qed
qed

lemma pg_queue_order:
  assumes "pg_good s" and "0 < n" "n \<le> 200" and "pg_QueueList n s = (Inr es, s')"
    and "\<forall>i q. ab_queue (pg_abs s) i = Some q \<longrightarrow> scored q"
  shows "ordered_by entry_before es \<and>
      (\<forall>q \<in> set es. \<forall>i q'. ab_queue (pg_abs s) i = Some q' \<longrightarrow> q' \<in> set es \<or> \<not> entry_before q' q)"
proof -
  let ?L = "sql_sort pg_before (pg_queue s)"
  have k: "keyed qe_TaskID (pg_queue s)" using assms(1) by (simp add: pg_good_def)
  have sc: "scored q" if "q \<in> set (pg_queue s)" for q
    using assms(5) keyed_row_of [OF k that] by (simp add: pg_abs_def)
  have "pg_good s' = pg_good s \<and> (pg_healthy s \<longrightarrow> pg_healthy s') \<and> pg_abs s' = pg_abs s \<and>
    (\<forall>vs. (Inr es :: orch_error + queue_entry list) = Inr vs \<longrightarrow> (\<exists>m. vs = take m (take (queue_limit n) ?L)))"
    using assms(4) unfolding pg_QueueList_def by (rule pg_rows_rule) simp
  then obtain m where "es = take m (take (queue_limit n) ?L)" by blast
  then have es: "es = take (min m (queue_limit n)) ?L" by (simp add: min_def)
  have "ordered_by entry_before ?L"
    using queue_order.ordered_sort [of "pg_queue s"] ordered_by_cong [of ?L pg_before entry_before] pg_before_eq sc by simp
  from ordered_take [OF this] have "ordered_by entry_before es" "\<forall>q \<in> set es. \<forall>q' \<in> set ?L. q' \<in> set es \<or> \<not> entry_before q' q"
    unfolding es by blast+
  moreover have "q' \<in> set ?L" if "ab_queue (pg_abs s) i = Some q'" for i q'
    using that by (auto simp: pg_abs_def dest: row_of_SomeD)
  ultimately show ?thesis by blast
qed

text \<open>A single-column statement leaves the queue and every status as it was.\<close>

lemma pg_set_abs:
  assumes "pg_good s" and "\<And>r. row_id (f r) = row_id r" and "\<And>r. ot_Status (tr_Task (f r)) = ot_Status (tr_Task r)"
    and "s1 = s\<lparr>pg_tasks := sql_update (\<lambda>r. row_id r = i) f (pg_tasks s)\<rparr>"
  shows "pg_good s1 \<and> ab_queue (pg_abs s1) = ab_queue (pg_abs s) \<and> status_of (pg_abs s1) = status_of (pg_abs s)"
proof -
  have "row_of row_id (pg_tasks s1) k = map_option (\<lambda>r. if row_id r = i then f r else r) (row_of row_id (pg_tasks s) k)" for k
    using assms(2,4) by (simp add: row_of_task_update)
  then have "status_of (pg_abs s1) k = status_of (pg_abs s) k" for k
    using assms(3) by (cases "row_of row_id (pg_tasks s) k") (simp_all add: status_of_def pg_abs_def)
  moreover have "pg_good s1" using assms(1,2,4) by (simp add: pg_good_def keyed_task_update)
  ultimately show ?thesis using assms(4) by (auto simp: pg_abs_def)
qed

lemma pg_exec_set:
  assumes "pg_good s"
    and "\<And>s0 s1. stmt s0 = Some s1 \<Longrightarrow> s1 = s0\<lparr>pg_tasks := sql_update (\<lambda>r. row_id r = i) f (pg_tasks s0)\<rparr>"
    and "\<And>r. row_id (f r) = row_id r" and "\<And>r. ot_Status (tr_Task (f r)) = ot_Status (tr_Task r)"
  shows "pg_good (snd (pg_exec msg stmt s)) \<and> (pg_healthy s \<longrightarrow> pg_healthy (snd (pg_exec msg stmt s))) \<and>
      ab_queue (pg_abs (snd (pg_exec msg stmt s))) = ab_queue (pg_abs s) \<and>
      status_of (pg_abs (snd (pg_exec msg stmt s))) = status_of (pg_abs s)"
proof -
  obtain g s0 where n: "pg_next s = (g, s0)" by fastforce
  have same: "pg_good s0" "pg_abs s0 = pg_abs s" "pg_healthy s \<longrightarrow> pg_healthy s0"
    using pg_next_cases [OF n] assms(1) by simp_all
  define s' where "s' = snd (pg_exec msg stmt s)"
  show ?thesis unfolding s'_def [symmetric]
  proof (cases "s' = s0")
    case False
    then have "stmt s0 = Some s'" unfolding s'_def
      by (auto simp: pg_exec_def n Let_def split: fault.splits option.splits)
    then have e: "s' = s0\<lparr>pg_tasks := sql_update (\<lambda>r. row_id r = i) f (pg_tasks s0)\<rparr>" by (rule assms(2))
    have "pg_healthy s' = pg_healthy s0" by (simp add: pg_healthy_def e)
    then show "pg_good s' \<and> (pg_healthy s \<longrightarrow> pg_healthy s') \<and> ab_queue (pg_abs s') = ab_queue (pg_abs s) \<and>
      status_of (pg_abs s') = status_of (pg_abs s)" using pg_set_abs [OF same(1) assms(3,4) e] same by simp
  qed (use same in simp)
qed

lemma queue_upsert_row:
  assumes "keyed qe_TaskID qs"
  shows "keyed qe_TaskID (queue_upsert q qs) \<and>
    (\<exists>q'. qe_TaskID q' = qe_TaskID q \<and> qe_PriorityScore q' = qe_PriorityScore q \<and>
      row_of qe_TaskID (queue_upsert q qs) = (row_of qe_TaskID qs)(qe_TaskID q \<mapsto> q'))"
proof (cases "row_of qe_TaskID qs (qe_TaskID q)")
  case None
  then have "keyed qe_TaskID (queue_upsert q qs)"
    using assms by (simp add: keyed_append row_of_None_iff queue_upsert_def)
  moreover have "row_of qe_TaskID (queue_upsert q qs) = (row_of qe_TaskID qs)(qe_TaskID q \<mapsto> q)"
    using None by (auto simp: row_of_append queue_upsert_def split: option.splits)
  ultimately show ?thesis by blast
next
  case (Some x)
  define f :: "queue_entry \<Rightarrow> queue_entry"
    where "f = (\<lambda>x. x\<lparr>qe_PriorityScore := qe_PriorityScore q, qe_LastUpdatedAt := qe_LastUpdatedAt q\<rparr>)"
  have u: "queue_upsert q qs = sql_update (\<lambda>x. qe_TaskID x = qe_TaskID q) f qs"
    using Some by (simp add: queue_upsert_def f_def)
  have "row_of qe_TaskID (queue_upsert q qs) i
      = map_option (\<lambda>x. if qe_TaskID x = qe_TaskID q then f x else x) (row_of qe_TaskID qs i)" for i
    unfolding u by (rule row_of_sql_update) (simp add: f_def)
  then have "row_of qe_TaskID (queue_upsert q qs) i = ((row_of qe_TaskID qs)(qe_TaskID q \<mapsto> f x)) i" for i
    using Some by (cases "row_of qe_TaskID qs i"; cases "i = qe_TaskID q") (auto dest: row_of_SomeD)
  moreover have "keyed qe_TaskID (queue_upsert q qs)"
    unfolding u by (rule keyed_sql_update [OF assms]) (simp add: f_def)
  moreover have "qe_TaskID (f x) = qe_TaskID q" "qe_PriorityScore (f x) = qe_PriorityScore q"
    using row_of_SomeD [OF Some] by (simp_all add: f_def)
  ultimately show ?thesis by blast
qed

lemma pg_upsert_abs:
  assumes "pg_good s" and "ab_tasks (pg_abs s) (qe_TaskID q) \<noteq> None" and "pg_Upsert q s = (e, s')"
  shows "pg_good s' \<and> (pg_healthy s \<longrightarrow> pg_healthy s') \<and>
      (\<exists>q'. qe_TaskID q' = qe_TaskID q \<and> qe_PriorityScore q' = qe_PriorityScore q \<and>
        wrote e (pg_abs s) ((pg_abs s)\<lparr>ab_queue := (ab_queue (pg_abs s))(qe_TaskID q \<mapsto> q')\<rparr>) (pg_abs s')) \<and>
      (pg_healthy s \<longrightarrow> e = None)"
proof -
  obtain r where r: "row_of row_id (pg_tasks s) (qe_TaskID q) = Some r"
    using assms(2) by (auto simp: pg_abs_def)
  have k: "keyed row_id (pg_tasks s)" "keyed qe_TaskID (pg_queue s)" using assms(1) by (simp_all add: pg_good_def)
  obtain q' where q': "qe_TaskID q' = qe_TaskID q" "qe_PriorityScore q' = qe_PriorityScore q"
    "row_of qe_TaskID (queue_upsert q (pg_queue s)) = (row_of qe_TaskID (pg_queue s))(qe_TaskID q \<mapsto> q')"
    "keyed qe_TaskID (queue_upsert q (pg_queue s))"
    using queue_upsert_row [OF k(2), of q] by blast
  let ?new = "(pg_abs s)\<lparr>ab_queue := (ab_queue (pg_abs s))(qe_TaskID q \<mapsto> q')\<rparr>"
  let ?stmt = "\<lambda>s. if row_of row_id (pg_tasks s) (qe_TaskID q) = None then None
     else Some (s\<lparr>pg_queue := queue_upsert q (pg_queue s)\<rparr>)"
  have "pg_good s' \<and> (pg_healthy s \<longrightarrow> pg_healthy s') \<and> wrote e (pg_abs s) ?new (pg_abs s')
      \<and> (pg_healthy s \<longrightarrow> ?stmt s \<noteq> None \<longrightarrow> e = None) \<and> (pg_healthy s \<longrightarrow> e \<noteq> None \<longrightarrow> pg_abs s' = pg_abs s)"
    using assms(3,1) unfolding pg_Upsert_def
    by (rule pg_exec_rule) (use r q'(3,4) k(1) in \<open>auto simp: pg_good_def pg_abs_def split: if_splits\<close>)
  then show ?thesis using q' r by auto
qed

lemma row_of_filter: "row_of key (filter (\<lambda>q. key q \<noteq> i) qs) = (row_of key qs)(i := None)"
  by (induction qs) auto

lemma keyed_filter: "keyed key qs \<Longrightarrow> keyed key (filter P qs)"
  by (simp add: keyed_def distinct_map_filter)

lemma pg_remove_abs:
  assumes "pg_good s" and "pg_Remove i s = (e, s')"
  shows "pg_good s' \<and> (pg_healthy s \<longrightarrow> pg_healthy s') \<and>
      wrote e (pg_abs s) ((pg_abs s)\<lparr>ab_queue := (ab_queue (pg_abs s))(i := None)\<rparr>) (pg_abs s') \<and>
      (pg_healthy s \<longrightarrow> e = None)"
proof -
  have "pg_good s' \<and> (pg_healthy s \<longrightarrow> pg_healthy s') \<and>
      wrote e (pg_abs s) ((pg_abs s)\<lparr>ab_queue := (ab_queue (pg_abs s))(i := None)\<rparr>) (pg_abs s') \<and>
      (pg_healthy s \<longrightarrow> Some (s\<lparr>pg_queue := filter (\<lambda>q. qe_TaskID q \<noteq> i) (pg_queue s)\<rparr>) \<noteq> None \<longrightarrow> e = None) \<and>
      (pg_healthy s \<longrightarrow> e \<noteq> None \<longrightarrow> pg_abs s' = pg_abs s)"
    using assms(2,1) unfolding pg_Remove_def
    by (rule pg_exec_rule) (use assms(1) in \<open>auto simp: pg_good_def pg_abs_def row_of_filter keyed_filter\<close>)
  then show ?thesis by simp
qed

lemma pg_update_law:
  assumes "pg_good s" and "ab_tasks (pg_abs s) (ot_ID t) = Some u" and "same_origin t u" and "pg_Update t s = (e, s')"
  shows "pg_good s' \<and> (pg_healthy s \<longrightarrow> pg_healthy s') \<and>
      wrote e (pg_abs s) ((pg_abs s)\<lparr>ab_tasks := (ab_tasks (pg_abs s))(ot_ID t \<mapsto> t)\<rparr>) (pg_abs s')
      \<and> (pg_healthy s \<longrightarrow> int4 (ot_AttemptCount t) \<longrightarrow> e = None) \<and> (pg_healthy s \<longrightarrow> e \<noteq> None \<longrightarrow> pg_abs s' = pg_abs s)"
proof -
  let ?stmt = "\<lambda>s. if int4 (ot_AttemptCount t)
     then Some (s\<lparr>pg_tasks := sql_update (\<lambda>r. row_id r = ot_ID t) (update_row t) (pg_tasks s)\<rparr>) else None"
  have "pg_good s' \<and> (pg_healthy s \<longrightarrow> pg_healthy s') \<and>
      wrote e (pg_abs s) ((pg_abs s)\<lparr>ab_tasks := (ab_tasks (pg_abs s))(ot_ID t \<mapsto> t)\<rparr>) (pg_abs s')
      \<and> (pg_healthy s \<longrightarrow> ?stmt s \<noteq> None \<longrightarrow> e = None) \<and> (pg_healthy s \<longrightarrow> e \<noteq> None \<longrightarrow> pg_abs s' = pg_abs s)"
    using assms(4,1) unfolding pg_Update_def
    by (rule pg_exec_rule)
      (use pg_update_abs [OF assms(1-3)] in \<open>auto simp: pg_good_def pg_abs_def split: if_splits\<close>)
  then show ?thesis by simp
qed

lemma pg_insert_law:
  assumes "pg_good s" and "ab_tasks (pg_abs s) (ot_ID t) = None" and "pg_Insert t s = (e, s')"
  shows "pg_good s' \<and> (pg_healthy s \<longrightarrow> pg_healthy s') \<and>
      wrote e (pg_abs s) ((pg_abs s)\<lparr>ab_tasks := (ab_tasks (pg_abs s))(ot_ID t \<mapsto> t)\<rparr>) (pg_abs s')
      \<and> (pg_healthy s \<longrightarrow> int4 (ot_AttemptCount t) \<longrightarrow> e = None) \<and> (pg_healthy s \<longrightarrow> e \<noteq> None \<longrightarrow> pg_abs s' = pg_abs s)"
proof -
  let ?stmt = "\<lambda>s. if row_of row_id (pg_tasks s) (ot_ID t) = None \<and> int4 (ot_AttemptCount t)
     then Some (s\<lparr>pg_tasks := pg_tasks s @ [to_row t]\<rparr>) else None"
  have none: "row_of row_id (pg_tasks s) (ot_ID t) = None" using assms(2) by (simp add: pg_abs_def)
  then have k: "keyed row_id (pg_tasks s @ [to_row t])"
    using assms(1) by (simp add: pg_good_def keyed_append row_of_None_iff)
  have "pg_good s' \<and> (pg_healthy s \<longrightarrow> pg_healthy s') \<and>
      wrote e (pg_abs s) ((pg_abs s)\<lparr>ab_tasks := (ab_tasks (pg_abs s))(ot_ID t \<mapsto> t)\<rparr>) (pg_abs s')
      \<and> (pg_healthy s \<longrightarrow> ?stmt s \<noteq> None \<longrightarrow> e = None) \<and> (pg_healthy s \<longrightarrow> e \<noteq> None \<longrightarrow> pg_abs s' = pg_abs s)"
    using assms(3,1) unfolding pg_Insert_def
    by (rule pg_exec_rule) (use assms(1) none k in
      \<open>auto simp: pg_good_def pg_abs_def fun_eq_iff row_of_append split: if_splits option.splits\<close>)
  then show ?thesis using none by simp
qed

lemma pg_get_law:
  assumes "pg_good s" and "pg_Get i s = (r, s')"
  shows "pg_good s' \<and> (pg_healthy s \<longrightarrow> pg_healthy s') \<and> pg_abs s' = pg_abs s \<and>
      (\<forall>t. r = Inr t \<longrightarrow> ab_tasks (pg_abs s) i = Some t)
      \<and> (pg_healthy s \<longrightarrow> r = (case ab_tasks (pg_abs s) i of None \<Rightarrow> Inl ErrTaskNotFound | Some t \<Rightarrow> Inr t))"
proof -
  obtain x s0 where x: "pg_row ''get orchestrated task'' (\<lambda>s. row_of row_id (pg_tasks s) i) s = (x, s0)" by fastforce
  have "pg_good s0 = pg_good s \<and> (pg_healthy s \<longrightarrow> pg_healthy s0) \<and> pg_abs s0 = pg_abs s \<and>
    (\<forall>v. x = Inr v \<longrightarrow> v = row_of row_id (pg_tasks s) i) \<and> (pg_healthy s \<longrightarrow> x = Inr (row_of row_id (pg_tasks s) i))"
    using x by (rule pg_row_rule) simp
  moreover have "ab_tasks (pg_abs s) i = map_option from_row (row_of row_id (pg_tasks s) i)" by (simp add: pg_abs_def)
  ultimately show ?thesis using assms unfolding pg_Get_def x
    by (cases x; cases "row_of row_id (pg_tasks s) i") auto
qed

lemma pg_count_law:
  assumes "pg_good s" and "pg_CountByStatus st s = (r, s')"
  shows "pg_good s' \<and> (pg_healthy s \<longrightarrow> pg_healthy s') \<and> pg_abs s' = pg_abs s \<and>
    (\<forall>n. r = Inr n \<longrightarrow> n = card (with_status st (pg_abs s)))"
proof -
  have k: "keyed row_id (pg_tasks s)" using assms(1) by (simp add: pg_good_def)
  have "pg_good s' = pg_good s \<and> (pg_healthy s \<longrightarrow> pg_healthy s') \<and> pg_abs s' = pg_abs s \<and>
    (\<forall>v. r = Inr v \<longrightarrow> v = sql_count (\<lambda>r. ot_Status (tr_Task r) = st) (pg_tasks s)) \<and>
    (pg_healthy s \<longrightarrow> r = Inr (sql_count (\<lambda>r. ot_Status (tr_Task r) = st) (pg_tasks s)))"
    using assms(2) unfolding pg_CountByStatus_def by (rule pg_row_rule) simp
  then show ?thesis using assms(1) pg_count_abs [OF k, of st] by (simp add: with_status_def pg_abs_def)
qed

lemma pg_qcount_law:
  "pg_good s \<Longrightarrow> pg_QueueCount s = (r, s') \<Longrightarrow> pg_good s' \<and> (pg_healthy s \<longrightarrow> pg_healthy s') \<and> pg_abs s' = pg_abs s"
  unfolding pg_QueueCount_def by (drule pg_row_rule) auto

lemma pg_set_law:
  assumes "pg_good s" and "s' \<in> {snd (pg_SetActuationDecisionID now i x s), snd (pg_SetExecutionTaskID now i x s),
             snd (pg_SetOutcome now i x y k s)}"
  shows "pg_good s' \<and> (pg_healthy s \<longrightarrow> pg_healthy s') \<and> ab_queue (pg_abs s') = ab_queue (pg_abs s) \<and>
      status_of (pg_abs s') = status_of (pg_abs s)"
proof -
  consider "s' = snd (pg_SetActuationDecisionID now i x s)" | "s' = snd (pg_SetExecutionTaskID now i x s)"
    | "s' = snd (pg_SetOutcome now i x y k s)" using assms(2) by blast
  then show ?thesis
  proof cases
    case 1
    show ?thesis unfolding 1 pg_SetActuationDecisionID_def pg_set_def
      by (rule pg_exec_set [OF assms(1), of _ i, where f = "\<lambda>r. r\<lparr>tr_actuation_decision_id := Some x,
          tr_Task := (tr_Task r)\<lparr>ot_UpdatedAt := now\<rparr>\<rparr>"]) auto
  next
    case 2
    show ?thesis unfolding 2 pg_SetExecutionTaskID_def pg_set_def
      by (rule pg_exec_set [OF assms(1), of _ i, where f = "\<lambda>r. r\<lparr>tr_execution_task_id := Some x,
          tr_Task := (tr_Task r)\<lparr>ot_UpdatedAt := now\<rparr>\<rparr>"]) auto
  next
    case 3
    show ?thesis unfolding 3 pg_SetOutcome_def
      by (rule pg_exec_set [OF assms(1), of _ i, where f = "\<lambda>r. r\<lparr>tr_Task := (tr_Task r)\<lparr>ot_OutcomeType := x,
          ot_LastError := y, ot_AttemptCount := k, ot_CompletedAt := Some now, ot_UpdatedAt := now\<rparr>\<rparr>"])
        (auto split: if_splits)
  qed
qed

lemma pg_ops_sel:
  "t_Insert pg_ops = pg_Insert" "t_Get pg_ops = pg_Get" "t_Update pg_ops = pg_Update" "t_List pg_ops = pg_List"
  "t_ListByStatus pg_ops = pg_ListByStatus" "t_CountByStatus pg_ops = pg_CountByStatus"
  "t_FindByActuationDecision pg_ops = pg_FindByActuationDecision"
  "t_SetActuationDecisionID pg_ops = pg_SetActuationDecisionID" "t_SetExecutionTaskID pg_ops = pg_SetExecutionTaskID"
  "t_SetOutcome pg_ops = pg_SetOutcome" "q_Upsert pg_ops = pg_Upsert" "q_Remove pg_ops = pg_Remove"
  "q_List pg_ops = pg_QueueList" "q_Count pg_ops = pg_QueueCount"
  by (simp_all add: pg_ops_def)

interpretation pg_store: task_store pg_ops pg_good pg_healthy pg_abs
proof (unfold_locales, unfold pg_ops_sel)
  show "finite (dom (ab_tasks (pg_abs s)))" for s
  proof (rule finite_subset)
    show "dom (ab_tasks (pg_abs s)) \<subseteq> row_id ` set (pg_tasks s)" by (auto simp: pg_abs_def dest!: row_of_SomeD)
  qed simp
  show "qe_TaskID q = i" if "ab_queue (pg_abs s) i = Some q" for s i q
    using that by (auto simp: pg_abs_def dest!: row_of_SomeD)
  show "ot_ID t = i" if "ab_tasks (pg_abs s) i = Some t" for s i t
    using that by (auto simp: pg_abs_def dest!: row_of_SomeD)
qed (fact pg_get_law pg_insert_law pg_update_law pg_list_abs pg_count_law pg_upsert_abs pg_remove_abs
  pg_queue_abs pg_queue_order pg_qcount_law pg_set_law)+

section \<open>The in-memory stores meet it\<close>

definition mem_good :: "mem \<Rightarrow> bool" where
  "mem_good s \<longleftrightarrow> distinct (map fst (mem_tasks s)) \<and> distinct (mem_order s) \<and>
     set (mem_order s) = fst ` set (mem_tasks s) \<and> distinct (map fst (mem_entries s)) \<and>
     (\<forall>k t. map_of (mem_tasks s) k = Some t \<longrightarrow> ot_ID t = k) \<and>
     (\<forall>k q. map_of (mem_entries s) k = Some q \<longrightarrow> qe_TaskID q = k)"

definition mem_healthy :: "mem \<Rightarrow> bool" where "mem_healthy s \<longleftrightarrow> True"

definition mem_abs :: "mem \<Rightarrow> store_abs" where
  "mem_abs s = \<lparr>ab_tasks = map_of (mem_tasks s), ab_queue = map_of (mem_entries s)\<rparr>"

lemmas mem_defs = mem_good_def mem_healthy_def mem_abs_def wrote_def

lemma mem_scan_sub:
  "t \<in> set (mem_scan m P n ks) \<Longrightarrow> P t \<and> (\<exists>k \<in> set ks. m k = Some t)"
  by (induction m P n ks rule: mem_scan.induct) (auto split: if_splits option.splits)

lemma mem_scan_distinct:
  assumes "\<And>k t. m k = Some t \<Longrightarrow> ot_ID t = k"
  shows "distinct ks \<Longrightarrow> distinct (map ot_ID (mem_scan m P n ks))"
proof (induction ks arbitrary: n)
  case (Cons k ks)
  have "ot_ID ` set (mem_scan m P n' ks) \<subseteq> set ks" for n'
    by (auto dest!: mem_scan_sub assms)
  then show ?case using Cons assms by (auto split: option.splits)
qed simp

lemma update_fresh: "k \<notin> fst ` set al \<Longrightarrow> AList.update k v al = al @ [(k, v)]"
  by (induction al) auto

lemma mem_insert_good:
  assumes "mem_good s" and "ot_ID t \<notin> fst ` set (mem_tasks s)"
  shows "mem_good (snd (mem_Insert t s))"
proof -
  note good = assms(1) [unfolded mem_good_def]
  have u: "mem_Insert t s = (None, s\<lparr>mem_tasks := mem_tasks s @ [(ot_ID t, t)], mem_order := mem_order s @ [ot_ID t]\<rparr>)"
    using update_fresh [OF assms(2)] by (simp add: mem_Insert_def)
  have "ot_ID x = k" if "map_of (mem_tasks s @ [(ot_ID t, t)]) k = Some x" for k x
    using that good by (cases "map_of (mem_tasks s) k") (auto simp: map_add_def split: if_splits)
  then show ?thesis using good assms(2) unfolding u mem_good_def by simp
qed

lemma mem_modify_good:
  assumes "mem_good s" and "\<And>t. map_of (mem_tasks s) i = Some t \<Longrightarrow> ot_ID (f t) = i"
  shows "mem_good (snd (mem_modify i f s))"
proof (cases "map_of (mem_tasks s) i")
  case (Some t)
  then have "i \<in> fst ` set (mem_tasks s)" by (metis map_of_eq_None_iff option.distinct(1))
  then show ?thesis using assms Some
    by (auto simp: mem_modify_def mem_good_def update_conv' distinct_update dom_update)
qed (simp add: assms mem_modify_def)

lemma mset_sortQueueEntries: "mset (sortQueueEntries es) = mset es"
  unfolding sortQueueEntries_def sort_inner_def by (rule mset_outer) (rule mset_swap_down)

lemma mem_queue_law:
  assumes "mem_good s" and "0 < n" and "mem_QueueList n s = (r, s')"
  shows "s' = s \<and> (\<forall>es. r = Inr es \<longrightarrow> distinct (map qe_TaskID es) \<and> length es \<le> nat n \<and>
        (\<forall>q \<in> set es. ab_queue (mem_abs s) (qe_TaskID q) = Some q))"
proof -
  let ?es = "sortQueueEntries (map snd (mem_entries s))"
  have m: "mset ?es = mset (map snd (mem_entries s))" by (rule mset_sortQueueEntries)
  have k: "map_of (mem_entries s) (fst x) = Some (snd x) \<and> fst x = qe_TaskID (snd x)" if "x \<in> set (mem_entries s)" for x
  proof -
    have "map_of (mem_entries s) (fst x) = Some (snd x)"
      using that assms(1) map_of_is_SomeI [of "mem_entries s" "fst x" "snd x"] by (simp add: mem_good_def)
    moreover from this have "qe_TaskID (snd x) = fst x" using assms(1) unfolding mem_good_def by blast
    ultimately show ?thesis by simp
  qed
  have "map qe_TaskID (map snd (mem_entries s)) = map fst (mem_entries s)"
    unfolding map_map comp_def by (rule map_cong [OF refl]) (simp add: k [THEN conjunct2])
  moreover have "distinct (map fst (mem_entries s))" using assms(1) by (simp add: mem_good_def)
  ultimately have "distinct (map qe_TaskID (map snd (mem_entries s)))" by (simp only:)
  then have d: "distinct (map qe_TaskID ?es)"
    using mset_eq_imp_distinct_iff [OF arg_cong [OF m, of "image_mset qe_TaskID", folded mset_map]] by simp
  have sub: "map_of (mem_entries s) (qe_TaskID q) = Some q" if q: "q \<in> set ?es" for q
  proof -
    have "set ?es = set (map snd (mem_entries s))" using m by (rule mset_eq_setD)
    then obtain x where "x \<in> set (mem_entries s)" "q = snd x" using q by auto
    then show ?thesis using k [of x] by metis
  qed
  define m where "m = (if n < int (length ?es) then nat n else length ?es)"
  have r: "r = Inr (take m ?es)" "s' = s" "m \<le> nat n"
    using assms(2,3) by (auto simp: mem_QueueList_def Let_def m_def split: if_splits)
  moreover have "distinct (map qe_TaskID (take m ?es))" using d by (metis distinct_take take_map)
  moreover have "\<forall>q \<in> set (take m ?es). map_of (mem_entries s) (qe_TaskID q) = Some q"
    using sub by (meson in_set_takeD)
  ultimately show ?thesis by (simp add: mem_abs_def)
qed

lemma mem_queue_order:
  assumes "mem_good s" and "0 < n" and "mem_QueueList n s = (Inr es, s')"
    and "\<forall>i q. ab_queue (mem_abs s) i = Some q \<longrightarrow> scored q"
  shows "ordered_by entry_before es \<and>
      (\<forall>q \<in> set es. \<forall>i q'. ab_queue (mem_abs s) i = Some q' \<longrightarrow> q' \<in> set es \<or> \<not> entry_before q' q)"
proof -
  let ?es = "map snd (mem_entries s)"
  let ?L = "sortQueueEntries ?es"
  have d: "distinct (map fst (mem_entries s))" using assms(1) by (simp add: mem_good_def)
  have "list_all scored ?es" using assms(4) map_of_is_SomeI [OF d] by (fastforce simp: list_all_iff mem_abs_def)
  then have s: "mset ?L = mset ?es" "ordered_by entry_before ?L" using sortQueueEntries_sorted by blast+
  have "es = take (if n < int (length ?L) then nat n else length ?L) ?L"
    using assms(2,3) by (auto simp: mem_QueueList_def Let_def split: if_splits)
  moreover have "q' \<in> set ?L" if "ab_queue (mem_abs s) i = Some q'" for i q'
    using that mset_eq_setD [OF s(1)] by (force simp: mem_abs_def dest!: map_of_SomeD)
  ultimately show ?thesis using ordered_take [OF s(2)] by metis
qed

lemma mem_ops_sel:
  "t_Insert mem_ops = mem_Insert" "t_Get mem_ops = mem_Get" "t_Update mem_ops = mem_Update" "t_List mem_ops = mem_List"
  "t_ListByStatus mem_ops = mem_ListByStatus" "t_CountByStatus mem_ops = mem_CountByStatus"
  "t_FindByActuationDecision mem_ops = mem_FindByActuationDecision"
  "t_SetActuationDecisionID mem_ops = mem_SetActuationDecisionID" "t_SetExecutionTaskID mem_ops = mem_SetExecutionTaskID"
  "t_SetOutcome mem_ops = mem_SetOutcome" "q_Upsert mem_ops = mem_Upsert" "q_Remove mem_ops = mem_Remove"
  "q_List mem_ops = mem_QueueList" "q_Count mem_ops = mem_QueueCount"
  by (simp_all add: mem_ops_def)

lemma mem_count_law:
  assumes "distinct (map fst ts)"
  shows "length (filter (\<lambda>(k, t). ot_Status t = st) ts) = card {i. \<exists>t. map_of ts i = Some t \<and> ot_Status t = st}"
proof -
  have "{i. \<exists>t. map_of ts i = Some t \<and> ot_Status t = st} = fst ` set (filter (\<lambda>(k, t). ot_Status t = st) ts)"
    using assms by (force dest: map_of_SomeD)
  moreover have "card (fst ` set (filter (\<lambda>(k, t). ot_Status t = st) ts)) = length (filter (\<lambda>(k, t). ot_Status t = st) ts)"
    using distinct_card [OF distinct_map_filter [OF assms, of "\<lambda>(k, t). ot_Status t = st"]] by simp
  ultimately show ?thesis by simp
qed

lemma mem_set_law:
  assumes "mem_good s" and "\<And>t. ot_ID (f t) = ot_ID t \<and> ot_Status (f t) = ot_Status t" and "s' = snd (mem_modify i f s)"
  shows "mem_good s' \<and> ab_queue (mem_abs s') = ab_queue (mem_abs s) \<and> status_of (mem_abs s') = status_of (mem_abs s)"
proof -
  have "mem_good s'" unfolding assms(3) using assms(1,2) by (intro mem_modify_good) (auto simp: mem_good_def)
  then show ?thesis using assms(2,3)
    by (auto simp: mem_modify_def mem_abs_def status_of_def fun_eq_iff update_conv' split: option.splits)
qed

interpretation mem_store: task_store mem_ops mem_good mem_healthy mem_abs
proof (unfold_locales, unfold mem_ops_sel)
  show "finite (dom (ab_tasks (mem_abs s)))" for s by (simp add: mem_abs_def finite_dom_map_of)
  show "qe_TaskID q = i" if "mem_good s" "ab_queue (mem_abs s) i = Some q" for s i q
    using that unfolding mem_good_def mem_abs_def by simp
  show "ot_ID t = i" if "mem_good s" "ab_tasks (mem_abs s) i = Some t" for s i t
    using that unfolding mem_good_def mem_abs_def by simp
  show "mem_good s' \<and> (mem_healthy s \<longrightarrow> mem_healthy s') \<and> mem_abs s' = mem_abs s \<and>
      (\<forall>t. rg = Inr t \<longrightarrow> ab_tasks (mem_abs s) i = Some t)
      \<and> (mem_healthy s \<longrightarrow> rg = (case ab_tasks (mem_abs s) i of None \<Rightarrow> Inl ErrTaskNotFound | Some t \<Rightarrow> Inr t))"
    if "mem_good s" "mem_Get i s = (rg, s')" for s i rg s'
    using that by (cases "map_of (mem_tasks s) i") (auto simp: mem_Get_def mem_abs_def mem_healthy_def)
  show "mem_good s' \<and> (mem_healthy s \<longrightarrow> mem_healthy s') \<and>
      wrote e (mem_abs s) ((mem_abs s)\<lparr>ab_tasks := (ab_tasks (mem_abs s))(ot_ID t \<mapsto> t)\<rparr>) (mem_abs s')
      \<and> (mem_healthy s \<longrightarrow> int4 (ot_AttemptCount t) \<longrightarrow> e = None) \<and> (mem_healthy s \<longrightarrow> e \<noteq> None \<longrightarrow> mem_abs s' = mem_abs s)"
    if "mem_good s" "ab_tasks (mem_abs s) (ot_ID t) = None" "mem_Insert t s = (e, s')" for s t e s'
  proof -
    have n: "ot_ID t \<notin> fst ` set (mem_tasks s)" using that(2) by (simp add: mem_abs_def map_of_eq_None_iff)
    then have "mem_good s'" using mem_insert_good [OF that(1)] that(3) by (metis snd_conv)
    then show ?thesis using that by (auto simp: mem_Insert_def mem_healthy_def mem_abs_def wrote_def update_conv')
  qed
  show "mem_good s' \<and> (mem_healthy s \<longrightarrow> mem_healthy s') \<and>
      wrote e (mem_abs s) ((mem_abs s)\<lparr>ab_tasks := (ab_tasks (mem_abs s))(ot_ID t \<mapsto> t)\<rparr>) (mem_abs s')
      \<and> (mem_healthy s \<longrightarrow> int4 (ot_AttemptCount t) \<longrightarrow> e = None) \<and> (mem_healthy s \<longrightarrow> e \<noteq> None \<longrightarrow> mem_abs s' = mem_abs s)"
    if "mem_good s" "ab_tasks (mem_abs s) (ot_ID t) = Some u" "same_origin t u" "mem_Update t s = (e, s')" for s t u e s'
    using mem_modify_good [OF that(1), of "ot_ID t" "\<lambda>_. t"] that
    by (auto simp: mem_Update_def mem_modify_def mem_healthy_def mem_abs_def wrote_def update_conv')
  show "mem_good s' \<and> (mem_healthy s \<longrightarrow> mem_healthy s') \<and> mem_abs s' = mem_abs s \<and>
      (\<forall>ts. rl = Inr ts \<longrightarrow> distinct (map ot_ID ts) \<and>
        (\<forall>t \<in> set ts. ab_tasks (mem_abs s) (ot_ID t) = Some t \<and> ot_Status t = st))"
    if "mem_good s" "mem_ListByStatus st n s = (rl, s')" for s st n rl s'
  proof -
    have k: "\<And>k t. map_of (mem_tasks s) k = Some t \<Longrightarrow> ot_ID t = k" "distinct (rev (mem_order s))"
      using that(1) unfolding mem_good_def by simp_all
    then show ?thesis using that mem_scan_distinct [of "map_of (mem_tasks s)", OF k]
      by (auto simp: mem_ListByStatus_def mem_abs_def mem_healthy_def dest!: mem_scan_sub)
  qed
  show "mem_good s' \<and> (mem_healthy s \<longrightarrow> mem_healthy s') \<and> mem_abs s' = mem_abs s \<and>
      (\<forall>n. rn = Inr n \<longrightarrow> n = card (with_status st (mem_abs s)))"
    if "mem_good s" "mem_CountByStatus st s = (rn, s')" for s st rn s'
  proof -
    have "distinct (map fst (mem_tasks s))" using that(1) by (simp add: mem_good_def)
    then show ?thesis using that mem_count_law [of "mem_tasks s" st]
      by (auto simp: mem_CountByStatus_def with_status_def mem_abs_def mem_healthy_def)
  qed
  show "mem_good s' \<and> (mem_healthy s \<longrightarrow> mem_healthy s') \<and>
      (\<exists>q'. qe_TaskID q' = qe_TaskID q \<and> qe_PriorityScore q' = qe_PriorityScore q \<and>
        wrote e (mem_abs s) ((mem_abs s)\<lparr>ab_queue := (ab_queue (mem_abs s))(qe_TaskID q \<mapsto> q')\<rparr>) (mem_abs s')) \<and>
      (mem_healthy s \<longrightarrow> e = None)"
    if "mem_good s" "mem_Upsert q s = (e, s')" for s q e s'
    using that by (auto simp: mem_Upsert_def mem_defs update_conv' distinct_update simp del: map_of_eq_Some_iff
        split: if_splits intro!: exI [of _ q]) force
  show "mem_good s' \<and> (mem_healthy s \<longrightarrow> mem_healthy s') \<and>
      wrote e (mem_abs s) ((mem_abs s)\<lparr>ab_queue := (ab_queue (mem_abs s))(i := None)\<rparr>) (mem_abs s') \<and> (mem_healthy s \<longrightarrow> e = None)"
    if "mem_good s" "mem_Remove i s = (e, s')" for s i e s'
    using that by (auto simp: mem_Remove_def mem_defs delete_conv' distinct_delete simp del: map_of_eq_Some_iff split: if_splits) force
  show "mem_good s' \<and> (mem_healthy s \<longrightarrow> mem_healthy s') \<and> mem_abs s' = mem_abs s \<and>
      (\<forall>es. rq = Inr es \<longrightarrow> distinct (map qe_TaskID es) \<and> length es \<le> nat n \<and>
        (\<forall>q \<in> set es. ab_queue (mem_abs s) (qe_TaskID q) = Some q))"
    if "mem_good s" "0 < n" "n \<le> 200" "mem_QueueList n s = (rq, s')" for s n rq s'
    using mem_queue_law [OF that(1,2,4)] that(1) by (simp add: mem_healthy_def)
  show "ordered_by entry_before es \<and>
      (\<forall>q \<in> set es. \<forall>i q'. ab_queue (mem_abs s) i = Some q' \<longrightarrow> q' \<in> set es \<or> \<not> entry_before q' q)"
    if "mem_good s" "0 < n" "n \<le> 200" "mem_QueueList n s = (Inr es, s')"
      "\<forall>i q. ab_queue (mem_abs s) i = Some q \<longrightarrow> scored q" for s n es s'
    using mem_queue_order [OF that(1,2,4,5)] .
  show "mem_good s' \<and> (mem_healthy s \<longrightarrow> mem_healthy s') \<and> mem_abs s' = mem_abs s"
    if "mem_good s" "mem_QueueCount s = (rc, s')" for s rc s'
    using that by (auto simp: mem_QueueCount_def)
  show "mem_good s' \<and> (mem_healthy s \<longrightarrow> mem_healthy s') \<and> ab_queue (mem_abs s') = ab_queue (mem_abs s) \<and>
      status_of (mem_abs s') = status_of (mem_abs s)"
    if "mem_good s" "s' \<in> {snd (mem_SetActuationDecisionID now i x s), snd (mem_SetExecutionTaskID now i x s),
             snd (mem_SetOutcome now i x y k s)}" for s s' now i x y k
    using that mem_set_law [OF that(1)]
    by (auto simp: mem_SetActuationDecisionID_def mem_SetExecutionTaskID_def mem_SetOutcome_def mem_healthy_def)
qed

end
