(* ===== verification/Task_Orch.thy ===== *)
theory Task_Orch
  imports Task_Store "HOL-Library.Sublist"
begin

text \<open>
  The engine of the task orchestrator: \<open>src/internal/agent/task_orchestrator/engine.go\<close>, over the
  operations of \<open>Task_Store\<close>. The optional collaborators are the fields of \<open>orch_deps\<close>, None
  where the engine's field is nil; the execution loop is a function of the number of the call and of
  the goal. The world keeps the store, the audit events and the goals handed to the execution loop.
\<close>

section \<open>Data\<close>

record dispatch_outcome =
  do_ExecutionID :: string
  do_TerminalStatus :: string
  do_Error :: string

record dispatch_result =
  dr_Dispatched :: "string list"
  dr_Skipped :: "string list"
  dr_Blocked :: "string list"

datatype orch_event = TaskEvent string string | RecomputeCompleted nat nat

record orch_deps =
  od_objective :: "(string \<times> f64) option"
  od_governance :: "string option"
  od_capacity :: "f64 option"
  od_portfolio :: "(string \<Rightarrow> f64) option"
  od_executionLoop :: "(nat \<Rightarrow> string \<Rightarrow> string + dispatch_outcome) option"
  od_vector :: "vector_params option"
  od_auditor :: bool

record 's orch_world =
  ow_store :: 's
  ow_audit :: "orch_event list"
  ow_runs :: "string list"

definition on_store :: "('s \<Rightarrow> 'r \<times> 's) \<Rightarrow> 's orch_world \<Rightarrow> 'r \<times> 's orch_world" where
  "on_store f w = (let (r, s) = f (ow_store w) in (r, w\<lparr>ow_store := s\<rparr>))"

definition auditEvent :: "orch_deps \<Rightarrow> orch_event \<Rightarrow> 's orch_world \<Rightarrow> 's orch_world" where
  "auditEvent deps ev w = (if od_auditor deps then w\<lparr>ow_audit := ow_audit w @ [ev]\<rparr> else w)"

text \<open>An update and a queue removal whose errors are ignored.\<close>

definition save_unqueue :: "'s store_ops \<Rightarrow> orch_task \<Rightarrow> 's orch_world \<Rightarrow> 's orch_world" where
  "save_unqueue ops task w = snd (on_store (q_Remove ops (ot_ID task)) (snd (on_store (t_Update ops task) w)))"

section \<open>Creating and scoring\<close>

definition new_task :: "time \<Rightarrow> string \<Rightarrow> string \<Rightarrow> string \<Rightarrow> f64 \<Rightarrow> f64 \<Rightarrow> f64 \<Rightarrow> string \<Rightarrow> orch_task" where
  "new_task now uid source goal urgency expectedValue riskLevel strategyType =
     \<lparr>ot_ID = uid, ot_Source = source, ot_Goal = goal, ot_PriorityScore = Fin 0, ot_Status = TaskStatusPending,
      ot_Urgency = clamp01 urgency, ot_ExpectedValue = expectedValue, ot_RiskLevel = clamp01 riskLevel,
      ot_StrategyType = strategyType, ot_ActuationDecisionID = '''', ot_ExecutionTaskID = '''',
      ot_OutcomeType = '''', ot_LastError = '''', ot_AttemptCount = 0, ot_CompletedAt = None,
      ot_CreatedAt = now, ot_UpdatedAt = now\<rparr>"

definition CreateTask ::
  "'s store_ops \<Rightarrow> orch_deps \<Rightarrow> time \<Rightarrow> string \<Rightarrow> string \<Rightarrow> string \<Rightarrow> f64 \<Rightarrow> f64 \<Rightarrow> f64 \<Rightarrow> string \<Rightarrow>
   's orch_world \<Rightarrow> (orch_error + orch_task) \<times> 's orch_world"
where
  "CreateTask ops deps now uid source goal urgency expectedValue riskLevel strategyType w =
     (let task = new_task now uid source goal urgency expectedValue riskLevel strategyType in
      case on_store (t_Insert ops task) w of
        (Some e, w) \<Rightarrow> (Inl (ErrWrap ''create task'' e), w)
      | (None, w) \<Rightarrow> (Inr task, auditEvent deps (TaskEvent ''task.created'' uid) w))"

definition gatherScoringInput :: "orch_deps \<Rightarrow> scoring_input" where
  "gatherScoringInput deps =
     \<lparr>si_ObjectiveSignalType = (case od_objective deps of None \<Rightarrow> '''' | Some (ty, _) \<Rightarrow> ty),
      si_ObjectiveSignalStrength = (case od_objective deps of None \<Rightarrow> Fin 0 | Some (_, st) \<Rightarrow> st),
      si_CapacityLoad = (case od_capacity deps of None \<Rightarrow> Fin 0 | Some l \<Rightarrow> l)\<rparr>"

definition task_boost :: "orch_deps \<Rightarrow> orch_task \<Rightarrow> f64" where
  "task_boost deps task =
     (case od_portfolio deps of
        Some f \<Rightarrow> if ot_StrategyType task \<noteq> '''' then f (ot_StrategyType task) else Fin 0
      | None \<Rightarrow> Fin 0)"

definition task_priority :: "orch_deps \<Rightarrow> scoring_input \<Rightarrow> time \<Rightarrow> orch_task \<Rightarrow> f64" where
  "task_priority deps inp now task =
     (case od_vector deps of
        Some v \<Rightarrow> ComputePriorityWithVector task inp (task_boost deps task) now v
      | None \<Rightarrow> ComputePriority task inp (task_boost deps task) now)"

text \<open>One turn of the scoring loop; the counters are the tasks scored and the tasks expired.\<close>

definition recompute_task ::
  "'s store_ops \<Rightarrow> orch_deps \<Rightarrow> scoring_input \<Rightarrow> time \<Rightarrow> orch_task \<Rightarrow>
   's orch_world \<times> nat \<times> nat \<Rightarrow> 's orch_world \<times> nat \<times> nat"
where
  "recompute_task ops deps inp now task = (\<lambda>(w, n, x).
     if IsExpired task now
     then (save_unqueue ops (task\<lparr>ot_Status := TaskStatusFailed, ot_UpdatedAt := now\<rparr>) w, n, Suc x)
     else if ot_Status task = TaskStatusRunning then (w, n, x)
     else if ot_Status task \<noteq> TaskStatusPending \<and> IsInCooldown task now then (w, n, x)
     else
       (let priority = task_priority deps inp now task;
            task = task\<lparr>ot_PriorityScore := priority, ot_UpdatedAt := now,
              ot_Status := (if ot_Status task = TaskStatusPending then TaskStatusQueued else ot_Status task)\<rparr>
        in case on_store (t_Update ops task) w of
             (Some _, w) \<Rightarrow> (w, n, x)
           | (None, w) \<Rightarrow>
               (case on_store (q_Upsert ops \<lparr>qe_TaskID = ot_ID task, qe_PriorityScore = priority,
                       qe_InsertedAt = ot_CreatedAt task, qe_LastUpdatedAt = now\<rparr>) w of
                  (Some _, w) \<Rightarrow> (w, n, x)
                | (None, w) \<Rightarrow> (auditEvent deps (TaskEvent ''task.scored'' (ot_ID task)) w, Suc n, x))))"

fun recompute_tasks ::
  "'s store_ops \<Rightarrow> orch_deps \<Rightarrow> scoring_input \<Rightarrow> time \<Rightarrow> orch_task list \<Rightarrow>
   's orch_world \<times> nat \<times> nat \<Rightarrow> 's orch_world \<times> nat \<times> nat"
where
  "recompute_tasks ops deps inp now [] st = st"
| "recompute_tasks ops deps inp now (t # ts) st =
     recompute_tasks ops deps inp now ts (recompute_task ops deps inp now t st)"

definition finish_recompute ::
  "'s store_ops \<Rightarrow> orch_deps \<Rightarrow> time \<Rightarrow> orch_task list \<Rightarrow> 's orch_world \<Rightarrow> 's orch_world"
where
  "finish_recompute ops deps now tasks w =
     (let (w, n, x) = recompute_tasks ops deps (gatherScoringInput deps) now tasks (w, 0, 0);
          w = auditEvent deps (RecomputeCompleted n x) w
      in snd (on_store (q_Count ops) w))"

definition RecomputePriorities ::
  "'s store_ops \<Rightarrow> orch_deps \<Rightarrow> time \<Rightarrow> 's orch_world \<Rightarrow> orch_error option \<times> 's orch_world"
where
  "RecomputePriorities ops deps now w =
     (case on_store (t_ListByStatus ops TaskStatusPending (int MaxTasksInQueue)) w of
        (Inl e, w) \<Rightarrow> (Some (ErrWrap ''list pending tasks'' e), w)
      | (Inr pending, w) \<Rightarrow>
     (case on_store (t_ListByStatus ops TaskStatusQueued (int MaxTasksInQueue)) w of
        (Inl e, w) \<Rightarrow> (Some (ErrWrap ''list queued tasks'' e), w)
      | (Inr queued, w) \<Rightarrow>
     (case on_store (t_ListByStatus ops TaskStatusPaused (int MaxTasksInQueue)) w of
        (Inl e, w) \<Rightarrow> (Some (ErrWrap ''list paused tasks'' e), w)
      | (Inr paused, w) \<Rightarrow> (None, finish_recompute ops deps now (pending @ queued @ paused) w))))"

section \<open>Dispatching\<close>

definition getGovernanceMode :: "orch_deps \<Rightarrow> string" where
  "getGovernanceMode deps = (case od_governance deps of None \<Rightarrow> ''autonomous'' | Some m \<Rightarrow> m)"

text \<open>The task as \<open>applyExecutionOutcome\<close> writes it; None where it leaves the task running.\<close>

definition outcome_task :: "orch_task \<Rightarrow> dispatch_outcome \<Rightarrow> time \<Rightarrow> (orch_task \<times> string) option" where
  "outcome_task task out now =
     (let st = do_TerminalStatus out; fin = task\<lparr>ot_CompletedAt := Some now, ot_UpdatedAt := now\<rparr> in
      if st = ''running'' \<or> st = '''' then None
      else if st = ''completed''
      then Some (fin\<lparr>ot_Status := TaskStatusCompleted, ot_OutcomeType := ''success''\<rparr>, ''task.completed'')
      else if st = ''failed'' \<or> st = ''aborted''
      then Some (fin\<lparr>ot_Status := TaskStatusFailed, ot_OutcomeType := st, ot_LastError := do_Error out\<rparr>, ''task.failed'')
      else Some (fin\<lparr>ot_Status := TaskStatusFailed, ot_OutcomeType := ''unknown_terminal_status'',
        ot_LastError := ''unknown terminal status: '' @ st\<rparr>, ''task.failed''))"

definition applyExecutionOutcome ::
  "'s store_ops \<Rightarrow> orch_deps \<Rightarrow> orch_task \<Rightarrow> dispatch_outcome \<Rightarrow> time \<Rightarrow> 's orch_world \<Rightarrow> 's orch_world"
where
  "applyExecutionOutcome ops deps task out now w =
     (case outcome_task task out now of
        None \<Rightarrow> w
      | Some (task, ev) \<Rightarrow> auditEvent deps (TaskEvent ev (ot_ID task)) (save_unqueue ops task w))"

definition pause_for :: "'s store_ops \<Rightarrow> orch_deps \<Rightarrow> time \<Rightarrow> orch_task \<Rightarrow> 's orch_world \<Rightarrow> 's orch_world" where
  "pause_for ops deps now task w =
     auditEvent deps (TaskEvent ''task.paused'' (ot_ID task))
       (save_unqueue ops (task\<lparr>ot_Status := TaskStatusPaused, ot_UpdatedAt := now\<rparr>) w)"

text \<open>The call of the execution loop and what follows it.\<close>

definition run_task ::
  "'s store_ops \<Rightarrow> orch_deps \<Rightarrow> (nat \<Rightarrow> string \<Rightarrow> string + dispatch_outcome) \<Rightarrow> time \<Rightarrow> orch_task \<Rightarrow>
   's orch_world \<times> dispatch_result \<times> int \<Rightarrow> 's orch_world \<times> dispatch_result \<times> int"
where
  "run_task ops deps createAndRun now task = (\<lambda>(w, res, dispatched).
     let reply = createAndRun (length (ow_runs w)) (ot_Goal task);
         w = w\<lparr>ow_runs := ow_runs w @ [ot_Goal task]\<rparr>
     in case reply of
          Inl err \<Rightarrow>
            (let task = task\<lparr>ot_Status := TaskStatusFailed, ot_LastError := err,
                   ot_AttemptCount := ot_AttemptCount task + 1, ot_CompletedAt := Some now, ot_UpdatedAt := now\<rparr>
             in (auditEvent deps (TaskEvent ''task.failed'' (ot_ID task)) (save_unqueue ops task w),
                 res\<lparr>dr_Skipped := dr_Skipped res @ [ot_ID task]\<rparr>, dispatched))
        | Inr out \<Rightarrow>
            (let task = task\<lparr>ot_Status := TaskStatusRunning, ot_ExecutionTaskID := do_ExecutionID out,
                   ot_AttemptCount := ot_AttemptCount task + 1, ot_UpdatedAt := now\<rparr>;
                 w = auditEvent deps (TaskEvent ''task.dispatched'' (ot_ID task)) (save_unqueue ops task w)
             in (applyExecutionOutcome ops deps task out now w,
                 res\<lparr>dr_Dispatched := dr_Dispatched res @ [ot_ID task]\<rparr>, dispatched + 1)))"

text \<open>One turn of the dispatch loop.\<close>

definition dispatch_entry ::
  "'s store_ops \<Rightarrow> orch_deps \<Rightarrow> string \<Rightarrow> time \<Rightarrow> queue_entry \<Rightarrow>
   's orch_world \<times> dispatch_result \<times> int \<Rightarrow> 's orch_world \<times> dispatch_result \<times> int"
where
  "dispatch_entry ops deps govMode now entry = (\<lambda>(w, res, dispatched).
     case on_store (t_Get ops (qe_TaskID entry)) w of
       (Inl _, w) \<Rightarrow> (snd (on_store (q_Remove ops (qe_TaskID entry)) w), res, dispatched)
     | (Inr task, w) \<Rightarrow>
         if task_IsTerminal (ot_Status task) \<or> ot_Status task = TaskStatusRunning
         then (snd (on_store (q_Remove ops (ot_ID task)) w), res, dispatched)
         else if fle BlockedRisk (ot_RiskLevel task)
         then (pause_for ops deps now task w, res\<lparr>dr_Blocked := dr_Blocked res @ [ot_ID task]\<rparr>, dispatched)
         else if flt HighRiskThreshold (ot_RiskLevel task) \<and> govMode = ''supervised''
         then (pause_for ops deps now task w, res\<lparr>dr_Skipped := dr_Skipped res @ [ot_ID task]\<rparr>, dispatched)
         else case od_executionLoop deps of
                None \<Rightarrow> (w, res\<lparr>dr_Skipped := dr_Skipped res @ [ot_ID task]\<rparr>, dispatched)
              | Some el \<Rightarrow> run_task ops deps el now task (w, res, dispatched))"

fun dispatch_loop ::
  "'s store_ops \<Rightarrow> orch_deps \<Rightarrow> string \<Rightarrow> time \<Rightarrow> int \<Rightarrow> queue_entry list \<Rightarrow>
   's orch_world \<times> dispatch_result \<times> int \<Rightarrow> 's orch_world \<times> dispatch_result \<times> int"
where
  "dispatch_loop ops deps govMode now maxDispatch [] st = st"
| "dispatch_loop ops deps govMode now maxDispatch (e # es) (w, res, dispatched) =
     (if maxDispatch \<le> dispatched then (w, res, dispatched)
      else dispatch_loop ops deps govMode now maxDispatch es
             (dispatch_entry ops deps govMode now e (w, res, dispatched)))"

definition no_result :: dispatch_result where
  "no_result = \<lparr>dr_Dispatched = [], dr_Skipped = [], dr_Blocked = []\<rparr>"

definition dispatch_limit :: "orch_deps \<Rightarrow> int \<Rightarrow> int" where
  "dispatch_limit deps availableSlots =
     (let load = (case od_capacity deps of None \<Rightarrow> Fin 0 | Some l \<Rightarrow> l);
          maxDispatch = (if ShouldReduceDispatch load then 1 else MaxTasksPerCycle)
      in if availableSlots < maxDispatch then availableSlots else maxDispatch)"

definition Dispatch ::
  "'s store_ops \<Rightarrow> orch_deps \<Rightarrow> time \<Rightarrow> 's orch_world \<Rightarrow>
   (dispatch_result \<times> orch_error option) \<times> 's orch_world"
where
  "Dispatch ops deps now w =
     (let govMode = getGovernanceMode deps in
      if govMode = ''frozen'' then ((no_result, Some ErrGovernanceFrozen), w)
      else case on_store (t_CountByStatus ops TaskStatusRunning) w of
        (Inl e, w) \<Rightarrow> ((no_result, Some (ErrWrap ''count running tasks'' e)), w)
      | (Inr runningCount, w) \<Rightarrow>
         (let availableSlots = MaxRunningTasks - int runningCount in
          if availableSlots \<le> 0 then ((no_result, Some ErrMaxRunning), w)
          else
            (let maxDispatch = dispatch_limit deps availableSlots in
             case on_store (q_List ops (maxDispatch * 2)) w of
               (Inl e, w) \<Rightarrow> ((no_result, Some (ErrWrap ''list queue'' e)), w)
             | (Inr entries, w) \<Rightarrow>
                 (let (w, res, _) = dispatch_loop ops deps govMode now maxDispatch entries (w, no_result, 0)
                  in ((res, None), w)))))"

section \<open>Transitions\<close>

definition transitionTask ::
  "'s store_ops \<Rightarrow> orch_deps \<Rightarrow> time \<Rightarrow> string \<Rightarrow> task_status \<Rightarrow> string \<Rightarrow> 's orch_world \<Rightarrow>
   (orch_error + orch_task) \<times> 's orch_world"
where
  "transitionTask ops deps now tid to event w =
     (case on_store (t_Get ops tid) w of
        (Inl e, w) \<Rightarrow> (Inl e, w)
      | (Inr task, w) \<Rightarrow>
          if \<not> ValidateTransition (ot_Status task) to then (Inl ErrInvalidTransition, w)
          else
            (let task = task\<lparr>ot_Status := to, ot_UpdatedAt := now\<rparr> in
             case on_store (t_Update ops task) w of
               (Some e, w) \<Rightarrow> (Inl (ErrWrap ''update task'' e), w)
             | (None, w) \<Rightarrow>
                 (let w = (if task_IsTerminal to \<or> to = TaskStatusPaused
                           then snd (on_store (q_Remove ops tid) w) else w)
                  in (Inr task, auditEvent deps (TaskEvent event tid) w))))"

definition CompleteTask ::
  "'s store_ops \<Rightarrow> orch_deps \<Rightarrow> time \<Rightarrow> string \<Rightarrow> 's orch_world \<Rightarrow> (orch_error + orch_task) \<times> 's orch_world" where
  "CompleteTask ops deps now tid = transitionTask ops deps now tid TaskStatusCompleted ''task.completed''"

definition FailTask ::
  "'s store_ops \<Rightarrow> orch_deps \<Rightarrow> time \<Rightarrow> string \<Rightarrow> 's orch_world \<Rightarrow> (orch_error + orch_task) \<times> 's orch_world" where
  "FailTask ops deps now tid = transitionTask ops deps now tid TaskStatusFailed ''task.failed''"

definition PauseTask ::
  "'s store_ops \<Rightarrow> orch_deps \<Rightarrow> time \<Rightarrow> string \<Rightarrow> 's orch_world \<Rightarrow> (orch_error + orch_task) \<times> 's orch_world" where
  "PauseTask ops deps now tid = transitionTask ops deps now tid TaskStatusPaused ''task.paused''"

definition FailTaskWithReason ::
  "'s store_ops \<Rightarrow> orch_deps \<Rightarrow> time \<Rightarrow> string \<Rightarrow> string \<Rightarrow> 's orch_world \<Rightarrow>
   (orch_error + orch_task) \<times> 's orch_world"
where
  "FailTaskWithReason ops deps now tid reason w =
     (case on_store (t_Get ops tid) w of
        (Inl e, w) \<Rightarrow> (Inl e, w)
      | (Inr task, w) \<Rightarrow>
          if \<not> ValidateTransition (ot_Status task) TaskStatusFailed then (Inl ErrInvalidTransition, w)
          else
            (let task = task\<lparr>ot_Status := TaskStatusFailed, ot_LastError := reason, ot_UpdatedAt := now\<rparr> in
             case on_store (t_Update ops task) w of
               (Some e, w) \<Rightarrow> (Inl (ErrWrap ''update task'' e), w)
             | (None, w) \<Rightarrow>
                 (Inr task, auditEvent deps (TaskEvent ''task.failed'' tid) (snd (on_store (q_Remove ops tid) w)))))"

definition GetQueue :: "'s store_ops \<Rightarrow> int \<Rightarrow> 's orch_world \<Rightarrow> (orch_error + queue_entry list) \<times> 's orch_world" where
  "GetQueue ops limit = on_store (q_List ops (if limit \<le> 0 then int MaxTasksInQueue else limit))"

section \<open>Effects\<close>

lemma on_storeD: "on_store f w = (r, w') \<Longrightarrow> f (ow_store w) = (r, ow_store w') \<and> ow_runs w' = ow_runs w"
  by (auto simp: on_store_def split: prod.splits)

lemma audit_simps [simp]: "ow_store (auditEvent deps ev w) = ow_store w" "ow_runs (auditEvent deps ev w) = ow_runs w"
  by (simp_all add: auditEvent_def)

text \<open>
  What one operation may do to the task it is about: nothing but that task and its queue entry
  change, a task that has ended stays as it is, and no task appears or disappears.
\<close>

definition touches :: "string \<Rightarrow> store_abs \<Rightarrow> store_abs \<Rightarrow> bool" where
  "touches i a a' \<longleftrightarrow>
     (\<forall>j. j \<noteq> i \<longrightarrow> ab_tasks a' j = ab_tasks a j \<and> ab_queue a' j = ab_queue a j) \<and>
     (ab_tasks a' i = ab_tasks a i \<or>
      (\<exists>t t'. ab_tasks a i = Some t \<and> ab_tasks a' i = Some t' \<and> \<not> task_IsTerminal (ot_Status t) \<and> same_origin t' t))"

lemma same_origin_refl [simp]: "same_origin t t"
  by (simp add: same_origin_def)

lemma touches_refl [simp]: "touches i a a"
  by (simp add: touches_def)

context task_store
begin

text \<open>The store after an ignored update and an ignored removal.\<close>

lemma save_unqueue_spec:
  assumes "good (ow_store w)" and "ab_tasks (view (ow_store w)) (ot_ID t) = Some u" and "same_origin t u"
    and "w' = save_unqueue ops t w" and "a = view (ow_store w)" and "a' = view (ow_store w')"
  shows "good (ow_store w')" and "healthy (ow_store w) \<Longrightarrow> healthy (ow_store w')" and "ow_runs w' = ow_runs w"
    and "ab_tasks a' = ab_tasks a \<or> ab_tasks a' = (ab_tasks a)(ot_ID t \<mapsto> t)"
    and "ab_queue a' = ab_queue a \<or> ab_queue a' = (ab_queue a)(ot_ID t := None)"
    and "healthy (ow_store w) \<Longrightarrow> ab_queue a' = (ab_queue a)(ot_ID t := None)"
    and "healthy (ow_store w) \<Longrightarrow> int4 (ot_AttemptCount t) \<Longrightarrow> ab_tasks a' = (ab_tasks a)(ot_ID t \<mapsto> t)"
proof -
  obtain e w1 where 1: "on_store (t_Update ops t) w = (e, w1)" by fastforce
  obtain f w2 where 2: "on_store (q_Remove ops (ot_ID t)) w1 = (f, w2)" by fastforce
  have w': "w' = w2" using 1 2 assms(4) by (simp add: save_unqueue_def)
  note u = update_law [OF assms(1-3) on_storeD [OF 1, THEN conjunct1]]
  note r = remove_law [OF u [THEN conjunct1] on_storeD [OF 2, THEN conjunct1]]
  show "good (ow_store w')" "healthy (ow_store w) \<Longrightarrow> healthy (ow_store w')" using u r w' by auto
  show "ow_runs w' = ow_runs w" using on_storeD [OF 1] on_storeD [OF 2] w' by simp
  have t: "ab_tasks a' = ab_tasks (view (ow_store w1))" and q: "ab_queue (view (ow_store w1)) = ab_queue a"
    using u r w' assms(5,6) by (auto simp: wrote_def)
  show "ab_tasks a' = ab_tasks a \<or> ab_tasks a' = (ab_tasks a)(ot_ID t \<mapsto> t)"
    using u t assms(5) by (auto simp: wrote_def)
  show "ab_queue a' = ab_queue a \<or> ab_queue a' = (ab_queue a)(ot_ID t := None)"
    using r q w' assms(6) by (auto simp: wrote_def)
  show "ab_queue a' = (ab_queue a)(ot_ID t := None)" if "healthy (ow_store w)"
    using that u r q w' assms(6) by (auto simp: wrote_def)
  show "ab_tasks a' = (ab_tasks a)(ot_ID t \<mapsto> t)" if "healthy (ow_store w)" "int4 (ot_AttemptCount t)"
  proof -
    have "e = None" using that u by blast
    then have "ab_tasks (view (ow_store w1)) = (ab_tasks (view (ow_store w)))(ot_ID t \<mapsto> t)"
      using u unfolding wrote_def by (metis store_abs.select_convs(1) store_abs.surjective store_abs.update_convs(1))
    then show ?thesis using t assms(5) by simp
  qed
qed

lemma save_unqueue_touches:
  assumes "good (ow_store w)" and "ab_tasks (view (ow_store w)) (ot_ID t) = Some u" and "same_origin t u"
    and "\<not> task_IsTerminal (ot_Status u)"
  shows "touches (ot_ID t) (view (ow_store w)) (view (ow_store (save_unqueue ops t w)))"
  using save_unqueue_spec(4,5) [OF assms(1-3) refl refl refl] assms(2-4) by (auto simp: touches_def)

end

lemma same_origin_trans: "same_origin a b \<Longrightarrow> same_origin b c \<Longrightarrow> same_origin a c"
  by (simp add: same_origin_def)

lemma touches_trans: assumes "touches i a b" "touches i b c" shows "touches i a c"
proof -
  consider "ab_tasks b i = ab_tasks a i" | "ab_tasks c i = ab_tasks b i"
    | "ab_tasks b i \<noteq> ab_tasks a i" "ab_tasks c i \<noteq> ab_tasks b i" by blast
  then show ?thesis
  proof cases
  case 1
  then show ?thesis using assms by (simp add: touches_def)
next
  case 2
  then show ?thesis using assms by (simp add: touches_def)
next
  case 3
  then obtain t t' t'' where "ab_tasks a i = Some t" "ab_tasks b i = Some t'" "\<not> task_IsTerminal (ot_Status t)"
    "same_origin t' t" "ab_tasks c i = Some t''" "same_origin t'' t'"
    using assms unfolding touches_def by fastforce
  then have "\<exists>t t''. ab_tasks a i = Some t \<and> ab_tasks c i = Some t'' \<and> \<not> task_IsTerminal (ot_Status t) \<and> same_origin t'' t"
    using same_origin_trans by blast
  then show ?thesis using assms by (simp add: touches_def)
  qed
qed

text \<open>A task the dispatcher may hand to the execution loop.\<close>

definition eligible :: "string \<Rightarrow> orch_task \<Rightarrow> bool" where
  "eligible mode t \<longleftrightarrow> ot_Status t \<in> {TaskStatusPending, TaskStatusQueued, TaskStatusPaused} \<and>
     \<not> fle BlockedRisk (ot_RiskLevel t) \<and> \<not> (flt HighRiskThreshold (ot_RiskLevel t) \<and> mode = ''supervised'')"

lemma status_cases: "\<not> (task_IsTerminal st \<or> st = TaskStatusRunning) \<longleftrightarrow> st \<in> {TaskStatusPending, TaskStatusQueued, TaskStatusPaused}"
  by (cases st) (simp_all add: task_IsTerminal_def)

lemma outcome_task_same:
  "outcome_task t out now = Some (t', ev) \<Longrightarrow> ot_ID t' = ot_ID t \<and> same_origin t' t \<and> ot_Status t' \<noteq> TaskStatusRunning"
  by (auto simp: outcome_task_def Let_def same_origin_def split: if_splits)

definition running :: "store_abs \<Rightarrow> string set" where "running a = with_status TaskStatusRunning a"

lemma running_mono:
  assumes "\<And>j. j \<noteq> i \<Longrightarrow> ab_tasks a' j = ab_tasks a j"
  shows "running a' \<subseteq> insert i (running a)"
  using assms by (auto simp: running_def with_status_def)

lemma running_same:
  assumes "touches i a a'" and "ab_tasks a' i = ab_tasks a i \<or> (\<exists>t. ab_tasks a' i = Some t \<and> ot_Status t \<noteq> TaskStatusRunning)"
  shows "running a' \<subseteq> running a"
proof
  fix j assume "j \<in> running a'"
  then show "j \<in> running a" using assms by (cases "j = i") (auto simp: running_def with_status_def touches_def)
qed

text \<open>The effect of one turn: what it did to the store, to the calls of the execution loop and to the counts.\<close>

definition turn_effect ::
  "string \<Rightarrow> string \<Rightarrow> store_abs \<Rightarrow> store_abs \<Rightarrow> string list \<Rightarrow> string list \<Rightarrow> dispatch_result \<times> int \<Rightarrow> dispatch_result \<times> int \<Rightarrow> bool"
where
  "turn_effect mode i a a' runs runs' = (\<lambda>(res, n) (res', n').
     touches i a a' \<and>
     (runs' = runs \<and> n' = n \<and> dr_Dispatched res' = dr_Dispatched res \<and> running a' \<subseteq> running a \<or>
      (\<exists>t. ab_tasks a i = Some t \<and> eligible mode t \<and> runs' = runs @ [ot_Goal t] \<and>
        (n' = n \<and> dr_Dispatched res' = dr_Dispatched res \<and> running a' \<subseteq> running a \<or>
         n' = n + 1 \<and> dr_Dispatched res' = dr_Dispatched res @ [i] \<and> running a' \<subseteq> insert i (running a)))))"

context task_store
begin

lemma apply_outcome_spec:
  assumes "good (ow_store w)" and "ab_tasks (view (ow_store w)) (ot_ID t) = Some u" and "same_origin t u"
    and "\<not> task_IsTerminal (ot_Status u)" and "w' = applyExecutionOutcome ops deps t out now w"
  shows "good (ow_store w') \<and> (healthy (ow_store w) \<longrightarrow> healthy (ow_store w')) \<and> ow_runs w' = ow_runs w \<and>
    touches (ot_ID t) (view (ow_store w)) (view (ow_store w')) \<and>
    (ab_queue (view (ow_store w)) (ot_ID t) = None \<longrightarrow> ab_queue (view (ow_store w')) (ot_ID t) = None)"
proof (cases "outcome_task t out now")
  case None
  then show ?thesis
    using assms by (simp add: applyExecutionOutcome_def)
next
  case (Some p)
  obtain t' ev where p: "p = (t', ev)" by fastforce
  have t': "ot_ID t' = ot_ID t" "same_origin t' t" using outcome_task_same [of t out now t' ev] Some p by simp_all
  then have o: "same_origin t' u" using assms(3) by (simp add: same_origin_def)
  have w': "ow_store w' = ow_store (save_unqueue ops t' w)" "ow_runs w' = ow_runs (save_unqueue ops t' w)"
    using assms(5) Some p by (simp_all add: applyExecutionOutcome_def)
  have u: "ab_tasks (view (ow_store w)) (ot_ID t') = Some u" using assms(2) t' by simp
  note s = save_unqueue_spec [OF assms(1) u o refl refl refl]
  show ?thesis
    using s(1-3,5) save_unqueue_touches [OF assms(1) u o assms(4)] t'(1) unfolding w' by auto
qed

end

context task_store
begin

lemma run_task_failed:
  assumes "good (ow_store w)" and t: "ab_tasks (view (ow_store w)) (ot_ID t) = Some t" and "eligible mode t"
    and run: "run_task ops deps el now t (w, res, n) = (w', res', n')" and Inl: "el (length (ow_runs w)) (ot_Goal t) = Inl err"
  shows "good (ow_store w') \<and> (healthy (ow_store w) \<longrightarrow> healthy (ow_store w') \<and> ab_queue (view (ow_store w')) (ot_ID t) = None) \<and>
    turn_effect mode (ot_ID t) (view (ow_store w)) (view (ow_store w')) (ow_runs w) (ow_runs w') (res, n) (res', n')"
proof -
  have nt: "\<not> task_IsTerminal (ot_Status t)" using assms(3) by (auto simp: eligible_def task_IsTerminal_def)
  let ?w = "w\<lparr>ow_runs := ow_runs w @ [ot_Goal t]\<rparr>"
  have w: "good (ow_store ?w)" "ab_tasks (view (ow_store ?w)) (ot_ID t) = Some t" using assms(1) t by simp_all
  define t' where "t' = t\<lparr>ot_Status := TaskStatusFailed, ot_LastError := err, ot_AttemptCount := ot_AttemptCount t + 1,
    ot_CompletedAt := Some now, ot_UpdatedAt := now\<rparr>"
  have u: "ab_tasks (view (ow_store ?w)) (ot_ID t') = Some t" "same_origin t' t"
    using t by (simp_all add: t'_def same_origin_def)
  note s = save_unqueue_spec [OF w(1) u refl refl refl]
  have r: "w' = auditEvent deps (TaskEvent ''task.failed'' (ot_ID t')) (save_unqueue ops t' ?w)"
    "n' = n" "dr_Dispatched res' = dr_Dispatched res"
    using run Inl by (simp_all add: run_task_def t'_def Let_def) auto
  have i: "ot_ID t' = ot_ID t" "ot_Status t' \<noteq> TaskStatusRunning" by (simp_all add: t'_def)
  have tch: "touches (ot_ID t) (view (ow_store w)) (view (ow_store w'))"
    using save_unqueue_touches [OF w(1) u nt] r(1) i(1) by simp
  moreover have "running (view (ow_store w')) \<subseteq> running (view (ow_store w))"
    by (rule running_same [OF tch]) (use s(4) r(1) i in auto)
  moreover have "good (ow_store w')" "ow_runs w' = ow_runs w @ [ot_Goal t]"
    "healthy (ow_store w) \<longrightarrow> healthy (ow_store w') \<and> ab_queue (view (ow_store w')) (ot_ID t) = None"
    using s(1,2,3,6) r(1) i(1) by simp_all
  ultimately show ?thesis using r(2,3) assms(3) t by (auto simp: turn_effect_def)
qed

lemma run_task_dispatched:
  assumes "good (ow_store w)" and t: "ab_tasks (view (ow_store w)) (ot_ID t) = Some t" and "eligible mode t"
    and run: "run_task ops deps el now t (w, res, n) = (w', res', n')" and Inr: "el (length (ow_runs w)) (ot_Goal t) = Inr out"
  shows "good (ow_store w') \<and> (healthy (ow_store w) \<longrightarrow> healthy (ow_store w') \<and> ab_queue (view (ow_store w')) (ot_ID t) = None) \<and>
    turn_effect mode (ot_ID t) (view (ow_store w)) (view (ow_store w')) (ow_runs w) (ow_runs w') (res, n) (res', n')"
proof -
  have nt: "\<not> task_IsTerminal (ot_Status t)" using assms(3) by (auto simp: eligible_def task_IsTerminal_def)
  let ?w = "w\<lparr>ow_runs := ow_runs w @ [ot_Goal t]\<rparr>"
  have w: "good (ow_store ?w)" "ab_tasks (view (ow_store ?w)) (ot_ID t) = Some t" using assms(1) t by simp_all
  define t' where "t' = t\<lparr>ot_Status := TaskStatusRunning, ot_ExecutionTaskID := do_ExecutionID out,
    ot_AttemptCount := ot_AttemptCount t + 1, ot_UpdatedAt := now\<rparr>"
  define w1 where "w1 = auditEvent deps (TaskEvent ''task.dispatched'' (ot_ID t')) (save_unqueue ops t' ?w)"
  have i: "ot_ID t' = ot_ID t" by (simp add: t'_def)
  have u: "ab_tasks (view (ow_store ?w)) (ot_ID t') = Some t" "same_origin t' t"
    using t by (simp_all add: t'_def same_origin_def)
  note s = save_unqueue_spec [OF w(1) u refl refl refl]
  have r: "w' = applyExecutionOutcome ops deps t' out now w1" "n' = n + 1"
    "dr_Dispatched res' = dr_Dispatched res @ [ot_ID t]"
    using run Inr by (simp_all add: run_task_def t'_def w1_def Let_def) auto
  have w1: "good (ow_store w1)" "healthy (ow_store w) \<longrightarrow> healthy (ow_store w1) \<and> ab_queue (view (ow_store w1)) (ot_ID t) = None"
    "ow_runs w1 = ow_runs w @ [ot_Goal t]" "touches (ot_ID t) (view (ow_store w)) (view (ow_store w1))"
    using s save_unqueue_touches [OF w(1) u nt] i by (simp_all add: w1_def)
  have "ab_tasks (view (ow_store w1)) (ot_ID t') = Some t \<or> ab_tasks (view (ow_store w1)) (ot_ID t') = Some t'"
    using s(4) u(1) by (auto simp: w1_def)
  moreover have "\<not> task_IsTerminal (ot_Status t')" by (simp add: t'_def task_IsTerminal_def)
  ultimately obtain v where v: "ab_tasks (view (ow_store w1)) (ot_ID t') = Some v" "same_origin t' v"
      "\<not> task_IsTerminal (ot_Status v)"
    using u(2) nt same_origin_refl by blast
  note o = apply_outcome_spec [OF w1(1) v r(1)]
  have "touches (ot_ID t) (view (ow_store w)) (view (ow_store w'))" using touches_trans w1(4) o i by metis
  moreover from this have "running (view (ow_store w')) \<subseteq> insert (ot_ID t) (running (view (ow_store w)))"
    by (intro running_mono) (simp add: touches_def)
  ultimately show ?thesis using w1 o r assms(3) t i by (auto simp: turn_effect_def)
qed

lemma run_task_effect:
  assumes "good (ow_store w)" and t: "ab_tasks (view (ow_store w)) (ot_ID t) = Some t" and "eligible mode t"
    and run: "run_task ops deps el now t (w, res, n) = (w', res', n')"
  shows "good (ow_store w') \<and> (healthy (ow_store w) \<longrightarrow> healthy (ow_store w') \<and> ab_queue (view (ow_store w')) (ot_ID t) = None) \<and>
    turn_effect mode (ot_ID t) (view (ow_store w)) (view (ow_store w')) (ow_runs w) (ow_runs w') (res, n) (res', n')"
  using run_task_failed [OF assms] run_task_dispatched [OF assms] by (cases "el (length (ow_runs w)) (ot_Goal t)") blast+

end

lemma touches_dequeue:
  assumes "wrote e a (a\<lparr>ab_queue := (ab_queue a)(i := None)\<rparr>) a'"
  shows "touches i a a'" and "ab_tasks a' = ab_tasks a" and "running a' = running a"
  using assms by (auto simp: wrote_def touches_def running_def with_status_def)

text \<open>Tasks that have ended keep their status, and no task is lost.\<close>

definition keeps_ended :: "store_abs \<Rightarrow> store_abs \<Rightarrow> bool" where
  "keeps_ended a a' \<longleftrightarrow> dom (ab_tasks a) \<subseteq> dom (ab_tasks a') \<and>
     (\<forall>i st. status_of a i = Some st \<longrightarrow> task_IsTerminal st \<longrightarrow> status_of a' i = Some st)"

lemma keeps_ended_refl [simp]: "keeps_ended a a"
  by (simp add: keeps_ended_def)

lemma keeps_ended_trans: "keeps_ended a b \<Longrightarrow> keeps_ended b c \<Longrightarrow> keeps_ended a c"
  unfolding keeps_ended_def by blast

lemma keeps_ended_touches:
  assumes "touches i a a'" shows "keeps_ended a a'"
proof -
  have "status_of a' j = Some st" if "status_of a j = Some st" "task_IsTerminal st" for j st
    using that assms by (cases "j = i") (auto simp: touches_def status_of_def)
  moreover have "j \<in> dom (ab_tasks a')" if "j \<in> dom (ab_tasks a)" for j
    using that assms by (cases "j = i") (auto simp: touches_def)
  ultimately show ?thesis unfolding keeps_ended_def by blast
qed

text \<open>The effect of several turns on different tasks.\<close>

definition loop_effect ::
  "string \<Rightarrow> string list \<Rightarrow> store_abs \<Rightarrow> store_abs \<Rightarrow> string list \<Rightarrow> string list \<Rightarrow> dispatch_result \<times> int \<Rightarrow> dispatch_result \<times> int \<Rightarrow> bool"
where
  "loop_effect mode is a a' runs runs' = (\<lambda>(res, n) (res', n').
     \<exists>ds rs. dr_Dispatched res' = dr_Dispatched res @ ds \<and> n' = n + int (length ds) \<and>
       subseq ds rs \<and> subseq rs is \<and> (\<forall>i \<in> set rs. \<exists>t. ab_tasks a i = Some t \<and> eligible mode t) \<and>
       runs' = runs @ map (\<lambda>i. ot_Goal (the (ab_tasks a i))) rs \<and> running a' \<subseteq> set ds \<union> running a \<and>
       (\<forall>i. i \<notin> set is \<longrightarrow> ab_tasks a' i = ab_tasks a i) \<and>
       keeps_ended a a')"

lemma subseq_in: "subseq xs ys \<Longrightarrow> x \<in> set xs \<Longrightarrow> x \<in> set ys"
  using list_emb_set [of "(=)" xs ys x] by blast

lemma distinct_subseq: "subseq xs ys \<Longrightarrow> distinct ys \<Longrightarrow> distinct xs"
  by (auto simp: subseq_conv_nths)

lemma loop_effect_Nil: "loop_effect mode is a a runs runs st st"
  by (cases st) (auto simp: loop_effect_def intro!: exI [of _ "[]"])

lemma loop_effect_Cons:
  assumes "turn_effect mode i a b runs runs1 (res, n) (res1, n1)" and "i \<notin> set is"
    and "loop_effect mode is b c runs1 runs2 (res1, n1) (res2, n2)"
  shows "loop_effect mode (i # is) a c runs runs2 (res, n) (res2, n2)"
proof -
  obtain ds rs where L: "dr_Dispatched res2 = dr_Dispatched res1 @ ds" "n2 = n1 + int (length ds)"
    "subseq ds rs" "subseq rs is" "\<forall>j \<in> set rs. \<exists>t. ab_tasks b j = Some t \<and> eligible mode t"
    "runs2 = runs1 @ map (\<lambda>i. ot_Goal (the (ab_tasks b i))) rs" "running c \<subseteq> set ds \<union> running b"
    "\<forall>i. i \<notin> set is \<longrightarrow> ab_tasks c i = ab_tasks b i"
    "keeps_ended b c"
    using assms(3) unfolding loop_effect_def by blast
  have tch: "touches i a b" using assms(1) by (simp add: turn_effect_def)
  have "i \<notin> set rs" using assms(2) subseq_in [OF L(4), of i] by metis
  then have same: "ab_tasks b j = ab_tasks a j" if "j \<in> set rs" for j
    using that tch unfolding touches_def by metis
  have el: "\<forall>j \<in> set rs. \<exists>t. ab_tasks a j = Some t \<and> eligible mode t" using L(5) same by simp
  have goals: "map (\<lambda>i. ot_Goal (the (ab_tasks b i))) rs = map (\<lambda>i. ot_Goal (the (ab_tasks a i))) rs" using same by simp
  have rest: "\<forall>j. j \<notin> set (i # is) \<longrightarrow> ab_tasks c j = ab_tasks a j"
    using L(8) tch by (simp add: touches_def)
  have fin: "keeps_ended a c" using keeps_ended_trans [OF keeps_ended_touches [OF tch] L(9)] .
  consider (skip) "runs1 = runs" "n1 = n" "dr_Dispatched res1 = dr_Dispatched res" "running b \<subseteq> running a"
    | (failed) t where "ab_tasks a i = Some t" "eligible mode t" "runs1 = runs @ [ot_Goal t]" "n1 = n"
        "dr_Dispatched res1 = dr_Dispatched res" "running b \<subseteq> running a"
    | (ok) t where "ab_tasks a i = Some t" "eligible mode t" "runs1 = runs @ [ot_Goal t]" "n1 = n + 1"
        "dr_Dispatched res1 = dr_Dispatched res @ [i]" "running b \<subseteq> insert i (running a)"
    using assms(1) by (auto simp: turn_effect_def)
  then show ?thesis
  proof cases
    case skip
    then show ?thesis unfolding loop_effect_def prod.case
      by (intro exI [of _ ds] exI [of _ rs]) (use L el goals rest fin in auto)
  next
    case failed
    then show ?thesis unfolding loop_effect_def prod.case
      by (intro exI [of _ ds] exI [of _ "i # rs"]) (use L el goals rest fin in auto)
  next
    case ok
    then show ?thesis unfolding loop_effect_def prod.case
      by (intro exI [of _ "i # ds"] exI [of _ "i # rs"]) (use L el goals rest fin in auto)
  qed
qed

context task_store
begin

lemma pause_effect:
  assumes "good (ow_store w)" and "ab_tasks (view (ow_store w)) (ot_ID t) = Some t" and "\<not> task_IsTerminal (ot_Status t)"
    and "w' = pause_for ops deps now t w"
  shows "good (ow_store w')" and "healthy (ow_store w) \<Longrightarrow> healthy (ow_store w')" and "ow_runs w' = ow_runs w"
    and "touches (ot_ID t) (view (ow_store w)) (view (ow_store w'))"
    and "running (view (ow_store w')) \<subseteq> running (view (ow_store w))"
    and "healthy (ow_store w) \<Longrightarrow> ab_queue (view (ow_store w')) (ot_ID t) = None"
proof -
  define t' where "t' = t\<lparr>ot_Status := TaskStatusPaused, ot_UpdatedAt := now\<rparr>"
  have i: "ot_ID t' = ot_ID t" "ot_Status t' \<noteq> TaskStatusRunning" by (simp_all add: t'_def)
  have u: "ab_tasks (view (ow_store w)) (ot_ID t') = Some t" "same_origin t' t"
    using assms(2) by (simp_all add: t'_def same_origin_def)
  note s = save_unqueue_spec [OF assms(1) u refl refl refl]
  have w': "ow_store w' = ow_store (save_unqueue ops t' w)" "ow_runs w' = ow_runs (save_unqueue ops t' w)"
    using assms(4) by (simp_all add: pause_for_def t'_def)
  show "good (ow_store w')" "healthy (ow_store w) \<Longrightarrow> healthy (ow_store w')" "ow_runs w' = ow_runs w"
    "healthy (ow_store w) \<Longrightarrow> ab_queue (view (ow_store w')) (ot_ID t) = None"
    using s(1-3,6) w' i(1) by simp_all
  show tch: "touches (ot_ID t) (view (ow_store w)) (view (ow_store w'))"
    using save_unqueue_touches [OF assms(1) u assms(3)] w' i(1) by simp
  show "running (view (ow_store w')) \<subseteq> running (view (ow_store w))"
    by (rule running_same [OF tch]) (use s(4) w' i in auto)
qed

lemma dispatch_entry_effect:
  assumes "good (ow_store w)" and "dispatch_entry ops deps mode now e (w, res, n) = (w', res', n')"
  shows "good (ow_store w') \<and>
    (healthy (ow_store w) \<longrightarrow> healthy (ow_store w') \<and>
      (ab_queue (view (ow_store w')) (qe_TaskID e) = None \<or>
       od_executionLoop deps = None \<and> view (ow_store w') = view (ow_store w))) \<and>
    turn_effect mode (qe_TaskID e) (view (ow_store w)) (view (ow_store w')) (ow_runs w) (ow_runs w') (res, n) (res', n')"
proof -
  let ?i = "qe_TaskID e"
  obtain r w1 where g: "on_store (t_Get ops ?i) w = (r, w1)" by fastforce
  have G: "good (ow_store w1) \<and> (healthy (ow_store w) \<longrightarrow> healthy (ow_store w1)) \<and> view (ow_store w1) = view (ow_store w) \<and>
      (\<forall>t. r = Inr t \<longrightarrow> ab_tasks (view (ow_store w)) ?i = Some t)" "ow_runs w1 = ow_runs w"
    using get_law [OF assms(1) on_storeD [OF g, THEN conjunct1]] on_storeD [OF g] by auto
  obtain f w2 where d: "on_store (q_Remove ops ?i) w1 = (f, w2)" by fastforce
  note R = remove_law [OF G(1) [THEN conjunct1] on_storeD [OF d, THEN conjunct1]]
  have rem: "good (ow_store w2) \<and> (healthy (ow_store w) \<longrightarrow> healthy (ow_store w2) \<and> ab_queue (view (ow_store w2)) ?i = None) \<and>
    touches ?i (view (ow_store w)) (view (ow_store w2)) \<and> running (view (ow_store w2)) = running (view (ow_store w)) \<and> ow_runs w2 = ow_runs w"
    using R G on_storeD [OF d] touches_dequeue(1,3) [of f "view (ow_store w)" ?i "view (ow_store w2)"] by (auto simp: wrote_def)
  have dequeue: ?thesis if "(w', res', n') = (w2, res, n)" using that rem by (auto simp: turn_effect_def)
  show ?thesis
  proof (cases r)
    case (Inl err)
    then show ?thesis using assms(2) g d dequeue by (simp add: dispatch_entry_def)
  next
    case (Inr t)
    then have t: "ab_tasks (view (ow_store w)) ?i = Some t" and i: "ot_ID t = ?i"
      using G good_id assms(1) by blast+
    have w1: "good (ow_store w1)" "ab_tasks (view (ow_store w1)) (ot_ID t) = Some t" using G t i by simp_all
    note step = assms(2) [unfolded dispatch_entry_def prod.case g Inr sum.case]
    consider (ended) "task_IsTerminal (ot_Status t) \<or> ot_Status t = TaskStatusRunning"
      | (blocked) "ot_Status t \<in> {TaskStatusPending, TaskStatusQueued, TaskStatusPaused}"
         "w' = pause_for ops deps now t w1" "n' = n" "dr_Dispatched res' = dr_Dispatched res"
      | (noloop) "od_executionLoop deps = None" "w' = w1" "n' = n" "dr_Dispatched res' = dr_Dispatched res"
      | (run) el where "od_executionLoop deps = Some el" "eligible mode t" "run_task ops deps el now t (w1, res, n) = (w', res', n')"
      using step status_cases [of "ot_Status t"] unfolding eligible_def
      by (auto split: if_splits option.splits)
    then show ?thesis
    proof cases
      case ended
      then show ?thesis using step d i dequeue by (simp split: if_splits)
    next
      case blocked
      then have "\<not> task_IsTerminal (ot_Status t)" by (auto simp: task_IsTerminal_def)
      from pause_effect [OF w1 this blocked(2)] show ?thesis using G blocked i by (auto simp: turn_effect_def)
    next
      case noloop
      then show ?thesis using G by (auto simp: turn_effect_def)
    next
      case run
      from run_task_effect [OF w1 run(2,3)] show ?thesis using G i by simp
    qed
  qed
qed

end

section \<open>A dispatch cycle\<close>

text \<open>Only queued and paused tasks are in the queue.\<close>

definition queue_ok :: "store_abs \<Rightarrow> bool" where
  "queue_ok a \<longleftrightarrow> (\<forall>i q. ab_queue a i = Some q \<longrightarrow>
     (\<exists>t. ab_tasks a i = Some t \<and> ot_Status t \<in> {TaskStatusQueued, TaskStatusPaused}))"

lemma queue_ok_touch:
  assumes "queue_ok a" and "touches i a a'" and "ab_queue a' i = None \<or> a' = a"
  shows "queue_ok a'"
  unfolding queue_ok_def
proof (intro allI impI)
  fix j q assume q: "ab_queue a' j = Some q"
  show "\<exists>t. ab_tasks a' j = Some t \<and> ot_Status t \<in> {TaskStatusQueued, TaskStatusPaused}"
    using assms q by (cases "j = i") (auto simp: queue_ok_def touches_def)
qed

definition considered :: "string list \<Rightarrow> bool \<Rightarrow> store_abs \<Rightarrow> store_abs \<Rightarrow> string list \<Rightarrow> string list \<Rightarrow> bool" where
  "considered is live a a' ds ds' \<longleftrightarrow>
     (\<exists>k. set ds' \<subseteq> set ds \<union> set (take k is) \<and> (live \<longrightarrow> (\<forall>i \<in> set (take k is). ab_queue a' i = None)) \<and>
       (\<forall>i. i \<notin> set (take k is) \<longrightarrow> ab_queue a' i = ab_queue a i))"

lemma considered_Nil: "considered is live a a ds ds"
  unfolding considered_def by (rule exI [of _ 0]) simp

lemma considered_Cons:
  assumes "touches i a b" and "live \<longrightarrow> ab_queue b i = None" and "set ds1 \<subseteq> insert i (set ds)" and "i \<notin> set is"
    and "considered is live b c ds1 ds2"
  shows "considered (i # is) live a c ds ds2"
proof -
  obtain k where k: "set ds2 \<subseteq> set ds1 \<union> set (take k is)" "live \<longrightarrow> (\<forall>i \<in> set (take k is). ab_queue c i = None)"
    "\<forall>i. i \<notin> set (take k is) \<longrightarrow> ab_queue c i = ab_queue b i" using assms(5) by (auto simp: considered_def)
  have "i \<notin> set (take k is)" using assms(4) by (meson in_set_takeD)
  then show ?thesis unfolding considered_def
    by (intro exI [of _ "Suc k"]) (use k assms(1-3) in \<open>auto simp: touches_def\<close>)
qed

context task_store
begin

lemma dispatch_loop_spec:
  assumes "good (ow_store w)" and "distinct (map qe_TaskID es)"
    and "dispatch_loop ops deps mode now m es (w, res, n) = (w', res', n')"
  shows "good (ow_store w') \<and> (healthy (ow_store w) \<longrightarrow> healthy (ow_store w') \<and>
      (queue_ok (view (ow_store w)) \<longrightarrow> queue_ok (view (ow_store w')))) \<and>
    loop_effect mode (map qe_TaskID es) (view (ow_store w)) (view (ow_store w')) (ow_runs w) (ow_runs w') (res, n) (res', n') \<and>
    (n \<le> m \<longrightarrow> n' \<le> m) \<and>
    considered (map qe_TaskID es) (healthy (ow_store w) \<and> od_executionLoop deps \<noteq> None)
      (view (ow_store w)) (view (ow_store w')) (dr_Dispatched res) (dr_Dispatched res')"
  using assms
proof (induction es arbitrary: w res n)
  case Nil
  then show ?case by (simp add: loop_effect_Nil considered_Nil)
next
  case (Cons e es)
  show ?case
  proof (cases "m \<le> n")
    case True
    then show ?thesis using Cons.prems by (auto simp: loop_effect_Nil considered_Nil)
  next
    case False
    obtain w1 res1 n1 where d: "dispatch_entry ops deps mode now e (w, res, n) = (w1, res1, n1)"
      by (metis prod_cases3)
    note E = dispatch_entry_effect [OF Cons.prems(1) d]
    have te: "turn_effect mode (qe_TaskID e) (view (ow_store w)) (view (ow_store w1)) (ow_runs w) (ow_runs w1) (res, n) (res1, n1)"
      using E by blast
    then have tch: "touches (qe_TaskID e) (view (ow_store w)) (view (ow_store w1))" "n1 \<le> n + 1"
      "set (dr_Dispatched res1) \<subseteq> insert (qe_TaskID e) (set (dr_Dispatched res))"
      by (auto simp: turn_effect_def)
    have new: "qe_TaskID e \<notin> set (map qe_TaskID es)" "distinct (map qe_TaskID es)" using Cons.prems(2) by auto
    have step: "dispatch_loop ops deps mode now m es (w1, res1, n1) = (w', res', n')"
      using Cons.prems(3) False d by simp
    note IH = Cons.IH [OF E [THEN conjunct1] new(2) step]
    have "healthy (ow_store w) \<longrightarrow> healthy (ow_store w1) \<and> (queue_ok (view (ow_store w)) \<longrightarrow> queue_ok (view (ow_store w1)))"
      using E queue_ok_touch [OF _ tch(1)] by blast
    moreover have "loop_effect mode (map qe_TaskID (e # es)) (view (ow_store w)) (view (ow_store w')) (ow_runs w) (ow_runs w') (res, n) (res', n')"
      using loop_effect_Cons [OF te new(1)] IH by simp
    moreover have "considered (map qe_TaskID (e # es)) (healthy (ow_store w) \<and> od_executionLoop deps \<noteq> None)
      (view (ow_store w)) (view (ow_store w')) (dr_Dispatched res) (dr_Dispatched res')"
    proof -
      have "considered (map qe_TaskID es) (healthy (ow_store w) \<and> od_executionLoop deps \<noteq> None)
        (view (ow_store w1)) (view (ow_store w')) (dr_Dispatched res1) (dr_Dispatched res')"
        using IH E unfolding considered_def by blast
      then show ?thesis using considered_Cons [OF tch(1) _ tch(3) new(1)] E by auto
    qed
    ultimately show ?thesis using IH False tch(2) by auto
  qed
qed

end

lemma dispatch_limit_bounds:
  "0 < slots \<Longrightarrow> 0 < dispatch_limit deps slots \<and> dispatch_limit deps slots \<le> slots \<and> dispatch_limit deps slots \<le> MaxTasksPerCycle"
  by (auto simp: dispatch_limit_def MaxTasksPerCycle_def Let_def)

text \<open>The entries a cycle looks at: entries of the queue, best first, nothing better left out.\<close>

definition best_entries :: "queue_entry list \<Rightarrow> store_abs \<Rightarrow> bool" where
  "best_entries es a \<longleftrightarrow> distinct (map qe_TaskID es) \<and> (\<forall>q \<in> set es. ab_queue a (qe_TaskID q) = Some q) \<and>
     ((\<forall>i q. ab_queue a i = Some q \<longrightarrow> scored q) \<longrightarrow>
      ordered_by entry_before es \<and> (\<forall>q \<in> set es. \<forall>i q'. ab_queue a i = Some q' \<longrightarrow> q' \<in> set es \<or> \<not> entry_before q' q))"

context task_store
begin

lemma Dispatch_cases:
  assumes "good (ow_store w)" and "Dispatch ops deps now w = ((res, e), w')"
  obtains (error) "good (ow_store w')" "healthy (ow_store w) \<longrightarrow> healthy (ow_store w')"
      "view (ow_store w') = view (ow_store w)" "ow_runs w' = ow_runs w" "res = no_result" "e \<noteq> None"
  | (cycle) w1 es n where "getGovernanceMode deps \<noteq> ''frozen''" "e = None"
      "int (card (running (view (ow_store w)))) < MaxRunningTasks"
      "good (ow_store w1)" "healthy (ow_store w) \<longrightarrow> healthy (ow_store w1)" "view (ow_store w1) = view (ow_store w)"
      "ow_runs w1 = ow_runs w" "best_entries es (view (ow_store w))"
      "dispatch_loop ops deps (getGovernanceMode deps) now
         (dispatch_limit deps (MaxRunningTasks - int (card (running (view (ow_store w)))))) es (w1, no_result, 0) = (w', res, n)"
      "int (length es) \<le> 2 * dispatch_limit deps (MaxRunningTasks - int (card (running (view (ow_store w)))))"
proof (cases "getGovernanceMode deps = ''frozen''")
  case True
  then show ?thesis using assms error by (auto simp: Dispatch_def)
next
  case False
  obtain r w1 where c: "on_store (t_CountByStatus ops TaskStatusRunning) w = (r, w1)" by fastforce
  have C: "good (ow_store w1)" "healthy (ow_store w) \<longrightarrow> healthy (ow_store w1)" "view (ow_store w1) = view (ow_store w)"
    "ow_runs w1 = ow_runs w" "\<forall>n. r = Inr n \<longrightarrow> n = card (running (view (ow_store w)))"
    using count_law [OF assms(1) on_storeD [OF c, THEN conjunct1]] on_storeD [OF c] by (simp_all add: running_def)
  let ?slots = "MaxRunningTasks - int (card (running (view (ow_store w))))"
  note D = assms(2) [unfolded Dispatch_def Let_def c]
  show ?thesis
  proof (cases r)
    case (Inl err)
    then have "res = no_result" "e = Some (ErrWrap ''count running tasks'' err)" "w' = w1" using D False by simp_all
    then show ?thesis using C error by simp
  next
    case (Inr k)
    then have k: "k = card (running (view (ow_store w)))" using C by simp
    show ?thesis
    proof (cases "?slots \<le> 0")
      case True
      then have "res = no_result" "e = Some ErrMaxRunning" "w' = w1" using D False Inr k by simp_all
      then show ?thesis using C error by simp
    next
      case pos: False
      let ?m = "dispatch_limit deps ?slots"
      have m: "0 < ?m * 2" "?m * 2 \<le> 200"
        using dispatch_limit_bounds [of ?slots deps] pos by (simp_all add: MaxTasksPerCycle_def)
      obtain l w2 where q: "on_store (q_List ops (?m * 2)) w1 = (l, w2)" by fastforce
      note ql = on_storeD [OF q, THEN conjunct1]
      have Q: "good (ow_store w2)" "healthy (ow_store w) \<longrightarrow> healthy (ow_store w2)" "view (ow_store w2) = view (ow_store w)"
        "ow_runs w2 = ow_runs w"
        using queue_law [OF C(1) m ql] C on_storeD [OF q] by simp_all
      show ?thesis
      proof (cases l)
        case (Inl err)
        then have "res = no_result" "e = Some (ErrWrap ''list queue'' err)" "w' = w2" using D False Inr k pos q by simp_all
        then show ?thesis using Q error by simp
      next
        case es: (Inr es)
        have best: "best_entries es (view (ow_store w))"
          using queue_law [OF C(1) m ql] queue_order_law [OF C(1) m ql [unfolded es]] C(3) es by (auto simp: best_entries_def)
        obtain n where "dispatch_loop ops deps (getGovernanceMode deps) now ?m es (w2, no_result, 0) = (w', res, n)" "e = None"
          using D False Inr k pos q es by (simp split: prod.splits)
        moreover have "int (length es) \<le> 2 * ?m" using queue_law [OF C(1) m ql] es m(1) by auto
        ultimately show ?thesis using cycle [OF False _ _ Q best] pos by simp
      qed
    qed
  qed
qed

lemma Dispatch_running:
  assumes "good (ow_store w)" and "Dispatch ops deps now w = ((res, e), w')"
  shows "int (card (running (view (ow_store w')))) \<le> max MaxRunningTasks (int (card (running (view (ow_store w)))))"
  using assms
proof (cases rule: Dispatch_cases)
  case error
  then show ?thesis by simp
next
  case (cycle w1 es n)
  let ?a = "view (ow_store w)" and ?b = "view (ow_store w')"
  note L = dispatch_loop_spec [OF cycle(4) _ cycle(9)]
  have L: "loop_effect (getGovernanceMode deps) (map qe_TaskID es) ?a ?b (ow_runs w) (ow_runs w') (no_result, 0) (res, n)"
      "n \<le> MaxRunningTasks - int (card (running ?a))"
    using L cycle dispatch_limit_bounds [of "MaxRunningTasks - int (card (running ?a))" deps] by (auto simp: best_entries_def)
  then obtain ds where ds: "int (length ds) = n" "running ?b \<subseteq> set ds \<union> running ?a" by (auto simp: loop_effect_def)
  have "finite (running ?a)"
    by (rule finite_subset [OF _ good_finite [OF assms(1)]]) (auto simp: running_def with_status_def)
  then have "card (running ?b) \<le> card (set ds) + card (running ?a)"
    by (meson List.finite_set card_Un_le card_mono ds(2) finite_UnI order_trans)
  moreover have "card (set ds) \<le> length ds" by (rule card_length)
  ultimately show ?thesis using L(2) ds(1) by linarith
qed

end

context task_store
begin

lemma Dispatch_selection:
  assumes "good (ow_store w)" and "Dispatch ops deps now w = ((res, e), w')"
  defines "a \<equiv> view (ow_store w)"
  shows "\<exists>rs. subseq (dr_Dispatched res) rs \<and> ow_runs w' = ow_runs w @ map (\<lambda>i. ot_Goal (the (ab_tasks a i))) rs \<and> distinct rs \<and>
    (\<forall>i \<in> set rs. \<exists>t q. ab_tasks a i = Some t \<and> eligible (getGovernanceMode deps) t \<and> ab_queue a i = Some q) \<and>
    int (length (dr_Dispatched res)) \<le> dispatch_limit deps (max 0 (MaxRunningTasks - int (card (running a)))) \<and>
    int (length rs) \<le> 2 * dispatch_limit deps (max 0 (MaxRunningTasks - int (card (running a)))) \<and>
    (rs \<noteq> [] \<longrightarrow> getGovernanceMode deps \<noteq> ''frozen'')"
  using assms(1,2)
proof (cases rule: Dispatch_cases)
  case error
  then show ?thesis by (intro exI [of _ "[]"]) (auto simp: no_result_def dispatch_limit_def Let_def MaxTasksPerCycle_def)
next
  case (cycle w1 es n)
  have L: "loop_effect (getGovernanceMode deps) (map qe_TaskID es) a (view (ow_store w')) (ow_runs w) (ow_runs w') (no_result, 0) (res, n)"
      "n \<le> dispatch_limit deps (MaxRunningTasks - int (card (running a)))"
    using dispatch_loop_spec [OF cycle(4) _ cycle(9)] cycle dispatch_limit_bounds [of "MaxRunningTasks - int (card (running a))" deps]
    by (auto simp: best_entries_def a_def)
  then obtain ds rs where r: "dr_Dispatched res = ds" "n = int (length ds)" "subseq ds rs" "subseq rs (map qe_TaskID es)"
    "\<forall>i \<in> set rs. \<exists>t. ab_tasks a i = Some t \<and> eligible (getGovernanceMode deps) t"
    "ow_runs w' = ow_runs w @ map (\<lambda>i. ot_Goal (the (ab_tasks a i))) rs"
    by (auto simp: loop_effect_def no_result_def)
  have "\<exists>q. ab_queue a i = Some q" if "i \<in> set rs" for i
    using subseq_in [OF r(4) that] cycle(8) by (auto simp: best_entries_def a_def)
  moreover have "distinct rs" using distinct_subseq [OF r(4)] cycle(8) by (auto simp: best_entries_def)
  moreover have "int (length rs) \<le> 2 * dispatch_limit deps (MaxRunningTasks - int (card (running a)))"
    using list_emb_length [OF r(4)] cycle(10) by (simp add: a_def)
  ultimately show ?thesis using r L(2) cycle(1,3) by (intro exI [of _ rs]) (auto simp: a_def)
qed

lemma Dispatch_greedy:
  assumes "good (ow_store w)" and "healthy (ow_store w)" and "od_executionLoop deps \<noteq> None"
    and "\<forall>i q. ab_queue (view (ow_store w)) i = Some q \<longrightarrow> scored q"
    and "Dispatch ops deps now w = ((res, e), w')"
    and i: "i \<in> set (dr_Dispatched res)" and j: "ab_queue (view (ow_store w')) j = Some q'"
  shows "\<exists>q. ab_queue (view (ow_store w)) i = Some q \<and> \<not> entry_before q' q"
  using assms(1,5)
proof (cases rule: Dispatch_cases)
  case error
  then show ?thesis using i by (simp add: no_result_def)
next
  case (cycle w1 es n)
  let ?a = "view (ow_store w)" and ?b = "view (ow_store w')"
  have B: "distinct (map qe_TaskID es)" "\<forall>q \<in> set es. ab_queue ?a (qe_TaskID q) = Some q" "ordered_by entry_before es"
    "\<forall>q \<in> set es. \<forall>i q'. ab_queue ?a i = Some q' \<longrightarrow> q' \<in> set es \<or> \<not> entry_before q' q"
    using cycle(8) assms(4) by (auto simp: best_entries_def)
  have "considered (map qe_TaskID es) True ?a ?b [] (dr_Dispatched res)"
    using dispatch_loop_spec [OF cycle(4) B(1) cycle(9)] cycle(5,6) assms(2,3) by (simp add: no_result_def)
  then obtain k where k: "set (dr_Dispatched res) \<subseteq> set (take k (map qe_TaskID es))"
    "\<forall>i \<in> set (take k (map qe_TaskID es)). ab_queue ?b i = None"
    "\<forall>i. i \<notin> set (take k (map qe_TaskID es)) \<longrightarrow> ab_queue ?b i = ab_queue ?a i"
    by (auto simp: considered_def)
  obtain q where q: "q \<in> set (take k es)" "i = qe_TaskID q" using k(1) i by (auto simp: take_map)
  have "j \<notin> set (take k (map qe_TaskID es))" using k(2) j by (metis option.distinct(1))
  then have jq: "ab_queue ?a j = Some q'" using k(3) j by metis
  have "q' \<notin> set (take k es)"
  proof
    assume "q' \<in> set (take k es)"
    then have "ab_queue ?b (qe_TaskID q') = None" using k(2) by (auto simp: take_map)
    moreover have "qe_TaskID q' = j" using good_qid [OF assms(1) jq] .
    ultimately show False using j by simp
  qed
  then have "\<not> entry_before q' q"
    using ordered_take [OF B(3), of k] q(1) B(4) jq in_set_takeD [OF q(1)] by blast
  then show ?thesis using B(2) q in_set_takeD [OF q(1)] by auto
qed

end

section \<open>Scoring and transitions\<close>

lemma queue_ok_touch2:
  assumes "queue_ok a" and "touches i a a'"
    and "ab_queue a' i \<noteq> None \<Longrightarrow> \<exists>t. ab_tasks a' i = Some t \<and> ot_Status t \<in> {TaskStatusQueued, TaskStatusPaused}"
  shows "queue_ok a'"
  unfolding queue_ok_def
proof (intro allI impI)
  fix j q assume q: "ab_queue a' j = Some q"
  show "\<exists>t. ab_tasks a' j = Some t \<and> ot_Status t \<in> {TaskStatusQueued, TaskStatusPaused}"
    using assms q by (cases "j = i") (auto simp: queue_ok_def touches_def)
qed

definition waiting :: "orch_task \<Rightarrow> store_abs \<Rightarrow> bool" where
  "waiting t a \<longleftrightarrow> ab_tasks a (ot_ID t) = Some t \<and> ot_Status t \<in> {TaskStatusPending, TaskStatusQueued, TaskStatusPaused}"

lemma waiting_touch: "waiting t a \<Longrightarrow> touches i a a' \<Longrightarrow> ot_ID t \<noteq> i \<Longrightarrow> waiting t a'"
  by (simp add: waiting_def touches_def)

context task_store
begin

text \<open>An update that is checked, followed by the upsert of the queue entry.\<close>

lemma rescore_effect:
  assumes "good (ow_store w)" and t: "waiting t (view (ow_store w))" and "same_origin t' t" and i: "ot_ID t' = ot_ID t"
    and st: "ot_Status t' \<in> {TaskStatusQueued, TaskStatusPaused}" "ot_Status t \<noteq> TaskStatusPending \<Longrightarrow> ot_Status t' = ot_Status t"
    and "qe_TaskID q = ot_ID t" and u: "on_store (t_Update ops t') w = (e, w1)"
    and w': "w' = (if e = None then snd (on_store (q_Upsert ops q) w1) else w1)"
  shows "good (ow_store w') \<and> touches (ot_ID t) (view (ow_store w)) (view (ow_store w')) \<and> ow_runs w' = ow_runs w \<and>
    (healthy (ow_store w) \<longrightarrow> healthy (ow_store w') \<and> (queue_ok (view (ow_store w)) \<longrightarrow> queue_ok (view (ow_store w'))))"
proof -
  let ?a = "view (ow_store w)" and ?b = "view (ow_store w1)"
  have t1: "ab_tasks ?a (ot_ID t') = Some t" "\<not> task_IsTerminal (ot_Status t)"
    using t i by (auto simp: waiting_def task_IsTerminal_def)
  note U = update_law [OF assms(1) t1(1) assms(3) on_storeD [OF u, THEN conjunct1]]
  have b: "?b = ?a\<lparr>ab_tasks := (ab_tasks ?a)(ot_ID t \<mapsto> t')\<rparr> \<or> ?b = ?a \<and> e \<noteq> None" using U i by (auto simp: wrote_def)
  then have tch: "touches (ot_ID t) ?a ?b" using t1 assms(3) i by (auto simp: touches_def)
  show ?thesis
  proof (cases e)
    case (Some x)
    then have "w' = w1" using w' by simp
    moreover have "healthy (ow_store w) \<longrightarrow> ?b = ?a" using U Some by simp
    ultimately show ?thesis using U tch on_storeD [OF u] by auto
  next
    case None
    then have b: "?b = ?a\<lparr>ab_tasks := (ab_tasks ?a)(ot_ID t \<mapsto> t')\<rparr>" using b by simp
    obtain f w2 where p: "on_store (q_Upsert ops q) w1 = (f, w2)" by fastforce
    have w2: "w' = w2" using w' p None by simp
    have ex: "ab_tasks ?b (qe_TaskID q) \<noteq> None" using assms(7) by (simp add: b)
    from upsert_law [OF U [THEN conjunct1] ex on_storeD [OF p, THEN conjunct1]]
    obtain q' where P: "good (ow_store w2)" "healthy (ow_store w1) \<longrightarrow> healthy (ow_store w2)"
      "wrote f ?b (?b\<lparr>ab_queue := (ab_queue ?b)(qe_TaskID q \<mapsto> q')\<rparr>) (view (ow_store w2))" by blast
    have "touches (ot_ID t) ?b (view (ow_store w2))" "ab_tasks (view (ow_store w2)) (ot_ID t) = Some t'"
      using P(3) assms(7) by (auto simp: wrote_def touches_def b)
    moreover from this have "touches (ot_ID t) ?a (view (ow_store w2))" using tch touches_trans by blast
    ultimately show ?thesis
      using P U w2 on_storeD [OF u] on_storeD [OF p] queue_ok_touch2 st(1) by auto
  qed
qed

lemma save_unqueue_keeps:
  assumes "good (ow_store w)" and "waiting t (view (ow_store w))" and "same_origin t' t" and "ot_ID t' = ot_ID t"
    and "w' = save_unqueue ops t' w"
  shows "good (ow_store w') \<and> touches (ot_ID t) (view (ow_store w)) (view (ow_store w')) \<and> ow_runs w' = ow_runs w \<and>
    (healthy (ow_store w) \<longrightarrow> healthy (ow_store w') \<and> (queue_ok (view (ow_store w)) \<longrightarrow> queue_ok (view (ow_store w'))))"
proof -
  have u: "ab_tasks (view (ow_store w)) (ot_ID t') = Some t" "\<not> task_IsTerminal (ot_Status t)"
    using assms(2,4) by (auto simp: waiting_def task_IsTerminal_def)
  note s = save_unqueue_spec [OF assms(1) u(1) assms(3,5) refl refl]
  have tch: "touches (ot_ID t) (view (ow_store w)) (view (ow_store w'))"
    using save_unqueue_touches [OF assms(1) u(1) assms(3) u(2)] assms(4,5) by simp
  moreover have "queue_ok (view (ow_store w'))" if "healthy (ow_store w)" "queue_ok (view (ow_store w))"
    by (rule queue_ok_touch [OF that(2) tch]) (use s(6) [OF that(1)] assms(4) in simp)
  ultimately show ?thesis using s(1-3) by blast
qed

lemma recompute_task_effect:
  assumes "good (ow_store w)" and "waiting t (view (ow_store w))"
    and "recompute_task ops deps inp now t (w, n, x) = (w', n', x')"
  shows "good (ow_store w') \<and> touches (ot_ID t) (view (ow_store w)) (view (ow_store w')) \<and> ow_runs w' = ow_runs w \<and>
    (healthy (ow_store w) \<longrightarrow> healthy (ow_store w') \<and> (queue_ok (view (ow_store w)) \<longrightarrow> queue_ok (view (ow_store w'))))"
proof -
  consider (expired) "IsExpired t now" | (idle) "w' = w" | (score) "\<not> IsExpired t now" "ot_Status t \<noteq> TaskStatusRunning"
      "\<not> (ot_Status t \<noteq> TaskStatusPending \<and> IsInCooldown t now)"
    using assms(3) by (auto simp: recompute_task_def split: if_splits)
  then show ?thesis
  proof cases
    case expired
    then have "w' = save_unqueue ops (t\<lparr>ot_Status := TaskStatusFailed, ot_UpdatedAt := now\<rparr>) w"
      using assms(3) by (simp add: recompute_task_def)
    then show ?thesis by (intro save_unqueue_keeps [OF assms(1,2)]) (simp_all add: same_origin_def)
  next
    case idle
    then show ?thesis using assms(1) by simp
  next
    case score
    let ?p = "task_priority deps inp now t"
    let ?t = "t\<lparr>ot_PriorityScore := ?p, ot_UpdatedAt := now,
       ot_Status := (if ot_Status t = TaskStatusPending then TaskStatusQueued else ot_Status t)\<rparr>"
    let ?q = "\<lparr>qe_TaskID = ot_ID ?t, qe_PriorityScore = ?p, qe_InsertedAt = ot_CreatedAt ?t, qe_LastUpdatedAt = now\<rparr>"
    obtain e w1 where u: "on_store (t_Update ops ?t) w = (e, w1)" by fastforce
    obtain f w2 where p: "on_store (q_Upsert ops ?q) w1 = (f, w2)" by fastforce
    have "ow_store w' = ow_store (if e = None then snd (on_store (q_Upsert ops ?q) w1) else w1)"
      "ow_runs w' = ow_runs (if e = None then snd (on_store (q_Upsert ops ?q) w1) else w1)"
      using assms(3) score u p by (auto simp: recompute_task_def Let_def split: option.splits)
    then show ?thesis
      using rescore_effect [OF assms(1,2), of ?t ?q e w1 "if e = None then snd (on_store (q_Upsert ops ?q) w1) else w1"] assms(2) u
      by (auto simp: same_origin_def waiting_def)
  qed
qed

end

lemma disjoint_by_status:
  assumes "\<forall>t \<in> set xs. ab_tasks a (ot_ID t) = Some t \<and> ot_Status t = s1"
    and "\<forall>t \<in> set ys. ab_tasks a (ot_ID t) = Some t \<and> ot_Status t = s2" and "s1 \<noteq> s2"
  shows "ot_ID ` set xs \<inter> ot_ID ` set ys = {}"
proof -
  have False if "t \<in> set xs" "u \<in> set ys" "ot_ID t = ot_ID u" for t u
    using assms that by (metis option.inject)
  then show ?thesis by blast
qed

context task_store
begin

lemma recompute_tasks_effect:
  assumes "good (ow_store w)" and "\<forall>t \<in> set ts. waiting t (view (ow_store w))" and "distinct (map ot_ID ts)"
    and "recompute_tasks ops deps inp now ts (w, n, x) = (w', n', x')"
  shows "good (ow_store w') \<and> keeps_ended (view (ow_store w)) (view (ow_store w')) \<and> ow_runs w' = ow_runs w \<and>
    (healthy (ow_store w) \<longrightarrow> healthy (ow_store w') \<and> (queue_ok (view (ow_store w)) \<longrightarrow> queue_ok (view (ow_store w'))))"
  using assms
proof (induction ts arbitrary: w n x)
  case Nil
  then show ?case by simp
next
  case (Cons t ts)
  obtain w1 n1 x1 where r: "recompute_task ops deps inp now t (w, n, x) = (w1, n1, x1)" by (metis prod_cases3)
  have t: "waiting t (view (ow_store w))" using Cons.prems(2) by simp
  note E = recompute_task_effect [OF Cons.prems(1) t r]
  have rest: "\<forall>t \<in> set ts. waiting t (view (ow_store w1))"
    using Cons.prems(2,3) E waiting_touch by (metis image_eqI list.set_intros(2) list.simps(9) distinct.simps(2) list.set_map)
  have "recompute_tasks ops deps inp now ts (w1, n1, x1) = (w', n', x')" using Cons.prems(4) r by simp
  from Cons.IH [OF E [THEN conjunct1] rest _ this] Cons.prems(3) E keeps_ended_touches keeps_ended_trans
  show ?case by (metis distinct.simps(2) list.simps(9))
qed

lemma RecomputePriorities_effect:
  assumes "good (ow_store w)" and "RecomputePriorities ops deps now w = (e, w')"
  shows "good (ow_store w') \<and> keeps_ended (view (ow_store w)) (view (ow_store w')) \<and> ow_runs w' = ow_runs w \<and>
    (healthy (ow_store w) \<longrightarrow> healthy (ow_store w') \<and> (queue_ok (view (ow_store w)) \<longrightarrow> queue_ok (view (ow_store w'))))"
proof -
  let ?list = "\<lambda>st w. on_store (t_ListByStatus ops st (int MaxTasksInQueue)) w"
  have L: "good (ow_store w1) \<and> (healthy (ow_store w0) \<longrightarrow> healthy (ow_store w1)) \<and> view (ow_store w1) = view (ow_store w0) \<and>
      ow_runs w1 = ow_runs w0 \<and> (\<forall>ts. r = Inr ts \<longrightarrow> distinct (map ot_ID ts) \<and> (\<forall>t \<in> set ts. ab_tasks (view (ow_store w0)) (ot_ID t) = Some t \<and> ot_Status t = st))"
    if "?list st w0 = (r, w1)" "good (ow_store w0)" for st w0 r w1
    using list_law [OF that(2) on_storeD [OF that(1), THEN conjunct1]] on_storeD [OF that(1)] by simp
  obtain r1 w1 where 1: "?list TaskStatusPending w = (r1, w1)" by fastforce
  obtain r2 w2 where 2: "?list TaskStatusQueued w1 = (r2, w2)" by fastforce
  obtain r3 w3 where 3: "?list TaskStatusPaused w2 = (r3, w3)" by fastforce
  note L1 = L [OF 1 assms(1)]
  note L2 = L [OF 2 L1 [THEN conjunct1]]
  note L3 = L [OF 3 L2 [THEN conjunct1]]
  consider "w' = w1" | "w' = w2" | "w' = w3"
    | ps qs zs where "r1 = Inr ps" "r2 = Inr qs" "r3 = Inr zs" "w' = finish_recompute ops deps now (ps @ qs @ zs) w3"
    using assms(2) 1 2 3 by (auto simp: RecomputePriorities_def split: sum.splits)
  then show ?thesis
  proof cases
    case (4 ps qs zs)
    have wt: "\<forall>t \<in> set (ps @ qs @ zs). waiting t (view (ow_store w3))"
      using L1 L2 L3 4 by (auto simp: waiting_def)
    have v: "view (ow_store w1) = view (ow_store w)" "view (ow_store w2) = view (ow_store w)"
      using L1 L2 by simp_all
    have p: "\<forall>t \<in> set ps. ab_tasks (view (ow_store w)) (ot_ID t) = Some t \<and> ot_Status t = TaskStatusPending"
      and q: "\<forall>t \<in> set qs. ab_tasks (view (ow_store w)) (ot_ID t) = Some t \<and> ot_Status t = TaskStatusQueued"
      and z: "\<forall>t \<in> set zs. ab_tasks (view (ow_store w)) (ot_ID t) = Some t \<and> ot_Status t = TaskStatusPaused"
      using L1 L2 L3 v 4(1-3) by simp_all
    have disj: "ot_ID ` set ps \<inter> ot_ID ` set qs = {}" "ot_ID ` set ps \<inter> ot_ID ` set zs = {}" "ot_ID ` set qs \<inter> ot_ID ` set zs = {}"
      by (rule disjoint_by_status [OF p q], simp, rule disjoint_by_status [OF p z], simp, rule disjoint_by_status [OF q z], simp)
    have dist: "distinct (map ot_ID (ps @ qs @ zs))"
      using L1 L2 L3 4(1-3) disj by (simp add: Int_Un_distrib)
    obtain w4 n x where r: "recompute_tasks ops deps (gatherScoringInput deps) now (ps @ qs @ zs) (w3, 0, 0) = (w4, n, x)"
      by (metis prod_cases3)
    note R = recompute_tasks_effect [OF L3 [THEN conjunct1] wt dist r]
    let ?w5 = "auditEvent deps (RecomputeCompleted n x) w4"
    obtain c w6 where c: "on_store (q_Count ops) ?w5 = (c, w6)" by fastforce
    have g5: "good (ow_store ?w5)" using R by simp
    have "w' = w6" using 4(4) r c by (simp add: finish_recompute_def)
    then show ?thesis using R L1 L2 L3 qcount_law [OF g5 on_storeD [OF c, THEN conjunct1]] on_storeD [OF c] by auto
  qed (use L1 L2 L3 in auto)
qed

end

lemma not_from_ended: "ValidateTransition from to \<Longrightarrow> \<not> task_IsTerminal from"
  by (cases "from") (simp_all add: ValidateTransition_def task_IsTerminal_def)

context task_store
begin

text \<open>A checked update to a status that leaves the queue, then the removal.\<close>

lemma checked_update_effect:
  assumes "good (ow_store w)" and "ab_tasks (view (ow_store w)) (ot_ID t) = Some u" and "same_origin t u"
    and "\<not> task_IsTerminal (ot_Status u)" and u: "on_store (t_Update ops t) w = (e, w1)"
    and w': "w' = (if e = None then snd (on_store (q_Remove ops (ot_ID t)) w1) else w1)"
  shows "good (ow_store w') \<and> touches (ot_ID t) (view (ow_store w)) (view (ow_store w')) \<and> ow_runs w' = ow_runs w \<and>
    (healthy (ow_store w) \<longrightarrow> healthy (ow_store w') \<and> (queue_ok (view (ow_store w)) \<longrightarrow> queue_ok (view (ow_store w'))))"
proof -
  note U = update_law [OF assms(1-3) on_storeD [OF u, THEN conjunct1]]
  show ?thesis
  proof (cases e)
    case None
    then have "w' = save_unqueue ops t w" using u w' by (simp add: save_unqueue_def)
    note s = save_unqueue_spec [OF assms(1-3) this refl refl]
    have tch: "touches (ot_ID t) (view (ow_store w)) (view (ow_store w'))"
      using save_unqueue_touches [OF assms(1-4)] \<open>w' = save_unqueue ops t w\<close> by simp
    then show ?thesis using s(1-3) s(6) queue_ok_touch [OF _ tch] by simp
  next
    case (Some x)
    then have "w' = w1" "healthy (ow_store w) \<longrightarrow> view (ow_store w1) = view (ow_store w)" using w' U by simp_all
    moreover have "touches (ot_ID t) (view (ow_store w)) (view (ow_store w1))"
      using U assms(2-4) unfolding wrote_def touches_def by auto
    ultimately show ?thesis using U on_storeD [OF u] by auto
  qed
qed

lemma transition_effect:
  assumes "good (ow_store w)" and "task_IsTerminal to \<or> to = TaskStatusPaused"
    and "transitionTask ops deps now i to ev w = (r, w')"
  shows "good (ow_store w') \<and> keeps_ended (view (ow_store w)) (view (ow_store w')) \<and> ow_runs w' = ow_runs w \<and>
    (healthy (ow_store w) \<longrightarrow> healthy (ow_store w') \<and> (queue_ok (view (ow_store w)) \<longrightarrow> queue_ok (view (ow_store w'))))"
proof -
  obtain g w1 where g: "on_store (t_Get ops i) w = (g, w1)" by fastforce
  note G = get_law [OF assms(1) on_storeD [OF g, THEN conjunct1]]
  consider "w' = w1" | t where "g = Inr t" "ValidateTransition (ot_Status t) to"
    using assms(3) g by (auto simp: transitionTask_def split: sum.splits if_splits)
  then show ?thesis
  proof cases
    case (2 t)
    let ?t = "t\<lparr>ot_Status := to, ot_UpdatedAt := now\<rparr>"
    have t: "ab_tasks (view (ow_store w1)) (ot_ID ?t) = Some t" "ot_ID t = i" using G 2 good_id [OF assms(1)] by auto
    obtain e w2 where u: "on_store (t_Update ops ?t) w1 = (e, w2)" by fastforce
    have "ow_store w' = ow_store (if e = None then snd (on_store (q_Remove ops (ot_ID ?t)) w2) else w2)"
      "ow_runs w' = ow_runs (if e = None then snd (on_store (q_Remove ops (ot_ID ?t)) w2) else w2)"
      using assms(2,3) g 2 u t(2) by (auto simp: transitionTask_def Let_def split: option.splits)
    then show ?thesis
      using checked_update_effect [OF G [THEN conjunct1] t(1) _ not_from_ended [OF 2(2)] u refl] G on_storeD [OF g] keeps_ended_touches
      by (auto simp: same_origin_def)
  qed (use G on_storeD [OF g] in auto)
qed

lemma fail_reason_effect:
  assumes "good (ow_store w)" and "FailTaskWithReason ops deps now i reason w = (r, w')"
  shows "good (ow_store w') \<and> keeps_ended (view (ow_store w)) (view (ow_store w')) \<and> ow_runs w' = ow_runs w \<and>
    (healthy (ow_store w) \<longrightarrow> healthy (ow_store w') \<and> (queue_ok (view (ow_store w)) \<longrightarrow> queue_ok (view (ow_store w'))))"
proof -
  obtain g w1 where g: "on_store (t_Get ops i) w = (g, w1)" by fastforce
  note G = get_law [OF assms(1) on_storeD [OF g, THEN conjunct1]]
  consider "w' = w1" | t where "g = Inr t" "ValidateTransition (ot_Status t) TaskStatusFailed"
    using assms(2) g by (auto simp: FailTaskWithReason_def split: sum.splits if_splits)
  then show ?thesis
  proof cases
    case (2 t)
    let ?t = "t\<lparr>ot_Status := TaskStatusFailed, ot_LastError := reason, ot_UpdatedAt := now\<rparr>"
    have t: "ab_tasks (view (ow_store w1)) (ot_ID ?t) = Some t" "ot_ID t = i" using G 2 good_id [OF assms(1)] by auto
    obtain e w2 where u: "on_store (t_Update ops ?t) w1 = (e, w2)" by fastforce
    have "ow_store w' = ow_store (if e = None then snd (on_store (q_Remove ops (ot_ID ?t)) w2) else w2)"
      "ow_runs w' = ow_runs (if e = None then snd (on_store (q_Remove ops (ot_ID ?t)) w2) else w2)"
      using assms(2) g 2 u t(2) by (auto simp: FailTaskWithReason_def Let_def split: option.splits)
    then show ?thesis
      using checked_update_effect [OF G [THEN conjunct1] t(1) _ not_from_ended [OF 2(2)] u refl] G on_storeD [OF g] keeps_ended_touches
      by (auto simp: same_origin_def)
  qed (use G on_storeD [OF g] in auto)
qed

lemma create_effect:
  assumes "good (ow_store w)" and "ab_tasks (view (ow_store w)) uid = None"
    and "CreateTask ops deps now uid src goal urg val risk strat w = (r, w')"
  shows "good (ow_store w') \<and> keeps_ended (view (ow_store w)) (view (ow_store w')) \<and> ow_runs w' = ow_runs w \<and>
    (healthy (ow_store w) \<longrightarrow> healthy (ow_store w') \<and> (queue_ok (view (ow_store w)) \<longrightarrow> queue_ok (view (ow_store w'))))"
proof -
  let ?t = "new_task now uid src goal urg val risk strat"
  have i: "ot_ID ?t = uid" by (simp add: new_task_def)
  obtain e w1 where u: "on_store (t_Insert ops ?t) w = (e, w1)" by fastforce
  have w': "ow_store w' = ow_store w1" "ow_runs w' = ow_runs w1"
    using assms(3) u by (auto simp: CreateTask_def Let_def split: option.splits)
  have n: "ab_tasks (view (ow_store w)) (ot_ID ?t) = None" using assms(2) i by simp
  note I = insert_law [OF assms(1) n on_storeD [OF u, THEN conjunct1]]
  have v: "view (ow_store w1) = (view (ow_store w))\<lparr>ab_tasks := (ab_tasks (view (ow_store w)))(uid \<mapsto> ?t)\<rparr> \<or>
      view (ow_store w1) = view (ow_store w)" using I i by (auto simp: wrote_def)
  have "keeps_ended (view (ow_store w)) (view (ow_store w1))"
    using v n i by (auto simp: keeps_ended_def status_of_def)
  moreover have "queue_ok (view (ow_store w1))" if "queue_ok (view (ow_store w))"
    using v that n i unfolding queue_ok_def by (auto; metis option.distinct(1))
  ultimately show ?thesis using I w' on_storeD [OF u] by auto
qed

end

section \<open>Histories\<close>

text \<open>The operations that change tasks or the queue, each with the collaborators and the clock of its call.\<close>

datatype orch_request =
  ReqCreate string string string f64 f64 f64 string
  | ReqRecompute | ReqDispatch
  | ReqComplete string | ReqFail string | ReqFailReason string string | ReqPause string
  | ReqSetActuation string string | ReqSetExecution string string | ReqSetOutcome string string string int

fun orch_step :: "'s store_ops \<Rightarrow> orch_deps \<Rightarrow> time \<Rightarrow> orch_request \<Rightarrow> 's orch_world \<Rightarrow> 's orch_world" where
  "orch_step ops deps now (ReqCreate uid src goal urg val risk strat) w = snd (CreateTask ops deps now uid src goal urg val risk strat w)"
| "orch_step ops deps now ReqRecompute w = snd (RecomputePriorities ops deps now w)"
| "orch_step ops deps now ReqDispatch w = snd (Dispatch ops deps now w)"
| "orch_step ops deps now (ReqComplete i) w = snd (CompleteTask ops deps now i w)"
| "orch_step ops deps now (ReqFail i) w = snd (FailTask ops deps now i w)"
| "orch_step ops deps now (ReqFailReason i r) w = snd (FailTaskWithReason ops deps now i r w)"
| "orch_step ops deps now (ReqPause i) w = snd (PauseTask ops deps now i w)"
| "orch_step ops deps now (ReqSetActuation i d) w = snd (on_store (t_SetActuationDecisionID ops now i d) w)"
| "orch_step ops deps now (ReqSetExecution i x) w = snd (on_store (t_SetExecutionTaskID ops now i x) w)"
| "orch_step ops deps now (ReqSetOutcome i x y n) w = snd (on_store (t_SetOutcome ops now i x y n) w)"

text \<open>A new task gets an identifier that is not in use.\<close>

fun fresh_request :: "orch_request \<Rightarrow> store_abs \<Rightarrow> bool" where
  "fresh_request (ReqCreate uid src goal urg val risk strat) a = (ab_tasks a uid = None)"
| "fresh_request _ a = True"

inductive orch_run :: "'s store_ops \<Rightarrow> ('s \<Rightarrow> store_abs) \<Rightarrow> 's orch_world \<Rightarrow> 's orch_world \<Rightarrow> bool"
  for ops view
where
  run_refl: "orch_run ops view w w"
| run_step: "orch_run ops view w w' \<Longrightarrow> fresh_request req (view (ow_store w')) \<Longrightarrow>
    orch_run ops view w (orch_step ops deps now req w')"

lemma keeps_ended_status: "status_of b = status_of a \<Longrightarrow> keeps_ended a b"
  unfolding keeps_ended_def status_of_def by (auto simp: fun_eq_iff map_option_case split: option.splits)

lemma queue_ok_status:
  assumes "status_of b = status_of a" and "ab_queue b = ab_queue a" shows "queue_ok a \<Longrightarrow> queue_ok b"
proof -
  have "(\<exists>t. ab_tasks x i = Some t \<and> ot_Status t \<in> S) \<longleftrightarrow> (\<exists>st \<in> S. status_of x i = Some st)" for x i S
    by (auto simp: status_of_def)
  then show "queue_ok a \<Longrightarrow> queue_ok b" unfolding queue_ok_def assms(2) by (simp only: assms(1))
qed

context task_store
begin

lemma Dispatch_keeps:
  assumes "good (ow_store w)" and "Dispatch ops deps now w = ((res, e), w')"
  shows "good (ow_store w') \<and> keeps_ended (view (ow_store w)) (view (ow_store w')) \<and>
    (healthy (ow_store w) \<longrightarrow> healthy (ow_store w') \<and> (queue_ok (view (ow_store w)) \<longrightarrow> queue_ok (view (ow_store w'))))"
  using assms
proof (cases rule: Dispatch_cases)
  case (cycle w1 es n)
  have "distinct (map qe_TaskID es)" using cycle(8) by (simp add: best_entries_def)
  from dispatch_loop_spec [OF cycle(4) this cycle(9)] show ?thesis using cycle(5,6) by (auto simp: loop_effect_def)
qed simp

lemma orch_step_effect:
  assumes g: "good (ow_store w)" and "fresh_request req (view (ow_store w))" and "w' = orch_step ops deps now req w"
  shows "good (ow_store w') \<and> keeps_ended (view (ow_store w)) (view (ow_store w')) \<and>
    (healthy (ow_store w) \<longrightarrow> healthy (ow_store w') \<and> (queue_ok (view (ow_store w)) \<longrightarrow> queue_ok (view (ow_store w'))))"
proof -
  have setter: ?thesis if "s' \<in> {snd (t_SetActuationDecisionID ops now i x (ow_store w)),
      snd (t_SetExecutionTaskID ops now i x (ow_store w)), snd (t_SetOutcome ops now i x y k (ow_store w))}" "ow_store w' = s'" for i x y k s'
    using set_laws [OF g that(1)] that(2) keeps_ended_status queue_ok_status by auto
  show ?thesis
  proof (cases req)
    case (ReqCreate uid src goal urg val risk strat)
    then show ?thesis using create_effect [OF g] assms(2,3) by (metis fresh_request.simps(1) orch_step.simps(1) prod.collapse)
  next
    case ReqRecompute
    then show ?thesis using RecomputePriorities_effect [OF g] assms(3) by (metis orch_step.simps(2) prod.collapse)
  next
    case ReqDispatch
    then show ?thesis using Dispatch_keeps [OF g] assms(3) by (metis orch_step.simps(3) prod.collapse)
  next
    case (ReqComplete i)
    then show ?thesis using transition_effect [OF g, of TaskStatusCompleted] assms(3)
      by (metis CompleteTask_def orch_step.simps(4) prod.collapse task_IsTerminal_def)
  next
    case (ReqFail i)
    then show ?thesis using transition_effect [OF g, of TaskStatusFailed] assms(3)
      by (metis FailTask_def orch_step.simps(5) prod.collapse task_IsTerminal_def)
  next
    case (ReqFailReason i r)
    then show ?thesis using fail_reason_effect [OF g] assms(3) by (metis orch_step.simps(6) prod.collapse)
  next
    case (ReqPause i)
    then show ?thesis using transition_effect [OF g, of TaskStatusPaused] assms(3)
      by (metis PauseTask_def orch_step.simps(7) prod.collapse)
  next
    case (ReqSetActuation i d)
    then show ?thesis using setter [of "ow_store w'" i d] assms(3) by (auto simp: on_store_def split: prod.splits)
  next
    case (ReqSetExecution i d)
    then show ?thesis using setter [of "ow_store w'" i d] assms(3) by (auto simp: on_store_def split: prod.splits)
  next
    case (ReqSetOutcome i x y n)
    then show ?thesis using setter [of "ow_store w'" i x y n] assms(3) by (auto simp: on_store_def split: prod.splits)
  qed
qed

lemma orch_run_effect:
  assumes "orch_run ops view w w'" and "good (ow_store w)"
  shows "good (ow_store w') \<and> keeps_ended (view (ow_store w)) (view (ow_store w')) \<and>
    (healthy (ow_store w) \<longrightarrow> healthy (ow_store w') \<and> (queue_ok (view (ow_store w)) \<longrightarrow> queue_ok (view (ow_store w'))))"
  using assms
proof (induction rule: orch_run.induct)
  case (run_refl w)
  then show ?case by simp
next
  case (run_step w w' req deps now)
  then show ?case using orch_step_effect [OF _ run_step(2) refl] keeps_ended_trans by blast
qed

end

section \<open>Properties\<close>

lemma pg_running_count:
  "pg_good s \<Longrightarrow> sql_count (\<lambda>r. ot_Status (tr_Task r) = TaskStatusRunning) (pg_tasks s) = card (running (pg_abs s))"
  by (simp add: pg_count_abs pg_good_def running_def with_status_def pg_abs_def)

lemma overload_const: "OverloadThreshold = Fin (3 / 4)"
  using rnd_three_quarters by (simp add: OverloadThreshold_def)

lemma dispatch_limit_slots:
  "dispatch_limit deps (max 0 (MaxRunningTasks - int n)) =
     (case od_capacity deps of Some l \<Rightarrow> if flt (Fin (3 / 4)) l then min 1 (max 0 (2 - int n)) else max 0 (2 - int n) | None \<Rightarrow> max 0 (2 - int n))"
  by (auto simp: dispatch_limit_def Let_def ShouldReduceDispatch_def overload_const MaxTasksPerCycle_def MaxRunningTasks_def split: option.split)

text \<open>
  C14: A dispatch cycle keeps to its limits. Let the limit be the slots that are free of two, and at most one when the
  capacity load is over three quarters. Whatever the collaborators answer and whichever database calls fail,
  also those that fail after they took effect, a cycle reports at most that many tasks as dispatched, hands at most
  twice as many goals to the execution loop - a goal whose start fails does not count - and leaves at most two rows
  running, or as many as before if that was more. The limit of three tasks per cycle never binds, as two slots are
  all there are.
\<close>

theorem dispatch_respects_running_limit:
  assumes "pg_good (ow_store w)" and "Dispatch pg_ops deps now w = ((res, e), w')"
    and "n = sql_count (\<lambda>r. ot_Status (tr_Task r) = TaskStatusRunning) (pg_tasks (ow_store w))"
    and "limit = (case od_capacity deps of Some l \<Rightarrow> if flt (Fin (3 / 4)) l then min 1 (max 0 (2 - int n)) else max 0 (2 - int n)
      | None \<Rightarrow> max 0 (2 - int n))"
  shows "int (length (dr_Dispatched res)) \<le> limit \<and>
    (\<exists>goals. ow_runs w' = ow_runs w @ goals \<and> int (length goals) \<le> 2 * limit) \<and>
    int (sql_count (\<lambda>r. ot_Status (tr_Task r) = TaskStatusRunning) (pg_tasks (ow_store w'))) \<le> max 2 (int n)"
proof -
  have n: "n = card (running (pg_abs (ow_store w)))" using assms(1,3) by (simp add: pg_running_count)
  have "limit = dispatch_limit deps (max 0 (MaxRunningTasks - int (card (running (pg_abs (ow_store w))))))"
    unfolding dispatch_limit_slots assms(4) n ..
  then have "int (length (dr_Dispatched res)) \<le> limit \<and> (\<exists>goals. ow_runs w' = ow_runs w @ goals \<and> int (length goals) \<le> 2 * limit)"
    using pg_store.Dispatch_selection [OF assms(1,2)] by (metis length_map)
  moreover have "int (card (running (pg_abs (ow_store w')))) \<le> max 2 (int n)"
    using pg_store.Dispatch_running [OF assms(1,2)] by (simp add: MaxRunningTasks_def n)
  ultimately show ?thesis using pg_store.Dispatch_keeps [OF assms(1,2)] by (simp add: pg_running_count)
qed

text \<open>Concrete worlds: a loop that reports a status, and collaborators that allow everything.\<close>

definition wit_loop :: "string \<Rightarrow> nat \<Rightarrow> string \<Rightarrow> string + dispatch_outcome" where
  "wit_loop st n goal = Inr \<lparr>do_ExecutionID = ''x1'', do_TerminalStatus = st, do_Error = ''''\<rparr>"

definition wit_deps :: "string \<Rightarrow> orch_deps" where
  "wit_deps st = \<lparr>od_objective = None, od_governance = Some ''normal'', od_capacity = None, od_portfolio = None,
     od_executionLoop = Some (wit_loop st), od_vector = None, od_auditor = True\<rparr>"

definition wit_otask :: "string \<Rightarrow> task_status \<Rightarrow> orch_task" where
  "wit_otask i st = (sample_task (Fin 300) (Fin (1 / 2)) (Fin 0))\<lparr>ot_ID := i, ot_Status := st\<rparr>"

definition wit_world :: "orch_task list \<Rightarrow> queue_entry list \<Rightarrow> fault list \<Rightarrow> pg orch_world" where
  "wit_world ts qs fs = \<lparr>ow_store = \<lparr>pg_tasks = map to_row ts, pg_queue = qs, pg_faults = fs\<rparr>, ow_audit = [], ow_runs = []\<rparr>"

definition wit_entry :: "string \<Rightarrow> rat \<Rightarrow> queue_entry" where
  "wit_entry i p = \<lparr>qe_TaskID = i, qe_PriorityScore = Fin p, qe_InsertedAt = 0, qe_LastUpdatedAt = 0\<rparr>"

lemmas wit_defs = wit_deps_def wit_otask_def wit_world_def wit_entry_def sample_task_def

lemma no_risk [simp]: "\<not> fle BlockedRisk (Fin 0)" "\<not> flt HighRiskThreshold (Fin 0)"
proof -
  obtain b where b: "BlockedRisk = Fin b" "0 < b"
    using rnd_nonzero [of "- 1" "90 / 100"] by (auto simp: BlockedRisk_def power_int_def)
  show "\<not> fle BlockedRisk (Fin 0)" unfolding b(1) using b(2) by simp
  obtain h where h: "HighRiskThreshold = Fin h" "0 < h"
    using rnd_nonzero [of "- 1" "70 / 100"] by (auto simp: HighRiskThreshold_def power_int_def)
  show "\<not> flt HighRiskThreshold (Fin 0)" unfolding h(1) using h(2) by simp
qed

text \<open>What the simplifier needs to run the engine on a concrete PostgreSQL store.\<close>

lemmas pg_eval = Dispatch_def dispatch_entry_def run_task_def applyExecutionOutcome_def outcome_task_def
  pause_for_def save_unqueue_def on_store_def auditEvent_def getGovernanceMode_def dispatch_limit_def
  ShouldReduceDispatch_def overload_const no_result_def MaxTasksPerCycle_def MaxRunningTasks_def Let_def
  pg_ops_sel pg_CountByStatus_def pg_QueueList_def pg_Get_def pg_Update_def pg_Remove_def pg_row_def pg_rows_def
  pg_exec_def pg_next_def pg_before_def pg_flt_def queue_limit_def sql_count_def update_row_def to_row_def from_row_def
  nilIfEmpty_def coalesce_def int4_def task_IsTerminal_def pg_abs_def

theorem dispatch_respects_running_limit_witness:
  "\<exists>res e w'. Dispatch pg_ops (wit_deps ''running'') 0
       (wit_world [wit_otask ''a'' TaskStatusRunning, wit_otask ''b'' TaskStatusQueued] [wit_entry ''b'' (1 / 2)] [NoFault, NoFault, NoFault, FaultAfter])
     = ((res, e), w') \<and> length (dr_Dispatched res) \<le> 1 \<and> length (ow_runs w') \<le> 2 \<and>
     sql_count (\<lambda>r. ot_Status (tr_Task r) = TaskStatusRunning) (pg_tasks (ow_store w')) \<le> 2"
proof -
  let ?w = "wit_world [wit_otask ''a'' TaskStatusRunning, wit_otask ''b'' TaskStatusQueued] [wit_entry ''b'' (1 / 2)] [NoFault, NoFault, NoFault, FaultAfter]"
  obtain res e w' where d: "Dispatch pg_ops (wit_deps ''running'') 0 ?w = ((res, e), w')" by (metis prod.collapse)
  have g: "pg_good (ow_store ?w)" by (simp add: pg_good_def wit_defs to_row_def)
  have n: "sql_count (\<lambda>r. ot_Status (tr_Task r) = TaskStatusRunning) (pg_tasks (ow_store ?w)) = 1"
    by (simp add: sql_count_def wit_defs to_row_def)
  have "ow_runs ?w = []" "od_capacity (wit_deps ''running'') = None" by (simp_all add: wit_defs)
  with dispatch_respects_running_limit [OF g d n [symmetric] refl] d show ?thesis by auto
qed

text \<open>
  C15: Only tasks that may run are run. Every goal handed to the execution loop in a cycle is the
  goal of a different task that was in the queue, was pending, queued or paused, was below the blocking risk, and in
  supervised mode not above the review threshold; the tasks reported as dispatched are among them, and in frozen mode
  there are none. This holds under every pattern of database failures.
\<close>

theorem dispatch_runs_only_eligible:
  assumes "pg_good (ow_store w)" and "Dispatch pg_ops deps now w = ((res, e), w')"
  shows "\<exists>rs. subseq (dr_Dispatched res) rs \<and> distinct rs \<and>
    ow_runs w' = ow_runs w @ map (\<lambda>i. ot_Goal (the (ab_tasks (pg_abs (ow_store w)) i))) rs \<and>
    (\<forall>i \<in> set rs. \<exists>t q. ab_tasks (pg_abs (ow_store w)) i = Some t \<and> eligible (getGovernanceMode deps) t \<and>
       ab_queue (pg_abs (ow_store w)) i = Some q) \<and>
    int (length (dr_Dispatched res))
      \<le> dispatch_limit deps (max 0 (MaxRunningTasks - int (card (running (pg_abs (ow_store w)))))) \<and>
    (rs \<noteq> [] \<longrightarrow> getGovernanceMode deps \<noteq> ''frozen'')"
  using pg_store.Dispatch_selection [OF assms] by blast

theorem dispatch_runs_only_eligible_witness:
  "\<exists>res e w'. Dispatch pg_ops (wit_deps ''running'') 0
       (wit_world [wit_otask ''a'' TaskStatusCompleted, wit_otask ''b'' TaskStatusPaused] [wit_entry ''a'' 1, wit_entry ''b'' (1 / 2)] []) = ((res, e), w') \<and>
     dr_Dispatched res = [''b''] \<and> ow_runs w' = [''write invoice''] \<and> eligible ''normal'' (wit_otask ''b'' TaskStatusPaused)"
proof -
  let ?w = "wit_world [wit_otask ''a'' TaskStatusCompleted, wit_otask ''b'' TaskStatusPaused] [wit_entry ''a'' 1, wit_entry ''b'' (1 / 2)] []"
  obtain res e w' where d: "Dispatch pg_ops (wit_deps ''running'') 0 ?w = ((res, e), w')" by (metis prod.collapse)
  have g: "pg_good (ow_store ?w)" by (simp add: pg_good_def wit_defs to_row_def)
  have r: "dr_Dispatched res = [''b'']" "ow_runs w' = [''write invoice'']"
    using d by (auto simp: pg_eval wit_defs wit_loop_def)
  have m: "getGovernanceMode (wit_deps ''running'') = ''normal''" by (simp add: getGovernanceMode_def wit_deps_def)
  obtain rs where rs: "subseq (dr_Dispatched res) rs" "\<forall>i \<in> set rs. \<exists>t. ab_tasks (pg_abs (ow_store ?w)) i = Some t \<and> eligible ''normal'' t"
    using dispatch_runs_only_eligible [OF g d] unfolding m by blast
  have "''b'' \<in> set rs" using subseq_in [OF rs(1)] r(1) by simp
  moreover have "ab_tasks (pg_abs (ow_store ?w)) ''b'' = Some (wit_otask ''b'' TaskStatusPaused)"
    by (simp add: pg_eval wit_defs)
  ultimately have "eligible ''normal'' (wit_otask ''b'' TaskStatusPaused)" using rs(2) by fastforce
  then show ?thesis using d r by blast
qed

text \<open>
  Dispatch is greedy: when the database does not fail and an execution loop is configured, no
  entry left in the queue after a cycle comes before an entry that was dispatched, in the order
  highest priority first, oldest first among equals.
\<close>

theorem dispatch_is_greedy:
  assumes "pg_good (ow_store w)" and "pg_healthy (ow_store w)" and "od_executionLoop deps \<noteq> None"
    and "\<forall>i q. ab_queue (pg_abs (ow_store w)) i = Some q \<longrightarrow> scored q"
    and "Dispatch pg_ops deps now w = ((res, e), w')"
    and "i \<in> set (dr_Dispatched res)" and "ab_queue (pg_abs (ow_store w')) j = Some q'"
  shows "\<exists>q. ab_queue (pg_abs (ow_store w)) i = Some q \<and> \<not> entry_before q' q"
  by (rule pg_store.Dispatch_greedy [OF assms])

theorem dispatch_is_greedy_witness:
  "\<not> entry_before (wit_entry ''c'' (1 / 4)) (wit_entry ''b'' (3 / 4))"
proof -
  let ?w = "wit_world [wit_otask ''b'' TaskStatusQueued, wit_otask ''c'' TaskStatusQueued] [wit_entry ''c'' (1 / 4), wit_entry ''b'' (3 / 4)] []"
  let ?d = "(wit_deps ''running'')\<lparr>od_capacity := Some (Fin 1)\<rparr>"
  let ?r = "Dispatch pg_ops ?d 0 ?w"
  have "dr_Dispatched (fst (fst ?r)) = [''b''] \<and> ab_queue (pg_abs (ow_store (snd ?r))) ''c'' = Some (wit_entry ''c'' (1 / 4))"
    by (simp add: pg_eval wit_defs wit_loop_def)
  moreover have "pg_good (ow_store ?w)" "pg_healthy (ow_store ?w)" "od_executionLoop ?d \<noteq> None"
    "\<forall>i q. ab_queue (pg_abs (ow_store ?w)) i = Some q \<longrightarrow> scored q"
    by (auto simp: pg_good_def pg_healthy_def wit_defs to_row_def pg_abs_def scored_def split: if_splits)
  ultimately have "\<exists>q. ab_queue (pg_abs (ow_store ?w)) ''b'' = Some q \<and> \<not> entry_before (wit_entry ''c'' (1 / 4)) q"
    using dispatch_is_greedy [of ?w ?d 0 "fst (fst ?r)" "snd (fst ?r)" "snd ?r" "''b''" "''c''" "wit_entry ''c'' (1 / 4)"] by simp
  then show ?thesis by (simp add: pg_abs_def wit_defs)
qed

text \<open>
  C16: An ended task stays ended: through every history of the engine's operations, with any
  collaborators and any database failures, a completed task stays completed, a failed task stays
  failed, and no task disappears.
\<close>

theorem ended_tasks_stay_ended:
  assumes "orch_run pg_ops pg_abs w w'" and "pg_good (ow_store w)"
    and "status_of (pg_abs (ow_store w)) i = Some st" and "task_IsTerminal st"
  shows "status_of (pg_abs (ow_store w')) i = Some st"
  using pg_store.orch_run_effect [OF assms(1,2)] assms(3,4) by (auto simp: keeps_ended_def)

theorem ended_tasks_stay_ended_witness:
  "status_of (pg_abs (ow_store (orch_step pg_ops (wit_deps ''failed'') 0 (ReqFail ''b'') (wit_world [wit_otask ''b'' TaskStatusCompleted] [] [])))) ''b''
   = Some TaskStatusCompleted"
proof (rule ended_tasks_stay_ended)
  let ?w = "wit_world [wit_otask ''b'' TaskStatusCompleted] [] []"
  show "orch_run pg_ops pg_abs ?w (orch_step pg_ops (wit_deps ''failed'') 0 (ReqFail ''b'') ?w)"
    by (rule run_step [OF run_refl]) simp
  show "pg_good (ow_store ?w)" "status_of (pg_abs (ow_store ?w)) ''b'' = Some TaskStatusCompleted"
    by (simp_all add: pg_good_def wit_defs to_row_def from_row_def status_of_def pg_abs_def)
qed (simp add: task_IsTerminal_def)

text \<open>
  While the database does not fail, the queue holds no ghosts: through every history of the
  engine's operations each queue entry belongs to a task that is queued or paused, never to a task
  that is running, has ended or does not exist.
\<close>

theorem queue_holds_only_waiting_tasks:
  assumes "orch_run pg_ops pg_abs w w'" and "pg_good (ow_store w)" and "pg_healthy (ow_store w)"
    and "queue_ok (pg_abs (ow_store w))"
  shows "queue_ok (pg_abs (ow_store w'))"
  using pg_store.orch_run_effect [OF assms(1,2)] assms(3,4) by blast

theorem queue_holds_only_waiting_tasks_witness:
  "queue_ok (pg_abs (ow_store (orch_step pg_ops (wit_deps ''completed'') 0 ReqDispatch
     (wit_world [wit_otask ''b'' TaskStatusQueued] [wit_entry ''b'' (1 / 2)] []))))"
proof (rule queue_holds_only_waiting_tasks)
  let ?w = "wit_world [wit_otask ''b'' TaskStatusQueued] [wit_entry ''b'' (1 / 2)] []"
  show "orch_run pg_ops pg_abs ?w (orch_step pg_ops (wit_deps ''completed'') 0 ReqDispatch ?w)"
    by (rule run_step [OF run_refl]) simp
  show "pg_good (ow_store ?w)" "pg_healthy (ow_store ?w)" "queue_ok (pg_abs (ow_store ?w))"
    by (simp_all add: pg_good_def pg_healthy_def wit_defs to_row_def from_row_def queue_ok_def pg_abs_def)
qed

lemma save_unqueue_runs: "ow_runs (save_unqueue ops t w) = ow_runs w"
  by (simp add: save_unqueue_def on_store_def split: prod.splits)

lemma run_task_runs: "ow_runs (fst (run_task ops deps el now t (w, res, n))) = ow_runs w @ [ot_Goal t]"
  by (simp add: run_task_def Let_def applyExecutionOutcome_def save_unqueue_runs split: sum.splits option.splits prod.splits)

text \<open>Running on a healthy store whose rows stay abstract.\<close>

lemma pg_healthy_run:
  assumes "pg_faults s = []"
  shows "stmt s = Some s' \<Longrightarrow> pg_exec msg stmt s = (None, s')" and "pg_row msg q s = (Inr (q s), s)"
    and "pg_rows msg f s = (Inr (f s), s)"
  using assms by (simp_all add: pg_exec_def pg_row_def pg_rows_def pg_next_def Let_def)

lemma row_status [simp]: "ot_Status (tr_Task (to_row t)) = ot_Status t"
  by (simp add: to_row_def)

lemma update_row_to_row: "same_origin t u \<Longrightarrow> update_row t (to_row u) = to_row t"
  by (cases t) (simp add: update_row_def same_origin_def to_row_def)

abbreviation single :: "orch_task \<Rightarrow> queue_entry list \<Rightarrow> pg" where
  "single t qs \<equiv> \<lparr>pg_tasks = [to_row t], pg_queue = qs, pg_faults = []\<rparr>"

lemma single_ops:
  "pg_ListByStatus st (int MaxTasksInQueue) (single t qs) = (Inr (if ot_Status t = st then [t] else []), single t qs)"
  "pg_Get (ot_ID t) (single t qs) = (Inr t, single t qs)"
  "pg_CountByStatus st (single t qs) = (Inr (if ot_Status t = st then 1 else 0), single t qs)"
  "pg_Remove i (single t qs) = (None, single t (filter (\<lambda>q. qe_TaskID q \<noteq> i) qs))"
  "same_origin u t \<Longrightarrow> ot_ID u = ot_ID t \<Longrightarrow> int4 (ot_AttemptCount u) \<Longrightarrow> pg_Update u (single t qs) = (None, single u qs)"
  "qe_TaskID q = ot_ID t \<Longrightarrow> pg_Upsert q (single t qs) = (None, single t (queue_upsert q qs))"
  "0 < n \<Longrightarrow> n \<le> 200 \<Longrightarrow> pg_QueueList n (single t [q]) = (Inr [q], single t [q])"
  "pg_QueueCount (single t qs) = (Inr (length qs), single t qs)"
  by (simp_all add: pg_ListByStatus_def pg_Get_def pg_CountByStatus_def pg_Remove_def pg_Update_def pg_Upsert_def pg_QueueList_def
      pg_QueueCount_def pg_healthy_run list_limit_def MaxTasksInQueue_def sql_count_def update_row_to_row queue_limit_def)

lemma dispatch_single_run:
  assumes w: "ow_store w = single t [q]" and q: "qe_TaskID q = ot_ID t" and el: "eligible (getGovernanceMode deps) t"
    and "getGovernanceMode deps \<noteq> ''frozen''" and "od_executionLoop deps = Some f"
  shows "snd (Dispatch pg_ops deps now w) = fst (run_task pg_ops deps f now t (w, no_result, 0))"
proof -
  have st: "\<not> (task_IsTerminal (ot_Status t) \<or> ot_Status t = TaskStatusRunning)"
    using el by (auto simp: eligible_def task_IsTerminal_def)
  have "on_store (pg_Get (qe_TaskID q)) w = (Inr t, w)" using w q by (simp add: on_store_def single_ops)
  then have e: "dispatch_entry pg_ops deps (getGovernanceMode deps) now q (w, no_result, 0) = run_task pg_ops deps f now t (w, no_result, 0)"
    using st el assms(5) by (auto simp: dispatch_entry_def pg_ops_sel eligible_def)
  have c: "on_store (pg_CountByStatus TaskStatusRunning) w = (Inr 0, w)" using w st by (simp add: on_store_def single_ops)
  have l: "on_store (pg_QueueList (dispatch_limit deps MaxRunningTasks * 2)) w = (Inr [q], w)"
    using w dispatch_limit_bounds [of MaxRunningTasks deps] by (simp add: on_store_def single_ops MaxRunningTasks_def MaxTasksPerCycle_def)
  obtain w' res n where r: "run_task pg_ops deps f now t (w, no_result, 0) = (w', res, n)" by (metis prod_cases3)
  show ?thesis
    using c l e r assms(4) dispatch_limit_bounds [of MaxRunningTasks deps]
    by (simp add: Dispatch_def pg_ops_sel MaxRunningTasks_def)
qed

lemma dispatch_single:
  assumes "ow_store w = single t [q]" and "qe_TaskID q = ot_ID t" and "eligible (getGovernanceMode deps) t"
    and "getGovernanceMode deps \<noteq> ''frozen''" and "od_executionLoop deps = Some f"
  shows "ow_runs (snd (Dispatch pg_ops deps now w)) = ow_runs w @ [ot_Goal t]"
  unfolding dispatch_single_run [OF assms] by (rule run_task_runs)

text \<open>
  A pause does not hold. The scoring pass puts a paused task back into the queue once its
  cooldown is over, still paused, and the next cycle runs it: for every waiting paused task that is
  alone in a healthy store, neither expired nor in cooldown and below the risk gates, scoring and
  dispatching hand its goal to the execution loop although nobody resumed it.
\<close>

theorem paused_task_resumes_by_itself:
  assumes "ot_Status t = TaskStatusPaused" and "\<not> IsExpired t now" and "\<not> IsInCooldown t now"
    and "eligible (getGovernanceMode deps) t" and "getGovernanceMode deps \<noteq> ''frozen''"
    and "od_executionLoop deps = Some el" and "int4 (ot_AttemptCount t)"
  shows "ow_runs (snd (Dispatch pg_ops deps now (snd (RecomputePriorities pg_ops deps now (wit_world [t] [] []))))) = [ot_Goal t]"
proof -
  define p where "p = task_priority deps (gatherScoringInput deps) now t"
  define t' where "t' = t\<lparr>ot_PriorityScore := p, ot_UpdatedAt := now, ot_Status := TaskStatusPaused\<rparr>"
  define q where "q = \<lparr>qe_TaskID = ot_ID t', qe_PriorityScore = p, qe_InsertedAt = ot_CreatedAt t', qe_LastUpdatedAt = now\<rparr>"
  have t': "same_origin t' t" "ot_ID t' = ot_ID t" "int4 (ot_AttemptCount t')" "ot_Goal t' = ot_Goal t" "eligible (getGovernanceMode deps) t'"
    "ot_Status t' = TaskStatusPaused"
    using assms by (simp_all add: t'_def same_origin_def eligible_def)
  have r: "recompute_task ops deps (gatherScoringInput deps) now t (w, n, x) =
    (case on_store (t_Update ops t') w of (Some _, w) \<Rightarrow> (w, n, x)
     | (None, w) \<Rightarrow> (case on_store (q_Upsert ops q) w of (Some _, w) \<Rightarrow> (w, n, x)
       | (None, w) \<Rightarrow> (auditEvent deps (TaskEvent ''task.scored'' (ot_ID t')) w, Suc n, x)))" for ops :: "pg store_ops" and w n x
    using assms(1-3) by (simp add: recompute_task_def Let_def p_def [symmetric] t'_def q_def split: prod.split option.split)
  have "ow_store (snd (RecomputePriorities pg_ops deps now (wit_world [t] [] []))) = single t' [q] \<and>
    ow_runs (snd (RecomputePriorities pg_ops deps now (wit_world [t] [] []))) = []"
    using assms(1) t' by (simp add: RecomputePriorities_def finish_recompute_def r on_store_def pg_ops_sel wit_world_def single_ops
        auditEvent_def queue_upsert_def q_def)
  moreover have "ow_runs (snd (Dispatch pg_ops deps now w)) = [ot_Goal t]"
    if w: "ow_store w = single t' [q]" "ow_runs w = []" for w
    using dispatch_single [OF w(1) _ t'(5) assms(5,6)] w(2) t'(4) by (simp add: q_def)
  ultimately show ?thesis by blast
qed

lemma one_hour: "dur_Hours Hour = Fin 1" "dur_Minutes Hour = Fin 60"
proof -
  have "dur_Hours Hour = rnd (of_int (Hour div Hour) + rv (of_int (Hour mod Hour) / of_int Hour))"
    by (rule hours_split) (simp_all add: duration_defs)
  then show "dur_Hours Hour = Fin 1" by (simp add: duration_defs)
  have "dur_in Hour Minute = rnd (of_int (Hour div Minute) + rv (of_int (Hour mod Minute) / of_int Minute))"
  proof (rule dur_in_split)
    show "rnd (of_int Minute) = Fin (of_int Minute)" by (rule rnd_int) (simp add: duration_defs)
  qed (simp_all add: duration_defs)
  then show "dur_Minutes Hour = Fin 60" using rnd_int [of 60] by (simp add: dur_Minutes_def duration_defs)
qed

theorem paused_task_resumes_by_itself_witness:
  "ow_runs (snd (Dispatch pg_ops (wit_deps ''completed'') Hour
     (snd (RecomputePriorities pg_ops (wit_deps ''completed'') Hour (wit_world [wit_otask ''b'' TaskStatusPaused] [] []))))) = [''write invoice'']"
proof -
  let ?t = "wit_otask ''b'' TaskStatusPaused"
  have h: "time_Sub Hour 0 = Hour" by (simp add: time_Sub_def duration_defs)
  have "\<not> IsExpired ?t Hour" "\<not> IsInCooldown ?t Hour"
    using h one_hour by (simp_all add: IsExpired_def IsInCooldown_def wit_defs TaskTTLHours_def CooldownMinutes_def const_exact)
  moreover have "eligible (getGovernanceMode (wit_deps ''completed'')) ?t" by (simp add: eligible_def wit_defs)
  ultimately show ?thesis
    using paused_task_resumes_by_itself [of ?t Hour "wit_deps ''completed''" "wit_loop ''completed''"]
    by (simp add: wit_defs getGovernanceMode_def int4_def)
qed

text \<open>
  The reply of the execution loop decides the stored status: a running task becomes completed
  on \<open>completed\<close>, failed on every other reported status, known or not, and stays running on
  \<open>running\<close> and on an empty status, which the interface describes as a failure.
\<close>

theorem execution_outcome_is_recorded:
  assumes "pg_good (ow_store w)" and "pg_healthy (ow_store w)" and "ab_tasks (pg_abs (ow_store w)) (ot_ID t) = Some t"
    and "ot_Status t = TaskStatusRunning" and "int4 (ot_AttemptCount t)"
  shows "status_of (pg_abs (ow_store (applyExecutionOutcome pg_ops deps t out now w))) (ot_ID t) = Some
    (if do_TerminalStatus out \<in> {''running'', ''''} then TaskStatusRunning
     else if do_TerminalStatus out = ''completed'' then TaskStatusCompleted else TaskStatusFailed)"
proof (cases "outcome_task t out now")
  case None
  then have "do_TerminalStatus out \<in> {''running'', ''''}" by (auto simp: outcome_task_def Let_def split: if_splits)
  then show ?thesis using None assms(3,4) by (simp add: applyExecutionOutcome_def status_of_def)
next
  case (Some p)
  obtain t' ev where p: "p = (t', ev)" by fastforce
  have t': "ot_ID t' = ot_ID t" "same_origin t' t" "int4 (ot_AttemptCount t')"
    "ot_Status t' = (if do_TerminalStatus out = ''completed'' then TaskStatusCompleted else TaskStatusFailed)"
    "do_TerminalStatus out \<notin> {''running'', ''''}"
    using Some p assms(5) by (auto simp: outcome_task_def Let_def same_origin_def split: if_splits)
  have u: "ab_tasks (pg_abs (ow_store w)) (ot_ID t') = Some t" using assms(3) t' by simp
  have "ab_tasks (pg_abs (ow_store (save_unqueue pg_ops t' w))) = (ab_tasks (pg_abs (ow_store w)))(ot_ID t' \<mapsto> t')"
    using pg_store.save_unqueue_spec(7) [OF assms(1) u t'(2) refl refl refl assms(2) t'(3)] .
  then show ?thesis using Some p t' by (simp add: applyExecutionOutcome_def status_of_def)
qed

theorem execution_outcome_is_recorded_witness:
  "status_of (pg_abs (ow_store (applyExecutionOutcome pg_ops (wit_deps '''') (wit_otask ''b'' TaskStatusRunning)
     \<lparr>do_ExecutionID = ''x'', do_TerminalStatus = '''', do_Error = ''''\<rparr> 5 (wit_world [wit_otask ''b'' TaskStatusRunning] [] [])))) ''b''
   = Some TaskStatusRunning"
proof -
  let ?t = "wit_otask ''b'' TaskStatusRunning"
  let ?w = "wit_world [?t] [] []"
  have "pg_good (ow_store ?w)" "pg_healthy (ow_store ?w)" "ab_tasks (pg_abs (ow_store ?w)) (ot_ID ?t) = Some ?t"
    by (simp_all add: pg_good_def pg_healthy_def wit_world_def pg_abs_def)
  moreover have "ot_Status ?t = TaskStatusRunning" "int4 (ot_AttemptCount ?t)" "ot_ID ?t = ''b''" by (simp_all add: wit_defs int4_def)
  ultimately show ?thesis using execution_outcome_is_recorded [of ?w ?t] by fastforce
qed

text \<open>
  Storing a task and reading it back returns the task: on a healthy database the row written by
  \<open>Insert\<close> under a new identifier is read by \<open>Get\<close> as the same task, with empty link fields stored
  as NULL and read as empty again.
\<close>

theorem insert_then_get:
  assumes "pg_good s" and "pg_healthy s" and "ab_tasks (pg_abs s) (ot_ID t) = None" and "int4 (ot_AttemptCount t)"
  shows "fst (pg_Insert t s) = None \<and> fst (pg_Get (ot_ID t) (snd (pg_Insert t s))) = Inr t"
proof -
  obtain e s' where i: "pg_Insert t s = (e, s')" by fastforce
  note I = pg_insert_law [OF assms(1,3) i]
  obtain r s'' where g: "pg_Get (ot_ID t) s' = (r, s'')" by fastforce
  note G = pg_get_law [OF I [THEN conjunct1] g]
  have "e = None" using I assms(2,4) by blast
  then have "pg_abs s' = (pg_abs s)\<lparr>ab_tasks := (ab_tasks (pg_abs s))(ot_ID t \<mapsto> t)\<rparr>"
    using I [THEN conjunct2, THEN conjunct2, THEN conjunct1] by (simp add: wrote_def)
  then have "ab_tasks (pg_abs s') = (ab_tasks (pg_abs s))(ot_ID t \<mapsto> t)" by simp
  moreover have "r = (case ab_tasks (pg_abs s') (ot_ID t) of None \<Rightarrow> Inl ErrTaskNotFound | Some t \<Rightarrow> Inr t)"
    using G I assms(2) by blast
  ultimately show ?thesis using i g \<open>e = None\<close> by simp
qed

theorem insert_then_get_witness:
  "fst (pg_Get ''b'' (snd (pg_Insert (wit_otask ''b'' TaskStatusPending) (ow_store (wit_world [] [] []))))) = Inr (wit_otask ''b'' TaskStatusPending)"
  using insert_then_get [of "ow_store (wit_world [] [] [])" "wit_otask ''b'' TaskStatusPending"]
  by (simp add: pg_good_def pg_healthy_def wit_defs pg_abs_def int4_def)

end
