(* ===== verification/Go_Json.thy ===== *)
theory Go_Json
  imports Go_Text Float64
begin

text \<open>
  Printing by Go's standard library as the execution loop uses it: \<open>json.Marshal\<close> of a map from
  strings to strings, with the UTF-8 decoder it relies on and its escapes, and the verb \<open>%.2f\<close>.
  Strings are byte strings. The main lemma says that what is printed is valid JSON whatever bytes
  the strings hold.
\<close>

section \<open>UTF-8\<close>

text \<open>The number of bytes of the well-formed rune a text starts with, or None for a bad encoding.\<close>

definition utf8_tail :: "nat \<Rightarrow> bool" where
  "utf8_tail b \<longleftrightarrow> 128 \<le> b \<and> b < 192"

definition utf8_second :: "nat \<Rightarrow> nat \<Rightarrow> bool" where
  "utf8_second a b \<longleftrightarrow>
     (if a = 224 then 160 else if a = 240 then 144 else 128) \<le> b \<and>
     b < (if a = 237 then 160 else if a = 244 then 144 else 192)"

fun utf8_width :: "nat list \<Rightarrow> nat option" where
  "utf8_width [] = None"
| "utf8_width (a # bs) =
     (if a < 128 then Some 1
      else
        let n = (if 194 \<le> a \<and> a < 224 then 1 else if 224 \<le> a \<and> a < 240 then 2
                 else if 240 \<le> a \<and> a < 245 then 3 else (0::nat))
        in if 0 < n \<and> n \<le> length bs \<and> utf8_second a (hd bs) \<and> list_all utf8_tail (take (n - 1) (tl bs))
           then Some (Suc n) else None)"

section \<open>Strings and string maps\<close>

definition json_u :: "nat \<Rightarrow> string" where
  "json_u n = [CHR 0x5C, CHR ''u'', hex_digit (n div 4096 mod 16), hex_digit (n div 256 mod 16),
     hex_digit (n div 16 mod 16), hex_digit (n mod 16)]"

text \<open>The escapes for one byte below 128, with HTML escaping on, as \<open>Marshal\<close> has it.\<close>

definition json_ascii :: "char \<Rightarrow> string" where
  "json_ascii c =
     (let n = of_char c :: nat; bs = CHR 0x5C in
      if n = 34 \<or> n = 92 then [bs, c]
      else if n = 8 then [bs, CHR ''b''] else if n = 12 then [bs, CHR ''f'']
      else if n = 10 then [bs, CHR ''n''] else if n = 13 then [bs, CHR ''r'']
      else if n = 9 then [bs, CHR ''t'']
      else if n < 32 \<or> n = 60 \<or> n = 62 \<or> n = 38 then json_u n
      else [c])"

function json_escape :: "string \<Rightarrow> string" where
  "json_escape [] = []"
| "json_escape (c # s) =
     (case utf8_width (map of_char (c # s)) of
        None \<Rightarrow> json_u 65533 @ json_escape s
      | Some n \<Rightarrow>
          (let rune = take n (c # s); rest = drop (n - 1) s in
           (if n = 1 then json_ascii c
            else if rune = map char_of [226, 128, 168 :: nat] then json_u 8232
            else if rune = map char_of [226, 128, 169 :: nat] then json_u 8233
            else rune) @ json_escape rest))"
  by pat_completeness auto

termination
  by (relation "measure length") auto

declare json_escape.simps(2) [simp del]

definition json_string :: "string \<Rightarrow> string" where
  "json_string s = CHR 0x22 # json_escape s @ [CHR 0x22]"

text \<open>A map is printed in the order of its keys; the caller lists them in that order.\<close>

fun json_members :: "(string \<times> string) list \<Rightarrow> string" where
  "json_members [] = []"
| "json_members [(k, v)] = json_string k @ '':'' @ json_string v"
| "json_members ((k, v) # kv # kvs) = json_string k @ '':'' @ json_string v @ '','' @ json_members (kv # kvs)"

definition json_object :: "(string \<times> string) list \<Rightarrow> string" where
  "json_object kvs = ''{'' @ json_members kvs @ ''}''"

section \<open>Validity\<close>

lemma json_scan_append:
  "json_scan (s @ t) st = (case json_scan s st of None \<Rightarrow> None | Some st' \<Rightarrow> json_scan t st')"
  by (induction s arbitrary: st) (auto split: option.splits)

lemma json_hex_digit: "n < 16 \<Longrightarrow> json_hex (hex_digit n)"
proof -
  have "\<forall>n \<in> {..<16}. json_hex (hex_digit n)" by code_simp
  then show "n < 16 \<Longrightarrow> json_hex (hex_digit n)" by simp
qed

lemma json_scan_u: "json_scan (json_u n) (InString, stack) = Some (InString, stack)"
  by (simp add: json_u_def json_hex_digit numeral_3_eq_3)

lemma json_scan_plain:
  assumes "\<forall>c \<in> set s. 32 \<le> (of_char c :: nat) \<and> (of_char c :: nat) \<noteq> 34 \<and> (of_char c :: nat) \<noteq> 92"
  shows "json_scan s (InString, stack) = Some (InString, stack)"
  using assms by (induction s) auto

lemma json_scan_ascii: "json_scan (json_ascii c) (InString, stack) = Some (InString, stack)"
proof -
  have "(of_char c :: nat) \<in> {34, 92, 8, 9, 10, 12, 13} \<or> \<not> (of_char c :: nat) \<in> {34, 92, 8, 9, 10, 12, 13}" by blast
  then show ?thesis
  proof
    assume "\<not> (of_char c :: nat) \<in> {34, 92, 8, 9, 10, 12, 13}"
    then show ?thesis
      using json_scan_plain [of "[c]" stack] by (simp add: json_ascii_def json_scan_u Let_def)
  next
    assume s: "(of_char c :: nat) \<in> {34, 92, 8, 9, 10, 12, 13}"
    have "c = char_of (of_char c :: nat)" by simp
    then have "c \<in> char_of ` {34, 92, 8, 9, 10, 12, 13 :: nat}" using s by blast
    moreover have "char_of (34 :: nat) = CHR 0x22" "char_of (92 :: nat) = CHR 0x5C" by code_simp+
    ultimately show ?thesis by (auto simp: json_ascii_def Let_def)
  qed
qed

lemma utf8_rune_plain:
  assumes "utf8_width bs = Some n" and "n \<noteq> 1"
  shows "\<forall>b \<in> set (take n bs). 128 \<le> b"
proof (cases bs)
  case (Cons a cs)
  with assms have a: "\<not> a < 128" and sec: "utf8_second a (hd cs)" and tl: "list_all utf8_tail (take (n - 2) (tl cs))"
    and n: "2 \<le> n" "n - 1 \<le> length cs"
    by (auto simp: Let_def split: if_splits)
  obtain k where k: "n = Suc (Suc k)" using n(1) by (metis Suc_le_D numeral_2_eq_2 le_SucE One_nat_def Suc_le_mono)
  obtain b ds where cs: "cs = b # ds" using n(2) k by (cases cs) auto
  have "128 \<le> b" using sec by (auto simp: utf8_second_def cs split: if_splits)
  moreover have "\<forall>x \<in> set (take k ds). 128 \<le> x" using tl by (auto simp: list_all_iff utf8_tail_def k cs)
  ultimately show ?thesis using a by (auto simp: Cons cs k)
qed simp

lemma json_scan_escape: "json_scan (json_escape s) (InString, stack) = Some (InString, stack)"
proof (induction s rule: json_escape.induct)
  case (2 c s)
  show ?case
  proof (cases "utf8_width (map of_char (c # s))")
    case None
    then show ?thesis using 2(1) by (simp add: json_escape.simps(2) json_scan_append json_scan_u)
  next
    case (Some n)
    have big: "n \<noteq> 1 \<Longrightarrow> \<forall>x \<in> set (take n (c # s)). 128 \<le> (of_char x :: nat)"
      using utf8_rune_plain [OF Some] unfolding take_map by simp
    have plain: "n \<noteq> 1 \<Longrightarrow> json_scan (take n (c # s)) (InString, stack) = Some (InString, stack)"
      by (rule json_scan_plain) (use big in force)
    have "json_scan (json_escape (drop (n - 1) s)) (InString, stack) = Some (InString, stack)"
      using 2(2) [OF Some refl refl] .
    then show ?thesis using Some plain
      by (cases "n = 1") (simp_all add: json_escape.simps(2) json_scan_append json_scan_u json_scan_ascii Let_def)
  qed
qed simp

lemma json_scan_string:
  "st \<in> {BeginString, BeginStringOrEmpty, BeginValue} \<Longrightarrow>
   json_scan (json_string s) (st, stack) = Some (EndValue, stack)"
  by (auto simp: json_string_def json_scan_append json_scan_escape json_begin_string_def
    json_begin_value_def json_space_def)

lemma json_scan_members:
  "kvs \<noteq> [] \<Longrightarrow> st \<in> {BeginString, BeginStringOrEmpty} \<Longrightarrow>
   json_scan (json_members kvs) (st, [ParseObjectKey]) = Some (EndValue, [ParseObjectValue])"
proof (induction kvs arbitrary: st rule: json_members.induct)
  case (2 k v)
  then show ?case by (auto simp: json_scan_append json_scan_string json_space_def)
next
  case (3 k v kv kvs)
  then have "json_scan (json_members (kv # kvs)) (BeginString, [ParseObjectKey]) = Some (EndValue, [ParseObjectValue])"
    by simp
  then show ?case using 3(3) by (auto simp: json_scan_append json_scan_string json_space_def)
qed simp

lemma json_object_valid: "json_valid (json_object kvs)"
proof (cases "kvs = []")
  case True
  then show ?thesis by (simp add: json_object_def) code_simp
next
  case False
  then show ?thesis
    by (simp add: json_valid_def json_object_def json_scan_append json_scan_members json_begin_value_def
      json_space_def json_push_def maxNestingDepth_def json_pop_def)
qed

section \<open>Numbers\<close>

text \<open>
  The verbs \<open>%.2f\<close>, \<open>%.1f\<close> and \<open>%.3f\<close> on a binary64: the exact value rounded to that many
  decimals, ties to even.
\<close>

definition fmt_f2 :: "f64 \<Rightarrow> string" where
  "fmt_f2 x =
     (case x of
        Fin r \<Rightarrow>
          (let n = nat \<bar>round_even (100 * r)\<bar> in
           (if r < 0 then ''-'' else '''') @ nat_str (n div 100) @ ''.'' @ nat_str (n div 10 mod 10) @ nat_str (n mod 10))
      | PInf \<Rightarrow> ''+Inf'' | NInf \<Rightarrow> ''-Inf'' | NaN \<Rightarrow> ''NaN'')"

definition fmt_f1 :: "f64 \<Rightarrow> string" where
  "fmt_f1 x =
     (case x of
        Fin r \<Rightarrow>
          (let n = nat \<bar>round_even (10 * r)\<bar> in
           (if r < 0 then ''-'' else '''') @ nat_str (n div 10) @ ''.'' @ nat_str (n mod 10))
      | PInf \<Rightarrow> ''+Inf'' | NInf \<Rightarrow> ''-Inf'' | NaN \<Rightarrow> ''NaN'')"

definition fmt_f3 :: "f64 \<Rightarrow> string" where
  "fmt_f3 x =
     (case x of
        Fin r \<Rightarrow>
          (let n = nat \<bar>round_even (1000 * r)\<bar> in
           (if r < 0 then ''-'' else '''') @ nat_str (n div 1000) @ ''.'' @
             nat_str (n div 100 mod 10) @ nat_str (n div 10 mod 10) @ nat_str (n mod 10))
      | PInf \<Rightarrow> ''+Inf'' | NInf \<Rightarrow> ''-Inf'' | NaN \<Rightarrow> ''NaN'')"

end
