(* ===== verification/Exec_Store.thy ===== *)
theory Exec_Store
  imports Task_Store Go_Json
begin

text \<open>
  Data and persistence of the execution loop: \<open>types.go\<close> and \<open>store.go\<close> of
  \<open>src/internal/agent/execution_loop\<close>. As for the task orchestrator, the two Go interfaces are
  one record of operations, with a PostgreSQL and an in-memory value, and what the engine relies on
  is a locale interpreted on both. A task status is the Go string itself, since the zero value
  occurs in results. The function \<open>jb\<close> stands for PostgreSQL's input of a JSONB value: None
  where it rejects the text, and else the normalised text that is read back.
\<close>

section \<open>Data\<close>

type_synonym loop_status = string

abbreviation LoopPending :: loop_status where "LoopPending \<equiv> ''pending''"
abbreviation LoopRunning :: loop_status where "LoopRunning \<equiv> ''running''"
abbreviation LoopCompleted :: loop_status where "LoopCompleted \<equiv> ''completed''"
abbreviation LoopFailed :: loop_status where "LoopFailed \<equiv> ''failed''"
abbreviation LoopAborted :: loop_status where "LoopAborted \<equiv> ''aborted''"

definition loop_transitions :: "(loop_status \<times> loop_status list) list" where
  "loop_transitions =
     [(LoopPending, [LoopRunning, LoopAborted]), (LoopRunning, [LoopCompleted, LoopFailed, LoopAborted]),
      (LoopCompleted, []), (LoopFailed, []), (LoopAborted, [])]"

definition ValidateTaskTransition :: "loop_status \<Rightarrow> loop_status \<Rightarrow> bool" where
  "ValidateTaskTransition from to =
     (case map_of loop_transitions from of None \<Rightarrow> False | Some allowed \<Rightarrow> to \<in> set allowed)"

datatype step_status =
  StepStatusPending | StepStatusExecuted | StepStatusFailed | StepStatusSkipped
  | StepStatusPendingReview | StepStatusBlocked

definition MaxIterations :: int where "MaxIterations = 5"
definition MaxStepsPerPlan :: int where "MaxStepsPerPlan = 5"
definition MaxRetriesPerStep :: int where "MaxRetriesPerStep = 2"
definition MaxExecutionTimeSec :: int where "MaxExecutionTimeSec = 60"
definition MaxConsecFailures :: int where "MaxConsecFailures = 3"

text \<open>A payload is None where the Go slice is nil.\<close>

record exec_step =
  xs_ID :: string
  xs_Description :: string
  xs_Tool :: string
  xs_Payload :: "string option"
  xs_Status :: step_status
  xs_ResultRef :: string
  xs_AttemptCount :: int

record exec_task =
  xt_ID :: string
  xt_OpportunityID :: string
  xt_Goal :: string
  xt_Status :: loop_status
  xt_Plan :: "exec_step list"
  xt_CurrentStep :: int
  xt_IterationCount :: int
  xt_MaxIterations :: int
  xt_AbortReason :: string
  xt_CreatedAt :: time
  xt_UpdatedAt :: time

record observation =
  ob_StepID :: string
  ob_TaskID :: string
  ob_Success :: bool
  ob_Output :: "string option"
  ob_Error :: string
  ob_Timestamp :: time

definition zero_task :: exec_task where
  "zero_task = \<lparr>xt_ID = '''', xt_OpportunityID = '''', xt_Goal = '''', xt_Status = '''', xt_Plan = [],
     xt_CurrentStep = 0, xt_IterationCount = 0, xt_MaxIterations = 0, xt_AbortReason = '''',
     xt_CreatedAt = 0, xt_UpdatedAt = 0\<rparr>"

text \<open>The texts of errors of the driver and of the JSON encoder are whatever those report.\<close>

datatype loop_error =
  ErrLoopTaskNotFound | ErrLoopInvalidTransition | ErrReported string
  | ErrPrefixed string loop_error | ErrSuffixed loop_error string

primrec loop_error_text :: "loop_error \<Rightarrow> string" where
  "loop_error_text ErrLoopTaskNotFound = ''execution task not found''"
| "loop_error_text ErrLoopInvalidTransition = ''invalid task status transition''"
| "loop_error_text (ErrReported s) = s"
| "loop_error_text (ErrPrefixed p e) = p @ '': '' @ loop_error_text e"
| "loop_error_text (ErrSuffixed e s) = loop_error_text e @ '': '' @ s"

record 's loop_ops =
  x_Insert :: "exec_task \<Rightarrow> 's \<Rightarrow> loop_error option \<times> 's"
  x_Get :: "string \<Rightarrow> 's \<Rightarrow> (loop_error + exec_task) \<times> 's"
  x_Update :: "exec_task \<Rightarrow> 's \<Rightarrow> loop_error option \<times> 's"
  x_List :: "int \<Rightarrow> 's \<Rightarrow> (loop_error + exec_task list) \<times> 's"
  o_Insert :: "observation \<Rightarrow> 's \<Rightarrow> loop_error option \<times> 's"
  o_ListByTask :: "string \<Rightarrow> 's \<Rightarrow> (loop_error + observation list) \<times> 's"
  o_CountConsecutiveFailures :: "string \<Rightarrow> 's \<Rightarrow> (loop_error + int) \<times> 's"

definition tail_failures :: "observation list \<Rightarrow> int" where
  "tail_failures obs = int (length (takeWhile (\<lambda>ob. \<not> ob_Success ob) (rev obs)))"

section \<open>PostgreSQL\<close>

record exec_db =
  xd_tasks :: "exec_task list"
  xd_obs :: "observation list"
  xd_faults :: "fault list"
  xd_error :: string

definition xdb_next :: "exec_db \<Rightarrow> fault \<times> exec_db" where
  "xdb_next s = (case xd_faults s of [] \<Rightarrow> (NoFault, s) | f # fs \<Rightarrow> (f, s\<lparr>xd_faults := fs\<rparr>))"

definition xdb_fail :: "string \<Rightarrow> exec_db \<Rightarrow> loop_error" where
  "xdb_fail msg s = ErrPrefixed msg (ErrReported (xd_error s))"

definition xdb_exec :: "string \<Rightarrow> (exec_db \<Rightarrow> exec_db option) \<Rightarrow> exec_db \<Rightarrow> loop_error option \<times> exec_db" where
  "xdb_exec msg stmt s =
     (let (f, s) = xdb_next s; err = Some (xdb_fail msg s) in
      case (f, stmt s) of
        (NoFault, Some s') \<Rightarrow> (None, s')
      | (FaultAfter, Some s') \<Rightarrow> (err, s')
      | _ \<Rightarrow> (err, s))"

definition xdb_rows :: "string \<Rightarrow> (exec_db \<Rightarrow> 'v list) \<Rightarrow> exec_db \<Rightarrow> (loop_error + 'v list) \<times> exec_db" where
  "xdb_rows msg q s =
     (let (f, s) = xdb_next s in
      case f of
        NoFault \<Rightarrow> (Inr (q s), s)
      | FaultAfterRows n \<Rightarrow> (Inr (take n (q s)), s)
      | _ \<Rightarrow> (Inl (xdb_fail msg s), s))"

text \<open>
  The plan column: \<open>json.Marshal\<close> refuses a payload that is not JSON and prints a nil payload as
  null, which is read back as the text of null.
\<close>

definition plan_marshals :: "exec_step list \<Rightarrow> bool" where
  "plan_marshals = list_all (\<lambda>st. case xs_Payload st of None \<Rightarrow> True | Some p \<Rightarrow> json_valid p)"

definition stored_step :: "(string \<Rightarrow> string option) \<Rightarrow> exec_step \<Rightarrow> exec_step option" where
  "stored_step jb st =
     (case xs_Payload st of
        None \<Rightarrow> Some (st\<lparr>xs_Payload := Some ''null''\<rparr>)
      | Some p \<Rightarrow> map_option (\<lambda>q. st\<lparr>xs_Payload := Some q\<rparr>) (jb p))"

definition stored_plan :: "(string \<Rightarrow> string option) \<Rightarrow> exec_step list \<Rightarrow> exec_step list option" where
  "stored_plan jb plan = those (map (stored_step jb) plan)"

definition task_int4 :: "exec_task \<Rightarrow> bool" where
  "task_int4 t \<longleftrightarrow> int4 (xt_CurrentStep t) \<and> int4 (xt_IterationCount t) \<and> int4 (xt_MaxIterations t)"

definition marshal_plan_error :: "exec_db \<Rightarrow> loop_error option" where
  "marshal_plan_error s = Some (ErrPrefixed ''marshal plan'' (ErrReported (xd_error s)))"

definition xdb_Insert :: "(string \<Rightarrow> string option) \<Rightarrow> exec_task \<Rightarrow> exec_db \<Rightarrow> loop_error option \<times> exec_db" where
  "xdb_Insert jb t s =
     (if \<not> plan_marshals (xt_Plan t) then (marshal_plan_error s, s)
      else xdb_exec ''insert execution task'' (\<lambda>s.
        case stored_plan jb (xt_Plan t) of
          None \<Rightarrow> None
        | Some pl \<Rightarrow>
            if row_of xt_ID (xd_tasks s) (xt_ID t) = None \<and> task_int4 t
            then Some (s\<lparr>xd_tasks := xd_tasks s @ [t\<lparr>xt_Plan := pl\<rparr>]\<rparr>) else None) s)"

definition xdb_Get :: "string \<Rightarrow> exec_db \<Rightarrow> (loop_error + exec_task) \<times> exec_db" where
  "xdb_Get tid s =
     (let (f, s) = xdb_next s in
      if f \<noteq> NoFault then (Inl (xdb_fail ''get execution task'' s), s)
      else case row_of xt_ID (xd_tasks s) tid of
             None \<Rightarrow> (Inl ErrLoopTaskNotFound, s) | Some t \<Rightarrow> (Inr t, s))"

definition updated_row :: "exec_task \<Rightarrow> exec_step list \<Rightarrow> exec_task \<Rightarrow> exec_task" where
  "updated_row t pl r = r\<lparr>xt_Status := xt_Status t, xt_Plan := pl, xt_CurrentStep := xt_CurrentStep t,
     xt_IterationCount := xt_IterationCount t, xt_AbortReason := xt_AbortReason t, xt_UpdatedAt := xt_UpdatedAt t\<rparr>"

definition xdb_Update :: "(string \<Rightarrow> string option) \<Rightarrow> exec_task \<Rightarrow> exec_db \<Rightarrow> loop_error option \<times> exec_db" where
  "xdb_Update jb t s =
     (if \<not> plan_marshals (xt_Plan t) then (marshal_plan_error s, s)
      else xdb_exec ''update execution task'' (\<lambda>s.
        case stored_plan jb (xt_Plan t) of
          None \<Rightarrow> None
        | Some pl \<Rightarrow>
            if int4 (xt_CurrentStep t) \<and> int4 (xt_IterationCount t)
            then Some (s\<lparr>xd_tasks := sql_update (\<lambda>r. xt_ID r = xt_ID t) (updated_row t pl) (xd_tasks s)\<rparr>)
            else None) s)"

definition loop_list_limit :: "int \<Rightarrow> nat" where
  "loop_list_limit limit = (if limit \<le> 0 \<or> 200 < limit then 50 else nat limit)"

definition xdb_List :: "int \<Rightarrow> exec_db \<Rightarrow> (loop_error + exec_task list) \<times> exec_db" where
  "xdb_List limit = xdb_rows ''list execution tasks'' (\<lambda>s.
     take (loop_list_limit limit) (sql_sort (\<lambda>a b. xt_CreatedAt b < xt_CreatedAt a) (xd_tasks s)))"

definition stored_output :: "(string \<Rightarrow> string option) \<Rightarrow> observation \<Rightarrow> observation option" where
  "stored_output jb ob =
     map_option (\<lambda>q. ob\<lparr>ob_Output := Some q\<rparr>) (jb (case ob_Output ob of None \<Rightarrow> ''null'' | Some p \<Rightarrow> p))"

definition xdb_ObsInsert :: "(string \<Rightarrow> string option) \<Rightarrow> observation \<Rightarrow> exec_db \<Rightarrow> loop_error option \<times> exec_db" where
  "xdb_ObsInsert jb ob = xdb_exec ''insert execution observation'' (\<lambda>s.
     case stored_output jb ob of None \<Rightarrow> None | Some r \<Rightarrow> Some (s\<lparr>xd_obs := xd_obs s @ [r]\<rparr>))"

definition obs_before :: "observation \<Rightarrow> observation \<Rightarrow> bool" where
  "obs_before a b \<longleftrightarrow> ob_Timestamp a < ob_Timestamp b"

definition obs_of :: "string \<Rightarrow> exec_db \<Rightarrow> observation list" where
  "obs_of tid s = sql_sort obs_before (filter (\<lambda>ob. ob_TaskID ob = tid) (xd_obs s))"

definition xdb_ListByTask :: "string \<Rightarrow> exec_db \<Rightarrow> (loop_error + observation list) \<times> exec_db" where
  "xdb_ListByTask tid = xdb_rows ''list observations'' (obs_of tid)"

definition xdb_CountConsecutiveFailures :: "string \<Rightarrow> exec_db \<Rightarrow> (loop_error + int) \<times> exec_db" where
  "xdb_CountConsecutiveFailures tid s =
     (case xdb_ListByTask tid s of (Inl e, s) \<Rightarrow> (Inl e, s) | (Inr obs, s) \<Rightarrow> (Inr (tail_failures obs), s))"

definition xdb_ops :: "(string \<Rightarrow> string option) \<Rightarrow> exec_db loop_ops" where
  "xdb_ops jb = \<lparr>x_Insert = xdb_Insert jb, x_Get = xdb_Get, x_Update = xdb_Update jb, x_List = xdb_List,
     o_Insert = xdb_ObsInsert jb, o_ListByTask = xdb_ListByTask,
     o_CountConsecutiveFailures = xdb_CountConsecutiveFailures\<rparr>"

section \<open>In memory\<close>

record exec_mem =
  xm_tasks :: "(string \<times> exec_task) list"
  xm_obs :: "observation list"

definition xmem_Insert :: "exec_task \<Rightarrow> exec_mem \<Rightarrow> loop_error option \<times> exec_mem" where
  "xmem_Insert t s = (None, s\<lparr>xm_tasks := AList.update (xt_ID t) t (xm_tasks s)\<rparr>)"

definition xmem_Get :: "string \<Rightarrow> exec_mem \<Rightarrow> (loop_error + exec_task) \<times> exec_mem" where
  "xmem_Get tid s = (case map_of (xm_tasks s) tid of None \<Rightarrow> (Inl ErrLoopTaskNotFound, s) | Some t \<Rightarrow> (Inr t, s))"

definition xmem_Update :: "exec_task \<Rightarrow> exec_mem \<Rightarrow> loop_error option \<times> exec_mem" where
  "xmem_Update t s =
     (case map_of (xm_tasks s) (xt_ID t) of
        None \<Rightarrow> (Some ErrLoopTaskNotFound, s)
      | Some _ \<Rightarrow> (None, s\<lparr>xm_tasks := AList.update (xt_ID t) t (xm_tasks s)\<rparr>))"

text \<open>The limit is tested after a task was added, so one task is always returned.\<close>

definition xmem_List :: "int \<Rightarrow> exec_mem \<Rightarrow> (loop_error + exec_task list) \<times> exec_mem" where
  "xmem_List limit s = (Inr (take (max 1 (nat limit)) (map snd (xm_tasks s))), s)"

definition xmem_ObsInsert :: "observation \<Rightarrow> exec_mem \<Rightarrow> loop_error option \<times> exec_mem" where
  "xmem_ObsInsert ob s = (None, s\<lparr>xm_obs := xm_obs s @ [ob]\<rparr>)"

definition xmem_ListByTask :: "string \<Rightarrow> exec_mem \<Rightarrow> (loop_error + observation list) \<times> exec_mem" where
  "xmem_ListByTask tid s = (Inr (filter (\<lambda>ob. ob_TaskID ob = tid) (xm_obs s)), s)"

definition xmem_CountConsecutiveFailures :: "string \<Rightarrow> exec_mem \<Rightarrow> (loop_error + int) \<times> exec_mem" where
  "xmem_CountConsecutiveFailures tid s = (Inr (tail_failures (filter (\<lambda>ob. ob_TaskID ob = tid) (xm_obs s))), s)"

definition xmem_ops :: "exec_mem loop_ops" where
  "xmem_ops = \<lparr>x_Insert = xmem_Insert, x_Get = xmem_Get, x_Update = xmem_Update, x_List = xmem_List,
     o_Insert = xmem_ObsInsert, o_ListByTask = xmem_ListByTask,
     o_CountConsecutiveFailures = xmem_CountConsecutiveFailures\<rparr>"

section \<open>The contract of the stores\<close>

text \<open>
  What the engine sees: tasks by identifier and the observations of a task in reading order. A
  stored task or observation agrees with what was written in everything but its JSON texts.
\<close>

record loop_view =
  xv_tasks :: "string \<rightharpoonup> exec_task"
  xv_obs :: "string \<Rightarrow> observation list"

definition loop_task_ok :: "exec_task \<Rightarrow> bool" where
  "loop_task_ok t \<longleftrightarrow> 0 \<le> xt_IterationCount t \<and> xt_MaxIterations t = MaxIterations"

definition same_json :: "exec_task \<Rightarrow> exec_task \<Rightarrow> bool" where
  "same_json t t' \<longleftrightarrow> t' = t\<lparr>xt_Plan := xt_Plan t'\<rparr> \<and>
     map (xs_Payload_update (\<lambda>_. None)) (xt_Plan t') = map (xs_Payload_update (\<lambda>_. None)) (xt_Plan t)"

definition same_run :: "exec_task \<Rightarrow> exec_task \<Rightarrow> bool" where
  "same_run t u \<longleftrightarrow> xt_ID t = xt_ID u \<and> xt_OpportunityID t = xt_OpportunityID u \<and> xt_Goal t = xt_Goal u \<and>
     xt_MaxIterations t = xt_MaxIterations u \<and> xt_CreatedAt t = xt_CreatedAt u"

definition wrote_task :: "loop_error option \<Rightarrow> exec_task \<Rightarrow> loop_view \<Rightarrow> loop_view \<Rightarrow> bool" where
  "wrote_task e t v v' \<longleftrightarrow>
     (\<exists>t'. same_json t t' \<and> v' = v\<lparr>xv_tasks := (xv_tasks v)(xt_ID t \<mapsto> t')\<rparr>) \<or> v' = v \<and> e \<noteq> None"

definition appended_obs :: "observation \<Rightarrow> loop_view \<Rightarrow> loop_view \<Rightarrow> bool" where
  "appended_obs ob v v' \<longleftrightarrow> (\<exists>ob'. ob' = ob\<lparr>ob_Output := ob_Output ob'\<rparr> \<and>
     v' = v\<lparr>xv_obs := (xv_obs v)(ob_TaskID ob := xv_obs v (ob_TaskID ob) @ [ob'])\<rparr>)"

locale loop_store =
  fixes ops :: "'s loop_ops" and good :: "'s \<Rightarrow> bool" and healthy :: "'s \<Rightarrow> bool" and view :: "'s \<Rightarrow> loop_view"
    and accepts :: "exec_task \<Rightarrow> bool" and accepts_obs :: "observation \<Rightarrow> bool"
  assumes task_law: "good s \<Longrightarrow> xv_tasks (view s) i = Some t \<Longrightarrow> xt_ID t = i \<and> loop_task_ok t"
    and get_law: "good s \<Longrightarrow> x_Get ops i s = (rg, s') \<Longrightarrow>
      good s' \<and> (healthy s \<longrightarrow> healthy s') \<and> view s' = view s \<and> (\<forall>t. rg = Inr t \<longrightarrow> xv_tasks (view s) i = Some t) \<and>
      (healthy s \<longrightarrow> rg = (case xv_tasks (view s) i of None \<Rightarrow> Inl ErrLoopTaskNotFound | Some t \<Rightarrow> Inr t))"
    and insert_law: "good s \<Longrightarrow> xv_tasks (view s) (xt_ID t) = None \<Longrightarrow> loop_task_ok t \<Longrightarrow> x_Insert ops t s = (e, s') \<Longrightarrow>
      good s' \<and> (healthy s \<longrightarrow> healthy s') \<and> wrote_task e t (view s) (view s') \<and>
      (healthy s \<longrightarrow> accepts t \<longrightarrow> e = None)"
    and update_law: "good s \<Longrightarrow> xv_tasks (view s) (xt_ID t) = Some u \<Longrightarrow> same_run t u \<Longrightarrow> loop_task_ok t \<Longrightarrow>
      x_Update ops t s = (e, s') \<Longrightarrow>
      good s' \<and> (healthy s \<longrightarrow> healthy s') \<and> wrote_task e t (view s) (view s') \<and>
      (healthy s \<longrightarrow> accepts t \<longrightarrow> e = None)"
    and observe_law: "good s \<Longrightarrow> o_Insert ops ob s = (e, s') \<Longrightarrow>
      good s' \<and> (healthy s \<longrightarrow> healthy s') \<and> xv_tasks (view s') = xv_tasks (view s) \<and>
      (healthy s \<longrightarrow> accepts_obs ob \<longrightarrow>
        (\<forall>ob' \<in> set (xv_obs (view s) (ob_TaskID ob)). ob_Timestamp ob' < ob_Timestamp ob) \<longrightarrow>
        appended_obs ob (view s) (view s'))"
    and obs_law: "good s \<Longrightarrow> o_ListByTask ops i s = (ro, s') \<Longrightarrow>
      good s' \<and> (healthy s \<longrightarrow> healthy s') \<and> view s' = view s \<and> (healthy s \<longrightarrow> ro = Inr (xv_obs (view s) i))"
    and failures_law: "good s \<Longrightarrow> o_CountConsecutiveFailures ops i s = (rc, s') \<Longrightarrow>
      good s' \<and> (healthy s \<longrightarrow> healthy s') \<and> view s' = view s \<and>
      (healthy s \<longrightarrow> rc = Inr (tail_failures (xv_obs (view s) i)))"

section \<open>PostgreSQL meets it\<close>

definition xdb_good :: "exec_db \<Rightarrow> bool" where
  "xdb_good s \<longleftrightarrow> keyed xt_ID (xd_tasks s) \<and> list_all loop_task_ok (xd_tasks s)"

definition xdb_healthy :: "exec_db \<Rightarrow> bool" where "xdb_healthy s \<longleftrightarrow> xd_faults s = []"

definition xdb_view :: "exec_db \<Rightarrow> loop_view" where
  "xdb_view s = \<lparr>xv_tasks = row_of xt_ID (xd_tasks s), xv_obs = (\<lambda>i. obs_of i s)\<rparr>"

definition xdb_accepts :: "(string \<Rightarrow> string option) \<Rightarrow> exec_task \<Rightarrow> bool" where
  "xdb_accepts jb t \<longleftrightarrow> plan_marshals (xt_Plan t) \<and> stored_plan jb (xt_Plan t) \<noteq> None \<and> task_int4 t"

definition xdb_accepts_obs :: "(string \<Rightarrow> string option) \<Rightarrow> observation \<Rightarrow> bool" where
  "xdb_accepts_obs jb ob \<longleftrightarrow> stored_output jb ob \<noteq> None"

lemma sql_insert_snoc: "\<not> lt x y \<Longrightarrow> sql_insert lt y (zs @ [x]) = sql_insert lt y zs @ [x]"
  by (induction zs) auto

lemma sql_sort_snoc: "(\<And>y. y \<in> set xs \<Longrightarrow> \<not> lt x y) \<Longrightarrow> sql_sort lt (xs @ [x]) = sql_sort lt xs @ [x]"
  by (induction xs) (auto simp: sql_insert_snoc)

lemma xdb_next_cases: "xdb_next s = (f, s') \<Longrightarrow> xd_tasks s' = xd_tasks s \<and> xd_obs s' = xd_obs s \<and>
    xdb_good s' = xdb_good s \<and> xdb_view s' = xdb_view s \<and> (xdb_healthy s \<longrightarrow> f = NoFault \<and> s' = s)"
  by (auto simp: xdb_next_def xdb_good_def xdb_view_def obs_of_def xdb_healthy_def fun_eq_iff split: list.splits)

lemma xdb_exec_rule:
  assumes "xdb_exec msg stmt s = (e, s')" and "xdb_good s"
    and "\<And>s0 s1. xd_tasks s0 = xd_tasks s \<Longrightarrow> xd_obs s0 = xd_obs s \<Longrightarrow> stmt s0 = Some s1 \<Longrightarrow>
      xdb_good s1 \<and> P (xdb_view s1) \<and> xd_faults s1 = xd_faults s0"
  shows "xdb_good s' \<and> (xdb_healthy s \<longrightarrow> xdb_healthy s') \<and> (P (xdb_view s') \<or> xdb_view s' = xdb_view s \<and> e \<noteq> None) \<and>
    (xdb_healthy s \<longrightarrow> stmt s \<noteq> None \<longrightarrow> e = None)"
proof -
  obtain f s0 where n: "xdb_next s = (f, s0)" by fastforce
  have same: "xdb_good s0" "xdb_view s0 = xdb_view s" "xd_tasks s0 = xd_tasks s" "xd_obs s0 = xd_obs s"
    "xdb_healthy s \<longrightarrow> f = NoFault \<and> s0 = s" using xdb_next_cases [OF n] assms(2) by simp_all
  show ?thesis
  proof (cases "stmt s0")
    case None
    then have "s' = s0" "e \<noteq> None" using assms(1) by (auto simp: xdb_exec_def n Let_def split: fault.splits)
    then show ?thesis using None same by auto
  next
    case (Some s1)
    then have "xdb_good s1" "P (xdb_view s1)" "xd_faults s1 = xd_faults s0" using assms(3) same by blast+
    moreover have "e = None \<and> f = NoFault \<and> s' = s1 \<or> e \<noteq> None \<and> f \<noteq> NoFault \<and> (s' = s0 \<or> s' = s1)"
      using Some assms(1) by (auto simp: xdb_exec_def n Let_def split: fault.splits)
    ultimately show ?thesis using same by (auto simp: xdb_healthy_def)
  qed
qed

lemma xdb_rows_rule:
  assumes "xdb_rows msg q s = (r, s')" and "\<And>s0. xd_tasks s0 = xd_tasks s \<Longrightarrow> xd_obs s0 = xd_obs s \<Longrightarrow> q s0 = q s"
  shows "xdb_good s' = xdb_good s \<and> (xdb_healthy s \<longrightarrow> xdb_healthy s') \<and> xdb_view s' = xdb_view s \<and>
    (xdb_healthy s \<longrightarrow> r = Inr (q s))"
proof -
  obtain f s0 where n: "xdb_next s = (f, s0)" by fastforce
  note c = xdb_next_cases [OF n]
  have "q s0 = q s" using c assms(2) by blast
  then show ?thesis using assms(1) c unfolding xdb_rows_def n by (auto split: fault.splits)
qed

lemma those_map_Some:
  "those (map f xs) = Some ys \<Longrightarrow> (\<And>x y. f x = Some y \<Longrightarrow> g y = h x) \<Longrightarrow> map g ys = map h xs"
  by (induction xs arbitrary: ys) (auto split: option.splits)

lemma stored_plan_json:
  "stored_plan jb plan = Some pl \<Longrightarrow> map (xs_Payload_update (\<lambda>_. None)) pl = map (xs_Payload_update (\<lambda>_. None)) plan"
  unfolding stored_plan_def by (erule those_map_Some) (auto simp: stored_step_def split: option.splits)

lemma updated_row_json:
  "same_run t u \<Longrightarrow> stored_plan jb (xt_Plan t) = Some pl \<Longrightarrow> same_json t (updated_row t pl u)"
  by (cases t; cases u) (auto simp: same_run_def updated_row_def same_json_def stored_plan_json)

lemma xdb_Insert_law:
  assumes "xdb_good s" and "xv_tasks (xdb_view s) (xt_ID t) = None" and "loop_task_ok t" and "xdb_Insert jb t s = (e, s')"
  shows "xdb_good s' \<and> (xdb_healthy s \<longrightarrow> xdb_healthy s') \<and> wrote_task e t (xdb_view s) (xdb_view s') \<and>
    (xdb_healthy s \<longrightarrow> xdb_accepts jb t \<longrightarrow> e = None)"
proof (cases "plan_marshals (xt_Plan t)")
  case True
  let ?stmt = "\<lambda>s. case stored_plan jb (xt_Plan t) of None \<Rightarrow> None | Some pl \<Rightarrow>
    if row_of xt_ID (xd_tasks s) (xt_ID t) = None \<and> task_int4 t
    then Some (s\<lparr>xd_tasks := xd_tasks s @ [t\<lparr>xt_Plan := pl\<rparr>]\<rparr>) else None"
  have new: "row_of xt_ID (xd_tasks s) (xt_ID t) = None" using assms(2) by (simp add: xdb_view_def)
  have run: "xdb_exec ''insert execution task'' ?stmt s = (e, s')"
    using assms(4) True by (simp add: xdb_Insert_def)
  have "xdb_good s1 \<and> (\<exists>t'. same_json t t' \<and> xdb_view s1 = (xdb_view s)\<lparr>xv_tasks := (xv_tasks (xdb_view s))(xt_ID t \<mapsto> t')\<rparr>) \<and>
      xd_faults s1 = xd_faults s0"
    if eq: "xd_tasks s0 = xd_tasks s" "xd_obs s0 = xd_obs s" and st: "?stmt s0 = Some s1" for s0 s1
  proof -
    obtain pl where pl: "stored_plan jb (xt_Plan t) = Some pl" and s1: "s1 = s0\<lparr>xd_tasks := xd_tasks s0 @ [t\<lparr>xt_Plan := pl\<rparr>]\<rparr>"
      using st by (auto split: option.splits if_splits)
    have "same_json t (t\<lparr>xt_Plan := pl\<rparr>)" using stored_plan_json [OF pl] by (simp add: same_json_def)
    moreover have "xdb_view s1 = (xdb_view s)\<lparr>xv_tasks := (xv_tasks (xdb_view s))(xt_ID t \<mapsto> t\<lparr>xt_Plan := pl\<rparr>)\<rparr>"
      using row_of_snoc [of xt_ID "xd_tasks s" "t\<lparr>xt_Plan := pl\<rparr>"] new
      by (simp add: s1 eq xdb_view_def obs_of_def)
    moreover have "xdb_good s1" using assms(1,3) new
      by (simp add: s1 eq xdb_good_def loop_task_ok_def row_of_None_iff keyed_def)
    ultimately show ?thesis by (auto simp: s1)
  qed
  note r = xdb_exec_rule [OF run assms(1) this]
  have "xdb_accepts jb t \<Longrightarrow> ?stmt s \<noteq> None" using new by (auto simp: xdb_accepts_def)
  then show ?thesis using r unfolding wrote_task_def by blast
next
  case False
  then show ?thesis using assms by (auto simp: xdb_Insert_def marshal_plan_error_def wrote_task_def xdb_accepts_def)
qed

lemma xdb_Update_law:
  assumes "xdb_good s" and "xv_tasks (xdb_view s) (xt_ID t) = Some u" and "same_run t u" and "loop_task_ok t"
    and "xdb_Update jb t s = (e, s')"
  shows "xdb_good s' \<and> (xdb_healthy s \<longrightarrow> xdb_healthy s') \<and> wrote_task e t (xdb_view s) (xdb_view s') \<and>
    (xdb_healthy s \<longrightarrow> xdb_accepts jb t \<longrightarrow> e = None)"
proof (cases "plan_marshals (xt_Plan t)")
  case True
  let ?stmt = "\<lambda>s. case stored_plan jb (xt_Plan t) of None \<Rightarrow> None | Some pl \<Rightarrow>
    if int4 (xt_CurrentStep t) \<and> int4 (xt_IterationCount t)
    then Some (s\<lparr>xd_tasks := sql_update (\<lambda>r. xt_ID r = xt_ID t) (updated_row t pl) (xd_tasks s)\<rparr>) else None"
  have old: "row_of xt_ID (xd_tasks s) (xt_ID t) = Some u" using assms(2) by (simp add: xdb_view_def)
  have run: "xdb_exec ''update execution task'' ?stmt s = (e, s')"
    using assms(5) True by (simp add: xdb_Update_def)
  have "xdb_good s1 \<and> (\<exists>t'. same_json t t' \<and> xdb_view s1 = (xdb_view s)\<lparr>xv_tasks := (xv_tasks (xdb_view s))(xt_ID t \<mapsto> t')\<rparr>) \<and>
      xd_faults s1 = xd_faults s0"
    if eq: "xd_tasks s0 = xd_tasks s" "xd_obs s0 = xd_obs s" and st: "?stmt s0 = Some s1" for s0 s1
  proof -
    obtain pl where pl: "stored_plan jb (xt_Plan t) = Some pl"
      and s1: "s1 = s0\<lparr>xd_tasks := sql_update (\<lambda>r. xt_ID r = xt_ID t) (updated_row t pl) (xd_tasks s0)\<rparr>"
      using st by (auto split: option.splits if_splits)
    have "xdb_view s1 = (xdb_view s)\<lparr>xv_tasks := (xv_tasks (xdb_view s))(xt_ID t \<mapsto> updated_row t pl u)\<rparr>"
      by (simp add: s1 eq xdb_view_def obs_of_def row_of_update_key updated_row_def old)
    moreover have "xdb_good s1" using assms(1,4)
      by (auto simp: s1 eq xdb_good_def keyed_def list_all_iff set_sql_update loop_task_ok_def updated_row_def map_sql_update)
    ultimately show ?thesis using updated_row_json [OF assms(3) pl] by (auto simp: s1)
  qed
  note r = xdb_exec_rule [OF run assms(1) this]
  have "xdb_accepts jb t \<Longrightarrow> ?stmt s \<noteq> None" by (auto simp: xdb_accepts_def task_int4_def)
  then show ?thesis using r unfolding wrote_task_def by blast
next
  case False
  then show ?thesis using assms by (auto simp: xdb_Update_def marshal_plan_error_def wrote_task_def xdb_accepts_def)
qed

lemma obs_of_snoc:
  "(\<forall>ob' \<in> set (obs_of (ob_TaskID ob) s). ob_Timestamp ob' < ob_Timestamp ob) \<Longrightarrow> xd_obs s' = xd_obs s @ [ob] \<Longrightarrow>
   obs_of i s' = (if i = ob_TaskID ob then obs_of i s @ [ob] else obs_of i s)"
  using sql_sort_snoc [of "filter (\<lambda>x. ob_TaskID x = i) (xd_obs s)" obs_before ob]
  by (force simp: obs_of_def obs_before_def)

lemma xdb_ObsInsert_law:
  assumes "xdb_good s" and "xdb_ObsInsert jb ob s = (e, s')"
  shows "xdb_good s' \<and> (xdb_healthy s \<longrightarrow> xdb_healthy s') \<and> xv_tasks (xdb_view s') = xv_tasks (xdb_view s) \<and>
    (xdb_healthy s \<longrightarrow> xdb_accepts_obs jb ob \<longrightarrow>
      (\<forall>ob' \<in> set (xv_obs (xdb_view s) (ob_TaskID ob)). ob_Timestamp ob' < ob_Timestamp ob) \<longrightarrow>
      appended_obs ob (xdb_view s) (xdb_view s'))"
proof -
  let ?stmt = "\<lambda>s. case stored_output jb ob of None \<Rightarrow> None | Some r \<Rightarrow> Some (s\<lparr>xd_obs := xd_obs s @ [r]\<rparr>)"
  have run: "xdb_exec ''insert execution observation'' ?stmt s = (e, s')" using assms(2) by (simp add: xdb_ObsInsert_def)
  have step: "xdb_good s1 \<and> xv_tasks (xdb_view s1) = xv_tasks (xdb_view s) \<and> xd_faults s1 = xd_faults s0"
    if "xd_tasks s0 = xd_tasks s" "xd_obs s0 = xd_obs s" "?stmt s0 = Some s1" for s0 s1
    using that assms(1) by (auto simp: xdb_good_def xdb_view_def split: option.splits)
  have "xdb_good s' \<and> (xdb_healthy s \<longrightarrow> xdb_healthy s') \<and>
      (xv_tasks (xdb_view s') = xv_tasks (xdb_view s) \<or> xdb_view s' = xdb_view s \<and> e \<noteq> None) \<and>
      (xdb_healthy s \<longrightarrow> ?stmt s \<noteq> None \<longrightarrow> e = None)"
    by (rule xdb_exec_rule [where P = "\<lambda>v. xv_tasks v = xv_tasks (xdb_view s)", OF run assms(1)]) (erule (2) step)
  then have r: "xdb_good s' \<and> (xdb_healthy s \<longrightarrow> xdb_healthy s') \<and> xv_tasks (xdb_view s') = xv_tasks (xdb_view s)"
    by metis
  have "appended_obs ob (xdb_view s) (xdb_view s')"
    if h: "xdb_healthy s" and a: "xdb_accepts_obs jb ob" and n: "\<forall>ob' \<in> set (xv_obs (xdb_view s) (ob_TaskID ob)). ob_Timestamp ob' < ob_Timestamp ob"
  proof -
    obtain r where r: "stored_output jb ob = Some r" using a by (auto simp: xdb_accepts_obs_def)
    then have ob: "r = ob\<lparr>ob_Output := ob_Output r\<rparr>" by (auto simp: stored_output_def)
    have s': "s' = s\<lparr>xd_obs := xd_obs s @ [r]\<rparr>"
      using run h by (simp add: xdb_exec_def xdb_next_def xdb_healthy_def r)
    have f: "ob_TaskID r = ob_TaskID ob" "ob_Timestamp r = ob_Timestamp ob" by (subst ob, simp)+
    have "obs_of i s' = (if i = ob_TaskID ob then obs_of i s @ [r] else obs_of i s)" for i
      using obs_of_snoc [of r s s' i] n by (simp add: s' f xdb_view_def)
    then show ?thesis using ob by (auto simp: appended_obs_def xdb_view_def s' fun_eq_iff)
  qed
  then show ?thesis using r by blast
qed

interpretation xdb_store: loop_store "xdb_ops jb" xdb_good xdb_healthy xdb_view "xdb_accepts jb" "xdb_accepts_obs jb" for jb
proof (unfold_locales, goal_cases)
  case (1 s i t)
  then show ?case by (auto simp: xdb_view_def xdb_good_def list_all_iff dest: row_of_SomeD)
next
  case (2 s i rg s')
  obtain f s0 where n: "xdb_next s = (f, s0)" by fastforce
  then show ?case using 2 xdb_next_cases [OF n]
    by (auto simp: xdb_ops_def xdb_Get_def xdb_view_def split: if_splits option.splits)
next
  case (3 s t e s')
  then show ?case using xdb_Insert_law [of s t jb e s'] by (simp add: xdb_ops_def)
next
  case (4 s t u e s')
  then show ?case using xdb_Update_law [of s t u jb e s'] by (simp add: xdb_ops_def)
next
  case (5 s ob e s')
  then show ?case using xdb_ObsInsert_law [of s jb ob e s'] by (simp add: xdb_ops_def)
next
  case (6 s i ro s')
  then show ?case using xdb_rows_rule [of "''list observations''" "obs_of i" s ro s']
    by (simp add: xdb_ops_def xdb_ListByTask_def obs_of_def xdb_view_def)
next
  case (7 s i rc s')
  obtain r s0 where r: "xdb_ListByTask i s = (r, s0)" by fastforce
  then show ?case using 7 xdb_rows_rule [of "''list observations''" "obs_of i" s r s0]
    by (auto simp: xdb_ops_def xdb_CountConsecutiveFailures_def xdb_ListByTask_def obs_of_def xdb_view_def split: sum.splits)
qed

section \<open>So does memory\<close>

definition xmem_good :: "exec_mem \<Rightarrow> bool" where
  "xmem_good s \<longleftrightarrow> (\<forall>i t. map_of (xm_tasks s) i = Some t \<longrightarrow> xt_ID t = i \<and> loop_task_ok t)"

definition xmem_view :: "exec_mem \<Rightarrow> loop_view" where
  "xmem_view s = \<lparr>xv_tasks = map_of (xm_tasks s), xv_obs = (\<lambda>i. filter (\<lambda>ob. ob_TaskID ob = i) (xm_obs s))\<rparr>"

lemma same_json_refl [simp]: "same_json t t"
  by (simp add: same_json_def)

interpretation xmem_store: loop_store xmem_ops xmem_good "\<lambda>_. True" xmem_view "\<lambda>_. True" "\<lambda>_. True"
proof (unfold_locales, goal_cases)
  case (5 s ob e s')
  then show ?case by (auto simp: xmem_ops_def xmem_ObsInsert_def xmem_good_def xmem_view_def appended_obs_def fun_eq_iff)
qed (auto simp: xmem_ops_def xmem_good_def xmem_view_def xmem_Get_def xmem_Insert_def xmem_Update_def wrote_task_def
    xmem_ListByTask_def xmem_CountConsecutiveFailures_def update_conv' intro: same_json_refl split: option.splits if_splits)

end
