(* ===== verification/Programs.thy ===== *)
theory Programs
  imports Prelude "HOL-Library.State_Monad"
begin

text \<open>
  Programs that thread a world through many calls, as computations of the library's state monad,
  and a small calculus for them: \<open>wp m Q w\<close> says that running \<open>m\<close> in \<open>w\<close> yields
  a value and a world with \<open>Q\<close>. The rules compute \<open>wp\<close> along the program text, so a
  proof about a long handler is one call of the simplifier over the rules of its parts. Running a
  computation always ends, so \<open>wp\<close> is total correctness.
\<close>

text \<open>
  What the database answers to a query for rows: an error, all the rows, or some of them before the
  connection breaks or a row does not scan.
\<close>

datatype fetch = Query_Fails string | Complete | Breaks_After nat string | Scan_Fails_At nat string

definition wp :: "('w, 'a) state \<Rightarrow> ('a \<Rightarrow> 'w \<Rightarrow> bool) \<Rightarrow> 'w \<Rightarrow> bool" where
  "wp m Q w = (case run_state m w of (a, w') \<Rightarrow> Q a w')"

named_theorems wp_rules \<open>how \<open>wp\<close> moves through a computation\<close>

lemma wp_return [wp_rules]: "wp (State_Monad.return a) Q w = Q a w"
  by (simp add: wp_def)

lemma wp_bind [wp_rules]: "wp (State_Monad.bind m f) Q w = wp m (\<lambda>a. wp (f a) Q) w"
  by (simp add: wp_def split: prod.splits)

lemma wp_if [wp_rules]: "wp (if b then m else n) Q w = (if b then wp m Q w else wp n Q w)"
  by simp

lemma wp_case_option [wp_rules]:
  "wp (case x of None \<Rightarrow> m | Some y \<Rightarrow> n y) Q w = (case x of None \<Rightarrow> wp m Q w | Some y \<Rightarrow> wp (n y) Q w)"
  by (cases x) simp_all

lemma wp_case_sum [wp_rules]:
  "wp (case x of Inl y \<Rightarrow> m y | Inr z \<Rightarrow> n z) Q w = (case x of Inl y \<Rightarrow> wp (m y) Q w | Inr z \<Rightarrow> wp (n z) Q w)"
  by (cases x) simp_all

lemma wp_case_prod [wp_rules]:
  "wp (case x of (a, b) \<Rightarrow> m a b) Q w = (case x of (a, b) \<Rightarrow> wp (m a b) Q w)"
  by (cases x) simp

text \<open>A step given as a function; the theories whose programs have such steps add the rule to the collection.\<close>

lemma wp_State: "wp (State f) Q w = (case f w of (a, w') \<Rightarrow> Q a w')"
  by (simp add: wp_def)

lemma wp_mono: "wp m Q w \<Longrightarrow> (\<And>a w'. Q a w' \<Longrightarrow> R a w') \<Longrightarrow> wp m R w"
  by (auto simp: wp_def split: prod.splits)

lemma wp_conj: "wp m Q w \<Longrightarrow> wp m R w \<Longrightarrow> wp m (\<lambda>a w'. Q a w' \<and> R a w') w"
  by (auto simp: wp_def split: prod.splits)

lemma wp_seq: "wp m P w \<Longrightarrow> (\<And>a w'. P a w' \<Longrightarrow> wp (f a) Q w') \<Longrightarrow> wp (State_Monad.bind m f) Q w"
  unfolding wp_bind by (rule wp_mono)

lemma wp_run: "wp m Q w \<Longrightarrow> run_state m w = (a, w') \<Longrightarrow> Q a w'"
  by (simp add: wp_def)

lemma wpI: "(\<And>a w'. run_state m w = (a, w') \<Longrightarrow> Q a w') \<Longrightarrow> wp m Q w"
  by (auto simp: wp_def split: prod.splits)

lemma wp_fst: "wp m Q w \<Longrightarrow> Q (fst (run_state m w)) (snd (run_state m w))"
  by (simp add: wp_def split: prod.splits)

end
