(* ===== verification/Exec_Loop.thy ===== *)
theory Exec_Loop
  imports Exec_Store Programs
begin

text \<open>
  The bounded execution loop: \<open>planner.go\<close>, \<open>observer.go\<close>, \<open>executor.go\<close> and
  \<open>engine.go\<close> of \<open>src/internal/agent/execution_loop\<close>, as computations of the state monad
  over a world that holds the stores, the external calls made and the audit log. What the program
  reads from its surroundings (clock, identifiers, governance mode, objective signal, the reply of an
  external action) is a function of the number of reads made so far, so that it may change between
  any two reads.
\<close>

section \<open>The world\<close>

record executor_result =
  er_Success :: bool
  er_Output :: "string option"
  er_Error :: string
  er_RequiresReview :: bool
  er_DryRun :: bool
  er_ActionID :: string

record loop_deps =
  ld_now :: "nat \<Rightarrow> time"
  ld_uuid :: "nat \<Rightarrow> string"
  ld_governance :: "(nat \<Rightarrow> string) option"
  ld_objective :: "((nat \<Rightarrow> string) \<times> (nat \<Rightarrow> f64)) option"
  ld_extActions :: "(nat \<Rightarrow> string \<Rightarrow> string \<Rightarrow> string \<Rightarrow> string + executor_result) option"
  ld_auditor :: bool

text \<open>A call is recorded with the number of the read at which it was made.\<close>

type_synonym ext_call = "nat \<times> string \<times> string \<times> string"

record 's loop_world =
  lw_store :: 's
  lw_tick :: nat
  lw_calls :: "ext_call list"
  lw_audit :: "(string \<times> string) list"

definition tick :: "('s loop_world, nat) state" where
  "tick = State (\<lambda>w. (lw_tick w, w\<lparr>lw_tick := Suc (lw_tick w)\<rparr>))"

definition stored :: "('s \<Rightarrow> 'r \<times> 's) \<Rightarrow> ('s loop_world, 'r) state" where
  "stored f = State (\<lambda>w. let (r, s) = f (lw_store w) in (r, w\<lparr>lw_store := s\<rparr>))"

definition called :: "ext_call \<Rightarrow> ('s loop_world, unit) state" where
  "called c = State (\<lambda>w. ((), w\<lparr>lw_calls := lw_calls w @ [c]\<rparr>))"

definition loop_auditEvent :: "loop_deps \<Rightarrow> string \<Rightarrow> string \<Rightarrow> ('s loop_world, unit) state" where
  "loop_auditEvent deps ev tid =
     State (\<lambda>w. ((), if ld_auditor deps then w\<lparr>lw_audit := lw_audit w @ [(ev, tid)]\<rparr> else w))"

definition nowUTC :: "loop_deps \<Rightarrow> ('s loop_world, time) state" where
  "nowUTC deps = do { n \<leftarrow> tick; State_Monad.return (ld_now deps n) }"

definition newUUID :: "loop_deps \<Rightarrow> ('s loop_world, string) state" where
  "newUUID deps = do { n \<leftarrow> tick; State_Monad.return (ld_uuid deps n) }"

section \<open>Planner\<close>

record planner_input =
  pi_Goal :: string
  pi_OpportunityID :: string
  pi_IterationCount :: int
  pi_AvailableTools :: "string list"
  pi_MaxSteps :: int
  pi_PreviousErrors :: "string list"

record planner_step =
  ps_Description :: string
  ps_Tool :: string
  ps_Payload :: "string option"

definition NewPlanner :: "string list \<Rightarrow> string list" where
  "NewPlanner allowedTools = (if allowedTools = [] then [''external_action''] else allowedTools)"

definition goal_payload :: "string \<Rightarrow> string \<Rightarrow> string" where
  "goal_payload goal opp = json_object [(''goal'', goal), (''opportunity_id'', opp)]"

text \<open>The step limit of the input is computed and not used: the plan has one step.\<close>

definition GeneratePlan ::
  "loop_deps \<Rightarrow> string list \<Rightarrow> planner_input \<Rightarrow> ('s loop_world, string + exec_step list) state"
where
  "GeneratePlan deps allowedTools inp =
     (if pi_Goal inp = '''' then State_Monad.return (Inl ''planner: goal is required'')
      else do {
        uid \<leftarrow> newUUID deps;
        State_Monad.return (Inr
          [\<lparr>xs_ID = uid, xs_Description = ''Execute goal: '' @ pi_Goal inp,
            xs_Tool = (case allowedTools of [] \<Rightarrow> ''external_action'' | t # _ \<Rightarrow> t),
            xs_Payload = Some (goal_payload (pi_Goal inp) (pi_OpportunityID inp)),
            xs_Status = StepStatusPending, xs_ResultRef = '''', xs_AttemptCount = 0\<rparr>])
      })"

definition isToolAllowed :: "string list \<Rightarrow> string \<Rightarrow> bool" where
  "isToolAllowed allowedTools tool \<longleftrightarrow> tool \<in> set allowedTools"

fun convert_steps ::
  "loop_deps \<Rightarrow> string list \<Rightarrow> planner_step list \<Rightarrow> ('s loop_world, string + exec_step list) state"
where
  "convert_steps deps allowedTools [] = State_Monad.return (Inr [])"
| "convert_steps deps allowedTools (p # ps) =
     (if \<not> isToolAllowed allowedTools (ps_Tool p)
      then State_Monad.return (Inl (''planner: tool '' @ go_quote (ps_Tool p) @ '' is not allowed''))
      else do {
        uid \<leftarrow> newUUID deps;
        r \<leftarrow> convert_steps deps allowedTools ps;
        State_Monad.return (case r of Inl e \<Rightarrow> Inl e
          | Inr sts \<Rightarrow> Inr (\<lparr>xs_ID = uid, xs_Description = ps_Description p, xs_Tool = ps_Tool p,
              xs_Payload = ps_Payload p, xs_Status = StepStatusPending, xs_ResultRef = '''', xs_AttemptCount = 0\<rparr> # sts))
      })"

definition GeneratePlanFromOutput ::
  "loop_deps \<Rightarrow> string list \<Rightarrow> planner_step list \<Rightarrow> ('s loop_world, string + exec_step list) state"
where
  "GeneratePlanFromOutput deps allowedTools ps =
     (if ps = [] then State_Monad.return (Inl ''planner generated empty plan'')
      else if MaxStepsPerPlan < int (length ps) then State_Monad.return (Inl ''plan exceeds maximum steps'')
      else convert_steps deps allowedTools ps)"

definition AdaptPlan :: "exec_step list \<Rightarrow> string \<Rightarrow> string \<Rightarrow> exec_step list" where
  "AdaptPlan steps failedStepID errMsg =
     map (\<lambda>st. if xs_ID st = failedStepID
        then let n = xs_AttemptCount st + 1 in
             st\<lparr>xs_AttemptCount := n, xs_Status := (if MaxRetriesPerStep \<le> n then StepStatusBlocked else StepStatusPending)\<rparr>
        else st) steps"

section \<open>Observer\<close>

definition ShouldAbort :: "'s loop_ops \<Rightarrow> string \<Rightarrow> ('s loop_world, string option) state" where
  "ShouldAbort ops tid = do {
     r \<leftarrow> stored (o_CountConsecutiveFailures ops tid);
     State_Monad.return (case r of
         Inl _ \<Rightarrow> None
       | Inr n \<Rightarrow> if MaxConsecFailures \<le> n then Some ''consecutive failures exceeded threshold'' else None)
   }"

text \<open>The scan over the observations: the last error of the step and how often it was seen in a row.\<close>

fun same_error_run :: "string \<Rightarrow> observation list \<Rightarrow> string \<times> nat \<Rightarrow> string \<times> nat" where
  "same_error_run stepID [] acc = acc"
| "same_error_run stepID (ob # obs) (lastErr, sameCount) =
     same_error_run stepID obs
       (if ob_StepID ob \<noteq> stepID \<or> ob_Success ob then (lastErr, sameCount)
        else (ob_Error ob, if ob_Error ob = lastErr \<and> lastErr \<noteq> '''' then Suc sameCount else 1))"

definition IsStepBlocked :: "'s loop_ops \<Rightarrow> string \<Rightarrow> string \<Rightarrow> ('s loop_world, bool) state" where
  "IsStepBlocked ops tid stepID = do {
     r \<leftarrow> stored (o_ListByTask ops tid);
     State_Monad.return (case r of Inl _ \<Rightarrow> False | Inr obs \<Rightarrow> 2 \<le> snd (same_error_run stepID obs ('''', 0)))
   }"

definition DetectNoProgress :: "'s loop_ops \<Rightarrow> string \<Rightarrow> nat \<Rightarrow> ('s loop_world, bool) state" where
  "DetectNoProgress ops tid window = do {
     r \<leftarrow> stored (o_ListByTask ops tid);
     State_Monad.return (case r of Inl _ \<Rightarrow> False
       | Inr obs \<Rightarrow> window \<le> length obs \<and> (\<forall>ob \<in> set (drop (length obs - window) obs). \<not> ob_Success ob))
   }"

section \<open>Executor\<close>

definition failed_step :: "string \<Rightarrow> executor_result" where
  "failed_step err = \<lparr>er_Success = False, er_Output = None, er_Error = err, er_RequiresReview = False,
     er_DryRun = False, er_ActionID = ''''\<rparr>"

definition mode_verdict :: "string \<Rightarrow> executor_result option" where
  "mode_verdict mode =
     (if mode = ''frozen'' \<or> mode = ''rollback_only''
      then Some (failed_step (''execution blocked: governance mode is '' @ mode))
      else if mode = ''safe_hold''
      then Some ((failed_step ''execution paused: governance mode is safe_hold, requires review'')\<lparr>er_RequiresReview := True\<rparr>)
      else None)"

definition executor_Execute :: "loop_deps \<Rightarrow> exec_step \<Rightarrow> string \<Rightarrow> ('s loop_world, executor_result) state" where
  "executor_Execute deps step opp = do {
     verdict \<leftarrow> (case ld_governance deps of
         None \<Rightarrow> State_Monad.return None
       | Some mode \<Rightarrow> do { n \<leftarrow> tick; State_Monad.return (mode_verdict (mode n)) });
     case verdict of
       Some r \<Rightarrow> State_Monad.return r
     | None \<Rightarrow>
         if xs_Tool step = '''' then State_Monad.return (failed_step ''step has no tool specified'')
         else case ld_extActions deps of
           None \<Rightarrow> State_Monad.return (failed_step ''external actions provider not available'')
         | Some createAndExecute \<Rightarrow> do {
             n \<leftarrow> tick;
             let payload = (case xs_Payload step of None \<Rightarrow> ''{}'' | Some p \<Rightarrow> p);
             _ \<leftarrow> called (n, xs_Tool step, payload, opp);
             State_Monad.return (case createAndExecute n (xs_Tool step) payload opp of
                 Inl err \<Rightarrow> failed_step err | Inr r \<Rightarrow> r)
           }
   }"

section \<open>Engine\<close>

definition loop_new_task :: "string \<Rightarrow> string \<Rightarrow> string \<Rightarrow> time \<Rightarrow> exec_task" where
  "loop_new_task uid opportunityID goal now =
     \<lparr>xt_ID = uid, xt_OpportunityID = opportunityID, xt_Goal = goal, xt_Status = LoopPending, xt_Plan = [],
      xt_CurrentStep = 0, xt_IterationCount = 0, xt_MaxIterations = MaxIterations, xt_AbortReason = '''',
      xt_CreatedAt = now, xt_UpdatedAt = now\<rparr>"

definition loop_CreateTask ::
  "'s loop_ops \<Rightarrow> loop_deps \<Rightarrow> string \<Rightarrow> string \<Rightarrow> ('s loop_world, loop_error + exec_task) state"
where
  "loop_CreateTask ops deps opportunityID goal = do {
     now \<leftarrow> nowUTC deps;
     uid \<leftarrow> newUUID deps;
     let task = loop_new_task uid opportunityID goal now;
     e \<leftarrow> stored (x_Insert ops task);
     case e of
       Some err \<Rightarrow> State_Monad.return (Inl (ErrPrefixed ''create task'' err))
     | None \<Rightarrow> do {
         _ \<leftarrow> loop_auditEvent deps ''execution.task_created'' uid;
         State_Monad.return (Inr task)
       }
   }"

definition loop_GetTask :: "'s loop_ops \<Rightarrow> string \<Rightarrow> ('s loop_world, loop_error + exec_task) state" where
  "loop_GetTask ops tid = stored (x_Get ops tid)"

definition loop_ListTasks :: "'s loop_ops \<Rightarrow> int \<Rightarrow> ('s loop_world, loop_error + exec_task list) state" where
  "loop_ListTasks ops limit = stored (x_List ops limit)"

definition AbortTask :: "'s loop_ops \<Rightarrow> loop_deps \<Rightarrow> string \<Rightarrow> ('s loop_world, loop_error + exec_task) state" where
  "AbortTask ops deps tid = do {
     r \<leftarrow> stored (x_Get ops tid);
     case r of
       Inl e \<Rightarrow> State_Monad.return (Inl e)
     | Inr task \<Rightarrow>
         if \<not> ValidateTaskTransition (xt_Status task) LoopAborted
         then State_Monad.return (Inl (ErrSuffixed ErrLoopInvalidTransition (''cannot abort from '' @ xt_Status task)))
         else do {
           now \<leftarrow> nowUTC deps;
           let task = task\<lparr>xt_Status := LoopAborted, xt_AbortReason := ''manual abort'', xt_UpdatedAt := now\<rparr>;
           e \<leftarrow> stored (x_Update ops task);
           case e of
             Some err \<Rightarrow> State_Monad.return (Inl (ErrPrefixed ''abort task'' err))
           | None \<Rightarrow> do {
               _ \<leftarrow> loop_auditEvent deps ''execution.task_aborted'' tid;
               State_Monad.return (Inr task)
             }
         }
   }"

type_synonym loop_result = "exec_task \<times> loop_error option"

definition finish_task ::
  "'s loop_ops \<Rightarrow> loop_deps \<Rightarrow> string \<Rightarrow> string \<Rightarrow> exec_task \<Rightarrow> ('s loop_world, loop_result) state"
where
  "finish_task ops deps msg ev task = do {
     now \<leftarrow> nowUTC deps;
     let task = task\<lparr>xt_UpdatedAt := now\<rparr>;
     e \<leftarrow> stored (x_Update ops task);
     case e of
       Some err \<Rightarrow> State_Monad.return (task, Some (ErrPrefixed msg err))
     | None \<Rightarrow> do {
         _ \<leftarrow> loop_auditEvent deps ev (xt_ID task);
         State_Monad.return (task, None)
       }
   }"

definition abortTask :: "'s loop_ops \<Rightarrow> loop_deps \<Rightarrow> exec_task \<Rightarrow> string \<Rightarrow> ('s loop_world, loop_result) state" where
  "abortTask ops deps task reason = finish_task ops deps ''abort task'' ''execution.task_aborted''
     (task\<lparr>xt_Status := LoopAborted, xt_AbortReason := reason\<rparr>)"

definition completeTask :: "'s loop_ops \<Rightarrow> loop_deps \<Rightarrow> exec_task \<Rightarrow> ('s loop_world, loop_result) state" where
  "completeTask ops deps task = finish_task ops deps ''complete task'' ''execution.task_completed''
     (task\<lparr>xt_Status := LoopCompleted\<rparr>)"

fun pending_from :: "nat \<Rightarrow> exec_step list \<Rightarrow> (exec_step \<times> nat) option" where
  "pending_from i [] = None"
| "pending_from i (st # sts) = (if xs_Status st = StepStatusPending then Some (st, i) else pending_from (Suc i) sts)"

definition getNextPendingStep :: "exec_task \<Rightarrow> (exec_step \<times> nat) option" where
  "getNextPendingStep task = pending_from 0 (xt_Plan task)"

definition allStepsTerminal :: "exec_step list \<Rightarrow> bool" where
  "allStepsTerminal = list_all (\<lambda>st. xs_Status st \<noteq> StepStatusPending)"

definition goalSatisfied :: "exec_task \<Rightarrow> bool" where
  "goalSatisfied task \<longleftrightarrow> xt_Plan task \<noteq> [] \<and>
     list_all (\<lambda>st. xs_Status st \<noteq> StepStatusPending \<and> xs_Status st \<noteq> StepStatusPendingReview) (xt_Plan task) \<and>
     list_ex (\<lambda>st. xs_Status st = StepStatusExecuted) (xt_Plan task)"

text \<open>Setting the time and storing the task, where the code ignores the error.\<close>

definition save_task :: "'s loop_ops \<Rightarrow> loop_deps \<Rightarrow> exec_task \<Rightarrow> ('s loop_world, exec_task) state" where
  "save_task ops deps task = do {
     now \<leftarrow> nowUTC deps;
     let task = task\<lparr>xt_UpdatedAt := now\<rparr>;
     _ \<leftarrow> stored (x_Update ops task);
     State_Monad.return task
   }"

definition penalty_threshold :: f64 where "penalty_threshold = rnd (5 / 100)"

definition objective_penalty :: "loop_deps \<Rightarrow> ('s loop_world, string option) state" where
  "objective_penalty deps =
     (case ld_objective deps of
        None \<Rightarrow> State_Monad.return None
      | Some (sigType, sigStrength) \<Rightarrow> do {
          n \<leftarrow> tick;
          k \<leftarrow> tick;
          State_Monad.return
            (if sigType n = ''penalty'' \<and> flt penalty_threshold (sigStrength k)
             then Some (''objective penalty signal: strength='' @ fmt_f2 (sigStrength k)) else None)
        })"

text \<open>The checks at the top of an iteration: the reason to abort, if there is one.\<close>

definition loop_checks ::
  "'s loop_ops \<Rightarrow> loop_deps \<Rightarrow> time \<Rightarrow> exec_task \<Rightarrow> ('s loop_world, string option) state"
where
  "loop_checks ops deps deadline task = do {
     now \<leftarrow> nowUTC deps;
     if deadline < now then State_Monad.return (Some ''execution time exceeded'')
     else do {
       penalty \<leftarrow> objective_penalty deps;
       case penalty of
         Some reason \<Rightarrow> State_Monad.return (Some reason)
       | None \<Rightarrow> ShouldAbort ops (xt_ID task)
     }
   }"

text \<open>Planning: None where no plan could be generated.\<close>

definition loop_plan :: "loop_deps \<Rightarrow> exec_task \<Rightarrow> ('s loop_world, exec_task option) state" where
  "loop_plan deps task =
     (if xt_Plan task = [] \<or> allStepsTerminal (xt_Plan task)
      then do {
        r \<leftarrow> GeneratePlan deps (NewPlanner [''external_action''])
               \<lparr>pi_Goal = xt_Goal task, pi_OpportunityID = xt_OpportunityID task, pi_IterationCount = xt_IterationCount task,
                pi_AvailableTools = [''external_action''], pi_MaxSteps = MaxStepsPerPlan, pi_PreviousErrors = []\<rparr>;
        case r of
          Inl _ \<Rightarrow> State_Monad.return None
        | Inr plan \<Rightarrow> do {
            _ \<leftarrow> loop_auditEvent deps ''execution.plan_generated'' (xt_ID task);
            State_Monad.return (Some (task\<lparr>xt_Plan := plan, xt_CurrentStep := 0\<rparr>))
          }
      }
      else State_Monad.return (Some task))"

text \<open>Reflecting a result in the plan, with the audit event it gives.\<close>

definition step_outcome :: "executor_result \<Rightarrow> exec_step \<Rightarrow> exec_step" where
  "step_outcome r st =
     (if er_RequiresReview r
      then st\<lparr>xs_Status := StepStatusPendingReview, xs_AttemptCount := xs_AttemptCount st + 1\<rparr>
      else if er_Success r then st\<lparr>xs_Status := StepStatusExecuted, xs_ResultRef := er_ActionID r\<rparr>
      else st\<lparr>xs_Status := StepStatusFailed, xs_AttemptCount := xs_AttemptCount st + 1\<rparr>)"

definition reflect_result :: "executor_result \<Rightarrow> nat \<Rightarrow> exec_step \<Rightarrow> exec_step list \<Rightarrow> exec_step list" where
  "reflect_result r i step plan =
     (let plan = plan[i := step_outcome r (plan ! i)] in
      if er_RequiresReview r \<or> er_Success r then plan else AdaptPlan plan (xs_ID step) (er_Error r))"

definition reflect_event :: "executor_result \<Rightarrow> string" where
  "reflect_event r = (if er_RequiresReview r \<or> er_Success r then ''execution.step_executed'' else ''execution.step_failed'')"

type_synonym loop_progress = "loop_result + exec_task"

text \<open>Executing a step, observing, reflecting, and completing the task when its goal is satisfied.\<close>

definition execute_step ::
  "'s loop_ops \<Rightarrow> loop_deps \<Rightarrow> exec_task \<Rightarrow> exec_step \<Rightarrow> nat \<Rightarrow> ('s loop_world, loop_progress) state"
where
  "execute_step ops deps task step i = do {
     r \<leftarrow> executor_Execute deps step (xt_OpportunityID task);
     now \<leftarrow> nowUTC deps;
     _ \<leftarrow> stored (o_Insert ops \<lparr>ob_StepID = xs_ID step, ob_TaskID = xt_ID task, ob_Success = er_Success r,
            ob_Output = er_Output r, ob_Error = er_Error r, ob_Timestamp = now\<rparr>);
     _ \<leftarrow> loop_auditEvent deps (reflect_event r) (xt_ID task);
     task \<leftarrow> save_task ops deps (task\<lparr>xt_Plan := reflect_result r i step (xt_Plan task)\<rparr>);
     if goalSatisfied task
     then do { res \<leftarrow> completeTask ops deps task; State_Monad.return (Inl res) }
     else State_Monad.return (Inr task)
   }"

definition loop_step ::
  "'s loop_ops \<Rightarrow> loop_deps \<Rightarrow> exec_task \<Rightarrow> ('s loop_world, loop_progress) state"
where
  "loop_step ops deps task =
     (case getNextPendingStep task of
        None \<Rightarrow>
          if goalSatisfied task
          then do { res \<leftarrow> completeTask ops deps task; State_Monad.return (Inl res) }
          else do { task \<leftarrow> save_task ops deps (task\<lparr>xt_Plan := []\<rparr>); State_Monad.return (Inr task) }
      | Some (step, i) \<Rightarrow> do {
          let task = task\<lparr>xt_CurrentStep := int i\<rparr>;
          blocked \<leftarrow> IsStepBlocked ops (xt_ID task) (xs_ID step);
          if blocked
          then do {
            task \<leftarrow> save_task ops deps
              (task\<lparr>xt_Plan := (xt_Plan task)[i := (xt_Plan task ! i)\<lparr>xs_Status := StepStatusBlocked\<rparr>]\<rparr>);
            State_Monad.return (Inr task)
          }
          else execute_step ops deps task step i
        })"

definition loop_iteration ::
  "'s loop_ops \<Rightarrow> loop_deps \<Rightarrow> time \<Rightarrow> exec_task \<Rightarrow> ('s loop_world, loop_progress) state"
where
  "loop_iteration ops deps deadline task = do {
     stop \<leftarrow> loop_checks ops deps deadline task;
     case stop of
       Some reason \<Rightarrow> do { res \<leftarrow> abortTask ops deps task reason; State_Monad.return (Inl res) }
     | None \<Rightarrow> do {
         let task = task\<lparr>xt_IterationCount := xt_IterationCount task + 1\<rparr>;
         planned \<leftarrow> loop_plan deps task;
         case planned of
           None \<Rightarrow> do { task \<leftarrow> save_task ops deps task; State_Monad.return (Inr task) }
         | Some task \<Rightarrow> loop_step ops deps task
       }
   }"

text \<open>
  The loop by the number of iterations left; \<open>loop_unfold\<close> below is the loop as it is written,
  with its condition on the iteration count.
\<close>

primrec iterate ::
  "'s loop_ops \<Rightarrow> loop_deps \<Rightarrow> time \<Rightarrow> nat \<Rightarrow> exec_task \<Rightarrow> ('s loop_world, loop_result) state"
where
  "iterate ops deps deadline 0 task = abortTask ops deps task ''maximum iterations reached''"
| "iterate ops deps deadline (Suc n) task = do {
     r \<leftarrow> loop_iteration ops deps deadline task;
     case r of Inl res \<Rightarrow> State_Monad.return res | Inr task \<Rightarrow> iterate ops deps deadline n task
   }"

definition main_loop ::
  "'s loop_ops \<Rightarrow> loop_deps \<Rightarrow> time \<Rightarrow> exec_task \<Rightarrow> ('s loop_world, loop_result) state"
where
  "main_loop ops deps deadline task =
     iterate ops deps deadline (nat (xt_MaxIterations task - xt_IterationCount task)) task"

definition start_task :: "'s loop_ops \<Rightarrow> loop_deps \<Rightarrow> exec_task \<Rightarrow> ('s loop_world, loop_progress) state" where
  "start_task ops deps task =
     (if xt_Status task \<noteq> LoopPending then State_Monad.return (Inr task)
      else if \<not> ValidateTaskTransition (xt_Status task) LoopRunning
      then State_Monad.return (Inl (task, Some ErrLoopInvalidTransition))
      else do {
        now \<leftarrow> nowUTC deps;
        let task = task\<lparr>xt_Status := LoopRunning, xt_UpdatedAt := now\<rparr>;
        e \<leftarrow> stored (x_Update ops task);
        State_Monad.return (case e of
            Some err \<Rightarrow> Inl (task, Some (ErrPrefixed ''transition to running'' err))
          | None \<Rightarrow> Inr task)
      })"

definition run_started :: "'s loop_ops \<Rightarrow> loop_deps \<Rightarrow> exec_task \<Rightarrow> ('s loop_world, loop_result) state" where
  "run_started ops deps task = do {
     gate \<leftarrow> (case ld_governance deps of
         None \<Rightarrow> State_Monad.return None
       | Some mode \<Rightarrow> do {
           n \<leftarrow> tick;
           State_Monad.return (if mode n = ''frozen'' \<or> mode n = ''rollback_only'' then Some (mode n) else None)
         });
     case gate of
       Some mode \<Rightarrow> abortTask ops deps task (''governance mode is '' @ mode)
     | None \<Rightarrow> do {
         now \<leftarrow> nowUTC deps;
         main_loop ops deps (now + MaxExecutionTimeSec * Second) task
       }
   }"

definition RunLoop :: "'s loop_ops \<Rightarrow> loop_deps \<Rightarrow> string \<Rightarrow> ('s loop_world, loop_result) state" where
  "RunLoop ops deps tid = do {
     r \<leftarrow> stored (x_Get ops tid);
     case r of
       Inl e \<Rightarrow> State_Monad.return (zero_task, Some e)
     | Inr task \<Rightarrow>
         if xt_Status task \<noteq> LoopPending \<and> xt_Status task \<noteq> LoopRunning
         then State_Monad.return (task, Some (ErrSuffixed ErrLoopInvalidTransition (''task is '' @ xt_Status task)))
         else do {
           started \<leftarrow> start_task ops deps task;
           case started of Inl res \<Rightarrow> State_Monad.return res | Inr task \<Rightarrow> run_started ops deps task
         }
   }"

section \<open>The bridge to the task orchestrator\<close>

text \<open>The execution identifier, the terminal status and the error of an outcome.\<close>

definition CreateAndRun ::
  "'s loop_ops \<Rightarrow> loop_deps \<Rightarrow> string \<Rightarrow> ('s loop_world, string + string \<times> string \<times> string) state"
where
  "CreateAndRun ops deps goal = do {
     r \<leftarrow> loop_CreateTask ops deps '''' goal;
     case r of
       Inl e \<Rightarrow> State_Monad.return (Inl (loop_error_text e))
     | Inr task \<Rightarrow> do {
         res \<leftarrow> RunLoop ops deps (xt_ID task);
         let st = xt_Status (fst res);
         State_Monad.return (Inr (case snd res of
             None \<Rightarrow> (xt_ID task, st, '''')
           | Some e \<Rightarrow> (xt_ID task, if st = '''' then ''failed'' else st, loop_error_text e)))
       }
   }"

section \<open>The rules of the calculus\<close>

lemma wp_tick [wp_rules]: "wp tick Q w = Q (lw_tick w) (w\<lparr>lw_tick := Suc (lw_tick w)\<rparr>)"
  by (simp add: wp_def tick_def)

lemma wp_stored [wp_rules]:
  "wp (stored f) Q w = (case f (lw_store w) of (r, s) \<Rightarrow> Q r (w\<lparr>lw_store := s\<rparr>))"
  by (simp add: wp_def stored_def Let_def split: prod.splits)

lemma wp_called [wp_rules]: "wp (called c) Q w = Q () (w\<lparr>lw_calls := lw_calls w @ [c]\<rparr>)"
  by (simp add: wp_def called_def)

lemma wp_loop_auditEvent [wp_rules]:
  "wp (loop_auditEvent deps ev tid) Q w = Q () (if ld_auditor deps then w\<lparr>lw_audit := lw_audit w @ [(ev, tid)]\<rparr> else w)"
  by (simp add: wp_def loop_auditEvent_def)

lemma wp_nowUTC [wp_rules]: "wp (nowUTC deps) Q w = Q (ld_now deps (lw_tick w)) (w\<lparr>lw_tick := Suc (lw_tick w)\<rparr>)"
  by (simp add: nowUTC_def wp_rules)

lemma wp_newUUID [wp_rules]: "wp (newUUID deps) Q w = Q (ld_uuid deps (lw_tick w)) (w\<lparr>lw_tick := Suc (lw_tick w)\<rparr>)"
  by (simp add: newUUID_def wp_rules)

section \<open>What every run keeps\<close>

text \<open>
  The calls made between two worlds: at most \<open>k\<close>, none of them right after a read of the
  governance mode that forbids execution.
\<close>

definition permitted :: "loop_deps \<Rightarrow> ext_call \<Rightarrow> bool" where
  "permitted deps c \<longleftrightarrow>
     (case ld_governance deps of None \<Rightarrow> True
      | Some mode \<Rightarrow> 0 < fst c \<and> mode (fst c - 1) \<notin> {''frozen'', ''rollback_only'', ''safe_hold''})"

definition calls_within :: "loop_deps \<Rightarrow> nat \<Rightarrow> 's loop_world \<Rightarrow> 's loop_world \<Rightarrow> bool" where
  "calls_within deps k w w' \<longleftrightarrow>
     (\<exists>cs. lw_calls w' = lw_calls w @ cs \<and> length cs \<le> k \<and> list_all (permitted deps) cs)"

lemma calls_within_refl [simp]: "calls_within deps k w w"
  by (simp add: calls_within_def)

lemma calls_within_same: "lw_calls w' = lw_calls w \<Longrightarrow> calls_within deps k w w'"
  by (simp add: calls_within_def)

lemma calls_within_eq: "lw_calls w' = lw_calls w \<Longrightarrow> calls_within deps k w' v = calls_within deps k w v"
  by (simp add: calls_within_def)

lemma calls_within_trans:
  assumes "calls_within deps k w w'" and "calls_within deps l w' w''"
  shows "calls_within deps (k + l) w w''"
proof -
  obtain cs ds where "lw_calls w' = lw_calls w @ cs" "length cs \<le> k" "list_all (permitted deps) cs"
    "lw_calls w'' = lw_calls w' @ ds" "length ds \<le> l" "list_all (permitted deps) ds"
    using assms by (auto simp: calls_within_def)
  then show ?thesis unfolding calls_within_def by (intro exI [of _ "cs @ ds"]) auto
qed

lemma calls_within_mono: "calls_within deps k w w' \<Longrightarrow> k \<le> l \<Longrightarrow> calls_within deps l w w'"
  by (auto simp: calls_within_def)

text \<open>Computations that make no call.\<close>

definition quiet :: "('s loop_world, 'a) state \<Rightarrow> bool" where
  "quiet m \<longleftrightarrow> (\<forall>w. lw_calls (snd (run_state m w)) = lw_calls w)"

lemma quiet_wp: "quiet m \<Longrightarrow> wp m (\<lambda>_ w'. lw_calls w' = lw_calls w) w"
  by (simp add: quiet_def wp_def split: prod.splits) (metis snd_conv)

lemma quietI: "(\<And>w. wp m (\<lambda>_ w'. lw_calls w' = lw_calls w) w) \<Longrightarrow> quiet m"
  by (simp add: quiet_def wp_def case_prod_beta)

lemma quiet_bind: "quiet m \<Longrightarrow> (\<And>a. quiet (f a)) \<Longrightarrow> quiet (State_Monad.bind m f)"
  by (rule quietI, simp add: wp_bind, rule wp_mono [OF quiet_wp], assumption)
    (metis (mono_tags, lifting) quiet_wp wp_mono)

lemma quiet_basic [simp]:
  "quiet (State_Monad.return a)" "quiet tick" "quiet (stored f)" "quiet (loop_auditEvent deps ev tid)"
  "quiet (nowUTC deps)" "quiet (newUUID deps)"
  by (auto intro!: quietI simp: wp_rules split: prod.splits)

lemma quiet_save [simp]: "quiet (save_task ops deps t)"
  unfolding save_task_def Let_def by (intro quiet_bind) simp_all

lemma quiet_finish [simp]: "quiet (finish_task ops deps msg ev t)"
  unfolding finish_task_def Let_def by (intro quiet_bind) (auto intro!: quiet_bind split: option.split)

lemma quiet_checks [simp]: "quiet (loop_checks ops deps deadline t)"
  unfolding loop_checks_def objective_penalty_def ShouldAbort_def
  by (auto intro!: quiet_bind split: option.split)

lemma quiet_plan [simp]: "quiet (loop_plan deps t)"
  unfolding loop_plan_def GeneratePlan_def by (auto intro!: quiet_bind split: sum.split)

lemma quiet_blocked [simp]: "quiet (IsStepBlocked ops tid sid)"
  unfolding IsStepBlocked_def by (intro quiet_bind) simp_all

lemma executor_calls: "wp (executor_Execute deps st opp) (\<lambda>r w'. calls_within deps 1 w w' \<and> lw_store w' = lw_store w) w"
  by (auto simp: executor_Execute_def wp_rules calls_within_def permitted_def mode_verdict_def Let_def
    split: option.splits if_splits)

text \<open>The result of a step succeeds only if an external action reported success.\<close>

lemma executor_result:
  "wp (executor_Execute deps st opp) (\<lambda>r w'. er_Success r \<longrightarrow>
     (\<exists>ext n p. ld_extActions deps = Some ext \<and> ext n (xs_Tool st) p opp = Inr r)) w"
  by (auto simp: executor_Execute_def wp_rules failed_step_def mode_verdict_def Let_def
    split: option.splits if_splits sum.splits)

lemma save_task_same: "wp (save_task ops deps t) (\<lambda>r w'. (\<exists>now. r = t\<lparr>xt_UpdatedAt := now\<rparr>) \<and> lw_calls w' = lw_calls w) w"
  by (auto simp: save_task_def wp_rules Let_def split: prod.splits)

lemma finish_task_same:
  "wp (finish_task ops deps msg ev t) (\<lambda>r w'. (\<exists>now. fst r = t\<lparr>xt_UpdatedAt := now\<rparr>) \<and> lw_calls w' = lw_calls w) w"
  by (auto simp: finish_task_def wp_rules Let_def split: prod.splits option.splits)

text \<open>The fields that no part of the loop changes.\<close>

definition same_course :: "exec_task \<Rightarrow> exec_task \<Rightarrow> bool" where
  "same_course t u \<longleftrightarrow> same_run t u \<and> xt_Status t = xt_Status u \<and> xt_IterationCount t = xt_IterationCount u"

lemma same_course_simps [simp]:
  "same_course (t\<lparr>xt_UpdatedAt := now\<rparr>) u = same_course t u" "same_course (t\<lparr>xt_Plan := pl\<rparr>) u = same_course t u"
  "same_course (t\<lparr>xt_CurrentStep := c\<rparr>) u = same_course t u" "same_course t t"
  by (simp_all add: same_course_def same_run_def)

lemma loop_plan_same:
  "wp (loop_plan deps t) (\<lambda>r w'. (\<forall>t'. r = Some t' \<longrightarrow> same_course t' t) \<and> lw_calls w' = lw_calls w) w"
  by (auto simp: loop_plan_def GeneratePlan_def wp_rules split: sum.splits)

text \<open>
  A part of an iteration ends the run in a terminal status, or goes on with the same task.
\<close>

definition progress_ok :: "exec_task \<Rightarrow> loop_progress \<Rightarrow> bool" where
  "progress_ok t r =
     (case r of
        Inl (t', e) \<Rightarrow> same_run t' t \<and> xt_Status t' \<in> {LoopCompleted, LoopAborted}
      | Inr t' \<Rightarrow> same_course t' t)"

lemma finish_ok:
  assumes "same_course t' t" and "calls_within deps k w v"
  shows "wp (do { res \<leftarrow> completeTask ops deps t'; State_Monad.return (Inl res) }) (\<lambda>r w'. progress_ok t r \<and> calls_within deps k w w') v"
    and "wp (do { res \<leftarrow> abortTask ops deps t' reason; State_Monad.return (Inl res) }) (\<lambda>r w'. isl r \<and> progress_ok t r \<and> calls_within deps k w w') v"
  unfolding completeTask_def abortTask_def
  by (rule wp_seq [OF finish_task_same];
      use assms in \<open>auto simp: progress_ok_def same_course_def same_run_def calls_within_def wp_rules split: prod.splits\<close>)+

lemma save_ok:
  assumes "same_course t' t" and "calls_within deps k w v"
  shows "wp (do { t' \<leftarrow> save_task ops deps t'; State_Monad.return (Inr t') }) (\<lambda>r w'. progress_ok t r \<and> calls_within deps k w w') v"
  by (rule wp_seq [OF save_task_same])
    (use assms in \<open>auto simp: progress_ok_def calls_within_def wp_rules\<close>)

lemma execute_step_ok:
  assumes "same_course t' t" and "lw_calls v = lw_calls w"
  shows "wp (execute_step ops deps t' st i) (\<lambda>r w'. progress_ok t r \<and> calls_within deps 1 w w') v"
  unfolding execute_step_def
  apply (rule wp_seq [OF executor_calls])
  apply (rule wp_seq [OF quiet_wp [OF quiet_basic(5)]])
  apply (rule wp_seq [OF quiet_wp [OF quiet_basic(3)]])
  apply (rule wp_seq [OF quiet_wp [OF quiet_basic(4)]])
  apply (rule wp_seq [OF save_task_same])
  apply (simp only: wp_if split: if_split, intro conjI impI)
  apply (rule finish_ok(1); use assms in \<open>auto simp: calls_within_def\<close>)
  using assms by (auto simp: wp_rules progress_ok_def calls_within_def)

lemma loop_step_ok:
  assumes "same_course t' t" and "lw_calls v = lw_calls w"
  shows "wp (loop_step ops deps t') (\<lambda>r w'. progress_ok t r \<and> calls_within deps 1 w w') v"
proof (cases "getNextPendingStep t'")
  case None
  then show ?thesis using assms by (auto simp: loop_step_def intro!: finish_ok save_ok calls_within_same)
next
  case (Some p)
  show ?thesis unfolding loop_step_def Some Let_def option.case prod.case case_prod_beta
    apply (rule wp_seq [OF quiet_wp [OF quiet_blocked]])
    using assms by (auto simp del: One_nat_def intro!: save_ok execute_step_ok calls_within_same)
qed

lemma loop_iteration_ok:
  "wp (loop_iteration ops deps deadline t) (\<lambda>r w'.
     (case r of Inl (t', e) \<Rightarrow> same_run t' t \<and> xt_Status t' \<in> {LoopCompleted, LoopAborted}
      | Inr t' \<Rightarrow> same_run t' t \<and> xt_Status t' = xt_Status t \<and> xt_IterationCount t' = xt_IterationCount t + 1) \<and>
     calls_within deps 1 w w') w"
proof -
  let ?t = "t\<lparr>xt_IterationCount := xt_IterationCount t + 1\<rparr>"
  have step: "wp (do { planned \<leftarrow> loop_plan deps ?t;
      case planned of None \<Rightarrow> do { task \<leftarrow> save_task ops deps ?t; State_Monad.return (Inr task) }
      | Some task \<Rightarrow> loop_step ops deps task }) (\<lambda>r w'. progress_ok ?t r \<and> calls_within deps 1 w w') v"
    if "lw_calls v = lw_calls w" for v
    by (rule wp_seq [OF loop_plan_same])
      (use that in \<open>auto simp del: One_nat_def intro!: save_ok loop_step_ok calls_within_same split: option.split\<close>)
  show ?thesis
    unfolding loop_iteration_def Let_def
    apply (rule wp_seq [OF quiet_wp [OF quiet_checks]])
    apply (simp split: option.split, intro conjI allI impI)
     apply (rule wp_mono [OF step], assumption)
     apply (auto simp: progress_ok_def same_course_def same_run_def split: sum.splits)[1]
    apply (rule wp_mono [OF finish_ok(2) [of t t]])
      apply (auto simp: progress_ok_def same_course_def same_run_def calls_within_same split: sum.splits)
    done
qed

lemma iterate_ok:
  "wp (iterate ops deps deadline n t) (\<lambda>(t', e) w'.
     same_run t' t \<and> xt_Status t' \<in> {LoopCompleted, LoopAborted} \<and> calls_within deps n w w') w"
proof (induction n arbitrary: t w)
  case 0
  show ?case unfolding iterate.simps abortTask_def
    by (rule wp_mono [OF finish_task_same]) (auto simp: same_run_def calls_within_same)
next
  case (Suc n)
  show ?case unfolding iterate.simps
  proof (rule wp_seq [OF loop_iteration_ok], goal_cases)
    case (1 r w')
    show ?case
    proof (cases r)
      case (Inl res)
      with 1 show ?thesis by (cases res) (auto simp: wp_rules elim: calls_within_mono)
    next
      case (Inr t')
      with 1 show ?thesis
        by (simp, intro wp_mono [OF Suc.IH])
          (auto simp: same_run_def dest: calls_within_trans)
    qed
  qed
qed

text \<open>The loop as the code writes it.\<close>

lemma loop_unfold:
  "main_loop ops deps deadline task =
     (if xt_IterationCount task < xt_MaxIterations task
      then do {
        r \<leftarrow> loop_iteration ops deps deadline task;
        case r of Inl res \<Rightarrow> State_Monad.return res | Inr task \<Rightarrow> main_loop ops deps deadline task
      }
      else abortTask ops deps task ''maximum iterations reached'')"
proof (cases "xt_IterationCount task < xt_MaxIterations task")
  case True
  then obtain n where n: "nat (xt_MaxIterations task - xt_IterationCount task) = Suc n"
    by (metis diff_gt_0_iff_gt gr0_conv_Suc zero_less_nat_eq)
  have left: "nat (xt_MaxIterations t - xt_IterationCount t) = n"
    if "run_state (loop_iteration ops deps deadline task) w = (Inr t, w')" for t w w'
    using wp_run [OF loop_iteration_ok that] n True by (auto simp: same_run_def)
  show ?thesis
    by (rule state_ext) (auto simp: main_loop_def n True left split: prod.split sum.split)
qed (simp add: main_loop_def)

lemma start_task_ok:
  "xt_Status t \<in> {LoopPending, LoopRunning} \<Longrightarrow>
   wp (start_task ops deps t) (\<lambda>r w'. lw_calls w' = lw_calls w \<and>
     (case r of Inl (t', e) \<Rightarrow> e \<noteq> None
      | Inr t' \<Rightarrow> same_run t' t \<and> xt_IterationCount t' = xt_IterationCount t)) w"
  by (auto simp: start_task_def wp_rules Let_def same_run_def split: prod.splits option.splits)

lemma run_started_ok:
  "wp (run_started ops deps t) (\<lambda>(t', e) w'. same_run t' t \<and> xt_Status t' \<in> {LoopCompleted, LoopAborted} \<and>
     calls_within deps (nat (xt_MaxIterations t - xt_IterationCount t)) w w') w"
proof -
  have a: "wp (abortTask ops deps t reason) (\<lambda>(t', e) w'. same_run t' t \<and> xt_Status t' \<in> {LoopCompleted, LoopAborted} \<and>
     calls_within deps k w w') v" if "lw_calls v = lw_calls w" for reason k v
    unfolding abortTask_def
    by (rule wp_mono [OF finish_task_same]) (use that in \<open>auto simp: same_run_def calls_within_same\<close>)
  have m: "wp (main_loop ops deps dl t) (\<lambda>(t', e) w'. same_run t' t \<and> xt_Status t' \<in> {LoopCompleted, LoopAborted} \<and>
     calls_within deps (nat (xt_MaxIterations t - xt_IterationCount t)) w w') v" if "lw_calls v = lw_calls w" for dl v
    unfolding main_loop_def
    by (rule wp_mono [OF iterate_ok]) (use that in \<open>auto simp: calls_within_eq [of v w]\<close>)
  show ?thesis unfolding run_started_def by (auto simp: wp_rules a [simplified] m [simplified] split: option.split)
qed

lemma RunLoop_ok:
  assumes "\<And>t s'. x_Get ops tid (lw_store w) = (Inr t, s') \<Longrightarrow> loop_task_ok t"
  shows "wp (RunLoop ops deps tid) (\<lambda>(t, e) w'. calls_within deps (nat MaxIterations) w w' \<and>
     (e = None \<longrightarrow> xt_Status t \<in> {LoopCompleted, LoopAborted})) w"
proof -
  let ?Q = "\<lambda>(t, e) w'. calls_within deps (nat MaxIterations) w w' \<and> (e = None \<longrightarrow> xt_Status t \<in> {LoopCompleted, LoopAborted})"
  have run: "wp (do { started \<leftarrow> start_task ops deps t;
      case started of Inl res \<Rightarrow> State_Monad.return res | Inr task \<Rightarrow> run_started ops deps task }) ?Q (w\<lparr>lw_store := s'\<rparr>)"
    if "xt_Status t \<in> {LoopPending, LoopRunning}" "x_Get ops tid (lw_store w) = (Inr t, s')" for t s'
  proof (rule wp_seq [OF start_task_ok [OF that(1)]], goal_cases)
    case (1 r w')
    show ?case
    proof (cases r)
      case (Inl res)
      then show ?thesis using 1 by (cases res) (auto simp: wp_rules calls_within_same)
    next
      case (Inr t')
      have "nat (xt_MaxIterations t' - xt_IterationCount t') \<le> nat MaxIterations"
        using 1 assms [OF that(2)] by (auto simp: Inr same_run_def loop_task_ok_def intro!: nat_mono)
      then show ?thesis using 1
        by (simp add: Inr, intro wp_mono [OF run_started_ok])
          (auto simp: calls_within_eq [of w' w] elim: calls_within_mono)
    qed
  qed
  show ?thesis unfolding RunLoop_def
    by (auto simp: wp_bind wp_stored wp_return run [unfolded wp_bind, simplified] split: prod.split sum.split
      intro: calls_within_same)
qed

context loop_store
begin

lemma RunLoop_bounded:
  "good (lw_store w) \<Longrightarrow> wp (RunLoop ops deps tid) (\<lambda>(t, e) w'. calls_within deps (nat MaxIterations) w w' \<and>
     (e = None \<longrightarrow> xt_Status t \<in> {LoopCompleted, LoopAborted})) w"
  by (rule RunLoop_ok) (use get_law task_law in blast)

end

section \<open>The loop implements a retry policy\<close>

text \<open>
  The specification: how a run of at most \<open>n\<close> more attempts after \<open>f\<close> failures in a row
  ends, given the replies it got. None means that a run does not end after these replies.
\<close>

fun retry_policy :: "nat \<Rightarrow> int \<Rightarrow> executor_result list \<Rightarrow> (loop_status \<times> string) option" where
  "retry_policy n f [] =
     (if n = 0 then Some (LoopAborted, ''maximum iterations reached'')
      else if MaxConsecFailures \<le> f then Some (LoopAborted, ''consecutive failures exceeded threshold'')
      else None)"
| "retry_policy n f (r # rs) =
     (if n = 0 \<or> MaxConsecFailures \<le> f then None
      else if er_Success r \<and> \<not> er_RequiresReview r then (if rs = [] then Some (LoopCompleted, '''') else None)
      else retry_policy (n - 1) (if er_Success r then 0 else f + 1) rs)"

definition reply :: "loop_deps \<Rightarrow> ext_call \<Rightarrow> executor_result" where
  "reply deps c =
     (case c of (n, tool, payload, opp) \<Rightarrow>
        case ld_extActions deps of
          None \<Rightarrow> failed_step ''external actions provider not available''
        | Some ext \<Rightarrow> (case ext n tool payload opp of Inl err \<Rightarrow> failed_step err | Inr r \<Rightarrow> r))"

text \<open>
  Surroundings in which nothing but the replies decides: the clock advances and stays within the time
  budget for the reads of one run (at most 50), identifiers are new, no mode forbids execution and no
  penalty is signalled.
\<close>

definition calm :: "loop_deps \<Rightarrow> nat \<Rightarrow> bool" where
  "calm deps n \<longleftrightarrow> strict_mono (ld_now deps) \<and> inj (ld_uuid deps) \<and> ld_extActions deps \<noteq> None \<and>
     ld_now deps (n + 50) \<le> ld_now deps n + MaxExecutionTimeSec * Second \<and>
     (\<forall>mode k. ld_governance deps = Some mode \<longrightarrow> mode_verdict (mode k) = None) \<and>
     (\<forall>ty st k l. ld_objective deps = Some (ty, st) \<longrightarrow> \<not> (ty k = ''penalty'' \<and> flt penalty_threshold (st l)))"

definition own_plan :: "exec_task \<Rightarrow> bool" where
  "own_plan t \<longleftrightarrow> xt_CurrentStep t = 0 \<and>
     list_all (\<lambda>st. xs_Payload st = Some (goal_payload (xt_Goal t) (xt_OpportunityID t))) (xt_Plan t)"

text \<open>The state between two iterations, after \<open>f\<close> failures in a row.\<close>

definition between :: "loop_deps \<Rightarrow> loop_view \<Rightarrow> nat \<Rightarrow> int \<Rightarrow> exec_task \<Rightarrow> bool" where
  "between deps v k f t \<longleftrightarrow>
     (\<exists>u. xv_tasks v (xt_ID t) = Some u \<and> same_run t u) \<and> loop_task_ok t \<and> xt_Goal t \<noteq> '''' \<and> own_plan t \<and>
     (xt_Plan t = [] \<or> allStepsTerminal (xt_Plan t)) \<and> tail_failures (xv_obs v (xt_ID t)) = f \<and>
     (\<forall>ob \<in> set (xv_obs v (xt_ID t)). ob_Timestamp ob < ld_now deps k \<and> (\<exists>l<k. ob_StepID ob = ld_uuid deps l))"

definition planned_step :: "exec_task \<Rightarrow> string \<Rightarrow> exec_step" where
  "planned_step t uid = \<lparr>xs_ID = uid, xs_Description = ''Execute goal: '' @ xt_Goal t, xs_Tool = ''external_action'',
     xs_Payload = Some (goal_payload (xt_Goal t) (xt_OpportunityID t)), xs_Status = StepStatusPending,
     xs_ResultRef = '''', xs_AttemptCount = 0\<rparr>"

definition succeeded :: "executor_result \<Rightarrow> bool" where
  "succeeded r \<longleftrightarrow> er_Success r \<and> \<not> er_RequiresReview r"

lemma reflect_planned:
  "\<exists>st. reflect_result r 0 (planned_step t uid) [planned_step t uid] = [st] \<and>
     xs_Payload st = Some (goal_payload (xt_Goal t) (xt_OpportunityID t)) \<and>
     xs_Status st = (if er_RequiresReview r then StepStatusPendingReview
       else if er_Success r then StepStatusExecuted else StepStatusBlocked)"
  by (simp add: reflect_result_def step_outcome_def planned_step_def AdaptPlan_def MaxRetriesPerStep_def Let_def)

lemma same_error_run_other: "\<forall>ob \<in> set obs. ob_StepID ob \<noteq> sid \<Longrightarrow> same_error_run sid obs acc = acc"
  by (induction sid obs acc rule: same_error_run.induct) auto

lemma tail_failures_snoc:
  "tail_failures (obs @ [ob]) = (if ob_Success ob then 0 else tail_failures obs + 1)"
  by (simp add: tail_failures_def)

lemma loop_plan_calm:
  assumes "xt_Plan t = [] \<or> allStepsTerminal (xt_Plan t)" and "xt_Goal t \<noteq> ''''"
  shows "wp (loop_plan deps t) (\<lambda>r w'. r = Some (t\<lparr>xt_Plan := [planned_step t (ld_uuid deps (lw_tick w))], xt_CurrentStep := 0\<rparr>) \<and>
     lw_store w' = lw_store w \<and> lw_calls w' = lw_calls w \<and> lw_tick w' = Suc (lw_tick w)) w"
  using assms by (auto simp: loop_plan_def GeneratePlan_def NewPlanner_def wp_rules planned_step_def)

lemma executor_calm:
  assumes "calm deps n" and "xs_Tool st \<noteq> ''''" and "xs_Payload st = Some p"
  shows "wp (executor_Execute deps st opp) (\<lambda>r w'. (\<exists>k. lw_calls w' = lw_calls w @ [(k, xs_Tool st, p, opp)] \<and>
     r = reply deps (k, xs_Tool st, p, opp)) \<and> lw_store w' = lw_store w \<and> lw_tick w \<le> lw_tick w' \<and> lw_tick w' \<le> lw_tick w + 2) w"
  using assms by (auto simp: executor_Execute_def wp_rules Let_def calm_def reply_def split: option.splits sum.splits)

lemma ShouldAbort_wp:
  "wp (ShouldAbort ops tid) (\<lambda>r w'. \<exists>rc s'. o_CountConsecutiveFailures ops tid (lw_store w) = (rc, s') \<and> w' = w\<lparr>lw_store := s'\<rparr> \<and>
     r = (case rc of Inl _ \<Rightarrow> None | Inr n \<Rightarrow> if MaxConsecFailures \<le> n then Some ''consecutive failures exceeded threshold'' else None)) w"
  by (auto simp: ShouldAbort_def wp_rules split: prod.splits)

context loop_store
begin

definition still :: "nat \<Rightarrow> 's loop_world \<Rightarrow> 's loop_world \<Rightarrow> bool" where
  "still k w w' \<longleftrightarrow> good (lw_store w') \<and> healthy (lw_store w') \<and> view (lw_store w') = view (lw_store w) \<and>
     lw_calls w' = lw_calls w \<and> lw_tick w \<le> lw_tick w' \<and> lw_tick w' \<le> lw_tick w + k"

lemma checks_calm:
  assumes "calm deps n" and "good (lw_store w)" and "healthy (lw_store w)" and "lw_tick w \<le> n + 50"
    and "ld_now deps n + MaxExecutionTimeSec * Second \<le> deadline"
  shows "wp (loop_checks ops deps deadline t) (\<lambda>r w'. still 3 w w' \<and>
     r = (if MaxConsecFailures \<le> tail_failures (xv_obs (view (lw_store w)) (xt_ID t))
          then Some ''consecutive failures exceeded threshold'' else None)) w"
proof -
  have "ld_now deps (lw_tick w) \<le> ld_now deps (n + 50)"
    using assms(1,4) by (auto simp: calm_def strict_mono_less_eq)
  then have time: "\<not> deadline < ld_now deps (lw_tick w)" using assms(1,5) by (auto simp: calm_def)
  have tail: "wp (ShouldAbort ops (xt_ID t)) (\<lambda>r w'. still 3 w w' \<and>
     r = (if MaxConsecFailures \<le> tail_failures (xv_obs (view (lw_store w)) (xt_ID t))
          then Some ''consecutive failures exceeded threshold'' else None)) (w\<lparr>lw_tick := k\<rparr>)"
    if "lw_tick w \<le> k" "k \<le> lw_tick w + 3" for k
    by (rule wp_mono [OF ShouldAbort_wp]) (use that assms(3) in \<open>auto simp: still_def dest!: failures_law [OF assms(2)]\<close>)
  have pen: "ld_objective deps = Some (ty, st) \<Longrightarrow> \<not> (ty i = ''penalty'' \<and> flt penalty_threshold (st j))" for ty st i j
    using assms(1) by (auto simp: calm_def)
  show ?thesis
    using time tail pen by (auto simp: loop_checks_def objective_penalty_def wp_rules split: option.split)
qed

lemma update_calm:
  assumes "good (lw_store w)" and "healthy (lw_store w)" and "xv_tasks (view (lw_store w)) (xt_ID t) = Some u"
    and "same_run t u" and "loop_task_ok t"
  shows "wp (stored (x_Update ops t)) (\<lambda>e w'. \<exists>s'. w' = w\<lparr>lw_store := s'\<rparr> \<and> good s' \<and> healthy s' \<and>
     xv_obs (view s') = xv_obs (view (lw_store w)) \<and> (\<exists>u'. xv_tasks (view s') (xt_ID t) = Some u' \<and> same_run t u' \<and>
     (accepts t \<longrightarrow> e = None \<and> same_json t u'))) w"
proof -
  obtain e s' where u: "x_Update ops t (lw_store w) = (e, s')" by fastforce
  have "same_json t t' \<Longrightarrow> same_run t t'" for t' by (cases t; cases t') (auto simp: same_json_def same_run_def)
  then show ?thesis using update_law [OF assms(1,3,4,5) u] assms(2,3,4)
    by (auto simp: wp_rules u wrote_task_def)
qed

lemma save_calm:
  assumes "good (lw_store w)" and "healthy (lw_store w)" and "xv_tasks (view (lw_store w)) (xt_ID t) = Some u"
    and "same_run t u" and "loop_task_ok t"
  shows "wp (save_task ops deps t) (\<lambda>r w'. \<exists>s' now. r = t\<lparr>xt_UpdatedAt := now\<rparr> \<and>
     w' = w\<lparr>lw_tick := Suc (lw_tick w), lw_store := s'\<rparr> \<and> good s' \<and> healthy s' \<and>
     xv_obs (view s') = xv_obs (view (lw_store w)) \<and> (\<exists>u'. xv_tasks (view s') (xt_ID t) = Some u' \<and> same_run t u')) w"
  unfolding save_task_def Let_def wp_bind wp_nowUTC
  by (rule wp_mono [OF update_calm])
    (use assms in \<open>auto simp: wp_rules same_run_def loop_task_ok_def\<close>)

lemma finish_calm:
  assumes "good (lw_store w)" and "healthy (lw_store w)" and "xv_tasks (view (lw_store w)) (xt_ID t) = Some u"
    and "same_run t u" and "loop_task_ok t" and "\<And>now. accepts (t\<lparr>xt_UpdatedAt := now\<rparr>)"
  shows "wp (finish_task ops deps msg ev t) (\<lambda>r w'. \<exists>now u'. r = (t\<lparr>xt_UpdatedAt := now\<rparr>, None) \<and>
     xv_tasks (view (lw_store w')) (xt_ID t) = Some u' \<and> same_json (fst r) u' \<and>
     lw_calls w' = lw_calls w \<and> lw_tick w' = Suc (lw_tick w)) w"
  unfolding finish_task_def Let_def wp_bind wp_nowUTC
  by (rule wp_mono [OF update_calm])
    (use assms in \<open>auto simp: wp_rules same_run_def loop_task_ok_def\<close>)

end

text \<open>What a store that takes the loop's own plans and the replies' outputs lets the loop rely on.\<close>

definition takes_all :: "loop_deps \<Rightarrow> (exec_task \<Rightarrow> bool) \<Rightarrow> (observation \<Rightarrow> bool) \<Rightarrow> exec_task \<Rightarrow> bool" where
  "takes_all deps acc acc_obs t \<longleftrightarrow>
     (\<forall>t'. same_run t' t \<longrightarrow> own_plan t' \<longrightarrow> 0 \<le> xt_IterationCount t' \<longrightarrow> xt_IterationCount t' \<le> MaxIterations \<longrightarrow> acc t') \<and>
     (\<forall>c ob. ob_Output ob = er_Output (reply deps c) \<longrightarrow> acc_obs ob)"

lemma getNext_planned: "getNextPendingStep (t\<lparr>xt_Plan := [planned_step t uid], xt_CurrentStep := 0\<rparr>) = Some (planned_step t uid, 0)"
  by (simp add: getNextPendingStep_def planned_step_def)

context loop_store
begin

lemma blocked_calm:
  assumes "good (lw_store w)" and "healthy (lw_store w)"
    and "\<forall>ob \<in> set (xv_obs (view (lw_store w)) tid). ob_StepID ob \<noteq> sid"
  shows "wp (IsStepBlocked ops tid sid) (\<lambda>r w'. \<not> r \<and> still 0 w w') w"
proof -
  obtain r s' where r: "o_ListByTask ops tid (lw_store w) = (r, s')" by fastforce
  show ?thesis using obs_law [OF assms(1) r] assms(2,3)
    by (simp add: IsStepBlocked_def wp_rules r still_def same_error_run_other)
qed

lemma observe_calm:
  assumes "good (lw_store w)" and "healthy (lw_store w)" and "accepts_obs ob"
    and "\<forall>ob' \<in> set (xv_obs (view (lw_store w)) (ob_TaskID ob)). ob_Timestamp ob' < ob_Timestamp ob"
  shows "wp (stored (o_Insert ops ob)) (\<lambda>_ w'. \<exists>s'. w' = w\<lparr>lw_store := s'\<rparr> \<and> good s' \<and> healthy s' \<and>
     xv_tasks (view s') = xv_tasks (view (lw_store w)) \<and> (\<exists>ob'. ob' = ob\<lparr>ob_Output := ob_Output ob'\<rparr> \<and>
     xv_obs (view s') (ob_TaskID ob) = xv_obs (view (lw_store w)) (ob_TaskID ob) @ [ob'])) w"
proof -
  obtain e s' where o: "o_Insert ops ob (lw_store w) = (e, s')" by fastforce
  have a: "appended_obs ob (view (lw_store w)) (view s')" and g: "good s'" "healthy s'"
    using observe_law [OF assms(1) o] assms(2-4) by blast+
  from a obtain ob' where "ob' = ob\<lparr>ob_Output := ob_Output ob'\<rparr>"
    "xv_obs (view s') (ob_TaskID ob) = xv_obs (view (lw_store w)) (ob_TaskID ob) @ [ob']"
    "xv_tasks (view s') = xv_tasks (view (lw_store w))"
    by (auto simp: appended_obs_def)
  then show ?thesis using g by (auto simp: wp_rules o)
qed

definition attempted :: "loop_deps \<Rightarrow> exec_task \<Rightarrow> int \<Rightarrow> 's loop_world \<Rightarrow> loop_progress \<Rightarrow> 's loop_world \<Rightarrow> bool" where
  "attempted deps t f w r w' \<longleftrightarrow> (\<exists>c. lw_calls w' = lw_calls w @ [c] \<and> lw_tick w' \<le> lw_tick w + 6 \<and>
     (if succeeded (reply deps c)
      then \<exists>t' u. r = Inl (t', None) \<and> xt_Status t' = LoopCompleted \<and> xt_AbortReason t' = xt_AbortReason t \<and>
        xv_tasks (view (lw_store w')) (xt_ID t) = Some u \<and> same_json t' u
      else \<exists>t'. r = Inr t' \<and> same_course t' t \<and> xt_AbortReason t' = xt_AbortReason t \<and>
        good (lw_store w') \<and> healthy (lw_store w') \<and>
        between deps (view (lw_store w')) (lw_tick w') (if er_Success (reply deps c) then 0 else f + 1) t'))"

end

text \<open>The state after an attempt that did not end the run.\<close>

lemma between_next:
  assumes c: "calm deps n" and b: "between deps v k f t" and t': "same_course t' t" "own_plan t'" "allStepsTerminal (xt_Plan t')"
    and v': "xv_tasks v' (xt_ID t) = Some u" "same_run t' u" "xv_obs v' (xt_ID t) = xv_obs v (xt_ID t) @ [ob]"
    and ob: "ob_Timestamp ob = ld_now deps j" "ob_StepID ob = ld_uuid deps k" and order: "k < j" "j < m"
  shows "between deps v' m (if ob_Success ob then 0 else f + 1) t'"
proof -
  have mono: "ld_now deps k < ld_now deps j" "ld_now deps j < ld_now deps m"
    using c order by (simp_all add: calm_def strict_mono_less)
  have "ob_Timestamp x < ld_now deps m \<and> (\<exists>l<m. ob_StepID x = ld_uuid deps l)" if "x \<in> set (xv_obs v' (xt_ID t))" for x
  proof (cases "x = ob")
    case True
    then show ?thesis using mono ob order by (auto intro!: exI [of _ k])
  next
    case False
    then have "ob_Timestamp x < ld_now deps k \<and> (\<exists>l<k. ob_StepID x = ld_uuid deps l)"
      using that v'(3) b by (auto simp: between_def)
    then show ?thesis using mono order by (meson less_trans)
  qed
  then show ?thesis using assms
    by (auto simp: between_def tail_failures_snoc same_course_def same_run_def loop_task_ok_def)
qed

context loop_store
begin

lemma attempted_success:
  "lw_calls w' = lw_calls w @ [c] \<Longrightarrow> lw_tick w' \<le> lw_tick w + 6 \<Longrightarrow> succeeded (reply deps c) \<Longrightarrow> xt_Status t' = LoopCompleted \<Longrightarrow>
   xt_AbortReason t' = xt_AbortReason t \<Longrightarrow> xv_tasks (view (lw_store w')) (xt_ID t) = Some u \<Longrightarrow> same_json t' u \<Longrightarrow>
   attempted deps t f w (Inl (t', None)) w'"
  by (auto simp: attempted_def)

text \<open>The last part of an attempt: the plan has one step, whose status follows from the reply.\<close>

lemma settle_calm:
  assumes g: "good (lw_store v)" "healthy (lw_store v)" and calls: "lw_calls v = lw_calls w @ [c]" and tck: "lw_tick v \<le> lw_tick w + 5"
    and r: "goalSatisfied t' = succeeded (reply deps c)" and t': "same_course t' t" "own_plan t'" "xt_AbortReason t' = xt_AbortReason t"
    and u: "xv_tasks (view (lw_store v)) (xt_ID t) = Some u" "same_run t' u" and ok: "loop_task_ok t" "xt_IterationCount t \<le> MaxIterations"
    and ta: "takes_all deps accepts accepts_obs t"
    and b: "\<not> succeeded (reply deps c) \<Longrightarrow> between deps (view (lw_store v)) (lw_tick v) (if er_Success (reply deps c) then 0 else f + 1) t'"
  shows "wp (if goalSatisfied t' then do { res \<leftarrow> completeTask ops deps t'; State_Monad.return (Inl res) } else State_Monad.return (Inr t'))
    (attempted deps t f w) v"
proof (cases "succeeded (reply deps c)")
  case True
  have "accepts (t'\<lparr>xt_Status := LoopCompleted, xt_UpdatedAt := now\<rparr>)" for now
    using ta t' ok by (auto simp: takes_all_def same_course_def same_run_def own_plan_def loop_task_ok_def)
  then have "wp (completeTask ops deps t') (\<lambda>a w'. attempted deps t f w (Inl a) w') v"
    unfolding completeTask_def
    by (intro wp_mono [OF finish_calm [of v _ u]])
      (use u ok g t' calls True tck in
        \<open>auto simp: same_run_def same_course_def loop_task_ok_def intro!: attempted_success [where c = c]\<close>)
  then show ?thesis using True r by (simp add: wp_bind) (erule wp_mono, simp add: wp_return)
next
  case False
  then show ?thesis using r t' calls g tck b by (auto simp: wp_return attempted_def)
qed

lemma execute_calm:
  assumes c: "calm deps n" and g: "good (lw_store v)" "healthy (lw_store v)"
    and b: "between deps (view (lw_store v)) k f t" and k: "k < lw_tick v"
    and ta: "takes_all deps accepts accepts_obs t" and it: "xt_IterationCount t \<le> MaxIterations"
    and w: "lw_calls v = lw_calls w" "lw_tick v = Suc (lw_tick w)"
  shows "wp (execute_step ops deps (t\<lparr>xt_Plan := [planned_step t (ld_uuid deps k)], xt_CurrentStep := 0\<rparr>)
    (planned_step t (ld_uuid deps k)) 0) (attempted deps t f w) v"
proof -
  let ?ps = "planned_step t (ld_uuid deps k)"
  let ?t = "t\<lparr>xt_Plan := [?ps], xt_CurrentStep := 0\<rparr>"
  let ?tool = "''external_action''" and ?p = "goal_payload (xt_Goal t) (xt_OpportunityID t)"
  have ps: "xs_Tool ?ps = ?tool" "xs_Payload ?ps = Some ?p" "xs_ID ?ps = ld_uuid deps k" by (simp_all add: planned_step_def)
  show ?thesis
    unfolding execute_step_def
  proof (rule wp_seq [OF executor_calm [OF c _ ps(2)]], goal_cases)
    case (2 r w1)
    then obtain i where calls: "lw_calls w1 = lw_calls v @ [(i, ?tool, ?p, xt_OpportunityID t)]"
      and r: "r = reply deps (i, ?tool, ?p, xt_OpportunityID t)" and st1: "lw_store w1 = lw_store v"
      and t1: "lw_tick v \<le> lw_tick w1" "lw_tick w1 \<le> lw_tick v + 2" by (auto simp: ps)
    let ?now = "ld_now deps (lw_tick w1)"
    let ?ob = "\<lparr>ob_StepID = xs_ID ?ps, ob_TaskID = xt_ID ?t, ob_Success = er_Success r, ob_Output = er_Output r,
      ob_Error = er_Error r, ob_Timestamp = ?now\<rparr>"
    have "ld_now deps k < ?now" using c t1 k by (simp add: calm_def strict_mono_less)
    then have old: "\<forall>ob' \<in> set (xv_obs (view (lw_store v)) (xt_ID t)). ob_Timestamp ob' < ?now"
      using b by (force simp: between_def)
    have acc: "accepts_obs ?ob" using ta by (auto simp: takes_all_def r)
    show ?case unfolding wp_bind [of "nowUTC deps"] wp_nowUTC
    proof (rule wp_seq [OF observe_calm [of "w1\<lparr>lw_tick := Suc (lw_tick w1)\<rparr>" ?ob]], goal_cases)
      case (5 _ w3)
      then obtain s3 ob' where w3: "w3 = w1\<lparr>lw_tick := Suc (lw_tick w1), lw_store := s3\<rparr>" and g3: "good s3" "healthy s3"
        and tasks3: "xv_tasks (view s3) = xv_tasks (view (lw_store v))" and ob': "ob' = ?ob\<lparr>ob_Output := ob_Output ob'\<rparr>"
        and obs3: "xv_obs (view s3) (xt_ID t) = xv_obs (view (lw_store v)) (xt_ID t) @ [ob']"
        by (auto simp: st1)
      have ob: "ob_Success ob' = er_Success r" "ob_Timestamp ob' = ?now" "ob_StepID ob' = ld_uuid deps k"
        by (subst ob', simp add: ps)+
      obtain u where u: "xv_tasks (view s3) (xt_ID t) = Some u" "same_run t u" using b tasks3 by (auto simp: between_def)
      obtain st where st: "reflect_result r 0 ?ps (xt_Plan ?t) = [st]" "xs_Payload st = Some ?p"
        "xs_Status st = (if er_RequiresReview r then StepStatusPendingReview
           else if er_Success r then StepStatusExecuted else StepStatusBlocked)"
        using reflect_planned [of r t "ld_uuid deps k"] by auto
      have t2: "same_run (?t\<lparr>xt_Plan := [st]\<rparr>) u" "loop_task_ok (?t\<lparr>xt_Plan := [st]\<rparr>)"
        using u(2) b by (auto simp: same_run_def loop_task_ok_def between_def)
      define w4 where "w4 = (if ld_auditor deps then w3\<lparr>lw_audit := lw_audit w3 @ [(reflect_event r, xt_ID ?t)]\<rparr> else w3)"
      have w4: "lw_store w4 = s3" "lw_calls w4 = lw_calls w1" "lw_tick w4 = Suc (lw_tick w1)" by (simp_all add: w4_def w3)
      show ?case unfolding wp_bind [of "loop_auditEvent _ _ _"] wp_loop_auditEvent w4_def [symmetric] st(1)
      proof (rule wp_seq [OF save_calm [of w4 "?t\<lparr>xt_Plan := [st]\<rparr>" u]], goal_cases)
        case (6 t3 w5)
        then obtain s5 now u5 where t3: "t3 = ?t\<lparr>xt_Plan := [st], xt_UpdatedAt := now\<rparr>"
          and w5: "w5 = w4\<lparr>lw_tick := Suc (lw_tick w4), lw_store := s5\<rparr>" and g5: "good s5" "healthy s5"
          and obs5: "xv_obs (view s5) = xv_obs (view s3)" and u5: "xv_tasks (view s5) (xt_ID t) = Some u5" "same_run t3 u5"
          by (auto simp: w4 same_run_def)
        have t3_f: "same_course t3 t" "own_plan t3" "xt_AbortReason t3 = xt_AbortReason t" "allStepsTerminal (xt_Plan t3)"
          "goalSatisfied t3 = succeeded r"
          by (simp_all add: t3 st own_plan_def allStepsTerminal_def goalSatisfied_def succeeded_def)
        show ?case
        proof (rule settle_calm [where u = u5 and c = "(i, ?tool, ?p, xt_OpportunityID t)"], goal_cases)
          case 14
          show ?case using between_next [OF c b t3_f(1,2,4) u5, of ob' "lw_tick w1" "lw_tick w5"] ob k t1
            by (simp add: obs5 obs3 w5 w4 r)
        qed (use g5 t3_f u5 ta it b calls t1 w in \<open>auto simp: w5 w4 r between_def\<close>)
      qed (use g3 u t2 in \<open>simp_all add: w4\<close>)
    qed (use g acc old in \<open>auto simp: st1\<close>)
  qed (simp add: ps)
qed

end

lemma between_later: "between deps v k f t \<Longrightarrow> calm deps n \<Longrightarrow> k \<le> k' \<Longrightarrow> between deps v k' f t"
  unfolding between_def calm_def by (meson less_le_trans strict_mono_less_eq)

lemma between_iteration:
  "between deps v k f (t\<lparr>xt_IterationCount := xt_IterationCount t + 1\<rparr>) \<longleftrightarrow> between deps v k f t"
  if "loop_task_ok t" for t
  using that by (simp add: between_def same_run_def loop_task_ok_def own_plan_def)

context loop_store
begin

lemma iteration_calm:
  assumes c: "calm deps n" and g: "good (lw_store w)" "healthy (lw_store w)" and b: "between deps (view (lw_store w)) (lw_tick w) f t"
    and ta: "takes_all deps accepts accepts_obs t" and it: "xt_IterationCount t < MaxIterations"
    and tm: "lw_tick w \<le> n + 50" "ld_now deps n + MaxExecutionTimeSec * Second \<le> deadline" and f: "f < MaxConsecFailures"
  shows "wp (loop_iteration ops deps deadline t)
    (\<lambda>r w'. \<exists>w1. still 3 w w1 \<and> attempted deps (t\<lparr>xt_IterationCount := xt_IterationCount t + 1\<rparr>) f w1 r w') w"
proof -
  let ?t = "t\<lparr>xt_IterationCount := xt_IterationCount t + 1\<rparr>"
  have ok: "loop_task_ok t" "tail_failures (xv_obs (view (lw_store w)) (xt_ID t)) = f" using b by (auto simp: between_def)
  have body: "wp (do { planned \<leftarrow> loop_plan deps ?t;
      case planned of None \<Rightarrow> do { task \<leftarrow> save_task ops deps ?t; State_Monad.return (Inr task) }
      | Some task \<Rightarrow> loop_step ops deps task }) (attempted deps ?t f w1) w1" if s: "still 3 w w1" for w1
  proof -
    let ?k = "lw_tick w1"
    have b1: "between deps (view (lw_store w1)) ?k f ?t"
      using s between_later [OF b c] ok by (simp add: still_def between_iteration)
    then have fresh: "\<forall>ob \<in> set (xv_obs (view (lw_store w1)) (xt_ID ?t)). ob_StepID ob \<noteq> ld_uuid deps ?k"
      using c by (auto simp: between_def calm_def inj_eq)
    have plan: "xt_Plan ?t = [] \<or> allStepsTerminal (xt_Plan ?t)" "xt_Goal ?t \<noteq> ''''" using b1 by (auto simp: between_def)
    show ?thesis
    proof (rule wp_seq [OF loop_plan_calm [OF plan]], goal_cases)
      case (1 p w2)
      let ?tp = "?t\<lparr>xt_Plan := [planned_step ?t (ld_uuid deps ?k)], xt_CurrentStep := 0\<rparr>"
      have "wp (loop_step ops deps ?tp) (attempted deps ?t f w1) w2"
        unfolding loop_step_def getNext_planned option.case prod.case Let_def
      proof (rule wp_seq [OF blocked_calm], goal_cases)
        case (4 bl v)
        have "wp (execute_step ops deps ?tp (planned_step ?t (ld_uuid deps ?k)) 0) (attempted deps ?t f w1) v"
          by (rule execute_calm [OF c])
            (use 4 1 b1 s ta it in \<open>auto simp: still_def takes_all_def same_run_def\<close>)
        then show ?case using 4 by simp
      qed (use 1 s fresh in \<open>auto simp: still_def planned_step_def\<close>)
      then show ?case using 1 by simp
    qed
  qed
  show ?thesis unfolding loop_iteration_def Let_def
  proof (rule wp_seq [OF checks_calm [OF c g tm]], goal_cases)
    case (1 r w1)
    then have "r = None" using f ok(2) by simp
    then show ?case using 1 by (simp, intro wp_mono [OF body]) auto
  qed
qed

lemma abort_calm:
  assumes g: "good (lw_store w)" "healthy (lw_store w)" and b: "between deps (view (lw_store w)) k f t"
    and ta: "takes_all deps accepts accepts_obs t" and it: "xt_IterationCount t \<le> MaxIterations"
  shows "wp (abortTask ops deps t reason) (\<lambda>(t', e) w'. e = None \<and> lw_calls w' = lw_calls w \<and>
     xt_Status t' = LoopAborted \<and> xt_AbortReason t' = reason \<and>
     (\<exists>u. xv_tasks (view (lw_store w')) (xt_ID t) = Some u \<and> same_json t' u)) w"
proof -
  obtain u where u: "xv_tasks (view (lw_store w)) (xt_ID t) = Some u" "same_run t u" using b by (auto simp: between_def)
  have "accepts (t\<lparr>xt_Status := LoopAborted, xt_AbortReason := reason, xt_UpdatedAt := now\<rparr>)" for now
    using ta b it by (auto simp: takes_all_def same_run_def own_plan_def between_def loop_task_ok_def)
  then show ?thesis unfolding abortTask_def
    by (intro wp_mono [OF finish_calm [of w _ u]])
      (use g u b in \<open>auto simp: same_run_def between_def loop_task_ok_def\<close>)
qed

lemma iterate_calm:
  assumes c: "calm deps n" and tm: "ld_now deps n + MaxExecutionTimeSec * Second \<le> deadline"
    and "good (lw_store w)" "healthy (lw_store w)" and "between deps (view (lw_store w)) (lw_tick w) f t"
    and "takes_all deps accepts accepts_obs t" and "xt_AbortReason t = ''''"
    and "xt_IterationCount t + int m = MaxIterations" and "lw_tick w + 9 * m \<le> n + 50"
  shows "wp (iterate ops deps deadline m t) (\<lambda>(t', e) w'. e = None \<and>
     (\<exists>cs. lw_calls w' = lw_calls w @ cs \<and> retry_policy m f (map (reply deps) cs) = Some (xt_Status t', xt_AbortReason t')) \<and>
     (\<exists>u. xv_tasks (view (lw_store w')) (xt_ID t) = Some u \<and> same_json t' u)) w"
  using assms(3-)
proof (induction m arbitrary: t f w)
  case 0
  have it: "xt_IterationCount t \<le> MaxIterations" using 0(6) by simp
  show ?case unfolding iterate.simps
    by (rule wp_mono [OF abort_calm [OF 0(1-4) it]]) auto
next
  case (Suc m)
  have it: "xt_IterationCount t < MaxIterations" and tk: "lw_tick w \<le> n + 50" using Suc.prems(6,7) by auto
  have ok: "tail_failures (xv_obs (view (lw_store w)) (xt_ID t)) = f" "loop_task_ok t"
    using Suc.prems(3) by (auto simp: between_def)
  show ?case
  proof (cases "f < MaxConsecFailures")
    case True
    show ?thesis unfolding iterate.simps
    proof (rule wp_seq [OF iteration_calm [OF c Suc.prems(1-4) it tk tm True]], goal_cases)
      case (1 r w2)
      then obtain w1 where w1: "still 3 w w1" and a: "attempted deps (t\<lparr>xt_IterationCount := xt_IterationCount t + 1\<rparr>) f w1 r w2" by blast
      then obtain cl where cl: "lw_calls w2 = lw_calls w @ [cl]" "lw_tick w2 \<le> lw_tick w + 9"
        by (auto simp: attempted_def still_def)
      show ?case
      proof (cases "succeeded (reply deps cl)")
        case True
        then show ?thesis using a w1 cl \<open>f < MaxConsecFailures\<close> Suc.prems(5)
          by (auto simp: attempted_def still_def wp_return succeeded_def)
      next
        case False
        then obtain t' where r: "r = Inr t'" and t': "same_course t' (t\<lparr>xt_IterationCount := xt_IterationCount t + 1\<rparr>)"
            "xt_AbortReason t' = xt_AbortReason t" "good (lw_store w2)" "healthy (lw_store w2)"
          and b: "between deps (view (lw_store w2)) (lw_tick w2) (if er_Success (reply deps cl) then 0 else f + 1) t'"
          using a w1 cl by (auto simp: attempted_def still_def)
        have ta': "takes_all deps accepts accepts_obs t'" using Suc.prems(4) t'(1)
          by (auto simp: takes_all_def same_course_def same_run_def)
        have pre: "xt_AbortReason t' = ''''" "xt_IterationCount t' + int m = MaxIterations" "lw_tick w2 + 9 * m \<le> n + 50"
          using t' Suc.prems(5,6,7) cl(2) by (auto simp: same_course_def)
        show ?thesis unfolding r sum.case
          by (rule wp_mono [OF Suc.IH [OF t'(3,4) b ta' pre]])
            (use cl False \<open>f < MaxConsecFailures\<close> t'(1) in
              \<open>auto simp: succeeded_def same_course_def same_run_def\<close>)
      qed
    qed
  next
    case False
    show ?thesis unfolding iterate.simps loop_iteration_def
    proof (simp only: wp_bind, rule wp_mono [OF checks_calm [OF c Suc.prems(1,2) tk tm]], goal_cases)
      case (1 r w1)
      then have r: "r = Some ''consecutive failures exceeded threshold''" using False ok by simp
      have b: "between deps (view (lw_store w1)) (lw_tick w1) f t"
        using 1 Suc.prems(3) between_later [OF Suc.prems(3) c] by (simp add: still_def)
      show ?case unfolding r option.case wp_bind
        by (rule wp_mono [OF abort_calm [OF _ _ b Suc.prems(4)]])
          (use 1 it False in \<open>auto simp: still_def wp_return\<close>)
    qed
  qed
qed

end

lemma same_json_fields:
  "same_json t u \<Longrightarrow> same_run u t \<and> xt_Status u = xt_Status t \<and> xt_IterationCount u = xt_IterationCount t \<and>
     xt_AbortReason u = xt_AbortReason t \<and> xt_CurrentStep u = xt_CurrentStep t \<and> (xt_Plan u = [] \<longleftrightarrow> xt_Plan t = [])"
  by (cases t; cases u) (auto simp: same_json_def same_run_def)

text \<open>A task as \<open>CreateTask\<close> leaves it.\<close>

definition fresh_task :: "exec_task \<Rightarrow> bool" where
  "fresh_task t \<longleftrightarrow> xt_Status t = LoopPending \<and> xt_Plan t = [] \<and> xt_CurrentStep t = 0 \<and> xt_IterationCount t = 0 \<and>
     xt_MaxIterations t = MaxIterations \<and> xt_AbortReason t = ''''"

lemma loop_new_task_fields [simp]:
  "fresh_task (loop_new_task uid opp goal now)" "xt_ID (loop_new_task uid opp goal now) = uid"
  "xt_Goal (loop_new_task uid opp goal now) = goal" "xt_OpportunityID (loop_new_task uid opp goal now) = opp"
  "loop_task_ok (loop_new_task uid opp goal now)"
  by (simp_all add: loop_new_task_def fresh_task_def loop_task_ok_def MaxIterations_def)

lemma fresh_same_json: "fresh_task t \<Longrightarrow> same_json t u \<Longrightarrow> fresh_task u"
  using same_json_fields [of t u] by (auto simp: fresh_task_def same_run_def)

context loop_store
begin

lemma CreateTask_stores:
  assumes "good (lw_store w)" and "xv_tasks (view (lw_store w)) (ld_uuid deps (Suc (lw_tick w))) = None"
  shows "wp (loop_CreateTask ops deps opp goal) (\<lambda>r w'. good (lw_store w') \<and> lw_calls w' = lw_calls w \<and>
     (healthy (lw_store w) \<longrightarrow> healthy (lw_store w')) \<and> xv_obs (view (lw_store w')) = xv_obs (view (lw_store w)) \<and>
     lw_tick w' = Suc (Suc (lw_tick w)) \<and>
     (\<forall>t. r = Inr t \<longrightarrow> xt_ID t = ld_uuid deps (Suc (lw_tick w)) \<and> xt_Goal t = goal \<and> xt_OpportunityID t = opp \<and> fresh_task t \<and>
       (\<exists>u. xv_tasks (view (lw_store w')) (xt_ID t) = Some u \<and> same_json t u)) \<and>
     (healthy (lw_store w) \<longrightarrow> (\<forall>now. accepts (loop_new_task (ld_uuid deps (Suc (lw_tick w))) opp goal now)) \<longrightarrow> \<not> isl r)) w"
proof -
  let ?t = "loop_new_task (ld_uuid deps (Suc (lw_tick w))) opp goal (ld_now deps (lw_tick w))"
  obtain e s' where i: "x_Insert ops ?t (lw_store w) = (e, s')" by fastforce
  have l: "good s'" "healthy (lw_store w) \<longrightarrow> healthy s'" "wrote_task e ?t (view (lw_store w)) (view s')"
    "healthy (lw_store w) \<longrightarrow> accepts ?t \<longrightarrow> e = None"
    using insert_law [OF assms(1) _ _ i, simplified loop_new_task_fields, OF assms(2) TrueI] by blast+
  then have o: "xv_obs (view s') = xv_obs (view (lw_store w))" by (auto simp: wrote_task_def)
  show ?thesis
  proof (cases e)
    case None
    obtain u where "same_json ?t u" "xv_tasks (view s') (xt_ID ?t) = Some u" using l(3) None by (auto simp: wrote_task_def)
    then show ?thesis using l o None by (simp add: loop_CreateTask_def wp_rules Let_def i)
  next
    case (Some err)
    then show ?thesis using l o by (auto simp: loop_CreateTask_def wp_rules Let_def i)
  qed
qed

end

context loop_store
begin

lemma RunLoop_calm:
  assumes g: "good (lw_store w)" "healthy (lw_store w)" and t: "xv_tasks (view (lw_store w)) tid = Some t" "fresh_task t"
    and goal: "xt_Goal t \<noteq> ''''" and obs: "xv_obs (view (lw_store w)) tid = []" and c: "calm deps (lw_tick w)"
    and ta: "takes_all deps accepts accepts_obs t"
  shows "wp (RunLoop ops deps tid) (\<lambda>(t', e) w'. e = None \<and>
     (\<exists>cs. lw_calls w' = lw_calls w @ cs \<and>
        retry_policy (nat MaxIterations) 0 (map (reply deps) cs) = Some (xt_Status t', xt_AbortReason t')) \<and>
     (\<exists>u. xv_tasks (view (lw_store w')) tid = Some u \<and> same_json t' u)) w"
proof -
  let ?Q = "\<lambda>(t', e) w'. e = None \<and> (\<exists>cs. lw_calls w' = lw_calls w @ cs \<and>
        retry_policy (nat MaxIterations) 0 (map (reply deps) cs) = Some (xt_Status t', xt_AbortReason t')) \<and>
     (\<exists>u. xv_tasks (view (lw_store w')) tid = Some u \<and> same_json t' u)"
  obtain r s1 where r: "x_Get ops tid (lw_store w) = (r, s1)" by fastforce
  note law = get_law [OF g(1) r]
  have s1: "good s1" "healthy s1" "view s1 = view (lw_store w)" using law g(2) by blast+
  have "r = (case xv_tasks (view (lw_store w)) tid of None \<Rightarrow> Inl ErrLoopTaskNotFound | Some t \<Rightarrow> Inr t)" using law g(2) by blast
  then have rt: "r = Inr t" unfolding t(1) by simp
  let ?w1 = "w\<lparr>lw_store := s1, lw_tick := Suc (lw_tick w)\<rparr>"
  let ?t1 = "t\<lparr>xt_Status := LoopRunning, xt_UpdatedAt := ld_now deps (lw_tick w)\<rparr>"
  have tid: "xt_ID t = tid" using task_law [OF g(1) t(1)] by simp
  have acc: "accepts ?t1" using ta t(2) by (auto simp: takes_all_def same_run_def own_plan_def fresh_task_def MaxIterations_def)
  have main: "wp (run_started ops deps ?t1) ?Q w2"
    if w2: "good (lw_store w2)" "healthy (lw_store w2)" "xv_obs (view (lw_store w2)) = xv_obs (view (lw_store w))"
      "xv_tasks (view (lw_store w2)) tid = Some u" "same_run ?t1 u" "lw_calls w2 = lw_calls w" "lw_tick w2 = Suc (lw_tick w)" for w2 u
  proof -
    have gate: "\<not> (mode k = ''frozen'' \<or> mode k = ''rollback_only'')" if "ld_governance deps = Some mode" for mode k
      using c that by (auto simp: calm_def mode_verdict_def split: if_splits)
    have "wp (main_loop ops deps (ld_now deps k + MaxExecutionTimeSec * Second) ?t1) ?Q (w2\<lparr>lw_tick := Suc k\<rparr>)"
      if "Suc (lw_tick w) \<le> k" "k \<le> Suc (Suc (lw_tick w))" for k
      unfolding main_loop_def
    proof (rule wp_mono [OF iterate_calm [OF c, where f = 0]], goal_cases)
      case 1
      show ?case using c that by (simp add: calm_def strict_mono_less_eq)
    next
      case 4
      show ?case using w2 t(2) goal obs tid
        by (auto simp: between_def same_run_def loop_task_ok_def fresh_task_def own_plan_def tail_failures_def MaxIterations_def)
    next
      case (9 a w')
      then show ?case using t(2) w2(6) tid by (auto simp: fresh_task_def)
    qed (use w2 ta t(2) that in \<open>auto simp: takes_all_def same_run_def fresh_task_def MaxIterations_def\<close>)
    then show ?thesis using gate w2(7) by (auto simp: run_started_def wp_rules split: option.split)
  qed
  have "wp (start_task ops deps t) (\<lambda>a. wp (case a of Inl res \<Rightarrow> State_Monad.return res | Inr task \<Rightarrow> run_started ops deps task) ?Q)
      (w\<lparr>lw_store := s1\<rparr>)"
    unfolding start_task_def using t(2)
    apply (simp add: wp_bind wp_nowUTC Let_def fresh_task_def ValidateTaskTransition_def loop_transitions_def)
    apply (rule wp_mono [OF update_calm [of ?w1 ?t1 t]])
    using s1 t tid acc g main
    by (auto simp: wp_return same_run_def loop_task_ok_def fresh_task_def MaxIterations_def)
  then show ?thesis using t(2) by (simp add: RunLoop_def wp_bind wp_stored r rt fresh_task_def)
qed

end

context loop_store
begin

lemma CreateAndRun_calm:
  assumes g: "good (lw_store w)" "healthy (lw_store w)" and uid: "uid = ld_uuid deps (Suc (lw_tick w))"
    and new: "xv_tasks (view (lw_store w)) uid = None" "xv_obs (view (lw_store w)) uid = []"
    and goal: "goal \<noteq> ''''" and c: "calm deps (Suc (Suc (lw_tick w)))"
    and ta: "\<And>t. xt_Goal t = goal \<Longrightarrow> xt_OpportunityID t = '''' \<Longrightarrow> xt_MaxIterations t = MaxIterations \<Longrightarrow> takes_all deps accepts accepts_obs t"
  shows "wp (CreateAndRun ops deps goal) (\<lambda>r w'. \<exists>st reason cs u. r = Inr (uid, st, '''') \<and> lw_calls w' = lw_calls w @ cs \<and>
     retry_policy (nat MaxIterations) 0 (map (reply deps) cs) = Some (st, reason) \<and>
     xv_tasks (view (lw_store w')) uid = Some u \<and> xt_Status u = st \<and> xt_AbortReason u = reason) w"
proof -
  have acc: "accepts (loop_new_task uid '''' goal now)" for now
  proof -
    let ?t = "loop_new_task uid '''' goal now"
    have "takes_all deps accepts accepts_obs ?t" by (rule ta) (simp_all add: loop_new_task_def)
    moreover have "own_plan ?t" "0 \<le> xt_IterationCount ?t" "xt_IterationCount ?t \<le> MaxIterations"
      by (simp_all add: loop_new_task_def own_plan_def MaxIterations_def)
    ultimately show ?thesis unfolding takes_all_def by (auto simp: same_run_def)
  qed
  show ?thesis unfolding CreateAndRun_def
  proof (rule wp_seq [OF CreateTask_stores [OF g(1) new(1) [unfolded uid]]], goal_cases)
    case (1 r w1)
    obtain t u where r: "r = Inr t" and t: "xt_ID t = uid" "xt_Goal t = goal" "xt_OpportunityID t = ''''" "fresh_task t"
      and u: "xv_tasks (view (lw_store w1)) uid = Some u" "same_json t u"
      using 1 g(2) acc uid by (cases r) auto
    have w1: "good (lw_store w1)" "healthy (lw_store w1)" "lw_calls w1 = lw_calls w" "xv_obs (view (lw_store w1)) uid = []"
      "calm deps (lw_tick w1)" using 1 g(2) new(2) c by simp_all
    have fu: "fresh_task u" "xt_Goal u = goal" "xt_OpportunityID u = ''''" "xt_MaxIterations u = MaxIterations"
      using same_json_fields [OF u(2)] t fresh_same_json [OF t(4) u(2)] by (auto simp: same_run_def fresh_task_def)
    have run: "wp (RunLoop ops deps uid) (\<lambda>(t', e) w'. e = None \<and>
       (\<exists>cs. lw_calls w' = lw_calls w1 @ cs \<and> retry_policy (nat MaxIterations) 0 (map (reply deps) cs) = Some (xt_Status t', xt_AbortReason t')) \<and>
       (\<exists>u. xv_tasks (view (lw_store w')) uid = Some u \<and> same_json t' u)) w1"
      by (rule RunLoop_calm [OF w1(1,2) u(1) fu(1) _ w1(4,5) ta]) (use goal fu in simp_all)
    show ?case unfolding r sum.case Let_def wp_bind t(1)
      by (rule wp_mono [OF run]) (use w1(3) same_json_fields in \<open>force simp: wp_return\<close>)
  qed
qed

end

text \<open>
  Without success no completion: when no reply to the loop's only tool reports success, the plan never
  holds an executed step, whichever database calls fail.
\<close>

definition hopeless :: "loop_deps \<Rightarrow> bool" where
  "hopeless deps \<longleftrightarrow> (\<forall>ext n p opp r. ld_extActions deps = Some ext \<longrightarrow> ext n ''external_action'' p opp = Inr r \<longrightarrow> \<not> er_Success r)"

definition untouched :: "exec_task \<Rightarrow> bool" where
  "untouched t \<longleftrightarrow> list_all (\<lambda>st. xs_Status st \<noteq> StepStatusExecuted \<and> xs_Tool st = ''external_action'') (xt_Plan t)"

lemma untouched_not_satisfied: "untouched t \<Longrightarrow> \<not> goalSatisfied t"
  by (auto simp: untouched_def goalSatisfied_def list_all_iff list_ex_iff)

lemma untouched_simps [simp]:
  "untouched (t\<lparr>xt_UpdatedAt := now\<rparr>) = untouched t" "untouched (t\<lparr>xt_CurrentStep := c\<rparr>) = untouched t"
  "untouched (t\<lparr>xt_IterationCount := k\<rparr>) = untouched t" "untouched (t\<lparr>xt_Plan := []\<rparr>)"
  "untouched (t\<lparr>xt_Status := st\<rparr>) = untouched t"
  by (simp_all add: untouched_def)

lemma untouched_update:
  "untouched t \<Longrightarrow> xs_Tool st = ''external_action'' \<Longrightarrow> xs_Status st \<noteq> StepStatusExecuted \<Longrightarrow>
   untouched (t\<lparr>xt_Plan := (xt_Plan t)[i := st]\<rparr>)"
  using set_update_subset_insert [of "xt_Plan t" i st] by (auto simp: untouched_def list_all_iff)

lemma untouched_adapt: "untouched t \<Longrightarrow> untouched (t\<lparr>xt_Plan := AdaptPlan (xt_Plan t) sid err\<rparr>)"
  by (auto simp: untouched_def AdaptPlan_def list_all_iff Let_def split: if_splits)

lemma untouched_reflect:
  assumes "untouched t" and "xt_Plan t ! i = st" and "i < length (xt_Plan t)" and "\<not> er_Success r"
  shows "untouched (t\<lparr>xt_Plan := reflect_result r i st (xt_Plan t)\<rparr>)"
proof -
  have "xs_Tool st = ''external_action''" using assms by (auto simp: untouched_def list_all_length)
  then have "untouched (t\<lparr>xt_Plan := (xt_Plan t)[i := step_outcome r st]\<rparr>)"
    using assms by (intro untouched_update) (auto simp: step_outcome_def)
  then show ?thesis using untouched_adapt [of "t\<lparr>xt_Plan := (xt_Plan t)[i := step_outcome r st]\<rparr>" "xs_ID st" "er_Error r"] assms(2,4)
    by (simp add: reflect_result_def Let_def)
qed

lemma pending_from_nth: "pending_from k sts = Some (st, i) \<Longrightarrow> k \<le> i \<and> i < k + length sts \<and> sts ! (i - k) = st"
  by (induction k sts rule: pending_from.induct) (auto split: if_splits simp: nth_Cons')

lemma loop_plan_untouched:
  "untouched t \<Longrightarrow> wp (loop_plan deps t) (\<lambda>r _. \<forall>t'. r = Some t' \<longrightarrow> untouched t') w"
  by (auto simp: loop_plan_def GeneratePlan_def NewPlanner_def wp_rules untouched_def split: sum.splits)

definition unfinished :: "loop_progress \<Rightarrow> bool" where
  "unfinished r = (case r of Inl (t, e) \<Rightarrow> xt_Status t = LoopAborted | Inr t \<Rightarrow> untouched t)"

lemma abort_unfinished: "wp (abortTask ops deps t reason) (\<lambda>(t', e) _. xt_Status t' = LoopAborted) w"
  unfolding abortTask_def by (rule wp_mono [OF finish_task_same]) auto

lemma save_unfinished:
  "untouched t \<Longrightarrow> wp (do { t' \<leftarrow> save_task ops deps t; State_Monad.return (Inr t') }) (\<lambda>r _. unfinished r) w"
  by (rule wp_seq [OF save_task_same]) (auto simp: wp_return unfinished_def)

lemma execute_step_unfinished:
  assumes "hopeless deps" and t: "untouched t" and i: "i < length (xt_Plan t)" and st: "xt_Plan t ! i = st"
  shows "wp (execute_step ops deps t st i) (\<lambda>r _. unfinished r) w"
  unfolding execute_step_def
proof (rule wp_seq [OF executor_result], goal_cases)
  case (1 r w1)
  have "xs_Tool st = ''external_action''" using t i st by (auto simp: untouched_def list_all_length)
  then have "\<not> er_Success r" using 1 assms(1) by (auto simp: hopeless_def)
  then have u: "untouched (t\<lparr>xt_Plan := reflect_result r i st (xt_Plan t)\<rparr>)" by (rule untouched_reflect [OF t st i])
  show ?case
    apply (rule wp_seq [OF quiet_wp [OF quiet_basic(5)]])
    apply (rule wp_seq [OF quiet_wp [OF quiet_basic(3)]])
    apply (rule wp_seq [OF quiet_wp [OF quiet_basic(4)]])
    apply (rule wp_seq [OF save_task_same])
    using u by (auto simp: untouched_not_satisfied wp_return unfinished_def)
qed

lemma loop_step_unfinished:
  assumes "hopeless deps" and "untouched t"
  shows "wp (loop_step ops deps t) (\<lambda>r _. unfinished r) w"
proof (cases "getNextPendingStep t")
  case None
  then show ?thesis using assms untouched_not_satisfied by (auto simp: loop_step_def intro!: save_unfinished)
next
  case (Some p)
  then obtain st i where p: "p = (st, i)" and i: "i < length (xt_Plan t)" "xt_Plan t ! i = st"
    using pending_from_nth by (cases p) (fastforce simp: getNextPendingStep_def)
  have "xs_Tool st = ''external_action''" using assms i by (auto simp: untouched_def list_all_length)
  then have u: "untouched (t\<lparr>xt_Plan := (xt_Plan t)[i := st\<lparr>xs_Status := StepStatusBlocked\<rparr>]\<rparr>)"
    using assms(2) by (intro untouched_update) auto
  show ?thesis unfolding loop_step_def Some p option.case prod.case Let_def
    by (rule wp_seq [OF quiet_wp [OF quiet_blocked]])
      (use u assms i in \<open>auto intro!: save_unfinished execute_step_unfinished simp: untouched_def\<close>)
qed

lemma iterate_unfinished:
  assumes "hopeless deps" and "untouched t"
  shows "wp (iterate ops deps deadline n t) (\<lambda>(t', e) _. xt_Status t' = LoopAborted) w"
  using assms(2)
proof (induction n arbitrary: t w)
  case 0
  show ?case unfolding iterate.simps by (rule abort_unfinished)
next
  case (Suc n)
  have it: "wp (loop_iteration ops deps deadline t) (\<lambda>r _. unfinished r) v" for v
    unfolding loop_iteration_def Let_def
  proof (rule wp_seq [OF quiet_wp [OF quiet_checks]], goal_cases)
    case (1 stop w1)
    show ?case
    proof (cases stop)
      case None
      show ?thesis unfolding None option.case
        by (rule wp_seq [OF loop_plan_untouched])
          (use Suc.prems assms(1) in \<open>auto intro!: save_unfinished loop_step_unfinished split: option.split\<close>)
    next
      case (Some reason)
      show ?thesis unfolding Some option.case
        by (rule wp_seq [OF abort_unfinished]) (auto simp: wp_return unfinished_def)
    qed
  qed
  have "wp (case r of Inl res \<Rightarrow> State_Monad.return res | Inr t \<Rightarrow> iterate ops deps deadline n t)
      (\<lambda>(t', e) _. xt_Status t' = LoopAborted) v" if "unfinished r" for r v
    using that Suc.IH by (cases r) (auto simp: unfinished_def wp_return)
  then show ?case unfolding iterate.simps by (intro wp_seq [OF it])
qed

lemma RunLoop_unfinished:
  assumes "hopeless deps" and "\<And>t s'. x_Get ops tid (lw_store w) = (Inr t, s') \<Longrightarrow> untouched t \<and> xt_Status t \<noteq> LoopCompleted"
  shows "wp (RunLoop ops deps tid) (\<lambda>(t, e) _. xt_Status t \<noteq> LoopCompleted) w"
proof -
  have run: "wp (run_started ops deps t) (\<lambda>(t, e) _. xt_Status t \<noteq> LoopCompleted) v" if u: "untouched t" for t v
  proof -
    have "wp (abortTask ops deps t reason) (\<lambda>(t, e) _. xt_Status t \<noteq> LoopCompleted) v" for reason v
      by (rule wp_mono [OF abort_unfinished]) auto
    moreover have "wp (main_loop ops deps dl t) (\<lambda>(t, e) _. xt_Status t \<noteq> LoopCompleted) v" for dl v
      unfolding main_loop_def by (rule wp_mono [OF iterate_unfinished [OF assms(1) u]]) auto
    ultimately show ?thesis by (simp add: run_started_def wp_bind wp_tick wp_nowUTC wp_return split: option.split)
  qed
  obtain r s' where r: "x_Get ops tid (lw_store w) = (r, s')" by fastforce
  show ?thesis
  proof (cases r)
    case (Inr t)
    then have t: "untouched t" "xt_Status t \<noteq> LoopCompleted" using assms(2) r by auto
    show ?thesis using t
      by (auto simp: RunLoop_def wp_bind wp_stored r Inr wp_return start_task_def wp_nowUTC Let_def
        intro!: run split: prod.split option.split)
  qed (simp add: RunLoop_def wp_bind wp_stored r wp_return zero_task_def)
qed

context loop_store
begin

lemma CreateAndRun_unfinished:
  assumes "hopeless deps" and "good (lw_store w)" and "xv_tasks (view (lw_store w)) (ld_uuid deps (Suc (lw_tick w))) = None"
  shows "wp (CreateAndRun ops deps goal) (\<lambda>r _. \<forall>i st err. r = Inr (i, st, err) \<longrightarrow> st \<noteq> LoopCompleted) w"
  unfolding CreateAndRun_def
proof (rule wp_seq [OF CreateTask_stores [OF assms(2,3)]], goal_cases)
  case (1 r w1)
  show ?case
  proof (cases r)
    case (Inr t)
    then obtain u where u: "xv_tasks (view (lw_store w1)) (xt_ID t) = Some u" "same_json t u" and t: "fresh_task t"
      and g: "good (lw_store w1)" using 1 by blast
    have "untouched u" "xt_Status u \<noteq> LoopCompleted"
      using fresh_same_json [OF t u(2)] by (auto simp: fresh_task_def untouched_def)
    then have "wp (RunLoop ops deps (xt_ID t)) (\<lambda>(t, e) _. xt_Status t \<noteq> LoopCompleted) w1"
      by (intro RunLoop_unfinished [OF assms(1)]) (use get_law [OF g] u(1) in fastforce)
    then show ?thesis unfolding Inr sum.case Let_def wp_bind
      by (rule wp_mono) (auto simp: wp_return split: option.splits)
  qed (simp add: wp_return)
qed

end

section \<open>Properties\<close>

lemma xdb_takes_all:
  assumes "jb (goal_payload goal opp) \<noteq> None" and "jb ''null'' \<noteq> None"
    and "\<And>c p. er_Output (reply deps c) = Some p \<Longrightarrow> jb p \<noteq> None"
    and "xt_Goal t = goal" and "xt_OpportunityID t = opp" and "xt_MaxIterations t = MaxIterations"
  shows "takes_all deps (xdb_accepts jb) (xdb_accepts_obs jb) t"
proof -
  have plan: "plan_marshals pl \<and> stored_plan jb pl \<noteq> None"
    if "list_all (\<lambda>st. xs_Payload st = Some (goal_payload goal opp)) pl" for pl
    using that
  proof (induction pl)
    case (Cons st pl)
    then show ?case using assms(1) json_object_valid
      by (auto simp: plan_marshals_def stored_plan_def stored_step_def goal_payload_def)
  qed (simp add: plan_marshals_def stored_plan_def)
  have "xdb_accepts jb t'" if "same_run t' t" "own_plan t'" "0 \<le> xt_IterationCount t'" "xt_IterationCount t' \<le> MaxIterations" for t'
    using that plan [of "xt_Plan t'"] assms(4-6)
    by (auto simp: xdb_accepts_def own_plan_def same_run_def task_int4_def int4_def MaxIterations_def)
  moreover have "xdb_accepts_obs jb ob" if "ob_Output ob = er_Output (reply deps c)" for c ob
    using assms(2) assms(3) [of c] that by (auto simp: xdb_accepts_obs_def stored_output_def split: option.splits)
  ultimately show ?thesis by (auto simp: takes_all_def)
qed



text \<open>A concrete world: every external action fails, and so does the third database call.\<close>

definition wit_ldeps :: "(nat \<Rightarrow> string \<Rightarrow> string \<Rightarrow> string \<Rightarrow> string + executor_result) \<Rightarrow> loop_deps" where
  "wit_ldeps ext = \<lparr>ld_now = int, ld_uuid = (\<lambda>n. replicate n CHR ''a''), ld_governance = Some (\<lambda>_. ''normal''),
     ld_objective = None, ld_extActions = Some ext, ld_auditor = True\<rparr>"

definition wit_lworld :: "exec_task list \<Rightarrow> fault list \<Rightarrow> exec_db loop_world" where
  "wit_lworld ts fs = \<lparr>lw_store = \<lparr>xd_tasks = ts, xd_obs = [], xd_faults = fs, xd_error = ''broken pipe''\<rparr>,
     lw_tick = 0, lw_calls = [], lw_audit = []\<rparr>"


text \<open>
  C24: The loop with its planner, observer and stores implements a simple retry policy. On a healthy
  database, with an advancing clock inside the time budget and no governance or objective veto,
  creating and running a task for a goal makes a sequence of external calls after which the policy
  ends: it stops at the first success that needs no review, after three failures in a row, or after
  five attempts. The status and the reason the policy gives are the ones reported and stored.
\<close>

theorem run_follows_retry_policy:
  assumes "xdb_good (lw_store w)" and "xdb_healthy (lw_store w)" and "uid = ld_uuid deps (Suc (lw_tick w))"
    and "row_of xt_ID (xd_tasks (lw_store w)) uid = None" and "filter (\<lambda>ob. ob_TaskID ob = uid) (xd_obs (lw_store w)) = []"
    and "goal \<noteq> ''''" and "calm deps (Suc (Suc (lw_tick w)))"
    and "jb (goal_payload goal '''') \<noteq> None" and "jb ''null'' \<noteq> None"
    and "\<forall>c p. er_Output (reply deps c) = Some p \<longrightarrow> jb p \<noteq> None"
    and "run_state (CreateAndRun (xdb_ops jb) deps goal) w = (r, w')"
  shows "\<exists>st reason cs u. r = Inr (uid, st, '''') \<and> lw_calls w' = lw_calls w @ cs \<and>
    retry_policy (nat MaxIterations) 0 (map (reply deps) cs) = Some (st, reason) \<and>
    row_of xt_ID (xd_tasks (lw_store w')) uid = Some u \<and> xt_Status u = st \<and> xt_AbortReason u = reason"
proof -
  have "wp (CreateAndRun (xdb_ops jb) deps goal) (\<lambda>r w'. \<exists>st reason cs u. r = Inr (uid, st, '''') \<and> lw_calls w' = lw_calls w @ cs \<and>
     retry_policy (nat MaxIterations) 0 (map (reply deps) cs) = Some (st, reason) \<and>
     xv_tasks (xdb_view (lw_store w')) uid = Some u \<and> xt_Status u = st \<and> xt_AbortReason u = reason) w"
    by (rule xdb_store.CreateAndRun_calm [OF assms(1-3) _ _ assms(6,7)], goal_cases)
      (use assms(4,5) xdb_takes_all [OF assms(8,9)] assms(10) in \<open>auto simp: xdb_view_def obs_of_def\<close>)
  then show ?thesis using wp_run assms(11) by (fastforce simp: xdb_view_def)
qed

definition wit_ext :: "nat \<Rightarrow> string \<Rightarrow> string \<Rightarrow> string \<Rightarrow> string + executor_result" where
  "wit_ext n tool p opp = (if n < 12 then Inl ''boom''
     else Inr \<lparr>er_Success = True, er_Output = None, er_Error = '''', er_RequiresReview = False, er_DryRun = False, er_ActionID = ''a1''\<rparr>)"

lemma wit_calm: "calm (wit_ldeps ext) n"
proof -
  have "inj (\<lambda>n. replicate n CHR ''a'')" by (rule injI) (metis length_replicate)
  then show ?thesis
    by (simp add: calm_def wit_ldeps_def strict_mono_def mode_verdict_def duration_defs MaxExecutionTimeSec_def)
qed

theorem run_follows_retry_policy_witness:
  "\<exists>st reason cs w'. run_state (CreateAndRun (xdb_ops Some) (wit_ldeps wit_ext) ''write invoice'') (wit_lworld [] [])
     = (Inr (''a'', st, ''''), w') \<and> lw_calls w' = cs \<and>
     retry_policy 5 0 (map (reply (wit_ldeps wit_ext)) cs) = Some (st, reason)"
proof -
  let ?w = "wit_lworld [] []" and ?d = "wit_ldeps wit_ext"
  obtain r w' where run: "run_state (CreateAndRun (xdb_ops Some) ?d ''write invoice'') ?w = (r, w')" by fastforce
  have "\<exists>st reason cs u. r = Inr (''a'', st, '''') \<and> lw_calls w' = lw_calls ?w @ cs \<and>
    retry_policy (nat MaxIterations) 0 (map (reply ?d) cs) = Some (st, reason) \<and>
    row_of xt_ID (xd_tasks (lw_store w')) ''a'' = Some u \<and> xt_Status u = st \<and> xt_AbortReason u = reason"
    by (rule run_follows_retry_policy [OF _ _ _ _ _ _ wit_calm _ _ _ run])
      (simp_all add: wit_lworld_def xdb_good_def xdb_healthy_def wit_ldeps_def)
  then show ?thesis using run by (auto simp: wit_lworld_def MaxIterations_def)
qed

end
