(* ===== verification/External.thy ===== *)
theory External
  imports Task_Store Go_Json Programs
begin

text \<open>
  External actions: \<open>src/internal/agent/external_actions\<close>. An action is created, possibly held
  for review, approved, dry-run and executed through a connector. The engine's operations are
  computations of the state monad over a world that holds the two tables, the audit log and the
  executions that connectors performed. A connector is a record of functions, as in the Go interface;
  what it answers may change with every call. As elsewhere, which database calls fail is a list in
  the state, and \<open>ed_jsonb\<close> is PostgreSQL's input of a JSONB value.
\<close>

section \<open>Data\<close>

datatype ext_status = StatusCreated | StatusReviewRequired | StatusReady | StatusExecuted | StatusFailed

primrec ext_status_text :: "ext_status \<Rightarrow> string" where
  "ext_status_text StatusCreated = ''created''"
| "ext_status_text StatusReviewRequired = ''review_required''"
| "ext_status_text StatusReady = ''ready''"
| "ext_status_text StatusExecuted = ''executed''"
| "ext_status_text StatusFailed = ''failed''"

definition MaxRetries :: int where "MaxRetries = 3"

definition ext_transitions :: "(ext_status \<times> ext_status list) list" where
  "ext_transitions = [(StatusCreated, [StatusReviewRequired, StatusReady]),
     (StatusReviewRequired, [StatusReady, StatusFailed]), (StatusReady, [StatusExecuted, StatusFailed])]"

definition IsValidTransition :: "ext_status \<Rightarrow> ext_status \<Rightarrow> bool" where
  "IsValidTransition from to = (case map_of ext_transitions from of None \<Rightarrow> False | Some allowed \<Rightarrow> to \<in> set allowed)"

definition HighRiskActionTypes :: "string list" where
  "HighRiskActionTypes = [''send_message'', ''schedule_meeting'', ''publish_post'']"

definition IsValidActionType :: "string \<Rightarrow> bool" where
  "IsValidActionType ty \<longleftrightarrow> ty \<in> set [''draft_message'', ''send_message'', ''schedule_meeting'',
     ''publish_post'', ''create_task'', ''trigger_api'']"

text \<open>An instant is None where the Go value is the zero time.\<close>

record ext_action =
  ea_ID :: string
  ea_OpportunityID :: string
  ea_ActionType :: string
  ea_Payload :: string
  ea_Status :: ext_status
  ea_ConnectorName :: string
  ea_IdempotencyKey :: string
  ea_RiskLevel :: string
  ea_ReviewReason :: string
  ea_RetryCount :: int
  ea_MaxRetries :: int
  ea_DryRunCompleted :: bool
  ea_CreatedAt :: "time option"
  ea_UpdatedAt :: "time option"

record ext_result =
  xr_ID :: string
  xr_ActionID :: string
  xr_Success :: bool
  xr_ExternalID :: string
  xr_ResponsePayload :: "string option"
  xr_ErrorMessage :: string
  xr_Mode :: string
  xr_DurationMs :: int
  xr_ExecutedAt :: "time option"

definition zero_result :: ext_result where
  "zero_result = \<lparr>xr_ID = '''', xr_ActionID = '''', xr_Success = False, xr_ExternalID = '''', xr_ResponsePayload = None,
     xr_ErrorMessage = '''', xr_Mode = '''', xr_DurationMs = 0, xr_ExecutedAt = None\<rparr>"

datatype ext_error =
  ErrEmptyPayload | ErrInvalidPayload | ErrConnectorNotFound | ErrConnectorDisabled | ErrReviewRequired
  | ErrExtTransition string | ErrActionNotFound | ErrAlreadyExecuted | ErrMaxRetriesExceeded
  | ErrActionType string | ErrUnsupported string string | ErrExtWrapped string string | ErrConnector string

primrec ext_error_text :: "ext_error \<Rightarrow> string" where
  "ext_error_text ErrEmptyPayload = ''payload must not be empty''"
| "ext_error_text ErrInvalidPayload = ''payload is not valid JSON''"
| "ext_error_text ErrConnectorNotFound = ''no connector found for action type''"
| "ext_error_text ErrConnectorDisabled = ''connector is disabled''"
| "ext_error_text ErrReviewRequired = ''action requires review before execution''"
| "ext_error_text (ErrExtTransition s) = ''invalid status transition: '' @ s"
| "ext_error_text ErrActionNotFound = ''action not found''"
| "ext_error_text ErrAlreadyExecuted = ''action has already been executed''"
| "ext_error_text ErrMaxRetriesExceeded = ''maximum retries exceeded''"
| "ext_error_text (ErrActionType ty) = ''invalid action type: '' @ ty"
| "ext_error_text (ErrUnsupported c ty) = ''connector '' @ c @ '' does not support action type '' @ ty"
| "ext_error_text (ErrExtWrapped msg s) = msg @ '': '' @ s"
| "ext_error_text (ErrConnector s) = s"

definition ValidatePayload :: "string \<Rightarrow> ext_error option" where
  "ValidatePayload payload =
     (if payload = '''' then Some ErrEmptyPayload else if \<not> json_valid payload then Some ErrInvalidPayload else None)"

section \<open>Connectors and policy\<close>

record connector =
  cn_Name :: string
  cn_Supports :: "string \<Rightarrow> bool"
  cn_Enabled :: bool
  cn_Execute :: "nat \<Rightarrow> string \<Rightarrow> ext_result \<times> string option"
  cn_DryRun :: "nat \<Rightarrow> string \<Rightarrow> ext_result \<times> string option"

definition NoopConnector :: "(nat \<Rightarrow> time) \<Rightarrow> connector" where
  "NoopConnector now = \<lparr>cn_Name = ''noop'', cn_Supports = (\<lambda>_. True), cn_Enabled = True,
     cn_Execute = (\<lambda>n payload. (zero_result\<lparr>xr_Success := True, xr_ExternalID := ''noop-'' @ int_str (now n),
        xr_ResponsePayload := Some (json_object [(''connector'', ''noop''), (''status'', ''executed'')]),
        xr_Mode := ''execute'', xr_ExecutedAt := Some (now n)\<rparr>, None)),
     cn_DryRun = (\<lambda>n payload. (zero_result\<lparr>xr_Success := True,
        xr_ResponsePayload := Some (''{'' @ json_string ''connector'' @ '':'' @ json_string ''noop'' @ '','' @ json_string ''status'' @ '':''
          @ json_string ''dry_run'' @ '','' @ json_string ''would_execute'' @ '':true}''),
        xr_Mode := ''dry_run'', xr_ExecutedAt := Some (now n)\<rparr>, None))\<rparr>"

text \<open>The router's map is an association list by name; its order is the iteration order.\<close>

definition Route :: "(string \<times> connector) list \<Rightarrow> string \<Rightarrow> connector option" where
  "Route cs ty = map_option snd (find (\<lambda>(_, c). cn_Enabled c \<and> cn_Supports c ty) cs)"

definition RouteByName :: "(string \<times> connector) list \<Rightarrow> string \<Rightarrow> connector option" where
  "RouteByName cs name = (case map_of cs name of None \<Rightarrow> None | Some c \<Rightarrow> if cn_Enabled c then Some c else None)"

definition Register :: "connector \<Rightarrow> (string \<times> connector) list \<Rightarrow> (string \<times> connector) list" where
  "Register c cs = AList.update (cn_Name c) c cs"

record action_policy =
  ap_RequiresReview :: bool
  ap_RiskLevel :: string
  ap_Reason :: string

definition Evaluate :: "ext_action \<Rightarrow> action_policy" where
  "Evaluate a =
     (if ea_ActionType a \<in> set HighRiskActionTypes
      then \<lparr>ap_RequiresReview = True, ap_RiskLevel = ''high'',
            ap_Reason = ''action type '' @ ea_ActionType a @ '' requires human review''\<rparr>
      else if ea_OpportunityID a \<noteq> ''''
      then \<lparr>ap_RequiresReview = True, ap_RiskLevel = ''medium'',
            ap_Reason = ''action linked to income opportunity requires review''\<rparr>
      else \<lparr>ap_RequiresReview = False, ap_RiskLevel = ''low'',
            ap_Reason = ''standard action '' @ map char_of [226, 128, 148 :: nat] @ '' no review required''\<rparr>)"

section \<open>The world\<close>

record ext_deps =
  ed_now :: "nat \<Rightarrow> time"
  ed_uuid :: "nat \<Rightarrow> string"
  ed_jsonb :: "string \<Rightarrow> string option"
  ed_connectors :: "(string \<times> connector) list"
  ed_auditor :: bool

record ext_world =
  ew_actions :: "ext_action list"
  ew_results :: "ext_result list"
  ew_faults :: "fault list"
  ew_error :: string
  ew_tick :: nat
  ew_executed :: "(string \<times> string) list"
  ew_audit :: "(string \<times> string) list"

definition ext_tick :: "(ext_world, nat) state" where
  "ext_tick = State (\<lambda>w. (ew_tick w, w\<lparr>ew_tick := Suc (ew_tick w)\<rparr>))"

definition ext_now :: "ext_deps \<Rightarrow> (ext_world, time) state" where
  "ext_now deps = do { n \<leftarrow> ext_tick; State_Monad.return (ed_now deps n) }"

definition ext_uuid :: "ext_deps \<Rightarrow> (ext_world, string) state" where
  "ext_uuid deps = do { n \<leftarrow> ext_tick; State_Monad.return (ed_uuid deps n) }"

definition emitAudit :: "ext_deps \<Rightarrow> string \<Rightarrow> string \<Rightarrow> (ext_world, unit) state" where
  "emitAudit deps ev actionID =
     State (\<lambda>w. ((), if ed_auditor deps then w\<lparr>ew_audit := ew_audit w @ [(ev, actionID)]\<rparr> else w))"

definition performed :: "string \<Rightarrow> string \<Rightarrow> (ext_world, unit) state" where
  "performed actionID name = State (\<lambda>w. ((), w\<lparr>ew_executed := ew_executed w @ [(actionID, name)]\<rparr>))"

section \<open>Store\<close>

definition ext_next :: "ext_world \<Rightarrow> fault \<times> ext_world" where
  "ext_next w = (case ew_faults w of [] \<Rightarrow> (NoFault, w) | f # fs \<Rightarrow> (f, w\<lparr>ew_faults := fs\<rparr>))"

text \<open>A statement is None where it violates a constraint; the result is the driver's error.\<close>

definition ext_exec :: "(ext_world \<Rightarrow> ext_world option) \<Rightarrow> (ext_world, string option) state" where
  "ext_exec stmt = State (\<lambda>w.
     let (f, w) = ext_next w in
     case (f, stmt w) of
       (NoFault, Some w') \<Rightarrow> (None, w')
     | (FaultAfter, Some w') \<Rightarrow> (Some (ew_error w), w')
     | _ \<Rightarrow> (Some (ew_error w), w))"

definition insert_action :: "ext_action \<Rightarrow> ext_world \<Rightarrow> ext_world option" where
  "insert_action a w =
     (if row_of ea_ID (ew_actions w) (ea_ID a) = None \<and> row_of ea_IdempotencyKey (ew_actions w) (ea_IdempotencyKey a) = None \<and>
         int4 (ea_RetryCount a) \<and> int4 (ea_MaxRetries a)
      then Some (w\<lparr>ew_actions := ew_actions w @ [a]\<rparr>) else None)"

definition ext_store_CreateAction :: "ext_deps \<Rightarrow> ext_action \<Rightarrow> (ext_world, string + ext_action) state" where
  "ext_store_CreateAction deps a = do {
     now \<leftarrow> ext_now deps;
     let a = a\<lparr>ea_CreatedAt := (case ea_CreatedAt a of None \<Rightarrow> Some now | Some c \<Rightarrow> Some c), ea_UpdatedAt := Some now\<rparr>;
     case ed_jsonb deps (ea_Payload a) of
       None \<Rightarrow> do {
         e \<leftarrow> ext_exec (\<lambda>_. None);
         State_Monad.return (Inl (case e of None \<Rightarrow> '''' | Some s \<Rightarrow> s))
       }
     | Some p \<Rightarrow> do {
         let row = a\<lparr>ea_Payload := p\<rparr>;
         e \<leftarrow> ext_exec (insert_action row);
         State_Monad.return (case e of None \<Rightarrow> Inr row | Some s \<Rightarrow> Inl s)
       }
   }"

definition ext_store_GetAction :: "string \<Rightarrow> (ext_world, ext_action option) state" where
  "ext_store_GetAction actionID = State (\<lambda>w.
     let (f, w) = ext_next w in (if f = NoFault then row_of ea_ID (ew_actions w) actionID else None, w))"

definition update_action :: "string \<Rightarrow> (ext_action \<Rightarrow> ext_action) \<Rightarrow> ext_world \<Rightarrow> ext_world option" where
  "update_action actionID f w = Some (w\<lparr>ew_actions := sql_update (\<lambda>r. ea_ID r = actionID) f (ew_actions w)\<rparr>)"

definition UpdateActionStatus :: "ext_deps \<Rightarrow> string \<Rightarrow> ext_status \<Rightarrow> (ext_world, string option) state" where
  "UpdateActionStatus deps actionID st = do {
     now \<leftarrow> ext_now deps;
     ext_exec (update_action actionID (\<lambda>r. r\<lparr>ea_Status := st, ea_UpdatedAt := Some now\<rparr>))
   }"

definition UpdateActionDryRun :: "ext_deps \<Rightarrow> string \<Rightarrow> (ext_world, string option) state" where
  "UpdateActionDryRun deps actionID = do {
     now \<leftarrow> ext_now deps;
     ext_exec (update_action actionID (\<lambda>r. r\<lparr>ea_DryRunCompleted := True, ea_UpdatedAt := Some now\<rparr>))
   }"

definition IncrementRetryCount :: "ext_deps \<Rightarrow> string \<Rightarrow> (ext_world, string option) state" where
  "IncrementRetryCount deps actionID = do {
     now \<leftarrow> ext_now deps;
     ext_exec (\<lambda>w. case row_of ea_ID (ew_actions w) actionID of
         Some r \<Rightarrow> if int4 (ea_RetryCount r + 1)
           then update_action actionID (\<lambda>r. r\<lparr>ea_RetryCount := ea_RetryCount r + 1, ea_UpdatedAt := Some now\<rparr>) w else None
       | None \<Rightarrow> Some w)
   }"

text \<open>A response that is not JSON is stored as null, as is a missing one.\<close>

definition ext_store_CreateResult :: "ext_deps \<Rightarrow> ext_result \<Rightarrow> (ext_world, string + ext_result) state" where
  "ext_store_CreateResult deps r = do {
     now \<leftarrow> (case xr_ExecutedAt r of None \<Rightarrow> ext_now deps | Some x \<Rightarrow> State_Monad.return x);
     let resp = (case xr_ResponsePayload r of None \<Rightarrow> ''null'' | Some p \<Rightarrow> if json_valid p then p else ''null'');
     let row = r\<lparr>xr_ExecutedAt := Some now, xr_ResponsePayload := ed_jsonb deps resp\<rparr>;
     e \<leftarrow> ext_exec (\<lambda>w.
        if row_of ea_ID (ew_actions w) (xr_ActionID r) = None \<or> ed_jsonb deps resp = None \<or> row_of xr_ID (ew_results w) (xr_ID r) \<noteq> None
        then None else Some (w\<lparr>ew_results := ew_results w @ [row]\<rparr>));
     State_Monad.return (case e of None \<Rightarrow> Inr row | Some s \<Rightarrow> Inl s)
   }"

definition ext_rows :: "(ext_world \<Rightarrow> 'v list) \<Rightarrow> (ext_world, string + 'v list) state" where
  "ext_rows q = State (\<lambda>w. let (f, w) = ext_next w in (if f = NoFault then Inr (q w) else Inl (ew_error w), w))"

text \<open>A negative limit is an error of the statement.\<close>

definition ext_store_ListActions :: "int \<Rightarrow> (ext_world, string + ext_action list) state" where
  "ext_store_ListActions limit =
     (if limit < 0 then State (\<lambda>w. (Inl (ew_error w), snd (ext_next w)))
      else ext_rows (\<lambda>w. take (nat limit) (sql_sort (\<lambda>a b. case (ea_CreatedAt a, ea_CreatedAt b) of
             (Some x, Some y) \<Rightarrow> y < x | _ \<Rightarrow> False) (ew_actions w))))"

definition GetActionByIdempotencyKey :: "string \<Rightarrow> (ext_world, ext_action option) state" where
  "GetActionByIdempotencyKey key = State (\<lambda>w.
     let (f, w) = ext_next w in (if f = NoFault then row_of ea_IdempotencyKey (ew_actions w) key else None, w))"

definition ListResultsByAction :: "string \<Rightarrow> (ext_world, string + ext_result list) state" where
  "ListResultsByAction actionID = ext_rows (\<lambda>w. sql_sort (\<lambda>a b. case (xr_ExecutedAt a, xr_ExecutedAt b) of
             (Some x, Some y) \<Rightarrow> y < x | _ \<Rightarrow> False) (filter (\<lambda>r. xr_ActionID r = actionID) (ew_results w)))"

section \<open>Engine\<close>

definition select_connector :: "ext_deps \<Rightarrow> ext_action \<Rightarrow> ext_error + string" where
  "select_connector deps a =
     (if ea_ConnectorName a \<noteq> ''''
      then case RouteByName (ed_connectors deps) (ea_ConnectorName a) of
             None \<Rightarrow> Inl ErrConnectorNotFound
           | Some c \<Rightarrow> if \<not> cn_Supports c (ea_ActionType a) then Inl (ErrUnsupported (ea_ConnectorName a) (ea_ActionType a))
                      else Inr (ea_ConnectorName a)
      else case Route (ed_connectors deps) (ea_ActionType a) of
             None \<Rightarrow> Inl ErrConnectorNotFound | Some c \<Rightarrow> Inr (cn_Name c))"

definition apply_policy :: "ext_action \<Rightarrow> ext_action" where
  "apply_policy a =
     (let pol = Evaluate a; a = a\<lparr>ea_RiskLevel := ap_RiskLevel pol\<rparr> in
      if ap_RequiresReview pol then a\<lparr>ea_Status := StatusReviewRequired, ea_ReviewReason := ap_Reason pol\<rparr>
      else a\<lparr>ea_Status := StatusReady\<rparr>)"

definition CreateAction :: "ext_deps \<Rightarrow> ext_action \<Rightarrow> (ext_world, ext_error + ext_action) state" where
  "CreateAction deps a =
     (if \<not> IsValidActionType (ea_ActionType a) then State_Monad.return (Inl (ErrActionType (ea_ActionType a)))
      else case ValidatePayload (ea_Payload a) of
        Some e \<Rightarrow> State_Monad.return (Inl e)
      | None \<Rightarrow> do {
          uid \<leftarrow> ext_uuid deps;
          key \<leftarrow> (if ea_IdempotencyKey a = '''' then ext_uuid deps else State_Monad.return (ea_IdempotencyKey a));
          let a = a\<lparr>ea_ID := uid, ea_IdempotencyKey := key,
            ea_MaxRetries := (if ea_MaxRetries a = 0 then MaxRetries else ea_MaxRetries a)\<rparr>;
          case select_connector deps a of
            Inl e \<Rightarrow> State_Monad.return (Inl e)
          | Inr name \<Rightarrow> do {
              r \<leftarrow> ext_store_CreateAction deps (apply_policy (a\<lparr>ea_ConnectorName := name\<rparr>));
              case r of
                Inl e \<Rightarrow> State_Monad.return (Inl (ErrExtWrapped ''store action'' e))
              | Inr saved \<Rightarrow> do {
                  _ \<leftarrow> emitAudit deps ''external.action_created'' (ea_ID saved);
                  State_Monad.return (Inr saved)
                }
            }
        })"

definition ApproveAction :: "ext_deps \<Rightarrow> string \<Rightarrow> (ext_world, ext_error + ext_action) state" where
  "ApproveAction deps actionID = do {
     r \<leftarrow> ext_store_GetAction actionID;
     case r of
       None \<Rightarrow> State_Monad.return (Inl ErrActionNotFound)
     | Some action \<Rightarrow>
         if \<not> IsValidTransition (ea_Status action) StatusReady
         then State_Monad.return (Inl (ErrExtTransition (''cannot approve from status '' @ ext_status_text (ea_Status action))))
         else do {
           e \<leftarrow> UpdateActionStatus deps actionID StatusReady;
           case e of
             Some err \<Rightarrow> State_Monad.return (Inl (ErrExtWrapped ''update status'' err))
           | None \<Rightarrow> do {
               _ \<leftarrow> emitAudit deps ''external.action_approved'' actionID;
               State_Monad.return (Inr (action\<lparr>ea_Status := StatusReady\<rparr>))
             }
         }
   }"

text \<open>A connector call with the bookkeeping around it.\<close>

definition run_connector ::
  "ext_deps \<Rightarrow> (nat \<Rightarrow> string \<Rightarrow> ext_result \<times> string option) \<Rightarrow> string \<Rightarrow> ext_action \<Rightarrow>
   (ext_world, ext_result \<times> string option) state"
where
  "run_connector deps call mode action = do {
     start \<leftarrow> ext_now deps;
     n \<leftarrow> ext_tick;
     let (result, err) = call n (ea_Payload action);
     stop \<leftarrow> ext_now deps;
     uid \<leftarrow> ext_uuid deps;
     State_Monad.return (result\<lparr>xr_DurationMs := milliseconds (stop - start), xr_ID := uid,
       xr_ActionID := ea_ID action, xr_Mode := mode\<rparr>, err)
   }"

definition DryRun :: "ext_deps \<Rightarrow> string \<Rightarrow> (ext_world, ext_result \<times> ext_error option) state" where
  "DryRun deps actionID = do {
     r \<leftarrow> ext_store_GetAction actionID;
     case r of
       None \<Rightarrow> State_Monad.return (zero_result, Some ErrActionNotFound)
     | Some action \<Rightarrow>
         case RouteByName (ed_connectors deps) (ea_ConnectorName action) of
           None \<Rightarrow> State_Monad.return (zero_result, Some ErrConnectorNotFound)
         | Some c \<Rightarrow>
             if \<not> cn_Enabled c then State_Monad.return (zero_result, Some ErrConnectorDisabled)
             else do {
               (result, err) \<leftarrow> run_connector deps (cn_DryRun c) ''dry_run'' action;
               case err of
                 Some e \<Rightarrow> do {
                   _ \<leftarrow> emitAudit deps ''external.action_failed'' actionID;
                   State_Monad.return (result, Some (ErrConnector e))
                 }
               | None \<Rightarrow> do {
                   saved \<leftarrow> ext_store_CreateResult deps result;
                   _ \<leftarrow> UpdateActionDryRun deps actionID;
                   _ \<leftarrow> emitAudit deps ''external.action_dry_run'' actionID;
                   State_Monad.return (case saved of Inl _ \<Rightarrow> result | Inr s \<Rightarrow> s, None)
                 }
             }
   }"

text \<open>The part of \<open>Execute\<close> that runs the connector and records what it did.\<close>

definition execute_action ::
  "ext_deps \<Rightarrow> connector \<Rightarrow> ext_action \<Rightarrow> (ext_world, ext_result \<times> ext_error option) state"
where
  "execute_action deps c action = do {
     (result, err) \<leftarrow> run_connector deps (cn_Execute c) ''execute'' action;
     _ \<leftarrow> performed (ea_ID action) (ea_ConnectorName action);
     case err of
       Some e \<Rightarrow> do {
         let result = result\<lparr>xr_Success := False, xr_ErrorMessage := e\<rparr>;
         _ \<leftarrow> IncrementRetryCount deps (ea_ID action);
         _ \<leftarrow> ext_store_CreateResult deps result;
         _ \<leftarrow> emitAudit deps ''external.action_failed'' (ea_ID action);
         State_Monad.return (result, Some (ErrConnector e))
       }
     | None \<Rightarrow> do {
         _ \<leftarrow> UpdateActionStatus deps (ea_ID action) (if xr_Success result then StatusExecuted else StatusFailed);
         saved \<leftarrow> ext_store_CreateResult deps result;
         _ \<leftarrow> emitAudit deps ''external.action_executed'' (ea_ID action);
         State_Monad.return (case saved of Inl _ \<Rightarrow> result | Inr s \<Rightarrow> s, None)
       }
   }"

definition ext_Execute :: "ext_deps \<Rightarrow> string \<Rightarrow> (ext_world, ext_result \<times> ext_error option) state" where
  "ext_Execute deps actionID = do {
     r \<leftarrow> ext_store_GetAction actionID;
     case r of
       None \<Rightarrow> State_Monad.return (zero_result, Some ErrActionNotFound)
     | Some action \<Rightarrow>
         if ea_Status action = StatusReviewRequired then State_Monad.return (zero_result, Some ErrReviewRequired)
         else if ea_Status action = StatusExecuted then State_Monad.return (zero_result, Some ErrAlreadyExecuted)
         else if ea_Status action \<noteq> StatusReady
         then State_Monad.return (zero_result, Some (ErrExtTransition (''cannot execute from status '' @ ext_status_text (ea_Status action))))
         else case RouteByName (ed_connectors deps) (ea_ConnectorName action) of
           None \<Rightarrow> State_Monad.return (zero_result, Some ErrConnectorNotFound)
         | Some c \<Rightarrow>
             if \<not> cn_Enabled c then State_Monad.return (zero_result, Some ErrConnectorDisabled)
             else if ea_MaxRetries action \<le> ea_RetryCount action
             then do {
               _ \<leftarrow> UpdateActionStatus deps actionID StatusFailed;
               State_Monad.return (zero_result, Some ErrMaxRetriesExceeded)
             }
             else execute_action deps c action
   }"

section \<open>The bridge to the execution loop\<close>

text \<open>The action a request names only by type, payload and opportunity: every other field is its zero value.\<close>

definition new_ext_action :: "string \<Rightarrow> string \<Rightarrow> string \<Rightarrow> ext_action" where
  "new_ext_action ty payload opp = \<lparr>ea_ID = '''', ea_OpportunityID = opp, ea_ActionType = ty, ea_Payload = payload,
     ea_Status = StatusCreated, ea_ConnectorName = '''', ea_IdempotencyKey = '''', ea_RiskLevel = '''', ea_ReviewReason = '''',
     ea_RetryCount = 0, ea_MaxRetries = 0, ea_DryRunCompleted = False, ea_CreatedAt = None, ea_UpdatedAt = None\<rparr>"

section \<open>Histories\<close>

datatype ext_request = ReqCreate ext_action | ReqApprove string | ReqDryRun string | ReqExecute string

primrec ext_serve :: "ext_deps \<Rightarrow> ext_request \<Rightarrow> ext_world \<Rightarrow> ext_world" where
  "ext_serve deps (ReqCreate a) w = snd (run_state (CreateAction deps a) w)"
| "ext_serve deps (ReqApprove i) w = snd (run_state (ApproveAction deps i) w)"
| "ext_serve deps (ReqDryRun i) w = snd (run_state (DryRun deps i) w)"
| "ext_serve deps (ReqExecute i) w = snd (run_state (ext_Execute deps i) w)"

definition ext_history :: "ext_deps \<Rightarrow> ext_request list \<Rightarrow> ext_world \<Rightarrow> ext_world" where
  "ext_history deps reqs w = fold (ext_serve deps) reqs w"

section \<open>Rules of the calculus\<close>

lemma wp_ext_tick [wp_rules]: "wp ext_tick Q w = Q (ew_tick w) (w\<lparr>ew_tick := Suc (ew_tick w)\<rparr>)"
  by (simp add: wp_def ext_tick_def)

lemma wp_ext_now [wp_rules]: "wp (ext_now deps) Q w = Q (ed_now deps (ew_tick w)) (w\<lparr>ew_tick := Suc (ew_tick w)\<rparr>)"
  by (simp add: ext_now_def wp_rules)

lemma wp_ext_uuid [wp_rules]: "wp (ext_uuid deps) Q w = Q (ed_uuid deps (ew_tick w)) (w\<lparr>ew_tick := Suc (ew_tick w)\<rparr>)"
  by (simp add: ext_uuid_def wp_rules)

lemma wp_emitAudit [wp_rules]:
  "wp (emitAudit deps ev i) Q w = Q () (if ed_auditor deps then w\<lparr>ew_audit := ew_audit w @ [(ev, i)]\<rparr> else w)"
  by (simp add: wp_def emitAudit_def)

lemma wp_performed [wp_rules]: "wp (performed i c) Q w = Q () (w\<lparr>ew_executed := ew_executed w @ [(i, c)]\<rparr>)"
  by (simp add: wp_def performed_def)

text \<open>
  The state that matters for the properties: the table of actions, the executions, and whether the
  database is healthy. A statement keeps it, or changes it as its function says.
\<close>

definition ext_core :: "ext_world \<Rightarrow> ext_action list \<times> (string \<times> string) list" where
  "ext_core w = (ew_actions w, ew_executed w)"

definition ext_healthy :: "ext_world \<Rightarrow> bool" where "ext_healthy w \<longleftrightarrow> ew_faults w = []"

lemma ext_core_simps [simp]:
  "ext_core (w\<lparr>ew_tick := n\<rparr>) = ext_core w" "ext_core (w\<lparr>ew_audit := l\<rparr>) = ext_core w"
  "ext_core (w\<lparr>ew_results := rs\<rparr>) = ext_core w" "ext_core (w\<lparr>ew_faults := fs\<rparr>) = ext_core w"
  "ext_healthy (w\<lparr>ew_tick := n\<rparr>) = ext_healthy w" "ext_healthy (w\<lparr>ew_audit := l\<rparr>) = ext_healthy w"
  "ext_healthy (w\<lparr>ew_results := rs\<rparr>) = ext_healthy w" "ext_healthy (w\<lparr>ew_executed := xs\<rparr>) = ext_healthy w"
  "ext_healthy (w\<lparr>ew_actions := as\<rparr>) = ext_healthy w"
  by (simp_all add: ext_core_def ext_healthy_def)

lemma ext_exec_wp:
  assumes "\<And>v v'. ext_core v = ext_core w \<Longrightarrow> stmt v = Some v' \<Longrightarrow> P (ext_core v') \<and> ew_faults v' = ew_faults v"
    and "P (ext_core w)"
  shows "wp (ext_exec stmt) (\<lambda>_ w'. P (ext_core w') \<and> (ext_healthy w \<longrightarrow> ext_healthy w')) w"
proof -
  obtain f v where n: "ext_next w = (f, v)" by fastforce
  have v: "ext_core v = ext_core w" "ext_healthy w \<Longrightarrow> ext_healthy v"
    using n by (auto simp: ext_next_def ext_core_def ext_healthy_def split: list.splits)
  show ?thesis
    using assms(1) [OF v(1)] assms(2) v
    by (auto simp: wp_def ext_exec_def n Let_def ext_healthy_def split: fault.splits option.splits)
qed

lemma ext_store_GetAction_wp:
  "wp (ext_store_GetAction i) (\<lambda>r w'. ext_core w' = ext_core w \<and> (ext_healthy w \<longrightarrow> ext_healthy w') \<and>
     (\<forall>a. r = Some a \<longrightarrow> row_of ea_ID (fst (ext_core w)) i = Some a)) w"
  by (auto simp: wp_def ext_store_GetAction_def ext_next_def ext_core_def ext_healthy_def Let_def split: list.splits)

lemma run_connector_wp:
  "wp (run_connector deps call mode a) (\<lambda>_ w'. ext_core w' = ext_core w \<and> (ext_healthy w \<longrightarrow> ext_healthy w')) w"
  by (simp add: run_connector_def wp_rules Let_def case_prod_beta)

lemma ext_CreateResult_wp:
  "wp (ext_store_CreateResult deps r) (\<lambda>_ w'. ext_core w' = ext_core w \<and> (ext_healthy w \<longrightarrow> ext_healthy w')) w"
proof -
  have body: "wp (do { e \<leftarrow> ext_exec (\<lambda>w. if b w then None else Some (w\<lparr>ew_results := ew_results w @ [row]\<rparr>)); State_Monad.return (g e) })
    (\<lambda>_ w'. ext_core w' = ext_core w \<and> (ext_healthy w \<longrightarrow> ext_healthy w')) v"
    if "ext_core v = ext_core w" "ext_healthy v = ext_healthy w" for b row v and g :: "string option \<Rightarrow> string + ext_result"
    unfolding wp_bind
    by (rule wp_mono [OF ext_exec_wp [where P = "\<lambda>c. c = ext_core w"]])
      (use that in \<open>auto simp: wp_return ext_core_def split: if_splits\<close>)
  show ?thesis
  proof (cases "xr_ExecutedAt r")
    case None
    show ?thesis unfolding ext_store_CreateResult_def None option.case Let_def wp_bind [of "ext_now deps"] wp_ext_now by (rule body) simp_all
  next
    case (Some x)
    show ?thesis unfolding ext_store_CreateResult_def Some option.case Let_def bind_left_identity by (rule body) simp_all
  qed
qed

text \<open>An update of one row that keeps its identity.\<close>

lemma update_action_wp:
  assumes "\<And>now. P (sql_update (\<lambda>r. ea_ID r = i) (f now) (ew_actions w), ew_executed w)" and "P (ext_core w)"
  shows "wp (do { now \<leftarrow> ext_now deps; ext_exec (update_action i (f now)) })
    (\<lambda>_ w'. P (ext_core w') \<and> (ext_healthy w \<longrightarrow> ext_healthy w')) w"
  unfolding wp_bind wp_ext_now
  by (rule wp_mono [OF ext_exec_wp [where P = P]])
    (use assms in \<open>auto simp: update_action_def ext_core_def\<close>)

section \<open>Approval\<close>

definition needs_review :: "ext_action \<Rightarrow> bool" where
  "needs_review a \<longleftrightarrow> ap_RequiresReview (Evaluate a)"

lemma needs_review_iff: "needs_review a \<longleftrightarrow> ea_ActionType a \<in> set HighRiskActionTypes \<or> ea_OpportunityID a \<noteq> ''''"
  by (simp add: needs_review_def Evaluate_def)

text \<open>
  Given the actions some request approved: one that needs review and was not approved waits for it,
  and what was executed exists and was approved if it needed to be.
\<close>

definition reviewed :: "string set \<Rightarrow> ext_action list \<times> (string \<times> string) list \<Rightarrow> bool" where
  "reviewed A c \<longleftrightarrow> keyed ea_ID (fst c) \<and>
     (\<forall>a \<in> set (fst c). needs_review a \<longrightarrow> ea_ID a \<in> A \<or> ea_Status a = StatusReviewRequired) \<and>
     (\<forall>(i, n) \<in> set (snd c). \<exists>a \<in> set (fst c). ea_ID a = i \<and> (needs_review a \<longrightarrow> i \<in> A))"

lemma reviewed_mono: "reviewed A c \<Longrightarrow> A \<subseteq> B \<Longrightarrow> reviewed B c"
  unfolding reviewed_def by fast

lemma reviewed_update:
  assumes "reviewed A (as, xs)" and "\<And>a. ea_ID (f a) = ea_ID a" and "\<And>a. needs_review (f a) = needs_review a"
    and "\<And>a. a \<in> set as \<Longrightarrow> ea_ID a = i \<Longrightarrow> needs_review a \<Longrightarrow> i \<in> A \<or> ea_Status (f a) = StatusReviewRequired"
  shows "reviewed A (sql_update (\<lambda>r. ea_ID r = i) f as, xs)"
proof -
  have "keyed ea_ID (sql_update (\<lambda>r. ea_ID r = i) f as)" using assms(1,2) by (simp add: reviewed_def keyed_def map_sql_update)
  moreover have "\<exists>a \<in> set (sql_update (\<lambda>r. ea_ID r = i) f as). ea_ID a = j \<and> (needs_review a \<longrightarrow> j \<in> A)" if "(j, n) \<in> set xs" for j n
  proof -
    have "\<forall>x \<in> set xs. \<exists>a \<in> set as. ea_ID a = fst x \<and> (needs_review a \<longrightarrow> fst x \<in> A)"
      using assms(1) by (simp add: reviewed_def case_prod_beta)
    from bspec [OF this that] obtain a where "a \<in> set as" "ea_ID a = j" "needs_review a \<longrightarrow> j \<in> A" by auto
    then show ?thesis using assms(2,3)
      by (intro bexI [of _ "if ea_ID a = i then f a else a"]) (auto simp: set_sql_update)
  qed
  moreover have "ea_ID b \<in> A \<or> ea_Status b = StatusReviewRequired"
    if b: "b \<in> set (sql_update (\<lambda>r. ea_ID r = i) f as)" "needs_review b" for b
    using b(1)
  proof (rule sql_update_preimage)
    fix r
    assume r: "r \<in> set as" "b = (if ea_ID r = i then f r else r)"
    then show ?thesis using b(2) assms(1,2,3) assms(4) [of r] by (cases "ea_ID r = i") (auto simp: reviewed_def)
  qed
  ultimately show ?thesis unfolding reviewed_def by auto
qed

lemma reviewed_executed:
  assumes "reviewed A (as, xs)" and "row_of ea_ID as i = Some a" and "ea_Status a \<noteq> StatusReviewRequired"
  shows "reviewed A (as, xs @ [(i, n)])"
  using assms row_of_SomeD [OF assms(2)] by (auto simp: reviewed_def)

lemma CreateAction_reviewed:
  assumes "reviewed A (ext_core w)"
  shows "wp (CreateAction deps a) (\<lambda>_ w'. reviewed A (ext_core w')) w"
proof -
  have ins: "wp (ext_store_CreateAction deps a) (\<lambda>_ w'. reviewed A (ext_core w')) v"
    if v: "reviewed A (ext_core v)" and a: "needs_review a \<longrightarrow> ea_Status a = StatusReviewRequired" for v a
  proof -
    have none: "wp (ext_exec (\<lambda>_. None)) (\<lambda>_ w'. reviewed A (ext_core w')) u" if "ext_core u = ext_core v" for u
      by (rule wp_mono [OF ext_exec_wp [where P = "reviewed A"]]) (use v that in auto)
    have some: "wp (ext_exec (insert_action b)) (\<lambda>_ w'. reviewed A (ext_core w')) u"
      if "ext_core u = ext_core v" "needs_review b \<longrightarrow> ea_Status b = StatusReviewRequired" for u b
      by (rule wp_mono [OF ext_exec_wp [where P = "reviewed A"]])
        (use v that in \<open>auto simp: insert_action_def ext_core_def reviewed_def keyed_def row_of_None_iff split: if_splits\<close>)
    show ?thesis unfolding ext_store_CreateAction_def wp_bind wp_ext_now Let_def
      by (cases "ed_jsonb deps (ea_Payload a)")
        (use a in \<open>auto simp: wp_bind wp_return needs_review_iff intro!: wp_mono [OF none] wp_mono [OF some]\<close>)
  qed
  have pol: "needs_review (apply_policy b) \<longrightarrow> ea_Status (apply_policy b) = StatusReviewRequired" for b
    by (simp add: apply_policy_def needs_review_def Let_def Evaluate_def)
  have store: "wp (do { r \<leftarrow> ext_store_CreateAction deps (apply_policy b);
        case r of Inl e \<Rightarrow> State_Monad.return (Inl (ErrExtWrapped ''store action'' e))
        | Inr saved \<Rightarrow> do { _ \<leftarrow> emitAudit deps ''external.action_created'' (ea_ID saved); State_Monad.return (Inr saved) } })
      (\<lambda>_ w'. reviewed A (ext_core w')) v" if "reviewed A (ext_core v)" for b v
    by (rule wp_seq [OF ins [OF that pol]]) (auto simp: wp_rules split: sum.split)
  show ?thesis unfolding CreateAction_def
    using assms store by (auto simp: wp_bind wp_ext_uuid wp_return Let_def split: option.split sum.split)
qed

text \<open>An ignored statement that updates one row and keeps its identity.\<close>

lemma update_reviewed:
  assumes "reviewed A (ext_core w)" and "\<And>now a. ea_ID (f now a) = ea_ID a" and "\<And>now a. needs_review (f now a) = needs_review a"
    and "\<And>now a. a \<in> set (ew_actions w) \<Longrightarrow> ea_ID a = i \<Longrightarrow> needs_review a \<Longrightarrow> i \<in> A \<or> ea_Status (f now a) = StatusReviewRequired"
  shows "wp (do { now \<leftarrow> ext_now deps; ext_exec (update_action i (f now)) }) (\<lambda>_ w'. reviewed A (ext_core w')) w"
proof (rule wp_mono [OF update_action_wp [where P = "reviewed A"]], goal_cases)
  case (1 now)
  show ?case by (rule reviewed_update [OF assms(1) [unfolded ext_core_def] assms(2,3,4)])
qed (use assms(1) in simp_all)

lemma status_update_reviewed:
  "reviewed A (ext_core w) \<Longrightarrow> (\<And>a. a \<in> set (ew_actions w) \<Longrightarrow> ea_ID a = i \<Longrightarrow> needs_review a \<Longrightarrow> i \<in> A) \<Longrightarrow>
   wp (UpdateActionStatus deps i st) (\<lambda>_ w'. reviewed A (ext_core w')) w"
  unfolding UpdateActionStatus_def by (rule update_reviewed) (auto simp: needs_review_iff)

lemma retry_reviewed:
  assumes "reviewed A (ext_core w)"
  shows "wp (IncrementRetryCount deps i) (\<lambda>_ w'. reviewed A (ext_core w')) w"
proof -
  have "reviewed A (sql_update (\<lambda>r. ea_ID r = i) (\<lambda>r. r\<lparr>ea_RetryCount := ea_RetryCount r + 1, ea_UpdatedAt := Some now\<rparr>)
      (ew_actions w), ew_executed w)" for now
    by (rule reviewed_update [OF assms [unfolded ext_core_def]])
      (use assms in \<open>auto simp: needs_review_iff reviewed_def ext_core_def\<close>)
  then show ?thesis
    unfolding IncrementRetryCount_def wp_bind wp_ext_now
    by (intro wp_mono [OF ext_exec_wp [where P = "reviewed A"]])
      (use assms in \<open>auto simp: update_action_def ext_core_def split: option.splits if_splits\<close>)
qed

lemma CreateResult_reviewed:
  "reviewed A (ext_core w) \<Longrightarrow> wp (ext_store_CreateResult deps r) (\<lambda>_ w'. reviewed A (ext_core w')) w"
  by (rule wp_mono [OF ext_CreateResult_wp]) simp

lemma ApproveAction_reviewed:
  assumes "reviewed A (ext_core w)"
  shows "wp (ApproveAction deps i) (\<lambda>_ w'. reviewed (insert i A) (ext_core w')) w"
  unfolding ApproveAction_def
proof (rule wp_seq [OF ext_store_GetAction_wp], goal_cases)
  case (1 r v)
  have v: "reviewed (insert i A) (ext_core v)" using 1 assms by (auto intro: reviewed_mono)
  have "wp (do { e \<leftarrow> UpdateActionStatus deps i StatusReady; g e }) (\<lambda>_ w'. reviewed (insert i A) (ext_core w')) v"
    if "\<And>e u. reviewed (insert i A) (ext_core u) \<Longrightarrow> wp (g e) (\<lambda>_ w'. reviewed (insert i A) (ext_core w')) u" for g :: "string option \<Rightarrow> (ext_world, ext_error + ext_action) state"
    by (rule wp_seq [OF status_update_reviewed [OF v]]) (use that in auto)
  then show ?case using v by (auto simp: wp_return wp_emitAudit wp_bind split: option.split)
qed

lemma DryRun_reviewed:
  assumes "reviewed A (ext_core w)"
  shows "wp (DryRun deps i) (\<lambda>_ w'. reviewed A (ext_core w')) w"
  unfolding DryRun_def
proof (rule wp_seq [OF ext_store_GetAction_wp], goal_cases)
  case (1 r v)
  have v: "reviewed A (ext_core v)" using 1 assms by simp
  have dry: "wp (UpdateActionDryRun deps i) (\<lambda>_ w'. reviewed A (ext_core w')) u" if "reviewed A (ext_core u)" for u
    unfolding UpdateActionDryRun_def
    by (rule update_reviewed [OF that]) (use that in \<open>auto simp: needs_review_iff reviewed_def ext_core_def\<close>)
  have fin: "wp (do { saved \<leftarrow> ext_store_CreateResult deps res; _ \<leftarrow> UpdateActionDryRun deps i;
      _ \<leftarrow> emitAudit deps ''external.action_dry_run'' i; State_Monad.return (g saved) }) (\<lambda>_ w'. reviewed A (ext_core w')) u"
    if "reviewed A (ext_core u)" for res u and g :: "string + ext_result \<Rightarrow> ext_result \<times> ext_error option"
    by (rule wp_seq [OF CreateResult_reviewed [OF that]], rule wp_seq [OF dry]) (auto simp: wp_rules)
  have run: "wp (do { (result, err) \<leftarrow> run_connector deps (cn_DryRun c) ''dry_run'' a;
      case err of
        Some e \<Rightarrow> do { _ \<leftarrow> emitAudit deps ''external.action_failed'' i; State_Monad.return (result, Some (ErrConnector e)) }
      | None \<Rightarrow> do { saved \<leftarrow> ext_store_CreateResult deps result; _ \<leftarrow> UpdateActionDryRun deps i;
          _ \<leftarrow> emitAudit deps ''external.action_dry_run'' i;
          State_Monad.return (case saved of Inl _ \<Rightarrow> result | Inr s \<Rightarrow> s, None) } }) (\<lambda>_ w'. reviewed A (ext_core w')) v" for c a
    by (rule wp_seq [OF run_connector_wp]) (use v fin in \<open>auto simp: wp_rules split: option.split\<close>)
  show ?case using v run by (auto simp: wp_return split: option.split)
qed

lemma execute_action_reviewed:
  assumes "reviewed A (ext_core w)" and "row_of ea_ID (ew_actions w) i = Some a" and "ea_Status a \<noteq> StatusReviewRequired"
  shows "wp (execute_action deps c a) (\<lambda>_ w'. reviewed A (ext_core w')) w"
  unfolding execute_action_def
proof (rule wp_seq [OF run_connector_wp], goal_cases)
  case (1 p v)
  have i: "ea_ID a = i" "a \<in> set (ew_actions v)" using row_of_SomeD [OF assms(2)] 1 by (auto simp: ext_core_def)
  let ?v = "v\<lparr>ew_executed := ew_executed v @ [(ea_ID a, ea_ConnectorName a)]\<rparr>"
  have core: "ext_core v = (ew_actions w, ew_executed w)" using 1 by (simp add: ext_core_def)
  have v: "reviewed A (ext_core ?v)"
    using reviewed_executed [OF assms(1) [unfolded ext_core_def] assms(2,3), of "ea_ConnectorName a"] core i by (simp add: ext_core_def)
  have ap: "needs_review a \<Longrightarrow> i \<in> A" using assms(1,3) i core by (auto simp: reviewed_def ext_core_def)
  have "keyed ea_ID (ew_actions v)" using v by (simp add: reviewed_def ext_core_def)
  then have row: "b = a" if "b \<in> set (ew_actions v)" "ea_ID b = i" for b
    using that i by (auto simp: keyed_def distinct_map inj_on_def)
  have upd: "wp (UpdateActionStatus deps (ea_ID a) st) (\<lambda>_ w'. reviewed A (ext_core w')) ?v" for st
  proof (rule status_update_reviewed [OF v])
    fix b
    assume "b \<in> set (ew_actions ?v)" "ea_ID b = ea_ID a" "needs_review b"
    then show "ea_ID a \<in> A" using row [of b] ap i(1) by simp
  qed
  have tail: "wp (do { saved \<leftarrow> ext_store_CreateResult deps res; _ \<leftarrow> emitAudit deps ev (ea_ID a); State_Monad.return (g saved) })
      (\<lambda>_ w'. reviewed A (ext_core w')) u" if "reviewed A (ext_core u)" for res ev u and g :: "string + ext_result \<Rightarrow> ext_result \<times> ext_error option"
    by (rule wp_seq [OF CreateResult_reviewed [OF that]]) (auto simp: wp_rules)
  show ?case
    unfolding case_prod_beta wp_bind [of "performed _ _"] wp_performed
    by (cases "snd p"; simp only: option.case Let_def)
      (rule wp_seq [OF upd] wp_seq [OF retry_reviewed [OF v]]; rule tail; assumption)+
qed

lemma Execute_reviewed:
  assumes "reviewed A (ext_core w)"
  shows "wp (ext_Execute deps i) (\<lambda>_ w'. reviewed A (ext_core w')) w"
  unfolding ext_Execute_def
proof (rule wp_seq [OF ext_store_GetAction_wp], goal_cases)
  case (1 r v)
  have v: "reviewed A (ext_core v)" using 1 assms by simp
  show ?case
  proof (cases r)
    case (Some a)
    have a: "row_of ea_ID (ew_actions v) i = Some a" using 1 Some by (simp add: ext_core_def)
    have ex: "ea_Status a = StatusReady \<Longrightarrow> wp (execute_action deps c a) (\<lambda>_ w'. reviewed A (ext_core w')) v" for c
      by (rule execute_action_reviewed [OF v a]) simp
    have "b = a" if "b \<in> set (ew_actions v)" "ea_ID b = i" for b
      using that row_of_SomeD [OF a] v by (auto simp: keyed_def distinct_map inj_on_def reviewed_def ext_core_def)
    then have up: "ea_Status a = StatusReady \<Longrightarrow> wp (do { _ \<leftarrow> UpdateActionStatus deps i StatusFailed;
        State_Monad.return (zero_result, Some ErrMaxRetriesExceeded) }) (\<lambda>_ w'. reviewed A (ext_core w')) v"
      by (intro wp_seq [OF status_update_reviewed [OF v]])
        (use v row_of_SomeD [OF a] in \<open>auto simp: wp_return reviewed_def ext_core_def\<close>)
    show ?thesis using v ex up by (auto simp: Some wp_return split: option.split)
  qed (use v in \<open>simp add: wp_return\<close>)
qed

lemma ext_serve_reviewed:
  "reviewed A (ext_core w) \<Longrightarrow>
   reviewed (case r of ReqApprove i \<Rightarrow> insert i A | _ \<Rightarrow> A) (ext_core (ext_serve deps r w))"
  using wp_fst [OF CreateAction_reviewed] wp_fst [OF ApproveAction_reviewed] wp_fst [OF DryRun_reviewed]
    wp_fst [OF Execute_reviewed] by (cases r) simp_all

lemma ext_history_reviewed:
  "reviewed A (ext_core w) \<Longrightarrow> reviewed (A \<union> {i. ReqApprove i \<in> set reqs}) (ext_core (ext_history deps reqs w))"
proof (induction reqs arbitrary: A w)
  case (Cons r reqs)
  let ?B = "case r of ReqApprove i \<Rightarrow> insert i A | _ \<Rightarrow> A"
  have h: "reviewed (?B \<union> {i. ReqApprove i \<in> set reqs}) (ext_core (ext_history deps reqs (ext_serve deps r w)))"
    by (rule Cons.IH [OF ext_serve_reviewed [OF Cons.prems]])
  have e: "ext_history deps (r # reqs) w = ext_history deps reqs (ext_serve deps r w)" by (simp add: ext_history_def)
  have sub: "?B \<union> {i. ReqApprove i \<in> set reqs} \<subseteq> A \<union> {i. ReqApprove i \<in> set (r # reqs)}"
    by (auto split: ext_request.splits)
  show ?case unfolding e by (rule reviewed_mono [OF h sub])
qed (simp add: ext_history_def)

section \<open>Retries\<close>

definition executions :: "string \<Rightarrow> (string \<times> string) list \<Rightarrow> nat" where
  "executions i xs = length (filter (\<lambda>x. fst x = i) xs)"

definition attempts_left :: "ext_action \<Rightarrow> nat" where
  "attempts_left a = (if ea_Status a = StatusExecuted \<or> ea_Status a = StatusFailed then 0 else nat (ea_MaxRetries a - ea_RetryCount a))"

definition within_budget :: "string \<Rightarrow> nat \<Rightarrow> ext_action list \<times> (string \<times> string) list \<Rightarrow> bool" where
  "within_budget i B c \<longleftrightarrow> keyed ea_ID (fst c) \<and>
     (\<exists>a. row_of ea_ID (fst c) i = Some a \<and> int4 (ea_MaxRetries a) \<and> - (2 ^ 31) \<le> ea_RetryCount a \<and> executions i (snd c) + attempts_left a \<le> B)"

lemma row_of_unique: "keyed key t \<Longrightarrow> r \<in> set t \<Longrightarrow> row_of key t (key r) = Some r"
  by (induction t) (auto simp: image_iff)

lemma row_of_update_other:
  assumes "\<And>r. key (f r) = key r"
  shows "row_of key (sql_update (\<lambda>r. key r = j) f t) i = (if i = j then map_option f (row_of key t i) else row_of key t i)"
  using assms by (induction t) auto

lemma budget_update:
  assumes "within_budget i B (as, xs)" and "\<And>a. ea_ID (f a) = ea_ID a" and "\<And>a. ea_MaxRetries (f a) = ea_MaxRetries a"
    and "\<And>a. ea_RetryCount a \<le> ea_RetryCount (f a)"
    and "\<And>a. row_of ea_ID as i = Some a \<Longrightarrow> i = j \<Longrightarrow> attempts_left (f a) \<le> attempts_left a"
  shows "within_budget i B (sql_update (\<lambda>r. ea_ID r = j) f as, xs)"
proof -
  obtain a where a: "row_of ea_ID as i = Some a" "int4 (ea_MaxRetries a)" "- (2 ^ 31) \<le> ea_RetryCount a"
    "executions i xs + attempts_left a \<le> B" "keyed ea_ID as" using assms(1) by (auto simp: within_budget_def)
  let ?a = "if i = j then f a else a"
  have "row_of ea_ID (sql_update (\<lambda>r. ea_ID r = j) f as) i = Some ?a" using a(1) assms(2) by (auto simp: row_of_update_other)
  moreover have "int4 (ea_MaxRetries ?a)" using a(2) assms(3) by simp
  moreover have "- (2 ^ 31) \<le> ea_RetryCount ?a" using a(3) assms(4) [of a] by simp
  moreover have "executions i xs + attempts_left ?a \<le> B" using a(4) assms(5) [OF a(1)] by (cases "i = j") simp_all
  ultimately show ?thesis using a(5) assms(2) by (auto simp: within_budget_def keyed_def map_sql_update)
qed

lemma ext_exec_exact:
  "ext_healthy w \<Longrightarrow> wp (ext_exec stmt) (\<lambda>e w'. w' = (case stmt w of None \<Rightarrow> w | Some w' \<Rightarrow> w')) w"
  by (simp add: wp_def ext_exec_def ext_next_def ext_healthy_def split: option.split)

lemma budget_status:
  assumes "within_budget i B (ext_core w)" and "\<And>a. row_of ea_ID (ew_actions w) i = Some a \<Longrightarrow> i = j \<Longrightarrow>
      st \<in> {StatusExecuted, StatusFailed} \<or> ea_Status a \<notin> {StatusExecuted, StatusFailed}"
  shows "wp (UpdateActionStatus deps j st) (\<lambda>_ w'. within_budget i B (ext_core w') \<and> (ext_healthy w \<longrightarrow> ext_healthy w')) w"
  unfolding UpdateActionStatus_def
proof (rule update_action_wp [where P = "within_budget i B"], goal_cases)
  case (1 now)
  show ?case by (rule budget_update [OF assms(1) [unfolded ext_core_def]]) (use assms(2) in \<open>auto simp: attempts_left_def\<close>)
qed (rule assms(1))

lemma CreateAction_budget:
  assumes "within_budget i B (ext_core w)"
  shows "wp (CreateAction deps a) (\<lambda>_ w'. within_budget i B (ext_core w') \<and> (ext_healthy w \<longrightarrow> ext_healthy w')) w"
proof -
  let ?Q = "\<lambda>_ w'. within_budget i B (ext_core w') \<and> (ext_healthy w \<longrightarrow> ext_healthy w')"
  have ex: "wp (ext_exec stmt) ?Q v" if v: "within_budget i B (ext_core v)" "ext_healthy v = ext_healthy w"
    and st: "stmt = (\<lambda>_. None) \<or> (\<exists>b. stmt = insert_action b)" for v stmt
  proof -
    have "within_budget i B (ext_core u') \<and> ew_faults u' = ew_faults u" if "ext_core u = ext_core v" "stmt u = Some u'" for u u'
      using that v st
      by (auto simp: insert_action_def ext_core_def within_budget_def keyed_def row_of_append row_of_None_iff split: if_splits)
    from wp_mono [OF ext_exec_wp [where P = "within_budget i B", OF this v(1)]] show ?thesis using v(2) by auto
  qed
  have store: "wp (do { r \<leftarrow> ext_store_CreateAction deps b; g r }) ?Q v"
    if v: "within_budget i B (ext_core v)" "ext_healthy v = ext_healthy w" and g: "\<And>r u. ?Q r u \<Longrightarrow> wp (g r) ?Q u"
    for b v and g :: "string + ext_action \<Rightarrow> (ext_world, ext_error + ext_action) state"
    unfolding ext_store_CreateAction_def bind_assoc wp_bind [of "ext_now deps"] wp_ext_now Let_def
    by (cases "ed_jsonb deps (ea_Payload b)")
      (use v(2) in \<open>auto simp: wp_return bind_assoc intro!: wp_seq [OF ex] g v(1) split: option.split\<close>)
  have body: "wp (do { r \<leftarrow> ext_store_CreateAction deps (apply_policy b);
        case r of Inl e \<Rightarrow> State_Monad.return (Inl (ErrExtWrapped ''store action'' e))
        | Inr saved \<Rightarrow> do { _ \<leftarrow> emitAudit deps ''external.action_created'' (ea_ID saved); State_Monad.return (Inr saved) } }) ?Q v"
    if "within_budget i B (ext_core v)" "ext_healthy v = ext_healthy w" for b v
    by (rule store [OF that]) (auto simp: wp_rules split: sum.split)
  show ?thesis unfolding CreateAction_def
    using assms body by (auto simp: wp_bind wp_ext_uuid wp_return Let_def split: option.split sum.split)
qed

lemma ApproveAction_budget:
  assumes "within_budget i B (ext_core w)"
  shows "wp (ApproveAction deps j) (\<lambda>_ w'. within_budget i B (ext_core w') \<and> (ext_healthy w \<longrightarrow> ext_healthy w')) w"
  unfolding ApproveAction_def
proof (rule wp_seq [OF ext_store_GetAction_wp], goal_cases)
  case (1 r v)
  let ?Q = "\<lambda>_ w'. within_budget i B (ext_core w') \<and> (ext_healthy w \<longrightarrow> ext_healthy w')"
  have v: "within_budget i B (ext_core v)" "ext_healthy w \<longrightarrow> ext_healthy v" using 1 assms by simp_all
  show ?case
  proof (cases r)
    case (Some a)
    have "wp (do { e \<leftarrow> UpdateActionStatus deps j StatusReady; g e }) ?Q v"
      if tr: "IsValidTransition (ea_Status a) StatusReady" and g: "\<And>e u. ?Q e u \<Longrightarrow> wp (g e) ?Q u"
      for g :: "string option \<Rightarrow> (ext_world, ext_error + ext_action) state"
    proof (rule wp_seq [OF budget_status [OF v(1)]], goal_cases)
      case (1 b)
      then have "b = a" using \<open>ext_core v = ext_core w \<and> _\<close> Some by (auto simp: ext_core_def)
      then show ?case using tr by (auto simp: IsValidTransition_def ext_transitions_def split: if_splits)
    qed (use v(2) g in blast)
    then show ?thesis using v by (auto simp: Some wp_return wp_bind wp_emitAudit split: option.split)
  qed (use v in \<open>simp add: wp_return\<close>)
qed

lemma CreateResult_budget:
  "within_budget i B (ext_core w) \<Longrightarrow>
   wp (ext_store_CreateResult deps r) (\<lambda>_ w'. within_budget i B (ext_core w') \<and> (ext_healthy w \<longrightarrow> ext_healthy w')) w"
  by (rule wp_mono [OF ext_CreateResult_wp]) simp

lemma DryRun_budget:
  assumes "within_budget i B (ext_core w)"
  shows "wp (DryRun deps j) (\<lambda>_ w'. within_budget i B (ext_core w') \<and> (ext_healthy w \<longrightarrow> ext_healthy w')) w"
  unfolding DryRun_def
proof (rule wp_seq [OF ext_store_GetAction_wp], goal_cases)
  case (1 r v)
  let ?Q = "\<lambda>_ w'. within_budget i B (ext_core w') \<and> (ext_healthy w \<longrightarrow> ext_healthy w')"
  have v: "within_budget i B (ext_core v)" "ext_healthy w \<longrightarrow> ext_healthy v" using 1 assms by simp_all
  have dry: "wp (UpdateActionDryRun deps j) (\<lambda>_ w'. within_budget i B (ext_core w') \<and> (ext_healthy u \<longrightarrow> ext_healthy w')) u"
    if "within_budget i B (ext_core u)" for u
    unfolding UpdateActionDryRun_def
    by (rule update_action_wp [where P = "within_budget i B", OF budget_update])
      (use that in \<open>auto simp: ext_core_def attempts_left_def\<close>)
  have fin: "wp (do { saved \<leftarrow> ext_store_CreateResult deps res; _ \<leftarrow> UpdateActionDryRun deps j;
      _ \<leftarrow> emitAudit deps ''external.action_dry_run'' j; State_Monad.return (g saved) }) ?Q u"
    if "within_budget i B (ext_core u)" "ext_healthy w \<longrightarrow> ext_healthy u" for res u and g :: "string + ext_result \<Rightarrow> ext_result \<times> ext_error option"
    by (rule wp_seq [OF CreateResult_budget [OF that(1)]], rule wp_seq [OF dry]) (use that(2) in \<open>auto simp: wp_rules\<close>)
  have "wp (do { (result, err) \<leftarrow> run_connector deps (cn_DryRun c) ''dry_run'' a;
      case err of
        Some e \<Rightarrow> do { _ \<leftarrow> emitAudit deps ''external.action_failed'' j; State_Monad.return (result, Some (ErrConnector e)) }
      | None \<Rightarrow> do { saved \<leftarrow> ext_store_CreateResult deps result; _ \<leftarrow> UpdateActionDryRun deps j;
          _ \<leftarrow> emitAudit deps ''external.action_dry_run'' j;
          State_Monad.return (case saved of Inl _ \<Rightarrow> result | Inr s \<Rightarrow> s, None) } }) ?Q v" for c a
    by (rule wp_seq [OF run_connector_wp]) (use v fin in \<open>auto simp: wp_rules split: option.split\<close>)
  then show ?case using v by (auto simp: wp_return split: option.split)
qed

text \<open>An execution uses up one attempt, as long as the database takes the updates.\<close>

lemma execution_recorded:
  assumes "within_budget i B (as, xs)" and "row_of ea_ID as j = Some a" and "\<And>b. ea_ID (f b) = ea_ID b" and "\<And>b. ea_MaxRetries (f b) = ea_MaxRetries b"
    and "\<And>b. ea_RetryCount b \<le> ea_RetryCount (f b)" and "attempts_left (f a) < attempts_left a"
  shows "within_budget i B (sql_update (\<lambda>r. ea_ID r = j) f as, xs @ [(j, n)])"
proof -
  obtain b where b: "row_of ea_ID as i = Some b" "int4 (ea_MaxRetries b)" "- (2 ^ 31) \<le> ea_RetryCount b"
    "executions i xs + attempts_left b \<le> B" "keyed ea_ID as" using assms(1) by (auto simp: within_budget_def)
  let ?b = "if i = j then f b else b"
  have "row_of ea_ID (sql_update (\<lambda>r. ea_ID r = j) f as) i = Some ?b" using b(1) assms(3) by (auto simp: row_of_update_other)
  moreover have "int4 (ea_MaxRetries ?b)" using b(2) assms(4) by simp
  moreover have "- (2 ^ 31) \<le> ea_RetryCount ?b" using b(3) assms(5) [of b] by simp
  moreover have "executions i (xs @ [(j, n)]) + attempts_left ?b \<le> B"
    using b(1,4) assms(2,6) by (cases "i = j") (simp_all add: executions_def)
  ultimately show ?thesis using b(5) assms(3) by (auto simp: within_budget_def keyed_def map_sql_update)
qed

lemma execution_of_other: "within_budget i B (as, xs) \<Longrightarrow> i \<noteq> j \<Longrightarrow> within_budget i B (as, xs @ [(j, n)])"
  by (simp add: within_budget_def executions_def)

lemma execute_action_budget:
  assumes b: "within_budget i B (ext_core w)" and h: "ext_healthy w" and a: "row_of ea_ID (ew_actions w) (ea_ID a) = Some a"
    and r: "ea_Status a = StatusReady" "ea_RetryCount a < ea_MaxRetries a"
  shows "wp (execute_action deps c a) (\<lambda>_ w'. within_budget i B (ext_core w') \<and> ext_healthy w') w"
  unfolding execute_action_def
proof (rule wp_seq [OF run_connector_wp], goal_cases)
  case (1 p v)
  have core: "ew_actions v = ew_actions w" "ew_executed v = ew_executed w" "ext_healthy v" using 1 h by (auto simp: ext_core_def)
  let ?v = "v\<lparr>ew_executed := ew_executed v @ [(ea_ID a, ea_ConnectorName a)]\<rparr>"
  have int: "int4 (ea_RetryCount a + 1) \<or> i \<noteq> ea_ID a" using b r(2) a by (auto simp: within_budget_def ext_core_def int4_def)
  have upd: "wp (UpdateActionStatus deps (ea_ID a) (if s then StatusExecuted else StatusFailed))
      (\<lambda>_ w'. within_budget i B (ext_core w') \<and> ext_healthy w') ?v" for s
    unfolding UpdateActionStatus_def wp_bind wp_ext_now
    by (rule wp_mono [OF ext_exec_exact])
      (use core a r b in \<open>auto simp: update_action_def ext_core_def attempts_left_def intro!: execution_recorded\<close>)
  have retry: "wp (IncrementRetryCount deps (ea_ID a)) (\<lambda>_ w'. within_budget i B (ext_core w') \<and> ext_healthy w') ?v"
    unfolding IncrementRetryCount_def wp_bind wp_ext_now
    by (rule wp_mono [OF ext_exec_exact], use core in simp, cases "int4 (ea_RetryCount a + 1)")
      (use core a r b int in \<open>auto simp: update_action_def ext_core_def attempts_left_def intro!: execution_recorded\<close>,
       use core a b int in \<open>auto simp: ext_core_def intro!: execution_of_other\<close>)
  have tail: "wp (do { saved \<leftarrow> ext_store_CreateResult deps res; _ \<leftarrow> emitAudit deps ev (ea_ID a); State_Monad.return (g saved) })
      (\<lambda>_ w'. within_budget i B (ext_core w') \<and> ext_healthy w') u" if "within_budget i B (ext_core u) \<and> ext_healthy u"
    for res ev u and g :: "string + ext_result \<Rightarrow> ext_result \<times> ext_error option"
    by (rule wp_seq [OF CreateResult_budget]) (use that in \<open>auto simp: wp_rules\<close>)
  show ?case
    unfolding case_prod_beta wp_bind [of "performed _ _"] wp_performed
    by (cases "snd p"; simp only: option.case Let_def)
      (rule wp_seq [OF upd] wp_seq [OF retry]; rule tail; assumption)+
qed

lemma Execute_budget:
  assumes b: "within_budget i B (ext_core w)" and h: "ext_healthy w"
  shows "wp (ext_Execute deps j) (\<lambda>_ w'. within_budget i B (ext_core w') \<and> ext_healthy w') w"
  unfolding ext_Execute_def
proof (rule wp_seq [OF ext_store_GetAction_wp], goal_cases)
  case (1 r v)
  have v: "within_budget i B (ext_core v)" "ext_healthy v" using 1 assms by simp_all
  show ?case
  proof (cases r)
    case (Some a)
    have a: "row_of ea_ID (ew_actions v) j = Some a" "ea_ID a = j"
      using 1 Some row_of_SomeD [of ea_ID "ew_actions w" j a] by (auto simp: ext_core_def)
    have ex: "wp (execute_action deps c a) (\<lambda>_ w'. within_budget i B (ext_core w') \<and> ext_healthy w') v"
      if "ea_Status a = StatusReady" "\<not> ea_MaxRetries a \<le> ea_RetryCount a" for c
      by (rule execute_action_budget [OF v]) (use a that in simp_all)
    have up: "wp (do { _ \<leftarrow> UpdateActionStatus deps j StatusFailed; State_Monad.return (zero_result, Some ErrMaxRetriesExceeded) })
        (\<lambda>_ w'. within_budget i B (ext_core w') \<and> ext_healthy w') v"
      by (rule wp_seq [OF budget_status [OF v(1)]]) (use v(2) in \<open>auto simp: wp_return\<close>)
    show ?thesis using v ex up by (auto simp: Some wp_return split: option.split)
  qed (use v in \<open>simp add: wp_return\<close>)
qed

lemma ext_serve_budget:
  "within_budget i B (ext_core w) \<Longrightarrow> ext_healthy w \<Longrightarrow>
   within_budget i B (ext_core (ext_serve deps r w)) \<and> ext_healthy (ext_serve deps r w)"
  using wp_fst [OF CreateAction_budget [of i B w deps]] wp_fst [OF ApproveAction_budget [of i B w deps]]
    wp_fst [OF DryRun_budget [of i B w deps]] wp_fst [OF Execute_budget [of i B w deps]]
  by (cases r) simp_all

lemma ext_history_budget:
  "within_budget i B (ext_core w) \<Longrightarrow> ext_healthy w \<Longrightarrow> within_budget i B (ext_core (ext_history deps reqs w))"
proof (induction reqs arbitrary: w)
  case (Cons r reqs)
  have "ext_history deps (r # reqs) w = ext_history deps reqs (ext_serve deps r w)" by (simp add: ext_history_def)
  then show ?case using Cons.IH ext_serve_budget [OF Cons.prems] by metis
qed (simp add: ext_history_def)

section \<open>Properties\<close>

text \<open>
  C25: No unapproved side effects. In every history of requests, whichever database calls fail, a
  connector runs only for an action that exists, and when the policy asks for a review of that
  action - its type is one of the high-risk types or it is linked to an opportunity - the history
  contains a request that approves it.
\<close>

theorem review_precedes_execution:
  assumes "ew_actions w = []" and "ew_executed w = []" and "(i, n) \<in> set (ew_executed (ext_history deps reqs w))"
  shows "\<exists>a \<in> set (ew_actions (ext_history deps reqs w)). ea_ID a = i \<and>
    (ap_RequiresReview (Evaluate a) \<longrightarrow> ReqApprove i \<in> set reqs)"
proof -
  have "reviewed {} (ext_core w)" using assms(1,2) by (simp add: reviewed_def ext_core_def)
  from ext_history_reviewed [OF this, of reqs deps] show ?thesis
    using assms(3) by (fastforce simp: reviewed_def ext_core_def needs_review_def)
qed

definition wit_edeps :: ext_deps where
  "wit_edeps = \<lparr>ed_now = int, ed_uuid = (\<lambda>n. replicate n CHR ''a''), ed_jsonb = Some,
     ed_connectors = Register (NoopConnector int) [], ed_auditor = False\<rparr>"

definition wit_eworld :: "ext_action list \<Rightarrow> fault list \<Rightarrow> ext_world" where
  "wit_eworld as fs = \<lparr>ew_actions = as, ew_results = [], ew_faults = fs, ew_error = ''broken pipe'', ew_tick = 0,
     ew_executed = [], ew_audit = []\<rparr>"

lemmas wit_ext_defs = wit_edeps_def wit_eworld_def new_ext_action_def Register_def NoopConnector_def

lemmas ext_run_defs = ext_serve.simps ext_Execute_def execute_action_def run_connector_def ext_store_GetAction_def
  ext_next_def ext_exec_def ext_now_def ext_uuid_def ext_tick_def performed_def emitAudit_def UpdateActionStatus_def
  update_action_def ext_store_CreateResult_def RouteByName_def zero_result_def Let_def

text \<open>A connector that always reports success, and an action that is ready for it.\<close>

definition wit_ready :: ext_action where
  "wit_ready = (new_ext_action ''create_task'' ''{}'' '''')\<lparr>ea_ID := ''x'', ea_Status := StatusReady,
     ea_ConnectorName := ''noop'', ea_MaxRetries := 3\<rparr>"

text \<open>
  The retry limit holds while the database works: from any state in which an action exists, any
  history of requests runs a connector for it at most as many times as it has retries left, and not
  at all if it was already executed or failed.
\<close>

theorem executions_bounded:
  assumes "ext_healthy w" and "keyed ea_ID (ew_actions w)" and "row_of ea_ID (ew_actions w) i = Some a"
    and "int4 (ea_MaxRetries a)" and "int4 (ea_RetryCount a)"
  shows "executions i (ew_executed (ext_history deps reqs w)) \<le> executions i (ew_executed w) +
    (if ea_Status a \<in> {StatusExecuted, StatusFailed} then 0 else nat (ea_MaxRetries a - ea_RetryCount a))"
proof -
  have "within_budget i (executions i (ew_executed w) + attempts_left a) (ext_core w)"
    using assms by (auto simp: within_budget_def ext_core_def int4_def)
  from ext_history_budget [OF this assms(1), of deps reqs] show ?thesis
    by (auto simp: within_budget_def ext_core_def attempts_left_def split: if_splits)
qed

theorem executions_bounded_witness:
  "executions ''x'' (ew_executed (ext_history wit_edeps (replicate 9 (ReqExecute ''x'')) (wit_eworld [wit_ready] []))) \<le> 3"
proof -
  let ?w = "wit_eworld [wit_ready] []"
  have "executions ''x'' (ew_executed (ext_history wit_edeps (replicate 9 (ReqExecute ''x'')) ?w)) \<le>
    executions ''x'' (ew_executed ?w) + (if ea_Status wit_ready \<in> {StatusExecuted, StatusFailed} then 0
      else nat (ea_MaxRetries wit_ready - ea_RetryCount wit_ready))"
    by (rule executions_bounded) (simp_all add: wit_ext_defs wit_ready_def ext_healthy_def int4_def)
  also have "\<dots> = 3" by (simp add: wit_ext_defs wit_ready_def executions_def)
  finally show ?thesis .
qed

theorem review_precedes_execution_witness:
  "\<exists>a \<in> set (ew_actions (ext_history wit_edeps [ReqCreate (new_ext_action ''create_task'' ''{}'' ''''), ReqExecute ''''] (wit_eworld [] []))).
     ea_ID a = '''' \<and> \<not> ap_RequiresReview (Evaluate a)"
proof -
  let ?w = "wit_eworld [] []" and ?r = "[ReqCreate (new_ext_action ''create_task'' ''{}'' ''''), ReqExecute '''']"
  have "('''', ''noop'') \<in> set (ew_executed (ext_history wit_edeps ?r ?w))" by code_simp
  from review_precedes_execution [OF _ _ this] show ?thesis by (auto simp: wit_eworld_def)
qed

end
