(* ===== verification/Goal_Graph.thy ===== *)
theory Goal_Graph
  imports Prelude "HOL-Library.AList"
begin

text \<open>
  The dependency graph of goal planning: \<open>src/internal/agent/goal_planning/dependency.go\<close>. A Go
  map from a node to its successors is an association list; the order in which Go ranges over the
  keys is not specified and is an argument of the operations that range over them. The marks of the
  searches are functions with the zero value for nodes that have none, as a Go map read gives it.
  The recursive closures of the source become functions over the list of nodes still to be looked
  at, which terminate because every call marks a node.
\<close>

section \<open>Graphs\<close>

record goal_dependency =
  gd_ID :: string
  gd_PlanID :: string
  gd_FromSubgoalID :: string
  gd_ToSubgoalID :: string
  gd_CreatedAt :: time

type_synonym dep_graph = "(string \<times> string list) list"

definition succs :: "dep_graph \<Rightarrow> string \<Rightarrow> string list" where
  "succs g n = (case map_of g n of None \<Rightarrow> [] | Some ts \<Rightarrow> ts)"

definition NewDependencyGraph :: "goal_dependency list \<Rightarrow> dep_graph" where
  "NewDependencyGraph deps =
     fold (\<lambda>d g. AList.update (gd_FromSubgoalID d) (succs g (gd_FromSubgoalID d) @ [gd_ToSubgoalID d]) g) deps []"

definition Dependents :: "dep_graph \<Rightarrow> string \<Rightarrow> string list" where
  "Dependents g n = succs g n"

definition Prerequisites :: "string list \<Rightarrow> dep_graph \<Rightarrow> string \<Rightarrow> string list" where
  "Prerequisites keys g n = concat (map (\<lambda>m. map (\<lambda>_. m) (filter (\<lambda>t. t = n) (succs g m))) keys)"

definition edges :: "dep_graph \<Rightarrow> (string \<times> string) set" where
  "edges g = {(a, b). b \<in> set (succs g a)}"

definition graph_nodes :: "dep_graph \<Rightarrow> string set" where
  "graph_nodes g = fst ` set g"

lemma finite_graph_nodes [simp]: "finite (graph_nodes g)"
  by (simp add: graph_nodes_def)

lemma succs_outside [simp]: "n \<notin> graph_nodes g \<Longrightarrow> succs g n = []"
  by (simp add: succs_def graph_nodes_def map_of_eq_None_iff [THEN iffD2])

lemma edges_from: "(a, b) \<in> edges g \<Longrightarrow> a \<in> graph_nodes g"
  using succs_outside [of a g] by (fastforce simp: edges_def)

section \<open>Cycles\<close>

text \<open>
  The loop of \<open>dfs\<close> over the neighbours that are left. The marks are 0 for unvisited, 1 for on the
  stack and 2 for finished nodes; \<open>dfs\<close> itself is unfolded in the loop, see \<open>dfs_loop_Cons\<close>.
\<close>

function dfs_loop :: "dep_graph \<Rightarrow> string list \<Rightarrow> (string \<Rightarrow> nat) \<Rightarrow> bool \<times> (string \<Rightarrow> nat)" where
  "dfs_loop g [] v = (False, v)"
| "dfs_loop g (n # ns) v =
     (if v n = 1 then (True, v)
      else if v n = 0
      then (let r = dfs_loop g (succs g n) (v(n := 1)) in
            if fst r then (True, snd r) else dfs_loop g ns ((snd r)(n := 2)))
      else dfs_loop g ns v)"
  by pat_completeness auto

lemma dfs_loop_marks: "dfs_loop_dom (g, ns, v) \<Longrightarrow> v m \<noteq> 0 \<Longrightarrow> snd (dfs_loop g ns v) m \<noteq> 0"
  by (induction g ns v rule: dfs_loop.pinduct) (auto simp: dfs_loop.psimps Let_def)

termination dfs_loop
proof (relation "inv_image (finite_psubset <*lex*> less_than) (\<lambda>(g, ns, v). ({n \<in> graph_nodes g. v n = 0}, length ns))",
    goal_cases)
  case 1
  show ?case by (intro wf_inv_image wf_lex_prod wf_finite_psubset wf_less_than)
next
  case (2 g n ns v)
  show ?case using 2
    by (cases "n \<in> graph_nodes g") (auto simp: finite_psubset_def)
next
  case (3 g n ns v r)
  have keep: "v m = 0" if "((snd r)(n := 2)) m = 0" for m
    using dfs_loop_marks [OF 3(5), of m] 3(2,3) that by (cases "m = n") auto
  then have "{m \<in> graph_nodes g. ((snd r)(n := 2)) m = 0} \<subseteq> {m \<in> graph_nodes g. v m = 0}" using keep by blast
  then show ?case by (auto simp: finite_psubset_def)
next
  case (4 g n ns v)
  show ?case by (auto simp: finite_psubset_def)
qed

definition dfs :: "dep_graph \<Rightarrow> string \<Rightarrow> (string \<Rightarrow> nat) \<Rightarrow> bool \<times> (string \<Rightarrow> nat)" where
  "dfs g n v = (let r = dfs_loop g (succs g n) (v(n := 1)) in if fst r then (True, snd r) else (False, (snd r)(n := 2)))"

lemma dfs_loop_Cons:
  "dfs_loop g (n # ns) v =
     (if v n = 1 then (True, v)
      else case if v n = 0 then dfs g n v else (False, v) of
             (True, v') \<Rightarrow> (True, v')
           | (False, v') \<Rightarrow> dfs_loop g ns v')"
  by (simp add: dfs_def Let_def)

fun has_cycle_loop :: "dep_graph \<Rightarrow> string list \<Rightarrow> (string \<Rightarrow> nat) \<Rightarrow> bool" where
  "has_cycle_loop g [] v = False"
| "has_cycle_loop g (n # ns) v =
     (case if v n = 0 then dfs g n v else (False, v) of (b, v') \<Rightarrow> b \<or> has_cycle_loop g ns v')"

definition HasCycle :: "string list \<Rightarrow> dep_graph \<Rightarrow> bool" where
  "HasCycle keys g = has_cycle_loop g keys (\<lambda>_. 0)"
text \<open>
  What the marks say: an edge out of a finished node leads to a finished node, and no finished node
  lies on a cycle.
\<close>

definition marks_ok :: "dep_graph \<Rightarrow> (string \<Rightarrow> nat) \<Rightarrow> bool" where
  "marks_ok g v \<longleftrightarrow> (\<forall>a. v a \<le> 2) \<and> (\<forall>a b. v a = 2 \<longrightarrow> (a, b) \<in> edges g \<longrightarrow> v b = 2) \<and>
     (\<forall>a. v a = 2 \<longrightarrow> (a, a) \<notin> (edges g)\<^sup>+)"

text \<open>A search that found no cycle finishes its nodes and leaves the stack as it was.\<close>

definition finishes :: "dep_graph \<Rightarrow> string list \<Rightarrow> (string \<Rightarrow> nat) \<Rightarrow> (string \<Rightarrow> nat) \<Rightarrow> bool" where
  "finishes g ns v v' \<longleftrightarrow> marks_ok g v' \<and> (\<forall>a. v' a = 1 \<longleftrightarrow> v a = 1) \<and> (\<forall>a. v a = 2 \<longrightarrow> v' a = 2) \<and>
     (\<forall>n \<in> set ns. v' n = 2)"

lemma mark_cases: "marks_ok g v \<Longrightarrow> v n = 0 \<or> v n = 1 \<or> v n = 2"
  unfolding marks_ok_def by (metis One_nat_def le_SucE le_zero_eq numeral_2_eq_2)

lemma finished_closed:
  assumes "marks_ok g v" and "(a, b) \<in> (edges g)\<^sup>*"
  shows "v a = 2 \<Longrightarrow> v b = 2"
  using assms(2) by (induction rule: rtrancl_induct) (use assms(1) in \<open>auto simp: marks_ok_def\<close>)

lemma marks_ok_push: "marks_ok g v \<Longrightarrow> v n = 0 \<Longrightarrow> marks_ok g (v(n := 1))"
  by (auto simp: marks_ok_def)

lemma marks_ok_pop:
  assumes "finishes g (succs g n) (v(n := 1)) v'"
  shows "marks_ok g (v'(n := 2))"
proof -
  have ok: "marks_ok g v'" and n: "v' n = 1" and s: "\<forall>m \<in> set (succs g n). v' m = 2"
    using assms by (auto simp: finishes_def)
  have "(n, n) \<notin> (edges g)\<^sup>+"
  proof
    assume "(n, n) \<in> (edges g)\<^sup>+"
    then obtain m where "(n, m) \<in> edges g" "(m, n) \<in> (edges g)\<^sup>*" by (metis tranclD)
    then show False using finished_closed [OF ok] s n by (auto simp: edges_def)
  qed
  then show ?thesis using ok s by (auto simp: marks_ok_def edges_def)
qed

lemma finishes_Cons:
  assumes "finishes g (succs g n) (v(n := 1)) v'" and "v n = 0" and "finishes g ns (v'(n := 2)) v''"
  shows "finishes g (n # ns) v v''"
proof -
  have "v' a = 1 \<longleftrightarrow> a = n \<or> v a = 1" "v'' a = 1 \<longleftrightarrow> a \<noteq> n \<and> v' a = 1" for a
    using assms(1,3) by (simp_all add: finishes_def)
  then have "v'' a = 1 \<longleftrightarrow> v a = 1" for a using assms(2) by (cases "a = n") simp_all
  moreover have "v'' a = 2" if "v a = 2" for a
    using assms that unfolding finishes_def by (metis fun_upd_other fun_upd_same)
  moreover have "v'' n = 2" using assms(3) by (simp add: finishes_def)
  ultimately show ?thesis using assms(3) by (auto simp: finishes_def)
qed

text \<open>The result of a search: a cycle, or the nodes finished.\<close>

definition searched :: "dep_graph \<Rightarrow> string list \<Rightarrow> (string \<Rightarrow> nat) \<Rightarrow> bool \<times> (string \<Rightarrow> nat) \<Rightarrow> bool" where
  "searched g ns v r \<longleftrightarrow> (fst r \<longrightarrow> \<not> acyclic (edges g)) \<and> (\<not> fst r \<longrightarrow> finishes g ns v (snd r))"

lemma searched_old: "searched g ns v r \<Longrightarrow> v n = 2 \<Longrightarrow> searched g (n # ns) v r"
  by (auto simp: searched_def finishes_def)

text \<open>Searching from a new node, given that the search of its successors was right.\<close>

lemma dfs_searched:
  assumes "searched g (succs g n) (v(n := 1)) (dfs_loop g (succs g n) (v(n := 1)))" and "v n = 0"
  shows "fst (dfs g n v) \<Longrightarrow> \<not> acyclic (edges g)"
    and "\<not> fst (dfs g n v) \<Longrightarrow> marks_ok g (snd (dfs g n v)) \<and> (\<forall>a. snd (dfs g n v) a = 1 \<longleftrightarrow> v a = 1)"
    and "\<not> fst (dfs g n v) \<Longrightarrow> searched g ns (snd (dfs g n v)) r \<Longrightarrow> searched g (n # ns) v r"
proof -
  define w where "w = dfs_loop g (succs g n) (v(n := 1))"
  have w: "searched g (succs g n) (v(n := 1)) w" using assms(1) by (simp only: w_def)
  have d: "dfs g n v = (if fst w then (True, snd w) else (False, (snd w)(n := 2)))"
    unfolding dfs_def w_def Let_def by (rule refl)
  show "\<not> acyclic (edges g)" if "fst (dfs g n v)" using that w by (simp add: d searched_def split: if_splits)
  have f: "finishes g (succs g n) (v(n := 1)) (snd w)" "dfs g n v = (False, (snd w)(n := 2))" if "\<not> fst (dfs g n v)"
    using that w by (simp_all add: d searched_def split: if_splits)
  show "marks_ok g (snd (dfs g n v)) \<and> (\<forall>a. snd (dfs g n v) a = 1 \<longleftrightarrow> v a = 1)" if "\<not> fst (dfs g n v)"
    using f [OF that] marks_ok_pop [OF f(1) [OF that]] assms(2) by (auto simp: finishes_def simp del: One_nat_def)
  show "searched g (n # ns) v r" if "\<not> fst (dfs g n v)" "searched g ns (snd (dfs g n v)) r"
    using that(2) f(2) [OF that(1)] finishes_Cons [OF f(1) [OF that(1)] assms(2)] by (simp add: searched_def)
qed

lemma dfs_loop_new: "v n = 0 \<Longrightarrow> dfs_loop g (n # ns) v = (if fst (dfs g n v) then (True, snd (dfs g n v)) else dfs_loop g ns (snd (dfs g n v)))"
  by (simp add: dfs_def Let_def)

lemma dfs_loop_correct:
  assumes "marks_ok g v" and "\<And>a n. v a = 1 \<Longrightarrow> n \<in> set ns \<Longrightarrow> (a, n) \<in> (edges g)\<^sup>+"
  shows "searched g ns v (dfs_loop g ns v)"
  using assms
proof (induction g ns v rule: dfs_loop.induct)
  case (1 g v)
  then show ?case by (simp add: searched_def finishes_def)
next
  case (2 g n ns v)
  consider (stack) "v n = 1" | (new) "v n = 0" | (old) "v n = 2" using mark_cases [OF 2(4), of n] by (elim disjE)
  then show ?case
  proof cases
    case stack
    then show ?thesis using 2(5) [of n n] by (auto simp: acyclic_def searched_def)
  next
    case new
    have path: "(a, m) \<in> (edges g)\<^sup>+" if "(v(n := 1)) a = 1" "m \<in> set (succs g n)" for a m
    proof -
      have nm: "(n, m) \<in> edges g" using that(2) by (simp add: edges_def)
      then show ?thesis using that(1) 2(5) [of a n] by (cases "a = n") (auto intro: trancl_into_trancl)
    qed
    have "v n \<noteq> 1" using new by simp
    have "searched g (succs g n) (v(n := 1)) (dfs_loop g (succs g n) (v(n := 1)))"
      by (rule 2(1) [OF \<open>v n \<noteq> 1\<close> new marks_ok_push [of g v n, OF 2(4) new]]) (erule (1) path)
    note s = dfs_searched [of g n v, OF this new]
    show ?thesis
    proof (cases "fst (dfs g n v)")
      case True
      then show ?thesis unfolding dfs_loop_new [of v n, OF new] using s(1) by (simp add: searched_def)
    next
      case False
      have d: "snd (dfs g n v) = (snd (dfs_loop g (succs g n) (v(n := 1))))(n := 2)" "\<not> fst (dfs_loop g (succs g n) (v(n := 1)))"
        using False by (simp_all add: dfs_def Let_def split: if_splits)
      have path: "(a, m) \<in> (edges g)\<^sup>+" if "snd (dfs g n v) a = 1" "m \<in> set ns" for a m
        using that s(2) [OF False] 2(5) [of a m] by simp
      have "searched g ns (snd (dfs g n v)) (dfs_loop g ns (snd (dfs g n v)))"
        using 2(2) [OF \<open>v n \<noteq> 1\<close> new refl d(2), folded d(1), OF s(2) [OF False, THEN conjunct1] path] .
      then show ?thesis unfolding dfs_loop_new [of v n, OF new] using s(3) [OF False] False by simp
    qed
  next
    case old
    have "searched g ns v (dfs_loop g ns v)" by (rule 2(3)) (use old 2(4,5) in auto)
    then show ?thesis using old searched_old by simp
  qed
qed

lemma has_cycle_loop_correct:
  assumes "marks_ok g v" and "\<And>a. v a \<noteq> 1"
  shows "\<exists>v'. searched g ns v (has_cycle_loop g ns v, v')"
  using assms
proof (induction g ns v rule: has_cycle_loop.induct)
  case (1 g v)
  then have "searched g [] v (False, v)" by (simp add: searched_def finishes_def)
  then show ?case by auto
next
  case (2 g n ns v)
  obtain b v' where bv: "(if v n = 0 then dfs g n v else (False, v)) = (b, v')" by fastforce
  note ih = 2(1) [OF bv [symmetric]]
  show ?case
  proof (cases "v n = 0")
    case True
    have path: "(a, m) \<in> (edges g)\<^sup>+" if "(v(n := 1)) a = 1" "m \<in> set (succs g n)" for a m
      using that 2(3) by (auto simp: edges_def split: if_splits)
    have "searched g (succs g n) (v(n := 1)) (dfs_loop g (succs g n) (v(n := 1)))"
      by (rule dfs_loop_correct [OF marks_ok_push [of g v n, OF 2(2) True]]) (erule (1) path)
    note s = dfs_searched [of g n v, OF this True]
    have d: "dfs g n v = (b, v')" using bv True by simp
    show ?thesis
    proof (cases b)
      case True
      then show ?thesis using s(1) bv d by (auto simp: searched_def)
    next
      case False
      then obtain v'' where "searched g ns v' (has_cycle_loop g ns v', v'')" using ih s(2) d 2(3) by auto
      then have "searched g (n # ns) v (has_cycle_loop g ns v', v'')" using s(3) [of ns "(has_cycle_loop g ns v', v'')"] d False by auto
      then show ?thesis using bv False by auto
    qed
  next
    case False
    then have old: "v n = 2" using 2(3) [of n] mark_cases [OF 2(2), of n] by simp
    have "b = False" "v' = v" using bv False by simp_all
    then obtain v'' where "searched g ns v (has_cycle_loop g ns v, v'')" using ih 2(2,3) by auto
    then have "searched g (n # ns) v (has_cycle_loop g ns v, v'')" by (rule searched_old) (rule old)
    then show ?thesis using bv \<open>b = False\<close> \<open>v' = v\<close> by auto
  qed
qed

lemma HasCycle_iff:
  assumes "set keys = graph_nodes g"
  shows "HasCycle keys g \<longleftrightarrow> \<not> acyclic (edges g)"
proof -
  have "\<exists>v'. searched g keys (\<lambda>_. 0) (HasCycle keys g, v')"
    unfolding HasCycle_def by (rule has_cycle_loop_correct) (auto simp: marks_ok_def)
  moreover have "acyclic (edges g)" if f: "finishes g keys (\<lambda>_. 0) v'" for v'
    unfolding acyclic_def
  proof (intro allI notI)
    fix x assume x: "(x, x) \<in> (edges g)\<^sup>+"
    then obtain m where "(x, m) \<in> edges g" by (metis tranclD)
    then have "v' x = 2" using f edges_from assms by (auto simp: finishes_def)
    then show False using f x by (auto simp: finishes_def marks_ok_def)
  qed
  ultimately show ?thesis by (auto simp: searched_def)
qed

section \<open>Topological order\<close>

text \<open>The loop of \<open>visit\<close> over the nodes that are left, with the visited nodes and the order so far.\<close>

function visit_loop ::
  "dep_graph \<Rightarrow> (string \<Rightarrow> bool) \<Rightarrow> string list \<Rightarrow> (string \<Rightarrow> bool) \<times> string list \<Rightarrow> (string \<Rightarrow> bool) \<times> string list"
where
  "visit_loop g nodeSet [] st = st"
| "visit_loop g nodeSet (n # ns) st =
     (if fst st n \<or> \<not> nodeSet n then visit_loop g nodeSet ns st
      else let r = visit_loop g nodeSet (succs g n) ((fst st)(n := True), snd st) in
           visit_loop g nodeSet ns (fst r, snd r @ [n]))"
  by pat_completeness auto

lemma visit_loop_marks: "visit_loop_dom (g, ns, xs, st) \<Longrightarrow> fst st m \<Longrightarrow> fst (visit_loop g ns xs st) m"
  by (induction g ns xs st rule: visit_loop.pinduct) (auto simp: visit_loop.psimps Let_def)

termination visit_loop
proof (relation "inv_image (finite_psubset <*lex*> less_than) (\<lambda>(g, nodeSet, ns, st). ({n \<in> graph_nodes g. \<not> fst st n}, length ns))",
    goal_cases)
  case 1
  show ?case by (intro wf_inv_image wf_lex_prod wf_finite_psubset wf_less_than)
next
  case (2 g nodeSet n ns st)
  show ?case by (auto simp: finite_psubset_def)
next
  case (3 g nodeSet n ns st)
  then show ?case by (cases "n \<in> graph_nodes g") (auto simp: finite_psubset_def)
next
  case (4 g nodeSet n ns st r)
  have keep: "fst st m \<Longrightarrow> fst r m" for m
    using visit_loop_marks [OF 4(3), of m] 4(2) by simp
  then have "{m \<in> graph_nodes g. \<not> fst r m} \<subseteq> {m \<in> graph_nodes g. \<not> fst st m}" by auto
  then show ?case by (auto simp: finite_psubset_def)
qed

definition visit :: "dep_graph \<Rightarrow> (string \<Rightarrow> bool) \<Rightarrow> string \<Rightarrow> (string \<Rightarrow> bool) \<times> string list \<Rightarrow> (string \<Rightarrow> bool) \<times> string list" where
  "visit g nodeSet n st =
     (if fst st n \<or> \<not> nodeSet n then st
      else let r = visit_loop g nodeSet (succs g n) ((fst st)(n := True), snd st) in (fst r, snd r @ [n]))"

lemma visit_loop_fold: "visit_loop g nodeSet ns st = fold (visit g nodeSet) ns st"
  by (induction ns arbitrary: st) (simp_all add: visit_def Let_def)

text \<open>Go returns nil for a graph with a cycle.\<close>

definition TopologicalSort :: "string list \<Rightarrow> dep_graph \<Rightarrow> string list \<Rightarrow> string list" where
  "TopologicalSort keys g subgoalIDs =
     (if HasCycle keys g then []
      else rev (snd (fold (visit g (\<lambda>n. n \<in> set subgoalIDs)) subgoalIDs (\<lambda>_. False, []))))"

text \<open>
  Between two visits: the nodes in the order are visited and in the node set, no edge leads from an
  earlier to a later one, and every edge from a node in the order into the node set leads to a node
  in the order.
\<close>

definition order_ok :: "dep_graph \<Rightarrow> (string \<Rightarrow> bool) \<Rightarrow> (string \<Rightarrow> bool) \<times> string list \<Rightarrow> bool" where
  "order_ok g N st \<longleftrightarrow> distinct (snd st) \<and> (\<forall>a \<in> set (snd st). fst st a \<and> N a) \<and>
     sorted_wrt (\<lambda>a b. (a, b) \<notin> edges g) (snd st) \<and>
     (\<forall>a b. a \<in> set (snd st) \<longrightarrow> (a, b) \<in> edges g \<longrightarrow> N b \<longrightarrow> b \<in> set (snd st))"

text \<open>The nodes on the stack, visited and not yet in the order, stay the same over a loop.\<close>

definition on_stack :: "(string \<Rightarrow> bool) \<times> string list \<Rightarrow> string set" where
  "on_stack st = {a. fst st a} - set (snd st)"

lemma order_ok_snoc:
  assumes "order_ok g N st" and "n \<in> on_stack st" and "N n" and "(n, n) \<notin> edges g"
    and "\<And>b. (n, b) \<in> edges g \<Longrightarrow> N b \<Longrightarrow> b \<in> set (snd st)"
  shows "order_ok g N (fst st, snd st @ [n])"
proof -
  have n: "n \<notin> set (snd st)" "fst st n" using assms(2) by (simp_all add: on_stack_def)
  have "(a, n) \<notin> edges g" if "a \<in> set (snd st)" for a
    using assms(1,3) that n(1) unfolding order_ok_def by blast
  then have "sorted_wrt (\<lambda>a b. (a, b) \<notin> edges g) (snd st @ [n])"
    using assms(1) by (simp add: sorted_wrt_append order_ok_def)
  moreover have "b \<in> set (snd st @ [n])" if "a \<in> set (snd st @ [n])" "(a, b) \<in> edges g" "N b" for a b
  proof (cases "a = n")
    case False
    then have "a \<in> set (snd st)" using that(1) by simp
    then show ?thesis using assms(1) that(2,3) unfolding order_ok_def by (metis Un_iff set_append)
  qed (use assms(5) that in simp)
  moreover have "distinct (snd st @ [n])" "\<forall>a \<in> set (snd st @ [n]). fst st a \<and> N a"
    using assms(1,3) n unfolding order_ok_def by auto
  ultimately show ?thesis unfolding order_ok_def fst_conv snd_conv by blast
qed

definition visits :: "dep_graph \<Rightarrow> (string \<Rightarrow> bool) \<Rightarrow> string list \<Rightarrow> (string \<Rightarrow> bool) \<times> string list \<Rightarrow> (string \<Rightarrow> bool) \<times> string list \<Rightarrow> bool" where
  "visits g N ns st r \<longleftrightarrow> order_ok g N r \<and> on_stack r = on_stack st \<and> set (snd st) \<subseteq> set (snd r) \<and>
     set (snd r) \<subseteq> set (snd st) \<union> {n. N n} \<and> (\<forall>n \<in> set ns. N n \<longrightarrow> n \<in> set (snd r))"

text \<open>Finishing a node whose successors have been visited.\<close>

lemma visits_finish:
  assumes "visits g N (succs g n) ((fst st)(n := True), snd st) r" and "\<not> fst st n" and "N n" and "(n, n) \<notin> edges g"
    and "order_ok g N st"
  shows "order_ok g N (fst r, snd r @ [n])" and "on_stack (fst r, snd r @ [n]) = on_stack st"
    and "visits g N ns (fst r, snd r @ [n]) q \<Longrightarrow> visits g N (n # ns) st q"
proof -
  have n: "n \<notin> set (snd st)" using assms(2,5) unfolding order_ok_def by blast
  have "on_stack ((fst st)(n := True), snd st) = insert n (on_stack st)" using n by (auto simp: on_stack_def)
  then have stack: "on_stack r = insert n (on_stack st)" using assms(1) by (simp add: visits_def)
  have "b \<in> set (snd r)" if "(n, b) \<in> edges g" "N b" for b
    using assms(1) that by (simp add: visits_def edges_def)
  moreover have "n \<in> on_stack r" "order_ok g N r" using stack assms(1) by (simp, simp add: visits_def)
  ultimately show "order_ok g N (fst r, snd r @ [n])" using assms(3,4) by (intro order_ok_snoc)
  have "n \<notin> on_stack st" using assms(2) by (simp add: on_stack_def)
  moreover have "on_stack (fst r, snd r @ [n]) = on_stack r - {n}" by (auto simp: on_stack_def)
  ultimately show s: "on_stack (fst r, snd r @ [n]) = on_stack st" using stack by simp
  show "visits g N (n # ns) st q" if "visits g N ns (fst r, snd r @ [n]) q"
    using that assms(1,3) s by (auto simp: visits_def)
qed

lemma visit_loop_correct:
  assumes "acyclic (edges g)" and "order_ok g N st" and "\<And>a n. a \<in> on_stack st \<Longrightarrow> n \<in> set ns \<Longrightarrow> (a, n) \<in> (edges g)\<^sup>+"
  shows "visits g N ns st (visit_loop g N ns st)"
  using assms
proof (induction g N ns st rule: visit_loop.induct)
  case (1 g N st)
  then show ?case by (simp add: visits_def)
next
  case (2 g N n ns st)
  show ?case
  proof (cases "fst st n \<or> \<not> N n")
    case True
    have "n \<in> set (snd st)" if "N n"
    proof (rule ccontr)
      assume "n \<notin> set (snd st)"
      then have "n \<in> on_stack st" using True that by (simp add: on_stack_def)
      then show False using 2(6) [of n n] 2(4) by (auto simp: acyclic_def)
    qed
    moreover have "visits g N ns st (visit_loop g N ns st)" by (rule 2(1) [OF True 2(4,5)]) (use 2(6) in auto)
    ultimately show ?thesis using True by (auto simp: visits_def)
  next
    case False
    let ?st = "((fst st)(n := True), snd st)"
    define r where "r = visit_loop g N (succs g n) ?st"
    have n: "\<not> fst st n" "N n" "(n, n) \<notin> edges g" using False 2(4) by (auto simp: acyclic_def)
    have ok: "order_ok g N ?st" using 2(5) unfolding order_ok_def fst_conv snd_conv by (metis fun_upd_apply)
    have path: "(a, m) \<in> (edges g)\<^sup>+" if "a \<in> on_stack ?st" "m \<in> set (succs g n)" for a m
    proof (cases "a = n")
      case True
      then show ?thesis using that(2) by (simp add: edges_def r_into_trancl)
    next
      case False
      then have "a \<in> on_stack st" using that(1) by (auto simp: on_stack_def)
      then show ?thesis using 2(6) [of a n] that(2) by (auto simp: edges_def intro: trancl_into_trancl)
    qed
    have "visits g N (succs g n) ?st r" unfolding r_def by (rule 2(2) [OF False 2(4) ok]) (erule (1) path)
    note v = visits_finish [OF this n 2(5)]
    have "visits g N ns (fst r, snd r @ [n]) (visit_loop g N ns (fst r, snd r @ [n]))"
      by (rule 2(3) [OF False r_def 2(4) v(1)]) (use v(2) 2(6) in auto)
    from v(3) [OF this] show ?thesis using False by (simp add: r_def Let_def)
  qed
qed

lemma TopologicalSort_correct:
  assumes "set keys = graph_nodes g" and "acyclic (edges g)" and "ts = TopologicalSort keys g ids"
  shows "distinct ts" and "set ts = set ids" and "sorted_wrt (\<lambda>a b. (b, a) \<notin> edges g) ts"
proof -
  define N where "N = (\<lambda>n. n \<in> set ids)"
  define r where "r = visit_loop g N ids (\<lambda>_. False, [])"
  have ts: "ts = rev (snd r)"
    using assms HasCycle_iff [OF assms(1)] by (simp add: TopologicalSort_def visit_loop_fold r_def N_def)
  have "visits g N ids (\<lambda>_. False, []) r"
    unfolding r_def by (rule visit_loop_correct [OF assms(2)]) (simp_all add: order_ok_def on_stack_def)
  then have c: "order_ok g N r" "set (snd r) = set ids" by (auto simp: visits_def N_def)
  then show "distinct ts" "sorted_wrt (\<lambda>a b. (b, a) \<notin> edges g) ts" "set ts = set ids"
    unfolding ts by (simp_all add: order_ok_def sorted_wrt_rev)
qed

section \<open>Depth\<close>

text \<open>
  The source marks a node while its children are explored and takes the mark back before it returns,
  so the marks of a call are those of its caller and one more.
\<close>

function depthDFS :: "dep_graph \<Rightarrow> string \<Rightarrow> (string \<Rightarrow> bool) \<Rightarrow> nat" where
  "depthDFS g n visited =
     (if visited n then 0
      else fold (\<lambda>d maxChild. if maxChild < d then d else maxChild)
             (map (\<lambda>child. depthDFS g child (visited(n := True))) (succs g n)) 0 + 1)"
  by pat_completeness auto

termination depthDFS
proof (relation "measure (\<lambda>(g, n, v). card {m \<in> graph_nodes g. \<not> v m})", goal_cases)
  case (2 g n v child)
  then have "n \<in> graph_nodes g" using succs_outside by fastforce
  then have "{m \<in> graph_nodes g. \<not> (v(n := True)) m} \<subset> {m \<in> graph_nodes g. \<not> v m}" using 2(1) by auto
  then show ?case by (simp add: psubset_card_mono)
qed simp

declare depthDFS.simps [simp del]

definition Depth :: "dep_graph \<Rightarrow> string \<Rightarrow> nat" where
  "Depth g n = depthDFS g n (\<lambda>_. False)"

definition ValidateMaxDepth :: "nat \<Rightarrow> dep_graph \<Rightarrow> string list \<Rightarrow> bool" where
  "ValidateMaxDepth maxDepth g ids = list_all (\<lambda>n. \<not> maxDepth < Depth g n) ids"

text \<open>A chain of dependencies from a node that repeats no node and avoids the marked ones.\<close>

definition dep_chain :: "dep_graph \<Rightarrow> (string \<Rightarrow> bool) \<Rightarrow> string \<Rightarrow> string list \<Rightarrow> bool" where
  "dep_chain g v n p \<longleftrightarrow> p \<noteq> [] \<and> hd p = n \<and> distinct p \<and> (\<forall>x \<in> set p. \<not> v x) \<and>
     successively (\<lambda>a b. (a, b) \<in> edges g) p"

lemma dep_chain_Cons:
  "dep_chain g v n (x # q) \<longleftrightarrow> x = n \<and> \<not> v n \<and> (q = [] \<or> (n, hd q) \<in> edges g \<and> dep_chain g (v(n := True)) (hd q) q)"
  by (cases q) (auto simp: dep_chain_def)

lemma fold_max_bound: "d \<in> set ds \<or> d \<le> m \<Longrightarrow> d \<le> fold (\<lambda>d m. if m < d then d else m) ds (m :: nat)"
proof (induction ds arbitrary: m)
  case (Cons e ds)
  have "d \<in> set ds \<or> d \<le> (if m < e then e else m)" using Cons.prems by (cases "m < e") auto
  from Cons.IH [OF this] show ?case by simp
qed simp

lemma fold_max_attained: "fold (\<lambda>d m. if m < d then d else m) ds (m :: nat) \<in> insert m (set ds)"
proof (induction ds arbitrary: m)
  case (Cons d ds)
  then show ?case using Cons.IH [of d] Cons.IH [of m] by (simp split: if_splits) blast
qed simp

lemma depthDFS_longest:
  "\<not> v n \<Longrightarrow> (\<exists>p. dep_chain g v n p \<and> length p = depthDFS g n v) \<and> (\<forall>p. dep_chain g v n p \<longrightarrow> length p \<le> depthDFS g n v)"
proof (induction g n v rule: depthDFS.induct)
  case (1 g n v)
  let ?d = "\<lambda>c. depthDFS g c (v(n := True))"
  let ?m = "fold (\<lambda>d m. if m < d then d else m) (map ?d (succs g n)) 0"
  have d: "depthDFS g n v = ?m + 1" using 1(2) by (simp add: depthDFS.simps)
  have "\<exists>p. dep_chain g v n p \<and> length p = ?m + 1"
  proof (cases "?m = 0")
    case True
    then show ?thesis using 1(2) by (intro exI [of _ "[n]"]) (simp add: dep_chain_Cons)
  next
    case False
    then obtain c where c: "c \<in> set (succs g n)" "?m = ?d c" using fold_max_attained [of "map ?d (succs g n)" 0] by auto
    then have "\<not> (v(n := True)) c" using False by (auto simp: depthDFS.simps)
    then obtain q where q: "dep_chain g (v(n := True)) c q" "length q = ?d c" using 1(1) [OF 1(2) c(1)] by blast
    then have "dep_chain g v n (n # q)" using 1(2) c(1) by (auto simp: dep_chain_Cons edges_def dep_chain_def [of g "v(n := True)"])
    then show ?thesis using q(2) c(2) by (intro exI [of _ "n # q"]) simp
  qed
  moreover have "length p \<le> ?m + 1" if p: "dep_chain g v n p" for p
  proof (cases p)
    case (Cons x q)
    show ?thesis
    proof (cases q)
      case (Cons c qs)
      then have c: "c \<in> set (succs g n)" "dep_chain g (v(n := True)) c q" using p \<open>p = x # q\<close> by (auto simp: dep_chain_Cons edges_def)
      then have "\<not> (v(n := True)) c" using Cons by (auto simp: dep_chain_def)
      then have "length q \<le> ?d c" using 1(1) [OF 1(2) c(1)] c(2) by blast
      also have "\<dots> \<le> ?m" by (rule fold_max_bound) (use c(1) in auto)
      finally show ?thesis using \<open>p = x # q\<close> by simp
    qed (simp add: \<open>p = x # q\<close>)
  qed simp
  ultimately show ?case using d by simp
qed

section \<open>Properties\<close>

lemma succs_update: "succs (AList.update k ts g) n = (if n = k then ts else succs g n)"
  by (simp add: succs_def update_conv')

lemma edges_NewDependencyGraph: "edges (NewDependencyGraph deps) = (\<lambda>d. (gd_FromSubgoalID d, gd_ToSubgoalID d)) ` set deps"
proof -
  have "edges (fold (\<lambda>d g. AList.update (gd_FromSubgoalID d) (succs g (gd_FromSubgoalID d) @ [gd_ToSubgoalID d]) g) deps g) =
    edges g \<union> (\<lambda>d. (gd_FromSubgoalID d, gd_ToSubgoalID d)) ` set deps" for g
  proof (induction deps arbitrary: g)
    case (Cons d deps)
    have "edges (AList.update (gd_FromSubgoalID d) (succs g (gd_FromSubgoalID d) @ [gd_ToSubgoalID d]) g) =
      insert (gd_FromSubgoalID d, gd_ToSubgoalID d) (edges g)"
      by (auto simp: edges_def succs_update split: if_splits)
    then show ?case by (simp add: Cons.IH)
  qed simp
  moreover have "edges [] = {}" by (simp add: edges_def succs_def)
  ultimately show ?thesis by (simp add: NewDependencyGraph_def)
qed

text \<open>
  C22: The cycle check is exact: for the graph built from any list of dependencies, and whatever order
  Go ranges over its nodes in, \<open>HasCycle\<close> answers true if and only if the dependencies contain a
  cycle.
\<close>

theorem cycle_check_exact:
  assumes "g = NewDependencyGraph deps" and "set keys = graph_nodes g"
  shows "HasCycle keys g \<longleftrightarrow> \<not> acyclic ((\<lambda>d. (gd_FromSubgoalID d, gd_ToSubgoalID d)) ` set deps)"
  using HasCycle_iff [OF assms(2)] assms(1) by (simp add: edges_NewDependencyGraph)

text \<open>
  C23: The topological sort is correct: without a cycle it returns every given subgoal exactly once, and
  no dependency leads from a later subgoal to an earlier one; with a cycle it returns nothing.
\<close>

theorem topological_sort_orders:
  assumes "g = NewDependencyGraph deps" and "set keys = graph_nodes g"
    and "E = (\<lambda>d. (gd_FromSubgoalID d, gd_ToSubgoalID d)) ` set deps"
  shows "if acyclic E
    then distinct (TopologicalSort keys g ids) \<and> set (TopologicalSort keys g ids) = set ids \<and>
      sorted_wrt (\<lambda>a b. (b, a) \<notin> E) (TopologicalSort keys g ids)
    else TopologicalSort keys g ids = []"
proof -
  have E: "edges g = E" using assms(1,3) by (simp add: edges_NewDependencyGraph)
  then show ?thesis using TopologicalSort_correct [OF assms(2) _ refl, of ids] HasCycle_iff [OF assms(2)]
    by (auto simp: TopologicalSort_def [of keys g ids])
qed

text \<open>
  The depth of a subgoal is the length of the longest chain of dependencies that starts at it and
  repeats no subgoal: there is such a chain of that length and no longer one, in graphs with cycles
  too.
\<close>

theorem depth_is_longest_chain:
  "(\<exists>p. p \<noteq> [] \<and> hd p = n \<and> distinct p \<and> successively (\<lambda>a b. b \<in> set (Dependents g a)) p \<and> length p = Depth g n) \<and>
   (\<forall>p. p \<noteq> [] \<and> hd p = n \<and> distinct p \<and> successively (\<lambda>a b. b \<in> set (Dependents g a)) p \<longrightarrow> length p \<le> Depth g n)"
  using depthDFS_longest [of "\<lambda>_. False" n g] by (simp add: Depth_def dep_chain_def edges_def Dependents_def)

definition wit_deps3 :: "goal_dependency list" where
  "wit_deps3 = map (\<lambda>(a, b). \<lparr>gd_ID = a @ b, gd_PlanID = ''p'', gd_FromSubgoalID = a, gd_ToSubgoalID = b, gd_CreatedAt = 0\<rparr>)
     [(''a'', ''b''), (''b'', ''c''), (''a'', ''c'')]"

lemma wit_graph: "NewDependencyGraph wit_deps3 = [(''a'', [''b'', ''c'']), (''b'', [''c''])]"
  by (simp add: wit_deps3_def NewDependencyGraph_def succs_def)

theorem cycle_check_exact_witness:
  "\<not> HasCycle [''b'', ''a''] (NewDependencyGraph wit_deps3) \<and> acyclic ((\<lambda>d. (gd_FromSubgoalID d, gd_ToSubgoalID d)) ` set wit_deps3)"
proof -
  have "\<not> HasCycle [''b'', ''a''] (NewDependencyGraph wit_deps3)"
    unfolding wit_graph by (simp add: HasCycle_def dfs_def succs_def)
  moreover have "set [''b'', ''a''] = graph_nodes (NewDependencyGraph wit_deps3)" unfolding wit_graph by (auto simp: graph_nodes_def)
  ultimately show ?thesis using cycle_check_exact [OF refl, of "[''b'', ''a'']" wit_deps3] by simp
qed

theorem topological_sort_orders_witness:
  "TopologicalSort [''b'', ''a''] (NewDependencyGraph wit_deps3) [''c'', ''b'', ''a''] = [''a'', ''b'', ''c''] \<and>
   sorted_wrt (\<lambda>a b. (b, a) \<notin> (\<lambda>d. (gd_FromSubgoalID d, gd_ToSubgoalID d)) ` set wit_deps3) [''a'', ''b'', ''c'']"
proof -
  have t: "TopologicalSort [''b'', ''a''] (NewDependencyGraph wit_deps3) [''c'', ''b'', ''a''] = [''a'', ''b'', ''c'']"
    unfolding wit_graph by (simp add: TopologicalSort_def HasCycle_def dfs_def succs_def visit_def)
  have "set [''b'', ''a''] = graph_nodes (NewDependencyGraph wit_deps3)" unfolding wit_graph by (auto simp: graph_nodes_def)
  from topological_sort_orders [OF refl this refl, of "[''c'', ''b'', ''a'']"] show ?thesis unfolding t by (auto split: if_splits)
qed

theorem depth_is_longest_chain_witness: "length [''a'', ''b'', ''c''] \<le> Depth (NewDependencyGraph wit_deps3) ''a''"
proof -
  have "successively (\<lambda>a b. b \<in> set (Dependents (NewDependencyGraph wit_deps3) a)) [''a'', ''b'', ''c'']"
    unfolding wit_graph by (simp add: Dependents_def succs_def)
  moreover have "[''a'', ''b'', ''c''] \<noteq> []" "hd [''a'', ''b'', ''c''] = ''a''" "distinct [''a'', ''b'', ''c'']" by simp_all
  ultimately show ?thesis
    using depth_is_longest_chain [of "''a''" "NewDependencyGraph wit_deps3"] by blast
qed

end
