(* ===== verification/Goal_Plan.thy ===== *)
theory Goal_Plan
  imports Scorer Go_Sort Go_Json Goal_Graph
begin

text \<open>
  Goal planning, the data and the pure part: \<open>types.go\<close>, \<open>decomposer.go\<close>,
  \<open>progress.go\<close>, \<open>planner.go\<close> and \<open>strategy.go\<close> of
  \<open>src/internal/agent/goal_planning\<close>. Numbers are binary64 with the rounding of every
  operation; \<open>clamp01\<close> is the function of the scorer, which the package repeats. Statuses,
  horizons and strategies are the Go strings. Two library functions are arguments: the
  name-based UUID of a text and \<open>strconv.ParseFloat\<close>. The zero \<open>time.Time\<close> is the
  instant 0.
\<close>

section \<open>Data\<close>

type_synonym subgoal_status = string

abbreviation SubgoalNotStarted :: subgoal_status where "SubgoalNotStarted \<equiv> ''not_started''"
abbreviation SubgoalActive :: subgoal_status where "SubgoalActive \<equiv> ''active''"
abbreviation SubgoalBlocked :: subgoal_status where "SubgoalBlocked \<equiv> ''blocked''"
abbreviation SubgoalCompleted :: subgoal_status where "SubgoalCompleted \<equiv> ''completed''"
abbreviation SubgoalFailed :: subgoal_status where "SubgoalFailed \<equiv> ''failed''"

definition ValidSubgoalTransitions :: "(subgoal_status \<times> subgoal_status list) list" where
  "ValidSubgoalTransitions =
     [(SubgoalNotStarted, [SubgoalActive]), (SubgoalActive, [SubgoalCompleted, SubgoalFailed, SubgoalBlocked]),
      (SubgoalBlocked, [SubgoalActive, SubgoalFailed])]"

definition ValidateSubgoalTransition :: "subgoal_status \<Rightarrow> subgoal_status \<Rightarrow> bool" where
  "ValidateSubgoalTransition from to =
     (case map_of ValidSubgoalTransitions from of None \<Rightarrow> False | Some allowed \<Rightarrow> to \<in> set allowed)"

abbreviation PlanDraft :: string where "PlanDraft \<equiv> ''draft''"
abbreviation PlanActive :: string where "PlanActive \<equiv> ''active''"
abbreviation PlanReplanning :: string where "PlanReplanning \<equiv> ''replanning''"
abbreviation PlanCompleted :: string where "PlanCompleted \<equiv> ''completed''"
abbreviation PlanAbandoned :: string where "PlanAbandoned \<equiv> ''abandoned''"

definition ValidPlanTransitions :: "(string \<times> string list) list" where
  "ValidPlanTransitions =
     [(PlanDraft, [PlanActive]), (PlanActive, [PlanCompleted, PlanAbandoned, PlanReplanning]),
      (PlanReplanning, [PlanActive, PlanAbandoned])]"

definition ValidatePlanTransition :: "string \<Rightarrow> string \<Rightarrow> bool" where
  "ValidatePlanTransition from to =
     (case map_of ValidPlanTransitions from of None \<Rightarrow> False | Some allowed \<Rightarrow> to \<in> set allowed)"

abbreviation StrategyExploitSuccess :: string where "StrategyExploitSuccess \<equiv> ''exploit_success_path''"
abbreviation StrategyReduceFailure :: string where "StrategyReduceFailure \<equiv> ''reduce_failure_path''"
abbreviation StrategyDiversify :: string where "StrategyDiversify \<equiv> ''diversify_attempts''"
abbreviation StrategyDeferHighRisk :: string where "StrategyDeferHighRisk \<equiv> ''defer_high_risk''"

datatype replan_trigger = TriggerExecFailure | TriggerRepeatedFailure | TriggerReinforcement | TriggerObjectivePenalty

abbreviation HorizonContinuous :: string where "HorizonContinuous \<equiv> ''continuous''"

definition HorizonDays :: "string \<Rightarrow> int option" where
  "HorizonDays = map_of [(''short'', 1), (''medium'', 7), (''long'', 30), (''daily'', 1), (''weekly'', 7),
     (''monthly'', 30), (HorizonContinuous, 90)]"

definition MaxSubgoalsPerGoal :: nat where "MaxSubgoalsPerGoal = 5"
definition MaxActiveSubgoals :: nat where "MaxActiveSubgoals = 12"
definition MaxTasksPerPlan :: nat where "MaxTasksPerPlan = 10"
definition MaxDepth :: nat where "MaxDepth = 3"
definition ProgressStaleHours :: int where "ProgressStaleHours = 24"
definition MinProgressToComplete :: f64 where "MinProgressToComplete = f64 (90 / 100)"
definition BlockedProgressThreshold :: f64 where "BlockedProgressThreshold = f64 (10 / 100)"
definition TaskEmissionCooldownMinutes :: f64 where "TaskEmissionCooldownMinutes = f64 30"
definition GoalWeightUrgency :: f64 where "GoalWeightUrgency = f64 (35 / 100)"
definition WeightGoalPriority :: f64 where "WeightGoalPriority = f64 (35 / 100)"
definition WeightProgressGap :: f64 where "WeightProgressGap = f64 (30 / 100)"
definition RepeatedFailureThreshold :: int where "RepeatedFailureThreshold = 3"
definition SuccessReinforcementBoost :: f64 where "SuccessReinforcementBoost = f64 (10 / 100)"
definition ObjectivePenaltyThreshold :: f64 where "ObjectivePenaltyThreshold = f64 (5 / 100)"

record goal_plan =
  gp_ID :: string
  gp_GoalID :: string
  gp_Version :: int
  gp_Horizon :: string
  gp_Strategy :: string
  gp_Status :: string
  gp_ExpectedUtility :: f64
  gp_RiskEstimate :: f64
  gp_ReplanCount :: int
  gp_LastReplanAt :: time
  gp_CreatedAt :: time
  gp_UpdatedAt :: time

record sub_goal =
  sg_ID :: string
  sg_GoalID :: string
  sg_PlanID :: string
  sg_Title :: string
  sg_Description :: string
  sg_Status :: subgoal_status
  sg_ProgressScore :: f64
  sg_TargetMetric :: string
  sg_TargetValue :: f64
  sg_CurrentValue :: f64
  sg_PreferredAction :: string
  sg_Horizon :: string
  sg_Priority :: f64
  sg_DependsOn :: string
  sg_BlockReason :: string
  sg_Strategy :: string
  sg_FailureCount :: int
  sg_SuccessCount :: int
  sg_LastTaskEmitted :: time
  sg_CreatedAt :: time
  sg_UpdatedAt :: time

record goal_progress =
  pr_ID :: string
  pr_SubgoalID :: string
  pr_GoalID :: string
  pr_MetricName :: string
  pr_MetricValue :: f64
  pr_ProgressPct :: f64
  pr_MeasuredAt :: time

record plan_summary =
  su_GoalID :: string
  su_GoalType :: string
  su_GoalPriority :: f64
  su_Horizon :: string
  su_TotalSubgoals :: nat
  su_ActiveSubgoals :: nat
  su_CompletedSubgoals :: nat
  su_BlockedSubgoals :: nat
  su_OverallProgress :: f64
  su_UpdatedAt :: time

record task_emission =
  em_SubgoalID :: string
  em_GoalID :: string
  em_ActionType :: string
  em_Urgency :: f64
  em_ExpectedValue :: f64
  em_RiskLevel :: f64
  em_StrategyType :: string
  em_Priority :: f64

record subgoal_template =
  tm_TitlePattern :: string
  tm_TargetMetric :: string
  tm_TargetValue :: f64
  tm_PreferredAction :: string
  tm_PriorityOffset :: f64

text \<open>A goal of the configuration, with the fields that planning reads.\<close>

record system_goal =
  go_ID :: string
  go_Type :: string
  go_Priority :: f64
  go_Horizon :: string
  go_SuccessMetrics :: "(string \<times> string) list"

type_synonym decomposition_rules = "(string \<times> subgoal_template list) list"

section \<open>Decomposition\<close>

definition template :: "string \<Rightarrow> string \<Rightarrow> rat \<Rightarrow> string \<Rightarrow> rat \<Rightarrow> subgoal_template" where
  "template title metric target action offset =
     \<lparr>tm_TitlePattern = title, tm_TargetMetric = metric, tm_TargetValue = f64 target,
      tm_PreferredAction = action, tm_PriorityOffset = f64 offset\<rparr>"

definition DefaultDecompositionRules :: decomposition_rules where
  "DefaultDecompositionRules =
     [(''safety'',
        [template ''Protect family time blocks'' ''blocked_hours_today'' 4 ''schedule_work'' 0,
         template ''Maintain governance constraints'' ''governance_violations'' 0 ''log_recommendation'' (- 5 / 100)]),
      (''income'',
        [template ''Pursue high-value opportunities'' ''verified_monthly_income'' 13000 ''analyze_opportunity'' 0,
         template ''Convert pipeline to revenue'' ''pipeline_conversion_rate'' (30 / 100) ''propose_income_action'' (- 5 / 100),
         template ''Schedule revenue-generating work'' ''scheduled_revenue_hours'' 20 ''schedule_work'' (- 10 / 100)]),
      (''efficiency'',
        [template ''Reduce owner cognitive load'' ''owner_load_score'' (50 / 100) ''prioritize_tasks'' 0,
         template ''Automate repetitive tasks'' ''automation_candidate_count'' 0 ''create_task'' (- 5 / 100)]),
      (''operational'',
        [template ''Maintain system uptime'' ''failure_rate'' (5 / 100) ''retry_job'' 0,
         template ''Clear processing backlog'' ''queued_jobs'' 10 ''trigger_resync'' (- 5 / 100)]),
      (''learning'',
        [template ''Record and learn from outcomes'' ''outcomes_recorded'' 10 ''record_outcome'' 0,
         template ''Update strategy based on feedback'' ''strategy_adjustments'' 3 ''adjust_strategy'' (- 10 / 100)]),
      (''evolution'',
        [template ''Identify improvement candidates'' ''improvement_candidates'' 3 ''log_recommendation'' 0])]"

definition goal_horizon :: "string \<Rightarrow> string" where
  "goal_horizon h = (if HorizonDays h = None then HorizonContinuous else h)"

definition deterministicID :: "(string \<Rightarrow> string) \<Rightarrow> string \<Rightarrow> nat \<Rightarrow> string" where
  "deterministicID newSHA1 goalID i = newSHA1 (goalID @ '':'' @ nat_str i)"

text \<open>The target of a template, unless the first metric of its name has a readable target.\<close>

definition target_value :: "(string \<Rightarrow> f64 option) \<Rightarrow> system_goal \<Rightarrow> subgoal_template \<Rightarrow> f64" where
  "target_value parseFloat goal tmpl =
     (case map_of (go_SuccessMetrics goal) (tm_TargetMetric tmpl) of
        None \<Rightarrow> tm_TargetValue tmpl
      | Some target \<Rightarrow> (case parseFloat target of None \<Rightarrow> tm_TargetValue tmpl | Some parsed \<Rightarrow> parsed))"

definition new_subgoal ::
  "(string \<Rightarrow> string) \<Rightarrow> (string \<Rightarrow> f64 option) \<Rightarrow> time \<Rightarrow> system_goal \<Rightarrow> nat \<Rightarrow> subgoal_template \<Rightarrow> sub_goal"
where
  "new_subgoal newSHA1 parseFloat now goal i tmpl =
     \<lparr>sg_ID = deterministicID newSHA1 (go_ID goal) i, sg_GoalID = go_ID goal, sg_PlanID = '''', sg_Title = tm_TitlePattern tmpl,
      sg_Description = ''Subgoal for '' @ go_ID goal @ '': '' @ tm_TitlePattern tmpl, sg_Status = SubgoalNotStarted,
      sg_ProgressScore = Fin 0, sg_TargetMetric = tm_TargetMetric tmpl, sg_TargetValue = target_value parseFloat goal tmpl,
      sg_CurrentValue = Fin 0, sg_PreferredAction = tm_PreferredAction tmpl, sg_Horizon = goal_horizon (go_Horizon goal),
      sg_Priority = clamp01 (fadd (go_Priority goal) (tm_PriorityOffset tmpl)), sg_DependsOn = '''', sg_BlockReason = '''',
      sg_Strategy = '''', sg_FailureCount = 0, sg_SuccessCount = 0, sg_LastTaskEmitted = 0, sg_CreatedAt = now, sg_UpdatedAt = now\<rparr>"

definition DecomposeGoal ::
  "(string \<Rightarrow> string) \<Rightarrow> (string \<Rightarrow> f64 option) \<Rightarrow> time \<Rightarrow> system_goal \<Rightarrow> decomposition_rules \<Rightarrow> sub_goal list"
where
  "DecomposeGoal newSHA1 parseFloat now goal rules =
     (case map_of rules (go_Type goal) of
        None \<Rightarrow> []
      | Some templates \<Rightarrow>
          map (\<lambda>(i, tmpl). new_subgoal newSHA1 parseFloat now goal i tmpl)
            (take MaxSubgoalsPerGoal (zip [0..<length templates] templates)))"

section \<open>Progress\<close>

definition MeasureProgress :: "sub_goal \<Rightarrow> f64" where
  "MeasureProgress sg =
     (if fle (sg_TargetValue sg) (Fin 0)
      then if fle (sg_CurrentValue sg) (Fin 0) then Fin 1 else clamp01 (fsub (Fin 1) (fdiv (sg_CurrentValue sg) (f64 5)))
      else clamp01 (fdiv (sg_CurrentValue sg) (sg_TargetValue sg)))"

definition IsStale :: "sub_goal \<Rightarrow> time \<Rightarrow> bool" where
  "IsStale sg now \<longleftrightarrow> flt (f64 (of_int ProgressStaleHours)) (dur_Hours (time_Sub now (sg_UpdatedAt sg)))"

definition ShouldAutoComplete :: "sub_goal \<Rightarrow> bool" where
  "ShouldAutoComplete sg \<longleftrightarrow> sg_Status sg = SubgoalActive \<and> fle MinProgressToComplete (sg_ProgressScore sg)"

definition ShouldBlock :: "sub_goal \<Rightarrow> time \<Rightarrow> bool" where
  "ShouldBlock sg now \<longleftrightarrow> sg_Status sg = SubgoalActive \<and> IsStale sg now \<and> flt (sg_ProgressScore sg) BlockedProgressThreshold"

definition IsDependencyMet :: "sub_goal \<Rightarrow> sub_goal list \<Rightarrow> bool" where
  "IsDependencyMet sg allSubgoals =
     (sg_DependsOn sg = '''' \<or>
      (case find (\<lambda>dep. sg_ID dep = sg_DependsOn sg) allSubgoals of
         None \<Rightarrow> False | Some dep \<Rightarrow> sg_Status dep = SubgoalCompleted))"

definition progress_weight :: "sub_goal \<Rightarrow> f64" where
  "progress_weight sg = (if fle (sg_Priority sg) (Fin 0) then f64 (1 / 10) else sg_Priority sg)"

definition ComputeOverallProgress :: "sub_goal list \<Rightarrow> f64" where
  "ComputeOverallProgress subgoals =
     (if subgoals = [] then Fin 0
      else let (totalWeight, weightedProgress) =
             fold (\<lambda>sg (tw, wp). let w = progress_weight sg in (fadd tw w, fadd wp (fmul w (sg_ProgressScore sg)))) subgoals (Fin 0, Fin 0)
           in if feq totalWeight (Fin 0) then Fin 0 else clamp01 (fdiv weightedProgress totalWeight))"

definition ComputeTaskUrgency :: "sub_goal \<Rightarrow> time \<Rightarrow> f64" where
  "ComputeTaskUrgency sg now =
     (let horizonDays = (case HorizonDays (sg_Horizon sg) of None \<Rightarrow> 90 | Some d \<Rightarrow> d);
          elapsed = fdiv (dur_Hours (time_Sub now (sg_CreatedAt sg))) (f64 24);
          timePressure = clamp01 (fdiv elapsed (f64 (of_int horizonDays)));
          progressGap = clamp01 (fsub (Fin 1) (sg_ProgressScore sg))
      in clamp01 (fadd (fmul timePressure (f64 (50 / 100))) (fmul progressGap (f64 (50 / 100)))))"

definition ComputeTaskPriority :: "f64 \<Rightarrow> f64 \<Rightarrow> f64 \<Rightarrow> f64" where
  "ComputeTaskPriority urgency goalPriority progressScore =
     (let progressGap = clamp01 (fsub (Fin 1) progressScore) in
      clamp01 (fadd (fadd (fmul urgency GoalWeightUrgency) (fmul goalPriority WeightGoalPriority))
        (fmul progressGap WeightProgressGap)))"

section \<open>Planning\<close>

text \<open>The guards of the planning loop, and the emission for a subgoal that passes them.\<close>

definition needs_task :: "sub_goal list \<Rightarrow> time \<Rightarrow> sub_goal \<Rightarrow> bool" where
  "needs_task subgoals now sg \<longleftrightarrow>
     sg_Status sg = SubgoalActive \<and> \<not> fle MinProgressToComplete (sg_ProgressScore sg) \<and>
     \<not> (sg_LastTaskEmitted sg \<noteq> 0 \<and> flt (dur_Minutes (time_Sub now (sg_LastTaskEmitted sg))) TaskEmissionCooldownMinutes) \<and>
     IsDependencyMet sg subgoals"

definition emission_for :: "time \<Rightarrow> sub_goal \<Rightarrow> task_emission" where
  "emission_for now sg =
     (let urgency = ComputeTaskUrgency sg now in
      \<lparr>em_SubgoalID = sg_ID sg, em_GoalID = sg_GoalID sg, em_ActionType = sg_PreferredAction sg, em_Urgency = urgency,
       em_ExpectedValue = clamp01 (fmul (sg_Priority sg) (f64 (80 / 100))),
       em_RiskLevel = clamp01 (fmul (fsub (Fin 1) (sg_ProgressScore sg)) (f64 (30 / 100))),
       em_StrategyType = sg_GoalID sg,
       em_Priority = ComputeTaskPriority urgency (sg_Priority sg) (sg_ProgressScore sg)\<rparr>)"

definition emission_before :: "task_emission \<Rightarrow> task_emission \<Rightarrow> bool" where
  "emission_before a b \<longleftrightarrow> flt (em_Priority b) (em_Priority a) \<or>
     feq (em_Priority a) (em_Priority b) \<and> str_less (em_SubgoalID a) (em_SubgoalID b)"

definition sift :: "nat \<Rightarrow> task_emission list \<Rightarrow> task_emission list" where
  "sift = sift_down emission_before"

definition sortEmissions :: "task_emission list \<Rightarrow> task_emission list" where
  "sortEmissions es = fold sift [1..<length es] es"

definition PlanTasks :: "sub_goal list \<Rightarrow> time \<Rightarrow> task_emission list" where
  "PlanTasks subgoals now = sortEmissions (map (emission_for now) (filter (needs_task subgoals now) subgoals))"

section \<open>Strategy\<close>

definition SelectStrategyWithVector :: "sub_goal \<Rightarrow> f64 \<Rightarrow> f64 \<Rightarrow> f64 \<Rightarrow> string" where
  "SelectStrategyWithVector sg objectiveDelta explorationLevel riskTolerance =
     (let base = fneg ObjectivePenaltyThreshold;
          deferThreshold =
            (if flt (Fin 0) riskTolerance
             then fmul base (fadd (Fin 1) (fmul (fsub riskTolerance (f64 (30 / 100))) (f64 (60 / 100)))) else base)
      in if flt objectiveDelta deferThreshold then StrategyDeferHighRisk
         else if RepeatedFailureThreshold \<le> sg_FailureCount sg then StrategyReduceFailure
         else if 0 < sg_FailureCount sg \<and> 0 < sg_SuccessCount sg then StrategyDiversify
         else if flt (f64 (50 / 100)) explorationLevel \<and> sg_SuccessCount sg \<le> 1 then StrategyDiversify
         else StrategyExploitSuccess)"

definition SelectStrategy :: "sub_goal \<Rightarrow> f64 \<Rightarrow> string" where
  "SelectStrategy sg objectiveDelta = SelectStrategyWithVector sg objectiveDelta (Fin 0) (Fin 0)"

definition ApplyStrategyToEmission :: "task_emission \<Rightarrow> string \<Rightarrow> task_emission" where
  "ApplyStrategyToEmission em strategy =
     (let em =
        (if strategy = StrategyDeferHighRisk
         then em\<lparr>em_Priority := clamp01 (fmul (em_Priority em) (f64 (60 / 100))), em_RiskLevel := clamp01 (fadd (em_RiskLevel em) (f64 (20 / 100)))\<rparr>
         else if strategy = StrategyReduceFailure
         then em\<lparr>em_ExpectedValue := clamp01 (fmul (em_ExpectedValue em) (f64 (70 / 100)))\<rparr>
         else if strategy = StrategyDiversify
         then em\<lparr>em_RiskLevel := clamp01 (fadd (em_RiskLevel em) (f64 (10 / 100)))\<rparr>
         else if strategy = StrategyExploitSuccess
         then em\<lparr>em_Priority := clamp01 (fadd (em_Priority em) SuccessReinforcementBoost)\<rparr>
         else em)
      in em\<lparr>em_StrategyType := strategy\<rparr>)"

definition ShouldReplan :: "sub_goal \<Rightarrow> f64 \<Rightarrow> replan_trigger option" where
  "ShouldReplan sg objectiveDelta =
     (if flt objectiveDelta (fneg ObjectivePenaltyThreshold) then Some TriggerObjectivePenalty
      else if RepeatedFailureThreshold \<le> sg_FailureCount sg then Some TriggerRepeatedFailure
      else if 0 < sg_FailureCount sg \<and> sg_SuccessCount sg = 0 then Some TriggerExecFailure
      else if 3 \<le> sg_SuccessCount sg \<and> sg_FailureCount sg = 0 then Some TriggerReinforcement
      else None)"

section \<open>Bounds of the scores\<close>

text \<open>A stored subgoal whose priority and progress are in the unit interval.\<close>

definition sg_ok :: "sub_goal \<Rightarrow> bool" where
  "sg_ok sg \<longleftrightarrow> fin_in 0 1 (sg_Priority sg) \<and> fin_in 0 1 (sg_ProgressScore sg)"

lemma unit_const: "0 \<le> x \<Longrightarrow> x \<le> 1 \<Longrightarrow> \<exists>w. f64 x = Fin w \<and> 0 \<le> w \<and> w \<le> 1"
  by (rule rnd_unit)

lemma unit_mul: "fin_in 0 1 a \<Longrightarrow> 0 \<le> x \<Longrightarrow> x \<le> 1 \<Longrightarrow> \<exists>y. fmul a (f64 x) = Fin y"
  using weighted_finite [OF _ unit_const] by blast

lemma unit_gap: "fin_in 0 1 a \<Longrightarrow> fin_in 0 1 (fsub (Fin 1) a)"
  using rnd_unit [of "1 - x" for x] by (fastforce simp: fin_in_def fsub_def)

lemma urgency_in: "fin_in 0 1 (sg_ProgressScore sg) \<Longrightarrow> fin_in 0 1 (ComputeTaskUrgency sg now)"
proof -
  assume p: "fin_in 0 1 (sg_ProgressScore sg)"
  define d where "d = (case HorizonDays (sg_Horizon sg) of None \<Rightarrow> 90 | Some d \<Rightarrow> d)"
  have "d \<in> {1, 7, 30, 90}" by (auto simp: d_def HorizonDays_def split: if_splits option.splits)
  then have d: "f64 (of_int d) = Fin (of_int d)" "d \<noteq> 0" using rnd_int [of d] by auto
  have "fdiv (fdiv (dur_Hours (time_Sub now (sg_CreatedAt sg))) (f64 24)) (f64 (of_int d)) \<noteq> NaN"
    using d(2) unfolding d(1) const_exact by (intro fdiv_const_not_NaN dur_Hours_not_NaN) simp_all
  then have t: "fin_in 0 1 (clamp01 (fdiv (fdiv (dur_Hours (time_Sub now (sg_CreatedAt sg))) (f64 24)) (f64 (of_int d))))"
    by (rule clamp01_in)
  have g: "fin_in 0 1 (clamp01 (fsub (Fin 1) (sg_ProgressScore sg)))"
    using clamp01_in fin_in_not_NaN [OF unit_gap [OF p]] by blast
  obtain a b where "fmul (clamp01 (fdiv (fdiv (dur_Hours (time_Sub now (sg_CreatedAt sg))) (f64 24)) (f64 (of_int d)))) (f64 (50 / 100)) = Fin a"
    "fmul (clamp01 (fsub (Fin 1) (sg_ProgressScore sg))) (f64 (50 / 100)) = Fin b"
    using unit_mul [OF t, of "50 / 100"] unit_mul [OF g, of "50 / 100"] by auto
  then show ?thesis unfolding ComputeTaskUrgency_def Let_def d_def [symmetric]
    by (intro clamp01_in) (simp add: fadd_not_NaN del: fadd.simps)
qed

lemma task_priority_in:
  assumes "fin_in 0 1 u" and "fin_in 0 1 p" and "fin_in 0 1 s"
  shows "fin_in 0 1 (ComputeTaskPriority u p s)"
proof -
  have g: "fin_in 0 1 (clamp01 (fsub (Fin 1) s))" using clamp01_in fin_in_not_NaN [OF unit_gap [OF assms(3)]] by blast
  obtain a b c where "fmul u GoalWeightUrgency = Fin a" "fmul p WeightGoalPriority = Fin b"
    "fmul (clamp01 (fsub (Fin 1) s)) WeightProgressGap = Fin c"
    using unit_mul [OF assms(1), of "35 / 100"] unit_mul [OF assms(2), of "35 / 100"] unit_mul [OF g, of "30 / 100"]
    unfolding GoalWeightUrgency_def WeightGoalPriority_def WeightProgressGap_def by auto
  then show ?thesis unfolding ComputeTaskPriority_def Let_def
    by (intro clamp01_in) (simp add: fadd_not_NaN del: fadd.simps)
qed

text \<open>The numbers of an emission that scoring reads.\<close>

definition em_ok :: "task_emission \<Rightarrow> bool" where
  "em_ok em \<longleftrightarrow> fin_in 0 1 (em_Urgency em) \<and> fin_in 0 1 (em_ExpectedValue em) \<and> fin_in 0 1 (em_RiskLevel em) \<and> fin_in 0 1 (em_Priority em)"

lemma clamp_mul_in: "fin_in 0 1 a \<Longrightarrow> 0 \<le> x \<Longrightarrow> x \<le> 1 \<Longrightarrow> fin_in 0 1 (clamp01 (fmul a (f64 x)))"
  using unit_mul clamp01_in by (metis f64.distinct(5))

lemma clamp_add_in: "fin_in 0 1 a \<Longrightarrow> 0 \<le> x \<Longrightarrow> x \<le> 1 \<Longrightarrow> fin_in 0 1 (clamp01 (fadd a (f64 x)))"
  using unit_const [of x] clamp01_in [of "fadd a (f64 x)"] by (auto simp: fin_in_def)

lemma emission_ok: "sg_ok sg \<Longrightarrow> em_ok (emission_for now sg)"
  unfolding sg_ok_def em_ok_def emission_for_def Let_def
  by (simp add: urgency_in task_priority_in clamp_mul_in [OF _ _ _] unit_gap)

lemma strategy_ok: "em_ok em \<Longrightarrow> em_ok (ApplyStrategyToEmission em strategy)"
  unfolding em_ok_def ApplyStrategyToEmission_def SuccessReinforcementBoost_def Let_def
  by (simp add: clamp_mul_in clamp_add_in)

section \<open>The order of emissions\<close>

lemma emission_before_asym: "emission_before a b \<Longrightarrow> \<not> emission_before b a"
  by (auto simp: emission_before_def feq_def dest: flt_asym str_less_asym)

lemma emission_before_negtrans:
  assumes "em_Priority a \<noteq> NaN" "em_Priority b \<noteq> NaN" "em_Priority c \<noteq> NaN" "\<not> emission_before a b" "\<not> emission_before b c"
  shows "\<not> emission_before a c"
  using assms flt_or_eq [of "em_Priority a" "em_Priority b"] flt_or_eq [of "em_Priority b" "em_Priority c"]
    flt_negtrans [of "em_Priority b" "em_Priority c" "em_Priority a"] str_less_negtrans [of "em_SubgoalID a" "em_SubgoalID b" "em_SubgoalID c"]
  by (auto simp: emission_before_def feq_def dest: flt_asym)

interpretation emission_sort: sort_order emission_before "\<lambda>em. em_Priority em \<noteq> NaN"
  by unfold_locales (fact emission_before_asym, fact emission_before_negtrans)

lemma sortEmissions_sorts:
  "list_all (\<lambda>em. em_Priority em \<noteq> NaN) es \<Longrightarrow> mset (sortEmissions es) = mset es \<and> ordered_by emission_before (sortEmissions es)"
  using emission_sort.sift_sort_sorts [OF _ refl] by (simp add: sortEmissions_def sift_def)

lemma mset_sortEmissions: "mset (sortEmissions es) = mset es"
  unfolding sortEmissions_def sift_def by (rule mset_outer) (rule mset_sift_down)

lemma PlanTasks_sorts:
  assumes "list_all sg_ok sgs"
  shows "mset (PlanTasks sgs now) = image_mset (emission_for now) (mset (filter (needs_task sgs now) sgs))"
    and "ordered_by emission_before (PlanTasks sgs now)"
proof -
  let ?es = "map (emission_for now) (filter (needs_task sgs now) sgs)"
  have "list_all (\<lambda>em. em_Priority em \<noteq> NaN) ?es"
    using assms emission_ok fin_in_not_NaN by (fastforce simp: list_all_iff em_ok_def)
  from sortEmissions_sorts [OF this]
  show "mset (PlanTasks sgs now) = image_mset (emission_for now) (mset (filter (needs_task sgs now) sgs))"
    "ordered_by emission_before (PlanTasks sgs now)"
    by (simp_all add: PlanTasks_def)
qed

end
