(* ===== verification/Goal_Store.thy ===== *)
theory Goal_Store
  imports Goal_Plan Task_Store
begin

text \<open>
  The stores of goal planning: \<open>src/internal/agent/goal_planning/store.go\<close>. Its four Go
  interfaces are one record of operations with a PostgreSQL and an in-memory value; the locale
  \<open>goal_store\<close> states what the engine relies on and is interpreted on both. The instant an
  operation reads from the clock is an argument. A listing that breaks off returns the rows read so
  far together with the error, and some callers use them.
\<close>

section \<open>The interface\<close>

type_synonym 'v listing = "'v list \<times> string option"

record 's goal_ops =
  s_Insert :: "sub_goal \<Rightarrow> 's \<Rightarrow> string option \<times> 's"
  s_Get :: "string \<Rightarrow> 's \<Rightarrow> (string + sub_goal) \<times> 's"
  s_UpdateStatus :: "time \<Rightarrow> string \<Rightarrow> subgoal_status \<Rightarrow> string \<Rightarrow> 's \<Rightarrow> string option \<times> 's"
  s_UpdateProgress :: "time \<Rightarrow> string \<Rightarrow> f64 \<Rightarrow> f64 \<Rightarrow> 's \<Rightarrow> string option \<times> 's"
  s_UpdateLastTaskEmitted :: "time \<Rightarrow> string \<Rightarrow> time \<Rightarrow> 's \<Rightarrow> string option \<times> 's"
  s_UpdateStrategy :: "time \<Rightarrow> string \<Rightarrow> string \<Rightarrow> int \<Rightarrow> int \<Rightarrow> 's \<Rightarrow> string option \<times> 's"
  s_ListByGoal :: "string \<Rightarrow> 's \<Rightarrow> sub_goal listing \<times> 's"
  s_ListByPlan :: "string \<Rightarrow> 's \<Rightarrow> sub_goal listing \<times> 's"
  s_ListActive :: "'s \<Rightarrow> sub_goal listing \<times> 's"
  s_ListAll :: "'s \<Rightarrow> sub_goal listing \<times> 's"
  g_Insert :: "goal_progress \<Rightarrow> 's \<Rightarrow> string option \<times> 's"
  g_LatestForSubgoal :: "string \<Rightarrow> 's \<Rightarrow> (string + goal_progress) \<times> 's"
  g_ListByGoal :: "string \<Rightarrow> 's \<Rightarrow> goal_progress listing \<times> 's"
  p_Insert :: "goal_plan \<Rightarrow> 's \<Rightarrow> string option \<times> 's"
  p_Get :: "string \<Rightarrow> 's \<Rightarrow> (string + goal_plan) \<times> 's"
  p_GetByGoal :: "string \<Rightarrow> 's \<Rightarrow> (string + goal_plan) \<times> 's"
  p_UpdateStatus :: "time \<Rightarrow> string \<Rightarrow> string \<Rightarrow> 's \<Rightarrow> string option \<times> 's"
  p_IncrementVersion :: "time \<Rightarrow> string \<Rightarrow> 's \<Rightarrow> string option \<times> 's"
  p_IncrementReplanCount :: "time \<Rightarrow> string \<Rightarrow> 's \<Rightarrow> string option \<times> 's"
  p_ListAll :: "'s \<Rightarrow> goal_plan listing \<times> 's"
  d_Insert :: "goal_dependency \<Rightarrow> 's \<Rightarrow> string option \<times> 's"
  d_ListByPlan :: "string \<Rightarrow> 's \<Rightarrow> goal_dependency listing \<times> 's"
  d_DeleteByPlan :: "string \<Rightarrow> 's \<Rightarrow> string option \<times> 's"

text \<open>What an update does to a row.\<close>

definition set_status :: "time \<Rightarrow> subgoal_status \<Rightarrow> string \<Rightarrow> sub_goal \<Rightarrow> sub_goal" where
  "set_status now st reason r = r\<lparr>sg_Status := st, sg_BlockReason := reason, sg_UpdatedAt := now\<rparr>"

definition set_progress :: "time \<Rightarrow> f64 \<Rightarrow> f64 \<Rightarrow> sub_goal \<Rightarrow> sub_goal" where
  "set_progress now p c r = r\<lparr>sg_ProgressScore := p, sg_CurrentValue := c, sg_UpdatedAt := now\<rparr>"

definition set_emitted :: "time \<Rightarrow> time \<Rightarrow> sub_goal \<Rightarrow> sub_goal" where
  "set_emitted now t r = r\<lparr>sg_LastTaskEmitted := t, sg_UpdatedAt := now\<rparr>"

definition set_strategy :: "time \<Rightarrow> string \<Rightarrow> int \<Rightarrow> int \<Rightarrow> sub_goal \<Rightarrow> sub_goal" where
  "set_strategy now strat fc sc r = r\<lparr>sg_Strategy := strat, sg_FailureCount := fc, sg_SuccessCount := sc, sg_UpdatedAt := now\<rparr>"

section \<open>PostgreSQL\<close>

record goal_db =
  db_subgoals :: "sub_goal list"
  db_progress :: "goal_progress list"
  db_plans :: "goal_plan list"
  db_deps :: "goal_dependency list"
  db_faults :: "fault list"
  db_error :: string

definition gdb_next :: "goal_db \<Rightarrow> fault \<times> goal_db" where
  "gdb_next s = (case db_faults s of [] \<Rightarrow> (NoFault, s) | f # fs \<Rightarrow> (f, s\<lparr>db_faults := fs\<rparr>))"

definition gdb_exec :: "(goal_db \<Rightarrow> goal_db option) \<Rightarrow> goal_db \<Rightarrow> string option \<times> goal_db" where
  "gdb_exec stmt s =
     (let (f, s) = gdb_next s in
      case (f, stmt s) of
        (NoFault, Some s') \<Rightarrow> (None, s')
      | (FaultAfter, Some s') \<Rightarrow> (Some (db_error s), s')
      | _ \<Rightarrow> (Some (db_error s), s))"

definition gdb_row :: "(goal_db \<Rightarrow> 'v option) \<Rightarrow> goal_db \<Rightarrow> (string + 'v) \<times> goal_db" where
  "gdb_row q s =
     (let (f, s) = gdb_next s in
      (if f \<noteq> NoFault then Inl (db_error s) else case q s of None \<Rightarrow> Inl ''no rows in result set'' | Some v \<Rightarrow> Inr v, s))"

definition gdb_rows :: "(goal_db \<Rightarrow> 'v list) \<Rightarrow> goal_db \<Rightarrow> 'v listing \<times> goal_db" where
  "gdb_rows q s =
     (let (f, s) = gdb_next s in
      (case f of
         NoFault \<Rightarrow> (q s, None)
       | FaultAfterRows n \<Rightarrow> (take n (q s), Some (db_error s))
       | _ \<Rightarrow> ([], Some (db_error s)), s))"

definition gdb_Insert :: "sub_goal \<Rightarrow> goal_db \<Rightarrow> string option \<times> goal_db" where
  "gdb_Insert sg = gdb_exec (\<lambda>s.
     if row_of sg_ID (db_subgoals s) (sg_ID sg) = None \<and> int4 (sg_FailureCount sg) \<and> int4 (sg_SuccessCount sg)
     then Some (s\<lparr>db_subgoals := db_subgoals s @ [sg]\<rparr>) else None)"

definition gdb_Get :: "string \<Rightarrow> goal_db \<Rightarrow> (string + sub_goal) \<times> goal_db" where
  "gdb_Get i = gdb_row (\<lambda>s. row_of sg_ID (db_subgoals s) i)"

definition gdb_set :: "string \<Rightarrow> (sub_goal \<Rightarrow> sub_goal) \<Rightarrow> goal_db \<Rightarrow> string option \<times> goal_db" where
  "gdb_set i f = gdb_exec (\<lambda>s. Some (s\<lparr>db_subgoals := sql_update (\<lambda>r. sg_ID r = i) f (db_subgoals s)\<rparr>))"

definition gdb_UpdateStatus :: "time \<Rightarrow> string \<Rightarrow> subgoal_status \<Rightarrow> string \<Rightarrow> goal_db \<Rightarrow> string option \<times> goal_db" where
  "gdb_UpdateStatus now i st reason = gdb_set i (set_status now st reason)"

definition gdb_UpdateProgress :: "time \<Rightarrow> string \<Rightarrow> f64 \<Rightarrow> f64 \<Rightarrow> goal_db \<Rightarrow> string option \<times> goal_db" where
  "gdb_UpdateProgress now i p c = gdb_set i (set_progress now p c)"

definition gdb_UpdateLastTaskEmitted :: "time \<Rightarrow> string \<Rightarrow> time \<Rightarrow> goal_db \<Rightarrow> string option \<times> goal_db" where
  "gdb_UpdateLastTaskEmitted now i t = gdb_set i (set_emitted now t)"

definition gdb_UpdateStrategy :: "time \<Rightarrow> string \<Rightarrow> string \<Rightarrow> int \<Rightarrow> int \<Rightarrow> goal_db \<Rightarrow> string option \<times> goal_db" where
  "gdb_UpdateStrategy now i strat fc sc =
     (if int4 fc \<and> int4 sc then gdb_set i (set_strategy now strat fc sc) else gdb_exec (\<lambda>_. None))"

text \<open>\<open>ORDER BY priority DESC, created_at ASC\<close>; a NaN sorts above every number.\<close>

definition sg_before :: "sub_goal \<Rightarrow> sub_goal \<Rightarrow> bool" where
  "sg_before a b \<longleftrightarrow> pg_flt (sg_Priority b) (sg_Priority a) \<or> sg_Priority a = sg_Priority b \<and> sg_CreatedAt a < sg_CreatedAt b"

definition gdb_listWhere :: "(sub_goal \<Rightarrow> bool) \<Rightarrow> goal_db \<Rightarrow> sub_goal listing \<times> goal_db" where
  "gdb_listWhere P = gdb_rows (\<lambda>s. sql_sort sg_before (filter P (db_subgoals s)))"

definition gdb_ListByGoal :: "string \<Rightarrow> goal_db \<Rightarrow> sub_goal listing \<times> goal_db" where
  "gdb_ListByGoal g = gdb_listWhere (\<lambda>r. sg_GoalID r = g)"

definition gdb_ListByPlan :: "string \<Rightarrow> goal_db \<Rightarrow> sub_goal listing \<times> goal_db" where
  "gdb_ListByPlan p = gdb_listWhere (\<lambda>r. sg_PlanID r = p)"

definition gdb_ListActive :: "goal_db \<Rightarrow> sub_goal listing \<times> goal_db" where
  "gdb_ListActive = gdb_listWhere (\<lambda>r. sg_Status r = SubgoalActive)"

definition gdb_ListAll :: "goal_db \<Rightarrow> sub_goal listing \<times> goal_db" where
  "gdb_ListAll = gdb_listWhere (\<lambda>_. True)"

text \<open>A measurement refers to a stored subgoal.\<close>

definition gdb_ProgressInsert :: "goal_progress \<Rightarrow> goal_db \<Rightarrow> string option \<times> goal_db" where
  "gdb_ProgressInsert p = gdb_exec (\<lambda>s.
     if row_of pr_ID (db_progress s) (pr_ID p) = None \<and> row_of sg_ID (db_subgoals s) (pr_SubgoalID p) \<noteq> None
     then Some (s\<lparr>db_progress := db_progress s @ [p]\<rparr>) else None)"

definition measured_desc :: "goal_progress \<Rightarrow> goal_progress \<Rightarrow> bool" where
  "measured_desc a b \<longleftrightarrow> pr_MeasuredAt b < pr_MeasuredAt a"

definition gdb_LatestForSubgoal :: "string \<Rightarrow> goal_db \<Rightarrow> (string + goal_progress) \<times> goal_db" where
  "gdb_LatestForSubgoal i = gdb_row (\<lambda>s. sql_first measured_desc (filter (\<lambda>p. pr_SubgoalID p = i) (db_progress s)))"

definition gdb_ProgressListByGoal :: "string \<Rightarrow> goal_db \<Rightarrow> goal_progress listing \<times> goal_db" where
  "gdb_ProgressListByGoal g = gdb_rows (\<lambda>s. sql_sort measured_desc (filter (\<lambda>p. pr_GoalID p = g) (db_progress s)))"

definition gdb_PlanInsert :: "goal_plan \<Rightarrow> goal_db \<Rightarrow> string option \<times> goal_db" where
  "gdb_PlanInsert p = gdb_exec (\<lambda>s.
     if row_of gp_ID (db_plans s) (gp_ID p) = None \<and> int4 (gp_Version p) \<and> int4 (gp_ReplanCount p)
     then Some (s\<lparr>db_plans := db_plans s @ [p]\<rparr>) else None)"

definition gdb_PlanGet :: "string \<Rightarrow> goal_db \<Rightarrow> (string + goal_plan) \<times> goal_db" where
  "gdb_PlanGet i = gdb_row (\<lambda>s. row_of gp_ID (db_plans s) i)"

definition gdb_GetByGoal :: "string \<Rightarrow> goal_db \<Rightarrow> (string + goal_plan) \<times> goal_db" where
  "gdb_GetByGoal g = gdb_row (\<lambda>s. sql_first (\<lambda>a b. gp_Version b < gp_Version a) (filter (\<lambda>p. gp_GoalID p = g) (db_plans s)))"

text \<open>An update whose integer column overflows is rejected.\<close>

definition gdb_plan_set :: "string \<Rightarrow> (goal_plan \<Rightarrow> goal_plan) \<Rightarrow> goal_db \<Rightarrow> string option \<times> goal_db" where
  "gdb_plan_set i f = gdb_exec (\<lambda>s.
     if list_all (\<lambda>p. gp_ID p = i \<longrightarrow> int4 (gp_Version (f p)) \<and> int4 (gp_ReplanCount (f p))) (db_plans s)
     then Some (s\<lparr>db_plans := sql_update (\<lambda>p. gp_ID p = i) f (db_plans s)\<rparr>) else None)"

definition gdb_PlanUpdateStatus :: "time \<Rightarrow> string \<Rightarrow> string \<Rightarrow> goal_db \<Rightarrow> string option \<times> goal_db" where
  "gdb_PlanUpdateStatus now i st = gdb_plan_set i (\<lambda>p. p\<lparr>gp_Status := st, gp_UpdatedAt := now\<rparr>)"

definition gdb_IncrementVersion :: "time \<Rightarrow> string \<Rightarrow> goal_db \<Rightarrow> string option \<times> goal_db" where
  "gdb_IncrementVersion now i = gdb_plan_set i (\<lambda>p. p\<lparr>gp_Version := gp_Version p + 1, gp_UpdatedAt := now\<rparr>)"

definition gdb_IncrementReplanCount :: "time \<Rightarrow> string \<Rightarrow> goal_db \<Rightarrow> string option \<times> goal_db" where
  "gdb_IncrementReplanCount now i =
     gdb_plan_set i (\<lambda>p. p\<lparr>gp_ReplanCount := gp_ReplanCount p + 1, gp_LastReplanAt := now, gp_UpdatedAt := now\<rparr>)"

definition gdb_PlanListAll :: "goal_db \<Rightarrow> goal_plan listing \<times> goal_db" where
  "gdb_PlanListAll = gdb_rows (\<lambda>s. sql_sort (\<lambda>a b. gp_CreatedAt b < gp_CreatedAt a) (db_plans s))"

text \<open>A dependency refers to a stored plan.\<close>

definition gdb_DepInsert :: "goal_dependency \<Rightarrow> goal_db \<Rightarrow> string option \<times> goal_db" where
  "gdb_DepInsert d = gdb_exec (\<lambda>s.
     if row_of gd_ID (db_deps s) (gd_ID d) = None \<and> row_of gp_ID (db_plans s) (gd_PlanID d) \<noteq> None
     then Some (s\<lparr>db_deps := db_deps s @ [d]\<rparr>) else None)"

definition gdb_DepListByPlan :: "string \<Rightarrow> goal_db \<Rightarrow> goal_dependency listing \<times> goal_db" where
  "gdb_DepListByPlan p = gdb_rows (\<lambda>s. filter (\<lambda>d. gd_PlanID d = p) (db_deps s))"

definition gdb_DeleteByPlan :: "string \<Rightarrow> goal_db \<Rightarrow> string option \<times> goal_db" where
  "gdb_DeleteByPlan p = gdb_exec (\<lambda>s. Some (s\<lparr>db_deps := filter (\<lambda>d. gd_PlanID d \<noteq> p) (db_deps s)\<rparr>))"

definition gdb_ops :: "goal_db goal_ops" where
  "gdb_ops = \<lparr>s_Insert = gdb_Insert, s_Get = gdb_Get, s_UpdateStatus = gdb_UpdateStatus, s_UpdateProgress = gdb_UpdateProgress,
     s_UpdateLastTaskEmitted = gdb_UpdateLastTaskEmitted, s_UpdateStrategy = gdb_UpdateStrategy, s_ListByGoal = gdb_ListByGoal,
     s_ListByPlan = gdb_ListByPlan, s_ListActive = gdb_ListActive, s_ListAll = gdb_ListAll, g_Insert = gdb_ProgressInsert,
     g_LatestForSubgoal = gdb_LatestForSubgoal, g_ListByGoal = gdb_ProgressListByGoal, p_Insert = gdb_PlanInsert,
     p_Get = gdb_PlanGet, p_GetByGoal = gdb_GetByGoal, p_UpdateStatus = gdb_PlanUpdateStatus,
     p_IncrementVersion = gdb_IncrementVersion, p_IncrementReplanCount = gdb_IncrementReplanCount, p_ListAll = gdb_PlanListAll,
     d_Insert = gdb_DepInsert, d_ListByPlan = gdb_DepListByPlan, d_DeleteByPlan = gdb_DeleteByPlan\<rparr>"

section \<open>Memory\<close>

text \<open>The stores the tests use. A missing row is the error of a cancelled context.\<close>

record goal_mem =
  gm_subgoals :: "(string \<times> sub_goal) list"
  gm_entries :: "goal_progress list"
  gm_plans :: "(string \<times> goal_plan) list"
  gm_deps :: "goal_dependency list"

definition Canceled :: string where "Canceled = ''context canceled''"

definition gmem_Insert :: "sub_goal \<Rightarrow> goal_mem \<Rightarrow> string option \<times> goal_mem" where
  "gmem_Insert sg s = (None, s\<lparr>gm_subgoals := AList.update (sg_ID sg) sg (gm_subgoals s)\<rparr>)"

definition gmem_Get :: "string \<Rightarrow> goal_mem \<Rightarrow> (string + sub_goal) \<times> goal_mem" where
  "gmem_Get i s = (case map_of (gm_subgoals s) i of None \<Rightarrow> Inl Canceled | Some sg \<Rightarrow> Inr sg, s)"

definition gmem_set :: "string \<Rightarrow> (sub_goal \<Rightarrow> sub_goal) \<Rightarrow> goal_mem \<Rightarrow> string option \<times> goal_mem" where
  "gmem_set i f s =
     (case map_of (gm_subgoals s) i of
        None \<Rightarrow> (Some Canceled, s)
      | Some sg \<Rightarrow> (None, s\<lparr>gm_subgoals := AList.update i (f sg) (gm_subgoals s)\<rparr>))"

definition gmem_UpdateStatus :: "time \<Rightarrow> string \<Rightarrow> subgoal_status \<Rightarrow> string \<Rightarrow> goal_mem \<Rightarrow> string option \<times> goal_mem" where
  "gmem_UpdateStatus now i st reason = gmem_set i (set_status now st reason)"

definition gmem_UpdateProgress :: "time \<Rightarrow> string \<Rightarrow> f64 \<Rightarrow> f64 \<Rightarrow> goal_mem \<Rightarrow> string option \<times> goal_mem" where
  "gmem_UpdateProgress now i p c = gmem_set i (set_progress now p c)"

definition gmem_UpdateLastTaskEmitted :: "time \<Rightarrow> string \<Rightarrow> time \<Rightarrow> goal_mem \<Rightarrow> string option \<times> goal_mem" where
  "gmem_UpdateLastTaskEmitted now i t = gmem_set i (set_emitted now t)"

definition gmem_UpdateStrategy :: "time \<Rightarrow> string \<Rightarrow> string \<Rightarrow> int \<Rightarrow> int \<Rightarrow> goal_mem \<Rightarrow> string option \<times> goal_mem" where
  "gmem_UpdateStrategy now i strat fc sc = gmem_set i (set_strategy now strat fc sc)"

definition gmem_listWhere :: "(sub_goal \<Rightarrow> bool) \<Rightarrow> goal_mem \<Rightarrow> sub_goal listing \<times> goal_mem" where
  "gmem_listWhere P s = ((filter P (map snd (gm_subgoals s)), None), s)"

definition gmem_ListByGoal :: "string \<Rightarrow> goal_mem \<Rightarrow> sub_goal listing \<times> goal_mem" where
  "gmem_ListByGoal g = gmem_listWhere (\<lambda>r. sg_GoalID r = g)"

definition gmem_ListByPlan :: "string \<Rightarrow> goal_mem \<Rightarrow> sub_goal listing \<times> goal_mem" where
  "gmem_ListByPlan p = gmem_listWhere (\<lambda>r. sg_PlanID r = p)"

definition gmem_ListActive :: "goal_mem \<Rightarrow> sub_goal listing \<times> goal_mem" where
  "gmem_ListActive = gmem_listWhere (\<lambda>r. sg_Status r = SubgoalActive)"

definition gmem_ListAll :: "goal_mem \<Rightarrow> sub_goal listing \<times> goal_mem" where
  "gmem_ListAll = gmem_listWhere (\<lambda>_. True)"

definition gmem_ProgressInsert :: "goal_progress \<Rightarrow> goal_mem \<Rightarrow> string option \<times> goal_mem" where
  "gmem_ProgressInsert p s = (None, s\<lparr>gm_entries := gm_entries s @ [p]\<rparr>)"

text \<open>The scans that keep the best entry seen so far; the first of equals stays.\<close>

fun scan_best :: "('v \<Rightarrow> 'v \<Rightarrow> bool) \<Rightarrow> 'v list \<Rightarrow> 'v option \<Rightarrow> 'v option" where
  "scan_best better [] best = best"
| "scan_best better (v # vs) best =
     scan_best better vs (case best of None \<Rightarrow> Some v | Some b \<Rightarrow> if better v b then Some v else Some b)"

definition gmem_LatestForSubgoal :: "string \<Rightarrow> goal_mem \<Rightarrow> (string + goal_progress) \<times> goal_mem" where
  "gmem_LatestForSubgoal i s =
     (case scan_best measured_desc (filter (\<lambda>p. pr_SubgoalID p = i) (gm_entries s)) None of
        None \<Rightarrow> Inl Canceled | Some p \<Rightarrow> Inr p, s)"

definition gmem_ProgressListByGoal :: "string \<Rightarrow> goal_mem \<Rightarrow> goal_progress listing \<times> goal_mem" where
  "gmem_ProgressListByGoal g s = ((filter (\<lambda>p. pr_GoalID p = g) (gm_entries s), None), s)"

definition gmem_PlanInsert :: "goal_plan \<Rightarrow> goal_mem \<Rightarrow> string option \<times> goal_mem" where
  "gmem_PlanInsert p s = (None, s\<lparr>gm_plans := AList.update (gp_ID p) p (gm_plans s)\<rparr>)"

definition gmem_PlanGet :: "string \<Rightarrow> goal_mem \<Rightarrow> (string + goal_plan) \<times> goal_mem" where
  "gmem_PlanGet i s = (case map_of (gm_plans s) i of None \<Rightarrow> Inl Canceled | Some p \<Rightarrow> Inr p, s)"

definition gmem_GetByGoal :: "string \<Rightarrow> goal_mem \<Rightarrow> (string + goal_plan) \<times> goal_mem" where
  "gmem_GetByGoal g s =
     (case scan_best (\<lambda>p latest. gp_Version latest < gp_Version p) (filter (\<lambda>p. gp_GoalID p = g) (map snd (gm_plans s))) None of
        None \<Rightarrow> Inl Canceled | Some p \<Rightarrow> Inr p, s)"

definition gmem_plan_set :: "string \<Rightarrow> (goal_plan \<Rightarrow> goal_plan) \<Rightarrow> goal_mem \<Rightarrow> string option \<times> goal_mem" where
  "gmem_plan_set i f s =
     (case map_of (gm_plans s) i of
        None \<Rightarrow> (Some Canceled, s)
      | Some p \<Rightarrow> (None, s\<lparr>gm_plans := AList.update i (f p) (gm_plans s)\<rparr>))"

definition gmem_PlanUpdateStatus :: "time \<Rightarrow> string \<Rightarrow> string \<Rightarrow> goal_mem \<Rightarrow> string option \<times> goal_mem" where
  "gmem_PlanUpdateStatus now i st = gmem_plan_set i (\<lambda>p. p\<lparr>gp_Status := st, gp_UpdatedAt := now\<rparr>)"

definition gmem_IncrementVersion :: "time \<Rightarrow> string \<Rightarrow> goal_mem \<Rightarrow> string option \<times> goal_mem" where
  "gmem_IncrementVersion now i = gmem_plan_set i (\<lambda>p. p\<lparr>gp_Version := wrap64 (gp_Version p + 1), gp_UpdatedAt := now\<rparr>)"

definition gmem_IncrementReplanCount :: "time \<Rightarrow> string \<Rightarrow> goal_mem \<Rightarrow> string option \<times> goal_mem" where
  "gmem_IncrementReplanCount now i =
     gmem_plan_set i (\<lambda>p. p\<lparr>gp_ReplanCount := wrap64 (gp_ReplanCount p + 1), gp_LastReplanAt := now, gp_UpdatedAt := now\<rparr>)"

definition gmem_PlanListAll :: "goal_mem \<Rightarrow> goal_plan listing \<times> goal_mem" where
  "gmem_PlanListAll s = ((map snd (gm_plans s), None), s)"

definition gmem_DepInsert :: "goal_dependency \<Rightarrow> goal_mem \<Rightarrow> string option \<times> goal_mem" where
  "gmem_DepInsert d s = (None, s\<lparr>gm_deps := gm_deps s @ [d]\<rparr>)"

definition gmem_DepListByPlan :: "string \<Rightarrow> goal_mem \<Rightarrow> goal_dependency listing \<times> goal_mem" where
  "gmem_DepListByPlan p s = ((filter (\<lambda>d. gd_PlanID d = p) (gm_deps s), None), s)"

definition gmem_DeleteByPlan :: "string \<Rightarrow> goal_mem \<Rightarrow> string option \<times> goal_mem" where
  "gmem_DeleteByPlan p s = (None, s\<lparr>gm_deps := filter (\<lambda>d. gd_PlanID d \<noteq> p) (gm_deps s)\<rparr>)"

definition gmem_ops :: "goal_mem goal_ops" where
  "gmem_ops = \<lparr>s_Insert = gmem_Insert, s_Get = gmem_Get, s_UpdateStatus = gmem_UpdateStatus, s_UpdateProgress = gmem_UpdateProgress,
     s_UpdateLastTaskEmitted = gmem_UpdateLastTaskEmitted, s_UpdateStrategy = gmem_UpdateStrategy, s_ListByGoal = gmem_ListByGoal,
     s_ListByPlan = gmem_ListByPlan, s_ListActive = gmem_ListActive, s_ListAll = gmem_ListAll, g_Insert = gmem_ProgressInsert,
     g_LatestForSubgoal = gmem_LatestForSubgoal, g_ListByGoal = gmem_ProgressListByGoal, p_Insert = gmem_PlanInsert,
     p_Get = gmem_PlanGet, p_GetByGoal = gmem_GetByGoal, p_UpdateStatus = gmem_PlanUpdateStatus,
     p_IncrementVersion = gmem_IncrementVersion, p_IncrementReplanCount = gmem_IncrementReplanCount, p_ListAll = gmem_PlanListAll,
     d_Insert = gmem_DepInsert, d_ListByPlan = gmem_DepListByPlan, d_DeleteByPlan = gmem_DeleteByPlan\<rparr>"

section \<open>What the engine relies on\<close>

text \<open>
  The rows of subgoals by id are the view; \<open>good\<close> is the store's own invariant. A call that is
  not about subgoals leaves the view; an update of one row either changes that row as asked or
  nothing, and did change it where it reports success on an existing row; a listing returns stored
  rows, no id twice, and all that match when it reports no error.
\<close>

definition leaves :: "('s \<Rightarrow> bool) \<Rightarrow> ('s \<Rightarrow> string \<Rightarrow> sub_goal option) \<Rightarrow> ('s \<Rightarrow> 'a \<times> 's) \<Rightarrow> bool" where
  "leaves good view m \<longleftrightarrow> (\<forall>s. good s \<longrightarrow> good (snd (m s)) \<and> view (snd (m s)) = view s)"

definition writes ::
  "('s \<Rightarrow> bool) \<Rightarrow> ('s \<Rightarrow> string \<Rightarrow> sub_goal option) \<Rightarrow> string \<Rightarrow> (sub_goal \<Rightarrow> sub_goal) \<Rightarrow> ('s \<Rightarrow> string option \<times> 's) \<Rightarrow> bool"
where
  "writes good view i f m \<longleftrightarrow> (\<forall>s. good s \<longrightarrow> good (snd (m s)) \<and>
     (view (snd (m s)) = (view s)(i := map_option f (view s i)) \<or> fst (m s) \<noteq> None \<and> view (snd (m s)) = view s))"

definition lists_rows ::
  "('s \<Rightarrow> bool) \<Rightarrow> ('s \<Rightarrow> string \<Rightarrow> sub_goal option) \<Rightarrow> (sub_goal \<Rightarrow> bool) \<Rightarrow> ('s \<Rightarrow> sub_goal listing \<times> 's) \<Rightarrow> bool"
where
  "lists_rows good view P m \<longleftrightarrow> leaves good view m \<and> (\<forall>s. good s \<longrightarrow>
     (let (xs, e) = fst (m s) in
      distinct (map sg_ID xs) \<and> (\<forall>r \<in> set xs. view s (sg_ID r) = Some r \<and> P r) \<and>
      (e = None \<longrightarrow> (\<forall>i r. view s i = Some r \<longrightarrow> P r \<longrightarrow> r \<in> set xs))))"

locale goal_store =
  fixes ops :: "'s goal_ops" and good :: "'s \<Rightarrow> bool" and view :: "'s \<Rightarrow> string \<Rightarrow> sub_goal option"
  assumes keys: "good s \<Longrightarrow> view s i = Some r \<Longrightarrow> sg_ID r = i"
    and finite_view: "good s \<Longrightarrow> finite (dom (view s))"
    and insert_law: "good s \<Longrightarrow> s_Insert ops sg s = (e, s') \<Longrightarrow>
      good s' \<and> (view s' = (view s)(sg_ID sg \<mapsto> sg) \<or> e \<noteq> None \<and> view s' = view s)"
    and get_law: "good s \<Longrightarrow> s_Get ops i s = (rg, s') \<Longrightarrow>
      good s' \<and> view s' = view s \<and> (\<forall>sg. rg = Inr sg \<longrightarrow> view s i = Some sg)"
    and status_law: "writes good view i (set_status now st reason) (s_UpdateStatus ops now i st reason)"
    and progress_law: "writes good view i (set_progress now p c) (s_UpdateProgress ops now i p c)"
    and emitted_law: "writes good view i (set_emitted now t) (s_UpdateLastTaskEmitted ops now i t)"
    and strategy_law: "writes good view i (set_strategy now strat fc sc) (s_UpdateStrategy ops now i strat fc sc)"
    and by_goal_law: "lists_rows good view (\<lambda>r. sg_GoalID r = g) (s_ListByGoal ops g)"
    and active_law: "lists_rows good view (\<lambda>r. sg_Status r = SubgoalActive) (s_ListActive ops)"
    and all_law: "lists_rows good view (\<lambda>_. True) (s_ListAll ops)"
    and other_laws: "leaves good view (g_Insert ops m)" "leaves good view (p_Insert ops pl)"
      "leaves good view (p_Get ops i)" "leaves good view (p_IncrementReplanCount ops now i)"
      "leaves good view (p_ListAll ops)" "leaves good view (d_Insert ops dp)"

text \<open>A store with a primary key never overwrites a row by an insertion.\<close>

locale keyed_goal_store = goal_store +
  assumes no_overwrite: "good s \<Longrightarrow> view s (sg_ID sg) \<noteq> None \<Longrightarrow> s_Insert ops sg s = (e, s') \<Longrightarrow> view s' = view s"

section \<open>PostgreSQL meets both\<close>

definition gdb_good :: "goal_db \<Rightarrow> bool" where "gdb_good s \<longleftrightarrow> keyed sg_ID (db_subgoals s)"

definition gdb_view :: "goal_db \<Rightarrow> string \<Rightarrow> sub_goal option" where "gdb_view s = row_of sg_ID (db_subgoals s)"

lemma gdb_next_subgoals: "gdb_next s = (f, s') \<Longrightarrow> db_subgoals s' = db_subgoals s"
  by (auto simp: gdb_next_def split: list.splits)

lemma gdb_exec_cases:
  assumes "gdb_exec stmt s = (e, s')"
  obtains s0 s1 where "db_subgoals s0 = db_subgoals s" "stmt s0 = Some s1" "s' = s1"
  | "db_subgoals s' = db_subgoals s" "e \<noteq> None"
proof -
  obtain f s0 where n: "gdb_next s = (f, s0)" by fastforce
  then show ?thesis using assms that gdb_next_subgoals [OF n]
    by (auto simp: gdb_exec_def n split: fault.splits option.splits)
qed

lemma gdb_leaves_exec: "(\<And>s s'. stmt s = Some s' \<Longrightarrow> db_subgoals s' = db_subgoals s) \<Longrightarrow> leaves gdb_good gdb_view (gdb_exec stmt)"
  unfolding leaves_def gdb_good_def gdb_view_def by (metis gdb_exec_cases surjective_pairing)

lemma gdb_leaves_query: "leaves gdb_good gdb_view (gdb_row q)" "leaves gdb_good gdb_view (gdb_rows q2)"
  unfolding leaves_def gdb_good_def gdb_view_def gdb_row_def gdb_rows_def
  by (auto simp: gdb_next_subgoals Let_def split: prod.splits)

lemma gdb_writes:
  assumes "\<And>r. sg_ID (f r) = sg_ID r"
  shows "writes gdb_good gdb_view i f (gdb_set i f)"
  unfolding writes_def
proof (intro allI impI)
  fix s assume g: "gdb_good s"
  obtain e s' where r: "gdb_set i f s = (e, s')" by fastforce
  then show "gdb_good (snd (gdb_set i f s)) \<and> (gdb_view (snd (gdb_set i f s)) = (gdb_view s)(i := map_option f (gdb_view s i)) \<or>
      fst (gdb_set i f s) \<noteq> None \<and> gdb_view (snd (gdb_set i f s)) = gdb_view s)"
    unfolding gdb_set_def
    by (rule gdb_exec_cases) (use g assms r in \<open>auto simp: gdb_set_def gdb_good_def gdb_view_def row_of_update_key intro!: keyed_sql_update\<close>)
qed

lemma writes_none: "writes gdb_good gdb_view i f (gdb_exec (\<lambda>_. None))"
  unfolding writes_def gdb_good_def gdb_view_def by (metis gdb_exec_cases option.distinct(1) surjective_pairing)

lemma distinct_take_map: "distinct (map g xs) \<Longrightarrow> distinct (map g (take n xs))"
  by (simp add: take_map [symmetric])

lemma gdb_lists: "lists_rows gdb_good gdb_view P (gdb_listWhere P)"
  unfolding lists_rows_def gdb_listWhere_def
proof (intro conjI gdb_leaves_query allI impI)
  fix s assume g: "gdb_good s"
  let ?q = "\<lambda>s. sql_sort sg_before (filter P (db_subgoals s))"
  define xs where "xs = ?q s"
  obtain f s0 where n: "gdb_next s = (f, s0)" by fastforce
  have q: "?q s0 = xs" using gdb_next_subgoals [OF n] by (simp add: xs_def)
  have d: "distinct (map sg_ID xs)"
    using g distinct_map_filter [of sg_ID "db_subgoals s" P] by (simp only: xs_def distinct_sql_sort gdb_good_def keyed_def)
  have m: "gdb_view s (sg_ID r) = Some r \<and> P r" if "r \<in> set xs" for r
    using g that by (simp add: xs_def gdb_view_def gdb_good_def keyed_row_of)
  have c: "gdb_view s i = Some r \<Longrightarrow> P r \<Longrightarrow> r \<in> set xs" for i r
    by (auto simp: xs_def gdb_view_def dest: row_of_SomeD)
  have res: "fst (gdb_rows ?q s) = (xs, None) \<or> (\<exists>k. fst (gdb_rows ?q s) = (take k xs, Some (db_error s0)))"
    by (cases f) (auto simp: gdb_rows_def n q intro: exI [of _ 0])
  show "let (xs, e) = fst (gdb_rows ?q s) in distinct (map sg_ID xs) \<and> (\<forall>r \<in> set xs. gdb_view s (sg_ID r) = Some r \<and> P r) \<and>
      (e = None \<longrightarrow> (\<forall>i r. gdb_view s i = Some r \<longrightarrow> P r \<longrightarrow> r \<in> set xs))"
    using res
  proof
    assume "fst (gdb_rows ?q s) = (xs, None)"
    then show ?thesis using d m c by simp
  next
    assume "\<exists>k. fst (gdb_rows ?q s) = (take k xs, Some (db_error s0))"
    then show ?thesis using distinct_take_map [OF d] m [OF in_set_takeD] by auto
  qed
qed

interpretation gdb_store: keyed_goal_store gdb_ops gdb_good gdb_view
proof (unfold_locales, goal_cases)
  case (1 s i r)
  then show ?case by (auto simp: gdb_view_def dest: row_of_SomeD)
next
  case (2 s)
  have "dom (gdb_view s) \<subseteq> sg_ID ` set (db_subgoals s)"
    by (auto simp: gdb_view_def dest: row_of_SomeD)
  then show ?case using finite_subset by blast
next
  case (3 s sg e s')
  then have "gdb_exec (\<lambda>s. if row_of sg_ID (db_subgoals s) (sg_ID sg) = None \<and> int4 (sg_FailureCount sg) \<and> int4 (sg_SuccessCount sg)
      then Some (s\<lparr>db_subgoals := db_subgoals s @ [sg]\<rparr>) else None) s = (e, s')"
    by (simp add: gdb_ops_def gdb_Insert_def)
  then show ?case
    by (rule gdb_exec_cases)
      (use 3(1) in \<open>auto simp: gdb_good_def gdb_view_def row_of_snoc row_of_None_iff intro: keyed_append split: if_splits\<close>)
next
  case (4 s i rg s')
  obtain f s0 where n: "gdb_next s = (f, s0)" by fastforce
  show ?case using 4 gdb_next_subgoals [OF n]
    by (auto simp: gdb_ops_def gdb_Get_def gdb_row_def n gdb_good_def gdb_view_def split: option.splits if_splits)
next
  case (5 i now st reason)
  show ?case by (simp add: gdb_ops_def gdb_UpdateStatus_def gdb_writes set_status_def)
next
  case (6 i now p c)
  show ?case by (simp add: gdb_ops_def gdb_UpdateProgress_def gdb_writes set_progress_def)
next
  case (7 i now t)
  show ?case by (simp add: gdb_ops_def gdb_UpdateLastTaskEmitted_def gdb_writes set_emitted_def)
next
  case (8 i now strat fc sc)
  show ?case by (simp add: gdb_ops_def gdb_UpdateStrategy_def gdb_writes writes_none set_strategy_def)
next
  case (9 g)
  show ?case by (simp add: gdb_ops_def gdb_ListByGoal_def gdb_lists)
next
  case 10
  show ?case by (simp add: gdb_ops_def gdb_ListActive_def gdb_lists)
next
  case 11
  show ?case by (simp add: gdb_ops_def gdb_ListAll_def gdb_lists)
next
  case (18 s sg e s')
  then have "gdb_exec (\<lambda>s. if row_of sg_ID (db_subgoals s) (sg_ID sg) = None \<and> int4 (sg_FailureCount sg) \<and> int4 (sg_SuccessCount sg)
      then Some (s\<lparr>db_subgoals := db_subgoals s @ [sg]\<rparr>) else None) s = (e, s')"
    by (simp add: gdb_ops_def gdb_Insert_def)
  then show ?case by (rule gdb_exec_cases) (use 18(2) in \<open>auto simp: gdb_view_def split: if_splits\<close>)
qed (auto simp: gdb_ops_def gdb_ProgressInsert_def gdb_PlanInsert_def gdb_PlanGet_def gdb_IncrementReplanCount_def
    gdb_plan_set_def gdb_PlanListAll_def gdb_DepInsert_def gdb_leaves_query intro!: gdb_leaves_exec split: if_splits)

section \<open>Memory meets the first\<close>

definition gmem_good :: "goal_mem \<Rightarrow> bool" where
  "gmem_good s \<longleftrightarrow> distinct (map fst (gm_subgoals s)) \<and> (\<forall>i r. map_of (gm_subgoals s) i = Some r \<longrightarrow> sg_ID r = i)"

definition gmem_view :: "goal_mem \<Rightarrow> string \<Rightarrow> sub_goal option" where "gmem_view s = map_of (gm_subgoals s)"

lemma gmem_writes: "(\<And>r. sg_ID (f r) = sg_ID r) \<Longrightarrow> writes gmem_good gmem_view i f (gmem_set i f)"
  unfolding writes_def gmem_set_def gmem_good_def gmem_view_def
  by (auto simp: update_conv' distinct_update fun_upd_idem simp del: map_of_eq_Some_iff split: option.splits)

lemma gmem_lists: "lists_rows gmem_good gmem_view P (gmem_listWhere P)"
  unfolding lists_rows_def leaves_def gmem_listWhere_def
proof (intro conjI allI impI)
  fix s assume g: "gmem_good s"
  then have e: "(i, r) \<in> set (gm_subgoals s) \<longleftrightarrow> gmem_view s i = Some r" for i r
    by (simp add: gmem_good_def gmem_view_def)
  have k: "gmem_view s i = Some r \<Longrightarrow> sg_ID r = i" for i r using g by (simp add: gmem_good_def gmem_view_def)
  have ids: "map sg_ID (map snd (gm_subgoals s)) = map fst (gm_subgoals s)" using e k by auto
  have "distinct (map sg_ID (map snd (gm_subgoals s)))" unfolding ids using g by (simp add: gmem_good_def)
  then have "distinct (map sg_ID (filter P (map snd (gm_subgoals s))))" by (rule distinct_map_filter)
  then show "let (xs, err) = fst ((filter P (map snd (gm_subgoals s)), None), s) in distinct (map sg_ID xs) \<and>
      (\<forall>r \<in> set xs. gmem_view s (sg_ID r) = Some r \<and> P r) \<and>
      (err = None \<longrightarrow> (\<forall>i r. gmem_view s i = Some r \<longrightarrow> P r \<longrightarrow> r \<in> set xs))"
    using e k by force
qed simp_all

interpretation gmem_store: goal_store gmem_ops gmem_good gmem_view
proof (unfold_locales, goal_cases)
  case (5 i now st reason)
  show ?case by (simp add: gmem_ops_def gmem_UpdateStatus_def gmem_writes set_status_def)
next
  case (6 i now p c)
  show ?case by (simp add: gmem_ops_def gmem_UpdateProgress_def gmem_writes set_progress_def)
next
  case (7 i now t)
  show ?case by (simp add: gmem_ops_def gmem_UpdateLastTaskEmitted_def gmem_writes set_emitted_def)
next
  case (8 i now strat fc sc)
  show ?case by (simp add: gmem_ops_def gmem_UpdateStrategy_def gmem_writes set_strategy_def)
qed (auto simp: gmem_ops_def gmem_ListByGoal_def gmem_ListActive_def gmem_ListAll_def gmem_lists leaves_def
    gmem_ProgressInsert_def gmem_PlanInsert_def gmem_PlanGet_def gmem_IncrementReplanCount_def gmem_plan_set_def
    gmem_PlanListAll_def gmem_DepInsert_def gmem_Insert_def gmem_Get_def gmem_good_def gmem_view_def update_conv'
    distinct_update finite_dom_map_of simp del: map_of_eq_Some_iff split: option.splits if_splits)

end
