(* ===== verification/Goal_Engine.thy ===== *)
theory Goal_Engine
  imports Goal_Store Programs
begin

text \<open>
  The engine and the replanner of goal planning: \<open>engine.go\<close> and \<open>replanner.go\<close> of
  \<open>src/internal/agent/goal_planning\<close>, as programs of the state monad over any store. A reading
  of the clock, a fresh UUID, a call of a provider and the writing of an audit record take the next
  number of a counter, so that each answer may differ from the last. The task emitter acts on a
  state of its own. The abstract specification is a step relation on the rows of subgoals; every
  operation refines it, over a store with a primary key and whatever its calls return.
\<close>

section \<open>State and dependencies\<close>

record ('s, 'e) goal_world =
  gw_store :: 's
  gw_tick :: nat
  gw_audit :: "string list"
  gw_out :: 'e

type_synonym 'e emitter = "string \<Rightarrow> string \<Rightarrow> string \<Rightarrow> f64 \<Rightarrow> f64 \<Rightarrow> f64 \<Rightarrow> string \<Rightarrow> 'e \<Rightarrow> string option \<times> 'e"

record reflection_signal =
  rs_SignalType :: string
  rs_Strength :: f64
  rs_GoalID :: string

text \<open>The feedback of a goal is its successes, failures and consecutive failures.\<close>

record replanner =
  rp_planStore :: bool
  rp_objective :: "(nat \<Rightarrow> f64) option"
  rp_execFeedback :: "(nat \<Rightarrow> string \<Rightarrow> int \<times> int \<times> int) option"
  rp_reflection :: "(nat \<Rightarrow> reflection_signal list) option"

text \<open>The vector is its exploration level, its risk tolerance and its income priority.\<close>

record 'e goal_deps =
  gl_clock :: "nat \<Rightarrow> time"
  gl_newUUID :: "nat \<Rightarrow> string"
  gl_newSHA1 :: "string \<Rightarrow> string"
  gl_parseFloat :: "string \<Rightarrow> f64 option"
  gl_auditor :: "(nat \<Rightarrow> bool) option"
  gl_planStore :: bool
  gl_depStore :: bool
  gl_rules :: decomposition_rules
  gl_objective :: "(nat \<Rightarrow> f64) option"
  gl_emitter :: "'e emitter option"
  gl_replanner :: "replanner option"
  gl_vector :: "(nat \<Rightarrow> f64 \<times> f64 \<times> f64) option"

definition gl_tick :: "(('s, 'e) goal_world, nat) state" where
  "gl_tick = State (\<lambda>w. (gw_tick w, w\<lparr>gw_tick := Suc (gw_tick w)\<rparr>))"

definition gl_stored :: "('s \<Rightarrow> 'a \<times> 's) \<Rightarrow> (('s, 'e) goal_world, 'a) state" where
  "gl_stored f = State (\<lambda>w. let (a, s) = f (gw_store w) in (a, w\<lparr>gw_store := s\<rparr>))"

definition gl_emit :: "('e \<Rightarrow> 'a \<times> 'e) \<Rightarrow> (('s, 'e) goal_world, 'a) state" where
  "gl_emit f = State (\<lambda>w. let (a, e) = f (gw_out w) in (a, w\<lparr>gw_out := e\<rparr>))"

definition gl_record :: "string \<Rightarrow> (('s, 'e) goal_world, unit) state" where
  "gl_record ev = State (\<lambda>w. ((), w\<lparr>gw_audit := gw_audit w @ [ev]\<rparr>))"

definition gl_now :: "'e goal_deps \<Rightarrow> (('s, 'e) goal_world, time) state" where
  "gl_now d = do { n \<leftarrow> gl_tick; State_Monad.return (gl_clock d n) }"

definition gl_uuid :: "'e goal_deps \<Rightarrow> (('s, 'e) goal_world, string) state" where
  "gl_uuid d = do { n \<leftarrow> gl_tick; State_Monad.return (gl_newUUID d n) }"

text \<open>A record that cannot be written is only logged.\<close>

definition gl_auditEvent :: "'e goal_deps \<Rightarrow> string \<Rightarrow> (('s, 'e) goal_world, unit) state" where
  "gl_auditEvent d ev =
     (case gl_auditor d of
        None \<Rightarrow> State_Monad.return ()
      | Some record_ok \<Rightarrow> do { n \<leftarrow> gl_tick; if record_ok n then gl_record ev else State_Monad.return () })"

text \<open>An update stamps the row with the clock.\<close>

definition gl_timed :: "'e goal_deps \<Rightarrow> (time \<Rightarrow> 's \<Rightarrow> 'a \<times> 's) \<Rightarrow> (('s, 'e) goal_world, 'a) state" where
  "gl_timed d f = do { now \<leftarrow> gl_now d; gl_stored (f now) }"

section \<open>Decomposing goals\<close>

definition goal_plan_for :: "string \<Rightarrow> time \<Rightarrow> system_goal \<Rightarrow> goal_plan" where
  "goal_plan_for planID now goal =
     \<lparr>gp_ID = planID, gp_GoalID = go_ID goal, gp_Version = 1, gp_Horizon = goal_horizon (go_Horizon goal),
      gp_Strategy = StrategyExploitSuccess, gp_Status = PlanActive,
      gp_ExpectedUtility = clamp01 (fmul (go_Priority goal) (f64 (80 / 100))),
      gp_RiskEstimate = clamp01 (fmul (fsub (Fin 1) (go_Priority goal)) (f64 (30 / 100))),
      gp_ReplanCount = 0, gp_LastReplanAt = 0, gp_CreatedAt = now, gp_UpdatedAt = now\<rparr>"

definition create_goal_plan :: "'s goal_ops \<Rightarrow> 'e goal_deps \<Rightarrow> system_goal \<Rightarrow> (('s, 'e) goal_world, string + string) state" where
  "create_goal_plan ops d goal =
     (if gl_planStore d then do {
        planID \<leftarrow> gl_uuid d;
        now \<leftarrow> gl_now d;
        e \<leftarrow> gl_stored (p_Insert ops (goal_plan_for planID now goal));
        State_Monad.return (case e of Some err \<Rightarrow> Inl (''create plan for '' @ go_ID goal @ '': '' @ err) | None \<Rightarrow> Inr planID)
      } else State_Monad.return (Inr ''''))"

text \<open>The edge from the subgoal before; a failing insertion is ignored.\<close>

definition record_dependency ::
  "'s goal_ops \<Rightarrow> 'e goal_deps \<Rightarrow> string \<Rightarrow> string option \<Rightarrow> string \<Rightarrow> (('s, 'e) goal_world, unit) state"
where
  "record_dependency ops d planID prev i =
     (case prev of
        Some p \<Rightarrow>
          if gl_depStore d \<and> planID \<noteq> '''' then do {
            uid \<leftarrow> gl_uuid d;
            now \<leftarrow> gl_now d;
            _ \<leftarrow> gl_stored (d_Insert ops \<lparr>gd_ID = uid, gd_PlanID = planID, gd_FromSubgoalID = p, gd_ToSubgoalID = i, gd_CreatedAt = now\<rparr>);
            State_Monad.return ()
          } else State_Monad.return ()
      | None \<Rightarrow> State_Monad.return ())"

fun insert_subgoals ::
  "'s goal_ops \<Rightarrow> 'e goal_deps \<Rightarrow> string \<Rightarrow> string option \<Rightarrow> sub_goal list \<Rightarrow> nat \<Rightarrow> (('s, 'e) goal_world, nat \<times> string option) state"
where
  "insert_subgoals ops d planID prev [] created = State_Monad.return (created, None)"
| "insert_subgoals ops d planID prev (sg # sgs) created = do {
     e \<leftarrow> gl_stored (s_Insert ops (sg\<lparr>sg_PlanID := planID, sg_Strategy := StrategyExploitSuccess\<rparr>));
     case e of
       Some err \<Rightarrow> State_Monad.return (created, Some (''insert subgoal '' @ sg_ID sg @ '': '' @ err))
     | None \<Rightarrow> do {
         _ \<leftarrow> record_dependency ops d planID prev (sg_ID sg);
         _ \<leftarrow> gl_auditEvent d ''goal_planning.subgoal_created'';
         insert_subgoals ops d planID (Some (sg_ID sg)) sgs (Suc created)
       }
   }"

fun DecomposeGoals_from ::
  "'s goal_ops \<Rightarrow> 'e goal_deps \<Rightarrow> system_goal list \<Rightarrow> nat \<Rightarrow> (('s, 'e) goal_world, nat \<times> string option) state"
where
  "DecomposeGoals_from ops d [] created = State_Monad.return (created, None)"
| "DecomposeGoals_from ops d (goal # goals) created = do {
     (existing, e) \<leftarrow> gl_stored (s_ListByGoal ops (go_ID goal));
     case e of
       Some err \<Rightarrow> State_Monad.return (created, Some (''list subgoals for '' @ go_ID goal @ '': '' @ err))
     | None \<Rightarrow>
         if existing \<noteq> [] then DecomposeGoals_from ops d goals created
         else do {
           r \<leftarrow> create_goal_plan ops d goal;
           case r of
             Inl err \<Rightarrow> State_Monad.return (created, Some err)
           | Inr planID \<Rightarrow> do {
               now \<leftarrow> gl_now d;
               (n, e) \<leftarrow> insert_subgoals ops d planID None
                 (DecomposeGoal (gl_newSHA1 d) (gl_parseFloat d) now goal (gl_rules d)) created;
               case e of
                 Some err \<Rightarrow> State_Monad.return (n, Some err)
               | None \<Rightarrow> DecomposeGoals_from ops d goals n
             }
         }
   }"

definition DecomposeGoals ::
  "'s goal_ops \<Rightarrow> 'e goal_deps \<Rightarrow> system_goal list \<Rightarrow> (('s, 'e) goal_world, nat \<times> string option) state"
where
  "DecomposeGoals ops d sysGoals = DecomposeGoals_from ops d sysGoals 0"

section \<open>Activation\<close>

fun activate_from ::
  "'s goal_ops \<Rightarrow> 'e goal_deps \<Rightarrow> sub_goal list \<Rightarrow> sub_goal list \<Rightarrow> nat \<Rightarrow> nat \<Rightarrow> (('s, 'e) goal_world, nat \<times> string option) state"
where
  "activate_from ops d all [] activeCount activated = State_Monad.return (activated, None)"
| "activate_from ops d all (sg # sgs) activeCount activated =
     (if sg_Status sg \<noteq> SubgoalNotStarted then activate_from ops d all sgs activeCount activated
      else if MaxActiveSubgoals \<le> activeCount then State_Monad.return (activated, None)
      else if \<not> IsDependencyMet sg all then activate_from ops d all sgs activeCount activated
      else do {
        e \<leftarrow> gl_timed d (\<lambda>now. s_UpdateStatus ops now (sg_ID sg) SubgoalActive '''');
        case e of
          Some err \<Rightarrow> State_Monad.return (activated, Some err)
        | None \<Rightarrow> do {
            _ \<leftarrow> gl_auditEvent d ''goal_planning.subgoal_activated'';
            activate_from ops d all sgs (Suc activeCount) (Suc activated)
          }
      })"

definition active_count :: "sub_goal list \<Rightarrow> nat" where
  "active_count sgs = length (filter (\<lambda>sg. sg_Status sg = SubgoalActive) sgs)"

definition ActivateSubgoals :: "'s goal_ops \<Rightarrow> 'e goal_deps \<Rightarrow> (('s, 'e) goal_world, nat \<times> string option) state" where
  "ActivateSubgoals ops d = do {
     (all, e) \<leftarrow> gl_stored (s_ListAll ops);
     case e of
       Some err \<Rightarrow> State_Monad.return (0, Some err)
     | None \<Rightarrow> activate_from ops d all all (active_count all) 0
   }"

section \<open>Progress\<close>

definition goal_progress_for :: "string \<Rightarrow> time \<Rightarrow> f64 \<Rightarrow> sub_goal \<Rightarrow> goal_progress" where
  "goal_progress_for uid now p sg =
     \<lparr>pr_ID = uid, pr_SubgoalID = sg_ID sg, pr_GoalID = sg_GoalID sg, pr_MetricName = sg_TargetMetric sg,
      pr_MetricValue = sg_CurrentValue sg, pr_ProgressPct = p, pr_MeasuredAt = now\<rparr>"

definition stale_reason :: "f64 \<Rightarrow> string" where
  "stale_reason p = ''stale progress ('' @ fmt_f1 (fmul p (f64 100)) @ ''%) after '' @ int_str ProgressStaleHours @ ''h''"

text \<open>The turn of one subgoal, with an error that ends the loop.\<close>

definition change_status ::
  "'s goal_ops \<Rightarrow> 'e goal_deps \<Rightarrow> string \<Rightarrow> subgoal_status \<Rightarrow> string \<Rightarrow> string \<Rightarrow> (('s, 'e) goal_world, string option) state"
where
  "change_status ops d i st reason ev = do {
     e \<leftarrow> gl_timed d (\<lambda>t. s_UpdateStatus ops t i st reason);
     case e of
       Some err \<Rightarrow> State_Monad.return (Some err)
     | None \<Rightarrow> do { _ \<leftarrow> gl_auditEvent d ev; State_Monad.return None }
   }"

definition settle_subgoal ::
  "'s goal_ops \<Rightarrow> 'e goal_deps \<Rightarrow> time \<Rightarrow> sub_goal list \<Rightarrow> sub_goal \<Rightarrow> (('s, 'e) goal_world, string option) state"
where
  "settle_subgoal ops d now all sg =
     (if ShouldAutoComplete sg
      then change_status ops d (sg_ID sg) SubgoalCompleted '''' ''goal_planning.subgoal_completed''
      else if ShouldBlock sg now
      then change_status ops d (sg_ID sg) SubgoalBlocked
        (if IsDependencyMet sg all then stale_reason (sg_ProgressScore sg) else ''dependency not met: '' @ sg_DependsOn sg)
        ''goal_planning.subgoal_blocked''
      else State_Monad.return None)"

definition progress_one ::
  "'s goal_ops \<Rightarrow> 'e goal_deps \<Rightarrow> time \<Rightarrow> sub_goal list \<Rightarrow> sub_goal \<Rightarrow> (('s, 'e) goal_world, string option) state"
where
  "progress_one ops d now all sg = do {
     e \<leftarrow> gl_timed d (\<lambda>t. s_UpdateProgress ops t (sg_ID sg) (MeasureProgress sg) (sg_CurrentValue sg));
     case e of
       Some err \<Rightarrow> State_Monad.return (Some err)
     | None \<Rightarrow> do {
         uid \<leftarrow> gl_uuid d;
         _ \<leftarrow> gl_stored (g_Insert ops (goal_progress_for uid now (MeasureProgress sg) sg));
         settle_subgoal ops d now all (sg\<lparr>sg_ProgressScore := MeasureProgress sg\<rparr>)
       }
   }"

fun progress_all ::
  "'s goal_ops \<Rightarrow> 'e goal_deps \<Rightarrow> time \<Rightarrow> sub_goal list \<Rightarrow> sub_goal list \<Rightarrow> (('s, 'e) goal_world, string option) state"
where
  "progress_all ops d now all [] = State_Monad.return None"
| "progress_all ops d now all (sg # sgs) = do {
     e \<leftarrow> progress_one ops d now all sg;
     case e of Some err \<Rightarrow> State_Monad.return (Some err) | None \<Rightarrow> progress_all ops d now all sgs
   }"

definition UpdateProgress :: "'s goal_ops \<Rightarrow> 'e goal_deps \<Rightarrow> (('s, 'e) goal_world, string option) state" where
  "UpdateProgress ops d = do {
     (active, e) \<leftarrow> gl_stored (s_ListActive ops);
     case e of
       Some err \<Rightarrow> State_Monad.return (Some err)
     | None \<Rightarrow> do {
         now \<leftarrow> gl_now d;
         (all, _) \<leftarrow> gl_stored (s_ListAll ops);
         progress_all ops d now all active
       }
   }"

section \<open>Emission\<close>

definition zero_subgoal :: sub_goal where
  "zero_subgoal =
     \<lparr>sg_ID = '''', sg_GoalID = '''', sg_PlanID = '''', sg_Title = '''', sg_Description = '''', sg_Status = '''',
      sg_ProgressScore = Fin 0, sg_TargetMetric = '''', sg_TargetValue = Fin 0, sg_CurrentValue = Fin 0,
      sg_PreferredAction = '''', sg_Horizon = '''', sg_Priority = Fin 0, sg_DependsOn = '''', sg_BlockReason = '''',
      sg_Strategy = '''', sg_FailureCount = 0, sg_SuccessCount = 0, sg_LastTaskEmitted = 0, sg_CreatedAt = 0, sg_UpdatedAt = 0\<rparr>"

definition active_map :: "sub_goal list \<Rightarrow> string \<Rightarrow> sub_goal option" where
  "active_map active = map_of (rev (map (\<lambda>sg. (sg_ID sg, sg)) active))"

definition merge_active :: "sub_goal list \<Rightarrow> sub_goal list \<Rightarrow> sub_goal list" where
  "merge_active active all = map (\<lambda>sg. case active_map active (sg_ID sg) of Some a \<Rightarrow> a | None \<Rightarrow> sg) all"

definition adjust_emission ::
  "sub_goal list \<Rightarrow> f64 \<Rightarrow> (f64 \<times> f64 \<times> f64) option \<Rightarrow> task_emission \<Rightarrow> task_emission"
where
  "adjust_emission active objectiveDelta vector em =
     (let sg = (case active_map active (em_SubgoalID em) of Some a \<Rightarrow> a | None \<Rightarrow> zero_subgoal);
          (exploration, risk, income) = (case vector of None \<Rightarrow> (Fin 0, Fin 0, Fin 0) | Some v \<Rightarrow> v);
          em = ApplyStrategyToEmission em (SelectStrategyWithVector sg objectiveDelta exploration risk)
      in if vector = None then em
         else em\<lparr>em_Priority := clamp01 (fadd (em_Priority em) (clamp01 (fmul (fsub income (f64 (70 / 100))) (f64 (30 / 100)))))\<rparr>)"

text \<open>The calls of the emitter; a failing one is logged and the next follows.\<close>

fun emit_all ::
  "'s goal_ops \<Rightarrow> 'e goal_deps \<Rightarrow> 'e emitter \<Rightarrow> time \<Rightarrow> task_emission list \<Rightarrow> nat \<Rightarrow> (('s, 'e) goal_world, nat) state"
where
  "emit_all ops d emitTask now [] emitted = State_Monad.return emitted"
| "emit_all ops d emitTask now (em # ems) emitted = do {
     e \<leftarrow> gl_emit (emitTask (em_SubgoalID em) (em_GoalID em) (em_ActionType em)
       (em_Urgency em) (em_ExpectedValue em) (em_RiskLevel em) (em_StrategyType em));
     case e of
       Some _ \<Rightarrow> emit_all ops d emitTask now ems emitted
     | None \<Rightarrow> do {
         _ \<leftarrow> gl_timed d (\<lambda>t. s_UpdateLastTaskEmitted ops t (em_SubgoalID em) now);
         _ \<leftarrow> gl_auditEvent d ''goal_planning.task_emitted'';
         emit_all ops d emitTask now ems (Suc emitted)
       }
   }"

definition gl_provider :: "(nat \<Rightarrow> 'a) option \<Rightarrow> (('s, 'e) goal_world, 'a option) state" where
  "gl_provider p =
     (case p of None \<Rightarrow> State_Monad.return None | Some f \<Rightarrow> do { n \<leftarrow> gl_tick; State_Monad.return (Some (f n)) })"

definition objective_delta :: "(nat \<Rightarrow> f64) option \<Rightarrow> (('s, 'e) goal_world, f64) state" where
  "objective_delta p = do {
     u \<leftarrow> gl_provider p;
     State_Monad.return (case u of None \<Rightarrow> Fin 0 | Some netUtility \<Rightarrow> fsub netUtility (f64 (50 / 100)))
   }"

definition planned_emissions ::
  "sub_goal list \<Rightarrow> sub_goal list \<Rightarrow> f64 \<Rightarrow> (f64 \<times> f64 \<times> f64) option \<Rightarrow> time \<Rightarrow> task_emission list"
where
  "planned_emissions active all objectiveDelta vector now =
     map (adjust_emission active objectiveDelta vector) (take MaxTasksPerPlan (PlanTasks (merge_active active all) now))"

definition PlanAndEmitTasks :: "'s goal_ops \<Rightarrow> 'e goal_deps \<Rightarrow> (('s, 'e) goal_world, nat \<times> string option) state" where
  "PlanAndEmitTasks ops d = do {
     (active, e) \<leftarrow> gl_stored (s_ListActive ops);
     case e of
       Some err \<Rightarrow> State_Monad.return (0, Some err)
     | None \<Rightarrow> do {
         (all, _) \<leftarrow> gl_stored (s_ListAll ops);
         objectiveDelta \<leftarrow> objective_delta (gl_objective d);
         vector \<leftarrow> gl_provider (gl_vector d);
         now \<leftarrow> gl_now d;
         let emissions = planned_emissions active all objectiveDelta vector now;
         case gl_emitter d of
           None \<Rightarrow> State_Monad.return (length emissions, None)
         | Some emitTask \<Rightarrow> do { n \<leftarrow> emit_all ops d emitTask now emissions 0; State_Monad.return (n, None) }
       }
   }"

section \<open>The cycle\<close>

definition goal_RunCycle :: "'s goal_ops \<Rightarrow> 'e goal_deps \<Rightarrow> system_goal list \<Rightarrow> (('s, 'e) goal_world, string option) state" where
  "goal_RunCycle ops d sysGoals = do {
     (_, e) \<leftarrow> DecomposeGoals ops d sysGoals;
     case e of Some err \<Rightarrow> State_Monad.return (Some (''decompose: '' @ err)) | None \<Rightarrow> do {
     (_, e) \<leftarrow> ActivateSubgoals ops d;
     case e of Some err \<Rightarrow> State_Monad.return (Some (''activate: '' @ err)) | None \<Rightarrow> do {
     e \<leftarrow> UpdateProgress ops d;
     case e of Some err \<Rightarrow> State_Monad.return (Some (''progress: '' @ err)) | None \<Rightarrow> do {
     (_, e) \<leftarrow> PlanAndEmitTasks ops d;
     case e of Some err \<Rightarrow> State_Monad.return (Some (''emit: '' @ err)) | None \<Rightarrow> do {
     _ \<leftarrow> gl_auditEvent d ''goal_planning.cycle_completed'';
     State_Monad.return None }}}}
   }"

section \<open>Replanning\<close>

definition applyReflectionSignal :: "reflection_signal \<Rightarrow> sub_goal \<Rightarrow> sub_goal" where
  "applyReflectionSignal sig sg =
     (if rs_SignalType sig = ''execution_failure'' \<or> rs_SignalType sig = ''repeated_failure''
      then sg\<lparr>sg_FailureCount := wrap64 (sg_FailureCount sg + 1)\<rparr>
      else if rs_SignalType sig = ''positive_reinforcement''
      then sg\<lparr>sg_SuccessCount := wrap64 (sg_SuccessCount sg + 1)\<rparr>
      else sg)"

definition replanSubgoal ::
  "'s goal_ops \<Rightarrow> 'e goal_deps \<Rightarrow> replanner \<Rightarrow> sub_goal \<Rightarrow> replan_trigger \<Rightarrow> f64 \<Rightarrow> (('s, 'e) goal_world, string option) state"
where
  "replanSubgoal ops d r sg trigger objectiveDelta = do {
     let newStrategy = SelectStrategy sg objectiveDelta;
     let update = (\<lambda>strat. gl_timed d (\<lambda>t. s_UpdateStrategy ops t (sg_ID sg) strat (sg_FailureCount sg) (sg_SuccessCount sg)));
     e \<leftarrow> (case trigger of
         TriggerExecFailure \<Rightarrow> update newStrategy
       | TriggerRepeatedFailure \<Rightarrow> do {
           e \<leftarrow> (if sg_Status sg = SubgoalActive
             then gl_timed d (\<lambda>t. s_UpdateStatus ops t (sg_ID sg) SubgoalBlocked ''repeated failures'')
             else State_Monad.return None);
           case e of Some err \<Rightarrow> State_Monad.return (Some err) | None \<Rightarrow> update newStrategy
         }
       | TriggerReinforcement \<Rightarrow> update StrategyExploitSuccess
       | TriggerObjectivePenalty \<Rightarrow> update StrategyDeferHighRisk);
     case e of
       Some err \<Rightarrow> State_Monad.return (Some err)
     | None \<Rightarrow> do {
         _ \<leftarrow> (if sg_PlanID sg \<noteq> '''' \<and> rp_planStore r
           then gl_timed d (\<lambda>t. p_IncrementReplanCount ops t (sg_PlanID sg)) else State_Monad.return None);
         _ \<leftarrow> gl_auditEvent d ''goal_planning.subgoal_replanned'';
         State_Monad.return None
       }
   }"

text \<open>A subgoal with the feedback of its goal and the reflection signals about it.\<close>

definition with_feedback :: "(string \<Rightarrow> int \<times> int \<times> int) option \<Rightarrow> reflection_signal list \<Rightarrow> sub_goal \<Rightarrow> sub_goal" where
  "with_feedback feedback signals sg =
     fold applyReflectionSignal (filter (\<lambda>sig. rs_GoalID sig = sg_GoalID sg) signals)
       (case feedback of
          None \<Rightarrow> sg
        | Some f \<Rightarrow> let (s, fl, _) = f (sg_GoalID sg) in sg\<lparr>sg_FailureCount := fl, sg_SuccessCount := s\<rparr>)"

fun replan_all ::
  "'s goal_ops \<Rightarrow> 'e goal_deps \<Rightarrow> replanner \<Rightarrow> f64 \<Rightarrow> (string \<Rightarrow> int \<times> int \<times> int) option \<Rightarrow> reflection_signal list \<Rightarrow>
   sub_goal list \<Rightarrow> nat \<Rightarrow> (('s, 'e) goal_world, nat) state"
where
  "replan_all ops d r objectiveDelta feedback signals [] replanned = State_Monad.return replanned"
| "replan_all ops d r objectiveDelta feedback signals (sg # sgs) replanned =
     (if sg_Status sg \<noteq> SubgoalActive \<and> sg_Status sg \<noteq> SubgoalBlocked
      then replan_all ops d r objectiveDelta feedback signals sgs replanned
      else let sg = with_feedback feedback signals sg in
        case ShouldReplan sg objectiveDelta of
          None \<Rightarrow> replan_all ops d r objectiveDelta feedback signals sgs replanned
        | Some trigger \<Rightarrow> do {
            e \<leftarrow> replanSubgoal ops d r sg trigger objectiveDelta;
            replan_all ops d r objectiveDelta feedback signals sgs (if e = None then Suc replanned else replanned)
          })"

definition replanner_RunReplanCycle ::
  "'s goal_ops \<Rightarrow> 'e goal_deps \<Rightarrow> replanner \<Rightarrow> (('s, 'e) goal_world, nat \<times> string option) state"
where
  "replanner_RunReplanCycle ops d r = do {
     (all, e) \<leftarrow> gl_stored (s_ListAll ops);
     case e of
       Some err \<Rightarrow> State_Monad.return (0, Some (''list subgoals: '' @ err))
     | None \<Rightarrow> do {
         objectiveDelta \<leftarrow> objective_delta (rp_objective r);
         feedback \<leftarrow> gl_provider (rp_execFeedback r);
         signals \<leftarrow> gl_provider (rp_reflection r);
         n \<leftarrow> replan_all ops d r objectiveDelta feedback (case signals of None \<Rightarrow> [] | Some sigs \<Rightarrow> sigs) all 0;
         _ \<leftarrow> gl_auditEvent d ''goal_planning.replan_completed'';
         State_Monad.return (n, None)
       }
   }"

definition RunReplanCycle :: "'s goal_ops \<Rightarrow> 'e goal_deps \<Rightarrow> (('s, 'e) goal_world, nat \<times> string option) state" where
  "RunReplanCycle ops d =
     (case gl_replanner d of None \<Rightarrow> State_Monad.return (0, None) | Some r \<Rightarrow> replanner_RunReplanCycle ops d r)"

text \<open>Replanning for one goal replans for all.\<close>

definition Replan :: "'s goal_ops \<Rightarrow> 'e goal_deps \<Rightarrow> string \<Rightarrow> (('s, 'e) goal_world, nat \<times> string option) state" where
  "Replan ops d goalID =
     (case gl_replanner d of None \<Rightarrow> State_Monad.return (0, None) | Some r \<Rightarrow> replanner_RunReplanCycle ops d r)"

section \<open>Requests\<close>

definition GetSubgoal :: "'s goal_ops \<Rightarrow> string \<Rightarrow> (('s, 'e) goal_world, string + sub_goal) state" where
  "GetSubgoal ops i = gl_stored (s_Get ops i)"

definition ListSubgoals :: "'s goal_ops \<Rightarrow> string \<Rightarrow> (('s, 'e) goal_world, sub_goal listing) state" where
  "ListSubgoals ops goalID = gl_stored (s_ListByGoal ops goalID)"

definition ListAllSubgoals :: "'s goal_ops \<Rightarrow> (('s, 'e) goal_world, sub_goal listing) state" where
  "ListAllSubgoals ops = gl_stored (s_ListAll ops)"

definition plan_summary_of :: "string \<Rightarrow> string \<Rightarrow> f64 \<Rightarrow> string \<Rightarrow> time \<Rightarrow> sub_goal list \<Rightarrow> plan_summary" where
  "plan_summary_of goalID goalType goalPriority horizon now subgoals =
     \<lparr>su_GoalID = goalID, su_GoalType = goalType, su_GoalPriority = goalPriority, su_Horizon = horizon,
      su_TotalSubgoals = length subgoals, su_ActiveSubgoals = active_count subgoals,
      su_CompletedSubgoals = length (filter (\<lambda>sg. sg_Status sg = SubgoalCompleted) subgoals),
      su_BlockedSubgoals = length (filter (\<lambda>sg. sg_Status sg = SubgoalBlocked) subgoals),
      su_OverallProgress = ComputeOverallProgress subgoals, su_UpdatedAt = now\<rparr>"

definition GetPlanSummary ::
  "'s goal_ops \<Rightarrow> 'e goal_deps \<Rightarrow> string \<Rightarrow> string \<Rightarrow> f64 \<Rightarrow> string \<Rightarrow> (('s, 'e) goal_world, string + plan_summary) state"
where
  "GetPlanSummary ops d goalID goalType goalPriority horizon = do {
     (subgoals, e) \<leftarrow> gl_stored (s_ListByGoal ops goalID);
     case e of
       Some err \<Rightarrow> State_Monad.return (Inl err)
     | None \<Rightarrow> do {
         now \<leftarrow> gl_now d;
         State_Monad.return (Inr (plan_summary_of goalID goalType goalPriority horizon now subgoals))
       }
   }"

text \<open>The arrow of the message, in UTF-8.\<close>

definition arrow_text :: string where
  "arrow_text = '' '' @ [CHR 0xE2, CHR 0x86, CHR 0x92] @ '' ''"

definition TransitionSubgoal ::
  "'s goal_ops \<Rightarrow> 'e goal_deps \<Rightarrow> string \<Rightarrow> subgoal_status \<Rightarrow> string \<Rightarrow> (('s, 'e) goal_world, string option) state"
where
  "TransitionSubgoal ops d i to reason = do {
     r \<leftarrow> gl_stored (s_Get ops i);
     case r of
       Inl err \<Rightarrow> State_Monad.return (Some err)
     | Inr sg \<Rightarrow>
         if \<not> ValidateSubgoalTransition (sg_Status sg) to
         then State_Monad.return (Some (''invalid transition: '' @ sg_Status sg @ arrow_text @ to))
         else gl_timed d (\<lambda>t. s_UpdateStatus ops t i to reason)
   }"

definition CreatePlan :: "'s goal_ops \<Rightarrow> 'e goal_deps \<Rightarrow> string \<Rightarrow> string \<Rightarrow> string \<Rightarrow> (('s, 'e) goal_world, string + goal_plan) state" where
  "CreatePlan ops d goalID horizon strategy =
     (if \<not> gl_planStore d then State_Monad.return (Inl ''plan store not configured'')
      else do {
        now \<leftarrow> gl_now d;
        uid \<leftarrow> gl_uuid d;
        let plan = \<lparr>gp_ID = uid, gp_GoalID = goalID, gp_Version = 1, gp_Horizon = horizon, gp_Strategy = strategy,
          gp_Status = PlanDraft, gp_ExpectedUtility = f64 (50 / 100), gp_RiskEstimate = f64 (20 / 100), gp_ReplanCount = 0,
          gp_LastReplanAt = 0, gp_CreatedAt = now, gp_UpdatedAt = now\<rparr>;
        e \<leftarrow> gl_stored (p_Insert ops plan);
        case e of
          Some err \<Rightarrow> State_Monad.return (Inl err)
        | None \<Rightarrow> do { _ \<leftarrow> gl_auditEvent d ''goal_planning.plan_created''; State_Monad.return (Inr plan) }
      })"

definition GetPlan :: "'s goal_ops \<Rightarrow> 'e goal_deps \<Rightarrow> string \<Rightarrow> (('s, 'e) goal_world, string + goal_plan) state" where
  "GetPlan ops d i =
     (if gl_planStore d then gl_stored (p_Get ops i) else State_Monad.return (Inl ''plan store not configured''))"

definition ListPlans :: "'s goal_ops \<Rightarrow> 'e goal_deps \<Rightarrow> (('s, 'e) goal_world, goal_plan listing) state" where
  "ListPlans ops d = (if gl_planStore d then gl_stored (p_ListAll ops) else State_Monad.return ([], None))"

section \<open>Specification\<close>

text \<open>
  What may happen to one subgoal: a transition of the table that \<open>S\<close> allows, a measurement
  of its progress from the current value it already has, a new emission time, a new strategy. And
  to all rows: one of those on one row, or a fresh subgoal under an unused id.
\<close>

inductive subgoal_step :: "(sub_goal \<times> subgoal_status) set \<Rightarrow> sub_goal \<Rightarrow> sub_goal \<Rightarrow> bool" for S where
  step_status: "ValidateSubgoalTransition (sg_Status r) st \<Longrightarrow> (r, st) \<in> S \<Longrightarrow> subgoal_step S r (set_status now st reason r)"
| step_progress: "subgoal_step S r (set_progress now (MeasureProgress r) (sg_CurrentValue r) r)"
| step_emitted: "subgoal_step S r (set_emitted now t r)"
| step_strategy: "subgoal_step S r (set_strategy now strat fc sc r)"

definition fresh_subgoal :: "sub_goal \<Rightarrow> bool" where
  "fresh_subgoal r \<longleftrightarrow> sg_Status r = SubgoalNotStarted \<and> sg_CurrentValue r = Fin 0 \<and> sg_DependsOn r = '''' \<and>
     sg_FailureCount r = 0 \<and> sg_SuccessCount r = 0 \<and> sg_ProgressScore r = Fin 0"

inductive rows_step :: "(sub_goal \<times> subgoal_status) set \<Rightarrow> (string \<Rightarrow> sub_goal option) \<Rightarrow> (string \<Rightarrow> sub_goal option) \<Rightarrow> bool" for S where
  rows_new: "v (sg_ID r) = None \<Longrightarrow> fresh_subgoal r \<Longrightarrow> rows_step S v (v(sg_ID r \<mapsto> r))"
| rows_change: "v i = Some r \<Longrightarrow> subgoal_step S r r' \<Longrightarrow> rows_step S v (v(i \<mapsto> r'))"

inductive_cases subgoal_stepE: "subgoal_step S r r'"
inductive_cases rows_stepE: "rows_step S v v'"

definition rows_steps :: "(sub_goal \<times> subgoal_status) set \<Rightarrow> (string \<Rightarrow> sub_goal option) \<Rightarrow> (string \<Rightarrow> sub_goal option) \<Rightarrow> bool" where
  "rows_steps S = (rows_step S)\<^sup>*\<^sup>*"

lemma rows_steps_refl [simp]: "rows_steps S v v"
  by (simp add: rows_steps_def)

lemma rows_steps_trans: "rows_steps S u v \<Longrightarrow> rows_steps S v w \<Longrightarrow> rows_steps S u w"
  unfolding rows_steps_def by (rule rtranclp_trans)

lemma rows_steps_one: "v i = Some r \<Longrightarrow> subgoal_step S r r' \<Longrightarrow> rows_steps S v (v(i \<mapsto> r'))"
  unfolding rows_steps_def by (rule r_into_rtranclp) (rule rows_change)

lemma subgoal_step_mono: "subgoal_step S r r' \<Longrightarrow> S \<subseteq> T \<Longrightarrow> subgoal_step T r r'"
  by (erule subgoal_stepE) (auto intro: subgoal_step.intros)

lemma rows_step_mono: "rows_step S v v' \<Longrightarrow> S \<subseteq> T \<Longrightarrow> rows_step T v v'"
  by (erule rows_stepE) (auto intro: rows_step.intros subgoal_step_mono)

lemma rows_steps_mono: "rows_steps S v v' \<Longrightarrow> S \<subseteq> T \<Longrightarrow> rows_steps T v v'"
  unfolding rows_steps_def by (erule rtranclp_mono [THEN predicate2D, rotated]) (auto intro: rows_step_mono)

text \<open>What a computation leaves: a good store whose rows moved along the specification, outside \<open>X\<close> not at all.\<close>

definition gl_moves ::
  "('s \<Rightarrow> bool) \<Rightarrow> ('s \<Rightarrow> string \<Rightarrow> sub_goal option) \<Rightarrow> (sub_goal \<times> subgoal_status) set \<Rightarrow> string set \<Rightarrow>
   ('s, 'e) goal_world \<Rightarrow> ('s, 'e) goal_world \<Rightarrow> bool"
where
  "gl_moves good view S X w w' \<longleftrightarrow> good (gw_store w') \<and> rows_steps S (view (gw_store w)) (view (gw_store w')) \<and>
     (\<forall>i. i \<notin> X \<longrightarrow> view (gw_store w') i = view (gw_store w) i)"

lemma gl_moves_trans:
  "gl_moves good view S X w w1 \<Longrightarrow> gl_moves good view S Y w1 w2 \<Longrightarrow> gl_moves good view S (X \<union> Y) w w2"
  unfolding gl_moves_def using rows_steps_trans by (metis UnI1 UnI2)

lemma gl_moves_mono: "gl_moves good view S X w w' \<Longrightarrow> S \<subseteq> T \<Longrightarrow> X \<subseteq> Y \<Longrightarrow> gl_moves good view T Y w w'"
  unfolding gl_moves_def using rows_steps_mono by blast

lemma gl_moves_good: "gl_moves good view S X w w' \<Longrightarrow> good (gw_store w')"
  by (simp add: gl_moves_def)

lemma gl_moves_frame: "gl_moves good view S X w w' \<Longrightarrow> i \<notin> X \<Longrightarrow> view (gw_store w') i = view (gw_store w) i"
  by (simp add: gl_moves_def)

section \<open>Rules of the basic computations\<close>

lemma wp_gl_tick [wp_rules]: "wp gl_tick Q w = Q (gw_tick w) (w\<lparr>gw_tick := Suc (gw_tick w)\<rparr>)"
  by (simp add: gl_tick_def wp_def)

lemma wp_gl_stored [wp_rules]: "wp (gl_stored f) Q w = (let (a, s) = f (gw_store w) in Q a (w\<lparr>gw_store := s\<rparr>))"
  by (simp add: gl_stored_def wp_def split: prod.splits)

lemma wp_gl_emit [wp_rules]: "wp (gl_emit f) Q w = (let (a, e) = f (gw_out w) in Q a (w\<lparr>gw_out := e\<rparr>))"
  by (simp add: gl_emit_def wp_def split: prod.splits)

lemma wp_gl_record [wp_rules]: "wp (gl_record ev) Q w = Q () (w\<lparr>gw_audit := gw_audit w @ [ev]\<rparr>)"
  by (simp add: gl_record_def wp_def)

text \<open>Computations that leave the store as it is.\<close>

definition store_same :: "('s, 'e) goal_world \<Rightarrow> ('s, 'e) goal_world \<Rightarrow> bool" where
  "store_same w w' \<longleftrightarrow> gw_store w' = gw_store w \<and> gw_out w' = gw_out w"

lemma store_same_now: "wp (gl_now d) (\<lambda>_. store_same w) w"
  by (simp add: gl_now_def wp_rules store_same_def)

lemma store_same_uuid: "wp (gl_uuid d) (\<lambda>_. store_same w) w"
  by (simp add: gl_uuid_def wp_rules store_same_def)

lemma store_same_audit: "wp (gl_auditEvent d ev) (\<lambda>_. store_same w) w"
  by (simp add: gl_auditEvent_def wp_rules store_same_def split: option.splits)

lemma store_same_provider: "wp (gl_provider p) (\<lambda>_. store_same w) w"
  by (simp add: gl_provider_def wp_rules store_same_def split: option.splits)

lemma store_same_delta: "wp (objective_delta p) (\<lambda>_. store_same w) w"
  unfolding objective_delta_def by (rule wp_seq [OF store_same_provider]) (simp add: wp_rules)

lemma moves_seq:
  assumes "wp m (\<lambda>_. gl_moves good view S X w) w"
    and "\<And>a w'. gl_moves good view S X w w' \<Longrightarrow> wp (f a) (\<lambda>_. gl_moves good view S Y w') w'" and "X \<union> Y \<subseteq> Z"
  shows "wp (State_Monad.bind m f) (\<lambda>_. gl_moves good view S Z w) w"
proof (rule wp_seq [OF assms(1)])
  fix a w' assume m: "gl_moves good view S X w w'"
  show "wp (f a) (\<lambda>_. gl_moves good view S Z w) w'"
    using assms(2) [OF m] by (rule wp_mono) (meson assms(3) gl_moves_mono gl_moves_trans m order_refl)
qed

lemma moves_seq_same:
  assumes "wp m (\<lambda>_. store_same w) w" and "good (gw_store w)"
    and "\<And>a w'. store_same w w' \<Longrightarrow> wp (f a) (\<lambda>_. gl_moves good view S Z w') w'"
  shows "wp (State_Monad.bind m f) (\<lambda>_. gl_moves good view S Z w) w"
proof (rule wp_seq [OF assms(1)])
  fix a w' assume m: "store_same w w'"
  show "wp (f a) (\<lambda>_. gl_moves good view S Z w) w'"
    using assms(3) [OF m] by (rule wp_mono) (use m in \<open>simp add: gl_moves_def store_same_def\<close>)
qed

lemma moves_refl: "good (gw_store w) \<Longrightarrow> gl_moves good view S X w w"
  by (simp add: gl_moves_def)

lemma moves_return: "good (gw_store w) \<Longrightarrow> wp (State_Monad.return a) (\<lambda>_. gl_moves good view S X w) w"
  by (simp add: wp_rules moves_refl)

lemma moves_leaves: "leaves good view f \<Longrightarrow> good (gw_store w) \<Longrightarrow> wp (gl_stored f) (\<lambda>_. gl_moves good view S X w) w"
  by (auto simp: leaves_def wp_rules gl_moves_def split: prod.splits dest!: spec [of _ "gw_store w"])

lemma moves_audit: "good (gw_store w) \<Longrightarrow> wp (gl_auditEvent d ev) (\<lambda>_. gl_moves good view S X w) w"
  by (rule wp_mono [OF store_same_audit]) (simp add: gl_moves_def store_same_def)

text \<open>A write of one row, and what the row is after a reported success.\<close>

lemma writes_moves:
  assumes "\<And>t. writes good view i (g t) (f t)" and "good (gw_store w)"
    and "\<And>t r. view (gw_store w) i = Some r \<Longrightarrow> subgoal_step S r (g t r)"
  shows "wp (gl_timed d f) (\<lambda>e w'. gl_moves good view S {i} w w' \<and>
    (e = None \<longrightarrow> (\<exists>t. view (gw_store w') i = map_option (g t) (view (gw_store w) i)))) w"
  unfolding gl_timed_def gl_now_def wp_rules Let_def
proof (split prod.splits, intro allI impI)
  fix e s'
  define t where "t = gl_clock d (gw_tick w)"
  assume "f (gl_clock d (gw_tick w)) (gw_store (w\<lparr>gw_tick := Suc (gw_tick w)\<rparr>)) = (e, s')"
  then have f: "f t (gw_store w) = (e, s')" by (simp add: t_def)
  have "good s'" "view s' = (view (gw_store w))(i := map_option (g t) (view (gw_store w) i)) \<or> e \<noteq> None \<and> view s' = view (gw_store w)"
    using assms(1) [of t] assms(2) f unfolding writes_def by (metis fst_conv snd_conv)+
  moreover have "rows_steps S (view (gw_store w)) ((view (gw_store w))(i := map_option (g t) (view (gw_store w) i)))"
    using rows_steps_one [OF _ assms(3)] by (cases "view (gw_store w) i") (auto simp: fun_upd_idem)
  ultimately show "gl_moves good view S {i} w (w\<lparr>gw_tick := Suc (gw_tick w)\<rparr>\<lparr>gw_store := s'\<rparr>) \<and>
      (e = None \<longrightarrow> (\<exists>t. view (gw_store (w\<lparr>gw_tick := Suc (gw_tick w)\<rparr>\<lparr>gw_store := s'\<rparr>)) i = map_option (g t) (view (gw_store w) i)))"
    by (auto simp: gl_moves_def)
qed

lemma writes_moves':
  assumes "\<And>t. writes good view i (g t) (f t)" and "good (gw_store w)"
    and "\<And>t r. view (gw_store w) i = Some r \<Longrightarrow> subgoal_step S r (g t r)" and "i \<in> X"
  shows "wp (gl_timed d f) (\<lambda>_. gl_moves good view S X w) w"
  by (rule wp_mono [OF writes_moves [OF assms(1-3)]]) (use assms(4) in \<open>auto intro: gl_moves_mono\<close>)

lemma moves_timed_leaves:
  "(\<And>t. leaves good view (f t)) \<Longrightarrow> good (gw_store w) \<Longrightarrow> wp (gl_timed d f) (\<lambda>_. gl_moves good view S X w) w"
  unfolding gl_timed_def by (rule moves_seq_same [OF store_same_now]) (auto intro: moves_leaves simp: store_same_def)

lemma rows_stay:
  assumes "gl_moves good view S {sg_ID sg} w w'" and "distinct (map sg_ID (sg # sgs))"
    and "\<forall>r \<in> set (sg # sgs). Q r (view (gw_store w) (sg_ID r))"
  shows "\<forall>r \<in> set sgs. Q r (view (gw_store w') (sg_ID r))"
proof
  fix r assume r: "r \<in> set sgs"
  then have "sg_ID r \<notin> {sg_ID sg}" using assms(2) by (auto simp: image_iff)
  then have "view (gw_store w') (sg_ID r) = view (gw_store w) (sg_ID r)" by (rule gl_moves_frame [OF assms(1)])
  then show "Q r (view (gw_store w') (sg_ID r))" using assms(3) r by simp
qed

section \<open>Every operation refines the specification\<close>

context keyed_goal_store
begin

lemma insert_moves:
  assumes "good (gw_store w)" and "fresh_subgoal sg" and "sg_ID sg \<in> X"
  shows "wp (gl_stored (s_Insert ops sg)) (\<lambda>_. gl_moves good view S X w) w"
  unfolding wp_rules Let_def
proof (split prod.splits, intro allI impI)
  fix e s' assume i: "s_Insert ops sg (gw_store w) = (e, s')"
  have "good s'" using insert_law [OF assms(1) i] by blast
  moreover have "view s' = view (gw_store w) \<or> view (gw_store w) (sg_ID sg) = None \<and> view s' = (view (gw_store w))(sg_ID sg \<mapsto> sg)"
    using insert_law [OF assms(1) i] no_overwrite [OF assms(1) _ i] by blast
  moreover have "view (gw_store w) (sg_ID sg) = None \<Longrightarrow> rows_steps S (view (gw_store w)) ((view (gw_store w))(sg_ID sg \<mapsto> sg))"
    unfolding rows_steps_def using rows_new [OF _ assms(2)] by blast
  ultimately show "gl_moves good view S X w (w\<lparr>gw_store := s'\<rparr>)" using assms(3) by (auto simp: gl_moves_def)
qed

lemma list_moves:
  assumes "lists_rows good view P f" and "good (gw_store w)"
  shows "wp (gl_stored f) (\<lambda>(xs, e) w'. gl_moves good view S {} w w' \<and> distinct (map sg_ID xs) \<and>
    (\<forall>r \<in> set xs. view (gw_store w') (sg_ID r) = Some r \<and> P r) \<and>
    (e = None \<longrightarrow> (\<forall>i r. view (gw_store w') i = Some r \<longrightarrow> P r \<longrightarrow> r \<in> set xs))) w"
proof -
  have "leaves good view f" using assms(1) by (simp add: lists_rows_def)
  then have m: "wp (gl_stored f) (\<lambda>_. gl_moves good view S {} w) w" using assms(2) by (rule moves_leaves)
  have "wp (gl_stored f) (\<lambda>(xs, e) w'. distinct (map sg_ID xs) \<and> (\<forall>r \<in> set xs. view (gw_store w) (sg_ID r) = Some r \<and> P r) \<and>
      (e = None \<longrightarrow> (\<forall>i r. view (gw_store w) i = Some r \<longrightarrow> P r \<longrightarrow> r \<in> set xs))) w"
    using assms by (auto simp: wp_rules lists_rows_def Let_def split: prod.splits dest!: spec [of _ "gw_store w"])
  with m show ?thesis by (rule wp_mono [OF wp_conj]) (auto simp: gl_moves_def)
qed

lemma record_dependency_moves: "good (gw_store w) \<Longrightarrow> wp (record_dependency ops d planID prev i) (\<lambda>_. gl_moves good view S X w) w"
  unfolding record_dependency_def wp_case_option wp_if
  by (auto intro!: moves_return moves_seq_same [OF store_same_uuid] moves_seq_same [OF store_same_now]
      moves_seq [where X = X and Y = X] moves_leaves other_laws simp: store_same_def dest: gl_moves_good split: option.splits)

lemma insert_subgoals_moves:
  "good (gw_store w) \<Longrightarrow> list_all fresh_subgoal sgs \<Longrightarrow>
   wp (insert_subgoals ops d planID prev sgs created) (\<lambda>_. gl_moves good view S UNIV w) w"
proof (induction sgs arbitrary: prev created w)
  case (Cons sg sgs)
  have f: "fresh_subgoal (sg\<lparr>sg_PlanID := planID, sg_Strategy := StrategyExploitSuccess\<rparr>)"
    using Cons.prems(2) by (simp add: fresh_subgoal_def)
  show ?case unfolding insert_subgoals.simps
    by (rule moves_seq [where X = UNIV and Y = UNIV], rule insert_moves [OF Cons.prems(1) f])
      (use Cons in \<open>auto intro!: moves_return moves_seq [where X = UNIV and Y = UNIV, OF record_dependency_moves]
        moves_seq [where X = UNIV and Y = UNIV, OF moves_audit] simp: wp_case_option dest: gl_moves_good split: option.splits\<close>)
qed (simp add: moves_return)

lemma DecomposeGoal_fresh: "list_all fresh_subgoal (DecomposeGoal sha pf now goal rules)"
  by (auto simp: DecomposeGoal_def list_all_iff fresh_subgoal_def new_subgoal_def split: option.splits)

lemma create_goal_plan_moves: "good (gw_store w) \<Longrightarrow> wp (create_goal_plan ops d goal) (\<lambda>_. gl_moves good view S X w) w"
  unfolding create_goal_plan_def wp_if
  by (auto intro!: moves_return moves_seq_same [OF store_same_uuid] moves_seq_same [OF store_same_now]
      moves_seq [where X = X and Y = X] moves_leaves other_laws simp: store_same_def dest: gl_moves_good)

lemma DecomposeGoals_moves: "good (gw_store w) \<Longrightarrow> wp (DecomposeGoals_from ops d goals created) (\<lambda>_. gl_moves good view S UNIV w) w"
proof (induction goals arbitrary: created w)
  case (Cons goal goals)
  have ins: "wp (insert_subgoals ops d planID prev (DecomposeGoal sha pf now goal rules) n) (\<lambda>_. gl_moves good view S UNIV w) w"
    if "good (gw_store w)" for planID prev n w sha pf now rules
    using that DecomposeGoal_fresh by (rule insert_subgoals_moves)
  have l: "wp (gl_stored (s_ListByGoal ops g)) (\<lambda>_. gl_moves good view S UNIV w) w" if "good (gw_store w)" for g w
    using by_goal_law [of g] that by (simp add: lists_rows_def moves_leaves)
  show ?case unfolding DecomposeGoals_from.simps
    by (rule moves_seq [where X = UNIV and Y = UNIV], rule l [OF Cons.prems])
      (use Cons.IH in \<open>auto intro!: moves_return moves_seq [where X = UNIV and Y = UNIV, OF create_goal_plan_moves]
        moves_seq_same [OF store_same_now] moves_seq [where X = UNIV and Y = UNIV, OF ins]
        simp: wp_case_option wp_case_sum wp_case_prod wp_if store_same_def dest!: gl_moves_good split: option.splits sum.splits\<close>)
qed (simp add: moves_return)

end

text \<open>The transitions that activation may take.\<close>

definition activates :: "(sub_goal \<times> subgoal_status) set" where
  "activates = {(r, st). st = SubgoalActive \<and> sg_Status r = SubgoalNotStarted}"

context keyed_goal_store
begin

lemma activate_moves:
  "good (gw_store w) \<Longrightarrow> distinct (map sg_ID sgs) \<Longrightarrow> (\<forall>r \<in> set sgs. view (gw_store w) (sg_ID r) = Some r) \<Longrightarrow>
   wp (activate_from ops d all sgs n k) (\<lambda>_. gl_moves good view activates (sg_ID ` set sgs) w) w"
proof (induction sgs arbitrary: n k w)
  case (Cons sg sgs)
  let ?X = "sg_ID ` set (sg # sgs)"
  have rest: "wp (activate_from ops d all sgs n k) (\<lambda>_. gl_moves good view activates (sg_ID ` set sgs) w') w'"
    if "gl_moves good view activates {sg_ID sg} w w'" for n k w'
  proof (rule Cons.IH)
    show "\<forall>r \<in> set sgs. view (gw_store w') (sg_ID r) = Some r"
      using rows_stay [OF that Cons.prems(2), of "\<lambda>r x. x = Some r"] Cons.prems(3) by simp
  qed (use Cons.prems gl_moves_good [OF that] in simp_all)
  have skip: "wp (activate_from ops d all sgs n k) (\<lambda>_. gl_moves good view activates ?X w) w" for n k
    using rest [OF moves_refl [of good w, OF Cons.prems(1)]] by (rule wp_mono) (erule gl_moves_mono, auto)
  have step: "wp (gl_timed d (\<lambda>now. s_UpdateStatus ops now (sg_ID sg) SubgoalActive ''''))
      (\<lambda>_. gl_moves good view activates {sg_ID sg} w) w" if "sg_Status sg = SubgoalNotStarted"
    by (rule writes_moves' [OF status_law Cons.prems(1)])
      (use Cons.prems(3) that in \<open>auto intro!: step_status simp: activates_def ValidateSubgoalTransition_def ValidSubgoalTransitions_def\<close>)
  have audit: "wp (do { _ \<leftarrow> gl_auditEvent d ev; activate_from ops d all sgs n k })
      (\<lambda>_. gl_moves good view activates (sg_ID ` set sgs) w') w'"
    if "gl_moves good view activates {sg_ID sg} w w'" for ev n k w'
    by (rule moves_seq_same [OF store_same_audit])
      (use that in \<open>auto intro!: rest simp: gl_moves_def store_same_def\<close>)
  show ?case
  proof (cases "sg_Status sg = SubgoalNotStarted \<and> \<not> MaxActiveSubgoals \<le> n \<and> IsDependencyMet sg all")
    case True
    then show ?thesis unfolding activate_from.simps
      by (simp del: bind_assoc)
        (rule moves_seq [OF step, where Y = "sg_ID ` set sgs"], auto intro!: moves_return audit simp: wp_case_option dest: gl_moves_good split: option.splits)
  next
    case False
    then show ?thesis using skip Cons.prems(1) by (auto intro: moves_return)
  qed
qed (simp add: moves_return)

lemma ActivateSubgoals_moves:
  assumes "good (gw_store w)"
  shows "wp (ActivateSubgoals ops d) (\<lambda>_. gl_moves good view activates UNIV w) w"
  unfolding ActivateSubgoals_def
proof (rule wp_seq [OF list_moves [OF all_law assms]], clarify)
  fix xs e w' assume m: "gl_moves good view activates {} w w'" "distinct (map sg_ID xs)"
    "\<forall>r \<in> set xs. view (gw_store w') (sg_ID r) = Some r \<and> True"
  have "wp (activate_from ops d xs xs n k) (\<lambda>_. gl_moves good view activates (sg_ID ` set xs) w') w'" for n k
    by (rule activate_moves [OF gl_moves_good [OF m(1)] m(2)]) (use m(3) in simp)
  then have "wp (activate_from ops d xs xs n k) (\<lambda>_. gl_moves good view activates UNIV w) w'" for n k
    by (rule wp_mono) (rule gl_moves_mono [OF gl_moves_trans [OF m(1)]], simp_all)
  moreover have "gl_moves good view activates UNIV w w'" using gl_moves_mono [OF m(1)] by simp
  ultimately show "wp (case e of None \<Rightarrow> activate_from ops d xs xs (active_count xs) 0
      | Some err \<Rightarrow> State_Monad.return (0, Some err)) (\<lambda>_. gl_moves good view activates UNIV w) w'"
    by (simp add: wp_rules split: option.splits)
qed

end

text \<open>The transitions that measuring progress may take.\<close>

definition settles :: "(sub_goal \<times> subgoal_status) set" where
  "settles = {(r, st). st = SubgoalBlocked \<or> st = SubgoalCompleted \<and> fle MinProgressToComplete (sg_ProgressScore r)}"

context keyed_goal_store
begin

lemma status_moves:
  assumes "good (gw_store w)" and "\<exists>r. view (gw_store w) i = Some r \<and> ValidateSubgoalTransition (sg_Status r) st \<and> (r, st) \<in> S" and "i \<in> X"
  shows "wp (gl_timed d (\<lambda>t. s_UpdateStatus ops t i st reason)) (\<lambda>_. gl_moves good view S X w) w"
  by (rule writes_moves' [OF status_law assms(1)]) (use assms(2,3) in \<open>auto intro!: step_status\<close>)

lemma change_status_moves:
  assumes "good (gw_store w)" and "\<exists>r. view (gw_store w) i = Some r \<and> ValidateSubgoalTransition (sg_Status r) st \<and> (r, st) \<in> S" and "i \<in> X"
  shows "wp (change_status ops d i st reason ev) (\<lambda>_. gl_moves good view S X w) w"
  unfolding change_status_def
  by (rule moves_seq [where X = X and Y = X], rule status_moves [OF assms])
    (auto intro!: moves_return moves_seq [where X = X and Y = X, OF moves_audit] simp: wp_case_option dest: gl_moves_good split: option.splits)

lemma settle_moves:
  assumes "good (gw_store w)" 
    and "\<exists>r. view (gw_store w) (sg_ID sg) = Some r \<and> sg_Status r = SubgoalActive \<and> sg_ProgressScore r = sg_ProgressScore sg"
  shows "wp (settle_subgoal ops d now all sg) (\<lambda>_. gl_moves good view settles {sg_ID sg} w) w"
  unfolding settle_subgoal_def wp_if using assms
  by (auto intro!: change_status_moves moves_return simp: ValidateSubgoalTransition_def ValidSubgoalTransitions_def settles_def ShouldAutoComplete_def)

lemma progress_one_moves:
  assumes g: "good (gw_store w)" and r: "view (gw_store w) (sg_ID sg) = Some sg" and a: "sg_Status sg = SubgoalActive"
  shows "wp (progress_one ops d now all sg) (\<lambda>_. gl_moves good view settles {sg_ID sg} w) w"
proof -
  let ?S = "settles" and ?X = "{sg_ID sg}"
  have p: "wp (gl_timed d (\<lambda>t. s_UpdateProgress ops t (sg_ID sg) (MeasureProgress sg) (sg_CurrentValue sg)))
      (\<lambda>e w'. gl_moves good view ?S ?X w w' \<and>
        (e = None \<longrightarrow> (\<exists>t. view (gw_store w') (sg_ID sg) = map_option (set_progress t (MeasureProgress sg) (sg_CurrentValue sg)) (view (gw_store w) (sg_ID sg))))) w"
    by (rule writes_moves [OF progress_law g]) (use r in \<open>auto intro: step_progress\<close>)
  have settle: "wp (settle_subgoal ops d now all (sg\<lparr>sg_ProgressScore := MeasureProgress sg\<rparr>)) (\<lambda>_. gl_moves good view ?S ?X w3) w3"
    if "good (gw_store w3)" "\<exists>r. view (gw_store w3) (sg_ID sg) = Some r \<and> sg_Status r = SubgoalActive \<and> sg_ProgressScore r = MeasureProgress sg" for w3
    using settle_moves [of w3 "sg\<lparr>sg_ProgressScore := MeasureProgress sg\<rparr>"] that by simp
  show ?thesis unfolding progress_one_def
  proof (rule wp_seq [OF p], clarify)
    fix e :: "string option" and w1
    assume m: "gl_moves good view ?S ?X w w1"
      and v: "e = None \<longrightarrow> (\<exists>t. view (gw_store w1) (sg_ID sg) = map_option (set_progress t (MeasureProgress sg) (sg_CurrentValue sg)) (view (gw_store w) (sg_ID sg)))"
    have "wp (do { uid \<leftarrow> gl_uuid d; _ \<leftarrow> gl_stored (g_Insert ops (goal_progress_for uid now (MeasureProgress sg) sg));
        settle_subgoal ops d now all (sg\<lparr>sg_ProgressScore := MeasureProgress sg\<rparr>) }) (\<lambda>_. gl_moves good view ?S ?X w1) w1" if "e = None"
      by (rule moves_seq_same [OF store_same_uuid], use m in \<open>simp add: gl_moves_def\<close>, rule moves_seq [where X = "{}" and Y = ?X],
          rule moves_leaves [OF other_laws(1)], use m in \<open>simp add: gl_moves_def store_same_def\<close>, rule settle)
        (use v that r a in \<open>auto simp: gl_moves_def store_same_def set_progress_def\<close>)
    then have "wp (case e of None \<Rightarrow> do { uid \<leftarrow> gl_uuid d; _ \<leftarrow> gl_stored (g_Insert ops (goal_progress_for uid now (MeasureProgress sg) sg));
        settle_subgoal ops d now all (sg\<lparr>sg_ProgressScore := MeasureProgress sg\<rparr>) } | Some err \<Rightarrow> State_Monad.return (Some err))
        (\<lambda>_. gl_moves good view ?S ?X w1) w1"
      using m by (cases e) (simp_all add: moves_return gl_moves_def)
    then show "wp (case e of None \<Rightarrow> do { uid \<leftarrow> gl_uuid d; _ \<leftarrow> gl_stored (g_Insert ops (goal_progress_for uid now (MeasureProgress sg) sg));
        settle_subgoal ops d now all (sg\<lparr>sg_ProgressScore := MeasureProgress sg\<rparr>) } | Some err \<Rightarrow> State_Monad.return (Some err))
        (\<lambda>_. gl_moves good view ?S ?X w) w1"
      by (rule wp_mono) (use gl_moves_trans [OF m, where Y = ?X] in simp)
  qed
qed

lemma progress_all_moves:
  "good (gw_store w) \<Longrightarrow> distinct (map sg_ID sgs) \<Longrightarrow>
   (\<forall>r \<in> set sgs. view (gw_store w) (sg_ID r) = Some r \<and> sg_Status r = SubgoalActive) \<Longrightarrow>
   wp (progress_all ops d now all sgs) (\<lambda>_. gl_moves good view settles UNIV w) w"
proof (induction sgs arbitrary: w)
  case (Cons sg sgs)
  show ?case unfolding progress_all.simps
  proof (rule moves_seq [where X = "{sg_ID sg}" and Y = UNIV])
    show "wp (progress_one ops d now all sg) (\<lambda>_. gl_moves good view settles {sg_ID sg} w) w"
      by (rule progress_one_moves) (use Cons.prems in auto)
    fix e w' assume m: "gl_moves good view settles {sg_ID sg} w w'"
    have "\<forall>r \<in> set sgs. view (gw_store w') (sg_ID r) = Some r \<and> sg_Status r = SubgoalActive"
      using rows_stay [OF m Cons.prems(2), of "\<lambda>r x. x = Some r \<and> sg_Status r = SubgoalActive"] Cons.prems(3) by simp
    then have "wp (progress_all ops d now all sgs) (\<lambda>_. gl_moves good view settles UNIV w') w'"
      using Cons.IH [of w'] Cons.prems(2) gl_moves_good [OF m] by simp
    then show "wp (case e of None \<Rightarrow> progress_all ops d now all sgs | Some err \<Rightarrow> State_Monad.return (Some err))
        (\<lambda>_. gl_moves good view settles UNIV w') w'"
      using m by (cases e) (simp_all add: moves_return gl_moves_def)
  qed simp
qed (simp add: moves_return)

end

context keyed_goal_store
begin

lemma listing_moves: "lists_rows good view P f \<Longrightarrow> good (gw_store w) \<Longrightarrow> wp (gl_stored f) (\<lambda>_. gl_moves good view S X w) w"
  by (simp add: lists_rows_def moves_leaves)

lemma UpdateProgress_moves:
  assumes "good (gw_store w)"
  shows "wp (UpdateProgress ops d) (\<lambda>_. gl_moves good view settles UNIV w) w"
  unfolding UpdateProgress_def
proof (rule wp_seq [OF list_moves [OF active_law assms]], clarify)
  let ?S = "settles"
  fix xs e w1 assume m: "gl_moves good view ?S {} w w1" "distinct (map sg_ID xs)"
    "\<forall>r \<in> set xs. view (gw_store w1) (sg_ID r) = Some r \<and> sg_Status r = SubgoalActive"
  have run: "wp (do { now \<leftarrow> gl_now d; (all, _) \<leftarrow> gl_stored (s_ListAll ops); progress_all ops d now all xs })
      (\<lambda>_. gl_moves good view ?S UNIV w1) w1"
  proof (rule moves_seq_same [OF store_same_now], rule gl_moves_good [OF m(1)], rule moves_seq [where X = "{}" and Y = UNIV])
    fix now w2 assume s: "store_same w1 w2"
    have g2: "good (gw_store w2)" using s gl_moves_good [OF m(1)] by (simp add: store_same_def)
    show "wp (gl_stored (s_ListAll ops)) (\<lambda>_. gl_moves good view ?S {} w2) w2"
      by (rule listing_moves [OF all_law g2])
    fix a w3 assume m3: "gl_moves good view ?S {} w2 w3"
    have "wp (progress_all ops d now all xs) (\<lambda>_. gl_moves good view ?S UNIV w3) w3" for all
      by (rule progress_all_moves [OF gl_moves_good [OF m3] m(2)]) (use m(3) s m3 in \<open>simp add: gl_moves_def store_same_def\<close>)
    then show "wp (case a of (all, x) \<Rightarrow> progress_all ops d now all xs) (\<lambda>_. gl_moves good view ?S UNIV w3) w3"
      by (cases a) simp
  qed simp
  then have "wp (case e of None \<Rightarrow> do { now \<leftarrow> gl_now d; (all, _) \<leftarrow> gl_stored (s_ListAll ops); progress_all ops d now all xs }
      | Some err \<Rightarrow> State_Monad.return (Some err)) (\<lambda>_. gl_moves good view ?S UNIV w1) w1"
    using m(1) by (cases e) (simp_all add: moves_return gl_moves_def)
  then show "wp (case e of None \<Rightarrow> do { now \<leftarrow> gl_now d; (all, _) \<leftarrow> gl_stored (s_ListAll ops); progress_all ops d now all xs }
      | Some err \<Rightarrow> State_Monad.return (Some err)) (\<lambda>_. gl_moves good view ?S UNIV w) w1"
    by (rule wp_mono) (use gl_moves_trans [OF m(1), where Y = UNIV] in simp)
qed

lemma moves_emit: "good (gw_store w) \<Longrightarrow> wp (gl_emit f) (\<lambda>_. gl_moves good view S X w) w"
  by (simp add: wp_rules gl_moves_def split: prod.splits)

lemma emit_all_moves: "good (gw_store w) \<Longrightarrow> wp (emit_all ops d emitTask now ems n) (\<lambda>_. gl_moves good view S UNIV w) w"
proof (induction ems arbitrary: n w)
  case (Cons em ems)
  have u: "wp (gl_timed d (\<lambda>t. s_UpdateLastTaskEmitted ops t (em_SubgoalID em) now)) (\<lambda>_. gl_moves good view S UNIV w) w"
    if "good (gw_store w)" for w
    by (rule writes_moves' [OF emitted_law that]) (auto intro: step_emitted)
  show ?case unfolding emit_all.simps
    by (rule moves_seq [where X = UNIV and Y = UNIV], rule moves_emit [OF Cons.prems])
      (use Cons.IH in \<open>auto intro!: moves_seq [where X = UNIV and Y = UNIV, OF u] moves_seq [where X = UNIV and Y = UNIV, OF moves_audit]
        simp: wp_case_option dest!: gl_moves_good split: option.splits\<close>)
qed (simp add: moves_return)

lemma PlanAndEmitTasks_moves: "good (gw_store w) \<Longrightarrow> wp (PlanAndEmitTasks ops d) (\<lambda>_. gl_moves good view S UNIV w) w"
  unfolding PlanAndEmitTasks_def
  by (auto intro!: moves_seq [where X = UNIV and Y = UNIV, OF listing_moves [OF active_law]]
      moves_seq [where X = UNIV and Y = UNIV, OF listing_moves [OF all_law]] moves_seq_same [OF store_same_delta]
      moves_seq_same [OF store_same_provider] moves_seq_same [OF store_same_now] moves_return
      moves_seq [where X = UNIV and Y = UNIV, OF emit_all_moves]
      simp: wp_case_option Let_def store_same_def dest!: gl_moves_good split: option.splits)

end

lemma applyReflectionSignal_same:
  "sg_ID (applyReflectionSignal sig sg) = sg_ID sg \<and> sg_Status (applyReflectionSignal sig sg) = sg_Status sg"
  by (simp add: applyReflectionSignal_def)

lemma with_feedback_same: "sg_ID (with_feedback fb sigs sg) = sg_ID sg \<and> sg_Status (with_feedback fb sigs sg) = sg_Status sg"
proof -
  have "sg_ID (fold applyReflectionSignal ss r) = sg_ID r \<and> sg_Status (fold applyReflectionSignal ss r) = sg_Status r" for ss r
    by (induction ss arbitrary: r) (simp_all add: applyReflectionSignal_same)
  then show ?thesis by (simp add: with_feedback_def split: option.splits prod.splits)
qed

lemma may_block: "ValidateSubgoalTransition SubgoalActive SubgoalBlocked"
  by (simp add: ValidateSubgoalTransition_def ValidSubgoalTransitions_def)

text \<open>What the engine does by itself: activation, and what measuring and replanning may do.\<close>

definition automatic :: "(sub_goal \<times> subgoal_status) set" where
  "automatic = activates \<union> settles"

lemma automatic_sub: "activates \<subseteq> automatic" "settles \<subseteq> automatic" "UNIV \<times> {SubgoalBlocked} \<subseteq> automatic"
  by (auto simp: automatic_def settles_def)

section \<open>Histories of requests\<close>

datatype goal_request =
  ReqGoalCycle "system_goal list" | ReqGoalDecompose "system_goal list" | ReqGoalActivate | ReqGoalProgress | ReqGoalEmit
  | ReqGoalReplan | is_ReqGoalTransition: ReqGoalTransition string subgoal_status string | ReqCreatePlan string string string

definition goal_request_run :: "'s goal_ops \<Rightarrow> 'e goal_deps \<Rightarrow> goal_request \<Rightarrow> (('s, 'e) goal_world, unit) state" where
  "goal_request_run ops d rq =
     (case rq of
        ReqGoalCycle gs \<Rightarrow> do { _ \<leftarrow> goal_RunCycle ops d gs; State_Monad.return () }
      | ReqGoalDecompose gs \<Rightarrow> do { _ \<leftarrow> DecomposeGoals ops d gs; State_Monad.return () }
      | ReqGoalActivate \<Rightarrow> do { _ \<leftarrow> ActivateSubgoals ops d; State_Monad.return () }
      | ReqGoalProgress \<Rightarrow> do { _ \<leftarrow> UpdateProgress ops d; State_Monad.return () }
      | ReqGoalEmit \<Rightarrow> do { _ \<leftarrow> PlanAndEmitTasks ops d; State_Monad.return () }
      | ReqGoalReplan \<Rightarrow> do { _ \<leftarrow> RunReplanCycle ops d; State_Monad.return () }
      | ReqGoalTransition i st reason \<Rightarrow> do { _ \<leftarrow> TransitionSubgoal ops d i st reason; State_Monad.return () }
      | ReqCreatePlan g h s \<Rightarrow> do { _ \<leftarrow> CreatePlan ops d g h s; State_Monad.return () })"

text \<open>Requests one after the other, each with the providers it meets.\<close>

fun goal_history :: "'s goal_ops \<Rightarrow> ('e goal_deps \<times> goal_request) list \<Rightarrow> ('s, 'e) goal_world \<Rightarrow> ('s, 'e) goal_world" where
  "goal_history ops [] w = w"
| "goal_history ops ((d, rq) # rqs) w = goal_history ops rqs (snd (run_state (goal_request_run ops d rq) w))"

context keyed_goal_store
begin

lemma replanSubgoal_moves:
  assumes g: "good (gw_store w)" and r: "\<exists>r. view (gw_store w) (sg_ID sg) = Some r \<and> sg_Status r = sg_Status sg"
  shows "wp (replanSubgoal ops d rp sg trigger delta) (\<lambda>_. gl_moves good view (UNIV \<times> {SubgoalBlocked}) {sg_ID sg} w) w"
proof -
  let ?S = "(UNIV \<times> {SubgoalBlocked})" and ?X = "{sg_ID sg}"
  have u: "wp (gl_timed d (\<lambda>t. s_UpdateStrategy ops t (sg_ID sg) strat fc sc)) (\<lambda>_. gl_moves good view ?S ?X w) w"
    if "good (gw_store w)" for strat fc sc w
    by (rule writes_moves' [OF strategy_law that]) (auto intro: step_strategy)
  have b: "wp (gl_timed d (\<lambda>t. s_UpdateStatus ops t (sg_ID sg) SubgoalBlocked reason)) (\<lambda>_. gl_moves good view ?S ?X w) w"
    if "sg_Status sg = SubgoalActive" for reason
    by (rule status_moves [OF g]) (use r that may_block in auto)
  have block: "wp (do {
       e \<leftarrow> (if sg_Status sg = SubgoalActive then gl_timed d (\<lambda>t. s_UpdateStatus ops t (sg_ID sg) SubgoalBlocked reason) else State_Monad.return None);
       case e of Some err \<Rightarrow> State_Monad.return (Some err)
       | None \<Rightarrow> gl_timed d (\<lambda>t. s_UpdateStrategy ops t (sg_ID sg) strat fc sc) }) (\<lambda>_. gl_moves good view ?S ?X w) w" for reason strat fc sc
    by (rule moves_seq [where X = ?X and Y = ?X])
      (use b u g in \<open>auto intro!: moves_return simp: wp_case_option dest: gl_moves_good split: option.splits\<close>)
  have act: "wp (case trigger of
         TriggerExecFailure \<Rightarrow> gl_timed d (\<lambda>t. s_UpdateStrategy ops t (sg_ID sg) (SelectStrategy sg delta) (sg_FailureCount sg) (sg_SuccessCount sg))
       | TriggerRepeatedFailure \<Rightarrow> do {
           e \<leftarrow> (if sg_Status sg = SubgoalActive then gl_timed d (\<lambda>t. s_UpdateStatus ops t (sg_ID sg) SubgoalBlocked ''repeated failures'') else State_Monad.return None);
           case e of Some err \<Rightarrow> State_Monad.return (Some err)
           | None \<Rightarrow> gl_timed d (\<lambda>t. s_UpdateStrategy ops t (sg_ID sg) (SelectStrategy sg delta) (sg_FailureCount sg) (sg_SuccessCount sg)) }
       | TriggerReinforcement \<Rightarrow> gl_timed d (\<lambda>t. s_UpdateStrategy ops t (sg_ID sg) StrategyExploitSuccess (sg_FailureCount sg) (sg_SuccessCount sg))
       | TriggerObjectivePenalty \<Rightarrow> gl_timed d (\<lambda>t. s_UpdateStrategy ops t (sg_ID sg) StrategyDeferHighRisk (sg_FailureCount sg) (sg_SuccessCount sg)))
      (\<lambda>_. gl_moves good view ?S ?X w) w"
    using u [OF g] block by (cases trigger) simp_all
  have inc: "wp (gl_timed d (\<lambda>t. p_IncrementReplanCount ops t i)) (\<lambda>_. gl_moves good view ?S ?X w) w" if "good (gw_store w)" for i w
    by (rule moves_timed_leaves [where good = good, OF other_laws(4) that])
  show ?thesis unfolding replanSubgoal_def Let_def
    by (rule moves_seq [where X = ?X and Y = ?X], rule act)
      (auto intro!: moves_return moves_seq [where X = ?X and Y = ?X, OF inc] moves_seq [where X = ?X and Y = ?X, OF moves_audit]
        simp: wp_case_option dest!: gl_moves_good split: option.splits)
qed

lemma replan_all_moves:
  "good (gw_store w) \<Longrightarrow> distinct (map sg_ID sgs) \<Longrightarrow> (\<forall>r \<in> set sgs. view (gw_store w) (sg_ID r) = Some r) \<Longrightarrow>
   wp (replan_all ops d rp delta fb sigs sgs n) (\<lambda>_. gl_moves good view (UNIV \<times> {SubgoalBlocked}) UNIV w) w"
proof (induction sgs arbitrary: n w)
  case (Cons sg sgs)
  let ?sg = "with_feedback fb sigs sg"
  have rest: "wp (replan_all ops d rp delta fb sigs sgs n) (\<lambda>_. gl_moves good view (UNIV \<times> {SubgoalBlocked}) UNIV w') w'"
    if "gl_moves good view (UNIV \<times> {SubgoalBlocked}) {sg_ID sg} w w'" for n w'
    using Cons.IH [of w'] Cons.prems rows_stay [OF that Cons.prems(2), of "\<lambda>r x. x = Some r"] gl_moves_good [OF that] by simp
  have one: "wp (replanSubgoal ops d rp ?sg trigger delta) (\<lambda>_. gl_moves good view (UNIV \<times> {SubgoalBlocked}) {sg_ID sg} w) w" for trigger
    using replanSubgoal_moves [OF Cons.prems(1), of ?sg] Cons.prems(3) by (simp add: with_feedback_same)
  show ?case
    using rest [OF moves_refl [of good w, OF Cons.prems(1)]]
    by (auto simp: Let_def intro!: moves_seq [OF one, where Y = UNIV] rest split: option.splits)
qed (simp add: moves_return)

lemma RunReplanCycle_moves:
  assumes "good (gw_store w)"
  shows "wp (replanner_RunReplanCycle ops d rp) (\<lambda>_. gl_moves good view (UNIV \<times> {SubgoalBlocked}) UNIV w) w"
  unfolding replanner_RunReplanCycle_def
proof (rule wp_seq [OF list_moves [OF all_law assms]], clarify)
  fix xs e w1 assume m: "gl_moves good view (UNIV \<times> {SubgoalBlocked}) {} w w1" "distinct (map sg_ID xs)"
    "\<forall>r \<in> set xs. view (gw_store w1) (sg_ID r) = Some r \<and> True"
  have r: "wp (replan_all ops d rp delta fb sigs xs n) (\<lambda>_. gl_moves good view (UNIV \<times> {SubgoalBlocked}) UNIV w2) w2"
    if "gw_store w2 = gw_store w1" for delta fb sigs n w2
    by (rule replan_all_moves) (use m that in \<open>simp_all add: gl_moves_def\<close>)
  have "wp (case e of None \<Rightarrow> do {
         objectiveDelta \<leftarrow> objective_delta (rp_objective rp);
         feedback \<leftarrow> gl_provider (rp_execFeedback rp);
         signals \<leftarrow> gl_provider (rp_reflection rp);
         n \<leftarrow> replan_all ops d rp objectiveDelta feedback (case signals of None \<Rightarrow> [] | Some sigs \<Rightarrow> sigs) xs 0;
         _ \<leftarrow> gl_auditEvent d ''goal_planning.replan_completed'';
         State_Monad.return (n, None) }
     | Some err \<Rightarrow> State_Monad.return (0, Some (''list subgoals: '' @ err))) (\<lambda>_. gl_moves good view (UNIV \<times> {SubgoalBlocked}) UNIV w1) w1"
    using gl_moves_good [OF m(1)]
    by (auto intro!: moves_seq_same [OF store_same_delta] moves_seq_same [OF store_same_provider] moves_return
        moves_seq [where X = UNIV and Y = UNIV, OF r] moves_seq [where X = UNIV and Y = UNIV, OF moves_audit]
        simp: wp_case_option store_same_def dest!: gl_moves_good split: option.splits)
  then show "wp (case e of None \<Rightarrow> do {
         objectiveDelta \<leftarrow> objective_delta (rp_objective rp);
         feedback \<leftarrow> gl_provider (rp_execFeedback rp);
         signals \<leftarrow> gl_provider (rp_reflection rp);
         n \<leftarrow> replan_all ops d rp objectiveDelta feedback (case signals of None \<Rightarrow> [] | Some sigs \<Rightarrow> sigs) xs 0;
         _ \<leftarrow> gl_auditEvent d ''goal_planning.replan_completed'';
         State_Monad.return (n, None) }
     | Some err \<Rightarrow> State_Monad.return (0, Some (''list subgoals: '' @ err))) (\<lambda>_. gl_moves good view (UNIV \<times> {SubgoalBlocked}) UNIV w) w1"
    by (rule wp_mono) (use gl_moves_trans [OF m(1), where Y = UNIV] in simp)
qed

lemma TransitionSubgoal_moves:
  assumes "good (gw_store w)"
  shows "wp (TransitionSubgoal ops d i st reason) (\<lambda>_. gl_moves good view (UNIV \<times> {st}) UNIV w) w"
proof -
  have "wp (gl_stored (s_Get ops i)) (\<lambda>r w'. gl_moves good view (UNIV \<times> {st}) {} w w' \<and> (\<forall>sg. r = Inr sg \<longrightarrow> view (gw_store w') i = Some sg)) w"
    using get_law [OF assms] by (auto simp: wp_rules gl_moves_def split: prod.splits)
  then show ?thesis unfolding TransitionSubgoal_def
  proof (rule wp_seq, clarify)
    fix r :: "string + sub_goal" and w'
    assume m: "gl_moves good view (UNIV \<times> {st}) {} w w'" and r: "\<forall>sg. r = Inr sg \<longrightarrow> view (gw_store w') i = Some sg"
    have run: "wp (gl_timed d (\<lambda>t. s_UpdateStatus ops t i st reason)) (\<lambda>_. gl_moves good view (UNIV \<times> {st}) UNIV w') w'"
      if "r = Inr sg" "ValidateSubgoalTransition (sg_Status sg) st" for sg
      by (rule status_moves) (use m r that in \<open>simp_all add: gl_moves_def\<close>)
    have "wp (gl_timed d (\<lambda>t. s_UpdateStatus ops t i st reason)) (\<lambda>_. gl_moves good view (UNIV \<times> {st}) UNIV w) w'"
      if "r = Inr sg" "ValidateSubgoalTransition (sg_Status sg) st" for sg
      using run [OF that] by (rule wp_mono) (use gl_moves_trans [OF m, where Y = UNIV] in simp)
    then show "wp (case r of Inl err \<Rightarrow> State_Monad.return (Some err)
      | Inr sg \<Rightarrow> if \<not> ValidateSubgoalTransition (sg_Status sg) st
          then State_Monad.return (Some (''invalid transition: '' @ sg_Status sg @ arrow_text @ st))
          else gl_timed d (\<lambda>t. s_UpdateStatus ops t i st reason)) (\<lambda>_. gl_moves good view (UNIV \<times> {st}) UNIV w) w'"
      using m by (auto simp: wp_case_sum wp_if wp_return gl_moves_def split: sum.splits)
  qed
qed

lemma goal_RunCycle_moves: "good (gw_store w) \<Longrightarrow> wp (goal_RunCycle ops d goals) (\<lambda>_. gl_moves good view automatic UNIV w) w"
proof -
  have a: "wp (ActivateSubgoals ops d) (\<lambda>_. gl_moves good view automatic UNIV w) w" if "good (gw_store w)" for w
    using ActivateSubgoals_moves [OF that] by (rule wp_mono) (erule gl_moves_mono [OF _ automatic_sub(1)], simp)
  have p: "wp (UpdateProgress ops d) (\<lambda>_. gl_moves good view automatic UNIV w) w" if "good (gw_store w)" for w
    using UpdateProgress_moves [OF that] by (rule wp_mono) (erule gl_moves_mono [OF _ automatic_sub(2)], simp)
  assume "good (gw_store w)"
  then show ?thesis unfolding goal_RunCycle_def DecomposeGoals_def
    by (auto intro!: moves_return moves_seq [where X = UNIV and Y = UNIV, OF DecomposeGoals_moves]
        moves_seq [where X = UNIV and Y = UNIV, OF a] moves_seq [where X = UNIV and Y = UNIV, OF p]
        moves_seq [where X = UNIV and Y = UNIV, OF PlanAndEmitTasks_moves] moves_seq [where X = UNIV and Y = UNIV, OF moves_audit]
        simp: wp_case_option dest!: gl_moves_good split: option.splits)
qed

lemma CreatePlan_moves: "good (gw_store w) \<Longrightarrow> wp (CreatePlan ops d g h st) (\<lambda>_. gl_moves good view S UNIV w) w"
  unfolding CreatePlan_def wp_if Let_def
  by (auto intro!: moves_return moves_seq_same [OF store_same_uuid] moves_seq_same [OF store_same_now]
      moves_seq [where X = UNIV and Y = UNIV, OF moves_leaves [OF other_laws(2)]] moves_seq [where X = UNIV and Y = UNIV, OF moves_audit]
      simp: wp_case_option store_same_def dest!: gl_moves_good split: option.splits)

text \<open>A request without an operator's transition moves automatically, and any request along the table.\<close>

lemma request_moves:
  assumes "good (gw_store w)"
  shows "wp (goal_request_run ops d rq) (\<lambda>_. gl_moves good view (if is_ReqGoalTransition rq then UNIV else automatic) UNIV w) w"
proof -
  have unit: "wp (do { _ \<leftarrow> m; State_Monad.return () }) (\<lambda>_. gl_moves good view T UNIV w) w"
    if "wp m (\<lambda>_. gl_moves good view S UNIV w) w" "S \<subseteq> T" for m S T
    by (rule wp_seq [OF that(1)]) (use gl_moves_mono [OF _ that(2) order_refl] in \<open>simp add: wp_return\<close>)
  have r: "wp (RunReplanCycle ops d) (\<lambda>_. gl_moves good view (UNIV \<times> {SubgoalBlocked}) UNIV w) w"
    using RunReplanCycle_moves [OF assms] assms by (simp add: RunReplanCycle_def moves_return split: option.splits)
  show ?thesis
    using unit [OF goal_RunCycle_moves [OF assms] order_refl] unit [OF DecomposeGoals_moves [OF assms] order_refl]
      unit [OF ActivateSubgoals_moves [OF assms] automatic_sub(1)] unit [OF UpdateProgress_moves [OF assms] automatic_sub(2)]
      unit [OF PlanAndEmitTasks_moves [OF assms] order_refl] unit [OF r automatic_sub(3)]
      unit [OF TransitionSubgoal_moves [OF assms] subset_UNIV] unit [OF CreatePlan_moves [OF assms] order_refl]
    by (cases rq) (simp_all add: goal_request_run_def DecomposeGoals_def)
qed

lemma history_moves:
  assumes "good (gw_store w)" and "\<And>d rq. (d, rq) \<in> set rqs \<Longrightarrow> is_ReqGoalTransition rq \<Longrightarrow> S = UNIV" and "automatic \<subseteq> S"
  shows "gl_moves good view S UNIV w (goal_history ops rqs w)"
  using assms(1,2)
proof (induction rqs arbitrary: w)
  case (Cons x rqs)
  obtain d rq where x: "x = (d, rq)" by fastforce
  let ?w = "snd (run_state (goal_request_run ops d rq) w)"
  have "gl_moves good view (if is_ReqGoalTransition rq then UNIV else automatic) UNIV w ?w"
    by (rule wp_fst [OF request_moves [OF Cons.prems(1)]])
  then have m: "gl_moves good view S UNIV w ?w"
    using Cons.prems(2) x assms(3) by (auto elim!: gl_moves_mono split: if_splits)
  have "gl_moves good view S UNIV ?w (goal_history ops rqs ?w)"
    by (rule Cons.IH [OF gl_moves_good [OF m]]) (use Cons.prems(2) in auto)
  then show ?case using gl_moves_trans [OF m, where Y = UNIV] x by simp
qed (simp add: moves_refl)

end

section \<open>What the specification gives\<close>

lemma rows_steps_row:
  assumes "rows_steps S v v'" and "v i = Some r"
  shows "\<exists>r'. v' i = Some r' \<and> (subgoal_step S)\<^sup>*\<^sup>* r r'"
  using assms unfolding rows_steps_def
proof (induction rule: rtranclp_induct)
  case (step u v')
  then obtain r' where "u i = Some r'" "(subgoal_step S)\<^sup>*\<^sup>* r r'" by blast
  with step(2) show ?case by (auto elim!: rows_stepE intro: rtranclp.rtrancl_into_rtrancl)
qed simp

lemma rows_steps_all:
  assumes "rows_steps S v v'" and "\<forall>r \<in> ran v. J r" and "\<And>r. fresh_subgoal r \<Longrightarrow> J r"
    and "\<And>r r'. J r \<Longrightarrow> subgoal_step S r r' \<Longrightarrow> J r'"
  shows "\<forall>r \<in> ran v'. J r"
  using assms(1,2) unfolding rows_steps_def
proof (induction rule: rtranclp_induct)
  case (step u v')
  then have u: "\<And>i r. u i = Some r \<Longrightarrow> J r" by (auto simp: ran_def)
  show ?case
  proof (rule rows_stepE [OF step(2)])
    fix r assume "v' = u(sg_ID r \<mapsto> r)" "fresh_subgoal r"
    then show ?thesis using u assms(3) by (auto simp: ran_def)
  next
    fix r' i r assume "v' = u(i \<mapsto> r')" "u i = Some r" "subgoal_step S r r'"
    then show ?thesis using u assms(4) [OF u] by (auto simp: ran_def)
  qed
qed simp

text \<open>What no step changes.\<close>

definition sg_core :: "sub_goal \<Rightarrow> sub_goal" where
  "sg_core r = r\<lparr>sg_Status := '''', sg_ProgressScore := Fin 0, sg_BlockReason := '''', sg_Strategy := '''',
     sg_FailureCount := 0, sg_SuccessCount := 0, sg_LastTaskEmitted := 0, sg_UpdatedAt := 0\<rparr>"

lemma step_core: "subgoal_step S r r' \<Longrightarrow> sg_core r' = sg_core r"
  by (erule subgoal_stepE) (simp_all add: sg_core_def set_status_def set_progress_def set_emitted_def set_strategy_def)

lemma step_status_table: "subgoal_step S r r' \<Longrightarrow> sg_Status r' = sg_Status r \<or> ValidateSubgoalTransition (sg_Status r) (sg_Status r') \<and> (r, sg_Status r') \<in> S"
  by (erule subgoal_stepE) (simp_all add: set_status_def set_progress_def set_emitted_def set_strategy_def)

lemma steps_core: "(subgoal_step S)\<^sup>*\<^sup>* r r' \<Longrightarrow> sg_core r' = sg_core r"
  by (induction rule: rtranclp_induct) (simp_all add: step_core)

lemma steps_status: "(subgoal_step S)\<^sup>*\<^sup>* r r' \<Longrightarrow> ValidateSubgoalTransition\<^sup>*\<^sup>* (sg_Status r) (sg_Status r')"
  by (induction rule: rtranclp_induct) (auto dest!: step_status_table intro: rtranclp.rtrancl_into_rtrancl)

lemma terminal_status: "st \<in> {SubgoalCompleted, SubgoalFailed} \<Longrightarrow> \<not> ValidateSubgoalTransition st st'"
  by (auto simp: ValidateSubgoalTransition_def ValidSubgoalTransitions_def)

lemma terminal_stays: "ValidateSubgoalTransition\<^sup>*\<^sup>* st st' \<Longrightarrow> st \<in> {SubgoalCompleted, SubgoalFailed} \<Longrightarrow> st' = st"
  by (erule converse_rtranclpE) (auto simp: terminal_status)

lemma blocked_stays: "(subgoal_step automatic)\<^sup>*\<^sup>* r r' \<Longrightarrow> sg_Status r = SubgoalBlocked \<Longrightarrow> sg_Status r' = SubgoalBlocked"
proof (induction rule: rtranclp_induct)
  case (step r1 r2)
  then show ?case using step_status_table [OF step(2)]
    by (auto simp: automatic_def activates_def settles_def ValidateSubgoalTransition_def ValidSubgoalTransitions_def)
qed simp

text \<open>The rows of a store that started empty and met no operator.\<close>

definition unmeasured :: "sub_goal \<Rightarrow> bool" where
  "unmeasured r \<longleftrightarrow> sg_CurrentValue r = Fin 0 \<and> sg_DependsOn r = '''' \<and>
     (sg_ProgressScore r = Fin 0 \<or> sg_ProgressScore r = MeasureProgress r) \<and>
     (sg_Status r = SubgoalCompleted \<longrightarrow> fle (sg_TargetValue r) (Fin 0))"

lemma threshold_positive: "\<not> fle MinProgressToComplete (Fin 0)" "\<not> fle MinProgressToComplete NaN"
proof -
  have h: "fle (Fin (1 / 2)) MinProgressToComplete" using rnd_mono [of "50 / 100" "90 / 100"] half_exact by (simp add: MinProgressToComplete_def)
  show "\<not> fle MinProgressToComplete (Fin 0)" using fle_trans [OF h, of "Fin 0"] by auto
  show "\<not> fle MinProgressToComplete NaN" using fle_trans [OF h, of NaN] by (auto simp: fle_def feq_def)
qed

lemma unmeasured_progress:
  assumes "sg_CurrentValue r = Fin 0" and "\<not> fle (sg_TargetValue r) (Fin 0)"
  shows "\<not> fle MinProgressToComplete (MeasureProgress r)"
proof -
  have "fdiv (Fin 0) (sg_TargetValue r) \<in> {Fin 0, NaN}" using assms(2) by (cases "sg_TargetValue r") (auto simp: fle_def feq_def fdiv_def)
  then have "MeasureProgress r \<in> {Fin 0, NaN}" using assms by (auto simp: MeasureProgress_def clamp01_def)
  then show ?thesis using threshold_positive by auto
qed

lemma unmeasured_fresh: "fresh_subgoal r \<Longrightarrow> unmeasured r"
  by (simp add: fresh_subgoal_def unmeasured_def)

lemma unmeasured_step:
  assumes "unmeasured r" and "subgoal_step automatic r r'"
  shows "unmeasured r'"
proof (rule subgoal_stepE [OF assms(2)])
  fix st now reason assume step: "r' = set_status now st reason r" "(r, st) \<in> automatic"
  have "fle (sg_TargetValue r) (Fin 0)" if "st = SubgoalCompleted"
  proof (rule ccontr)
    assume t: "\<not> fle (sg_TargetValue r) (Fin 0)"
    have "fle MinProgressToComplete (sg_ProgressScore r)" using step that by (auto simp: automatic_def activates_def settles_def)
    then show False using assms(1) unmeasured_progress [OF _ t] threshold_positive(1) by (auto simp: unmeasured_def)
  qed
  then show ?thesis using assms(1) step by (auto simp: unmeasured_def set_status_def MeasureProgress_def)
qed (use assms(1) in \<open>auto simp: unmeasured_def set_progress_def set_emitted_def set_strategy_def MeasureProgress_def\<close>)

section \<open>The bound on active subgoals\<close>

definition actives :: "(string \<Rightarrow> sub_goal option) \<Rightarrow> string set" where
  "actives v = {i. \<exists>r. v i = Some r \<and> sg_Status r = SubgoalActive}"

lemma rows_step_actives:
  assumes "rows_step S v v'" and "\<And>r. (r, SubgoalActive) \<notin> S"
  shows "actives v' \<subseteq> actives v"
  using assms by (auto simp: actives_def fresh_subgoal_def elim!: rows_stepE dest!: step_status_table split: if_splits)

lemma rows_steps_actives:
  assumes "rows_steps S v v'" and "\<And>r. (r, SubgoalActive) \<notin> S"
  shows "actives v' \<subseteq> actives v"
  using assms(1) unfolding rows_steps_def
  by (induction rule: rtranclp_induct) (use rows_step_actives [OF _ assms(2)] in blast)+

context keyed_goal_store
begin

lemma finite_actives: "good s \<Longrightarrow> finite (actives (view s))"
  using finite_view [of s] by (rule finite_subset [rotated]) (auto simp: actives_def)

lemma card_moves:
  "gl_moves good view S X w w' \<Longrightarrow> (\<And>r. (r, SubgoalActive) \<notin> S) \<Longrightarrow> good (gw_store w) \<Longrightarrow>
   card (actives (view (gw_store w'))) \<le> card (actives (view (gw_store w)))"
  by (rule card_mono [OF finite_actives rows_steps_actives]) (auto simp: gl_moves_def)

lemma card_moves_one:
  assumes "gl_moves good view S {i} w w'" and "good (gw_store w)"
  shows "card (actives (view (gw_store w'))) \<le> Suc (card (actives (view (gw_store w))))"
proof -
  have "actives (view (gw_store w')) \<subseteq> insert i (actives (view (gw_store w)))"
    using gl_moves_frame [OF assms(1)] by (auto simp: actives_def)
  then have "card (actives (view (gw_store w'))) \<le> card (insert i (actives (view (gw_store w))))"
    by (rule card_mono [rotated]) (simp add: finite_actives assms(2))
  then show ?thesis by (metis card_insert_le_m1 card_insert_if finite_actives assms(2) le_SucI)
qed

lemma activate_bound:
  "good (gw_store w) \<Longrightarrow> distinct (map sg_ID sgs) \<Longrightarrow> (\<forall>r \<in> set sgs. view (gw_store w) (sg_ID r) = Some r) \<Longrightarrow>
   card (actives (view (gw_store w))) \<le> n \<Longrightarrow>
   wp (activate_from ops d all sgs n k) (\<lambda>_ w'. good (gw_store w') \<and> card (actives (view (gw_store w'))) \<le> max MaxActiveSubgoals n) w"
proof (induction sgs arbitrary: n k w)
  case (Cons sg sgs)
  have rest: "wp (activate_from ops d all sgs m k) (\<lambda>_ w'. good (gw_store w') \<and> card (actives (view (gw_store w'))) \<le> max MaxActiveSubgoals m) w'"
    if "gl_moves good view activates {sg_ID sg} w w'" "card (actives (view (gw_store w'))) \<le> m" for m k w'
    using Cons.IH [of w' m] Cons.prems rows_stay [OF that(1) Cons.prems(2), of "\<lambda>r x. x = Some r"] gl_moves_good [OF that(1)] that(2) by simp
  have skip: "wp (activate_from ops d all sgs n k) (\<lambda>_ w'. good (gw_store w') \<and> card (actives (view (gw_store w'))) \<le> max MaxActiveSubgoals n) w" for k
    by (rule rest [OF moves_refl [of good w, OF Cons.prems(1)] Cons.prems(4)])
  show ?case
  proof (cases "sg_Status sg = SubgoalNotStarted \<and> \<not> MaxActiveSubgoals \<le> n \<and> IsDependencyMet sg all")
    case True
    have step: "wp (gl_timed d (\<lambda>now. s_UpdateStatus ops now (sg_ID sg) SubgoalActive '''')) (\<lambda>_. gl_moves good view activates {sg_ID sg} w) w"
      by (rule status_moves [OF Cons.prems(1)])
        (use True Cons.prems(3) in \<open>auto simp: activates_def ValidateSubgoalTransition_def ValidSubgoalTransitions_def\<close>)
    have c: "card (actives (view (gw_store w'))) \<le> Suc n" if "gl_moves good view activates {sg_ID sg} w w'" for w'
      using card_moves_one [OF that Cons.prems(1)] Cons.prems(4) by linarith
    have m: "max MaxActiveSubgoals (Suc n) = max MaxActiveSubgoals n" using True by simp
    have next_one: "wp (do { _ \<leftarrow> gl_auditEvent d ev; activate_from ops d all sgs (Suc n) k })
        (\<lambda>_ w'. good (gw_store w') \<and> card (actives (view (gw_store w'))) \<le> max MaxActiveSubgoals n) w'"
      if "gl_moves good view activates {sg_ID sg} w w'" for ev k w'
      by (rule wp_seq [OF store_same_audit], unfold m [symmetric], rule rest)
        (use that c [OF that] in \<open>simp_all add: gl_moves_def store_same_def\<close>)
    have err: "good (gw_store w') \<and> card (actives (view (gw_store w'))) \<le> max MaxActiveSubgoals n"
      if "gl_moves good view activates {sg_ID sg} w w'" for w'
      using c [OF that] True gl_moves_good [OF that] by simp
    define b where "b = max MaxActiveSubgoals n"
    show ?thesis using True next_one err unfolding b_def [symmetric]
      by (simp del: bind_assoc) (rule wp_seq [OF step], auto simp: wp_case_option wp_return split: option.splits)
  next
    case False
    then show ?thesis using skip Cons.prems(1,4) by (auto simp: wp_return)
  qed
qed (simp add: wp_return)

lemma active_count_card:
  assumes "distinct (map sg_ID xs)" and "\<forall>r \<in> set xs. v (sg_ID r) = Some r" and "\<forall>i r. v i = Some r \<longrightarrow> r \<in> set xs \<and> sg_ID r = i"
  shows "active_count xs = card (actives v)"
proof -
  have "actives v = set (map sg_ID (filter (\<lambda>r. sg_Status r = SubgoalActive) xs))"
  proof (intro equalityI subsetI)
    fix i assume "i \<in> actives v"
    then obtain r where "v i = Some r" "sg_Status r = SubgoalActive" by (auto simp: actives_def)
    moreover from this have "r \<in> set xs" "sg_ID r = i" using assms(3) by blast+
    ultimately show "i \<in> set (map sg_ID (filter (\<lambda>r. sg_Status r = SubgoalActive) xs))" by auto
  qed (use assms(2) in \<open>auto simp: actives_def\<close>)
  moreover have "distinct (map sg_ID (filter (\<lambda>r. sg_Status r = SubgoalActive) xs))" using assms(1) by (rule distinct_map_filter)
  ultimately show ?thesis using distinct_card by (fastforce simp: active_count_def)
qed

lemma ActivateSubgoals_bound:
  assumes "good (gw_store w)"
  shows "wp (ActivateSubgoals ops d) (\<lambda>_ w'. good (gw_store w') \<and>
    card (actives (view (gw_store w'))) \<le> max MaxActiveSubgoals (card (actives (view (gw_store w))))) w"
  unfolding ActivateSubgoals_def
proof (rule wp_seq [OF list_moves [OF all_law assms, where S = "{}"]], clarify)
  fix xs and e :: "string option" and w' assume m: "gl_moves good view {} {} w w'" "distinct (map sg_ID xs)"
    "\<forall>r \<in> set xs. view (gw_store w') (sg_ID r) = Some r \<and> True"
    "e = None \<longrightarrow> (\<forall>i r. view (gw_store w') i = Some r \<longrightarrow> True \<longrightarrow> r \<in> set xs)"
  have g: "good (gw_store w')" and v: "view (gw_store w') = view (gw_store w)" using m(1) by (auto simp: gl_moves_def)
  have "active_count xs = card (actives (view (gw_store w')))" if "e = None"
    by (rule active_count_card [OF m(2)]) (use m(3,4) that keys [OF g] in auto)
  then show "wp (case e of None \<Rightarrow> activate_from ops d xs xs (active_count xs) 0
      | Some err \<Rightarrow> State_Monad.return (0, Some err)) (\<lambda>_ w'. good (gw_store w') \<and>
        card (actives (view (gw_store w'))) \<le> max MaxActiveSubgoals (card (actives (view (gw_store w))))) w'"
    using activate_bound [OF g m(2), of "active_count xs" d xs 0] m(3) g by (auto simp: wp_case_option wp_return v split: option.splits)
qed

lemma goal_RunCycle_bound:
  assumes "good (gw_store w)"
  shows "wp (goal_RunCycle ops d goals) (\<lambda>_ w'. good (gw_store w') \<and>
    card (actives (view (gw_store w'))) \<le> max MaxActiveSubgoals (card (actives (view (gw_store w))))) w"
proof -
  define b where "b = max MaxActiveSubgoals (card (actives (view (gw_store w))))"
  let ?Q = "\<lambda>w'. good (gw_store w') \<and> card (actives (view (gw_store w'))) \<le> b"
  have keep: "wp m (\<lambda>_. ?Q) w'" if "?Q w'" "wp m (\<lambda>_. gl_moves good view S UNIV w') w'" "\<And>r. (r, SubgoalActive) \<notin> S" for m S w'
    by (rule wp_mono [OF that(2)]) (use card_moves [OF _ that(3)] that(1) le_trans in \<open>blast dest: gl_moves_good\<close>)
  have dec: "wp (DecomposeGoals ops d goals) (\<lambda>_. ?Q) w" unfolding DecomposeGoals_def
    by (rule keep [OF _ DecomposeGoals_moves [OF assms, where S = "{}"]]) (simp_all add: b_def assms)
  have act: "wp (ActivateSubgoals ops d) (\<lambda>_. ?Q) w'" if "?Q w'" for w'
    by (rule wp_mono [OF ActivateSubgoals_bound]) (use that in \<open>auto simp: b_def\<close>)
  have pro: "wp (UpdateProgress ops d) (\<lambda>_. ?Q) w'" if "?Q w'" for w'
    by (rule keep [OF that UpdateProgress_moves]) (use that in \<open>auto simp: settles_def\<close>)
  have emi: "wp (PlanAndEmitTasks ops d) (\<lambda>_. ?Q) w'" if "?Q w'" for w'
    by (rule keep [OF that PlanAndEmitTasks_moves [where S = "{}"]]) (use that in auto)
  have aud: "wp (gl_auditEvent d ev) (\<lambda>_. ?Q) w'" if "?Q w'" for ev w'
    by (rule wp_mono [OF store_same_audit]) (use that in \<open>auto simp: store_same_def\<close>)
  show ?thesis unfolding goal_RunCycle_def b_def [symmetric]
    by (auto intro!: wp_seq [OF dec] wp_seq [OF act] wp_seq [OF pro] wp_seq [OF emi] wp_seq [OF aud]
        simp: wp_case_option wp_return split: option.splits)
qed

end

section \<open>What is emitted\<close>

type_synonym emit_call = "string \<times> string \<times> string \<times> f64 \<times> f64 \<times> f64 \<times> string"

definition em_call :: "task_emission \<Rightarrow> emit_call" where
  "em_call em = (em_SubgoalID em, em_GoalID em, em_ActionType em, em_Urgency em, em_ExpectedValue em, em_RiskLevel em, em_StrategyType em)"

text \<open>An emitter that keeps every call and fails when it likes.\<close>

definition recorder :: "(emit_call list \<Rightarrow> string option) \<Rightarrow> emit_call list emitter" where
  "recorder fails i g a u v r s calls = (fails calls, calls @ [(i, g, a, u, v, r, s)])"

lemma out_timed: "wp (gl_timed d f) (\<lambda>_ w'. gw_out w' = gw_out w) w"
  by (simp add: gl_timed_def gl_now_def wp_rules split: prod.splits)

lemma out_audit: "wp (gl_auditEvent d ev) (\<lambda>_ w'. gw_out w' = gw_out w) w"
  by (rule wp_mono [OF store_same_audit]) (simp add: store_same_def)

lemma emit_all_calls:
  "wp (emit_all ops d (recorder fails) now ems n) (\<lambda>_ w'. gw_out w' = gw_out w @ map em_call ems) w"
proof (induction ems arbitrary: n w)
  case (Cons em ems)
  have call: "wp (gl_emit (recorder fails (em_SubgoalID em) (em_GoalID em) (em_ActionType em) (em_Urgency em)
      (em_ExpectedValue em) (em_RiskLevel em) (em_StrategyType em))) (\<lambda>_ w'. gw_out w' = gw_out w @ [em_call em]) w"
    by (simp add: wp_rules recorder_def em_call_def)
  have rest: "wp (emit_all ops d (recorder fails) now ems n) (\<lambda>_ w'. gw_out w' = gw_out w @ map em_call (em # ems)) w'"
    if "gw_out w' = gw_out w @ [em_call em]" for n w'
    using Cons.IH [of n w'] that by simp
  show ?case unfolding emit_all.simps
    by (rule wp_seq [OF call])
      (auto simp: wp_case_option simp del: list.map intro!: rest wp_seq [OF out_timed] wp_seq [OF out_audit] split: option.splits)
qed (simp add: wp_return)

definition call_ok :: "(string \<Rightarrow> sub_goal option) \<Rightarrow> time \<Rightarrow> emit_call \<Rightarrow> bool" where
  "call_ok rows now = (\<lambda>(i, g, a, u, v, r, s). \<exists>sg. rows i = Some sg \<and> sg_Status sg = SubgoalActive \<and> g = sg_GoalID sg \<and>
     a = sg_PreferredAction sg \<and> \<not> fle MinProgressToComplete (sg_ProgressScore sg) \<and>
     (sg_LastTaskEmitted sg = 0 \<or> \<not> flt (dur_Minutes (time_Sub now (sg_LastTaskEmitted sg))) TaskEmissionCooldownMinutes) \<and>
     fin_in 0 1 u \<and> fin_in 0 1 v \<and> fin_in 0 1 r)"

lemma adjust_same:
  "em_SubgoalID (adjust_emission active delta vec em) = em_SubgoalID em \<and> em_GoalID (adjust_emission active delta vec em) = em_GoalID em \<and>
   em_ActionType (adjust_emission active delta vec em) = em_ActionType em"
  by (simp add: adjust_emission_def ApplyStrategyToEmission_def Let_def split: prod.splits)

lemma adjust_ok:
  assumes "em_ok em"
  shows "fin_in 0 1 (em_Urgency (adjust_emission active delta vec em)) \<and>
    fin_in 0 1 (em_ExpectedValue (adjust_emission active delta vec em)) \<and> fin_in 0 1 (em_RiskLevel (adjust_emission active delta vec em))"
  using strategy_ok [OF assms] by (auto simp: adjust_emission_def em_ok_def Let_def split: prod.splits)

lemma merge_active_id:
  assumes "\<forall>r \<in> set active. rows (sg_ID r) = Some r" and "\<forall>r \<in> set all. rows (sg_ID r) = Some r"
  shows "merge_active active all = all"
proof -
  have "active_map active (sg_ID r) = Some a \<Longrightarrow> rows (sg_ID r) = Some a" for r a
    using assms(1) by (auto simp: active_map_def dest!: map_of_SomeD)
  then have "(case active_map active (sg_ID r) of None \<Rightarrow> r | Some a \<Rightarrow> a) = r" if "r \<in> set all" for r
    using assms(2) that by (cases "active_map active (sg_ID r)") fastforce+
  then show ?thesis unfolding merge_active_def by (rule map_idI)
qed

lemma planned_calls:
  assumes "\<forall>r \<in> set active. rows (sg_ID r) = Some r" and "\<forall>r \<in> set all. rows (sg_ID r) = Some r \<and> sg_ok r" and "distinct (map sg_ID all)"
  shows "length (planned_emissions active all delta vec now) \<le> MaxTasksPerPlan"
    and "distinct (map fst (map em_call (planned_emissions active all delta vec now)))"
    and "list_all (call_ok rows now) (map em_call (planned_emissions active all delta vec now))"
proof -
  have merge: "merge_active active all = all" by (rule merge_active_id) (use assms in auto)
  let ?es = "map (emission_for now) (filter (needs_task all now) all)"
  have same: "mset (PlanTasks all now) = mset ?es" unfolding PlanTasks_def by (rule mset_sortEmissions)
  show "length (planned_emissions active all delta vec now) \<le> MaxTasksPerPlan" by (simp add: planned_emissions_def)
  have "map em_SubgoalID ?es = map sg_ID (filter (needs_task all now) all)" by (simp add: emission_for_def Let_def)
  then have "distinct (map em_SubgoalID ?es)" using distinct_map_filter [OF assms(3)] by metis
  then have "distinct (map em_SubgoalID (PlanTasks all now))" using same by (metis mset_eq_imp_distinct_iff mset_map)
  then have "distinct (map em_SubgoalID (take MaxTasksPerPlan (PlanTasks all now)))" by (rule distinct_take_map)
  moreover have "map fst (map em_call (planned_emissions active all delta vec now)) = map em_SubgoalID (take MaxTasksPerPlan (PlanTasks all now))"
    by (simp add: planned_emissions_def merge em_call_def adjust_same)
  ultimately show "distinct (map fst (map em_call (planned_emissions active all delta vec now)))" by metis
  have "call_ok rows now (em_call (adjust_emission active delta vec em))" if e: "em \<in> set (PlanTasks all now)" for em
  proof -
    obtain sg where sg: "sg \<in> set all" "needs_task all now sg" "em = emission_for now sg" using e unfolding mset_eq_setD [OF same] by auto
    have "em_ok em" using emission_ok assms(2) sg by blast
    then show ?thesis using adjust_ok adjust_same assms(2) sg
      by (auto simp: call_ok_def em_call_def needs_task_def emission_for_def Let_def)
  qed
  then show "list_all (call_ok rows now) (map em_call (planned_emissions active all delta vec now))"
    by (auto simp: planned_emissions_def merge list_all_iff dest: in_set_takeD)
qed

context keyed_goal_store
begin

lemma PlanAndEmitTasks_calls:
  assumes "good (gw_store w)" and "\<forall>r \<in> ran (view (gw_store w)). sg_ok r" and "gl_emitter d = Some (recorder fails)"
  shows "wp (PlanAndEmitTasks ops d) (\<lambda>_ w'. \<exists>now calls. gw_out w' = gw_out w @ calls \<and> length calls \<le> MaxTasksPerPlan \<and>
    distinct (map fst calls) \<and> list_all (call_ok (view (gw_store w)) now) calls) w"
proof -
  let ?Q = "\<lambda>_ w'. \<exists>now calls. gw_out w' = gw_out w @ calls \<and> length calls \<le> MaxTasksPerPlan \<and>
    distinct (map fst calls) \<and> list_all (call_ok (view (gw_store w)) now) calls"
  have out: "wp (gl_stored f) (\<lambda>_ w'. gw_out w' = gw_out w0) w0" for f :: "'a \<Rightarrow> 'r \<times> 'a" and w0 :: "('a, emit_call list) goal_world"
    by (simp add: wp_rules split: prod.splits)
  have none: "?Q x w'" if "gw_out w' = gw_out w" for x w'
    by (rule exI, rule exI [of _ "[]"]) (use that in simp)
  have emit: "wp (do { n \<leftarrow> emit_all ops d (recorder fails) now (planned_emissions active all delta vec now) 0; State_Monad.return (n, None) }) ?Q w'"
    if "gw_out w' = gw_out w" "\<forall>r \<in> set active. view (gw_store w) (sg_ID r) = Some r"
      "\<forall>r \<in> set all. view (gw_store w) (sg_ID r) = Some r" "distinct (map sg_ID all)" for active all delta vec now w'
  proof -
    have "\<forall>r \<in> set all. view (gw_store w) (sg_ID r) = Some r \<and> sg_ok r" using that(3) assms(2) by (auto simp: ran_def)
    note p = planned_calls [OF that(2) this that(4), where now = now]
    show ?thesis
      by (rule wp_seq [OF emit_all_calls], simp only: wp_return that(1), intro exI conjI)
        (rule refl, use p in simp_all)
  qed
  show ?thesis unfolding PlanAndEmitTasks_def
  proof (rule wp_seq [OF wp_conj [OF out list_moves [OF active_law assms(1), where S = "{}"]]], clarify)
    fix active and e :: "string option" and w1
    assume o1: "gw_out w1 = gw_out w" and m1: "gl_moves good view {} {} w w1"
      and a: "\<forall>r \<in> set active. view (gw_store w1) (sg_ID r) = Some r \<and> sg_Status r = SubgoalActive"
    have v1: "view (gw_store w1) = view (gw_store w)" "good (gw_store w1)" using m1 by (auto simp: gl_moves_def)
    have "wp (do {
         (all, _) \<leftarrow> gl_stored (s_ListAll ops);
         objectiveDelta \<leftarrow> objective_delta (gl_objective d);
         vector \<leftarrow> gl_provider (gl_vector d);
         now \<leftarrow> gl_now d;
         let emissions = planned_emissions active all objectiveDelta vector now;
         case gl_emitter d of
           None \<Rightarrow> State_Monad.return (length emissions, None)
         | Some emitTask \<Rightarrow> do { n \<leftarrow> emit_all ops d emitTask now emissions 0; State_Monad.return (n, None) }
       }) ?Q w1"
      by (rule wp_seq [OF wp_conj [OF out list_moves [OF all_law v1(2), where S = "{}"]]])
        (use a o1 v1 in \<open>auto simp: assms(3) Let_def gl_moves_def store_same_def
          intro!: wp_seq [OF store_same_delta] wp_seq [OF store_same_provider] wp_seq [OF store_same_now] emit\<close>)
    then show "wp (case e of None \<Rightarrow> do {
         (all, _) \<leftarrow> gl_stored (s_ListAll ops);
         objectiveDelta \<leftarrow> objective_delta (gl_objective d);
         vector \<leftarrow> gl_provider (gl_vector d);
         now \<leftarrow> gl_now d;
         let emissions = planned_emissions active all objectiveDelta vector now;
         case gl_emitter d of
           None \<Rightarrow> State_Monad.return (length emissions, None)
         | Some emitTask \<Rightarrow> do { n \<leftarrow> emit_all ops d emitTask now emissions 0; State_Monad.return (n, None) }
       } | Some err \<Rightarrow> State_Monad.return (0, Some err)) ?Q w1"
      using none [OF o1] by (cases e) (simp_all add: wp_return)
  qed
qed

end

section \<open>Replanning without providers\<close>

lemma no_replan: "sg_FailureCount sg = 0 \<Longrightarrow> sg_SuccessCount sg = 0 \<Longrightarrow> ShouldReplan sg (Fin 0) = None"
  using unit_const [of "5 / 100"] by (auto simp: ShouldReplan_def ObjectivePenaltyThreshold_def RepeatedFailureThreshold_def)

lemma replan_all_idle:
  "list_all (\<lambda>sg. sg_FailureCount sg = 0 \<and> sg_SuccessCount sg = 0) sgs \<Longrightarrow>
   replan_all ops d rp (Fin 0) None [] sgs n = State_Monad.return n"
  by (induction sgs) (auto simp: with_feedback_def no_replan)

section \<open>Properties\<close>

text \<open>
  C20: Goal planning refines its specification. Over the PostgreSQL store, whatever its calls return, every
  sequence of requests moves the rows of subgoals only along the abstract steps: a fresh subgoal under
  an unused id, a transition of the table, a measurement computed from the value already stored, a new
  emission time, a new strategy.
\<close>

theorem goal_planning_refines_rows:
  assumes "gdb_good (gw_store w)"
  shows "rows_steps UNIV (gdb_view (gw_store w)) (gdb_view (gw_store (goal_history gdb_ops rqs w)))"
  using gdb_store.history_moves [OF assms, of rqs UNIV] by (simp add: gl_moves_def)

definition wit_gdeps :: "emit_call list goal_deps" where
  "wit_gdeps = \<lparr>gl_clock = (\<lambda>n. int n), gl_newUUID = (\<lambda>n. replicate n CHR ''u''), gl_newSHA1 = (\<lambda>s. s), gl_parseFloat = (\<lambda>_. None),
     gl_auditor = None, gl_planStore = True, gl_depStore = True, gl_rules = DefaultDecompositionRules, gl_objective = None,
     gl_emitter = Some (recorder (\<lambda>_. None)),
     gl_replanner = Some \<lparr>rp_planStore = True, rp_objective = None, rp_execFeedback = None, rp_reflection = None\<rparr>, gl_vector = None\<rparr>"

definition wit_row :: "string \<Rightarrow> subgoal_status \<Rightarrow> sub_goal" where
  "wit_row i st = zero_subgoal\<lparr>sg_ID := i, sg_GoalID := ''g'', sg_Status := st, sg_TargetValue := Fin 3\<rparr>"

definition wit_gworld :: "sub_goal list \<Rightarrow> (goal_db, emit_call list) goal_world" where
  "wit_gworld rows = \<lparr>gw_store = \<lparr>db_subgoals = rows, db_progress = [], db_plans = [], db_deps = [], db_faults = [], db_error = ''x''\<rparr>,
     gw_tick = 0, gw_audit = [], gw_out = []\<rparr>"

definition wit_goal :: system_goal where
  "wit_goal = \<lparr>go_ID = ''g'', go_Type = ''evolution'', go_Priority = Fin (1 / 2), go_Horizon = ''weekly'', go_SuccessMetrics = []\<rparr>"

theorem goal_planning_refines_rows_witness:
  "rows_steps UNIV (gdb_view (gw_store (wit_gworld [wit_row ''a'' SubgoalActive])))
     (gdb_view (gw_store (goal_history gdb_ops [(wit_gdeps, ReqGoalCycle [wit_goal])] (wit_gworld [wit_row ''a'' SubgoalActive]))))"
  by (rule goal_planning_refines_rows) (simp add: wit_gworld_def gdb_good_def)

text \<open>
  C21: The life of a subgoal. Under every sequence of requests and every pattern of store failures a stored
  subgoal stays stored, keeps everything but its status, progress, strategy, counters and times, and
  changes status only along the table; a completed or failed one keeps its status for ever.
\<close>

theorem subgoal_lifecycle:
  assumes "gdb_good (gw_store w)" and "gdb_view (gw_store w) i = Some r"
  shows "\<exists>r'. gdb_view (gw_store (goal_history gdb_ops rqs w)) i = Some r' \<and> sg_core r' = sg_core r \<and>
    ValidateSubgoalTransition\<^sup>*\<^sup>* (sg_Status r) (sg_Status r') \<and>
    (sg_Status r \<in> {SubgoalCompleted, SubgoalFailed} \<longrightarrow> sg_Status r' = sg_Status r)"
proof -
  have "rows_steps UNIV (gdb_view (gw_store w)) (gdb_view (gw_store (goal_history gdb_ops rqs w)))"
    using gdb_store.history_moves [OF assms(1), of rqs UNIV] by (simp add: gl_moves_def)
  from rows_steps_row [OF this assms(2)] show ?thesis using steps_core steps_status terminal_stays by blast
qed

theorem subgoal_lifecycle_witness:
  "\<exists>r'. gdb_view (gw_store (goal_history gdb_ops [(wit_gdeps, ReqGoalCycle [wit_goal]), (wit_gdeps, ReqGoalTransition ''a'' SubgoalActive '''')]
       (wit_gworld [wit_row ''a'' SubgoalFailed]))) ''a'' = Some r' \<and> sg_Status r' = SubgoalFailed"
  using subgoal_lifecycle [of "wit_gworld [wit_row ''a'' SubgoalFailed]" "''a''" "wit_row ''a'' SubgoalFailed"
      "[(wit_gdeps, ReqGoalCycle [wit_goal]), (wit_gdeps, ReqGoalTransition ''a'' SubgoalActive '''')]"]
  by (auto simp: wit_gworld_def gdb_good_def gdb_view_def wit_row_def)

text \<open>
  Nothing measures a subgoal. From an empty store and without an operator, every stored subgoal keeps
  the current value 0 and no dependency, and the only subgoals ever completed are those whose target is
  at most 0, which count as reached from the start.
\<close>

theorem only_trivial_targets_complete:
  assumes "db_subgoals (gw_store w) = []" and "list_all (\<lambda>(d, rq). \<not> is_ReqGoalTransition rq) rqs"
  shows "list_all (\<lambda>r. sg_CurrentValue r = Fin 0 \<and> sg_DependsOn r = '''' \<and>
    (sg_Status r = SubgoalCompleted \<longrightarrow> fle (sg_TargetValue r) (Fin 0))) (db_subgoals (gw_store (goal_history gdb_ops rqs w)))"
proof -
  let ?w = "goal_history gdb_ops rqs w"
  have g: "gdb_good (gw_store w)" "\<forall>r \<in> ran (gdb_view (gw_store w)). unmeasured r" using assms(1) by (simp_all add: gdb_good_def gdb_view_def ran_def)
  have m: "gl_moves gdb_good gdb_view automatic UNIV w ?w"
    by (rule gdb_store.history_moves [OF g(1)]) (use assms(2) in \<open>auto simp: list_all_iff\<close>)
  then have "\<forall>r \<in> ran (gdb_view (gw_store ?w)). unmeasured r"
    by (intro rows_steps_all [OF _ g(2)]) (auto simp: gl_moves_def intro: unmeasured_fresh unmeasured_step)
  moreover have "r \<in> ran (gdb_view (gw_store ?w))" if "r \<in> set (db_subgoals (gw_store ?w))" for r
    using keyed_row_of [OF _ that] m by (auto simp: gl_moves_def gdb_good_def gdb_view_def ran_def)
  ultimately show ?thesis by (auto simp: list_all_iff unmeasured_def)
qed

theorem only_trivial_targets_complete_witness:
  "length (db_subgoals (gw_store (goal_history gdb_ops [(wit_gdeps, ReqGoalDecompose [wit_goal])] (wit_gworld [])))) = 1 \<and>
   list_all (\<lambda>r. sg_CurrentValue r = Fin 0 \<and> sg_DependsOn r = '''' \<and> (sg_Status r = SubgoalCompleted \<longrightarrow> fle (sg_TargetValue r) (Fin 0)))
     (db_subgoals (gw_store (goal_history gdb_ops [(wit_gdeps, ReqGoalDecompose [wit_goal])] (wit_gworld []))))"
proof
  have "DecomposeGoal (\<lambda>s. s) (\<lambda>_. None) n wit_goal DefaultDecompositionRules =
      [new_subgoal (\<lambda>s. s) (\<lambda>_. None) n wit_goal 0 (template ''Identify improvement candidates'' ''improvement_candidates'' 3 ''log_recommendation'' 0)]" for n
    by (simp add: DecomposeGoal_def wit_goal_def DefaultDecompositionRules_def MaxSubgoalsPerGoal_def)
  then show "length (db_subgoals (gw_store (goal_history gdb_ops [(wit_gdeps, ReqGoalDecompose [wit_goal])] (wit_gworld [])))) = 1"
    by (simp add: goal_request_run_def DecomposeGoals_def gl_stored_def gdb_ops_def gdb_ListByGoal_def gdb_listWhere_def gdb_rows_def
        gdb_next_def wit_gworld_def create_goal_plan_def wit_gdeps_def gl_uuid_def gl_tick_def gl_now_def gdb_PlanInsert_def gdb_exec_def
        goal_plan_for_def int4_def gdb_Insert_def new_subgoal_def deterministicID_def record_dependency_def gl_auditEvent_def wit_goal_def)
qed (rule only_trivial_targets_complete, simp_all add: wit_gworld_def)

text \<open>
  A blocked subgoal waits for the operator. Without an operator's transition a blocked subgoal stays
  blocked under every sequence of requests: neither activation nor measuring nor replanning takes it up
  again.
\<close>

theorem blocked_needs_operator:
  assumes "gdb_good (gw_store w)" and "gdb_view (gw_store w) i = Some r" and "sg_Status r = SubgoalBlocked"
    and "list_all (\<lambda>(d, rq). \<not> is_ReqGoalTransition rq) rqs"
  shows "\<exists>r'. gdb_view (gw_store (goal_history gdb_ops rqs w)) i = Some r' \<and> sg_Status r' = SubgoalBlocked"
proof -
  have "gl_moves gdb_good gdb_view automatic UNIV w (goal_history gdb_ops rqs w)"
    by (rule gdb_store.history_moves [OF assms(1)]) (use assms(4) in \<open>auto simp: list_all_iff\<close>)
  then have "rows_steps automatic (gdb_view (gw_store w)) (gdb_view (gw_store (goal_history gdb_ops rqs w)))" by (simp add: gl_moves_def)
  from rows_steps_row [OF this assms(2)] show ?thesis using blocked_stays assms(3) by blast
qed

theorem blocked_needs_operator_witness:
  "\<exists>r'. gdb_view (gw_store (goal_history gdb_ops [(wit_gdeps, ReqGoalCycle [wit_goal]), (wit_gdeps, ReqGoalReplan)]
       (wit_gworld [wit_row ''a'' SubgoalBlocked]))) ''a'' = Some r' \<and> sg_Status r' = SubgoalBlocked"
  by (rule blocked_needs_operator [of _ _ "wit_row ''a'' SubgoalBlocked"])
    (simp_all add: wit_gworld_def gdb_good_def gdb_view_def wit_row_def)

text \<open>
  A planning cycle keeps at most twelve subgoals active, or no more than were active before, whatever
  fails on the way and wherever the cycle breaks off.
\<close>

theorem cycle_bounds_active:
  assumes "gdb_good (gw_store w)" and "run_state (goal_RunCycle gdb_ops d goals) w = (r, w')"
  shows "card (actives (gdb_view (gw_store w'))) \<le> max MaxActiveSubgoals (card (actives (gdb_view (gw_store w))))"
  using wp_run [OF gdb_store.goal_RunCycle_bound [OF assms(1)] assms(2)] by blast

theorem cycle_bounds_active_witness:
  "card (actives (gdb_view (gw_store (snd (run_state (goal_RunCycle gdb_ops wit_gdeps [wit_goal]) (wit_gworld [wit_row ''a'' SubgoalActive]))))))
   \<le> max MaxActiveSubgoals (card (actives (gdb_view (gw_store (wit_gworld [wit_row ''a'' SubgoalActive])))))"
  by (rule cycle_bounds_active [OF _ prod.collapse [symmetric]]) (simp add: wit_gworld_def gdb_good_def)

text \<open>
  What is emitted. One planning of tasks makes at most ten calls of the emitter, no two for one subgoal;
  each is for a stored subgoal that is active, not yet complete and past its cooldown, names its goal and
  preferred action, and carries an urgency, a value and a risk between 0 and 1, whatever the objective,
  the vector and the strategy adjustments are, as long as the stored priorities and progress are.
\<close>

theorem emissions_are_bounded:
  assumes "gdb_good (gw_store w)" and "list_all sg_ok (db_subgoals (gw_store w))" and "gl_emitter d = Some (recorder fails)"
    and "run_state (PlanAndEmitTasks gdb_ops d) w = (r, w')"
  shows "\<exists>now calls. gw_out w' = gw_out w @ calls \<and> length calls \<le> MaxTasksPerPlan \<and> distinct (map fst calls) \<and>
    list_all (call_ok (gdb_view (gw_store w)) now) calls"
proof -
  have "\<forall>r \<in> ran (gdb_view (gw_store w)). sg_ok r"
    using assms(2) by (auto simp: ran_def gdb_view_def list_all_iff dest: row_of_SomeD)
  from wp_run [OF gdb_store.PlanAndEmitTasks_calls [OF assms(1) this assms(3)] assms(4)] show ?thesis .
qed

theorem emissions_are_bounded_witness:
  "\<exists>now calls. gw_out (snd (run_state (PlanAndEmitTasks gdb_ops wit_gdeps) (wit_gworld [wit_row ''a'' SubgoalActive]))) = [] @ calls \<and>
     length calls \<le> MaxTasksPerPlan \<and> distinct (map fst calls) \<and> list_all (call_ok (gdb_view (gw_store (wit_gworld [wit_row ''a'' SubgoalActive]))) now) calls"
  using emissions_are_bounded [of "wit_gworld [wit_row ''a'' SubgoalActive]" wit_gdeps "\<lambda>_. None", OF _ _ _ prod.collapse [symmetric]]
  by (simp add: wit_gworld_def gdb_good_def wit_row_def zero_subgoal_def sg_ok_def fin_in_def wit_gdeps_def)

text \<open>
  A replanner without providers is idle. Wired as the gateway wires it, without an objective, without
  execution feedback and without reflection signals, a replanning cycle over subgoals whose counters are
  0 replans nothing and leaves every subgoal and plan as it was; only replanning writes the counters.
\<close>

theorem unwired_replanner_is_idle:
  assumes "gl_replanner d = Some \<lparr>rp_planStore = ps, rp_objective = None, rp_execFeedback = None, rp_reflection = None\<rparr>"
    and "list_all (\<lambda>sg. sg_FailureCount sg = 0 \<and> sg_SuccessCount sg = 0) (db_subgoals (gw_store w))"
    and "run_state (RunReplanCycle gdb_ops d) w = ((n, e), w')"
  shows "n = 0 \<and> db_subgoals (gw_store w') = db_subgoals (gw_store w) \<and> db_plans (gw_store w') = db_plans (gw_store w)"
proof -
  obtain xs e0 s where l: "gdb_ListAll (gw_store w) = ((xs, e0), s)" by (metis surj_pair)
  have s: "db_subgoals s = db_subgoals (gw_store w)" "db_plans s = db_plans (gw_store w)" "set xs \<subseteq> set (db_subgoals (gw_store w))"
    using l by (auto simp: gdb_ListAll_def gdb_listWhere_def gdb_rows_def gdb_next_def Let_def split: list.splits fault.splits dest: in_set_takeD)
  then have "list_all (\<lambda>sg. sg_FailureCount sg = 0 \<and> sg_SuccessCount sg = 0) xs" using assms(2) by (auto simp: list_all_iff)
  then have "wp (RunReplanCycle gdb_ops d) (\<lambda>(n, e) w'. n = 0 \<and> gw_store w' = s) w"
    by (simp add: RunReplanCycle_def assms(1) replanner_RunReplanCycle_def wp_rules gdb_ops_def l objective_delta_def gl_provider_def
        replan_all_idle gl_auditEvent_def split: option.splits)
  from wp_run [OF this assms(3)] show ?thesis using s by simp
qed

theorem unwired_replanner_is_idle_witness:
  "db_subgoals (gw_store (snd (run_state (RunReplanCycle gdb_ops wit_gdeps) (wit_gworld [wit_row ''a'' SubgoalActive]))))
   = [wit_row ''a'' SubgoalActive]"
proof -
  obtain n e w' where r: "run_state (RunReplanCycle gdb_ops wit_gdeps) (wit_gworld [wit_row ''a'' SubgoalActive]) = ((n, e), w')"
    by (metis surj_pair)
  show ?thesis using unwired_replanner_is_idle [OF _ _ r, of True]
    by (simp add: r) (simp add: wit_gdeps_def wit_gworld_def wit_row_def zero_subgoal_def)
qed

end
