(* ===== verification/Wiring.thy ===== *)
theory Wiring
  imports Task_Orch Exec_Loop External Goal_Engine
begin

text \<open>
  How \<open>src/cmd/api-gateway/main.go\<close> connects the engines: goal planning creates tasks of the
  task orchestrator, which runs its tasks through the execution loop, whose steps are external actions. The bridges are the code between the
  components; what another request does to the state of a component between two calls of a bridge is
  a function of the number of the call, over which every theorem quantifies.
\<close>

section \<open>From a step to an external action\<close>

definition CreateAndExecute ::
  "ext_deps option \<Rightarrow> string \<Rightarrow> string \<Rightarrow> string \<Rightarrow> (ext_world, executor_result) state"
where
  "CreateAndExecute ea actionType payload opportunityID =
     (case ea of
        None \<Rightarrow> State_Monad.return (failed_step ''external actions not available'')
      | Some deps \<Rightarrow> do {
          r \<leftarrow> CreateAction deps (new_ext_action actionType payload opportunityID);
          case r of
            Inl err \<Rightarrow> State_Monad.return (failed_step (ext_error_text err))
          | Inr action \<Rightarrow>
              if ea_Status action = StatusReviewRequired
              then State_Monad.return ((failed_step (''action requires review: '' @ ea_ReviewReason action))
                     \<lparr>er_RequiresReview := True, er_ActionID := ea_ID action\<rparr>)
              else do {
                (result, err) \<leftarrow> ext_Execute deps (ea_ID action);
                State_Monad.return (case err of
                    Some e \<Rightarrow> (failed_step (ext_error_text e))\<lparr>er_ActionID := ea_ID action\<rparr>
                  | None \<Rightarrow> \<lparr>er_Success = xr_Success result, er_Output = xr_ResponsePayload result,
                      er_Error = xr_ErrorMessage result, er_RequiresReview = False, er_DryRun = False, er_ActionID = ea_ID action\<rparr>)
              }
        })"

text \<open>The provider the loop calls: the tables of the external actions as the call finds them are \<open>ew n\<close>.\<close>

definition execLoopExtActBridge ::
  "ext_deps option \<Rightarrow> (nat \<Rightarrow> ext_world) \<Rightarrow> nat \<Rightarrow> string \<Rightarrow> string \<Rightarrow> string \<Rightarrow> string + executor_result"
where
  "execLoopExtActBridge ea ew n actionType payload opp =
     Inr (fst (run_state (CreateAndExecute ea actionType payload opp) (ew n)))"

section \<open>From an orchestrated task to a run of the loop\<close>

definition taskOrchExecLoopBridge ::
  "'s loop_ops \<Rightarrow> (nat \<Rightarrow> loop_deps) \<Rightarrow> (nat \<Rightarrow> 's loop_world) \<Rightarrow> nat \<Rightarrow> string \<Rightarrow> string + dispatch_outcome"
where
  "taskOrchExecLoopBridge ops ld lw n goal =
     (case fst (run_state (CreateAndRun ops (ld n) goal) (lw n)) of
        Inl err \<Rightarrow> Inl err
      | Inr (eid, st, err) \<Rightarrow> Inr \<lparr>do_ExecutionID = eid, do_TerminalStatus = st, do_Error = err\<rparr>)"

section \<open>What the orchestrator makes of the replies\<close>

text \<open>A dispatch cycle stores a task as completed only if the execution loop reported completion.\<close>

definition completed :: "store_abs \<Rightarrow> string set" where "completed a = with_status TaskStatusCompleted a"

definition never_completes :: "(nat \<Rightarrow> string \<Rightarrow> string + dispatch_outcome) \<Rightarrow> bool" where
  "never_completes el \<longleftrightarrow> (\<forall>n g out. el n g = Inr out \<longrightarrow> do_TerminalStatus out \<noteq> ''completed'')"

lemma completed_upd: "ot_Status t \<noteq> TaskStatusCompleted \<Longrightarrow> ab_tasks a' = (ab_tasks a)(i \<mapsto> t) \<Longrightarrow> completed a' \<subseteq> completed a"
  by (auto simp: completed_def with_status_def split: if_splits)

lemma completed_same: "ab_tasks a' = ab_tasks a \<Longrightarrow> completed a' = completed a"
  by (simp add: completed_def with_status_def)

context task_store
begin

lemma save_unqueue_completed:
  assumes "good (ow_store w)" and "ab_tasks (view (ow_store w)) (ot_ID t) = Some u" and "same_origin t u"
    and "ot_Status t \<noteq> TaskStatusCompleted"
  shows "completed (view (ow_store (save_unqueue ops t w))) \<subseteq> completed (view (ow_store w))"
  using save_unqueue_spec(4) [OF assms(1-3) refl refl refl] completed_upd [OF assms(4)] completed_same by blast

lemma apply_outcome_completed:
  assumes "good (ow_store w)" and "ab_tasks (view (ow_store w)) (ot_ID t) = Some u" and "same_origin t u"
    and "do_TerminalStatus out \<noteq> ''completed''"
  shows "completed (view (ow_store (applyExecutionOutcome ops deps t out now w))) \<subseteq> completed (view (ow_store w))"
proof (cases "outcome_task t out now")
  case (Some p)
  obtain t' ev where p: "p = (t', ev)" by fastforce
  have t': "ot_ID t' = ot_ID t" "same_origin t' t" using outcome_task_same [of t out now t' ev] Some p by simp_all
  then have "same_origin t' u" using assms(3) by (simp add: same_origin_def)
  moreover have "ot_Status t' \<noteq> TaskStatusCompleted"
    using Some p assms(4) by (auto simp: outcome_task_def Let_def split: if_splits)
  ultimately show ?thesis using save_unqueue_completed [OF assms(1)] assms(2) t'(1) Some p
    by (simp add: applyExecutionOutcome_def)
qed (simp add: applyExecutionOutcome_def)

lemma run_task_completed:
  assumes "good (ow_store w)" and t: "ab_tasks (view (ow_store w)) (ot_ID t) = Some t" and "never_completes el"
    and run: "run_task ops deps el now t (w, res, n) = (w', res', n')"
  shows "completed (view (ow_store w')) \<subseteq> completed (view (ow_store w))"
proof (cases "el (length (ow_runs w)) (ot_Goal t)")
  case (Inl err)
  let ?t = "t\<lparr>ot_Status := TaskStatusFailed, ot_LastError := err, ot_AttemptCount := ot_AttemptCount t + 1,
    ot_CompletedAt := Some now, ot_UpdatedAt := now\<rparr>" and ?w = "w\<lparr>ow_runs := ow_runs w @ [ot_Goal t]\<rparr>"
  have "completed (view (ow_store (save_unqueue ops ?t ?w))) \<subseteq> completed (view (ow_store ?w))"
    by (rule save_unqueue_completed) (use assms(1) t in \<open>simp_all add: same_origin_def\<close>)
  then show ?thesis using run Inl by (auto simp: run_task_def Let_def)
next
  case (Inr out)
  let ?t = "t\<lparr>ot_Status := TaskStatusRunning, ot_ExecutionTaskID := do_ExecutionID out,
    ot_AttemptCount := ot_AttemptCount t + 1, ot_UpdatedAt := now\<rparr>" and ?w = "w\<lparr>ow_runs := ow_runs w @ [ot_Goal t]\<rparr>"
  let ?w1 = "auditEvent deps (TaskEvent ''task.dispatched'' (ot_ID ?t)) (save_unqueue ops ?t ?w)"
  have u: "good (ow_store ?w)" "ab_tasks (view (ow_store ?w)) (ot_ID ?t) = Some t" "same_origin ?t t"
    using assms(1) t by (simp_all add: same_origin_def)
  note s = save_unqueue_spec [OF u refl refl refl]
  have "ab_tasks (view (ow_store ?w1)) (ot_ID ?t) = Some t \<or> ab_tasks (view (ow_store ?w1)) (ot_ID ?t) = Some ?t"
    using s(4) u(2) by auto
  then obtain v where v: "ab_tasks (view (ow_store ?w1)) (ot_ID ?t) = Some v" "same_origin ?t v"
    using u(3) same_origin_refl by blast
  have "good (ow_store ?w1)" using s(1) by simp
  then have "completed (view (ow_store (applyExecutionOutcome ops deps ?t out now ?w1))) \<subseteq> completed (view (ow_store ?w1))"
    by (rule apply_outcome_completed [OF _ v]) (use assms(3) Inr in \<open>auto simp: never_completes_def\<close>)
  moreover have "completed (view (ow_store ?w1)) \<subseteq> completed (view (ow_store ?w))"
    using save_unqueue_completed [OF u] by simp
  ultimately show ?thesis using run Inr by (auto simp: run_task_def Let_def)
qed

lemma dispatch_entry_completed:
  assumes "good (ow_store w)" and "\<And>el. od_executionLoop deps = Some el \<Longrightarrow> never_completes el"
    and "dispatch_entry ops deps mode now e (w, res, n) = (w', res', n')"
  shows "completed (view (ow_store w')) \<subseteq> completed (view (ow_store w))"
proof -
  obtain r w1 where g: "on_store (t_Get ops (qe_TaskID e)) w = (r, w1)" by fastforce
  note G = get_law [OF assms(1) on_storeD [OF g, THEN conjunct1]]
  then have G: "good (ow_store w1)" "view (ow_store w1) = view (ow_store w)" by blast+
  have rem: "completed (view (ow_store (snd (on_store (q_Remove ops i) w1)))) \<subseteq> completed (view (ow_store w))" for i
  proof -
    obtain f w2 where d: "on_store (q_Remove ops i) w1 = (f, w2)" by fastforce
    have "ab_tasks (view (ow_store w2)) = ab_tasks (view (ow_store w1))"
      using remove_law [OF G(1) on_storeD [OF d, THEN conjunct1]] by (auto simp: wrote_def)
    then show ?thesis using d G(2) completed_same by (metis order_refl snd_conv)
  qed
  show ?thesis
  proof (cases r)
    case (Inl err)
    then show ?thesis using assms(3) g rem by (auto simp: dispatch_entry_def)
  next
    case (Inr t)
    then have t: "ab_tasks (view (ow_store w)) (ot_ID t) = Some t"
      using get_law [OF assms(1) on_storeD [OF g, THEN conjunct1]] good_id [OF assms(1)] by metis
    then have t1: "ab_tasks (view (ow_store w1)) (ot_ID t) = Some t" using G(2) by simp
    have pause: "completed (view (ow_store (pause_for ops deps now t w1))) \<subseteq> completed (view (ow_store w))"
      using save_unqueue_completed [OF G(1), of "t\<lparr>ot_Status := TaskStatusPaused, ot_UpdatedAt := now\<rparr>" t] t1 G(2)
      by (simp add: pause_for_def same_origin_def)
    have run: "completed (view (ow_store w')) \<subseteq> completed (view (ow_store w))"
      if "od_executionLoop deps = Some el" "run_task ops deps el now t (w1, res, n) = (w', res', n')" for el
      using run_task_completed [OF G(1) t1 assms(2) [OF that(1)] that(2)] G(2) by simp
    show ?thesis using assms(3) [unfolded dispatch_entry_def prod.case g Inr sum.case] rem pause run G(2)
      by (auto split: if_splits option.splits)
  qed
qed

lemma dispatch_loop_completed:
  assumes "\<And>el. od_executionLoop deps = Some el \<Longrightarrow> never_completes el" and "good (ow_store w)"
    and "dispatch_loop ops deps mode now m es (w, res, n) = (w', res', n')"
  shows "completed (view (ow_store w')) \<subseteq> completed (view (ow_store w))"
  using assms(2,3)
proof (induction es arbitrary: w res n)
  case (Cons e es)
  obtain w1 res1 n1 where e: "dispatch_entry ops deps mode now e (w, res, n) = (w1, res1, n1)" by (metis prod_cases3)
  have "good (ow_store w1)" using dispatch_entry_effect [OF Cons.prems(1) e] by blast
  from Cons.IH [OF this] dispatch_entry_completed [OF Cons.prems(1) assms(1) e] show ?case
    using Cons.prems(2) e by (fastforce split: if_splits)
qed simp

lemma Dispatch_completed:
  assumes "\<And>el. od_executionLoop deps = Some el \<Longrightarrow> never_completes el" and "good (ow_store w)"
    and "Dispatch ops deps now w = ((res, e), w')"
  shows "completed (view (ow_store w')) \<subseteq> completed (view (ow_store w))"
  using assms(2,3)
proof (cases rule: Dispatch_cases)
  case (cycle w1 es n)
  then show ?thesis using dispatch_loop_completed [OF assms(1) cycle(4,9)] by simp
qed simp

end

section \<open>The wired system\<close>

lemma external_action_invalid: "\<not> IsValidActionType ''external_action''"
  by (simp add: IsValidActionType_def)

text \<open>The only tool the planner uses is rejected before anything is stored or executed.\<close>

lemma planner_tool_rejected:
  "run_state (CreateAndExecute (Some deps) ''external_action'' p opp) w =
     (failed_step ''invalid action type: external_action'', w)"
  by (simp add: CreateAndExecute_def CreateAction_def new_ext_action_def external_action_invalid)

lemma bridge_hopeless:
  assumes "ld_extActions deps = Some (execLoopExtActBridge ea ew)"
  shows "hopeless deps"
proof -
  have "\<not> er_Success (fst (run_state (CreateAndExecute ea ''external_action'' p opp) w))" for p opp w
  proof (cases ea)
    case None
    then show ?thesis by (simp add: CreateAndExecute_def failed_step_def)
  qed (simp add: planner_tool_rejected failed_step_def)
  then show ?thesis using assms by (auto simp: hopeless_def execLoopExtActBridge_def)
qed

lemma bridge_never_completes:
  assumes "\<And>n. ld_extActions (ld n) = Some (execLoopExtActBridge (ea n) (ew n))" and "\<And>n. xdb_good (lw_store (lw n))"
    and "\<And>n. row_of xt_ID (xd_tasks (lw_store (lw n))) (ld_uuid (ld n) (Suc (lw_tick (lw n)))) = None"
  shows "never_completes (taskOrchExecLoopBridge (xdb_ops jb) ld lw)"
  unfolding never_completes_def
proof (intro allI impI)
  fix n goal out assume o: "taskOrchExecLoopBridge (xdb_ops jb) ld lw n goal = Inr out"
  have "wp (CreateAndRun (xdb_ops jb) (ld n) goal) (\<lambda>r _. \<forall>i st err. r = Inr (i, st, err) \<longrightarrow> st \<noteq> LoopCompleted) (lw n)"
    by (rule xdb_store.CreateAndRun_unfinished [OF bridge_hopeless [OF assms(1)] assms(2)])
      (use assms(3) in \<open>simp add: xdb_view_def\<close>)
  from wp_fst [OF this] show "do_TerminalStatus out \<noteq> ''completed''"
    using o by (auto simp: taskOrchExecLoopBridge_def split: sum.splits)
qed

text \<open>A run whose first status update fails: the task exists, the run never started.\<close>

lemma unstarted_run:
  assumes "xd_faults (lw_store w) = NoFault # NoFault # FaultBefore # fs" and "uid = ld_uuid deps (Suc (lw_tick w))"
    and "row_of xt_ID (xd_tasks (lw_store w)) uid = None"
  shows "fst (run_state (CreateAndRun (xdb_ops jb) deps goal) w) =
    Inr (uid, LoopRunning, ''transition to running: update execution task: '' @ xd_error (lw_store w))"
  using assms
  by (simp add: CreateAndRun_def loop_CreateTask_def nowUTC_def newUUID_def tick_def stored_def xdb_ops_def xdb_Insert_def xdb_exec_def
    xdb_next_def loop_new_task_def plan_marshals_def stored_plan_def task_int4_def int4_def Let_def RunLoop_def xdb_Get_def loop_auditEvent_def
    row_of_append start_task_def ValidateTaskTransition_def loop_transitions_def xdb_Update_def MaxIterations_def xdb_fail_def)

lemma unstarted_dispatch:
  assumes w: "ow_store w = single t [q]" and q: "qe_TaskID q = ot_ID t" and t: "int4 (ot_AttemptCount t + 1)"
    and f: "f (length (ow_runs w)) (ot_Goal t) = Inr out" "do_TerminalStatus out = ''running''"
  shows "ow_store (fst (run_task pg_ops deps f now t (w, res, n))) =
    single (t\<lparr>ot_Status := TaskStatusRunning, ot_ExecutionTaskID := do_ExecutionID out,
      ot_AttemptCount := ot_AttemptCount t + 1, ot_UpdatedAt := now\<rparr>) []"
proof -
  let ?t = "t\<lparr>ot_Status := TaskStatusRunning, ot_ExecutionTaskID := do_ExecutionID out,
    ot_AttemptCount := ot_AttemptCount t + 1, ot_UpdatedAt := now\<rparr>"
  have "pg_Update ?t (single t [q]) = (None, single ?t [q])" by (rule single_ops) (simp_all add: same_origin_def t)
  moreover have "pg_Remove (ot_ID t) (single ?t [q]) = (None, single ?t [])" by (simp add: single_ops q)
  ultimately show ?thesis using w f
    by (simp add: run_task_def save_unqueue_def on_store_def pg_ops_sel applyExecutionOutcome_def outcome_task_def)
qed

section \<open>Properties\<close>

text \<open>
  C19: With the collaborators wired as the program wires them, no dispatched task is ever completed. The
  planner of the execution loop gives every step the tool \<open>external_action\<close>, which is not an
  action type that external actions accept, so every step fails. Whichever connectors are registered,
  whatever the governance mode and the other collaborators say and whichever database calls fail, a
  dispatch cycle adds nothing to the set of completed tasks.
\<close>

theorem dispatched_tasks_never_complete:
  assumes "pg_good (ow_store w)" and "od_executionLoop deps = Some (taskOrchExecLoopBridge (xdb_ops jb) ld lw)"
    and "\<forall>n. ld_extActions (ld n) = Some (execLoopExtActBridge (ea n) (ew n))"
    and "\<forall>n. xdb_good (lw_store (lw n)) \<and>
      row_of xt_ID (xd_tasks (lw_store (lw n))) (ld_uuid (ld n) (Suc (lw_tick (lw n)))) = None"
  shows "completed (pg_abs (ow_store (snd (Dispatch pg_ops deps now w)))) \<subseteq> completed (pg_abs (ow_store w))"
proof -
  have "never_completes (taskOrchExecLoopBridge (xdb_ops jb) ld lw)"
    by (rule bridge_never_completes [of ld ea ew lw jb]) (use assms(3,4) in auto)
  then have "never_completes el" if "od_executionLoop deps = Some el" for el using that assms(2) by simp
  from pg_store.Dispatch_completed [OF this assms(1)] show ?thesis by (metis prod.collapse)
qed

definition wit_wired :: "fault list \<Rightarrow> orch_deps" where
  "wit_wired fs = (wit_deps '''')\<lparr>od_executionLoop := Some (taskOrchExecLoopBridge (xdb_ops Some)
     (\<lambda>n. wit_ldeps (execLoopExtActBridge (Some wit_edeps) (\<lambda>_. wit_eworld [] []))) (\<lambda>n. wit_lworld [] fs))\<rparr>"

theorem dispatched_tasks_never_complete_witness:
  "completed (pg_abs (ow_store (snd (Dispatch pg_ops (wit_wired []) 3
     (wit_world [wit_otask ''b'' TaskStatusQueued] [wit_entry ''b'' (1 / 2)] []))))) = {}"
proof -
  let ?w = "wit_world [wit_otask ''b'' TaskStatusQueued] [wit_entry ''b'' (1 / 2)] []"
  have "completed (pg_abs (ow_store (snd (Dispatch pg_ops (wit_wired []) 3 ?w)))) \<subseteq> completed (pg_abs (ow_store ?w))"
    by (rule dispatched_tasks_never_complete [where jb = Some and lw = "\<lambda>n. wit_lworld [] []" and
        ld = "\<lambda>n. wit_ldeps (execLoopExtActBridge (Some wit_edeps) (\<lambda>_. wit_eworld [] []))" and ea = "\<lambda>_. Some wit_edeps"
        and ew = "\<lambda>_ _. wit_eworld [] []"])
      (simp_all add: pg_good_def wit_defs wit_wired_def wit_lworld_def xdb_good_def wit_ldeps_def)
  also have "\<dots> = {}" by (auto simp: completed_def with_status_def pg_abs_def wit_defs)
  finally show ?thesis by simp
qed

text \<open>
  A run that could not start holds its slot. When the update that marks the execution task as running
  fails, the loop reports the error together with the status it failed to store, and the orchestrator
  takes that status for a run in progress: the waiting task becomes running, leaves the queue, and
  counts against the running limit, although its execution task is still pending.
\<close>

theorem unstarted_run_holds_slot:
  assumes "ow_store w = \<lparr>pg_tasks = [to_row t], pg_queue = [q], pg_faults = []\<rparr>" and "qe_TaskID q = ot_ID t"
    and "eligible (getGovernanceMode deps) t" and "getGovernanceMode deps \<noteq> ''frozen''" and "int4 (ot_AttemptCount t + 1)"
    and "od_executionLoop deps = Some (taskOrchExecLoopBridge (xdb_ops jb) ld lw)" and "n = length (ow_runs w)"
    and "xd_faults (lw_store (lw n)) = NoFault # NoFault # FaultBefore # fs"
    and "row_of xt_ID (xd_tasks (lw_store (lw n))) (ld_uuid (ld n) (Suc (lw_tick (lw n)))) = None"
  shows "status_of (pg_abs (ow_store (snd (Dispatch pg_ops deps now w)))) (ot_ID t) = Some TaskStatusRunning \<and>
    pg_queue (ow_store (snd (Dispatch pg_ops deps now w))) = []"
proof -
  let ?f = "taskOrchExecLoopBridge (xdb_ops jb) ld lw"
  obtain out where out: "?f (length (ow_runs w)) (ot_Goal t) = Inr out" "do_TerminalStatus out = ''running''"
    using unstarted_run [OF assms(8) refl assms(9), of jb "ot_Goal t"] assms(7) by (simp add: taskOrchExecLoopBridge_def)
  note s = unstarted_dispatch [where deps = deps and f = ?f, OF assms(1,2,5) out, of now no_result 0]
  show ?thesis unfolding dispatch_single_run [OF assms(1-4,6)] s
    by (simp add: status_of_def pg_abs_def to_row_def)
qed

theorem unstarted_run_holds_slot_witness:
  "status_of (pg_abs (ow_store (snd (Dispatch pg_ops (wit_wired [NoFault, NoFault, FaultBefore]) 3
     (wit_world [wit_otask ''b'' TaskStatusQueued] [wit_entry ''b'' (1 / 2)] []))))) ''b'' = Some TaskStatusRunning"
proof -
  let ?w = "wit_world [wit_otask ''b'' TaskStatusQueued] [wit_entry ''b'' (1 / 2)] []" and ?d = "wit_wired [NoFault, NoFault, FaultBefore]"
  have "status_of (pg_abs (ow_store (snd (Dispatch pg_ops ?d 3 ?w)))) (ot_ID (wit_otask ''b'' TaskStatusQueued)) = Some TaskStatusRunning \<and>
    pg_queue (ow_store (snd (Dispatch pg_ops ?d 3 ?w))) = []"
    by (rule unstarted_run_holds_slot [where jb = Some and q = "wit_entry ''b'' (1 / 2)" and lw = "\<lambda>n. wit_lworld [] [NoFault, NoFault, FaultBefore]" and
        ld = "\<lambda>n. wit_ldeps (execLoopExtActBridge (Some wit_edeps) (\<lambda>_. wit_eworld [] []))" and fs = "[]"])
      (simp_all add: wit_defs wit_wired_def wit_lworld_def wit_ldeps_def eligible_def getGovernanceMode_def int4_def)
  then show ?thesis by (simp add: wit_defs)
qed

section \<open>From an emission to an orchestrated task\<close>

text \<open>The text of an error is only logged; the state counts the calls, which read the clock and draw an id.\<close>

definition goalPlanEmitterBridge ::
  "('s store_ops \<times> orch_deps) option \<Rightarrow> (nat \<Rightarrow> time) \<Rightarrow> (nat \<Rightarrow> string) \<Rightarrow> (orch_error \<Rightarrow> string) \<Rightarrow> ('s orch_world \<times> nat) emitter"
where
  "goalPlanEmitterBridge ta clock uuid text subgoalID goalID actionType urgency expectedValue riskLevel strategyType = (\<lambda>(w, n).
     case ta of
       None \<Rightarrow> (None, (w, n))
     | Some (ops, deps) \<Rightarrow>
         (case CreateTask ops deps (clock n) (uuid n) (''goal_planning:'' @ subgoalID) (actionType @ '' (goal:'' @ goalID @ '')'')
                 urgency expectedValue riskLevel strategyType w of
            (Inl e, w) \<Rightarrow> (Some (text e), (w, Suc n))
          | (Inr _, w) \<Rightarrow> (None, (w, Suc n))))"

lemma clamp01_id: "fin_in 0 1 x \<Longrightarrow> clamp01 x = x"
  by (auto simp: fin_in_def clamp01_def)

lemma thousandth: "fin_in 0 1 v \<Longrightarrow> fle (clamp01 (fdiv v (f64 1000))) (f64 (1 / 1000))"
proof -
  assume "fin_in 0 1 v"
  then obtain x where x: "v = Fin x" "0 \<le> x" "x \<le> 1" by (auto simp: fin_in_def)
  obtain y where y: "rnd (x / 1000) = Fin y" "0 \<le> y" "y \<le> 1" using rnd_unit [of "x / 1000"] x by auto
  have "fle (rnd (x / 1000)) (rnd (1 / 1000))" using x by (intro rnd_mono) simp
  then show ?thesis using y by (simp add: x const_exact clamp01_def)
qed

text \<open>
  An emission becomes a task whose value counts for nothing. Where the bridge reports success for a
  call the planner makes, the task table holds a pending task with the source of the subgoal and its
  urgency and risk, and since the emitted value is at most 1 while scoring divides values by 1000, its
  value score is at most 0.001.
\<close>

theorem emitted_value_is_negligible:
  assumes "pg_good (ow_store w)" and "ab_tasks (pg_abs (ow_store w)) (uuid n) = None" and "call_ok rows now (i, g, a, u, v, rk, s)"
    and "goalPlanEmitterBridge (Some (pg_ops, deps)) clock uuid text i g a u v rk s (w, n) = (None, (w', n'))"
  shows "\<exists>t. ab_tasks (pg_abs (ow_store w')) (uuid n) = Some t \<and> ot_Status t = TaskStatusPending \<and>
    ot_Source t = ''goal_planning:'' @ i \<and> ot_Urgency t = u \<and> ot_RiskLevel t = rk \<and>
    fle (clamp01 (fdiv (ot_ExpectedValue t) (f64 1000))) (f64 (1 / 1000))"
proof -
  let ?t = "new_task (clock n) (uuid n) (''goal_planning:'' @ i) (a @ '' (goal:'' @ g @ '')'') u v rk s"
  have ok: "fin_in 0 1 u" "fin_in 0 1 v" "fin_in 0 1 rk" using assms(3) by (auto simp: call_ok_def)
  have tid: "ot_ID ?t = uuid n" by (simp add: new_task_def)
  obtain e s' where ins: "pg_Insert ?t (ow_store w) = (e, s')" by fastforce
  have e: "e = None" "ow_store w' = s'" using assms(4) ins
    by (auto simp: goalPlanEmitterBridge_def CreateTask_def on_store_def pg_ops_def auditEvent_def Let_def split: option.splits if_splits)
  have "ab_tasks (pg_abs s') (uuid n) = Some ?t"
    using pg_insert_law [OF assms(1) _ ins] assms(2) e(1) tid by (simp add: wrote_def)
  then show ?thesis using e ok thousandth [OF ok(2)] by (simp add: new_task_def clamp01_id)
qed

theorem emitted_value_is_negligible_witness:
  "\<exists>w' t. goalPlanEmitterBridge (Some (pg_ops, wit_deps ''completed'')) (\<lambda>_. 5) (\<lambda>_. ''t'') (\<lambda>_. '''') ''a'' ''g'' '''' (Fin 1) (Fin 1) (Fin 0) ''''
       (wit_world [] [] [], 0) = (None, (w', 1)) \<and> ab_tasks (pg_abs (ow_store w')) ''t'' = Some t \<and>
     fle (clamp01 (fdiv (ot_ExpectedValue t) (f64 1000))) (f64 (1 / 1000))"
proof -
  obtain e w' n' where b: "goalPlanEmitterBridge (Some (pg_ops, wit_deps ''completed'')) (\<lambda>_. 5) (\<lambda>_. ''t'') (\<lambda>_. '''') ''a'' ''g'' '''' (Fin 1) (Fin 1) (Fin 0) ''''
       (wit_world [] [] [], 0) = (e, (w', n'))" by (metis surj_pair)
  then have e: "e = None" "n' = 1"
    by (auto simp: goalPlanEmitterBridge_def CreateTask_def on_store_def pg_ops_def pg_Insert_def pg_exec_def pg_next_def new_task_def
        int4_def wit_defs Let_def split: option.splits if_splits)
  have "call_ok (\<lambda>_. Some (wit_row ''a'' SubgoalActive)) 0 (''a'', ''g'', '''', Fin 1, Fin 1, Fin 0, '''')"
    using threshold_positive by (simp add: call_ok_def wit_row_def zero_subgoal_def fin_in_def)
  from emitted_value_is_negligible [OF _ _ this b [unfolded e(1)]] show ?thesis
    using b e by (auto simp: pg_good_def pg_abs_def wit_defs)
qed

end
