(* ===== verification/Go_Stable.thy ===== *)
theory Go_Stable
  imports Go_Sort
begin

text \<open>
  \<open>sort.SliceStable\<close> of Go's library: insertion sort of blocks of twenty, then rounds of
  \<open>symMerge\<close>, which splits by a symmetric binary search and exchanges two blocks. It is written for
  any comparison, because the router compares scores up to a tolerance, which is not transitive: what
  holds for every comparison is that the result is a permutation, and for the sizes that insertion sort
  handles alone that no element is before its predecessor.
\<close>

fun sift_to :: "('r \<Rightarrow> 'r \<Rightarrow> bool) \<Rightarrow> nat \<Rightarrow> nat \<Rightarrow> 'r list \<Rightarrow> 'r list" where
  "sift_to before a 0 es = es"
| "sift_to before a (Suc j) es =
     (if a \<le> j \<and> before (es ! Suc j) (es ! j) then sift_to before a j (es[Suc j := es ! j, j := es ! Suc j]) else es)"

definition insertionSort :: "('r \<Rightarrow> 'r \<Rightarrow> bool) \<Rightarrow> nat \<Rightarrow> nat \<Rightarrow> 'r list \<Rightarrow> 'r list" where
  "insertionSort before a b es = fold (sift_to before a) [Suc a..<b] es"

function bsearch :: "(nat \<Rightarrow> bool) \<Rightarrow> nat \<Rightarrow> nat \<Rightarrow> nat" where
  "bsearch P i j = (if i < j then let h = (i + j) div 2 in if P h then bsearch P (h + 1) j else bsearch P i h else i)"
  by pat_completeness auto
termination
  by (relation "measure (\<lambda>(P, i, j). j - i)") auto

declare bsearch.simps [simp del]

definition rotate_blocks :: "nat \<Rightarrow> nat \<Rightarrow> nat \<Rightarrow> 'r list \<Rightarrow> 'r list" where
  "rotate_blocks a m b es = take a es @ take (b - m) (drop m es) @ take (m - a) (drop a es) @ drop b es"

definition sym_start :: "('r \<Rightarrow> 'r \<Rightarrow> bool) \<Rightarrow> nat \<Rightarrow> nat \<Rightarrow> nat \<Rightarrow> 'r list \<Rightarrow> nat" where
  "sym_start before a m b es =
     (let mid = (a + b) div 2; n = mid + m; (s, r) = (if mid < m then (n - b, mid) else (a, m)); p = n - 1
      in bsearch (\<lambda>c. \<not> before (es ! (p - c)) (es ! c)) s r)"

lemma right_half_shrinks: "(a + b) div 2 < e \<Longrightarrow> e < (b :: nat) \<Longrightarrow> b - (a + b) div 2 < b - a"
  by presburger

function symMerge :: "('r \<Rightarrow> 'r \<Rightarrow> bool) \<Rightarrow> nat \<Rightarrow> nat \<Rightarrow> nat \<Rightarrow> 'r list \<Rightarrow> 'r list" where
  "symMerge before a m b es =
     (if m - a = 1 then rotate_blocks a (a + 1) (bsearch (\<lambda>h. before (es ! h) (es ! a)) m b) es
      else if b - m = 1 then rotate_blocks (bsearch (\<lambda>h. \<not> before (es ! m) (es ! h)) a m) m (m + 1) es
      else
        (let mid = (a + b) div 2; start = sym_start before a m b es; end = mid + m - start;
             es = (if start < m \<and> m < end then rotate_blocks start m end es else es);
             es = (if a < start \<and> start < mid then symMerge before a start mid es else es)
         in if mid < end \<and> end < b then symMerge before mid end b es else es))"
  by pat_completeness auto
termination
  by (relation "measure (\<lambda>(before, a, m, b, es). b - a)") (auto intro: right_half_shrinks)

declare symMerge.simps [simp del]

function sort_blocks :: "('r \<Rightarrow> 'r \<Rightarrow> bool) \<Rightarrow> nat \<Rightarrow> nat \<Rightarrow> 'r list \<Rightarrow> 'r list" where
  "sort_blocks before a n es =
     (if a + 20 \<le> n then sort_blocks before (a + 20) n (insertionSort before a (a + 20) es) else insertionSort before a n es)"
  by pat_completeness auto
termination
  by (relation "measure (\<lambda>(before, a, n, es). n - a)") auto

declare sort_blocks.simps [simp del]

function merge_pass :: "('r \<Rightarrow> 'r \<Rightarrow> bool) \<Rightarrow> nat \<Rightarrow> nat \<Rightarrow> nat \<Rightarrow> 'r list \<Rightarrow> 'r list" where
  "merge_pass before blockSize a n es =
     (if 0 < blockSize \<and> a + 2 * blockSize \<le> n
      then merge_pass before blockSize (a + 2 * blockSize) n (symMerge before a (a + blockSize) (a + 2 * blockSize) es)
      else if a + blockSize < n then symMerge before a (a + blockSize) n es else es)"
  by pat_completeness auto
termination
  by (relation "measure (\<lambda>(before, blockSize, a, n, es). n - a)") auto

declare merge_pass.simps [simp del]

function merge_loop :: "('r \<Rightarrow> 'r \<Rightarrow> bool) \<Rightarrow> nat \<Rightarrow> nat \<Rightarrow> 'r list \<Rightarrow> 'r list" where
  "merge_loop before blockSize n es =
     (if 0 < blockSize \<and> blockSize < n then merge_loop before (2 * blockSize) n (merge_pass before blockSize 0 n es) else es)"
  by pat_completeness auto
termination
  by (relation "measure (\<lambda>(before, blockSize, n, es). n - blockSize)") auto

declare merge_loop.simps [simp del]

definition SliceStable :: "('r \<Rightarrow> 'r \<Rightarrow> bool) \<Rightarrow> 'r list \<Rightarrow> 'r list" where
  "SliceStable before es = merge_loop before 20 (length es) (sort_blocks before 0 (length es) es)"

section \<open>The result is a permutation\<close>

lemma mset_sift_to: "j < length es \<Longrightarrow> mset (sift_to before a j es) = mset es"
  by (induction before a j es rule: sift_to.induct) (auto simp: mset_swap)

lemma mset_insertionSort: "b \<le> length es \<Longrightarrow> mset (insertionSort before a b es) = mset es"
proof -
  have "mset (fold (sift_to before a) is es) = mset es" if "\<forall>i \<in> set is. i < length es" for "is"
    using that
  proof (induction "is" arbitrary: es)
    case (Cons i "is")
    then have "mset (sift_to before a i es) = mset es" using mset_sift_to [of i es before a] by simp
    moreover from this have "length (sift_to before a i es) = length es" by (rule mset_eq_length)
    ultimately show ?case using Cons by simp
  qed simp
  then show "b \<le> length es \<Longrightarrow> ?thesis" by (simp add: insertionSort_def)
qed

lemma bsearch_ge: "i \<le> bsearch P i j"
  by (induction P i j rule: bsearch.induct) (subst bsearch.simps, auto simp: Let_def)

lemma bsearch_le: "i \<le> j \<Longrightarrow> bsearch P i j \<le> j"
proof (induction P i j rule: bsearch.induct)
  case (1 P i j)
  have "i < j \<Longrightarrow> i \<le> (i + j) div 2 \<and> (i + j) div 2 + 1 \<le> j" by linarith
  then show ?case using 1(1,2) [OF _ refl] 1(3) by (subst bsearch.simps) (fastforce simp: Let_def)
qed

lemma mset_rotate_blocks: "a \<le> m \<Longrightarrow> m \<le> b \<Longrightarrow> mset (rotate_blocks a m b es) = mset es"
proof -
  assume "a \<le> m" "m \<le> b"
  then have "es = take a es @ take (m - a) (drop a es) @ take (b - m) (drop m es) @ drop b es"
    by (metis append_take_drop_id drop_drop le_add_diff_inverse2)
  then have "mset es = mset (take a es @ take (m - a) (drop a es) @ take (b - m) (drop m es) @ drop b es)" by metis
  then show ?thesis by (simp add: rotate_blocks_def ac_simps)
qed

lemma mset_symMerge: "a \<le> m \<Longrightarrow> mset (symMerge before a m b es) = mset es"
proof (induction before a m b es rule: symMerge.induct)
  case (1 before a m b es)
  consider (one) "m - a = 1" | (last) "m - a \<noteq> 1" "b - m = 1" | (split) "m - a \<noteq> 1" "b - m \<noteq> 1" by blast
  then show ?case
  proof cases
    case one
    then have "a + 1 \<le> bsearch P m b" for P using bsearch_ge [of m P b] by linarith
    then show ?thesis using one by (simp add: symMerge.simps mset_rotate_blocks)
  next
    case last
    then show ?thesis using bsearch_le [OF 1(3)] by (simp add: symMerge.simps mset_rotate_blocks)
  next
    case split
    define mid start stop where p: "mid = (a + b) div 2" "start = sym_start before a m b es" "stop = mid + m - start"
    define e1 where e1: "e1 = (if start < m \<and> m < stop then rotate_blocks start m stop es else es)"
    define e2 where e2: "e2 = (if a < start \<and> start < mid then symMerge before a start mid e1 else e1)"
    have "mset e1 = mset es" by (simp add: e1 mset_rotate_blocks)
    moreover have "mset e2 = mset e1" using 1(1) [OF split p e1] by (simp add: e2)
    moreover have "mset (if mid < stop \<and> stop < b then symMerge before mid stop b e2 else e2) = mset e2"
      using 1(2) [OF split p e1 e2] by simp
    moreover have "symMerge before a m b es = (if mid < stop \<and> stop < b then symMerge before mid stop b e2 else e2)"
      using split by (subst symMerge.simps) (simp only: Let_def if_False p e1 e2)
    ultimately show ?thesis by metis
  qed
qed

lemma mset_sort_blocks: "n \<le> length es \<Longrightarrow> mset (sort_blocks before a n es) = mset es"
proof (induction before a n es rule: sort_blocks.induct)
  case (1 before a n es)
  have "length (insertionSort before a (a + 20) es) = length es" if "a + 20 \<le> n"
    using mset_eq_length [OF mset_insertionSort [of "a + 20" es before a]] that 1(2) by simp
  then show ?case using 1 by (subst sort_blocks.simps) (simp add: mset_insertionSort)
qed

lemma mset_merge_pass: "mset (merge_pass before blockSize a n es) = mset es"
  by (induction before blockSize a n es rule: merge_pass.induct) (subst merge_pass.simps, simp add: mset_symMerge)

lemma mset_merge_loop: "mset (merge_loop before blockSize n es) = mset es"
  by (induction before blockSize n es rule: merge_loop.induct) (subst merge_loop.simps, simp add: mset_merge_pass)

lemma mset_SliceStable [simp]: "mset (SliceStable before es) = mset es"
  by (simp add: SliceStable_def mset_merge_loop mset_sort_blocks)

lemma set_SliceStable [simp]: "set (SliceStable before es) = set es"
  by (metis mset_SliceStable set_mset_mset)

lemma length_SliceStable [simp]: "length (SliceStable before es) = length es"
  by (metis mset_SliceStable size_mset)

lemma distinct_SliceStable: "distinct (map f (SliceStable before es)) = distinct (map f es)"
  by (metis mset_SliceStable mset_eq_imp_distinct_iff mset_map)

section \<open>Short slices\<close>

text \<open>Up to twenty elements the algorithm is the insertion sort, here on the reversed prefix.\<close>

fun insert_rev :: "('r \<Rightarrow> 'r \<Rightarrow> bool) \<Rightarrow> 'r \<Rightarrow> 'r list \<Rightarrow> 'r list" where
  "insert_rev before x [] = [x]"
| "insert_rev before x (y # ys) = (if before x y then y # insert_rev before x ys else x # y # ys)"

lemma sift_to_insert: "sift_to before 0 (length xs) (xs @ x # ys) = rev (insert_rev before x (rev xs)) @ ys"
proof (induction xs arbitrary: x ys rule: rev_induct)
  case (snoc y xs)
  have "(xs @ y # x # ys)[Suc (length xs) := y, length xs := x] = xs @ x # y # ys" by (simp add: list_update_append)
  moreover have "(xs @ y # x # ys) ! Suc (length xs) = x" "(xs @ y # x # ys) ! length xs = y" by (simp_all add: nth_append)
  ultimately show ?case using snoc.IH [of x "y # ys"] by simp
qed simp

definition no_inversion :: "('r \<Rightarrow> 'r \<Rightarrow> bool) \<Rightarrow> 'r list \<Rightarrow> bool" where
  "no_inversion before = successively (\<lambda>a b. \<not> before b a)"

lemma insert_rev_inversion:
  assumes "\<And>a b. before a b \<Longrightarrow> \<not> before b a" and "successively (\<lambda>a b. \<not> before a b) ys"
  shows "successively (\<lambda>a b. \<not> before a b) (insert_rev before x ys)"
proof -
  have "successively (\<lambda>a b. \<not> before a b) (insert_rev before x ys) \<and> hd (insert_rev before x ys) \<in> insert x (set (take 1 ys))"
    using assms(2)
  proof (induction ys)
    case (Cons y ys)
    then show ?case using assms(1) by (cases ys) (auto simp: successively_Cons)
  qed simp
  then show ?thesis by blast
qed

text \<open>The insertion sort after its first \<open>k\<close> elements.\<close>

lemma insertionSort_prefix:
  assumes "\<And>a b. before a b \<Longrightarrow> \<not> before b a" and "k \<le> length es"
  shows "\<exists>ps. length ps = k \<and> insertionSort before 0 k es = ps @ drop k es \<and> no_inversion before ps"
  using assms(2)
proof (induction k)
  case 0
  then show ?case by (simp add: insertionSort_def no_inversion_def)
next
  case (Suc k)
  then obtain ps where ps: "length ps = k" "insertionSort before 0 k es = ps @ drop k es" "no_inversion before ps" by auto
  let ?qs = "rev (insert_rev before (es ! k) (rev ps))"
  have d: "drop k es = es ! k # drop (Suc k) es" using Suc.prems by (simp add: Cons_nth_drop_Suc)
  have "insertionSort before 0 (Suc k) es = sift_to before 0 k (ps @ es ! k # drop (Suc k) es)"
    using ps(2) d by (cases k) (simp_all add: insertionSort_def)
  then have "insertionSort before 0 (Suc k) es = ?qs @ drop (Suc k) es" using sift_to_insert [of before ps] ps(1) by simp
  moreover have "no_inversion before ?qs"
    using insert_rev_inversion [of before "rev ps", OF assms(1)] ps(3) by (simp add: no_inversion_def successively_rev)
  moreover have "length (insert_rev before x ys) = Suc (length ys)" for x ys by (induction ys) simp_all
  ultimately show ?case using ps(1) by (intro exI [of _ ?qs]) simp
qed

lemma SliceStable_short: "length es \<le> 20 \<Longrightarrow> SliceStable before es = insertionSort before 0 (length es) es"
  by (simp add: SliceStable_def merge_loop.simps sort_blocks.simps insertionSort_def)

lemma SliceStable_no_inversion:
  assumes "\<And>a b. before a b \<Longrightarrow> \<not> before b a" and "length es \<le> 20"
  shows "no_inversion before (SliceStable before es)"
  using insertionSort_prefix [of before "length es" es, OF assms(1)] by (auto simp: SliceStable_short [OF assms(2)])

end
