(* ===== verification/Quota_Routing.thy ===== *)
theory Quota_Routing
  imports Go_Stable Go_Json Go_Text Scorer Programs
begin

text \<open>
  The agent's choice of a provider by quota: \<open>types.go\<close>, \<open>quotas.go\<close>, \<open>registry.go\<close>,
  \<open>scorer.go\<close>, \<open>router.go\<close> and \<open>adapter.go\<close> of \<open>src/internal/agent/provider_routing\<close>. The
  tracker and the router are programs of the state monad; each reading of the clock, each fresh UUID,
  each answer of the database and each audit record takes the next number of a counter. Counters are
  Go's \<open>int\<close> and wrap; scores are binary64. The instant 0 is Go's zero time.
\<close>

section \<open>Data\<close>

record provider_limits =
  lim_RPM :: int
  lim_TPM :: int
  lim_RPD :: int
  lim_TPD :: int

record provider_cost =
  cst_CostClass :: string
  cst_RelativeCost :: f64

record provider_health =
  hl_Enabled :: bool
  hl_Reachable :: bool
  hl_Degraded :: bool
  hl_LastCheckedAt :: time

record route_provider =
  rtp_Name :: string
  rtp_Kind :: string
  rtp_Roles :: "string list"
  rtp_Capabilities :: "string list"
  rtp_Limits :: provider_limits
  rtp_Cost :: provider_cost
  rtp_Health :: provider_health

definition zero_provider :: route_provider where
  "zero_provider =
     \<lparr>rtp_Name = '''', rtp_Kind = '''', rtp_Roles = [], rtp_Capabilities = [],
      rtp_Limits = \<lparr>lim_RPM = 0, lim_TPM = 0, lim_RPD = 0, lim_TPD = 0\<rparr>,
      rtp_Cost = \<lparr>cst_CostClass = '''', cst_RelativeCost = Fin 0\<rparr>,
      rtp_Health = \<lparr>hl_Enabled = False, hl_Reachable = False, hl_Degraded = False, hl_LastCheckedAt = 0\<rparr>\<rparr>"

definition KindLocal :: string where "KindLocal = ''local''"
definition KindCloud :: string where "KindCloud = ''cloud''"
definition KindRouter :: string where "KindRouter = ''router''"

definition RoleFallback :: string where "RoleFallback = ''fallback''"

definition CostFree :: string where "CostFree = ''free''"
definition CostLocal :: string where "CostLocal = ''local''"
definition CostCheap :: string where "CostCheap = ''cheap''"
definition CostUnknown :: string where "CostUnknown = ''unknown''"

definition IsLocal :: "route_provider \<Rightarrow> bool" where
  "IsLocal p \<longleftrightarrow> rtp_Kind p = KindLocal"

definition IsExternal :: "route_provider \<Rightarrow> bool" where
  "IsExternal p \<longleftrightarrow> rtp_Kind p = KindCloud \<or> rtp_Kind p = KindRouter"

definition HasRole :: "route_provider \<Rightarrow> string \<Rightarrow> bool" where
  "HasRole p role \<longleftrightarrow> (\<exists>r \<in> set (rtp_Roles p). r = role)"

definition HasCapability :: "route_provider \<Rightarrow> string \<Rightarrow> bool" where
  "HasCapability p cap \<longleftrightarrow> (\<exists>c \<in> set (rtp_Capabilities p). c = cap)"

record quota_input =
  rin_GoalType :: string
  rin_TaskType :: string
  rin_PreferredRole :: string
  rin_EstimatedTokens :: int
  rin_LatencyBudgetMs :: int
  rin_ConfidenceRequired :: f64
  rin_AllowExternal :: bool
  rin_RequiredCapabilities :: "string list"

type_synonym provider_model = "string \<times> string"

definition pair_String :: "provider_model \<Rightarrow> string" where
  "pair_String pm = (if snd pm = '''' then fst pm else fst pm @ ''/'' @ snd pm)"

record execution_config =
  xc_TimeoutSeconds :: int
  xc_ThinkMode :: string
  xc_JSONMode :: bool
  xc_MaxOutputTokens :: int

definition zero_execution :: execution_config where
  "zero_execution = \<lparr>xc_TimeoutSeconds = 0, xc_ThinkMode = '''', xc_JSONMode = False, xc_MaxOutputTokens = 0\<rparr>"

record rejected_provider =
  rj_Provider :: string
  rj_Model :: string
  rj_Reason :: string

record ranked_provider =
  rk_Provider :: string
  rk_Model :: string
  rk_Score :: f64
  rk_Reason :: string

record routing_trace =
  rtr_Considered :: "string list"
  rtr_Rejected :: "rejected_provider list"
  rtr_Ranked :: "ranked_provider list"
  rtr_FinalReason :: string

record execution_plan =
  xp_Provider :: string
  xp_Model :: string
  xp_Fallbacks :: "provider_model list"
  xp_Execution :: execution_config
  xp_Score :: f64
  xp_Reason :: string
  xp_Trace :: routing_trace

definition empty_trace :: routing_trace where
  "empty_trace = \<lparr>rtr_Considered = [], rtr_Rejected = [], rtr_Ranked = [], rtr_FinalReason = ''''\<rparr>"

definition empty_plan :: execution_plan where
  "empty_plan =
     \<lparr>xp_Provider = '''', xp_Model = '''', xp_Fallbacks = [], xp_Execution = zero_execution, xp_Score = Fin 0,
      xp_Reason = '''', xp_Trace = empty_trace\<rparr>"

definition plan_IsEmpty :: "execution_plan \<Rightarrow> bool" where
  "plan_IsEmpty p \<longleftrightarrow> xp_Provider p = ''''"

definition PrimaryTarget :: "execution_plan \<Rightarrow> provider_model" where
  "PrimaryTarget p = (xp_Provider p, xp_Model p)"

definition AllTargets :: "execution_plan \<Rightarrow> provider_model list" where
  "AllTargets p = [PrimaryTarget p] @ xp_Fallbacks p"

record usage_state =
  uz_ProviderName :: string
  uz_RequestsThisMinute :: int
  uz_TokensThisMinute :: int
  uz_RequestsToday :: int
  uz_TokensToday :: int
  uz_LastUpdated :: time

record policy_config =
  pol_PreferFree :: bool
  pol_AllowExternal :: bool
  pol_MaxFallbackChain :: int
  pol_RolePreferences :: "(string \<times> string list) list"
  pol_DegradePolicy :: "string list"

record routing_record =
  rcd_ID :: string
  rcd_GoalType :: string
  rcd_TaskType :: string
  rcd_SelectedProvider :: string
  rcd_SelectedModel :: string
  rcd_Fallbacks :: "provider_model list"
  rcd_Execution :: execution_config
  rcd_Score :: f64
  rcd_Reason :: string
  rcd_CreatedAt :: time

text \<open>The payloads of the two kinds of audit record.\<close>

record decision_payload =
  dp_goal_type :: string
  dp_task_type :: string
  dp_preferred_role :: string
  dp_estimated_tokens :: int
  dp_allow_external :: bool
  dp_provider :: string
  dp_model :: string
  dp_fallback_chain :: "string list"
  dp_execution :: execution_config
  dp_score :: f64
  dp_reason :: string
  dp_rejected_providers :: "(string \<times> string) list option"

datatype route_event =
    Decision_Event string decision_payload
  | Quota_Event string string string int string

section \<open>The state, and what the code calls\<close>

record route_world =
  rw_usage :: "usage_state list"
  rw_rows :: "usage_state list"
  rw_tick :: nat
  rw_recent :: "routing_record list"
  rw_audit :: "route_event list"

record route_deps =
  rdp_clock :: "nat \<Rightarrow> time"
  rdp_newUUID :: "nat \<Rightarrow> string"
  rdp_db :: bool
  rdp_exec_ok :: "nat \<Rightarrow> bool"
  rdp_fetch :: "nat \<Rightarrow> fetch"
  rdp_auditor :: "(nat \<Rightarrow> bool) option"
  rdp_registry :: "route_provider list"
  rdp_policy :: "policy_config option"
  rdp_modelExecMap :: "(string \<times> execution_config) list option"

type_synonym 'a routing = "(route_world, 'a) state"

definition rt_tick :: "nat routing" where
  "rt_tick = State (\<lambda>w. (rw_tick w, w\<lparr>rw_tick := Suc (rw_tick w)\<rparr>))"

definition rt_now :: "route_deps \<Rightarrow> time routing" where
  "rt_now d = do { n \<leftarrow> rt_tick; State_Monad.return (rdp_clock d n) }"

definition rt_uuid :: "route_deps \<Rightarrow> string routing" where
  "rt_uuid d = do { n \<leftarrow> rt_tick; State_Monad.return (rdp_newUUID d n) }"

text \<open>A record that cannot be written is dropped.\<close>

definition rt_audit :: "route_deps \<Rightarrow> route_event \<Rightarrow> unit routing" where
  "rt_audit d ev =
     (case rdp_auditor d of
        None \<Rightarrow> State_Monad.return ()
      | Some record_ok \<Rightarrow> do {
          n \<leftarrow> rt_tick;
          State (\<lambda>w. ((), if record_ok n then w\<lparr>rw_audit := rw_audit w @ [ev]\<rparr> else w)) })"

section \<open>The quota tracker\<close>

definition Truncate :: "time \<Rightarrow> duration \<Rightarrow> time" where
  "Truncate t d = t - t mod d"

definition applyResets :: "usage_state \<Rightarrow> time \<Rightarrow> usage_state" where
  "applyResets s now =
     (if uz_LastUpdated s = 0 then s
      else
        let s1 = (if Truncate now Minute \<noteq> Truncate (uz_LastUpdated s) Minute
                  then s\<lparr>uz_RequestsThisMinute := 0, uz_TokensThisMinute := 0\<rparr> else s);
            lastDay = Truncate (uz_LastUpdated s) (24 * Hour);
            nowDay = Truncate now (24 * Hour)
        in if nowDay \<noteq> lastDay then s1\<lparr>uz_RequestsToday := 0, uz_TokensToday := 0\<rparr> else s1)"

definition fresh_usage :: "string \<Rightarrow> time \<Rightarrow> usage_state" where
  "fresh_usage provider now =
     \<lparr>uz_ProviderName = provider, uz_RequestsThisMinute = 0, uz_TokensThisMinute = 0,
      uz_RequestsToday = 0, uz_TokensToday = 0, uz_LastUpdated = now\<rparr>"

definition rt_usage :: "string \<Rightarrow> usage_state option routing" where
  "rt_usage provider = State (\<lambda>w. (row_of uz_ProviderName (rw_usage w) provider, w))"

definition rt_add :: "usage_state \<Rightarrow> unit routing" where
  "rt_add s = State (\<lambda>w. ((), w\<lparr>rw_usage := rw_usage w @ [s]\<rparr>))"

text \<open>The tracker holds pointers: a change of a returned state is a change of the entry.\<close>

definition rt_set :: "usage_state \<Rightarrow> unit routing" where
  "rt_set s = State (\<lambda>w. ((), w\<lparr>rw_usage := sql_update (\<lambda>r. uz_ProviderName r = uz_ProviderName s) (\<lambda>_. s) (rw_usage w)\<rparr>))"

definition getOrCreate :: "route_deps \<Rightarrow> string \<Rightarrow> usage_state routing" where
  "getOrCreate d provider = do {
     found \<leftarrow> rt_usage provider;
     case found of
       Some s \<Rightarrow> State_Monad.return s
     | None \<Rightarrow> do {
         now \<leftarrow> rt_now d;
         rt_add (fresh_usage provider now);
         State_Monad.return (fresh_usage provider now) } }"

definition GetUsage :: "route_deps \<Rightarrow> string \<Rightarrow> usage_state routing" where
  "GetUsage d provider = do {
     s \<leftarrow> getOrCreate d provider;
     now \<leftarrow> rt_now d;
     rt_set (applyResets s now);
     State_Monad.return (applyResets s now) }"

text \<open>Go visits a map in any order: \<open>order\<close> is the order of the names.\<close>

definition GetAllUsage :: "route_deps \<Rightarrow> string list \<Rightarrow> usage_state list routing" where
  "GetAllUsage d order = do {
     now \<leftarrow> rt_now d;
     State (\<lambda>w. let us = map (\<lambda>s. applyResets s now) (rw_usage w)
                in (List.map_filter (row_of uz_ProviderName us) order, w\<lparr>rw_usage := us\<rparr>)) }"

text \<open>
  The counters are \<open>INTEGER\<close> columns and an instant is kept to the microsecond; a statement that
  fails is not noticed.
\<close>

definition usage_row :: "usage_state \<Rightarrow> usage_state" where
  "usage_row s = s\<lparr>uz_LastUpdated := Truncate (uz_LastUpdated s) 1000\<rparr>"

definition usage_fits :: "usage_state \<Rightarrow> bool" where
  "usage_fits s \<longleftrightarrow> int4 (uz_RequestsThisMinute s) \<and> int4 (uz_TokensThisMinute s) \<and> int4 (uz_RequestsToday s) \<and> int4 (uz_TokensToday s)"

definition usage_upsert :: "usage_state \<Rightarrow> usage_state list \<Rightarrow> usage_state list" where
  "usage_upsert s rows =
     (if row_of uz_ProviderName rows (uz_ProviderName s) = None then rows @ [s]
      else sql_update (\<lambda>r. uz_ProviderName r = uz_ProviderName s) (\<lambda>_. s) rows)"

definition persistState :: "route_deps \<Rightarrow> usage_state \<Rightarrow> unit routing" where
  "persistState d s =
     (if \<not> rdp_db d then State_Monad.return ()
      else do {
        n \<leftarrow> rt_tick;
        State (\<lambda>w. ((), if rdp_exec_ok d n \<and> usage_fits s then w\<lparr>rw_rows := usage_upsert (usage_row s) (rw_rows w)\<rparr> else w)) })"

definition add_usage :: "int \<Rightarrow> time \<Rightarrow> usage_state \<Rightarrow> usage_state" where
  "add_usage tokens now s =
     (let s1 = s\<lparr>uz_RequestsThisMinute := wrap64 (uz_RequestsThisMinute s + 1), uz_RequestsToday := wrap64 (uz_RequestsToday s + 1)\<rparr>;
          s2 = (if tokens > 0
                then s1\<lparr>uz_TokensThisMinute := wrap64 (uz_TokensThisMinute s1 + tokens), uz_TokensToday := wrap64 (uz_TokensToday s1 + tokens)\<rparr>
                else s1)
      in s2\<lparr>uz_LastUpdated := now\<rparr>)"

definition RecordUsage :: "route_deps \<Rightarrow> string \<Rightarrow> int \<Rightarrow> unit routing" where
  "RecordUsage d provider tokens = do {
     s \<leftarrow> getOrCreate d provider;
     now \<leftarrow> rt_now d;
     let s' = add_usage tokens now (applyResets s now);
     rt_set s';
     if rdp_db d then persistState d s' else State_Monad.return () }"

text \<open>The limit that a further request would exceed, or none; a limit of 0 is unknown and never exceeded.\<close>

definition exceeded :: "string \<Rightarrow> int \<Rightarrow> int \<Rightarrow> string \<times> bool" where
  "exceeded what projected limit =
     (what @ '' exceeded: projected '' @ int_str projected @ '' > limit '' @ int_str limit, False)"

definition CheckQuota :: "provider_limits \<Rightarrow> usage_state \<Rightarrow> int \<Rightarrow> string \<times> bool" where
  "CheckQuota limits usage estimatedTokens =
     (let est = (if estimatedTokens < 0 then 0 else estimatedTokens);
          rpm = wrap64 (uz_RequestsThisMinute usage + 1);
          tpm = wrap64 (uz_TokensThisMinute usage + est);
          rpd = wrap64 (uz_RequestsToday usage + 1);
          tpd = wrap64 (uz_TokensToday usage + est)
      in if lim_RPM limits > 0 \<and> rpm > lim_RPM limits then exceeded ''RPM'' rpm (lim_RPM limits)
         else if lim_TPM limits > 0 \<and> est > 0 \<and> tpm > lim_TPM limits then exceeded ''TPM'' tpm (lim_TPM limits)
         else if lim_RPD limits > 0 \<and> rpd > lim_RPD limits then exceeded ''RPD'' rpd (lim_RPD limits)
         else if lim_TPD limits > 0 \<and> est > 0 \<and> tpd > lim_TPD limits then exceeded ''TPD'' tpd (lim_TPD limits)
         else ('''', True))"

definition headroom :: "int \<Rightarrow> int \<Rightarrow> f64" where
  "headroom projected limit = clamp01 (fsub (Fin 1) (fdiv (f64 (of_int projected)) (f64 (of_int limit))))"

definition headrooms :: "provider_limits \<Rightarrow> usage_state \<Rightarrow> int \<Rightarrow> f64 list" where
  "headrooms limits usage est =
     (if lim_RPM limits > 0 then [headroom (wrap64 (uz_RequestsThisMinute usage + 1)) (lim_RPM limits)] else []) @
     (if lim_TPM limits > 0 \<and> est > 0 then [headroom (wrap64 (uz_TokensThisMinute usage + est)) (lim_TPM limits)] else []) @
     (if lim_RPD limits > 0 then [headroom (wrap64 (uz_RequestsToday usage + 1)) (lim_RPD limits)] else []) @
     (if lim_TPD limits > 0 \<and> est > 0 then [headroom (wrap64 (uz_TokensToday usage + est)) (lim_TPD limits)] else [])"

definition ComputeHeadroom :: "provider_limits \<Rightarrow> usage_state \<Rightarrow> int \<Rightarrow> f64" where
  "ComputeHeadroom limits usage estimatedTokens =
     (case headrooms limits usage (if estimatedTokens < 0 then 0 else estimatedTokens) of
        [] \<Rightarrow> Fin 1
      | x # xs \<Rightarrow> fold (\<lambda>s mn. if flt s mn then s else mn) xs x)"

definition load_rows :: "usage_state list \<Rightarrow> usage_state list \<Rightarrow> usage_state list" where
  "load_rows rows us = fold usage_upsert rows us"

definition LoadFromDB :: "route_deps \<Rightarrow> string option routing" where
  "LoadFromDB d =
     (if \<not> rdp_db d then State_Monad.return None
      else do {
        n \<leftarrow> rt_tick;
        case rdp_fetch d n of
          Query_Fails e \<Rightarrow> State_Monad.return (Some (''load provider usage: '' @ e))
        | Complete \<Rightarrow> State (\<lambda>w. (None, w\<lparr>rw_usage := load_rows (rw_rows w) (rw_usage w)\<rparr>))
        | Breaks_After k e \<Rightarrow> State (\<lambda>w. (Some e, w\<lparr>rw_usage := load_rows (take k (rw_rows w)) (rw_usage w)\<rparr>))
        | Scan_Fails_At k e \<Rightarrow>
            State (\<lambda>w. (Some (''scan provider usage: '' @ e), w\<lparr>rw_usage := load_rows (take k (rw_rows w)) (rw_usage w)\<rparr>)) })"

section \<open>The registry\<close>

definition reg_Register :: "route_provider \<Rightarrow> route_provider list \<Rightarrow> route_provider list" where
  "reg_Register p ps =
     (if row_of rtp_Name ps (rtp_Name p) = None then ps @ [p] else sql_update (\<lambda>q. rtp_Name q = rtp_Name p) (\<lambda>_. p) ps)"

definition reg_Get :: "route_provider list \<Rightarrow> string \<Rightarrow> route_provider \<times> bool" where
  "reg_Get ps name = (case row_of rtp_Name ps name of Some p \<Rightarrow> (p, True) | None \<Rightarrow> (zero_provider, False))"

definition reg_All :: "route_provider list \<Rightarrow> route_provider list" where
  "reg_All ps = sql_sort (\<lambda>p q. str_less (rtp_Name p) (rtp_Name q)) ps"

definition reg_Enabled :: "route_provider list \<Rightarrow> route_provider list" where
  "reg_Enabled ps = filter (\<lambda>p. hl_Enabled (rtp_Health p)) (reg_All ps)"

definition ByRole :: "string \<Rightarrow> route_provider list \<Rightarrow> route_provider list" where
  "ByRole role ps = filter (\<lambda>p. HasRole p role) (reg_Enabled ps)"

definition ByCapability :: "string \<Rightarrow> route_provider list \<Rightarrow> route_provider list" where
  "ByCapability cap ps = filter (\<lambda>p. HasCapability p cap) (reg_Enabled ps)"

definition reg_Count :: "route_provider list \<Rightarrow> nat" where
  "reg_Count ps = length ps"

section \<open>Scoring\<close>

definition WeightLatencyFit :: f64 where "WeightLatencyFit = f64 (30 / 100)"
definition WeightQuotaHeadroom :: f64 where "WeightQuotaHeadroom = f64 (25 / 100)"
definition WeightReliability :: f64 where "WeightReliability = f64 (20 / 100)"
definition WeightCostEfficiency :: f64 where "WeightCostEfficiency = f64 (15 / 100)"
definition WeightModelCapability :: f64 where "WeightModelCapability = f64 (10 / 100)"

record score_components =
  scp_LatencyFit :: f64
  scp_QuotaHeadroom :: f64
  scp_ReliabilityFit :: f64
  scp_CostEfficiency :: f64
  scp_ModelCapability :: f64
  scp_PreferenceBoost :: f64
  scp_FinalScore :: f64

definition computeLatencyFit :: "route_provider \<Rightarrow> quota_input \<Rightarrow> f64" where
  "computeLatencyFit p inp =
     (let ms = rin_LatencyBudgetMs inp in
      if ms \<le> 0 then f64 (5 / 10)
      else if rtp_Kind p = KindLocal then (if ms \<le> 500 then Fin 1 else f64 (8 / 10))
      else if rtp_Kind p = KindCloud then
        (if ms \<le> 500 then f64 (3 / 10) else if ms \<le> 2000 then f64 (6 / 10) else f64 (8 / 10))
      else if rtp_Kind p = KindRouter then
        (if ms \<le> 500 then f64 (2 / 10) else if ms \<le> 2000 then f64 (5 / 10) else f64 (7 / 10))
      else f64 (5 / 10))"

definition computeReliabilityFit :: "route_provider \<Rightarrow> f64" where
  "computeReliabilityFit p =
     (if \<not> hl_Enabled (rtp_Health p) then Fin 0
      else if \<not> hl_Reachable (rtp_Health p) then f64 (1 / 10)
      else if hl_Degraded (rtp_Health p) then f64 (4 / 10)
      else Fin 1)"

definition computeCostEfficiency :: "route_provider \<Rightarrow> f64" where
  "computeCostEfficiency p =
     (let c = cst_CostClass (rtp_Cost p) in
      if c = CostLocal then Fin 1
      else if c = CostFree then f64 (95 / 100)
      else if c = CostCheap then f64 (7 / 10)
      else if c = CostUnknown then f64 (5 / 10)
      else clamp01 (fsub (Fin 1) (cst_RelativeCost (rtp_Cost p))))"

definition computeModelCapabilityFit :: "route_provider \<Rightarrow> quota_input \<Rightarrow> f64" where
  "computeModelCapabilityFit p inp =
     (let req = rin_RequiredCapabilities inp in
      if req = [] then Fin 1
      else fdiv (f64 (of_nat (length (filter (HasCapability p) req)))) (f64 (of_nat (length req))))"

definition ScoreProvider :: "route_provider \<Rightarrow> quota_input \<Rightarrow> usage_state \<Rightarrow> score_components" where
  "ScoreProvider p inp usage =
     (let latency = computeLatencyFit p inp;
          quota = ComputeHeadroom (rtp_Limits p) usage (rin_EstimatedTokens inp);
          reliability = computeReliabilityFit p;
          cost = computeCostEfficiency p;
          capability = computeModelCapabilityFit p inp;
          final = fadd (fadd (fadd (fadd (fmul latency WeightLatencyFit) (fmul quota WeightQuotaHeadroom))
                       (fmul reliability WeightReliability)) (fmul cost WeightCostEfficiency))
                       (fmul capability WeightModelCapability)
      in \<lparr>scp_LatencyFit = latency, scp_QuotaHeadroom = quota, scp_ReliabilityFit = reliability, scp_CostEfficiency = cost,
          scp_ModelCapability = capability, scp_PreferenceBoost = Fin 0, scp_FinalScore = clamp01 final\<rparr>)"

definition FormatScoreReason :: "score_components \<Rightarrow> string" where
  "FormatScoreReason c =
     ''latency='' @ fmt_f2 (scp_LatencyFit c) @ '' quota='' @ fmt_f2 (scp_QuotaHeadroom c) @
     '' reliability='' @ fmt_f2 (scp_ReliabilityFit c) @ '' cost='' @ fmt_f2 (scp_CostEfficiency c) @
     '' capability='' @ fmt_f2 (scp_ModelCapability c) @
     (if flt (Fin 0) (scp_PreferenceBoost c) then '' preference='' @ fmt_f2 (scp_PreferenceBoost c) else '''') @
     '' '' @ arrow @ '' score='' @ fmt_f3 (scp_FinalScore c)"

section \<open>The router\<close>

definition MaxFallbackChainLength :: int where "MaxFallbackChainLength = 3"
definition TieBreakEpsilon :: f64 where "TieBreakEpsilon = f64 (1 / 1000)"
definition MaxRecentDecisions :: nat where "MaxRecentDecisions = 100"

definition execConfigFor :: "route_deps \<Rightarrow> string \<Rightarrow> string \<Rightarrow> execution_config" where
  "execConfigFor d provider model =
     (case rdp_modelExecMap d of
        None \<Rightarrow> zero_execution
      | Some m \<Rightarrow>
          (let key = (if model \<noteq> '''' then provider @ ''/'' @ model else provider) in
           case map_of m key of
             Some cfg \<Rightarrow> cfg
           | None \<Rightarrow> (case map_of m provider of Some cfg \<Rightarrow> cfg | None \<Rightarrow> zero_execution)))"

definition emitQuotaExceeded :: "route_deps \<Rightarrow> string \<Rightarrow> quota_input \<Rightarrow> string \<Rightarrow> unit routing" where
  "emitQuotaExceeded d provider inp reason =
     rt_audit d (Quota_Event provider (rin_GoalType inp) (rin_TaskType inp) (rin_EstimatedTokens inp) reason)"

definition filterProvider :: "route_deps \<Rightarrow> route_provider \<Rightarrow> quota_input \<Rightarrow> (string \<times> bool) routing" where
  "filterProvider d p inp =
     (if \<not> hl_Enabled (rtp_Health p) then State_Monad.return (''provider disabled'', False)
      else if \<not> hl_Reachable (rtp_Health p) then State_Monad.return (''provider unreachable'', False)
      else if \<not> rin_AllowExternal inp \<and> IsExternal p then State_Monad.return (''external providers not allowed'', False)
      else if rin_PreferredRole inp \<noteq> '''' \<and> \<not> HasRole p (rin_PreferredRole inp) \<and> \<not> HasRole p RoleFallback
      then State_Monad.return (''does not have role '' @ go_quote (rin_PreferredRole inp), False)
      else do {
        usage \<leftarrow> GetUsage d (rtp_Name p);
        case CheckQuota (rtp_Limits p) usage (rin_EstimatedTokens inp) of
          (reason, ok) \<Rightarrow>
            if \<not> ok then do {
              emitQuotaExceeded d (rtp_Name p) inp reason;
              State_Monad.return (reason, False) }
            else State_Monad.return ('''', True) })"

fun boost_at :: "nat \<Rightarrow> string \<Rightarrow> string list \<Rightarrow> f64" where
  "boost_at i providerName [] = Fin 0"
| "boost_at i providerName (name # names) =
     (if name = providerName
      then (let boost = fsub (f64 (10 / 100)) (fmul (f64 (of_nat i)) (f64 (3 / 100))) in if flt boost (Fin 0) then Fin 0 else boost)
      else boost_at (Suc i) providerName names)"

definition preferenceBoostFor :: "route_deps \<Rightarrow> string \<Rightarrow> string \<Rightarrow> f64" where
  "preferenceBoostFor d providerName role =
     (case rdp_policy d of
        None \<Rightarrow> Fin 0
      | Some pol \<Rightarrow>
          (if pol_RolePreferences pol = [] then Fin 0
           else case map_of (pol_RolePreferences pol) role of None \<Rightarrow> Fin 0 | Some prefs \<Rightarrow> boost_at 0 providerName prefs))"

definition rank_provider :: "route_deps \<Rightarrow> quota_input \<Rightarrow> route_provider \<Rightarrow> usage_state \<Rightarrow> ranked_provider" where
  "rank_provider d inp p usage =
     (let c = ScoreProvider p inp usage;
          boost = preferenceBoostFor d (rtp_Name p) (rin_PreferredRole inp);
          c = (if flt (Fin 0) boost
               then c\<lparr>scp_PreferenceBoost := boost, scp_FinalScore := clamp01 (fadd (scp_FinalScore c) boost)\<rparr> else c)
      in \<lparr>rk_Provider = rtp_Name p, rk_Model = '''', rk_Score = scp_FinalScore c, rk_Reason = FormatScoreReason c\<rparr>)"

fun score_loop :: "route_deps \<Rightarrow> quota_input \<Rightarrow> route_provider list \<Rightarrow> ranked_provider list routing" where
  "score_loop d inp [] = State_Monad.return []"
| "score_loop d inp (p # ps) = do {
     usage \<leftarrow> GetUsage d (rtp_Name p);
     rest \<leftarrow> score_loop d inp ps;
     State_Monad.return (rank_provider d inp p usage # rest) }"

definition ranks_before :: "route_provider list \<Rightarrow> ranked_provider \<Rightarrow> ranked_provider \<Rightarrow> bool" where
  "ranks_before reg a b =
     (let diff = fsub (rk_Score a) (rk_Score b) in
      if flt TieBreakEpsilon diff then True
      else if flt diff (fneg TieBreakEpsilon) then False
      else
        let pa = fst (reg_Get reg (rk_Provider a)); pb = fst (reg_Get reg (rk_Provider b)) in
        if IsLocal pa \<noteq> IsLocal pb then IsLocal pa
        else if \<not> feq (cst_RelativeCost (rtp_Cost pa)) (cst_RelativeCost (rtp_Cost pb))
        then flt (cst_RelativeCost (rtp_Cost pa)) (cst_RelativeCost (rtp_Cost pb))
        else if rk_Provider a \<noteq> rk_Provider b then str_less (rk_Provider a) (rk_Provider b)
        else str_less (rk_Model a) (rk_Model b))"

definition scoreProviders :: "route_deps \<Rightarrow> route_provider list \<Rightarrow> quota_input \<Rightarrow> ranked_provider list routing" where
  "scoreProviders d providers inp = do {
     ranked \<leftarrow> score_loop d inp providers;
     State_Monad.return (SliceStable (ranks_before (rdp_registry d)) ranked) }"

definition tier_matches :: "route_provider \<Rightarrow> string \<Rightarrow> bool" where
  "tier_matches p tier =
     (if tier = ''external_strong'' \<or> tier = ''external_fast'' then rtp_Kind p = KindCloud
      else if tier = ''router'' then rtp_Kind p = KindRouter
      else if tier = ''local'' then rtp_Kind p = KindLocal
      else False)"

fun tier_index :: "route_provider \<Rightarrow> nat \<Rightarrow> string list \<Rightarrow> nat" where
  "tier_index p i [] = i"
| "tier_index p i (tier # tiers) = (if tier_matches p tier then i else tier_index p (Suc i) tiers)"

definition degradeTierIndex :: "policy_config \<Rightarrow> route_provider \<Rightarrow> nat" where
  "degradeTierIndex pol p = (if pol_DegradePolicy pol = [] then 0 else tier_index p 0 (pol_DegradePolicy pol))"

definition degrades_before :: "route_provider list \<Rightarrow> policy_config \<Rightarrow> ranked_provider \<Rightarrow> ranked_provider \<Rightarrow> bool" where
  "degrades_before reg pol a b =
     (case (reg_Get reg (rk_Provider a), reg_Get reg (rk_Provider b)) of
        ((pa, oka), (pb, okb)) \<Rightarrow>
          if \<not> oka \<or> \<not> okb then oka else degradeTierIndex pol pa < degradeTierIndex pol pb)"

definition ranked_key :: "ranked_provider \<Rightarrow> string" where
  "ranked_key rp = (if rk_Model rp \<noteq> '''' then rk_Provider rp @ ''/'' @ rk_Model rp else rk_Provider rp)"

fun fallback_loop :: "int \<Rightarrow> provider_model list \<Rightarrow> string list \<Rightarrow> ranked_provider list \<Rightarrow> provider_model list" where
  "fallback_loop maxChain pairs seen [] = pairs"
| "fallback_loop maxChain pairs seen (rp # rps) =
     (if int (length pairs) \<ge> maxChain then pairs
      else if ranked_key rp \<in> set seen then fallback_loop maxChain pairs seen rps
      else fallback_loop maxChain (pairs @ [(rk_Provider rp, rk_Model rp)]) (ranked_key rp # seen) rps)"

text \<open>
  The sort is in place, on the tail of the slice that the trace also holds, so the ordered tail is
  returned beside the pairs.
\<close>

definition max_chain :: "route_deps \<Rightarrow> int" where
  "max_chain d =
     (case rdp_policy d of
        Some pol \<Rightarrow> if pol_MaxFallbackChain pol > 0 then pol_MaxFallbackChain pol else MaxFallbackChainLength
      | None \<Rightarrow> MaxFallbackChainLength)"

definition degrade_order :: "route_deps \<Rightarrow> ranked_provider list \<Rightarrow> ranked_provider list" where
  "degrade_order d remaining =
     (case rdp_policy d of
        Some pol \<Rightarrow> if pol_DegradePolicy pol \<noteq> [] then SliceStable (degrades_before (rdp_registry d) pol) remaining else remaining
      | None \<Rightarrow> remaining)"

definition buildFallbackPairs :: "route_deps \<Rightarrow> ranked_provider list \<Rightarrow> string \<Rightarrow> provider_model list \<times> ranked_provider list" where
  "buildFallbackPairs d remaining primary =
     (let remaining = degrade_order d remaining
      in (fallback_loop (max_chain d) [] [primary] remaining, remaining))"

definition recordDecision :: "route_deps \<Rightarrow> quota_input \<Rightarrow> execution_plan \<Rightarrow> unit routing" where
  "recordDecision d inp plan = do {
     i \<leftarrow> rt_uuid d;
     now \<leftarrow> rt_now d;
     State (\<lambda>w.
       let r = \<lparr>rcd_ID = i, rcd_GoalType = rin_GoalType inp, rcd_TaskType = rin_TaskType inp,
                rcd_SelectedProvider = xp_Provider plan, rcd_SelectedModel = xp_Model plan, rcd_Fallbacks = xp_Fallbacks plan,
                rcd_Execution = xp_Execution plan, rcd_Score = xp_Score plan, rcd_Reason = xp_Reason plan, rcd_CreatedAt = now\<rparr>;
           rs = rw_recent w @ [r]
       in ((), w\<lparr>rw_recent := (if length rs > MaxRecentDecisions then drop (length rs - MaxRecentDecisions) rs else rs)\<rparr>)) }"

definition GetRecentDecisions :: "routing_record list routing" where
  "GetRecentDecisions = State (\<lambda>w. (rw_recent w, w))"

definition route_emitAudit :: "route_deps \<Rightarrow> string \<Rightarrow> quota_input \<Rightarrow> execution_plan \<Rightarrow> unit routing" where
  "route_emitAudit d eventType inp plan =
     rt_audit d (Decision_Event eventType
       \<lparr>dp_goal_type = rin_GoalType inp, dp_task_type = rin_TaskType inp, dp_preferred_role = rin_PreferredRole inp,
        dp_estimated_tokens = rin_EstimatedTokens inp, dp_allow_external = rin_AllowExternal inp,
        dp_provider = xp_Provider plan, dp_model = xp_Model plan, dp_fallback_chain = map pair_String (xp_Fallbacks plan),
        dp_execution = xp_Execution plan, dp_score = xp_Score plan, dp_reason = xp_Reason plan,
        dp_rejected_providers =
          (let rjs = rtr_Rejected (xp_Trace plan)
           in if rjs = [] then None else Some (map (\<lambda>rj. (rj_Provider rj, rj_Reason rj)) rjs))\<rparr>)"

fun filter_loop :: "route_deps \<Rightarrow> quota_input \<Rightarrow> route_provider list \<Rightarrow> routing_trace \<Rightarrow> route_provider list \<Rightarrow> (routing_trace \<times> route_provider list) routing" where
  "filter_loop d inp [] trace valid = State_Monad.return (trace, valid)"
| "filter_loop d inp (p # ps) trace valid = do {
     let trace = trace\<lparr>rtr_Considered := rtr_Considered trace @ [rtp_Name p]\<rparr>;
     (reason, ok) \<leftarrow> filterProvider d p inp;
     if \<not> ok
     then filter_loop d inp ps
            (trace\<lparr>rtr_Rejected := rtr_Rejected trace @ [\<lparr>rj_Provider = rtp_Name p, rj_Model = '''', rj_Reason = reason\<rparr>]\<rparr>) valid
     else filter_loop d inp ps trace (valid @ [p]) }"

definition gate_external :: "route_deps \<Rightarrow> quota_input \<Rightarrow> quota_input" where
  "gate_external d inp =
     (case rdp_policy d of
        Some pol \<Rightarrow> if \<not> pol_AllowExternal pol then inp\<lparr>rin_AllowExternal := False\<rparr> else inp
      | None \<Rightarrow> inp)"

definition selected_plan :: "route_deps \<Rightarrow> routing_trace \<Rightarrow> ranked_provider list \<Rightarrow> execution_plan" where
  "selected_plan d trace scored =
     (let primary = hd scored;
          (fallbacks, rest) = buildFallbackPairs d (tl scored) (ranked_key primary);
          reason = (if rk_Model primary \<noteq> ''''
                    then ''selected '' @ rk_Provider primary @ ''/'' @ rk_Model primary @ '': '' @ rk_Reason primary
                    else ''selected '' @ rk_Provider primary @ '': '' @ rk_Reason primary)
      in \<lparr>xp_Provider = rk_Provider primary, xp_Model = rk_Model primary, xp_Fallbacks = fallbacks,
          xp_Execution = execConfigFor d (rk_Provider primary) (rk_Model primary), xp_Score = rk_Score primary,
          xp_Reason = reason, xp_Trace = trace\<lparr>rtr_Ranked := primary # rest, rtr_FinalReason := reason\<rparr>\<rparr>)"

definition quota_Route :: "route_deps \<Rightarrow> quota_input \<Rightarrow> execution_plan routing" where
  "quota_Route d inp0 = do {
     let inp = gate_external d inp0;
     let candidates = reg_Enabled (rdp_registry d);
     if candidates = [] then do {
       let plan = empty_plan\<lparr>xp_Reason := ''no providers available in registry'',
                             xp_Trace := empty_trace\<lparr>rtr_FinalReason := ''empty registry or all providers disabled''\<rparr>\<rparr>;
       recordDecision d inp plan;
       route_emitAudit d ''provider.routing_decided'' inp plan;
       State_Monad.return plan }
     else do {
       (trace, valid) \<leftarrow> filter_loop d inp candidates empty_trace [];
       if valid = [] then do {
         let plan = empty_plan\<lparr>xp_Reason := ''all providers rejected by filtering'',
                               xp_Trace := trace\<lparr>rtr_FinalReason := ''no valid providers after filtering''\<rparr>\<rparr>;
         recordDecision d inp plan;
         route_emitAudit d ''provider.routing_decided'' inp plan;
         route_emitAudit d ''provider.degraded_to_local'' inp plan;
         State_Monad.return plan }
       else do {
         scored \<leftarrow> scoreProviders d valid inp;
         let plan = selected_plan d trace scored;
         recordDecision d inp plan;
         route_emitAudit d ''provider.routing_decided'' inp plan;
         (if xp_Provider plan \<noteq> '''' \<and> snd (reg_Get (rdp_registry d) (xp_Provider plan)) \<and>
             IsLocal (fst (reg_Get (rdp_registry d) (xp_Provider plan))) \<and>
             (\<exists>rp \<in> set (rtr_Rejected (xp_Trace plan)). rj_Reason rp \<noteq> '''')
          then route_emitAudit d ''provider.degraded_to_local'' inp plan else State_Monad.return ());
         State_Monad.return plan } } }"

text \<open>The adapter of the decision graph; without a router its plan is empty.\<close>

definition RouteForTask ::
  "route_deps option \<Rightarrow> string \<Rightarrow> string \<Rightarrow> string \<Rightarrow> int \<Rightarrow> int \<Rightarrow> f64 \<Rightarrow> bool \<Rightarrow> execution_plan routing" where
  "RouteForTask router goalType taskType preferredRole estimatedTokens latencyBudgetMs confidenceRequired allowExternal =
     (case router of
        None \<Rightarrow> State_Monad.return (empty_plan\<lparr>xp_Reason := ''provider router not configured''\<rparr>)
      | Some d \<Rightarrow>
          quota_Route d
            \<lparr>rin_GoalType = goalType, rin_TaskType = taskType, rin_PreferredRole = preferredRole,
             rin_EstimatedTokens = estimatedTokens, rin_LatencyBudgetMs = latencyBudgetMs,
             rin_ConfidenceRequired = confidenceRequired, rin_AllowExternal = allowExternal,
             rin_RequiredCapabilities = []\<rparr>)"

section \<open>What the operations do to the counters\<close>

lemma wp_rt_tick [wp_rules]: "wp rt_tick Q w = Q (rw_tick w) (w\<lparr>rw_tick := Suc (rw_tick w)\<rparr>)"
  by (simp add: wp_def rt_tick_def)

declare wp_State [wp_rules]

lemmas rt_defs = rt_now_def rt_uuid_def rt_usage_def rt_add_def rt_set_def

text \<open>The counters of a window either stay or are set to zero together.\<close>

definition zero_counters :: "usage_state \<Rightarrow> bool" where
  "zero_counters u \<longleftrightarrow> uz_RequestsThisMinute u = 0 \<and> uz_TokensThisMinute u = 0 \<and> uz_RequestsToday u = 0 \<and> uz_TokensToday u = 0"

definition fades :: "usage_state \<Rightarrow> usage_state \<Rightarrow> bool" where
  "fades u v \<longleftrightarrow>
     (uz_RequestsThisMinute v = uz_RequestsThisMinute u \<and> uz_TokensThisMinute v = uz_TokensThisMinute u \<or>
      uz_RequestsThisMinute v = 0 \<and> uz_TokensThisMinute v = 0) \<and>
     (uz_RequestsToday v = uz_RequestsToday u \<and> uz_TokensToday v = uz_TokensToday u \<or>
      uz_RequestsToday v = 0 \<and> uz_TokensToday v = 0)"

fun faded :: "usage_state option \<Rightarrow> usage_state option \<Rightarrow> bool" where
  "faded None None = True"
| "faded None (Some v) = zero_counters v"
| "faded (Some u) None = False"
| "faded (Some u) (Some v) = fades u v"

lemma fades_refl [simp]: "fades u u"
  by (simp add: fades_def)

lemma fades_trans: "fades u v \<Longrightarrow> fades v x \<Longrightarrow> fades u x"
  by (auto simp: fades_def)

lemma fades_zero: "zero_counters u \<Longrightarrow> fades u v \<Longrightarrow> zero_counters v"
  by (auto simp: fades_def zero_counters_def)

lemma faded_refl [simp]: "faded x x"
  by (cases x) simp_all

lemma faded_trans: "faded x y \<Longrightarrow> faded y z \<Longrightarrow> faded x z"
  by (cases x; cases y; cases z) (auto intro: fades_trans fades_zero)

abbreviation usage_of :: "route_world \<Rightarrow> string \<Rightarrow> usage_state option" where
  "usage_of w \<equiv> row_of uz_ProviderName (rw_usage w)"

definition faded_world :: "route_world \<Rightarrow> route_world \<Rightarrow> bool" where
  "faded_world w w' \<longleftrightarrow> (\<forall>n. faded (usage_of w n) (usage_of w' n))"

lemma faded_world_refl [simp]: "faded_world w w"
  by (simp add: faded_world_def)

lemma faded_world_trans [trans]: "faded_world w w' \<Longrightarrow> faded_world w' w'' \<Longrightarrow> faded_world w w''"
  unfolding faded_world_def using faded_trans by blast

lemma faded_world_same: "rw_usage w' = rw_usage w \<Longrightarrow> faded_world w w'"
  by (simp add: faded_world_def)

lemma applyResets_name [simp]: "uz_ProviderName (applyResets u now) = uz_ProviderName u"
  by (simp add: applyResets_def Let_def)

lemma applyResets_fades: "fades u (applyResets u now)"
  by (simp add: applyResets_def fades_def Let_def)

text \<open>Looking the counters up creates or resets the entry of one provider, and no other.\<close>

lemma usage_set:
  "uz_ProviderName s = n \<Longrightarrow>
     row_of uz_ProviderName (sql_update (\<lambda>r. uz_ProviderName r = n) (\<lambda>_. s) us) =
       (row_of uz_ProviderName us)(n := map_option (\<lambda>_. s) (row_of uz_ProviderName us n))"
  by (rule row_of_update_key)

lemma wp_getOrCreate:
  "wp (getOrCreate d n)
     (\<lambda>s w'. uz_ProviderName s = n \<and> usage_of w' = (usage_of w)(n \<mapsto> s) \<and> faded (usage_of w n) (Some s) \<and>
             rw_rows w' = rw_rows w \<and> (usage_of w n = None \<or> usage_of w n = Some s)) w"
proof (cases "usage_of w n")
  case None
  then show ?thesis
    using row_of_snoc [of uz_ProviderName "rw_usage w" "fresh_usage n (rdp_clock d (rw_tick w))"]
    by (simp add: getOrCreate_def rt_defs wp_rules fresh_usage_def zero_counters_def)
next
  case (Some s)
  then show ?thesis using row_of_SomeD [OF Some] by (auto simp: getOrCreate_def rt_defs wp_rules)
qed

lemma wp_GetUsage:
  "wp (GetUsage d n)
     (\<lambda>s w'. uz_ProviderName s = n \<and> usage_of w' = (usage_of w)(n \<mapsto> s) \<and> faded (usage_of w n) (Some s) \<and> rw_rows w' = rw_rows w) w"
  unfolding GetUsage_def
proof (rule wp_seq [OF wp_getOrCreate], elim conjE)
  fix s w'
  assume "uz_ProviderName s = n" "usage_of w' = (usage_of w)(n \<mapsto> s)" "faded (usage_of w n) (Some s)" "rw_rows w' = rw_rows w"
  moreover have "faded (Some s) (Some (applyResets s now))" for now by (simp add: applyResets_fades)
  ultimately show "wp (rt_now d \<bind> (\<lambda>now. rt_set (applyResets s now) \<bind> (\<lambda>_. State_Monad.return (applyResets s now))))
     (\<lambda>s w'. uz_ProviderName s = n \<and> usage_of w' = (usage_of w)(n \<mapsto> s) \<and> faded (usage_of w n) (Some s) \<and> rw_rows w' = rw_rows w) w'"
    using faded_trans by (simp add: rt_defs wp_rules usage_set)
qed

lemma GetUsage_faded: "wp (GetUsage d n) (\<lambda>s w'. faded_world w w' \<and> usage_of w' n = Some s) w"
  by (rule wp_mono [OF wp_GetUsage]) (simp add: faded_world_def)

lemma rt_audit_same: "wp (rt_audit d ev) (\<lambda>_ w'. rw_usage w' = rw_usage w \<and> rw_rows w' = rw_rows w \<and> rw_recent w' = rw_recent w) w"
  by (simp add: rt_audit_def wp_rules split: option.split)

lemma recordDecision_same: "wp (recordDecision d inp plan) (\<lambda>_ w'. rw_usage w' = rw_usage w) w"
  by (simp add: recordDecision_def rt_defs wp_rules Let_def)

section \<open>Limits\<close>

text \<open>Each known limit holds for its counter. Sizes are such that no sum of a counter and an estimate wraps.\<close>

definition keeps :: "int \<Rightarrow> int \<Rightarrow> bool" where
  "keeps limit n \<longleftrightarrow> (0 < limit \<longrightarrow> 0 \<le> n \<and> n \<le> limit)"

definition under_limits :: "provider_limits \<Rightarrow> usage_state \<Rightarrow> bool" where
  "under_limits l u \<longleftrightarrow> keeps (lim_RPM l) (uz_RequestsThisMinute u) \<and> keeps (lim_TPM l) (uz_TokensThisMinute u) \<and>
     keeps (lim_RPD l) (uz_RequestsToday u) \<and> keeps (lim_TPD l) (uz_TokensToday u)"

definition no_wrap :: "provider_limits \<Rightarrow> int \<Rightarrow> bool" where
  "no_wrap l est \<longleftrightarrow> (\<forall>limit \<in> {lim_RPM l, lim_RPD l}. limit < 2 ^ 63 - 1) \<and> (\<forall>limit \<in> {lim_TPM l, lim_TPD l}. limit + max 0 est < 2 ^ 63)"

text \<open>A provider that passes the check of the code; \<open>room_iff\<close> says what this means for the counters.\<close>

definition room :: "provider_limits \<Rightarrow> usage_state \<Rightarrow> int \<Rightarrow> bool" where
  "room l u est \<longleftrightarrow> snd (CheckQuota l u est)"

lemma keeps_zero [simp]: "keeps limit 0"
  by (simp add: keeps_def)

lemma wrap64_kept: "keeps limit n \<Longrightarrow> 0 < limit \<Longrightarrow> 0 \<le> k \<Longrightarrow> limit + k < 2 ^ 63 \<Longrightarrow> wrap64 (n + k) = n + k"
  by (rule wrap64_id) (auto simp: keeps_def)

lemma kept_sum:
  "keeps limit n \<Longrightarrow> 0 \<le> k \<Longrightarrow> limit + k < 2 ^ 63 \<Longrightarrow> (0 < limit \<and> limit < wrap64 (n + k)) = (\<not> keeps limit (n + k))"
  using wrap64_kept [of limit n k] by (auto simp: keeps_def)

lemma kept_alone: "keeps limit n \<Longrightarrow> keeps limit (n + k) \<Longrightarrow> 0 \<le> k \<Longrightarrow> keeps limit k"
  by (auto simp: keeps_def)

lemma kept_part: "keeps limit n \<Longrightarrow> keeps limit (n + k) \<Longrightarrow> 0 \<le> j \<Longrightarrow> j \<le> k \<Longrightarrow> limit + k < 2 ^ 63 \<Longrightarrow> keeps limit (wrap64 (n + j))"
  using wrap64_kept [of limit n j] by (auto simp: keeps_def)

text \<open>Where no sum wraps, the check is the comparison of the exact sums with the limits.\<close>

lemma first_exceeded:
  "snd (if a then exceeded x1 x2 x3 else if b then exceeded y1 y2 y3 else if c then exceeded z1 z2 z3
        else if e then exceeded v1 v2 v3 else (r, True)) = (\<not> a \<and> \<not> b \<and> \<not> c \<and> \<not> e)"
  by (simp add: exceeded_def)

lemma room_iff:
  assumes "under_limits l u" and "no_wrap l est"
  shows "room l u est \<longleftrightarrow>
     keeps (lim_RPM l) (uz_RequestsThisMinute u + 1) \<and> (0 < est \<longrightarrow> keeps (lim_TPM l) (uz_TokensThisMinute u + est)) \<and>
     keeps (lim_RPD l) (uz_RequestsToday u + 1) \<and> (0 < est \<longrightarrow> keeps (lim_TPD l) (uz_TokensToday u + est))"
proof -
  have k: "keeps (lim_RPM l) (uz_RequestsThisMinute u)" "keeps (lim_TPM l) (uz_TokensThisMinute u)"
    "keeps (lim_RPD l) (uz_RequestsToday u)" "keeps (lim_TPD l) (uz_TokensToday u)" using assms(1) by (simp_all add: under_limits_def)
  have b: "lim_RPM l + 1 < 2 ^ 63" "lim_RPD l + 1 < 2 ^ 63" "0 < est \<longrightarrow> lim_TPM l + est < 2 ^ 63" "0 < est \<longrightarrow> lim_TPD l + est < 2 ^ 63"
    using assms(2) by (auto simp: no_wrap_def)
  have t: "(0 < limit \<and> 0 < (if est < 0 then 0 else est) \<and> limit < wrap64 (n + (if est < 0 then 0 else est))) =
      (0 < est \<and> \<not> keeps limit (n + est))" if "keeps limit n" "0 < est \<longrightarrow> limit + est < 2 ^ 63" for limit n
    using kept_sum [OF that(1), of est] that(2) by auto
  show ?thesis
    unfolding room_def CheckQuota_def Let_def first_exceeded
      kept_sum [OF k(1) zero_le_one b(1)] kept_sum [OF k(3) zero_le_one b(2)] t [OF k(2) b(3)] t [OF k(4) b(4)] by blast
qed

lemma under_limits_fades: "under_limits l u \<Longrightarrow> fades u v \<Longrightarrow> under_limits l v"
  by (auto simp: under_limits_def fades_def)

lemma under_limits_zero: "zero_counters u \<Longrightarrow> under_limits l u"
  by (simp add: under_limits_def zero_counters_def)

lemma room_fades:
  assumes "under_limits l u" "no_wrap l est" "fades u v" "room l u est"
  shows "room l v est"
proof -
  have k: "keeps (lim_RPM l) (uz_RequestsThisMinute u)" "keeps (lim_TPM l) (uz_TokensThisMinute u)"
    "keeps (lim_RPD l) (uz_RequestsToday u)" "keeps (lim_TPD l) (uz_TokensToday u)" using assms(1) by (simp_all add: under_limits_def)
  have r: "keeps (lim_RPM l) (uz_RequestsThisMinute u + 1)" "0 < est \<Longrightarrow> keeps (lim_TPM l) (uz_TokensThisMinute u + est)"
    "keeps (lim_RPD l) (uz_RequestsToday u + 1)" "0 < est \<Longrightarrow> keeps (lim_TPD l) (uz_TokensToday u + est)"
    using assms(4) room_iff [OF assms(1,2)] by blast+
  have keep: "keeps limit (m + e)" if "m = n \<or> m = 0" "keeps limit n" "keeps limit (n + e)" "0 \<le> e" for limit m n e
    using that kept_alone [of limit n e] by auto
  have f: "uz_RequestsThisMinute v = uz_RequestsThisMinute u \<or> uz_RequestsThisMinute v = 0"
    "uz_TokensThisMinute v = uz_TokensThisMinute u \<or> uz_TokensThisMinute v = 0"
    "uz_RequestsToday v = uz_RequestsToday u \<or> uz_RequestsToday v = 0" "uz_TokensToday v = uz_TokensToday u \<or> uz_TokensToday v = 0"
    using assms(3) unfolding fades_def by blast+
  show ?thesis unfolding room_iff [OF under_limits_fades [OF assms(1,3)] assms(2)]
    using keep [OF f(1) k(1) r(1)] keep [OF f(2) k(2) r(2)] keep [OF f(3) k(3) r(3)] keep [OF f(4) k(4) r(4)] by simp
qed

lemma under_limits_add:
  assumes "under_limits l u" "no_wrap l est" "room l u est" "tokens \<le> max 0 est"
  shows "under_limits l (add_usage tokens now u)"
proof -
  have k: "keeps (lim_RPM l) (uz_RequestsThisMinute u)" "keeps (lim_TPM l) (uz_TokensThisMinute u)"
    "keeps (lim_RPD l) (uz_RequestsToday u)" "keeps (lim_TPD l) (uz_TokensToday u)" using assms(1) by (simp_all add: under_limits_def)
  have b: "lim_RPM l + 1 < 2 ^ 63" "lim_RPD l + 1 < 2 ^ 63" "0 < est \<Longrightarrow> lim_TPM l + est < 2 ^ 63" "0 < est \<Longrightarrow> lim_TPD l + est < 2 ^ 63"
    using assms(2) by (simp_all add: no_wrap_def max_def)
  have e: "0 < tokens \<Longrightarrow> 0 < est \<and> tokens \<le> est" using assms(4) by linarith
  show ?thesis
    using room_iff [OF assms(1,2)] assms(3) k b e
      kept_part [OF k(1), of 1 1] kept_part [OF k(3), of 1 1] kept_part [OF k(2), of est tokens] kept_part [OF k(4), of est tokens]
    by (simp add: under_limits_def add_usage_def Let_def)
qed

text \<open>The limits of a registry and the counters of a tracker.\<close>

definition quotas_kept :: "route_provider list \<Rightarrow> route_world \<Rightarrow> bool" where
  "quotas_kept reg w \<longleftrightarrow> (\<forall>p \<in> set reg. \<forall>u. usage_of w (rtp_Name p) = Some u \<longrightarrow> under_limits (rtp_Limits p) u)"

definition has_room :: "route_world \<Rightarrow> int \<Rightarrow> route_provider \<Rightarrow> bool" where
  "has_room w est p \<longleftrightarrow> (\<exists>u. usage_of w (rtp_Name p) = Some u \<and> room (rtp_Limits p) u est)"

definition registry_no_wrap :: "route_provider list \<Rightarrow> int \<Rightarrow> bool" where
  "registry_no_wrap reg est \<longleftrightarrow> (\<forall>p \<in> set reg. no_wrap (rtp_Limits p) est)"

lemma quotas_kept_faded:
  assumes "quotas_kept reg w" and "faded_world w w'"
  shows "quotas_kept reg w'"
  unfolding quotas_kept_def
proof (intro ballI allI impI)
  fix p v
  assume "p \<in> set reg" "usage_of w' (rtp_Name p) = Some v"
  moreover from this(2) have "faded (usage_of w (rtp_Name p)) (Some v)" using assms(2) by (metis faded_world_def)
  ultimately show "under_limits (rtp_Limits p) v"
    using assms(1) by (cases "usage_of w (rtp_Name p)") (auto simp: quotas_kept_def intro: under_limits_fades under_limits_zero)
qed

lemma has_room_faded:
  assumes "quotas_kept reg w" "registry_no_wrap reg est" "p \<in> set reg" "faded_world w w'" "has_room w est p"
  shows "has_room w' est p"
proof -
  obtain u where u: "usage_of w (rtp_Name p) = Some u" "room (rtp_Limits p) u est" using assms(5) by (auto simp: has_room_def)
  have "faded (Some u) (usage_of w' (rtp_Name p))" using assms(4) u(1) by (metis faded_world_def)
  then obtain v where "usage_of w' (rtp_Name p) = Some v" "fades u v" by (cases "usage_of w' (rtp_Name p)") auto
  then show ?thesis using room_fades [of "rtp_Limits p" u est v] assms(1-3) u
    by (auto simp: has_room_def quotas_kept_def registry_no_wrap_def)
qed

section \<open>What is routed\<close>

text \<open>The requirements on a provider: of its registration, of the request, of the policy, and of the counters.\<close>

definition fit_for :: "quota_input \<Rightarrow> route_provider \<Rightarrow> bool" where
  "fit_for inp p \<longleftrightarrow> hl_Enabled (rtp_Health p) \<and> hl_Reachable (rtp_Health p) \<and> (IsExternal p \<longrightarrow> rin_AllowExternal inp) \<and>
     (rin_PreferredRole inp \<noteq> '''' \<longrightarrow> HasRole p (rin_PreferredRole inp) \<or> HasRole p RoleFallback)"

lemma wp_filterProvider:
  "wp (filterProvider d p inp)
     (\<lambda>(reason, ok) w'. faded_world w w' \<and> (ok \<longrightarrow> fit_for inp p \<and> has_room w' (rin_EstimatedTokens inp) p)) w"
proof -
  let ?Q = "\<lambda>(reason, ok) w'. faded_world w w' \<and> (ok \<longrightarrow> fit_for inp p \<and> has_room w' (rin_EstimatedTokens inp) p)"
  have "wp (GetUsage d (rtp_Name p) \<bind> (\<lambda>usage.
        case CheckQuota (rtp_Limits p) usage (rin_EstimatedTokens inp) of
          (reason, ok) \<Rightarrow>
            if \<not> ok then emitQuotaExceeded d (rtp_Name p) inp reason \<bind> (\<lambda>_. State_Monad.return (reason, False))
            else State_Monad.return ('''', True))) ?Q w" if "fit_for inp p"
  proof (rule wp_seq [OF GetUsage_faded])
    fix u w'
    assume u: "faded_world w w' \<and> usage_of w' (rtp_Name p) = Some u"
    have emit: "wp (emitQuotaExceeded d (rtp_Name p) inp reason) (\<lambda>_. faded_world w) w'" for reason
      unfolding emitQuotaExceeded_def
      by (rule wp_mono [OF rt_audit_same]) (metis u faded_world_same faded_world_trans)
    have "wp (emitQuotaExceeded d (rtp_Name p) inp reason \<bind> (\<lambda>_. State_Monad.return (reason, False))) ?Q w'" for reason
      by (rule wp_seq [OF emit]) (simp add: wp_return)
    then show "wp (case CheckQuota (rtp_Limits p) u (rin_EstimatedTokens inp) of
          (reason, ok) \<Rightarrow>
            if \<not> ok then emitQuotaExceeded d (rtp_Name p) inp reason \<bind> (\<lambda>_. State_Monad.return (reason, False))
            else State_Monad.return ('''', True)) ?Q w'"
      using u that by (auto simp: wp_return has_room_def room_def split: prod.split)
  qed
  then show ?thesis unfolding filterProvider_def fit_for_def by (simp add: wp_rules)
qed

text \<open>A provider that passed the filter keeps passing while the others are looked at.\<close>

definition passed :: "route_deps \<Rightarrow> quota_input \<Rightarrow> route_world \<Rightarrow> route_provider \<Rightarrow> bool" where
  "passed d inp w p \<longleftrightarrow> p \<in> set (rdp_registry d) \<and> fit_for inp p \<and> has_room w (rin_EstimatedTokens inp) p"

lemma passed_faded:
  "quotas_kept (rdp_registry d) w \<Longrightarrow> registry_no_wrap (rdp_registry d) (rin_EstimatedTokens inp) \<Longrightarrow> faded_world w w' \<Longrightarrow>
   passed d inp w p \<Longrightarrow> passed d inp w' p"
  using has_room_faded by (auto simp: passed_def)

lemma wp_filter_loop:
  assumes "quotas_kept (rdp_registry d) w" "registry_no_wrap (rdp_registry d) (rin_EstimatedTokens inp)"
    and "set ps \<subseteq> set (rdp_registry d)" "\<forall>p \<in> set valid. passed d inp w p" "distinct (map rtp_Name (valid @ ps))"
  shows "wp (filter_loop d inp ps trace valid)
     (\<lambda>(trace', valid') w'. faded_world w w' \<and> (\<forall>p \<in> set valid'. passed d inp w' p) \<and> distinct (map rtp_Name valid')) w"
  using assms
proof (induction ps arbitrary: trace valid w)
  case (Cons p ps)
  let ?Q = "\<lambda>w. (\<lambda>(trace', valid') w'. faded_world w w' \<and> (\<forall>p \<in> set valid'. passed d inp w' p) \<and> distinct (map rtp_Name valid'))"
  show ?case
    unfolding filter_loop.simps Let_def
  proof (rule wp_seq [OF wp_filterProvider])
    fix r :: "string \<times> bool" and w1
    assume "(case r of (reason, ok) \<Rightarrow> \<lambda>w'. faded_world w w' \<and> (ok \<longrightarrow> fit_for inp p \<and> has_room w' (rin_EstimatedTokens inp) p)) w1"
    then obtain reason ok where r: "r = (reason, ok)" "faded_world w w1" "ok \<longrightarrow> fit_for inp p \<and> has_room w1 (rin_EstimatedTokens inp) p"
      by (cases r) auto
    have kept: "quotas_kept (rdp_registry d) w1" using quotas_kept_faded Cons.prems(1) r(2) by blast
    have valid: "\<forall>q \<in> set valid. passed d inp w1 q" using passed_faded Cons.prems(1,2,4) r(2) by blast
    have post: "wp m (?Q w) w1" if "wp m (?Q w1) w1" for m
      by (rule wp_mono [OF that]) (use r(2) faded_world_trans in auto)
    have ind: "p \<in> set (rdp_registry d)" "set ps \<subseteq> set (rdp_registry d)" "distinct (map rtp_Name (valid @ ps))"
      "distinct (map rtp_Name ((valid @ [p]) @ ps))" using Cons.prems(3,5) by auto
    show "wp (case r of (reason, ok) \<Rightarrow>
        if \<not> ok then filter_loop d inp ps (trace\<lparr>rtr_Considered := rtr_Considered trace @ [rtp_Name p]\<rparr>
          \<lparr>rtr_Rejected := rtr_Rejected (trace\<lparr>rtr_Considered := rtr_Considered trace @ [rtp_Name p]\<rparr>) @
            [\<lparr>rj_Provider = rtp_Name p, rj_Model = '''', rj_Reason = reason\<rparr>]\<rparr>) valid
        else filter_loop d inp ps (trace\<lparr>rtr_Considered := rtr_Considered trace @ [rtp_Name p]\<rparr>) (valid @ [p])) (?Q w) w1"
    proof (cases ok)
      case True
      have "\<forall>q \<in> set (valid @ [p]). passed d inp w1 q" using valid r(3) True ind(1) by (simp add: passed_def)
      then have "wp (filter_loop d inp ps (trace\<lparr>rtr_Considered := rtr_Considered trace @ [rtp_Name p]\<rparr>) (valid @ [p])) (?Q w1) w1"
        using Cons.IH [of w1 "valid @ [p]"] kept Cons.prems(2) ind by blast
      then show ?thesis using r(1) True post by simp
    next
      case False
      have "wp (filter_loop d inp ps t valid) (?Q w) w1" for t
        by (rule post) (use Cons.IH [of w1 valid] kept Cons.prems(2) ind valid in blast)
      then show ?thesis using r(1) False by simp
    qed
  qed
qed (simp add: wp_rules)

lemma wp_score_loop:
  "wp (score_loop d inp ps)
     (\<lambda>rks w'. faded_world w w' \<and> list_all2 (\<lambda>p rk. \<exists>u. rk = rank_provider d inp p u) ps rks) w"
proof (induction ps arbitrary: w)
  case (Cons p ps)
  show ?case
    unfolding score_loop.simps
  proof (rule wp_seq [OF GetUsage_faded])
    fix u w1
    assume u: "faded_world w w1 \<and> usage_of w1 (rtp_Name p) = Some u"
    show "wp (score_loop d inp ps \<bind> (\<lambda>rest. State_Monad.return (rank_provider d inp p u # rest)))
      (\<lambda>rks w'. faded_world w w' \<and> list_all2 (\<lambda>p rk. \<exists>u. rk = rank_provider d inp p u) (p # ps) rks) w1"
      by (rule wp_seq [OF Cons.IH]) (use u faded_world_trans in \<open>auto simp: wp_return\<close>)
  qed
qed (simp add: wp_rules)

lemma rank_provider_sel [simp]: "rk_Provider (rank_provider d inp p u) = rtp_Name p" "rk_Model (rank_provider d inp p u) = ''''"
  by (simp_all add: rank_provider_def Let_def)

lemma ranked_names:
  "list_all2 (\<lambda>p rk. \<exists>u. rk = rank_provider d inp p u) ps rks \<Longrightarrow>
   map rk_Provider rks = map rtp_Name ps \<and> (\<forall>rk \<in> set rks. rk_Model rk = '''' \<and> (\<exists>p \<in> set ps. \<exists>u. rk = rank_provider d inp p u))"
  by (induction rule: list_all2_induct) auto

text \<open>The ranking holds each provider that passed once, without a model.\<close>

definition ranking :: "route_deps \<Rightarrow> quota_input \<Rightarrow> route_provider list \<Rightarrow> ranked_provider list \<Rightarrow> bool" where
  "ranking d inp ps rks \<longleftrightarrow> mset (map rk_Provider rks) = mset (map rtp_Name ps) \<and>
     (\<forall>rk \<in> set rks. rk_Model rk = '''' \<and> (\<exists>p \<in> set ps. \<exists>u. rk = rank_provider d inp p u))"

lemma wp_scoreProviders: "wp (scoreProviders d ps inp) (\<lambda>rks w'. faded_world w w' \<and> ranking d inp ps rks) w"
  unfolding scoreProviders_def
proof (rule wp_seq [OF wp_score_loop])
  fix rks w'
  assume "faded_world w w' \<and> list_all2 (\<lambda>p rk. \<exists>u. rk = rank_provider d inp p u) ps rks"
  moreover from this have "ranking d inp ps (SliceStable (ranks_before (rdp_registry d)) rks)"
    using ranked_names [of d inp ps rks] by (auto simp: ranking_def) (metis mset_map)
  ultimately show "wp (State_Monad.return (SliceStable (ranks_before (rdp_registry d)) rks))
    (\<lambda>rks w'. faded_world w w' \<and> ranking d inp ps rks) w'" by (simp add: wp_return)
qed

lemma ranking_ne: "ranking d inp ps rks \<Longrightarrow> ps \<noteq> [] \<Longrightarrow> rks \<noteq> []"
  by (auto simp: ranking_def)

lemma ranking_distinct: "ranking d inp ps rks \<Longrightarrow> distinct (map rtp_Name ps) \<Longrightarrow> distinct (map rk_Provider rks)"
  by (metis ranking_def mset_eq_imp_distinct_iff)

lemma set_degrade_order [simp]: "set (degrade_order d rks) = set rks"
  by (simp add: degrade_order_def split: option.split)

section \<open>The chain of fallbacks\<close>

lemma fallback_loop_result:
  assumes "int (length pairs) \<le> max 0 maxChain"
    and "distinct (map pair_String pairs)" "pair_String ` set pairs \<subseteq> set seen"
  shows "int (length (fallback_loop maxChain pairs seen rks)) \<le> max 0 maxChain \<and>
     distinct (map pair_String (fallback_loop maxChain pairs seen rks)) \<and>
     set (fallback_loop maxChain pairs seen rks) \<subseteq>
       set pairs \<union> {pm \<in> (\<lambda>rk. (rk_Provider rk, rk_Model rk)) ` set rks. pair_String pm \<notin> set seen}"
  using assms
proof (induction maxChain pairs seen rks rule: fallback_loop.induct)
  case (2 maxChain pairs seen rp rps)
  have key: "ranked_key rp = pair_String (rk_Provider rp, rk_Model rp)" by (simp add: ranked_key_def pair_String_def)
  consider "int (length pairs) \<ge> maxChain" | "int (length pairs) < maxChain" "ranked_key rp \<in> set seen"
    | (new) "int (length pairs) < maxChain" "ranked_key rp \<notin> set seen" by linarith
  then show ?case
  proof cases
    case new
    have "distinct (map pair_String (pairs @ [(rk_Provider rp, rk_Model rp)]))"
      using 2(4,5) new(2) key by auto
    moreover have "pair_String ` set (pairs @ [(rk_Provider rp, rk_Model rp)]) \<subseteq> set (ranked_key rp # seen)"
      using 2(5) key by auto
    ultimately show ?thesis using 2(2) new key by auto
  qed (use 2 in auto)
qed auto

section \<open>Route\<close>

definition unrouted :: "execution_plan \<Rightarrow> bool" where
  "unrouted plan \<longleftrightarrow> xp_Provider plan = '''' \<and> xp_Model plan = '''' \<and> xp_Fallbacks plan = [] \<and>
     xp_Execution plan = zero_execution \<and> xp_Score plan = Fin 0"

definition routed :: "route_deps \<Rightarrow> quota_input \<Rightarrow> execution_plan \<Rightarrow> route_world \<Rightarrow> bool" where
  "routed d inp plan w \<longleftrightarrow>
     (\<exists>t ps rks. plan = selected_plan d t rks \<and> ps \<noteq> [] \<and> (\<forall>p \<in> set ps. passed d (gate_external d inp) w p) \<and>
        distinct (map rtp_Name ps) \<and> ranking d (gate_external d inp) ps rks)"

text \<open>Recording a decision and its audit records leaves the counters alone.\<close>

lemma route_emitAudit_same: "wp (route_emitAudit d ev inp plan) (\<lambda>_ w'. rw_usage w' = rw_usage w) w"
  unfolding route_emitAudit_def by (rule wp_mono [OF rt_audit_same]) simp

lemma quiet_seq:
  assumes "\<And>w. wp m (\<lambda>_ w'. rw_usage w' = rw_usage w) w" and "\<And>a w'. rw_usage w' = rw_usage w \<Longrightarrow> wp (f a) Q w'"
  shows "wp (m \<bind> f) Q w"
  by (rule wp_seq [OF assms(1)]) (rule assms(2))

lemma quiet_if: "wp (if c then route_emitAudit d ev inp plan else State_Monad.return ()) (\<lambda>_ w'. rw_usage w' = rw_usage w) w"
  by (simp add: wp_return route_emitAudit_same)

lemma routed_same: "rw_usage w' = rw_usage w \<Longrightarrow> routed d inp plan w \<Longrightarrow> routed d inp plan w'"
  by (simp add: routed_def passed_def has_room_def)

lemma set_reg_All [simp]: "set (reg_All ps) = set ps"
  by (simp add: reg_All_def)

lemma reg_Enabled_subset: "set (reg_Enabled ps) \<subseteq> set ps"
  by (auto simp: reg_Enabled_def)

lemma distinct_reg_Enabled: "keyed rtp_Name ps \<Longrightarrow> distinct (map rtp_Name (reg_Enabled ps))"
  by (simp add: reg_Enabled_def reg_All_def keyed_def distinct_map_filter distinct_sql_sort)

lemma gate_external_sel [simp]:
  "rin_EstimatedTokens (gate_external d inp) = rin_EstimatedTokens inp"
  "rin_PreferredRole (gate_external d inp) = rin_PreferredRole inp"
  by (simp_all add: gate_external_def split: option.split)

text \<open>
  A rule for \<open>Route\<close>: a postcondition that only looks at the counters holds if it holds of the empty
  plan, and of the plan for the ranking of the providers that passed.
\<close>

definition counters_only :: "('a \<Rightarrow> route_world \<Rightarrow> bool) \<Rightarrow> bool" where
  "counters_only Q \<longleftrightarrow> (\<forall>x w w'. rw_usage w' = rw_usage w \<longrightarrow> Q x w \<longrightarrow> Q x w')"

lemma counters_onlyD: "counters_only Q \<Longrightarrow> Q x w \<Longrightarrow> rw_usage w' = rw_usage w \<Longrightarrow> Q x w'"
  by (auto simp: counters_only_def)

lemma wp_announce:
  assumes "counters_only Q" "Q plan w" "\<And>w'. Q plan w' \<Longrightarrow> wp m Q w'"
  shows "wp (recordDecision d inp plan \<bind> (\<lambda>_. route_emitAudit d ev inp plan \<bind> (\<lambda>_. m))) Q w"
  by (rule quiet_seq [OF recordDecision_same], rule quiet_seq [OF route_emitAudit_same], rule assms(3),
      rule counters_onlyD [OF assms(1,2)]) simp

lemma wp_announce_more:
  assumes "counters_only Q" "Q plan w"
  shows "wp ((if c then route_emitAudit d ev inp plan else State_Monad.return ()) \<bind> (\<lambda>_. State_Monad.return plan)) Q w"
  by (rule quiet_seq [OF quiet_if]) (simp add: wp_return counters_onlyD [OF assms])

lemma wp_Route_rule:
  assumes Q: "counters_only Q" and none: "\<And>plan. reg_Enabled (rdp_registry d) = [] \<Longrightarrow> unrouted plan \<Longrightarrow> Q plan w"
    and filt: "wp (filter_loop d (gate_external d inp) (reg_Enabled (rdp_registry d)) empty_trace [])
      (\<lambda>(t, ps) w1. if ps = [] then (\<forall>plan. unrouted plan \<longrightarrow> Q plan w1)
         else wp (scoreProviders d ps (gate_external d inp)) (\<lambda>rks w2. Q (selected_plan d t rks) w2) w1) w"
  shows "wp (quota_Route d inp) Q w"
proof (cases "reg_Enabled (rdp_registry d) = []")
  case True
  show ?thesis unfolding quota_Route_def Let_def if_P [OF True]
    by (rule wp_announce [OF Q]) (simp_all add: wp_return none [OF True] unrouted_def empty_plan_def)
next
  case False
  show ?thesis unfolding quota_Route_def Let_def if_not_P [OF False]
  proof (rule wp_seq [OF filt], goal_cases)
    case (1 r w1)
    obtain t ps where r: "r = (t, ps)" by (cases r)
    show ?case
    proof (cases "ps = []")
      case True
      have "Q plan w1" if "unrouted plan" for plan using 1 r True that by simp
      then have more: "wp (route_emitAudit d ev inp' plan \<bind> (\<lambda>_. State_Monad.return plan)) Q w'" if "Q plan w'" for ev inp' plan w'
        using wp_announce_more [OF Q that, of True] by simp
      show ?thesis unfolding r True prod.case if_P [OF refl]
        by (rule wp_announce [OF Q _ more]) (use 1 r True in \<open>simp_all add: unrouted_def empty_plan_def\<close>)
    next
      case False
      have "wp (scoreProviders d ps (gate_external d inp)) (\<lambda>rks w2. Q (selected_plan d t rks) w2) w1" using 1 r False by simp
      then show ?thesis unfolding r prod.case if_not_P [OF False]
        by (rule wp_seq) (rule wp_announce [OF Q _ wp_announce_more [OF Q]])
    qed
  qed
qed

text \<open>What the plan of any call looks like.\<close>

lemma filter_loop_subset:
  "wp (filter_loop d inp ps trace valid) (\<lambda>(trace', valid') w'. set valid' \<subseteq> set valid \<union> set ps) w"
proof (induction ps arbitrary: trace valid w)
  case (Cons p ps)
  have weaken: "wp (filter_loop d inp ps t v) (\<lambda>(trace', valid') w'. set valid' \<subseteq> insert p (set valid \<union> set ps)) w1"
    if "set v \<subseteq> insert p (set valid)" for t v w1
    by (rule wp_mono [OF Cons.IH]) (use that in auto)
  show ?case unfolding filter_loop.simps Let_def
    by (rule wp_seq [OF wpI [where Q = "\<lambda>_ _. True"]]) (auto split: prod.split intro!: weaken)
qed (simp add: wp_return)

definition plan_shape :: "route_deps \<Rightarrow> quota_input \<Rightarrow> execution_plan \<Rightarrow> bool" where
  "plan_shape d inp plan \<longleftrightarrow> unrouted plan \<or>
     (\<exists>t ps rks. plan = selected_plan d t rks \<and> ps \<noteq> [] \<and> set ps \<subseteq> set (rdp_registry d) \<and> ranking d (gate_external d inp) ps rks)"

lemma wp_Route_shape: "wp (quota_Route d inp) (\<lambda>plan _. plan_shape d inp plan) w"
proof (rule wp_Route_rule)
  show "wp (filter_loop d (gate_external d inp) (reg_Enabled (rdp_registry d)) empty_trace [])
      (\<lambda>(t, ps) w1. if ps = [] then (\<forall>plan. unrouted plan \<longrightarrow> plan_shape d inp plan)
         else wp (scoreProviders d ps (gate_external d inp)) (\<lambda>rks w2. plan_shape d inp (selected_plan d t rks)) w1) w"
  proof (rule wp_mono [OF filter_loop_subset], goal_cases)
    case (1 r w1)
    obtain t ps where r: "r = (t, ps)" by (cases r)
    have "set ps \<subseteq> set (rdp_registry d)" using 1 r reg_Enabled_subset by fastforce
    then have "wp (scoreProviders d ps (gate_external d inp)) (\<lambda>rks w2. plan_shape d inp (selected_plan d t rks)) w1" if "ps \<noteq> []"
      by (intro wp_mono [OF wp_scoreProviders]) (use that in \<open>auto simp: plan_shape_def\<close>)
    then show ?case by (auto simp: r plan_shape_def)
  qed
qed (auto simp: counters_only_def plan_shape_def)

text \<open>What the plan of a call within the quotas promises.\<close>

lemma wp_quota_Route:
  assumes "quotas_kept (rdp_registry d) w" "registry_no_wrap (rdp_registry d) (rin_EstimatedTokens inp)" "keyed rtp_Name (rdp_registry d)"
  shows "wp (quota_Route d inp) (\<lambda>plan w'. faded_world w w' \<and> (unrouted plan \<or> routed d inp plan w')) w"
proof (rule wp_Route_rule)
  let ?i = "gate_external d inp"
  let ?Q = "\<lambda>plan w'. faded_world w w' \<and> (unrouted plan \<or> routed d inp plan w')"
  show "counters_only ?Q" unfolding counters_only_def using routed_same faded_world_same faded_world_trans by metis
  have "wp (filter_loop d ?i (reg_Enabled (rdp_registry d)) empty_trace [])
      (\<lambda>(t, ps) w1. faded_world w w1 \<and> (\<forall>p \<in> set ps. passed d ?i w1 p) \<and> distinct (map rtp_Name ps)) w"
    using wp_filter_loop [of d w ?i "reg_Enabled (rdp_registry d)" "[]" empty_trace] assms reg_Enabled_subset distinct_reg_Enabled by simp
  then show "wp (filter_loop d ?i (reg_Enabled (rdp_registry d)) empty_trace [])
      (\<lambda>(t, ps) w1. if ps = [] then (\<forall>plan. unrouted plan \<longrightarrow> ?Q plan w1)
         else wp (scoreProviders d ps ?i) (\<lambda>rks w2. ?Q (selected_plan d t rks) w2) w1) w"
  proof (rule wp_mono, goal_cases)
    case (1 r w1)
    obtain t ps where r: "r = (t, ps)" by (cases r)
    have w1: "faded_world w w1" and ps: "\<forall>p \<in> set ps. passed d ?i w1 p" "distinct (map rtp_Name ps)" using 1 r by auto
    have "wp (scoreProviders d ps ?i) (\<lambda>rks w2. ?Q (selected_plan d t rks) w2) w1" if "ps \<noteq> []"
    proof (rule wp_mono [OF wp_scoreProviders])
      fix rks w2
      assume s: "faded_world w1 w2 \<and> ranking d ?i ps rks"
      have "\<forall>p \<in> set ps. passed d ?i w2 p"
        using passed_faded [of d w1 ?i w2] quotas_kept_faded [OF assms(1) w1] assms(2) ps(1) s by simp
      then have "routed d inp (selected_plan d t rks) w2" unfolding routed_def using ps(2) s that by blast
      then show "?Q (selected_plan d t rks) w2" using faded_world_trans [OF w1] s by blast
    qed
    then show ?case using w1 by (auto simp: r)
  qed
qed simp

section \<open>Scores\<close>

lemma fin_in_rnd: "0 \<le> x \<Longrightarrow> x \<le> 1 \<Longrightarrow> fin_in 0 1 (rnd x)"
  using rnd_unit [of x] by (auto simp: fin_in_def)

lemma fin_in_01 [simp]: "fin_in 0 1 (Fin 0)" "fin_in 0 1 (Fin 1)"
  by (simp_all add: fin_in_def)

lemma latency_in: "fin_in 0 1 (computeLatencyFit p inp)"
  by (simp add: computeLatencyFit_def Let_def fin_in_rnd)

lemma reliability_in: "fin_in 0 1 (computeReliabilityFit p)"
  by (simp add: computeReliabilityFit_def fin_in_rnd)

lemma cost_in: "cst_RelativeCost (rtp_Cost p) \<noteq> NaN \<Longrightarrow> fin_in 0 1 (computeCostEfficiency p)"
  by (cases "cst_RelativeCost (rtp_Cost p)")
    (simp_all add: computeCostEfficiency_def Let_def fin_in_rnd clamp01_in fsub_def)

lemma capability_in: "int (length (rin_RequiredCapabilities inp)) < 2 ^ 53 \<Longrightarrow> fin_in 0 1 (computeModelCapabilityFit p inp)"
proof -
  assume len: "int (length (rin_RequiredCapabilities inp)) < 2 ^ 53"
  let ?n = "length (rin_RequiredCapabilities inp)" and ?m = "length (filter (HasCapability p) (rin_RequiredCapabilities inp))"
  have "?m \<le> ?n" by (rule length_filter_le)
  then have "int ?m < 2 ^ 53" using len by linarith
  then have "rnd (of_nat ?m) = Fin (of_nat ?m)" "rnd (of_nat ?n) = Fin (of_nat ?n)"
    using rnd_int [of "int ?m"] rnd_int [of "int ?n"] len by simp_all
  moreover have "0 \<le> rat_of_nat ?m / rat_of_nat ?n" "rat_of_nat ?m / rat_of_nat ?n \<le> 1" using \<open>?m \<le> ?n\<close> by (simp_all add: divide_le_eq)
  ultimately show ?thesis by (auto simp: computeModelCapabilityFit_def Let_def fin_in_rnd)
qed

text \<open>A 64-bit integer converts to a finite binary64, and a positive one to a positive one.\<close>

lemma rnd_int64: assumes "- (2 ^ 63) \<le> n" "n < 2 ^ 63" shows "\<exists>y. rnd (of_int n) = Fin y \<and> (0 < n \<longrightarrow> 1 \<le> y)"
proof -
  have "\<bar>rat_of_int n\<bar> \<le> rat_of_int (2 ^ 63)" using assms unfolding of_int_abs [symmetric] of_int_le_iff by linarith
  also have "rat_of_int (2 ^ 63) \<le> 2 ^ 1000" by simp
  finally obtain y where y: "rnd (of_int n) = Fin y" using rnd_small by blast
  have "1 \<le> y" if "0 < n" using rnd_mono [of 1 "of_int n"] y that by simp
  then show ?thesis using y by blast
qed

lemma headroom_in: assumes "- (2 ^ 63) \<le> n" "n < 2 ^ 63" "0 < limit" "limit < 2 ^ 63" shows "fin_in 0 1 (headroom n limit)"
proof -
  obtain x where "rnd (of_int n) = Fin x" using rnd_int64 assms(1,2) by blast
  moreover obtain y where "rnd (of_int limit) = Fin y" "1 \<le> y" using rnd_int64 [of limit] assms(3,4) by auto
  ultimately have "fdiv (rnd (of_int n)) (rnd (of_int limit)) \<noteq> NaN" by simp
  then have "fsub (Fin 1) (fdiv (rnd (of_int n)) (rnd (of_int limit))) \<noteq> NaN"
    by (cases "fdiv (rnd (of_int n)) (rnd (of_int limit))") (simp_all add: fsub_def)
  then show ?thesis unfolding headroom_def by (rule clamp01_in)
qed

definition limits_int64 :: "provider_limits \<Rightarrow> bool" where
  "limits_int64 l \<longleftrightarrow> (\<forall>x \<in> {lim_RPM l, lim_TPM l, lim_RPD l, lim_TPD l}. x < 2 ^ 63)"

lemma min_fold_in: "\<forall>x \<in> set (y # xs). fin_in 0 1 x \<Longrightarrow> fin_in 0 1 (fold (\<lambda>s mn. if flt s mn then s else mn) xs y)"
  by (induction xs arbitrary: y) auto

lemma quota_in: "limits_int64 l \<Longrightarrow> fin_in 0 1 (ComputeHeadroom l u est)"
proof -
  assume l: "limits_int64 l"
  let ?e = "if est < 0 then 0 else est"
  have "\<forall>x \<in> set (headrooms l u ?e). fin_in 0 1 x"
    using l wrap64_range by (auto simp: headrooms_def limits_int64_def intro!: headroom_in)
  then show ?thesis using min_fold_in by (auto simp: ComputeHeadroom_def split: list.split)
qed

lemma route_weights:
  "\<exists>w. WeightLatencyFit = Fin w \<and> 0 \<le> w \<and> w \<le> 1" "\<exists>w. WeightQuotaHeadroom = Fin w \<and> 0 \<le> w \<and> w \<le> 1"
  "\<exists>w. WeightReliability = Fin w \<and> 0 \<le> w \<and> w \<le> 1" "\<exists>w. WeightCostEfficiency = Fin w \<and> 0 \<le> w \<and> w \<le> 1"
  "\<exists>w. WeightModelCapability = Fin w \<and> 0 \<le> w \<and> w \<le> 1"
  unfolding WeightLatencyFit_def WeightQuotaHeadroom_def WeightReliability_def WeightCostEfficiency_def WeightModelCapability_def
  by (rule rnd_unit; simp)+

definition scorable :: "quota_input \<Rightarrow> route_provider \<Rightarrow> bool" where
  "scorable inp p \<longleftrightarrow> cst_RelativeCost (rtp_Cost p) \<noteq> NaN \<and> limits_int64 (rtp_Limits p) \<and> int (length (rin_RequiredCapabilities inp)) < 2 ^ 53"

lemma score_in: assumes "scorable inp p" shows "fin_in 0 1 (scp_FinalScore (ScoreProvider p inp u))"
proof -
  have f: "fadd (fadd (fadd (fadd (Fin a) (Fin b)) (Fin c)) (Fin e)) (Fin g) \<noteq> NaN" for a b c e g
    by (intro fadd_not_NaN [OF _ refl]) simp
  have "\<exists>x. fmul (computeLatencyFit p inp) WeightLatencyFit = Fin x"
    "\<exists>x. fmul (ComputeHeadroom (rtp_Limits p) u (rin_EstimatedTokens inp)) WeightQuotaHeadroom = Fin x"
    "\<exists>x. fmul (computeReliabilityFit p) WeightReliability = Fin x" "\<exists>x. fmul (computeCostEfficiency p) WeightCostEfficiency = Fin x"
    "\<exists>x. fmul (computeModelCapabilityFit p inp) WeightModelCapability = Fin x"
    using assms latency_in quota_in reliability_in cost_in capability_in route_weights
    unfolding scorable_def by (blast intro: weighted_finite)+
  then show ?thesis unfolding ScoreProvider_def Let_def using clamp01_in f by auto
qed

lemma rank_score_in: assumes "scorable inp p" shows "fin_in 0 1 (rk_Score (rank_provider d inp p u))"
proof -
  obtain x where "scp_FinalScore (ScoreProvider p inp u) = Fin x" using score_in [OF assms] by (auto simp: fin_in_def)
  moreover have "b \<noteq> NaN" if "flt (Fin 0) b" for b using that by (cases b) simp_all
  ultimately show ?thesis using score_in [OF assms, of u]
    by (auto simp: rank_provider_def Let_def intro!: clamp01_in fadd_Fin_not_NaN)
qed

section \<open>A request and its use\<close>

text \<open>The attempts at a plan, one provider after the other, each with the tokens it used.\<close>

fun record_uses :: "route_deps \<Rightarrow> (string \<times> int) list \<Rightarrow> unit routing" where
  "record_uses d [] = State_Monad.return ()"
| "record_uses d ((n, tokens) # uses) = do { RecordUsage d n tokens; record_uses d uses }"

lemma add_usage_name [simp]: "uz_ProviderName (add_usage tokens now u) = uz_ProviderName u"
  by (simp add: add_usage_def Let_def)

lemma persistState_same: "wp (persistState d s) (\<lambda>_ w'. rw_usage w' = rw_usage w) w"
  by (simp add: persistState_def wp_rules)

lemma wp_RecordUsage:
  "wp (RecordUsage d n tokens)
     (\<lambda>_ w'. \<exists>v now. faded (usage_of w n) (Some v) \<and> usage_of w' = (usage_of w)(n \<mapsto> add_usage tokens now v)) w"
  unfolding RecordUsage_def
proof (rule wp_seq [OF wp_getOrCreate])
  fix s w1
  assume s: "uz_ProviderName s = n \<and> usage_of w1 = (usage_of w)(n \<mapsto> s) \<and> faded (usage_of w n) (Some s) \<and>
    rw_rows w1 = rw_rows w \<and> (usage_of w n = None \<or> usage_of w n = Some s)"
  let ?v = "applyResets s (rdp_clock d (rw_tick w1))" and ?s = "\<lambda>now. add_usage tokens now (applyResets s now)"
  have v: "faded (usage_of w n) (Some ?v)" using s faded_trans [of _ "Some s" "Some ?v"] applyResets_fades by simp
  have "wp (if rdp_db d then persistState d x else State_Monad.return ()) (\<lambda>_ w'. rw_usage w' = rw_usage w2) w2" for x w2
    by (simp add: persistState_same wp_return)
  then have "wp (if rdp_db d then persistState d x else State_Monad.return ())
      (\<lambda>_ w'. \<exists>v now. faded (usage_of w n) (Some v) \<and> usage_of w' = (usage_of w)(n \<mapsto> add_usage tokens now v)) w2"
    if "usage_of w2 = (usage_of w)(n \<mapsto> add_usage tokens (rdp_clock d (rw_tick w1)) ?v)" for x w2
    by (rule wp_mono) (use that v in auto)
  then show "wp (rt_now d \<bind> (\<lambda>now. let s' = ?s now in rt_set s' \<bind> (\<lambda>_. if rdp_db d then persistState d s' else State_Monad.return ())))
      (\<lambda>_ w'. \<exists>v now. faded (usage_of w n) (Some v) \<and> usage_of w' = (usage_of w)(n \<mapsto> add_usage tokens now v)) w1"
    using s by (simp add: Let_def rt_defs wp_bind wp_State wp_rt_tick wp_return usage_set)
qed

text \<open>Recording one use of a provider with room keeps every limit, and the room of the others.\<close>

lemma RecordUsage_kept:
  assumes "quotas_kept (rdp_registry d) w" "registry_no_wrap (rdp_registry d) est" "keyed rtp_Name (rdp_registry d)"
    and "p \<in> set (rdp_registry d)" "has_room w est p" "tokens \<le> max 0 est"
  shows "wp (RecordUsage d (rtp_Name p) tokens)
     (\<lambda>_ w'. quotas_kept (rdp_registry d) w' \<and> (\<forall>q. rtp_Name q \<noteq> rtp_Name p \<longrightarrow> has_room w' est q = has_room w est q)) w"
proof (rule wp_mono [OF wp_RecordUsage], elim exE conjE, intro conjI)
  fix w' v now
  assume v: "faded (usage_of w (rtp_Name p)) (Some v)" "usage_of w' = (usage_of w)(rtp_Name p \<mapsto> add_usage tokens now v)"
  obtain u where u: "usage_of w (rtp_Name p) = Some u" "room (rtp_Limits p) u est" using assms(5) by (auto simp: has_room_def)
  have l: "under_limits (rtp_Limits p) u" "no_wrap (rtp_Limits p) est" "fades u v"
    using assms(1,2,4) u(1) v(1) by (auto simp: quotas_kept_def registry_no_wrap_def)
  have "under_limits (rtp_Limits p) (add_usage tokens now v)"
    using under_limits_add [OF under_limits_fades [OF l(1,3)] l(2) room_fades [OF l u(2)] assms(6)] .
  moreover have "q = p" if "q \<in> set (rdp_registry d)" "rtp_Name q = rtp_Name p" for q
    using keyed_unique [OF assms(3) that(1) assms(4)] that(2) by simp
  ultimately show "quotas_kept (rdp_registry d) w'" using assms(1) v(2) by (auto simp: quotas_kept_def)
  show "\<forall>q. rtp_Name q \<noteq> rtp_Name p \<longrightarrow> has_room w' est q = has_room w est q" using v(2) by (simp add: has_room_def)
qed

lemma record_uses_kept:
  assumes "quotas_kept (rdp_registry d) w" "registry_no_wrap (rdp_registry d) est" "keyed rtp_Name (rdp_registry d)"
    and "distinct (map fst uses)" "\<forall>n \<in> set (map fst uses). \<exists>p \<in> set (rdp_registry d). rtp_Name p = n \<and> has_room w est p"
    and "\<forall>t \<in> set (map snd uses). t \<le> max 0 est"
  shows "wp (record_uses d uses) (\<lambda>_. quotas_kept (rdp_registry d)) w"
  using assms
proof (induction d uses arbitrary: w rule: record_uses.induct)
  case (2 d n tokens uses)
  obtain p where p: "p \<in> set (rdp_registry d)" "rtp_Name p = n" "has_room w est p" using "2.prems"(5) by auto
  have t: "tokens \<le> max 0 est" using "2.prems"(6) by simp
  show ?case
    unfolding record_uses.simps
  proof (rule wp_seq [OF RecordUsage_kept [OF "2.prems"(1-3) p(1,3) t, unfolded p(2)]])
    fix a w1
    assume w1: "quotas_kept (rdp_registry d) w1 \<and> (\<forall>q. rtp_Name q \<noteq> n \<longrightarrow> has_room w1 est q = has_room w est q)"
    have "\<exists>p \<in> set (rdp_registry d). rtp_Name p = m \<and> has_room w1 est p" if m: "m \<in> set (map fst uses)" for m
    proof -
      obtain q where "q \<in> set (rdp_registry d)" "rtp_Name q = m" "has_room w est q" using "2.prems"(5) m by auto
      moreover have "m \<noteq> n" using "2.prems"(4) m by auto
      ultimately show ?thesis using w1 by blast
    qed
    then show "wp (record_uses d uses) (\<lambda>_. quotas_kept (rdp_registry d)) w1" using "2.IH" "2.prems" w1 by simp
  qed
qed (simp add: wp_return)

section \<open>Targets\<close>

lemma fallback_targets:
  assumes "rks \<noteq> []"
  shows "set (AllTargets (selected_plan d t rks)) \<subseteq> (\<lambda>rk. (rk_Provider rk, rk_Model rk)) ` set rks"
    and "int (length (xp_Fallbacks (selected_plan d t rks))) \<le> max_chain d"
    and "distinct (map pair_String (AllTargets (selected_plan d t rks)))"
proof -
  obtain k ks where rks: "rks = k # ks" using assms by (cases rks) auto
  have m: "0 \<le> max_chain d" by (simp add: max_chain_def MaxFallbackChainLength_def split: option.split)
  have key: "ranked_key k = pair_String (rk_Provider k, rk_Model k)" by (simp add: ranked_key_def pair_String_def)
  note f = fallback_loop_result [of "[]" "max_chain d" "[ranked_key k]" "degrade_order d ks", simplified]
  have plan: "AllTargets (selected_plan d t rks) = (rk_Provider k, rk_Model k) # fallback_loop (max_chain d) [] [ranked_key k] (degrade_order d ks)"
    "xp_Fallbacks (selected_plan d t rks) = fallback_loop (max_chain d) [] [ranked_key k] (degrade_order d ks)"
    by (simp_all add: AllTargets_def PrimaryTarget_def selected_plan_def buildFallbackPairs_def Let_def rks)
  show "set (AllTargets (selected_plan d t rks)) \<subseteq> (\<lambda>rk. (rk_Provider rk, rk_Model rk)) ` set rks"
    using f unfolding plan(1) by (auto simp: rks)
  show "int (length (xp_Fallbacks (selected_plan d t rks))) \<le> max_chain d" using f m unfolding plan(2) by (simp add: max_def)
  show "distinct (map pair_String (AllTargets (selected_plan d t rks)))" using f key unfolding plan(1) by auto
qed

lemma routed_target:
  assumes "routed d inp plan w" "t \<in> set (AllTargets plan)"
  shows "\<exists>p. t = (rtp_Name p, '''') \<and> passed d (gate_external d inp) w p"
proof -
  obtain tr ps rks where r: "plan = selected_plan d tr rks" "ps \<noteq> []" "\<forall>p \<in> set ps. passed d (gate_external d inp) w p"
    "ranking d (gate_external d inp) ps rks" using assms(1) by (auto simp: routed_def)
  then obtain rk where "rk \<in> set rks" "t = (rk_Provider rk, rk_Model rk)"
    using fallback_targets(1) [OF ranking_ne [OF r(4,2)], of d tr] assms(2) by auto
  then show ?thesis using r(3,4) by (fastforce simp: ranking_def)
qed

section \<open>Properties\<close>

text \<open>
  C27: Every provider of a plan, the selected one and each fallback, is registered, enabled and reachable,
  external only if both the request and the policy allow it, has the role asked for or the role of a
  fallback, and its counters, as they are when the plan is returned, stay within each known limit of requests
  per minute and day when one more is added, and within each known limit of tokens when the estimate, if positive,
  is added. This is for a tracker whose counters keep their limits, as sequential requests leave it, and for limits
  and an estimate whose sums do not overflow 64 bits.
\<close>

theorem routed_targets_are_allowed:
  assumes "run_state (quota_Route d inp) w = (plan, w')" and "xp_Provider plan \<noteq> ''''" and "t \<in> set (AllTargets plan)"
    and "keyed rtp_Name (rdp_registry d)" and "quotas_kept (rdp_registry d) w" and "registry_no_wrap (rdp_registry d) (rin_EstimatedTokens inp)"
  shows "\<exists>p \<in> set (rdp_registry d). t = (rtp_Name p, '''') \<and> hl_Enabled (rtp_Health p) \<and> hl_Reachable (rtp_Health p) \<and>
     (IsExternal p \<longrightarrow> rin_AllowExternal inp \<and> (\<forall>pol. rdp_policy d = Some pol \<longrightarrow> pol_AllowExternal pol)) \<and>
     (rin_PreferredRole inp \<noteq> '''' \<longrightarrow> HasRole p (rin_PreferredRole inp) \<or> HasRole p RoleFallback) \<and>
     (\<exists>u. usage_of w' (rtp_Name p) = Some u \<and>
        (0 < lim_RPM (rtp_Limits p) \<longrightarrow> uz_RequestsThisMinute u + 1 \<le> lim_RPM (rtp_Limits p)) \<and>
        (0 < lim_RPD (rtp_Limits p) \<longrightarrow> uz_RequestsToday u + 1 \<le> lim_RPD (rtp_Limits p)) \<and>
        (0 < rin_EstimatedTokens inp \<longrightarrow>
          (0 < lim_TPM (rtp_Limits p) \<longrightarrow> uz_TokensThisMinute u + rin_EstimatedTokens inp \<le> lim_TPM (rtp_Limits p)) \<and>
          (0 < lim_TPD (rtp_Limits p) \<longrightarrow> uz_TokensToday u + rin_EstimatedTokens inp \<le> lim_TPD (rtp_Limits p))))"
proof -
  have r: "faded_world w w'" "routed d inp plan w'"
    using wp_run [OF wp_quota_Route assms(1), OF assms(5,6,4)] assms(2) by (auto simp: unrouted_def)
  obtain p where p: "t = (rtp_Name p, '''')" "passed d (gate_external d inp) w' p" using routed_target r(2) assms(3) by blast
  have "rin_AllowExternal inp \<and> (\<forall>pol. rdp_policy d = Some pol \<longrightarrow> pol_AllowExternal pol)"
    if "rin_AllowExternal (gate_external d inp)" using that by (auto simp: gate_external_def split: option.splits if_splits)
  moreover obtain u where u: "usage_of w' (rtp_Name p) = Some u" "room (rtp_Limits p) u (rin_EstimatedTokens inp)"
    using p(2) by (auto simp: passed_def has_room_def)
  moreover have "under_limits (rtp_Limits p) u" "no_wrap (rtp_Limits p) (rin_EstimatedTokens inp)"
    using quotas_kept_faded [OF assms(5) r(1)] u(1) p(2) assms(6) by (auto simp: quotas_kept_def registry_no_wrap_def passed_def)
  note exact = room_iff [OF this, THEN iffD1, OF u(2)]
  show ?thesis using p u(1) calculation(1) exact
    by (intro bexI [of _ p] conjI exI [of _ u]) (auto simp: passed_def fit_for_def keeps_def)
qed

text \<open>
  The chain of fallbacks is no longer than the policy's maximum, or three without one, and no target
  of a plan occurs twice.
\<close>

theorem fallback_chain_is_bounded:
  assumes "run_state (quota_Route d inp) w = (plan, w')"
  shows "int (length (xp_Fallbacks plan)) \<le> max_chain d \<and> distinct (map pair_String (AllTargets plan))"
proof -
  have m: "0 \<le> max_chain d" by (simp add: max_chain_def MaxFallbackChainLength_def split: option.split)
  consider "unrouted plan" | t ps rks where "plan = selected_plan d t rks" "ps \<noteq> []" "ranking d (gate_external d inp) ps rks"
    using wp_run [OF wp_Route_shape assms] by (auto simp: plan_shape_def)
  then show ?thesis
  proof cases
    case 1
    then show ?thesis using m by (simp add: unrouted_def AllTargets_def)
  next
    case 2
    then show ?thesis using fallback_targets(2,3) [OF ranking_ne] by blast
  qed
qed

text \<open>
  The score of a plan is a number of the unit interval, whatever the counters and the clock.
\<close>

theorem plan_score_in_unit_interval:
  assumes "run_state (quota_Route d inp) w = (plan, w')"
    and "\<forall>p \<in> set (rdp_registry d). cst_RelativeCost (rtp_Cost p) \<noteq> NaN \<and> limits_int64 (rtp_Limits p)"
    and "int (length (rin_RequiredCapabilities inp)) < 2 ^ 53"
  shows "fin_in 0 1 (xp_Score plan)"
proof -
  have g: "rin_RequiredCapabilities (gate_external d inp) = rin_RequiredCapabilities inp"
    by (simp add: gate_external_def split: option.split)
  consider "unrouted plan" | t ps rks where "plan = selected_plan d t rks" "ps \<noteq> []" "set ps \<subseteq> set (rdp_registry d)"
    "ranking d (gate_external d inp) ps rks"
    using wp_run [OF wp_Route_shape assms(1)] by (auto simp: plan_shape_def)
  then show ?thesis
  proof cases
    case 1
    then show ?thesis by (simp add: unrouted_def)
  next
    case 2
    have "hd rks \<in> set rks" using ranking_ne [OF 2(4,2)] by simp
    then obtain p u where "p \<in> set ps" "hd rks = rank_provider d (gate_external d inp) p u" using 2(4) by (auto simp: ranking_def)
    moreover have "xp_Score plan = rk_Score (hd rks)" by (simp add: 2(1) selected_plan_def buildFallbackPairs_def Let_def)
    ultimately show ?thesis using rank_score_in [of "gate_external d inp" p] assms(2,3) 2(3) g by (auto simp: scorable_def)
  qed
qed

section \<open>Sequences of requests\<close>

text \<open>
  A request is answered when its plan is returned and the uses of some of its targets, each once and
  each of at most the estimated tokens, are recorded before the next request; the counters may be looked
  at between requests. The clock may return anything.
\<close>

inductive answered :: "route_deps \<Rightarrow> route_world \<Rightarrow> route_world \<Rightarrow> bool" for d where
  look: "run_state (GetUsage d n) w = (u, w') \<Longrightarrow> answered d w w'"
| list: "run_state (GetAllUsage d order) w = (us, w') \<Longrightarrow> answered d w w'"
| refuse: "run_state (quota_Route d inp) w = (plan, w') \<Longrightarrow> registry_no_wrap (rdp_registry d) (rin_EstimatedTokens inp) \<Longrightarrow> answered d w w'"
| serve: "run_state (quota_Route d inp) w = (plan, w1) \<Longrightarrow> registry_no_wrap (rdp_registry d) (rin_EstimatedTokens inp) \<Longrightarrow>
     xp_Provider plan \<noteq> '''' \<Longrightarrow> distinct (map fst uses) \<Longrightarrow> set (map fst uses) \<subseteq> fst ` set (AllTargets plan) \<Longrightarrow>
     \<forall>t \<in> set (map snd uses). t \<le> max 0 (rin_EstimatedTokens inp) \<Longrightarrow> run_state (record_uses d uses) w1 = ((), w') \<Longrightarrow> answered d w w'"

lemma GetAllUsage_faded: "wp (GetAllUsage d order) (\<lambda>_ w'. faded_world w w') w"
proof -
  have "row_of uz_ProviderName (map (\<lambda>s. applyResets s now) us) n = map_option (\<lambda>s. applyResets s now) (row_of uz_ProviderName us n)" for now us n
    by (induction us) auto
  moreover have "faded x (map_option (\<lambda>s. applyResets s now) x)" for x now by (cases x) (simp_all add: applyResets_fades)
  ultimately show ?thesis by (simp add: GetAllUsage_def rt_defs wp_rules Let_def faded_world_def)
qed

lemma answered_kept:
  assumes "answered d w w'" "keyed rtp_Name (rdp_registry d)" "quotas_kept (rdp_registry d) w"
  shows "quotas_kept (rdp_registry d) w'"
  using assms(1)
proof cases
  case (look n u)
  then show ?thesis using wp_run [OF GetUsage_faded look] quotas_kept_faded assms(3) by blast
next
  case (list order us)
  then show ?thesis using wp_run [OF GetAllUsage_faded list] quotas_kept_faded assms(3) by blast
next
  case (refuse inp plan)
  then show ?thesis using wp_run [OF wp_quota_Route refuse(1)] quotas_kept_faded assms(2,3) by blast
next
  case (serve inp plan w1 uses)
  have r: "faded_world w w1" "routed d inp plan w1"
    using wp_run [OF wp_quota_Route serve(1), OF assms(3) serve(2) assms(2)] serve(3) by (auto simp: unrouted_def)
  have "\<exists>p \<in> set (rdp_registry d). rtp_Name p = n \<and> has_room w1 (rin_EstimatedTokens inp) p" if n: "n \<in> set (map fst uses)" for n
  proof -
    obtain t where t: "t \<in> set (AllTargets plan)" "n = fst t" using serve(5) n by auto
    obtain p where "t = (rtp_Name p, '''')" "passed d (gate_external d inp) w1 p" using routed_target [OF r(2) t(1)] by blast
    then show ?thesis using t(2) by (auto simp: passed_def)
  qed
  then show ?thesis
    using wp_run [OF record_uses_kept serve(7)] quotas_kept_faded [OF assms(3) r(1)] serve(2,4,6) assms(2) by blast
qed

text \<open>
  C28: From an empty tracker, whatever the clock returns, requests that are answered one after the other
  never take a counter of a registered provider over a known limit of requests or tokens, per minute or
  per day.
\<close>

theorem sequential_requests_keep_quotas:
  assumes "(answered d)\<^sup>*\<^sup>* w0 w" and "rw_usage w0 = []" and "keyed rtp_Name (rdp_registry d)"
  shows "quotas_kept (rdp_registry d) w"
  using assms(1)
proof (induction rule: rtranclp_induct)
  case base
  then show ?case using assms(2) by (simp add: quotas_kept_def)
next
  case (step w w')
  then show ?case using answered_kept assms(3) by blast
qed

section \<open>Persistence\<close>

definition same_counters :: "usage_state \<Rightarrow> usage_state \<Rightarrow> bool" where
  "same_counters u v \<longleftrightarrow> uz_RequestsThisMinute u = uz_RequestsThisMinute v \<and> uz_TokensThisMinute u = uz_TokensThisMinute v \<and>
     uz_RequestsToday u = uz_RequestsToday v \<and> uz_TokensToday u = uz_TokensToday v"

lemma Truncate_Truncate: "0 < a \<Longrightarrow> a dvd b \<Longrightarrow> 0 < b \<Longrightarrow> Truncate (Truncate t a) b = Truncate t b"
proof -
  assume "0 < a" "a dvd b" "0 < b"
  then obtain k where k: "b = a * k" "0 < k" by (auto simp: dvd_def zero_less_mult_iff)
  have "t mod b = a * ((t div a) mod k) + t mod a" unfolding k(1) by (rule zmod_zmult2_eq) (use k(2) in simp)
  moreover have "(a * (t div a)) mod b = a * ((t div a) mod k)" unfolding k(1) mult_mod_right ..
  moreover have "t - t mod a = a * (t div a)" by (simp add: minus_mod_eq_mult_div)
  ultimately show ?thesis by (simp add: Truncate_def)
qed

lemma row_resets: "1000 \<le> uz_LastUpdated u \<Longrightarrow> same_counters (applyResets (usage_row u) now) (applyResets u now)"
proof -
  assume t: "1000 \<le> uz_LastUpdated u"
  then have "Truncate (uz_LastUpdated u) 1000 \<noteq> 0" by (simp add: Truncate_def)
  moreover have "Truncate (Truncate (uz_LastUpdated u) 1000) Minute = Truncate (uz_LastUpdated u) Minute"
    "Truncate (Truncate (uz_LastUpdated u) 1000) (24 * Hour) = Truncate (uz_LastUpdated u) (24 * Hour)"
    by (rule Truncate_Truncate; simp add: duration_defs)+
  ultimately show ?thesis using t by (simp add: applyResets_def usage_row_def same_counters_def Let_def)
qed

lemma usage_upsert_row: "row_of uz_ProviderName (usage_upsert s us) = (row_of uz_ProviderName us)(uz_ProviderName s \<mapsto> s)"
  by (auto simp: usage_upsert_def row_of_snoc usage_set)

lemma load_rows_row:
  "keyed uz_ProviderName rows \<Longrightarrow>
   row_of uz_ProviderName (load_rows rows us) n = (case row_of uz_ProviderName rows n of Some s \<Rightarrow> Some s | None \<Rightarrow> row_of uz_ProviderName us n)"
proof (induction rows arbitrary: us)
  case (Cons r rows)
  then have "row_of uz_ProviderName rows (uz_ProviderName r) = None" by (simp add: row_of_None_iff)
  then show ?case using Cons by (auto simp: load_rows_def usage_upsert_row split: option.split)
qed (simp add: load_rows_def)

lemma keyed_usage_upsert: "keyed uz_ProviderName rows \<Longrightarrow> keyed uz_ProviderName (usage_upsert s rows)"
  by (auto simp: usage_upsert_def row_of_None_iff intro: keyed_append keyed_sql_update)

lemma wp_RecordUsage_persisted:
  assumes "rdp_db d" "\<forall>k. rdp_exec_ok d k" "\<forall>k. 1000 \<le> rdp_clock d k" "keyed uz_ProviderName (rw_rows w)"
  shows "wp (RecordUsage d n tokens)
     (\<lambda>_ w'. \<exists>u. usage_of w' n = Some u \<and> 1000 \<le> uz_LastUpdated u \<and> keyed uz_ProviderName (rw_rows w') \<and>
        (usage_fits u \<longrightarrow> row_of uz_ProviderName (rw_rows w') n = Some (usage_row u))) w"
  unfolding RecordUsage_def
proof (rule wp_seq [OF wp_getOrCreate])
  fix s w1
  assume s: "uz_ProviderName s = n \<and> usage_of w1 = (usage_of w)(n \<mapsto> s) \<and> faded (usage_of w n) (Some s) \<and>
    rw_rows w1 = rw_rows w \<and> (usage_of w n = None \<or> usage_of w n = Some s)"
  let ?u = "add_usage tokens (rdp_clock d (rw_tick w1)) (applyResets s (rdp_clock d (rw_tick w1)))"
  have u: "uz_LastUpdated ?u = rdp_clock d (rw_tick w1)" "uz_ProviderName ?u = n" "uz_ProviderName (usage_row ?u) = n"
    using s by (simp_all add: add_usage_def usage_row_def Let_def)
  have "row_of uz_ProviderName (usage_upsert (usage_row ?u) (rw_rows w)) n = Some (usage_row ?u)"
    using u(3) by (simp add: usage_upsert_row)
  then show "wp (rt_now d \<bind> (\<lambda>now. let s' = add_usage tokens now (applyResets s now)
      in rt_set s' \<bind> (\<lambda>_. if rdp_db d then persistState d s' else State_Monad.return ())))
     (\<lambda>_ w'. \<exists>u. usage_of w' n = Some u \<and> 1000 \<le> uz_LastUpdated u \<and> keyed uz_ProviderName (rw_rows w') \<and>
        (usage_fits u \<longrightarrow> row_of uz_ProviderName (rw_rows w') n = Some (usage_row u))) w1"
    using s u assms
    by (simp add: Let_def rt_defs persistState_def wp_bind wp_State wp_rt_tick wp_return usage_set keyed_usage_upsert)
qed

text \<open>
  C29: A use that was recorded and written survives a restart: a fresh tracker that loads the rows answers
  every later question about the provider with the counters the old tracker would have answered.
\<close>

theorem usage_survives_restart:
  assumes "run_state (RecordUsage d n tokens) w = (r, w1)" and "run_state (LoadFromDB d) (w1\<lparr>rw_usage := []\<rparr>) = (e, w2)"
    and "rdp_db d" and "\<forall>k. rdp_exec_ok d k" and "rdp_fetch d (rw_tick w1) = Complete"
    and "\<forall>k. 1000 \<le> rdp_clock d k" and "keyed uz_ProviderName (rw_rows w)" and "\<forall>u. usage_of w1 n = Some u \<longrightarrow> usage_fits u"
  shows "e = None \<and> (\<exists>u v. usage_of w1 n = Some u \<and> usage_of w2 n = Some v \<and>
     (\<forall>now. same_counters (applyResets v now) (applyResets u now)))"
proof -
  obtain u where u: "usage_of w1 n = Some u" "1000 \<le> uz_LastUpdated u" "keyed uz_ProviderName (rw_rows w1)"
    "row_of uz_ProviderName (rw_rows w1) n = Some (usage_row u)"
    using wp_run [OF wp_RecordUsage_persisted assms(1), OF assms(3,4,6,7)] assms(8) by auto
  have "wp (LoadFromDB d) (\<lambda>e w2. e = None \<and> rw_usage w2 = load_rows (rw_rows w1) []) (w1\<lparr>rw_usage := []\<rparr>)"
    using assms(3,5) by (simp add: LoadFromDB_def wp_rules)
  then have "e = None" "rw_usage w2 = load_rows (rw_rows w1) []" using wp_run assms(2) by fastforce+
  then show ?thesis using u load_rows_row [OF u(3), of "[]" n] row_resets [OF u(2)] by simp
qed

section \<open>Witnesses\<close>

text \<open>A registry with one local provider, a clock that stands still, and a request that names no role.\<close>

definition local_provider :: "int \<Rightarrow> route_provider" where
  "local_provider rpm =
     \<lparr>rtp_Name = ''ollama'', rtp_Kind = KindLocal, rtp_Roles = [''fast''], rtp_Capabilities = [],
      rtp_Limits = \<lparr>lim_RPM = rpm, lim_TPM = 100, lim_RPD = 0, lim_TPD = 0\<rparr>,
      rtp_Cost = \<lparr>cst_CostClass = CostLocal, cst_RelativeCost = Fin 0\<rparr>,
      rtp_Health = \<lparr>hl_Enabled = True, hl_Reachable = True, hl_Degraded = False, hl_LastCheckedAt = 0\<rparr>\<rparr>"

definition one_provider :: "int \<Rightarrow> route_deps" where
  "one_provider rpm =
     \<lparr>rdp_clock = (\<lambda>_. 5000), rdp_newUUID = (\<lambda>_. ''id''), rdp_db = True, rdp_exec_ok = (\<lambda>_. True), rdp_fetch = (\<lambda>_. Complete),
      rdp_auditor = None, rdp_registry = [local_provider rpm], rdp_policy = None, rdp_modelExecMap = None\<rparr>"

definition plain_input :: quota_input where
  "plain_input =
     \<lparr>rin_GoalType = ''goal'', rin_TaskType = ''task'', rin_PreferredRole = '''', rin_EstimatedTokens = 10, rin_LatencyBudgetMs = 0,
      rin_ConfidenceRequired = Fin 0, rin_AllowExternal = False, rin_RequiredCapabilities = []\<rparr>"

definition start_world :: route_world where
  "start_world = \<lparr>rw_usage = [], rw_rows = [], rw_tick = 0, rw_recent = [], rw_audit = []\<rparr>"

lemmas example_defs = one_provider_def local_provider_def plain_input_def start_world_def

text \<open>The call with one provider, for any counters that leave room.\<close>

lemma SliceStable_single [simp]: "SliceStable before [x] = [x]"
  by (simp add: SliceStable_short insertionSort_def)

lemma one_provider_get:
  "rw_usage w = [] \<or> rw_usage w = [fresh_usage ''ollama'' 5000] \<Longrightarrow>
   wp (GetUsage (one_provider rpm) ''ollama'') Q w =
     Q (fresh_usage ''ollama'' 5000) (w\<lparr>rw_tick := rw_tick w + (if rw_usage w = [] then 2 else 1), rw_usage := [fresh_usage ''ollama'' 5000]\<rparr>)"
  by (auto simp: GetUsage_def getOrCreate_def rt_defs wp_rules one_provider_def fresh_usage_def applyResets_def)

lemma one_provider_Route:
  assumes "rw_usage w = [] \<or> rw_usage w = [fresh_usage ''ollama'' 5000]" and "1 \<le> rpm"
  shows "wp (quota_Route (one_provider rpm) plain_input)
     (\<lambda>plan w'. xp_Provider plan = ''ollama'' \<and> xp_Fallbacks plan = [] \<and> rw_usage w' = [fresh_usage ''ollama'' 5000]) w"
proof (rule wp_Route_rule)
  let ?d = "one_provider rpm" and ?p = "local_provider rpm"
  have q: "hl_Enabled (rtp_Health ?p)" "hl_Reachable (rtp_Health ?p)" "\<not> IsExternal ?p" "rin_PreferredRole plain_input = []"
    "CheckQuota (rtp_Limits ?p) (fresh_usage ''ollama'' 5000) (rin_EstimatedTokens plain_input) = ('''', True)"
    using assms(2) by (simp_all add: example_defs IsExternal_def KindLocal_def KindCloud_def KindRouter_def CheckQuota_def fresh_usage_def wrap64_def)
  have p: "rtp_Name ?p = ''ollama''" "reg_Enabled (rdp_registry ?d) = [?p]" "gate_external ?d plain_input = plain_input" "rdp_policy ?d = None"
    by (simp_all add: example_defs reg_Enabled_def reg_All_def gate_external_def)
  show "wp (filter_loop ?d (gate_external ?d plain_input) (reg_Enabled (rdp_registry ?d)) empty_trace [])
     (\<lambda>(t, ps) w1. if ps = [] then \<forall>plan. unrouted plan \<longrightarrow> xp_Provider plan = ''ollama'' \<and> xp_Fallbacks plan = [] \<and> rw_usage w1 = [fresh_usage ''ollama'' 5000]
       else wp (scoreProviders ?d ps (gate_external ?d plain_input))
         (\<lambda>rks w2. xp_Provider (selected_plan ?d t rks) = ''ollama'' \<and> xp_Fallbacks (selected_plan ?d t rks) = [] \<and> rw_usage w2 = [fresh_usage ''ollama'' 5000]) w1) w"
    using assms by (simp add: p q Let_def filterProvider_def wp_rules one_provider_get scoreProviders_def selected_plan_def buildFallbackPairs_def
        degrade_order_def)
qed (auto simp: counters_only_def example_defs reg_Enabled_def reg_All_def)

lemma one_provider_facts:
  "keyed rtp_Name (rdp_registry (one_provider rpm))" "quotas_kept (rdp_registry (one_provider rpm)) start_world"
  "rpm < 2 ^ 63 - 1 \<Longrightarrow> registry_no_wrap (rdp_registry (one_provider rpm)) (rin_EstimatedTokens plain_input)"
  by (simp_all add: example_defs quotas_kept_def registry_no_wrap_def no_wrap_def)

lemma one_provider_run:
  "\<exists>plan w1. run_state (quota_Route (one_provider 5) plain_input) start_world = (plan, w1) \<and>
     xp_Provider plan = ''ollama'' \<and> xp_Fallbacks plan = [] \<and> rw_usage w1 = [fresh_usage ''ollama'' 5000]"
  using one_provider_Route [of start_world 5] by (simp add: wp_def start_world_def split: prod.splits)

theorem routed_targets_are_allowed_witness:
  "\<exists>plan w' u. run_state (quota_Route (one_provider 5) plain_input) start_world = (plan, w') \<and> xp_Provider plan = ''ollama'' \<and>
     usage_of w' ''ollama'' = Some u \<and> uz_RequestsThisMinute u + 1 \<le> 5 \<and> uz_TokensThisMinute u + 10 \<le> 100"
proof -
  obtain plan w1 where r: "run_state (quota_Route (one_provider 5) plain_input) start_world = (plan, w1)" "xp_Provider plan = ''ollama''"
    using one_provider_run by blast
  have "(''ollama'', xp_Model plan) \<in> set (AllTargets plan)" using r(2) by (simp add: AllTargets_def PrimaryTarget_def)
  from routed_targets_are_allowed [OF r(1) _ this one_provider_facts(1,2)]
  have "\<exists>u. usage_of w1 ''ollama'' = Some u \<and> uz_RequestsThisMinute u + 1 \<le> 5 \<and> uz_TokensThisMinute u + 10 \<le> 100"
    using r(2) one_provider_facts(3) [of 5] by (auto simp: example_defs)
  then show ?thesis using r by blast
qed

theorem fallback_chain_is_bounded_witness:
  "int (length (xp_Fallbacks (fst (run_state (quota_Route (one_provider 5) plain_input) start_world)))) \<le> 3"
proof -
  obtain plan w1 where r: "run_state (quota_Route (one_provider 5) plain_input) start_world = (plan, w1)" using one_provider_run by blast
  have "max_chain (one_provider 5) = 3" by (simp add: max_chain_def one_provider_def MaxFallbackChainLength_def)
  then show ?thesis using fallback_chain_is_bounded [OF r] r by simp
qed

theorem plan_score_in_unit_interval_witness:
  "fin_in 0 1 (xp_Score (fst (run_state (quota_Route (one_provider 5) plain_input) start_world)))"
proof -
  obtain plan w1 where r: "run_state (quota_Route (one_provider 5) plain_input) start_world = (plan, w1)" using one_provider_run by blast
  have "\<forall>p \<in> set (rdp_registry (one_provider 5)). cst_RelativeCost (rtp_Cost p) \<noteq> NaN \<and> limits_int64 (rtp_Limits p)"
    "int (length (rin_RequiredCapabilities plain_input)) < 2 ^ 53" by (simp_all add: example_defs limits_int64_def)
  from plan_score_in_unit_interval [OF r this] show ?thesis using r by simp
qed

text \<open>One request of four tokens answered.\<close>

theorem sequential_requests_keep_quotas_witness:
  "quotas_kept [local_provider 5]
     (snd (run_state (record_uses (one_provider 5) [(''ollama'', 4)]) (snd (run_state (quota_Route (one_provider 5) plain_input) start_world))))"
proof -
  let ?d = "one_provider 5"
  obtain plan w1 where r: "run_state (quota_Route ?d plain_input) start_world = (plan, w1)" "xp_Provider plan = ''ollama''"
    using one_provider_run by blast
  obtain w2 where w2: "run_state (record_uses ?d [(''ollama'', 4)]) w1 = ((), w2)" by (metis surj_pair old.unit.exhaust)
  have "set (map fst [(''ollama'', 4 :: int)]) \<subseteq> fst ` set (AllTargets plan)" using r(2) by (simp add: AllTargets_def PrimaryTarget_def)
  then have "answered ?d start_world w2"
    using answered.serve [OF r(1) one_provider_facts(3), of "[(''ollama'', 4)]" w2] r(2) w2 by (simp add: plain_input_def)
  then have "quotas_kept (rdp_registry ?d) w2"
    by (rule sequential_requests_keep_quotas [OF r_into_rtranclp _ one_provider_facts(1)]) (simp add: start_world_def)
  then show ?thesis using r(1) w2 by (simp add: one_provider_def)
qed

lemma one_provider_record:
  assumes "rw_usage w = [u]" "uz_ProviderName u = ''ollama''" "uz_LastUpdated u = 5000"
  shows "wp (RecordUsage (one_provider rpm) ''ollama'' tokens) (\<lambda>_ w'. rw_usage w' = [add_usage tokens 5000 u]) w"
  using assms by (simp add: RecordUsage_def getOrCreate_def rt_defs persistState_def wp_rules Let_def applyResets_def one_provider_def)

theorem usage_survives_restart_witness:
  "\<exists>u v. usage_of (snd (run_state (RecordUsage (one_provider 5) ''ollama'' 4) start_world)) ''ollama'' = Some u \<and>
     usage_of (snd (run_state (LoadFromDB (one_provider 5))
       (snd (run_state (RecordUsage (one_provider 5) ''ollama'' 4) start_world)\<lparr>rw_usage := []\<rparr>))) ''ollama'' = Some v \<and>
     same_counters (applyResets v 7000) (applyResets u 7000)"
proof -
  let ?d = "one_provider 5"
  obtain r w1 where r: "run_state (RecordUsage ?d ''ollama'' 4) start_world = (r, w1)" by (metis surj_pair)
  obtain e w2 where e: "run_state (LoadFromDB ?d) (w1\<lparr>rw_usage := []\<rparr>) = (e, w2)" by (metis surj_pair)
  obtain v now where v: "faded (usage_of start_world ''ollama'') (Some v)" "usage_of w1 ''ollama'' = Some (add_usage 4 now v)"
    using wp_run [OF wp_RecordUsage r] by auto
  then have "zero_counters v" by (simp add: start_world_def)
  then have f: "\<forall>u. usage_of w1 ''ollama'' = Some u \<longrightarrow> usage_fits u"
    using v(2) by (simp add: zero_counters_def add_usage_def usage_fits_def int4_def wrap64_def Let_def)
  have "e = None \<and> (\<exists>u v. usage_of w1 ''ollama'' = Some u \<and> usage_of w2 ''ollama'' = Some v \<and>
     (\<forall>now. same_counters (applyResets v now) (applyResets u now)))"
    by (rule usage_survives_restart [OF r e _ _ _ _ _ f]) (simp_all add: example_defs)
  then show ?thesis using r e by auto
qed

text \<open>
  Requests that overlap are not covered: with a limit of one request per minute, two requests routed
  before the use of either is recorded both get the provider, and its counter ends at two.
\<close>

lemma overlapping_requests_exceed_the_limit:
  "wp (do { p1 \<leftarrow> quota_Route (one_provider 1) plain_input; p2 \<leftarrow> quota_Route (one_provider 1) plain_input;
            RecordUsage (one_provider 1) (xp_Provider p1) 0; RecordUsage (one_provider 1) (xp_Provider p2) 0 })
     (\<lambda>_ w. map uz_RequestsThisMinute (rw_usage w) = [2]) start_world"
proof (rule wp_seq [OF one_provider_Route])
  fix p1 :: execution_plan and w1 :: route_world
  assume p1: "xp_Provider p1 = ''ollama'' \<and> xp_Fallbacks p1 = [] \<and> rw_usage w1 = [fresh_usage ''ollama'' 5000]"
  show "wp (quota_Route (one_provider 1) plain_input \<bind> (\<lambda>p2. RecordUsage (one_provider 1) (xp_Provider p1) 0 \<bind>
      (\<lambda>_. RecordUsage (one_provider 1) (xp_Provider p2) 0))) (\<lambda>_ w. map uz_RequestsThisMinute (rw_usage w) = [2]) w1"
  proof (rule wp_seq [OF one_provider_Route])
    fix p2 :: execution_plan and w2 :: route_world
    assume p2: "xp_Provider p2 = ''ollama'' \<and> xp_Fallbacks p2 = [] \<and> rw_usage w2 = [fresh_usage ''ollama'' 5000]"
    have one: "wp (RecordUsage (one_provider 1) ''ollama'' 0) (\<lambda>_ w'. rw_usage w' = [add_usage 0 5000 (fresh_usage ''ollama'' 5000)]) w2"
      by (rule one_provider_record) (use p2 in \<open>simp_all add: fresh_usage_def\<close>)
    show "wp (RecordUsage (one_provider 1) (xp_Provider p1) 0 \<bind> (\<lambda>_. RecordUsage (one_provider 1) (xp_Provider p2) 0))
        (\<lambda>_ w. map uz_RequestsThisMinute (rw_usage w) = [2]) w2"
      unfolding p1 [THEN conjunct1] p2 [THEN conjunct1]
      by (rule wp_seq [OF one], rule wp_mono [OF one_provider_record])
        (auto simp: fresh_usage_def add_usage_def Let_def wrap64_def)
  qed (use p1 in simp_all)
qed (simp_all add: start_world_def)

end
