(* ===== verification/Provider_Catalog.thy ===== *)
theory Provider_Catalog
  imports Quota_Routing Providers
begin

text \<open>
  The provider catalog: \<open>types.go\<close>, \<open>loader.go\<close>, \<open>execution_loader.go\<close>, \<open>global_policy.go\<close>,
  \<open>registry.go\<close>, \<open>resolver.go\<close>, \<open>validation_types.go\<close>, \<open>validation_rules.go\<close> and
  \<open>validator.go\<close> of \<open>src/internal/agent/provider_catalog\<close>, and the lines of the two programs
  that hand its results on: the candidate chains of the worker and the execution map and the policy of
  the router. The directory and the YAML decoder are arguments. Text is the bytes of UTF-8. A Go map that is visited is the list of its entries in
  the order of the visit.
\<close>

section \<open>Catalog files\<close>

definition MaxModelsPerProvider :: nat where "MaxModelsPerProvider = 10"

record model_execution_spec =
  me_TimeoutSeconds :: int
  me_Think :: string
  me_JSONMode :: bool
  me_MaxOutputTokens :: int

record model_spec =
  ms_Name :: string
  ms_Enabled :: bool
  ms_Roles :: "string list"
  ms_Capabilities :: "string list"
  ms_CostClass :: string
  ms_RelativeCost :: f64
  ms_MaxOutputTokens :: int
  ms_Execution :: model_execution_spec

record provider_spec =
  psp_Name :: string
  psp_Kind :: string
  psp_Enabled :: bool

record connection_spec =
  cns_BaseURL :: string
  cns_APIKeyEnv :: string
  cns_TimeoutSeconds :: int

record routing_spec =
  rsp_Roles :: "string list"
  rsp_FallbackPriority :: int
  rsp_AllowExternal :: bool

text \<open>A candidate of an execution profile is the name of the model it refers to.\<close>

record catalog_file =
  cf_Provider :: provider_spec
  cf_Connection :: connection_spec
  cf_Limits :: provider_limits
  cf_Routing :: routing_spec
  cf_Models :: "model_spec list"
  cf_ExecutionProfiles :: "(string \<times> string list) list"

record catalog_model =
  pm_ProviderName :: string
  pm_ModelName :: string
  pm_ProviderKind :: string
  pm_Roles :: "string list"
  pm_Capabilities :: "string list"
  pm_CostClass :: string
  pm_RelativeCost :: f64
  pm_MaxOutputTokens :: int
  pm_Enabled :: bool

definition pm_HasRole :: "catalog_model \<Rightarrow> string \<Rightarrow> bool" where
  "pm_HasRole pm role \<longleftrightarrow> (\<exists>r \<in> set (pm_Roles pm). r = role)"

definition pm_HasCapability :: "catalog_model \<Rightarrow> string \<Rightarrow> bool" where
  "pm_HasCapability pm cap \<longleftrightarrow> (\<exists>c \<in> set (pm_Capabilities pm). c = cap)"

definition pm_IsLocal :: "catalog_model \<Rightarrow> bool" where
  "pm_IsLocal pm \<longleftrightarrow> pm_ProviderKind pm = ''local''"

definition pm_IsExternal :: "catalog_model \<Rightarrow> bool" where
  "pm_IsExternal pm \<longleftrightarrow> pm_ProviderKind pm = ''cloud'' \<or> pm_ProviderKind pm = ''router''"

section \<open>Issues\<close>

datatype severity = SeverityError | SeverityWarning

record issue =
  vi_File :: string
  vi_Provider :: string
  vi_Model :: string
  vi_Field :: string
  vi_Code :: string
  vi_Message :: string
  vi_Severity :: severity

record validation_result =
  vr_Valid :: bool
  vr_ErrorCount :: nat
  vr_WarningCount :: nat
  vr_Issues :: "issue list"

definition newline :: string where "newline = [CHR 0x0A]"
definition en_dash :: string where "en_dash = [CHR 0xE2, CHR 0x80, CHR 0x93]"

definition issue_line :: "issue \<Rightarrow> string" where
  "issue_line i =
     (let sev = (if vi_Severity i = SeverityWarning then ''WARN '' else ''ERROR'');
          location = vi_File i @ (if vi_Provider i \<noteq> '''' then '' > '' @ vi_Provider i else '''') @
            (if vi_Model i \<noteq> '''' then '' > '' @ vi_Model i else '''') @
            (if vi_Field i \<noteq> '''' then '' > '' @ vi_Field i else '''')
      in ''  ['' @ sev @ ''] '' @ location @ '': '' @ vi_Message i @ '' ('' @ vi_Code i @ '')'' @ newline)"

definition result_Text :: "validation_result \<Rightarrow> string" where
  "result_Text r =
     (if vr_Valid r then ''Provider catalog validation: VALID'' else ''Provider catalog validation: INVALID'') @ newline @
     ''  Errors:   '' @ nat_str (vr_ErrorCount r) @ newline @ ''  Warnings: '' @ nat_str (vr_WarningCount r) @ newline @
     (if vr_Issues r = [] then '''' else newline @ ''Issues:'' @ newline @ concat (map issue_line (vr_Issues r)))"

definition issue_before :: "issue \<Rightarrow> issue \<Rightarrow> bool" where
  "issue_before a b =
     (if vi_File a \<noteq> vi_File b then str_less (vi_File a) (vi_File b)
      else if vi_Provider a \<noteq> vi_Provider b then str_less (vi_Provider a) (vi_Provider b)
      else if vi_Model a \<noteq> vi_Model b then str_less (vi_Model a) (vi_Model b)
      else if vi_Field a \<noteq> vi_Field b then str_less (vi_Field a) (vi_Field b)
      else str_less (vi_Code a) (vi_Code b))"

definition sortIssues :: "issue list \<Rightarrow> issue list" where
  "sortIssues is = SliceStable issue_before is"

definition buildResult :: "issue list \<Rightarrow> validation_result" where
  "buildResult issues =
     (let is = sortIssues issues;
          errors = length (filter (\<lambda>i. vi_Severity i = SeverityError) is);
          warnings = length (filter (\<lambda>i. vi_Severity i = SeverityWarning) is)
      in \<lparr>vr_Valid = (errors = 0), vr_ErrorCount = errors, vr_WarningCount = warnings, vr_Issues = is\<rparr>)"

section \<open>The rules for one file\<close>

definition ValidKinds :: "string list" where "ValidKinds = [''local'', ''cloud'', ''router'']"
definition ValidCostClasses :: "string list" where "ValidCostClasses = [''free'', ''local'', ''cheap'', ''unknown'']"
definition ValidCostClassesExtended :: "string list" where
  "ValidCostClassesExtended = [''free'', ''local'', ''cheap'', ''promo'', ''unknown'']"
definition ValidRoles :: "string list" where
  "ValidRoles = [''fast'', ''planner'', ''reviewer'', ''batch'', ''fallback'']"
definition ValidCapabilities :: "string list" where
  "ValidCapabilities = [''json_mode'', ''long_context'', ''low_latency'', ''tool_calling'', ''structured_output'']"
definition CriticalRoles :: "string list" where "CriticalRoles = [''fast'', ''planner'', ''fallback'']"

text \<open>The pattern of the names of environment variables.\<close>

definition env_start :: "char \<Rightarrow> bool" where
  "env_start c \<longleftrightarrow> (let n = (of_char c :: nat) in 65 \<le> n \<and> n \<le> 90 \<or> 97 \<le> n \<and> n \<le> 122 \<or> n = 95)"

definition env_part :: "char \<Rightarrow> bool" where
  "env_part c \<longleftrightarrow> env_start c \<or> (let n = (of_char c :: nat) in 48 \<le> n \<and> n \<le> 57)"

definition envVarRegex :: "string \<Rightarrow> bool" where
  "envVarRegex s = (case s of [] \<Rightarrow> False | c # cs \<Rightarrow> env_start c \<and> (\<forall>x \<in> set cs. env_part x))"

definition fmt_f4 :: "f64 \<Rightarrow> string" where
  "fmt_f4 x =
     (case x of
        Fin r \<Rightarrow>
          (let n = nat \<bar>round_even (10000 * r)\<bar> in
           (if r < 0 then ''-'' else '''') @ nat_str (n div 10000) @ ''.'' @
             nat_str (n div 1000 mod 10) @ nat_str (n div 100 mod 10) @ nat_str (n div 10 mod 10) @ nat_str (n mod 10))
      | PInf \<Rightarrow> ''+Inf'' | NInf \<Rightarrow> ''-Inf'' | NaN \<Rightarrow> ''NaN'')"

abbreviation cf_name :: "catalog_file \<Rightarrow> string" where "cf_name e \<equiv> psp_Name (cf_Provider e)"

definition file_issue :: "string \<Rightarrow> string \<Rightarrow> string \<Rightarrow> string \<Rightarrow> string \<Rightarrow> string \<Rightarrow> severity \<Rightarrow> issue" where
  "file_issue f p m fld code msg sev =
     \<lparr>vi_File = f, vi_Provider = p, vi_Model = m, vi_Field = fld, vi_Code = code, vi_Message = msg, vi_Severity = sev\<rparr>"

definition validateProviderFields :: "catalog_file \<Rightarrow> string \<Rightarrow> issue list" where
  "validateProviderFields entry filename =
     (let p = cf_Provider entry; hasEnabledModel = (\<exists>m \<in> set (cf_Models entry). ms_Enabled m) in
      (if psp_Name p = '''' then [file_issue filename '''' '''' ''provider.name'' ''provider_name_missing'' ''provider.name is required'' SeverityError] else []) @
      (if psp_Kind p = ''''
       then [file_issue filename (psp_Name p) '''' ''provider.kind'' ''provider_kind_missing'' ''provider.kind is required'' SeverityError]
       else if psp_Kind p \<notin> set ValidKinds
       then [file_issue filename (psp_Name p) '''' ''provider.kind'' ''provider_kind_invalid''
              (''provider.kind '' @ go_quote (psp_Kind p) @ '' is not valid (local|cloud|router)'') SeverityError]
       else []) @
      (if psp_Enabled p
       then if cf_Models entry = []
         then [file_issue filename (psp_Name p) '''' ''models'' ''provider_enabled_without_models''
                ''enabled provider must have at least one model'' SeverityError]
         else if \<not> hasEnabledModel
         then [file_issue filename (psp_Name p) '''' ''models'' ''provider_enabled_without_models''
                ''enabled provider has models but none are enabled'' SeverityWarning]
         else []
       else []))"

definition validateConnectionFields :: "catalog_file \<Rightarrow> string \<Rightarrow> issue list" where
  "validateConnectionFields entry filename =
     (let c = cf_Connection entry in
      (if cns_APIKeyEnv c \<noteq> '''' \<and> \<not> envVarRegex (cns_APIKeyEnv c)
       then [file_issue filename (cf_name entry) '''' ''connection.api_key_env'' ''api_key_env_invalid''
              (''api_key_env '' @ go_quote (cns_APIKeyEnv c) @ '' is not a valid environment variable name'') SeverityError]
       else []) @
      (if cns_TimeoutSeconds c < 0
       then [file_issue filename (cf_name entry) '''' ''connection.timeout_seconds'' ''timeout_invalid''
              (''timeout_seconds must be >= 0, got '' @ int_str (cns_TimeoutSeconds c)) SeverityError]
       else []))"

definition validateLimitsFields :: "catalog_file \<Rightarrow> string \<Rightarrow> issue list" where
  "validateLimitsFields entry filename =
     (let l = cf_Limits entry in
      concat (map (\<lambda>(name, n). if n < 0
          then [file_issue filename (cf_name entry) '''' name ''limit_negative'' (name @ '' must be >= 0, got '' @ int_str n) SeverityError] else [])
        [(''limits.rpm'', lim_RPM l), (''limits.tpm'', lim_TPM l), (''limits.rpd'', lim_RPD l), (''limits.tpd'', lim_TPD l)]))"

definition validateRoutingFields :: "catalog_file \<Rightarrow> string \<Rightarrow> issue list" where
  "validateRoutingFields entry filename =
     (let r = cf_Routing entry in
      concat (map (\<lambda>role. if role \<notin> set ValidRoles
          then [file_issue filename (cf_name entry) '''' ''routing.roles'' ''role_invalid''
                 (''routing role '' @ go_quote role @ '' is not recognized'') SeverityWarning] else []) (rsp_Roles r)) @
      (if rsp_FallbackPriority r < 0
       then [file_issue filename (cf_name entry) '''' ''routing.fallback_priority'' ''fallback_priority_invalid''
              (''fallback_priority must be >= 0, got '' @ int_str (rsp_FallbackPriority r)) SeverityError]
       else []))"

definition cost_out_of_range :: "f64 \<Rightarrow> bool" where
  "cost_out_of_range c \<longleftrightarrow> flt c (Fin 0) \<or> flt (Fin 1) c"

definition validateModelFields :: "model_spec \<Rightarrow> nat \<Rightarrow> string \<Rightarrow> string \<Rightarrow> string list \<Rightarrow> issue list" where
  "validateModelFields model index providerName filename providerRoles =
     (if ms_Name model = ''''
      then [file_issue filename providerName '''' (''models['' @ nat_str index @ ''].name'') ''model_name_missing''
             (''models['' @ nat_str index @ ''].name is required'') SeverityError]
      else
        let mk = file_issue filename providerName (ms_Name model) in
        (if ms_CostClass model \<noteq> '''' \<and> ms_CostClass model \<notin> set ValidCostClassesExtended
         then [mk ''cost_class'' ''model_cost_class_invalid''
                (''cost_class '' @ go_quote (ms_CostClass model) @ '' is not valid (free|local|cheap|promo|unknown)'') SeverityError]
         else []) @
        (if cost_out_of_range (ms_RelativeCost model)
         then [mk ''relative_cost'' ''model_relative_cost_out_of_range''
                (''relative_cost must be 0.0'' @ en_dash @ ''1.0, got '' @ fmt_f4 (ms_RelativeCost model)) SeverityError]
         else []) @
        (if ms_MaxOutputTokens model < 0
         then [mk ''max_output_tokens'' ''model_max_output_tokens_invalid''
                (''max_output_tokens must be >= 0, got '' @ int_str (ms_MaxOutputTokens model)) SeverityError]
         else []) @
        concat (map (\<lambda>role. if role \<notin> set ValidRoles
            then [mk ''roles'' ''role_invalid'' (''model role '' @ go_quote role @ '' is not recognized'') SeverityWarning] else [])
          (ms_Roles model)) @
        concat (map (\<lambda>cap. if cap \<notin> set ValidCapabilities
            then [mk ''capabilities'' ''model_capability_invalid'' (''capability '' @ go_quote cap @ '' is not recognized'') SeverityWarning] else [])
          (ms_Capabilities model)) @
        (if ms_Enabled model \<and> ms_Roles model = [] \<and> providerRoles = []
         then [mk ''roles'' ''model_enabled_without_roles'' ''enabled model has no roles and provider has no roles to inherit'' SeverityWarning]
         else []))"

text \<open>The loop over the models carries the names seen so far.\<close>

fun models_loop :: "catalog_file \<Rightarrow> string \<Rightarrow> nat \<Rightarrow> string list \<Rightarrow> model_spec list \<Rightarrow> issue list" where
  "models_loop entry filename i modelNames [] = []"
| "models_loop entry filename i modelNames (m # ms) =
     validateModelFields m i (cf_name entry) filename (rsp_Roles (cf_Routing entry)) @
     (if ms_Name m \<noteq> '''' \<and> ms_Name m \<in> set modelNames
      then [file_issue filename (cf_name entry) (ms_Name m) ''name'' ''model_duplicate''
             (''duplicate model name '' @ go_quote (ms_Name m) @ '' within provider'') SeverityError]
      else []) @
     models_loop entry filename (Suc i) (if ms_Name m \<noteq> '''' then ms_Name m # modelNames else modelNames) ms"

definition validateModels :: "catalog_file \<Rightarrow> string \<Rightarrow> issue list" where
  "validateModels entry filename =
     models_loop entry filename 0 [] (cf_Models entry) @
     (if length (cf_Models entry) > MaxModelsPerProvider
      then [file_issue filename (cf_name entry) '''' ''models'' ''enabled_model_cap_exceeded''
             (''too many models: '' @ nat_str (length (cf_Models entry)) @ '' > max '' @ nat_str MaxModelsPerProvider) SeverityError]
      else [])"

definition enabled_models :: "catalog_file \<Rightarrow> model_spec list" where
  "enabled_models entry = filter ms_Enabled (cf_Models entry)"

fun profile_loop :: "catalog_file \<Rightarrow> string \<Rightarrow> string \<Rightarrow> nat \<Rightarrow> string list \<Rightarrow> issue list" where
  "profile_loop entry filename role i [] = []"
| "profile_loop entry filename role i (ref # refs) =
     (let place = ''execution_profiles.'' @ role @ ''['' @ nat_str i @ '']'' in
      if ref = ''''
      then [file_issue filename (cf_name entry) '''' (place @ ''.ref'') ''execution_profile_ref_missing''
             (place @ '': ref is required '' @ em_dash @ '' use 'ref: model_name' to reference a model in models[]'') SeverityError]
      else if ref \<notin> ms_Name ` set (enabled_models entry)
      then [file_issue filename (cf_name entry) '''' (place @ ''.ref'') ''execution_profile_ref_not_found''
             (place @ '': ref '' @ go_quote ref @ '' does not match any enabled model in models[]'') SeverityError]
      else []) @
     profile_loop entry filename role (Suc i) refs"

definition validateExecutionProfiles :: "catalog_file \<Rightarrow> string \<Rightarrow> issue list" where
  "validateExecutionProfiles entry filename =
     concat (map (\<lambda>(role, refs). profile_loop entry filename role 0 refs) (cf_ExecutionProfiles entry))"

definition validateSingleEntry :: "catalog_file \<Rightarrow> string \<Rightarrow> issue list" where
  "validateSingleEntry entry filename =
     validateProviderFields entry filename @ validateConnectionFields entry filename @ validateLimitsFields entry filename @
     validateRoutingFields entry filename @ validateModels entry filename @ validateExecutionProfiles entry filename"

definition ValidateCatalogEntryStructured :: "catalog_file \<Rightarrow> string \<Rightarrow> validation_result" where
  "ValidateCatalogEntryStructured entry filename = buildResult (validateSingleEntry entry filename)"

section \<open>The rules across files\<close>

text \<open>
  The rules index the slice of file names by the position of the entry: \<open>None\<close> is the panic of an
  index out of range.
\<close>

fun provider_dups :: "nat \<Rightarrow> (string \<rightharpoonup> string) \<Rightarrow> string list \<Rightarrow> catalog_file list \<Rightarrow> issue list option" where
  "provider_dups i seen filenames [] = Some []"
| "provider_dups i seen filenames (e # es) =
     (if cf_name e = '''' then provider_dups (Suc i) seen filenames es
      else if i \<ge> length filenames then None
      else case seen (cf_name e) of
             Some prevFile \<Rightarrow>
               map_option (Cons (file_issue (filenames ! i) (cf_name e) '''' ''provider.name'' ''provider_duplicate''
                   (''provider '' @ go_quote (cf_name e) @ '' already defined in '' @ prevFile) SeverityError))
                 (provider_dups (Suc i) seen filenames es)
           | None \<Rightarrow> provider_dups (Suc i) (seen(cf_name e \<mapsto> filenames ! i)) filenames es)"

fun target_models :: "nat \<Rightarrow> string \<Rightarrow> string list \<Rightarrow> (string \<times> string \<rightharpoonup> string) \<Rightarrow> model_spec list \<Rightarrow>
    (issue list \<times> (string \<times> string \<rightharpoonup> string)) option" where
  "target_models i pName filenames seen [] = Some ([], seen)"
| "target_models i pName filenames seen (m # ms) =
     (if ms_Name m = '''' then target_models i pName filenames seen ms
      else if i \<ge> length filenames then None
      else case seen (pName, ms_Name m) of
             Some prevFile \<Rightarrow>
               map_option (\<lambda>(is, seen'). (file_issue (filenames ! i) pName (ms_Name m) ''name'' ''provider_model_duplicate''
                   (''target '' @ pName @ ''/'' @ ms_Name m @ '' already defined in '' @ prevFile) SeverityError # is, seen'))
                 (target_models i pName filenames seen ms)
           | None \<Rightarrow> target_models i pName filenames (seen((pName, ms_Name m) \<mapsto> filenames ! i)) ms)"

fun target_dups :: "nat \<Rightarrow> (string \<times> string \<rightharpoonup> string) \<Rightarrow> string list \<Rightarrow> catalog_file list \<Rightarrow> issue list option" where
  "target_dups i seen filenames [] = Some []"
| "target_dups i seen filenames (e # es) =
     (case target_models i (cf_name e) filenames seen (cf_Models e) of
        None \<Rightarrow> None
      | Some (is, seen') \<Rightarrow> map_option (\<lambda>js. is @ js) (target_dups (Suc i) seen' filenames es))"

definition effective_roles :: "catalog_file \<Rightarrow> model_spec \<Rightarrow> string list" where
  "effective_roles e m = (if ms_Roles m = [] then rsp_Roles (cf_Routing e) else ms_Roles m)"

definition enabledRoles :: "catalog_file list \<Rightarrow> string list" where
  "enabledRoles entries =
     concat (map (\<lambda>e. if psp_Enabled (cf_Provider e) then concat (map (effective_roles e) (enabled_models e)) else []) entries)"

definition hasLocalProvider :: "catalog_file list \<Rightarrow> bool" where
  "hasLocalProvider entries \<longleftrightarrow> (\<exists>e \<in> set entries. psp_Enabled (cf_Provider e) \<and> psp_Kind (cf_Provider e) = ''local'')"

definition coverage_issues :: "catalog_file list \<Rightarrow> issue list" where
  "coverage_issues entries =
     concat (map (\<lambda>role. if role \<notin> set (enabledRoles entries)
        then [file_issue ''(catalog)'' '''' '''' ''roles'' ''critical_role_missing'' (''no enabled model covers critical role '' @ go_quote role) SeverityError]
        else []) CriticalRoles) @
     (if \<not> hasLocalProvider entries \<and> entries \<noteq> []
      then [file_issue ''(catalog)'' '''' '''' '''' ''no_local_fallback_warning'' ''no enabled local provider exists; no local fallback available'' SeverityWarning]
      else []) @
     (if \<not> hasLocalProvider entries \<and> entries \<noteq> [] \<and> (\<exists>e \<in> set entries. psp_Enabled (cf_Provider e))
      then [file_issue ''(catalog)'' '''' '''' '''' ''all_external_warning'' ''all enabled providers are external; consider adding a local provider'' SeverityWarning]
      else [])"

definition validateCrossFile :: "catalog_file list \<Rightarrow> string list \<Rightarrow> issue list option" where
  "validateCrossFile entries filenames =
     (if entries = [] then Some []
      else case provider_dups 0 Map.empty filenames entries of
             None \<Rightarrow> None
           | Some is \<Rightarrow>
               (case target_dups 0 Map.empty filenames entries of
                  None \<Rightarrow> None
                | Some js \<Rightarrow> Some (is @ js @ coverage_issues entries)))"

fun entries_loop :: "nat \<Rightarrow> string list \<Rightarrow> catalog_file list \<Rightarrow> issue list" where
  "entries_loop i filenames [] = []"
| "entries_loop i filenames (e # es) =
     validateSingleEntry e (if i < length filenames then filenames ! i else ''entry['' @ nat_str i @ '']'') @
     entries_loop (Suc i) filenames es"

definition ValidateCatalog :: "catalog_file list \<Rightarrow> string list \<Rightarrow> validation_result option" where
  "ValidateCatalog entries filenames =
     (let allIssues = entries_loop 0 filenames entries in
      map_option (\<lambda>cross. buildResult (allIssues @ cross)) (validateCrossFile entries filenames))"

section \<open>Directories\<close>

datatype dir_stat = Stat_Missing | Stat_Error string | Stat_NotDir | Stat_Dir

datatype file_read = Read_Data string | Read_Missing string | Read_Failed string

text \<open>
  The directory: its status, its entries with the flag of a directory, the contents of a file by its
  name, the path that joins the directory and a name, and the YAML decoder, with the texts of errors.
\<close>

record catalog_dir =
  fs_dir :: string
  fs_path :: "string \<Rightarrow> string"
  fs_stat :: dir_stat
  fs_list :: "string + (string \<times> bool) list"
  fs_read :: "string \<Rightarrow> file_read"
  fs_parse :: "string \<Rightarrow> string + catalog_file"

text \<open>\<open>filepath.Ext\<close> of a name without separators.\<close>

definition go_Ext :: "string \<Rightarrow> string" where
  "go_Ext s = (if CHR ''.'' \<in> set s then CHR ''.'' # rev (takeWhile (\<lambda>c. c \<noteq> CHR ''.'') (rev s)) else '''')"

definition is_yaml :: "string \<Rightarrow> bool" where
  "is_yaml name \<longleftrightarrow> go_Ext name = ''.yaml'' \<or> go_Ext name = ''.yml''"

definition empty_result :: validation_result where
  "empty_result = \<lparr>vr_Valid = False, vr_ErrorCount = 0, vr_WarningCount = 0, vr_Issues = []\<rparr>"

definition not_a_provider :: "catalog_file \<Rightarrow> bool" where
  "not_a_provider e \<longleftrightarrow> cf_name e = '''' \<and> psp_Kind (cf_Provider e) = '''' \<and> cf_Models e = []"

definition read_error :: "file_read \<Rightarrow> string" where
  "read_error r = (case r of Read_Data _ \<Rightarrow> '''' | Read_Missing e \<Rightarrow> e | Read_Failed e \<Rightarrow> e)"

fun files_loop :: "catalog_dir \<Rightarrow> string list \<Rightarrow> issue list \<Rightarrow> catalog_file list \<Rightarrow> string list \<Rightarrow>
    string + issue list \<times> catalog_file list \<times> string list" where
  "files_loop fs [] is es ns = Inr (is, es, ns)"
| "files_loop fs (name # names) is es ns =
     (case fs_read fs name of
        Read_Data data \<Rightarrow>
          (case fs_parse fs data of
             Inl e \<Rightarrow> files_loop fs names
                (is @ [file_issue name '''' '''' '''' ''yaml_parse_error'' (''YAML parse error: '' @ e) SeverityError]) es ns
           | Inr entry \<Rightarrow>
               if not_a_provider entry then files_loop fs names is es ns
               else files_loop fs names (is @ validateSingleEntry entry name) (es @ [entry]) (ns @ [name]))
      | r \<Rightarrow> Inl (''read file '' @ name @ '': '' @ read_error r))"

definition ValidateCatalogFiles :: "catalog_dir \<Rightarrow> string list \<Rightarrow> (string + validation_result) option" where
  "ValidateCatalogFiles fs files =
     (case files_loop fs files [] [] [] of
        Inl e \<Rightarrow> Some (Inl e)
      | Inr (is, es, ns) \<Rightarrow> map_option (\<lambda>cross. Inr (buildResult (is @ cross))) (validateCrossFile es ns))"

definition ValidateCatalogDir :: "catalog_dir \<Rightarrow> (string + validation_result) option" where
  "ValidateCatalogDir fs =
     (case fs_stat fs of
        Stat_Missing \<Rightarrow> Some (Inr (empty_result\<lparr>vr_Valid := True\<rparr>))
      | Stat_Error e \<Rightarrow> Some (Inl (''stat catalog directory: '' @ e))
      | Stat_NotDir \<Rightarrow> Some (Inl (''catalog path is not a directory: '' @ fs_dir fs))
      | Stat_Dir \<Rightarrow>
          (case fs_list fs of
             Inl e \<Rightarrow> Some (Inl (''read catalog directory: '' @ e))
           | Inr es \<Rightarrow> ValidateCatalogFiles fs (sql_sort str_less (map fst (filter (\<lambda>(name, isdir). \<not> isdir \<and> is_yaml name) es)))))"

text \<open>The exit codes of \<open>cmd/provider-catalog-validate\<close>; a panic of a Go program exits with 2 too.\<close>

definition validate_run :: "catalog_dir \<Rightarrow> string \<Rightarrow> bool \<Rightarrow> nat" where
  "validate_run fs format failOnWarning =
     (if format \<noteq> ''text'' \<and> format \<noteq> ''json'' then 2
      else case ValidateCatalogDir fs of
             None \<Rightarrow> 2
           | Some (Inl _) \<Rightarrow> 2
           | Some (Inr r) \<Rightarrow>
               if \<not> vr_Valid r then 1 else if failOnWarning \<and> vr_WarningCount r > 0 then 1 else 0)"

section \<open>Loading\<close>

fun legacy_models :: "string \<Rightarrow> nat \<Rightarrow> string list \<Rightarrow> model_spec list \<Rightarrow> string list" where
  "legacy_models f i modelNames [] = []"
| "legacy_models f i modelNames (m # ms) =
     (if ms_Name m = ''''
      then (f @ '': models['' @ nat_str i @ ''].name is required'') # legacy_models f (Suc i) modelNames ms
      else
        (if ms_Name m \<in> set modelNames then [f @ '': duplicate model name '' @ go_quote (ms_Name m)] else []) @
        (if ms_CostClass m \<noteq> '''' \<and> ms_CostClass m \<notin> set ValidCostClasses
         then [f @ '': models['' @ nat_str i @ ''].cost_class '' @ go_quote (ms_CostClass m) @ '' is not valid (free|local|cheap|unknown)''] else []) @
        (if cost_out_of_range (ms_RelativeCost m)
         then [f @ '': models['' @ nat_str i @ ''].relative_cost must be 0.0'' @ en_dash @ ''1.0, got '' @ fmt_f2 (ms_RelativeCost m)] else []) @
        legacy_models f (Suc i) (ms_Name m # modelNames) ms)"

definition ValidateCatalogEntry :: "catalog_file \<Rightarrow> string \<Rightarrow> string list" where
  "ValidateCatalogEntry entry f =
     (let p = cf_Provider entry in
      (if psp_Name p = '''' then [f @ '': provider.name is required''] else []) @
      (if psp_Kind p = '''' then [f @ '': provider.kind is required'']
       else if psp_Kind p \<notin> set ValidKinds then [f @ '': provider.kind '' @ go_quote (psp_Kind p) @ '' is not valid (local|cloud|router)'']
       else []) @
      (if psp_Enabled p \<and> cf_Models entry = [] then [f @ '': at least one model is required when provider is enabled''] else []) @
      legacy_models f 0 [] (cf_Models entry) @
      (if length (cf_Models entry) > MaxModelsPerProvider
       then [f @ '': too many models ('' @ nat_str (length (cf_Models entry)) @ '' > max '' @ nat_str MaxModelsPerProvider @ '')''] else []))"

fun load_files :: "catalog_dir \<Rightarrow> string list \<Rightarrow> string + catalog_file list" where
  "load_files fs [] = Inr []"
| "load_files fs (name # names) =
     (case fs_read fs name of
        Read_Data data \<Rightarrow>
          (case fs_parse fs data of
             Inl e \<Rightarrow> load_files fs names
           | Inr entry \<Rightarrow>
               if ValidateCatalogEntry entry name \<noteq> [] then load_files fs names
               else (case load_files fs names of Inl e \<Rightarrow> Inl e | Inr es \<Rightarrow> Inr (entry # es)))
      | r \<Rightarrow> Inl (''read catalog file '' @ name @ '': '' @ read_error r))"

definition LoadCatalog :: "catalog_dir \<Rightarrow> string + catalog_file list" where
  "LoadCatalog fs =
     (case fs_stat fs of
        Stat_Missing \<Rightarrow> Inr []
      | Stat_Error e \<Rightarrow> Inl (''stat catalog directory: '' @ e)
      | Stat_NotDir \<Rightarrow> Inl (''catalog path is not a directory: '' @ fs_dir fs)
      | Stat_Dir \<Rightarrow>
          (case fs_list fs of
             Inl e \<Rightarrow> Inl (''read catalog directory: '' @ e)
           | Inr es \<Rightarrow> load_files fs (sql_sort str_less
               (map fst (filter (\<lambda>(name, isdir). \<not> isdir \<and> \<not> has_prefix name ''_'' \<and> is_yaml name) es)))))"

section \<open>Execution profiles of the worker\<close>

definition requiredExecutionRoles :: "string list" where
  "requiredExecutionRoles = [RoleDefault, RoleFast, RolePlanner, RoleReview]"

text \<open>A later model replaces an earlier one of the same name.\<close>

definition modelByName :: "catalog_file \<Rightarrow> string \<Rightarrow> model_spec option" where
  "modelByName entry = map_of (rev (map (\<lambda>m. (ms_Name m, m)) (enabled_models entry)))"

definition candidate_place :: "string \<Rightarrow> nat \<Rightarrow> string" where
  "candidate_place role i = ''execution profiles: role '' @ go_quote role @ '' candidate '' @ nat_str i"

definition make_candidate :: "string \<Rightarrow> string \<Rightarrow> nat \<Rightarrow> model_spec \<Rightarrow> go_error + model_candidate" where
  "make_candidate providerName role i m =
     (let x = ms_Execution m;
          timeout = (if me_TimeoutSeconds x > 0 then wrap64 (me_TimeoutSeconds x * Second) else 0);
          c = \<lparr>mc_ModelName = ms_Name m, mc_ProviderName = providerName, mc_ThinkMode = ThinkDefault, mc_Timeout = timeout, mc_JSONMode = me_JSONMode x\<rparr>
      in if me_Think x = '''' then Inr c
         else case ParseThinkMode (me_Think x) of
                (tm, None) \<Rightarrow> Inr (c\<lparr>mc_ThinkMode := tm\<rparr>)
              | (_, Some e) \<Rightarrow> Inl (wrapf (candidate_place role i @ '' ('' @ go_quote (ms_Name m) @ '') in '' @ providerName @ ''.yaml'') e))"

fun make_candidates :: "catalog_file \<Rightarrow> string \<Rightarrow> string \<Rightarrow> nat \<Rightarrow> string list \<Rightarrow> go_error + model_candidate list" where
  "make_candidates entry providerName role i [] = Inr []"
| "make_candidates entry providerName role i (ref # refs) =
     (if ref = ''''
      then Inl (PlainErr (candidate_place role i @ '' in '' @ providerName @
        ''.yaml: ref is required (use 'ref: model_name' to reference a model in models[])''))
      else case modelByName entry ref of
             None \<Rightarrow> Inl (PlainErr (candidate_place role i @ '' in '' @ providerName @ ''.yaml: ref '' @ go_quote ref @
               '' does not match any enabled model in models[] '' @ em_dash @ '' check spelling or enable the model''))
           | Some m \<Rightarrow>
               (case make_candidate providerName role i m of
                  Inl e \<Rightarrow> Inl e
                | Inr c \<Rightarrow>
                    (case make_candidates entry providerName role (Suc i) refs of
                       Inl e \<Rightarrow> Inl e
                     | Inr cs \<Rightarrow> Inr (c # cs))))"

fun make_profiles :: "catalog_file \<Rightarrow> string \<Rightarrow> string list \<Rightarrow> role_profiles \<Rightarrow> go_error + role_profiles" where
  "make_profiles entry providerName [] rp = Inr rp"
| "make_profiles entry providerName (role # roles) rp =
     (case map_of (cf_ExecutionProfiles entry) role of
        Some (ref # refs) \<Rightarrow>
          (case make_candidates entry providerName role 0 (ref # refs) of
             Inl e \<Rightarrow> Inl e
           | Inr cs \<Rightarrow> make_profiles entry providerName roles (rp(role \<mapsto> cs)))
      | _ \<Rightarrow> Inl (PlainErr (''execution profiles: required role '' @ go_quote role @ '' has no candidates in '' @ providerName @ ''.yaml '' @ em_dash @
               '' add a '' @ go_quote role @ '' block under execution_profiles in providers/'' @ providerName @ ''.yaml'')))"

definition LoadExecutionProfiles :: "catalog_dir \<Rightarrow> string \<Rightarrow> go_error + role_profiles" where
  "LoadExecutionProfiles fs providerName =
     (let name = providerName @ ''.yaml'' in
      case fs_read fs name of
        Read_Missing _ \<Rightarrow>
          Inl (PlainErr (''execution profiles: provider file '' @ go_quote name @ '' not found in '' @ go_quote (fs_dir fs) @ '' '' @ em_dash @
            '' create providers/'' @ providerName @ ''.yaml with an execution_profiles section''))
      | Read_Failed e \<Rightarrow> Inl (wrapf (''execution profiles: read '' @ fs_path fs name) (PlainErr e))
      | Read_Data data \<Rightarrow>
          (case fs_parse fs data of
             Inl e \<Rightarrow> Inl (wrapf (''execution profiles: parse '' @ fs_path fs name) (PlainErr e))
           | Inr entry \<Rightarrow>
               if cf_ExecutionProfiles entry = []
               then Inl (PlainErr (''execution profiles: '' @ providerName @ ''.yaml has no execution_profiles section '' @ em_dash @
                 '' add an execution_profiles block to providers/'' @ providerName @
                 ''.yaml to configure per-role model candidate chains (use ref: to reference models)''))
               else make_profiles entry providerName requiredExecutionRoles Map.empty))"

section \<open>The registry and its queries\<close>

record catalog_registry =
  creg_models :: "catalog_model list"
  creg_byKey :: "string \<rightharpoonup> catalog_model"
  creg_catalogs :: "catalog_file list"

definition flatten_model :: "catalog_file \<Rightarrow> model_spec \<Rightarrow> catalog_model" where
  "flatten_model cat m =
     \<lparr>pm_ProviderName = cf_name cat, pm_ModelName = ms_Name m, pm_ProviderKind = psp_Kind (cf_Provider cat),
      pm_Roles = effective_roles cat m, pm_Capabilities = ms_Capabilities m, pm_CostClass = ms_CostClass m,
      pm_RelativeCost = ms_RelativeCost m, pm_MaxOutputTokens = ms_MaxOutputTokens m, pm_Enabled = True\<rparr>"

definition flatten_catalogs :: "catalog_file list \<Rightarrow> catalog_model list" where
  "flatten_catalogs catalogs =
     concat (map (\<lambda>cat. if psp_Enabled (cf_Provider cat) then map (flatten_model cat) (enabled_models cat) else []) catalogs)"

definition model_key :: "string \<Rightarrow> string \<Rightarrow> string" where
  "model_key provider model = provider @ ''/'' @ model"

definition model_before :: "catalog_model \<Rightarrow> catalog_model \<Rightarrow> bool" where
  "model_before a b =
     (if pm_ProviderName a \<noteq> pm_ProviderName b then str_less (pm_ProviderName a) (pm_ProviderName b)
      else str_less (pm_ModelName a) (pm_ModelName b))"

text \<open>
  \<open>sort.Slice\<close> leaves models of the same provider and name, which two files can declare, in any
  order: the sort is an argument, and a later entry of the same key replaces an earlier one.
\<close>

definition BuildFromCatalog :: "((catalog_model \<Rightarrow> catalog_model \<Rightarrow> bool) \<Rightarrow> catalog_model list \<Rightarrow> catalog_model list) \<Rightarrow> catalog_file list \<Rightarrow> catalog_registry" where
  "BuildFromCatalog slice_sort catalogs =
     (let ms = flatten_catalogs catalogs
      in \<lparr>creg_models = slice_sort model_before ms,
          creg_byKey = map_of (rev (map (\<lambda>pm. (model_key (pm_ProviderName pm) (pm_ModelName pm), pm)) ms)),
          creg_catalogs = catalogs\<rparr>)"

definition creg_Get :: "catalog_registry \<Rightarrow> string \<Rightarrow> string \<Rightarrow> catalog_model option" where
  "creg_Get cr provider model = creg_byKey cr (model_key provider model)"

definition creg_ByProvider :: "catalog_registry \<Rightarrow> string \<Rightarrow> catalog_model list" where
  "creg_ByProvider cr provider = filter (\<lambda>pm. pm_ProviderName pm = provider) (creg_models cr)"

definition creg_ByRole :: "catalog_registry \<Rightarrow> string \<Rightarrow> catalog_model list" where
  "creg_ByRole cr role = filter (\<lambda>pm. pm_HasRole pm role) (creg_models cr)"

definition creg_Targets :: "catalog_registry \<Rightarrow> provider_model list" where
  "creg_Targets cr = map (\<lambda>pm. (pm_ProviderName pm, pm_ModelName pm)) (creg_models cr)"

record resolver_input =
  rsi_PreferredRole :: string
  rsi_RequiredCapabilities :: "string list"
  rsi_AllowExternal :: bool

definition filterModel :: "catalog_model \<Rightarrow> resolver_input \<Rightarrow> string \<times> bool" where
  "filterModel pm inp =
     (if \<not> pm_Enabled pm then (''model disabled'', False)
      else if \<not> rsi_AllowExternal inp \<and> pm_IsExternal pm then (''external providers not allowed'', False)
      else if rsi_PreferredRole inp \<noteq> '''' \<and> \<not> pm_HasRole pm (rsi_PreferredRole inp) \<and> \<not> pm_HasRole pm ''fallback''
      then (''does not have role '' @ go_quote (rsi_PreferredRole inp), False)
      else case find (\<lambda>req. \<not> pm_HasCapability pm req) (rsi_RequiredCapabilities inp) of
             Some req \<Rightarrow> (''missing capability '' @ go_quote req, False)
           | None \<Rightarrow> ('''', True))"

definition ResolveCandidates ::
  "((catalog_model \<Rightarrow> catalog_model \<Rightarrow> bool) \<Rightarrow> catalog_model list \<Rightarrow> catalog_model list) \<Rightarrow> catalog_registry option \<Rightarrow> resolver_input \<Rightarrow>
   catalog_model list \<times> (string \<times> string \<times> string) list" where
  "ResolveCandidates slice_sort registry inp =
     (case registry of
        None \<Rightarrow> ([], [])
      | Some cr \<Rightarrow>
          (slice_sort model_before (filter (\<lambda>pm. snd (filterModel pm inp)) (creg_models cr)),
           map (\<lambda>pm. (pm_ProviderName pm, pm_ModelName pm, fst (filterModel pm inp)))
             (filter (\<lambda>pm. \<not> snd (filterModel pm inp)) (creg_models cr))))"

definition ComputeModelCapabilityFit :: "catalog_model \<Rightarrow> string list \<Rightarrow> f64" where
  "ComputeModelCapabilityFit pm req =
     (if req = [] then Fin 1
      else fdiv (f64 (of_nat (length (filter (pm_HasCapability pm) req)))) (f64 (of_nat (length req))))"

section \<open>What the API gateway hands to the router\<close>

definition map_put :: "string \<Rightarrow> 'v \<Rightarrow> (string \<times> 'v) list \<Rightarrow> (string \<times> 'v) list" where
  "map_put k v m = (k, v) # filter (\<lambda>kv. fst kv \<noteq> k) m"

definition execution_entries :: "catalog_file list \<Rightarrow> (string \<times> model_execution_spec) list" where
  "execution_entries catalogs =
     concat (map (\<lambda>cat. if psp_Enabled (cf_Provider cat)
       then map (\<lambda>m. (model_key (cf_name cat) (ms_Name m), ms_Execution m)) (enabled_models cat) else []) catalogs)"

definition BuildModelExecutionMap :: "catalog_file list \<Rightarrow> (string \<times> model_execution_spec) list" where
  "BuildModelExecutionMap catalogs = fold (\<lambda>(k, x) m. map_put k x m) (execution_entries catalogs) []"

definition routingExecMap :: "catalog_file list \<Rightarrow> (string \<times> execution_config) list option" where
  "routingExecMap catalogs =
     (let m = BuildModelExecutionMap catalogs in
      if m = [] then None
      else Some (map (\<lambda>(k, x). (k, \<lparr>xc_TimeoutSeconds = me_TimeoutSeconds x, xc_ThinkMode = me_Think x,
          xc_JSONMode = me_JSONMode x, xc_MaxOutputTokens = me_MaxOutputTokens x\<rparr>)) m))"

record global_routing_policy =
  grp_PreferFree :: bool
  grp_AllowExternal :: bool
  grp_MaxFallbackChain :: int
  grp_Priorities :: "(string \<times> string list) list"
  grp_LatencySensitiveThresholdMs :: int
  grp_HeavyTaskTokensThreshold :: int
  grp_DegradePolicy :: "string list"

definition LoadGlobalPolicy :: "catalog_dir \<Rightarrow> (string \<Rightarrow> string + global_routing_policy) \<Rightarrow> string + global_routing_policy option" where
  "LoadGlobalPolicy fs parse_policy =
     (case fs_read fs ''_global.yaml'' of
        Read_Missing _ \<Rightarrow> Inr None
      | Read_Failed e \<Rightarrow> Inl (''read global policy '' @ fs_path fs ''_global.yaml'' @ '': '' @ e)
      | Read_Data data \<Rightarrow>
          (case parse_policy data of
             Inl e \<Rightarrow> Inl (''parse global policy '' @ fs_path fs ''_global.yaml'' @ '': '' @ e)
           | Inr p \<Rightarrow> Inr (Some p)))"

text \<open>An error is only logged, and the router keeps its defaults.\<close>

definition gateway_policy :: "string + global_routing_policy option \<Rightarrow> policy_config option" where
  "gateway_policy loaded =
     (case loaded of
        Inr (Some rp) \<Rightarrow>
          Some \<lparr>pol_PreferFree = grp_PreferFree rp, pol_AllowExternal = grp_AllowExternal rp,
                pol_MaxFallbackChain = grp_MaxFallbackChain rp, pol_RolePreferences = grp_Priorities rp,
                pol_DegradePolicy = grp_DegradePolicy rp\<rparr>
      | _ \<Rightarrow> None)"

section \<open>The results of validation\<close>

definition no_errors :: "issue list \<Rightarrow> bool" where
  "no_errors is \<longleftrightarrow> (\<forall>i \<in> set is. vi_Severity i \<noteq> SeverityError)"

lemma no_errors_simps [simp]:
  "no_errors []" "no_errors (i # is) \<longleftrightarrow> vi_Severity i \<noteq> SeverityError \<and> no_errors is"
  "no_errors (is @ js) \<longleftrightarrow> no_errors is \<and> no_errors js"
  by (auto simp: no_errors_def)

lemma file_issue_severity [simp]: "vi_Severity (file_issue f p m fld code msg sev) = sev"
  by (simp add: file_issue_def)

lemma buildResult_iff: "vr_Valid (buildResult is) \<longleftrightarrow> no_errors is"
  by (auto simp: buildResult_def Let_def no_errors_def sortIssues_def filter_empty_conv)

text \<open>The two sets of rules agree on the models of a file, but for one cost class.\<close>

lemma model_rules_agree:
  assumes "no_errors (models_loop entry f i seen ms)" and "\<forall>m \<in> set ms. ms_CostClass m \<noteq> ''promo''"
  shows "legacy_models f i seen ms = []"
  using assms
proof (induction ms arbitrary: i seen)
  case (Cons m ms)
  have f: "no_errors (validateModelFields m i (cf_name entry) f (rsp_Roles (cf_Routing entry)))" using Cons.prems(1) by simp
  then have n: "ms_Name m \<noteq> ''''" by (auto simp: validateModelFields_def)
  have "ms_CostClass m \<in> set ValidCostClassesExtended \<or> ms_CostClass m = ''''" "\<not> cost_out_of_range (ms_RelativeCost m)"
    using f n by (auto simp: validateModelFields_def Let_def split: if_splits)
  then have "ms_CostClass m \<in> set ValidCostClasses \<or> ms_CostClass m = ''''" "\<not> cost_out_of_range (ms_RelativeCost m)"
    using Cons.prems(2) by (auto simp: ValidCostClassesExtended_def ValidCostClasses_def)
  moreover have "ms_Name m \<notin> set seen" "no_errors (models_loop entry f (Suc i) (ms_Name m # seen) ms)"
    using Cons.prems(1) n by (auto split: if_splits)
  ultimately show ?case using Cons.IH Cons.prems(2) n by auto
qed simp

text \<open>
  A file that passes the validator, and in which no model has the cost class \<open>promo\<close>, is accepted by
  the loader.
\<close>

theorem validated_files_are_loaded:
  assumes "vr_Valid (ValidateCatalogEntryStructured entry f)" and "\<forall>m \<in> set (cf_Models entry). ms_CostClass m \<noteq> ''promo''"
  shows "ValidateCatalogEntry entry f = []"
proof -
  have v: "no_errors (validateProviderFields entry f)" "no_errors (validateModels entry f)"
    using assms(1) by (simp_all add: ValidateCatalogEntryStructured_def buildResult_iff validateSingleEntry_def)
  have "legacy_models f 0 [] (cf_Models entry) = []" using v(2) assms(2) by (intro model_rules_agree [of entry]) (simp_all add: validateModels_def)
  moreover have "\<not> MaxModelsPerProvider < length (cf_Models entry)" using v(2) by (simp add: validateModels_def split: if_splits)
  moreover have "cf_name entry \<noteq> ''''" "psp_Kind (cf_Provider entry) \<noteq> ''''" "psp_Kind (cf_Provider entry) \<in> set ValidKinds"
    "\<not> (psp_Enabled (cf_Provider entry) \<and> cf_Models entry = [])"
    using v(1) by (auto simp: validateProviderFields_def Let_def split: if_splits)
  ultimately show ?thesis by (simp add: ValidateCatalogEntry_def)
qed

section \<open>The rules across files never fail in a directory\<close>

lemma provider_dups_total: "i + length es \<le> length fs \<Longrightarrow> provider_dups i seen fs es \<noteq> None"
  by (induction i seen fs es rule: provider_dups.induct) (auto split: option.splits)

lemma target_models_total: "i < length fs \<Longrightarrow> target_models i p fs seen ms \<noteq> None"
  by (induction i p fs seen ms rule: target_models.induct) (auto split: option.splits)

lemma target_dups_total: "i + length es \<le> length fs \<Longrightarrow> target_dups i seen fs es \<noteq> None"
proof (induction es arbitrary: i seen)
  case (Cons e es)
  then show ?case using target_models_total [of i fs "cf_name e" seen "cf_Models e"] by (auto split: option.splits)
qed simp

lemma cross_file_total: "length es \<le> length fs \<Longrightarrow> validateCrossFile es fs \<noteq> None"
  using provider_dups_total [of 0 es fs Map.empty] target_dups_total [of 0 es fs Map.empty] by (auto simp: validateCrossFile_def split: option.splits)

lemma files_loop_lengths: "files_loop fs names is es ns = Inr (is', es', ns') \<Longrightarrow> length es = length ns \<Longrightarrow> length es' = length ns'"
  by (induction fs names "is" es ns rule: files_loop.induct) (auto split: file_read.splits sum.splits if_splits)

text \<open>
  Validating a directory always ends in a result or an error; the validation of loaded
  entries, which may be given fewer file names than entries, fails with an index out of range when the
  entry after the names names its provider.
\<close>

theorem directory_validation_never_panics:
  "ValidateCatalogDir fs \<noteq> None \<and>
   (cf_name e \<noteq> '''' \<longrightarrow> ValidateCatalog (es @ [e]) (take (length es) names) = None)"
proof
  have "ValidateCatalogFiles fs files \<noteq> None" for files
    using cross_file_total files_loop_lengths [of fs files "[]" "[]" "[]"]
    by (auto simp: ValidateCatalogFiles_def split: sum.splits)
  then show "ValidateCatalogDir fs \<noteq> None" by (simp add: ValidateCatalogDir_def split: dir_stat.splits sum.splits)
  have "provider_dups i seen ns (es @ [e]) = None" if "length ns \<le> i + length es" "cf_name e \<noteq> ''''" for i seen ns
    using that by (induction es arbitrary: i seen) (auto split: option.splits)
  from this [of "take (length es) names" 0 Map.empty]
  show "cf_name e \<noteq> '''' \<longrightarrow> ValidateCatalog (es @ [e]) (take (length es) names) = None"
    by (auto simp: ValidateCatalog_def validateCrossFile_def)
qed

section \<open>The chains of the worker\<close>

lemma modelByName_Some: "modelByName entry ref = Some m \<Longrightarrow> m \<in> set (cf_Models entry) \<and> ms_Enabled m \<and> ms_Name m = ref"
  by (auto simp: modelByName_def enabled_models_def dest: map_of_SomeD)

lemma modelByName_ex: "ref \<in> ms_Name ` set (enabled_models entry) \<Longrightarrow> \<exists>m. modelByName entry ref = Some m"
proof -
  assume "ref \<in> ms_Name ` set (enabled_models entry)"
  moreover have "fst ` set (rev (map (\<lambda>m. (ms_Name m, m)) (enabled_models entry))) = ms_Name ` set (enabled_models entry)"
    by (simp add: image_image)
  ultimately have "modelByName entry ref \<noteq> None" by (simp only: modelByName_def map_of_eq_None_iff) simp
  then show ?thesis by blast
qed

lemma ParseThinkMode_valid: "ParseThinkMode s = (tm, None) \<Longrightarrow> think_IsValid tm"
  by (auto simp: ParseThinkMode_def think_IsValid_def split: if_splits)

definition timeouts_fit :: "catalog_file \<Rightarrow> bool" where
  "timeouts_fit entry \<longleftrightarrow> (\<forall>m \<in> set (cf_Models entry). me_TimeoutSeconds (ms_Execution m) \<le> 9223372036)"

lemma make_candidate_ok:
  assumes "make_candidate p role i m = Inr c" "ms_Name m \<noteq> ''''" "me_TimeoutSeconds (ms_Execution m) \<le> 9223372036"
  shows "candidate_Validate c = None \<and> mc_ProviderName c = p \<and> mc_ModelName c = ms_Name m"
proof -
  let ?n = "me_TimeoutSeconds (ms_Execution m)"
  have "0 < ?n \<Longrightarrow> wrap64 (?n * Second) = ?n * Second" using assms(3) by (intro wrap64_id) (simp_all add: duration_defs)
  then have t: "0 \<le> (if ?n > 0 then wrap64 (?n * Second) else 0)" by (simp add: duration_defs)
  have "think_IsValid ThinkDefault" by (simp add: think_IsValid_def)
  then show ?thesis using assms(1,2) t ParseThinkMode_valid
    by (auto simp: make_candidate_def Let_def candidate_Validate_def split: if_splits prod.splits option.splits)
qed

lemma make_candidates_ok:
  assumes "make_candidates entry p role i refs = Inr cs" "timeouts_fit entry"
  shows "map mc_ModelName cs = refs \<and> (\<forall>c \<in> set cs. candidate_Validate c = None \<and> mc_ProviderName c = p)"
  using assms(1)
proof (induction refs arbitrary: i cs)
  case (Cons ref refs)
  then obtain m c cs' where m: "ref \<noteq> ''''" "modelByName entry ref = Some m" "make_candidate p role i m = Inr c"
    "make_candidates entry p role (Suc i) refs = Inr cs'" "cs = c # cs'" by (auto split: if_splits option.splits sum.splits)
  have "candidate_Validate c = None \<and> mc_ProviderName c = p \<and> mc_ModelName c = ref"
    using make_candidate_ok [OF m(3)] modelByName_Some [OF m(2)] m(1) assms(2) by (auto simp: timeouts_fit_def)
  then show ?case using Cons.IH [OF m(4)] m(5) by simp
qed simp

lemma make_profiles_ok:
  assumes "make_profiles entry p roles rp = Inr rp'" "distinct roles" "timeouts_fit entry"
  shows "(\<forall>role \<in> set roles. \<exists>refs cs. map_of (cf_ExecutionProfiles entry) role = Some refs \<and> refs \<noteq> [] \<and> rp' role = Some cs \<and>
       map mc_ModelName cs = refs \<and> (\<forall>c \<in> set cs. candidate_Validate c = None \<and> mc_ProviderName c = p)) \<and>
     (\<forall>role. role \<notin> set roles \<longrightarrow> rp' role = rp role)"
  using assms(1,2)
proof (induction roles arbitrary: rp)
  case (Cons role roles)
  obtain ref refs cs where r: "map_of (cf_ExecutionProfiles entry) role = Some (ref # refs)"
    "make_candidates entry p role 0 (ref # refs) = Inr cs" "make_profiles entry p roles (rp(role \<mapsto> cs)) = Inr rp'"
    using Cons.prems(1) by (auto split: option.splits list.splits sum.splits simp del: make_candidates.simps)
  note ok = make_candidates_ok [OF r(2) assms(3)]
  have ih: "(\<forall>x \<in> set roles. \<exists>refs cs. map_of (cf_ExecutionProfiles entry) x = Some refs \<and> refs \<noteq> [] \<and> rp' x = Some cs \<and>
       map mc_ModelName cs = refs \<and> (\<forall>c \<in> set cs. candidate_Validate c = None \<and> mc_ProviderName c = p)) \<and>
     (\<forall>x. x \<notin> set roles \<longrightarrow> rp' x = (rp(role \<mapsto> cs)) x)" using Cons.IH [OF r(3)] Cons.prems(2) by simp
  then have "rp' role = Some cs" using Cons.prems(2) by simp
  then show ?case using ih r(1) ok by auto
qed simp

text \<open>
  C30: When the worker loads the profiles of a provider, every role has a chain of candidates: the models
  the file lists for the role, in that order, each of them of that provider and valid for execution,
  if no timeout of the file exceeds what a duration can hold.
\<close>

theorem loaded_profiles_are_executable:
  assumes "LoadExecutionProfiles fs p = Inr rp" and "fs_read fs (p @ ''.yaml'') = Read_Data data" and "fs_parse fs data = Inr entry"
    and "timeouts_fit entry" and "role_IsValid role"
  shows "CandidatesForRole rp role \<noteq> [] \<and> map_of (cf_ExecutionProfiles entry) role = Some (map mc_ModelName (CandidatesForRole rp role)) \<and>
     (\<forall>c \<in> set (CandidatesForRole rp role). candidate_Validate c = None \<and> mc_ProviderName c = p)"
proof -
  have "make_profiles entry p requiredExecutionRoles Map.empty = Inr rp"
    using assms(1-3) by (simp add: LoadExecutionProfiles_def Let_def split: if_splits)
  moreover have "distinct requiredExecutionRoles" "role \<in> set requiredExecutionRoles"
    using assms(5) by (auto simp: requiredExecutionRoles_def role_IsValid_def RoleDefault_def RoleFast_def RolePlanner_def RoleReview_def)
  ultimately obtain refs cs where r: "map_of (cf_ExecutionProfiles entry) role = Some refs" "refs \<noteq> []" "rp role = Some cs"
    "map mc_ModelName cs = refs" "\<forall>c \<in> set cs. candidate_Validate c = None \<and> mc_ProviderName c = p"
    using make_profiles_ok [OF _ _ assms(4)] by blast
  then have "CandidatesForRole rp role = cs" by (auto simp: CandidatesForRole_def Let_def)
  then show ?thesis using r by auto
qed

text \<open>The rules on profiles are what the loader needs of the references.\<close>

lemma profile_loop_refs: "no_errors (profile_loop entry f role i refs) \<Longrightarrow> ref \<in> set refs \<Longrightarrow> ref \<noteq> '''' \<and> ref \<in> ms_Name ` set (enabled_models entry)"
  by (induction refs arbitrary: i) (auto simp: Let_def split: if_splits)

definition thinks_parse :: "catalog_file \<Rightarrow> bool" where
  "thinks_parse entry \<longleftrightarrow> (\<forall>m \<in> set (cf_Models entry). snd (ParseThinkMode (me_Think (ms_Execution m))) = None)"

lemma make_candidates_ex:
  assumes "\<forall>ref \<in> set refs. ref \<noteq> '''' \<and> ref \<in> ms_Name ` set (enabled_models entry)" "thinks_parse entry"
  shows "\<exists>cs. make_candidates entry p role i refs = Inr cs"
  using assms(1)
proof (induction refs arbitrary: i)
  case (Cons ref refs)
  obtain m where m: "modelByName entry ref = Some m" using modelByName_ex Cons.prems by force
  have "snd (ParseThinkMode (me_Think (ms_Execution m))) = None" using modelByName_Some [OF m] assms(2) by (auto simp: thinks_parse_def)
  then have "\<exists>c. make_candidate p role i m = Inr c"
    by (cases "ParseThinkMode (me_Think (ms_Execution m))") (simp add: make_candidate_def Let_def)
  then obtain c where "make_candidate p role i m = Inr c" ..
  then show ?case using Cons.IH [of "Suc i"] Cons.prems m by auto
qed simp

lemma make_profiles_ex:
  assumes "\<And>role refs i. (role, refs) \<in> set (cf_ExecutionProfiles entry) \<Longrightarrow> \<exists>cs. make_candidates entry p role i refs = Inr cs"
    and "\<forall>role \<in> set roles. \<exists>refs. map_of (cf_ExecutionProfiles entry) role = Some refs \<and> refs \<noteq> []"
  shows "\<exists>rp'. make_profiles entry p roles rp = Inr rp'"
  using assms(2)
proof (induction roles arbitrary: rp)
  case (Cons role roles)
  obtain ref refs where r: "map_of (cf_ExecutionProfiles entry) role = Some (ref # refs)"
    using Cons.prems by (metis list.set_intros(1) neq_Nil_conv)
  obtain cs where "make_candidates entry p role 0 (ref # refs) = Inr cs" using assms(1) [OF map_of_SomeD [OF r]] by blast
  then show ?case using Cons.IH Cons.prems r by (simp del: make_candidates.simps)
qed simp

text \<open>
  A file that passes the validator, lists candidates for every role of the worker and has only think
  modes that parse is loaded without an error.
\<close>

theorem validated_profiles_load:
  assumes "fs_read fs (p @ ''.yaml'') = Read_Data data" and "fs_parse fs data = Inr entry"
    and "vr_Valid (ValidateCatalogEntryStructured entry (p @ ''.yaml''))" and "thinks_parse entry"
    and "\<forall>role \<in> set ValidModelRoles. \<exists>refs. map_of (cf_ExecutionProfiles entry) role = Some refs \<and> refs \<noteq> []"
  shows "\<exists>rp. LoadExecutionProfiles fs p = Inr rp"
proof -
  have v: "no_errors (validateExecutionProfiles entry (p @ ''.yaml''))"
    using assms(3) by (simp add: ValidateCatalogEntryStructured_def buildResult_iff validateSingleEntry_def)
  have "no_errors (profile_loop entry (p @ ''.yaml'') role 0 refs)" if "(role, refs) \<in> set (cf_ExecutionProfiles entry)" for role refs
    using v that unfolding validateExecutionProfiles_def no_errors_def by fastforce
  then have "\<exists>cs. make_candidates entry p role i refs = Inr cs" if "(role, refs) \<in> set (cf_ExecutionProfiles entry)" for role refs i
    using that profile_loop_refs by (intro make_candidates_ex [OF _ assms(4)]) blast
  moreover have "requiredExecutionRoles = ValidModelRoles" by (simp add: requiredExecutionRoles_def ValidModelRoles_def)
  moreover have "cf_ExecutionProfiles entry \<noteq> []" using assms(5) by (auto simp: ValidModelRoles_def)
  ultimately show ?thesis using make_profiles_ex [of entry p ValidModelRoles] assms(1,2,5)
    by (simp add: LoadExecutionProfiles_def Let_def)
qed

section \<open>The execution map\<close>

lemma map_put_keys: "fst ` set (map_put k v m) \<subseteq> insert k (fst ` set m)"
  by (auto simp: map_put_def)

lemma execution_map_keys: "fst ` set (BuildModelExecutionMap catalogs) \<subseteq> {model_key p m | p m. True}"
proof -
  have "fst ` set (fold (\<lambda>(k, x) m. map_put k x m) es m) \<subseteq> fst ` set es \<union> fst ` set m" for es and m :: "(string \<times> model_execution_spec) list"
  proof (induction es arbitrary: m)
    case (Cons e es)
    obtain k x where e: "e = (k, x)" by (cases e)
    show ?case using Cons.IH [of "map_put k x m"] map_put_keys [of k x m] by (auto simp: e)
  qed simp
  from this [of "execution_entries catalogs" "[]"]
  have "fst ` set (BuildModelExecutionMap catalogs) \<subseteq> fst ` set (execution_entries catalogs)" by (simp add: BuildModelExecutionMap_def)
  also have "fst ` set (execution_entries catalogs) \<subseteq> {model_key p m | p m. True}"
    by (auto simp: execution_entries_def split: if_splits) blast
  finally show ?thesis .
qed

lemma routingExecMap_None: "CHR ''/'' \<notin> set provider \<Longrightarrow> rdp_modelExecMap d = routingExecMap catalogs \<Longrightarrow> execConfigFor d provider '''' = zero_execution"
proof -
  assume p: "CHR ''/'' \<notin> set provider" and d: "rdp_modelExecMap d = routingExecMap catalogs"
  have "CHR ''/'' \<in> set k" if "k \<in> fst ` set (BuildModelExecutionMap catalogs)" for k
    using execution_map_keys that by (fastforce simp: model_key_def)
  then have "map_of m provider = None" if "routingExecMap catalogs = Some m" for m
    using that p by (fastforce simp: routingExecMap_def Let_def map_of_eq_None_iff split: if_splits)
  then show ?thesis using d by (simp add: execConfigFor_def split: option.split)
qed

text \<open>
  The execution map of the gateway never applies: its keys are pairs of a provider and a model, the
  router asks with the name of the provider alone, so every plan for providers whose names hold no
  slash has the zero configuration.
\<close>

theorem catalog_execution_never_applies:
  assumes "run_state (quota_Route d inp) w = (plan, w')" and "rdp_modelExecMap d = routingExecMap catalogs"
    and "\<forall>p \<in> set (rdp_registry d). CHR ''/'' \<notin> set (rtp_Name p)"
  shows "xp_Execution plan = zero_execution"
proof -
  consider "unrouted plan" | t ps rks where "plan = selected_plan d t rks" "ps \<noteq> []" "set ps \<subseteq> set (rdp_registry d)"
    "ranking d (gate_external d inp) ps rks"
    using wp_run [OF wp_Route_shape assms(1)] by (auto simp: plan_shape_def)
  then show ?thesis
  proof cases
    case 1
    then show ?thesis by (simp add: unrouted_def)
  next
    case 2
    have "hd rks \<in> set rks" using ranking_ne [OF 2(4,2)] by simp
    then obtain p u where p: "p \<in> set ps" "hd rks = rank_provider d (gate_external d inp) p u" using 2(4) by (auto simp: ranking_def)
    have "xp_Execution plan = execConfigFor d (rtp_Name p) ''''"
      by (simp add: 2(1) selected_plan_def buildFallbackPairs_def Let_def p(2))
    then show ?thesis using routingExecMap_None [OF _ assms(2)] assms(3) p(1) 2(3) by auto
  qed
qed

section \<open>Examples\<close>

definition sample_model :: "string \<Rightarrow> string \<Rightarrow> model_spec" where
  "sample_model name cost =
     \<lparr>ms_Name = name, ms_Enabled = True, ms_Roles = [''fast''], ms_Capabilities = [], ms_CostClass = cost, ms_RelativeCost = Fin 0,
      ms_MaxOutputTokens = 0,
      ms_Execution = \<lparr>me_TimeoutSeconds = 30, me_Think = ''off'', me_JSONMode = True, me_MaxOutputTokens = 0\<rparr>\<rparr>"

definition sample_file :: "string \<Rightarrow> catalog_file" where
  "sample_file cost =
     \<lparr>cf_Provider = \<lparr>psp_Name = ''ollama'', psp_Kind = ''local'', psp_Enabled = True\<rparr>,
      cf_Connection = \<lparr>cns_BaseURL = '''', cns_APIKeyEnv = '''', cns_TimeoutSeconds = 0\<rparr>,
      cf_Limits = \<lparr>lim_RPM = 0, lim_TPM = 0, lim_RPD = 0, lim_TPD = 0\<rparr>,
      cf_Routing = \<lparr>rsp_Roles = [''fast''], rsp_FallbackPriority = 0, rsp_AllowExternal = False\<rparr>,
      cf_Models = [sample_model ''a'' cost, sample_model ''b'' cost],
      cf_ExecutionProfiles = [(''default'', [''a'']), (''fast'', [''b'', ''a'']), (''planner'', [''a'']), (''review'', [''a''])]\<rparr>"

definition sample_dir :: catalog_dir where
  "sample_dir =
     \<lparr>fs_dir = ''providers'', fs_path = (\<lambda>n. ''providers/'' @ n), fs_stat = Stat_Dir, fs_list = Inr [(''ollama.yaml'', False)],
      fs_read = (\<lambda>_. Read_Data ''''), fs_parse = (\<lambda>_. Inr (sample_file ''local''))\<rparr>"

lemmas sample_defs = sample_file_def sample_model_def

lemma sample_valid: "cost \<in> {''local'', ''promo''} \<Longrightarrow> no_errors (validateSingleEntry (sample_file cost) f)"
  by (auto simp: validateSingleEntry_def validateProviderFields_def validateConnectionFields_def validateLimitsFields_def
      validateRoutingFields_def validateModels_def validateModelFields_def validateExecutionProfiles_def sample_defs ValidKinds_def
      ValidRoles_def ValidCostClassesExtended_def cost_out_of_range_def MaxModelsPerProvider_def enabled_models_def Let_def)

text \<open>The cost class \<open>promo\<close> passes the validator and is refused by the loader.\<close>

lemma promo_is_valid_but_not_loaded:
  "vr_Valid (ValidateCatalogEntryStructured (sample_file ''promo'') f) \<and> ValidateCatalogEntry (sample_file ''promo'') f \<noteq> []"
proof
  show "vr_Valid (ValidateCatalogEntryStructured (sample_file ''promo'') f)"
    unfolding ValidateCatalogEntryStructured_def buildResult_iff by (rule sample_valid) simp
  show "ValidateCatalogEntry (sample_file ''promo'') f \<noteq> []" by (simp add: ValidateCatalogEntry_def sample_defs ValidCostClasses_def ValidKinds_def cost_out_of_range_def)
qed

theorem validated_files_are_loaded_witness: "ValidateCatalogEntry (sample_file ''local'') ''ollama.yaml'' = []"
  using sample_valid [of "''local''" "''ollama.yaml''"]
  by (intro validated_files_are_loaded) (simp_all add: ValidateCatalogEntryStructured_def buildResult_iff, simp add: sample_defs)

theorem directory_validation_never_panics_witness: "ValidateCatalog [sample_file ''local''] [] = None"
  using directory_validation_never_panics [of sample_dir "sample_file ''local''" "[]" "[]"] by (simp add: sample_file_def)

lemma sample_loads: "\<exists>rp. LoadExecutionProfiles sample_dir ''ollama'' = Inr rp"
  by (simp add: LoadExecutionProfiles_def sample_dir_def sample_defs requiredExecutionRoles_def RoleDefault_def RoleFast_def
      RolePlanner_def RoleReview_def modelByName_def enabled_models_def make_candidate_def ParseThinkMode_def Let_def)

lemma sample_facts:
  "fs_read sample_dir (p @ ''.yaml'') = Read_Data ''''" "fs_parse sample_dir data = Inr (sample_file ''local'')"
  "timeouts_fit (sample_file ''local'')" "thinks_parse (sample_file ''local'')"
  by (simp_all add: sample_dir_def timeouts_fit_def thinks_parse_def sample_defs ParseThinkMode_def)

theorem loaded_profiles_are_executable_witness:
  "\<exists>rp. LoadExecutionProfiles sample_dir ''ollama'' = Inr rp \<and> map mc_ModelName (CandidatesForRole rp ''fast'') = [''b'', ''a'']"
proof -
  obtain rp where rp: "LoadExecutionProfiles sample_dir ''ollama'' = Inr rp" using sample_loads by blast
  have "role_IsValid ''fast''" by (simp add: role_IsValid_def RoleFast_def)
  from loaded_profiles_are_executable [OF rp sample_facts(1,2,3) this, THEN conjunct2, THEN conjunct1]
  have "map_of (cf_ExecutionProfiles (sample_file ''local'')) ''fast'' = Some (map mc_ModelName (CandidatesForRole rp ''fast''))" .
  moreover have "map_of (cf_ExecutionProfiles (sample_file ''local'')) ''fast'' = Some [''b'', ''a'']" by (simp add: sample_file_def)
  ultimately have "map mc_ModelName (CandidatesForRole rp ''fast'') = [''b'', ''a'']" by (rule option.inject [THEN iffD1, OF trans [OF sym]])
  with rp show ?thesis by (intro exI [of _ rp] conjI)
qed

theorem validated_profiles_load_witness: "\<exists>rp. LoadExecutionProfiles sample_dir ''ollama'' = Inr rp"
proof (rule validated_profiles_load [OF sample_facts(1,2) _ sample_facts(4)])
  show "vr_Valid (ValidateCatalogEntryStructured (sample_file ''local'') (''ollama'' @ ''.yaml''))"
    unfolding ValidateCatalogEntryStructured_def buildResult_iff by (rule sample_valid) simp
qed (simp add: ValidModelRoles_def RoleDefault_def RoleFast_def RolePlanner_def RoleReview_def sample_file_def)

theorem catalog_execution_never_applies_witness:
  "xp_Execution (fst (run_state (quota_Route ((one_provider 5)\<lparr>rdp_modelExecMap := routingExecMap [sample_file ''local'']\<rparr>) plain_input) start_world)) = zero_execution"
proof -
  let ?d = "(one_provider 5)\<lparr>rdp_modelExecMap := routingExecMap [sample_file ''local'']\<rparr>"
  obtain plan w where r: "run_state (quota_Route ?d plain_input) start_world = (plan, w)" by (metis surj_pair)
  have "\<forall>p \<in> set (rdp_registry ?d). CHR ''/'' \<notin> set (rtp_Name p)" by (simp add: one_provider_def local_provider_def)
  from catalog_execution_never_applies [OF r _ this] show ?thesis by (simp add: r)
qed

end
