(* ===== verification/Actuation.thy ===== *)
theory Actuation
  imports Go_Sort Go_Text Scorer Programs "HOL-Library.Sublist"
begin

text \<open>
  The corrective decisions of the agent: \<open>types.go\<close>, \<open>rules.go\<close>, \<open>engine.go\<close>, \<open>store.go\<close> and
  \<open>adapter.go\<close> of \<open>src/internal/agent/actuation\<close>. The rules are pure functions on binary64 numbers;
  the engine and its table are programs of the state monad, in which each reading of the clock or of a
  provider, each fresh UUID, each answer of the database and each audit record takes the next number of
  a counter.
\<close>

section \<open>Data\<close>

definition ActRebalancePortfolio :: string where "ActRebalancePortfolio = ''rebalance_portfolio''"
definition ActAdjustPricing :: string where "ActAdjustPricing = ''adjust_pricing''"
definition ActShiftScheduling :: string where "ActShiftScheduling = ''shift_scheduling''"
definition ActIncreaseDiscovery :: string where "ActIncreaseDiscovery = ''increase_discovery''"
definition ActTriggerAutomation :: string where "ActTriggerAutomation = ''trigger_automation''"
definition ActReduceLoad :: string where "ActReduceLoad = ''reduce_load''"
definition ActStabilizeIncome :: string where "ActStabilizeIncome = ''stabilize_income''"

lemmas act_types = ActRebalancePortfolio_def ActAdjustPricing_def ActShiftScheduling_def ActIncreaseDiscovery_def
  ActTriggerAutomation_def ActReduceLoad_def ActStabilizeIncome_def

definition ValidActuationTypes :: "string list" where
  "ValidActuationTypes =
     [ActRebalancePortfolio, ActAdjustPricing, ActShiftScheduling, ActIncreaseDiscovery, ActTriggerAutomation,
      ActReduceLoad, ActStabilizeIncome]"

definition StatusProposed :: string where "StatusProposed = ''proposed''"
definition StatusApproved :: string where "StatusApproved = ''approved''"
definition StatusRejected :: string where "StatusRejected = ''rejected''"
definition DecisionExecuted :: string where "DecisionExecuted = ''executed''"

lemmas act_statuses = StatusProposed_def StatusApproved_def StatusRejected_def DecisionExecuted_def

definition DecisionTransitions :: "(string \<times> string list) list" where
  "DecisionTransitions = [(StatusProposed, [StatusApproved, StatusRejected]), (StatusApproved, [DecisionExecuted])]"

definition RoutingTarget :: "string \<Rightarrow> string" where
  "RoutingTarget t =
     (if t = ActRebalancePortfolio then ''portfolio''
      else if t = ActAdjustPricing then ''pricing''
      else if t = ActShiftScheduling then ''scheduling''
      else if t = ActIncreaseDiscovery then ''discovery''
      else if t = ActTriggerAutomation then ''self_extension''
      else if t = ActReduceLoad then ''scheduling''
      else if t = ActStabilizeIncome then ''portfolio+pricing''
      else '''')"

record act_decision =
  acd_ID :: string
  acd_Type :: string
  acd_Reason :: string
  acd_SignalSource :: string
  acd_Confidence :: f64
  acd_Priority :: f64
  acd_RequiresReview :: bool
  acd_Status :: string
  acd_Target :: string
  acd_ProposedAt :: time
  acd_ResolvedAt :: "time option"

record signal_input =
  sg_SignalType :: string
  sg_Strength :: f64

record act_inputs =
  ain_ReflectionSignals :: "signal_input list"
  ain_NetUtility :: f64
  ain_UtilityScore :: f64
  ain_RiskScore :: f64
  ain_FinancialRisk :: f64
  ain_OverloadRisk :: f64

definition zero_inputs :: act_inputs where
  "zero_inputs =
     \<lparr>ain_ReflectionSignals = [], ain_NetUtility = Fin 0, ain_UtilityScore = Fin 0, ain_RiskScore = Fin 0,
      ain_FinancialRisk = Fin 0, ain_OverloadRisk = Fin 0\<rparr>"

record act_run_result =
  arr_RunAt :: time
  arr_Decisions :: "act_decision list"
  arr_InputsUsed :: act_inputs

definition zero_run_result :: act_run_result where
  "zero_run_result = \<lparr>arr_RunAt = 0, arr_Decisions = [], arr_InputsUsed = zero_inputs\<rparr>"

definition LowUtilityThreshold :: f64 where "LowUtilityThreshold = f64 (40 / 100)"
definition HighFinancialRiskThreshold :: f64 where "HighFinancialRiskThreshold = f64 (70 / 100)"
definition HighOverloadRiskThreshold :: f64 where "HighOverloadRiskThreshold = f64 (70 / 100)"
definition PriorityEscalationBoost :: f64 where "PriorityEscalationBoost = f64 (20 / 100)"
definition MaxDecisionsPerRun :: nat where "MaxDecisionsPerRun = 10"
definition MinSignalStrength :: f64 where "MinSignalStrength = f64 (10 / 100)"

definition ReviewRequired :: "string \<Rightarrow> bool" where
  "ReviewRequired t \<longleftrightarrow> t = ActTriggerAutomation \<or> t = ActAdjustPricing"

section \<open>The rules\<close>

record proposed_action =
  pa_Type :: string
  pa_Reason :: string
  pa_Source :: string
  pa_Confidence :: f64
  pa_Priority :: f64

definition signal_rules :: "signal_input \<Rightarrow> proposed_action list" where
  "signal_rules sig =
     (let s = sg_Strength sig; t = sg_SignalType sig in
      if flt s MinSignalStrength then []
      else if t = ''low_efficiency'' then
        [\<lparr>pa_Type = ActIncreaseDiscovery, pa_Reason = ''low efficiency detected: increase pipeline discovery'',
          pa_Source = t, pa_Confidence = s, pa_Priority = fmul s (f64 (8 / 10))\<rparr>,
         \<lparr>pa_Type = ActTriggerAutomation, pa_Reason = ''low efficiency detected: explore automation opportunities'',
          pa_Source = t, pa_Confidence = fmul s (f64 (8 / 10)), pa_Priority = fmul s (f64 (6 / 10))\<rparr>]
      else if t = ''pricing_misalignment'' then
        [\<lparr>pa_Type = ActAdjustPricing, pa_Reason = ''pricing misalignment detected: recalibrate price bands'',
          pa_Source = t, pa_Confidence = s, pa_Priority = fmul s (f64 (9 / 10))\<rparr>]
      else if t = ''overload_risk'' then
        [\<lparr>pa_Type = ActReduceLoad, pa_Reason = ''overload risk detected: defer lower-priority work'',
          pa_Source = t, pa_Confidence = s, pa_Priority = fmul s (f64 (9 / 10))\<rparr>,
         \<lparr>pa_Type = ActShiftScheduling, pa_Reason = ''overload risk detected: redistribute scheduled items'',
          pa_Source = t, pa_Confidence = fmul s (f64 (8 / 10)), pa_Priority = fmul s (f64 (7 / 10))\<rparr>]
      else if t = ''income_instability'' then
        [\<lparr>pa_Type = ActStabilizeIncome, pa_Reason = ''income instability detected: stabilize revenue streams'',
          pa_Source = t, pa_Confidence = s, pa_Priority = fmul s (f64 (9 / 10))\<rparr>]
      else if t = ''automation_opportunity'' then
        [\<lparr>pa_Type = ActTriggerAutomation, pa_Reason = ''automation opportunity identified: evaluate automation candidates'',
          pa_Source = t, pa_Confidence = s, pa_Priority = fmul s (f64 (7 / 10))\<rparr>]
      else [])"

definition escalate_all :: "act_inputs \<Rightarrow> proposed_action list \<Rightarrow> proposed_action list" where
  "escalate_all inputs ps =
     (if flt (ain_NetUtility inputs) LowUtilityThreshold
      then map (\<lambda>p. p\<lparr>pa_Priority := clamp01 (fadd (pa_Priority p) PriorityEscalationBoost)\<rparr>) ps else ps)"

definition risk_rules :: "act_inputs \<Rightarrow> proposed_action list" where
  "risk_rules inputs =
     (if flt HighFinancialRiskThreshold (ain_FinancialRisk inputs)
      then [\<lparr>pa_Type = ActStabilizeIncome, pa_Reason = ''high financial risk: urgent income stabilization needed'',
             pa_Source = ''objective.financial_risk'', pa_Confidence = ain_FinancialRisk inputs,
             pa_Priority = clamp01 (ain_FinancialRisk inputs)\<rparr>] else []) @
     (if flt HighOverloadRiskThreshold (ain_OverloadRisk inputs)
      then [\<lparr>pa_Type = ActReduceLoad, pa_Reason = ''high overload risk: urgent load reduction needed'',
             pa_Source = ''objective.overload_risk'', pa_Confidence = ain_OverloadRisk inputs,
             pa_Priority = clamp01 (ain_OverloadRisk inputs)\<rparr>] else [])"

definition raw_proposals :: "act_inputs \<Rightarrow> proposed_action list" where
  "raw_proposals inputs = escalate_all inputs (concat (map signal_rules (ain_ReflectionSignals inputs))) @ risk_rules inputs"

text \<open>The map \<open>best\<close>, with its keys in the order of their first proposal.\<close>

definition keep_best :: "proposed_action \<Rightarrow> proposed_action list \<Rightarrow> proposed_action list" where
  "keep_best p best =
     (case row_of pa_Type best (pa_Type p) of
        None \<Rightarrow> best @ [p]
      | Some existing \<Rightarrow>
          if flt (pa_Priority existing) (pa_Priority p) then sql_update (\<lambda>q. pa_Type q = pa_Type p) (\<lambda>_. p) best else best)"

definition type_before :: "proposed_action \<Rightarrow> proposed_action \<Rightarrow> bool" where
  "type_before p q \<longleftrightarrow> str_less (pa_Type p) (pa_Type q)"

text \<open>Up to twelve elements \<open>sort.Slice\<close> is an insertion sort; a run proposes at most six types.\<close>

definition short_sort :: "('r \<Rightarrow> 'r \<Rightarrow> bool) \<Rightarrow> 'r list \<Rightarrow> 'r list" where
  "short_sort before es = fold (sift_down before) [1..<length es] es"

definition deduplicateProposals :: "proposed_action list \<Rightarrow> proposed_action list" where
  "deduplicateProposals proposals = take MaxDecisionsPerRun (short_sort type_before (fold keep_best proposals []))"

definition EvaluateRules :: "act_inputs \<Rightarrow> proposed_action list" where
  "EvaluateRules inputs = deduplicateProposals (raw_proposals inputs)"

definition ValidateDecision :: "string \<Rightarrow> string \<Rightarrow> bool" where
  "ValidateDecision from to = (case map_of DecisionTransitions from of None \<Rightarrow> False | Some allowed \<Rightarrow> \<exists>s \<in> set allowed. s = to)"

record vector_rules =
  vr_HumanReviewStrictness :: f64
  vr_RiskTolerance :: f64
  vr_IncomePriority :: f64

definition act_BaselineRiskTolerance :: f64 where "act_BaselineRiskTolerance = f64 (30 / 100)"
definition act_BaselineIncomePriority :: f64 where "act_BaselineIncomePriority = f64 (70 / 100)"

definition boost_income :: "f64 \<Rightarrow> proposed_action \<Rightarrow> proposed_action" where
  "boost_income boost p =
     (if pa_Type p = ActStabilizeIncome \<or> pa_Type p = ActAdjustPricing
      then p\<lparr>pa_Priority := clamp01 (fadd (pa_Priority p) boost)\<rparr> else p)"

definition dampen_load :: "f64 \<Rightarrow> proposed_action \<Rightarrow> proposed_action" where
  "dampen_load factor p =
     (if pa_Type p = ActReduceLoad \<or> pa_Type p = ActShiftScheduling
      then p\<lparr>pa_Priority := clamp01 (fmul (pa_Priority p) factor)\<rparr> else p)"

definition EvaluateRulesWithVector :: "act_inputs \<Rightarrow> vector_rules \<Rightarrow> proposed_action list" where
  "EvaluateRulesWithVector inputs v =
     (let proposals = EvaluateRules inputs;
          proposals =
            (if flt act_BaselineIncomePriority (vr_IncomePriority v)
             then map (boost_income (clamp01 (fmul (fsub (vr_IncomePriority v) act_BaselineIncomePriority) (f64 (30 / 100))))) proposals
             else proposals)
      in if flt act_BaselineRiskTolerance (vr_RiskTolerance v)
         then map (dampen_load (clamp01 (fsub (Fin 1) (fmul (fsub (vr_RiskTolerance v) act_BaselineRiskTolerance) (f64 (30 / 100)))))) proposals
         else proposals)"

definition ReviewRequiredWithVector :: "string \<Rightarrow> f64 \<Rightarrow> bool" where
  "ReviewRequiredWithVector t strictness =
     (if t = ActTriggerAutomation then True
      else if flt (f64 (90 / 100)) strictness then t \<noteq> ActShiftScheduling \<and> t \<noteq> ActReduceLoad
      else if fle (f64 (50 / 100)) strictness then t = ActAdjustPricing
      else False)"

section \<open>The state, and what the code calls\<close>

datatype act_event =
    Run_Started time
  | Decision_Created act_decision
  | Decision_Moved string string string string string string

text \<open>The fields of \<open>Decision_Moved\<close>: event, decision, type, \<open>from_status\<close>, \<open>to_status\<close> and source.\<close>

record act_world =
  aw_rows :: "act_decision list"
  aw_tick :: nat
  aw_audit :: "act_event list"

record objective_reader =
  obr_NetUtility :: "nat \<Rightarrow> f64"
  obr_UtilityScore :: "nat \<Rightarrow> f64"
  obr_RiskScore :: "nat \<Rightarrow> f64"
  obr_FinancialRisk :: "nat \<Rightarrow> f64"
  obr_OverloadRisk :: "nat \<Rightarrow> f64"

record vector_reader =
  vrd_HumanReviewStrictness :: "nat \<Rightarrow> f64"
  vrd_RiskTolerance :: "nat \<Rightarrow> f64"
  vrd_IncomePriority :: "nat \<Rightarrow> f64"

text \<open>
  \<open>ad_exec n\<close> is the error of the \<open>n\<close>-th statement, if it fails; \<open>ad_tie n\<close> orders the rows that
  the query of a list leaves unordered.
\<close>

record act_deps =
  ad_clock :: "nat \<Rightarrow> time"
  ad_newUUID :: "nat \<Rightarrow> string"
  ad_exec :: "nat \<Rightarrow> string option"
  ad_fetch :: "nat \<Rightarrow> fetch"
  ad_tie :: "nat \<Rightarrow> act_decision \<Rightarrow> nat"
  ad_auditor :: "(nat \<Rightarrow> bool) option"
  ad_reflection :: "(nat \<Rightarrow> string + signal_input list) option"
  ad_objective :: "objective_reader option"
  ad_vector :: "vector_reader option"

type_synonym 'a actuating = "(act_world, 'a) state"

definition act_next :: "nat actuating" where
  "act_next = State (\<lambda>w. (aw_tick w, w\<lparr>aw_tick := Suc (aw_tick w)\<rparr>))"

definition act_read :: "(nat \<Rightarrow> 'a) \<Rightarrow> 'a actuating" where
  "act_read f = do { n \<leftarrow> act_next; State_Monad.return (f n) }"

definition act_auditEvent :: "act_deps \<Rightarrow> act_event \<Rightarrow> unit actuating" where
  "act_auditEvent d ev =
     (case ad_auditor d of
        None \<Rightarrow> State_Monad.return ()
      | Some record_ok \<Rightarrow> do {
          ok \<leftarrow> act_read record_ok;
          State (\<lambda>w. ((), if ok then w\<lparr>aw_audit := aw_audit w @ [ev]\<rparr> else w)) })"

section \<open>The table of decisions\<close>

text \<open>The insert leaves \<open>resolved_at\<close> null; an instant is kept to the microsecond.\<close>

definition act_row :: "act_decision \<Rightarrow> act_decision" where
  "act_row d = d\<lparr>acd_ProposedAt := acd_ProposedAt d - acd_ProposedAt d mod 1000, acd_ResolvedAt := None\<rparr>"

definition act_Insert :: "act_deps \<Rightarrow> act_decision \<Rightarrow> string option actuating" where
  "act_Insert d x = do {
     failure \<leftarrow> act_read (ad_exec d);
     State (\<lambda>w. case failure of
         Some e \<Rightarrow> (Some (''insert actuation decision: '' @ e), w)
       | None \<Rightarrow>
           if row_of acd_ID (aw_rows w) (acd_ID x) = None then (None, w\<lparr>aw_rows := aw_rows w @ [act_row x]\<rparr>)
           else (Some ''insert actuation decision: duplicate key'', w)) }"

definition act_Get :: "act_deps \<Rightarrow> string \<Rightarrow> (string + act_decision) actuating" where
  "act_Get d i = do {
     failure \<leftarrow> act_read (ad_exec d);
     State (\<lambda>w. (case failure of
         Some e \<Rightarrow> Inl (''get actuation decision: '' @ e)
       | None \<Rightarrow> (case row_of acd_ID (aw_rows w) i of
            None \<Rightarrow> Inl (''actuation decision not found: '' @ i)
          | Some x \<Rightarrow> Inr x), w)) }"

definition act_UpdateStatus :: "act_deps \<Rightarrow> string \<Rightarrow> string \<Rightarrow> time \<Rightarrow> string option actuating" where
  "act_UpdateStatus d i status resolvedAt = do {
     failure \<leftarrow> act_read (ad_exec d);
     State (\<lambda>w. case failure of
         Some e \<Rightarrow> (Some (''update actuation decision status: '' @ e), w)
       | None \<Rightarrow>
           (if sql_count (\<lambda>r. acd_ID r = i) (aw_rows w) = 0 then Some (''actuation decision not found: '' @ i) else None,
            w\<lparr>aw_rows := sql_update (\<lambda>r. acd_ID r = i)
               (\<lambda>r. r\<lparr>acd_Status := status, acd_ResolvedAt := Some (resolvedAt - resolvedAt mod 1000)\<rparr>) (aw_rows w)\<rparr>)) }"

definition listed :: "(act_decision \<Rightarrow> nat) \<Rightarrow> int \<Rightarrow> act_decision list \<Rightarrow> act_decision list" where
  "listed tie limit rows =
     take (nat (if limit \<le> 0 \<or> limit > 200 then 50 else limit))
       (sql_sort (\<lambda>a b. acd_ProposedAt a > acd_ProposedAt b \<or> acd_ProposedAt a = acd_ProposedAt b \<and> tie a < tie b) rows)"

text \<open>A connection that breaks ends the loop over the rows, and the error is not asked for.\<close>

definition act_List :: "act_deps \<Rightarrow> int \<Rightarrow> (string + act_decision list) actuating" where
  "act_List d limit = do {
     n \<leftarrow> act_next;
     State (\<lambda>w. let rows = listed (ad_tie d n) limit (aw_rows w) in
       (case ad_fetch d n of
          Query_Fails e \<Rightarrow> Inl (''list actuation decisions: '' @ e)
        | Complete \<Rightarrow> Inr rows
        | Breaks_After k e \<Rightarrow> Inr (take k rows)
        | Scan_Fails_At k e \<Rightarrow> if k < length rows then Inl (''scan actuation decision: '' @ e) else Inr rows, w)) }"

section \<open>The engine\<close>

definition gatherInputs :: "act_deps \<Rightarrow> act_inputs actuating" where
  "gatherInputs d = do {
     signals \<leftarrow> (case ad_reflection d of
         None \<Rightarrow> State_Monad.return []
       | Some r \<Rightarrow> do {
           answer \<leftarrow> act_read r;
           State_Monad.return (case answer of Inl e \<Rightarrow> [] | Inr signals \<Rightarrow> signals) });
     case ad_objective d of
       None \<Rightarrow> State_Monad.return (zero_inputs\<lparr>ain_ReflectionSignals := signals\<rparr>)
     | Some ob \<Rightarrow> do {
         netUtility \<leftarrow> act_read (obr_NetUtility ob);
         utility \<leftarrow> act_read (obr_UtilityScore ob);
         risk \<leftarrow> act_read (obr_RiskScore ob);
         financial \<leftarrow> act_read (obr_FinancialRisk ob);
         overload \<leftarrow> act_read (obr_OverloadRisk ob);
         State_Monad.return \<lparr>ain_ReflectionSignals = signals, ain_NetUtility = netUtility, ain_UtilityScore = utility,
           ain_RiskScore = risk, ain_FinancialRisk = financial, ain_OverloadRisk = overload\<rparr> } }"

definition evaluate :: "act_deps \<Rightarrow> act_inputs \<Rightarrow> proposed_action list actuating" where
  "evaluate d inputs =
     (case ad_vector d of
        None \<Rightarrow> State_Monad.return (EvaluateRules inputs)
      | Some v \<Rightarrow> do {
          strictness \<leftarrow> act_read (vrd_HumanReviewStrictness v);
          tolerance \<leftarrow> act_read (vrd_RiskTolerance v);
          income \<leftarrow> act_read (vrd_IncomePriority v);
          State_Monad.return (EvaluateRulesWithVector inputs
            \<lparr>vr_HumanReviewStrictness = strictness, vr_RiskTolerance = tolerance, vr_IncomePriority = income\<rparr>) })"

definition review_needed :: "act_deps \<Rightarrow> string \<Rightarrow> bool actuating" where
  "review_needed d t =
     (case ad_vector d of
        None \<Rightarrow> State_Monad.return (ReviewRequired t)
      | Some v \<Rightarrow> do {
          strictness \<leftarrow> act_read (vrd_HumanReviewStrictness v);
          State_Monad.return (ReviewRequiredWithVector t strictness) })"

definition new_decision :: "string \<Rightarrow> time \<Rightarrow> bool \<Rightarrow> proposed_action \<Rightarrow> act_decision" where
  "new_decision i now review p =
     \<lparr>acd_ID = i, acd_Type = pa_Type p, acd_Reason = pa_Reason p, acd_SignalSource = pa_Source p,
      acd_Confidence = clamp01 (pa_Confidence p), acd_Priority = clamp01 (pa_Priority p), acd_RequiresReview = review,
      acd_Status = StatusProposed, acd_Target = RoutingTarget (pa_Type p), acd_ProposedAt = now, acd_ResolvedAt = None\<rparr>"

fun decide :: "act_deps \<Rightarrow> time \<Rightarrow> proposed_action list \<Rightarrow> act_decision list actuating" where
  "decide d now [] = State_Monad.return []"
| "decide d now (p # ps) = do {
     review \<leftarrow> review_needed d (pa_Type p);
     i \<leftarrow> act_read (ad_newUUID d);
     let x = new_decision i now review p;
     failure \<leftarrow> act_Insert d x;
     case failure of
       Some e \<Rightarrow> decide d now ps
     | None \<Rightarrow> do {
         act_auditEvent d (Decision_Created x);
         xs \<leftarrow> decide d now ps;
         State_Monad.return (x # xs) } }"

definition priority_before :: "proposed_action \<Rightarrow> proposed_action \<Rightarrow> bool" where
  "priority_before p q \<longleftrightarrow> flt (pa_Priority q) (pa_Priority p)"

definition act_Run :: "act_deps \<Rightarrow> act_run_result actuating" where
  "act_Run d = do {
     now \<leftarrow> act_read (ad_clock d);
     act_auditEvent d (Run_Started now);
     inputs \<leftarrow> gatherInputs d;
     proposals \<leftarrow> evaluate d inputs;
     decisions \<leftarrow> decide d now (short_sort priority_before proposals);
     State_Monad.return \<lparr>arr_RunAt = now, arr_Decisions = decisions, arr_InputsUsed = inputs\<rparr> }"

text \<open>
  A transition reads the row and then writes it: what another request does in between is not seen.
  The record of the audit is built after the status of the decision has been set.
\<close>

definition transition_check :: "act_deps \<Rightarrow> string \<Rightarrow> string \<Rightarrow> (string + act_decision) actuating" where
  "transition_check d i target = do {
     r \<leftarrow> act_Get d i;
     State_Monad.return (case r of
         Inl e \<Rightarrow> Inl e
       | Inr x \<Rightarrow>
           if ValidateDecision (acd_Status x) target then Inr x
           else Inl (''invalid transition: '' @ acd_Status x @ '' '' @ arrow @ '' '' @ target)) }"

definition transition_commit :: "act_deps \<Rightarrow> act_decision \<Rightarrow> string \<Rightarrow> string \<Rightarrow> string \<Rightarrow> (string + act_decision) actuating" where
  "transition_commit d x i target eventType = do {
     now \<leftarrow> act_read (ad_clock d);
     failure \<leftarrow> act_UpdateStatus d i target now;
     case failure of
       Some e \<Rightarrow> State_Monad.return (Inl e)
     | None \<Rightarrow> do {
         let y = x\<lparr>acd_Status := target, acd_ResolvedAt := Some now\<rparr>;
         act_auditEvent d (Decision_Moved eventType (acd_ID y) (acd_Type y) (acd_Status y) target (acd_SignalSource y));
         State_Monad.return (Inr y) } }"

definition transitionDecision :: "act_deps \<Rightarrow> string \<Rightarrow> string \<Rightarrow> string \<Rightarrow> (string + act_decision) actuating" where
  "transitionDecision d i target eventType = do {
     r \<leftarrow> transition_check d i target;
     case r of
       Inl e \<Rightarrow> State_Monad.return (Inl e)
     | Inr x \<Rightarrow> transition_commit d x i target eventType }"

definition ApproveDecision :: "act_deps \<Rightarrow> string \<Rightarrow> (string + act_decision) actuating" where
  "ApproveDecision d i = transitionDecision d i StatusApproved ''actuation.decision_approved''"

definition RejectDecision :: "act_deps \<Rightarrow> string \<Rightarrow> (string + act_decision) actuating" where
  "RejectDecision d i = transitionDecision d i StatusRejected ''actuation.decision_rejected''"

definition ExecuteDecision :: "act_deps \<Rightarrow> string \<Rightarrow> (string + act_decision) actuating" where
  "ExecuteDecision d i = transitionDecision d i DecisionExecuted ''actuation.executed''"

section \<open>The adapter of the handlers\<close>

definition zero_decision :: act_decision where
  "zero_decision =
     \<lparr>acd_ID = '''', acd_Type = '''', acd_Reason = '''', acd_SignalSource = '''', acd_Confidence = Fin 0, acd_Priority = Fin 0,
      acd_RequiresReview = False, acd_Status = '''', acd_Target = '''', acd_ProposedAt = 0, acd_ResolvedAt = None\<rparr>"

definition adapter_Run :: "act_deps option \<Rightarrow> act_run_result actuating" where
  "adapter_Run engine = (case engine of None \<Rightarrow> State_Monad.return zero_run_result | Some d \<Rightarrow> act_Run d)"

definition adapter_ListDecisions :: "act_deps option \<Rightarrow> int \<Rightarrow> (string + act_decision list) actuating" where
  "adapter_ListDecisions engine limit = (case engine of None \<Rightarrow> State_Monad.return (Inr []) | Some d \<Rightarrow> act_List d limit)"

definition adapter_Approve :: "act_deps option \<Rightarrow> string \<Rightarrow> (string + act_decision) actuating" where
  "adapter_Approve engine i = (case engine of None \<Rightarrow> State_Monad.return (Inr zero_decision) | Some d \<Rightarrow> ApproveDecision d i)"

definition adapter_Reject :: "act_deps option \<Rightarrow> string \<Rightarrow> (string + act_decision) actuating" where
  "adapter_Reject engine i = (case engine of None \<Rightarrow> State_Monad.return (Inr zero_decision) | Some d \<Rightarrow> RejectDecision d i)"

definition adapter_Execute :: "act_deps option \<Rightarrow> string \<Rightarrow> (string + act_decision) actuating" where
  "adapter_Execute engine i = (case engine of None \<Rightarrow> State_Monad.return (Inr zero_decision) | Some d \<Rightarrow> ExecuteDecision d i)"

section \<open>One proposal for each type\<close>

lemma keep_best_types: "pa_Type ` set (keep_best p best) = insert (pa_Type p) (pa_Type ` set best)"
proof (cases "row_of pa_Type best (pa_Type p)")
  case (Some q)
  then have "pa_Type p \<in> pa_Type ` set best" by (metis imageI row_of_SomeD)
  moreover have "pa_Type ` set (sql_update (\<lambda>q. pa_Type q = pa_Type p) (\<lambda>_. p) best) = pa_Type ` set best"
    by (auto simp: set_sql_update image_image image_iff) metis
  ultimately show ?thesis using Some by (auto simp: keep_best_def insert_absorb)
qed (simp add: keep_best_def)

lemma keyed_keep_best: "keyed pa_Type best \<Longrightarrow> keyed pa_Type (keep_best p best)"
  by (auto simp: keep_best_def keyed_append row_of_None_iff intro: keyed_sql_update split: option.splits)

lemma keep_best_from: "set (keep_best p best) \<subseteq> insert p (set best)"
  by (auto simp: keep_best_def set_sql_update split: option.splits if_splits)

lemma keep_best_keeps:
  assumes "keyed pa_Type best" and "q \<in> set best" and "pa_Priority p \<noteq> NaN" and "\<forall>q \<in> set best. pa_Priority q \<noteq> NaN"
  shows "\<exists>r \<in> set (keep_best p best). pa_Type r = pa_Type q \<and> fle (pa_Priority q) (pa_Priority r)"
proof (cases "pa_Type q = pa_Type p")
  case True
  then have "row_of pa_Type best (pa_Type p) = Some q" using keyed_row_of [OF assms(1,2)] by simp
  note s = this
  show ?thesis
  proof (cases "flt (pa_Priority q) (pa_Priority p)")
    case True
    then have "p \<in> set (keep_best p best)"
      using assms(2) s \<open>pa_Type q = pa_Type p\<close> by (auto simp: keep_best_def set_sql_update image_iff intro: bexI [of _ q])
    then show ?thesis using True \<open>pa_Type q = pa_Type p\<close> by (auto simp: fle_def)
  next
    case False
    then have "keep_best p best = best" using s by (simp add: keep_best_def)
    then show ?thesis using assms(2,4) by (metis fle_refl)
  qed
next
  case False
  then have "q \<in> set (keep_best p best)" using assms(2)
    by (auto simp: keep_best_def set_sql_update image_iff split: option.splits intro: bexI [of _ q])
  then show ?thesis using assms(2,4) by (auto intro: bexI [of _ q])
qed

lemma keep_best_new:
  assumes "pa_Priority p \<noteq> NaN" and "\<forall>q \<in> set best. pa_Priority q \<noteq> NaN"
  shows "\<exists>r \<in> set (keep_best p best). pa_Type r = pa_Type p \<and> fle (pa_Priority p) (pa_Priority r)"
proof (cases "row_of pa_Type best (pa_Type p)")
  case (Some q)
  note q = row_of_SomeD [OF Some]
  show ?thesis
  proof (cases "flt (pa_Priority q) (pa_Priority p)")
    case True
    then have "p \<in> set (keep_best p best)" using q Some by (auto simp: keep_best_def set_sql_update image_iff intro: bexI [of _ q])
    then show ?thesis using assms(1) by (auto intro: bexI [of _ p])
  next
    case False
    then have "keep_best p best = best" using Some by (simp add: keep_best_def)
    then show ?thesis using False q assms by (metis not_flt_fle)
  qed
qed (use assms(1) in \<open>simp add: keep_best_def\<close>)

lemma best_of_each_type:
  assumes "\<forall>p \<in> set ps. pa_Priority p \<noteq> NaN"
  defines "best \<equiv> fold keep_best ps []"
  shows "keyed pa_Type best" and "set best \<subseteq> set ps" and "pa_Type ` set best = pa_Type ` set ps"
    and "\<forall>p \<in> set ps. \<exists>q \<in> set best. pa_Type q = pa_Type p \<and> fle (pa_Priority p) (pa_Priority q)"
proof -
  have "keyed pa_Type best \<and> set best \<subseteq> set ps \<and> pa_Type ` set best = pa_Type ` set ps \<and>
      (\<forall>p \<in> set ps. \<exists>q \<in> set best. pa_Type q = pa_Type p \<and> fle (pa_Priority p) (pa_Priority q))"
    using assms(1) unfolding best_def
  proof (induction ps rule: rev_induct)
    case (snoc p ps)
    let ?b = "fold keep_best ps []"
    have IH: "keyed pa_Type ?b" "set ?b \<subseteq> set ps" "pa_Type ` set ?b = pa_Type ` set ps"
      "\<forall>p \<in> set ps. \<exists>q \<in> set ?b. pa_Type q = pa_Type p \<and> fle (pa_Priority p) (pa_Priority q)"
      and nan: "pa_Priority p \<noteq> NaN" "\<forall>q \<in> set ?b. pa_Priority q \<noteq> NaN"
      using snoc by auto
    have "\<exists>r \<in> set (keep_best p ?b). pa_Type r = pa_Type q \<and> fle (pa_Priority q) (pa_Priority r)" if "q \<in> set ps" for q
      using IH(4) that keep_best_keeps [OF IH(1) _ nan] by (metis fle_trans)
    then show ?case using keyed_keep_best [OF IH(1)] keep_best_from [of p ?b] IH(2,3) keep_best_types [of p ?b] keep_best_new [OF nan]
      by auto
  qed simp
  then show "keyed pa_Type best" and "set best \<subseteq> set ps" and "pa_Type ` set best = pa_Type ` set ps"
    and "\<forall>p \<in> set ps. \<exists>q \<in> set best. pa_Type q = pa_Type p \<and> fle (pa_Priority p) (pa_Priority q)" by blast+
qed

section \<open>The sorts\<close>

interpretation type_sort: sort_order type_before "\<lambda>_. True"
  by unfold_locales (auto simp: type_before_def dest: str_less_asym str_less_negtrans)

interpretation priority_sort: sort_order priority_before "\<lambda>p. pa_Priority p \<noteq> NaN"
proof unfold_locales
  show "priority_before a b \<Longrightarrow> \<not> priority_before b a" for a b by (simp add: priority_before_def flt_asym)
  show "pa_Priority b \<noteq> NaN \<Longrightarrow> \<not> priority_before a b \<Longrightarrow> \<not> priority_before b c \<Longrightarrow> \<not> priority_before a c" for a b c
    using flt_negtrans [of "pa_Priority b" "pa_Priority c" "pa_Priority a"] by (simp add: priority_before_def)
qed

lemma mset_short_sort [simp]: "mset (short_sort before es) = mset es"
  unfolding short_sort_def by (rule mset_outer) (rule mset_sift_down)

lemma set_short_sort [simp]: "set (short_sort before es) = set es"
  by (metis mset_short_sort set_mset_mset)

lemma length_short_sort [simp]: "length (short_sort before es) = length es"
  by (metis mset_short_sort size_mset)

lemma str_less_total: "str_less a b \<or> a = b \<or> str_less b a"
proof (induction a b rule: str_less.induct)
  case (1 xs)
  then show ?case by (cases xs) simp_all
next
  case (3 x xs y ys)
  then show ?case by (metis linorder_neqE_nat of_char_eq_iff str_less.simps(3))
qed simp

lemma types_sorted:
  assumes "keyed pa_Type es"
  shows "sorted_wrt type_before (short_sort type_before es)"
proof -
  have "ordered_by type_before (short_sort type_before es)"
    using type_sort.sift_sort_sorts [of es, OF _ refl] by (simp add: short_sort_def list_all_iff)
  moreover have "distinct (map pa_Type (short_sort type_before es))"
    using assms mset_eq_imp_distinct_iff [of "map pa_Type (short_sort type_before es)" "map pa_Type es"] by (simp add: keyed_def)
  ultimately show ?thesis
    by (auto simp: ordered_by_def sorted_wrt_iff_nth_less type_before_def distinct_conv_nth) (metis less_trans nat_neq_iff str_less_total nth_map length_map)
qed

text \<open>The order in which Go visits the map does not matter.\<close>

lemma strict_order_unique:
  assumes "sorted_wrt type_before xs" and "sorted_wrt type_before ys" and "mset xs = mset ys"
  shows "xs = ys"
  using assms
proof (induction xs arbitrary: ys)
  case (Cons x xs)
  then obtain y ys' where ys: "ys = y # ys'" by (cases ys) auto
  have "x \<in> set ys" "y \<in> set (x # xs)" using mset_eq_setD [OF Cons.prems(3)] ys by auto
  then have "x = y" using Cons.prems(1,2) ys type_sort.before_asym by auto
  then show ?case using Cons ys by auto
qed simp

lemma map_order_irrelevant:
  assumes "keyed pa_Type best" and "mset visited = mset best"
  shows "short_sort type_before visited = short_sort type_before best"
proof (rule strict_order_unique)
  have "keyed pa_Type visited"
    using assms mset_eq_imp_distinct_iff [of "map pa_Type visited" "map pa_Type best"] by (simp add: keyed_def)
  then show "sorted_wrt type_before (short_sort type_before visited)" by (rule types_sorted)
qed (use assms types_sorted in simp_all)

section \<open>Bounds of the rules\<close>

definition inputs_ok :: "act_inputs \<Rightarrow> bool" where
  "inputs_ok inputs \<longleftrightarrow>
     (\<forall>sig \<in> set (ain_ReflectionSignals inputs). fin_in 0 1 (sg_Strength sig)) \<and>
     ain_FinancialRisk inputs \<noteq> NaN \<and> ain_OverloadRisk inputs \<noteq> NaN"

definition rule_types :: "string list" where
  "rule_types = [ActIncreaseDiscovery, ActTriggerAutomation, ActAdjustPricing, ActReduceLoad, ActShiftScheduling, ActStabilizeIncome]"

definition proposal_ok :: "proposed_action \<Rightarrow> bool" where
  "proposal_ok p \<longleftrightarrow> pa_Type p \<in> set rule_types \<and> fin_in 0 1 (pa_Priority p) \<and> pa_Confidence p \<noteq> NaN"

lemma unit_prod: assumes "fin_in 0 1 a" "fin_in 0 1 b" shows "fin_in 0 1 (fmul a b)"
proof -
  obtain x y where x: "a = Fin x" "0 \<le> x" "x \<le> 1" "b = Fin y" "0 \<le> y" "y \<le> 1" using assms by (auto simp: fin_in_def)
  then show ?thesis using rnd_unit [of "x * y"] by (auto simp: fin_in_def mult_le_one)
qed

lemma unit_rnd: "0 \<le> x \<Longrightarrow> x \<le> 1 \<Longrightarrow> fin_in 0 1 (rnd x)"
  using rnd_unit by (auto simp: fin_in_def)

lemma unit_add: assumes "fin_in 0 1 a" "fin_in 0 1 b" shows "fin_in 0 1 (clamp01 (fadd a b))"
  by (rule clamp01_in) (use assms fadd_not_NaN fin_in_not_NaN in \<open>auto simp: fin_in_def\<close>)

lemma signal_rules_ok:
  assumes "fin_in 0 1 (sg_Strength sig)"
  shows "\<forall>p \<in> set (signal_rules sig). proposal_ok p"
proof -
  have "fin_in 0 1 (fmul (sg_Strength sig) (rnd x))" if "0 \<le> x" "x \<le> 1" for x
    using assms that by (intro unit_prod unit_rnd)
  moreover have "fmul (sg_Strength sig) (rnd x) \<noteq> NaN" if "0 \<le> x" "x \<le> 1" for x
    using calculation [OF that] by (rule fin_in_not_NaN)
  ultimately show ?thesis using assms
    by (simp add: signal_rules_def Let_def proposal_ok_def rule_types_def fin_in_not_NaN)
qed

lemma risk_rules_ok: "ain_FinancialRisk inputs \<noteq> NaN \<Longrightarrow> ain_OverloadRisk inputs \<noteq> NaN \<Longrightarrow> \<forall>p \<in> set (risk_rules inputs). proposal_ok p"
  by (auto simp: risk_rules_def proposal_ok_def rule_types_def clamp01_in)

lemma raw_proposals_ok:
  assumes "inputs_ok inputs"
  shows "\<forall>p \<in> set (raw_proposals inputs). proposal_ok p"
proof -
  have "fin_in 0 1 PriorityEscalationBoost" unfolding PriorityEscalationBoost_def by (rule unit_rnd) simp_all
  moreover have "\<forall>p \<in> set (concat (map signal_rules (ain_ReflectionSignals inputs))). proposal_ok p"
    using signal_rules_ok assms by (auto simp: inputs_ok_def)
  ultimately have "\<forall>p \<in> set (escalate_all inputs (concat (map signal_rules (ain_ReflectionSignals inputs)))). proposal_ok p"
    using unit_add by (auto simp: escalate_all_def proposal_ok_def)
  then show ?thesis using risk_rules_ok [of inputs] assms by (auto simp: raw_proposals_def inputs_ok_def)
qed

lemma evaluated:
  assumes "inputs_ok inputs"
  shows "EvaluateRules inputs = short_sort type_before (fold keep_best (raw_proposals inputs) [])"
    and "length (EvaluateRules inputs) \<le> 6" and "keyed pa_Type (EvaluateRules inputs)"
    and "\<forall>p \<in> set (EvaluateRules inputs). proposal_ok p"
proof -
  let ?b = "fold keep_best (raw_proposals inputs) []"
  have nan: "\<forall>p \<in> set (raw_proposals inputs). pa_Priority p \<noteq> NaN"
    using raw_proposals_ok [OF assms] fin_in_not_NaN by (auto simp: proposal_ok_def)
  note b = best_of_each_type [OF nan]
  have ok: "\<forall>p \<in> set ?b. proposal_ok p" using b(2) raw_proposals_ok [OF assms] by blast
  have "length ?b = card (pa_Type ` set ?b)" using b(1) by (metis keyed_def distinct_card length_map set_map)
  also have "\<dots> \<le> card (set rule_types)" using ok by (intro card_mono) (auto simp: proposal_ok_def)
  also have "\<dots> \<le> 6" using card_length [of rule_types] by (simp add: rule_types_def)
  finally have len: "length ?b \<le> 6" .
  then show e: "EvaluateRules inputs = short_sort type_before ?b"
    by (simp add: EvaluateRules_def deduplicateProposals_def MaxDecisionsPerRun_def)
  show "length (EvaluateRules inputs) \<le> 6" unfolding e using len by simp
  show "keyed pa_Type (EvaluateRules inputs)"
    unfolding e using b(1) mset_eq_imp_distinct_iff [of "map pa_Type (short_sort type_before ?b)" "map pa_Type ?b"] by (simp add: keyed_def)
  show "\<forall>p \<in> set (EvaluateRules inputs). proposal_ok p" unfolding e using ok by simp
qed

lemma fmul_const_not_NaN: "a \<noteq> NaN \<Longrightarrow> b = Fin y \<Longrightarrow> y \<noteq> 0 \<Longrightarrow> fmul a b \<noteq> NaN"
  by (cases a) (simp_all add: fmul_def finf_def)

lemma thirty_percent: "\<exists>y. rnd (30 / 100) = Fin y \<and> y \<noteq> 0"
  using rnd_nonzero [of "- 2" "30 / 100"] by (auto simp: power_int_def power2_eq_square)

lemma with_vector:
  fixes v :: vector_rules
  assumes "inputs_ok inputs"
  defines "ps \<equiv> EvaluateRulesWithVector inputs v"
  shows "length ps \<le> 6" and "keyed pa_Type ps" and "\<forall>p \<in> set ps. proposal_ok p"
proof -
  have b: "\<exists>x. act_BaselineIncomePriority = Fin x" "\<exists>x. act_BaselineRiskTolerance = Fin x"
    using rnd_unit [of "70 / 100"] rnd_unit [of "30 / 100"] by (auto simp: act_BaselineIncomePriority_def act_BaselineRiskTolerance_def)
  have scaled: "fmul (fsub a c) (rnd (30 / 100)) \<noteq> NaN" if "flt c a" "\<exists>x. c = Fin x" for a c
    using that thirty_percent fmul_const_not_NaN fsub_not_NaN by (cases a) (metis flt.simps)+
  have boost: "proposal_ok (boost_income (clamp01 (fmul (fsub a act_BaselineIncomePriority) (rnd (30 / 100)))) p)"
    if "proposal_ok p" "flt act_BaselineIncomePriority a" for a p
    using that unit_add [OF _ clamp01_in [OF scaled [OF that(2) b(1)]]] by (auto simp: boost_income_def proposal_ok_def)
  have "fsub (Fin 1) (fmul (fsub a act_BaselineRiskTolerance) (rnd (30 / 100))) \<noteq> NaN" if "flt act_BaselineRiskTolerance a" for a
    using scaled [OF that b(2)] unfolding fsub_def [of "Fin 1"]
    by (intro fadd_Fin_not_NaN) (cases "fmul (fsub a act_BaselineRiskTolerance) (rnd (30 / 100))"; simp)
  then have dampen: "proposal_ok (dampen_load (clamp01 (fsub (Fin 1) (fmul (fsub a act_BaselineRiskTolerance) (rnd (30 / 100))))) p)"
    if "proposal_ok p" "flt act_BaselineRiskTolerance a" for a p
    using that clamp01_in unit_prod clamp01_in [OF fin_in_not_NaN [OF unit_prod]] by (simp add: dampen_load_def proposal_ok_def)
  have types: "map pa_Type (map (boost_income f) es) = map pa_Type es" "map pa_Type (map (dampen_load f) es) = map pa_Type es" for f es
    by (simp_all add: boost_income_def dampen_load_def)
  have "map pa_Type ps = map pa_Type (EvaluateRules inputs)"
    using types by (simp add: ps_def EvaluateRulesWithVector_def Let_def del: map_map)
  then show "length ps \<le> 6" "keyed pa_Type ps" using evaluated [OF assms(1)] by (metis length_map, metis keyed_def)
  show "\<forall>p \<in> set ps. proposal_ok p"
    using evaluated(4) [OF assms(1)] boost dampen by (auto simp: ps_def EvaluateRulesWithVector_def Let_def)
qed

section \<open>What a run stores\<close>

definition readings_ok :: "act_deps \<Rightarrow> bool" where
  "readings_ok d \<longleftrightarrow>
     (\<forall>r n signals. ad_reflection d = Some r \<longrightarrow> r n = Inr signals \<longrightarrow> (\<forall>sig \<in> set signals. fin_in 0 1 (sg_Strength sig))) \<and>
     (\<forall>ob n. ad_objective d = Some ob \<longrightarrow> obr_FinancialRisk ob n \<noteq> NaN \<and> obr_OverloadRisk ob n \<noteq> NaN)"

declare wp_State [wp_rules]

lemma wp_act_next [wp_rules]: "wp act_next Q w = Q (aw_tick w) (w\<lparr>aw_tick := Suc (aw_tick w)\<rparr>)"
  by (simp add: act_next_def wp_def)

lemma wp_act_read [wp_rules]: "wp (act_read f) Q w = Q (f (aw_tick w)) (w\<lparr>aw_tick := Suc (aw_tick w)\<rparr>)"
  by (simp add: act_read_def wp_rules)

lemma audit_keeps_rows: "wp (act_auditEvent d ev) (\<lambda>_ w'. aw_rows w' = aw_rows w) w"
  by (cases "ad_auditor d") (simp_all add: act_auditEvent_def wp_rules)

lemma gatherInputs_ok:
  assumes "readings_ok d"
  shows "wp (gatherInputs d) (\<lambda>inputs w'. inputs_ok inputs \<and> aw_rows w' = aw_rows w) w"
proof -
  have "wp (case ad_reflection d of None \<Rightarrow> State_Monad.return [] | Some r \<Rightarrow>
         act_read r \<bind> (\<lambda>answer. State_Monad.return (case answer of Inl e \<Rightarrow> [] | Inr signals \<Rightarrow> signals)))
      (\<lambda>signals w'. (\<forall>sig \<in> set signals. fin_in 0 1 (sg_Strength sig)) \<and> aw_rows w' = aw_rows w) w"
    using assms by (auto simp: readings_ok_def wp_rules split: option.splits sum.splits) metis
  then show ?thesis unfolding gatherInputs_def
    by (rule wp_seq) (use assms in \<open>auto simp: readings_ok_def inputs_ok_def zero_inputs_def wp_rules split: option.splits\<close>)
qed

lemma evaluate_ok:
  assumes "inputs_ok inputs"
  shows "wp (evaluate d inputs) (\<lambda>ps w'. aw_rows w' = aw_rows w \<and> length ps \<le> 6 \<and> keyed pa_Type ps \<and> (\<forall>p \<in> set ps. proposal_ok p)) w"
  using evaluated [OF assms] with_vector [OF assms] by (cases "ad_vector d") (simp_all add: evaluate_def wp_rules)

definition decided_from :: "time \<Rightarrow> proposed_action \<Rightarrow> act_decision \<Rightarrow> bool" where
  "decided_from now p x \<longleftrightarrow>
     (\<exists>i review. x = new_decision i now review p \<and> (pa_Type p = ActTriggerAutomation \<longrightarrow> review))"

lemma review_kept: "wp (review_needed d t) (\<lambda>r w'. aw_rows w' = aw_rows w \<and> (t = ActTriggerAutomation \<longrightarrow> r)) w"
  by (cases "ad_vector d") (simp_all add: review_needed_def wp_rules ReviewRequired_def ReviewRequiredWithVector_def)

lemma insert_appends:
  "wp (act_Insert d x) (\<lambda>e w'. if e = None then aw_rows w' = aw_rows w @ [act_row x] \<and> acd_ID x \<notin> acd_ID ` set (aw_rows w)
     else aw_rows w' = aw_rows w) w"
  by (simp add: act_Insert_def wp_rules row_of_None_iff split: option.splits prod.splits)
lemma decide_stores:
  "keyed acd_ID (aw_rows w) \<Longrightarrow>
   wp (decide d now ps) (\<lambda>xs w'. aw_rows w' = aw_rows w @ map act_row xs \<and> keyed acd_ID (aw_rows w') \<and>
     (\<exists>qs. subseq qs ps \<and> list_all2 (decided_from now) qs xs)) w"
proof (induction ps arbitrary: w)
  case Nil
  then show ?case by (simp add: wp_rules)
next
  case (Cons p ps)
  show ?case unfolding decide.simps Let_def
  proof (rule wp_seq [OF review_kept], unfold wp_bind [of "act_read _"] wp_act_read, rule wp_seq [OF insert_appends], goal_cases)
    case (1 review w1 failure w2)
    let ?x = "new_decision (ad_newUUID d (aw_tick w1)) now review p"
    have x: "decided_from now p ?x" using 1(1) unfolding decided_from_def by blast
    show ?case
    proof (cases failure)
      case None
      then have r: "aw_rows w2 = aw_rows w @ [act_row ?x]" "acd_ID ?x \<notin> acd_ID ` set (aw_rows w)" using 1 by simp_all
      then have k: "keyed acd_ID (aw_rows w2)" using Cons.prems by (simp add: keyed_def act_row_def)
      have "wp (act_auditEvent d (Decision_Created ?x) \<bind> (\<lambda>_. decide d now ps \<bind> (\<lambda>xs. State_Monad.return (?x # xs))))
          (\<lambda>xs w'. aw_rows w' = aw_rows w @ map act_row xs \<and> keyed acd_ID (aw_rows w') \<and>
            (\<exists>qs. subseq qs (p # ps) \<and> list_all2 (decided_from now) qs xs)) w2"
      proof (rule wp_seq [OF audit_keeps_rows], rule wp_seq [OF Cons.IH], goal_cases)
        case (2 _ w3 xs w4)
        then obtain qs where "subseq qs ps" "list_all2 (decided_from now) qs xs" by blast
        then have "subseq (p # qs) (p # ps)" "list_all2 (decided_from now) (p # qs) (?x # xs)" using x by simp_all
        then show ?case using 2 r(1) by (auto simp: wp_return)
      qed (use k in simp)
      then show ?thesis using None by simp
    next
      case (Some e)
      then have "aw_rows w2 = aw_rows w" using 1 by simp
      then show ?thesis using Cons.IH [of w2] Cons.prems Some by (auto elim!: wp_mono intro: list_emb_Cons)
    qed
  qed
qed

definition decision_ok :: "act_decision \<Rightarrow> bool" where
  "decision_ok x \<longleftrightarrow> acd_Type x \<in> set rule_types \<and> acd_Target x = RoutingTarget (acd_Type x) \<and> fin_in 0 1 (acd_Confidence x) \<and>
     fin_in 0 1 (acd_Priority x) \<and> acd_Status x \<in> {StatusProposed, StatusApproved, StatusRejected, DecisionExecuted} \<and>
     (acd_ResolvedAt x = None \<longleftrightarrow> acd_Status x = StatusProposed) \<and> (acd_Type x = ActTriggerAutomation \<longrightarrow> acd_RequiresReview x)"

lemma clamp01_unit: "fin_in 0 1 a \<Longrightarrow> clamp01 a = a"
  by (auto simp: fin_in_def clamp01_def)

lemma decided_ok:
  assumes "decided_from now p x" and "proposal_ok p"
  shows "decision_ok x" and "acd_Status x = StatusProposed" and "acd_Type x = pa_Type p" and "acd_Priority x = pa_Priority p"
    and "acd_Type x = ActTriggerAutomation \<longrightarrow> acd_RequiresReview x" and "acd_ResolvedAt x = None"
  using assms clamp01_in [of "pa_Confidence p"]
  by (auto simp: decided_from_def new_decision_def proposal_ok_def decision_ok_def clamp01_unit)

lemma list_all2_map_eq: "list_all2 P xs ys \<Longrightarrow> (\<And>x y. x \<in> set xs \<Longrightarrow> P x y \<Longrightarrow> f x = g y) \<Longrightarrow> map f xs = map g ys"
  by (induction rule: list_all2_induct) auto

lemma list_all2_set2: "list_all2 P xs ys \<Longrightarrow> y \<in> set ys \<Longrightarrow> \<exists>x \<in> set xs. P x y"
  by (induction rule: list_all2_induct) auto

lemma subseq_sorted: "subseq xs ys \<Longrightarrow> sorted_wrt R ys \<Longrightarrow> sorted_wrt R xs"
  by (induction rule: list_emb.induct) (auto dest: list_emb_set)

lemma subseq_keyed: "subseq xs ys \<Longrightarrow> keyed f ys \<Longrightarrow> keyed f xs"
  by (induction rule: list_emb.induct) (auto simp: keyed_def dest: list_emb_set)

definition ranked :: "act_decision list \<Rightarrow> bool" where
  "ranked xs \<longleftrightarrow> length xs \<le> 6 \<and> keyed acd_Type xs \<and> sorted_wrt (\<lambda>x y. fle (acd_Priority y) (acd_Priority x)) xs \<and>
     (\<forall>x \<in> set xs. decision_ok x \<and> acd_Status x = StatusProposed \<and> (acd_Type x = ActTriggerAutomation \<longrightarrow> acd_RequiresReview x))"

lemma decided_ranked:
  assumes "length ps \<le> 6" "keyed pa_Type ps" "\<forall>p \<in> set ps. proposal_ok p"
    and "subseq qs (short_sort priority_before ps)" and "list_all2 (decided_from now) qs xs"
  shows "ranked xs"
proof -
  let ?ps = "short_sort priority_before ps"
  have ok: "\<forall>p \<in> set qs. proposal_ok p" using assms(3) list_emb_set [OF assms(4)] by fastforce
  have nan: "list_all (\<lambda>p. pa_Priority p \<noteq> NaN) ps" using assms(3) fin_in_not_NaN by (auto simp: list_all_iff proposal_ok_def)
  then have "ordered_by priority_before ?ps" using priority_sort.sift_sort_sorts [OF nan refl] by (simp add: short_sort_def)
  then have "sorted_wrt (\<lambda>p q. \<not> priority_before q p) qs" using subseq_sorted [OF assms(4)] by (simp add: ordered_by_def)
  then have "sorted_wrt (\<lambda>p q. fle (pa_Priority q) (pa_Priority p)) qs"
    by (rule sorted_wrt_mono_rel [rotated]) (use ok fin_in_not_NaN not_flt_fle in \<open>unfold priority_before_def proposal_ok_def, metis\<close>)
  then have s: "sorted_wrt (\<lambda>a b. fle b a) (map pa_Priority qs)" by (simp add: sorted_wrt_map)
  have "map pa_Priority qs = map acd_Priority xs" "map pa_Type qs = map acd_Type xs"
    using list_all2_map_eq [OF assms(5)] ok decided_ok(3,4) by metis+
  moreover have "keyed pa_Type qs"
    using assms(2) mset_eq_imp_distinct_iff [of "map pa_Type ?ps" "map pa_Type ps"]
    by (intro subseq_keyed [OF assms(4)]) (simp add: keyed_def)
  moreover have "length xs \<le> 6" using list_emb_length [OF assms(4)] assms(1) list_all2_lengthD [OF assms(5)] by simp
  moreover have "decision_ok x \<and> acd_Status x = StatusProposed \<and> (acd_Type x = ActTriggerAutomation \<longrightarrow> acd_RequiresReview x)"
    if x: "x \<in> set xs" for x
  proof -
    obtain p where "p \<in> set qs" "decided_from now p x" using list_all2_set2 [OF assms(5) x] by blast
    then show ?thesis using ok decided_ok by blast
  qed
  ultimately show ?thesis using s by (simp add: ranked_def keyed_def sorted_wrt_map)
qed

lemma run_stores:
  assumes "readings_ok d" and "keyed acd_ID (aw_rows w)"
  shows "wp (act_Run d) (\<lambda>res w'. aw_rows w' = aw_rows w @ map act_row (arr_Decisions res) \<and> keyed acd_ID (aw_rows w') \<and>
     ranked (arr_Decisions res)) w"
  unfolding act_Run_def wp_bind [of "act_read _"] wp_act_read
proof (rule wp_seq [OF audit_keeps_rows], rule wp_seq [OF gatherInputs_ok [OF assms(1)]], rule wp_seq [OF evaluate_ok], goal_cases)
  case (2 u w1 inputs w2 ps w3)
  then have "aw_rows w3 = aw_rows w" by simp
  moreover from this have "keyed acd_ID (aw_rows w3)" using assms(2) by simp
  ultimately show ?case using 2(3) decided_ranked [of ps]
    by (intro wp_seq [OF decide_stores]) (auto simp: wp_return)
qed simp

section \<open>The lifecycle of a decision\<close>

datatype act_request = Rq_Run | Rq_Approve string | Rq_Reject string | Rq_Execute string

fun act_step :: "act_deps \<Rightarrow> act_request \<Rightarrow> act_world \<Rightarrow> act_world" where
  "act_step d Rq_Run w = snd (run_state (act_Run d) w)"
| "act_step d (Rq_Approve i) w = snd (run_state (ApproveDecision d i) w)"
| "act_step d (Rq_Reject i) w = snd (run_state (RejectDecision d i) w)"
| "act_step d (Rq_Execute i) w = snd (run_state (ExecuteDecision d i) w)"

inductive act_reach :: "act_deps \<Rightarrow> act_world \<Rightarrow> bool" for d where
  empty: "aw_rows w = [] \<Longrightarrow> act_reach d w"
| step: "act_reach d w \<Longrightarrow> act_reach d (act_step d rq w)"

definition resolve :: "string \<Rightarrow> string \<Rightarrow> time \<Rightarrow> act_decision list \<Rightarrow> act_decision list" where
  "resolve i target t = sql_update (\<lambda>r. acd_ID r = i) (\<lambda>r. r\<lparr>acd_Status := target, acd_ResolvedAt := Some t\<rparr>)"

lemma decision_transition:
  "wp (transitionDecision d i target ev) (\<lambda>r w'. aw_rows w' = aw_rows w \<or>
     (\<exists>x t. row_of acd_ID (aw_rows w) i = Some x \<and> ValidateDecision (acd_Status x) target \<and> aw_rows w' = resolve i target t (aw_rows w))) w"
proof -
  have check: "wp (transition_check d i target) (\<lambda>r w'. aw_rows w' = aw_rows w \<and>
      (\<forall>x. r = Inr x \<longrightarrow> row_of acd_ID (aw_rows w) i = Some x \<and> ValidateDecision (acd_Status x) target)) w"
    by (auto simp: transition_check_def act_Get_def wp_rules split: option.splits sum.splits if_splits)
  have update: "wp (act_UpdateStatus d i target now) (\<lambda>e w'. aw_rows w' = aw_rows w1 \<or> (\<exists>t. aw_rows w' = resolve i target t (aw_rows w1))) w1" for now w1
    by (auto simp: act_UpdateStatus_def wp_rules resolve_def split: option.splits)
  have commit: "wp (transition_commit d x i target ev) (\<lambda>r w'. aw_rows w' = aw_rows w1 \<or> (\<exists>t. aw_rows w' = resolve i target t (aw_rows w1))) w1" for x w1
    unfolding transition_commit_def wp_bind [of "act_read _"] wp_act_read Let_def
  proof (rule wp_seq [OF update], goal_cases)
    case (1 e w2)
    then have "wp (act_auditEvent d a \<bind> (\<lambda>_. State_Monad.return b))
        (\<lambda>r w'. aw_rows w' = aw_rows w1 \<or> (\<exists>t. aw_rows w' = resolve i target t (aw_rows w1))) w2" for a and b :: "string + act_decision"
      by (intro wp_seq [OF audit_keeps_rows]) (simp add: wp_return)
    then show ?case using 1 by (simp add: wp_return split: option.splits)
  qed
  show ?thesis unfolding transitionDecision_def
  proof (rule wp_seq [OF check], goal_cases)
    case (1 r w1)
    then show ?case using wp_mono [OF commit [of _ w1]] by (auto simp: wp_return split: sum.splits)
  qed
qed

definition moved :: "act_decision \<Rightarrow> act_decision \<Rightarrow> bool" where
  "moved x y \<longleftrightarrow> y = x \<or> (\<exists>target t. ValidateDecision (acd_Status x) target \<and> y = x\<lparr>acd_Status := target, acd_ResolvedAt := Some t\<rparr>)"

lemma moved_refl: "list_all2 moved xs xs"
  by (simp add: list.rel_refl moved_def)

lemma resolve_moved:
  assumes "keyed acd_ID rows" and "row_of acd_ID rows i = Some x" and "ValidateDecision (acd_Status x) target"
  shows "list_all2 moved rows (resolve i target t rows)" and "keyed acd_ID (resolve i target t rows)"
proof -
  have "r = x" if "r \<in> set rows" "acd_ID r = i" for r using keyed_row_of [OF assms(1) that(1)] that(2) assms(2) by simp
  then have "moved r (if acd_ID r = i then r\<lparr>acd_Status := target, acd_ResolvedAt := Some t\<rparr> else r)" if "r \<in> set rows" for r
    using assms(3) that by (cases "acd_ID r = i") (auto simp: moved_def)
  then show "list_all2 moved rows (resolve i target t rows)"
    by (simp add: resolve_def sql_update_def list_all2_map2 list_all2_same)
  show "keyed acd_ID (resolve i target t rows)" unfolding resolve_def by (rule keyed_sql_update [OF assms(1)]) simp
qed

lemma transition_moves:
  assumes "keyed acd_ID (aw_rows w)" and "w' = snd (run_state (transitionDecision d i target ev) w)"
  shows "list_all2 moved (aw_rows w) (aw_rows w')" and "keyed acd_ID (aw_rows w')"
proof -
  from wp_fst [OF decision_transition [of d i target ev w]] assms(2)
  have "aw_rows w' = aw_rows w \<or> (\<exists>x t. row_of acd_ID (aw_rows w) i = Some x \<and> ValidateDecision (acd_Status x) target \<and>
      aw_rows w' = resolve i target t (aw_rows w))" by simp
  then show "list_all2 moved (aw_rows w) (aw_rows w')" "keyed acd_ID (aw_rows w')"
    using moved_refl resolve_moved [OF assms(1)] assms(1) by metis+
qed

lemma step_moves:
  assumes "readings_ok d" and "keyed acd_ID (aw_rows w)"
  shows "\<exists>xs news. aw_rows (act_step d rq w) = xs @ news \<and> list_all2 moved (aw_rows w) xs \<and>
      (\<forall>x \<in> set news. decision_ok x \<and> acd_Status x = StatusProposed) \<and> keyed acd_ID (aw_rows (act_step d rq w))"
proof (cases "rq = Rq_Run")
  case True
  let ?res = "fst (run_state (act_Run d) w)"
  have "ranked (arr_Decisions ?res)" "aw_rows (act_step d rq w) = aw_rows w @ map act_row (arr_Decisions ?res)"
    "keyed acd_ID (aw_rows (act_step d rq w))"
    using wp_fst [OF run_stores [OF assms]] unfolding True act_step.simps by blast+
  moreover have "decision_ok (act_row x)" if "decision_ok x" "acd_Status x = StatusProposed" for x
    using that by (simp add: decision_ok_def act_row_def)
  ultimately show ?thesis using moved_refl
    by (intro exI [of _ "aw_rows w"] exI [of _ "map act_row (arr_Decisions ?res)"]) (auto simp: ranked_def act_row_def)
next
  case False
  then obtain i target ev where "act_step d rq w = snd (run_state (transitionDecision d i target ev) w)"
    by (cases rq) (auto simp: ApproveDecision_def RejectDecision_def ExecuteDecision_def)
  from transition_moves [OF assms(2) this] show ?thesis
    by (intro exI [of _ "aw_rows (act_step d rq w)"] exI [of _ "[]"]) simp
qed

lemma moved_ok: "moved x y \<Longrightarrow> decision_ok x \<Longrightarrow> decision_ok y"
  by (auto simp: moved_def decision_ok_def ValidateDecision_def DecisionTransitions_def act_statuses split: if_splits)

lemma final_stays: "moved x y \<Longrightarrow> acd_Status x \<in> {StatusRejected, DecisionExecuted} \<Longrightarrow> y = x"
  by (auto simp: moved_def ValidateDecision_def DecisionTransitions_def act_statuses)

text \<open>
  A decision that another request rejects between the read and the write of an approval is approved,
  and can then be executed; the audit record of a transition names the new status as the old one.
\<close>

definition quiet_deps :: act_deps where
  "quiet_deps =
     \<lparr>ad_clock = \<lambda>n. 1000 * int n, ad_newUUID = nat_str, ad_exec = \<lambda>_. None, ad_fetch = \<lambda>_. Complete, ad_tie = \<lambda>_ _. 0,
      ad_auditor = Some (\<lambda>_. True), ad_reflection = None, ad_objective = None, ad_vector = None\<rparr>"

definition wit_decision :: "string \<Rightarrow> act_decision" where
  "wit_decision status =
     \<lparr>acd_ID = ''d'', acd_Type = ActReduceLoad, acd_Reason = ''r'', acd_SignalSource = ''s'', acd_Confidence = Fin 1, acd_Priority = Fin 1,
      acd_RequiresReview = False, acd_Status = status, acd_Target = ''scheduling'', acd_ProposedAt = 0, acd_ResolvedAt = None\<rparr>"

lemmas act_programs = transitionDecision_def transition_check_def transition_commit_def act_Get_def act_UpdateStatus_def
  act_auditEvent_def act_read_def act_next_def ApproveDecision_def RejectDecision_def ExecuteDecision_def ValidateDecision_def
  DecisionTransitions_def act_statuses Let_def

lemma rejected_decision_is_executed:
  assumes "run_state (do {
      r \<leftarrow> transition_check quiet_deps ''d'' StatusApproved;
      rejected \<leftarrow> RejectDecision quiet_deps ''d'';
      approved \<leftarrow> transition_commit quiet_deps (projr r) ''d'' StatusApproved ''actuation.decision_approved'';
      executed \<leftarrow> ExecuteDecision quiet_deps ''d'';
      State_Monad.return (rejected, approved, executed) })
      \<lparr>aw_rows = [wit_decision StatusProposed], aw_tick = 0, aw_audit = []\<rparr> = ((rejected, approved, executed), w)"
  shows "isl rejected = False" and "isl approved = False" and "isl executed = False" and "map acd_Status (aw_rows w) = [DecisionExecuted]"
  using assms by (auto simp: act_programs quiet_deps_def wit_decision_def sql_count_def)

lemma audit_names_new_status_twice:
  assumes "acd_Status x = StatusProposed"
  shows "aw_audit (snd (run_state (ApproveDecision quiet_deps (acd_ID x)) \<lparr>aw_rows = [x], aw_tick = n, aw_audit = []\<rparr>)) =
    [Decision_Moved ''actuation.decision_approved'' (acd_ID x) (acd_Type x) StatusApproved StatusApproved (acd_SignalSource x)]"
  using assms by (simp add: act_programs quiet_deps_def sql_count_def)

text \<open>A stricter vector never lifts a review; no rule proposes to rebalance the portfolio.\<close>

lemma review_is_monotone:
  assumes "ReviewRequiredWithVector t s" and "fle s s'"
  shows "ReviewRequiredWithVector t s'"
proof -
  have "t \<noteq> ActShiftScheduling \<and> t \<noteq> ActReduceLoad \<or> t = ActTriggerAutomation" if "t = ActAdjustPricing"
    using that by (simp add: act_types)
  moreover have "flt a s'" if "flt a s" for a using that assms(2) by (cases a; cases s; cases s') (auto simp: fle_def feq_def)
  moreover have "fle a s'" if "fle a s" for a using that assms(2) by (rule fle_trans)
  ultimately show ?thesis using assms(1) by (auto simp: ReviewRequiredWithVector_def split: if_splits)
qed

lemma rebalancing_is_never_proposed: "\<forall>p \<in> set (raw_proposals inputs). pa_Type p \<noteq> ActRebalancePortfolio"
proof -
  have "\<forall>p \<in> set (signal_rules sig). pa_Type p \<noteq> ActRebalancePortfolio" for sig
    by (simp add: signal_rules_def Let_def act_types)
  moreover have "\<forall>p \<in> set (risk_rules inputs). pa_Type p \<noteq> ActRebalancePortfolio"
    by (auto simp: risk_rules_def act_types)
  ultimately show ?thesis by (auto simp: raw_proposals_def escalate_all_def)
qed

section \<open>Properties\<close>

definition risky :: act_deps where
  "risky = quiet_deps\<lparr>ad_objective := Some \<lparr>obr_NetUtility = \<lambda>_. Fin 0, obr_UtilityScore = \<lambda>_. Fin 0, obr_RiskScore = \<lambda>_. Fin 0,
     obr_FinancialRisk = \<lambda>_. Fin 2, obr_OverloadRisk = \<lambda>_. Fin 0\<rparr>\<rparr>"

definition no_decisions :: act_world where
  "no_decisions = \<lparr>aw_rows = [], aw_tick = 0, aw_audit = []\<rparr>"

lemma risky_ok: "readings_ok risky"
  by (simp add: readings_ok_def risky_def quiet_deps_def)

lemma risk_thresholds: "flt HighFinancialRiskThreshold (Fin 2)" "\<not> flt HighOverloadRiskThreshold (Fin 0)"
  using rnd_unit [of "70 / 100"] by (auto simp: HighFinancialRiskThreshold_def HighOverloadRiskThreshold_def)

lemmas act_run_defs = act_Run_def gatherInputs_def evaluate_def review_needed_def act_Insert_def risky_def quiet_deps_def
  act_auditEvent_def act_read_def act_next_def EvaluateRules_def deduplicateProposals_def raw_proposals_def escalate_all_def
  risk_rules_def keep_best_def short_sort_def MaxDecisionsPerRun_def new_decision_def no_decisions_def

lemma risky_run: "map acd_Type (arr_Decisions (fst (run_state (act_Run risky) no_decisions))) = [ActStabilizeIncome]"
  using risk_thresholds by (simp add: act_run_defs Let_def)

lemma risky_rows:
  "map (\<lambda>x. (acd_ID x, acd_Status x)) (aw_rows (act_step risky Rq_Run no_decisions)) = [(''7'', StatusProposed)]"
proof -
  have "nat_str 7 = ''7''" by code_simp
  then show ?thesis using risk_thresholds by (simp add: act_run_defs act_row_def Let_def eval_nat_numeral)
qed

text \<open>
  C39: A run appends the decisions it returns to the table, under fresh identifiers, and nothing else;
  they are at most six, one for each type of action, in order of falling priority, with priority and
  confidence in the unit interval and the target of their type, all of them proposed; automation always
  asks for a review. Failed inserts only shorten the list.
\<close>

theorem run_stores_ranked_decisions:
  assumes "readings_ok d" and "keyed acd_ID (aw_rows w)" and "run_state (act_Run d) w = (res, w')"
  shows "aw_rows w' = aw_rows w @ map act_row (arr_Decisions res) \<and> keyed acd_ID (aw_rows w') \<and> ranked (arr_Decisions res)"
  using wp_run [OF run_stores [OF assms(1,2)] assms(3)] .

theorem run_stores_ranked_decisions_witness:
  "ranked (arr_Decisions (fst (run_state (act_Run risky) no_decisions))) \<and>
   map acd_Type (aw_rows (snd (run_state (act_Run risky) no_decisions))) = [ActStabilizeIncome]"
proof -
  obtain res w' where r: "run_state (act_Run risky) no_decisions = (res, w')" by fastforce
  have "keyed acd_ID (aw_rows no_decisions)" by (simp add: no_decisions_def)
  from run_stores_ranked_decisions [OF risky_ok this r] have "ranked (arr_Decisions res)" "aw_rows w' = map act_row (arr_Decisions res)"
    by (auto simp: no_decisions_def)
  then show ?thesis using risky_run r by (simp add: comp_def act_row_def)
qed

text \<open>
  C40: The rules return, for every type of action that a signal or a risk proposes and for no other, one
  proposal of the highest priority; the result is ordered by type and does not depend on the order in which
  Go visits its map.
\<close>

theorem rules_keep_the_best_of_each_type:
  assumes "inputs_ok inputs" and "mset visited = mset (fold keep_best (raw_proposals inputs) [])"
  shows "EvaluateRules inputs = short_sort type_before visited \<and> sorted_wrt type_before (EvaluateRules inputs) \<and>
    set (EvaluateRules inputs) \<subseteq> set (raw_proposals inputs) \<and>
    (\<forall>p \<in> set (raw_proposals inputs). \<exists>q \<in> set (EvaluateRules inputs). pa_Type q = pa_Type p \<and> fle (pa_Priority p) (pa_Priority q))"
proof -
  have "\<forall>p \<in> set (raw_proposals inputs). pa_Priority p \<noteq> NaN"
    using raw_proposals_ok [OF assms(1)] fin_in_not_NaN by (auto simp: proposal_ok_def)
  note b = best_of_each_type [OF this]
  have "short_sort type_before visited = EvaluateRules inputs"
    unfolding evaluated(1) [OF assms(1)] using map_order_irrelevant [OF b(1) assms(2)] .
  then show ?thesis using b types_sorted [OF b(1)] by (simp add: evaluated(1) [OF assms(1)])
qed

theorem rules_keep_the_best_of_each_type_witness:
  "\<exists>inputs. ain_FinancialRisk inputs = Fin 2 \<and> EvaluateRules inputs \<noteq> []"
proof -
  let ?inputs = "zero_inputs\<lparr>ain_FinancialRisk := Fin 2\<rparr>"
  have "inputs_ok ?inputs" by (simp add: inputs_ok_def zero_inputs_def)
  from rules_keep_the_best_of_each_type [OF this refl] have "raw_proposals ?inputs \<noteq> [] \<Longrightarrow> EvaluateRules ?inputs \<noteq> []"
    by (cases "raw_proposals ?inputs") auto
  moreover have "raw_proposals ?inputs \<noteq> []" using risk_thresholds by (simp add: raw_proposals_def risk_rules_def)
  ultimately show ?thesis by (intro exI [of _ ?inputs]) simp
qed

text \<open>
  C38: When requests run one after the other, every decision moves along its lifecycle only: a request
  leaves a decision as it is, or approves or rejects a proposed one, or executes an approved one, and
  changes nothing but its status and the instant of its resolution; new decisions are proposed, and rejected
  and executed ones stay as they are.
\<close>

theorem decisions_follow_their_lifecycle:
  assumes "readings_ok d" and "act_reach d w"
  shows "keyed acd_ID (aw_rows w) \<and> (\<forall>x \<in> set (aw_rows w). decision_ok x) \<and>
    (\<exists>xs news. aw_rows (act_step d rq w) = xs @ news \<and> list_all2 moved (aw_rows w) xs \<and>
      (\<forall>x \<in> set news. acd_Status x = StatusProposed) \<and>
      list_all2 (\<lambda>x y. acd_Status x \<in> {StatusRejected, DecisionExecuted} \<longrightarrow> y = x) (aw_rows w) xs)"
proof -
  have inv: "keyed acd_ID (aw_rows w) \<and> (\<forall>x \<in> set (aw_rows w). decision_ok x)"
    using assms(2)
  proof induction
    case (step w rq)
    then obtain xs news where s: "aw_rows (act_step d rq w) = xs @ news" "list_all2 moved (aw_rows w) xs"
      "\<forall>x \<in> set news. decision_ok x" "keyed acd_ID (aw_rows (act_step d rq w))"
      using step_moves [OF assms(1)] by metis
    have "\<forall>x \<in> set xs. decision_ok x" using list_all2_set2 [OF s(2)] moved_ok step.IH by blast
    then show ?case using s by auto
  qed simp
  then obtain xs news where s: "aw_rows (act_step d rq w) = xs @ news" "list_all2 moved (aw_rows w) xs"
      "\<forall>x \<in> set news. acd_Status x = StatusProposed"
    using step_moves [OF assms(1)] by metis
  have "list_all2 (\<lambda>x y. acd_Status x \<in> {StatusRejected, DecisionExecuted} \<longrightarrow> y = x) (aw_rows w) xs"
    by (rule list_all2_mono [OF s(2)]) (use final_stays in blast)
  then show ?thesis using inv s by blast
qed

theorem decisions_follow_their_lifecycle_witness:
  "let w = act_step risky Rq_Run no_decisions; w' = act_step risky (Rq_Approve ''7'') w
   in map acd_Status (aw_rows w) = [StatusProposed] \<and> map acd_Status (aw_rows w') = [StatusApproved] \<and>
     list_all2 moved (aw_rows w) (aw_rows w')"
proof -
  let ?w = "act_step risky Rq_Run no_decisions"
  have reach: "act_reach risky ?w" by (intro act_reach.step act_reach.empty) (simp add: no_decisions_def)
  obtain x where x: "aw_rows ?w = [x]" "acd_ID x = ''7''" "acd_Status x = StatusProposed" using risky_rows by auto
  then have y: "map acd_Status (aw_rows (act_step risky (Rq_Approve ''7'') ?w)) = [StatusApproved]"
    by (simp add: act_programs risky_def quiet_deps_def sql_count_def del: act_step.simps(1))
  from decisions_follow_their_lifecycle [OF risky_ok reach, of "Rq_Approve ''7''"] obtain xs news
    where "aw_rows (act_step risky (Rq_Approve ''7'') ?w) = xs @ news" "list_all2 moved (aw_rows ?w) xs" by metis
  moreover from this have "news = []" using x(1) arg_cong [OF y, of length] list_all2_lengthD by fastforce
  ultimately show ?thesis using x y by (simp add: Let_def del: act_step.simps)
qed

end
