(* ===== verification/Autonomy.thy ===== *)
theory Autonomy
  imports Go_Json Go_Text Scorer Programs "HOL-Library.Sublist"
begin

text \<open>
  The autonomous runtime of the agent: \<open>config.go\<close>, \<open>orchestrator.go\<close>, \<open>chain_closure.go\<close> and
  \<open>feedback_store.go\<close> of \<open>src/internal/agent/autonomy\<close>. A tick runs the cycles that are due; each
  cycle calls an engine through an interface. The engines are programs on a state of their own, \<open>'x\<close>,
  which a theory that wires them chooses. Every reading of the clock, fresh UUID and audit record takes the
  next number of a counter. What only feeds the log is left out.
\<close>

section \<open>Configuration\<close>

definition AutonomyFrozen :: string where "AutonomyFrozen = ''frozen''"
definition ModeSupervisedAutonomy :: string where "ModeSupervisedAutonomy = ''supervised_autonomy''"
definition ModeBoundedAutonomy :: string where "ModeBoundedAutonomy = ''bounded_autonomy''"
definition ModeAutonomous :: string where "ModeAutonomous = ''autonomous''"

definition autonomyModes :: "string list" where
  "autonomyModes = [AutonomyFrozen, ModeSupervisedAutonomy, ModeBoundedAutonomy, ModeAutonomous]"

text \<open>The fields of the configuration that the package reads; nothing reads the others.\<close>

record cycles_cfg =
  cy_ReflectionHours :: int
  cy_ObjectiveHours :: int
  cy_ActuationHours :: int
  cy_ActuationPrioHours :: int
  cy_SchedulingHours :: int
  cy_PortfolioHours :: int
  cy_DiscoveryHours :: int
  cy_PricingPerfHours :: int
  cy_SelfExtHours :: int
  cy_TaskRecomputeHours :: int
  cy_TaskDispatchHours :: int
  cy_GoalPlanningHours :: int
  cy_GoalReplanHours :: int
  cy_ReportingHours :: int

record auto_config =
  ac_Mode :: string
  ac_StartupMode :: string
  ac_AllowReflection :: bool
  ac_AllowObjectiveRecompute :: bool
  ac_AllowPortfolioRebalance :: bool
  ac_AllowDiscovery :: bool
  ac_SchedulerEnabled :: bool
  ac_TickSeconds :: int
  ac_Cycles :: cycles_cfg
  ac_RunReflectionOnce :: bool
  ac_RunObjectiveOnce :: bool
  ac_RunActuationOnce :: bool
  ac_RunReportingOnce :: bool
  ac_WindowEnabled :: bool
  ac_WindowStart :: string
  ac_WindowEnd :: string
  ac_OutsideReflection :: bool
  ac_OutsideObjective :: bool
  ac_OutsideReporting :: bool
  ac_MaxActionsPerCycle :: int
  ac_MaxConsecutiveFailedCycles :: int
  ac_DedupeActuation :: int
  ac_DedupeSelfExtension :: int
  ac_AutoDowngrade :: bool
  ac_DowngradeMode :: string
  ac_FailureRate :: f64
  ac_Overload :: f64
  ac_Pressure :: f64
  ac_RequireConsecutiveHealthy :: int
  ac_AutoRestorePrevMode :: bool
  ac_SchedulingEnabled :: bool
  ac_AllowRecompute :: bool
  ac_SelfExtEnabled :: bool
  ac_AutoDeployEnabled :: bool
  ac_OnlyLowRisk :: bool
  ac_ActuationEnabled :: bool
  ac_AllowRun :: bool
  ac_ReportingEnabled :: bool

text \<open>A digit is a byte less 48, as an unsigned byte.\<close>

definition digit_value :: "char \<Rightarrow> int" where
  "digit_value c = (of_char c - 48) mod 256"

definition two_digits :: "char \<Rightarrow> char \<Rightarrow> int" where
  "two_digits a b = digit_value a * 10 + digit_value b"

definition isValidTime :: "string \<Rightarrow> bool" where
  "isValidTime s =
     (if length s \<noteq> 5 \<or> s ! 2 \<noteq> CHR '':'' then False
      else let h = two_digits (s ! 0) (s ! 1); m = two_digits (s ! 3) (s ! 4)
           in 0 \<le> h \<and> h \<le> 23 \<and> 0 \<le> m \<and> m \<le> 59)"

text \<open>The index of the fifth byte is out of range, and the program panics, in a shorter text.\<close>

definition parseHHMM :: "string \<Rightarrow> (int \<times> int) option" where
  "parseHHMM s = (if length s < 5 then None else Some (two_digits (s ! 0) (s ! 1), two_digits (s ! 3) (s ! 4)))"

definition out_of_unit :: "f64 \<Rightarrow> bool" where
  "out_of_unit x \<longleftrightarrow> fle x (Fin 0) \<or> flt (Fin 1) x"

definition config_errors :: "auto_config \<Rightarrow> string list" where
  "config_errors c =
     (if ac_Mode c \<notin> set autonomyModes
      then [''mode must be one of frozen, supervised_autonomy, bounded_autonomy, autonomous; got '' @ go_quote (ac_Mode c)] else []) @
     (if ac_SchedulerEnabled c then
        (if ac_TickSeconds c \<le> 0 then [''scheduler.tick_seconds must be > 0''] else []) @
        (if cy_ReflectionHours (ac_Cycles c) \<le> 0 then [''scheduler.cycles.reflection_hours must be > 0''] else []) @
        (if cy_ObjectiveHours (ac_Cycles c) \<le> 0 then [''scheduler.cycles.objective_hours must be > 0''] else [])
      else []) @
     (if ac_WindowEnabled c then
        (if \<not> isValidTime (ac_WindowStart c) then [''execution_window.start must be HH:MM; got '' @ go_quote (ac_WindowStart c)] else []) @
        (if \<not> isValidTime (ac_WindowEnd c) then [''execution_window.end must be HH:MM; got '' @ go_quote (ac_WindowEnd c)] else [])
      else []) @
     (if ac_MaxActionsPerCycle c \<le> 0 then [''limits.max_actions_per_cycle must be > 0''] else []) @
     (if ac_MaxConsecutiveFailedCycles c \<le> 0 then [''limits.max_consecutive_failed_cycles must be > 0''] else []) @
     (if out_of_unit (ac_FailureRate c) then [''risk.thresholds.failure_rate_threshold must be in (0,1]''] else []) @
     (if out_of_unit (ac_Overload c) then [''risk.thresholds.overload_threshold must be in (0,1]''] else []) @
     (if out_of_unit (ac_Pressure c) then [''risk.thresholds.pressure_threshold must be in (0,1]''] else [])"

fun join_with :: "string \<Rightarrow> string list \<Rightarrow> string" where
  "join_with sep [] = ''''"
| "join_with sep [x] = x"
| "join_with sep (x # y # ys) = x @ sep @ join_with sep (y # ys)"

definition config_Validate :: "auto_config \<Rightarrow> string option" where
  "config_Validate c =
     (let errs = config_errors c; sep = CHR 0x0A # ''  - ''
      in if errs = [] then None else Some (''invalid autonomy config:'' @ sep @ join_with sep errs))"

text \<open>The text of the file and the YAML parser are parameters.\<close>

definition LoadAutonomyConfig ::
  "(string \<Rightarrow> string + string) \<Rightarrow> (string \<Rightarrow> string + auto_config) \<Rightarrow> string \<Rightarrow> string + auto_config"
where
  "LoadAutonomyConfig readFile unmarshal path =
     (case readFile path of
        Inl e \<Rightarrow> Inl (''read autonomy config '' @ path @ '': '' @ e)
      | Inr data \<Rightarrow> (case unmarshal data of
          Inl e \<Rightarrow> Inl (''parse autonomy config: '' @ e)
        | Inr cfg \<Rightarrow> (case config_Validate cfg of
            Some e \<Rightarrow> Inl (''autonomy config validation: '' @ e)
          | None \<Rightarrow> Inr cfg)))"

text \<open>\<open>hm\<close> is the hour and the minute of the instant where the process runs; \<open>None\<close> is a panic.\<close>

definition IsInsideWindow :: "auto_config \<Rightarrow> int \<times> int \<Rightarrow> bool option" where
  "IsInsideWindow c hm =
     (if \<not> ac_WindowEnabled c then Some True
      else case (parseHHMM (ac_WindowStart c), parseHHMM (ac_WindowEnd c)) of
        (Some (startH, startM), Some (endH, endM)) \<Rightarrow>
          (let nowMin = fst hm * 60 + snd hm; startMin = startH * 60 + startM; endMin = endH * 60 + endM
           in Some (if startMin \<le> endMin then nowMin \<ge> startMin \<and> nowMin < endMin else nowMin \<ge> startMin \<or> nowMin < endMin))
      | _ \<Rightarrow> None)"

definition cycle_hours :: "cycles_cfg \<Rightarrow> string \<Rightarrow> int" where
  "cycle_hours cy cycle =
     (if cycle = ''reflection'' then cy_ReflectionHours cy
      else if cycle = ''objective'' then cy_ObjectiveHours cy
      else if cycle = ''actuation'' then cy_ActuationHours cy
      else if cycle = ''actuation_priority'' then cy_ActuationPrioHours cy
      else if cycle = ''scheduling'' then cy_SchedulingHours cy
      else if cycle = ''portfolio'' then cy_PortfolioHours cy
      else if cycle = ''discovery'' then cy_DiscoveryHours cy
      else if cycle = ''pricing_performance'' then cy_PricingPerfHours cy
      else if cycle = ''self_extension'' then cy_SelfExtHours cy
      else if cycle = ''task_recompute'' then cy_TaskRecomputeHours cy
      else if cycle = ''task_dispatch'' then cy_TaskDispatchHours cy
      else if cycle = ''goal_planning'' then cy_GoalPlanningHours cy
      else if cycle = ''goal_replanning'' then cy_GoalReplanHours cy
      else if cycle = ''reporting'' then cy_ReportingHours cy
      else 0)"

definition CycleDuration :: "auto_config \<Rightarrow> string \<Rightarrow> duration" where
  "CycleDuration c cycle =
     (let hours = cycle_hours (ac_Cycles c) cycle in wrap64 ((if hours \<le> 0 then 24 else hours) * Hour))"

section \<open>What the runtime keeps\<close>

record runtime_state =
  rs_Mode :: string
  rs_OriginalMode :: string
  rs_Running :: bool
  rs_StartedAt :: "time option"
  rs_LastCycleTimes :: "string \<rightharpoonup> time"
  rs_CyclesRun :: "string \<Rightarrow> int"
  rs_ConsecutiveFailures :: int
  rs_ConsecutiveHealthy :: int
  rs_Downgraded :: bool
  rs_DowngradeReason :: string
  rs_HeavyActionsDisabled :: bool
  rs_SelfExtDisabled :: bool
  rs_ReportCount :: int
  rs_ActionsTakenThisCycle :: int
  rs_LastError :: string
  rs_SafeActionsRouted :: int
  rs_ReviewActionsQueued :: int
  rs_SelfExtBlocked :: int
  rs_SelfExtDeployed :: int
  rs_SuppressedDecisions :: int
  rs_TasksCreatedFromActuation :: int
  rs_TaskRecomputeCount :: int
  rs_TaskDispatchCount :: int
  rs_ExecutionCompleted :: int
  rs_ExecutionFailed :: int
  rs_ExecutionPaused :: int
  rs_FeedbackRecorded :: int

definition newRuntimeState :: "string \<Rightarrow> runtime_state" where
  "newRuntimeState mode =
     \<lparr>rs_Mode = mode, rs_OriginalMode = mode, rs_Running = False, rs_StartedAt = None, rs_LastCycleTimes = Map.empty,
      rs_CyclesRun = (\<lambda>_. 0), rs_ConsecutiveFailures = 0, rs_ConsecutiveHealthy = 0, rs_Downgraded = False, rs_DowngradeReason = '''',
      rs_HeavyActionsDisabled = False, rs_SelfExtDisabled = False, rs_ReportCount = 0, rs_ActionsTakenThisCycle = 0,
      rs_LastError = '''', rs_SafeActionsRouted = 0, rs_ReviewActionsQueued = 0, rs_SelfExtBlocked = 0, rs_SelfExtDeployed = 0,
      rs_SuppressedDecisions = 0, rs_TasksCreatedFromActuation = 0, rs_TaskRecomputeCount = 0, rs_TaskDispatchCount = 0,
      rs_ExecutionCompleted = 0, rs_ExecutionFailed = 0, rs_ExecutionPaused = 0, rs_FeedbackRecorded = 0\<rparr>"

text \<open>The answers of the engines.\<close>

record objective_result =
  obj_NetUtility :: f64
  obj_RiskScore :: f64

record decision_info =
  di_ID :: string
  di_Type :: string
  di_Status :: string
  di_RequiresReview :: bool
  di_Priority :: f64
  di_ProposedAt :: time

record proposal_info =
  pi_ID :: string
  pi_Status :: string
  pi_Title :: string

record dispatch_info =
  dsi_DispatchedCount :: int
  dsi_SkippedCount :: int
  dsi_BlockedCount :: int
  dsi_DispatchedTaskIDs :: "(string \<times> string) list"

record running_info =
  rni_ID :: string
  rni_ExecutionTaskID :: string
  rni_Goal :: string
  rni_AttemptCount :: int

record exec_info =
  exi_ID :: string
  exi_Status :: string
  exi_AbortReason :: string
  exi_IterationCount :: int
  exi_StepsExecuted :: int
  exi_StepsFailed :: int
  exi_HasReviewBlock :: bool

record exec_feedback =
  fb_ID :: string
  fb_TaskID :: string
  fb_ExecutionTaskID :: string
  fb_OutcomeType :: string
  fb_Success :: bool
  fb_StepsExecuted :: int
  fb_StepsFailed :: int
  fb_ErrorSummary :: string
  fb_SemanticSignal :: string
  fb_SourceDecisionType :: string
  fb_CreatedAt :: time

record auto_report =
  rp_ID :: string
  rp_Type :: string
  rp_CreatedAt :: time
  rp_Mode :: string
  rp_CyclesRun :: "string \<Rightarrow> int"
  rp_ObjectiveSnapshot :: "objective_result option"
  rp_SafeActionsRouted :: int
  rp_ReviewQueued :: int
  rp_SuppressedCount :: int
  rp_SelfExtBlocked :: int
  rp_SelfExtDeployed :: int
  rp_Downgraded :: bool
  rp_DowngradeReason :: string
  rp_FailureCount :: int
  rp_Warnings :: "string list"
  rp_ExceptionTrigger :: string

text \<open>The interfaces: a call takes the state of the engines to an answer and a state.\<close>

type_synonym ('x, 'a) engine_call = "'x \<Rightarrow> 'a \<times> 'x"

record 'x actuation_runner =
  arn_Run :: "('x, string + int \<times> int) engine_call"
  arn_ListDecisions :: "int \<Rightarrow> ('x, string + decision_info list) engine_call"

record 'x task_runner =
  trn_CreateTask :: "string \<Rightarrow> string \<Rightarrow> f64 \<Rightarrow> f64 \<Rightarrow> f64 \<Rightarrow> string \<Rightarrow> ('x, string + string) engine_call"
  trn_RecomputePriorities :: "('x, string option) engine_call"
  trn_Dispatch :: "('x, string + dispatch_info) engine_call"
  trn_FindByActuationDecision :: "string \<Rightarrow> ('x, string \<times> string option) engine_call"
  trn_CompleteTask :: "string \<Rightarrow> ('x, string option) engine_call"
  trn_FailTask :: "string \<Rightarrow> string \<Rightarrow> ('x, string option) engine_call"
  trn_PauseTask :: "string \<Rightarrow> ('x, string option) engine_call"
  trn_SetActuationDecisionID :: "string \<Rightarrow> string \<Rightarrow> ('x, string option) engine_call"
  trn_SetExecutionTaskID :: "string \<Rightarrow> string \<Rightarrow> ('x, string option) engine_call"
  trn_SetOutcome :: "string \<Rightarrow> string \<Rightarrow> string \<Rightarrow> int \<Rightarrow> ('x, string option) engine_call"
  trn_ListRunningTasks :: "int \<Rightarrow> ('x, string + running_info list) engine_call"

record 'x feedback_ops =
  fbs_Insert :: "exec_feedback \<Rightarrow> ('x, string option) engine_call"
  fbs_ListRecent :: "int \<Rightarrow> ('x, string + exec_feedback list) engine_call"
  fbs_CountByOutcome :: "string \<Rightarrow> time \<Rightarrow> ('x, int \<times> string option) engine_call"
  fbs_CountBySignal :: "string \<Rightarrow> time \<Rightarrow> ('x, int \<times> string option) engine_call"

record 'x auto_deps =
  ap_clock :: "nat \<Rightarrow> time"
  ap_wall :: "time \<Rightarrow> int \<times> int"
  ap_rfc3339 :: "time \<Rightarrow> string"
  ap_newUUID :: "nat \<Rightarrow> string"
  ap_auditor :: "(nat \<Rightarrow> bool) option"
  ap_reflection :: "('x, string + int \<times> int) engine_call option"
  ap_objective :: "('x, string + objective_result) engine_call option"
  ap_actuation :: "'x actuation_runner option"
  ap_scheduling :: "('x, string option) engine_call option"
  ap_portfolio :: "('x, string option) engine_call option"
  ap_discovery :: "('x, string + int) engine_call option"
  ap_selfExt :: "(int \<Rightarrow> ('x, string + proposal_info list) engine_call) option"
  ap_pressure :: "('x, f64 \<times> string) engine_call option"
  ap_capacity :: "('x, f64) engine_call option"
  ap_governance :: "(string \<Rightarrow> string \<Rightarrow> ('x, string option) engine_call) option"
  ap_taskOrchestrator :: "'x task_runner option"
  ap_executionLoop :: "(string \<Rightarrow> ('x, string + exec_info) engine_call) option"
  ap_feedbackStore :: "'x feedback_ops option"
  ap_goalPlanning :: "('x, string option) engine_call option"
  ap_goalReplanning :: "('x, string + int) engine_call option"

text \<open>An audit record: its type and what it is about. \<open>au_created\<close> lists the decisions a task was requested for.\<close>

type_synonym auto_event = "string \<times> string"

record 'x auto_world =
  au_cfg :: auto_config
  au_state :: runtime_state
  au_seen :: "(string \<times> time) list"
  au_reports :: "auto_report list"
  au_events :: "auto_event list"
  au_created :: "decision_info list"
  au_stopClosed :: bool
  au_tick :: nat
  au_x :: 'x

type_synonym ('x, 'a) autonomy = "('x auto_world, 'a) state"

definition au_read :: "(nat \<Rightarrow> 'a) \<Rightarrow> ('x, 'a) autonomy" where
  "au_read f = State (\<lambda>w. (f (au_tick w), w\<lparr>au_tick := Suc (au_tick w)\<rparr>))"

definition au_ask :: "('x auto_world \<Rightarrow> 'a) \<Rightarrow> ('x, 'a) autonomy" where
  "au_ask f = State (\<lambda>w. (f w, w))"

definition au_set :: "(runtime_state \<Rightarrow> runtime_state) \<Rightarrow> ('x, unit) autonomy" where
  "au_set f = State (\<lambda>w. ((), w\<lparr>au_state := f (au_state w)\<rparr>))"

definition au_call :: "('x, 'a) engine_call \<Rightarrow> ('x, 'a) autonomy" where
  "au_call f = State (\<lambda>w. case f (au_x w) of (a, x) \<Rightarrow> (a, w\<lparr>au_x := x\<rparr>))"

definition au_audit :: "'x auto_deps \<Rightarrow> string \<Rightarrow> string \<Rightarrow> ('x, unit) autonomy" where
  "au_audit d event about =
     (case ap_auditor d of
        None \<Rightarrow> State_Monad.return ()
      | Some record_ok \<Rightarrow> do {
          ok \<leftarrow> au_read record_ok;
          State (\<lambda>w. ((), if ok then w\<lparr>au_events := au_events w @ [(event, about)]\<rparr> else w)) })"

section \<open>Repeated decisions\<close>

definition IsDuplicate :: "'x auto_deps \<Rightarrow> string \<Rightarrow> duration \<Rightarrow> ('x, bool) autonomy" where
  "IsDuplicate d key window = do {
     seen \<leftarrow> au_ask au_seen;
     repeated \<leftarrow> (case map_of seen key of
         None \<Rightarrow> State_Monad.return False
       | Some seenAt \<Rightarrow> do { now \<leftarrow> au_read (ap_clock d); State_Monad.return (time_Sub now seenAt < window) });
     if repeated then State_Monad.return True
     else do {
       now \<leftarrow> au_read (ap_clock d);
       State (\<lambda>w. (False, w\<lparr>au_seen := (key, now) # filter (\<lambda>e. fst e \<noteq> key) (au_seen w)\<rparr>)) } }"

definition dedupe_Cleanup :: "'x auto_deps \<Rightarrow> duration \<Rightarrow> ('x, unit) autonomy" where
  "dedupe_Cleanup d maxAge = do {
     now \<leftarrow> au_read (ap_clock d);
     State (\<lambda>w. ((), w\<lparr>au_seen := filter (\<lambda>e. \<not> snd e < now - maxAge) (au_seen w)\<rparr>)) }"

section \<open>From a decision to a task\<close>

definition actuationTypeToGoal :: "(string \<times> string) list" where
  "actuationTypeToGoal =
     [(''stabilize_income'', ''stabilize income by prioritizing safe revenue actions''),
      (''reduce_load'', ''reduce owner overload by deferring low-value work''),
      (''rebalance_portfolio'', ''rebalance revenue strategy allocations''),
      (''adjust_pricing'', ''recompute pricing for active opportunities''),
      (''shift_scheduling'', ''shift scheduling to optimize time allocation''),
      (''increase_discovery'', ''increase opportunity discovery activity''),
      (''trigger_automation'', ''trigger automation workflow for efficiency'')]"

definition actuationTypeToStrategy :: "(string \<times> string) list" where
  "actuationTypeToStrategy =
     [(''stabilize_income'', ''consulting''), (''reduce_load'', ''''), (''rebalance_portfolio'', ''''), (''adjust_pricing'', ''''),
      (''shift_scheduling'', ''''), (''increase_discovery'', ''''), (''trigger_automation'', ''automation_services'')]"

definition string_at :: "(string \<times> string) list \<Rightarrow> string \<Rightarrow> string" where
  "string_at m k = (case map_of m k of None \<Rightarrow> '''' | Some v \<Rightarrow> v)"

definition decision_goal :: "string \<Rightarrow> string" where
  "decision_goal t =
     (let goal = string_at actuationTypeToGoal t in if goal = '''' then ''execute actuation decision: '' @ t else goal)"

definition au_mode :: "('x, string) autonomy" where
  "au_mode = au_ask (\<lambda>w. rs_Mode (au_state w))"

definition request_task :: "'x auto_deps \<Rightarrow> 'x task_runner \<Rightarrow> decision_info \<Rightarrow> ('x, string + string \<times> bool) autonomy" where
  "request_task d r x = do {
     let risk = (if di_RequiresReview x then f64 (6 / 10) else f64 (3 / 10));
     result \<leftarrow> au_call (trn_CreateTask r ''actuation'' (decision_goal (di_Type x)) (clamp01 (di_Priority x)) (di_Priority x) risk
       (string_at actuationTypeToStrategy (di_Type x)));
     case result of
       Inl e \<Rightarrow> State_Monad.return (Inl (''create task from actuation decision: '' @ e))
     | Inr taskID \<Rightarrow> do {
         linked \<leftarrow> au_call (trn_SetActuationDecisionID r taskID (di_ID x));
         au_audit d ''actuation.task_created'' (di_ID x);
         State_Monad.return (Inr (taskID, True)) } }"

definition create_from_decision :: "'x auto_deps \<Rightarrow> 'x task_runner \<Rightarrow> decision_info \<Rightarrow> ('x, string + string \<times> bool) autonomy" where
  "create_from_decision d r x = do {
     State (\<lambda>w. ((), w\<lparr>au_created := au_created w @ [x]\<rparr>));
     request_task d r x }"

text \<open>An error of the search for an existing task is logged, and the empty answer that comes with it taken.\<close>

definition MaterializeDecisionAsTask :: "'x auto_deps \<Rightarrow> decision_info \<Rightarrow> ('x, string + string \<times> bool) autonomy" where
  "MaterializeDecisionAsTask d x =
     (case ap_taskOrchestrator d of
        None \<Rightarrow> State_Monad.return (Inr ('''', False))
      | Some r \<Rightarrow> do {
          mode \<leftarrow> au_mode;
          if mode = AutonomyFrozen then do {
            au_audit d ''actuation.task_blocked_by_governance'' (di_ID x);
            State_Monad.return (Inr ('''', False)) }
          else if mode = ModeSupervisedAutonomy \<and> di_RequiresReview x then do {
            au_audit d ''actuation.task_skipped_review_required'' (di_ID x);
            State_Monad.return (Inr ('''', False)) }
          else do {
            (existing, err) \<leftarrow> au_call (trn_FindByActuationDecision r (di_ID x));
            if existing \<noteq> '''' then do {
              au_audit d ''actuation.task_skipped_duplicate'' (di_ID x);
              State_Monad.return (Inr (existing, False)) }
            else create_from_decision d r x } })"

section \<open>From an execution back to its task\<close>

definition chain_MaxRunningTasks :: int where "chain_MaxRunningTasks = 4"

definition recordFeedback :: "'x auto_deps \<Rightarrow> running_info \<Rightarrow> exec_info \<Rightarrow> string \<Rightarrow> bool \<Rightarrow> string \<Rightarrow> ('x, unit) autonomy" where
  "recordFeedback d task exec outcomeType success signal =
     (case ap_feedbackStore d of
        None \<Rightarrow> State_Monad.return ()
      | Some st \<Rightarrow> do {
          idAt \<leftarrow> au_read (ap_clock d);
          createdAt \<leftarrow> au_read (ap_clock d);
          err \<leftarrow> au_call (fbs_Insert st
            \<lparr>fb_ID = int_str idAt, fb_TaskID = rni_ID task, fb_ExecutionTaskID = exi_ID exec, fb_OutcomeType = outcomeType,
             fb_Success = success, fb_StepsExecuted = exi_StepsExecuted exec, fb_StepsFailed = exi_StepsFailed exec,
             fb_ErrorSummary = exi_AbortReason exec, fb_SemanticSignal = signal, fb_SourceDecisionType = '''', fb_CreatedAt = createdAt\<rparr>);
          case err of
            Some e \<Rightarrow> State_Monad.return ()
          | None \<Rightarrow> do {
              au_set (\<lambda>s. s\<lparr>rs_FeedbackRecorded := rs_FeedbackRecorded s + 1\<rparr>);
              au_audit d ''execution.feedback_recorded'' (rni_ID task) } })"

definition abort_signal :: "string \<Rightarrow> string" where
  "abort_signal reason =
     (if contains reason ''objective penalty'' then ''objective_penalty_abort''
      else if contains reason ''consecutive failures'' then ''repeated_failure''
      else if contains reason ''governance'' then ''blocked_by_governance''
      else ''execution_aborted'')"

text \<open>What the end of an execution means for its task.\<close>

datatype closure = Close_Complete | Close_Fail string string string string | Close_Pause string string string string | Close_Nothing

text \<open>
  \<open>Close_Fail reason outcome signal event\<close>; \<open>Close_Pause outcome signal event\<close> with the reason of an
  abort. A task paused for a review has no outcome set.
\<close>

definition closure_of :: "running_info \<Rightarrow> exec_info \<Rightarrow> closure" where
  "closure_of task exec =
     (if exi_Status exec = ''completed'' then Close_Complete
      else if exi_Status exec = ''failed'' then
        Close_Fail ''execution failed'' ''failed'' (if rni_AttemptCount task \<ge> 2 then ''repeated_failure'' else ''execution_failure'')
          ''task.execution_failed''
      else if exi_Status exec = ''aborted'' then
        (if exi_AbortReason exec = ''manual abort'' \<or> exi_AbortReason exec = ''''
         then Close_Pause (exi_AbortReason exec) ''aborted'' ''execution_aborted'' ''task.execution_aborted''
         else Close_Fail (exi_AbortReason exec) ''aborted'' (abort_signal (exi_AbortReason exec)) ''task.execution_aborted'')
      else if (exi_Status exec = ''pending'' \<or> exi_Status exec = ''running'') \<and> exi_HasReviewBlock exec then
        Close_Pause '''' ''blocked'' ''blocked_by_review'' ''task.execution_paused''
      else Close_Nothing)"

definition apply_closure ::
  "'x auto_deps \<Rightarrow> 'x task_runner \<Rightarrow> running_info \<Rightarrow> exec_info \<Rightarrow> int \<times> int \<times> int \<Rightarrow> ('x, int \<times> int \<times> int) autonomy"
where
  "apply_closure d r task exec counts =
     (let (completed, failed, paused) = counts; tid = rni_ID task; attempts = rni_AttemptCount task + 1 in
      case closure_of task exec of
        Close_Nothing \<Rightarrow> State_Monad.return counts
      | Close_Complete \<Rightarrow> do {
          err \<leftarrow> au_call (trn_CompleteTask r tid);
          case err of
            Some e \<Rightarrow> State_Monad.return counts
          | None \<Rightarrow> do {
              ignored \<leftarrow> au_call (trn_SetOutcome r tid ''completed'' '''' attempts);
              recordFeedback d task exec ''completed'' True ''safe_action_succeeded'';
              au_audit d ''task.execution_completed'' tid;
              State_Monad.return (completed + 1, failed, paused) } }
      | Close_Fail reason outcome signal event \<Rightarrow> do {
          err \<leftarrow> au_call (trn_FailTask r tid reason);
          case err of
            Some e \<Rightarrow> State_Monad.return counts
          | None \<Rightarrow> do {
              ignored \<leftarrow> au_call (trn_SetOutcome r tid outcome (exi_AbortReason exec) attempts);
              recordFeedback d task exec outcome False signal;
              au_audit d event tid;
              State_Monad.return (completed, failed + 1, paused) } }
      | Close_Pause reason outcome signal event \<Rightarrow> do {
          err \<leftarrow> au_call (trn_PauseTask r tid);
          case err of
            Some e \<Rightarrow> State_Monad.return counts
          | None \<Rightarrow> do {
              ignored \<leftarrow> (if outcome = ''aborted'' then au_call (trn_SetOutcome r tid outcome reason attempts) else State_Monad.return None);
              recordFeedback d task exec outcome False signal;
              au_audit d event tid;
              State_Monad.return (completed, failed, paused + 1) } })"

fun propagate_all ::
  "'x auto_deps \<Rightarrow> 'x task_runner \<Rightarrow> (string \<Rightarrow> ('x, string + exec_info) engine_call) \<Rightarrow> running_info list \<Rightarrow> int \<times> int \<times> int \<Rightarrow>
   ('x, int \<times> int \<times> int) autonomy"
where
  "propagate_all d r getTask [] counts = State_Monad.return counts"
| "propagate_all d r getTask (task # tasks) counts =
     (if rni_ExecutionTaskID task = '''' then propagate_all d r getTask tasks counts
      else do {
        answer \<leftarrow> au_call (getTask (rni_ExecutionTaskID task));
        case answer of
          Inl e \<Rightarrow> propagate_all d r getTask tasks counts
        | Inr exec \<Rightarrow> do {
            counts \<leftarrow> apply_closure d r task exec counts;
            propagate_all d r getTask tasks counts } })"

definition PropagateExecutionResults :: "'x auto_deps \<Rightarrow> ('x, (int \<times> int \<times> int) \<times> string option) autonomy" where
  "PropagateExecutionResults d =
     (case (ap_taskOrchestrator d, ap_executionLoop d) of
        (Some r, Some getTask) \<Rightarrow> do {
          running \<leftarrow> au_call (trn_ListRunningTasks r (chain_MaxRunningTasks * 2));
          case running of
            Inl e \<Rightarrow> State_Monad.return ((0, 0, 0), Some (''list running tasks: '' @ e))
          | Inr tasks \<Rightarrow> do {
              counts \<leftarrow> propagate_all d r getTask tasks (0, 0, 0);
              State_Monad.return (counts, None) } }
      | _ \<Rightarrow> State_Monad.return ((0, 0, 0), None))"

section \<open>Feedback for reflection and objective\<close>

record feedback_signal =
  fsg_Signal :: string
  fsg_Outcome :: string
  fsg_Success :: bool
  fsg_TaskID :: string
  fsg_CreatedAt :: time

record feedback_metrics =
  fm_SuccessRate :: f64
  fm_CompletedCount :: int
  fm_FailedCount :: int
  fm_AbortedCount :: int
  fm_BlockedCount :: int
  fm_RepeatedFailures :: int
  fm_TotalExecutions :: int
  fm_MeasuredSince :: time

definition GetReflectionFeedback :: "'x auto_deps \<Rightarrow> ('x, string + feedback_signal list) autonomy" where
  "GetReflectionFeedback d =
     (case ap_feedbackStore d of
        None \<Rightarrow> State_Monad.return (Inr [])
      | Some st \<Rightarrow> do {
          now \<leftarrow> au_read (ap_clock d);
          recent \<leftarrow> au_call (fbs_ListRecent st 50);
          case recent of
            Inl e \<Rightarrow> State_Monad.return (Inl (''list recent feedback: '' @ e))
          | Inr fbs \<Rightarrow> do {
              let signals = map (\<lambda>fb. \<lparr>fsg_Signal = fb_SemanticSignal fb, fsg_Outcome = fb_OutcomeType fb, fsg_Success = fb_Success fb,
                    fsg_TaskID = fb_TaskID fb, fsg_CreatedAt = fb_CreatedAt fb\<rparr>)
                  (filter (\<lambda>fb. \<not> fb_CreatedAt fb < now - 24 * Hour) fbs);
              (if signals \<noteq> [] then au_audit d ''execution.feedback_exposed_to_reflection'' '''' else State_Monad.return ());
              State_Monad.return (Inr signals) } })"

definition success_rate :: "int \<Rightarrow> int \<Rightarrow> f64" where
  "success_rate completed executed =
     (if executed > 0 then fdiv (f64 (of_int completed)) (f64 (of_int executed)) else Fin 0)"

text \<open>A count that fails is 0.\<close>

definition GetObjectiveFeedback :: "'x auto_deps \<Rightarrow> ('x, feedback_metrics) autonomy" where
  "GetObjectiveFeedback d =
     (case ap_feedbackStore d of
        None \<Rightarrow> State_Monad.return \<lparr>fm_SuccessRate = Fin 0, fm_CompletedCount = 0, fm_FailedCount = 0, fm_AbortedCount = 0,
          fm_BlockedCount = 0, fm_RepeatedFailures = 0, fm_TotalExecutions = 0, fm_MeasuredSince = 0\<rparr>
      | Some st \<Rightarrow> do {
          now \<leftarrow> au_read (ap_clock d);
          let since = now - 24 * Hour;
          (completed, e1) \<leftarrow> au_call (fbs_CountByOutcome st ''completed'' since);
          (failed, e2) \<leftarrow> au_call (fbs_CountByOutcome st ''failed'' since);
          (aborted, e3) \<leftarrow> au_call (fbs_CountByOutcome st ''aborted'' since);
          (blocked, e4) \<leftarrow> au_call (fbs_CountByOutcome st ''blocked'' since);
          (repeated, e5) \<leftarrow> au_call (fbs_CountBySignal st ''repeated_failure'' since);
          let executed = completed + failed + aborted + blocked;
          au_audit d ''execution.feedback_exposed_to_objective'' '''';
          State_Monad.return \<lparr>fm_SuccessRate = success_rate completed executed, fm_CompletedCount = completed, fm_FailedCount = failed,
            fm_AbortedCount = aborted, fm_BlockedCount = blocked, fm_RepeatedFailures = repeated, fm_TotalExecutions = executed,
            fm_MeasuredSince = since\<rparr> })"

section \<open>The cycles\<close>

text \<open>A cycle of an engine that is not wired does nothing; the error of a cycle is its result.\<close>

definition prefix_error :: "string \<Rightarrow> string \<Rightarrow> string option" where
  "prefix_error what e = Some (what @ '': '' @ e)"

definition cycleReflection :: "'x auto_deps \<Rightarrow> ('x, string option) autonomy" where
  "cycleReflection d =
     (case ap_reflection d of
        None \<Rightarrow> State_Monad.return None
      | Some run \<Rightarrow> do {
          r \<leftarrow> au_call run;
          State_Monad.return (case r of Inl e \<Rightarrow> prefix_error ''reflection'' e | Inr _ \<Rightarrow> None) })"

definition cycleObjective :: "'x auto_deps \<Rightarrow> ('x, string option) autonomy" where
  "cycleObjective d =
     (case ap_objective d of
        None \<Rightarrow> State_Monad.return None
      | Some run \<Rightarrow> do {
          r \<leftarrow> au_call run;
          State_Monad.return (case r of Inl e \<Rightarrow> prefix_error ''objective'' e | Inr _ \<Rightarrow> None) })"

definition isHeavyAction :: "string \<Rightarrow> bool" where
  "isHeavyAction t \<longleftrightarrow> t \<in> {''adjust_pricing'', ''trigger_automation'', ''stabilize_income'', ''rebalance_portfolio''}"

text \<open>The first pass over the decisions counts what it queues and what it suppresses.\<close>

fun classify :: "'x auto_deps \<Rightarrow> bool \<Rightarrow> decision_info list \<Rightarrow> int \<times> int \<Rightarrow> ('x, int \<times> int) autonomy" where
  "classify d heavyDisabled [] counts = State_Monad.return counts"
| "classify d heavyDisabled (x # xs) (queued, suppressed) =
     (if di_Status x \<noteq> ''proposed'' then classify d heavyDisabled xs (queued, suppressed)
      else do {
        cfg \<leftarrow> au_ask au_cfg;
        repeated \<leftarrow> IsDuplicate d (''actuation:'' @ di_Type x @ '':'' @ di_ID x) (wrap64 (ac_DedupeActuation cfg * Hour));
        if repeated then classify d heavyDisabled xs (queued, suppressed + 1)
        else if di_RequiresReview x then do {
          au_audit d ''autonomy.review_action_queued'' (di_ID x);
          classify d heavyDisabled xs (queued + 1, suppressed) }
        else if heavyDisabled \<and> isHeavyAction (di_Type x) then classify d heavyDisabled xs (queued, suppressed + 1)
        else do {
          taken \<leftarrow> au_ask (\<lambda>w. rs_ActionsTakenThisCycle (au_state w));
          if taken \<ge> ac_MaxActionsPerCycle cfg then classify d heavyDisabled xs (queued, suppressed + 1)
          else do {
            au_set (\<lambda>s. s\<lparr>rs_ActionsTakenThisCycle := rs_ActionsTakenThisCycle s + 1, rs_SafeActionsRouted := rs_SafeActionsRouted s + 1\<rparr>);
            au_audit d ''autonomy.safe_action_routed'' (di_ID x);
            classify d heavyDisabled xs (queued, suppressed) } } })"

text \<open>The second pass does not know what the first one suppressed.\<close>

fun materialize :: "'x auto_deps \<Rightarrow> decision_info list \<Rightarrow> int \<Rightarrow> ('x, int) autonomy" where
  "materialize d [] n = State_Monad.return n"
| "materialize d (x # xs) n =
     (if di_Status x \<noteq> ''proposed'' \<or> di_RequiresReview x then materialize d xs n
      else do {
        r \<leftarrow> MaterializeDecisionAsTask d x;
        materialize d xs (case r of Inl e \<Rightarrow> n | Inr (i, created) \<Rightarrow> if created then n + 1 else n) })"

definition cycleActuation :: "'x auto_deps \<Rightarrow> ('x, string option) autonomy" where
  "cycleActuation d =
     (case ap_actuation d of
        None \<Rightarrow> State_Monad.return None
      | Some a \<Rightarrow> do {
          result \<leftarrow> au_call (arn_Run a);
          case result of
            Inl e \<Rightarrow> State_Monad.return (prefix_error ''actuation run'' e)
          | Inr _ \<Rightarrow> do {
              heavyDisabled \<leftarrow> au_ask (\<lambda>w. rs_HeavyActionsDisabled (au_state w));
              listing \<leftarrow> au_call (arn_ListDecisions a 50);
              let decisions = (case listing of Inl e \<Rightarrow> [] | Inr ds \<Rightarrow> ds);
              (queued, suppressed) \<leftarrow> classify d heavyDisabled decisions (0, 0);
              au_set (\<lambda>s. s\<lparr>rs_ReviewActionsQueued := rs_ReviewActionsQueued s + queued,
                rs_SuppressedDecisions := rs_SuppressedDecisions s + suppressed\<rparr>);
              tasksCreated \<leftarrow> materialize d decisions 0;
              (if tasksCreated > 0
               then au_set (\<lambda>s. s\<lparr>rs_TasksCreatedFromActuation := rs_TasksCreatedFromActuation s + tasksCreated\<rparr>)
               else State_Monad.return ());
              State_Monad.return None } })"

definition cycleScheduling :: "'x auto_deps \<Rightarrow> ('x, string option) autonomy" where
  "cycleScheduling d =
     (case ap_scheduling d of
        None \<Rightarrow> State_Monad.return None
      | Some run \<Rightarrow> do {
          r \<leftarrow> au_call run;
          State_Monad.return (case r of Some e \<Rightarrow> prefix_error ''scheduling'' e | None \<Rightarrow> None) })"

definition cyclePortfolio :: "'x auto_deps \<Rightarrow> ('x, string option) autonomy" where
  "cyclePortfolio d =
     (case ap_portfolio d of
        None \<Rightarrow> State_Monad.return None
      | Some run \<Rightarrow> do {
          r \<leftarrow> au_call run;
          State_Monad.return (case r of Some e \<Rightarrow> prefix_error ''portfolio'' e | None \<Rightarrow> None) })"

definition cycleDiscovery :: "'x auto_deps \<Rightarrow> ('x, string option) autonomy" where
  "cycleDiscovery d =
     (case ap_discovery d of
        None \<Rightarrow> State_Monad.return None
      | Some run \<Rightarrow> do {
          r \<leftarrow> au_call run;
          State_Monad.return (case r of Inl e \<Rightarrow> prefix_error ''discovery'' e | Inr _ \<Rightarrow> None) })"

fun consider_proposals :: "'x auto_deps \<Rightarrow> bool \<Rightarrow> proposal_info list \<Rightarrow> ('x, unit) autonomy" where
  "consider_proposals d selfExtDisabled [] = State_Monad.return ()"
| "consider_proposals d selfExtDisabled (p # ps) =
     (if pi_Status p \<noteq> ''validated'' then consider_proposals d selfExtDisabled ps
      else do {
        cfg \<leftarrow> au_ask au_cfg;
        repeated \<leftarrow> IsDuplicate d (''selfext:'' @ pi_ID p) (wrap64 (ac_DedupeSelfExtension cfg * Hour));
        (if repeated then State_Monad.return ()
         else if \<not> ac_AutoDeployEnabled cfg \<or> selfExtDisabled \<or> ac_OnlyLowRisk cfg then do {
           au_set (\<lambda>s. s\<lparr>rs_SelfExtBlocked := rs_SelfExtBlocked s + 1\<rparr>);
           au_audit d ''autonomy.self_extension_blocked'' (pi_ID p) }
         else do {
           au_set (\<lambda>s. s\<lparr>rs_SelfExtDeployed := rs_SelfExtDeployed s + 1\<rparr>);
           au_audit d ''autonomy.self_extension_autodeployed'' (pi_ID p) });
        consider_proposals d selfExtDisabled ps })"

definition cycleSelfExtension :: "'x auto_deps \<Rightarrow> ('x, string option) autonomy" where
  "cycleSelfExtension d =
     (case ap_selfExt d of
        None \<Rightarrow> State_Monad.return None
      | Some listProposals \<Rightarrow> do {
          selfExtDisabled \<leftarrow> au_ask (\<lambda>w. rs_SelfExtDisabled (au_state w));
          r \<leftarrow> au_call (listProposals 20);
          case r of
            Inl e \<Rightarrow> State_Monad.return (prefix_error ''self_extension list'' e)
          | Inr ps \<Rightarrow> do {
              consider_proposals d selfExtDisabled ps;
              State_Monad.return None } })"

definition cycleTaskRecompute :: "'x auto_deps \<Rightarrow> ('x, string option) autonomy" where
  "cycleTaskRecompute d =
     (case ap_taskOrchestrator d of
        None \<Rightarrow> State_Monad.return None
      | Some r \<Rightarrow> do {
          mode \<leftarrow> au_mode;
          if mode = AutonomyFrozen then do {
            au_audit d ''autonomy.task_recompute_skipped'' ''frozen_mode'';
            State_Monad.return None }
          else do {
            au_audit d ''autonomy.task_recompute_started'' mode;
            ((completed, failed, paused), propErr) \<leftarrow> PropagateExecutionResults d;
            (if completed > 0 \<or> failed > 0 \<or> paused > 0
             then au_set (\<lambda>s. s\<lparr>rs_ExecutionCompleted := rs_ExecutionCompleted s + completed,
               rs_ExecutionFailed := rs_ExecutionFailed s + failed, rs_ExecutionPaused := rs_ExecutionPaused s + paused\<rparr>)
             else State_Monad.return ());
            err \<leftarrow> au_call (trn_RecomputePriorities r);
            case err of
              Some e \<Rightarrow> State_Monad.return (prefix_error ''task recompute'' e)
            | None \<Rightarrow> do {
                au_set (\<lambda>s. s\<lparr>rs_TaskRecomputeCount := rs_TaskRecomputeCount s + 1\<rparr>);
                au_audit d ''autonomy.task_recompute_completed'' '''';
                State_Monad.return None } } })"

fun link_dispatched :: "'x task_runner \<Rightarrow> (string \<times> string) list \<Rightarrow> ('x, unit) autonomy" where
  "link_dispatched r [] = State_Monad.return ()"
| "link_dispatched r ((taskID, execTaskID) # ls) = do {
     ignored \<leftarrow> (if execTaskID \<noteq> '''' then au_call (trn_SetExecutionTaskID r taskID execTaskID) else State_Monad.return None);
     link_dispatched r ls }"

definition cycleTaskDispatch :: "'x auto_deps \<Rightarrow> ('x, string option) autonomy" where
  "cycleTaskDispatch d =
     (case ap_taskOrchestrator d of
        None \<Rightarrow> State_Monad.return None
      | Some r \<Rightarrow> do {
          mode \<leftarrow> au_mode;
          if mode = AutonomyFrozen then do {
            au_audit d ''autonomy.task_dispatch_skipped'' ''frozen_mode'';
            State_Monad.return None }
          else do {
            au_audit d ''autonomy.task_dispatch_started'' mode;
            result \<leftarrow> au_call (trn_Dispatch r);
            case result of
              Inl e \<Rightarrow> do {
                au_audit d ''autonomy.task_dispatch_completed'' e;
                State_Monad.return None }
            | Inr info \<Rightarrow> do {
                link_dispatched r (dsi_DispatchedTaskIDs info);
                au_set (\<lambda>s. s\<lparr>rs_TaskDispatchCount := rs_TaskDispatchCount s + dsi_DispatchedCount info\<rparr>);
                au_audit d ''autonomy.task_dispatch_completed'' '''';
                State_Monad.return None } } })"

definition cycleGoalPlanning :: "'x auto_deps \<Rightarrow> ('x, string option) autonomy" where
  "cycleGoalPlanning d =
     (case ap_goalPlanning d of
        None \<Rightarrow> State_Monad.return None
      | Some run \<Rightarrow> do {
          mode \<leftarrow> au_mode;
          if mode = AutonomyFrozen then do {
            au_audit d ''autonomy.goal_planning_skipped'' ''frozen_mode'';
            State_Monad.return None }
          else do {
            au_audit d ''autonomy.goal_planning_started'' mode;
            err \<leftarrow> au_call run;
            case err of
              Some e \<Rightarrow> do {
                au_audit d ''autonomy.goal_planning_failed'' e;
                State_Monad.return (Some e) }
            | None \<Rightarrow> do {
                au_audit d ''autonomy.goal_planning_completed'' '''';
                State_Monad.return None } } })"

definition cycleGoalReplanning :: "'x auto_deps \<Rightarrow> ('x, string option) autonomy" where
  "cycleGoalReplanning d =
     (case ap_goalReplanning d of
        None \<Rightarrow> State_Monad.return None
      | Some run \<Rightarrow> do {
          mode \<leftarrow> au_mode;
          if mode = AutonomyFrozen then do {
            au_audit d ''autonomy.goal_replanning_skipped'' ''frozen_mode'';
            State_Monad.return None }
          else do {
            au_audit d ''autonomy.goal_replanning_started'' mode;
            r \<leftarrow> au_call run;
            case r of
              Inl e \<Rightarrow> do {
                au_audit d ''autonomy.goal_replanning_failed'' e;
                State_Monad.return (Some e) }
            | Inr replanned \<Rightarrow> do {
                au_audit d ''autonomy.goal_replanning_completed'' (int_str replanned);
                State_Monad.return None } } })"

section \<open>Reports\<close>

definition storeReport :: "auto_report \<Rightarrow> auto_report list \<Rightarrow> auto_report list" where
  "storeReport r rs = (let rs = rs @ [r] in if length rs > 200 then drop (length rs - 200) rs else rs)"

definition report_warnings :: "runtime_state \<Rightarrow> string list" where
  "report_warnings s =
     (if rs_Downgraded s then [''system is in downgraded mode: '' @ rs_DowngradeReason s] else []) @
     (if rs_HeavyActionsDisabled s then [''heavy actions are disabled''] else []) @
     (if rs_SelfExtDisabled s then [''self-extension auto-deploy is disabled''] else []) @
     (if rs_ConsecutiveFailures s > 0 then [int_str (rs_ConsecutiveFailures s) @ '' consecutive failures''] else [])"

definition cycleReporting :: "'x auto_deps \<Rightarrow> ('x, string option) autonomy" where
  "cycleReporting d = do {
     s \<leftarrow> au_ask au_state;
     i \<leftarrow> au_read (ap_newUUID d);
     now \<leftarrow> au_read (ap_clock d);
     snapshot \<leftarrow> (case ap_objective d of
         None \<Rightarrow> State_Monad.return None
       | Some run \<Rightarrow> do { r \<leftarrow> au_call run; State_Monad.return (case r of Inl e \<Rightarrow> None | Inr ob \<Rightarrow> Some ob) });
     let report = \<lparr>rp_ID = i, rp_Type = ''operational'', rp_CreatedAt = now, rp_Mode = rs_Mode s, rp_CyclesRun = rs_CyclesRun s,
       rp_ObjectiveSnapshot = snapshot, rp_SafeActionsRouted = rs_SafeActionsRouted s, rp_ReviewQueued = rs_ReviewActionsQueued s,
       rp_SuppressedCount = rs_SuppressedDecisions s, rp_SelfExtBlocked = rs_SelfExtBlocked s, rp_SelfExtDeployed = rs_SelfExtDeployed s,
       rp_Downgraded = rs_Downgraded s, rp_DowngradeReason = rs_DowngradeReason s, rp_FailureCount = rs_ConsecutiveFailures s,
       rp_Warnings = report_warnings s, rp_ExceptionTrigger = ''''\<rparr>;
     State (\<lambda>w. ((), w\<lparr>au_reports := storeReport report (au_reports w)\<rparr>));
     au_set (\<lambda>s. s\<lparr>rs_ReportCount := rs_ReportCount s + 1\<rparr>);
     au_audit d ''autonomy.report_created'' i;
     State_Monad.return None }"

definition CreateExceptionReport :: "'x auto_deps \<Rightarrow> string \<Rightarrow> ('x, unit) autonomy" where
  "CreateExceptionReport d trigger = do {
     s \<leftarrow> au_ask au_state;
     i \<leftarrow> au_read (ap_newUUID d);
     now \<leftarrow> au_read (ap_clock d);
     let report = \<lparr>rp_ID = i, rp_Type = ''exception'', rp_CreatedAt = now, rp_Mode = rs_Mode s, rp_CyclesRun = rs_CyclesRun s,
       rp_ObjectiveSnapshot = None, rp_SafeActionsRouted = 0, rp_ReviewQueued = 0, rp_SuppressedCount = 0, rp_SelfExtBlocked = 0,
       rp_SelfExtDeployed = 0, rp_Downgraded = rs_Downgraded s, rp_DowngradeReason = rs_DowngradeReason s,
       rp_FailureCount = rs_ConsecutiveFailures s, rp_Warnings = [trigger], rp_ExceptionTrigger = trigger\<rparr>;
     State (\<lambda>w. ((), w\<lparr>au_reports := storeReport report (au_reports w)\<rparr>));
     au_audit d ''autonomy.report_created'' i }"

definition GetReports :: "int \<Rightarrow> auto_report list \<Rightarrow> auto_report list" where
  "GetReports limit rs =
     (let n = (if limit \<le> 0 \<or> limit > int (length rs) then length rs else nat limit) in drop (length rs - n) rs)"

section \<open>The safety kernel\<close>

definition downgrade_target :: "auto_config \<Rightarrow> string" where
  "downgrade_target cfg = (if ac_DowngradeMode cfg \<noteq> '''' then ac_DowngradeMode cfg else ModeSupervisedAutonomy)"

definition downgrade :: "'x auto_deps \<Rightarrow> string \<Rightarrow> ('x, unit) autonomy" where
  "downgrade d reason = do {
     s \<leftarrow> au_ask au_state;
     if rs_Downgraded s then State_Monad.return ()
     else do {
       cfg \<leftarrow> au_ask au_cfg;
       au_set (\<lambda>s. s\<lparr>rs_Downgraded := True, rs_DowngradeReason := reason, rs_HeavyActionsDisabled := True, rs_SelfExtDisabled := True,
         rs_Mode := downgrade_target cfg\<rparr>);
       au_audit d ''autonomy.downgraded'' reason } }"

definition disableHeavyActions :: "'x auto_deps \<Rightarrow> string \<Rightarrow> ('x, unit) autonomy" where
  "disableHeavyActions d reason = do {
     s \<leftarrow> au_ask au_state;
     if rs_HeavyActionsDisabled s then State_Monad.return ()
     else do {
       au_set (\<lambda>s. s\<lparr>rs_HeavyActionsDisabled := True\<rparr>);
       au_audit d ''autonomy.heavy_actions_disabled'' reason } }"

definition exceeded_text :: "string \<Rightarrow> f64 \<Rightarrow> f64 \<Rightarrow> string" where
  "exceeded_text what x limit = what @ ''_threshold_exceeded: '' @ fmt_f2 x @ '' >= '' @ fmt_f2 limit"

definition runSafetyChecks :: "'x auto_deps \<Rightarrow> ('x, unit) autonomy" where
  "runSafetyChecks d = do {
     cfg \<leftarrow> au_ask au_cfg;
     if \<not> ac_AutoDowngrade cfg then State_Monad.return ()
     else do {
       (case ap_pressure d of
          None \<Rightarrow> State_Monad.return ()
        | Some get \<Rightarrow> do {
            (score, urgency) \<leftarrow> au_call get;
            if fle (ac_Pressure cfg) score then downgrade d (exceeded_text ''pressure'' score (ac_Pressure cfg)) else State_Monad.return () });
       (case ap_capacity d of
          None \<Rightarrow> State_Monad.return ()
        | Some get \<Rightarrow> do {
            load \<leftarrow> au_call get;
            if fle (ac_Overload cfg) load then disableHeavyActions d (exceeded_text ''overload'' load (ac_Overload cfg))
            else State_Monad.return () }) } }"

definition recovered :: "runtime_state \<Rightarrow> runtime_state" where
  "recovered s =
     s\<lparr>rs_Mode := rs_OriginalMode s, rs_Downgraded := False, rs_DowngradeReason := '''', rs_HeavyActionsDisabled := False,
       rs_SelfExtDisabled := False, rs_ConsecutiveHealthy := 0\<rparr>"

definition checkRecovery :: "'x auto_deps \<Rightarrow> ('x, unit) autonomy" where
  "checkRecovery d = do {
     cfg \<leftarrow> au_ask au_cfg;
     s \<leftarrow> au_ask au_state;
     if ac_AutoRestorePrevMode cfg \<and> rs_Downgraded s \<and> rs_ConsecutiveHealthy s \<ge> ac_RequireConsecutiveHealthy cfg then do {
       au_set recovered;
       au_audit d ''autonomy.mode_recovered'' (rs_OriginalMode s) }
     else State_Monad.return () }"

section \<open>A tick\<close>

text \<open>The cycles in their order: name, whether enabled, whether bound to the execution window.\<close>

definition allCycles :: "auto_config \<Rightarrow> 'x auto_deps \<Rightarrow> (string \<times> bool \<times> bool) list" where
  "allCycles c d =
     [(''reflection'', ac_AllowReflection c, False),
      (''objective'', ac_AllowObjectiveRecompute c, False),
      (''actuation'', ac_ActuationEnabled c \<and> ac_AllowRun c, True),
      (''scheduling'', ac_SchedulingEnabled c \<and> ac_AllowRecompute c, True),
      (''portfolio'', ac_AllowPortfolioRebalance c, True),
      (''discovery'', ac_AllowDiscovery c, True),
      (''self_extension'', ac_SelfExtEnabled c, True),
      (''task_recompute'', ap_taskOrchestrator d \<noteq> None, True),
      (''task_dispatch'', ap_taskOrchestrator d \<noteq> None, True),
      (''goal_planning'', ap_goalPlanning d \<noteq> None, True),
      (''goal_replanning'', ap_goalReplanning d \<noteq> None, True),
      (''reporting'', ac_ReportingEnabled c, False)]"

definition isAllowedOutsideWindow :: "auto_config \<Rightarrow> string \<Rightarrow> bool" where
  "isAllowedOutsideWindow c cycle =
     (if cycle = ''reflection'' then ac_OutsideReflection c
      else if cycle = ''objective'' then ac_OutsideObjective c
      else if cycle = ''reporting'' then ac_OutsideReporting c
      else False)"

definition is_due :: "auto_config \<Rightarrow> runtime_state \<Rightarrow> time \<Rightarrow> bool \<Rightarrow> string \<times> bool \<times> bool \<Rightarrow> bool" where
  "is_due c s now inWindow cy =
     (case cy of (name, enabled, inWindowReq) \<Rightarrow>
        enabled \<and> (\<not> inWindow \<and> inWindowReq \<longrightarrow> isAllowedOutsideWindow c name) \<and>
        (case rs_LastCycleTimes s name of None \<Rightarrow> True | Some lastRun \<Rightarrow> time_Sub now lastRun \<ge> CycleDuration c name))"

definition dueCycles :: "'x auto_deps \<Rightarrow> auto_config \<Rightarrow> runtime_state \<Rightarrow> time \<Rightarrow> bool \<Rightarrow> string list" where
  "dueCycles d c s now inWindow = map fst (filter (is_due c s now inWindow) (allCycles c d))"

definition run_named :: "'x auto_deps \<Rightarrow> string \<Rightarrow> ('x, string option) autonomy" where
  "run_named d cycle =
     (if cycle = ''reflection'' then cycleReflection d
      else if cycle = ''objective'' then cycleObjective d
      else if cycle = ''actuation'' then cycleActuation d
      else if cycle = ''scheduling'' then cycleScheduling d
      else if cycle = ''portfolio'' then cyclePortfolio d
      else if cycle = ''discovery'' then cycleDiscovery d
      else if cycle = ''self_extension'' then cycleSelfExtension d
      else if cycle = ''task_recompute'' then cycleTaskRecompute d
      else if cycle = ''task_dispatch'' then cycleTaskDispatch d
      else if cycle = ''goal_planning'' then cycleGoalPlanning d
      else if cycle = ''goal_replanning'' then cycleGoalReplanning d
      else if cycle = ''reporting'' then cycleReporting d
      else State_Monad.return (Some (''unknown cycle: '' @ cycle)))"

definition mark_run :: "string \<Rightarrow> time \<Rightarrow> runtime_state \<Rightarrow> runtime_state" where
  "mark_run cycle now s =
     s\<lparr>rs_LastCycleTimes := (rs_LastCycleTimes s)(cycle \<mapsto> now), rs_CyclesRun := (rs_CyclesRun s)(cycle := rs_CyclesRun s cycle + 1)\<rparr>"

definition runCycle :: "'x auto_deps \<Rightarrow> string \<Rightarrow> time \<Rightarrow> ('x, string option) autonomy" where
  "runCycle d cycle now = do {
     au_audit d ''autonomy.cycle_started'' cycle;
     err \<leftarrow> run_named d cycle;
     au_set (mark_run cycle now);
     au_audit d ''autonomy.cycle_completed'' cycle;
     State_Monad.return err }"

fun runCycles :: "'x auto_deps \<Rightarrow> time \<Rightarrow> string list \<Rightarrow> bool \<Rightarrow> ('x, bool) autonomy" where
  "runCycles d now [] cycleOK = State_Monad.return cycleOK"
| "runCycles d now (c # cs) cycleOK = do {
     err \<leftarrow> runCycle d c now;
     runCycles d now cs (cycleOK \<and> err = None) }"

definition count_outcome :: "'x auto_deps \<Rightarrow> bool \<Rightarrow> time \<Rightarrow> runtime_state \<Rightarrow> runtime_state" where
  "count_outcome d cycleOK now s =
     (if cycleOK then s\<lparr>rs_ConsecutiveFailures := 0, rs_ConsecutiveHealthy := rs_ConsecutiveHealthy s + 1\<rparr>
      else s\<lparr>rs_ConsecutiveFailures := rs_ConsecutiveFailures s + 1, rs_ConsecutiveHealthy := 0,
             rs_LastError := ''cycle failure at '' @ ap_rfc3339 d now\<rparr>)"

text \<open>
  How a tick ends: it skips a frozen system, finds nothing due, runs the cycles it found due, or panics. The Go function
  returns nothing; the value tells which way it took.
\<close>

datatype tick_end = Frozen_Tick | Idle_Tick | Ran "string list" | Panicked

definition tick_body :: "'x auto_deps \<Rightarrow> time \<Rightarrow> bool \<Rightarrow> ('x, tick_end) autonomy" where
  "tick_body d now inWindow = do {
     dedupe_Cleanup d (72 * Hour);
     runSafetyChecks d;
     cfg \<leftarrow> au_ask au_cfg;
     s \<leftarrow> au_ask au_state;
     let cycles = dueCycles d cfg s now inWindow;
     if cycles = [] then State_Monad.return Idle_Tick
     else do {
       au_set (\<lambda>s. s\<lparr>rs_ActionsTakenThisCycle := 0\<rparr>);
       cycleOK \<leftarrow> runCycles d now cycles True;
       au_set (count_outcome d cycleOK now);
       failures \<leftarrow> au_ask (\<lambda>w. rs_ConsecutiveFailures (au_state w));
       (if failures \<ge> ac_MaxConsecutiveFailedCycles cfg then downgrade d ''max_consecutive_failed_cycles reached''
        else State_Monad.return ());
       checkRecovery d;
       State_Monad.return (Ran cycles) } }"

definition auto_tick :: "'x auto_deps \<Rightarrow> ('x, tick_end) autonomy" where
  "auto_tick d = do {
     mode \<leftarrow> au_mode;
     if mode = AutonomyFrozen then State_Monad.return Frozen_Tick
     else do {
       now \<leftarrow> au_read (ap_clock d);
       cfg \<leftarrow> au_ask au_cfg;
       case IsInsideWindow cfg (ap_wall d now) of
         None \<Rightarrow> State_Monad.return Panicked
       | Some inWindow \<Rightarrow> tick_body d now inWindow } }"

section \<open>Control\<close>

definition bootstrap_cycle :: "'x auto_deps \<Rightarrow> bool \<Rightarrow> string \<Rightarrow> ('x, unit) autonomy" where
  "bootstrap_cycle d wanted cycle =
     (if wanted then do {
        err \<leftarrow> run_named d cycle;
        now \<leftarrow> au_read (ap_clock d);
        au_set (mark_run cycle now) }
      else State_Monad.return ())"

definition runBootstrap :: "'x auto_deps \<Rightarrow> ('x, unit) autonomy" where
  "runBootstrap d = do {
     cfg \<leftarrow> au_ask au_cfg;
     bootstrap_cycle d (ac_RunReflectionOnce cfg) ''reflection'';
     bootstrap_cycle d (ac_RunObjectiveOnce cfg) ''objective'';
     bootstrap_cycle d (ac_RunActuationOnce cfg) ''actuation'';
     bootstrap_cycle d (ac_RunReportingOnce cfg) ''reporting'' }"

definition start_services :: "'x auto_deps \<Rightarrow> auto_config \<Rightarrow> ('x, string option) autonomy" where
  "start_services d cfg = do {
     (case ap_governance d of
        None \<Rightarrow> State_Monad.return None
      | Some setMode \<Rightarrow>
          if ac_StartupMode cfg \<noteq> '''' then au_call (setMode (ac_StartupMode cfg) ''autonomy orchestrator startup'')
          else State_Monad.return None);
     au_audit d ''autonomy.started'' (ac_Mode cfg);
     runBootstrap d;
     State_Monad.return None }"

definition auto_Start :: "'x auto_deps \<Rightarrow> ('x, string option) autonomy" where
  "auto_Start d = do {
     running \<leftarrow> au_ask (\<lambda>w. rs_Running (au_state w));
     if running then State_Monad.return (Some ''orchestrator already running'')
     else do {
       now \<leftarrow> au_read (ap_clock d);
       cfg \<leftarrow> au_ask au_cfg;
       State (\<lambda>w. ((), w\<lparr>au_state := (au_state w)\<lparr>rs_Running := True, rs_StartedAt := Some now, rs_Mode := ac_Mode cfg,
         rs_OriginalMode := ac_Mode cfg\<rparr>, au_stopClosed := False\<rparr>));
       start_services d cfg } }"

text \<open>
  \<open>Stop\<close> looks at \<open>Running\<close>, closes the channel, waits for the loop and clears \<open>Running\<close>; closing a
  closed channel is a panic, here the value \<open>True\<close>.
\<close>

definition stop_check :: "('x, bool) autonomy" where
  "stop_check = au_ask (\<lambda>w. rs_Running (au_state w))"

definition stop_close :: "('x, bool) autonomy" where
  "stop_close = State (\<lambda>w. (au_stopClosed w, w\<lparr>au_stopClosed := True\<rparr>))"

definition stop_finish :: "'x auto_deps \<Rightarrow> ('x, unit) autonomy" where
  "stop_finish d = do {
     au_set (\<lambda>s. s\<lparr>rs_Running := False\<rparr>);
     mode \<leftarrow> au_mode;
     au_audit d ''autonomy.stopped'' mode }"

definition auto_Stop :: "'x auto_deps \<Rightarrow> ('x, bool) autonomy" where
  "auto_Stop d = do {
     running \<leftarrow> stop_check;
     if \<not> running then State_Monad.return False
     else do {
       panics \<leftarrow> stop_close;
       if panics then State_Monad.return True
       else do { stop_finish d; State_Monad.return False } } }"

definition auto_ReloadConfig :: "'x auto_deps \<Rightarrow> auto_config \<Rightarrow> ('x, string option) autonomy" where
  "auto_ReloadConfig d cfg =
     (case config_Validate cfg of
        Some e \<Rightarrow> State_Monad.return (Some e)
      | None \<Rightarrow> do {
          State (\<lambda>w. ((), w\<lparr>au_cfg := cfg\<rparr>));
          au_set (\<lambda>s. s\<lparr>rs_Mode := ac_Mode cfg, rs_OriginalMode := ac_Mode cfg, rs_Downgraded := False, rs_DowngradeReason := '''',
            rs_HeavyActionsDisabled := False, rs_SelfExtDisabled := False, rs_ConsecutiveFailures := 0, rs_ConsecutiveHealthy := 0\<rparr>);
          au_audit d ''autonomy.config_reloaded'' (ac_Mode cfg);
          State_Monad.return None })"

definition auto_SetMode :: "'x auto_deps \<Rightarrow> string \<Rightarrow> ('x, string option) autonomy" where
  "auto_SetMode d mode =
     (if mode \<notin> set autonomyModes then State_Monad.return (Some (''invalid mode: '' @ mode))
      else do {
        au_set (\<lambda>s. s\<lparr>rs_Mode := mode, rs_Downgraded := False, rs_DowngradeReason := ''''\<rparr>);
        au_audit d ''autonomy.mode_changed'' mode;
        State_Monad.return None })"

text \<open>The loop, on the order in which its two channels are ready.\<close>

datatype loop_signal = Ticker | Stop_Signal

fun auto_loop :: "'x auto_deps \<Rightarrow> loop_signal list \<Rightarrow> ('x, tick_end list) autonomy" where
  "auto_loop d [] = State_Monad.return []"
| "auto_loop d (Stop_Signal # _) = State_Monad.return []"
| "auto_loop d (Ticker # ss) = do {
     e \<leftarrow> auto_tick d;
     if e = Panicked then State_Monad.return [e]
     else do { es \<leftarrow> auto_loop d ss; State_Monad.return (e # es) } }"

definition loop_period :: "auto_config \<Rightarrow> duration" where
  "loop_period cfg = (let tick = wrap64 (ac_TickSeconds cfg * Second) in if tick \<le> 0 then 60 * Second else tick)"

definition NewOrchestrator :: "auto_config \<Rightarrow> 'x \<Rightarrow> 'x auto_world" where
  "NewOrchestrator cfg x =
     \<lparr>au_cfg = cfg, au_state = newRuntimeState (ac_Mode cfg), au_seen = [], au_reports = [], au_events = [], au_created = [],
      au_stopClosed = False, au_tick = 0, au_x = x\<rparr>"

definition adapter_ReloadConfig ::
  "'x auto_deps \<Rightarrow> (string \<Rightarrow> string + string) \<Rightarrow> (string \<Rightarrow> string + auto_config) \<Rightarrow> string \<Rightarrow> string \<Rightarrow> ('x, string option) autonomy"
where
  "adapter_ReloadConfig d readFile unmarshal configPath path =
     (case LoadAutonomyConfig readFile unmarshal (if path = '''' then configPath else path) of
        Inl e \<Rightarrow> State_Monad.return (Some e)
      | Inr cfg \<Rightarrow> auto_ReloadConfig d cfg)"

section \<open>The table of feedback\<close>

record feedback_db =
  fdb_rows :: "exec_feedback list"
  fdb_calls :: nat

record feedback_env =
  fe_exec :: "nat \<Rightarrow> string option"
  fe_fetch :: "nat \<Rightarrow> fetch"
  fe_tie :: "nat \<Rightarrow> exec_feedback \<Rightarrow> nat"

definition pgf_Insert :: "feedback_env \<Rightarrow> exec_feedback \<Rightarrow> (feedback_db, string option) engine_call" where
  "pgf_Insert env f db =
     (let db' = db\<lparr>fdb_calls := Suc (fdb_calls db)\<rparr> in
      case fe_exec env (fdb_calls db) of
        Some e \<Rightarrow> (Some (''insert execution feedback: '' @ e), db')
      | None \<Rightarrow>
          if row_of fb_ID (fdb_rows db) (fb_ID f) = None \<and> int4 (fb_StepsExecuted f) \<and> int4 (fb_StepsFailed f)
          then (None, db'\<lparr>fdb_rows := fdb_rows db @ [f\<lparr>fb_CreatedAt := fb_CreatedAt f - fb_CreatedAt f mod 1000\<rparr>]\<rparr>)
          else (Some ''insert execution feedback: rejected by the table'', db'))"

definition newest_first :: "(exec_feedback \<Rightarrow> nat) \<Rightarrow> exec_feedback \<Rightarrow> exec_feedback \<Rightarrow> bool" where
  "newest_first tie a b \<longleftrightarrow> fb_CreatedAt a > fb_CreatedAt b \<or> fb_CreatedAt a = fb_CreatedAt b \<and> tie a < tie b"

definition pgf_ListRecent :: "feedback_env \<Rightarrow> int \<Rightarrow> (feedback_db, string + exec_feedback list) engine_call" where
  "pgf_ListRecent env limit db =
     (let rows = take (nat (if limit \<le> 0 \<or> limit > 200 then 50 else limit))
            (sql_sort (newest_first (fe_tie env (fdb_calls db))) (fdb_rows db))
      in (case fe_fetch env (fdb_calls db) of
            Query_Fails e \<Rightarrow> Inl (''list execution feedback: '' @ e)
          | Complete \<Rightarrow> Inr rows
          | Breaks_After k e \<Rightarrow> Inr (take k rows)
          | Scan_Fails_At k e \<Rightarrow> if k < length rows then Inl (''scan execution feedback: '' @ e) else Inr rows,
          db\<lparr>fdb_calls := Suc (fdb_calls db)\<rparr>))"

definition pgf_count :: "feedback_env \<Rightarrow> string \<Rightarrow> (exec_feedback \<Rightarrow> bool) \<Rightarrow> (feedback_db, int \<times> string option) engine_call" where
  "pgf_count env what P db =
     (case fe_exec env (fdb_calls db) of
        Some e \<Rightarrow> (0, Some (what @ '': '' @ e))
      | None \<Rightarrow> (int (sql_count P (fdb_rows db)), None),
      db\<lparr>fdb_calls := Suc (fdb_calls db)\<rparr>)"

definition pgf_CountByOutcome :: "feedback_env \<Rightarrow> string \<Rightarrow> time \<Rightarrow> (feedback_db, int \<times> string option) engine_call" where
  "pgf_CountByOutcome env outcomeType since =
     pgf_count env ''count feedback by outcome'' (\<lambda>f. fb_OutcomeType f = outcomeType \<and> fb_CreatedAt f \<ge> since - since mod 1000)"

definition pgf_CountBySignal :: "feedback_env \<Rightarrow> string \<Rightarrow> time \<Rightarrow> (feedback_db, int \<times> string option) engine_call" where
  "pgf_CountBySignal env signal since =
     pgf_count env ''count feedback by signal'' (\<lambda>f. fb_SemanticSignal f = signal \<and> fb_CreatedAt f \<ge> since - since mod 1000)"

section \<open>What a program leaves alone\<close>

definition preserves :: "('x auto_world \<Rightarrow> 'b) \<Rightarrow> ('x, 'a) autonomy \<Rightarrow> bool" where
  "preserves f m \<longleftrightarrow> (\<forall>w. wp m (\<lambda>_ w'. f w' = f w) w)"

named_theorems keeps_intros \<open>composition of what programs leave alone\<close>

declare wp_State [wp_rules]

lemma wp_au_read [wp_rules]: "wp (au_read g) Q w = Q (g (au_tick w)) (w\<lparr>au_tick := Suc (au_tick w)\<rparr>)"
  by (simp add: au_read_def wp_rules)

lemma wp_au_ask [wp_rules]: "wp (au_ask g) Q w = Q (g w) w"
  by (simp add: au_ask_def wp_rules)

lemma wp_au_set [wp_rules]: "wp (au_set g) Q w = Q () (w\<lparr>au_state := g (au_state w)\<rparr>)"
  by (simp add: au_set_def wp_rules)

lemma wp_au_call: "wp (au_call g) Q w = (case g (au_x w) of (a, x) \<Rightarrow> Q a (w\<lparr>au_x := x\<rparr>))"
  by (simp add: au_call_def wp_rules split: prod.splits)

lemma wp_au_mode [wp_rules]: "wp au_mode Q w = Q (rs_Mode (au_state w)) w"
  by (simp add: au_mode_def wp_rules)

lemma keepsD: "preserves f m \<Longrightarrow> wp m (\<lambda>_ w'. f w' = f w) w"
  by (simp add: preserves_def)

lemma keeps_value: "preserves f m \<Longrightarrow> f w = c \<Longrightarrow> wp m (\<lambda>_ w'. f w' = c) w"
  by (auto simp: preserves_def)

lemma keeps_run: "preserves f m \<Longrightarrow> run_state m w = (a, w') \<Longrightarrow> f w' = f w"
  by (auto simp: preserves_def wp_def dest!: spec [of _ w])

lemma keeps_return [keeps_intros]: "preserves f (State_Monad.return a)"
  by (simp add: preserves_def wp_return)

lemma keeps_bind [keeps_intros]:
  assumes "preserves f m" and "\<And>a. preserves f (n a)"
  shows "preserves f (State_Monad.bind m n)"
proof -
  have "f w' = f w" if "run_state (n a) w = (b, w')" for a b w w' using keeps_run [OF assms(2) that] .
  then show ?thesis using keeps_run [OF assms(1)] unfolding preserves_def wp_def by (auto split: prod.splits)
qed

lemma keeps_ask [keeps_intros]: "preserves f (au_ask g)"
  by (simp add: preserves_def wp_rules)

lemma keeps_mode [keeps_intros]: "preserves f au_mode"
  by (simp add: preserves_def wp_rules)

lemma keeps_if [keeps_intros]: "(c \<Longrightarrow> preserves f m) \<Longrightarrow> (\<not> c \<Longrightarrow> preserves f n) \<Longrightarrow> preserves f (if c then m else n)"
  by simp

lemma keeps_option [keeps_intros]: "(x = None \<Longrightarrow> preserves f m) \<Longrightarrow> (\<And>y. x = Some y \<Longrightarrow> preserves f (n y)) \<Longrightarrow> preserves f (case x of None \<Rightarrow> m | Some y \<Rightarrow> n y)"
  by (cases x) simp_all

lemma keeps_sum [keeps_intros]: "(\<And>y. preserves f (m y)) \<Longrightarrow> (\<And>y. preserves f (n y)) \<Longrightarrow> preserves f (case x of Inl y \<Rightarrow> m y | Inr y \<Rightarrow> n y)"
  by (cases x) simp_all

lemma keeps_prod [keeps_intros]: "(\<And>a b. x = (a, b) \<Longrightarrow> preserves f (m a b)) \<Longrightarrow> preserves f (case x of (a, b) \<Rightarrow> m a b)"
  by (cases x) simp

lemma keeps_prod2 [keeps_intros]: "(\<And>a b. x = (a, b) \<Longrightarrow> preserves f (m a b y)) \<Longrightarrow> preserves f ((case x of (a, b) \<Rightarrow> m a b) y)"
  by (cases x) simp

lemma keeps_pair: "preserves f m \<Longrightarrow> preserves g m \<Longrightarrow> preserves (\<lambda>w. (f w, g w)) m"
  unfolding preserves_def wp_def by (auto split: prod.splits)

text \<open>The part of the runtime that no cycle writes.\<close>

definition core :: "runtime_state \<Rightarrow> runtime_state" where
  "core s =
     s\<lparr>rs_ReportCount := 0, rs_ActionsTakenThisCycle := 0, rs_SafeActionsRouted := 0, rs_ReviewActionsQueued := 0, rs_SelfExtBlocked := 0,
       rs_SelfExtDeployed := 0, rs_SuppressedDecisions := 0, rs_TasksCreatedFromActuation := 0, rs_TaskRecomputeCount := 0,
       rs_TaskDispatchCount := 0, rs_ExecutionCompleted := 0, rs_ExecutionFailed := 0, rs_ExecutionPaused := 0, rs_FeedbackRecorded := 0\<rparr>"

definition routed_counts :: "runtime_state \<Rightarrow> int \<times> int" where
  "routed_counts s = (rs_SafeActionsRouted s, rs_ActionsTakenThisCycle s)"

text \<open>What a call of an engine other than the actuation does to the state of the engines.\<close>

inductive_set other_calls :: "'x auto_deps \<Rightarrow> ('x \<Rightarrow> 'x) set" for d where
  reflection: "ap_reflection d = Some g \<Longrightarrow> (\<lambda>x. snd (g x)) \<in> other_calls d"
| objective: "ap_objective d = Some ob \<Longrightarrow> (\<lambda>x. snd (ob x)) \<in> other_calls d"
| scheduling: "ap_scheduling d = Some sc \<Longrightarrow> (\<lambda>x. snd (sc x)) \<in> other_calls d"
| portfolio: "ap_portfolio d = Some po \<Longrightarrow> (\<lambda>x. snd (po x)) \<in> other_calls d"
| discovery: "ap_discovery d = Some di \<Longrightarrow> (\<lambda>x. snd (di x)) \<in> other_calls d"
| proposals: "ap_selfExt d = Some se \<Longrightarrow> (\<lambda>x. snd (se n x)) \<in> other_calls d"
| pressure: "ap_pressure d = Some pr \<Longrightarrow> (\<lambda>x. snd (pr x)) \<in> other_calls d"
| capacity: "ap_capacity d = Some ca \<Longrightarrow> (\<lambda>x. snd (ca x)) \<in> other_calls d"
| governance: "ap_governance d = Some go \<Longrightarrow> (\<lambda>x. snd (go mode reason x)) \<in> other_calls d"
| getTask: "ap_executionLoop d = Some ex \<Longrightarrow> (\<lambda>x. snd (ex i x)) \<in> other_calls d"
| planning: "ap_goalPlanning d = Some gp \<Longrightarrow> (\<lambda>x. snd (gp x)) \<in> other_calls d"
| replanning: "ap_goalReplanning d = Some gr \<Longrightarrow> (\<lambda>x. snd (gr x)) \<in> other_calls d"
| create: "ap_taskOrchestrator d = Some r \<Longrightarrow> (\<lambda>x. snd (trn_CreateTask r a b u v k s x)) \<in> other_calls d"
| recompute: "ap_taskOrchestrator d = Some r \<Longrightarrow> (\<lambda>x. snd (trn_RecomputePriorities r x)) \<in> other_calls d"
| dispatch: "ap_taskOrchestrator d = Some r \<Longrightarrow> (\<lambda>x. snd (trn_Dispatch r x)) \<in> other_calls d"
| find: "ap_taskOrchestrator d = Some r \<Longrightarrow> (\<lambda>x. snd (trn_FindByActuationDecision r i x)) \<in> other_calls d"
| complete: "ap_taskOrchestrator d = Some r \<Longrightarrow> (\<lambda>x. snd (trn_CompleteTask r i x)) \<in> other_calls d"
| fail: "ap_taskOrchestrator d = Some r \<Longrightarrow> (\<lambda>x. snd (trn_FailTask r i reason x)) \<in> other_calls d"
| pause: "ap_taskOrchestrator d = Some r \<Longrightarrow> (\<lambda>x. snd (trn_PauseTask r i x)) \<in> other_calls d"
| link: "ap_taskOrchestrator d = Some r \<Longrightarrow> (\<lambda>x. snd (trn_SetActuationDecisionID r i j x)) \<in> other_calls d"
| link_run: "ap_taskOrchestrator d = Some r \<Longrightarrow> (\<lambda>x. snd (trn_SetExecutionTaskID r i j x)) \<in> other_calls d"
| outcome: "ap_taskOrchestrator d = Some r \<Longrightarrow> (\<lambda>x. snd (trn_SetOutcome r i j k n x)) \<in> other_calls d"
| running: "ap_taskOrchestrator d = Some r \<Longrightarrow> (\<lambda>x. snd (trn_ListRunningTasks r n x)) \<in> other_calls d"
| feedback: "ap_feedbackStore d = Some st \<Longrightarrow> (\<lambda>x. snd (fbs_Insert st fb x)) \<in> other_calls d"

text \<open>
  What a cycle leaves alone, for a reading \<open>f\<close> of the world that the audit of its steps, the memory of decisions,
  the reports, the counters and the calls of the engines do not change. The one event that no cycle records is that a
  cycle starts.
\<close>

locale kept =
  fixes d :: "'x auto_deps" and f :: "'x auto_world \<Rightarrow> 'b"
  assumes kept_tick: "f (w\<lparr>au_tick := n\<rparr>) = f w"
    and kept_events: "ev \<noteq> ''autonomy.cycle_started'' \<Longrightarrow> f (w\<lparr>au_events := au_events w @ [(ev, about)]\<rparr>) = f w"
    and kept_seen: "f (w\<lparr>au_seen := sn\<rparr>) = f w"
    and kept_reports: "f (w\<lparr>au_reports := rs\<rparr>) = f w"
    and kept_counters: "core s = core (au_state w) \<Longrightarrow> routed_counts s = routed_counts (au_state w) \<Longrightarrow> f (w\<lparr>au_state := s\<rparr>) = f w"
    and kept_calls: "g \<in> other_calls d \<Longrightarrow> f (w\<lparr>au_x := g (au_x w)\<rparr>) = f w"
begin

lemma read_kept [keeps_intros]: "preserves f (au_read g)"
  by (simp add: preserves_def wp_rules kept_tick)

lemma audit_kept [keeps_intros]: "ev \<noteq> ''autonomy.cycle_started'' \<Longrightarrow> preserves f (au_audit d ev about)"
  using kept_events [of ev "w\<lparr>au_tick := n\<rparr>" about for w n] by (auto simp: preserves_def au_audit_def wp_rules kept_tick split: option.splits)

lemma set_kept: "(\<And>s. core (g s) = core s) \<Longrightarrow> (\<And>s. routed_counts (g s) = routed_counts s) \<Longrightarrow> preserves f (au_set g)"
  by (simp add: preserves_def wp_rules kept_counters)

lemma call_kept: "(\<lambda>x. snd (g x)) \<in> other_calls d \<Longrightarrow> preserves f (au_call g)"
  using kept_calls [of "\<lambda>x. snd (g x)"] by (simp add: preserves_def au_call_def wp_rules split: prod.splits) (metis snd_conv)

lemma duplicate_kept [keeps_intros]: "preserves f (IsDuplicate d key window)"
  unfolding IsDuplicate_def by (intro keeps_intros) (simp_all add: preserves_def wp_rules kept_seen)

lemmas kept_rules = keeps_intros read_kept audit_kept duplicate_kept call_kept set_kept

lemma feedback_kept [keeps_intros]: "preserves f (recordFeedback d task exec out ok sig)"
  unfolding recordFeedback_def by (intro kept_rules) (auto simp: core_def routed_counts_def intro: other_calls.intros)

end

lemma closure_events:
  "closure_of task exec = Close_Fail x1 x2 x3 x4 \<Longrightarrow> x4 \<noteq> ''autonomy.cycle_started''"
  "closure_of task exec = Close_Pause x1 x2 x3 x4 \<Longrightarrow> x4 \<noteq> ''autonomy.cycle_started''"
  by (auto simp: closure_of_def split: if_splits)

context kept
begin

lemma closure_kept:
  assumes "ap_taskOrchestrator d = Some r"
  shows "preserves f (apply_closure d r task exec counts)"
proof -
  have "preserves f (apply_closure d r task exec (c, l, p))" for c l p
    unfolding apply_closure_def Let_def prod.case
    by (cases "closure_of task exec"; simp only: closure.case; intro kept_rules feedback_kept) (use assms in \<open>auto intro: other_calls.intros dest: closure_events\<close>)
  then show ?thesis by (cases counts) blast
qed

lemma propagate_all_kept:
  assumes "ap_taskOrchestrator d = Some r" and "ap_executionLoop d = Some getTask"
  shows "preserves f (propagate_all d r getTask tasks counts)"
proof (induction tasks arbitrary: counts)
  case (Cons task tasks)
  then show ?case unfolding propagate_all.simps by (intro kept_rules closure_kept assms Cons) (use assms in \<open>auto intro: other_calls.intros\<close>)
qed (simp add: keeps_return)

lemma propagate_kept: "preserves f (PropagateExecutionResults d)"
  unfolding PropagateExecutionResults_def prod.case by (intro kept_rules propagate_all_kept) (auto intro: other_calls.intros)

lemma proposals_kept: "preserves f (consider_proposals d off ps)"
proof (induction ps)
  case (Cons p ps)
  then show ?case unfolding consider_proposals.simps
    by (intro kept_rules Cons) (auto simp: core_def routed_counts_def)
qed (simp add: keeps_return)

lemma link_kept: "ap_taskOrchestrator d = Some r \<Longrightarrow> preserves f (link_dispatched r ls)"
proof (induction ls)
  case (Cons l ls)
  then show ?case by (cases l) (simp only: link_dispatched.simps, intro kept_rules Cons, auto intro: other_calls.intros)
qed (simp add: keeps_return)

lemma cycles_kept:
  "preserves f (cycleReflection d)" "preserves f (cycleObjective d)" "preserves f (cycleScheduling d)" "preserves f (cyclePortfolio d)"
  "preserves f (cycleDiscovery d)" "preserves f (cycleSelfExtension d)" "preserves f (cycleTaskRecompute d)" "preserves f (cycleTaskDispatch d)"
  "preserves f (cycleGoalPlanning d)" "preserves f (cycleGoalReplanning d)" "preserves f (cycleReporting d)"
proof -
  show "preserves f (cycleReflection d)" unfolding cycleReflection_def by (intro kept_rules) (auto intro: other_calls.intros)
  show "preserves f (cycleObjective d)" unfolding cycleObjective_def by (intro kept_rules) (auto intro: other_calls.intros)
  show "preserves f (cycleScheduling d)" unfolding cycleScheduling_def by (intro kept_rules) (auto intro: other_calls.intros)
  show "preserves f (cyclePortfolio d)" unfolding cyclePortfolio_def by (intro kept_rules) (auto intro: other_calls.intros)
  show "preserves f (cycleDiscovery d)" unfolding cycleDiscovery_def by (intro kept_rules) (auto intro: other_calls.intros)
  show "preserves f (cycleSelfExtension d)" unfolding cycleSelfExtension_def by (intro kept_rules proposals_kept) (auto intro: other_calls.intros)
  show "preserves f (cycleTaskRecompute d)" unfolding cycleTaskRecompute_def
    by (intro kept_rules propagate_kept) (auto simp: core_def routed_counts_def intro: other_calls.intros)
  show "preserves f (cycleTaskDispatch d)" unfolding cycleTaskDispatch_def
    by (intro kept_rules link_kept) (auto simp: core_def routed_counts_def intro: other_calls.intros)
  show "preserves f (cycleGoalPlanning d)" unfolding cycleGoalPlanning_def by (intro kept_rules) (auto intro: other_calls.intros)
  show "preserves f (cycleGoalReplanning d)" unfolding cycleGoalReplanning_def by (intro kept_rules) (auto intro: other_calls.intros)
  show "preserves f (cycleReporting d)" unfolding cycleReporting_def Let_def
    by (intro kept_rules) (auto simp: core_def routed_counts_def preserves_def wp_rules kept_reports intro: other_calls.intros)
qed

end

text \<open>The actuation cycle as well, if \<open>f\<close> ignores the actions routed and the tasks requested.\<close>

locale kept_by_actuation = kept +
  assumes kept_routed: "core s = core (au_state w) \<Longrightarrow> f (w\<lparr>au_state := s\<rparr>) = f w"
    and kept_created: "f (w\<lparr>au_created := xs\<rparr>) = f w"
begin

lemma set_core: "(\<And>s. core (g s) = core s) \<Longrightarrow> preserves f (au_set g)"
  by (simp add: preserves_def wp_rules kept_routed)

lemma create_kept: "ap_taskOrchestrator d = Some r \<Longrightarrow> preserves f (create_from_decision d r x)"
  unfolding create_from_decision_def request_task_def Let_def by (intro kept_rules) (auto simp: preserves_def wp_rules kept_created intro: other_calls.intros)

lemma materialize_one_kept: "preserves f (MaterializeDecisionAsTask d x)"
  unfolding MaterializeDecisionAsTask_def by (intro kept_rules create_kept) (auto intro: other_calls.intros)

lemma materialize_kept: "preserves f (materialize d xs n)"
  by (induction xs arbitrary: n) (simp_all add: keeps_return keeps_bind materialize_one_kept)

lemma classify_kept: "preserves f (classify d heavy xs counts)"
proof (induction xs arbitrary: counts)
  case (Cons x xs)
  show ?case by (cases counts) (simp only: classify.simps, intro keeps_intros audit_kept duplicate_kept set_core Cons; simp add: core_def)
qed (cases counts; simp add: keeps_return)

end

section \<open>What the cycles of a tick change\<close>

definition frame_of :: "'x auto_world \<Rightarrow> auto_config \<times> runtime_state \<times> bool" where
  "frame_of w = (au_cfg w, core (au_state w), au_stopClosed w)"

definition requested :: "'x auto_world \<Rightarrow> (int \<times> int) \<times> decision_info list" where
  "requested w = (routed_counts (au_state w), au_created w)"

interpretation frame: kept_by_actuation d frame_of for d :: "'x auto_deps"
  by unfold_locales (simp_all add: frame_of_def)

interpretation requests: kept d requested for d :: "'x auto_deps"
  by unfold_locales (simp_all add: requested_def)

lemma audit_frame: "preserves frame_of (au_audit d ev about)" "preserves requested (au_audit d ev about)"
  by (auto simp: preserves_def au_audit_def wp_rules frame_of_def requested_def split: option.splits)

lemma frame_call: "preserves frame_of (au_call g)"
  by (simp add: preserves_def au_call_def wp_rules frame_of_def split: prod.splits)

lemma request_call: "preserves requested (au_call g)"
  by (simp add: preserves_def au_call_def wp_rules requested_def split: prod.splits)

lemma actuation_frame: "preserves frame_of (cycleActuation d)"
  unfolding cycleActuation_def Let_def
  by (intro keeps_intros frame_call frame.classify_kept frame.materialize_kept frame.set_core) (simp_all add: core_def)

lemma run_named_frame: "preserves frame_of (run_named d c)"
  unfolding run_named_def by (intro keeps_if keeps_return frame.cycles_kept actuation_frame)

lemma run_named_requests: "c \<noteq> ''actuation'' \<Longrightarrow> preserves requested (run_named d c)"
  unfolding run_named_def by (intro keeps_if keeps_return requests.cycles_kept) simp

text \<open>The first pass: as many actions are routed as are counted for the tick, up to the limit.\<close>

definition within_limit :: "'x auto_world \<Rightarrow> 'x auto_world \<Rightarrow> bool" where
  "within_limit w w' \<longleftrightarrow>
     rs_SafeActionsRouted (au_state w') - rs_ActionsTakenThisCycle (au_state w') =
       rs_SafeActionsRouted (au_state w) - rs_ActionsTakenThisCycle (au_state w) \<and>
     rs_ActionsTakenThisCycle (au_state w) \<le> rs_ActionsTakenThisCycle (au_state w') \<and>
     rs_ActionsTakenThisCycle (au_state w') \<le> max (rs_ActionsTakenThisCycle (au_state w)) (ac_MaxActionsPerCycle (au_cfg w))"

lemma within_limit_requested: "requested w' = requested w \<Longrightarrow> within_limit w w'"
  by (simp add: within_limit_def requested_def routed_counts_def)

lemma within_limit_trans: "within_limit u v \<Longrightarrow> au_cfg v = au_cfg u \<Longrightarrow> within_limit v w \<Longrightarrow> within_limit u w"
  by (auto simp: within_limit_def)

definition memory_of :: "'x auto_world \<Rightarrow> auto_config \<times> runtime_state \<times> decision_info list" where
  "memory_of w = (au_cfg w, au_state w, au_created w)"

lemma duplicate_memory: "preserves memory_of (IsDuplicate d k n)"
  by (auto simp: preserves_def IsDuplicate_def wp_rules memory_of_def split: option.splits)

lemma audit_memory: "preserves memory_of (au_audit d ev about)"
  by (auto simp: preserves_def au_audit_def wp_rules memory_of_def split: option.splits)

lemma memory_within: "memory_of w' = memory_of w \<Longrightarrow> within_limit w w' \<and> au_cfg w' = au_cfg w \<and> au_created w' = au_created w"
  by (simp add: memory_of_def within_limit_def)

lemma classify_within:
  "wp (classify d heavy xs counts) (\<lambda>_ w'. within_limit w w' \<and> au_cfg w' = au_cfg w \<and> au_created w' = au_created w) w"
proof (induction xs arbitrary: counts w)
  case Nil
  then show ?case by (cases counts) (simp add: wp_rules within_limit_def)
next
  case (Cons x xs)
  let ?Q = "\<lambda>w _ w'. within_limit w w' \<and> au_cfg w' = au_cfg w \<and> au_created w' = au_created w"
  have next_one: "wp (classify d heavy xs c) (?Q w) v" if "?Q w () v" for c v
    using Cons.IH [of c v] by (rule wp_mono) (use that within_limit_trans in metis)
  have audited: "wp (au_audit d ev i \<bind> (\<lambda>_. classify d heavy xs c)) (?Q w) v" if "?Q w () v" for ev i c v
  proof (rule wp_seq [OF keepsD [OF audit_memory]], goal_cases)
    case (1 a u)
    from memory_within [OF this] have "?Q w () u" using that within_limit_trans [of w v u] by auto
    then show ?case by (rule next_one)
  qed
  obtain q s where c: "counts = (q, s)" by fastforce
  show ?case unfolding c classify.simps wp_if
  proof (split if_split, intro conjI impI)
    assume "di_Status x \<noteq> ''proposed''"
    show "wp (classify d heavy xs (q, s)) (?Q w) w" by (rule next_one) (simp add: within_limit_def)
  next
    assume "\<not> di_Status x \<noteq> ''proposed''"
    show "wp (au_ask au_cfg \<bind> (\<lambda>cfg. IsDuplicate d (''actuation:'' @ di_Type x @ '':'' @ di_ID x) (wrap64 (ac_DedupeActuation cfg * Hour)) \<bind>
      (\<lambda>repeated. if repeated then classify d heavy xs (q, s + 1)
        else if di_RequiresReview x then au_audit d ''autonomy.review_action_queued'' (di_ID x) \<bind> (\<lambda>_. classify d heavy xs (q + 1, s))
        else if heavy \<and> isHeavyAction (di_Type x) then classify d heavy xs (q, s + 1)
        else au_ask (\<lambda>w. rs_ActionsTakenThisCycle (au_state w)) \<bind> (\<lambda>taken.
          if ac_MaxActionsPerCycle cfg \<le> taken then classify d heavy xs (q, s + 1)
          else au_set (\<lambda>s. s\<lparr>rs_ActionsTakenThisCycle := rs_ActionsTakenThisCycle s + 1, rs_SafeActionsRouted := rs_SafeActionsRouted s + 1\<rparr>) \<bind>
            (\<lambda>_. au_audit d ''autonomy.safe_action_routed'' (di_ID x) \<bind> (\<lambda>_. classify d heavy xs (q, s))))))) (?Q w) w"
      unfolding wp_bind [of "au_ask au_cfg"] wp_au_ask
    proof (rule wp_seq [OF keepsD [OF duplicate_memory]], goal_cases)
      case (1 repeated v)
      then have m: "memory_of v = memory_of w" .
      note v = memory_within [OF m]
      have same: "au_state v = au_state w" using m by (simp add: memory_of_def)
      let ?u = "v\<lparr>au_state := (au_state v)\<lparr>rs_ActionsTakenThisCycle := rs_ActionsTakenThisCycle (au_state v) + 1,
        rs_SafeActionsRouted := rs_SafeActionsRouted (au_state v) + 1\<rparr>\<rparr>"
      have "?Q w () ?u" if "\<not> ac_MaxActionsPerCycle (au_cfg w) \<le> rs_ActionsTakenThisCycle (au_state v)"
        using that same v by (simp add: within_limit_def)
      then show ?case using next_one [of v] audited v
        by (cases heavy) (simp_all add: wp_bind [of "au_ask _"] wp_bind [of "au_set _"] wp_au_ask wp_au_set)
    qed
  qed
qed

text \<open>The second pass: a task is requested for proposed decisions that need no review, and for none when frozen.\<close>

definition safe_requests :: "'x auto_world \<Rightarrow> 'x auto_world \<Rightarrow> bool" where
  "safe_requests w w' \<longleftrightarrow> (\<exists>ys. au_created w' = au_created w @ ys \<and>
     (\<forall>y \<in> set ys. di_Status y = ''proposed'' \<and> \<not> di_RequiresReview y) \<and> (rs_Mode (au_state w) = AutonomyFrozen \<longrightarrow> ys = []))"

lemma safe_requests_trans:
  assumes "safe_requests u v" and "rs_Mode (au_state v) = rs_Mode (au_state u)" and "safe_requests v w"
  shows "safe_requests u w"
proof -
  obtain ys where ys: "au_created v = au_created u @ ys" "\<forall>y \<in> set ys. di_Status y = ''proposed'' \<and> \<not> di_RequiresReview y"
    "rs_Mode (au_state u) = AutonomyFrozen \<longrightarrow> ys = []" using assms(1) unfolding safe_requests_def by blast
  obtain zs where zs: "au_created w = au_created v @ zs" "\<forall>y \<in> set zs. di_Status y = ''proposed'' \<and> \<not> di_RequiresReview y"
    "rs_Mode (au_state v) = AutonomyFrozen \<longrightarrow> zs = []" using assms(3) unfolding safe_requests_def by blast
  show ?thesis unfolding safe_requests_def by (rule exI [of _ "ys @ zs"]) (use ys zs assms(2) in auto)
qed

text \<open>What the programs of a tick's cycles do to the runtime, in sum.\<close>

definition cycle_effect :: "'x auto_world \<Rightarrow> 'x auto_world \<Rightarrow> bool" where
  "cycle_effect w w' \<longleftrightarrow> within_limit w w' \<and> safe_requests w w' \<and> au_cfg w' = au_cfg w \<and> rs_Mode (au_state w') = rs_Mode (au_state w)"

lemma cycle_effect_trans: "cycle_effect u v \<Longrightarrow> cycle_effect v w \<Longrightarrow> cycle_effect u w"
  unfolding cycle_effect_def using within_limit_trans [of u v w] safe_requests_trans [of u v w] by auto

definition effects :: "('x, 'a) autonomy \<Rightarrow> bool" where
  "effects m \<longleftrightarrow> (\<forall>w. wp m (\<lambda>_ w'. cycle_effect w w') w)"

named_theorems effects_intros \<open>composition of programs with the effect of a cycle\<close>

lemma effectsD: "effects m \<Longrightarrow> run_state m w = (a, w') \<Longrightarrow> cycle_effect w w'"
  by (auto simp: effects_def wp_def dest!: spec [of _ w])

lemma effectsI: "(\<And>w a w'. run_state m w = (a, w') \<Longrightarrow> cycle_effect w w') \<Longrightarrow> effects m"
  by (auto simp: effects_def wp_def split: prod.splits)

lemma effects_bind [effects_intros]:
  assumes "effects m" and "\<And>a. effects (n a)"
  shows "effects (State_Monad.bind m n)"
proof (rule effectsI)
  fix w b w'
  assume r: "run_state (State_Monad.bind m n) w = (b, w')"
  obtain a v where v: "run_state m w = (a, v)" by fastforce
  then have "run_state (n a) v = (b, w')" using r by simp
  then show "cycle_effect w w'" using effectsD [OF assms(1) v] effectsD [OF assms(2)] cycle_effect_trans by blast
qed

lemma effects_if [effects_intros]: "(c \<Longrightarrow> effects m) \<Longrightarrow> (\<not> c \<Longrightarrow> effects n) \<Longrightarrow> effects (if c then m else n)"
  by simp

lemma effects_option [effects_intros]:
  "(x = None \<Longrightarrow> effects m) \<Longrightarrow> (\<And>y. x = Some y \<Longrightarrow> effects (n y)) \<Longrightarrow> effects (case x of None \<Rightarrow> m | Some y \<Rightarrow> n y)"
  by (cases x) simp_all

lemma effects_sum [effects_intros]: "(\<And>y. effects (m y)) \<Longrightarrow> (\<And>y. effects (n y)) \<Longrightarrow> effects (case x of Inl y \<Rightarrow> m y | Inr y \<Rightarrow> n y)"
  by (cases x) simp_all

lemma effects_prod [effects_intros]: "(\<And>a b. x = (a, b) \<Longrightarrow> effects (m a b)) \<Longrightarrow> effects (case x of (a, b) \<Rightarrow> m a b)"
  by (cases x) simp

lemma core_fields:
  "rs_Mode (core s) = rs_Mode s" "rs_OriginalMode (core s) = rs_OriginalMode s" "rs_Running (core s) = rs_Running s"
  "rs_LastCycleTimes (core s) = rs_LastCycleTimes s" "rs_ConsecutiveHealthy (core s) = rs_ConsecutiveHealthy s"
  "rs_ConsecutiveFailures (core s) = rs_ConsecutiveFailures s" "rs_Downgraded (core s) = rs_Downgraded s"
  by (simp_all add: core_def)

lemma frame_mode:
  assumes "frame_of w' = frame_of w"
  shows "au_cfg w' = au_cfg w" and "rs_Mode (au_state w') = rs_Mode (au_state w)"
  using assms core_fields(1) by (simp add: frame_of_def, metis frame_of_def prod.inject)

lemma effects_keeps:
  assumes "preserves frame_of m" and "preserves requested m"
  shows "effects m"
proof (rule effectsI)
  fix w a w'
  assume r: "run_state m w = (a, w')"
  from frame_mode [OF keeps_run [OF assms(1) r]] keeps_run [OF assms(2) r] show "cycle_effect w w'"
    by (simp add: cycle_effect_def within_limit_def safe_requests_def requested_def routed_counts_def)
qed

lemma effects_return [effects_intros]: "effects (State_Monad.return a)"
  by (rule effects_keeps) (rule keeps_return)+

lemma effects_ask [effects_intros]: "effects (au_ask g)"
  by (rule effects_keeps) (rule keeps_ask)+

lemma effects_call [effects_intros]: "effects (au_call g)"
  by (rule effects_keeps) (rule frame_call request_call)+

lemma effects_audit [effects_intros]: "effects (au_audit d ev about)"
  by (rule effects_keeps) (rule audit_frame)+

lemma effects_set [effects_intros]:
  "(\<And>s. routed_counts (g s) = routed_counts s) \<Longrightarrow> (\<And>s. rs_Mode (g s) = rs_Mode s) \<Longrightarrow> effects (au_set g)"
  by (simp add: effects_def wp_rules cycle_effect_def within_limit_def safe_requests_def routed_counts_def)

lemma effects_classify [effects_intros]: "effects (classify d heavy xs counts)"
proof (rule effectsI)
  fix w a w'
  assume r: "run_state (classify d heavy xs counts) w = (a, w')"
  have "within_limit w w' \<and> au_cfg w' = au_cfg w \<and> au_created w' = au_created w" by (rule wp_run [OF classify_within r])
  moreover have "rs_Mode (au_state w') = rs_Mode (au_state w)"
    using frame_mode(2) [OF keeps_run [OF frame.classify_kept r]] .
  ultimately show "cycle_effect w w'" by (simp add: cycle_effect_def safe_requests_def)
qed

lemma create_from_decision_effect:
  assumes "di_Status x = ''proposed''" "\<not> di_RequiresReview x" "rs_Mode (au_state w) \<noteq> AutonomyFrozen"
    and "run_state (create_from_decision d r x) w = (a, w')"
  shows "cycle_effect w w'"
proof -
  let ?v = "w\<lparr>au_created := au_created w @ [x]\<rparr>"
  have "run_state (request_task d r x) ?v = (a, w')" using assms(4) by (simp add: create_from_decision_def)
  moreover have "effects (request_task d r x)" unfolding request_task_def Let_def by (intro effects_intros)
  ultimately have "cycle_effect ?v w'" by (rule effectsD [rotated])
  moreover have "cycle_effect w ?v" using assms(1-3) by (simp add: cycle_effect_def within_limit_def safe_requests_def)
  ultimately show ?thesis using cycle_effect_trans by blast
qed

lemma materialize_one_effect:
  assumes "di_Status x = ''proposed''" "\<not> di_RequiresReview x"
  shows "effects (MaterializeDecisionAsTask d x)"
proof (cases "ap_taskOrchestrator d")
  case None
  then show ?thesis by (simp add: MaterializeDecisionAsTask_def effects_return)
next
  case (Some r)
  let ?find = "au_call (trn_FindByActuationDecision r (di_ID x))"
  let ?audit = "\<lambda>ev res. au_audit d ev (di_ID x) \<bind> (\<lambda>_. State_Monad.return (Inr res :: string + string \<times> bool))"
  show ?thesis
  proof (rule effectsI)
    fix w a w'
    assume m: "run_state (MaterializeDecisionAsTask d x) w = (a, w')"
    show "cycle_effect w w'"
    proof (cases "rs_Mode (au_state w) = AutonomyFrozen")
      case True
      then have "run_state (?audit ''actuation.task_blocked_by_governance'' ('''', False)) w = (a, w')"
        using m Some by (simp add: MaterializeDecisionAsTask_def au_mode_def au_ask_def)
      then show ?thesis by (rule effectsD [rotated]) (intro effects_intros)
    next
      case False
      obtain existing err v where v: "run_state ?find w = ((existing, err), v)" by (metis prod.exhaust)
      have e: "cycle_effect w v" by (rule effectsD [OF effects_call v])
      have rest: "run_state (if existing \<noteq> '''' then ?audit ''actuation.task_skipped_duplicate'' (existing, False)
          else create_from_decision d r x) v = (a, w')"
        using m False Some assms(2) v by (simp add: MaterializeDecisionAsTask_def au_mode_def au_ask_def)
      have "cycle_effect v w'"
      proof (cases "existing = ''''")
        case True
        have "rs_Mode (au_state v) \<noteq> AutonomyFrozen" using False e by (simp add: cycle_effect_def)
        then show ?thesis using create_from_decision_effect [OF assms] rest True by simp
      next
        case False
        then have "run_state (?audit ''actuation.task_skipped_duplicate'' (existing, False)) v = (a, w')" using rest by simp
        then show ?thesis by (rule effectsD [rotated]) (intro effects_intros)
      qed
      then show ?thesis using e cycle_effect_trans by blast
    qed
  qed
qed

lemma materialize_effect [effects_intros]: "effects (materialize d xs n)"
proof (induction xs arbitrary: n)
  case (Cons x xs)
  then show ?case unfolding materialize.simps
    by (intro effects_intros materialize_one_effect Cons) simp_all
qed (simp add: effects_return)

lemma actuation_effect: "effects (cycleActuation d)"
  unfolding cycleActuation_def Let_def by (intro effects_intros) (simp_all add: routed_counts_def)

lemma run_named_effect [effects_intros]: "effects (run_named d c)"
proof (cases "c = ''actuation''")
  case True
  then show ?thesis using actuation_effect by (simp add: run_named_def)
next
  case False
  then show ?thesis by (intro effects_keeps run_named_frame run_named_requests)
qed

lemma runCycle_effect: "effects (runCycle d c now)"
  unfolding runCycle_def by (intro effects_intros) (simp_all add: mark_run_def routed_counts_def)

lemma runCycles_effect: "effects (runCycles d now cs ok)"
  by (induction cs arbitrary: ok) (simp_all add: effects_return effects_bind runCycle_effect)

section \<open>When cycles run\<close>

text \<open>Only the control of the runtime changes what the cycles need: outside of them a tick leaves requests alone.\<close>

lemma downgrade_requests: "preserves (\<lambda>w. (requested w, au_cfg w)) (downgrade d reason)"
  by (auto simp: preserves_def downgrade_def au_audit_def wp_rules requested_def routed_counts_def split: option.splits)

lemma heavy_requests: "preserves (\<lambda>w. (requested w, au_cfg w)) (disableHeavyActions d reason)"
  by (auto simp: preserves_def disableHeavyActions_def au_audit_def wp_rules requested_def routed_counts_def split: option.splits)

lemma recovery_requests: "preserves (\<lambda>w. (requested w, au_cfg w)) (checkRecovery d)"
  by (auto simp: preserves_def checkRecovery_def au_audit_def wp_rules requested_def routed_counts_def recovered_def split: option.splits)

lemma call_requests: "preserves (\<lambda>w. (requested w, au_cfg w)) (au_call g)"
  by (auto simp: preserves_def au_call_def wp_rules requested_def split: prod.splits)

lemma checks_requests: "preserves (\<lambda>w. (requested w, au_cfg w)) (runSafetyChecks d)"
  unfolding runSafetyChecks_def by (intro keeps_intros downgrade_requests heavy_requests call_requests)

lemma cleanup_requests: "preserves (\<lambda>w. (requested w, au_cfg w)) (dedupe_Cleanup d age)"
  by (simp add: preserves_def dedupe_Cleanup_def wp_rules requested_def)

definition tick_result :: "'x auto_world \<Rightarrow> 'x auto_world \<Rightarrow> bool" where
  "tick_result w w' \<longleftrightarrow>
     au_cfg w' = au_cfg w \<and>
     rs_SafeActionsRouted (au_state w) \<le> rs_SafeActionsRouted (au_state w') \<and>
     rs_SafeActionsRouted (au_state w') \<le> rs_SafeActionsRouted (au_state w) + max 0 (ac_MaxActionsPerCycle (au_cfg w)) \<and>
     (\<exists>ys. au_created w' = au_created w @ ys \<and> (\<forall>y \<in> set ys. di_Status y = ''proposed'' \<and> \<not> di_RequiresReview y))"

lemma requests_result: "(requested w', au_cfg w') = (requested w, au_cfg w) \<Longrightarrow> tick_result w w'"
  by (simp add: tick_result_def requested_def routed_counts_def)

lemma tick_body_result: "wp (tick_body d now inWindow) (\<lambda>_ w'. tick_result w w') w"
  unfolding tick_body_def
proof (rule wp_seq [OF keepsD [OF cleanup_requests]], rule wp_seq [OF keepsD [OF checks_requests]], goal_cases)
  case (1 a u b v)
  then have s: "(requested v, au_cfg v) = (requested w, au_cfg w)" by simp
  let ?cs = "dueCycles d (au_cfg v) (au_state v) now inWindow"
  let ?v = "v\<lparr>au_state := (au_state v)\<lparr>rs_ActionsTakenThisCycle := 0\<rparr>\<rparr>"
  have run: "wp (runCycles d now ?cs True) (\<lambda>ok t. cycle_effect ?v t) ?v"
    using runCycles_effect [of d now ?cs True] unfolding effects_def by blast
  have fin: "preserves (\<lambda>w. (requested w, au_cfg w)) (au_set (count_outcome d ok now) \<bind> (\<lambda>_. au_ask (\<lambda>w. rs_ConsecutiveFailures (au_state w)) \<bind>
      (\<lambda>failures. (if lim \<le> failures then downgrade d ''max_consecutive_failed_cycles reached'' else State_Monad.return ()) \<bind>
      (\<lambda>_. checkRecovery d \<bind> (\<lambda>_. State_Monad.return (Ran cs))))))" for ok lim cs
    by (intro keeps_intros downgrade_requests recovery_requests) (simp add: preserves_def wp_rules count_outcome_def requested_def routed_counts_def)
  have done_all: "tick_result w w'" if "cycle_effect ?v t" "(requested w', au_cfg w') = (requested t, au_cfg t)" for t w'
    using that s by (auto simp: cycle_effect_def within_limit_def safe_requests_def tick_result_def requested_def routed_counts_def)
  have "wp (runCycles d now ?cs True \<bind> (\<lambda>ok. au_set (count_outcome d ok now) \<bind> (\<lambda>_. au_ask (\<lambda>w. rs_ConsecutiveFailures (au_state w)) \<bind>
      (\<lambda>failures. (if ac_MaxConsecutiveFailedCycles (au_cfg v) \<le> failures then downgrade d ''max_consecutive_failed_cycles reached''
         else State_Monad.return ()) \<bind> (\<lambda>_. checkRecovery d \<bind> (\<lambda>_. State_Monad.return (Ran ?cs))))))) (\<lambda>_ w'. tick_result w w') ?v"
    by (rule wp_seq [OF run], rule wp_mono [OF keepsD [OF fin]]) (rule done_all)
  then show ?case using requests_result [OF s] by (simp add: wp_bind [of "au_ask _"] wp_bind [of "au_set _"] wp_au_ask wp_au_set wp_return Let_def)
qed

definition cycle_times :: "'x auto_world \<Rightarrow> string \<rightharpoonup> time" where
  "cycle_times w = rs_LastCycleTimes (au_state w)"

lemma frame_times: "frame_of w' = frame_of w \<Longrightarrow> cycle_times w' = cycle_times w"
  unfolding frame_of_def cycle_times_def by (metis core_fields(4) prod.inject)

lemma control_times:
  "preserves cycle_times (downgrade d reason)" "preserves cycle_times (disableHeavyActions d reason)" "preserves cycle_times (checkRecovery d)"
  "preserves cycle_times (au_call g)" "preserves cycle_times (dedupe_Cleanup d age)"
  by (auto simp: preserves_def downgrade_def disableHeavyActions_def checkRecovery_def recovered_def dedupe_Cleanup_def au_call_def
      au_audit_def wp_rules cycle_times_def split: option.splits prod.splits)

lemma checks_times: "preserves cycle_times (runSafetyChecks d)"
  unfolding runSafetyChecks_def by (intro keeps_intros control_times)

lemma runCycle_times: "wp (runCycle d c now) (\<lambda>_ w'. cycle_times w' = (cycle_times w)(c \<mapsto> now)) w"
  unfolding runCycle_def
proof (rule wp_seq [OF keepsD [OF audit_frame(1)]], rule wp_seq [OF keepsD [OF run_named_frame]], goal_cases)
  case (1 a u err v)
  then have "cycle_times v = cycle_times w" using frame_times by metis
  moreover have "preserves cycle_times (au_audit d ev i \<bind> (\<lambda>_. State_Monad.return err))" for ev i
    by (auto simp: preserves_def au_audit_def wp_rules cycle_times_def split: option.splits)
  ultimately show ?case unfolding wp_bind [of "au_set _"] wp_au_set
    by (intro wp_mono [OF keepsD]) (auto simp: cycle_times_def mark_run_def)
qed

lemma runCycles_times: "wp (runCycles d now cs ok) (\<lambda>_ w'. cycle_times w' = fold (\<lambda>c m. m(c \<mapsto> now)) cs (cycle_times w)) w"
proof (induction cs arbitrary: ok w)
  case Nil
  then show ?case by (simp add: wp_return)
next
  case (Cons c cs)
  show ?case unfolding runCycles.simps
  proof (rule wp_seq [OF runCycle_times], goal_cases)
    case (1 err v)
    then show ?case using Cons.IH [of "ok \<and> err = None" v] by simp
  qed
qed

lemma fold_times: "fold (\<lambda>c m. m(c \<mapsto> now)) cs m = (\<lambda>c. if c \<in> set cs then Some now else m c)"
  by (induction cs arbitrary: m) (auto simp: fun_eq_iff)

lemma due_times: "cycle_times v = cycle_times w \<Longrightarrow> dueCycles d c (au_state v) now inWindow = dueCycles d c (au_state w) now inWindow"
  by (simp add: dueCycles_def is_due_def [abs_def] cycle_times_def)

lemma tick_body_times:
  fixes w :: "'x auto_world" and d :: "'x auto_deps" and now :: time and inWindow :: bool
  defines "cs \<equiv> dueCycles d (au_cfg w) (au_state w) now inWindow"
  shows "wp (tick_body d now inWindow) (\<lambda>e w'. e = (if cs = [] then Idle_Tick else Ran cs) \<and>
    cycle_times w' = (\<lambda>c. if c \<in> set cs then Some now else cycle_times w c)) w"
  (is "wp _ ?Q w")
  unfolding tick_body_def
proof (rule wp_seq [OF keepsD [OF keeps_pair [OF control_times(5) cleanup_requests]]],
    rule wp_seq [OF keepsD [OF keeps_pair [OF checks_times checks_requests]]], goal_cases)
  case (1 a u b v)
  then have s: "cycle_times v = cycle_times w" "au_cfg v = au_cfg w" by simp_all
  have cs: "dueCycles d (au_cfg v) (au_state v) now inWindow = cs" unfolding s(2) cs_def by (rule due_times [OF s(1)])
  let ?v = "v\<lparr>au_state := (au_state v)\<lparr>rs_ActionsTakenThisCycle := 0\<rparr>\<rparr>"
  have fin: "preserves cycle_times (au_set (count_outcome d ok now) \<bind> (\<lambda>_. au_ask (\<lambda>w. rs_ConsecutiveFailures (au_state w)) \<bind>
      (\<lambda>failures. (if lim \<le> failures then downgrade d ''max_consecutive_failed_cycles reached'' else State_Monad.return ()) \<bind>
      (\<lambda>_. checkRecovery d))))" for ok lim
    by (intro keeps_intros control_times) (simp add: preserves_def wp_rules count_outcome_def cycle_times_def)
  have "wp (runCycles d now cs True \<bind> (\<lambda>ok. (au_set (count_outcome d ok now) \<bind> (\<lambda>_. au_ask (\<lambda>w. rs_ConsecutiveFailures (au_state w)) \<bind>
      (\<lambda>failures. (if ac_MaxConsecutiveFailedCycles (au_cfg v) \<le> failures then downgrade d ''max_consecutive_failed_cycles reached''
         else State_Monad.return ()) \<bind> (\<lambda>_. checkRecovery d)))) \<bind> (\<lambda>_. State_Monad.return (Ran cs)))) ?Q ?v" if "cs \<noteq> []"
  proof (rule wp_seq [OF runCycles_times], rule wp_seq [OF keepsD [OF fin]], goal_cases)
    case (1 ok t a w')
    have "cycle_times ?v = cycle_times w" using s(1) by (simp add: cycle_times_def)
    then have "cycle_times w' = (\<lambda>c. if c \<in> set cs then Some now else cycle_times w c)" using 1 by (simp add: fold_times)
    then show ?case using that by (simp add: wp_return)
  qed
  then show ?case using s(1)
    by (simp add: cs wp_bind [of "au_ask _"] wp_bind [of "au_set _"] wp_au_ask wp_au_set wp_return wp_bind Let_def)
qed

section \<open>Which cycles are started\<close>

text \<open>The cycles that the audit names as started, in order.\<close>

definition started :: "'x auto_world \<Rightarrow> string list" where
  "started w = map snd (filter (\<lambda>e. fst e = ''autonomy.cycle_started'') (au_events w))"

interpretation starts: kept_by_actuation d started for d :: "'x auto_deps"
  by unfold_locales (simp_all add: started_def)

lemma call_started: "preserves started (au_call g)"
  by (simp add: preserves_def au_call_def wp_rules started_def split: prod.splits)

lemma set_started: "preserves started (au_set g)"
  by (simp add: preserves_def wp_rules started_def)

lemma run_named_started: "preserves started (run_named d c)"
proof -
  have "preserves started (cycleActuation d)" unfolding cycleActuation_def Let_def
    by (intro keeps_intros call_started set_started starts.classify_kept starts.materialize_kept)
  then show ?thesis unfolding run_named_def by (intro keeps_if keeps_return starts.cycles_kept)
qed

lemma control_started:
  "preserves started (downgrade d reason)" "preserves started (disableHeavyActions d reason)" "preserves started (checkRecovery d)"
  "preserves started (dedupe_Cleanup d age)"
proof -
  show "preserves started (downgrade d reason)" unfolding downgrade_def
    by (intro keeps_intros starts.audit_kept set_started) simp_all
  show "preserves started (disableHeavyActions d reason)" unfolding disableHeavyActions_def
    by (intro keeps_intros starts.audit_kept set_started) simp_all
  show "preserves started (checkRecovery d)" unfolding checkRecovery_def
    by (intro keeps_intros starts.audit_kept set_started) simp_all
  show "preserves started (dedupe_Cleanup d age)" by (simp add: preserves_def dedupe_Cleanup_def wp_rules started_def)
qed

lemma checks_started: "preserves started (runSafetyChecks d)"
  unfolding runSafetyChecks_def by (intro keeps_intros control_started call_started)

lemma runCycles_started:
  assumes "ap_auditor d = Some record_ok" and "\<And>n. record_ok n"
  shows "wp (runCycles d now cs ok) (\<lambda>_ w'. started w' = started w @ cs) w"
proof (induction cs arbitrary: ok w)
  case (Cons c cs)
  have one: "wp (runCycle d c now) (\<lambda>_ w'. started w' = started w @ [c]) w"
  proof -
    have "preserves started (run_named d c \<bind> (\<lambda>err. au_set (mark_run c now) \<bind> (\<lambda>_. au_audit d ''autonomy.cycle_completed'' c \<bind>
        (\<lambda>_. State_Monad.return err))))"
      by (intro keeps_intros run_named_started set_started starts.audit_kept) simp
    moreover have "wp (au_audit d ''autonomy.cycle_started'' c) (\<lambda>_ v. started v = started w @ [c]) w"
      using assms by (simp add: au_audit_def wp_rules started_def)
    ultimately show ?thesis unfolding runCycle_def by (intro wp_seq keeps_value)
  qed
  show ?case unfolding runCycles.simps by (rule wp_seq [OF one], rule wp_mono [OF Cons.IH]) simp
qed (simp add: wp_return)

lemma tick_body_started:
  fixes w :: "'x auto_world" and d :: "'x auto_deps" and now :: time and inWindow :: bool
  assumes "ap_auditor d = Some record_ok" and "\<And>n. record_ok n"
  shows "wp (tick_body d now inWindow) (\<lambda>_ w'. started w' = started w @ dueCycles d (au_cfg w) (au_state w) now inWindow) w"
  unfolding tick_body_def
proof (rule wp_seq [OF keepsD [OF keeps_pair [OF keeps_pair [OF control_times(5) cleanup_requests] control_started(4)]]],
    rule wp_seq [OF keepsD [OF keeps_pair [OF keeps_pair [OF checks_times checks_requests] checks_started]]], goal_cases)
  case (1 a u b v)
  then have s: "cycle_times v = cycle_times w" "au_cfg v = au_cfg w" "started v = started w" by simp_all
  let ?cs = "dueCycles d (au_cfg w) (au_state w) now inWindow"
  have cs: "dueCycles d (au_cfg w) (au_state v) now inWindow = ?cs" by (rule due_times [OF s(1)])
  let ?v = "v\<lparr>au_state := (au_state v)\<lparr>rs_ActionsTakenThisCycle := 0\<rparr>\<rparr>"
  have "preserves started (au_set (count_outcome d ok now) \<bind> (\<lambda>_. au_ask (\<lambda>w. rs_ConsecutiveFailures (au_state w)) \<bind>
      (\<lambda>failures. (if lim \<le> failures then downgrade d ''max_consecutive_failed_cycles reached'' else State_Monad.return ()) \<bind>
      (\<lambda>_. checkRecovery d \<bind> (\<lambda>_. State_Monad.return (Ran ?cs))))))" for ok lim
    by (intro keeps_intros control_started set_started)
  moreover have "started ?v = started w" using s(3) by (simp add: started_def)
  ultimately have "wp (runCycles d now ?cs True \<bind> (\<lambda>ok. au_set (count_outcome d ok now) \<bind> (\<lambda>_. au_ask (\<lambda>w. rs_ConsecutiveFailures (au_state w)) \<bind>
      (\<lambda>failures. (if ac_MaxConsecutiveFailedCycles (au_cfg w) \<le> failures then downgrade d ''max_consecutive_failed_cycles reached''
         else State_Monad.return ()) \<bind> (\<lambda>_. checkRecovery d \<bind> (\<lambda>_. State_Monad.return (Ran ?cs)))))))
      (\<lambda>_ w'. started w' = started w @ ?cs) ?v"
    using runCycles_started [OF assms, of now ?cs True ?v] by (intro wp_seq keeps_value) simp_all
  then show ?case using s(3)
    by (simp add: cs s(2) wp_bind [of "au_ask _"] wp_bind [of "au_set _"] wp_au_ask wp_au_set wp_return Let_def)
qed

text \<open>
  The specification: the twelve cycles in their order, the setting or the engine that a cycle needs, and the three
  that may run at any hour.
\<close>

definition cycle_order :: "string list" where
  "cycle_order = [''reflection'', ''objective'', ''actuation'', ''scheduling'', ''portfolio'', ''discovery'', ''self_extension'',
     ''task_recompute'', ''task_dispatch'', ''goal_planning'', ''goal_replanning'', ''reporting'']"

definition switched_on :: "auto_config \<Rightarrow> 'x auto_deps \<Rightarrow> string \<Rightarrow> bool" where
  "switched_on c d n \<longleftrightarrow>
     (n = ''reflection'' \<longrightarrow> ac_AllowReflection c) \<and> (n = ''objective'' \<longrightarrow> ac_AllowObjectiveRecompute c) \<and>
     (n = ''actuation'' \<longrightarrow> ac_ActuationEnabled c \<and> ac_AllowRun c) \<and> (n = ''scheduling'' \<longrightarrow> ac_SchedulingEnabled c \<and> ac_AllowRecompute c) \<and>
     (n = ''portfolio'' \<longrightarrow> ac_AllowPortfolioRebalance c) \<and> (n = ''discovery'' \<longrightarrow> ac_AllowDiscovery c) \<and>
     (n = ''self_extension'' \<longrightarrow> ac_SelfExtEnabled c) \<and> (n \<in> {''task_recompute'', ''task_dispatch''} \<longrightarrow> ap_taskOrchestrator d \<noteq> None) \<and>
     (n = ''goal_planning'' \<longrightarrow> ap_goalPlanning d \<noteq> None) \<and> (n = ''goal_replanning'' \<longrightarrow> ap_goalReplanning d \<noteq> None) \<and>
     (n = ''reporting'' \<longrightarrow> ac_ReportingEnabled c)"

definition elapsed :: "auto_config \<Rightarrow> runtime_state \<Rightarrow> time \<Rightarrow> string \<Rightarrow> bool" where
  "elapsed c s now n \<longleftrightarrow> (\<forall>t. rs_LastCycleTimes s n = Some t \<longrightarrow> CycleDuration c n \<le> time_Sub now t)"

lemma due_names: "map fst (allCycles c d) = cycle_order"
  by (simp add: allCycles_def cycle_order_def)

lemma due_in_order: "subseq (dueCycles d c s now inWindow) cycle_order"
  unfolding dueCycles_def due_names [of c d, symmetric] by (intro subseq_map subseq_filter_left)

lemma cycle_entries:
  "\<forall>(n, b, win) \<in> set (allCycles c d). b = switched_on c d n \<and> win = (n \<notin> {''reflection'', ''objective'', ''reporting''})"
  by (simp add: allCycles_def switched_on_def)

lemma due_iff:
  "n \<in> set (dueCycles d c s now inWindow) \<longleftrightarrow>
     n \<in> set cycle_order \<and> switched_on c d n \<and> (inWindow \<or> n \<in> {''reflection'', ''objective'', ''reporting''}) \<and> elapsed c s now n"
  (is "?l = ?r")
proof -
  have due: "is_due c s now inWindow (n, b, win) \<longleftrightarrow> b \<and> (inWindow \<or> n \<in> {''reflection'', ''objective'', ''reporting''}) \<and> elapsed c s now n"
    if "(n, b, win) \<in> set (allCycles c d)" for b win
  proof -
    have "win = (n \<notin> {''reflection'', ''objective'', ''reporting''})" using bspec [OF cycle_entries that] by simp
    moreover have "n \<notin> {''reflection'', ''objective'', ''reporting''} \<Longrightarrow> \<not> isAllowedOutsideWindow c n" by (simp add: isAllowedOutsideWindow_def)
    ultimately show ?thesis unfolding is_due_def prod.case elapsed_def by (auto split: option.split)
  qed
  show ?thesis
  proof
    assume ?l
    then obtain b win where e: "(n, b, win) \<in> set (allCycles c d)" "is_due c s now inWindow (n, b, win)"
      by (auto simp: dueCycles_def)
    moreover have "n \<in> set cycle_order" unfolding due_names [of c d, symmetric] using e(1) by force
    moreover have "b = switched_on c d n" using bspec [OF cycle_entries e(1)] by simp
    ultimately show ?r using due by blast
  next
    assume r: ?r
    then obtain b win where e: "(n, b, win) \<in> set (allCycles c d)" unfolding due_names [of c d, symmetric] by force
    moreover from e have "b = switched_on c d n" using bspec [OF cycle_entries e] by simp
    ultimately have "is_due c s now inWindow (n, b, win)" using due r by blast
    then show ?l using e by (force simp: dueCycles_def)
  qed
qed

lemma valid_times: "isValidTime s \<Longrightarrow> \<exists>hm. parseHHMM s = Some hm"
  by (simp add: isValidTime_def parseHHMM_def Let_def split: if_splits)

lemma window_decided:
  assumes "config_Validate c = None"
  shows "\<exists>b. IsInsideWindow c hm = Some b"
proof (cases "ac_WindowEnabled c")
  case True
  then have "isValidTime (ac_WindowStart c)" "isValidTime (ac_WindowEnd c)"
    using assms by (auto simp: config_Validate_def config_errors_def Let_def split: if_splits)
  then obtain p q where "parseHHMM (ac_WindowStart c) = Some p" "parseHHMM (ac_WindowEnd c) = Some q" using valid_times by blast
  then show ?thesis using True by (cases p; cases q) (simp add: IsInsideWindow_def Let_def)
qed (auto simp: IsInsideWindow_def)

text \<open>Letters pass as digits: their bytes count from 48 on.\<close>

lemma letters_pass_as_time: "isValidTime ''0A:0k'' \<and> parseHHMM ''0A:0k'' = Some (17, 59)"
  by (simp add: isValidTime_def parseHHMM_def two_digits_def digit_value_def)

lemma tick_cases:
  assumes "run_state (auto_tick d) w = (e, w')"
  obtains (frozen) "rs_Mode (au_state w) = AutonomyFrozen" "e = Frozen_Tick" "w' = w"
  | (panic) "rs_Mode (au_state w) \<noteq> AutonomyFrozen" "IsInsideWindow (au_cfg w) (ap_wall d (ap_clock d (au_tick w))) = None" "e = Panicked" "w' = w\<lparr>au_tick := Suc (au_tick w)\<rparr>"
  | (body) inWindow where "rs_Mode (au_state w) \<noteq> AutonomyFrozen"
      "IsInsideWindow (au_cfg w) (ap_wall d (ap_clock d (au_tick w))) = Some inWindow"
      "run_state (tick_body d (ap_clock d (au_tick w)) inWindow) (w\<lparr>au_tick := Suc (au_tick w)\<rparr>) = (e, w')"
proof (cases "rs_Mode (au_state w) = AutonomyFrozen")
  case True
  then have "(e, w') = (Frozen_Tick, w)" using assms [symmetric] by (simp add: auto_tick_def au_mode_def au_ask_def)
  then show thesis using frozen True by blast
next
  case False
  let ?now = "ap_clock d (au_tick w)" and ?w = "w\<lparr>au_tick := Suc (au_tick w)\<rparr>"
  have r: "(e, w') = run_state (case IsInsideWindow (au_cfg w) (ap_wall d ?now) of None \<Rightarrow> State_Monad.return Panicked
      | Some inWindow \<Rightarrow> tick_body d ?now inWindow) ?w"
    using assms [symmetric] False by (simp add: auto_tick_def au_mode_def au_ask_def au_read_def)
  show thesis
  proof (cases "IsInsideWindow (au_cfg w) (ap_wall d ?now)")
    case None
    then show thesis using r panic False by simp
  next
    case (Some inWindow)
    then show thesis using r body [OF False Some] by simp
  qed
qed

section \<open>Downgrade and recovery\<close>

text \<open>What decides about a recovery, and is not touched before the cycles have been counted.\<close>

definition ctrl :: "'x auto_world \<Rightarrow> auto_config \<times> string \<times> int \<times> int" where
  "ctrl w = (au_cfg w, rs_OriginalMode (au_state w), rs_ConsecutiveHealthy (au_state w), rs_ConsecutiveFailures (au_state w))"

definition lock :: "'x auto_world \<Rightarrow> (auto_config \<times> string \<times> int \<times> int) \<times> bool" where
  "lock w = (ctrl w, rs_Downgraded (au_state w))"

lemma frame_lock:
  assumes "frame_of w' = frame_of w"
  shows "lock w' = lock w"
proof -
  have c: "core (au_state w') = core (au_state w)" "au_cfg w' = au_cfg w" using assms by (simp_all add: frame_of_def)
  have "rs_OriginalMode (au_state w') = rs_OriginalMode (au_state w)" "rs_Downgraded (au_state w') = rs_Downgraded (au_state w)"
    "rs_ConsecutiveHealthy (au_state w') = rs_ConsecutiveHealthy (au_state w)"
    "rs_ConsecutiveFailures (au_state w') = rs_ConsecutiveFailures (au_state w)"
    using c(1) core_fields(2,5,6,7) by metis+
  then show ?thesis using c(2) by (simp add: lock_def ctrl_def)
qed

lemma heavy_lock: "preserves lock (disableHeavyActions d reason)"
  by (auto simp: preserves_def disableHeavyActions_def au_audit_def wp_rules lock_def ctrl_def split: option.splits)

lemma call_lock: "preserves lock (au_call g)"
  by (auto simp: preserves_def au_call_def wp_rules lock_def ctrl_def split: prod.splits)

lemma downgrade_locks: "wp (downgrade d reason) (\<lambda>_ v. lock v = (ctrl w, True)) w"
  by (auto simp: downgrade_def au_audit_def wp_rules lock_def ctrl_def split: option.splits)

lemma runCycle_lock: "preserves lock (runCycle d c now)"
  unfolding preserves_def runCycle_def
proof (intro allI, rule wp_seq [OF keepsD [OF audit_frame(1)]], rule wp_seq [OF keepsD [OF run_named_frame]], goal_cases)
  case (1 w a u err v)
  then have "lock v = lock w" using frame_lock by metis
  moreover have "preserves lock (au_audit d ev i \<bind> (\<lambda>_. State_Monad.return err))" for ev i
    by (auto simp: preserves_def au_audit_def wp_rules lock_def ctrl_def split: option.splits)
  ultimately show ?case unfolding wp_bind [of "au_set _"] wp_au_set
    by (intro wp_mono [OF keepsD]) (auto simp: lock_def ctrl_def mark_run_def)
qed

lemma runCycles_lock: "preserves lock (runCycles d now cs ok)"
  by (induction cs arbitrary: ok) (simp_all add: keeps_return keeps_bind runCycle_lock)

lemma checks_lock:
  assumes "ac_AutoDowngrade (au_cfg w)" and "ap_pressure d = Some get" and "fle (ac_Pressure (au_cfg w)) (fst (fst (get (au_x w))))"
  shows "wp (runSafetyChecks d) (\<lambda>_ v. lock v = (ctrl w, True)) w"
proof -
  obtain sc ur x where g: "get (au_x w) = ((sc, ur), x)" by (metis prod.exhaust)
  let ?w = "w\<lparr>au_x := x\<rparr>"
  have rest: "wp (downgrade d t \<bind> (\<lambda>_. case ap_capacity d of None \<Rightarrow> State_Monad.return ()
      | Some get \<Rightarrow> au_call get \<bind> (\<lambda>load. if fle (ac_Overload (au_cfg w)) load then disableHeavyActions d (h load) else State_Monad.return ())))
      (\<lambda>_ v. lock v = (ctrl w, True)) ?w" for t and h :: "f64 \<Rightarrow> string"
  proof (rule wp_seq [OF downgrade_locks], goal_cases)
    case (1 a v)
    then have "lock v = (ctrl w, True)" by (simp add: ctrl_def)
    moreover have "preserves lock (case ap_capacity d of None \<Rightarrow> State_Monad.return ()
      | Some get \<Rightarrow> au_call get \<bind> (\<lambda>load. if fle (ac_Overload (au_cfg w)) load then disableHeavyActions d (h load) else State_Monad.return ()))"
      by (intro keeps_intros call_lock heavy_lock)
    ultimately show ?case by (rule keeps_value [rotated])
  qed
  show ?thesis using assms g rest
    by (simp add: runSafetyChecks_def wp_bind [of "au_ask _"] wp_au_ask wp_bind au_call_def wp_State)
qed

lemma recovery_lifts:
  assumes "lock t = ((cfg, orig, healthy, failures), True)" and "ac_AutoRestorePrevMode cfg" and "ac_RequireConsecutiveHealthy cfg \<le> healthy + 1"
    and "0 < ac_MaxConsecutiveFailedCycles cfg" and "0 \<le> failures"
  shows "wp (au_set (count_outcome d ok now) \<bind> (\<lambda>_. au_ask (\<lambda>w. rs_ConsecutiveFailures (au_state w)) \<bind>
      (\<lambda>failures. (if ac_MaxConsecutiveFailedCycles cfg \<le> failures then downgrade d reason else State_Monad.return ()) \<bind>
      (\<lambda>_. checkRecovery d \<bind> (\<lambda>_. State_Monad.return e)))))
    (\<lambda>_ w'. rs_ConsecutiveFailures (au_state w') = 0 \<longrightarrow> rs_Mode (au_state w') = orig \<and> \<not> rs_Downgraded (au_state w')) t"
proof (cases ok)
  case True
  then show ?thesis using assms
    by (auto simp: wp_rules count_outcome_def checkRecovery_def recovered_def au_audit_def lock_def ctrl_def split: option.splits)
next
  case False
  then show ?thesis using assms
    by (auto simp: wp_rules count_outcome_def checkRecovery_def recovered_def au_audit_def downgrade_def lock_def ctrl_def split: option.splits)
qed

lemma tick_lifts_downgrade:
  assumes "ac_AutoDowngrade (au_cfg w)" and "ap_pressure d = Some get" and "fle (ac_Pressure (au_cfg w)) (fst (fst (get (au_x w))))"
    and "ac_AutoRestorePrevMode (au_cfg w)" and "ac_RequireConsecutiveHealthy (au_cfg w) \<le> rs_ConsecutiveHealthy (au_state w) + 1"
    and "0 < ac_MaxConsecutiveFailedCycles (au_cfg w)" and "0 \<le> rs_ConsecutiveFailures (au_state w)"
  shows "wp (tick_body d now inWindow) (\<lambda>e w'. \<forall>cs. e = Ran cs \<longrightarrow> rs_ConsecutiveFailures (au_state w') = 0 \<longrightarrow>
      rs_Mode (au_state w') = rs_OriginalMode (au_state w) \<and> \<not> rs_Downgraded (au_state w')) w"
  unfolding tick_body_def
proof (rule wp_seq [of _ "\<lambda>_ u. ctrl u = ctrl w \<and> au_x u = au_x w"], goal_cases)
  case 1
  then show ?case by (simp add: dedupe_Cleanup_def wp_rules ctrl_def)
next
  case (2 a u)
  then have u: "au_cfg u = au_cfg w" "ctrl u = ctrl w" "au_x u = au_x w" by (simp_all add: ctrl_def)
  have ch: "wp (runSafetyChecks d) (\<lambda>_ v. lock v = (ctrl w, True)) u" using checks_lock [of u d get] assms(1-3) u by simp
  show ?case
  proof (rule wp_seq [OF ch], goal_cases)
    case (1 b v)
    then have v: "lock v = (ctrl w, True)" "au_cfg v = au_cfg w" by (auto simp: lock_def ctrl_def)
    let ?v = "v\<lparr>au_state := (au_state v)\<lparr>rs_ActionsTakenThisCycle := 0\<rparr>\<rparr>"
    have "wp (runCycles d now cs True \<bind> (\<lambda>ok. au_set (count_outcome d ok now) \<bind> (\<lambda>_. au_ask (\<lambda>w. rs_ConsecutiveFailures (au_state w)) \<bind>
        (\<lambda>failures. (if ac_MaxConsecutiveFailedCycles (au_cfg w) \<le> failures then downgrade d ''max_consecutive_failed_cycles reached''
           else State_Monad.return ()) \<bind> (\<lambda>_. checkRecovery d \<bind> (\<lambda>_. State_Monad.return (Ran cs)))))))
        (\<lambda>_ w'. rs_ConsecutiveFailures (au_state w') = 0 \<longrightarrow> rs_Mode (au_state w') = rs_OriginalMode (au_state w) \<and> \<not> rs_Downgraded (au_state w')) ?v" for cs
    proof (rule wp_seq [OF keepsD [OF runCycles_lock]], goal_cases)
      case (1 ok t)
      then have "lock t = (ctrl w, True)" using v(1) by (simp add: lock_def ctrl_def)
      then show ?case using recovery_lifts [of t "au_cfg w" "rs_OriginalMode (au_state w)" "rs_ConsecutiveHealthy (au_state w)"
          "rs_ConsecutiveFailures (au_state w)"] assms(4-7) by (simp add: ctrl_def)
    qed
    from wp_mono [OF this, of "\<lambda>e w'. \<forall>cs. e = Ran cs \<longrightarrow> rs_ConsecutiveFailures (au_state w') = 0 \<longrightarrow>
      rs_Mode (au_state w') = rs_OriginalMode (au_state w) \<and> \<not> rs_Downgraded (au_state w')"]
    show ?case using v(2)
      by (simp add: wp_bind [of "au_ask _"] wp_bind [of "au_set _"] wp_au_ask wp_au_set wp_return Let_def)
  qed
qed

section \<open>Properties\<close>

text \<open>A runtime that reports each hour, with one decision to act upon, a pressure at the threshold and nothing else.\<close>

definition sample_cycles :: cycles_cfg where
  "sample_cycles =
     \<lparr>cy_ReflectionHours = 1, cy_ObjectiveHours = 1, cy_ActuationHours = 1, cy_ActuationPrioHours = 1, cy_SchedulingHours = 1,
      cy_PortfolioHours = 1, cy_DiscoveryHours = 1, cy_PricingPerfHours = 1, cy_SelfExtHours = 1, cy_TaskRecomputeHours = 1,
      cy_TaskDispatchHours = 1, cy_GoalPlanningHours = 1, cy_GoalReplanHours = 1, cy_ReportingHours = 1\<rparr>"

definition sample_config :: auto_config where
  "sample_config =
     \<lparr>ac_Mode = ModeAutonomous, ac_StartupMode = '''', ac_AllowReflection = False, ac_AllowObjectiveRecompute = False,
      ac_AllowPortfolioRebalance = False, ac_AllowDiscovery = False, ac_SchedulerEnabled = True, ac_TickSeconds = 60,
      ac_Cycles = sample_cycles, ac_RunReflectionOnce = False, ac_RunObjectiveOnce = False, ac_RunActuationOnce = False,
      ac_RunReportingOnce = False, ac_WindowEnabled = True, ac_WindowStart = ''22:00'', ac_WindowEnd = ''06:00'',
      ac_OutsideReflection = False, ac_OutsideObjective = False, ac_OutsideReporting = False, ac_MaxActionsPerCycle = 1,
      ac_MaxConsecutiveFailedCycles = 3, ac_DedupeActuation = 24, ac_DedupeSelfExtension = 24, ac_AutoDowngrade = True,
      ac_DowngradeMode = '''', ac_FailureRate = Fin 1, ac_Overload = Fin 1, ac_Pressure = Fin 1, ac_RequireConsecutiveHealthy = 3,
      ac_AutoRestorePrevMode = True, ac_SchedulingEnabled = False, ac_AllowRecompute = False, ac_SelfExtEnabled = False,
      ac_AutoDeployEnabled = False, ac_OnlyLowRisk = True, ac_ActuationEnabled = True, ac_AllowRun = True, ac_ReportingEnabled = True\<rparr>"

definition sample_actuation :: "unit actuation_runner" where
  "sample_actuation =
     \<lparr>arn_Run = (\<lambda>x. (Inr (0, 0), x)),
      arn_ListDecisions = (\<lambda>_ x. (Inr (map (\<lambda>i. \<lparr>di_ID = i, di_Type = ''reduce_load'', di_Status = ''proposed'', di_RequiresReview = False,
        di_Priority = Fin 1, di_ProposedAt = 0\<rparr>) [''a'', ''b'']), x))\<rparr>"

definition sample_deps :: "unit auto_deps" where
  "sample_deps =
     \<lparr>ap_clock = (\<lambda>n. int n), ap_wall = (\<lambda>_. (23, 0)), ap_rfc3339 = (\<lambda>_. ''''), ap_newUUID = nat_str, ap_auditor = None,
      ap_reflection = None, ap_objective = None, ap_actuation = Some sample_actuation,
      ap_scheduling = None, ap_portfolio = None, ap_discovery = None, ap_selfExt = None,
      ap_pressure = Some (\<lambda>x. ((Fin 1, ''high''), x)), ap_capacity = None, ap_governance = None, ap_taskOrchestrator = None,
      ap_executionLoop = None, ap_feedbackStore = None, ap_goalPlanning = None, ap_goalReplanning = None\<rparr>"

lemma sample_config_valid: "config_Validate sample_config = None"
  by (simp add: config_Validate_def config_errors_def sample_config_def sample_cycles_def autonomyModes_def out_of_unit_def
      isValidTime_def two_digits_def digit_value_def fle_def feq_def)

lemma sample_window: "IsInsideWindow sample_config (23, 0) = Some True"
  by (simp add: IsInsideWindow_def sample_config_def parseHHMM_def two_digits_def digit_value_def)

lemma sample_due: "dueCycles sample_deps sample_config (newRuntimeState ModeAutonomous) 0 True = [''actuation'', ''reporting'']"
  by (simp add: dueCycles_def allCycles_def is_due_def sample_config_def sample_deps_def newRuntimeState_def)

definition sample_world :: "int \<Rightarrow> unit auto_world" where
  "sample_world healthy = (NewOrchestrator sample_config ())\<lparr>au_state := (newRuntimeState ModeAutonomous)\<lparr>rs_ConsecutiveHealthy := healthy\<rparr>\<rparr>"

lemma sample_ticks:
  "\<exists>w'. run_state (auto_tick sample_deps) (sample_world n) = (Ran [''actuation'', ''reporting''], w')"
proof -
  obtain e w' where t: "run_state (auto_tick sample_deps) (sample_world n) = (e, w')" by fastforce
  then show ?thesis
  proof (cases rule: tick_cases)
    case (body inWindow)
    then have "inWindow = True" using sample_window by (simp add: sample_world_def NewOrchestrator_def sample_deps_def)
    let ?w = "(sample_world n)\<lparr>au_tick := Suc (au_tick (sample_world n))\<rparr>"
    have "dueCycles sample_deps (au_cfg ?w) (au_state ?w) 0 True = [''actuation'', ''reporting'']"
      unfolding sample_due [symmetric] sample_world_def NewOrchestrator_def by (simp add: dueCycles_def is_due_def [abs_def] newRuntimeState_def)
    then show ?thesis using wp_run [OF tick_body_times body(3)] \<open>inWindow = True\<close> t
      by (simp add: sample_deps_def sample_world_def NewOrchestrator_def)
  next
    case frozen
    then show ?thesis by (simp add: sample_world_def newRuntimeState_def ModeAutonomous_def AutonomyFrozen_def)
  next
    case panic
    then show ?thesis using sample_window by (simp add: sample_world_def NewOrchestrator_def sample_deps_def)
  qed
qed

text \<open>
  C33: A tick routes at most as many actions as the configuration allows for a cycle, whatever the actuation
  engine lists, and requests tasks only for listed decisions that are proposed and need no review; a tick of
  a frozen system does nothing at all.
\<close>

theorem tick_stays_within_its_limits:
  assumes "run_state (auto_tick d) w = (e, w')"
  shows "rs_SafeActionsRouted (au_state w) \<le> rs_SafeActionsRouted (au_state w') \<and>
    rs_SafeActionsRouted (au_state w') \<le> rs_SafeActionsRouted (au_state w) + max 0 (ac_MaxActionsPerCycle (au_cfg w)) \<and>
    (\<exists>ys. au_created w' = au_created w @ ys \<and> (\<forall>y \<in> set ys. di_Status y = ''proposed'' \<and> \<not> di_RequiresReview y)) \<and>
    (rs_Mode (au_state w) = AutonomyFrozen \<longrightarrow> w' = w)"
  using assms
proof (cases rule: tick_cases)
  case (body inWindow)
  from wp_run [OF tick_body_result body(3)] show ?thesis using body(1) by (simp add: tick_result_def)
qed simp_all

theorem tick_stays_within_its_limits_witness:
  "rs_SafeActionsRouted (au_state (snd (run_state (auto_tick sample_deps) (sample_world 0)))) \<le> 1"
proof -
  obtain e w' where r: "run_state (auto_tick sample_deps) (sample_world 0) = (e, w')" by fastforce
  show ?thesis using tick_stays_within_its_limits [OF r] r
    by (simp add: sample_world_def NewOrchestrator_def newRuntimeState_def sample_config_def)
qed

text \<open>
  C34: A tick of a system that is not frozen starts exactly the cycles that are switched on, that are inside the
  execution window or are reflection, objective or reporting, and that have not run within their period before; it
  starts each of them once, in the fixed order of the twelve cycles, as the audit records it when every record
  succeeds; and it notes the instant of the tick for them and for no other.
\<close>

theorem cycles_run_when_due:
  assumes "run_state (auto_tick d) w = (e, w')" and "now = ap_clock d (au_tick w)" and "rs_Mode (au_state w) \<noteq> AutonomyFrozen"
    and "IsInsideWindow (au_cfg w) (ap_wall d now) = Some inWindow" and "ap_auditor d = Some record_ok" and "\<And>n. record_ok n"
  shows "\<exists>cs. started w' = started w @ cs \<and> subseq cs cycle_order \<and>
    (\<forall>c. c \<in> set cs \<longleftrightarrow> c \<in> set cycle_order \<and> switched_on (au_cfg w) d c \<and>
       (inWindow \<or> c \<in> {''reflection'', ''objective'', ''reporting''}) \<and>
       (\<forall>t. rs_LastCycleTimes (au_state w) c = Some t \<longrightarrow> CycleDuration (au_cfg w) c \<le> time_Sub now t)) \<and>
    (\<forall>c. rs_LastCycleTimes (au_state w') c = (if c \<in> set cs then Some now else rs_LastCycleTimes (au_state w) c))"
  using assms(1)
proof (cases rule: tick_cases)
  case (body inWindow')
  let ?cs = "dueCycles d (au_cfg w) (au_state w) now inWindow"
  have "inWindow' = inWindow" using body(2) assms(2,4) by simp
  then have t: "started w' = started w @ ?cs" "cycle_times w' = (\<lambda>c. if c \<in> set ?cs then Some now else cycle_times w c)"
    using wp_run [OF tick_body_started [OF assms(5,6)] body(3)] wp_run [OF tick_body_times body(3)]
    by (simp_all add: assms(2) cycle_times_def started_def cong: if_cong)
  then show ?thesis
    by (intro exI [of _ ?cs] conjI due_in_order allI due_iff [unfolded elapsed_def]) (simp_all add: cycle_times_def)
qed (use assms(2-4) in simp_all)

theorem cycles_run_when_due_witness:
  "\<exists>w'. snd (run_state (auto_tick (sample_deps\<lparr>ap_auditor := Some (\<lambda>_. True)\<rparr>)) (sample_world 0)) = w' \<and>
     ''actuation'' \<in> set (started w') \<and> ''reporting'' \<in> set (started w') \<and> ''discovery'' \<notin> set (started w') \<and>
     rs_LastCycleTimes (au_state w') ''reporting'' = Some 0"
proof -
  let ?d = "sample_deps\<lparr>ap_auditor := Some (\<lambda>_. True)\<rparr>"
  obtain e w' where r: "run_state (auto_tick ?d) (sample_world 0) = (e, w')" by fastforce
  have "rs_Mode (au_state (sample_world 0)) \<noteq> AutonomyFrozen" "IsInsideWindow (au_cfg (sample_world 0)) (ap_wall ?d 0) = Some True"
    "started (sample_world 0) = []" "ap_clock ?d (au_tick (sample_world 0)) = 0"
    using sample_window by (simp_all add: sample_world_def NewOrchestrator_def newRuntimeState_def ModeAutonomous_def AutonomyFrozen_def sample_deps_def started_def)
  note s = this
  have "switched_on (au_cfg (sample_world 0)) ?d ''actuation''" "switched_on (au_cfg (sample_world 0)) ?d ''reporting''"
    "\<not> switched_on (au_cfg (sample_world 0)) ?d ''discovery''" "rs_LastCycleTimes (au_state (sample_world 0)) c = None" for c
    by (simp_all add: switched_on_def sample_world_def NewOrchestrator_def newRuntimeState_def sample_config_def)
  moreover have "ap_auditor ?d = Some (\<lambda>_. True)" by simp
  from cycles_run_when_due [OF r s(4) [symmetric] s(1,2) this TrueI] obtain cs where "started w' = cs"
    "\<forall>c. c \<in> set cs \<longleftrightarrow> c \<in> set cycle_order \<and> switched_on (au_cfg (sample_world 0)) ?d c \<and>
       (\<forall>t. rs_LastCycleTimes (au_state (sample_world 0)) c = Some t \<longrightarrow> CycleDuration (au_cfg (sample_world 0)) c \<le> time_Sub 0 t)"
    "\<forall>c. rs_LastCycleTimes (au_state w') c = (if c \<in> set cs then Some 0 else rs_LastCycleTimes (au_state (sample_world 0)) c)"
    unfolding s(3) append_Nil simp_thms by blast
  moreover have "''actuation'' \<in> set cycle_order" "''reporting'' \<in> set cycle_order" by (simp_all add: cycle_order_def)
  ultimately show ?thesis using r by simp
qed

text \<open>
  C35: A runtime that starts from a configuration file it has loaded never panics in its loop, whatever the
  clock says and the engines answer.
\<close>

theorem loaded_configuration_never_panics:
  assumes "LoadAutonomyConfig readFile unmarshal path = Inr cfg"
  shows "Panicked \<notin> set (fst (run_state (auto_loop d ss) (NewOrchestrator cfg x)))"
proof -
  have v: "config_Validate cfg = None"
    using assms by (auto simp: LoadAutonomyConfig_def split: sum.splits option.splits)
  have "Panicked \<notin> set (fst (run_state (auto_loop d ss) w))" if "au_cfg w = cfg" for w
    using that
  proof (induction d ss arbitrary: w rule: auto_loop.induct)
    case (3 d ss)
    obtain e w' where t: "run_state (auto_tick d) w = (e, w')" by fastforce
    have "e \<noteq> Panicked \<and> au_cfg w' = cfg"
      using t
    proof (cases rule: tick_cases)
      case (body inWindow)
      then have "au_cfg w' = cfg" using wp_run [OF tick_body_result body(3)] 3(2) by (simp add: tick_result_def)
      moreover have "e \<noteq> Panicked" using wp_run [OF tick_body_times body(3)] by auto
      ultimately show ?thesis by simp
    qed (use window_decided [OF v, of "ap_wall d (ap_clock d (au_tick w))"] 3(2) in auto)
    then show ?case using 3(1) [of e w'] t by (auto split: prod.splits)
  qed simp_all
  then show ?thesis by (simp add: NewOrchestrator_def)
qed

theorem loaded_configuration_never_panics_witness:
  "Panicked \<notin> set (fst (run_state (auto_loop sample_deps [Ticker, Ticker, Stop_Signal]) (NewOrchestrator sample_config ())))"
proof -
  have "LoadAutonomyConfig (\<lambda>_. Inr '''') (\<lambda>_. Inr sample_config) ''autonomy.yaml'' = Inr sample_config"
    by (simp add: LoadAutonomyConfig_def sample_config_valid)
  from loaded_configuration_never_panics [OF this] show ?thesis .
qed

text \<open>
  A downgrade for financial pressure does not last: when the healthy ticks counted before it suffice for a
  recovery, the tick that downgrades the system restores its mode at its end, if its cycles succeed. The counter
  of healthy ticks is not reset by a downgrade.
\<close>

theorem old_health_lifts_a_downgrade:
  assumes "run_state (auto_tick d) w = (Ran cs, w')" and "rs_ConsecutiveFailures (au_state w') = 0"
    and "ac_AutoDowngrade (au_cfg w)" and "ap_pressure d = Some get" and "fle (ac_Pressure (au_cfg w)) (fst (fst (get (au_x w))))"
    and "ac_AutoRestorePrevMode (au_cfg w)" and "ac_RequireConsecutiveHealthy (au_cfg w) \<le> rs_ConsecutiveHealthy (au_state w) + 1"
    and "0 < ac_MaxConsecutiveFailedCycles (au_cfg w)" and "0 \<le> rs_ConsecutiveFailures (au_state w)"
  shows "rs_Mode (au_state w') = rs_OriginalMode (au_state w) \<and> \<not> rs_Downgraded (au_state w')"
  using assms(1)
proof (cases rule: tick_cases)
  case (body inWindow)
  let ?w = "w\<lparr>au_tick := Suc (au_tick w)\<rparr>"
  have "wp (tick_body d (ap_clock d (au_tick w)) inWindow) (\<lambda>e w'. \<forall>cs. e = Ran cs \<longrightarrow> rs_ConsecutiveFailures (au_state w') = 0 \<longrightarrow>
      rs_Mode (au_state w') = rs_OriginalMode (au_state ?w) \<and> \<not> rs_Downgraded (au_state w')) ?w"
    by (rule tick_lifts_downgrade [of _ _ get]) (use assms(3-9) in simp_all)
  from wp_run [OF this body(3)] show ?thesis using assms(2) by simp
qed simp_all

text \<open>Cycles that succeed reset the count of failures.\<close>

definition ends :: "'a \<Rightarrow> ('x, 'a) autonomy \<Rightarrow> bool" where
  "ends a m \<longleftrightarrow> (\<forall>w. fst (run_state m w) = a)"

lemma ends_return: "ends a (State_Monad.return a)"
  by (simp add: ends_def)

lemma ends_bind: "(\<And>b. ends a (n b)) \<Longrightarrow> ends a (State_Monad.bind m n)"
  by (simp add: ends_def case_prod_beta)

lemma ends_call: "(\<And>x. ends a (n (fst (g x)))) \<Longrightarrow> ends a (State_Monad.bind (au_call g) n)"
  by (simp add: ends_def au_call_def case_prod_beta)

lemma ends_prod: "(\<And>b c. ends a (m b c)) \<Longrightarrow> ends a (case x of (b, c) \<Rightarrow> m b c)"
  by (cases x) simp

lemma runCycles_succeed: "\<forall>c \<in> set cs. ends None (run_named d c) \<Longrightarrow> ends ok (runCycles d now cs ok)"
proof (induction cs arbitrary: ok)
  case (Cons c cs)
  have "fst (run_state (runCycle d c now) w) = None" for w
    using Cons.prems by (simp add: runCycle_def ends_def case_prod_beta)
  then show ?case using Cons by (simp add: ends_def case_prod_beta)
qed (simp add: ends_return)

lemma successful_tick:
  assumes "\<forall>c \<in> set (dueCycles d (au_cfg w) (au_state w) now inWindow). ends None (run_named d c)"
    and "0 < ac_MaxConsecutiveFailedCycles (au_cfg w)"
  shows "wp (tick_body d now inWindow) (\<lambda>e w'. e \<noteq> Idle_Tick \<longrightarrow> rs_ConsecutiveFailures (au_state w') = 0) w"
  unfolding tick_body_def
proof (rule wp_seq [OF keepsD [OF keeps_pair [OF control_times(5) cleanup_requests]]],
    rule wp_seq [OF keepsD [OF keeps_pair [OF checks_times checks_requests]]], goal_cases)
  case (1 a u b v)
  then have v: "cycle_times v = cycle_times w" "au_cfg v = au_cfg w" by simp_all
  let ?cs = "dueCycles d (au_cfg w) (au_state w) now inWindow"
  let ?v = "v\<lparr>au_state := (au_state v)\<lparr>rs_ActionsTakenThisCycle := 0\<rparr>\<rparr>"
  have "wp (au_set (count_outcome d True now) \<bind> (\<lambda>_. au_ask (\<lambda>w. rs_ConsecutiveFailures (au_state w)) \<bind>
      (\<lambda>failures. (if ac_MaxConsecutiveFailedCycles (au_cfg w) \<le> failures then downgrade d ''max_consecutive_failed_cycles reached''
        else State_Monad.return ()) \<bind> (\<lambda>_. checkRecovery d \<bind> (\<lambda>_. State_Monad.return (Ran ?cs))))))
    (\<lambda>e w'. e \<noteq> Idle_Tick \<longrightarrow> rs_ConsecutiveFailures (au_state w') = 0) t" for t
    using assms(2) by (auto simp: wp_rules count_outcome_def checkRecovery_def recovered_def au_audit_def split: option.splits)
  moreover have "wp (runCycles d now ?cs True) (\<lambda>ok _. ok = True) ?v"
    using runCycles_succeed [OF assms(1), of True now] by (simp add: wp_def ends_def case_prod_beta)
  ultimately have "wp (runCycles d now ?cs True \<bind> (\<lambda>ok. au_set (count_outcome d ok now) \<bind> (\<lambda>_. au_ask (\<lambda>w. rs_ConsecutiveFailures (au_state w)) \<bind>
      (\<lambda>failures. (if ac_MaxConsecutiveFailedCycles (au_cfg w) \<le> failures then downgrade d ''max_consecutive_failed_cycles reached''
        else State_Monad.return ()) \<bind> (\<lambda>_. checkRecovery d \<bind> (\<lambda>_. State_Monad.return (Ran ?cs)))))))
    (\<lambda>e w'. e \<noteq> Idle_Tick \<longrightarrow> rs_ConsecutiveFailures (au_state w') = 0) ?v"
    by (intro wp_seq [of "runCycles d now ?cs True" "\<lambda>ok _. ok = True"]) simp_all
  then show ?case
    by (simp add: due_times [OF v(1)] v(2) wp_bind [of "au_ask _"] wp_bind [of "au_set _"] wp_au_ask wp_au_set wp_return Let_def)
qed

lemmas auto_sample_defs = sample_config_def sample_cycles_def NewOrchestrator_def newRuntimeState_def

lemma sample_cycles_succeed: "\<forall>c \<in> {''actuation'', ''reporting''}. ends None (run_named sample_deps c)"
proof -
  have r: "ends None (cycleReporting sample_deps)" unfolding cycleReporting_def Let_def by (intro ends_bind ends_return)
  have a: "ap_actuation sample_deps = Some sample_actuation" "arn_Run sample_actuation = (\<lambda>x. (Inr (0, 0), x))"
    by (simp_all add: sample_deps_def sample_actuation_def)
  have "ends None (cycleActuation sample_deps)"
    unfolding cycleActuation_def a option.case Let_def
    by (rule ends_call, unfold fst_conv sum.case) (intro ends_bind ends_prod ends_return)
  then show ?thesis using r by (simp add: run_named_def)
qed

lemma sample_projections:
  "ap_clock sample_deps = int" "ap_pressure sample_deps = Some (\<lambda>x. ((Fin 1, ''high''), x))"
  by (auto simp: sample_deps_def)

lemma sample_world_simps:
  "au_cfg (sample_world n) = sample_config" "au_tick (sample_world n) = 0" "rs_ConsecutiveHealthy (au_state (sample_world n)) = n"
  "rs_ConsecutiveFailures (au_state (sample_world n)) = 0" "rs_OriginalMode (au_state (sample_world n)) = ModeAutonomous"
  by (simp_all add: sample_world_def NewOrchestrator_def newRuntimeState_def)

lemma ran_due: "Ran xs = (if cs = [] then Idle_Tick else Ran cs) \<Longrightarrow> xs = cs"
  by (simp split: if_splits)

theorem old_health_lifts_a_downgrade_witness:
  "rs_Mode (au_state (snd (run_state (auto_tick sample_deps) (sample_world 2)))) = ModeAutonomous"
proof -
  obtain w' where r: "run_state (auto_tick sample_deps) (sample_world 2) = (Ran [''actuation'', ''reporting''], w')" using sample_ticks by blast
  have "rs_ConsecutiveFailures (au_state w') = 0"
    using r
  proof (cases rule: tick_cases)
    case (body inWindow)
    let ?w = "(sample_world 2)\<lparr>au_tick := Suc (au_tick (sample_world 2))\<rparr>"
    have "[''actuation'', ''reporting''] = dueCycles sample_deps (au_cfg ?w) (au_state ?w) (ap_clock sample_deps (au_tick (sample_world 2))) inWindow"
      by (rule ran_due) (rule wp_run [OF tick_body_times body(3), THEN conjunct1])
    then have "\<forall>c \<in> set (dueCycles sample_deps (au_cfg ?w) (au_state ?w) (ap_clock sample_deps (au_tick (sample_world 2))) inWindow).
        ends None (run_named sample_deps c)"
      using sample_cycles_succeed by (metis list.set(1,2))
    moreover have "0 < ac_MaxConsecutiveFailedCycles (au_cfg ?w)" by (simp add: sample_world_simps sample_config_def)
    ultimately have "wp (tick_body sample_deps (ap_clock sample_deps (au_tick (sample_world 2))) inWindow)
        (\<lambda>e w'. e \<noteq> Idle_Tick \<longrightarrow> rs_ConsecutiveFailures (au_state w') = 0) ?w" by (rule successful_tick)
    from wp_run [OF this body(3)] show ?thesis by simp
  qed simp_all
  then show ?thesis using old_health_lifts_a_downgrade [OF r _ _ sample_projections(2)] r
    by (simp add: sample_world_simps) (simp add: sample_config_def)
qed

text \<open>
  Stopping and starting the runtime disarms its safety kernel: \<open>Start\<close> gives a downgraded system the mode of
  its configuration back and keeps it marked as downgraded, so that no downgrade takes effect any more.
\<close>

theorem restart_disarms_the_downgrade:
  assumes "rs_Downgraded (au_state w)" and "\<not> rs_Running (au_state w)" and "run_state (auto_Start d) w = (r, w')"
  shows "r = None \<and> rs_Mode (au_state w') = ac_Mode (au_cfg w) \<and> rs_Downgraded (au_state w') \<and>
    (\<forall>reason. run_state (downgrade d reason) w' = ((), w'))"
proof -
  let ?f = "\<lambda>w. (rs_Mode (au_state w), rs_Downgraded (au_state w))"
  have frame: "?f v' = ?f v" if "frame_of v' = frame_of v" for v v' :: "'a auto_world"
    using frame_mode(2) [OF that] frame_lock [OF that] by (simp add: lock_def)
  have named: "preserves ?f (run_named d c)" for c
    unfolding preserves_def by (intro allI wp_mono [OF keepsD [OF run_named_frame]]) (rule frame)
  have boot: "preserves ?f (bootstrap_cycle d b c)" for b c
    unfolding bootstrap_cycle_def by (intro keeps_intros named) (simp_all add: preserves_def wp_rules mark_run_def)
  have audit: "preserves ?f (au_audit d ev i)" for ev i
    unfolding preserves_def by (intro allI wp_mono [OF keepsD [OF audit_frame(1)]]) (rule frame)
  have call: "preserves ?f (au_call g)" for g :: "('a, string option) engine_call"
    unfolding preserves_def by (intro allI wp_mono [OF keepsD [OF frame_call]]) (rule frame)
  let ?w = "w\<lparr>au_tick := Suc (au_tick w), au_state := (au_state w)\<lparr>rs_Running := True, rs_StartedAt := Some (ap_clock d (au_tick w)),
    rs_Mode := ac_Mode (au_cfg w), rs_OriginalMode := ac_Mode (au_cfg w)\<rparr>, au_stopClosed := False\<rparr>"
  have run: "run_state (start_services d (au_cfg w)) ?w = (r, w')" using assms(2,3) by (simp add: auto_Start_def au_ask_def au_read_def)
  moreover have "preserves ?f (start_services d (au_cfg w))" unfolding start_services_def runBootstrap_def by (intro keeps_intros boot audit call)
  ultimately have f: "?f w' = ?f ?w" by (rule keeps_run [rotated])
  have "r = None" using run by (auto simp: start_services_def split: prod.splits)
  then show ?thesis using f assms(1) by (simp add: downgrade_def au_ask_def)
qed

theorem restart_disarms_the_downgrade_witness:
  "let w = (sample_world 0)\<lparr>au_state := (newRuntimeState ModeSupervisedAutonomy)\<lparr>rs_Downgraded := True\<rparr>\<rparr>;
       w' = snd (run_state (auto_Start sample_deps) w)
   in rs_Mode (au_state w) = ModeSupervisedAutonomy \<and> rs_Mode (au_state w') = ModeAutonomous \<and> rs_Downgraded (au_state w')"
proof -
  let ?w = "(sample_world 0)\<lparr>au_state := (newRuntimeState ModeSupervisedAutonomy)\<lparr>rs_Downgraded := True\<rparr>\<rparr>"
  obtain r w' where s: "run_state (auto_Start sample_deps) ?w = (r, w')" by fastforce
  have "rs_Mode (au_state w') = ac_Mode (au_cfg ?w) \<and> rs_Downgraded (au_state w')"
    using restart_disarms_the_downgrade [OF _ _ s] by (simp add: newRuntimeState_def)
  then show ?thesis using s by (simp add: sample_world_def NewOrchestrator_def newRuntimeState_def sample_config_def)
qed

lemma memory_call: "preserves memory_of (au_call g)"
  by (simp add: preserves_def wp_au_call memory_of_def split: prod.splits)

lemma request_memory: "preserves memory_of (request_task d r x)"
  unfolding request_task_def Let_def by (intro keeps_intros memory_call audit_memory)

lemma materialize_requests_all:
  assumes "ap_taskOrchestrator d = Some r" and "\<And>i x. fst (fst (trn_FindByActuationDecision r i x)) = ''''"
  shows "rs_Mode (au_state w) \<noteq> AutonomyFrozen \<Longrightarrow>
    wp (materialize d xs n) (\<lambda>_ w'. au_created w' = au_created w @ filter (\<lambda>x. di_Status x = ''proposed'' \<and> \<not> di_RequiresReview x) xs) w"
proof (induction xs arbitrary: w n)
  case (Cons x xs)
  show ?case
  proof (cases "di_Status x = ''proposed'' \<and> \<not> di_RequiresReview x")
    case True
    have one: "wp (MaterializeDecisionAsTask d x) (\<lambda>_ v. memory_of v = (au_cfg w, au_state w, au_created w @ [x])) w"
    proof -
      obtain err s where f: "trn_FindByActuationDecision r (di_ID x) (au_x w) = (('''', err), s)"
        using assms(2) [of "di_ID x" "au_x w"] by (metis prod.exhaust fst_conv)
      have "wp (request_task d r x) (\<lambda>_ v. memory_of v = (au_cfg w, au_state w, au_created w @ [x]))
          (w\<lparr>au_x := s, au_created := au_created w @ [x]\<rparr>)"
        by (rule keeps_value [OF request_memory]) (simp add: memory_of_def)
      then show ?thesis using True Cons.prems f assms(1)
        by (simp add: MaterializeDecisionAsTask_def create_from_decision_def wp_bind wp_au_mode wp_State wp_au_call)
    qed
    have "wp (MaterializeDecisionAsTask d x \<bind> (\<lambda>res. materialize d xs (case res of Inl e \<Rightarrow> n | Inr (i, created) \<Rightarrow> if created then n + 1 else n)))
      (\<lambda>_ w'. au_created w' = au_created w @ filter (\<lambda>x. di_Status x = ''proposed'' \<and> \<not> di_RequiresReview x) (x # xs)) w"
    proof (rule wp_seq [OF one], goal_cases)
      case (1 res v)
      then have v: "au_created v = au_created w @ [x]" "rs_Mode (au_state v) \<noteq> AutonomyFrozen" using Cons.prems by (auto simp: memory_of_def)
      show ?case using True v(1) by (intro wp_mono [OF Cons.IH [OF v(2)]]) simp
    qed
    then show ?thesis using True by simp
  next
    case False
    then have "materialize d (x # xs) n = materialize d xs n" by simp
    then show ?thesis using Cons.IH [OF Cons.prems, of n] False by auto
  qed
qed (simp add: wp_return)

lemma cycle_requests_all:
  assumes "ap_actuation d = Some a" and "arn_Run a (au_x w) = (Inr counts, x1)" and "arn_ListDecisions a 50 x1 = (Inr ds, x2)"
    and "ap_taskOrchestrator d = Some r" and "\<forall>i x. fst (fst (trn_FindByActuationDecision r i x)) = ''''"
    and "rs_Mode (au_state w) \<noteq> AutonomyFrozen"
  shows "wp (cycleActuation d) (\<lambda>_ w'. au_created w' =
    au_created w @ filter (\<lambda>x. di_Status x = ''proposed'' \<and> \<not> di_RequiresReview x) ds) w"
proof -
  let ?fs = "filter (\<lambda>x. di_Status x = ''proposed'' \<and> \<not> di_RequiresReview x) ds"
  let ?w = "w\<lparr>au_x := x2\<rparr>"
  have "wp (classify d heavy ds (0, 0) \<bind> (\<lambda>(queued, suppressed).
      au_set (\<lambda>s. s\<lparr>rs_ReviewActionsQueued := rs_ReviewActionsQueued s + queued, rs_SuppressedDecisions := rs_SuppressedDecisions s + suppressed\<rparr>) \<bind>
      (\<lambda>_. materialize d ds 0 \<bind> (\<lambda>tasksCreated.
      (if 0 < tasksCreated then au_set (\<lambda>s. s\<lparr>rs_TasksCreatedFromActuation := rs_TasksCreatedFromActuation s + tasksCreated\<rparr>)
       else State_Monad.return ()) \<bind> (\<lambda>_. State_Monad.return (None :: string option))))))
      (\<lambda>_ w'. au_created w' = au_created w @ ?fs) ?w" for heavy
  proof (rule wp_seq [OF wp_conj [OF classify_within keepsD [OF frame.classify_kept]]], goal_cases)
    case (1 c t)
    then have c: "au_created t = au_created w" "rs_Mode (au_state t) \<noteq> AutonomyFrozen"
      using frame_mode(2) [of t ?w] assms(6) by auto
    obtain q s where qs: "c = (q, s)" by fastforce
    let ?t = "t\<lparr>au_state := (au_state t)\<lparr>rs_ReviewActionsQueued := rs_ReviewActionsQueued (au_state t) + q,
      rs_SuppressedDecisions := rs_SuppressedDecisions (au_state t) + s\<rparr>\<rparr>"
    have "wp (materialize d ds 0) (\<lambda>_ w'. au_created w' = au_created w @ ?fs) ?t"
      using materialize_requests_all [OF assms(4), of ?t ds 0] assms(5) c by simp
    then have "wp (materialize d ds 0 \<bind> (\<lambda>tasksCreated.
      (if 0 < tasksCreated then au_set (\<lambda>s. s\<lparr>rs_TasksCreatedFromActuation := rs_TasksCreatedFromActuation s + tasksCreated\<rparr>)
       else State_Monad.return ()) \<bind> (\<lambda>_. State_Monad.return (None :: string option)))) (\<lambda>_ w'. au_created w' = au_created w @ ?fs) ?t"
      by (rule wp_seq) (simp add: wp_rules)
    then show ?case by (simp add: qs wp_bind [of "au_set _"] wp_au_set)
  qed
  then show ?thesis
    using assms(1-3) by (simp add: cycleActuation_def wp_bind [of "au_call _"] wp_bind [of "au_ask _"] wp_au_ask wp_au_call)
qed

text \<open>The first pass counts every proposed decision once: as routed, as waiting for a review, or as suppressed.\<close>

lemma classify_counts:
  "wp (classify d heavy xs (q, s)) (\<lambda>(q', s') w'.
     q' - q + (s' - s) + (rs_SafeActionsRouted (au_state w') - rs_SafeActionsRouted (au_state w)) = int (length (filter (\<lambda>x. di_Status x = ''proposed'') xs)) \<and>
     q' - q \<le> int (length (filter (\<lambda>x. di_Status x = ''proposed'' \<and> di_RequiresReview x) xs))) w"
proof (induction xs arbitrary: q s w)
  case (Cons x xs)
  let ?p = "\<lambda>ys. int (length (filter (\<lambda>x. di_Status x = ''proposed'') ys))"
    and ?r = "\<lambda>ys. int (length (filter (\<lambda>x. di_Status x = ''proposed'' \<and> di_RequiresReview x) ys))"
  let ?Q = "\<lambda>q s w ys (q', s') w'. q' - q + (s' - s) + (rs_SafeActionsRouted (au_state w') - rs_SafeActionsRouted (au_state w)) = ?p ys \<and> q' - q \<le> ?r ys"
  have go: "wp (classify d heavy xs (q1, s1)) (?Q q s w (x # xs)) v"
    if "di_Status x = ''proposed''" "q1 - q + (s1 - s) + (rs_SafeActionsRouted (au_state v) - rs_SafeActionsRouted (au_state w)) = 1"
      "q1 = q \<or> q1 = q + 1 \<and> di_RequiresReview x" for q1 s1 v
    using that by (intro wp_mono [OF Cons.IH [of q1 s1 v]]) auto
  have audited: "wp (au_audit d ev i \<bind> (\<lambda>_. classify d heavy xs (q1, s1))) (?Q q s w (x # xs)) v"
    if "di_Status x = ''proposed''" "q1 - q + (s1 - s) + (rs_SafeActionsRouted (au_state v) - rs_SafeActionsRouted (au_state w)) = 1"
      "q1 = q \<or> q1 = q + 1 \<and> di_RequiresReview x" for ev i q1 s1 v
    by (rule wp_seq [OF keepsD [OF audit_memory]], rule go) (use that in \<open>simp_all add: memory_of_def\<close>)
  show ?case
  proof (cases "di_Status x = ''proposed''")
    case False
    then show ?thesis using Cons.IH [of q s w] by (simp add: wp_if)
  next
    case True
    then have "\<not> di_Status x \<noteq> ''proposed''" by simp
    then show ?thesis unfolding classify.simps if_not_P [OF \<open>\<not> di_Status x \<noteq> _\<close>] wp_bind [of "au_ask au_cfg"] wp_au_ask
    proof (intro wp_seq [OF keepsD [OF duplicate_memory]], goal_cases)
      case (1 repeated v)
      then have v: "au_state v = au_state w" by (simp add: memory_of_def)
      have both: "(c \<Longrightarrow> P) \<Longrightarrow> (\<not> c \<Longrightarrow> R) \<Longrightarrow> if c then P else R" for c P R by simp
      show ?case unfolding wp_if wp_bind [of "au_ask _"] wp_bind [of "au_set _"] wp_au_ask wp_au_set
        by (intro both go audited) (use True v in simp_all)
    qed
  qed
qed (simp add: wp_return)

lemma materialize_state: "preserves au_state (materialize d xs n)"
proof -
  have call: "preserves au_state (au_call g)" for g by (simp add: preserves_def wp_au_call split: prod.splits)
  have audit: "preserves au_state (au_audit d ev about)" for ev about
    by (auto simp: preserves_def au_audit_def wp_rules split: option.splits)
  have noted: "preserves au_state (State (\<lambda>w. ((), w\<lparr>au_created := au_created w @ [x]\<rparr>)))" for x by (simp add: preserves_def wp_rules)
  have "preserves au_state (MaterializeDecisionAsTask d x)" for x
    unfolding MaterializeDecisionAsTask_def create_from_decision_def request_task_def Let_def by (intro keeps_intros call audit noted)
  then show ?thesis by (induction xs arbitrary: n) (simp_all add: keeps_return keeps_bind)
qed

text \<open>Two requests to stop that overlap close the channel twice.\<close>

lemma overlapping_stops_panic:
  assumes "rs_Running (au_state w)" and "\<not> au_stopClosed w"
  shows "fst (run_state (do { a \<leftarrow> stop_check; b \<leftarrow> stop_check; p \<leftarrow> stop_close; q \<leftarrow> stop_close; State_Monad.return (a, b, p, q) }) w) =
    (True, True, False, True)"
  using assms by (simp add: stop_check_def stop_close_def au_ask_def)

text \<open>An operator's mode is not the one a recovery restores; it leaves what an overload disabled disabled.\<close>

lemma recovery_forgets_the_operator:
  assumes "m \<in> set autonomyModes" and "run_state (auto_SetMode d m) w = (r, w')"
  shows "rs_Mode (au_state w') = m" and "rs_Mode (recovered (au_state w')) = rs_OriginalMode (au_state w)"
    and "rs_HeavyActionsDisabled (au_state w') = rs_HeavyActionsDisabled (au_state w)"
proof -
  have "wp (auto_SetMode d m) (\<lambda>_ w'. rs_Mode (au_state w') = m \<and> rs_OriginalMode (au_state w') = rs_OriginalMode (au_state w) \<and>
      rs_HeavyActionsDisabled (au_state w') = rs_HeavyActionsDisabled (au_state w)) w"
    using assms(1) by (auto simp: auto_SetMode_def au_audit_def wp_rules split: option.splits)
  from wp_run [OF this assms(2)] show "rs_Mode (au_state w') = m" "rs_Mode (recovered (au_state w')) = rs_OriginalMode (au_state w)"
    "rs_HeavyActionsDisabled (au_state w') = rs_HeavyActionsDisabled (au_state w)" by (simp_all add: recovered_def)
qed

text \<open>The settings for the time outside the window are never consulted.\<close>

lemma outside_settings_do_not_matter:
  fixes c :: auto_config and p q u :: bool
  defines "c' \<equiv> c\<lparr>ac_OutsideReflection := p, ac_OutsideObjective := q, ac_OutsideReporting := u\<rparr>"
  shows "dueCycles d c' s now inWindow = dueCycles d c s now inWindow"
proof -
  have all: "allCycles c' d = allCycles c d" by (simp add: allCycles_def c'_def)
  have "CycleDuration c' n = CycleDuration c n" for n by (simp add: CycleDuration_def c'_def)
  moreover have "isAllowedOutsideWindow c' n = isAllowedOutsideWindow c n" if "(n, e, True) \<in> set (allCycles c d)" for n e
    using that by (auto simp: allCycles_def isAllowedOutsideWindow_def)
  ultimately have "is_due c' s now inWindow cy = is_due c s now inWindow cy" if "cy \<in> set (allCycles c d)" for cy
    using that by (cases cy) (auto simp: is_due_def split: option.splits)
  then show ?thesis unfolding dueCycles_def all by (metis (mono_tags, lifting) filter_cong)
qed

lemma reports_are_bounded: "length rs \<le> 200 \<Longrightarrow> length (storeReport r rs) \<le> 200"
  by (simp add: storeReport_def Let_def)

end
