(* ===== verification/Autonomy_Wiring.thy ===== *)
theory Autonomy_Wiring
  imports Actuation Autonomy Task_Orch Governance
begin

text \<open>
  How \<open>src/cmd/api-gateway/main.go\<close> connects the autonomous runtime: its actuation engine is that of
  \<open>Actuation\<close>, its tasks are those of \<open>Task_Orch\<close> and its governance is the controller of
  \<open>Governance\<close>. The engines that are modelled elsewhere or not at all (reflection, objective, scheduling,
  portfolio, discovery, self-extension, pressure, capacity, goal planning, the execution loop, the feedback) are
  calls on the rest of the state; goal planning may also create tasks. What reflection and objective read back of the
  runtime's feedback is left out: these reads only add records to the audit. Shown: what the runtime may do
  without a person, that a decision becomes one task, also when it was suppressed, and that a start lifts a freeze.
\<close>

section \<open>The state of the engines\<close>

record ('s, 'r) engines =
  en_act :: act_world
  en_orch :: "'s orch_world"
  en_gov :: governance_db
  en_calls :: nat
  en_rest :: 'r

text \<open>The orchestrator as the \<open>n\<close>-th call finds it: collaborators, clock, fresh identifier; the text of its errors.\<close>

record 's orch_access =
  oa_ops :: "'s store_ops"
  oa_deps :: "nat \<Rightarrow> orch_deps"
  oa_now :: "nat \<Rightarrow> time"
  oa_uuid :: "nat \<Rightarrow> string"
  oa_text :: "orch_error \<Rightarrow> string"

text \<open>The controller: its database at the \<open>n\<close>-th call, and what other requests do between its read and its write.\<close>

record gov_access =
  gv_env :: "nat \<Rightarrow> gov_env"
  gv_between :: "nat \<Rightarrow> governance_db \<Rightarrow> governance_db"
  gv_text :: "gov_error \<Rightarrow> string"

definition at_rest :: "('r, 'a) engine_call \<Rightarrow> (('s, 'r) engines, 'a) engine_call" where
  "at_rest g x = (case g (en_rest x) of (a, r) \<Rightarrow> (a, x\<lparr>en_rest := r\<rparr>))"

definition at_plan :: "('s orch_world \<times> 'r, 'a) engine_call \<Rightarrow> (('s, 'r) engines, 'a) engine_call" where
  "at_plan g x = (case g (en_orch x, en_rest x) of (a, w, r) \<Rightarrow> (a, x\<lparr>en_orch := w, en_rest := r\<rparr>))"

definition at_orch :: "(nat \<Rightarrow> 's orch_world \<Rightarrow> 'a \<times> 's orch_world) \<Rightarrow> (('s, 'r) engines, 'a) engine_call" where
  "at_orch g x = (case g (en_calls x) (en_orch x) of (a, w) \<Rightarrow> (a, x\<lparr>en_orch := w, en_calls := Suc (en_calls x)\<rparr>))"

definition at_act :: "'a actuating \<Rightarrow> (('s, 'r) engines, 'a) engine_call" where
  "at_act m x = (case run_state m (en_act x) of (a, w) \<Rightarrow> (a, x\<lparr>en_act := w\<rparr>))"

definition answer_with :: "('a \<Rightarrow> 'b) \<Rightarrow> ('x, 'a) engine_call \<Rightarrow> ('x, 'b) engine_call" where
  "answer_with f g x = (case g x of (a, y) \<Rightarrow> (f a, y))"

section \<open>The bridges\<close>

definition decision_view :: "act_decision \<Rightarrow> decision_info" where
  "decision_view d =
     \<lparr>di_ID = acd_ID d, di_Type = acd_Type d, di_Status = acd_Status d, di_RequiresReview = acd_RequiresReview d,
      di_Priority = acd_Priority d, di_ProposedAt = acd_ProposedAt d\<rparr>"

definition run_view :: "act_run_result \<Rightarrow> string + int \<times> int" where
  "run_view res = Inr (int (length (arr_Decisions res)), int (length (filter acd_RequiresReview (arr_Decisions res))))"

definition autonomyActuationBridge :: "act_deps option \<Rightarrow> ('s, 'r) engines actuation_runner" where
  "autonomyActuationBridge ae =
     (case ae of
        None \<Rightarrow> \<lparr>arn_Run = \<lambda>x. (Inr (0, 0), x), arn_ListDecisions = \<lambda>limit x. (Inr [], x)\<rparr>
      | Some d \<Rightarrow>
          \<lparr>arn_Run = answer_with run_view (at_act (act_Run d)),
           arn_ListDecisions = \<lambda>limit. answer_with (map_sum (\<lambda>e. e) (map decision_view)) (at_act (act_List d limit))\<rparr>)"

definition task_view :: "orch_task \<Rightarrow> running_info" where
  "task_view t =
     \<lparr>rni_ID = ot_ID t, rni_ExecutionTaskID = ot_ExecutionTaskID t, rni_Goal = ot_Goal t, rni_AttemptCount = ot_AttemptCount t\<rparr>"

text \<open>\<open>DispatchedTaskIDs\<close> stays empty.\<close>

definition dispatch_view :: "dispatch_result \<Rightarrow> dispatch_info" where
  "dispatch_view r =
     \<lparr>dsi_DispatchedCount = int (length (dr_Dispatched r)), dsi_SkippedCount = int (length (dr_Skipped r)),
      dsi_BlockedCount = int (length (dr_Blocked r)), dsi_DispatchedTaskIDs = []\<rparr>"

definition failed_with :: "('e \<Rightarrow> string) \<Rightarrow> 'e + 'a \<Rightarrow> string option" where
  "failed_with text r = (case r of Inl e \<Rightarrow> Some (text e) | Inr _ \<Rightarrow> None)"

definition autonomyTaskOrchBridge :: "'s orch_access option \<Rightarrow> ('s, 'r) engines task_runner" where
  "autonomyTaskOrchBridge ta =
     (case ta of
        None \<Rightarrow>
          \<lparr>trn_CreateTask = \<lambda>source goal urgency expectedValue riskLevel strategyType x. (Inr '''', x),
           trn_RecomputePriorities = \<lambda>x. (None, x), trn_Dispatch = \<lambda>x. (Inr (dispatch_view no_result), x),
           trn_FindByActuationDecision = \<lambda>i x. (('''', None), x), trn_CompleteTask = \<lambda>i x. (None, x),
           trn_FailTask = \<lambda>i reason x. (None, x), trn_PauseTask = \<lambda>i x. (None, x),
           trn_SetActuationDecisionID = \<lambda>i d x. (None, x), trn_SetExecutionTaskID = \<lambda>i e x. (None, x),
           trn_SetOutcome = \<lambda>i out err n x. (None, x), trn_ListRunningTasks = \<lambda>limit x. (Inr [], x)\<rparr>
      | Some a \<Rightarrow>
          (let ops = oa_ops a; text = oa_text a in
           \<lparr>trn_CreateTask = \<lambda>source goal urgency expectedValue riskLevel strategyType. answer_with (map_sum text ot_ID)
              (at_orch (\<lambda>n. CreateTask ops (oa_deps a n) (oa_now a n) (oa_uuid a n) source goal urgency expectedValue riskLevel strategyType)),
            trn_RecomputePriorities = answer_with (map_option text) (at_orch (\<lambda>n. RecomputePriorities ops (oa_deps a n) (oa_now a n))),
            trn_Dispatch = answer_with (\<lambda>(res, err). case err of Some e \<Rightarrow> Inl (text e) | None \<Rightarrow> Inr (dispatch_view res))
              (at_orch (\<lambda>n. Dispatch ops (oa_deps a n) (oa_now a n))),
            trn_FindByActuationDecision = \<lambda>i. answer_with (\<lambda>r. case r of Inl e \<Rightarrow> ('''', Some (text e)) | Inr tid \<Rightarrow> (tid, None))
              (at_orch (\<lambda>n. on_store (t_FindByActuationDecision ops i))),
            trn_CompleteTask = \<lambda>i. answer_with (failed_with text) (at_orch (\<lambda>n. CompleteTask ops (oa_deps a n) (oa_now a n) i)),
            trn_FailTask = \<lambda>i reason. answer_with (failed_with text) (at_orch (\<lambda>n. FailTaskWithReason ops (oa_deps a n) (oa_now a n) i reason)),
            trn_PauseTask = \<lambda>i. answer_with (failed_with text) (at_orch (\<lambda>n. PauseTask ops (oa_deps a n) (oa_now a n) i)),
            trn_SetActuationDecisionID = \<lambda>i d. answer_with (map_option text) (at_orch (\<lambda>n. on_store (t_SetActuationDecisionID ops (oa_now a n) i d))),
            trn_SetExecutionTaskID = \<lambda>i e. answer_with (map_option text) (at_orch (\<lambda>n. on_store (t_SetExecutionTaskID ops (oa_now a n) i e))),
            trn_SetOutcome = \<lambda>i out err k. answer_with (map_option text) (at_orch (\<lambda>n. on_store (t_SetOutcome ops (oa_now a n) i out err k))),
            trn_ListRunningTasks = \<lambda>limit. answer_with (map_sum text (map task_view))
              (at_orch (\<lambda>n. on_store (t_ListByStatus ops TaskStatusRunning limit)))\<rparr>))"

text \<open>Every mode but \<open>frozen\<close> unfreezes.\<close>

definition governance_mode ::
  "gov_access \<Rightarrow> string \<Rightarrow> string \<Rightarrow> nat \<Rightarrow> governance_db \<Rightarrow> (gov_error + governance_state) \<times> governance_db"
where
  "governance_mode gc mode reason n g =
     (if mode = ''frozen''
      then Freeze (gv_env gc n) (gv_between gc n)
        \<lparr>fz_RequestedBy = ''autonomy_orchestrator'', fz_Reason = reason, fz_FreezeLearning = Some True, fz_FreezePolicy = Some True,
         fz_FreezeExploration = Some True\<rparr> g
      else Unfreeze (gv_env gc n) (gv_between gc n) ''autonomy_orchestrator'' reason g)"

definition autonomyGovernanceBridge :: "gov_access option \<Rightarrow> string \<Rightarrow> string \<Rightarrow> (('s, 'r) engines, string option) engine_call" where
  "autonomyGovernanceBridge gc mode reason x =
     (case gc of
        None \<Rightarrow> (None, x)
      | Some c \<Rightarrow>
          (case governance_mode c mode reason (en_calls x) (en_gov x) of
             (r, g) \<Rightarrow> (failed_with (gv_text c) r, x\<lparr>en_gov := g, en_calls := Suc (en_calls x)\<rparr>)))"

section \<open>The runtime of the gateway\<close>

record ('s, 'r) gateway =
  gw_rest :: "'r auto_deps"
  gw_planning :: "('s orch_world \<times> 'r, string option) engine_call"
  gw_actuation :: "act_deps option"
  gw_orchestrator :: "'s orch_access option"
  gw_controller :: "gov_access option"

definition feedback_at_rest :: "'r feedback_ops \<Rightarrow> ('s, 'r) engines feedback_ops" where
  "feedback_at_rest st =
     \<lparr>fbs_Insert = \<lambda>fb. at_rest (fbs_Insert st fb), fbs_ListRecent = \<lambda>n. at_rest (fbs_ListRecent st n),
      fbs_CountByOutcome = \<lambda>out since. at_rest (fbs_CountByOutcome st out since),
      fbs_CountBySignal = \<lambda>sig since. at_rest (fbs_CountBySignal st sig since)\<rparr>"

definition gateway_deps :: "('s, 'r) gateway \<Rightarrow> ('s, 'r) engines auto_deps" where
  "gateway_deps gw =
     (let r = gw_rest gw in
      \<lparr>ap_clock = ap_clock r, ap_wall = ap_wall r, ap_rfc3339 = ap_rfc3339 r, ap_newUUID = ap_newUUID r, ap_auditor = ap_auditor r,
       ap_reflection = map_option at_rest (ap_reflection r), ap_objective = map_option at_rest (ap_objective r),
       ap_actuation = Some (autonomyActuationBridge (gw_actuation gw)),
       ap_scheduling = map_option at_rest (ap_scheduling r), ap_portfolio = map_option at_rest (ap_portfolio r),
       ap_discovery = map_option at_rest (ap_discovery r), ap_selfExt = map_option (\<lambda>g n. at_rest (g n)) (ap_selfExt r),
       ap_pressure = map_option at_rest (ap_pressure r), ap_capacity = map_option at_rest (ap_capacity r),
       ap_governance = Some (autonomyGovernanceBridge (gw_controller gw)),
       ap_taskOrchestrator = Some (autonomyTaskOrchBridge (gw_orchestrator gw)),
       ap_executionLoop = map_option (\<lambda>g i. at_rest (g i)) (ap_executionLoop r),
       ap_feedbackStore = map_option feedback_at_rest (ap_feedbackStore r),
       ap_goalPlanning = Some (at_plan (gw_planning gw)),
       ap_goalReplanning = map_option at_rest (ap_goalReplanning r)\<rparr>)"

section \<open>What a call leaves alone\<close>

lemma lifted_calls [simp]:
  "en_act (snd (at_rest g x)) = en_act x" "en_act (snd (at_plan p x)) = en_act x" "en_act (snd (at_orch h x)) = en_act x"
  "snd (answer_with f k x) = snd (k x)"
  by (simp_all add: at_rest_def at_plan_def at_orch_def answer_with_def split: prod.splits)

lemma governance_leaves_decisions [simp]: "en_act (snd (autonomyGovernanceBridge gc mode reason x)) = en_act x"
  by (simp add: autonomyGovernanceBridge_def split: option.splits prod.splits)

lemma tasks_leave_decisions [simp]:
  "en_act (snd (trn_CreateTask (autonomyTaskOrchBridge ta) a b u v k s x)) = en_act x"
  "en_act (snd (trn_RecomputePriorities (autonomyTaskOrchBridge ta) x)) = en_act x"
  "en_act (snd (trn_Dispatch (autonomyTaskOrchBridge ta) x)) = en_act x"
  "en_act (snd (trn_FindByActuationDecision (autonomyTaskOrchBridge ta) i x)) = en_act x"
  "en_act (snd (trn_CompleteTask (autonomyTaskOrchBridge ta) i x)) = en_act x"
  "en_act (snd (trn_FailTask (autonomyTaskOrchBridge ta) i reason x)) = en_act x"
  "en_act (snd (trn_PauseTask (autonomyTaskOrchBridge ta) i x)) = en_act x"
  "en_act (snd (trn_SetActuationDecisionID (autonomyTaskOrchBridge ta) i j x)) = en_act x"
  "en_act (snd (trn_SetExecutionTaskID (autonomyTaskOrchBridge ta) i j x)) = en_act x"
  "en_act (snd (trn_SetOutcome (autonomyTaskOrchBridge ta) i j e n x)) = en_act x"
  "en_act (snd (trn_ListRunningTasks (autonomyTaskOrchBridge ta) n x)) = en_act x"
  by (simp_all add: autonomyTaskOrchBridge_def Let_def split: option.splits)

lemma gateway_fields:
  "ap_actuation (gateway_deps gw) = Some (autonomyActuationBridge (gw_actuation gw))"
  "ap_governance (gateway_deps gw) = Some (autonomyGovernanceBridge (gw_controller gw))"
  "ap_taskOrchestrator (gateway_deps gw) = Some (autonomyTaskOrchBridge (gw_orchestrator gw))"
  by (simp_all add: gateway_deps_def Let_def)

lemma other_calls_leave_decisions: "g \<in> other_calls (gateway_deps gw) \<Longrightarrow> en_act (g x) = en_act x"
  by (induction rule: other_calls.induct) (auto simp: gateway_deps_def Let_def feedback_at_rest_def)

definition rows_of :: "('s, 'r) engines auto_world \<Rightarrow> act_decision list" where
  "rows_of w = aw_rows (en_act (au_x w))"

definition decision_part :: "('s, 'r) engines auto_world \<Rightarrow> act_decision list \<times> decision_info list" where
  "decision_part w = (rows_of w, au_created w)"

interpretation decisions: kept "gateway_deps gw" decision_part for gw :: "('s, 'r) gateway"
  by unfold_locales (simp_all add: decision_part_def rows_of_def other_calls_leave_decisions)

lemma audit_decisions: "preserves decision_part (au_audit d ev about)"
  by (auto simp: preserves_def au_audit_def wp_rules decision_part_def rows_of_def split: option.splits)

interpretation table: kept_by_actuation "gateway_deps gw" rows_of for gw :: "('s, 'r) gateway"
  by unfold_locales (simp_all add: rows_of_def other_calls_leave_decisions)

section \<open>Which decisions become tasks\<close>

text \<open>The second pass of the actuation cycle requests tasks for decisions of its list that need no review.\<close>

definition asks_for :: "(decision_info \<Rightarrow> bool) \<Rightarrow> ('x, 'a) autonomy \<Rightarrow> bool" where
  "asks_for P m \<longleftrightarrow> (\<forall>w. wp m (\<lambda>_ w'. \<exists>ys. au_created w' = au_created w @ ys \<and> (\<forall>y \<in> set ys. P y)) w)"

named_theorems asks_intros \<open>composition of programs that request tasks\<close>

lemma asks_none: "preserves au_created m \<Longrightarrow> asks_for P m"
  unfolding asks_for_def preserves_def wp_def by (auto split: prod.splits)

lemma asks_bind [asks_intros]:
  assumes "asks_for P m" and "\<And>a. asks_for P (n a)"
  shows "asks_for P (State_Monad.bind m n)"
proof -
  have "\<exists>ys. au_created w' = au_created w @ ys \<and> (\<forall>y \<in> set ys. P y)"
    if r: "run_state m w = (a, v)" "run_state (n a) v = (b, w')" for w a v b w'
  proof -
    obtain ys where "au_created v = au_created w @ ys" "\<forall>y \<in> set ys. P y"
      using wp_run [OF spec [OF assms(1) [unfolded asks_for_def]] r(1)] by blast
    moreover obtain zs where "au_created w' = au_created v @ zs" "\<forall>y \<in> set zs. P y"
      using wp_run [OF spec [OF assms(2) [unfolded asks_for_def]] r(2)] by blast
    ultimately show ?thesis by (intro exI [of _ "ys @ zs"]) auto
  qed
  then show ?thesis unfolding asks_for_def by (intro allI wpI) (auto split: prod.splits)
qed

lemma asks_if [asks_intros]: "(c \<Longrightarrow> asks_for P m) \<Longrightarrow> (\<not> c \<Longrightarrow> asks_for P n) \<Longrightarrow> asks_for P (if c then m else n)"
  by simp

lemma asks_option [asks_intros]: "asks_for P m \<Longrightarrow> (\<And>y. asks_for P (n y)) \<Longrightarrow> asks_for P (case x of None \<Rightarrow> m | Some y \<Rightarrow> n y)"
  by (cases x) simp_all

lemma asks_sum [asks_intros]: "(\<And>y. asks_for P (m y)) \<Longrightarrow> (\<And>y. asks_for P (n y)) \<Longrightarrow> asks_for P (case x of Inl y \<Rightarrow> m y | Inr y \<Rightarrow> n y)"
  by (cases x) simp_all

lemma asks_prod [asks_intros]: "(\<And>a b. asks_for P (m a b)) \<Longrightarrow> asks_for P (case x of (a, b) \<Rightarrow> m a b)"
  by (cases x) simp

lemma asks_steps [asks_intros]:
  "asks_for P (State_Monad.return a)" "asks_for P (au_call g)" "asks_for P au_mode" "asks_for P (au_audit d ev about)"
proof -
  show "asks_for P (au_call g)" "asks_for P (State_Monad.return a)" "asks_for P au_mode"
    by (rule asks_none, simp add: preserves_def wp_rules au_call_def split: prod.splits)+
  show "asks_for P (au_audit d ev about)"
    by (rule asks_none) (auto simp: preserves_def wp_rules au_audit_def split: option.splits)
qed

lemma asks_weaken: "asks_for P m \<Longrightarrow> (\<And>y. P y \<Longrightarrow> Q y) \<Longrightarrow> asks_for Q m"
  unfolding asks_for_def by (intro allI, rule wp_mono, erule spec) blast

lemma materialize_asks:
  "asks_for (\<lambda>y. y \<in> set xs \<and> di_Status y = ''proposed'' \<and> \<not> di_RequiresReview y) (materialize d xs n)"
proof (induction xs arbitrary: n)
  case (Cons x xs)
  let ?P = "\<lambda>y. y \<in> set (x # xs) \<and> di_Status y = ''proposed'' \<and> \<not> di_RequiresReview y"
  have "asks_for ?P (MaterializeDecisionAsTask d x)" if "di_Status x = ''proposed''" "\<not> di_RequiresReview x"
  proof -
    have "asks_for ?P (create_from_decision d r x)" for r
      unfolding create_from_decision_def request_task_def Let_def
      by (intro asks_intros) (use that in \<open>simp add: asks_for_def wp_rules\<close>)
    then show ?thesis unfolding MaterializeDecisionAsTask_def by (intro asks_intros)
  qed
  then show ?case unfolding materialize.simps by (intro asks_intros asks_weaken [OF Cons]) auto
qed (simp add: asks_steps)

text \<open>Every decision a task was requested for is in the table and needs no review.\<close>

definition attended :: "('s, 'r) engines auto_world \<Rightarrow> bool" where
  "attended w \<longleftrightarrow> keyed acd_ID (rows_of w) \<and> (\<forall>x \<in> set (rows_of w). decision_ok x) \<and>
     (\<forall>y \<in> set (au_created w). \<exists>x \<in> set (rows_of w). acd_ID x = di_ID y \<and> acd_Type x = di_Type y \<and> \<not> acd_RequiresReview x)"

definition maintains :: "(('s, 'r) engines, 'a) autonomy \<Rightarrow> bool" where
  "maintains m \<longleftrightarrow> (\<forall>w. attended w \<longrightarrow> wp m (\<lambda>_ w'. attended w') w)"

named_theorems maintains_intros \<open>composition of programs that keep the invariant of the decisions\<close>

lemma maintainsD: "maintains m \<Longrightarrow> attended w \<Longrightarrow> wp m (\<lambda>_ w'. attended w') w"
  by (simp add: maintains_def)

lemma maintains_bind [maintains_intros]:
  "maintains m \<Longrightarrow> (\<And>a. maintains (n a)) \<Longrightarrow> maintains (State_Monad.bind m n)"
  unfolding maintains_def by (auto intro: wp_seq)

lemma maintains_if [maintains_intros]: "(c \<Longrightarrow> maintains m) \<Longrightarrow> (\<not> c \<Longrightarrow> maintains n) \<Longrightarrow> maintains (if c then m else n)"
  by simp

lemma maintains_option [maintains_intros]:
  "(x = None \<Longrightarrow> maintains m) \<Longrightarrow> (\<And>y. x = Some y \<Longrightarrow> maintains (n y)) \<Longrightarrow> maintains (case x of None \<Rightarrow> m | Some y \<Rightarrow> n y)"
  by (cases x) simp_all

lemma maintains_kept: "preserves decision_part m \<Longrightarrow> maintains m"
  unfolding maintains_def preserves_def wp_def attended_def decision_part_def by (auto split: prod.splits)

lemma list_reads_rows:
  "wp (act_List d limit) (\<lambda>r w'. aw_rows w' = aw_rows w \<and> (\<forall>ds. r = Inr ds \<longrightarrow> set ds \<subseteq> set (aw_rows w))) w"
proof -
  have "set (listed tie limit rows) \<subseteq> set rows" for tie rows
    unfolding listed_def by (rule order_trans [OF set_take_subset]) simp
  then show ?thesis
    by (auto simp: act_List_def act_next_def wp_rules Let_def split: fetch.splits dest!: in_set_takeD)
qed

lemma list_all2_set1: "list_all2 P xs ys \<Longrightarrow> x \<in> set xs \<Longrightarrow> \<exists>y \<in> set ys. P x y"
  by (induction rule: list_all2_induct) auto

text \<open>No request about decisions removes a row or changes its type or whether it needs a review.\<close>

lemma requests_attended:
  fixes w :: "('s, 'r) engines auto_world"
  assumes "readings_ok a" and "attended w"
  shows "attended (w\<lparr>au_x := (au_x w)\<lparr>en_act := act_step a rq (en_act (au_x w))\<rparr>\<rparr>)" (is "attended ?w")
proof -
  have rows: "rows_of ?w = aw_rows (act_step a rq (en_act (au_x w)))" by (simp add: rows_of_def)
  obtain xs news where s: "rows_of ?w = xs @ news" "list_all2 moved (rows_of w) xs" "\<forall>x \<in> set news. decision_ok x"
    "keyed acd_ID (rows_of ?w)"
    using step_moves [OF assms(1), of "en_act (au_x w)" rq] assms(2) unfolding rows by (auto simp: attended_def rows_of_def)
  have "\<forall>x \<in> set xs. decision_ok x" using list_all2_set2 [OF s(2)] moved_ok assms(2) unfolding attended_def by blast
  moreover have "\<exists>x' \<in> set xs. acd_ID x' = acd_ID x \<and> acd_Type x' = acd_Type x \<and> acd_RequiresReview x' = acd_RequiresReview x"
    if old: "x \<in> set (rows_of w)" for x
  proof -
    obtain x' where "x' \<in> set xs" "moved x x'" using list_all2_set1 [OF s(2) old] by blast
    then show ?thesis by (intro bexI [of _ x']) (auto simp: moved_def)
  qed
  then have "\<exists>x \<in> set xs. acd_ID x = di_ID y \<and> acd_Type x = di_Type y \<and> \<not> acd_RequiresReview x" if "y \<in> set (au_created w)" for y
    using that assms(2) unfolding attended_def by metis
  ultimately show ?thesis using s unfolding attended_def by (simp add: ball_Un bex_Un)
qed

lemma run_attended:
  assumes "readings_ok a"
  shows "maintains (au_call (arn_Run (autonomyActuationBridge (Some a))) :: (('s, 'r) engines, string + int \<times> int) autonomy)"
proof -
  have "attended (w\<lparr>au_x := (au_x w)\<lparr>en_act := snd (run_state (act_Run a) (en_act (au_x w)))\<rparr>\<rparr>)" if "attended w"
    for w :: "('s, 'r) engines auto_world" using requests_attended [OF assms that, of Rq_Run] by simp
  then show ?thesis
    by (simp add: maintains_def wp_au_call autonomyActuationBridge_def answer_with_def at_act_def case_prod_beta)
qed

definition listed_of :: "('s, 'r) engines auto_world \<Rightarrow> decision_info list \<Rightarrow> bool" where
  "listed_of w ds \<longleftrightarrow> set ds \<subseteq> decision_view ` set (rows_of w)"

lemma list_attended:
  "wp (au_call (arn_ListDecisions (autonomyActuationBridge ae) n))
     (\<lambda>r w'. decision_part w' = decision_part w \<and> (\<forall>ds. r = Inr ds \<longrightarrow> listed_of w ds)) w"
proof (cases ae)
  case (Some a)
  obtain r e where r: "run_state (act_List a n) (en_act (au_x w)) = (r, e)" by fastforce
  have "aw_rows e = rows_of w" "\<And>ds. r = Inr ds \<Longrightarrow> set ds \<subseteq> set (rows_of w)"
    using wp_run [OF list_reads_rows r] by (auto simp: rows_of_def)
  then show ?thesis using Some r
    by (cases r) (auto simp: wp_au_call autonomyActuationBridge_def answer_with_def at_act_def decision_part_def rows_of_def listed_of_def)
qed (simp add: wp_au_call autonomyActuationBridge_def listed_of_def)

lemma materialize_attended:
  assumes "attended w" and "listed_of w xs"
  shows "wp (materialize (gateway_deps gw) xs n) (\<lambda>_ w'. attended w') w"
proof (rule wpI)
  fix a w'
  assume r: "run_state (materialize (gateway_deps gw) xs n) w = (a, w')"
  have rows: "rows_of w' = rows_of w" by (rule keeps_run [OF table.materialize_kept r])
  obtain ys where ys: "au_created w' = au_created w @ ys" "\<forall>y \<in> set ys. y \<in> set xs \<and> \<not> di_RequiresReview y"
    using wp_run [OF spec [OF materialize_asks [unfolded asks_for_def]] r] by blast
  have "\<exists>x \<in> set (rows_of w). acd_ID x = di_ID y \<and> acd_Type x = di_Type y \<and> \<not> acd_RequiresReview x" if "y \<in> set ys" for y
  proof -
    have "y \<in> decision_view ` set (rows_of w)" using subsetD [OF assms(2) [unfolded listed_of_def]] ys(2) that by simp
    then obtain x where "x \<in> set (rows_of w)" "y = decision_view x" by (rule imageE)
    moreover have "\<not> di_RequiresReview y" using ys(2) that by simp
    ultimately show ?thesis by (intro bexI [of _ x]) (simp_all add: decision_view_def)
  qed
  then show "attended w'" using assms(1) rows ys(1) unfolding attended_def by auto
qed

lemma classify_decisions: "preserves decision_part (classify (gateway_deps gw) heavy xs counts)"
proof -
  have "decision_part w' = decision_part w" if r: "run_state (classify (gateway_deps gw) heavy xs counts) w = (a, w')" for w a w'
    using keeps_run [OF table.classify_kept r] wp_run [OF classify_within r] by (simp add: decision_part_def)
  then show ?thesis unfolding preserves_def by (blast intro: wpI)
qed

lemma attended_part: "decision_part v = decision_part w \<Longrightarrow> attended w \<Longrightarrow> attended v"
  "decision_part v = decision_part w \<Longrightarrow> listed_of w ds \<Longrightarrow> listed_of v ds"
  by (simp_all add: attended_def listed_of_def decision_part_def)

lemma set_decisions: "preserves decision_part (au_set g)"
  by (simp add: preserves_def wp_rules decision_part_def rows_of_def)

text \<open>What the actuation cycle does with the decisions it lists.\<close>

lemma handling_attended:
  fixes gw :: "('s, 'r) gateway" and w :: "('s, 'r) engines auto_world"
  assumes "attended w" and "listed_of w ds"
  shows "wp (classify (gateway_deps gw) heavy ds (0, 0) \<bind> (\<lambda>(queued, suppressed).
      au_set (g queued suppressed) \<bind> (\<lambda>_. materialize (gateway_deps gw) ds 0 \<bind>
        (\<lambda>n. (if 0 < n then au_set (h n) else State_Monad.return ()) \<bind> (\<lambda>_. State_Monad.return c))))) (\<lambda>_ w'. attended w') w"
proof (rule wp_seq [OF keepsD [OF classify_decisions]], clarify, rule wp_seq [OF keepsD [OF set_decisions]], goal_cases)
  case (1 queued suppressed v u t)
  then have t: "attended t" "listed_of t ds" using attended_part assms by metis+
  have "maintains ((if 0 < n then au_set (h n) else State_Monad.return ()) \<bind> (\<lambda>_. State_Monad.return c))" for n :: int
    by (intro maintains_intros maintains_kept keeps_return set_decisions)
  then show ?case by (intro wp_seq [OF materialize_attended [OF t]]) (rule maintainsD)
qed

lemma actuation_attended:
  fixes gw :: "('s, 'r) gateway"
  assumes "\<And>a. gw_actuation gw = Some a \<Longrightarrow> readings_ok a"
  shows "maintains (cycleActuation (gateway_deps gw))"
proof -
  have run: "maintains (au_call (arn_Run (autonomyActuationBridge (gw_actuation gw))) :: (('s, 'r) engines, string + int \<times> int) autonomy)"
  proof (cases "gw_actuation gw")
    case None
    then show ?thesis by (simp add: maintains_def wp_au_call autonomyActuationBridge_def)
  next
    case (Some a)
    then show ?thesis using run_attended [OF assms [OF Some]] by simp
  qed
  show ?thesis unfolding cycleActuation_def gateway_fields option.case maintains_def
  proof (intro allI impI, rule wp_seq [OF maintainsD [OF run]], assumption, goal_cases)
    case (1 w0 r w)
    show ?case
    proof (cases r)
      case (Inr res)
      show ?thesis unfolding Inr sum.case wp_bind [of "au_ask _"] wp_au_ask Let_def
      proof (rule wp_seq [OF list_attended], goal_cases)
        case (1 listing v)
        then have "attended v" using attended_part(1) \<open>attended w\<close> by blast
        moreover have "listed_of v (case listing of Inl e \<Rightarrow> [] | Inr ds \<Rightarrow> ds)"
          using 1 attended_part(2) [of v w] by (cases listing) (simp_all add: listed_of_def)
        ultimately show ?case by (rule handling_attended)
      qed
    qed (use 1 in \<open>simp add: wp_return\<close>)
  qed
qed

lemma run_named_attended:
  assumes "\<And>a. gw_actuation gw = Some a \<Longrightarrow> readings_ok a"
  shows "maintains (run_named (gateway_deps gw) c)"
proof (cases "c = ''actuation''")
  case True
  then show ?thesis using actuation_attended [OF assms] by (simp add: run_named_def)
next
  case False
  then show ?thesis unfolding run_named_def by (intro maintains_if maintains_kept decisions.cycles_kept keeps_return) simp_all
qed

lemma steps_decisions:
  "preserves decision_part (au_read g)" "preserves decision_part (State (\<lambda>w. (x, w\<lparr>au_cfg := cfg\<rparr>)))"
  "preserves decision_part (State (\<lambda>w. (x, w\<lparr>au_state := f (au_state w), au_stopClosed := False\<rparr>)))"
  "preserves decision_part stop_close"
  by (simp_all add: preserves_def wp_rules decision_part_def rows_of_def stop_close_def)

lemma control_decisions:
  fixes gw :: "('s, 'r) gateway"
  shows "preserves decision_part (dedupe_Cleanup (gateway_deps gw) age)"
    and "preserves decision_part (downgrade (gateway_deps gw) reason)"
    and "preserves decision_part (disableHeavyActions (gateway_deps gw) reason)"
    and "preserves decision_part (checkRecovery (gateway_deps gw))"
    and "preserves decision_part (runSafetyChecks (gateway_deps gw))"
proof -
  show "preserves decision_part (dedupe_Cleanup (gateway_deps gw) age)"
    by (simp add: preserves_def dedupe_Cleanup_def wp_rules decision_part_def rows_of_def)
  show d: "preserves decision_part (downgrade (gateway_deps gw) reason)" for reason
    unfolding downgrade_def by (intro keeps_intros audit_decisions set_decisions)
  have h: "preserves decision_part (disableHeavyActions (gateway_deps gw) reason)" for reason
    unfolding disableHeavyActions_def by (intro keeps_intros audit_decisions set_decisions)
  then show "preserves decision_part (disableHeavyActions (gateway_deps gw) reason)" .
  show "preserves decision_part (checkRecovery (gateway_deps gw))"
    unfolding checkRecovery_def by (intro keeps_intros audit_decisions set_decisions)
  show "preserves decision_part (runSafetyChecks (gateway_deps gw))"
    unfolding runSafetyChecks_def by (intro keeps_intros d h decisions.call_kept other_calls.intros)
qed

lemmas attended_steps = maintains_kept [OF keeps_return] maintains_kept [OF keeps_ask] maintains_kept [OF keeps_mode]
  maintains_kept [OF audit_decisions] maintains_kept [OF set_decisions]
  steps_decisions [THEN maintains_kept] control_decisions [THEN maintains_kept]

lemma runCycles_attended:
  assumes "\<And>a. gw_actuation gw = Some a \<Longrightarrow> readings_ok a"
  shows "maintains (runCycles (gateway_deps gw) now cs ok)"
proof (induction cs arbitrary: ok)
  case (Cons c cs)
  have "maintains (runCycle (gateway_deps gw) c now)" unfolding runCycle_def
    by (intro maintains_intros run_named_attended assms attended_steps)
  then show ?case using Cons by (simp add: maintains_bind)
qed (simp add: attended_steps)

lemma tick_attended:
  assumes "\<And>a. gw_actuation gw = Some a \<Longrightarrow> readings_ok a"
  shows "maintains (auto_tick (gateway_deps gw))"
  unfolding auto_tick_def tick_body_def Let_def by (intro maintains_intros attended_steps runCycles_attended assms)

lemma start_attended:
  assumes "\<And>a. gw_actuation gw = Some a \<Longrightarrow> readings_ok a"
  shows "maintains (auto_Start (gateway_deps gw))"
proof -
  have boot: "maintains (bootstrap_cycle (gateway_deps gw) wanted c)" for wanted c unfolding bootstrap_cycle_def
    by (intro maintains_intros run_named_attended assms attended_steps)
  have all: "maintains (runBootstrap (gateway_deps gw))" unfolding runBootstrap_def
    by (intro maintains_intros boot attended_steps)
  have gov: "maintains (au_call (autonomyGovernanceBridge (gw_controller gw) mode reason))" for mode reason
    by (rule maintains_kept) (auto simp: preserves_def wp_au_call decision_part_def rows_of_def dest: arg_cong [of _ _ snd] split: prod.splits)
  show ?thesis unfolding auto_Start_def start_services_def gateway_fields option.case
    by (intro maintains_intros attended_steps gov all)
qed

lemma control_attended:
  "maintains (auto_Stop (gateway_deps gw))" "maintains (auto_SetMode (gateway_deps gw) mode)"
  "maintains (auto_ReloadConfig (gateway_deps gw) cfg)"
  unfolding auto_Stop_def stop_check_def stop_finish_def auto_SetMode_def auto_ReloadConfig_def
  by (intro maintains_intros attended_steps)+

section \<open>The gateway as it runs\<close>

text \<open>
  A request of the gateway: a tick of the loop, the control of the runtime, a restart of the program with its
  database, a request about a decision, and whatever else changes the state of the other engines.
\<close>

datatype ('s, 'r) gateway_request =
  Gw_Tick | Gw_Start | Gw_Stop | Gw_Mode string | Gw_Reload auto_config | Gw_Restart auto_config
  | Gw_Decision act_request | Gw_Others "'s orch_world" governance_db 'r

fun gateway_step :: "('s, 'r) gateway \<Rightarrow> ('s, 'r) gateway_request \<Rightarrow> ('s, 'r) engines auto_world \<Rightarrow> ('s, 'r) engines auto_world" where
  "gateway_step gw Gw_Tick w = snd (run_state (auto_tick (gateway_deps gw)) w)"
| "gateway_step gw Gw_Start w = snd (run_state (auto_Start (gateway_deps gw)) w)"
| "gateway_step gw Gw_Stop w = snd (run_state (auto_Stop (gateway_deps gw)) w)"
| "gateway_step gw (Gw_Mode mode) w = snd (run_state (auto_SetMode (gateway_deps gw) mode) w)"
| "gateway_step gw (Gw_Reload cfg) w = snd (run_state (auto_ReloadConfig (gateway_deps gw) cfg) w)"
| "gateway_step gw (Gw_Restart cfg) w = NewOrchestrator cfg (au_x w)"
| "gateway_step gw (Gw_Decision rq) w =
     (case gw_actuation gw of None \<Rightarrow> w | Some a \<Rightarrow> w\<lparr>au_x := (au_x w)\<lparr>en_act := act_step a rq (en_act (au_x w))\<rparr>\<rparr>)"
| "gateway_step gw (Gw_Others ow g r) w = w\<lparr>au_x := (au_x w)\<lparr>en_orch := ow, en_gov := g, en_rest := r\<rparr>\<rparr>"

inductive gateway_reach :: "('s, 'r) gateway \<Rightarrow> ('s, 'r) engines auto_world \<Rightarrow> bool" for gw where
  installed: "aw_rows (en_act x) = [] \<Longrightarrow> gateway_reach gw (NewOrchestrator cfg x)"
| stepped: "gateway_reach gw w \<Longrightarrow> gateway_reach gw (gateway_step gw rq w)"

lemma step_attended:
  assumes "\<And>a. gw_actuation gw = Some a \<Longrightarrow> readings_ok a" and "attended w"
  shows "attended (gateway_step gw rq w)"
proof (cases rq)
  case (Gw_Decision r)
  then show ?thesis using requests_attended [OF assms(1) assms(2)] assms(2) by (auto split: option.splits)
next
  case (Gw_Others ow g r)
  then show ?thesis using assms(2) by (simp add: attended_def rows_of_def)
next
  case (Gw_Restart cfg)
  then show ?thesis using assms(2) by (simp add: attended_def rows_of_def NewOrchestrator_def)
qed (simp_all only: gateway_step.simps; rule wp_fst [OF maintainsD [OF _ assms(2)]]; rule tick_attended start_attended control_attended; rule assms(1))+

text \<open>
  C31: The runtime leaves to people what needs a person. Whatever the gateway has done since it was installed,
  the runtime has requested a task only for decisions of the table that require no review, and never for one
  that triggers automation.
\<close>

theorem reviewed_decisions_wait_for_people:
  assumes "\<And>a. gw_actuation gw = Some a \<Longrightarrow> readings_ok a" and "gateway_reach gw w" and "y \<in> set (au_created w)"
  shows "di_Type y \<noteq> ActTriggerAutomation \<and>
    (\<exists>x \<in> set (aw_rows (en_act (au_x w))). acd_ID x = di_ID y \<and> acd_Type x = di_Type y \<and> \<not> acd_RequiresReview x)"
proof -
  have "attended w" using assms(2)
  proof induction
    case (installed x cfg)
    then show ?case by (simp add: attended_def rows_of_def NewOrchestrator_def)
  qed (rule step_attended [OF assms(1)])
  then show ?thesis using assms(3) unfolding attended_def rows_of_def decision_ok_def by metis
qed

text \<open>A gateway that has no orchestrator, no controller and a financial risk to act upon, and acts at its start.\<close>

definition wit_gateway :: "(pg, unit) gateway" where
  "wit_gateway =
     \<lparr>gw_rest = sample_deps, gw_planning = (\<lambda>x. (None, x)), gw_actuation = Some risky, gw_orchestrator = None, gw_controller = None\<rparr>"

definition wit_installed :: "(pg, unit) engines auto_world" where
  "wit_installed = NewOrchestrator (sample_config\<lparr>ac_RunActuationOnce := True\<rparr>)
     \<lparr>en_act = no_decisions, en_orch = wit_world [] [] [], en_gov = \<lparr>gov_row = None, gov_actions = [], gov_audit = []\<rparr>, en_calls = 0, en_rest = ()\<rparr>"

lemma risky_lists:
  "\<exists>x res e e'. run_state (act_Run risky) no_decisions = (res, e) \<and> run_state (act_List risky 50) e = (Inr [x], e') \<and>
     acd_Type x = ActStabilizeIncome \<and> acd_Status x = StatusProposed \<and> \<not> acd_RequiresReview x"
proof -
  obtain res e where r: "run_state (act_Run risky) no_decisions = (res, e)" by fastforce
  have "map (\<lambda>x. (acd_Type x, acd_Status x, acd_RequiresReview x)) (aw_rows (snd (run_state (act_Run risky) no_decisions))) =
      [(ActStabilizeIncome, StatusProposed, False)]"
    using risk_thresholds by (simp add: act_run_defs act_row_def Let_def ReviewRequired_def act_types)
  then obtain x where "aw_rows e = [x]" "acd_Type x = ActStabilizeIncome" "acd_Status x = StatusProposed" "\<not> acd_RequiresReview x"
    using r by auto
  moreover from this have "run_state (act_List risky 50) e = (Inr [x], e\<lparr>aw_tick := Suc (aw_tick e)\<rparr>)"
    by (simp add: act_List_def act_next_def listed_def risky_def quiet_deps_def Let_def)
  ultimately show ?thesis using r by blast
qed

lemma wit_asks: "\<exists>y \<in> set (au_created (gateway_step wit_gateway Gw_Start wit_installed)). di_Type y = ActStabilizeIncome"
proof -
  let ?d = "gateway_deps wit_gateway"
  obtain x res e e' where x: "run_state (act_Run risky) no_decisions = (res, e)" "run_state (act_List risky 50) e = (Inr [x], e')"
    "acd_Type x = ActStabilizeIncome" "acd_Status x = StatusProposed" "\<not> acd_RequiresReview x" using risky_lists by blast
  let ?c = "sample_config\<lparr>ac_RunActuationOnce := True\<rparr>"
  let ?w = "wit_installed\<lparr>au_tick := 1, au_state := (newRuntimeState ModeAutonomous)\<lparr>rs_Running := True, rs_StartedAt := Some 0\<rparr>\<rparr>"
  have "wp (cycleActuation ?d) (\<lambda>_ w'. au_created w' = au_created ?w @ filter (\<lambda>x. di_Status x = ''proposed'' \<and> \<not> di_RequiresReview x) [decision_view x]) ?w"
    by (rule cycle_requests_all [OF gateway_fields(1) _ _ gateway_fields(3), where counts = "projr (run_view res)" and ?x1.0 = "(au_x ?w)\<lparr>en_act := e\<rparr>" and ?x2.0 = "(au_x ?w)\<lparr>en_act := e'\<rparr>"])
      (use x in \<open>simp_all add: wit_gateway_def autonomyActuationBridge_def autonomyTaskOrchBridge_def answer_with_def at_act_def run_view_def
        wit_installed_def NewOrchestrator_def newRuntimeState_def ModeAutonomous_def AutonomyFrozen_def\<close>)
  then have "wp (cycleActuation ?d) (\<lambda>_ w'. au_created w' = [decision_view x]) ?w"
    using x by (simp add: wit_installed_def NewOrchestrator_def decision_view_def StatusProposed_def)
  then have "wp (cycleActuation ?d \<bind> (\<lambda>_. au_read (ap_clock ?d) \<bind> (\<lambda>n. au_set (mark_run ''actuation'' n) \<bind>
      (\<lambda>_. State_Monad.return (None :: string option))))) (\<lambda>_ w'. au_created w' = [decision_view x]) ?w"
    by (rule wp_seq) (simp add: wp_rules)
  then have "wp (auto_Start ?d) (\<lambda>_ w'. au_created w' = [decision_view x]) wit_installed"
    by (simp add: auto_Start_def start_services_def runBootstrap_def bootstrap_cycle_def run_named_def wp_rules gateway_fields au_audit_def
        gateway_deps_def Let_def wit_gateway_def wit_installed_def NewOrchestrator_def sample_config_def sample_deps_def newRuntimeState_def)
  from wp_fst [OF this] show ?thesis using x(3) by (simp add: decision_view_def)
qed

theorem reviewed_decisions_wait_for_people_witness:
  "\<exists>y \<in> set (au_created (gateway_step wit_gateway Gw_Start wit_installed)). di_Type y = ActStabilizeIncome \<and>
     (\<exists>x \<in> set (aw_rows (en_act (au_x (gateway_step wit_gateway Gw_Start wit_installed)))). acd_ID x = di_ID y \<and> \<not> acd_RequiresReview x)"
proof -
  let ?w = "gateway_step wit_gateway Gw_Start wit_installed"
  have "gateway_reach wit_gateway wit_installed"
    unfolding wit_installed_def by (rule gateway_reach.installed) (simp add: no_decisions_def)
  then have reach: "gateway_reach wit_gateway ?w" by (rule gateway_reach.stepped)
  have ok: "readings_ok a" if "gw_actuation wit_gateway = Some a" for a using that risky_ok by (simp add: wit_gateway_def)
  obtain y where y: "y \<in> set (au_created ?w)" "di_Type y = ActStabilizeIncome" using wit_asks by blast
  from reviewed_decisions_wait_for_people [OF ok reach y(1)] show ?thesis using y by blast
qed

section \<open>Governance at the start\<close>

text \<open>The cycles do not use the governance: without it they do the same.\<close>

definition ungoverned :: "'x auto_deps \<Rightarrow> 'x auto_deps" where
  "ungoverned d = d\<lparr>ap_governance := None\<rparr>"

lemma ungoverned_fields:
  "ap_clock (ungoverned d) = ap_clock d" "ap_newUUID (ungoverned d) = ap_newUUID d" "ap_auditor (ungoverned d) = ap_auditor d"
  "ap_reflection (ungoverned d) = ap_reflection d" "ap_objective (ungoverned d) = ap_objective d"
  "ap_actuation (ungoverned d) = ap_actuation d" "ap_taskOrchestrator (ungoverned d) = ap_taskOrchestrator d"
  by (simp_all add: ungoverned_def)

lemma ungoverned_steps:
  "au_audit (ungoverned d) = au_audit d" "IsDuplicate (ungoverned d) = IsDuplicate d" "request_task (ungoverned d) = request_task d"
  unfolding fun_eq_iff au_audit_def IsDuplicate_def request_task_def ungoverned_fields by (intro allI refl)+

lemma ungoverned_task: "MaterializeDecisionAsTask (ungoverned d) = MaterializeDecisionAsTask d"
  unfolding fun_eq_iff MaterializeDecisionAsTask_def create_from_decision_def ungoverned_fields ungoverned_steps by (intro allI refl)

lemma ungoverned_materialize: "materialize (ungoverned d) xs n = materialize d xs n"
proof (induction xs arbitrary: n)
  case (Cons x xs)
  show ?case unfolding materialize.simps ungoverned_task Cons ..
qed simp

lemma ungoverned_classify: "classify (ungoverned d) heavy xs c = classify d heavy xs c"
proof (induction xs arbitrary: c)
  case (Cons x xs)
  obtain q s where c: "c = (q, s)" by fastforce
  show ?case unfolding c classify.simps ungoverned_steps Cons ..
qed (cases c; simp)

lemma ungoverned_bootstrap: "runBootstrap (ungoverned d) = runBootstrap d"
proof -
  have "cycleReflection (ungoverned d) = cycleReflection d" "cycleObjective (ungoverned d) = cycleObjective d"
    "cycleActuation (ungoverned d) = cycleActuation d" "cycleReporting (ungoverned d) = cycleReporting d"
    unfolding cycleReflection_def cycleObjective_def cycleActuation_def cycleReporting_def ungoverned_fields ungoverned_steps
      ungoverned_materialize ungoverned_classify by (rule refl)+
  then show ?thesis unfolding runBootstrap_def bootstrap_cycle_def run_named_def ungoverned_fields
    by (simp only: char.inject list.inject list.distinct refl if_True if_False simp_thms)
qed

definition gov_of :: "('s, 'r) engines auto_world \<Rightarrow> governance_db" where
  "gov_of w = en_gov (au_x w)"

lemma lifted_keep_governance [simp]:
  "en_gov (snd (at_rest g x)) = en_gov x" "en_gov (snd (at_plan p x)) = en_gov x" "en_gov (snd (at_orch h x)) = en_gov x"
  "en_gov (snd (at_act m x)) = en_gov x"
  by (simp_all add: at_rest_def at_plan_def at_orch_def at_act_def split: prod.splits)

lemma other_calls_leave_governance: "g \<in> other_calls (ungoverned (gateway_deps gw)) \<Longrightarrow> en_gov (g x) = en_gov x"
  by (induction rule: other_calls.induct)
    (auto simp: ungoverned_def gateway_deps_def Let_def feedback_at_rest_def autonomyTaskOrchBridge_def split: option.splits)

interpretation governed: kept_by_actuation "ungoverned (gateway_deps gw)" gov_of for gw :: "('s, 'r) gateway"
  by unfold_locales (simp_all add: gov_of_def other_calls_leave_governance)

lemma call_keeps_governance: "(\<And>x. en_gov (snd (g x)) = en_gov x) \<Longrightarrow> preserves gov_of (au_call g)"
  by (simp add: preserves_def wp_au_call gov_of_def case_prod_beta)

lemma actuation_keeps_governance:
  "preserves gov_of (au_call (arn_Run (autonomyActuationBridge ae)))"
  "preserves gov_of (au_call (arn_ListDecisions (autonomyActuationBridge ae) n))"
  by (rule call_keeps_governance, simp add: autonomyActuationBridge_def split: option.splits)+

lemma bootstrap_keeps_governance: "preserves gov_of (runBootstrap (gateway_deps gw))"
proof -
  let ?d = "ungoverned (gateway_deps gw)"
  have act: "preserves gov_of (cycleActuation ?d)"
    unfolding cycleActuation_def ungoverned_fields gateway_fields option.case Let_def
    by (intro keeps_intros actuation_keeps_governance governed.classify_kept governed.materialize_kept governed.set_core)
      (simp_all add: core_def)
  have named: "preserves gov_of (run_named ?d c)" if "c \<in> {''reflection'', ''objective'', ''actuation'', ''reporting''}" for c
    using that act governed.cycles_kept [of gw] by (auto simp: run_named_def)
  have "preserves gov_of (au_set g)" for g by (simp add: preserves_def wp_rules gov_of_def)
  then have "preserves gov_of (bootstrap_cycle ?d wanted c)" if "c \<in> {''reflection'', ''objective'', ''actuation'', ''reporting''}" for wanted c
    unfolding bootstrap_cycle_def using named [OF that] by (intro keeps_intros governed.read_kept)
  then have "preserves gov_of (runBootstrap ?d)" unfolding runBootstrap_def by (intro keeps_intros) simp_all
  then show ?thesis unfolding ungoverned_bootstrap .
qed

text \<open>
  C37: A start lifts a freeze. When the runtime starts with any startup mode but \<open>frozen\<close>, the row of the
  governance becomes that of an unfrozen system with no restriction, whatever an operator had set before:
  frozen, rolled back or on hold.
\<close>

theorem startup_lifts_a_freeze:
  fixes gw :: "('s, 'r) gateway" and w :: "('s, 'r) engines auto_world"
  assumes "gw_controller gw = Some gc" and "\<not> rs_Running (au_state w)" and "ac_StartupMode (au_cfg w) \<notin> {'''', ''frozen''}"
    and "ge_save_ok (gv_env gc (en_calls (au_x w)))"
  shows "\<exists>st. gov_row (en_gov (au_x (snd (run_state (auto_Start (gateway_deps gw)) w)))) = Some st \<and> gs_Mode st = ModeNormal \<and>
    \<not> IsFrozen st \<and> \<not> IsLearningBlocked st \<and> \<not> IsPolicyBlocked st \<and> \<not> IsExplorationBlocked st"
proof -
  let ?d = "gateway_deps gw" and ?st = "cleared_state (ge_now (gv_env gc (en_calls (au_x w)))) ''autonomy orchestrator startup''"
  let ?free = "\<lambda>w' :: ('s, 'r) engines auto_world. gov_row (gov_of w') = Some ?st"
  have call: "wp (au_call (autonomyGovernanceBridge (gw_controller gw) (ac_StartupMode (au_cfg w)) ''autonomy orchestrator startup'')) (\<lambda>_. ?free) v"
    if "au_x v = au_x w" for v
    using assms that by (auto simp: wp_au_call autonomyGovernanceBridge_def governance_mode_def Unfreeze_def gov_commit_def SaveState_def
        gov_emit_def RecordAction_def gov_of_def)
  have rest: "wp (au_audit ?d ev x \<bind> (\<lambda>_. runBootstrap ?d \<bind> (\<lambda>_. State_Monad.return c))) (\<lambda>_. ?free) v"
    if "?free v" for ev x v and c :: "string option"
  proof -
    have "preserves gov_of (au_audit ?d ev x)"
      by (auto simp: preserves_def au_audit_def wp_rules gov_of_def split: option.splits)
    then have "preserves gov_of (au_audit ?d ev x \<bind> (\<lambda>_. runBootstrap ?d \<bind> (\<lambda>_. State_Monad.return c)))"
      by (intro keeps_intros bootstrap_keeps_governance)
    from keepsD [OF this, of v] show ?thesis by (rule wp_mono) (use that in simp)
  qed
  have "wp (auto_Start ?d) (\<lambda>_. ?free) w"
    using assms(2,3) unfolding auto_Start_def start_services_def gateway_fields option.case
    by (simp add: wp_bind [of "au_ask _"] wp_bind [of "au_read _"] wp_bind [of "State _"] wp_au_ask wp_au_read wp_State wp_if)
      (intro wp_seq [OF call] rest; simp)
  from wp_fst [OF this] show ?thesis
    by (simp add: gov_of_def cleared_state_def DefaultState_def IsFrozen_def IsLearningBlocked_def IsPolicyBlocked_def IsExplorationBlocked_def
        ModeNormal_def ModeFrozen_def ModeRollbackOnly_def ModeSafeHold_def)
qed

definition wit_frozen :: "(pg, unit) engines auto_world" where
  "wit_frozen = wit_installed\<lparr>au_cfg := sample_config\<lparr>ac_StartupMode := ModeSupervisedAutonomy\<rparr>,
     au_x := (au_x wit_installed)\<lparr>en_gov := wit_gdb\<lparr>gov_row := Some (frozen_state 1 wit_freeze (DefaultState 0))\<rparr>\<rparr>\<rparr>"

theorem startup_lifts_a_freeze_witness:
  "map_option IsFrozen (gov_row (en_gov (au_x wit_frozen))) = Some True \<and>
   map_option IsFrozen (gov_row (en_gov (au_x (snd (run_state (auto_Start (gateway_deps
     (wit_gateway\<lparr>gw_controller := Some \<lparr>gv_env = \<lambda>_. wit_genv 2, gv_between = \<lambda>_ g. g, gv_text = \<lambda>_. ''''\<rparr>\<rparr>))) wit_frozen))))) = Some False"
proof -
  let ?gc = "\<lparr>gv_env = \<lambda>_. wit_genv 2, gv_between = \<lambda>_ g. g, gv_text = \<lambda>_. ''''\<rparr>"
  have "\<not> rs_Running (au_state wit_frozen)" "ac_StartupMode (au_cfg wit_frozen) \<notin> {'''', ''frozen''}" "ge_save_ok (gv_env ?gc n)" for n
    by (simp_all add: wit_frozen_def wit_installed_def NewOrchestrator_def newRuntimeState_def ModeSupervisedAutonomy_def wit_genv_def)
  from startup_lifts_a_freeze [of "wit_gateway\<lparr>gw_controller := Some ?gc\<rparr>", OF _ this] show ?thesis
    by (auto simp: wit_frozen_def frozen_state_def IsFrozen_def)
qed

section \<open>From a decision to one task\<close>

text \<open>
  The PostgreSQL tables of the orchestrator, with no failing statement and fresh identifiers. A row holds
  its decision; the task of a decision is pending, has the goal and the strategy of its type and its priority
  as urgency and value.
\<close>

definition task_row_for :: "decision_info \<Rightarrow> task_row \<Rightarrow> bool" where
  "task_row_for x r \<longleftrightarrow> tr_actuation_decision_id r = Some (di_ID x) \<and> ot_Source (tr_Task r) = ''actuation'' \<and>
     ot_Goal (tr_Task r) = decision_goal (di_Type x) \<and> ot_Status (tr_Task r) = TaskStatusPending \<and>
     ot_Urgency (tr_Task r) = clamp01 (clamp01 (di_Priority x)) \<and> ot_ExpectedValue (tr_Task r) = di_Priority x \<and>
     ot_StrategyType (tr_Task r) = string_at actuationTypeToStrategy (di_Type x)"

text \<open>The decisions without a task, in order, each once.\<close>

fun unserved :: "string set \<Rightarrow> decision_info list \<Rightarrow> decision_info list" where
  "unserved served [] = []"
| "unserved served (x # xs) =
     (if di_Status x \<noteq> ''proposed'' \<or> di_RequiresReview x \<or> di_ID x \<in> served then unserved served xs
      else x # unserved (insert (di_ID x) served) xs)"

definition served :: "task_row list \<Rightarrow> string set" where
  "served rows = {i. \<exists>r \<in> set rows. tr_actuation_decision_id r = Some i}"

definition tasks_of :: "(pg, 'r) engines auto_world \<Rightarrow> task_row list" where
  "tasks_of w = pg_tasks (ow_store (en_orch (au_x w)))"

text \<open>The store answers, no stored task has the empty identifier, and the identifiers to come are fresh.\<close>

definition ready :: "pg orch_access \<Rightarrow> (pg, 'r) engines auto_world \<Rightarrow> bool" where
  "ready a w \<longleftrightarrow> oa_ops a = pg_ops \<and> pg_faults (ow_store (en_orch (au_x w))) = [] \<and> keyed row_id (tasks_of w) \<and>
     (\<forall>r \<in> set (tasks_of w). row_id r \<noteq> '''') \<and> (\<forall>n \<ge> en_calls (au_x w). oa_uuid a n \<noteq> '''' \<and> oa_uuid a n \<notin> row_id ` set (tasks_of w)) \<and>
     inj (oa_uuid a) \<and> rs_Mode (au_state w) \<noteq> AutonomyFrozen"

lemma find_served:
  assumes "\<forall>r \<in> set rows. row_id r \<noteq> ''''"
  shows "((case find (\<lambda>r. tr_actuation_decision_id r = Some i) rows of None \<Rightarrow> '''' | Some r \<Rightarrow> row_id r) = '''') \<longleftrightarrow> i \<notin> served rows"
  using assms by (auto simp: served_def find_None_iff find_Some_iff split: option.splits)

lemma pg_exec_healthy: "pg_faults s = [] \<Longrightarrow> pg_exec msg stmt s = (case stmt s of Some s' \<Rightarrow> (None, s') | None \<Rightarrow> (Some (ErrWrap msg ErrDB), s))"
  by (simp add: pg_exec_def pg_next_def split: option.splits)

lemma find_call:
  assumes "oa_ops a = pg_ops" and "pg_faults (ow_store (en_orch x)) = []"
  shows "trn_FindByActuationDecision (autonomyTaskOrchBridge (Some a)) i x =
    ((case find (\<lambda>r. tr_actuation_decision_id r = Some i) (pg_tasks (ow_store (en_orch x))) of None \<Rightarrow> '''' | Some r \<Rightarrow> row_id r, None),
     x\<lparr>en_calls := Suc (en_calls x)\<rparr>)"
  using assms by (simp add: autonomyTaskOrchBridge_def Let_def answer_with_def at_orch_def on_store_def pg_ops_def
      pg_FindByActuationDecision_def pg_row_def pg_next_def)

lemma create_call:
  assumes "oa_ops a = pg_ops" and "pg_faults (ow_store (en_orch x)) = []"
    and "row_of row_id (pg_tasks (ow_store (en_orch x))) (oa_uuid a (en_calls x)) = None"
  shows "\<exists>x'. trn_CreateTask (autonomyTaskOrchBridge (Some a)) source goal u v k strat x = (Inr (oa_uuid a (en_calls x)), x') \<and>
    en_calls x' = Suc (en_calls x) \<and> ow_store (en_orch x') = (ow_store (en_orch x))\<lparr>pg_tasks := pg_tasks (ow_store (en_orch x)) @
      [to_row (new_task (oa_now a (en_calls x)) (oa_uuid a (en_calls x)) source goal u v k strat)]\<rparr>"
  using assms by (simp add: autonomyTaskOrchBridge_def Let_def answer_with_def at_orch_def on_store_def pg_ops_def CreateTask_def
      pg_Insert_def pg_exec_healthy new_task_def int4_def)

lemma link_call:
  assumes "oa_ops a = pg_ops" and "pg_faults (ow_store (en_orch x)) = []"
  shows "trn_SetActuationDecisionID (autonomyTaskOrchBridge (Some a)) i j x = (None, x\<lparr>en_calls := Suc (en_calls x),
    en_orch := (en_orch x)\<lparr>ow_store := (ow_store (en_orch x))\<lparr>pg_tasks := sql_update (\<lambda>r. row_id r = i)
      (\<lambda>r. r\<lparr>tr_actuation_decision_id := Some j, tr_Task := (tr_Task r)\<lparr>ot_UpdatedAt := oa_now a (en_calls x)\<rparr>\<rparr>) (pg_tasks (ow_store (en_orch x)))\<rparr>\<rparr>\<rparr>)"
  using assms by (simp add: autonomyTaskOrchBridge_def Let_def answer_with_def at_orch_def on_store_def pg_ops_def
      pg_SetActuationDecisionID_def pg_set_def pg_exec_healthy)

definition store_part :: "(pg, 'r) engines auto_world \<Rightarrow> (pg, 'r) engines \<times> string" where
  "store_part w = (au_x w, rs_Mode (au_state w))"

lemma store_part_same:
  assumes "store_part v = store_part w"
  shows "ready a v = ready a w" and "tasks_of v = tasks_of w"
  using assms by (simp_all add: ready_def tasks_of_def store_part_def)

lemma audit_store: "preserves store_part (au_audit d ev about)"
  by (auto simp: preserves_def au_audit_def wp_rules store_part_def split: option.splits)

lemma find_ready:
  assumes "ready a w"
  shows "ready a (w\<lparr>au_x := (au_x w)\<lparr>en_calls := Suc (en_calls (au_x w))\<rparr>\<rparr>)"
  using assms by (simp add: ready_def tasks_of_def)

lemma served_row:
  assumes "ready a w" and "ow_store (en_orch x1) = (ow_store (en_orch (au_x w)))\<lparr>pg_tasks := tasks_of w @ [to_row t]\<rparr>"
    and "en_calls x1 = Suc (en_calls (au_x w))" and "ot_ID t = oa_uuid a (en_calls (au_x w))"
    and "tr_Task r = (tr_Task (to_row t))\<lparr>ot_UpdatedAt := u\<rparr>"
    and "x2 = x1\<lparr>en_calls := Suc (en_calls x1), en_orch := (en_orch x1)\<lparr>ow_store := (ow_store (en_orch x1))\<lparr>pg_tasks := tasks_of w @ [r]\<rparr>\<rparr>\<rparr>"
  shows "ready a (w\<lparr>au_x := x2\<rparr>)" and "tasks_of (w\<lparr>au_x := x2\<rparr>) = tasks_of w @ [r]"
proof -
  let ?u = "oa_uuid a (en_calls (au_x w))"
  have r: "row_id r = ?u" using assms(4,5) by (simp add: to_row_def)
  have "oa_uuid a n \<noteq> ?u" if "Suc (en_calls (au_x w)) \<le> n" for n
    using that assms(1) injD [of "oa_uuid a" n "en_calls (au_x w)"] by (auto simp: ready_def)
  moreover have "keyed row_id (tasks_of w @ [r])"
    using assms(1) r by (auto simp: ready_def keyed_def)
  moreover have "?u \<noteq> ''''" using assms(1) by (simp add: ready_def)
  ultimately show "ready a (w\<lparr>au_x := x2\<rparr>)" using assms(1,2,3,6) r by (auto simp: ready_def tasks_of_def)
  show "tasks_of (w\<lparr>au_x := x2\<rparr>) = tasks_of w @ [r]" using assms(6) by (simp add: tasks_of_def)
qed

lemma request_serves:
  fixes w :: "(pg, 'r) engines auto_world"
  assumes "ready a w"
  shows "wp (request_task d (autonomyTaskOrchBridge (Some a)) x)
    (\<lambda>res w'. ready a w' \<and> (\<exists>t. res = Inr (t, True)) \<and> (\<exists>r. tasks_of w' = tasks_of w @ [r] \<and> task_row_for x r)) w"
proof -
  let ?x = "au_x w" and ?risk = "if di_RequiresReview x then f64 (6 / 10) else f64 (3 / 10)"
  let ?t = "new_task (oa_now a (en_calls ?x)) (oa_uuid a (en_calls ?x)) ''actuation'' (decision_goal (di_Type x)) (clamp01 (di_Priority x))
    (di_Priority x) ?risk (string_at actuationTypeToStrategy (di_Type x))"
  have pg: "oa_ops a = pg_ops" "pg_faults (ow_store (en_orch ?x)) = []" using assms by (simp_all add: ready_def)
  have fresh: "row_of row_id (tasks_of w) (oa_uuid a (en_calls ?x)) = None"
    using assms by (auto simp: ready_def row_of_None_iff)
  then obtain x1 where c: "trn_CreateTask (autonomyTaskOrchBridge (Some a)) ''actuation'' (decision_goal (di_Type x)) (clamp01 (di_Priority x))
      (di_Priority x) ?risk (string_at actuationTypeToStrategy (di_Type x)) ?x = (Inr (oa_uuid a (en_calls ?x)), x1)"
    "en_calls x1 = Suc (en_calls ?x)" "ow_store (en_orch x1) = (ow_store (en_orch ?x))\<lparr>pg_tasks := tasks_of w @ [to_row ?t]\<rparr>"
    using create_call [OF pg] unfolding tasks_of_def by metis
  let ?r = "(to_row ?t)\<lparr>tr_actuation_decision_id := Some (di_ID x), tr_Task := (tr_Task (to_row ?t))\<lparr>ot_UpdatedAt := oa_now a (en_calls x1)\<rparr>\<rparr>"
  define x2 where "x2 = x1\<lparr>en_calls := Suc (en_calls x1), en_orch := (en_orch x1)\<lparr>ow_store := (ow_store (en_orch x1))\<lparr>pg_tasks := tasks_of w @ [?r]\<rparr>\<rparr>\<rparr>"
  have "\<forall>r \<in> set (tasks_of w). row_id r \<noteq> oa_uuid a (en_calls ?x)" using fresh unfolding row_of_None_iff by (metis imageI)
  then have upd: "sql_update (\<lambda>r. row_id r = oa_uuid a (en_calls ?x)) f (tasks_of w) = tasks_of w" for f
    by (intro sql_update_none) simp
  have l: "trn_SetActuationDecisionID (autonomyTaskOrchBridge (Some a)) (oa_uuid a (en_calls ?x)) (di_ID x) x1 = (None, x2)"
    using pg c(3) upd [unfolded sql_update_def] by (simp add: link_call x2_def sql_update_def new_task_def to_row_def)
  have row: "task_row_for x ?r" by (simp add: task_row_for_def new_task_def to_row_def)
  have new: "ot_ID ?t = oa_uuid a (en_calls ?x)" "tr_Task ?r = (tr_Task (to_row ?t))\<lparr>ot_UpdatedAt := oa_now a (en_calls x1)\<rparr>"
    by (simp_all add: new_task_def)
  note ok = served_row [OF assms c(3,2) new x2_def]
  have same: "ready a w' \<and> (\<exists>r. tasks_of w' = tasks_of w @ [r] \<and> task_row_for x r)" if "store_part w' = store_part (w\<lparr>au_x := x2\<rparr>)" for w'
    unfolding store_part_same [OF that] ok(2) using ok(1) row by blast
  have "wp (au_audit d ev about \<bind> (\<lambda>_. State_Monad.return (Inr (oa_uuid a (en_calls ?x), True) :: string + string \<times> bool)))
      (\<lambda>res w'. ready a w' \<and> (\<exists>t. res = Inr (t, True)) \<and> (\<exists>r. tasks_of w' = tasks_of w @ [r] \<and> task_row_for x r)) (w\<lparr>au_x := x2\<rparr>)" for ev about
    by (rule wp_seq [OF keepsD [OF audit_store]]) (use same in \<open>simp add: wp_return\<close>)
  then show ?thesis using c(1) l by (simp add: request_task_def Let_def wp_bind [of "au_call _"] wp_au_call)
qed

lemma materialize_one_serves:
  assumes "gw_orchestrator gw = Some a" and "ready a w" and "di_Status x = ''proposed''" and "\<not> di_RequiresReview x"
  shows "wp (MaterializeDecisionAsTask (gateway_deps gw) x) (\<lambda>res w'. ready a w' \<and>
    (if di_ID x \<in> served (tasks_of w) then tasks_of w' = tasks_of w \<and> (\<exists>t. res = Inr (t, False))
     else (\<exists>r. tasks_of w' = tasks_of w @ [r] \<and> task_row_for x r) \<and> (\<exists>t. res = Inr (t, True)))) w"
proof -
  let ?d = "gateway_deps gw" and ?w = "w\<lparr>au_x := (au_x w)\<lparr>en_calls := Suc (en_calls (au_x w))\<rparr>\<rparr>"
  let ?v = "?w\<lparr>au_created := au_created w @ [x]\<rparr>"
  have pg: "oa_ops a = pg_ops" "pg_faults (ow_store (en_orch (au_x w))) = []" "\<forall>r \<in> set (tasks_of w). row_id r \<noteq> ''''"
    "rs_Mode (au_state w) \<noteq> AutonomyFrozen" using assms(2) by (simp_all add: ready_def)
  have mode: "rs_Mode (au_state w) = ModeSupervisedAutonomy \<longrightarrow> \<not> di_RequiresReview x" using assms(4) by simp
  have w: "ready a ?w" "tasks_of ?w = tasks_of w" using find_ready [OF assms(2)] by (simp_all add: tasks_of_def)
  then have v: "ready a ?v" "tasks_of ?v = tasks_of w" by (simp_all add: ready_def tasks_of_def)
  obtain existing where call: "trn_FindByActuationDecision (autonomyTaskOrchBridge (Some a)) (di_ID x) (au_x w) = ((existing, None), (au_x w)\<lparr>en_calls := Suc (en_calls (au_x w))\<rparr>)"
    and found: "existing = '''' \<longleftrightarrow> di_ID x \<notin> served (tasks_of w)"
    using find_call [OF pg(1,2)] find_served [OF pg(3)] by (simp add: tasks_of_def)
  have start: "wp (MaterializeDecisionAsTask ?d x) Q w \<longleftrightarrow>
      wp (if existing \<noteq> '''' then au_audit ?d ''actuation.task_skipped_duplicate'' (di_ID x) \<bind> (\<lambda>_. State_Monad.return (Inr (existing, False)))
          else create_from_decision ?d (autonomyTaskOrchBridge (Some a)) x) Q ?w" for Q
    unfolding MaterializeDecisionAsTask_def gateway_fields assms(1) option.case wp_bind [of au_mode] wp_au_mode
    using pg(4) assms(4) call by (simp only: if_False simp_thms wp_bind [of "au_call _"] wp_au_call prod.case)
  show ?thesis
  proof (cases "di_ID x \<in> served (tasks_of w)")
    case True
    have same: "ready a u \<and> tasks_of u = tasks_of w" if "store_part u = store_part ?w" for u
      unfolding store_part_same [OF that] using w by simp
    have "wp (au_audit ?d ev about \<bind> (\<lambda>_. State_Monad.return (Inr (t, False) :: string + string \<times> bool)))
        (\<lambda>res w'. ready a w' \<and> tasks_of w' = tasks_of w \<and> (\<exists>t. res = Inr (t, False))) ?w" for ev about t
      by (rule wp_seq [OF keepsD [OF audit_store]]) (use same in \<open>simp add: wp_return\<close>)
    then show ?thesis unfolding start using True found by simp
  next
    case False
    have "wp (create_from_decision ?d (autonomyTaskOrchBridge (Some a)) x)
        (\<lambda>res w'. ready a w' \<and> (\<exists>t. res = Inr (t, True)) \<and> (\<exists>r. tasks_of w' = tasks_of w @ [r] \<and> task_row_for x r)) ?w"
      using request_serves [OF v(1), of ?d x] unfolding create_from_decision_def wp_bind [of "State _"] wp_State prod.case v(2) by simp
    then show ?thesis unfolding start using False found by (simp add: conj_commute)
  qed
qed

lemma served_snoc: "task_row_for x r \<Longrightarrow> served (rows @ [r]) = insert (di_ID x) (served rows)"
  by (auto simp: served_def task_row_for_def)

lemma materialize_serves:
  assumes "gw_orchestrator gw = Some a"
  shows "ready a w \<Longrightarrow> wp (materialize (gateway_deps gw) xs n) (\<lambda>k w'. ready a w' \<and>
    (\<exists>rows. tasks_of w' = tasks_of w @ rows \<and> list_all2 task_row_for (unserved (served (tasks_of w)) xs) rows \<and> k = n + int (length rows))) w"
proof (induction xs arbitrary: w n)
  case (Cons x xs)
  show ?case
  proof (cases "di_Status x = ''proposed'' \<and> \<not> di_RequiresReview x")
    case True
    let ?Q = "\<lambda>k w'. ready a w' \<and> (\<exists>rows. tasks_of w' = tasks_of w @ rows \<and>
      list_all2 task_row_for (unserved (served (tasks_of w)) (x # xs)) rows \<and> k = n + int (length rows))"
    have "wp (MaterializeDecisionAsTask (gateway_deps gw) x \<bind>
        (\<lambda>res. materialize (gateway_deps gw) xs (case res of Inl e \<Rightarrow> n | Inr (i, created) \<Rightarrow> if created then n + 1 else n))) ?Q w"
    proof (rule wp_seq [OF materialize_one_serves [OF assms Cons.prems]], goal_cases)
      case (3 res v)
      then have v: "ready a v" by simp
      show ?case
      proof (cases "di_ID x \<in> served (tasks_of w)")
        case True
        then obtain t where "tasks_of v = tasks_of w" "res = Inr (t, False)" using 3 by auto
        then show ?thesis using True by (intro wp_mono [OF Cons.IH [OF v]]) auto
      next
        case False
        then obtain r t where r: "tasks_of v = tasks_of w @ [r]" "task_row_for x r" "res = Inr (t, True)" using 3 by auto
        have fin: "?Q k w'" if "ready a w'" "tasks_of w' = tasks_of v @ rows"
          "list_all2 task_row_for (unserved (served (tasks_of v)) xs) rows" "k = n + 1 + int (length rows)" for k w' rows
          using that r False \<open>di_Status x = _ \<and> _\<close> by (intro conjI exI [of _ "r # rows"]) (simp_all add: served_snoc)
        show ?thesis unfolding r(3) sum.case prod.case if_True by (rule wp_mono [OF Cons.IH [OF v]]) (elim conjE exE, rule fin)
      qed
    qed (use True in simp_all)
    then show ?thesis using True by simp
  next
    case False
    then have "materialize (gateway_deps gw) (x # xs) n = materialize (gateway_deps gw) xs n" by simp
    then show ?thesis using Cons.IH [OF Cons.prems, of n] False by auto
  qed
qed (simp add: wp_return)

lemma unserved_after: "di_ID ` set (unserved s xs) \<union> s \<subseteq> s' \<Longrightarrow> unserved s' xs = []"
proof (induction xs arbitrary: s)
  case (Cons x xs)
  show ?case
  proof (cases "di_Status x \<noteq> ''proposed'' \<or> di_RequiresReview x \<or> di_ID x \<in> s")
    case True
    then show ?thesis using Cons.IH [of s] Cons.prems by auto
  next
    case False
    then show ?thesis using Cons.IH [of "insert (di_ID x) s"] Cons.prems by auto
  qed
qed simp

lemma served_rows: "list_all2 task_row_for xs rows \<Longrightarrow> served (old @ rows) = served old \<union> di_ID ` set xs"
proof (induction arbitrary: old rule: list_all2_induct)
  case (Cons x xs r rows)
  then show ?case using Cons.IH [of "old @ [r]"] by (auto simp: served_snoc)
qed simp

text \<open>
  C32: A decision becomes one task. With a store that answers and outside the frozen mode, the second pass of the
  actuation cycle adds one pending task for each listed decision that is proposed, needs no review and has no task
  yet, in the order of the list, linked to its decision and with the goal, the strategy and the urgency that its type
  and priority give; it counts what it adds, and the same list given again adds nothing.
\<close>

theorem each_decision_becomes_one_task:
  assumes "gw_orchestrator gw = Some a" and "ready a w"
    and "run_state (materialize (gateway_deps gw) xs 0) w = (k, w')" and "run_state (materialize (gateway_deps gw) xs 0) w' = (k', w'')"
  shows "\<exists>rows. tasks_of w' = tasks_of w @ rows \<and> list_all2 task_row_for (unserved (served (tasks_of w)) xs) rows \<and>
    k = int (length rows) \<and> tasks_of w'' = tasks_of w' \<and> k' = 0"
proof -
  obtain rows where r: "ready a w'" "tasks_of w' = tasks_of w @ rows" "list_all2 task_row_for (unserved (served (tasks_of w)) xs) rows"
    "k = int (length rows)" using wp_run [OF materialize_serves [OF assms(1,2)] assms(3)] by auto
  have "unserved (served (tasks_of w')) xs = []"
    using served_rows [OF r(3)] unfolding r(2) by (intro unserved_after) auto
  then show ?thesis using r wp_run [OF materialize_serves [OF assms(1) r(1)] assms(4)] by auto
qed

definition wit_orch :: "pg orch_access" where
  "wit_orch = \<lparr>oa_ops = pg_ops, oa_deps = \<lambda>_. wit_deps ''completed'', oa_now = int, oa_uuid = (\<lambda>n. replicate (Suc n) CHR ''t''), oa_text = \<lambda>_. ''''\<rparr>"

definition wit_info :: "string \<Rightarrow> bool \<Rightarrow> decision_info" where
  "wit_info i review = \<lparr>di_ID = i, di_Type = ''reduce_load'', di_Status = ''proposed'', di_RequiresReview = review, di_Priority = Fin 1, di_ProposedAt = 0\<rparr>"

lemma wit_orch_ready: "ready wit_orch wit_installed"
proof -
  have "inj (oa_uuid wit_orch)" by (auto simp: inj_def wit_orch_def dest: arg_cong [of _ _ length])
  then show ?thesis
    by (simp add: ready_def tasks_of_def wit_orch_def wit_installed_def NewOrchestrator_def wit_world_def newRuntimeState_def
        sample_config_def ModeAutonomous_def AutonomyFrozen_def)
qed

theorem each_decision_becomes_one_task_witness:
  "map tr_actuation_decision_id (tasks_of (snd (run_state (materialize (gateway_deps (wit_gateway\<lparr>gw_orchestrator := Some wit_orch\<rparr>))
     [wit_info ''a'' False, wit_info ''b'' True, wit_info ''a'' False, wit_info ''c'' False] 0) wit_installed))) = [Some ''a'', Some ''c'']"
proof -
  let ?gw = "wit_gateway\<lparr>gw_orchestrator := Some wit_orch\<rparr>"
  let ?xs = "[wit_info ''a'' False, wit_info ''b'' True, wit_info ''a'' False, wit_info ''c'' False]"
  obtain k w' where r: "run_state (materialize (gateway_deps ?gw) ?xs 0) wit_installed = (k, w')" by fastforce
  obtain k' w'' where r': "run_state (materialize (gateway_deps ?gw) ?xs 0) w' = (k', w'')" by fastforce
  have none: "tasks_of wit_installed = []" by (simp add: tasks_of_def wit_installed_def NewOrchestrator_def wit_world_def)
  have "unserved (served (tasks_of wit_installed)) ?xs = [wit_info ''a'' False, wit_info ''c'' False]"
    by (simp add: none served_def wit_info_def)
  with each_decision_becomes_one_task [OF _ wit_orch_ready r r'] none have "list_all2 task_row_for [wit_info ''a'' False, wit_info ''c'' False] (tasks_of w')"
    by (auto simp: wit_gateway_def)
  then show ?thesis using r by (auto simp: list_all2_Cons1 task_row_for_def wit_info_def)
qed

section \<open>Suppressed decisions\<close>

lemma classify_store: "preserves store_part (classify d heavy xs counts)"
proof (induction xs arbitrary: counts)
  case (Cons x xs)
  have dup: "preserves store_part (IsDuplicate d k n)" for k n
    by (auto simp: preserves_def IsDuplicate_def wp_rules store_part_def split: option.splits)
  have set: "preserves store_part (au_set (\<lambda>s. s\<lparr>rs_ActionsTakenThisCycle := rs_ActionsTakenThisCycle s + 1, rs_SafeActionsRouted := rs_SafeActionsRouted s + 1\<rparr>))"
    by (simp add: preserves_def wp_rules store_part_def)
  show ?case by (cases counts) (simp only: classify.simps, intro keeps_intros audit_store dup set Cons)
qed (cases counts; simp add: keeps_return)

lemma safe_served:
  "di_ID ` set (filter (\<lambda>x. di_Status x = ''proposed'' \<and> \<not> di_RequiresReview x) xs) \<subseteq> s \<union> di_ID ` set (unserved s xs)"
proof (induction xs arbitrary: s)
  case (Cons x xs)
  show ?case using Cons.IH [of s] Cons.IH [of "insert (di_ID x) s"] by auto
qed simp

lemma suppressed_kept: "preserves (\<lambda>w. rs_SuppressedDecisions (au_state w)) (classify d heavy xs counts)"
proof (induction xs arbitrary: counts)
  case (Cons x xs)
  have audit: "preserves (\<lambda>w. rs_SuppressedDecisions (au_state w)) (au_audit d ev about)" for ev about
    by (auto simp: preserves_def au_audit_def wp_rules split: option.splits)
  have dup: "preserves (\<lambda>w. rs_SuppressedDecisions (au_state w)) (IsDuplicate d k n)" for k n
    by (auto simp: preserves_def IsDuplicate_def wp_rules split: option.splits)
  have set: "preserves (\<lambda>w. rs_SuppressedDecisions (au_state w))
      (au_set (\<lambda>s. s\<lparr>rs_ActionsTakenThisCycle := rs_ActionsTakenThisCycle s + 1, rs_SafeActionsRouted := rs_SafeActionsRouted s + 1\<rparr>))"
    by (simp add: preserves_def wp_rules)
  show ?case by (cases counts) (simp only: classify.simps, intro keeps_intros audit dup set Cons)
qed (cases counts; simp add: keeps_return)

text \<open>The two passes of a cycle over the list of decisions.\<close>

lemma passes_serve:
  fixes xs :: "decision_info list" and w :: "(pg, 'r) engines auto_world"
  assumes "gw_orchestrator gw = Some a" and "ready a w"
  defines "safe \<equiv> filter (\<lambda>x. di_Status x = ''proposed'' \<and> \<not> di_RequiresReview x) xs"
    and "room \<equiv> max 0 (ac_MaxActionsPerCycle (au_cfg w) - rs_ActionsTakenThisCycle (au_state w))"
  shows "wp (do {
      (queued, suppressed) \<leftarrow> classify (gateway_deps gw) heavy xs (0, 0);
      au_set (\<lambda>s. s\<lparr>rs_ReviewActionsQueued := rs_ReviewActionsQueued s + queued, rs_SuppressedDecisions := rs_SuppressedDecisions s + suppressed\<rparr>);
      tasksCreated \<leftarrow> materialize (gateway_deps gw) xs 0;
      (if tasksCreated > 0
       then au_set (\<lambda>s. s\<lparr>rs_TasksCreatedFromActuation := rs_TasksCreatedFromActuation s + tasksCreated\<rparr>)
       else State_Monad.return ());
      State_Monad.return (None :: string option) })
    (\<lambda>_ w'. rs_SafeActionsRouted (au_state w') - rs_SafeActionsRouted (au_state w) \<le> room \<and>
       int (length safe) - room \<le> rs_SuppressedDecisions (au_state w') - rs_SuppressedDecisions (au_state w) \<and>
       di_ID ` set safe \<subseteq> served (tasks_of w')) w"
proof (rule wp_seq [OF wp_conj [OF classify_counts wp_conj [OF classify_within wp_conj [OF keepsD [OF classify_store] keepsD [OF suppressed_kept]]]]], goal_cases)
  case (1 c v)
  obtain q s where c: "c = (q, s)" by fastforce
  let ?P = "\<lambda>x. di_Status x = ''proposed''"
  let ?v = "v\<lparr>au_state := (au_state v)\<lparr>rs_ReviewActionsQueued := rs_ReviewActionsQueued (au_state v) + q, rs_SuppressedDecisions := rs_SuppressedDecisions (au_state v) + s\<rparr>\<rparr>"
  have v: "q + s + (rs_SafeActionsRouted (au_state v) - rs_SafeActionsRouted (au_state w)) = int (length (filter ?P xs))"
    "q \<le> int (length (filter (\<lambda>x. ?P x \<and> di_RequiresReview x) xs))" "within_limit w v" "store_part v = store_part w"
    "rs_SuppressedDecisions (au_state v) = rs_SuppressedDecisions (au_state w)" using 1 by (simp_all add: c)
  have "length (filter ?P xs) = length (filter (\<lambda>x. ?P x \<and> di_RequiresReview x) xs) + length safe"
    unfolding safe_def by (induction xs) auto
  moreover have routed: "rs_SafeActionsRouted (au_state v) - rs_SafeActionsRouted (au_state w) \<le> room"
    using v(3) unfolding within_limit_def room_def by linarith
  ultimately have s: "int (length safe) - room \<le> s" using v(1,2) by linarith
  have "store_part ?v = store_part w" using v(4) by (simp add: store_part_def)
  then have ready: "ready a ?v" and old: "tasks_of ?v = tasks_of w" using assms(2) store_part_same by blast+
  have "wp (materialize (gateway_deps gw) xs 0) (\<lambda>k u. au_state u = au_state ?v \<and> di_ID ` set safe \<subseteq> served (tasks_of u)) ?v"
  proof (rule wp_mono [OF wp_conj [OF keepsD [OF materialize_state] materialize_serves [OF assms(1) ready]]], goal_cases)
    case (1 k u)
    then obtain rows where rows: "tasks_of u = tasks_of ?v @ rows" "list_all2 task_row_for (unserved (served (tasks_of ?v)) xs) rows" by auto
    have "di_ID ` set safe \<subseteq> served (tasks_of ?v) \<union> di_ID ` set (unserved (served (tasks_of ?v)) xs)"
      unfolding safe_def by (rule safe_served)
    then show ?case using 1 served_rows [OF rows(2)] unfolding rows(1) by auto
  qed
  from this have "wp (materialize (gateway_deps gw) xs 0 \<bind> (\<lambda>tasksCreated.
      (if tasksCreated > 0 then au_set (\<lambda>s. s\<lparr>rs_TasksCreatedFromActuation := rs_TasksCreatedFromActuation s + tasksCreated\<rparr>)
       else State_Monad.return ()) \<bind> (\<lambda>_. State_Monad.return (None :: string option))))
    (\<lambda>_ w'. rs_SafeActionsRouted (au_state w') - rs_SafeActionsRouted (au_state w) \<le> room \<and>
       int (length safe) - room \<le> rs_SuppressedDecisions (au_state w') - rs_SuppressedDecisions (au_state w) \<and>
       di_ID ` set safe \<subseteq> served (tasks_of w')) ?v"
    by (rule wp_seq) (use s routed v(5) in \<open>simp add: wp_rules tasks_of_def\<close>)
  then show ?case by (simp add: c wp_bind [of "au_set _"] wp_au_set)
qed

text \<open>
  C36: Suppressing a decision does not keep it from becoming a task. With the engines of the gateway, a store that
  answers, and outside the frozen mode, an actuation cycle routes no more decisions than the limit of the cycle leaves;
  it counts at least the rest of the listed decisions that are proposed and need no review as suppressed; yet at its
  end every one of them, routed or suppressed, has a task that is linked to it.
\<close>

theorem suppressed_decisions_become_tasks:
  assumes "gw_orchestrator gw = Some a" and "gw_actuation gw = Some act" and "ready a w"
    and "run_state (act_Run act) (en_act (au_x w)) = (res, e1)" and "run_state (act_List act 50) e1 = (Inr ds, e2)"
    and "run_state (cycleActuation (gateway_deps gw)) w = (r, w')"
    and "safe = filter (\<lambda>x. acd_Status x = ''proposed'' \<and> \<not> acd_RequiresReview x) ds"
    and "left = max 0 (ac_MaxActionsPerCycle (au_cfg w) - rs_ActionsTakenThisCycle (au_state w))"
  shows "rs_SafeActionsRouted (au_state w') \<le> rs_SafeActionsRouted (au_state w) + left \<and>
    rs_SuppressedDecisions (au_state w) + (int (length safe) - left) \<le> rs_SuppressedDecisions (au_state w') \<and>
    (\<forall>x \<in> set safe. \<exists>t \<in> set (tasks_of w'). tr_actuation_decision_id t = Some (acd_ID x))"
proof -
  let ?w = "w\<lparr>au_x := (au_x w)\<lparr>en_act := e2\<rparr>\<rparr>"
  have ready: "ready a ?w" using assms(3) by (simp add: ready_def tasks_of_def)
  have safe: "filter (\<lambda>x. di_Status x = ''proposed'' \<and> \<not> di_RequiresReview x) (map decision_view ds) = map decision_view safe"
    unfolding assms(7) filter_map by (simp add: decision_view_def comp_def)
  have "wp (cycleActuation (gateway_deps gw)) (\<lambda>_ w'. rs_SafeActionsRouted (au_state w') - rs_SafeActionsRouted (au_state w) \<le> left \<and>
      int (length safe) - left \<le> rs_SuppressedDecisions (au_state w') - rs_SuppressedDecisions (au_state w) \<and>
      di_ID ` set (map decision_view safe) \<subseteq> served (tasks_of w')) w"
    using passes_serve [OF assms(1) ready, of "rs_HeavyActionsDisabled (au_state w)" "map decision_view ds"] assms(2,4,5)
    by (simp add: cycleActuation_def gateway_fields autonomyActuationBridge_def answer_with_def at_act_def run_view_def safe assms(8)
        wp_bind [of "au_call _"] wp_bind [of "au_ask _"] wp_au_call wp_au_ask Let_def)
  from wp_run [OF this assms(6)] show ?thesis by (auto simp: served_def decision_view_def image_image image_subset_iff)
qed

text \<open>Two proposed decisions in the table, a limit of one, and an engine that proposes nothing new.\<close>

definition wit_two :: "act_decision list" where
  "wit_two = [wit_decision ''proposed'', (wit_decision ''proposed'')\<lparr>acd_ID := ''e''\<rparr>]"

definition wit_full :: "(pg, unit) engines auto_world" where
  "wit_full = wit_installed\<lparr>au_x := (au_x wit_installed)\<lparr>en_act := no_decisions\<lparr>aw_rows := wit_two\<rparr>\<rparr>\<rparr>"

lemma quiet_lists:
  "\<exists>res e1 ds e2. run_state (act_Run quiet_deps) (no_decisions\<lparr>aw_rows := wit_two\<rparr>) = (res, e1) \<and>
     run_state (act_List quiet_deps 50) e1 = (Inr ds, e2) \<and> mset ds = mset wit_two"
proof -
  obtain res e1 where r: "run_state (act_Run quiet_deps) (no_decisions\<lparr>aw_rows := wit_two\<rparr>) = (res, e1)" by fastforce
  have low: "\<not> flt HighFinancialRiskThreshold (Fin 0)" using rnd_unit [of "70 / 100"] by (auto simp: HighFinancialRiskThreshold_def)
  have "aw_rows (snd (run_state (act_Run quiet_deps) (no_decisions\<lparr>aw_rows := wit_two\<rparr>))) = wit_two"
    using risk_thresholds(2) low by (simp add: act_run_defs zero_inputs_def Let_def)
  then have rows: "aw_rows e1 = wit_two" using r by simp
  let ?ds = "listed (\<lambda>_. 0) 50 wit_two"
  have "run_state (act_List quiet_deps 50) e1 = (Inr ?ds, e1\<lparr>aw_tick := Suc (aw_tick e1)\<rparr>)"
    by (simp add: act_List_def act_next_def quiet_deps_def rows Let_def)
  moreover have "mset ?ds = mset wit_two" by (simp add: listed_def wit_two_def)
  ultimately show ?thesis using r by blast
qed

theorem suppressed_decisions_become_tasks_witness:
  "\<exists>w'. snd (run_state (cycleActuation (gateway_deps (wit_gateway\<lparr>gw_actuation := Some quiet_deps, gw_orchestrator := Some wit_orch\<rparr>))) wit_full) = w' \<and>
     rs_SafeActionsRouted (au_state w') \<le> 1 \<and> 1 \<le> rs_SuppressedDecisions (au_state w') \<and>
     (\<forall>i \<in> {''d'', ''e''}. \<exists>t \<in> set (tasks_of w'). tr_actuation_decision_id t = Some i)"
proof -
  let ?gw = "wit_gateway\<lparr>gw_actuation := Some quiet_deps, gw_orchestrator := Some wit_orch\<rparr>"
  obtain r w' where run: "run_state (cycleActuation (gateway_deps ?gw)) wit_full = (r, w')" by fastforce
  obtain res e1 ds e2 where act: "run_state (act_Run quiet_deps) (en_act (au_x wit_full)) = (res, e1)"
    "run_state (act_List quiet_deps 50) e1 = (Inr ds, e2)" and ds: "mset ds = mset wit_two"
    using quiet_lists by (auto simp: wit_full_def wit_installed_def NewOrchestrator_def)
  have ready: "ready wit_orch wit_full" using wit_orch_ready by (simp add: ready_def wit_full_def tasks_of_def)
  have "\<forall>x \<in> set ds. acd_Status x = ''proposed'' \<and> \<not> acd_RequiresReview x"
    unfolding mset_eq_setD [OF ds] by (simp add: wit_two_def wit_decision_def)
  then have safe: "filter (\<lambda>x. acd_Status x = ''proposed'' \<and> \<not> acd_RequiresReview x) ds = ds" by simp
  have "length ds = 2" "acd_ID ` set ds = {''d'', ''e''}"
    using mset_eq_length [OF ds] mset_eq_setD [OF ds] by (auto simp: wit_two_def wit_decision_def)
  moreover have "max 0 (ac_MaxActionsPerCycle (au_cfg wit_full) - rs_ActionsTakenThisCycle (au_state wit_full)) = 1"
    "rs_SafeActionsRouted (au_state wit_full) = 0" "rs_SuppressedDecisions (au_state wit_full) = 0"
    by (simp_all add: wit_full_def wit_installed_def NewOrchestrator_def newRuntimeState_def sample_config_def)
  moreover have "gw_orchestrator ?gw = Some wit_orch" "gw_actuation ?gw = Some quiet_deps" by (simp_all add: wit_gateway_def)
  ultimately show ?thesis
    using suppressed_decisions_become_tasks [OF _ _ ready act run safe [symmetric] refl] run by (auto simp flip: \<open>acd_ID ` set ds = _\<close>)
qed

end
