(* ===== verification/Spec2Isabelle.thy ===== *)
theory Spec2Isabelle
  imports Control Orchestrator Execution Governance Wiring Provider_Catalog Autonomy_Wiring
begin

text \<open>
  Arcanum turns tasks of an external task list into jobs, processes them with language models, and
  runs an agent that plans goals, scores and dispatches tasks and acts outside under operator control.
  This development models its core as HOL definitions that follow the Go sources under
  \<open>src/\<close> and proves what makes them correct; where the code falls short of what its comments
  promise, a theorem says what it does instead.

  \<^bold>\<open>Foundations.\<close> \<open>Prelude\<close>: keyed rows, SQL updates, sorting and selection.
  \<open>Go_Text\<close>, \<open>Go_Json\<close>: the text and JSON functions of Go's library on byte strings.
  \<open>Float64\<close>: \<open>float64\<close> as rationals with round-to-nearest-even, infinities and NaN (no
  signed zero, no fused multiply-add). \<open>Go_Sort\<close>: the two insertion-sort loops, with the locale
  \<open>sort_order\<close>; \<open>Go_Stable\<close>: \<open>sort.SliceStable\<close>. \<open>Programs\<close>: state-monad programs
  and their weakest preconditions.

  \<^bold>\<open>Jobs.\<close> \<open>Jobs\<close> models \<open>internal/jobs/queue.go\<close> over the table
  \<open>processing_jobs\<close> and the lifecycle table; \<open>Bus\<close> the events and the publisher;
  \<open>Control\<close> the scan of \<open>internal/control/loop.go\<close>; \<open>Source\<close> change detection and
  the syncer of \<open>internal/source\<close>; \<open>Worker\<close> \<open>internal/worker/runner.go\<close> with the
  heartbeat; \<open>Orchestrator\<close> the message handlers. Shown: fencing of leases, which reclaim only
  ends after expiry, the invariant of every reachable table, the order of leasing, retry and dead
  letter, recovery by one scan, what a worker stores.

  \<^bold>\<open>Models and routing.\<close> \<open>Providers\<close>, \<open>Routing\<close> and \<open>Execution\<close> model
  the profiles, the startup routing and the candidate-chain engine of \<open>internal/providers\<close>.
  Shown: routing follows the policy; the engine walks the chain in order with bounded attempts, and its
  result agrees with its trace. \<open>Quota_Routing\<close> models \<open>internal/agent/provider_routing\<close>: the
  registry, the quota tracker with its table, the scorer, the router and its adapter. Shown: every
  target of a plan passed the filters for the request and the chain is bounded; requests that run one
  after the other never exceed a minute's or a day's limits, overlapping ones may; counters survive a
  restart. \<open>Provider_Catalog\<close> models \<open>internal/agent/provider_catalog\<close>: loading and
  merging of the YAML files (the YAML parser is a parameter), the validation of the \<open>validate\<close>
  command, the worker chains, the resolver and the execution settings, and how the gateway wires them.
  Shown: a file that passes validation is loaded (cost class \<open>promo\<close> apart), loaded profiles are
  executable, and the execution settings never reach a plan of the wired router.

  \<^bold>\<open>Agent.\<close> \<open>Governance\<close> models \<open>internal/agent/governance\<close>;
  \<open>Scorer\<close>, \<open>Task_Store\<close>, \<open>Task_Orch\<close> the task orchestrator;
  \<open>Exec_Store\<close>, \<open>Exec_Loop\<close> the bounded execution loop; \<open>External\<close> the external
  actions with their review; \<open>Goal_Graph\<close>, \<open>Goal_Plan\<close>, \<open>Goal_Store\<close>,
  \<open>Goal_Engine\<close> goal planning: the dependency graph, the rules, the stores, the engine with its
  replanner; \<open>Wiring\<close> the bridges of \<open>cmd/api-gateway/main.go\<close> from goal planning to the
  orchestrator, to the execution loop, to external actions. Each store is a record of operations with
  a PostgreSQL and an in-memory value, and the locales \<open>task_store\<close>, \<open>loop_store\<close>,
  \<open>goal_store\<close> state what the engines rely on; both values interpret them, and the lemmas about
  the engines are proved once, inside. Shown: limits, eligibility and order of dispatch, final
  statuses stay final, priorities are in the unit interval, a run of the loop implements an abstract
  retry policy and is bounded, a connector runs after its review only and within its retries, goal
  planning refines a step relation on the rows of subgoals, bounds active subgoals and emissions; the
  graph algorithms are exact. The compositions show that freezing stops dispatch and nothing else
  does, that the collaborators as wired never complete a task, and what an emitted task is worth.

  \<^bold>\<open>Autonomy.\<close> \<open>Actuation\<close> models \<open>internal/agent/actuation\<close>: the rules that turn signals
  into decisions, the table of decisions with its lifecycle, the engine. \<open>Autonomy\<close> models
  \<open>internal/agent/autonomy\<close>: the configuration and its validation, the runtime with its ticks, cycles and safety
  kernel, the closure from decisions to tasks and from executions back, the feedback table; its engines are
  calls on a state of their own, and the locales \<open>kept\<close> and \<open>kept_by_actuation\<close> say what a cycle
  leaves alone. \<open>Autonomy_Wiring\<close> puts the engines of \<open>Actuation\<close>, \<open>Task_Orch\<close> and
  \<open>Governance\<close> behind these calls, as the gateway does. Shown: the rules keep the best proposal of each type,
  decisions follow their lifecycle, a tick stays within its limits and starts exactly the due cycles in order, a loaded
  configuration does not panic, the safety kernel is undone by old health and by a restart; wired, the runtime leaves reviewed
  decisions and automation to people, makes one task of a decision, also of one that it has suppressed, and
  lifts a freeze when it starts.

  \<^bold>\<open>Conventions.\<close> Stateful code is explicit state passing or a program of the state monad.
  Errors are values. A database call may fail and a listing may break off: which calls do is a list of faults
  in the state or an argument, so every theorem covers every pattern of failures it does not exclude. In the stores of
  tasks, executions, external actions and goals a call may fail before or after its statement took effect; in
  \<open>Jobs\<close>, \<open>Source\<close>, \<open>Governance\<close>, \<open>Quota_Routing\<close>, \<open>Actuation\<close> and the feedback table of \<open>Autonomy\<close> a
  write that fails has no effect. Clock, UUIDs, providers and other collaborators
  are functions of the number of the call; SHA, UUID, \<open>ParseFloat\<close>, JSONB normalisation, network
  and model replies are parameters. Loops are structural, have a termination proof, or recurse on the
  iterations left, of which the code has a constant number; no fuel is involved. A Go map iterates in
  the order of an association list or of an argument. Ties of \<open>ORDER BY\<close> are broken by insertion
  order, in \<open>Actuation\<close> and \<open>Autonomy\<close> by an argument. Instants are integers in nanoseconds, rounded to PostgreSQL's microseconds in \<open>Quota_Routing\<close>,
  \<open>Actuation\<close> and \<open>Autonomy\<close>; the zero instant is 0 or None. Counters are unbounded, except that
  \<open>Quota_Routing\<close> wraps them, and \<open>Autonomy\<close> the durations of its configuration, at 64 bits. Audit records keep the event type and subject, not the payload; logs and metrics
  are left out. Operations of the agent's engines run one after the other, except where a theorem is about
  an interleaving (leases, heartbeat, governance requests).

  \<^bold>\<open>Not modelled, and why.\<close> HTTP handlers, the Telegram bot, configuration, pools, metrics
  and process lifetime: I/O around the engines. The Google connector and the processors: calls of
  services with templates of text. Left out for their size: self-extension; the optimizer of the control loop;
  arbitration, system vector and the decision graph; the learning packages, which are statistics in
  floating point; income, pricing and portfolio, which the modelled engines see as numbers of a
  provider.
\<close>

section \<open>Governance and task dispatch\<close>

text \<open>
  C12: Freezing stops task dispatch. Once a freeze request has been accepted, whatever ran between
  its read and its write, the next dispatch cycle that reads the governance mode returns the frozen
  error and changes nothing, for every store.
\<close>

theorem freeze_stops_dispatch:
  assumes "Freeze env meanwhile req g = (Inr st, g')" and "ge_read_ok env'"
    and "od_governance deps = Some (gov_GetMode env' g')"
  shows "Dispatch ops deps now w = ((no_result, Some ErrGovernanceFrozen), w)"
proof -
  have "gov_row g' = Some st" "gs_Mode st = ModeFrozen"
    using gov_run_Inr [of env meanwhile "RqFreeze req" g st g'] assms(1) by (auto simp: frozen_state_def)
  then have "gov_GetMode env' g' = ''frozen''"
    using assms(2) by (simp add: gov_GetMode_def GetState_def store_GetState_def ModeFrozen_def)
  then show ?thesis using assms(3) by (simp add: Dispatch_def getGovernanceMode_def)
qed

theorem freeze_stops_dispatch_witness:
  "fst (Dispatch pg_ops ((wit_deps ''completed'')\<lparr>od_governance := Some (gov_GetMode (wit_genv 2)
     (snd (Freeze (wit_genv 1) (\<lambda>g. g) wit_freeze wit_gdb)))\<rparr>) 3 (wit_world [wit_otask ''b'' TaskStatusQueued] [wit_entry ''b'' (1 / 2)] []))
   = (no_result, Some ErrGovernanceFrozen)"
proof -
  obtain r g' where f: "Freeze (wit_genv 1) (\<lambda>g. g) wit_freeze wit_gdb = (r, g')" by fastforce
  then obtain st where "r = Inr st" by (auto simp: Freeze_def gov_commit_def SaveState_def wit_genv_def wit_freeze_def Let_def)
  then have f: "Freeze (wit_genv 1) (\<lambda>g. g) wit_freeze wit_gdb = (Inr st, g')" using f by simp
  show ?thesis unfolding f
    by (subst freeze_stops_dispatch [OF f, of "wit_genv 2"]) (simp_all add: wit_genv_def)
qed

text \<open>
  C13: Nothing but the frozen mode holds a task back. In every governance state the operators can
  reach, readable or not, whose mode is not frozen - so also in safe hold, in rollback-only mode and
  in the fail-safe state used when the row cannot be read - a waiting task below the blocking risk
  that is alone in a healthy store is handed to the execution loop. The review gate for high-risk
  tasks asks for a mode that governance does not have and never fires.
\<close>

theorem only_freezing_stops_dispatch:
  assumes "gov_reach g" and "gov_GetMode env g \<noteq> ModeFrozen" and "od_governance deps = Some (gov_GetMode env g)"
    and "od_executionLoop deps = Some el" and "ot_Status t \<in> {TaskStatusPending, TaskStatusQueued, TaskStatusPaused}"
    and "\<not> fle BlockedRisk (ot_RiskLevel t)" and "qe_TaskID q = ot_ID t"
    and "ow_store w = \<lparr>pg_tasks = [to_row t], pg_queue = [q], pg_faults = []\<rparr>"
  shows "ow_runs (snd (Dispatch pg_ops deps now w)) = ow_runs w @ [ot_Goal t]"
proof -
  obtain st where "gov_row g = Some st" "gov_ok st" using gov_reach_ok [OF assms(1)] by blast
  then have "gov_GetMode env g \<in> set validModes"
    using GetState_cases [of env g] fail_safe_ok [of "ge_now env"] by (auto simp: gov_GetMode_def gov_ok_def)
  then have "gov_GetMode env g \<noteq> ''supervised''"
    by (auto simp: validModes_def ModeNormal_def ModeFrozen_def ModeSafeHold_def ModeRollbackOnly_def)
  then have "eligible (getGovernanceMode deps) t" "getGovernanceMode deps \<noteq> ''frozen''"
    using assms(2,3,5,6) by (simp_all add: eligible_def getGovernanceMode_def ModeFrozen_def)
  then show ?thesis using dispatch_single [OF assms(8,7)] assms(4) by blast
qed

theorem only_freezing_stops_dispatch_witness:
  "ow_runs (snd (Dispatch pg_ops ((wit_deps ''completed'')\<lparr>od_governance := Some (gov_GetMode ((wit_genv 2)\<lparr>ge_read_ok := False\<rparr>)
     \<lparr>gov_row = Some ((DefaultState 0)\<lparr>gs_Reason := []\<rparr>), gov_actions = [], gov_audit = []\<rparr>)\<rparr>) 3
     (wit_world [wit_otask ''b'' TaskStatusQueued] [wit_entry ''b'' (1 / 2)] []))) = [''write invoice'']"
proof -
  let ?g = "\<lparr>gov_row = Some ((DefaultState 0)\<lparr>gs_Reason := []\<rparr>), gov_actions = [], gov_audit = []\<rparr>"
  let ?env = "(wit_genv 2)\<lparr>ge_read_ok := False\<rparr>"
  let ?t = "wit_otask ''b'' TaskStatusQueued"
  have "gov_GetMode ?env ?g \<noteq> ModeFrozen"
    by (simp add: gov_GetMode_def GetState_def store_GetState_def fail_safe_state_def ModeSafeHold_def ModeFrozen_def)
  moreover have "gov_reach ?g" by (rule gov_reach.seed)
  moreover have "\<not> fle BlockedRisk (ot_RiskLevel ?t)" by (simp add: wit_defs)
  ultimately show ?thesis
    using only_freezing_stops_dispatch [of ?g ?env "(wit_deps ''completed'')\<lparr>od_governance := Some (gov_GetMode ?env ?g)\<rparr>"
      "wit_loop ''completed''" ?t "wit_entry ''b'' (1 / 2)" "wit_world [?t] [wit_entry ''b'' (1 / 2)] []" 3]
    by (simp add: wit_defs)
qed

end
